(* ===== verification/ByteSink.thy ===== *)
theory ByteSink
  imports Prelude
begin

section \<open>The interface of a byte sink\<close>

text \<open>
  What the marshalling code relies on when it emits a value as a run of blocks: a sink
  with an invariant, the bytes put so far, the largest block it takes in one go
  (\<open>limit\<close>) and the number of bytes it is still prepared to take in all (\<open>budget\<close>).
  The writer of \<open>ToBinary.cpp\<close> provides it twice, once for its growing buffer and once
  for a buffer of the caller.
\<close>

locale byte_sink =
  fixes put :: "byte list \<Rightarrow> 's \<Rightarrow> 's res"
    and out :: "'s \<Rightarrow> byte list"
    and inv :: "'s \<Rightarrow> bool"
    and limit :: "'s \<Rightarrow> nat"
    and budget :: "'s \<Rightarrow> nat"
  assumes put_ok: "inv s \<Longrightarrow> length bs \<le> limit s \<Longrightarrow> length bs \<le> budget s \<Longrightarrow>
      \<exists>s'. put bs s = Inr s' \<and> inv s' \<and> out s' = out s @ bs \<and> limit s \<le> limit s'
        \<and> budget s \<le> budget s' + length bs"
begin

lemma put_all_ok:
  assumes "inv s" and "\<And>b. b \<in> set bss \<Longrightarrow> length b \<le> limit s"
    and "length (concat bss) \<le> budget s"
  shows "\<exists>s'. fold_res put bss s = Inr s' \<and> inv s' \<and> out s' = out s @ concat bss
           \<and> limit s \<le> limit s' \<and> budget s \<le> budget s' + length (concat bss)"
  using assms
proof (induction bss arbitrary: s)
  case Nil
  then show ?case by simp
next
  case (Cons b bss)
  from Cons.prems have "length b \<le> limit s" "length b \<le> budget s"
    by auto
  from put_ok [OF Cons.prems(1) this] obtain t where
    t: "put b s = Inr t" "inv t" "out t = out s @ b" "limit s \<le> limit t"
      "budget s \<le> budget t + length b"
    by blast
  have "\<And>c. c \<in> set bss \<Longrightarrow> length c \<le> limit t"
    using Cons.prems(2) t(4) by (meson list.set_intros(2) le_trans)
  moreover have "length (concat bss) \<le> budget t"
    using Cons.prems(3) t(5) by simp
  ultimately obtain u where
    "fold_res put bss t = Inr u" "inv u" "out u = out t @ concat bss" "limit t \<le> limit u"
    "budget t \<le> budget u + length (concat bss)"
    using Cons.IH t(2) by blast
  with t show ?case
    by (auto intro!: exI [of _ u])
qed

end

end
