(* ===== verification/ToBinary.thy ===== *)
theory ToBinary
  imports ByteSink
begin

section \<open>bbox::enc::ToBinary: the binary writer\<close>

text \<open>
  The writer of \<open>BBoxEnc/bbox/enc/ToBinary.cpp\<close> and \<open>ToBinary.h\<close>. The buffer is a
  list of cells, \<open>None\<close> for a byte that \<open>new uint8_t[n]\<close> left uninitialised; the write
  pointer is an offset into it. \<open>size_t\<close> values are naturals up to \<open>size_max\<close>, the
  platform's \<open>SIZE_MAX\<close>, and the one size computation that can wrap (doubling the
  capacity) has the wrap-around written out. A store outside the buffer is the fault
  \<open>BufferOverrun\<close>.
\<close>

record to_binary =
  tb_Buffer :: "byte option list"
  tb_BufferLength :: nat
  tb_WritePtr :: nat
  tb_AutoAllocated :: bool
  tb_HasError :: bool
  tb_ErrorStr :: string

subsection \<open>Operations\<close>

definition ToBinary_sized :: "nat \<Rightarrow> to_binary" where
  "ToBinary_sized expected_size =
     \<lparr>tb_Buffer = replicate expected_size None, tb_BufferLength = expected_size,
      tb_WritePtr = 0, tb_AutoAllocated = True, tb_HasError = False, tb_ErrorStr = []\<rparr>"

definition ToBinary_default :: "to_binary" where
  "ToBinary_default =
     \<lparr>tb_Buffer = replicate 1024 None, tb_BufferLength = 1024,
      tb_WritePtr = 0, tb_AutoAllocated = True, tb_HasError = False, tb_ErrorStr = []\<rparr>"

definition ToBinary_fixed :: "byte option list \<Rightarrow> to_binary" where
  "ToBinary_fixed buffer =
     \<lparr>tb_Buffer = buffer, tb_BufferLength = length buffer,
      tb_WritePtr = 0, tb_AutoAllocated = False, tb_HasError = False, tb_ErrorStr = []\<rparr>"

definition tb_GetBytesWritten :: "to_binary \<Rightarrow> nat" where
  "tb_GetBytesWritten s = tb_WritePtr s"

definition ExtractData :: "to_binary \<Rightarrow> byte option list" where
  "ExtractData s =
     (if \<not> tb_HasError s then take (tb_GetBytesWritten s) (tb_Buffer s) else [])"

definition tb_SetError :: "string \<Rightarrow> to_binary \<Rightarrow> to_binary" where
  "tb_SetError err s =
     (if \<not> tb_HasError s then s\<lparr>tb_HasError := True, tb_ErrorStr := err\<rparr> else s)"

definition PrivateTestForWrite :: "nat \<Rightarrow> nat \<Rightarrow> to_binary \<Rightarrow> bool \<times> to_binary" where
  "PrivateTestForWrite size_max sz s =
     (if tb_HasError s then (False, s)
      else
        let written = tb_WritePtr s;
            remaining = tb_BufferLength s - written
        in if remaining \<ge> sz then (True, s)
           else if \<not> tb_AutoAllocated s
             then (False, tb_SetError ''Exceeds provided buffer size'' s)
           else
             let new_buffer_length = (2 * tb_BufferLength s) mod (size_max + 1)
             in if new_buffer_length < tb_BufferLength s
                  then (False, tb_SetError ''Exceeds maximum size'' s)
                else (True,
                  s\<lparr>tb_Buffer := take written (tb_Buffer s)
                                 @ replicate (new_buffer_length - written) None,
                    tb_BufferLength := new_buffer_length,
                    tb_WritePtr := written\<rparr>))"

text \<open>
  Storing bytes at the write pointer and moving it (\<open>memcpy\<close> or a run of element
  stores, then \<open>m_WritePtr += n\<close>).
\<close>

definition tb_store :: "byte list \<Rightarrow> to_binary \<Rightarrow> to_binary res" where
  "tb_store bs s =
     (if tb_WritePtr s + length bs \<le> length (tb_Buffer s)
      then Inr (s\<lparr>tb_Buffer := take (tb_WritePtr s) (tb_Buffer s) @ map Some bs
                               @ drop (tb_WritePtr s + length bs) (tb_Buffer s),
                  tb_WritePtr := tb_WritePtr s + length bs\<rparr>)
      else Inl BufferOverrun)"

definition WriteData :: "nat \<Rightarrow> byte list \<Rightarrow> to_binary \<Rightarrow> to_binary res" where
  "WriteData size_max data s =
     (case PrivateTestForWrite size_max (length data) s of
        (True, s') \<Rightarrow> tb_store data s'
      | (False, s') \<Rightarrow> Inr s')"

definition WriteUint8 :: "nat \<Rightarrow> byte \<Rightarrow> to_binary \<Rightarrow> to_binary res" where
  "WriteUint8 size_max val s =
     (case PrivateTestForWrite size_max 1 s of
        (True, s') \<Rightarrow> tb_store [val] s'
      | (False, s') \<Rightarrow> Inr s')"

definition WriteUint16 :: "nat \<Rightarrow> u16 \<Rightarrow> to_binary \<Rightarrow> to_binary res" where
  "WriteUint16 size_max val s =
     (case PrivateTestForWrite size_max 2 s of
        (True, s') \<Rightarrow> tb_store [ucast val, ucast (drop_bit 8 val)] s'
      | (False, s') \<Rightarrow> Inr s')"

definition WriteUint16BE :: "nat \<Rightarrow> u16 \<Rightarrow> to_binary \<Rightarrow> to_binary res" where
  "WriteUint16BE size_max val s =
     (case PrivateTestForWrite size_max 2 s of
        (True, s') \<Rightarrow> tb_store [ucast (drop_bit 8 val), ucast val] s'
      | (False, s') \<Rightarrow> Inr s')"

definition UncheckedEncodeUint32 :: "u32 \<Rightarrow> byte list" where
  "UncheckedEncodeUint32 val =
     [ucast val, ucast (drop_bit 8 val), ucast (drop_bit 16 val), ucast (drop_bit 24 val)]"

definition WriteUint32 :: "nat \<Rightarrow> u32 \<Rightarrow> to_binary \<Rightarrow> to_binary res" where
  "WriteUint32 size_max val s =
     (case PrivateTestForWrite size_max 4 s of
        (True, s') \<Rightarrow> tb_store (UncheckedEncodeUint32 val) s'
      | (False, s') \<Rightarrow> Inr s')"

definition UncheckedEncodeUint64 :: "u64 \<Rightarrow> byte list" where
  "UncheckedEncodeUint64 val =
     [ucast val, ucast (drop_bit 8 val), ucast (drop_bit 16 val), ucast (drop_bit 24 val),
      ucast (drop_bit 32 val), ucast (drop_bit 40 val), ucast (drop_bit 48 val),
      ucast (drop_bit 56 val)]"

definition WriteUint64 :: "nat \<Rightarrow> u64 \<Rightarrow> to_binary \<Rightarrow> to_binary res" where
  "WriteUint64 size_max val s =
     (case PrivateTestForWrite size_max 8 s of
        (True, s') \<Rightarrow> tb_store (UncheckedEncodeUint64 val) s'
      | (False, s') \<Rightarrow> Inr s')"

definition WriteSizeT :: "nat \<Rightarrow> nat \<Rightarrow> to_binary \<Rightarrow> to_binary res" where
  "WriteSizeT size_max val = WriteUint64 size_max (of_nat val)"

definition WriteString :: "nat \<Rightarrow> byte list \<Rightarrow> to_binary \<Rightarrow> to_binary res" where
  "WriteString size_max str s =
     bind_res (WriteSizeT size_max (length str) s)
       (\<lambda>s. if str \<noteq> []
            then (case PrivateTestForWrite size_max (length str) s of
                    (True, s') \<Rightarrow> tb_store str s'
                  | (False, s') \<Rightarrow> Inr s')
            else Inr s)"

definition WriteByteVector :: "nat \<Rightarrow> byte list \<Rightarrow> to_binary \<Rightarrow> to_binary res" where
  "WriteByteVector size_max vec s =
     bind_res (WriteSizeT size_max (length vec) s)
       (\<lambda>s. if vec \<noteq> []
            then (case PrivateTestForWrite size_max (length vec) s of
                    (True, s') \<Rightarrow> tb_store vec s'
                  | (False, s') \<Rightarrow> Inr s')
            else Inr s)"

definition WriteBool :: "nat \<Rightarrow> bool \<Rightarrow> to_binary \<Rightarrow> to_binary res" where
  "WriteBool size_max val = WriteUint8 size_max (if val then 0x01 else 0x00)"

text \<open>
  The overloads of \<open>WriteIntByType\<close>, one per integer type; a value is the mathematical
  integer of the C++ value, and the casts to the unsigned type wrap.
\<close>

datatype int_type = U8 | U16 | U32 | U64 | I8 | I16 | I32 | I64

fun WriteIntByType :: "nat \<Rightarrow> int_type \<Rightarrow> int \<Rightarrow> to_binary \<Rightarrow> to_binary res" where
  "WriteIntByType size_max U8 val = WriteUint8 size_max (word_of_int val)"
| "WriteIntByType size_max U16 val = WriteUint16 size_max (word_of_int val)"
| "WriteIntByType size_max U32 val = WriteUint32 size_max (word_of_int val)"
| "WriteIntByType size_max U64 val = WriteUint64 size_max (word_of_int val)"
| "WriteIntByType size_max I8 val = WriteUint8 size_max (word_of_int val)"
| "WriteIntByType size_max I16 val = WriteUint16 size_max (word_of_int val)"
| "WriteIntByType size_max I32 val = WriteUint32 size_max (word_of_int val)"
| "WriteIntByType size_max I64 val = WriteUint64 size_max (word_of_int val)"

subsection \<open>Invariant and abstract view\<close>

text \<open>
  The invariant: the recorded length is the buffer's, the write pointer is inside, the
  length is a \<open>size_t\<close>, and every byte before the write pointer has been initialised.
\<close>

definition tb_wf :: "nat \<Rightarrow> to_binary \<Rightarrow> bool" where
  "tb_wf size_max s \<longleftrightarrow>
     length (tb_Buffer s) = tb_BufferLength s \<and> tb_WritePtr s \<le> tb_BufferLength s
     \<and> tb_BufferLength s \<le> size_max
     \<and> None \<notin> set (take (tb_WritePtr s) (tb_Buffer s))"

definition tb_bytes :: "to_binary \<Rightarrow> byte list" where
  "tb_bytes s = map the (take (tb_WritePtr s) (tb_Buffer s))"

text \<open>What a client can observe of a writer, and what a block write does to it.\<close>

record writer_view =
  wv_bytes :: "byte list"
  wv_capacity :: nat
  wv_growing :: bool
  wv_error :: "string option"

definition tb_view :: "to_binary \<Rightarrow> writer_view" where
  "tb_view s = \<lparr>wv_bytes = tb_bytes s, wv_capacity = tb_BufferLength s,
     wv_growing = tb_AutoAllocated s,
     wv_error = (if tb_HasError s then Some (tb_ErrorStr s) else None)\<rparr>"

definition spec_write :: "nat \<Rightarrow> byte list \<Rightarrow> writer_view \<Rightarrow> writer_view res" where
  "spec_write size_max bs v =
     (if wv_error v \<noteq> None then Inr v
      else if length (wv_bytes v) + length bs \<le> wv_capacity v
        then Inr (v\<lparr>wv_bytes := wv_bytes v @ bs\<rparr>)
      else if \<not> wv_growing v
        then Inr (v\<lparr>wv_error := Some ''Exceeds provided buffer size''\<rparr>)
      else if size_max < 2 * wv_capacity v
        then Inr (v\<lparr>wv_error := Some ''Exceeds maximum size''\<rparr>)
      else if length (wv_bytes v) + length bs \<le> 2 * wv_capacity v
        then Inr (v\<lparr>wv_bytes := wv_bytes v @ bs, wv_capacity := 2 * wv_capacity v\<rparr>)
      else Inl BufferOverrun)"

lemma take_written_Some:
  "tb_wf size_max s \<Longrightarrow> take (tb_WritePtr s) (tb_Buffer s) = map Some (tb_bytes s)"
  by (auto simp: tb_wf_def tb_bytes_def comp_def intro!: map_idI [symmetric])
     (metis option.exhaust_sel)

lemma length_tb_bytes: "tb_wf size_max s \<Longrightarrow> length (tb_bytes s) = tb_WritePtr s"
  by (simp add: tb_wf_def tb_bytes_def)

lemma doubled_wraps:
  fixes n m :: nat
  assumes "n \<le> m"
  shows "(2 * n) mod (m + 1) < n \<longleftrightarrow> m < 2 * n"
    and "2 * n \<le> m \<Longrightarrow> (2 * n) mod (m + 1) = 2 * n"
proof -
  show "2 * n \<le> m \<Longrightarrow> (2 * n) mod (m + 1) = 2 * n"
    by simp
  show "(2 * n) mod (m + 1) < n \<longleftrightarrow> m < 2 * n"
  proof (cases "2 * n \<le> m")
    case True
    then show ?thesis by simp
  next
    case False
    with assms have "(2 * n) mod (m + 1) = 2 * n - (m + 1)"
      by (subst mod_if, subst mod_if) auto
    with False assms show ?thesis by simp
  qed
qed

lemma tb_store_fits:
  assumes "tb_wf size_max s" and "tb_WritePtr s + length bs \<le> tb_BufferLength s"
  obtains s' where "tb_store bs s = Inr s'" and "tb_wf size_max s'"
    and "tb_bytes s' = tb_bytes s @ bs" and "tb_BufferLength s' = tb_BufferLength s"
    and "tb_AutoAllocated s' = tb_AutoAllocated s" and "tb_HasError s' = tb_HasError s"
    and "tb_ErrorStr s' = tb_ErrorStr s"
proof -
  let ?b = "take (tb_WritePtr s) (tb_Buffer s) @ map Some bs
              @ drop (tb_WritePtr s + length bs) (tb_Buffer s)"
  let ?s' = "s\<lparr>tb_Buffer := ?b, tb_WritePtr := tb_WritePtr s + length bs\<rparr>"
  from assms have len: "length (tb_Buffer s) = tb_BufferLength s"
    and w: "min (tb_BufferLength s) (tb_WritePtr s) = tb_WritePtr s"
    by (auto simp: tb_wf_def)
  show thesis
  proof
    show "tb_store bs s = Inr ?s'"
      using assms(2) len by (simp add: tb_store_def)
    show "tb_wf size_max ?s'"
      using assms len w by (auto simp: tb_wf_def)
    show "tb_bytes ?s' = tb_bytes s @ bs"
      using len w by (simp add: tb_bytes_def comp_def)
  qed simp_all
qed

lemma tb_wf_SetError [simp]: "tb_wf size_max (tb_SetError e s) = tb_wf size_max s"
  by (simp add: tb_SetError_def tb_wf_def)

lemma tb_view_SetError:
  "\<not> tb_HasError s \<Longrightarrow> tb_view (tb_SetError e s) = (tb_view s)\<lparr>wv_error := Some e\<rparr>"
  by (simp add: tb_SetError_def tb_view_def tb_bytes_def)

subsection \<open>The writer refines its specification\<close>

definition tb_refines :: "nat \<Rightarrow> to_binary res \<Rightarrow> writer_view res \<Rightarrow> bool" where
  "tb_refines size_max r v \<longleftrightarrow>
     (case r of Inl e \<Rightarrow> v = Inl e
      | Inr s \<Rightarrow> v = Inr (tb_view s) \<and> tb_wf size_max s)"

lemma tb_refines_Inr [simp]:
  "tb_refines size_max (Inr s) v \<longleftrightarrow> v = Inr (tb_view s) \<and> tb_wf size_max s"
  by (simp add: tb_refines_def)

lemma tb_refines_bind:
  assumes "tb_refines size_max r v"
    and "\<And>s. tb_wf size_max s \<Longrightarrow> tb_refines size_max (f s) (g (tb_view s))"
  shows "tb_refines size_max (bind_res r f) (bind_res v g)"
  using assms by (cases r) (auto simp: tb_refines_def)

lemma tb_store_refines:
  assumes "tb_wf size_max s"
  shows "tb_refines size_max (tb_store bs s)
    (if length (tb_bytes s) + length bs \<le> tb_BufferLength s
     then Inr ((tb_view s)\<lparr>wv_bytes := tb_bytes s @ bs\<rparr>) else Inl BufferOverrun)"
proof (cases "tb_WritePtr s + length bs \<le> tb_BufferLength s")
  case True
  from tb_store_fits [OF assms True]
  obtain s' where "tb_store bs s = Inr s'" "tb_wf size_max s'" "tb_bytes s' = tb_bytes s @ bs"
    "tb_BufferLength s' = tb_BufferLength s" "tb_AutoAllocated s' = tb_AutoAllocated s"
    "tb_HasError s' = tb_HasError s" "tb_ErrorStr s' = tb_ErrorStr s"
    by metis
  with True assms show ?thesis
    by (simp add: tb_refines_def tb_view_def length_tb_bytes)
next
  case False
  with assms show ?thesis
    by (simp add: tb_store_def tb_refines_def length_tb_bytes) (simp add: tb_wf_def)
qed

lemma grown_wf:
  assumes "tb_wf size_max s" and "2 * tb_BufferLength s \<le> size_max"
  defines "s' \<equiv> s\<lparr>tb_Buffer := take (tb_WritePtr s) (tb_Buffer s)
                         @ replicate (2 * tb_BufferLength s - tb_WritePtr s) None,
                   tb_BufferLength := 2 * tb_BufferLength s, tb_WritePtr := tb_WritePtr s\<rparr>"
  shows "tb_wf size_max s'"
    and "tb_view s' = (tb_view s)\<lparr>wv_capacity := 2 * tb_BufferLength s\<rparr>"
  using assms by (auto simp: tb_wf_def tb_view_def tb_bytes_def min_absorb2)

theorem WriteData_refines:
  assumes "tb_wf size_max s"
  shows "tb_refines size_max (WriteData size_max bs s) (spec_write size_max bs (tb_view s))"
proof -
  have len: "length (tb_bytes s) = tb_WritePtr s" "tb_WritePtr s \<le> tb_BufferLength s"
    "tb_BufferLength s \<le> size_max"
    using assms by (auto simp: length_tb_bytes) (auto simp: tb_wf_def)
  note view = tb_view_def [of s]
  consider (err) "tb_HasError s"
    | (fits) "\<not> tb_HasError s" "length bs \<le> tb_BufferLength s - tb_WritePtr s"
    | (fixed) "\<not> tb_HasError s" "\<not> length bs \<le> tb_BufferLength s - tb_WritePtr s"
        "\<not> tb_AutoAllocated s"
    | (max) "\<not> tb_HasError s" "\<not> length bs \<le> tb_BufferLength s - tb_WritePtr s"
        "tb_AutoAllocated s" "size_max < 2 * tb_BufferLength s"
    | (grow) "\<not> tb_HasError s" "\<not> length bs \<le> tb_BufferLength s - tb_WritePtr s"
        "tb_AutoAllocated s" "2 * tb_BufferLength s \<le> size_max"
    by linarith
  then show ?thesis
  proof cases
    case err
    with assms show ?thesis
      by (simp add: WriteData_def PrivateTestForWrite_def spec_write_def view)
  next
    case fits
    then have "WriteData size_max bs s = tb_store bs s"
      by (simp add: WriteData_def PrivateTestForWrite_def)
    moreover have "length (tb_bytes s) + length bs \<le> tb_BufferLength s"
      using fits len by linarith
    ultimately show ?thesis
      using tb_store_refines [OF assms, of bs] fits by (simp add: spec_write_def view)
  next
    case fixed
    then show ?thesis
      using assms len
      by (auto simp: WriteData_def PrivateTestForWrite_def tb_view_SetError spec_write_def view)
  next
    case max
    then show ?thesis
      using assms len doubled_wraps(1) [OF len(3)]
      by (auto simp: WriteData_def PrivateTestForWrite_def tb_view_SetError spec_write_def view
          Let_def)
  next
    case grow
    define g where "g = s\<lparr>tb_Buffer := take (tb_WritePtr s) (tb_Buffer s)
                         @ replicate (2 * tb_BufferLength s - tb_WritePtr s) None,
                   tb_BufferLength := 2 * tb_BufferLength s, tb_WritePtr := tb_WritePtr s\<rparr>"
    have w: "WriteData size_max bs s = tb_store bs g"
      using grow doubled_wraps [OF len(3)]
      by (simp add: WriteData_def PrivateTestForWrite_def Let_def g_def)
    have g: "tb_wf size_max g"
      "tb_view g = (tb_view s)\<lparr>wv_capacity := 2 * tb_BufferLength s\<rparr>"
      unfolding g_def using grown_wf [OF assms grow(4)] by simp_all
    have b: "tb_bytes g = tb_bytes s" "tb_BufferLength g = 2 * tb_BufferLength s"
      using arg_cong [OF g(2), of wv_bytes] arg_cong [OF g(2), of wv_capacity]
      by (simp_all add: tb_view_def)
    show ?thesis
      using tb_store_refines [OF g(1), of bs] grow len
      by (auto simp: w g(2) b spec_write_def view split: if_splits)
  qed
qed

subsection \<open>Every write is a run of blocks\<close>

lemma WriteUint8_block: "WriteUint8 size_max val = WriteData size_max [val]"
  by (rule ext) (simp add: WriteUint8_def WriteData_def)

lemma WriteUint16_block:
  "WriteUint16 size_max val = WriteData size_max [ucast val, ucast (drop_bit 8 val)]"
  by (rule ext) (simp add: WriteUint16_def WriteData_def numeral_2_eq_2)

lemma WriteUint16BE_block:
  "WriteUint16BE size_max val = WriteData size_max [ucast (drop_bit 8 val), ucast val]"
  by (rule ext) (simp add: WriteUint16BE_def WriteData_def numeral_2_eq_2)

lemma length_UncheckedEncode [simp]:
  "length (UncheckedEncodeUint32 x) = 4" "length (UncheckedEncodeUint64 y) = 8"
  by (simp_all add: UncheckedEncodeUint32_def UncheckedEncodeUint64_def)

lemma WriteUint32_block:
  "WriteUint32 size_max val = WriteData size_max (UncheckedEncodeUint32 val)"
  by (rule ext) (simp add: WriteUint32_def WriteData_def)

lemma WriteUint64_block:
  "WriteUint64 size_max val = WriteData size_max (UncheckedEncodeUint64 val)"
  by (rule ext) (simp add: WriteUint64_def WriteData_def)

lemma WriteBool_block:
  "WriteBool size_max val = WriteData size_max [if val then 1 else 0]"
  by (simp add: WriteBool_def WriteUint8_block)

definition enc_size :: "nat \<Rightarrow> byte list" where
  "enc_size n = UncheckedEncodeUint64 (of_nat n)"

lemma length_enc_size [simp]: "length (enc_size n) = 8"
  by (simp add: enc_size_def)

lemma WriteSizeT_block: "WriteSizeT size_max n = WriteData size_max (enc_size n)"
  by (simp add: WriteSizeT_def WriteUint64_block enc_size_def)

definition string_blocks :: "byte list \<Rightarrow> byte list list" where
  "string_blocks str = enc_size (length str) # (if str = [] then [] else [str])"

lemma concat_string_blocks [simp]:
  "concat (string_blocks str) = enc_size (length str) @ str"
  by (simp add: string_blocks_def)

lemma WriteString_blocks:
  "WriteString size_max str = fold_res (WriteData size_max) (string_blocks str)"
  by (rule ext)
    (simp add: WriteString_def string_blocks_def WriteSizeT_block WriteData_def bind_res_def
      split: sum.splits)

lemma WriteByteVector_blocks:
  "WriteByteVector size_max vec = fold_res (WriteData size_max) (string_blocks vec)"
  by (rule ext)
    (simp add: WriteByteVector_def string_blocks_def WriteSizeT_block WriteData_def bind_res_def
      split: sum.splits)

text \<open>The bytes an integer is written as.\<close>

fun enc_int :: "int_type \<Rightarrow> int \<Rightarrow> byte list" where
  "enc_int U8 x = [word_of_int x]"
| "enc_int I8 x = [word_of_int x]"
| "enc_int U16 x = (let w = word_of_int x :: u16 in [ucast w, ucast (drop_bit 8 w)])"
| "enc_int I16 x = (let w = word_of_int x :: u16 in [ucast w, ucast (drop_bit 8 w)])"
| "enc_int U32 x = UncheckedEncodeUint32 (word_of_int x)"
| "enc_int I32 x = UncheckedEncodeUint32 (word_of_int x)"
| "enc_int U64 x = UncheckedEncodeUint64 (word_of_int x)"
| "enc_int I64 x = UncheckedEncodeUint64 (word_of_int x)"

lemma WriteIntByType_block:
  "WriteIntByType size_max t x = WriteData size_max (enc_int t x)"
  by (cases t)
    (simp_all add: WriteUint8_block WriteUint16_block WriteUint32_block WriteUint64_block Let_def)

lemma length_enc_int_le: "length (enc_int t x) \<le> 8"
  by (cases t) (simp_all add: Let_def)

subsection \<open>The writer as a byte sink\<close>

text \<open>
  A growing writer takes blocks of up to its current capacity (one doubling always makes
  room for them) and a total of half the address range; a caller's buffer takes what is
  left of it.
\<close>

definition growing_inv :: "nat \<Rightarrow> to_binary \<Rightarrow> bool" where
  "growing_inv size_max s \<longleftrightarrow> tb_wf size_max s \<and> \<not> tb_HasError s \<and> tb_AutoAllocated s"

definition growing_budget :: "nat \<Rightarrow> to_binary \<Rightarrow> nat" where
  "growing_budget size_max s = size_max div 2 - tb_WritePtr s"

definition fixed_inv :: "nat \<Rightarrow> to_binary \<Rightarrow> bool" where
  "fixed_inv size_max s \<longleftrightarrow> tb_wf size_max s \<and> \<not> tb_HasError s"

definition fixed_room :: "to_binary \<Rightarrow> nat" where
  "fixed_room s = tb_BufferLength s - tb_WritePtr s"

lemma WriteData_Inr_view:
  assumes "tb_wf size_max s" and "spec_write size_max bs (tb_view s) = Inr v"
  obtains s' where "WriteData size_max bs s = Inr s'" and "tb_wf size_max s'"
    and "tb_view s' = v"
  using WriteData_refines [OF assms(1), of bs] assms(2)
  by (cases "WriteData size_max bs s") (auto simp: tb_refines_def)

lemma growing_put_ok:
  assumes "growing_inv size_max s" and "length bs \<le> tb_BufferLength s"
    and "length bs \<le> growing_budget size_max s"
  shows "\<exists>s'. WriteData size_max bs s = Inr s' \<and> growing_inv size_max s'
      \<and> tb_bytes s' = tb_bytes s @ bs \<and> tb_BufferLength s \<le> tb_BufferLength s'
      \<and> growing_budget size_max s \<le> growing_budget size_max s' + length bs"
proof -
  from assms(1) have wf: "tb_wf size_max s" and ok: "\<not> tb_HasError s" "tb_AutoAllocated s"
    by (auto simp: growing_inv_def)
  then have w: "length (tb_bytes s) = tb_WritePtr s" "tb_WritePtr s \<le> tb_BufferLength s"
    by (auto simp: length_tb_bytes) (auto simp: tb_wf_def)
  define cap where
    "cap = (if length (tb_bytes s) + length bs \<le> tb_BufferLength s then tb_BufferLength s
            else 2 * tb_BufferLength s)"
  have "spec_write size_max bs (tb_view s)
      = Inr ((tb_view s)\<lparr>wv_bytes := tb_bytes s @ bs, wv_capacity := cap\<rparr>)"
    using assms(2,3) ok w
    by (auto simp: spec_write_def tb_view_def growing_budget_def cap_def)
  then obtain s' where s': "WriteData size_max bs s = Inr s'" "tb_wf size_max s'"
    "tb_view s' = (tb_view s)\<lparr>wv_bytes := tb_bytes s @ bs, wv_capacity := cap\<rparr>"
    using WriteData_Inr_view [OF wf] by blast
  then have "tb_bytes s' = tb_bytes s @ bs" "tb_BufferLength s' = cap"
    "tb_AutoAllocated s'" "\<not> tb_HasError s'"
    using ok by (auto simp: tb_view_def split: if_splits)
  then show ?thesis
    using s' w by (auto simp: growing_inv_def growing_budget_def cap_def
        length_tb_bytes [OF s'(2), symmetric])
qed

lemma fixed_put_ok:
  assumes "fixed_inv size_max s" and "length bs \<le> fixed_room s"
  shows "\<exists>s'. WriteData size_max bs s = Inr s' \<and> fixed_inv size_max s'
      \<and> tb_bytes s' = tb_bytes s @ bs \<and> tb_BufferLength s = tb_BufferLength s'
      \<and> fixed_room s = fixed_room s' + length bs"
proof -
  from assms(1) have wf: "tb_wf size_max s" and ok: "\<not> tb_HasError s"
    by (auto simp: fixed_inv_def)
  then have w: "length (tb_bytes s) = tb_WritePtr s" "tb_WritePtr s \<le> tb_BufferLength s"
    by (auto simp: length_tb_bytes) (auto simp: tb_wf_def)
  have "spec_write size_max bs (tb_view s) = Inr ((tb_view s)\<lparr>wv_bytes := tb_bytes s @ bs\<rparr>)"
    using assms(2) ok w by (auto simp: spec_write_def tb_view_def fixed_room_def)
  then obtain s' where s': "WriteData size_max bs s = Inr s'" "tb_wf size_max s'"
    "tb_view s' = (tb_view s)\<lparr>wv_bytes := tb_bytes s @ bs\<rparr>"
    using WriteData_Inr_view [OF wf] by blast
  then have "tb_bytes s' = tb_bytes s @ bs" "tb_BufferLength s' = tb_BufferLength s"
    "\<not> tb_HasError s'"
    using ok by (auto simp: tb_view_def split: if_splits)
  then show ?thesis
    using s' w assms(2) by (auto simp: fixed_inv_def fixed_room_def
        length_tb_bytes [OF s'(2), symmetric])
qed

interpretation growing: byte_sink "WriteData size_max" tb_bytes "growing_inv size_max"
    tb_BufferLength "growing_budget size_max" for size_max
  by unfold_locales (rule growing_put_ok)

interpretation fixed: byte_sink "WriteData size_max" tb_bytes "fixed_inv size_max"
    tb_BufferLength "fixed_room" for size_max
  by unfold_locales (metis fixed_put_ok order_refl)

end
