(* ===== verification/Frame.thy ===== *)
theory Frame
  imports Prelude
begin

section \<open>Frames: what no operation of a component breaks\<close>

text \<open>
  A frame is a reflexive and transitive relation between the state before and after, for
  example "errors are only added" or "the position only advances". The lemmas show once
  that a frame respected by the parts of a sequence, of a branch or of a loop is respected
  by the whole. The binary reader, the tokenizer and the parser each interpret it.
\<close>

definition keeps :: "('s \<Rightarrow> 's \<Rightarrow> bool) \<Rightarrow> ('s \<Rightarrow> ('a \<times> 's) res) \<Rightarrow> bool" where
  "keeps R f \<longleftrightarrow> (\<forall>s x s'. f s = Inr (x, s') \<longrightarrow> R s s')"

definition keeps_pure :: "('s \<Rightarrow> 's \<Rightarrow> bool) \<Rightarrow> ('s \<Rightarrow> 'a \<times> 's) \<Rightarrow> bool" where
  "keeps_pure R f \<longleftrightarrow> (\<forall>s. R s (snd (f s)))"

text \<open>\<open>f\<close> never ends in the fault \<open>e\<close> from any state the frame leads to from \<open>s\<close>.\<close>

definition avoids :: "('s \<Rightarrow> 's \<Rightarrow> bool) \<Rightarrow> fault \<Rightarrow> ('s \<Rightarrow> 'b res) \<Rightarrow> 's \<Rightarrow> bool" where
  "avoids R e f s \<longleftrightarrow> (\<forall>t. R s t \<longrightarrow> f t \<noteq> Inl e)"

lemma keepsD: "keeps R f \<Longrightarrow> f s = Inr (x, s') \<Longrightarrow> R s s'"
  by (simp add: keeps_def)

lemma keepsI: "(\<And>s x s'. f s = Inr (x, s') \<Longrightarrow> R s s') \<Longrightarrow> keeps R f"
  by (simp add: keeps_def)

lemma keeps_pureD: "keeps_pure R f \<Longrightarrow> f s = (x, s') \<Longrightarrow> R s s'"
  unfolding keeps_pure_def by (metis snd_conv)

lemma keeps_pureI: "(\<And>s x s'. f s = (x, s') \<Longrightarrow> R s s') \<Longrightarrow> keeps_pure R f"
  unfolding keeps_pure_def by (metis prod.collapse)

locale frame =
  fixes R :: "'s \<Rightarrow> 's \<Rightarrow> bool"
  assumes R_refl: "R s s"
    and R_trans: "R s t \<Longrightarrow> R t u \<Longrightarrow> R s u"
begin

lemma keeps_bind:
  assumes "keeps R f" and "\<And>x. keeps R (g x)"
  shows "keeps R (\<lambda>s. bind_res (f s) (\<lambda>(x, t). g x t))"
proof (rule keepsI)
  fix s y u
  assume "bind_res (f s) (\<lambda>(x, t). g x t) = Inr (y, u)"
  then obtain x t where "f s = Inr (x, t)" "g x t = Inr (y, u)"
    by (auto elim: bind_res_elim)
  then show "R s u"
    using keepsD [OF assms(1)] keepsD [OF assms(2)] by (blast intro: R_trans)
qed

lemma keeps_return: "keeps R (\<lambda>s. Inr (x, s))"
  by (simp add: keeps_def R_refl)

lemma keeps_fail: "keeps R (\<lambda>s. Inl e)"
  by (simp add: keeps_def)

lemma keeps_if: "keeps R f \<Longrightarrow> keeps R g \<Longrightarrow> keeps R (\<lambda>s. if P s then f s else g s)"
  by (simp add: keeps_def)

lemma keeps_let:
  assumes "keeps_pure R f" and "\<And>x. keeps R (g x)"
  shows "keeps R (\<lambda>s. let (x, t) = f s in g x t)"
proof (rule keepsI)
  fix s y u
  assume *: "(let (x, t) = f s in g x t) = Inr (y, u)"
  obtain x t where f: "f s = (x, t)" by fastforce
  with * have "g x t = Inr (y, u)" by simp
  then show "R s u"
    using keeps_pureD [OF assms(1) f] keepsD [OF assms(2)] by (blast intro: R_trans)
qed

lemma keeps_case:
  "keeps_pure R f \<Longrightarrow> (\<And>x. keeps R (g x)) \<Longrightarrow> keeps R (\<lambda>s. case f s of (x, t) \<Rightarrow> g x t)"
  using keeps_let [of f g] by (simp add: Let_def)

lemma keeps_update:
  assumes "\<And>s. R s (u s)" and "keeps R f"
  shows "keeps R (\<lambda>s. f (u s))"
  using assms(1) keepsD [OF assms(2)] by (blast intro: keepsI R_trans)

lemma keeps_done: "(\<And>s. R s (u s)) \<Longrightarrow> keeps R (\<lambda>s. Inr (x, u s))"
  by (simp add: keeps_def)

lemma avoids_here: "avoids R e f s \<Longrightarrow> f s \<noteq> Inl e"
  using R_refl by (auto simp: avoids_def)

lemma avoids_mono: "avoids R e f s \<Longrightarrow> R s t \<Longrightarrow> avoids R e f t"
  by (auto simp: avoids_def intro: R_trans)

lemma avoids_bind:
  assumes "keeps R f" and "avoids R e f s" and "\<And>x. avoids R e (g x) s"
  shows "avoids R e (\<lambda>s. bind_res (f s) (\<lambda>(x, t). g x t)) s"
  unfolding avoids_def
proof (intro allI impI notI)
  fix t
  assume "R s t" and "bind_res (f t) (\<lambda>(x, t). g x t) = Inl e"
  moreover have "f t \<noteq> Inl e"
    using assms(2) \<open>R s t\<close> by (simp add: avoids_def)
  ultimately obtain x u where "f t = Inr (x, u)" "g x u = Inl e"
    by (auto simp: bind_res_eq_Inl)
  moreover from this have "R s u"
    using keepsD [OF assms(1)] \<open>R s t\<close> by (blast intro: R_trans)
  ultimately show False
    using assms(3) by (auto simp: avoids_def)
qed

lemma avoids_return: "avoids R e (\<lambda>s. Inr (h s)) s"
  by (simp add: avoids_def)

lemma avoids_fail: "e \<noteq> e' \<Longrightarrow> avoids R e (\<lambda>s. Inl e') s"
  by (simp add: avoids_def)

lemma avoids_if:
  "avoids R e f s \<Longrightarrow> avoids R e g s \<Longrightarrow> avoids R e (\<lambda>s. if P s then f s else g s) s"
  by (simp add: avoids_def)

lemma avoids_case:
  assumes "keeps_pure R f" and "\<And>x. avoids R e (g x) s"
  shows "avoids R e (\<lambda>s. case f s of (x, t) \<Rightarrow> g x t) s"
  unfolding avoids_def
proof (intro allI impI)
  fix t
  assume "R s t"
  moreover obtain x u where f: "f t = (x, u)" by fastforce
  ultimately have "R s u"
    using keeps_pureD [OF assms(1) f] by (blast intro: R_trans)
  then show "(case f t of (x, t) \<Rightarrow> g x t) \<noteq> Inl e"
    using assms(2) f by (simp add: avoids_def)
qed

lemma avoids_let:
  "keeps_pure R f \<Longrightarrow> (\<And>x. avoids R e (g x) s) \<Longrightarrow>
     avoids R e (\<lambda>s. let (x, t) = f s in g x t) s"
  using avoids_case [of f e g s] by (simp add: Let_def)

lemma avoids_update:
  assumes "\<And>s. R s (u s)" and "avoids R e f s"
  shows "avoids R e (\<lambda>s. f (u s)) s"
  using assms by (auto simp: avoids_def intro: R_trans)

lemmas avoids_rules = avoids_bind avoids_return avoids_if avoids_case avoids_let

lemmas keeps_rules = keeps_bind keeps_return keeps_fail keeps_if keeps_let keeps_case

end

end
