(* ===== verification/FromBinary.thy ===== *)
theory FromBinary
  imports ToBinary Frame
begin

unbundle bit_operations_syntax

section \<open>bbox::enc::FromBinary: the binary reader\<close>

text \<open>
  The reader of \<open>BBoxEnc/bbox/enc/FromBinary.cpp\<close> and \<open>FromBinary.h\<close>. The caller's
  buffer is the byte list \<open>fb_Data\<close> (its length is \<open>m_DataLength\<close>), the read pointer an
  offset into it. Errors are sticky: the first message is kept, but a later read that still
  has enough bytes succeeds, as in the code.
\<close>

record from_binary =
  fb_Data :: "byte list"
  fb_ReadPtr :: nat
  fb_HasError :: bool
  fb_ErrorStr :: string

subsection \<open>Operations\<close>

definition FromBinary :: "byte list \<Rightarrow> from_binary" where
  "FromBinary data = \<lparr>fb_Data = data, fb_ReadPtr = 0, fb_HasError = False, fb_ErrorStr = []\<rparr>"

definition fb_GetBytesRemaining :: "from_binary \<Rightarrow> nat" where
  "fb_GetBytesRemaining m = length (fb_Data m) - fb_ReadPtr m"

definition fb_SetError :: "string \<Rightarrow> from_binary \<Rightarrow> from_binary" where
  "fb_SetError err m =
     (if \<not> fb_HasError m then m\<lparr>fb_HasError := True, fb_ErrorStr := err\<rparr> else m)"

definition EnsureAllBytesRead :: "from_binary \<Rightarrow> from_binary" where
  "EnsureAllBytesRead m =
     (if \<not> fb_HasError m \<and> fb_GetBytesRemaining m \<noteq> 0
      then fb_SetError (''Unexpected '' @ show_nat (fb_GetBytesRemaining m)
                         @ '' bytes remaining at end'') m
      else m)"

definition PrivateCanRead :: "nat \<Rightarrow> from_binary \<Rightarrow> bool \<times> from_binary" where
  "PrivateCanRead len m =
     (let result = (length (fb_Data m) - fb_ReadPtr m \<ge> len)
      in (result,
          if \<not> result \<and> \<not> fb_HasError m then fb_SetError ''No more data remaining'' m else m))"

text \<open>The next \<open>n\<close> bytes at the read pointer, which then moves past them.\<close>

definition fb_take :: "nat \<Rightarrow> from_binary \<Rightarrow> byte list \<times> from_binary" where
  "fb_take n m =
     (take n (drop (fb_ReadPtr m) (fb_Data m)), m\<lparr>fb_ReadPtr := fb_ReadPtr m + n\<rparr>)"

text \<open>
  \<open>ReadData\<close> copies into the caller's buffer, here its old contents \<open>dest\<close>, which stays as
  it was when the data runs out.
\<close>

definition ReadData :: "byte list \<Rightarrow> from_binary \<Rightarrow> byte list \<times> from_binary" where
  "ReadData dest m =
     (case PrivateCanRead (length dest) m of
        (True, m') \<Rightarrow> fb_take (length dest) m'
      | (False, m') \<Rightarrow> (dest, m'))"

definition ReadUint8 :: "from_binary \<Rightarrow> byte \<times> from_binary" where
  "ReadUint8 m =
     (case PrivateCanRead 1 m of
        (True, m') \<Rightarrow> (let (b, m'') = fb_take 1 m' in (b ! 0, m''))
      | (False, m') \<Rightarrow> (0, m'))"

definition decode_le16 :: "byte list \<Rightarrow> u16" where
  "decode_le16 src = ucast ((ucast (src ! 0) :: u64) OR push_bit 8 (ucast (src ! 1)))"

definition ReadUint16 :: "from_binary \<Rightarrow> u16 \<times> from_binary" where
  "ReadUint16 m =
     (case PrivateCanRead 2 m of
        (True, m') \<Rightarrow> (let (b, m'') = fb_take 2 m' in (decode_le16 b, m''))
      | (False, m') \<Rightarrow> (0, m'))"

definition UncheckedDecodeUint32 :: "byte list \<Rightarrow> u32" where
  "UncheckedDecodeUint32 src =
     ucast (src ! 0)
     OR push_bit 8 (ucast (src ! 1))
     OR push_bit 16 (ucast (src ! 2))
     OR push_bit 24 (ucast (src ! 3))"

definition ReadUint32 :: "from_binary \<Rightarrow> u32 \<times> from_binary" where
  "ReadUint32 m =
     (case PrivateCanRead 4 m of
        (True, m') \<Rightarrow> (let (b, m'') = fb_take 4 m' in (UncheckedDecodeUint32 b, m''))
      | (False, m') \<Rightarrow> (0, m'))"

definition decode_le64 :: "byte list \<Rightarrow> u64" where
  "decode_le64 src =
     ucast (src ! 0)
     OR push_bit 8 (ucast (src ! 1))
     OR push_bit 16 (ucast (src ! 2))
     OR push_bit 24 (ucast (src ! 3))
     OR push_bit 32 (ucast (src ! 4))
     OR push_bit 40 (ucast (src ! 5))
     OR push_bit 48 (ucast (src ! 6))
     OR push_bit 56 (ucast (src ! 7))"

definition ReadUint64 :: "from_binary \<Rightarrow> u64 \<times> from_binary" where
  "ReadUint64 m =
     (case PrivateCanRead 8 m of
        (True, m') \<Rightarrow> (let (b, m'') = fb_take 8 m' in (decode_le64 b, m''))
      | (False, m') \<Rightarrow> (0, m'))"

definition ReadSizeT :: "nat \<Rightarrow> from_binary \<Rightarrow> nat \<times> from_binary" where
  "ReadSizeT size_max m =
     (let (sz, m') = ReadUint64 m
      in if unat sz < 0 \<or> unat sz > size_max
         then (0, fb_SetError ''size_t value out of range'' m')
         else (unat sz, m'))"

definition ReadString :: "nat \<Rightarrow> from_binary \<Rightarrow> byte list \<times> from_binary" where
  "ReadString size_max m =
     (let (sz, m') = ReadSizeT size_max m
      in if \<not> fb_HasError m'
         then if sz > fb_GetBytesRemaining m'
              then ([], fb_SetError ''String value too long'' m')
              else if sz \<noteq> 0 then fb_take sz m' else ([], m')
         else ([], m'))"

definition ReadByteVector :: "nat \<Rightarrow> from_binary \<Rightarrow> byte list \<times> from_binary" where
  "ReadByteVector size_max m =
     (let (sz, m') = ReadSizeT size_max m
      in if \<not> fb_HasError m'
         then if sz > fb_GetBytesRemaining m'
              then ([], fb_SetError ''Byte array value too long'' m')
              else if sz \<noteq> 0 then fb_take sz m' else ([], m')
         else ([], m'))"

definition ReadBool :: "from_binary \<Rightarrow> bool \<times> from_binary" where
  "ReadBool m = (let (b, m') = ReadUint8 m in (b \<noteq> 0, m'))"

text \<open>
  The overloads of \<open>ReadIntByType\<close>: the bits read, as an unsigned or a two's complement
  value.
\<close>

fun ReadIntByType :: "int_type \<Rightarrow> from_binary \<Rightarrow> int \<times> from_binary" where
  "ReadIntByType U8 m = (let (w, m') = ReadUint8 m in (uint w, m'))"
| "ReadIntByType U16 m = (let (w, m') = ReadUint16 m in (uint w, m'))"
| "ReadIntByType U32 m = (let (w, m') = ReadUint32 m in (uint w, m'))"
| "ReadIntByType U64 m = (let (w, m') = ReadUint64 m in (uint w, m'))"
| "ReadIntByType I8 m = (let (w, m') = ReadUint8 m in (sint w, m'))"
| "ReadIntByType I16 m = (let (w, m') = ReadUint16 m in (sint w, m'))"
| "ReadIntByType I32 m = (let (w, m') = ReadUint32 m in (sint w, m'))"
| "ReadIntByType I64 m = (let (w, m') = ReadUint64 m in (sint w, m'))"

subsection \<open>Little-endian decoding inverts the writer's encoding\<close>

text \<open>A byte cut out of a word and put back contributes exactly its own eight bits.\<close>

lemma byte_lane:
  "bit (push_bit c (ucast (ucast (drop_bit c (w :: 'a word)) :: byte)) :: 'a :: len word) n
     \<longleftrightarrow> c \<le> n \<and> n < c + 8 \<and> bit w n"
  using bit_imp_le_length [of w n] by (auto simp: bit_simps)

lemma byte_lane_0:
  "bit (ucast (ucast w :: byte) :: 'a :: len word) n \<longleftrightarrow> n < 8 \<and> bit (w :: 'a word) n"
  using bit_imp_le_length [of w n] by (auto simp: bit_simps)

lemmas byte_lanes = byte_lane byte_lane_0 bit_or_iff

lemma decode_le16_encode: "decode_le16 [ucast w, ucast (drop_bit 8 w)] = w"
  by (rule bit_word_eqI) (auto simp: decode_le16_def bit_simps)

lemma UncheckedDecode_Encode32: "UncheckedDecodeUint32 (UncheckedEncodeUint32 w) = w"
proof (rule bit_word_eqI)
  fix n assume "n < LENGTH(32)"
  then have "n < 8 \<or> (8 \<le> n \<and> n < 16) \<or> (16 \<le> n \<and> n < 24) \<or> (24 \<le> n \<and> n < 32)"
    by auto
  then show "bit (UncheckedDecodeUint32 (UncheckedEncodeUint32 w)) n = bit w n"
    unfolding UncheckedDecodeUint32_def UncheckedEncodeUint32_def
    by (elim disjE) (simp_all add: byte_lanes)
qed

lemma decode_le64_encode: "decode_le64 (UncheckedEncodeUint64 w) = w"
proof (rule bit_word_eqI)
  fix n assume "n < LENGTH(64)"
  then have "n < 8 \<or> (8 \<le> n \<and> n < 16) \<or> (16 \<le> n \<and> n < 24) \<or> (24 \<le> n \<and> n < 32)
    \<or> (32 \<le> n \<and> n < 40) \<or> (40 \<le> n \<and> n < 48) \<or> (48 \<le> n \<and> n < 56) \<or> (56 \<le> n \<and> n < 64)"
    by auto
  then show "bit (decode_le64 (UncheckedEncodeUint64 w)) n = bit w n"
    unfolding decode_le64_def UncheckedEncodeUint64_def
    by (elim disjE) (simp_all add: byte_lanes)
qed

end
