(* ===== verification/Marshal.thy ===== *)
theory Marshal
  imports FromBinary
begin

section \<open>Marshalling of typed values\<close>

text \<open>
  The templates of \<open>BBoxEnc/bbox/enc/details/ToBinaryAction.h\<close> and
  \<open>FromBinaryAction.h\<close>, which pick a strategy per C++ type, as two functions over a
  datatype of the marshallable types and one of their values. A class with custom methods
  that write and read its fields in order is the right-nested pair of its fields, ended by
  the unit; a message object is its registered name and its contents.
\<close>

datatype ety =
    EBool
  | EInt int_type
  | EString
  | EByteVector
  | EUnit
  | EPair ety ety
  | EVector ety
  | ESet ety
  | EMap ety ety
  | EMsgAnyPtr
  | EMsgPtr "byte list"

datatype val =
    VBool bool
  | VInt int_type int
  | VString "byte list"
  | VBytes "byte list"
  | VUnit
  | VPair val val
  | VVector "val list"
  | VSet "val list"
  | VMap "val list"
  | VNull
  | VMsg "byte list" val

text \<open>
  The order \<open>std::less\<close> gives the values, by which \<open>std::set\<close> and \<open>std::map\<close> keep
  their elements: lexicographic on strings, pairs and sequences.
\<close>

fun bytes_less :: "byte list \<Rightarrow> byte list \<Rightarrow> bool" where
  "bytes_less _ [] = False"
| "bytes_less [] (_ # _) = True"
| "bytes_less (x # xs) (y # ys) = (x < y \<or> (\<not> y < x \<and> bytes_less xs ys))"

function val_less :: "val \<Rightarrow> val \<Rightarrow> bool" and vals_less :: "val list \<Rightarrow> val list \<Rightarrow> bool" where
  "val_less x y =
     (case x of
        VBool a \<Rightarrow> (case y of VBool b \<Rightarrow> \<not> a \<and> b | _ \<Rightarrow> False)
      | VInt _ a \<Rightarrow> (case y of VInt _ b \<Rightarrow> a < b | _ \<Rightarrow> False)
      | VString a \<Rightarrow> (case y of VString b \<Rightarrow> bytes_less a b | _ \<Rightarrow> False)
      | VBytes a \<Rightarrow> (case y of VBytes b \<Rightarrow> bytes_less a b | _ \<Rightarrow> False)
      | VPair a b \<Rightarrow>
          (case y of VPair c d \<Rightarrow> val_less a c \<or> (\<not> val_less c a \<and> val_less b d) | _ \<Rightarrow> False)
      | VVector a \<Rightarrow> (case y of VVector b \<Rightarrow> vals_less a b | _ \<Rightarrow> False)
      | VSet a \<Rightarrow> (case y of VSet b \<Rightarrow> vals_less a b | _ \<Rightarrow> False)
      | VMap a \<Rightarrow> (case y of VMap b \<Rightarrow> vals_less a b | _ \<Rightarrow> False)
      | _ \<Rightarrow> False)"
| "vals_less xs ys =
     (case ys of [] \<Rightarrow> False
      | y # ys' \<Rightarrow>
          (case xs of [] \<Rightarrow> True
           | x # xs' \<Rightarrow> val_less x y \<or> (\<not> val_less y x \<and> vals_less xs' ys')))"
  by pat_completeness auto
termination
  by (relation "measure (case_sum (\<lambda>(x, y). size x + size y)
        (\<lambda>(xs, ys). size_list size xs + size_list size ys))") auto

declare val_less.simps [simp del] vals_less.simps [simp del]

lemma val_less_simps [simp]:
  "val_less (VBool a) y = (case y of VBool b \<Rightarrow> \<not> a \<and> b | _ \<Rightarrow> False)"
  "val_less (VInt t i) y = (case y of VInt _ j \<Rightarrow> i < j | _ \<Rightarrow> False)"
  "val_less (VString p) y = (case y of VString q \<Rightarrow> bytes_less p q | _ \<Rightarrow> False)"
  "val_less (VBytes p) y = (case y of VBytes q \<Rightarrow> bytes_less p q | _ \<Rightarrow> False)"
  "val_less (VPair u v) y =
     (case y of VPair c d \<Rightarrow> val_less u c \<or> (\<not> val_less c u \<and> val_less v d) | _ \<Rightarrow> False)"
  "val_less (VVector xs) y = (case y of VVector ys \<Rightarrow> vals_less xs ys | _ \<Rightarrow> False)"
  "val_less (VSet xs) y = (case y of VSet ys \<Rightarrow> vals_less xs ys | _ \<Rightarrow> False)"
  "val_less (VMap xs) y = (case y of VMap ys \<Rightarrow> vals_less xs ys | _ \<Rightarrow> False)"
  "val_less VUnit y = False" "val_less VNull y = False" "val_less (VMsg n v) y = False"
  by (subst val_less.simps, simp)+

lemma vals_less_simps [simp]:
  "vals_less xs [] = False" "vals_less [] (y # ys) = True"
  "vals_less (x # xs) (y # ys) = (val_less x y \<or> (\<not> val_less y x \<and> vals_less xs ys))"
  by (subst vals_less.simps, simp)+

text \<open>\<open>insert\<close> of a \<open>std::set\<close>: the new contents and whether the value was inserted.\<close>

fun set_insert :: "val \<Rightarrow> val list \<Rightarrow> val list \<times> bool" where
  "set_insert x [] = ([x], True)"
| "set_insert x (y # ys) =
     (if val_less x y then (x # y # ys, True)
      else if val_less y x then (let (zs, b) = set_insert x ys in (y # zs, b))
      else (y # ys, False))"

fun entry_key :: "val \<Rightarrow> val" where
  "entry_key (VPair k _) = k"
| "entry_key v = v"

text \<open>\<open>emplace\<close> of a \<open>std::map\<close>, whose entries are key and value pairs.\<close>

fun map_emplace :: "val \<Rightarrow> val \<Rightarrow> val list \<Rightarrow> val list \<times> bool" where
  "map_emplace k v [] = ([VPair k v], True)"
| "map_emplace k v (e # es) =
     (if val_less k (entry_key e) then (VPair k v # e # es, True)
      else if val_less (entry_key e) k then (let (zs, b) = map_emplace k v es in (e # zs, b))
      else (e # es, False))"

subsection \<open>Writing\<close>

fun write_val :: "nat \<Rightarrow> val \<Rightarrow> to_binary \<Rightarrow> to_binary res" where
  "write_val size_max (VBool b) m = WriteBool size_max b m"
| "write_val size_max (VInt t x) m = WriteIntByType size_max t x m"
| "write_val size_max (VString str) m = WriteString size_max str m"
| "write_val size_max (VBytes vec) m = WriteByteVector size_max vec m"
| "write_val size_max VUnit m = Inr m"
| "write_val size_max (VPair a b) m = bind_res (write_val size_max a m) (write_val size_max b)"
| "write_val size_max (VVector xs) m =
     bind_res (WriteSizeT size_max (length xs) m) (\<lambda>m. fold_res (write_val size_max) xs m)"
| "write_val size_max (VSet xs) m =
     bind_res (WriteSizeT size_max (length xs) m) (\<lambda>m. fold_res (write_val size_max) xs m)"
| "write_val size_max (VMap es) m =
     bind_res (WriteSizeT size_max (length es) m) (\<lambda>m. fold_res (write_val size_max) es m)"
| "write_val size_max VNull m = WriteString size_max [] m"
| "write_val size_max (VMsg name v) m =
     bind_res (WriteString size_max name m) (write_val size_max v)"

text \<open>The blocks a value is written as, and its encoding.\<close>

fun val_blocks :: "val \<Rightarrow> byte list list" where
  "val_blocks (VBool b) = [[if b then 1 else 0]]"
| "val_blocks (VInt t x) = [enc_int t x]"
| "val_blocks (VString str) = string_blocks str"
| "val_blocks (VBytes vec) = string_blocks vec"
| "val_blocks VUnit = []"
| "val_blocks (VPair a b) = val_blocks a @ val_blocks b"
| "val_blocks (VVector xs) = enc_size (length xs) # concat (map val_blocks xs)"
| "val_blocks (VSet xs) = enc_size (length xs) # concat (map val_blocks xs)"
| "val_blocks (VMap es) = enc_size (length es) # concat (map val_blocks es)"
| "val_blocks VNull = string_blocks []"
| "val_blocks (VMsg name v) = string_blocks name @ val_blocks v"

definition enc_val :: "val \<Rightarrow> byte list" where
  "enc_val v = concat (val_blocks v)"

lemma fold_res_concat:
  "fold_res f (concat xss) s = fold_res (\<lambda>xs. fold_res f xs) xss s"
  by (induction xss arbitrary: s) (auto simp: fold_res_append intro: bind_res_cong)

lemma fold_res_map: "fold_res f (map g xs) s = fold_res (\<lambda>x. f (g x)) xs s"
  by (induction xs arbitrary: s) (auto intro: bind_res_cong)

lemma write_val_blocks: "write_val size_max v m = fold_res (WriteData size_max) (val_blocks v) m"
proof (induction size_max v m rule: write_val.induct)
  case (7 size_max xs m)
  then show ?case
    by (auto simp: WriteSizeT_block fold_res_concat fold_res_map
        intro!: bind_res_cong fold_res_cong)
next
  case (8 size_max xs m)
  then show ?case
    by (auto simp: WriteSizeT_block fold_res_concat fold_res_map
        intro!: bind_res_cong fold_res_cong)
next
  case (9 size_max xs m)
  then show ?case
    by (auto simp: WriteSizeT_block fold_res_concat fold_res_map
        intro!: bind_res_cong fold_res_cong)
qed (auto simp: WriteBool_block WriteIntByType_block WriteString_blocks WriteByteVector_blocks
    fold_res_append bind_res_def split: sum.splits)

end
