(* ===== verification/Unmarshal.thy ===== *)
theory Unmarshal
  imports Marshal
begin

section \<open>Unmarshalling of typed values\<close>

text \<open>
  The reading half of the templates, \<open>BBoxEnc/bbox/enc/details/FromBinaryAction.h\<close>, with
  \<open>FromBinary::ReadMsgAnyPtr\<close> and \<open>MsgPtr::TryCast\<close>. The parameters of a read are
  the platform (\<open>SIZE_MAX\<close> and \<open>vector::max_size()\<close>) and the registered message
  types: the map \<open>lib\<close> gives the type of the object that a registered name constructs.
  A message may hold messages, so the recursion through \<open>lib\<close> is bounded by fuel;
  \<open>read_fuel_enough\<close> shows that the number of unread bytes is enough. Reading assigns to a
  variable, whose old value is an argument: all of it is overwritten, except that a \<open>MsgPtr\<close> keeps
  its old value when a null pointer, or an error, is read.
\<close>

record platform =
  pf_size_max :: nat
  pf_vector_max :: nat

type_synonym msg_lib = "byte list \<Rightarrow> ety option"
type_synonym reader = "from_binary \<Rightarrow> (val \<times> from_binary) res"

subsection \<open>Variables\<close>

text \<open>
  The value of a new variable: an element of a resized vector, a new key, value or member of a
  set, or an object made by its message type. An integer may have any value before it is read.
\<close>

primrec default_val :: "ety \<Rightarrow> val" where
  "default_val EBool = VBool False"
| "default_val (EInt t) = VInt t 0"
| "default_val EString = VString []"
| "default_val EByteVector = VBytes []"
| "default_val EUnit = VUnit"
| "default_val (EPair a b) = VPair (default_val a) (default_val b)"
| "default_val (EVector a) = VVector []"
| "default_val (ESet a) = VSet []"
| "default_val (EMap a b) = VMap []"
| "default_val EMsgAnyPtr = VNull"
| "default_val (EMsgPtr ty) = VNull"

text \<open>The members of a pair; a value of another type does not occur.\<close>

fun val_first :: "val \<Rightarrow> val" where
  "val_first (VPair x _) = x"
| "val_first v = v"

fun val_second :: "val \<Rightarrow> val" where
  "val_second (VPair _ y) = y"
| "val_second v = v"

subsection \<open>Operations\<close>

fun read_elements :: "nat \<Rightarrow> reader \<Rightarrow> from_binary \<Rightarrow> (val list \<times> from_binary) res" where
  "read_elements 0 rd m = Inr ([], m)"
| "read_elements (Suc n) rd m =
     bind_res (rd m) (\<lambda>(x, m1).
     bind_res (read_elements n rd m1) (\<lambda>(xs, m2). Inr (x # xs, m2)))"

definition read_vector :: "platform \<Rightarrow> reader \<Rightarrow> from_binary \<Rightarrow> (val list \<times> from_binary) res" where
  "read_vector pf rd m =
     (let (count, m1) = ReadSizeT (pf_size_max pf) m
      in if count > pf_vector_max pf then Inl LengthError
         else read_elements count rd m1)"

fun read_set_elements ::
    "nat \<Rightarrow> reader \<Rightarrow> val list \<Rightarrow> from_binary \<Rightarrow> (val list \<times> from_binary) res" where
  "read_set_elements 0 rd acc m = Inr (acc, m)"
| "read_set_elements (Suc n) rd acc m =
     bind_res (rd m) (\<lambda>(x, m1).
       case set_insert x acc of
         (acc', True) \<Rightarrow> read_set_elements n rd acc' m1
       | (acc', False) \<Rightarrow>
           read_set_elements n rd acc' (fb_SetError ''Duplicate value in std::set'' m1))"

definition read_set :: "platform \<Rightarrow> reader \<Rightarrow> from_binary \<Rightarrow> (val list \<times> from_binary) res" where
  "read_set pf rd m =
     (let (count, m1) = ReadSizeT (pf_size_max pf) m in read_set_elements count rd [] m1)"

fun read_map_elements ::
    "nat \<Rightarrow> reader \<Rightarrow> reader \<Rightarrow> val list \<Rightarrow> from_binary \<Rightarrow> (val list \<times> from_binary) res" where
  "read_map_elements 0 rdk rdv acc m = Inr (acc, m)"
| "read_map_elements (Suc n) rdk rdv acc m =
     bind_res (rdk m) (\<lambda>(key, m1).
     bind_res (rdv m1) (\<lambda>(mapped, m2).
       if fb_HasError m2 then Inr (acc, m2)
       else case map_emplace key mapped acc of
              (acc', True) \<Rightarrow> read_map_elements n rdk rdv acc' m2
            | (acc', False) \<Rightarrow>
                Inr (acc', fb_SetError ''Duplicate key in std::map FromBinary'' m2)))"

definition read_map ::
    "platform \<Rightarrow> reader \<Rightarrow> reader \<Rightarrow> from_binary \<Rightarrow> (val list \<times> from_binary) res" where
  "read_map pf rdk rdv m =
     (let (count, m1) = ReadSizeT (pf_size_max pf) m in read_map_elements count rdk rdv [] m1)"

text \<open>\<open>message_cast\<close>: the object if its registered type is the wanted one, else null.\<close>

fun TryCast :: "msg_lib \<Rightarrow> byte list \<Rightarrow> val \<Rightarrow> val" where
  "TryCast lib ty (VMsg name v) = (if lib ty \<noteq> None \<and> ty = name then VMsg name v else VNull)"
| "TryCast lib ty _ = VNull"

fun msg_name :: "val \<Rightarrow> byte list" where
  "msg_name (VMsg name _) = name"
| "msg_name _ = []"

definition read_msg_ptr :: "msg_lib \<Rightarrow> byte list \<Rightarrow> reader \<Rightarrow> val \<Rightarrow> reader" where
  "read_msg_ptr lib ty rd old m =
     bind_res (rd m) (\<lambda>(any_ptr, m1).
       if \<not> fb_HasError m1 \<and> any_ptr \<noteq> VNull
       then let value = TryCast lib ty any_ptr
            in if value = VNull
               then if lib ty = None then Inl NullPointer
                    else Inr (value, fb_SetError (''Could not cast object of type ''
                           @ chars_of (msg_name any_ptr) @ '' to type '' @ chars_of ty) m1)
               else Inr (value, m1)
       else Inr (old, m1))"

primrec read_ty :: "platform \<Rightarrow> msg_lib \<Rightarrow> reader \<Rightarrow> ety \<Rightarrow> val \<Rightarrow> reader" where
  "read_ty pf lib rm EBool =
     (\<lambda>old m. let (b, m1) = ReadBool m in Inr (VBool b, m1))"
| "read_ty pf lib rm (EInt t) =
     (\<lambda>old m. let (x, m1) = ReadIntByType t m in Inr (VInt t x, m1))"
| "read_ty pf lib rm EString =
     (\<lambda>old m. let (str, m1) = ReadString (pf_size_max pf) m in Inr (VString str, m1))"
| "read_ty pf lib rm EByteVector =
     (\<lambda>old m. let (vec, m1) = ReadByteVector (pf_size_max pf) m in Inr (VBytes vec, m1))"
| "read_ty pf lib rm EUnit = (\<lambda>old m. Inr (VUnit, m))"
| "read_ty pf lib rm (EPair a b) =
     (\<lambda>old m. bind_res (read_ty pf lib rm a (val_first old) m) (\<lambda>(x, m1).
          bind_res (read_ty pf lib rm b (val_second old) m1) (\<lambda>(y, m2). Inr (VPair x y, m2))))"
| "read_ty pf lib rm (EVector a) =
     (\<lambda>old m. bind_res (read_vector pf (read_ty pf lib rm a (default_val a)) m) (\<lambda>(xs, m1). Inr (VVector xs, m1)))"
| "read_ty pf lib rm (ESet a) =
     (\<lambda>old m. bind_res (read_set pf (read_ty pf lib rm a (default_val a)) m) (\<lambda>(xs, m1). Inr (VSet xs, m1)))"
| "read_ty pf lib rm (EMap a b) =
     (\<lambda>old m. bind_res (read_map pf (read_ty pf lib rm a (default_val a)) (read_ty pf lib rm b (default_val b)) m)
            (\<lambda>(es, m1). Inr (VMap es, m1)))"
| "read_ty pf lib rm EMsgAnyPtr = (\<lambda>old. rm)"
| "read_ty pf lib rm (EMsgPtr ty) = read_msg_ptr lib ty rm"

fun ReadMsgAnyPtr :: "nat \<Rightarrow> platform \<Rightarrow> msg_lib \<Rightarrow> reader" where
  "ReadMsgAnyPtr 0 pf lib m = Inl OutOfFuel"
| "ReadMsgAnyPtr (Suc fuel) pf lib m =
     (let (type_name, m1) = ReadString (pf_size_max pf) m
      in if type_name = [] then Inr (VNull, m1)
         else case lib type_name of
                None \<Rightarrow>
                  Inr (VNull, fb_SetError (''Unknown MsgType \"'' @ chars_of type_name @ ''\"'') m1)
              | Some contents \<Rightarrow>
                  bind_res (read_ty pf lib (ReadMsgAnyPtr fuel pf lib) contents (default_val contents) m1)
                    (\<lambda>(v, m2). Inr (VMsg type_name v, m2)))"

definition fb_Read :: "platform \<Rightarrow> msg_lib \<Rightarrow> ety \<Rightarrow> val \<Rightarrow> reader" where
  "fb_Read pf lib t old m =
     read_ty pf lib (ReadMsgAnyPtr (Suc (fb_GetBytesRemaining m)) pf lib) t old m"

subsection \<open>No read leaves the buffer, and errors are kept\<close>

definition fb_wf :: "from_binary \<Rightarrow> bool" where
  "fb_wf m \<longleftrightarrow> fb_ReadPtr m \<le> length (fb_Data m)"

text \<open>
  The frame of a read: the data stays, the read pointer only advances and stays inside, and
  an error, once raised, stays with its first message.
\<close>

definition fb_frame :: "from_binary \<Rightarrow> from_binary \<Rightarrow> bool" where
  "fb_frame m m' \<longleftrightarrow>
     fb_Data m' = fb_Data m \<and> fb_ReadPtr m \<le> fb_ReadPtr m'
     \<and> (fb_wf m \<longrightarrow> fb_wf m')
     \<and> (fb_HasError m \<longrightarrow> fb_HasError m' \<and> fb_ErrorStr m' = fb_ErrorStr m)"

interpretation reading: frame fb_frame
  by unfold_locales (auto simp: fb_frame_def)

declare reading.R_refl [simp]

lemma fb_frame_SetError [simp]: "fb_frame m (fb_SetError e m)"
  by (simp add: fb_frame_def fb_SetError_def fb_wf_def)

lemma fb_frame_take: "n \<le> fb_GetBytesRemaining m \<Longrightarrow> fb_frame m (snd (fb_take n m))"
  by (auto simp: fb_frame_def fb_take_def fb_wf_def fb_GetBytesRemaining_def)

lemma fixed_width_read:
  "(case PrivateCanRead n m of
      (True, m') \<Rightarrow> (let (b, m'') = fb_take n m' in (d b, m''))
    | (False, m') \<Rightarrow> (z, m'))
   = (if n \<le> fb_GetBytesRemaining m then (d (fst (fb_take n m)), snd (fb_take n m))
      else (z, fb_SetError ''No more data remaining'' m))"
  by (auto simp: PrivateCanRead_def fb_GetBytesRemaining_def fb_SetError_def Let_def
      split: prod.splits)

lemmas Read_fixed_width =
  ReadUint8_def [unfolded fixed_width_read] ReadUint16_def [unfolded fixed_width_read]
  ReadUint32_def [unfolded fixed_width_read] ReadUint64_def [unfolded fixed_width_read]

lemma fb_frame_fixed_width:
  "keeps_pure fb_frame ReadUint8" "keeps_pure fb_frame ReadUint16"
  "keeps_pure fb_frame ReadUint32" "keeps_pure fb_frame ReadUint64"
  by (simp_all add: keeps_pure_def Read_fixed_width fb_frame_take)

lemma fb_frame_ReadSizeT: "keeps_pure fb_frame (ReadSizeT size_max)"
proof (rule keeps_pureI)
  fix s x s'
  assume *: "ReadSizeT size_max s = (x, s')"
  obtain w t where t: "ReadUint64 s = (w, t)" by fastforce
  then have "fb_frame s t" by (rule keeps_pureD [OF fb_frame_fixed_width(4)])
  with * t show "fb_frame s s'"
    by (auto simp: ReadSizeT_def split: if_splits intro: reading.R_trans)
qed

lemma fb_frame_strings:
  "keeps_pure fb_frame (ReadString size_max)" "keeps_pure fb_frame (ReadByteVector size_max)"
proof -
  have *: "fb_frame s s'"
    if "ReadSizeT size_max s = (n, t)"
      and "s' = t \<or> s' = fb_SetError e t \<or> n \<le> fb_GetBytesRemaining t \<and> s' = snd (fb_take n t)"
    for s s' t n e
    using that keeps_pureD [OF fb_frame_ReadSizeT that(1)] fb_frame_take
    by (auto intro: reading.R_trans)
  show "keeps_pure fb_frame (ReadString size_max)"
    by (rule keeps_pureI)
      (auto simp: ReadString_def split: prod.splits if_splits intro: * simp: not_less)
  show "keeps_pure fb_frame (ReadByteVector size_max)"
    by (rule keeps_pureI)
      (auto simp: ReadByteVector_def split: prod.splits if_splits intro: * simp: not_less)
qed

lemma fb_frame_ReadBool: "keeps_pure fb_frame ReadBool"
  using keeps_pureD [OF fb_frame_fixed_width(1)]
  by (auto intro!: keeps_pureI simp: ReadBool_def split: prod.splits)

lemma fb_frame_ReadInt: "keeps_pure fb_frame (ReadIntByType t)"
  by (rule keeps_pureI, cases t)
    (auto split: prod.splits dest: fb_frame_fixed_width [THEN keeps_pureD])

lemma keeps_read_elements:
  "keeps fb_frame rd \<Longrightarrow> keeps fb_frame (read_elements n rd)"
proof (induction n)
  case 0
  then show ?case by (simp add: keeps_def)
next
  case (Suc n)
  then show ?case
    unfolding read_elements.simps [abs_def] by (intro reading.keeps_rules)
qed

lemma keeps_read_set_elements:
  assumes "keeps fb_frame rd"
  shows "keeps fb_frame (read_set_elements n rd acc)"
proof (induction n arbitrary: acc)
  case 0
  show ?case by (simp add: keeps_def)
next
  case (Suc n)
  have "keeps fb_frame (\<lambda>m1. case set_insert x acc of
         (acc', True) \<Rightarrow> read_set_elements n rd acc' m1
       | (acc', False) \<Rightarrow>
           read_set_elements n rd acc' (fb_SetError ''Duplicate value in std::set'' m1))" for x
    by (cases "set_insert x acc"; cases "snd (set_insert x acc)")
      (auto intro: Suc.IH reading.keeps_update [OF fb_frame_SetError])
  with assms show ?case
    unfolding read_set_elements.simps [abs_def] by (intro reading.keeps_bind)
qed

lemma keeps_read_map_elements:
  assumes "keeps fb_frame rdk" and "keeps fb_frame rdv"
  shows "keeps fb_frame (read_map_elements n rdk rdv acc)"
proof (induction n arbitrary: acc)
  case 0
  show ?case by (simp add: keeps_def)
next
  case (Suc n)
  have "keeps fb_frame (\<lambda>m2. if fb_HasError m2 then Inr (acc, m2)
       else case map_emplace key mapped acc of
              (acc', True) \<Rightarrow> read_map_elements n rdk rdv acc' m2
            | (acc', False) \<Rightarrow>
                Inr (acc', fb_SetError ''Duplicate key in std::map FromBinary'' m2))" for key mapped
    by (cases "map_emplace key mapped acc"; cases "snd (map_emplace key mapped acc)")
      (auto intro!: Suc.IH reading.keeps_if reading.keeps_return reading.keeps_done)
  with assms show ?case
    unfolding read_map_elements.simps [abs_def] by (intro reading.keeps_bind)
qed

lemma keeps_read_counted:
  assumes "\<And>n. keeps fb_frame (g n)"
  shows "keeps fb_frame (\<lambda>m. let (count, m1) = ReadSizeT size_max m in g count m1)"
  by (rule reading.keeps_let [OF fb_frame_ReadSizeT assms])

lemma keeps_read_containers:
  assumes "keeps fb_frame rd" and "keeps fb_frame rd'"
  shows "keeps fb_frame (read_vector pf rd)" and "keeps fb_frame (read_set pf rd)"
    and "keeps fb_frame (read_map pf rd rd')"
proof -
  show "keeps fb_frame (read_vector pf rd)"
    unfolding read_vector_def [abs_def]
    by (intro keeps_read_counted reading.keeps_if reading.keeps_fail keeps_read_elements assms)
  show "keeps fb_frame (read_set pf rd)"
    unfolding read_set_def [abs_def]
    by (intro keeps_read_counted keeps_read_set_elements assms)
  show "keeps fb_frame (read_map pf rd rd')"
    unfolding read_map_def [abs_def]
    by (intro keeps_read_counted keeps_read_map_elements assms)
qed

lemma keeps_read_msg_ptr:
  assumes "keeps fb_frame rd"
  shows "keeps fb_frame (read_msg_ptr lib ty rd old)"
proof (rule keepsI)
  fix m x m'
  assume "read_msg_ptr lib ty rd old m = Inr (x, m')"
  then obtain v m1 where "rd m = Inr (v, m1)" and "m' = m1 \<or> (\<exists>e. m' = fb_SetError e m1)"
    by (auto simp: read_msg_ptr_def Let_def bind_res_eq_Inr split: if_splits)
  then show "fb_frame m m'"
    using keepsD [OF assms] by (auto intro: reading.R_trans [OF _ fb_frame_SetError])
qed

lemma keeps_read_ty:
  assumes "keeps fb_frame rm"
  shows "keeps fb_frame (read_ty pf lib rm t old)"
proof (induction t arbitrary: old)
  case (EPair a b)
  then show ?case by (auto intro!: reading.keeps_rules)
qed (auto intro!: reading.keeps_rules keeps_read_containers keeps_read_msg_ptr assms
    fb_frame_ReadBool fb_frame_ReadInt fb_frame_strings)

lemma keeps_ReadMsgAnyPtr: "keeps fb_frame (ReadMsgAnyPtr fuel pf lib)"
proof (induction fuel)
  case 0
  show ?case by (simp add: keeps_def)
next
  case (Suc fuel)
  have body: "keeps fb_frame (\<lambda>m1. if type_name = [] then Inr (VNull, m1)
         else case lib type_name of
                None \<Rightarrow>
                  Inr (VNull, fb_SetError (''Unknown MsgType \"'' @ chars_of type_name @ ''\"'') m1)
              | Some contents \<Rightarrow>
                  bind_res (read_ty pf lib (ReadMsgAnyPtr fuel pf lib) contents (default_val contents) m1)
                    (\<lambda>(v, m2). Inr (VMsg type_name v, m2)))" for type_name
    using keeps_read_ty [OF Suc.IH]
    by (cases "lib type_name")
      (auto intro!: reading.keeps_rules reading.keeps_done)
  show ?case
    unfolding ReadMsgAnyPtr.simps [abs_def]
    by (rule reading.keeps_let [OF fb_frame_strings(1) body])
qed

lemma fb_Read_frame:
  assumes "fb_Read pf lib t old m = Inr (v, m')"
  shows "fb_frame m m'"
  using keepsD [OF keeps_read_ty [OF keeps_ReadMsgAnyPtr]] assms by (auto simp: fb_Read_def)

end
