(* ===== verification/RoundTrip.thy ===== *)
theory RoundTrip
  imports Unmarshal
begin

section \<open>Termination and round trip of the binary format\<close>

text \<open>
  The fuel of the message recursion is enough, every well-typed value that has been written
  is read back as itself, and the read stops exactly at its last byte.
\<close>

subsection \<open>The message recursion ends\<close>

lemma ReadString_consumes:
  assumes "ReadString size_max m = (str, m1)" and "str \<noteq> []"
  shows "fb_GetBytesRemaining m1 < fb_GetBytesRemaining m"
proof -
  obtain n t where t: "ReadSizeT size_max m = (n, t)" by fastforce
  have "fb_frame m t" by (rule keeps_pureD [OF fb_frame_ReadSizeT t])
  moreover have "n \<le> fb_GetBytesRemaining t" "n \<noteq> 0" "m1 = snd (fb_take n t)"
    using assms t by (auto simp: ReadString_def split: if_splits)
  ultimately show ?thesis
    by (auto simp: fb_frame_def fb_take_def fb_GetBytesRemaining_def)
qed

lemma fb_frame_remaining:
  "fb_frame m m' \<Longrightarrow> fb_GetBytesRemaining m' \<le> fb_GetBytesRemaining m"
  by (auto simp: fb_frame_def fb_GetBytesRemaining_def)

abbreviation fuelled :: "(from_binary \<Rightarrow> 'a res) \<Rightarrow> from_binary \<Rightarrow> bool" where
  "fuelled rd m \<equiv> avoids fb_frame OutOfFuel rd m"

lemma fuelled_read_elements:
  assumes "keeps fb_frame rd" and "fuelled rd m"
  shows "fuelled (read_elements n rd) m"
proof (induction n)
  case 0
  show ?case by (simp add: avoids_def)
next
  case (Suc n)
  then show ?case
    unfolding read_elements.simps [abs_def]
    by (intro reading.avoids_rules assms keeps_read_elements)
qed

lemma fuelled_read_set_elements:
  assumes "keeps fb_frame rd" and "fuelled rd m"
  shows "fuelled (read_set_elements n rd acc) m"
proof (induction n arbitrary: acc)
  case 0
  show ?case by (simp add: avoids_def)
next
  case (Suc n)
  have "fuelled (\<lambda>m1. case set_insert x acc of
         (acc', True) \<Rightarrow> read_set_elements n rd acc' m1
       | (acc', False) \<Rightarrow>
           read_set_elements n rd acc' (fb_SetError ''Duplicate value in std::set'' m1)) m" for x
    by (cases "set_insert x acc"; cases "snd (set_insert x acc)")
      (auto intro: Suc.IH reading.avoids_update [OF fb_frame_SetError])
  then show ?case
    unfolding read_set_elements.simps [abs_def] by (intro reading.avoids_bind assms)
qed

lemma fuelled_read_map_elements:
  assumes "keeps fb_frame rdk" and "keeps fb_frame rdv" and "fuelled rdk m" and "fuelled rdv m"
  shows "fuelled (read_map_elements n rdk rdv acc) m"
proof (induction n arbitrary: acc)
  case 0
  show ?case by (simp add: avoids_def)
next
  case (Suc n)
  have "fuelled (\<lambda>m2. if fb_HasError m2 then Inr (acc, m2)
       else case map_emplace key mapped acc of
              (acc', True) \<Rightarrow> read_map_elements n rdk rdv acc' m2
            | (acc', False) \<Rightarrow>
                Inr (acc', fb_SetError ''Duplicate key in std::map FromBinary'' m2)) m"
    for key mapped
    by (cases "map_emplace key mapped acc"; cases "snd (map_emplace key mapped acc)")
      (auto intro!: Suc.IH reading.avoids_if reading.avoids_return)
  then show ?case
    unfolding read_map_elements.simps [abs_def] by (intro reading.avoids_bind assms)
qed

lemma fuelled_read_msg_ptr: "fuelled rd m \<Longrightarrow> fuelled (read_msg_ptr lib ty rd old) m"
  by (auto simp: avoids_def read_msg_ptr_def bind_res_eq_Inl Let_def split: if_splits)

lemma fuelled_read_ty:
  assumes "keeps fb_frame rm" and "fuelled rm m"
  shows "fuelled (read_ty pf lib rm t old) m"
proof (induction t arbitrary: old)
  case (EVector a)
  then show ?case
    unfolding read_ty.simps read_vector_def
    by (intro reading.avoids_rules keeps_read_containers(1) [where rd' = "read_ty pf lib rm a (default_val a)", unfolded read_vector_def]
        keeps_read_ty assms fb_frame_ReadSizeT reading.avoids_fail fuelled_read_elements) auto
next
  case (ESet a)
  then show ?case
    unfolding read_ty.simps read_set_def
    by (intro reading.avoids_rules keeps_read_containers(2) [where rd' = "read_ty pf lib rm a (default_val a)", unfolded read_set_def]
        keeps_read_ty assms fb_frame_ReadSizeT fuelled_read_set_elements)
next
  case (EMap a b)
  then show ?case
    unfolding read_ty.simps read_map_def
    by (intro reading.avoids_rules keeps_read_containers(3) [unfolded read_map_def]
        keeps_read_ty assms fb_frame_ReadSizeT fuelled_read_map_elements)
next
  case (EPair a b)
  then show ?case
    unfolding read_ty.simps by (intro reading.avoids_rules keeps_read_ty assms)
next
  case EMsgAnyPtr
  show ?case using assms(2) by simp
next
  case (EMsgPtr ty)
  show ?case using fuelled_read_msg_ptr [OF assms(2)] by simp
qed (auto simp: avoids_def split: prod.splits)

lemma read_fuel_enough:
  "fb_GetBytesRemaining m < fuel \<Longrightarrow> fuelled (ReadMsgAnyPtr fuel pf lib) m"
proof (induction fuel arbitrary: m)
  case 0
  then show ?case by simp
next
  case (Suc fuel)
  have "ReadMsgAnyPtr (Suc fuel) pf lib t \<noteq> Inl OutOfFuel" if "fb_frame m t" for t
  proof -
    obtain name m1 where name: "ReadString (pf_size_max pf) t = (name, m1)" by fastforce
    show ?thesis
    proof (cases "name = [] \<or> lib name = None")
      case True
      with name show ?thesis by auto
    next
      case False
      then obtain c where c: "name \<noteq> []" "lib name = Some c" by auto
      have "fb_GetBytesRemaining m1 < fuel"
        using ReadString_consumes [OF name c(1)] fb_frame_remaining [OF that] Suc.prems by simp
      then have "fuelled (ReadMsgAnyPtr fuel pf lib) m1" by (rule Suc.IH)
      then have "read_ty pf lib (ReadMsgAnyPtr fuel pf lib) c (default_val c) m1 \<noteq> Inl OutOfFuel"
        by (intro reading.avoids_here fuelled_read_ty keeps_ReadMsgAnyPtr)
      with name c show ?thesis by (auto simp: bind_res_eq_Inl)
    qed
  qed
  then show ?case by (simp add: avoids_def)
qed

lemma fb_Read_not_OutOfFuel: "fb_Read pf lib t old m \<noteq> Inl OutOfFuel"
  unfolding fb_Read_def
  by (intro reading.avoids_here fuelled_read_ty keeps_ReadMsgAnyPtr read_fuel_enough) simp

subsection \<open>Well-typed values\<close>

fun int_in_range :: "int_type \<Rightarrow> int \<Rightarrow> bool" where
  "int_in_range U8 x = (0 \<le> x \<and> x < 2 ^ 8)"
| "int_in_range U16 x = (0 \<le> x \<and> x < 2 ^ 16)"
| "int_in_range U32 x = (0 \<le> x \<and> x < 2 ^ 32)"
| "int_in_range U64 x = (0 \<le> x \<and> x < 2 ^ 64)"
| "int_in_range I8 x = (- (2 ^ 7) \<le> x \<and> x < 2 ^ 7)"
| "int_in_range I16 x = (- (2 ^ 15) \<le> x \<and> x < 2 ^ 15)"
| "int_in_range I32 x = (- (2 ^ 31) \<le> x \<and> x < 2 ^ 31)"
| "int_in_range I64 x = (- (2 ^ 63) \<le> x \<and> x < 2 ^ 63)"

text \<open>A length that fits a \<open>size_t\<close> and the eight bytes it is written in.\<close>

definition size_ok :: "platform \<Rightarrow> nat \<Rightarrow> bool" where
  "size_ok pf n \<longleftrightarrow> n \<le> pf_size_max pf \<and> n < 2 ^ 64"

fun has_type :: "platform \<Rightarrow> msg_lib \<Rightarrow> ety \<Rightarrow> val \<Rightarrow> bool" where
  "has_type pf lib t (VBool b) = (t = EBool)"
| "has_type pf lib t (VInt it x) = (t = EInt it \<and> int_in_range it x)"
| "has_type pf lib t (VString str) = (t = EString \<and> size_ok pf (length str))"
| "has_type pf lib t (VBytes vec) = (t = EByteVector \<and> size_ok pf (length vec))"
| "has_type pf lib t VUnit = (t = EUnit)"
| "has_type pf lib t (VPair x y) =
     (case t of EPair a b \<Rightarrow> has_type pf lib a x \<and> has_type pf lib b y | _ \<Rightarrow> False)"
| "has_type pf lib t (VVector xs) =
     (case t of EVector a \<Rightarrow>
        size_ok pf (length xs) \<and> length xs \<le> pf_vector_max pf \<and> (\<forall>x \<in> set xs. has_type pf lib a x)
      | _ \<Rightarrow> False)"
| "has_type pf lib t (VSet xs) =
     (case t of ESet a \<Rightarrow>
        size_ok pf (length xs) \<and> sorted_wrt val_less xs \<and> (\<forall>x \<in> set xs. has_type pf lib a x)
      | _ \<Rightarrow> False)"
| "has_type pf lib t (VMap es) =
     (case t of EMap a b \<Rightarrow>
        size_ok pf (length es)
        \<and> sorted_wrt (\<lambda>e f. val_less (entry_key e) (entry_key f)) es
        \<and> (\<forall>e \<in> set es. has_type pf lib (EPair a b) e)
      | _ \<Rightarrow> False)"
| "has_type pf lib t VNull =
     (case t of EMsgAnyPtr \<Rightarrow> True | EMsgPtr _ \<Rightarrow> True | _ \<Rightarrow> False)"
| "has_type pf lib t (VMsg name v) =
     (name \<noteq> [] \<and> size_ok pf (length name)
      \<and> (case t of EMsgAnyPtr \<Rightarrow> True | EMsgPtr ty \<Rightarrow> ty = name | _ \<Rightarrow> False)
      \<and> (case lib name of None \<Rightarrow> False | Some c \<Rightarrow> has_type pf lib c v))"

fun msg_depth :: "val \<Rightarrow> nat" where
  "msg_depth (VPair x y) = max (msg_depth x) (msg_depth y)"
| "msg_depth (VVector xs) = fold max (map msg_depth xs) 0"
| "msg_depth (VSet xs) = fold max (map msg_depth xs) 0"
| "msg_depth (VMap xs) = fold max (map msg_depth xs) 0"
| "msg_depth (VMsg name v) = Suc (msg_depth v)"
| "msg_depth VNull = 1"
| "msg_depth _ = 0"

subsection \<open>Decoding\<close>

text \<open>A reader that has read nothing wrong and whose unread bytes are \<open>bs\<close>.\<close>

definition fb_ready :: "from_binary \<Rightarrow> byte list \<Rightarrow> bool" where
  "fb_ready m bs \<longleftrightarrow> fb_wf m \<and> \<not> fb_HasError m \<and> drop (fb_ReadPtr m) (fb_Data m) = bs"

definition decodes :: "(from_binary \<Rightarrow> ('a \<times> from_binary) res) \<Rightarrow> byte list \<Rightarrow> 'a \<Rightarrow> bool" where
  "decodes rd bs x \<longleftrightarrow>
     (\<forall>m rest. fb_ready m (bs @ rest) \<longrightarrow> (\<exists>m'. rd m = Inr (x, m') \<and> fb_ready m' rest))"

definition decodes_pure :: "(from_binary \<Rightarrow> 'a \<times> from_binary) \<Rightarrow> byte list \<Rightarrow> 'a \<Rightarrow> bool" where
  "decodes_pure rd bs x \<longleftrightarrow> decodes (\<lambda>m. Inr (rd m)) bs x"

lemma decodes_bind:
  assumes "decodes f bs x" and "decodes (g x) cs y"
  shows "decodes (\<lambda>m. bind_res (f m) (\<lambda>(x, t). g x t)) (bs @ cs) y"
  unfolding decodes_def
proof (intro allI impI)
  fix m rest
  assume "fb_ready m ((bs @ cs) @ rest)"
  then obtain t where "f m = Inr (x, t)" "fb_ready t (cs @ rest)"
    using assms(1) by (auto simp: decodes_def)
  then show "\<exists>m'. bind_res (f m) (\<lambda>(x, t). g x t) = Inr (y, m') \<and> fb_ready m' rest"
    using assms(2) by (auto simp: decodes_def)
qed

lemma decodes_return: "decodes (\<lambda>m. Inr (x, m)) [] x"
  by (simp add: decodes_def)

lemma decodes_bind_return:
  assumes "decodes f bs x"
  shows "decodes (\<lambda>m. bind_res (f m) (\<lambda>(x, t). Inr (h x, t))) bs (h x)"
  using decodes_bind [OF assms decodes_return, of h] by simp

lemma decodes_case:
  "decodes_pure f bs x \<Longrightarrow> decodes (g x) cs y \<Longrightarrow>
     decodes (\<lambda>m. case f m of (x, t) \<Rightarrow> g x t) (bs @ cs) y"
  using decodes_bind [of "\<lambda>m. Inr (f m)" bs x g cs y] by (simp add: decodes_pure_def)

lemma decodes_case_return:
  "decodes_pure f bs x \<Longrightarrow> decodes (\<lambda>m. case f m of (x, t) \<Rightarrow> Inr (h x, t)) bs (h x)"
  using decodes_case [OF _ decodes_return, of f bs x h] by simp

lemma fb_ready_take:
  assumes "fb_ready m (bs @ rest)"
  shows "length bs \<le> fb_GetBytesRemaining m" and "fst (fb_take (length bs) m) = bs"
    and "fb_ready (snd (fb_take (length bs) m)) rest"
proof -
  from assms have d: "drop (fb_ReadPtr m) (fb_Data m) = bs @ rest" and "fb_wf m"
    by (auto simp: fb_ready_def)
  from arg_cong [OF d, of length]
  have l: "length (fb_Data m) - fb_ReadPtr m = length bs + length rest" by simp
  then show "length bs \<le> fb_GetBytesRemaining m" by (simp add: fb_GetBytesRemaining_def)
  show "fst (fb_take (length bs) m) = bs" by (simp add: fb_take_def d)
  have "drop (length bs + fb_ReadPtr m) (fb_Data m) = rest"
    using arg_cong [OF d, of "drop (length bs)"] by (simp add: add.commute)
  with assms l show "fb_ready (snd (fb_take (length bs) m)) rest"
    by (auto simp: fb_ready_def fb_take_def fb_wf_def add.commute)
qed

lemma decodes_fixed_width:
  "decodes_pure ReadUint8 [b] b"
  "decodes_pure ReadUint16 [ucast w, ucast (drop_bit 8 w)] w"
  "decodes_pure ReadUint32 (UncheckedEncodeUint32 x) x"
  "decodes_pure ReadUint64 (UncheckedEncodeUint64 y) y"
proof -
  show "decodes_pure ReadUint8 [b] b"
    using fb_ready_take [of _ "[b]"]
    by (auto simp: decodes_pure_def decodes_def Read_fixed_width)
  show "decodes_pure ReadUint16 [ucast w, ucast (drop_bit 8 w)] w"
    using fb_ready_take [of _ "[ucast w, ucast (drop_bit 8 w)]"]
    by (auto simp: decodes_pure_def decodes_def Read_fixed_width numeral_2_eq_2
        decode_le16_encode)
  show "decodes_pure ReadUint32 (UncheckedEncodeUint32 x) x"
    using fb_ready_take [of _ "UncheckedEncodeUint32 x"]
    by (auto simp: decodes_pure_def decodes_def Read_fixed_width UncheckedDecode_Encode32)
  show "decodes_pure ReadUint64 (UncheckedEncodeUint64 y) y"
    using fb_ready_take [of _ "UncheckedEncodeUint64 y"]
    by (auto simp: decodes_pure_def decodes_def Read_fixed_width decode_le64_encode)
qed

lemma decodes_pure_map:
  assumes "decodes_pure f bs x"
  shows "decodes_pure (\<lambda>m. case f m of (x, t) \<Rightarrow> (h x, t)) bs (h x)"
  using assms by (fastforce simp: decodes_pure_def decodes_def)

lemma decodes_ReadSizeT:
  assumes "n \<le> size_max" and "n < 2 ^ 64"
  shows "decodes_pure (ReadSizeT size_max) (enc_size n) n"
  unfolding decodes_pure_def decodes_def
proof (intro allI impI)
  fix m rest
  assume "fb_ready m (enc_size n @ rest)"
  then obtain t where t: "ReadUint64 m = (of_nat n, t)" "fb_ready t rest"
    using decodes_fixed_width(4) [of "of_nat n"]
    by (auto simp: decodes_pure_def decodes_def enc_size_def)
  have "unat (of_nat n :: u64) = n"
    using assms(2) by (simp add: unat_of_nat)
  with t assms(1) show "\<exists>m'. Inr (ReadSizeT size_max m) = Inr (n, m') \<and> fb_ready m' rest"
    by (auto simp: ReadSizeT_def)
qed

lemma decodes_strings:
  assumes "size_ok pf (length str)"
  shows "decodes_pure (ReadString (pf_size_max pf)) (enc_size (length str) @ str) str"
    and "decodes_pure (ReadByteVector (pf_size_max pf)) (enc_size (length str) @ str) str"
proof -
  have *: "\<exists>t. ReadSizeT (pf_size_max pf) m = (length str, t) \<and> fb_ready t (str @ rest)"
    if "fb_ready m (enc_size (length str) @ str @ rest)" for m rest
    using that decodes_ReadSizeT [of "length str" "pf_size_max pf"] assms
    by (auto simp: decodes_pure_def decodes_def size_ok_def)
  have [simp]: "fb_take 0 t = ([], t)" for t
    by (simp add: fb_take_def)
  have **: "length str \<le> fb_GetBytesRemaining t \<and> \<not> fb_HasError t
      \<and> fb_take (length str) t = (str, snd (fb_take (length str) t))
      \<and> fb_ready (snd (fb_take (length str) t)) rest" if "fb_ready t (str @ rest)" for t rest
    using fb_ready_take [OF that] that by (auto simp: fb_ready_def prod_eq_iff)
  show "decodes_pure (ReadString (pf_size_max pf)) (enc_size (length str) @ str) str"
    unfolding decodes_pure_def decodes_def
    by (auto simp: ReadString_def dest!: * ** split: prod.splits)
  show "decodes_pure (ReadByteVector (pf_size_max pf)) (enc_size (length str) @ str) str"
    unfolding decodes_pure_def decodes_def
    by (auto simp: ReadByteVector_def dest!: * ** split: prod.splits)
qed

lemma decodes_bool: "decodes_pure ReadBool [if b then 1 else 0] b"
  using decodes_pure_map [OF decodes_fixed_width(1), of "\<lambda>w. w \<noteq> 0" "if b then 1 else 0"]
  by (simp add: ReadBool_def [abs_def] Let_def split: if_splits)

lemma signed_word_of_int:
  assumes "- (2 ^ (LENGTH('a :: len) - 1)) \<le> x" and "x < 2 ^ (LENGTH('a) - 1)"
  shows "sint (word_of_int x :: 'a word) = x"
  using assms signed_take_bit_int_eq_self [of "LENGTH('a) - 1" x] by (simp add: sint_sbintrunc')

lemma unsigned_word_of_int:
  "0 \<le> x \<Longrightarrow> x < 2 ^ LENGTH('a) \<Longrightarrow> uint (word_of_int x :: 'a :: len word) = x"
  by (simp add: uint_word_of_int)

lemma decodes_int:
  assumes "int_in_range t x"
  shows "decodes_pure (ReadIntByType t) (enc_int t x) x"
proof -
  note m = decodes_pure_map [OF decodes_fixed_width(1)] decodes_pure_map [OF decodes_fixed_width(2)]
    decodes_pure_map [OF decodes_fixed_width(3)] decodes_pure_map [OF decodes_fixed_width(4)]
  show ?thesis
  proof (cases t)
    case U8 with assms show ?thesis
      using m(1) [of uint "word_of_int x"] unsigned_word_of_int [where 'a = 8, of x]
      by (simp add: ReadIntByType.simps [abs_def] Let_def)
  next
    case U16 with assms show ?thesis
      using m(2) [of uint "word_of_int x"] unsigned_word_of_int [where 'a = 16, of x]
      by (simp add: ReadIntByType.simps [abs_def] Let_def)
  next
    case U32 with assms show ?thesis
      using m(3) [of uint "word_of_int x"] unsigned_word_of_int [where 'a = 32, of x]
      by (simp add: ReadIntByType.simps [abs_def] Let_def)
  next
    case U64 with assms show ?thesis
      using m(4) [of uint "word_of_int x"] unsigned_word_of_int [where 'a = 64, of x]
      by (simp add: ReadIntByType.simps [abs_def] Let_def)
  next
    case I8 with assms show ?thesis
      using m(1) [of sint "word_of_int x"] signed_word_of_int [where 'a = 8, of x]
      by (simp add: ReadIntByType.simps [abs_def] Let_def)
  next
    case I16 with assms show ?thesis
      using m(2) [of sint "word_of_int x"] signed_word_of_int [where 'a = 16, of x]
      by (simp add: ReadIntByType.simps [abs_def] Let_def)
  next
    case I32 with assms show ?thesis
      using m(3) [of sint "word_of_int x"] signed_word_of_int [where 'a = 32, of x]
      by (simp add: ReadIntByType.simps [abs_def] Let_def)
  next
    case I64 with assms show ?thesis
      using m(4) [of sint "word_of_int x"] signed_word_of_int [where 'a = 64, of x]
      by (simp add: ReadIntByType.simps [abs_def] Let_def)
  qed
qed

subsection \<open>Ordered containers\<close>

lemma bytes_less_asym: "bytes_less xs ys \<Longrightarrow> \<not> bytes_less ys xs"
proof (induction xs ys rule: bytes_less.induct)
  case (3 x xs y ys)
  then show ?case by (auto dest: order_less_asym)
qed auto

lemma vals_less_asym:
  assumes "\<And>x y. x \<in> set xs \<Longrightarrow> val_less x y \<Longrightarrow> \<not> val_less y x"
    and "vals_less xs ys"
  shows "\<not> vals_less ys xs"
  using assms
proof (induction xs arbitrary: ys)
  case Nil
  then show ?case by simp
next
  case (Cons x xs)
  then obtain y ys' where ys: "ys = y # ys'"
    by (cases ys) auto
  have "vals_less xs ys' \<Longrightarrow> \<not> vals_less ys' xs"
    using Cons.IH Cons.prems(1) by (meson list.set_intros(2))
  with Cons.prems ys show ?case
    by auto
qed

lemma val_less_asym: "val_less x y \<Longrightarrow> \<not> val_less y x"
proof (induction x arbitrary: y)
  case (VPair u v)
  then show ?case by (cases y) auto
next
  case (VVector xs)
  then show ?case using vals_less_asym [of xs] by (cases y) auto
next
  case (VSet xs)
  then show ?case using vals_less_asym [of xs] by (cases y) auto
next
  case (VMap xs)
  then show ?case using vals_less_asym [of xs] by (cases y) auto
qed (auto split: val.splits dest: bytes_less_asym)

lemma set_insert_last:
  "(\<And>y. y \<in> set ys \<Longrightarrow> val_less y x) \<Longrightarrow> set_insert x ys = (ys @ [x], True)"
  by (induction ys) (auto dest: val_less_asym)

lemma map_emplace_last:
  "(\<And>e. e \<in> set es \<Longrightarrow> val_less (entry_key e) k) \<Longrightarrow>
     map_emplace k v es = (es @ [VPair k v], True)"
  by (induction es) (auto dest: val_less_asym)

lemma decodes_elements:
  assumes "\<And>x. x \<in> set xs \<Longrightarrow> decodes rd (enc x) x"
  shows "decodes (read_elements (length xs) rd) (concat (map enc xs)) xs"
  using assms
proof (induction xs)
  case Nil
  then show ?case by (simp add: decodes_def)
next
  case (Cons x xs)
  then show ?case
    unfolding list.size(4) add_Suc_right add_0_right list.map concat.simps
      read_elements.simps(2) [abs_def]
    by (intro decodes_bind [where x = x] decodes_bind_return [where h = "(#) x"]) auto
qed

lemma decodes_set_elements:
  assumes "\<And>x. x \<in> set xs \<Longrightarrow> decodes rd (enc x) x" and "sorted_wrt val_less (acc @ xs)"
  shows "decodes (read_set_elements (length xs) rd acc) (concat (map enc xs)) (acc @ xs)"
  using assms
proof (induction xs arbitrary: acc)
  case Nil
  then show ?case by (simp add: decodes_def)
next
  case (Cons x xs)
  have ins: "set_insert x acc = (acc @ [x], True)"
    using Cons.prems(2) by (intro set_insert_last) (auto simp: sorted_wrt_append)
  have "decodes (read_set_elements (length xs) rd (acc @ [x])) (concat (map enc xs))
          ((acc @ [x]) @ xs)"
    using Cons.prems by (intro Cons.IH) auto
  then show ?case
    unfolding list.size(4) add_Suc_right add_0_right list.map concat.simps
      read_set_elements.simps(2) [abs_def]
    by (intro decodes_bind [where x = x]) (auto simp: ins Cons.prems(1))
qed

lemma decodes_no_error:
  "decodes g bs x \<Longrightarrow> decodes (\<lambda>m. if fb_HasError m then f m else g m) bs x"
  by (auto simp: decodes_def fb_ready_def)

lemma decodes_map_elements:
  assumes "\<And>e. e \<in> set es \<Longrightarrow>
      \<exists>a b. e = VPair a b \<and> decodes rdk (enc_val a) a \<and> decodes rdv (enc_val b) b"
    and "sorted_wrt (\<lambda>e f. val_less (entry_key e) (entry_key f)) (acc @ es)"
  shows "decodes (read_map_elements (length es) rdk rdv acc)
           (concat (map enc_val es)) (acc @ es)"
  using assms
proof (induction es arbitrary: acc)
  case Nil
  then show ?case by (simp add: decodes_def)
next
  case (Cons e es)
  then obtain a b where e: "e = VPair a b" and a: "decodes rdk (enc_val a) a"
    and b: "decodes rdv (enc_val b) b"
    by (meson list.set_intros(1))
  have ins: "map_emplace a b acc = (acc @ [VPair a b], True)"
    using Cons.prems(2) by (intro map_emplace_last) (auto simp: sorted_wrt_append e)
  have "decodes (read_map_elements (length es) rdk rdv (acc @ [VPair a b]))
          (concat (map enc_val es)) ((acc @ [VPair a b]) @ es)"
    using Cons.prems e by (intro Cons.IH) auto
  then have "decodes (\<lambda>m2. if fb_HasError m2 then Inr (acc, m2)
       else case map_emplace a b acc of
              (acc', True) \<Rightarrow> read_map_elements (length es) rdk rdv acc' m2
            | (acc', False) \<Rightarrow>
                Inr (acc', fb_SetError ''Duplicate key in std::map FromBinary'' m2))
      (concat (map enc_val es)) (acc @ e # es)"
    by (intro decodes_no_error) (simp add: ins e)
  then have "decodes (read_map_elements (Suc (length es)) rdk rdv acc)
      (enc_val a @ enc_val b @ concat (map enc_val es)) (acc @ e # es)"
    unfolding read_map_elements.simps(2) [abs_def]
    by (intro decodes_bind [OF a] decodes_bind [OF b])
  moreover have "concat (map enc_val (e # es))
      = enc_val a @ enc_val b @ concat (map enc_val es)"
    by (simp add: e enc_val_def)
  ultimately show ?case by (simp only: length_Cons)
qed

lemma concat_concat_map: "concat (concat (map f xs)) = concat (map (\<lambda>x. concat (f x)) xs)"
  by (induction xs) auto

lemma enc_val_simps [simp]:
  "enc_val (VBool b) = [if b then 1 else 0]"
  "enc_val (VInt t x) = enc_int t x"
  "enc_val (VString str) = enc_size (length str) @ str"
  "enc_val (VBytes str) = enc_size (length str) @ str"
  "enc_val VUnit = []"
  "enc_val (VPair v w) = enc_val v @ enc_val w"
  "enc_val (VVector xs) = enc_size (length xs) @ concat (map enc_val xs)"
  "enc_val (VSet xs) = enc_size (length xs) @ concat (map enc_val xs)"
  "enc_val (VMap xs) = enc_size (length xs) @ concat (map enc_val xs)"
  "enc_val VNull = enc_size 0"
  "enc_val (VMsg name v) = enc_size (length name) @ name @ enc_val v"
  by (simp_all add: enc_val_def [abs_def] concat_concat_map)

lemma fold_max_ge:
  fixes n :: nat
  shows "n \<in> set ns \<or> n \<le> k \<Longrightarrow> n \<le> fold max ns k"
proof (induction ns arbitrary: k)
  case (Cons i ns)
  show ?case
    using Cons.IH [of "max i k"] Cons.prems by (auto simp: le_max_iff_disj)
qed simp

lemma fold_max_le:
  fixes n :: nat
  shows "k \<le> n \<Longrightarrow> (\<And>i. i \<in> set ns \<Longrightarrow> i \<le> n) \<Longrightarrow> fold max ns k \<le> n"
  by (induction ns arbitrary: k) auto

lemma length_concat_ge: "x \<in> set xs \<Longrightarrow> length (f x) \<le> length (concat (map f xs))"
  by (induction xs) auto

lemma msg_depth_list:
  assumes "\<And>x. x \<in> set xs \<Longrightarrow> msg_depth x \<le> length (enc_val x)"
  shows "fold max (map msg_depth xs) 0 \<le> n + length (concat (map enc_val xs))"
proof (rule fold_max_le)
  fix i assume "i \<in> set (map msg_depth xs)"
  then obtain x where "x \<in> set xs" "i = msg_depth x" by auto
  then show "i \<le> n + length (concat (map enc_val xs))"
    using assms [of x] length_concat_ge [of x xs enc_val] by simp
qed simp

lemma msg_depth_le_length: "msg_depth v \<le> length (enc_val v)"
proof (induction v)
  case (VVector xs)
  then show ?case using msg_depth_list [of xs 8] by (simp del: length_concat)
next
  case (VSet xs)
  then show ?case using msg_depth_list [of xs 8] by (simp del: length_concat)
next
  case (VMap xs)
  then show ?case using msg_depth_list [of xs 8] by (simp del: length_concat)
qed auto

lemma decodes_counted:
  assumes "size_ok pf n" and "decodes (g n) bs x"
  shows "decodes (\<lambda>m. let (count, m1) = ReadSizeT (pf_size_max pf) m in g count m1)
           (enc_size n @ bs) x"
  unfolding Let_def
proof (rule decodes_case)
  show "decodes_pure (ReadSizeT (pf_size_max pf)) (enc_size n) n"
    using assms(1) by (intro decodes_ReadSizeT) (auto simp: size_ok_def)
qed (rule assms(2))

lemma decodes_any_null: "decodes (ReadMsgAnyPtr (Suc f) pf lib) (enc_size 0) VNull"
proof -
  have "decodes_pure (ReadString (pf_size_max pf)) (enc_size 0) []"
    using decodes_strings(1) [of pf "[]"] by (simp add: size_ok_def)
  then show ?thesis
    by (fastforce simp: decodes_pure_def decodes_def)
qed

lemma decodes_any_msg:
  assumes "name \<noteq> []" and "size_ok pf (length name)" and "lib name = Some c"
    and "decodes (read_ty pf lib (ReadMsgAnyPtr f pf lib) c (default_val c)) bs v"
  shows "decodes (ReadMsgAnyPtr (Suc f) pf lib) (enc_size (length name) @ name @ bs) (VMsg name v)"
proof -
  have body: "decodes (\<lambda>m1. if name = [] then Inr (VNull, m1)
         else case lib name of
                None \<Rightarrow>
                  Inr (VNull, fb_SetError (''Unknown MsgType \"'' @ chars_of name @ ''\"'') m1)
              | Some contents \<Rightarrow>
                  bind_res (read_ty pf lib (ReadMsgAnyPtr f pf lib) contents (default_val contents) m1)
                    (\<lambda>(v, m2). Inr (VMsg name v, m2))) bs (VMsg name v)"
    using decodes_bind_return [OF assms(4), of "VMsg name"] assms(1,3) by simp
  show ?thesis
    unfolding ReadMsgAnyPtr.simps [abs_def] Let_def append_assoc [of "enc_size n" for n, symmetric]
    by (rule decodes_case, rule decodes_strings(1) [OF assms(2)], rule body)
qed

subsection \<open>The round trip\<close>

lemma decodes_msg_ptr_null: "decodes rd bs VNull \<Longrightarrow> decodes (read_msg_ptr lib ty rd old) bs old"
  unfolding decodes_def by (fastforce simp: read_msg_ptr_def)

lemma decodes_msg_ptr:
  assumes "decodes rd bs (VMsg name w)" and "lib name \<noteq> None"
  shows "decodes (read_msg_ptr lib name rd old) bs (VMsg name w)"
  unfolding decodes_def
proof (intro allI impI)
  fix m rest
  assume "fb_ready m (bs @ rest)"
  with assms(1) obtain m' where "rd m = Inr (VMsg name w, m')" "fb_ready m' rest"
    by (auto simp: decodes_def)
  with assms(2) show "\<exists>m'. read_msg_ptr lib name rd old m = Inr (VMsg name w, m') \<and> fb_ready m' rest"
    by (auto simp: read_msg_ptr_def Let_def fb_ready_def)
qed

lemma size_elem: "x \<in> set xs \<Longrightarrow> size x < size_list size (xs :: val list)"
  by (induction xs) auto

text \<open>What a variable holds after a value was read into it.\<close>

fun read_over :: "ety \<Rightarrow> val \<Rightarrow> val \<Rightarrow> val" where
  "read_over (EPair a b) old (VPair x y) = VPair (read_over a (val_first old) x) (read_over b (val_second old) y)"
| "read_over (EMsgPtr ty) old VNull = old"
| "read_over _ old v = v"

lemma read_over_default: "has_type pf lib t v \<Longrightarrow> read_over t (default_val t) v = v"
  by (induction t "default_val t" v rule: read_over.induct) auto

lemma decodes_val:
  assumes "has_type pf lib t v" and "msg_depth v \<le> fuel"
  shows "decodes (read_ty pf lib (ReadMsgAnyPtr fuel pf lib) t old) (enc_val v) (read_over t old v)"
  using assms
proof (induction v arbitrary: t fuel old rule: measure_induct_rule [of size])
  case (less v)
  note IH = less.IH and ty = less.prems(1) and depth = less.prems(2)
  let ?rd = "\<lambda>t. read_ty pf lib (ReadMsgAnyPtr fuel pf lib) t (default_val t)"
  have elem: "decodes (?rd a) (enc_val x) x"
    if "x \<in> set xs" "has_type pf lib a x" "size_list size xs \<le> size v"
      "fold max (map msg_depth xs) 0 \<le> fuel" for a x xs
  proof -
    have "size x < size v" using size_elem [OF that(1)] that(3) by simp
    moreover have "msg_depth x \<le> fuel"
      using that fold_max_ge [of "msg_depth x" "map msg_depth xs" 0] by auto
    ultimately show ?thesis
      using IH [of x a fuel "default_val a"] that(2) read_over_default [OF that(2)] by simp
  qed
  show ?case
  proof (cases v)
    case (VBool b)
    with ty show ?thesis by (simp add: Let_def decodes_case_return [OF decodes_bool])
  next
    case (VInt it x)
    with ty show ?thesis by (simp add: Let_def decodes_case_return [OF decodes_int])
  next
    case (VString str)
    with ty show ?thesis by (simp add: Let_def decodes_case_return [OF decodes_strings(1)])
  next
    case (VBytes vec)
    with ty show ?thesis by (simp add: Let_def decodes_case_return [OF decodes_strings(2)])
  next
    case VUnit
    with ty show ?thesis by (simp add: decodes_return)
  next
    case (VPair x y)
    with ty obtain a b where t: "t = EPair a b" and x: "has_type pf lib a x"
      and y: "has_type pf lib b y" by (auto split: ety.splits)
    have d: "decodes (read_ty pf lib (ReadMsgAnyPtr fuel pf lib) a (val_first old)) (enc_val x) (read_over a (val_first old) x)"
        "decodes (read_ty pf lib (ReadMsgAnyPtr fuel pf lib) b (val_second old)) (enc_val y) (read_over b (val_second old) y)"
      using IH [of x a fuel] IH [of y b fuel] x y depth VPair by auto
    show ?thesis
      unfolding t VPair read_ty.simps enc_val_simps read_over.simps
      by (rule decodes_bind, rule d(1), rule decodes_bind_return, rule d(2))
  next
    case (VVector xs)
    with ty obtain a where t: "t = EVector a" and n: "size_ok pf (length xs)"
      and m: "length xs \<le> pf_vector_max pf" and x: "\<And>x. x \<in> set xs \<Longrightarrow> has_type pf lib a x"
      by (auto split: ety.splits)
    have "decodes (read_elements (length xs) (?rd a)) (concat (map enc_val xs)) xs"
      using elem [of _ xs a] x depth VVector by (intro decodes_elements) auto
    then have "decodes (read_vector pf (?rd a)) (enc_val v) xs"
      using decodes_counted [OF n, of "\<lambda>n m. if n > pf_vector_max pf then Inl LengthError
          else read_elements n (?rd a) m"] m VVector
      by (simp add: read_vector_def [abs_def])
    from decodes_bind_return [OF this, of VVector] show ?thesis
      by (simp add: t VVector)
  next
    case (VSet xs)
    with ty obtain a where t: "t = ESet a" and n: "size_ok pf (length xs)"
      and srt: "sorted_wrt val_less xs" and x: "\<And>x. x \<in> set xs \<Longrightarrow> has_type pf lib a x"
      by (auto split: ety.splits)
    have "decodes (read_set_elements (length xs) (?rd a) []) (concat (map enc_val xs)) ([] @ xs)"
      using elem [of _ xs a] x depth VSet srt by (intro decodes_set_elements) auto
    then have "decodes (read_set pf (?rd a)) (enc_val v) xs"
      using decodes_counted [OF n, of "\<lambda>n. read_set_elements n (?rd a) []"] VSet
      by (simp add: read_set_def [abs_def])
    from decodes_bind_return [OF this, of VSet] show ?thesis
      by (simp add: t VSet)
  next
    case (VMap es)
    with ty obtain a b where t: "t = EMap a b" and n: "size_ok pf (length es)"
      and srt: "sorted_wrt (\<lambda>e f. val_less (entry_key e) (entry_key f)) es"
      and e: "\<And>e. e \<in> set es \<Longrightarrow> has_type pf lib (EPair a b) e"
      by (auto split: ety.splits)
    have comp: "\<exists>x y. e = VPair x y \<and> decodes (?rd a) (enc_val x) x \<and> decodes (?rd b) (enc_val y) y"
      if "e \<in> set es" for e
    proof -
      from e [OF that] obtain x y where xy: "e = VPair x y" "has_type pf lib a x"
        "has_type pf lib b y" by (cases e) auto
      have "size e < size v" "msg_depth e \<le> fuel"
        using size_elem [OF that] that VMap depth
          fold_max_ge [of "msg_depth e" "map msg_depth es" 0] by auto
      moreover have "size x < size v" "msg_depth x \<le> fuel" "size y < size v" "msg_depth y \<le> fuel"
        using calculation xy(1) by auto
      ultimately show ?thesis
        using xy IH [of x a fuel "default_val a"] IH [of y b fuel "default_val b"]
          read_over_default [OF xy(2)] read_over_default [OF xy(3)] by auto
    qed
    have "decodes (read_map_elements (length es) (?rd a) (?rd b) [])
        (concat (map enc_val es)) ([] @ es)"
      using comp srt by (intro decodes_map_elements) auto
    then have "decodes (read_map pf (?rd a) (?rd b)) (enc_val v) es"
      using decodes_counted [OF n, of "\<lambda>n. read_map_elements n (?rd a) (?rd b) []"] VMap
      by (simp add: read_map_def [abs_def])
    from decodes_bind_return [OF this, of VMap] show ?thesis
      by (simp add: t VMap)
  next
    case VNull
    with depth obtain f where f: "fuel = Suc f" by (cases fuel) auto
    from ty VNull consider "t = EMsgAnyPtr" | n where "t = EMsgPtr n"
      by (auto split: ety.splits)
    then show ?thesis
      using decodes_any_null [of f pf lib] f VNull
      by cases (auto intro: decodes_msg_ptr_null simp del: ReadMsgAnyPtr.simps)
  next
    case (VMsg name w)
    with depth obtain f where f: "fuel = Suc f" "msg_depth w \<le> f" by (cases fuel) auto
    from ty VMsg obtain c where c: "name \<noteq> []" "size_ok pf (length name)" "lib name = Some c"
      "has_type pf lib c w" and t: "t = EMsgAnyPtr \<or> t = EMsgPtr name"
      by (auto split: ety.splits option.splits)
    have "decodes (read_ty pf lib (ReadMsgAnyPtr f pf lib) c (default_val c)) (enc_val w) w"
      using IH [of w c f "default_val c"] VMsg c f read_over_default [OF c(4)] by simp
    from decodes_any_msg [OF c(1-3) this]
    have d: "decodes (ReadMsgAnyPtr fuel pf lib) (enc_val v) v"
      unfolding VMsg f enc_val_simps .
    from c(3) have "lib name \<noteq> None" by simp
    from decodes_msg_ptr [where lib = lib, OF d [unfolded VMsg] this] d t show ?thesis
      unfolding VMsg by (auto simp del: enc_val_simps)
  qed
qed

lemma fb_ready_init: "fb_ready (FromBinary bs) bs"
  by (simp add: fb_ready_def FromBinary_def fb_wf_def)

lemma fb_ready_Nil:
  assumes "fb_ready m []"
  shows "EnsureAllBytesRead m = m"
  using assms by (auto simp: EnsureAllBytesRead_def fb_GetBytesRemaining_def fb_ready_def fb_wf_def)

lemma growing_inv_default: "1024 \<le> size_max \<Longrightarrow> growing_inv size_max ToBinary_default"
  by (simp add: growing_inv_def ToBinary_default_def tb_wf_def)

lemma write_val_default:
  assumes "1024 \<le> size_max" and "\<And>b. b \<in> set (val_blocks v) \<Longrightarrow> length b \<le> 1024"
    and "length (enc_val v) \<le> size_max div 2"
  obtains s where "write_val size_max v ToBinary_default = Inr s" and "growing_inv size_max s"
    and "tb_bytes s = enc_val v"
proof -
  have "tb_bytes ToBinary_default = []" "tb_BufferLength ToBinary_default = 1024"
    "growing_budget size_max ToBinary_default = size_max div 2"
    by (simp_all add: ToBinary_default_def tb_bytes_def growing_budget_def)
  then show thesis
    using growing.put_all_ok [OF growing_inv_default [OF assms(1)], of "val_blocks v"] assms that
    by (auto simp: write_val_blocks enc_val_def)
qed

lemma ExtractData_ok: "growing_inv size_max s \<Longrightarrow> ExtractData s = map Some (tb_bytes s)"
  using take_written_Some [of size_max s]
  by (simp add: ExtractData_def tb_GetBytesWritten_def growing_inv_def)

lemma fb_Read_enc:
  assumes "has_type pf lib t v"
  obtains m where "fb_Read pf lib t old (FromBinary (enc_val v @ rest)) = Inr (read_over t old v, m)"
    and "fb_ready m rest"
proof -
  have "msg_depth v \<le> Suc (fb_GetBytesRemaining (FromBinary (enc_val v @ rest)))"
    using msg_depth_le_length [of v] by (simp add: fb_GetBytesRemaining_def FromBinary_def)
  from decodes_val [OF assms this, of old] fb_ready_init [of "enc_val v @ rest"] show thesis
    using that by (auto simp: decodes_def fb_Read_def)
qed

subsection \<open>Properties\<close>

text \<open>C1: Writing any well-typed value into a default writer and reading the extracted bytes
  back gives the value in a new variable, and in a variable with an old value the value except that a member
  \<open>MsgPtr\<close> for which a null pointer was written keeps what it pointed to; without an error on either side and
  with no byte left over, as long as every single block (a string or byte vector) is at most the initial capacity of 1024
  bytes and the whole encoding fits half of the address range.\<close>

theorem binary_roundtrip:
  assumes "has_type pf lib t v"
    and "1024 \<le> pf_size_max pf" and "\<forall>b \<in> set (val_blocks v). length b \<le> 1024"
    and "length (enc_val v) \<le> pf_size_max pf div 2"
  shows "\<exists>s bs m m'. write_val (pf_size_max pf) v ToBinary_default = Inr s
           \<and> \<not> tb_HasError s \<and> ExtractData s = map Some bs
           \<and> fb_Read pf lib t (default_val t) (FromBinary bs) = Inr (v, m)
           \<and> \<not> fb_HasError (EnsureAllBytesRead m)
           \<and> fb_Read pf lib t old (FromBinary bs) = Inr (read_over t old v, m')
           \<and> \<not> fb_HasError (EnsureAllBytesRead m')"
proof -
  obtain s where s: "write_val (pf_size_max pf) v ToBinary_default = Inr s"
    "growing_inv (pf_size_max pf) s" "tb_bytes s = enc_val v"
    using write_val_default [of "pf_size_max pf" v] assms by blast
  have read: "\<exists>m. fb_Read pf lib t old (FromBinary (enc_val v)) = Inr (read_over t old v, m) \<and> \<not> fb_HasError (EnsureAllBytesRead m)" for old
  proof -
    obtain m where m: "fb_Read pf lib t old (FromBinary (enc_val v)) = Inr (read_over t old v, m)" "fb_ready m []"
      using fb_Read_enc [OF assms(1), of old "[]"] by auto
    then have "\<not> fb_HasError (EnsureAllBytesRead m)"
      by (simp add: fb_ready_Nil) (simp add: fb_ready_def)
    with m(1) show ?thesis by blast
  qed
  show ?thesis
    using s ExtractData_ok [OF s(2)] read [of old] read [of "default_val t"] read_over_default [OF assms(1)]
    by (auto simp: growing_inv_def)
qed

definition demo_platform :: platform where
  "demo_platform = \<lparr>pf_size_max = 4294967295, pf_vector_max = 1000\<rparr>"

definition demo_value :: val where
  "demo_value = VPair (VInt I16 (-2)) (VPair (VSet [VString [104], VString [105, 106]])
     (VPair (VMsg [77] (VPair (VBool True) VUnit)) VUnit))"

definition demo_type :: ety where
  "demo_type = EPair (EInt I16) (EPair (ESet EString) (EPair EMsgAnyPtr EUnit))"

definition demo_lib :: msg_lib where
  "demo_lib name = (if name = [77] then Some (EPair EBool EUnit) else None)"

lemma demo_has_type: "has_type demo_platform demo_lib demo_type demo_value"
  by (simp add: demo_value_def demo_type_def demo_lib_def demo_platform_def size_ok_def)

theorem binary_roundtrip_witness:
  "has_type demo_platform demo_lib demo_type demo_value
   \<and> (\<exists>s bs m. write_val (pf_size_max demo_platform) demo_value ToBinary_default = Inr s
        \<and> \<not> tb_HasError s \<and> ExtractData s = map Some bs
        \<and> fb_Read demo_platform demo_lib demo_type (default_val demo_type) (FromBinary bs) = Inr (demo_value, m)
        \<and> \<not> fb_HasError (EnsureAllBytesRead m))"
proof -
  have "1024 \<le> pf_size_max demo_platform"
    "\<forall>b \<in> set (val_blocks demo_value). length b \<le> 1024"
    "length (enc_val demo_value) \<le> pf_size_max demo_platform div 2"
    by (simp_all add: demo_platform_def demo_value_def string_blocks_def Let_def)
  from binary_roundtrip [OF demo_has_type this, of "default_val demo_type"] demo_has_type show ?thesis by auto
qed

text \<open>A null pointer that was written is not read back into a \<open>MsgPtr\<close> that points to an object: it goes on pointing there.\<close>

theorem read_null_keeps_pointer:
  "\<exists>m. fb_Read pf lib (EMsgPtr ty) old (FromBinary (enc_val VNull)) = Inr (old, m) \<and> \<not> fb_HasError (EnsureAllBytesRead m)"
proof -
  have "has_type pf lib (EMsgPtr ty) VNull"
    by simp
  from fb_Read_enc [OF this, of old "[]"] obtain m
    where "fb_Read pf lib (EMsgPtr ty) old (FromBinary (enc_val VNull)) = Inr (old, m)" "fb_ready m []"
    by auto
  then show ?thesis
    by (auto simp: fb_ready_Nil) (simp add: fb_ready_def)
qed

subsection \<open>Safety of the writer\<close>

text \<open>
  Without any bound on the total size: a growing writer never leaves its buffer as long as
  no single block exceeds its capacity, and a writer over a caller's buffer never does.
\<close>

lemma spec_write_safe:
  assumes "length (wv_bytes v) \<le> wv_capacity v" and "length bs \<le> wv_capacity v \<or> \<not> wv_growing v"
  shows "\<exists>v'. spec_write size_max bs v = Inr v' \<and> wv_capacity v \<le> wv_capacity v'
           \<and> wv_growing v' = wv_growing v"
  using assms by (auto simp: spec_write_def)

lemma WriteData_small_block:
  assumes "tb_wf size_max s" and "length bs \<le> tb_BufferLength s \<or> \<not> tb_AutoAllocated s"
  shows "\<exists>s'. WriteData size_max bs s = Inr s' \<and> tb_wf size_max s'
           \<and> tb_BufferLength s \<le> tb_BufferLength s' \<and> tb_AutoAllocated s' = tb_AutoAllocated s"
proof -
  have w: "length (tb_bytes s) \<le> tb_BufferLength s"
    using assms(1) by (simp add: length_tb_bytes [OF assms(1)]) (simp add: tb_wf_def)
  obtain v where v: "spec_write size_max bs (tb_view s) = Inr v"
    "tb_BufferLength s \<le> wv_capacity v" "wv_growing v = tb_AutoAllocated s"
    using spec_write_safe [of "tb_view s" bs size_max] assms(2) w by (auto simp: tb_view_def)
  obtain s' where "WriteData size_max bs s = Inr s'" "tb_wf size_max s'" "tb_view s' = v"
    using WriteData_Inr_view [OF assms(1) v(1)] by blast
  with v(2,3) show ?thesis
    by (auto simp: tb_view_def)
qed

lemma WriteData_blocks_safe:
  assumes "tb_wf size_max s"
    and "\<And>b. b \<in> set bss \<Longrightarrow> length b \<le> tb_BufferLength s \<or> \<not> tb_AutoAllocated s"
  shows "\<exists>s'. fold_res (WriteData size_max) bss s = Inr s' \<and> tb_wf size_max s'"
  using assms
proof (induction bss arbitrary: s)
  case Nil
  then show ?case by simp
next
  case (Cons b bss)
  then obtain t where t: "WriteData size_max b s = Inr t" "tb_wf size_max t"
    "tb_BufferLength s \<le> tb_BufferLength t" "tb_AutoAllocated t = tb_AutoAllocated s"
    using WriteData_small_block [OF Cons.prems(1), of b] by auto
  moreover have "\<And>c. c \<in> set bss \<Longrightarrow> length c \<le> tb_BufferLength t \<or> \<not> tb_AutoAllocated t"
    using Cons.prems(2) t(3,4) by (meson list.set_intros(2) le_trans)
  ultimately show ?case
    using Cons.IH by auto
qed

text \<open>C33: Writing a value never stores outside the buffer, whatever its total size, if the
  buffer is the caller's or no single block exceeds the capacity the writer starts with.\<close>

theorem write_val_safe:
  assumes "tb_wf size_max s"
    and "tb_AutoAllocated s \<Longrightarrow> \<forall>b \<in> set (val_blocks v). length b \<le> tb_BufferLength s"
  shows "\<exists>s'. write_val size_max v s = Inr s' \<and> tb_wf size_max s'"
  unfolding write_val_blocks
  using assms by (intro WriteData_blocks_safe) auto

theorem write_val_safe_witness:
  "\<exists>s'. write_val 65535 (VPair (VString [1, 2, 3]) (VInt U32 7)) (ToBinary_sized 8) = Inr s'
      \<and> tb_wf 65535 s'"
  by (rule write_val_safe) (simp_all add: tb_wf_def ToBinary_sized_def string_blocks_def)

lemma enc_size_room:
  assumes "1024 \<le> size_max"
  obtains s where "WriteData size_max (enc_size n) ToBinary_default = Inr s" and "tb_wf size_max s"
    and "tb_view s = \<lparr>wv_bytes = enc_size n, wv_capacity = 1024, wv_growing = True, wv_error = None\<rparr>"
proof -
  have wf: "tb_wf size_max ToBinary_default"
    using growing_inv_default [OF assms] by (simp add: growing_inv_def)
  have "spec_write size_max (enc_size n) (tb_view ToBinary_default)
      = Inr \<lparr>wv_bytes = enc_size n, wv_capacity = 1024, wv_growing = True, wv_error = None\<rparr>"
    by (simp add: spec_write_def tb_view_def ToBinary_default_def tb_bytes_def)
  from WriteData_Inr_view [OF wf this] that show thesis by blast
qed

text \<open>A default writer given a string of 2041 bytes or more stores past the end of the
  buffer it has just doubled: \<open>PrivateTestForWrite\<close> doubles the capacity once, to 2048
  bytes, and reports success although the eight length bytes and the string do not fit.\<close>

theorem WriteString_overruns:
  assumes "2048 \<le> size_max" and "2041 \<le> length str"
  shows "WriteString size_max str ToBinary_default = Inl BufferOverrun"
proof -
  obtain s where s: "WriteData size_max (enc_size (length str)) ToBinary_default = Inr s"
    "tb_wf size_max s"
    "tb_view s = \<lparr>wv_bytes = enc_size (length str), wv_capacity = 1024, wv_growing = True,
       wv_error = None\<rparr>"
    using enc_size_room [of size_max "length str"] assms by auto
  have "spec_write size_max str (tb_view s) = Inl BufferOverrun"
    using assms by (simp add: spec_write_def s(3))
  then have "WriteData size_max str s = Inl BufferOverrun"
    using WriteData_refines [OF s(2), of str]
    by (cases "WriteData size_max str s") (auto simp: tb_refines_def)
  with s assms show ?thesis
    by (auto simp: WriteString_blocks string_blocks_def)
qed

theorem WriteString_overruns_witness:
  "WriteString 4294967295 (replicate 2041 65) ToBinary_default = Inl BufferOverrun"
  by (rule WriteString_overruns) simp_all

subsection \<open>Safety of the reader\<close>

text \<open>C32: Whatever the bytes and the type, a read never moves the read pointer past the end
  of the data, never moves it back, never changes the data, and keeps an error that was
  already there with its message.\<close>

theorem fb_Read_stays_inside:
  assumes "fb_Read pf lib t old m = Inr (v, m')" and "fb_ReadPtr m \<le> length (fb_Data m)"
  shows "fb_Data m' = fb_Data m \<and> fb_ReadPtr m \<le> fb_ReadPtr m'
    \<and> fb_ReadPtr m' \<le> length (fb_Data m)
    \<and> (fb_HasError m \<longrightarrow> fb_HasError m' \<and> fb_ErrorStr m' = fb_ErrorStr m)"
  using fb_Read_frame [OF assms(1)] assms(2) by (auto simp: fb_frame_def fb_wf_def)

theorem fb_Read_stays_inside_witness:
  "\<exists>v m'. fb_Read demo_platform demo_lib (EInt U16) (VInt U16 0) (FromBinary [1]) = Inr (v, m')
     \<and> fb_Data m' = [1] \<and> fb_ReadPtr m' \<le> 1"
proof -
  obtain v m' where r: "fb_Read demo_platform demo_lib (EInt U16) (VInt U16 0) (FromBinary [1]) = Inr (v, m')"
    by (cases "ReadUint16 (FromBinary [1])") (simp add: fb_Read_def)
  with fb_Read_stays_inside [OF r] show ?thesis
    by (auto simp: FromBinary_def)
qed

text \<open>C37: Reading a value of any type from any bytes terminates: the recursion through nested
  message objects never uses up the fuel the model gives it, because every level consumes at
  least the bytes of its type name.\<close>

theorem fb_Read_terminates: "fb_Read pf lib t old m \<noteq> Inl OutOfFuel"
  by (rule fb_Read_not_OutOfFuel)

text \<open>An input of eight bytes can make the reader throw instead of reporting an error: the
  element count of a vector is passed to \<open>resize\<close> before it is compared with the data that
  is left.\<close>

theorem read_vector_throws:
  assumes "pf_vector_max pf < n" and "n \<le> pf_size_max pf" and "n < 2 ^ 64"
  shows "fb_Read pf lib (EVector t) old (FromBinary (enc_size n)) = Inl LengthError"
proof -
  have "decodes_pure (ReadSizeT (pf_size_max pf)) (enc_size n) n"
    using assms by (intro decodes_ReadSizeT)
  then obtain m' where "ReadSizeT (pf_size_max pf) (FromBinary (enc_size n)) = (n, m')"
    using fb_ready_init [of "enc_size n"]
    unfolding decodes_pure_def decodes_def by (metis append_Nil2 sum.inject(2))
  with assms show ?thesis
    by (simp add: fb_Read_def read_vector_def)
qed

theorem read_vector_throws_witness:
  "fb_Read demo_platform demo_lib (EVector EBool) (VVector []) (FromBinary (enc_size 1001)) = Inl LengthError"
  by (rule read_vector_throws) (simp_all add: demo_platform_def)

end
