(* ===== verification/ReadTypes.thy ===== *)
theory ReadTypes
  imports RoundTrip
begin

section \<open>The reader returns values of the type it was asked for\<close>

text \<open>
  \<open>FromBinary::Read\<close> on any bytes: whatever it returns, with or without an error, has the type
  it was called with; integers are in range, lengths fit, sets and maps are ordered without
  duplicates, and a message pointer is null or points to an object of a registered type, which
  is the wanted one for a \<open>MsgPtr\<close>. The order of the elements is a strict weak order on the
  values of one type, which the ordered containers need.
\<close>

subsection \<open>The order on the values of a type\<close>

definition neg_trans :: "('a \<Rightarrow> bool) \<Rightarrow> ('a \<Rightarrow> 'a \<Rightarrow> bool) \<Rightarrow> bool" where
  "neg_trans P lt \<longleftrightarrow> (\<forall>x y z. P x \<longrightarrow> P y \<longrightarrow> P z \<longrightarrow> lt x z \<longrightarrow> lt x y \<or> lt y z)"

lemma neg_transD: "neg_trans P lt \<Longrightarrow> P x \<Longrightarrow> P y \<Longrightarrow> P z \<Longrightarrow> lt x z \<Longrightarrow> lt x y \<or> lt y z"
  unfolding neg_trans_def by blast

lemma bytes_less_neg_trans: "bytes_less xs zs \<Longrightarrow> bytes_less xs ys \<or> bytes_less ys zs"
proof (induction xs zs arbitrary: ys rule: bytes_less.induct)
  case (3 x xs z zs)
  show ?case
  proof (cases ys)
    case (Cons y ys')
    then show ?thesis
      using "3.prems" "3.IH" [of ys'] by (cases x y rule: linorder_cases; cases y z rule: linorder_cases) auto
  qed simp
next
  case (2 z zs)
  then show ?case by (cases ys) auto
qed simp

lemma vals_less_neg_trans:
  assumes "neg_trans P val_less"
  shows "neg_trans (list_all P) vals_less"
  unfolding neg_trans_def
proof (intro allI impI)
  fix xs ys zs
  assume "list_all P xs" "list_all P ys" "list_all P zs" "vals_less xs zs"
  then show "vals_less xs ys \<or> vals_less ys zs"
  proof (induction xs arbitrary: ys zs)
    case Nil
    then show ?case by (cases ys; cases zs) auto
  next
    case (Cons x xs)
    then obtain z zs' where zs: "zs = z # zs'"
      by (cases zs) auto
    show ?case
    proof (cases ys)
      case Nil
      then show ?thesis using zs by simp
    next
      case (Cons y ys')
      then have P: "P x" "P y" "P z" and tails: "vals_less xs zs' \<Longrightarrow> vals_less xs ys' \<or> vals_less ys' zs'"
        using Cons.prems Cons.IH zs by auto
      show ?thesis
        using Cons.prems(4) tails Cons zs
          neg_transD [OF assms P] neg_transD [OF assms P(3,1,2)] neg_transD [OF assms P(2,3,1)]
          neg_transD [OF assms P(3,2,1)] neg_transD [OF assms P(2,1,3)] neg_transD [OF assms P(1,3,2)]
        by auto
    qed
  qed
qed

lemma has_type_pair: "has_type pf lib (EPair a b) v \<Longrightarrow> \<exists>x y. v = VPair x y \<and> has_type pf lib a x \<and> has_type pf lib b y"
  by (cases v) auto

lemma pair_neg_trans:
  assumes "neg_trans (has_type pf lib a) val_less" "neg_trans (has_type pf lib b) val_less"
  shows "neg_trans (has_type pf lib (EPair a b)) val_less"
  unfolding neg_trans_def
proof (intro allI impI)
  fix x y z
  assume "has_type pf lib (EPair a b) x" "has_type pf lib (EPair a b) y" "has_type pf lib (EPair a b) z" and lt: "val_less x z"
  then obtain x1 x2 y1 y2 z1 z2 where v: "x = VPair x1 x2" "y = VPair y1 y2" "z = VPair z1 z2"
    and a: "has_type pf lib a x1" "has_type pf lib a y1" "has_type pf lib a z1"
    and b: "has_type pf lib b x2" "has_type pf lib b y2" "has_type pf lib b z2"
    using has_type_pair by metis
  show "val_less x y \<or> val_less y z"
    using lt v neg_transD [OF assms(2) b]
      neg_transD [OF assms(1) a] neg_transD [OF assms(1) a(3,1,2)] neg_transD [OF assms(1) a(2,3,1)]
      neg_transD [OF assms(1) a(3,2,1)] neg_transD [OF assms(1) a(2,1,3)] neg_transD [OF assms(1) a(1,3,2)]
    by auto
qed

lemma container_neg_trans:
  assumes "neg_trans P val_less" "\<And>v. Q v \<Longrightarrow> \<exists>xs. v = C xs \<and> list_all P xs"
    and "\<And>xs ys. val_less (C xs) (C ys) = vals_less xs ys"
  shows "neg_trans Q val_less"
  unfolding neg_trans_def
proof (intro allI impI)
  fix x y z
  assume "Q x" "Q y" "Q z" and lt: "val_less x z"
  then obtain xs ys zs where v: "x = C xs" "y = C ys" "z = C zs" and P: "list_all P xs" "list_all P ys" "list_all P zs"
    using assms(2) by metis
  then show "val_less x y \<or> val_less y z"
    using lt neg_transD [OF vals_less_neg_trans [OF assms(1)] P] assms(3) by auto
qed

lemma has_type_container:
  "has_type pf lib (EVector a) v \<Longrightarrow> \<exists>xs. v = VVector xs \<and> list_all (has_type pf lib a) xs"
  "has_type pf lib (ESet a) v \<Longrightarrow> \<exists>xs. v = VSet xs \<and> list_all (has_type pf lib a) xs"
  "has_type pf lib (EMap a b) v \<Longrightarrow> \<exists>xs. v = VMap xs \<and> list_all (has_type pf lib (EPair a b)) xs"
  by (cases v; simp add: list_all_iff)+

lemma has_type_scalar:
  "has_type pf lib EBool v \<Longrightarrow> \<exists>b. v = VBool b"
  "has_type pf lib (EInt it) v \<Longrightarrow> \<exists>i. v = VInt it i"
  "has_type pf lib EString v \<Longrightarrow> \<exists>str. v = VString str"
  "has_type pf lib EByteVector v \<Longrightarrow> \<exists>vec. v = VBytes vec"
  "has_type pf lib EUnit v \<Longrightarrow> v = VUnit"
  by (cases v; auto)+

lemma has_type_pointer: "has_type pf lib EMsgAnyPtr v \<or> has_type pf lib (EMsgPtr ty) v \<Longrightarrow> \<not> val_less v w"
  by (cases v) auto

lemma val_less_neg_trans: "neg_trans (has_type pf lib t) val_less"
proof (induction t)
  case (EPair a b)
  then show ?case by (rule pair_neg_trans)
next
  case (EVector a)
  then show ?case by (rule container_neg_trans [where C = VVector]) (erule has_type_container, simp)
next
  case (ESet a)
  then show ?case by (rule container_neg_trans [where C = VSet]) (erule has_type_container, simp)
next
  case (EMap a b)
  then show ?case by (rule container_neg_trans [where C = VMap, OF pair_neg_trans]) (erule has_type_container, simp)
next
  case EBool
  then show ?case by (auto simp: neg_trans_def dest!: has_type_scalar(1))
next
  case (EInt it)
  then show ?case by (auto simp: neg_trans_def dest!: has_type_scalar(2))
next
  case EString
  then show ?case by (auto simp: neg_trans_def dest!: has_type_scalar(3)) (meson bytes_less_neg_trans)
next
  case EByteVector
  then show ?case by (auto simp: neg_trans_def dest!: has_type_scalar(4)) (meson bytes_less_neg_trans)
next
  case EUnit
  then show ?case by (auto simp: neg_trans_def dest!: has_type_scalar(5))
next
  case EMsgAnyPtr
  then show ?case using has_type_pointer unfolding neg_trans_def by blast
next
  case (EMsgPtr ty)
  then show ?case using has_type_pointer unfolding neg_trans_def by blast
qed

lemma val_less_trans:
  assumes "has_type pf lib t x" "has_type pf lib t y" "has_type pf lib t z" "val_less x y" "val_less y z"
  shows "val_less x z"
  using neg_transD [OF val_less_neg_trans assms(2,1,3,5)] val_less_asym [OF assms(4)] by blast

subsection \<open>Insertion\<close>

lemma set_insert_typed:
  assumes "\<forall>y \<in> set ys. has_type pf lib t y" "has_type pf lib t x" "sorted_wrt val_less ys" "set_insert x ys = (zs, b)"
  shows "sorted_wrt val_less zs \<and> set zs \<subseteq> insert x (set ys) \<and> length zs \<le> Suc (length ys)"
  using assms
proof (induction ys arbitrary: zs b)
  case Nil
  then show ?case by auto
next
  case (Cons y ys)
  consider "val_less x y" | "\<not> val_less x y" "val_less y x" | "\<not> val_less x y" "\<not> val_less y x"
    by blast
  then show ?case
  proof cases
    case 1
    have "val_less x z" if "z \<in> set ys" for z
      using val_less_trans [OF Cons.prems(2), of y z] Cons.prems(1,3) 1 that by auto
    then show ?thesis
      using 1 Cons.prems by auto
  next
    case 2
    obtain us c where us: "set_insert x ys = (us, c)" "zs = y # us"
      using 2 Cons.prems(4) by (auto split: prod.splits)
    have "sorted_wrt val_less us \<and> set us \<subseteq> insert x (set ys) \<and> length us \<le> Suc (length ys)"
      using Cons.prems by (intro Cons.IH [OF _ _ _ us(1)]) auto
    then show ?thesis
      using us(2) 2 Cons.prems(3) by auto
  next
    case 3
    then show ?thesis using Cons.prems by auto
  qed
qed

abbreviation key_less :: "val \<Rightarrow> val \<Rightarrow> bool" where
  "key_less e f \<equiv> val_less (entry_key e) (entry_key f)"

lemma map_emplace_typed:
  assumes "\<forall>e \<in> set es. has_type pf lib (EPair a b) e" "has_type pf lib a k" "sorted_wrt key_less es"
    and "map_emplace k v es = (zs, c)"
  shows "sorted_wrt key_less zs \<and> set zs \<subseteq> insert (VPair k v) (set es) \<and> length zs \<le> Suc (length es)"
  using assms
proof (induction es arbitrary: zs c)
  case Nil
  then show ?case by auto
next
  case (Cons e es)
  have key: "has_type pf lib a (entry_key f)" if "f \<in> set (e # es)" for f
    using Cons.prems(1) that has_type_pair by fastforce
  consider "val_less k (entry_key e)" | "\<not> val_less k (entry_key e)" "val_less (entry_key e) k"
    | "\<not> val_less k (entry_key e)" "\<not> val_less (entry_key e) k"
    by blast
  then show ?case
  proof cases
    case 1
    have "val_less k (entry_key z)" if "z \<in> set es" for z
      using val_less_trans [OF Cons.prems(2) key key 1, of z] Cons.prems(3) that by auto
    then show ?thesis
      using 1 Cons.prems by auto
  next
    case 2
    obtain us d where us: "map_emplace k v es = (us, d)" "zs = e # us"
      using 2 Cons.prems(4) by (auto split: prod.splits)
    have "sorted_wrt key_less us \<and> set us \<subseteq> insert (VPair k v) (set es) \<and> length us \<le> Suc (length es)"
      using Cons.prems by (intro Cons.IH [OF _ _ _ us(1)]) auto
    then show ?thesis
      using us(2) 2 Cons.prems(3) by auto
  next
    case 3
    then show ?thesis using Cons.prems by auto
  qed
qed

subsection \<open>Reading\<close>

definition gives :: "(val \<Rightarrow> bool) \<Rightarrow> reader \<Rightarrow> bool" where
  "gives P rd \<longleftrightarrow> (\<forall>m v m'. rd m = Inr (v, m') \<longrightarrow> P v)"

lemma givesI: "(\<And>m v m'. rd m = Inr (v, m') \<Longrightarrow> P v) \<Longrightarrow> gives P rd"
  unfolding gives_def by blast

lemma givesD: "gives P rd \<Longrightarrow> rd m = Inr (v, m') \<Longrightarrow> P v"
  unfolding gives_def by blast

lemma word_ranges:
  "uint (w8 :: byte) < 2 ^ 8" "uint (w16 :: u16) < 2 ^ 16" "uint (w32 :: u32) < 2 ^ 32" "uint (w64 :: u64) < 2 ^ 64"
  "- (2 ^ 7) \<le> sint w8" "sint w8 < 2 ^ 7" "- (2 ^ 15) \<le> sint w16" "sint w16 < 2 ^ 15"
  "- (2 ^ 31) \<le> sint w32" "sint w32 < 2 ^ 31" "- (2 ^ 63) \<le> sint w64" "sint w64 < 2 ^ 63"
  using uint_bounded [of w8] uint_bounded [of w16] uint_bounded [of w32] uint_bounded [of w64]
    sint_ge [of w8] sint_lt [of w8] sint_ge [of w16] sint_lt [of w16] sint_ge [of w32] sint_lt [of w32]
    sint_ge [of w64] sint_lt [of w64]
  by simp_all

lemma ReadIntByType_range: "int_in_range t (fst (ReadIntByType t m))"
  using word_ranges by (cases t) (auto simp: Let_def split: prod.split)

lemma unat_64: "unat (w :: u64) < 18446744073709551616"
proof -
  have "unat w < 2 ^ LENGTH(64)"
    by (rule unsigned_less)
  then show ?thesis by simp
qed

lemma ReadSizeT_size: "ReadSizeT (pf_size_max pf) m = (n, m') \<Longrightarrow> size_ok pf n"
  using unat_64 by (auto simp: ReadSizeT_def Let_def size_ok_def split: prod.splits if_splits)

lemma size_ok_le: "size_ok pf n \<Longrightarrow> k \<le> n \<Longrightarrow> size_ok pf k"
  by (simp add: size_ok_def)

lemma ReadString_size:
  "ReadString (pf_size_max pf) m = (str, m') \<Longrightarrow> size_ok pf (length str)"
  "ReadByteVector (pf_size_max pf) m = (str, m') \<Longrightarrow> size_ok pf (length str)"
  using size_ok_le [OF ReadSizeT_size]
  by (auto simp: ReadString_def ReadByteVector_def fb_take_def split: prod.splits if_splits)

lemma read_elements_typed:
  assumes "gives P rd" "read_elements n rd m = Inr (xs, m')"
  shows "length xs = n \<and> (\<forall>x \<in> set xs. P x)"
  using assms(2)
proof (induction n arbitrary: m xs)
  case (Suc n)
  then show ?case
    using givesD [OF assms(1)] by (fastforce simp: bind_res_eq_Inr)
qed simp

lemma read_set_elements_typed:
  assumes "gives (has_type pf lib t) rd" "read_set_elements n rd acc m = Inr (xs, m')"
    and "\<forall>y \<in> set acc. has_type pf lib t y" "sorted_wrt val_less acc"
  shows "sorted_wrt val_less xs \<and> (\<forall>x \<in> set xs. has_type pf lib t x) \<and> length xs \<le> length acc + n"
  using assms(2-4)
proof (induction n arbitrary: m acc)
  case (Suc n)
  from Suc.prems(1) obtain x m1 where x: "rd m = Inr (x, m1)"
    by (auto simp: bind_res_eq_Inr)
  obtain acc' b where ins: "set_insert x acc = (acc', b)"
    by fastforce
  note acc = set_insert_typed [OF Suc.prems(2) givesD [OF assms(1) x] Suc.prems(3) ins]
  obtain m2 where "read_set_elements n rd acc' m2 = Inr (xs, m')"
    using Suc.prems(1) x ins by (cases b) auto
  moreover have "\<forall>y \<in> set acc'. has_type pf lib t y"
    using acc Suc.prems(2) givesD [OF assms(1) x] by blast
  ultimately have "sorted_wrt val_less xs \<and> (\<forall>x \<in> set xs. has_type pf lib t x) \<and> length xs \<le> length acc' + n"
    using Suc.IH acc by blast
  then show ?case
    using acc by auto
qed auto

lemma read_map_elements_typed:
  assumes "gives (has_type pf lib a) rdk" "gives (has_type pf lib b) rdv" "read_map_elements n rdk rdv acc m = Inr (es, m')"
    and "\<forall>e \<in> set acc. has_type pf lib (EPair a b) e" "sorted_wrt key_less acc"
  shows "sorted_wrt key_less es \<and> (\<forall>e \<in> set es. has_type pf lib (EPair a b) e) \<and> length es \<le> length acc + n"
  using assms(3-5)
proof (induction n arbitrary: m acc)
  case (Suc n)
  from Suc.prems(1) obtain k m1 v m2 where kv: "rdk m = Inr (k, m1)" "rdv m1 = Inr (v, m2)"
    by (auto simp: bind_res_eq_Inr)
  note t = givesD [OF assms(1) kv(1)] givesD [OF assms(2) kv(2)]
  obtain acc' c where ins: "map_emplace k v acc = (acc', c)"
    by fastforce
  note acc = map_emplace_typed [OF Suc.prems(2) t(1) Suc.prems(3) ins]
  have typed: "\<forall>e \<in> set acc'. has_type pf lib (EPair a b) e"
    using acc Suc.prems(2) t by auto
  have "es = acc \<or> es = acc' \<or> (\<exists>m3. read_map_elements n rdk rdv acc' m3 = Inr (es, m'))"
    using Suc.prems(1) kv ins by (cases c) (auto split: if_splits)
  then show ?case
    using Suc.prems(2,3) acc typed Suc.IH [of acc'] by fastforce
qed auto

lemma val_members_typed:
  "has_type pf lib (EPair a b) v \<Longrightarrow> has_type pf lib a (val_first v) \<and> has_type pf lib b (val_second v)"
  by (cases v) auto

lemma default_val_typed: "has_type pf lib t (default_val t)"
proof (induction t)
  case (EInt it)
  then show ?case by (cases it) auto
qed (auto simp: size_ok_def)

lemma read_ty_typed:
  assumes "gives (has_type pf lib EMsgAnyPtr) rm" "has_type pf lib t old"
  shows "gives (has_type pf lib t) (read_ty pf lib rm t old)"
  using assms(2)
proof (induction t arbitrary: old)
  case (EInt it)
  show ?case
    using ReadIntByType_range [of it] by (auto intro!: givesI split: prod.splits) (metis fst_conv)
next
  case (EPair a b)
  then show ?case
    using val_members_typed [OF EPair.prems] unfolding gives_def by (fastforce simp: bind_res_eq_Inr)
next
  case (EVector a)
  show ?case
    using ReadSizeT_size read_elements_typed [OF EVector.IH [OF default_val_typed]]
    by (fastforce intro!: givesI simp: bind_res_eq_Inr read_vector_def split: prod.splits if_splits)
next
  case (ESet a)
  show ?case
    using ReadSizeT_size read_set_elements_typed [OF ESet.IH [OF default_val_typed]] size_ok_le
    by (fastforce intro!: givesI simp: bind_res_eq_Inr read_set_def split: prod.splits)
next
  case (EMap a b)
  show ?case
    using ReadSizeT_size read_map_elements_typed [OF EMap.IH(1) [OF default_val_typed] EMap.IH(2) [OF default_val_typed]] size_ok_le
    by (fastforce intro!: givesI simp: bind_res_eq_Inr read_map_def split: prod.splits)
next
  case EMsgAnyPtr
  then show ?case using assms(1) by simp
next
  case (EMsgPtr ty)
  have "has_type pf lib (EMsgPtr ty) (TryCast lib ty v)" if "has_type pf lib EMsgAnyPtr v" for v
    using that by (cases v) auto
  then show ?case
    using givesD [OF assms(1)] EMsgPtr.prems
    by (fastforce intro!: givesI simp: bind_res_eq_Inr read_msg_ptr_def Let_def split: if_splits)
next
  case EString
  show ?case by (auto intro!: givesI ReadString_size(1) split: prod.splits)
next
  case EByteVector
  show ?case by (auto intro!: givesI ReadString_size(2) split: prod.splits)
qed (auto intro!: givesI split: prod.splits)

lemma ReadMsgAnyPtr_typed: "gives (has_type pf lib EMsgAnyPtr) (ReadMsgAnyPtr fuel pf lib)"
proof (induction fuel)
  case (Suc fuel)
  show ?case
    using givesD [OF read_ty_typed [OF Suc.IH default_val_typed]] ReadString_size(1)
    by (fastforce intro!: givesI simp: bind_res_eq_Inr split: prod.splits if_splits option.splits)
qed (simp add: gives_def)

text \<open>
  C29: Whatever the bytes are, and whether or not the reader ends with an error, the value that
  \<open>FromBinary::Read\<close> leaves in a variable has the type of the variable: integers are in the range of their
  type, the lengths of strings and containers fit, sets and maps are ordered and without duplicates, and a
  message pointer is null or points to an object of a registered type, the wanted one for a
  \<open>MsgPtr\<close>, whose contents have the type of its members.
\<close>

theorem fb_Read_well_typed:
  assumes "fb_Read pf lib t old m = Inr (v, m')" and "has_type pf lib t old"
  shows "has_type pf lib t v"
  using givesD [OF read_ty_typed [OF ReadMsgAnyPtr_typed assms(2)]] assms(1) by (auto simp: fb_Read_def)

lemma example_read_size:
  "ReadSizeT 4294967295 (FromBinary [3, 0, 0, 0, 0, 0, 0, 0, 9, 4, 9])
     = (3, (FromBinary [3, 0, 0, 0, 0, 0, 0, 0, 9, 4, 9])\<lparr>fb_ReadPtr := 8\<rparr>)"
  by (simp add: ReadSizeT_def ReadUint64_def PrivateCanRead_def fb_take_def FromBinary_def decode_le64_def Let_def)

theorem fb_Read_well_typed_witness:
  "\<exists>v m. fb_Read demo_platform demo_lib (ESet (EInt U8)) (VSet []) (FromBinary [3, 0, 0, 0, 0, 0, 0, 0, 9, 4, 9]) = Inr (v, m)
     \<and> fb_HasError m \<and> v = VSet [VInt U8 4, VInt U8 9] \<and> has_type demo_platform demo_lib (ESet (EInt U8)) v"
proof -
  obtain m where r: "fb_Read demo_platform demo_lib (ESet (EInt U8)) (VSet []) (FromBinary [3, 0, 0, 0, 0, 0, 0, 0, 9, 4, 9])
      = Inr (VSet [VInt U8 4, VInt U8 9], m)" "fb_HasError m"
    by (simp add: fb_Read_def read_set_def demo_platform_def example_read_size)
      (simp add: numeral_3_eq_3 ReadUint8_def PrivateCanRead_def fb_take_def FromBinary_def fb_SetError_def Let_def)
  with fb_Read_well_typed [OF r(1)] default_val_typed [of demo_platform demo_lib "ESet (EInt U8)"] show ?thesis
    by simp
qed

end
