(* ===== verification/MsgTypes.thy ===== *)
theory MsgTypes
  imports Prelude
begin

section \<open>bbox::enc::MsgType and MsgTypeLibrary: the registry of message types\<close>

text \<open>
  \<open>BBoxEnc/bbox/enc/MsgType.h\<close>, \<open>MsgTypeLibrary.h\<close> and \<open>MsgTypeLibrary.cpp\<close>. A
  \<open>MsgType\<close> is a possibly null pointer to a type index and a name; the constructor function
  it also holds is opaque. Type indices are naturals, ordered as \<open>std::type_index\<close> is.
  \<open>abort()\<close> on a duplicate and the assertion of \<open>Deregister\<close> are faults.
\<close>

record msg_info =
  mi_type :: nat
  mi_name :: string

type_synonym msg_type = "msg_info option"

definition MsgType_eq :: "msg_type \<Rightarrow> msg_type \<Rightarrow> bool" where
  "MsgType_eq a b =
     (if a = None \<and> b = None then True
      else if a = None \<or> b = None then False
      else mi_type (the a) = mi_type (the b))"

definition MsgType_less :: "msg_type \<Rightarrow> msg_type \<Rightarrow> bool" where
  "MsgType_less a b =
     (if a = None \<and> b = None then False
      else if a = None \<and> b \<noteq> None then True
      else if a \<noteq> None \<and> b = None then False
      else mi_type (the a) < mi_type (the b))"

record msg_registry =
  by_type :: "nat \<Rightarrow> msg_info option"
  by_name :: "string \<Rightarrow> msg_info option"

definition empty_registry :: msg_registry where
  "empty_registry = \<lparr>by_type = Map.empty, by_name = Map.empty\<rparr>"

definition FindByType :: "nat \<Rightarrow> msg_registry \<Rightarrow> msg_type" where
  "FindByType ty r = by_type r ty"

definition FindByName :: "string \<Rightarrow> msg_registry \<Rightarrow> msg_type" where
  "FindByName name r = by_name r name"

definition Register :: "nat \<Rightarrow> string \<Rightarrow> msg_registry \<Rightarrow> msg_registry res" where
  "Register ty name r =
     (if by_type r ty \<noteq> None \<or> by_name r name \<noteq> None
      then Inl (Aborted (''Duplicate MsgType Registration: '' @ name))
      else let mt = \<lparr>mi_type = ty, mi_name = name\<rparr>
           in Inr \<lparr>by_type = (by_type r)(ty \<mapsto> mt), by_name = (by_name r)(name \<mapsto> mt)\<rparr>)"

definition Deregister :: "nat \<Rightarrow> msg_registry \<Rightarrow> msg_registry res" where
  "Deregister ty r =
     (case by_type r ty of
        None \<Rightarrow> Inl (AssertFailed ''it != by_type.end()'')
      | Some mt \<Rightarrow>
          Inr \<lparr>by_type = (by_type r)(ty := None), by_name = (by_name r)(mi_name mt := None)\<rparr>)"

subsection \<open>The two indices agree\<close>

definition registry_inv :: "msg_registry \<Rightarrow> bool" where
  "registry_inv r \<longleftrightarrow>
     (\<forall>ty mt. by_type r ty = Some mt \<longrightarrow> mi_type mt = ty \<and> by_name r (mi_name mt) = Some mt)
     \<and> (\<forall>name mt. by_name r name = Some mt \<longrightarrow> mi_name mt = name \<and> by_type r (mi_type mt) = Some mt)"

lemma registry_invD:
  assumes "registry_inv r"
  shows "by_type r ty = Some mt \<Longrightarrow> mi_type mt = ty \<and> by_name r (mi_name mt) = Some mt"
    and "by_name r name = Some mt \<Longrightarrow> mi_name mt = name \<and> by_type r (mi_type mt) = Some mt"
  using assms by (auto simp: registry_inv_def)

lemma registry_inv_empty: "registry_inv empty_registry"
  by (simp add: registry_inv_def empty_registry_def)

lemma Register_inv:
  assumes "registry_inv r" and "Register ty name r = Inr r'"
  shows "registry_inv r'"
proof -
  let ?mt = "\<lparr>mi_type = ty, mi_name = name\<rparr>"
  from assms(2) have new: "by_type r ty = None" "by_name r name = None"
    and r': "r' = \<lparr>by_type = (by_type r)(ty \<mapsto> ?mt), by_name = (by_name r)(name \<mapsto> ?mt)\<rparr>"
    by (auto simp: Register_def Let_def split: if_splits)
  note D = registry_invD [OF assms(1)]
  have 1: "mi_type m = t \<and> by_name r' (mi_name m) = Some m" if "by_type r' t = Some m" for t m
  proof (cases "t = ty")
    case True
    with that show ?thesis by (auto simp: r')
  next
    case False
    with that have t: "by_type r t = Some m" by (simp add: r')
    have "mi_name m \<noteq> name"
      using D(1) [OF t] new(2) by (metis option.distinct(1))
    with D(1) [OF t] show ?thesis by (simp add: r')
  qed
  have 2: "mi_name m = n \<and> by_type r' (mi_type m) = Some m" if "by_name r' n = Some m" for n m
  proof (cases "n = name")
    case True
    with that show ?thesis by (auto simp: r')
  next
    case False
    with that have n: "by_name r n = Some m" by (simp add: r')
    have "mi_type m \<noteq> ty"
      using D(2) [OF n] new(1) by (metis option.distinct(1))
    with D(2) [OF n] show ?thesis by (simp add: r')
  qed
  show ?thesis
    unfolding registry_inv_def using 1 2 by blast
qed

lemma Deregister_inv:
  assumes "registry_inv r" and "Deregister ty r = Inr r'"
  shows "registry_inv r'"
proof -
  from assms(2) obtain mt where mt: "by_type r ty = Some mt"
    "r' = \<lparr>by_type = (by_type r)(ty := None), by_name = (by_name r)(mi_name mt := None)\<rparr>"
    by (auto simp: Deregister_def split: option.splits)
  note D = registry_invD [OF assms(1)]
  have 1: "mi_type m = t \<and> by_name r' (mi_name m) = Some m" if "by_type r' t = Some m" for t m
  proof -
    from that have t: "by_type r t = Some m" "t \<noteq> ty"
      by (auto simp: mt(2) split: if_splits)
    have "mi_name m \<noteq> mi_name mt"
      using D(1) [OF t(1)] D(1) [OF mt(1)] t(2) by (metis option.inject)
    with D(1) [OF t(1)] show ?thesis by (simp add: mt(2))
  qed
  have 2: "mi_name m = n \<and> by_type r' (mi_type m) = Some m" if "by_name r' n = Some m" for n m
  proof -
    from that have n: "by_name r n = Some m" "n \<noteq> mi_name mt"
      by (auto simp: mt(2) split: if_splits)
    have "mi_type m \<noteq> ty"
      using D(2) [OF n(1)] mt(1) n(2) by (metis option.inject)
    with D(2) [OF n(1)] show ?thesis by (simp add: mt(2))
  qed
  show ?thesis
    unfolding registry_inv_def using 1 2 by blast
qed

datatype registry_op = RegisterOp nat string | DeregisterOp nat

fun registry_step :: "registry_op \<Rightarrow> msg_registry \<Rightarrow> msg_registry res" where
  "registry_step (RegisterOp ty name) = Register ty name"
| "registry_step (DeregisterOp ty) = Deregister ty"

text \<open>C28: After any sequence of registrations and deregistrations that does not abort, looking
  a type up by its index and looking it up by its name agree in both directions.\<close>

theorem registry_lookups_agree:
  assumes "fold_res registry_step ops empty_registry = Inr r"
  shows "(FindByType ty r = Some mt \<and> mi_name mt = name)
         = (FindByName name r = Some mt \<and> mi_type mt = ty)"
proof -
  have "registry_inv r"
  proof (rule fold_res_invariant [where P = registry_inv and f = registry_step and xs = ops])
    fix x s s'
    assume "registry_inv s" "registry_step x s = Inr s'"
    then show "registry_inv s'"
      by (cases x) (auto intro: Register_inv Deregister_inv)
  qed (rule registry_inv_empty, rule assms)
  note D = registry_invD [OF this]
  show ?thesis
    unfolding FindByType_def FindByName_def using D(1) [of ty mt] D(2) [of name mt] by auto
qed

theorem registry_lookups_agree_witness:
  "\<exists>r. fold_res registry_step [RegisterOp 3 ''a.B'', RegisterOp 5 ''a.C'', DeregisterOp 3]
         empty_registry = Inr r
     \<and> FindByName ''a.C'' r = Some \<lparr>mi_type = 5, mi_name = ''a.C''\<rparr>"
proof -
  have r: "fold_res registry_step [RegisterOp 3 ''a.B'', RegisterOp 5 ''a.C'', DeregisterOp 3]
      empty_registry
    = Inr \<lparr>by_type = [5 \<mapsto> \<lparr>mi_type = 5, mi_name = ''a.C''\<rparr>],
           by_name = [''a.C'' \<mapsto> \<lparr>mi_type = 5, mi_name = ''a.C''\<rparr>]\<rparr>"
    by (auto simp: Register_def Deregister_def empty_registry_def Let_def fun_eq_iff)
  from registry_lookups_agree [OF r, of 5 "\<lparr>mi_type = 5, mi_name = ''a.C''\<rparr>" "''a.C''"]
  show ?thesis
    unfolding r by (simp add: FindByType_def)
qed

lemma Register_finds:
  "Register ty name r = Inr r' \<Longrightarrow>
     FindByType ty r' = Some \<lparr>mi_type = ty, mi_name = name\<rparr>
     \<and> FindByName name r' = Some \<lparr>mi_type = ty, mi_name = name\<rparr>"
  by (auto simp: Register_def FindByType_def FindByName_def Let_def split: if_splits)

text \<open>Deregistering the type just registered gives back the registry as it was.\<close>

theorem Deregister_Register:
  assumes "Register ty name r = Inr r'"
  shows "Deregister ty r' = Inr r"
  using assms
  by (auto simp: Register_def Deregister_def Let_def fun_upd_idem_iff split: if_splits)

theorem Deregister_Register_witness:
  "\<exists>r'. Register 3 ''a.B'' empty_registry = Inr r' \<and> Deregister 3 r' = Inr empty_registry"
proof -
  have "\<exists>r'. Register 3 ''a.B'' empty_registry = Inr r'"
    by (simp add: Register_def empty_registry_def Let_def)
  then show ?thesis
    using Deregister_Register by blast
qed

text \<open>\<open>operator <\<close> and \<open>operator ==\<close> of a message type form a strict weak order with the
  null type first: of any two types exactly one is smaller or they are equal, and being
  smaller is transitive.\<close>

theorem MsgType_order:
  "((MsgType_less a b \<and> \<not> MsgType_less b a \<and> \<not> MsgType_eq a b)
   \<or> (\<not> MsgType_less a b \<and> MsgType_less b a \<and> \<not> MsgType_eq a b)
   \<or> (\<not> MsgType_less a b \<and> \<not> MsgType_less b a \<and> MsgType_eq a b))
   \<and> transp MsgType_less"
proof (rule conjI)
  show "transp MsgType_less"
  proof (rule transpI)
    fix x y z
    assume "MsgType_less x y" "MsgType_less y z"
    then show "MsgType_less x z"
      by (cases x; cases y; cases z) (simp_all add: MsgType_less_def)
  qed
qed (cases a; cases b; simp add: MsgType_less_def MsgType_eq_def; linarith)

end
