(* ===== verification/StdMap.thy ===== *)
theory StdMap
  imports Prelude "HOL-Library.Char_ord" "HOL-Library.List_Lexorder"
begin

section \<open>std::map as a sorted association list\<close>

text \<open>
  The operations of \<open>std::map\<close> that the code uses, on lists of pairs kept strictly sorted
  by key: iteration goes in key order, which the generated output and the type lookup depend
  on. Strings are ordered lexicographically by character code, as \<open>std::string\<close> is.
\<close>

type_synonym ('k, 'v) smap = "('k \<times> 'v) list"

definition smap_ok :: "('k :: linorder, 'v) smap \<Rightarrow> bool" where
  "smap_ok m \<longleftrightarrow> sorted_wrt (<) (map fst m)"

text \<open>\<open>insert\<close>: the map and whether the key was new; an existing entry stays.\<close>

fun smap_insert :: "'k :: linorder \<Rightarrow> 'v \<Rightarrow> ('k, 'v) smap \<Rightarrow> ('k, 'v) smap \<times> bool" where
  "smap_insert k v [] = ([(k, v)], True)"
| "smap_insert k v ((k', v') # m) =
     (if k < k' then ((k, v) # (k', v') # m, True)
      else if k' < k then (let (m', b) = smap_insert k v m in ((k', v') # m', b))
      else ((k', v') # m, False))"

text \<open>Assignment through \<open>operator[]\<close>.\<close>

fun smap_assign :: "'k :: linorder \<Rightarrow> 'v \<Rightarrow> ('k, 'v) smap \<Rightarrow> ('k, 'v) smap" where
  "smap_assign k v [] = [(k, v)]"
| "smap_assign k v ((k', v') # m) =
     (if k < k' then (k, v) # (k', v') # m
      else if k' < k then (k', v') # smap_assign k v m
      else (k, v) # m)"

definition smap_erase :: "'k \<Rightarrow> ('k, 'v) smap \<Rightarrow> ('k, 'v) smap" where
  "smap_erase k m = filter (\<lambda>e. fst e \<noteq> k) m"

abbreviation smap_find :: "'k \<Rightarrow> ('k, 'v) smap \<Rightarrow> 'v option" where
  "smap_find k m \<equiv> map_of m k"

lemma smap_ok_Nil [simp]: "smap_ok []"
  by (simp add: smap_ok_def)

lemma smap_ok_Cons: "smap_ok ((k, v) # m) \<longleftrightarrow> (\<forall>e \<in> set m. k < fst e) \<and> smap_ok m"
  by (auto simp: smap_ok_def)

lemma smap_find_below: "(\<forall>e \<in> set m. (k :: 'k :: linorder) < fst e) \<Longrightarrow> smap_find k m = None"
  by (induction m) auto

lemma set_smap_insert:
  "set (fst (smap_insert k v m)) \<subseteq> insert (k, v) (set m)"
  by (induction m) (auto split: prod.splits if_splits)

lemma smap_insert_ok: "smap_ok m \<Longrightarrow> smap_ok (fst (smap_insert k v m))"
proof (induction m)
  case Nil
  then show ?case by (simp add: smap_ok_Cons)
next
  case (Cons e m)
  obtain k' v' where e: "e = (k', v')" by fastforce
  have "\<forall>e \<in> set (fst (smap_insert k v m)). k' < fst e" if "k' < k"
    using Cons.prems that set_smap_insert [of k v m] by (auto simp: e smap_ok_Cons)
  with Cons show ?case
    by (auto simp: e smap_ok_Cons split: prod.splits)
qed

lemma smap_insert_find:
  "smap_ok m \<Longrightarrow> snd (smap_insert k v m) = (smap_find k m = None) \<and>
     smap_find k' (fst (smap_insert k v m))
         = (if k' = k \<and> smap_find k m = None then Some v else smap_find k' m)"
proof (induction m)
  case Nil
  then show ?case by simp
next
  case (Cons e m)
  obtain a b where e: "e = (a, b)" by fastforce
  have below: "smap_find k m = None" if "k < a"
    using Cons.prems that by (force intro: smap_find_below simp: e smap_ok_Cons)
  have ok: "smap_ok m" using Cons.prems by (simp add: e smap_ok_Cons)
  show ?case using Cons.IH [OF ok] below
    by (cases "k < a") (auto simp: e split: prod.splits)
qed

lemma set_smap_assign: "set (smap_assign k v m) \<subseteq> insert (k, v) (set m)"
  by (induction m) (auto split: if_splits)

lemma smap_assign_ok: "smap_ok m \<Longrightarrow> smap_ok (smap_assign k v m)"
proof (induction m)
  case Nil
  then show ?case by (simp add: smap_ok_Cons)
next
  case (Cons e m)
  obtain k' v' where e: "e = (k', v')" by fastforce
  have "\<forall>e \<in> set (smap_assign k v m). k' < fst e" if "k' < k"
    using Cons.prems that set_smap_assign [of k v m] by (auto simp: e smap_ok_Cons)
  with Cons show ?case
    by (auto simp: e smap_ok_Cons)
qed

lemma smap_assign_find:
  "smap_ok m \<Longrightarrow> smap_find k' (smap_assign k v m) = (if k' = k then Some v else smap_find k' m)"
  by (induction m) (auto simp: smap_ok_Cons)

lemma smap_erase_ok: "smap_ok m \<Longrightarrow> smap_ok (smap_erase k m)"
  by (induction m) (auto simp: smap_ok_Cons smap_erase_def)

lemma smap_erase_find: "smap_find k' (smap_erase k m) = (if k' = k then None else smap_find k' m)"
  by (induction m) (auto simp: smap_erase_def)

subsection \<open>The map interface\<close>

text \<open>What clients of a map rely on; the sorted association list provides it.\<close>

locale map_interface =
  fixes lookup :: "'m \<Rightarrow> 'k \<Rightarrow> 'v option"
    and inv :: "'m \<Rightarrow> bool"
    and add :: "'k \<Rightarrow> 'v \<Rightarrow> 'm \<Rightarrow> 'm \<times> bool"
    and put :: "'k \<Rightarrow> 'v \<Rightarrow> 'm \<Rightarrow> 'm"
    and remove :: "'k \<Rightarrow> 'm \<Rightarrow> 'm"
  assumes add_inv: "inv m \<Longrightarrow> inv (fst (add k v m))"
    and add_new: "inv m \<Longrightarrow> snd (add k v m) = (lookup m k = None)"
    and add_lookup: "inv m \<Longrightarrow> lookup (fst (add k v m)) k'
        = (if k' = k \<and> lookup m k = None then Some v else lookup m k')"
    and put_inv: "inv m \<Longrightarrow> inv (put k v m)"
    and put_lookup: "inv m \<Longrightarrow> lookup (put k v m) k' = (if k' = k then Some v else lookup m k')"
    and remove_inv: "inv m \<Longrightarrow> inv (remove k m)"
    and remove_lookup: "inv m \<Longrightarrow> lookup (remove k m) k' = (if k' = k then None else lookup m k')"
begin

lemma add_keeps: "inv m \<Longrightarrow> lookup m k' = Some x \<Longrightarrow> lookup (fst (add k v m)) k' = Some x"
  by (auto simp: add_lookup)

lemma add_fresh: "inv m \<Longrightarrow> snd (add k v m) \<Longrightarrow> lookup (fst (add k v m)) k = Some v"
  by (simp add: add_lookup add_new)

lemma remove_add: "inv m \<Longrightarrow> lookup m k = None \<Longrightarrow> lookup (remove k (fst (add k v m))) = lookup m"
  by (auto simp: remove_lookup add_inv add_lookup)

lemma put_all_lookup:
  "inv m \<Longrightarrow> (\<And>v. lookup m k = Some v \<Longrightarrow> P v) \<Longrightarrow> (\<And>k' v. (k', v) \<in> set kvs \<Longrightarrow> P v) \<Longrightarrow>
     lookup (fold (\<lambda>(k, v) m. put k v m) kvs m) k = Some x \<Longrightarrow> P x"
proof (induction kvs arbitrary: m)
  case Nil
  then show ?case by simp
next
  case (Cons kv kvs)
  obtain k' v' where kv: "kv = (k', v')" by fastforce
  show ?case
  proof (rule Cons.IH)
    show "inv (put k' v' m)" using Cons.prems(1) by (rule put_inv)
    show "\<And>v. lookup (put k' v' m) k = Some v \<Longrightarrow> P v"
      using Cons.prems kv by (auto simp: put_lookup split: if_splits)
  qed (use Cons.prems kv in auto)
qed

end

interpretation smap: map_interface "\<lambda>m k. smap_find k m" smap_ok smap_insert smap_assign smap_erase
  by unfold_locales
    (simp_all add: smap_insert_ok smap_insert_find smap_assign_ok smap_assign_find smap_erase_ok
      smap_erase_find)

end
