(* ===== verification/Format.thy ===== *)
theory Format
  imports Prelude
begin

section \<open>bbox::Format\<close>

text \<open>
  \<open>BBoxUtils/bbox/Format.h\<close> and \<open>Format.cpp\<close>: the type-safe formatting function every
  component uses for its messages. \<open>FormatFindNext\<close> copies the literal text up to the next
  directive to the stream, decodes the directive and sets the stream's flags; \<open>Format\<close> then
  inserts one argument for each directive, and \<open>FormatDummyRest\<close> fills in for missing ones.
  The stream is the part of \<open>std::ostream\<close> the insertions depend on (text, width, fill,
  adjustment, base and number flags). Floating-point arguments are not modelled.
\<close>

datatype num_base = Dec | Oct | Hex

record ostream =
  os_text :: string
  os_width :: nat
  os_precision :: nat
  os_fill :: char
  os_left :: bool
  os_base :: num_base
  os_showpos :: bool
  os_showbase :: bool
  os_uppercase :: bool

text \<open>A fresh \<open>std::stringstream\<close>.\<close>

definition ostream_init :: ostream where
  "ostream_init = \<lparr>os_text = [], os_width = 0, os_precision = 6, os_fill = CHR '' '',
     os_left = False, os_base = Dec, os_showpos = False, os_showbase = False,
     os_uppercase = False\<rparr>"

definition os_write :: "string \<Rightarrow> ostream \<Rightarrow> ostream" where
  "os_write s os = os\<lparr>os_text := os_text os @ s\<rparr>"

text \<open>Formatted insertion of a text: padded to the width, which is then reset to 0.\<close>

definition os_pad :: "ostream \<Rightarrow> string \<Rightarrow> string" where
  "os_pad os s = (let pad = replicate (os_width os - length s) (os_fill os)
     in if os_left os then s @ pad else pad @ s)"

definition os_insert :: "string \<Rightarrow> ostream \<Rightarrow> ostream" where
  "os_insert s os = os\<lparr>os_text := os_text os @ os_pad os s, os_width := 0\<rparr>"

text \<open>The arguments: integers carry the width of their type in bits and their signedness.\<close>

datatype fmt_arg =
    ArgStr string
  | ArgSigned nat int
  | ArgUnsigned nat
  | ArgBool bool
  | ArgChar char
  | ArgUChar byte

function base_digits :: "nat \<Rightarrow> nat \<Rightarrow> nat list" where
  "base_digits b n = (if b < 2 \<or> n < b then [n] else base_digits b (n div b) @ [n mod b])"
  by auto
termination
  by (relation "measure snd") auto

declare base_digits.simps [simp del]

definition digit_char :: "bool \<Rightarrow> nat \<Rightarrow> char" where
  "digit_char upper d = (if d < 10 then char_of (48 + d)
     else char_of ((if upper then 55 else 87) + d))"

lemma digit_char_eval [simp]:
  "digit_char upper 0 = CHR ''0''"
  "digit_char upper (Suc 0) = CHR ''1''"
  "digit_char upper 2 = CHR ''2''"
  "digit_char upper 3 = CHR ''3''"
  "digit_char upper 4 = CHR ''4''"
  "digit_char upper 5 = CHR ''5''"
  "digit_char upper 6 = CHR ''6''"
  "digit_char upper 7 = CHR ''7''"
  "digit_char upper 8 = CHR ''8''"
  "digit_char upper 9 = CHR ''9''"
  by (simp_all add: digit_char_def) code_simp+

definition show_base :: "ostream \<Rightarrow> nat \<Rightarrow> string" where
  "show_base os n = (case os_base os of
       Dec \<Rightarrow> map (digit_char False) (base_digits 10 n)
     | Oct \<Rightarrow> (if os_showbase os \<and> n \<noteq> 0 then ''0'' else [])
              @ map (digit_char False) (base_digits 8 n)
     | Hex \<Rightarrow> (if os_showbase os \<and> n \<noteq> 0 then (if os_uppercase os then ''0X'' else ''0x'') else [])
              @ map (digit_char (os_uppercase os)) (base_digits 16 n))"

definition show_signed :: "ostream \<Rightarrow> nat \<Rightarrow> int \<Rightarrow> string" where
  "show_signed os w i = (if os_base os = Dec then
       (if i < 0 then CHR ''-'' # show_base os (nat (- i))
        else (if os_showpos os then ''+'' else []) @ show_base os (nat i))
     else show_base os (nat (i mod 2 ^ w)))"

text \<open>
  \<open>stream << val\<close>, with the overloads for \<open>char\<close> and \<open>unsigned char\<close>: unless the
  directive was \<open>%c\<close> they print the number (\<open>char\<close> is signed).
\<close>

definition signed_char :: "char \<Rightarrow> int" where
  "signed_char c = (let n = int (of_char c) in if n < 128 then n else n - 256)"

definition os_arg :: "bool \<Rightarrow> fmt_arg \<Rightarrow> ostream \<Rightarrow> ostream" where
  "os_arg is_char a os = (case a of
       ArgStr s \<Rightarrow> os_insert s os
     | ArgSigned w i \<Rightarrow> os_insert (show_signed os w i) os
     | ArgUnsigned n \<Rightarrow> os_insert (show_base os n) os
     | ArgBool b \<Rightarrow> os_insert (if b then ''true'' else ''false'') os
     | ArgChar c \<Rightarrow> (if is_char then os_insert [c] os
                    else os_insert (show_signed os 32 (signed_char c)) os)
     | ArgUChar b \<Rightarrow> (if is_char then os_insert [char_of (unat b)] os
                     else os_insert (show_base os (unat b)) os))"

subsection \<open>Decoding a directive\<close>

text \<open>The flags collected from one directive.\<close>

record directive =
  d_left :: bool
  d_showpos :: bool
  d_alt :: bool
  d_zero :: bool

definition is_digit :: "char \<Rightarrow> bool" where
  "is_digit c \<longleftrightarrow> 48 \<le> (of_char c :: nat) \<and> (of_char c :: nat) \<le> 57"

definition is_upper :: "char \<Rightarrow> bool" where
  "is_upper c \<longleftrightarrow> 65 \<le> (of_char c :: nat) \<and> (of_char c :: nat) \<le> 90"

definition is_lower :: "char \<Rightarrow> bool" where
  "is_lower c \<longleftrightarrow> 97 \<le> (of_char c :: nat) \<and> (of_char c :: nat) \<le> 122"

text \<open>The format is a C string: a character list without its terminating NUL.\<close>

fun scan_flags :: "string \<Rightarrow> directive \<Rightarrow> string \<times> directive" where
  "scan_flags [] d = ([], d)"
| "scan_flags (c # f) d =
     (if c = CHR ''-'' then scan_flags f (d\<lparr>d_left := True\<rparr>)
      else if c = CHR ''+'' then scan_flags f (d\<lparr>d_showpos := True\<rparr>)
      else if c = CHR '' '' then scan_flags f d
      else if c = CHR ''#'' then scan_flags f (d\<lparr>d_alt := True\<rparr>)
      else if c = CHR ''0'' then scan_flags f (d\<lparr>d_zero := True\<rparr>)
      else (c # f, d))"

fun scan_number :: "nat \<Rightarrow> string \<Rightarrow> nat \<times> string" where
  "scan_number n [] = (n, [])"
| "scan_number n (c # f) =
     (if is_digit c then scan_number (n * 10 + (of_char c - 48)) f else (n, c # f))"

fun scan_precision :: "string \<Rightarrow> nat \<times> string" where
  "scan_precision [] = (10, [])"
| "scan_precision (c # f) =
     (if c = CHR ''.'' then
        (case f of d # _ \<Rightarrow> if is_digit d then scan_number 0 f else (10, f) | [] \<Rightarrow> (10, f))
      else (10, c # f))"

fun skip_length :: "string \<Rightarrow> string" where
  "skip_length [] = []"
| "skip_length (c # f) =
     (if c \<in> set ''jztL'' then f
      else if c \<in> set ''hl'' then (case f of d # f' \<Rightarrow> if d = c then f' else f | [] \<Rightarrow> [])
      else c # f)"

text \<open>
  The literal prefix of a format, and \<open>FormatFindNext\<close> itself: the result is whether a
  directive was found, the rest of the format, whether it was \<open>%c\<close>, and the stream.
\<close>

definition set_spec :: "directive \<Rightarrow> nat \<Rightarrow> nat \<Rightarrow> char option \<Rightarrow> ostream \<Rightarrow> ostream" where
  "set_spec d width prec spec os = os\<lparr>
     os_width := width,
     os_precision := prec,
     os_fill := (if d_zero d then CHR ''0'' else CHR '' ''),
     os_left := d_left d,
     os_base := (case spec of
         Some c \<Rightarrow> if c = CHR ''o'' then Oct
                   else if c = CHR ''x'' \<or> c = CHR ''X'' then Hex else Dec
       | None \<Rightarrow> Dec),
     os_showpos := d_showpos d,
     os_showbase := d_alt d,
     os_uppercase := (case spec of Some c \<Rightarrow> is_upper c | None \<Rightarrow> False)\<rparr>"

definition decode_directive :: "string \<Rightarrow> ostream \<Rightarrow> string \<times> bool \<times> ostream" where
  "decode_directive f os =
     (let (f1, d) = scan_flags f \<lparr>d_left = False, d_showpos = False, d_alt = False, d_zero = False\<rparr>;
          (width, f2) = (case f1 of c # _ \<Rightarrow> if is_digit c then scan_number 0 f1 else (0, f1)
                                   | [] \<Rightarrow> (0, f1));
          (prec, f3) = scan_precision f2;
          f4 = skip_length f3
      in case f4 of
           [] \<Rightarrow> ([], False, set_spec d width prec None os)
         | c # f5 \<Rightarrow> (f5, c = CHR ''c'', set_spec d width prec (Some c) os))"

definition FormatFindNext :: "string \<Rightarrow> ostream \<Rightarrow> bool \<times> string \<times> bool \<times> ostream" where
  "FormatFindNext f os =
     (let lit = takeWhile (\<lambda>c. c \<noteq> CHR ''%'') f;
          rest = dropWhile (\<lambda>c. c \<noteq> CHR ''%'') f;
          os1 = os_write lit os
      in case rest of
           [] \<Rightarrow> (False, [], False, os1)
         | _ # f1 \<Rightarrow> (let (f2, is_char, os2) = decode_directive f1 os1
                      in (True, f2, is_char, os2)))"

lemma length_scan_flags: "length (fst (scan_flags f d)) \<le> length f"
  by (induction f d rule: scan_flags.induct) auto

lemma length_scan_number: "length (snd (scan_number n f)) \<le> length f"
  by (induction n f rule: scan_number.induct) auto

lemma length_scan_precision: "length (snd (scan_precision f)) \<le> length f"
  by (induction f rule: scan_precision.induct)
    (auto split: list.splits intro: order_trans [OF length_scan_number] simp: le_Suc_eq)

lemma length_skip_length: "length (skip_length f) \<le> length f"
  by (induction f rule: skip_length.induct) (auto split: list.splits)

lemma length_decode_directive: "length (fst (decode_directive f os)) \<le> length f"
proof -
  obtain f1 d where 1:
    "scan_flags f \<lparr>d_left = False, d_showpos = False, d_alt = False, d_zero = False\<rparr> = (f1, d)"
    by fastforce
  obtain w f2 where 2: "(case f1 of c # _ \<Rightarrow> if is_digit c then scan_number 0 f1 else (0, f1)
      | [] \<Rightarrow> (0, f1)) = (w, f2)" by fastforce
  obtain p f3 where 3: "scan_precision f2 = (p, f3)" by fastforce
  have "length f1 \<le> length f" using length_scan_flags [of f] 1 by (metis fst_conv)
  moreover have "length f2 \<le> length f1"
    using 2 length_scan_number [of 0 f1] by (auto split: list.splits if_splits)
  moreover have "length f3 \<le> length f2"
    using length_scan_precision [of f2] 3 by simp
  moreover have "length (skip_length f3) \<le> length f3" by (rule length_skip_length)
  ultimately show ?thesis
    by (auto simp: decode_directive_def 1 2 3 split: list.splits)
qed

lemma FormatFindNext_shorter:
  "FormatFindNext f os = (True, f', c, os') \<Longrightarrow> length f' < length f"
proof -
  assume a: "FormatFindNext f os = (True, f', c, os')"
  obtain x f1 where f1: "dropWhile (\<lambda>c. c \<noteq> CHR ''%'') f = x # f1"
    using a by (cases "dropWhile (\<lambda>c. c \<noteq> CHR ''%'') f") (auto simp: FormatFindNext_def)
  have "length (x # f1) \<le> length f"
    unfolding f1 [symmetric] by (rule length_dropWhile_le)
  moreover have "length f' \<le> length f1"
    using a f1 length_decode_directive [of f1] by (auto simp: FormatFindNext_def split: prod.splits)
      (metis fst_conv)
  ultimately show "length f' < length f" by simp
qed

subsection \<open>Format\<close>

function FormatDummyRest :: "string \<Rightarrow> ostream \<Rightarrow> ostream" where
  "FormatDummyRest f os = (case FormatFindNext f os of
       (True, f', _, os') \<Rightarrow> FormatDummyRest f' (os_insert ''[**MISSSING**]'' os')
     | (False, _, _, os') \<Rightarrow> os')"
  by auto
termination
  by (relation "measure (\<lambda>(f, _). length f)") (auto dest!: FormatFindNext_shorter [OF sym])

declare FormatDummyRest.simps [simp del]

fun Format_stream :: "string \<Rightarrow> fmt_arg list \<Rightarrow> ostream \<Rightarrow> ostream" where
  "Format_stream f [] os = FormatDummyRest f os"
| "Format_stream f (a # rest) os = (case FormatFindNext f os of
       (True, f', is_char, os') \<Rightarrow> Format_stream f' rest (os_arg is_char a os')
     | (False, _, _, os') \<Rightarrow> os')"

definition Format :: "string \<Rightarrow> fmt_arg list \<Rightarrow> string" where
  "Format f args = os_text (Format_stream f args ostream_init)"

text \<open>What evaluates a call of \<open>Format\<close> with a literal format.\<close>

lemmas format_eval = Format_def FormatFindNext_def decode_directive_def set_spec_def os_arg_def
  os_insert_def os_pad_def os_write_def show_signed_def show_base_def ostream_init_def
  is_digit_def is_upper_def FormatDummyRest.simps


text \<open>
  Formats without flags or widths, the only ones the code itself uses: literal text with a
  bare \<open>%s\<close> or \<open>%d\<close> for each argument. The output is the literals with each argument's
  text in place of its directive; a directive without an argument becomes
  \<open>[**MISSSING**]\<close>, and an argument without a directive is dropped.
\<close>

definition literal :: "string \<Rightarrow> bool" where
  "literal s \<longleftrightarrow> CHR ''%'' \<notin> set s"

definition plain_signed :: "int \<Rightarrow> string" where
  "plain_signed i = (if i < 0 then ''-'' else []) @ map (digit_char False) (base_digits 10 (nat \<bar>i\<bar>))"

fun plain_arg :: "fmt_arg \<Rightarrow> string" where
  "plain_arg (ArgStr s) = s"
| "plain_arg (ArgSigned w i) = plain_signed i"
| "plain_arg (ArgUnsigned n) = map (digit_char False) (base_digits 10 n)"
| "plain_arg (ArgBool b) = (if b then ''true'' else ''false'')"
| "plain_arg (ArgChar c) = plain_signed (signed_char c)"
| "plain_arg (ArgUChar b) = map (digit_char False) (base_digits 10 (unat b))"

fun pieces_format :: "(char \<times> string) list \<Rightarrow> string" where
  "pieces_format [] = []"
| "pieces_format ((c, lit) # ps) = CHR ''%'' # c # lit @ pieces_format ps"

fun pieces_text :: "(char \<times> string) list \<Rightarrow> fmt_arg list \<Rightarrow> string" where
  "pieces_text [] args = []"
| "pieces_text ((c, lit) # ps) [] = ''[**MISSSING**]'' @ lit @ pieces_text ps []"
| "pieces_text ((c, lit) # ps) (a # args) = plain_arg a @ lit @ pieces_text ps args"

lemma takeWhile_literal:
  "literal l \<Longrightarrow> takeWhile (\<lambda>c. c \<noteq> CHR ''%'') (l @ CHR ''%'' # r) = l"
  "literal l \<Longrightarrow> dropWhile (\<lambda>c. c \<noteq> CHR ''%'') (l @ CHR ''%'' # r) = CHR ''%'' # r"
  "literal l \<Longrightarrow> takeWhile (\<lambda>c. c \<noteq> CHR ''%'') l = l"
  "literal l \<Longrightarrow> dropWhile (\<lambda>c. c \<noteq> CHR ''%'') l = []"
  by (auto simp: literal_def takeWhile_append dropWhile_append takeWhile_eq_all_conv
      dropWhile_eq_Nil_conv)

lemma is_digit_sd: "\<not> is_digit (CHR ''s'')" "\<not> is_digit (CHR ''d'')"
  by (simp_all add: is_digit_def)

lemma decode_plain:
  assumes "c \<in> set ''sd''"
  shows "decode_directive (c # f) os = (f, False,
     set_spec \<lparr>d_left = False, d_showpos = False, d_alt = False, d_zero = False\<rparr> 0 10 (Some c) os)"
proof -
  have c: "c = CHR ''s'' \<or> c = CHR ''d''"
    using assms by simp
  show ?thesis
    unfolding decode_directive_def
    using c by (elim disjE) (simp_all add: is_digit_sd)
qed

lemma FormatFindNext_literal:
  "literal l \<Longrightarrow> FormatFindNext l os = (False, [], False, os_write l os)"
  by (simp add: FormatFindNext_def takeWhile_literal)

lemma FormatFindNext_plain:
  "literal l \<Longrightarrow> c \<in> set ''sd'' \<Longrightarrow> FormatFindNext (l @ CHR ''%'' # c # f) os = (True, f, False,
     set_spec \<lparr>d_left = False, d_showpos = False, d_alt = False, d_zero = False\<rparr> 0 10 (Some c)
       (os_write l os))"
  by (simp add: FormatFindNext_def takeWhile_literal decode_plain)

lemma os_text_plain:
  assumes "c \<in> set ''sd''"
  shows "os_text (os_insert s (set_spec \<lparr>d_left = False, d_showpos = False, d_alt = False, d_zero = False\<rparr>
      0 10 (Some c) os)) = os_text os @ s"
    and "os_text (os_arg False a (set_spec \<lparr>d_left = False, d_showpos = False, d_alt = False, d_zero = False\<rparr>
      0 10 (Some c) os)) = os_text os @ plain_arg a"
  using assms
  by (cases a; auto simp: os_insert_def os_pad_def set_spec_def os_arg_def show_signed_def
      show_base_def plain_signed_def)+

lemma os_text_write [simp]: "os_text (os_write s os) = os_text os @ s"
  by (simp add: os_write_def)

abbreviation plain_pieces :: "(char \<times> string) list \<Rightarrow> bool" where
  "plain_pieces ps \<equiv> \<forall>(c, lit) \<in> set ps. c \<in> set ''sd'' \<and> literal lit"

lemma FormatDummyRest_pieces:
  "literal l \<Longrightarrow> plain_pieces ps \<Longrightarrow>
     os_text (FormatDummyRest (l @ pieces_format ps) os) = os_text os @ l @ pieces_text ps []"
proof (induction ps arbitrary: l os)
  case Nil
  then show ?case
    by (subst FormatDummyRest.simps) (simp add: FormatFindNext_literal)
next
  case (Cons p ps)
  obtain c lit where p: "p = (c, lit)" by fastforce
  with Cons show ?case
    by (subst FormatDummyRest.simps) (simp add: FormatFindNext_plain os_text_plain)
qed

lemma Format_stream_pieces:
  "literal l \<Longrightarrow> plain_pieces ps \<Longrightarrow>
     os_text (Format_stream (l @ pieces_format ps) args os) = os_text os @ l @ pieces_text ps args"
proof (induction ps args arbitrary: l os rule: pieces_text.induct)
  case (1 args)
  then show ?case
    using FormatDummyRest_pieces [of l "[]" os]
    by (cases args) (simp_all add: FormatFindNext_literal)
next
  case (2 c lit ps)
  then show ?case
    using FormatDummyRest_pieces [of l "(c, lit) # ps" os] by simp
next
  case (3 c lit ps a args)
  then show ?case
    by (simp add: FormatFindNext_plain os_text_plain)
qed

lemma Format_pieces:
  assumes "literal l" and "plain_pieces ps"
  shows "Format (l @ pieces_format ps) args = l @ pieces_text ps args"
  using Format_stream_pieces [OF assms] by (simp add: Format_def ostream_init_def)

text \<open>A format made of literal text and bare \<open>%s\<close> or \<open>%d\<close> directives prints the literals
  in order with the text of the arguments in place of the directives, a marker for each
  directive that has no argument, and nothing for surplus arguments.\<close>

theorem Format_interleaves:
  assumes "literal l" and "plain_pieces ps"
  shows "Format (l @ pieces_format ps) args = l @ pieces_text ps args"
  using assms by (rule Format_pieces)

theorem Format_interleaves_witness:
  "Format ''%s:%d: %s'' [ArgStr ''a.idl'', ArgUnsigned 12, ArgStr ''100%'']
     = ''a.idl:12: 100%''"
  using Format_interleaves [of "[]" "[(CHR ''s'', '':''), (CHR ''d'', '': ''), (CHR ''s'', [])]"
      "[ArgStr ''a.idl'', ArgUnsigned 12, ArgStr ''100%'']"]
  by (simp add: literal_def base_digits.simps)

text \<open>The zero flag pads on the left of the sign, where \<open>printf\<close> would put the zeros
  between the sign and the digits: \<open>Format("%05d", -42)\<close> is \<open>00-42\<close>; and \<open>%%\<close> is not an
  escaped percent sign but a directive that consumes an argument.\<close>

theorem Format_not_printf:
  "Format ''%05d'' [ArgSigned 32 (-42)] = ''00-42''
   \<and> Format ''%d%%'' [ArgUnsigned 50, ArgUnsigned 7] = ''507''"
  by code_simp

end
