(* ===== verification/RunTime.thy ===== *)
theory RunTime
  imports StdMap Format
begin

section \<open>Resources, services and the proactor\<close>

text \<open>
  \<open>BBoxRt/bbox/rt\<close>: \<open>details/ResourceBase.cpp\<close>, \<open>details/GenericServiceReference.cpp\<close>,
  \<open>RunLevel.cpp\<close>, \<open>Service.cpp\<close>, \<open>ServiceFolder.cpp\<close>, \<open>Resource.cpp\<close> and \<open>Proactor.cpp\<close>. The
  resources form a tree under the proactor and are started and stopped by work items that
  each resource posts for itself or for its neighbours. A pointer is a number, the objects
  live in the function \<open>rt_res\<close> for the numbers in \<open>rt_ids\<close>, and the proactor is \<open>rt_root\<close>.
  \<open>rt_queue\<close> holds the posted calls of \<open>HandleUpdateWork\<close> in order. The virtual handlers are
  modelled for the classes of the library; those of client classes are steps of their own.
  A failed \<open>BBOX_ASSERT\<close> is a fault.
\<close>

type_synonym rid = nat

datatype run_level = CONSTRUCTED | STARTING | RUNNING | STOPPING | STOPPED

fun RunLevel_ToString :: "run_level \<Rightarrow> string" where
  "RunLevel_ToString CONSTRUCTED = ''Constructed''"
| "RunLevel_ToString STARTING = ''Starting''"
| "RunLevel_ToString RUNNING = ''Running''"
| "RunLevel_ToString STOPPING = ''Stopping''"
| "RunLevel_ToString STOPPED = ''Stopped''"

text \<open>
  The classes: the proactor, a service folder, a reference to a service (with the name and
  the type it asks for), a service and a resource of the client.
\<close>

datatype kind = KProactor | KFolder | KReference string nat | KService | KResource

text \<open>The completion handlers of requests: the proactor's own, or one of the client's.\<close>

datatype callback = CallDisconnect | CallClient nat

record resource =
  r_parent :: "rid option"
  r_name :: string
  r_full_path :: string
  r_local :: run_level
  r_overall :: run_level
  r_children :: "(string, rid) smap"
  r_work_requested :: bool
  r_callback :: "callback option"
  r_references_from :: "rid list"
  r_dep_them :: "rid list"
  r_dep_their_ref :: "rid list"
  r_dep_us :: "rid list"
  r_kind :: kind
  r_impl :: "rid option"
  r_dep_our_service :: "rid list"

record service_entry =
  se_type :: nat
  se_impl :: rid

record runtime =
  rt_res :: "rid \<Rightarrow> resource"
  rt_ids :: "rid list"
  rt_root :: rid
  rt_queue :: "rid list"
  rt_services :: "(string, service_entry) smap"
  rt_references :: "rid list"
  rt_called :: "nat list"

definition upd :: "rid \<Rightarrow> (resource \<Rightarrow> resource) \<Rightarrow> runtime \<Rightarrow> runtime" where
  "upd r f s = s\<lparr>rt_res := (rt_res s)(r := f (rt_res s r))\<rparr>"

definition bbox_assert :: "string \<Rightarrow> bool \<Rightarrow> runtime \<Rightarrow> runtime res" where
  "bbox_assert msg b s = (if b then Inr s else Inl (AssertFailed msg))"

abbreviation overall :: "runtime \<Rightarrow> rid \<Rightarrow> run_level" where
  "overall s r \<equiv> r_overall (rt_res s r)"

abbreviation locally :: "runtime \<Rightarrow> rid \<Rightarrow> run_level" where
  "locally s r \<equiv> r_local (rt_res s r)"

definition set_overall :: "rid \<Rightarrow> run_level \<Rightarrow> runtime \<Rightarrow> runtime" where
  "set_overall r l = upd r (\<lambda>x. x\<lparr>r_overall := l\<rparr>)"

definition set_local :: "rid \<Rightarrow> run_level \<Rightarrow> runtime \<Rightarrow> runtime" where
  "set_local r l = upd r (\<lambda>x. x\<lparr>r_local := l\<rparr>)"

definition PostUpdateWork :: "rid \<Rightarrow> runtime \<Rightarrow> runtime" where
  "PostUpdateWork r s = (if \<not> r_work_requested (rt_res s r) then
       (upd r (\<lambda>x. x\<lparr>r_work_requested := True\<rparr>) s)\<lparr>rt_queue := rt_queue s @ [r]\<rparr>
     else s)"

subsection \<open>Construction\<close>

text \<open>The constructor of the proactor, and of any other resource under a parent.\<close>

definition new_resource :: "rid option \<Rightarrow> string \<Rightarrow> string \<Rightarrow> run_level \<Rightarrow> kind \<Rightarrow> resource" where
  "new_resource parent name path level k = \<lparr>r_parent = parent, r_name = name, r_full_path = path,
     r_local = level, r_overall = level, r_children = [], r_work_requested = False,
     r_callback = None, r_references_from = [], r_dep_them = [], r_dep_their_ref = [],
     r_dep_us = [], r_kind = k, r_impl = None, r_dep_our_service = []\<rparr>"

definition new_Proactor :: "rid \<Rightarrow> runtime" where
  "new_Proactor r = \<lparr>rt_res = (\<lambda>_. new_resource None ''resources'' ''/resources'' CONSTRUCTED KProactor),
     rt_ids = [r], rt_root = r, rt_queue = [], rt_services = [], rt_references = [], rt_called = []\<rparr>"

definition ResourceBase :: "rid \<Rightarrow> string \<Rightarrow> rid \<Rightarrow> run_level \<Rightarrow> kind \<Rightarrow> runtime \<Rightarrow> runtime res" where
  "ResourceBase r name parent level k s =
     bind_res (bbox_assert ''&parent != this'' (parent \<noteq> r) s) (\<lambda>s.
     bind_res (bbox_assert ''initial level'' (level = CONSTRUCTED \<or> level = RUNNING) s) (\<lambda>s.
     bind_res (bbox_assert ''parent constructed''
         (level = CONSTRUCTED \<longrightarrow> overall s parent = CONSTRUCTED) s) (\<lambda>s.
     let (children, inserted) = smap_insert name r (r_children (rt_res s parent));
         path = Format ''%s/%s'' [ArgStr (r_full_path (rt_res s parent)), ArgStr name];
         s1 = upd parent (\<lambda>x. x\<lparr>r_children := children\<rparr>)
                (s\<lparr>rt_res := (rt_res s)(r := new_resource (Some parent) name path level k),
                   rt_ids := r # rt_ids s\<rparr>)
     in bbox_assert ''duplicate service'' inserted s1)))"

definition new_Service :: "rid \<Rightarrow> string \<Rightarrow> rid \<Rightarrow> runtime \<Rightarrow> runtime res" where
  "new_Service r name parent = ResourceBase r name parent CONSTRUCTED KService"

definition new_ServiceFolder :: "rid \<Rightarrow> string \<Rightarrow> rid \<Rightarrow> runtime \<Rightarrow> runtime res" where
  "new_ServiceFolder r name parent = ResourceBase r name parent CONSTRUCTED KFolder"

definition new_Resource :: "rid \<Rightarrow> string \<Rightarrow> rid \<Rightarrow> runtime \<Rightarrow> runtime res" where
  "new_Resource r name parent = ResourceBase r name parent RUNNING KResource"

definition GenericServiceReference
  :: "rid \<Rightarrow> string \<Rightarrow> rid \<Rightarrow> string \<Rightarrow> nat \<Rightarrow> runtime \<Rightarrow> runtime res" where
  "GenericServiceReference r name parent ref_name type s =
     bind_res (ResourceBase r name parent CONSTRUCTED (KReference ref_name type) s) (\<lambda>s.
     bind_res (bbox_assert ''proactor constructed'' (overall s (rt_root s) = CONSTRUCTED) s) (\<lambda>s.
     bind_res (bbox_assert ''insert_result_1'' (r \<notin> set (rt_references s)) s) (\<lambda>s.
     let s1 = s\<lparr>rt_references := r # rt_references s\<rparr>
     in bind_res (bbox_assert ''insert_result_2''
          (r \<notin> set (r_references_from (rt_res s1 parent))) s1) (\<lambda>s.
        Inr (upd parent (\<lambda>x. x\<lparr>r_references_from := r # r_references_from x\<rparr>) s)))))"

definition GenericRegisterService :: "rid \<Rightarrow> string \<Rightarrow> nat \<Rightarrow> runtime \<Rightarrow> runtime res" where
  "GenericRegisterService r name type s =
     bind_res (bbox_assert ''existing service'' (smap_find name (rt_services s) = None) s) (\<lambda>s.
       Inr (s\<lparr>rt_services := smap_assign name \<lparr>se_type = type, se_impl = r\<rparr> (rt_services s)\<rparr>))"

text \<open>\<open>SetThisDependantOn\<close> for a service and for a reference.\<close>

definition SetThisDependantOn :: "rid \<Rightarrow> rid \<Rightarrow> runtime \<Rightarrow> runtime res" where
  "SetThisDependantOn r service s =
     bind_res (bbox_assert ''m_local_level'' (locally s r = CONSTRUCTED) s) (\<lambda>s.
     bind_res (bbox_assert ''m_overall_level'' (overall s r = CONSTRUCTED) s) (\<lambda>s.
     bind_res (bbox_assert ''service local'' (locally s service = CONSTRUCTED) s) (\<lambda>s.
     bind_res (bbox_assert ''service overall'' (overall s service = CONSTRUCTED) s) (\<lambda>s.
     bind_res (bbox_assert ''insert_result_1'' (service \<notin> set (r_dep_them (rt_res s r))) s) (\<lambda>s.
     bind_res (bbox_assert ''insert_result_2'' (r \<notin> set (r_dep_us (rt_res s service))) s) (\<lambda>s.
       Inr (upd service (\<lambda>x. x\<lparr>r_dep_us := r # r_dep_us x\<rparr>)
             (upd r (\<lambda>x. x\<lparr>r_dep_them := service # r_dep_them x\<rparr>) s))))))))"

definition SetThisDependantOn_ref :: "rid \<Rightarrow> rid \<Rightarrow> runtime \<Rightarrow> runtime res" where
  "SetThisDependantOn_ref r ref s =
     bind_res (bbox_assert ''m_local_level'' (locally s r = CONSTRUCTED) s) (\<lambda>s.
     bind_res (bbox_assert ''m_overall_level'' (overall s r = CONSTRUCTED) s) (\<lambda>s.
     bind_res (bbox_assert ''service_ref local'' (locally s ref = CONSTRUCTED) s) (\<lambda>s.
     bind_res (bbox_assert ''service_ref overall'' (overall s ref = CONSTRUCTED) s) (\<lambda>s.
     bind_res (bbox_assert ''!m_implementing_service'' (r_impl (rt_res s ref) = None) s) (\<lambda>s.
     bind_res (bbox_assert ''insert_result_1'' (ref \<notin> set (r_dep_their_ref (rt_res s r))) s) (\<lambda>s.
     bind_res (bbox_assert ''insert_result_2'' (r \<notin> set (r_dep_our_service (rt_res s ref))) s) (\<lambda>s.
       Inr (upd ref (\<lambda>x. x\<lparr>r_dep_our_service := r # r_dep_our_service x\<rparr>)
             (upd r (\<lambda>x. x\<lparr>r_dep_their_ref := ref # r_dep_their_ref x\<rparr>) s)))))))))"

text \<open>\<open>Proactor::ConnectRegisteredServices\<close> and \<open>DisconnectRegisteredServices\<close>.\<close>

definition connect_dep :: "rid \<Rightarrow> rid \<Rightarrow> runtime \<Rightarrow> runtime res" where
  "connect_dep service dep s =
     bind_res (bbox_assert ''insert_result_1'' (service \<notin> set (r_dep_them (rt_res s dep))) s) (\<lambda>s.
     bind_res (bbox_assert ''insert_result_2'' (dep \<notin> set (r_dep_us (rt_res s service))) s) (\<lambda>s.
       Inr (upd service (\<lambda>x. x\<lparr>r_dep_us := dep # r_dep_us x\<rparr>)
             (upd dep (\<lambda>x. x\<lparr>r_dep_them := service # r_dep_them x\<rparr>) s))))"

definition connect_ref :: "rid \<Rightarrow> runtime \<Rightarrow> runtime res" where
  "connect_ref ref s = (case r_kind (rt_res s ref) of
       KReference ref_name type \<Rightarrow>
         (case smap_find ref_name (rt_services s) of
            None \<Rightarrow> Inl (AssertFailed ''it != m_services.end()'')
          | Some entry \<Rightarrow>
              bind_res (bbox_assert ''entry type'' (se_type entry = type) s) (\<lambda>s.
                fold_res (connect_dep (se_impl entry)) (r_dep_our_service (rt_res s ref))
                  (upd ref (\<lambda>x. x\<lparr>r_impl := Some (se_impl entry)\<rparr>) s)))
     | _ \<Rightarrow> Inl NullPointer)"

definition ConnectRegisteredServices :: "runtime \<Rightarrow> runtime res" where
  "ConnectRegisteredServices s =
     bind_res (bbox_assert ''GetOverallRunLevel'' (overall s (rt_root s) = CONSTRUCTED) s) (\<lambda>s.
       fold_res connect_ref (rt_references s) s)"

definition DisconnectRegisteredServices :: "runtime \<Rightarrow> runtime res" where
  "DisconnectRegisteredServices s =
     bind_res (bbox_assert ''GetOverallRunLevel'' (overall s (rt_root s) = STOPPED) s) (\<lambda>s.
       Inr (fold (\<lambda>ref. upd ref (\<lambda>x. x\<lparr>r_impl := None\<rparr>)) (rt_references s) s))"

subsection \<open>Requests and notifications\<close>

definition RequestStart :: "rid \<Rightarrow> callback option \<Rightarrow> runtime \<Rightarrow> runtime res" where
  "RequestStart r cb s =
     bind_res (bbox_assert ''m_overall_level == CONSTRUCTED'' (overall s r = CONSTRUCTED) s) (\<lambda>s.
       Inr (PostUpdateWork r (set_overall r STARTING (upd r (\<lambda>x. x\<lparr>r_callback := cb\<rparr>) s))))"

definition RequestStop :: "rid \<Rightarrow> callback option \<Rightarrow> runtime \<Rightarrow> runtime res" where
  "RequestStop r cb s =
     bind_res (bbox_assert ''m_overall_level == RUNNING'' (overall s r = RUNNING) s) (\<lambda>s.
       Inr (PostUpdateWork r (set_overall r STOPPING (upd r (\<lambda>x. x\<lparr>r_callback := cb\<rparr>) s))))"

definition Proactor_RequestStop :: "runtime \<Rightarrow> runtime res" where
  "Proactor_RequestStop s = RequestStop (rt_root s) (Some CallDisconnect) s"

definition stop_child :: "string \<times> rid \<Rightarrow> runtime \<Rightarrow> runtime res" where
  "stop_child e s = (let child = snd e in
     bind_res (bbox_assert ''child level'' (overall s child = RUNNING \<or> overall s child = STOPPING
         \<or> overall s child = STOPPED) s) (\<lambda>s.
       if overall s child = RUNNING then RequestStop child None s else Inr s))"

definition RequestStopAllChildren :: "rid \<Rightarrow> runtime \<Rightarrow> runtime res" where
  "RequestStopAllChildren r s = fold_res stop_child (r_children (rt_res s r)) s"

definition NotifyStarted :: "rid \<Rightarrow> runtime \<Rightarrow> runtime res" where
  "NotifyStarted r s =
     bind_res (bbox_assert ''m_local_level == STARTING'' (locally s r = STARTING) s) (\<lambda>s.
       Inr (PostUpdateWork r (set_local r RUNNING s)))"

definition NotifyStopped :: "rid \<Rightarrow> runtime \<Rightarrow> runtime res" where
  "NotifyStopped r s =
     bind_res (bbox_assert ''m_local_level == STOPPING'' (locally s r = STOPPING) s) (\<lambda>s.
       Inr (PostUpdateWork r (set_local r STOPPED s)))"

text \<open>
  The virtual handlers. The library's own classes notify at once (and then stop their
  children); a client's service or resource does so later, by steps of its own.
\<close>

definition HandleStarting :: "rid \<Rightarrow> runtime \<Rightarrow> runtime res" where
  "HandleStarting r s = (case r_kind (rt_res s r) of
       KProactor \<Rightarrow> NotifyStarted r s
     | KFolder \<Rightarrow> NotifyStarted r s
     | KReference _ _ \<Rightarrow> NotifyStarted r s
     | KService \<Rightarrow> Inr s
     | KResource \<Rightarrow> Inl (AssertFailed ''Resources should never get here''))"

definition HandleStopping :: "rid \<Rightarrow> runtime \<Rightarrow> runtime res" where
  "HandleStopping r s = (case r_kind (rt_res s r) of
       KService \<Rightarrow> Inr s
     | KResource \<Rightarrow> Inr s
     | _ \<Rightarrow> bind_res (NotifyStopped r s) (RequestStopAllChildren r))"

subsection \<open>The work item\<close>

text \<open>Starting: request the start of the children, then see whether all that this resource
  needs is running.\<close>

definition start_child :: "string \<times> rid \<Rightarrow> runtime \<Rightarrow> runtime res" where
  "start_child e s = (let child = snd e in
     if overall s child = CONSTRUCTED then RequestStart child None s else Inr s)"

definition refs_running :: "rid \<Rightarrow> runtime \<Rightarrow> bool res" where
  "refs_running r s = fold_res (\<lambda>ref all_running.
       case r_kind (rt_res s ref) of
         KReference ref_name _ \<Rightarrow>
           (case smap_find ref_name (rt_services s) of
              None \<Rightarrow> Inl (AssertFailed ''false'')
            | Some entry \<Rightarrow> Inr (all_running \<and> overall s (se_impl entry) = RUNNING))
       | _ \<Rightarrow> Inl NullPointer)
     (r_references_from (rt_res s r)) True"

definition handle_start :: "rid \<Rightarrow> runtime \<Rightarrow> runtime res" where
  "handle_start r s =
     (let children_running = (\<forall>e \<in> set (r_children (rt_res s r)). overall s (snd e) = RUNNING)
      in bind_res (fold_res start_child (r_children (rt_res s r)) s) (\<lambda>s1.
         bind_res (refs_running r s1) (\<lambda>references_running.
         let dependants_running = (\<forall>d \<in> set (r_dep_them (rt_res s1 r)). overall s1 d = RUNNING)
         in if children_running \<and> references_running \<and> dependants_running then
              HandleStarting r (set_local r STARTING s1)
            else Inr s1)))"

text \<open>The completion handler is taken out of the object before it is called.\<close>

definition run_callback :: "rid \<Rightarrow> runtime \<Rightarrow> runtime res" where
  "run_callback r s = (let cb = r_callback (rt_res s r); s1 = upd r (\<lambda>x. x\<lparr>r_callback := None\<rparr>) s
     in case cb of
          None \<Rightarrow> Inr s1
        | Some CallDisconnect \<Rightarrow> DisconnectRegisteredServices s1
        | Some (CallClient n) \<Rightarrow> Inr (s1\<lparr>rt_called := rt_called s1 @ [n]\<rparr>))"

definition post_parent :: "rid \<Rightarrow> runtime \<Rightarrow> runtime" where
  "post_parent r s = (case r_parent (rt_res s r) of None \<Rightarrow> s | Some p \<Rightarrow> PostUpdateWork p s)"

text \<open>The references whose service this is: \<open>f\<close> is applied to the parent of each.\<close>

definition for_users :: "rid \<Rightarrow> (rid \<Rightarrow> runtime \<Rightarrow> runtime) \<Rightarrow> runtime \<Rightarrow> runtime res" where
  "for_users r f s = fold_res (\<lambda>ref s.
       if r_impl (rt_res s ref) = Some r then
         (case r_parent (rt_res s ref) of
            None \<Rightarrow> Inl (AssertFailed ''ref_ptr->m_parent_ptr'')
          | Some p \<Rightarrow> Inr (f p s))
       else Inr s) (rt_references s) s"

definition handle_started :: "rid \<Rightarrow> runtime \<Rightarrow> runtime res" where
  "handle_started r s =
     bind_res (for_users r PostUpdateWork (post_parent r (set_overall r RUNNING s))) (\<lambda>s1.
       run_callback r (fold (\<lambda>d s. if overall s d = STARTING then PostUpdateWork d s else s)
         (r_dep_us (rt_res s1 r)) s1))"

definition users_stopped :: "rid \<Rightarrow> runtime \<Rightarrow> bool res" where
  "users_stopped r s = fold_res (\<lambda>ref all_stopped.
       if r_impl (rt_res s ref) = Some r then
         (case r_parent (rt_res s ref) of
            None \<Rightarrow> Inl (AssertFailed ''ref_ptr->m_parent_ptr'')
          | Some p \<Rightarrow> Inr (all_stopped \<and> overall s p = STOPPED))
       else Inr all_stopped) (rt_references s) True"

definition handle_stop :: "rid \<Rightarrow> runtime \<Rightarrow> runtime res" where
  "handle_stop r s =
     bind_res (users_stopped r s) (\<lambda>references_stopped.
     let dependants_stopped = (\<forall>d \<in> set (r_dep_us (rt_res s r)). overall s d = STOPPED)
     in if references_stopped \<and> dependants_stopped then
          HandleStopping r (set_local r STOPPING s)
        else Inr s)"

definition handle_stopped :: "rid \<Rightarrow> runtime \<Rightarrow> runtime res" where
  "handle_stopped r s =
     (if \<forall>e \<in> set (r_children (rt_res s r)). overall s (snd e) = STOPPED then
        let s1 = post_parent r (set_overall r STOPPED s);
            s2 = fold (\<lambda>ref s. case r_impl (rt_res s ref) of None \<Rightarrow> s | Some d \<Rightarrow> PostUpdateWork d s)
                   (r_references_from (rt_res s1 r)) s1;
            s3 = fold (\<lambda>d s. if overall s d = STOPPING then PostUpdateWork d s else s)
                   (r_dep_them (rt_res s2 r)) s2
        in run_callback r s3
      else Inr s)"

definition HandleUpdateWork :: "rid \<Rightarrow> runtime \<Rightarrow> runtime res" where
  "HandleUpdateWork r s =
     bind_res (bbox_assert ''m_work_requested'' (r_work_requested (rt_res s r)) s) (\<lambda>s.
     let s = upd r (\<lambda>x. x\<lparr>r_work_requested := False\<rparr>) s;
         o_level = overall s r; l_level = locally s r
     in if o_level = l_level then Inr s
        else if o_level = STARTING \<and> l_level = CONSTRUCTED then handle_start r s
        else if o_level = STARTING \<and> l_level = RUNNING then handle_started r s
        else if o_level = STOPPING \<and> l_level = RUNNING then handle_stop r s
        else if o_level = STOPPING \<and> l_level = STOPPED then handle_stopped r s
        else Inl (AssertFailed ''Unsupported transition''))"

text \<open>The destructor; a reference must have been disconnected before.\<close>

definition unlink_them :: "rid \<Rightarrow> rid \<Rightarrow> runtime \<Rightarrow> runtime res" where
  "unlink_them r d s =
     bind_res (bbox_assert ''other_it'' (r \<in> set (r_dep_us (rt_res s d))) s) (\<lambda>s.
       Inr (upd d (\<lambda>x. x\<lparr>r_dep_us := removeAll r (r_dep_us x)\<rparr>) s))"

definition unlink_us :: "rid \<Rightarrow> rid \<Rightarrow> runtime \<Rightarrow> runtime res" where
  "unlink_us r d s =
     bind_res (bbox_assert ''other_it'' (r \<in> set (r_dep_them (rt_res s d))) s) (\<lambda>s.
       Inr (upd d (\<lambda>x. x\<lparr>r_dep_them := removeAll r (r_dep_them x)\<rparr>) s))"

definition destroy_resource :: "rid \<Rightarrow> runtime \<Rightarrow> runtime res" where
  "destroy_resource r s =
     bind_res (bbox_assert ''m_implementing_service == nullptr'' (r_impl (rt_res s r) = None) s) (\<lambda>s.
     bind_res (bbox_assert ''m_overall_level == STOPPED'' (overall s r = STOPPED) s) (\<lambda>s.
     bind_res (bbox_assert ''m_children.empty()'' (r_children (rt_res s r) = []) s) (\<lambda>s.
     bind_res (bbox_assert ''!m_work_requested'' (\<not> r_work_requested (rt_res s r)) s) (\<lambda>s.
     bind_res (case r_parent (rt_res s r) of
         None \<Rightarrow> Inr s
       | Some p \<Rightarrow>
           bind_res (bbox_assert ''find in parent''
               (smap_find (r_name (rt_res s r)) (r_children (rt_res s p)) \<noteq> None) s) (\<lambda>s.
             Inr (upd p (\<lambda>x. x\<lparr>r_children := smap_erase (r_name (rt_res s r)) (r_children x)\<rparr>) s))) (\<lambda>s.
     bind_res (fold_res (unlink_them r) (r_dep_them (rt_res s r)) s) (\<lambda>s.
     bind_res (fold_res (unlink_us r) (r_dep_us (rt_res s r)) s) (\<lambda>s.
       Inr (s\<lparr>rt_ids := removeAll r (rt_ids s)\<rparr>))))))))"

text \<open>\<open>Proactor::Run\<close> connects the services and requests its own start before it runs the queue.\<close>

definition start_runner :: "runtime \<Rightarrow> runtime res" where
  "start_runner s =
     bind_res (bbox_assert ''CONSTRUCTED'' (overall s (rt_root s) = CONSTRUCTED) s) (\<lambda>s.
     bind_res (ConnectRegisteredServices s) (\<lambda>s.
     bind_res (RequestStart (rt_root s) None s) (\<lambda>s.
       bbox_assert ''STARTING'' (overall s (rt_root s) = STARTING) s)))"

end
