(* ===== verification/Client.thy ===== *)
theory Client
  imports RunTime
begin

section \<open>What a client's resource sees of the run time\<close>

text \<open>
  A class derived from \<open>Resource\<close> or \<open>Service\<close> sees its local run level, is told to start or to
  stop by its virtual handlers, and reports back by \<open>NotifyStarted\<close> and \<open>NotifyStopped\<close>. The
  models of such classes keep the level in their own state; the lemmas relate this view to
  \<open>ResourceBase\<close>.
\<close>

definition level_NotifyStarted :: "run_level \<Rightarrow> run_level res" where
  "level_NotifyStarted l = (if l = STARTING then Inr RUNNING else Inl (AssertFailed ''m_local_level == STARTING''))"

definition level_NotifyStopped :: "run_level \<Rightarrow> run_level res" where
  "level_NotifyStopped l = (if l = STOPPING then Inr STOPPED else Inl (AssertFailed ''m_local_level == STOPPING''))"

lemma locally_PostUpdateWork [simp]: "locally (PostUpdateWork r s) x = locally s x"
  by (simp add: PostUpdateWork_def upd_def)

lemma level_NotifyStarted_sim:
  "(case NotifyStarted r s of Inl e \<Rightarrow> Inl e | Inr t \<Rightarrow> Inr (locally t r)) = level_NotifyStarted (locally s r)"
  by (simp add: NotifyStarted_def level_NotifyStarted_def bbox_assert_def set_local_def upd_def)

lemma level_NotifyStopped_sim:
  "(case NotifyStopped r s of Inl e \<Rightarrow> Inl e | Inr t \<Rightarrow> Inr (locally t r)) = level_NotifyStopped (locally s r)"
  by (simp add: NotifyStopped_def level_NotifyStopped_def bbox_assert_def set_local_def upd_def)

definition check :: "string \<Rightarrow> bool \<Rightarrow> 's \<Rightarrow> 's res" where
  "check msg b s = (if b then Inr s else Inl (AssertFailed msg))"

lemma check_simps [simp]:
  "check msg True s = Inr s"
  "check msg False s = Inl (AssertFailed msg)"
  "check msg b s = Inr t \<longleftrightarrow> b \<and> t = s"
  by (auto simp: check_def)

text \<open>Increments of 64-bit counters that do not wrap around.\<close>

lemma unat_plus_1: "unat (w :: u64) + 1 < 2 ^ 64 \<Longrightarrow> unat (w + 1) = unat w + 1"
  by (subst unat_add_lem [THEN iffD1]) simp_all

lemma unat_minus_1: "0 < (w :: u64) \<Longrightarrow> unat (w - 1) = unat w - 1"
  by (subst unat_sub) (auto simp: word_le_nat_alt word_less_nat_alt)

text \<open>A call that is taken out of a list of posted calls.\<close>

lemma count_list_take_nth:
  assumes "n < length ps"
  shows "count_list ps x = count_list [ps ! n] x + count_list (take n ps @ drop (Suc n) ps) x"
proof -
  have "count_list ps x = count_list (take n ps @ ps ! n # drop (Suc n) ps) x"
    using assms by (simp add: id_take_nth_drop [symmetric])
  then show ?thesis
    by simp
qed

end
