(* ===== verification/Http.thy ===== *)
theory Http
  imports Client StdMap Format
begin

section \<open>HTTP requests and responses\<close>

text \<open>
  \<open>BBoxHttp/bbox/http\<close>: \<open>Request.cpp\<close>, \<open>Response.cpp\<close>, \<open>ResourceFileSet.cpp\<close> and the
  \<open>server/details/Connection.cpp\<close> they call. The parsed message is what the Beast library
  delivers, with what its \<open>is_upgrade\<close> says of it; of a response the model keeps what the code sets before it hands it to the library.
  A field name is compared without regard to case, as the library documents. The texts that
  only debug reports show (\<open>m_state_string\<close>) are left out. The build is the release build.
\<close>

subsection \<open>Messages\<close>

record http_request =
  rq_method :: string
  rq_target :: string
  rq_version :: nat
  rq_keep_alive :: bool
  rq_headers :: "(string \<times> string) list"
  rq_body :: string
  rq_is_upgrade :: bool

record http_response =
  rs_status :: nat
  rs_version :: nat
  rs_keep_alive :: bool
  rs_headers :: "(string \<times> string) list"
  rs_body :: string

definition ascii_lower :: "char \<Rightarrow> char" where
  "ascii_lower c = (if CHR ''A'' \<le> c \<and> c \<le> CHR ''Z'' then char_of (of_char c + 32 :: nat) else c)"

definition same_field :: "string \<Rightarrow> string \<Rightarrow> bool" where
  "same_field a b \<longleftrightarrow> map ascii_lower a = map ascii_lower b"

text \<open>\<open>find\<close> and \<open>set\<close> of the library's message headers.\<close>

definition header_find :: "string \<Rightarrow> (string \<times> string) list \<Rightarrow> string option" where
  "header_find name hs = map_option snd (find (\<lambda>h. same_field name (fst h)) hs)"

definition header_set :: "string \<Rightarrow> string \<Rightarrow> (string \<times> string) list \<Rightarrow> (string \<times> string) list" where
  "header_set name v hs = [h \<leftarrow> hs. \<not> same_field name (fst h)] @ [(name, v)]"

subsection \<open>The connection\<close>

text \<open>
  \<open>m_request_ptr\<close> is set while a request is read, \<open>m_response_ptr\<close> while a response is written,
  and \<open>cn_current\<close> is the request that \<open>OnRead\<close> passed to the server, as long as a copy of it
  exists. \<open>cn_version_string\<close> is the constant \<open>BOOST_BEAST_VERSION_STRING\<close>. \<open>cn_reads\<close> and
  \<open>cn_writes\<close> count the operations whose handlers the library still has to call, \<open>cn_requests\<close>
  and \<open>cn_sent\<close> record the requests read and the responses sent, and \<open>cn_upgraded\<close> that the
  socket was given to a web socket.
\<close>

record pimpl =
  pi_request :: http_request
  pi_handled :: bool

record connection =
  cn_version_string :: string
  cn_request_ptr :: bool
  cn_response_ptr :: "http_response option"
  cn_request_count :: nat
  cn_closed :: bool
  cn_current :: "pimpl option"
  cn_reads :: nat
  cn_writes :: nat
  cn_requests :: "http_request list"
  cn_sent :: "http_response list"
  cn_upgraded :: bool
  cn_closed_notified :: nat

definition Connection :: "string \<Rightarrow> connection" where
  "Connection version = \<lparr>cn_version_string = version, cn_request_ptr = True, cn_response_ptr = None,
     cn_request_count = 1, cn_closed = False, cn_current = None, cn_reads = 1, cn_writes = 0,
     cn_requests = [], cn_sent = [], cn_upgraded = False, cn_closed_notified = 0\<rparr>"

definition idle_checks :: "connection \<Rightarrow> connection res" where
  "idle_checks c =
     bind_res (check ''!m_request_ptr'' (\<not> cn_request_ptr c) c) (\<lambda>c.
     bind_res (check ''!m_response_ptr'' (cn_response_ptr c = None) c) (\<lambda>c.
       check ''!m_closed'' (\<not> cn_closed c) c))"

definition Connection_Send :: "http_response \<Rightarrow> connection \<Rightarrow> connection res" where
  "Connection_Send response c =
     bind_res (idle_checks c) (\<lambda>c.
       Inr (c\<lparr>cn_response_ptr := Some response, cn_writes := cn_writes c + 1, cn_sent := cn_sent c @ [response]\<rparr>))"

text \<open>\<open>ConnectionClosed\<close> asks the server to drop the connection.\<close>

definition notify_closed :: "connection \<Rightarrow> connection" where
  "notify_closed c = c\<lparr>cn_closed := True, cn_closed_notified := cn_closed_notified c + 1\<rparr>"

definition NotifyUpgradedToWebSocket :: "connection \<Rightarrow> connection res" where
  "NotifyUpgradedToWebSocket c = bind_res (idle_checks c) (\<lambda>c. Inr ((notify_closed c)\<lparr>cn_upgraded := True\<rparr>))"

text \<open>\<open>OnRead\<close>, up to the call of \<open>HandleRequest\<close>.\<close>

definition Connection_OnRead :: "http_request option \<Rightarrow> connection \<Rightarrow> connection res" where
  "Connection_OnRead received c =
     bind_res (check ''m_request_ptr'' (cn_request_ptr c) c) (\<lambda>c.
     bind_res (check ''!m_response_ptr'' (cn_response_ptr c = None) c) (\<lambda>c.
     bind_res (check ''!m_closed'' (\<not> cn_closed c) c) (\<lambda>c.
       Inr (case received of
         None \<Rightarrow> notify_closed (c\<lparr>cn_request_ptr := False\<rparr>)
       | Some request \<Rightarrow> c\<lparr>cn_request_ptr := False, cn_current := Some \<lparr>pi_request = request, pi_handled = False\<rparr>,
           cn_requests := cn_requests c @ [request]\<rparr>))))"

definition Connection_OnWrite :: "bool \<Rightarrow> bool \<Rightarrow> connection \<Rightarrow> connection res" where
  "Connection_OnWrite ec close c =
     bind_res (check ''!m_request_ptr'' (\<not> cn_request_ptr c) c) (\<lambda>c.
     bind_res (check ''m_response_ptr'' (cn_response_ptr c \<noteq> None) c) (\<lambda>c.
     bind_res (check ''!m_closed'' (\<not> cn_closed c) c) (\<lambda>c.
       let c = c\<lparr>cn_response_ptr := None\<rparr>
       in Inr (if ec \<or> close then notify_closed c
          else c\<lparr>cn_request_count := cn_request_count c + 1, cn_request_ptr := True, cn_reads := cn_reads c + 1\<rparr>))))"

subsection \<open>Request\<close>

text \<open>The assertions at the start of each operation of a request.\<close>

definition live_request :: "connection \<Rightarrow> http_request res" where
  "live_request c = (case cn_current c of
       None \<Rightarrow> Inl (AssertFailed ''*this'')
     | Some p \<Rightarrow> if pi_handled p then Inl (AssertFailed ''m_pimpl_ptr->NotHandled()'') else Inr (pi_request p))"

definition SetHandled :: "connection \<Rightarrow> connection" where
  "SetHandled c = c\<lparr>cn_current := map_option (\<lambda>p. p\<lparr>pi_handled := True\<rparr>) (cn_current c)\<rparr>"

text \<open>The destructor of the last copy: a request that nobody handled gets a 404 response.\<close>

definition Pimpl_destroy :: "connection \<Rightarrow> connection res" where
  "Pimpl_destroy c = (case cn_current c of
       None \<Rightarrow> Inl NullPointer
     | Some p \<Rightarrow>
         bind_res (if \<not> pi_handled p then
             Connection_Send \<lparr>rs_status = 404, rs_version = rq_version (pi_request p), rs_keep_alive = rq_keep_alive (pi_request p),
               rs_headers = header_set ''Content-Type'' ''text/plain'' (header_set ''Server'' (cn_version_string c) []),
               rs_body = ''404 Not Found''\<rparr> c
           else Inr c) (\<lambda>c. Inr (c\<lparr>cn_current := None\<rparr>)))"

definition find_first :: "char \<Rightarrow> string \<Rightarrow> nat option" where
  "find_first ch s = (let n = length (takeWhile (\<lambda>c. c \<noteq> ch) s) in if n < length s then Some n else None)"

definition cut_at :: "char \<Rightarrow> string \<Rightarrow> string" where
  "cut_at ch s = (case find_first ch s of None \<Rightarrow> s | Some pos \<Rightarrow> take pos s)"

definition target_path :: "string \<Rightarrow> string" where
  "target_path target = cut_at (CHR ''?'') (cut_at (CHR ''#'') target)"

definition GetResource :: "connection \<Rightarrow> string res" where
  "GetResource c = bind_res (live_request c) (\<lambda>rq. Inr (target_path (rq_target rq)))"

definition HasHeader :: "string \<Rightarrow> connection \<Rightarrow> bool res" where
  "HasHeader str c = bind_res (live_request c) (\<lambda>rq. Inr (header_find str (rq_headers rq) \<noteq> None))"

definition GetHeader :: "string \<Rightarrow> connection \<Rightarrow> string res" where
  "GetHeader header c = bind_res (live_request c) (\<lambda>rq.
     Inr (case header_find header (rq_headers rq) of None \<Rightarrow> [] | Some v \<Rightarrow> v))"

definition GetMethod :: "connection \<Rightarrow> string res" where
  "GetMethod c = bind_res (live_request c) (\<lambda>rq. Inr (rq_method rq))"

definition GetContent :: "connection \<Rightarrow> string res" where
  "GetContent c = bind_res (live_request c) (\<lambda>rq. Inr (rq_body rq))"

text \<open>Queries are not implemented: the code ignores them.\<close>

definition HasQuery :: "string \<Rightarrow> connection \<Rightarrow> bool res" where
  "HasQuery param c = bind_res (live_request c) (\<lambda>_. Inr False)"

definition GetQuery :: "string \<Rightarrow> connection \<Rightarrow> string res" where
  "GetQuery param c = bind_res (live_request c) (\<lambda>_. Inr [])"

subsection \<open>Response\<close>

text \<open>A response object holds its message until it is sent.\<close>

type_synonym response_object = "http_response option"

definition Response :: "connection \<Rightarrow> response_object res" where
  "Response c = (case cn_current c of
       None \<Rightarrow> Inl NullPointer
     | Some p \<Rightarrow> Inr (Some \<lparr>rs_status = 500, rs_version = rq_version (pi_request p), rs_keep_alive = rq_keep_alive (pi_request p),
         rs_headers = header_set ''Server'' (cn_version_string c) [], rs_body = []\<rparr>))"

definition change_response :: "(http_response \<Rightarrow> http_response) \<Rightarrow> response_object \<Rightarrow> response_object res" where
  "change_response f r = (case r of None \<Rightarrow> Inl (AssertFailed ''m_response_ptr'') | Some m \<Rightarrow> Inr (Some (f m)))"

definition SetResponse :: "nat \<Rightarrow> response_object \<Rightarrow> response_object res" where
  "SetResponse status = change_response (\<lambda>m. m\<lparr>rs_status := status\<rparr>)"

definition SetHeader :: "string \<Rightarrow> string \<Rightarrow> response_object \<Rightarrow> response_object res" where
  "SetHeader header v = change_response (\<lambda>m. m\<lparr>rs_headers := header_set header v (rs_headers m)\<rparr>)"

definition SetContent :: "string \<Rightarrow> response_object \<Rightarrow> response_object res" where
  "SetContent content = change_response (\<lambda>m. m\<lparr>rs_body := content,
     rs_headers := header_set ''Content-Length'' (show_nat (length content)) (rs_headers m)\<rparr>)"

definition SetHeader_NoCache :: "response_object \<Rightarrow> response_object res" where
  "SetHeader_NoCache = SetHeader ''Cache-Control'' ''private, max-age=0, no-cache, no-store''"

definition SetHeader_ContentType :: "string \<Rightarrow> response_object \<Rightarrow> response_object res" where
  "SetHeader_ContentType type = SetHeader ''Content-Type'' type"

definition Response_Send :: "response_object \<Rightarrow> connection \<Rightarrow> connection res" where
  "Response_Send r c = (case cn_current c of
       None \<Rightarrow> Inl (AssertFailed ''m_request'')
     | Some p \<Rightarrow> (case r of
         None \<Rightarrow> Inl (AssertFailed ''m_response_ptr'')
       | Some m \<Rightarrow> if pi_handled p then Inl (AssertFailed ''NotHandled()'') else Connection_Send m (SetHandled c)))"

text \<open>A response built by a chain of setters, and sent.\<close>

definition respond :: "(response_object \<Rightarrow> response_object res) list \<Rightarrow> connection \<Rightarrow> connection res" where
  "respond setters c =
     bind_res (live_request c) (\<lambda>_.
     bind_res (Response c) (\<lambda>r.
     bind_res (fold_res (\<lambda>f. f) setters r) (\<lambda>r. Response_Send r c)))"

definition RespondWithNotFoundError :: "connection \<Rightarrow> connection res" where
  "RespondWithNotFoundError =
     respond [SetResponse 404, SetHeader_NoCache, SetHeader_ContentType ''text/plain'', SetContent ''404 Not Found'']"

definition RespondWithBadRequestError :: "string \<Rightarrow> connection \<Rightarrow> connection res" where
  "RespondWithBadRequestError err =
     respond [SetResponse 400, SetHeader_ContentType ''text/plain'', SetContent (Format ''400 Bad Request: %s'' [ArgStr err])]"

definition RespondWithTemporaryRedirect :: "string \<Rightarrow> connection \<Rightarrow> connection res" where
  "RespondWithTemporaryRedirect location = respond [SetResponse 302, SetHeader_NoCache, SetHeader ''Location'' location]"

definition RespondWithServerError :: "string \<Rightarrow> connection \<Rightarrow> connection res" where
  "RespondWithServerError message =
     respond [SetResponse 500, SetHeader_NoCache, SetHeader_ContentType ''text/plain'',
       SetContent (Format ''500 Internal Server Error: %s'' [ArgStr message])]"

definition RespondWithMethodNotAllowedError :: "string \<Rightarrow> connection \<Rightarrow> connection res" where
  "RespondWithMethodNotAllowedError allowed_methods =
     respond [SetResponse 405, SetHeader_NoCache, SetHeader_ContentType ''text/plain'',
       SetContent (Format ''405 Method Not Allowed: Allowed methods - \"%s\"'' [ArgStr allowed_methods])]"

subsection \<open>Resource files\<close>

record resource_file =
  rf_name :: string
  rf_data :: string
  rf_encoding :: string
  rf_mime_type :: string
  rf_strong_etag :: string

type_synonym resource_set = "(string, resource_file) smap"

definition ResourceFileSet :: "resource_file list \<Rightarrow> resource_set" where
  "ResourceFileSet init_list = fold (\<lambda>f. smap_assign (rf_name f) f) init_list []"

definition FindFile :: "resource_set \<Rightarrow> string \<Rightarrow> resource_file option" where
  "FindFile files path =
     (let real_path = (if path \<noteq> [] \<and> hd path = CHR ''/'' then tl path else path) in smap_find real_path files)"

definition RespondWithResource_at :: "resource_set \<Rightarrow> string \<Rightarrow> connection \<Rightarrow> (connection \<times> bool) res" where
  "RespondWithResource_at resources resource_path c =
     bind_res (live_request c) (\<lambda>rq.
     case FindFile resources resource_path of
       None \<Rightarrow> Inr (c, False)
     | Some file \<Rightarrow>
         bind_res
          (if rq_method rq = ''GET'' \<or> rq_method rq = ''HEAD'' then
             bind_res (GetHeader ''If-None-Match'' c) (\<lambda>etag.
               respond ([SetHeader_ContentType (rf_mime_type file), SetHeader ''Content-Encoding'' (rf_encoding file),
                   SetHeader ''ETag'' (rf_strong_etag file), SetHeader ''Cache-Control'' ''public, max-age=3600'']
                 @ (if etag = rf_strong_etag file then [SetResponse 304]
                    else [SetResponse 200] @ (if rq_method rq = ''GET'' then [SetContent (rf_data file)] else []))) c)
           else RespondWithMethodNotAllowedError ''GET HEAD'' c)
          (\<lambda>c. Inr (c, True)))"

definition RespondWithResource :: "resource_set \<Rightarrow> connection \<Rightarrow> (connection \<times> bool) res" where
  "RespondWithResource resources c = bind_res (GetResource c) (\<lambda>path. RespondWithResource_at resources path c)"

definition RespondWithResourceOrNotFoundError_at :: "resource_set \<Rightarrow> string \<Rightarrow> connection \<Rightarrow> connection res" where
  "RespondWithResourceOrNotFoundError_at resources resource_path c =
     bind_res (RespondWithResource_at resources resource_path c) (\<lambda>(c, found).
       if \<not> found then RespondWithNotFoundError c else Inr c)"

definition RespondWithResourceOrNotFoundError :: "resource_set \<Rightarrow> connection \<Rightarrow> connection res" where
  "RespondWithResourceOrNotFoundError resources c =
     bind_res (RespondWithResource resources c) (\<lambda>(c, found). if \<not> found then RespondWithNotFoundError c else Inr c)"

text \<open>The check before a request becomes a web socket.\<close>

definition CheckIsWebSocketUpgradeOrRespondWithError :: "string \<Rightarrow> connection \<Rightarrow> (connection \<times> bool) res" where
  "CheckIsWebSocketUpgradeOrRespondWithError protocol c =
     bind_res (live_request c) (\<lambda>rq.
     let bad = (\<lambda>err. bind_res (RespondWithBadRequestError err c) (\<lambda>c. Inr (c, False)))
     in if \<not> rq_is_upgrade rq then bad ''WebSocket Upgrade request expected''
        else case header_find ''Sec-WebSocket-Protocol'' (rq_headers rq) of
            None \<Rightarrow> bad ''WebSocket \"Sec-WebSocket-Protocol\" header expected''
          | Some v \<Rightarrow>
              if protocol \<noteq> v then
                bad (Format ''Only supports \"Sec-WebSocket-Protocol\" header \"%s\"'' [ArgStr protocol])
              else Inr (c, True))"

end
