(* ===== verification/HttpConnection.thy ===== *)
theory HttpConnection
  imports Http
begin

section \<open>The life of an HTTP connection\<close>

text \<open>
  A connection and the request on it, driven by the library, which calls the handlers of the
  reads and writes, and by the client, which answers the request at once or later, upgrades
  the connection to a web socket, or drops the request.
\<close>

subsection \<open>Events\<close>

datatype http_action =
    ActNotFound
  | ActBadRequest string
  | ActRedirect string
  | ActServerError string
  | ActMethodNotAllowed string
  | ActResource resource_set
  | ActResourceAt resource_set string
  | ActResourceOrNotFound resource_set
  | ActResourceOrNotFoundAt resource_set string
  | ActSend nat string string
  | ActCheckUpgrade string
  | ActUpgrade

text \<open>The part of \<open>ServerWebSocket::Upgrade\<close> and of the \<open>WebSocketConnection\<close> constructor that touches the request.\<close>

definition Upgrade_request :: "connection \<Rightarrow> connection res" where
  "Upgrade_request c = (case cn_current c of
       None \<Rightarrow> Inl (AssertFailed ''IsUpgrade(request)'')
     | Some p \<Rightarrow>
         if \<not> rq_is_upgrade (pi_request p) then Inl (AssertFailed ''IsUpgrade(request)'')
         else bind_res (NotifyUpgradedToWebSocket c) (\<lambda>c. Inr (SetHandled c)))"

fun do_http_action :: "http_action \<Rightarrow> connection \<Rightarrow> connection res" where
  "do_http_action ActNotFound c = RespondWithNotFoundError c"
| "do_http_action (ActBadRequest e) c = RespondWithBadRequestError e c"
| "do_http_action (ActRedirect l) c = RespondWithTemporaryRedirect l c"
| "do_http_action (ActServerError m) c = RespondWithServerError m c"
| "do_http_action (ActMethodNotAllowed m) c = RespondWithMethodNotAllowedError m c"
| "do_http_action (ActResource fs) c = bind_res (RespondWithResource fs c) (\<lambda>(c, _). Inr c)"
| "do_http_action (ActResourceAt fs p) c = bind_res (RespondWithResource_at fs p c) (\<lambda>(c, _). Inr c)"
| "do_http_action (ActResourceOrNotFound fs) c = RespondWithResourceOrNotFoundError fs c"
| "do_http_action (ActResourceOrNotFoundAt fs p) c = RespondWithResourceOrNotFoundError_at fs p c"
| "do_http_action (ActSend status type content) c =
     respond [SetResponse status, SetHeader_ContentType type, SetContent content] c"
| "do_http_action (ActCheckUpgrade protocol) c =
     bind_res (CheckIsWebSocketUpgradeOrRespondWithError protocol c) (\<lambda>(c, _). Inr c)"
| "do_http_action ActUpgrade c = Upgrade_request c"

datatype connection_event =
    ReadDone "http_request option"
  | WriteDone bool bool
  | Act http_action
  | DropRequest

fun do_connection :: "connection_event \<Rightarrow> connection \<Rightarrow> connection res" where
  "do_connection (ReadDone received) c = Connection_OnRead received (c\<lparr>cn_reads := cn_reads c - 1\<rparr>)"
| "do_connection (WriteDone ec close) c = Connection_OnWrite ec close (c\<lparr>cn_writes := cn_writes c - 1\<rparr>)"
| "do_connection (Act a) c = do_http_action a c"
| "do_connection DropRequest c = Pimpl_destroy c"

fun connection_allowed :: "connection_event \<Rightarrow> connection \<Rightarrow> bool" where
  "connection_allowed (ReadDone _) c \<longleftrightarrow> 0 < cn_reads c"
| "connection_allowed (WriteDone _ _) c \<longleftrightarrow> 0 < cn_writes c"
| "connection_allowed (Act a) c \<longleftrightarrow> (case cn_current c of None \<Rightarrow> False
     | Some p \<Rightarrow> \<not> pi_handled p \<and> (a = ActUpgrade \<longrightarrow> rq_is_upgrade (pi_request p)))"
| "connection_allowed DropRequest c \<longleftrightarrow> cn_current c \<noteq> None"

inductive connection_reachable :: "string \<Rightarrow> connection \<Rightarrow> bool" for version where
  connection_init: "connection_reachable version (Connection version)"
| connection_step: "connection_reachable version c \<Longrightarrow> connection_allowed e c \<Longrightarrow> do_connection e c = Inr c' \<Longrightarrow>
     connection_reachable version c'"

subsection \<open>The invariant\<close>

datatype phase = Reading | Handling | Sending | Closed

text \<open>What the fields say in each phase.\<close>

definition unhandled :: "connection \<Rightarrow> bool" where
  "unhandled c \<longleftrightarrow> (case cn_current c of None \<Rightarrow> False | Some p \<Rightarrow> \<not> pi_handled p)"

fun in_phase :: "phase \<Rightarrow> connection \<Rightarrow> bool" where
  "in_phase Reading c \<longleftrightarrow> cn_request_ptr c \<and> cn_response_ptr c = None \<and> \<not> cn_closed c \<and> cn_reads c = 1 \<and> cn_writes c = 0 \<and> \<not> unhandled c"
| "in_phase Handling c \<longleftrightarrow> \<not> cn_request_ptr c \<and> cn_response_ptr c = None \<and> \<not> cn_closed c \<and> cn_reads c = 0 \<and> cn_writes c = 0 \<and> unhandled c"
| "in_phase Sending c \<longleftrightarrow> \<not> cn_request_ptr c \<and> cn_response_ptr c \<noteq> None \<and> \<not> cn_closed c \<and> cn_reads c = 0 \<and> cn_writes c = 1 \<and> \<not> unhandled c"
| "in_phase Closed c \<longleftrightarrow> \<not> cn_request_ptr c \<and> cn_response_ptr c = None \<and> cn_closed c \<and> cn_reads c = 0 \<and> cn_writes c = 0 \<and> \<not> unhandled c"

text \<open>Every response answers the request at the same place: its version and its keep-alive are the request's.\<close>

definition answers :: "http_response \<Rightarrow> http_request \<Rightarrow> bool" where
  "answers rs rq \<longleftrightarrow> rs_version rs = rq_version rq \<and> rs_keep_alive rs = rq_keep_alive rq"

definition connection_ok :: "connection \<Rightarrow> bool" where
  "connection_ok c \<longleftrightarrow> (\<exists>ph. in_phase ph c)
     \<and> cn_closed_notified c = (if cn_closed c then 1 else 0) \<and> (cn_upgraded c \<longrightarrow> cn_closed c)
     \<and> list_all2 answers (cn_sent c) (take (length (cn_sent c)) (cn_requests c))
     \<and> length (cn_requests c) = length (cn_sent c) + (if unhandled c then 1 else 0) + (if cn_upgraded c then 1 else 0)
     \<and> (unhandled c \<longrightarrow> last (cn_requests c) = pi_request (the (cn_current c)))"

lemma connection_ok_init: "connection_ok (Connection v)"
  unfolding connection_ok_def by (auto simp: Connection_def unhandled_def intro: exI [of _ Reading])

subsection \<open>Responding\<close>

definition keeps_message :: "(response_object \<Rightarrow> response_object res) \<Rightarrow> bool" where
  "keeps_message f \<longleftrightarrow> (\<forall>m. \<exists>m'. f (Some m) = Inr (Some m') \<and> rs_version m' = rs_version m \<and> rs_keep_alive m' = rs_keep_alive m)"

lemma keeps_setters [simp]:
  "keeps_message (SetResponse n)" "keeps_message (SetHeader h v)" "keeps_message (SetContent s)"
  "keeps_message SetHeader_NoCache" "keeps_message (SetHeader_ContentType s)"
  by (simp_all add: keeps_message_def SetResponse_def SetHeader_def SetContent_def SetHeader_NoCache_def
      SetHeader_ContentType_def change_response_def)

lemma setters_keep:
  "list_all keeps_message fs \<Longrightarrow>
   \<exists>m'. fold_res (\<lambda>f. f) fs (Some m) = Inr (Some m') \<and> rs_version m' = rs_version m \<and> rs_keep_alive m' = rs_keep_alive m"
proof (induction fs arbitrary: m)
  case Nil
  then show ?case by simp
next
  case (Cons f fs)
  obtain m1 where "f (Some m) = Inr (Some m1)" "rs_version m1 = rs_version m" "rs_keep_alive m1 = rs_keep_alive m"
    using Cons.prems by (auto simp: keeps_message_def)
  moreover obtain m' where "fold_res (\<lambda>f. f) fs (Some m1) = Inr (Some m')" "rs_version m' = rs_version m1" "rs_keep_alive m' = rs_keep_alive m1"
    using Cons.IH [of m1] Cons.prems by auto
  ultimately show ?case
    by simp
qed

text \<open>A connection that handles a request, and the ways to go on from there.\<close>

definition sent :: "http_response \<Rightarrow> connection \<Rightarrow> connection" where
  "sent m c = (SetHandled c)\<lparr>cn_response_ptr := Some m, cn_writes := cn_writes c + 1, cn_sent := cn_sent c @ [m]\<rparr>"

lemma respond_sent:
  assumes "in_phase Handling c" "list_all keeps_message fs"
  shows "\<exists>m. respond fs c = Inr (sent m c) \<and> answers m (pi_request (the (cn_current c)))"
proof -
  obtain p where p: "cn_current c = Some p" "\<not> pi_handled p"
    using assms(1) by (auto simp: unhandled_def split: option.splits)
  let ?m = "\<lparr>rs_status = 500, rs_version = rq_version (pi_request p), rs_keep_alive = rq_keep_alive (pi_request p),
         rs_headers = header_set ''Server'' (cn_version_string c) [], rs_body = []\<rparr>"
  obtain m where m: "fold_res (\<lambda>f. f) fs (Some ?m) = Inr (Some m)" "answers m (pi_request p)"
    using setters_keep [OF assms(2), of ?m] by (auto simp: answers_def)
  have "respond fs c = Inr (sent m c)"
    using assms(1) p m(1)
    by (simp add: respond_def live_request_def Response_def Response_Send_def Connection_Send_def idle_checks_def sent_def SetHandled_def)
  then show ?thesis
    using m(2) p(1) by auto
qed

definition action_result :: "connection \<Rightarrow> connection res \<Rightarrow> bool" where
  "action_result c r \<longleftrightarrow> r = Inr c \<or> (\<exists>m. r = Inr (sent m c) \<and> answers m (pi_request (the (cn_current c))))
     \<or> r = Inr (SetHandled ((notify_closed c)\<lparr>cn_upgraded := True\<rparr>))"

lemma respond_result: "in_phase Handling c \<Longrightarrow> list_all keeps_message fs \<Longrightarrow> action_result c (respond fs c)"
  using respond_sent by (auto simp: action_result_def)

definition answered :: "connection \<Rightarrow> connection res \<Rightarrow> bool" where
  "answered c r \<longleftrightarrow> (\<exists>m. r = Inr (sent m c) \<and> answers m (pi_request (the (cn_current c))))"

lemma respond_answered: "in_phase Handling c \<Longrightarrow> list_all keeps_message fs \<Longrightarrow> answered c (respond fs c)"
  using respond_sent by (auto simp: answered_def)

lemma RespondWith_answered:
  assumes "in_phase Handling c"
  shows "answered c (RespondWithNotFoundError c)" "answered c (RespondWithBadRequestError e c)"
    "answered c (RespondWithTemporaryRedirect e c)" "answered c (RespondWithServerError e c)"
    "answered c (RespondWithMethodNotAllowedError e c)"
  by (simp_all add: RespondWithNotFoundError_def RespondWithBadRequestError_def RespondWithTemporaryRedirect_def
      RespondWithServerError_def RespondWithMethodNotAllowedError_def respond_answered [OF assms])

lemma live_request_Handling:
  "in_phase Handling c \<Longrightarrow> live_request c = Inr (pi_request (the (cn_current c)))"
  by (auto simp: live_request_def unhandled_def split: option.splits)

text \<open>A lookup in the resources either leaves the request alone or answers it.\<close>

lemma RespondWithResource_at_missing:
  "in_phase Handling c \<Longrightarrow> FindFile fs path = None \<Longrightarrow> RespondWithResource_at fs path c = Inr (c, False)"
  by (simp add: RespondWithResource_at_def live_request_Handling del: in_phase.simps)

lemma RespondWithResource_at_found:
  assumes "in_phase Handling c" "FindFile fs path = Some file"
  shows "\<exists>m. RespondWithResource_at fs path c = Inr (sent m c, True) \<and> answers m (pi_request (the (cn_current c)))"
proof -
  let ?rq = "pi_request (the (cn_current c))"
  define gs where "gs etag = [SetHeader_ContentType (rf_mime_type file), SetHeader ''Content-Encoding'' (rf_encoding file),
       SetHeader ''ETag'' (rf_strong_etag file), SetHeader ''Cache-Control'' ''public, max-age=3600'']
     @ (if etag = rf_strong_etag file then [SetResponse 304]
        else [SetResponse 200] @ (if rq_method ?rq = ''GET'' then [SetContent (rf_data file)] else []))" for etag
  obtain etag where etag: "GetHeader ''If-None-Match'' c = Inr etag"
    by (simp add: GetHeader_def live_request_Handling [OF assms(1)])
  have "list_all keeps_message (gs etag)"
    by (simp add: gs_def)
  from respond_answered [OF assms(1) this] RespondWith_answered(5) [OF assms(1), of "''GET HEAD''"] show ?thesis
    by (auto simp: RespondWithResource_at_def live_request_Handling [OF assms(1)] assms(2) etag gs_def answered_def)
qed

lemma GetResource_Handling: "in_phase Handling c \<Longrightarrow> \<exists>path. GetResource c = Inr path"
  by (simp add: GetResource_def live_request_Handling del: in_phase.simps)

lemma CheckIsWebSocketUpgrade_Handling:
  assumes "in_phase Handling c"
  shows "\<exists>c' b. CheckIsWebSocketUpgradeOrRespondWithError protocol c = Inr (c', b)
    \<and> (c' = c \<and> b \<or> answered c (Inr c') \<and> \<not> b)"
proof -
  have "\<exists>c'. RespondWithBadRequestError e c = Inr c' \<and> answered c (Inr c')" for e
    using RespondWith_answered(2) [OF assms, of e] by (auto simp: answered_def)
  then obtain g where g: "\<And>e. RespondWithBadRequestError e c = Inr (g e)" "\<And>e. answered c (Inr (g e))"
    by metis
  show ?thesis
    unfolding CheckIsWebSocketUpgradeOrRespondWithError_def live_request_Handling [OF assms]
    by (cases "header_find ''Sec-WebSocket-Protocol'' (rq_headers (pi_request (the (cn_current c))))") (auto simp: g Let_def)
qed

lemma do_http_action_ok:
  assumes "in_phase Handling c" "connection_allowed (Act a) c"
  shows "\<exists>c'. do_http_action a c = Inr c' \<and> (c' = c \<or> answered c (Inr c')
    \<or> c' = SetHandled ((notify_closed c)\<lparr>cn_upgraded := True\<rparr>))"
proof -
  note ans = RespondWith_answered [OF assms(1)]
  have found: "\<exists>c' b. RespondWithResource_at fs path c = Inr (c', b) \<and> (c' = c \<and> \<not> b \<or> answered c (Inr c') \<and> b)" for fs path
    using RespondWithResource_at_missing [OF assms(1)] RespondWithResource_at_found [OF assms(1)]
    by (cases "FindFile fs path") (fastforce simp: answered_def)+
  obtain path where path: "GetResource c = Inr path"
    using GetResource_Handling [OF assms(1)] by blast
  show ?thesis
  proof (cases a)
    case (ActResource fs)
    then show ?thesis
      using found [of fs path] path by (auto simp: RespondWithResource_def)
  next
    case (ActResourceAt fs p)
    then show ?thesis
      using found [of fs p] by auto
  next
    case (ActResourceOrNotFound fs)
    then show ?thesis
      using found [of fs path] path ans(1) by (auto simp: RespondWithResourceOrNotFoundError_def RespondWithResource_def answered_def)
  next
    case (ActResourceOrNotFoundAt fs p)
    then show ?thesis
      using found [of fs p] ans(1) by (auto simp: RespondWithResourceOrNotFoundError_at_def answered_def)
  next
    case (ActSend status type content)
    then show ?thesis
      using respond_answered [OF assms(1), of "[SetResponse status, SetHeader_ContentType type, SetContent content]"]
      by (auto simp: answered_def)
  next
    case (ActCheckUpgrade protocol)
    then show ?thesis
      using CheckIsWebSocketUpgrade_Handling [OF assms(1), of protocol] by auto
  next
    case ActUpgrade
    then show ?thesis
      using assms by (auto simp: Upgrade_request_def NotifyUpgradedToWebSocket_def idle_checks_def split: option.splits)
  next
    case ActNotFound
    then show ?thesis using ans(1) by (auto simp: answered_def)
  next
    case (ActBadRequest e)
    then show ?thesis using ans(2) [of e] by (auto simp: answered_def)
  next
    case (ActRedirect l)
    then show ?thesis using ans(3) [of l] by (auto simp: answered_def)
  next
    case (ActServerError m)
    then show ?thesis using ans(4) [of m] by (auto simp: answered_def)
  next
    case (ActMethodNotAllowed m)
    then show ?thesis using ans(5) [of m] by (auto simp: answered_def)
  qed
qed

subsection \<open>Every event\<close>

lemma phases_unhandled: "in_phase ph c \<Longrightarrow> unhandled c \<longleftrightarrow> ph = Handling"
  by (cases ph) auto

lemma Handling_ok:
  assumes "in_phase Handling c" "connection_ok c"
  shows "\<not> cn_upgraded c" "cn_closed_notified c = 0"
    "cn_requests c = take (length (cn_sent c)) (cn_requests c) @ [pi_request (the (cn_current c))]"
proof -
  show up: "\<not> cn_upgraded c" "cn_closed_notified c = 0"
    using assms by (auto simp: connection_ok_def)
  have "length (cn_requests c) = length (cn_sent c) + 1" "last (cn_requests c) = pi_request (the (cn_current c))"
    using assms up by (auto simp: connection_ok_def)
  then show "cn_requests c = take (length (cn_sent c)) (cn_requests c) @ [pi_request (the (cn_current c))]"
    by (metis append_butlast_last_id butlast_conv_take diff_add_inverse2 length_0_conv add_eq_0_iff_both_eq_0 zero_neq_one)
qed

lemma unhandled_SetHandled [simp]: "\<not> unhandled (SetHandled c)"
  by (auto simp: unhandled_def SetHandled_def split: option.split)

lemma sent_ok:
  assumes "in_phase Handling c" "connection_ok c" "answers m (pi_request (the (cn_current c)))"
  shows "in_phase Sending (sent m c)" "connection_ok (sent m c)"
proof -
  have "\<not> unhandled (sent m c)"
    by (auto simp: unhandled_def sent_def SetHandled_def split: option.split)
  then show ph: "in_phase Sending (sent m c)"
    using assms(1) by (simp add: sent_def SetHandled_def)
  note h = Handling_ok [OF assms(1,2)]
  have len: "length (cn_requests c) = length (cn_sent c) + 1"
    using assms by (auto simp: connection_ok_def)
  have "list_all2 answers (cn_sent c @ [m]) (cn_requests c)"
    using assms(2,3) by (subst h(3)) (auto simp: connection_ok_def intro: list_all2_appendI)
  then show "connection_ok (sent m c)"
    using ph h(1,2) len \<open>\<not> unhandled (sent m c)\<close> assms(1)
    unfolding connection_ok_def by (auto simp: sent_def SetHandled_def intro: exI [of _ Sending])
qed

lemma upgraded_ok:
  assumes "in_phase Handling c" "connection_ok c"
  shows "connection_ok (SetHandled ((notify_closed c)\<lparr>cn_upgraded := True\<rparr>))"
proof -
  let ?c = "SetHandled ((notify_closed c)\<lparr>cn_upgraded := True\<rparr>)"
  have "\<not> unhandled ?c"
    by simp
  moreover from this have "in_phase Closed ?c"
    using assms(1) by (simp add: SetHandled_def notify_closed_def)
  ultimately show ?thesis
    using assms Handling_ok [OF assms] unfolding connection_ok_def
    by (auto simp: SetHandled_def notify_closed_def intro: exI [of _ Closed])
qed

lemma Act_ok:
  assumes "connection_ok c" "connection_allowed (Act a) c"
  shows "\<exists>c'. do_connection (Act a) c = Inr c' \<and> connection_ok c'"
proof -
  have "unhandled c"
    using assms(2) by (simp add: unhandled_def split: option.splits)
  then have ph: "in_phase Handling c"
    using assms(1) phases_unhandled unfolding connection_ok_def by blast
  show ?thesis
    using do_http_action_ok [OF ph assms(2)] sent_ok [OF ph assms(1)] upgraded_ok [OF ph assms(1)] assms(1)
    by (auto simp: answered_def)
qed

lemma DropRequest_ok:
  assumes "connection_ok c" "connection_allowed DropRequest c"
  shows "\<exists>c'. do_connection DropRequest c = Inr c' \<and> connection_ok c' \<and> cn_current c' = None"
proof (cases "unhandled c")
  case False
  then have "do_connection DropRequest c = Inr (c\<lparr>cn_current := None\<rparr>)"
    using assms(2) by (auto simp: Pimpl_destroy_def unhandled_def split: option.splits)
  moreover obtain ph where "in_phase ph c"
    using assms(1) by (auto simp: connection_ok_def)
  then have "in_phase ph (c\<lparr>cn_current := None\<rparr>)"
    using False by (cases ph) (auto simp: unhandled_def)
  ultimately show ?thesis
    using assms(1) False unfolding connection_ok_def by (auto simp: unhandled_def)
next
  case True
  then have ph: "in_phase Handling c"
    using assms(1) phases_unhandled unfolding connection_ok_def by blast
  obtain p where p: "cn_current c = Some p" "\<not> pi_handled p"
    using True by (auto simp: unhandled_def split: option.splits)
  let ?m = "\<lparr>rs_status = 404, rs_version = rq_version (pi_request p), rs_keep_alive = rq_keep_alive (pi_request p),
               rs_headers = header_set ''Content-Type'' ''text/plain'' (header_set ''Server'' (cn_version_string c) []),
               rs_body = ''404 Not Found''\<rparr>"
  have "do_connection DropRequest c = Inr ((sent ?m c)\<lparr>cn_current := None\<rparr>)"
    using ph p by (simp add: Pimpl_destroy_def Connection_Send_def idle_checks_def sent_def SetHandled_def)
  moreover have "in_phase Sending (sent ?m c)" "connection_ok (sent ?m c)"
    using sent_ok [OF ph assms(1)] p by (simp_all add: answers_def)
  then have "connection_ok ((sent ?m c)\<lparr>cn_current := None\<rparr>)"
    unfolding connection_ok_def by (auto simp: unhandled_def intro: exI [of _ Sending])
  ultimately show ?thesis
    by simp
qed

lemma ReadDone_ok:
  assumes "connection_ok c" "connection_allowed (ReadDone received) c"
  shows "\<exists>c'. do_connection (ReadDone received) c = Inr c' \<and> connection_ok c'"
proof -
  have ph: "in_phase Reading c"
    using assms unfolding connection_ok_def by (auto elim: in_phase.elims)
  then have "length (cn_requests c) = length (cn_sent c)" "\<not> cn_upgraded c"
    using assms(1) by (auto simp: connection_ok_def)
  then show ?thesis
    using ph assms(1) unfolding connection_ok_def
    by (cases received) (auto simp: Connection_OnRead_def notify_closed_def unhandled_def intro: exI [of _ Closed] exI [of _ Handling])
qed

lemma WriteDone_ok:
  assumes "connection_ok c" "connection_allowed (WriteDone ec close) c"
  shows "\<exists>c'. do_connection (WriteDone ec close) c = Inr c' \<and> connection_ok c'"
proof -
  have ph: "in_phase Sending c"
    using assms unfolding connection_ok_def by (auto elim: in_phase.elims)
  then show ?thesis
    using assms(1) unfolding connection_ok_def
    by (auto simp: Connection_OnWrite_def notify_closed_def unhandled_def Let_def intro: exI [of _ Closed] exI [of _ Reading])
qed

lemma connection_event_ok:
  "connection_ok c \<Longrightarrow> connection_allowed e c \<Longrightarrow> \<exists>c'. do_connection e c = Inr c' \<and> connection_ok c'"
  using ReadDone_ok WriteDone_ok Act_ok DropRequest_ok by (cases e) blast+

lemma connection_reachable_ok: "connection_reachable v c \<Longrightarrow> connection_ok c"
  by (induction rule: connection_reachable.induct) (use connection_ok_init connection_event_ok in fastforce)+

subsection \<open>Properties\<close>

text \<open>
  C13: An HTTP connection answers every request exactly once and in order, whatever its client
  does with the requests (answer at once or later, from resource files, with an error, with an
  upgrade to a web socket, or not at all) and whatever the library reports: no assertion of
  \<open>Connection.cpp\<close>, \<open>Response.cpp\<close> or \<open>Request.cpp\<close> fails; the n-th response carries the version
  and keep-alive of the n-th request; every request is answered, upgraded, or the one being
  handled; at any time the connection either reads, handles a request, writes or is closed; and
  the server is told once when it closes, never while a request could still use the connection.
\<close>

theorem HttpConnection_answers:
  assumes "connection_reachable v c" "connection_allowed e c"
  shows "\<exists>c'. do_connection e c = Inr c'
    \<and> list_all2 answers (cn_sent c') (take (length (cn_sent c')) (cn_requests c'))
    \<and> length (cn_requests c') = length (cn_sent c') + (if unhandled c' then 1 else 0) + (if cn_upgraded c' then 1 else 0)
    \<and> cn_reads c' + cn_writes c' + (if unhandled c' then 1 else 0) + (if cn_closed c' then 1 else 0) = 1
    \<and> cn_closed_notified c' = (if cn_closed c' then 1 else 0)"
proof -
  obtain c' where c': "do_connection e c = Inr c'" "connection_ok c'"
    using connection_event_ok [OF connection_reachable_ok [OF assms(1)] assms(2)] by blast
  from c'(2) obtain ph where "in_phase ph c'"
    by (auto simp: connection_ok_def)
  then have "cn_reads c' + cn_writes c' + (if unhandled c' then 1 else 0) + (if cn_closed c' then 1 else 0) = 1"
    by (cases ph) auto
  then show ?thesis
    using c' unfolding connection_ok_def by blast
qed

definition example_request :: http_request where
  "example_request = \<lparr>rq_method = ''GET'', rq_target = ''/a.txt?x'', rq_version = 11, rq_keep_alive = True,
     rq_headers = [(''if-none-match'', ''t'')], rq_body = [], rq_is_upgrade = False\<rparr>"

definition example_connection :: connection where
  "example_connection = \<lparr>cn_version_string = ''Beast'', cn_request_ptr = False, cn_response_ptr = None, cn_request_count = 1,
     cn_closed = False, cn_current = Some \<lparr>pi_request = example_request, pi_handled = False\<rparr>, cn_reads = 0, cn_writes = 0,
     cn_requests = [example_request], cn_sent = [], cn_upgraded = False, cn_closed_notified = 0\<rparr>"

lemma example_connection_reachable: "connection_reachable ''Beast'' example_connection"
  using connection_step [OF connection_init, of "ReadDone (Some example_request)" "''Beast''" example_connection]
  by (simp add: Connection_def Connection_OnRead_def example_connection_def check_def)

theorem HttpConnection_answers_witness:
  "\<exists>c'. do_connection DropRequest example_connection = Inr c' \<and> map rs_status (cn_sent c') = [404] \<and> cn_writes c' = 1"
  using HttpConnection_answers [OF example_connection_reachable, of DropRequest]
  by (auto simp: example_connection_def Pimpl_destroy_def Connection_Send_def idle_checks_def check_def unhandled_def)

text \<open>The path of a request ends at its query or fragment, whichever comes first.\<close>

lemma cut_at_takeWhile: "cut_at ch s = takeWhile (\<lambda>c. c \<noteq> ch) s"
proof -
  have "take (length (takeWhile (\<lambda>c. c \<noteq> ch) s)) s = takeWhile (\<lambda>c. c \<noteq> ch) s"
    by (metis takeWhile_eq_take)
  then show ?thesis
    by (auto simp: cut_at_def find_first_def Let_def)
qed

lemma takeWhile_takeWhile: "takeWhile P (takeWhile Q s) = takeWhile (\<lambda>c. Q c \<and> P c) s"
  by (induction s) auto

text \<open>
  Serving a file. The path that is looked up is the target up to its query or fragment,
  without a leading slash; a path that names no file leaves the request unanswered for the
  caller, and a path that does is answered with 405 unless the method is GET or HEAD, with 304
  and no body if the client has the current version, with 200 and the file's contents for
  GET, and without them for HEAD.
\<close>

theorem RespondWithResource_spec:
  assumes "connection_reachable v c" "cn_current c = Some p" "\<not> pi_handled p"
    and "path = takeWhile (\<lambda>ch. ch \<noteq> CHR ''#'' \<and> ch \<noteq> CHR ''?'') (rq_target (pi_request p))"
    and "name = (if path \<noteq> [] \<and> hd path = CHR ''/'' then tl path else path)"
    and "etag = (case header_find ''If-None-Match'' (rq_headers (pi_request p)) of None \<Rightarrow> [] | Some t \<Rightarrow> t)"
  shows "case smap_find name fs of
      None \<Rightarrow> RespondWithResource fs c = Inr (c, False)
    | Some file \<Rightarrow> (\<exists>c' m. RespondWithResource fs c = Inr (c', True) \<and> cn_sent c' = cn_sent c @ [m]
        \<and> (rs_status m, rs_body m) =
            (if rq_method (pi_request p) \<noteq> ''GET'' \<and> rq_method (pi_request p) \<noteq> ''HEAD''
             then (405, ''405 Method Not Allowed: Allowed methods - \"GET HEAD\"'')
             else if etag = rf_strong_etag file then (304, [])
             else (200, if rq_method (pi_request p) = ''GET'' then rf_data file else [])))"
proof -
  have "unhandled c"
    using assms(2,3) by (simp add: unhandled_def)
  then have ph: "in_phase Handling c"
    using connection_reachable_ok [OF assms(1)] phases_unhandled unfolding connection_ok_def by blast
  have live: "live_request c = Inr (pi_request p)"
    using live_request_Handling [OF ph] assms(2) by simp
  have path: "GetResource c = Inr path"
    using assms(4) by (simp add: GetResource_def live target_path_def cut_at_takeWhile takeWhile_takeWhile)
  have find: "FindFile fs path = smap_find name fs"
    using assms(5) by (simp add: FindFile_def)
  have etag: "GetHeader ''If-None-Match'' c = Inr etag"
    using assms(6) by (simp add: GetHeader_def live)
  have format: "Format ''405 Method Not Allowed: Allowed methods - \"%s\"'' [ArgStr ''GET HEAD'']
      = ''405 Method Not Allowed: Allowed methods - \"GET HEAD\"''"
    by (simp add: format_eval)
  show ?thesis
  proof (cases "smap_find name fs")
    case None
    then show ?thesis
      using RespondWithResource_at_missing [OF ph] find by (simp add: RespondWithResource_def path)
  next
    case (Some f)
    then show ?thesis
      using ph assms(2,3)
      by (simp add: RespondWithResource_def path RespondWithResource_at_def live find etag RespondWithMethodNotAllowedError_def
          respond_def Response_def Response_Send_def Connection_Send_def idle_checks_def SetHandled_def
          SetResponse_def SetHeader_def SetContent_def SetHeader_NoCache_def SetHeader_ContentType_def change_response_def format)
  qed
qed

theorem RespondWithResource_spec_witness:
  "\<exists>c' m. RespondWithResource [(''a.txt'', \<lparr>rf_name = ''a.txt'', rf_data = ''hello'', rf_encoding = ''identity'',
       rf_mime_type = ''text/plain'', rf_strong_etag = ''t''\<rparr>)] example_connection = Inr (c', True)
     \<and> cn_sent c' = [m] \<and> rs_status m = 304 \<and> rs_body m = []"
proof -
  let ?files = "[(''a.txt'', \<lparr>rf_name = ''a.txt'', rf_data = ''hello'', rf_encoding = ''identity'',
       rf_mime_type = ''text/plain'', rf_strong_etag = ''t''\<rparr>)]"
  let ?p = "\<lparr>pi_request = example_request, pi_handled = False\<rparr>"
  have p: "cn_current example_connection = Some ?p" "\<not> pi_handled ?p"
    by (simp_all add: example_connection_def)
  have path: "''/a.txt'' = takeWhile (\<lambda>ch. ch \<noteq> CHR ''#'' \<and> ch \<noteq> CHR ''?'') (rq_target (pi_request ?p))"
    by (simp add: example_request_def)
  have etag: "''t'' = (case header_find ''If-None-Match'' (rq_headers (pi_request ?p)) of None \<Rightarrow> [] | Some t \<Rightarrow> t)"
    by (simp add: example_request_def header_find_def same_field_def ascii_lower_def char_of_def bit_0)
  have "rq_method (pi_request ?p) = ''GET''" "cn_sent example_connection = []"
    by (simp_all add: example_request_def example_connection_def)
  then show ?thesis
    using RespondWithResource_spec [OF example_connection_reachable p path refl etag, of ?files] by simp
qed

end
