(* ===== verification/TextNum.thy ===== *)
theory TextNum
  imports Format
begin

section \<open>Numbers as text\<close>

text \<open>
  \<open>BBoxUtils/bbox/ToString.h\<close> and \<open>FromString.h\<close>: how the program prints integers and
  truth values and reads them back. \<open>FromString\<close> relies on \<open>std::stoll\<close> and
  \<open>std::stoull\<close> with their default base 10, which are modelled with the index of the
  first character they did not use; an exception they throw is caught by \<open>FromString\<close>,
  so it is the result \<open>None\<close>.
\<close>

definition ToString_bool :: "bool \<Rightarrow> string" where
  "ToString_bool value = (if value then ''true'' else ''false'')"

definition ToString_signed :: "nat \<Rightarrow> int \<Rightarrow> string" where
  "ToString_signed w val = os_text (os_insert (show_signed ostream_init w val) ostream_init)"

definition ToString_unsigned :: "nat \<Rightarrow> string" where
  "ToString_unsigned val = os_text (os_insert (show_base ostream_init val) ostream_init)"

subsection \<open>The conversions of the standard library\<close>

definition is_space :: "char \<Rightarrow> bool" where
  "is_space c \<longleftrightarrow> c = CHR '' '' \<or> (9 \<le> (of_char c :: nat) \<and> (of_char c :: nat) \<le> 13)"

fun skip_spaces :: "string \<Rightarrow> string" where
  "skip_spaces [] = []"
| "skip_spaces (c # s) = (if is_space c then skip_spaces s else c # s)"

definition scan_sign :: "string \<Rightarrow> bool \<times> string" where
  "scan_sign s = (case s of
       [] \<Rightarrow> (False, [])
     | c # s' \<Rightarrow> if c = CHR ''-'' then (True, s') else if c = CHR ''+'' then (False, s') else (False, s))"

text \<open>White space, a sign and at least one digit: the sign, the number and the index.\<close>

definition scan_int :: "string \<Rightarrow> (bool \<times> nat \<times> nat) option" where
  "scan_int s =
     (let (neg, s1) = scan_sign (skip_spaces s); (n, s2) = scan_number 0 s1
      in if length s2 = length s1 then None else Some (neg, n, length s - length s2))"

definition stoll :: "string \<Rightarrow> (int \<times> nat) option" where
  "stoll s = (case scan_int s of
       None \<Rightarrow> None
     | Some (neg, n, idx) \<Rightarrow>
         let v = (if neg then - int n else int n)
         in if - (2 ^ 63) \<le> v \<and> v < 2 ^ 63 then Some (v, idx) else None)"

definition stoull :: "string \<Rightarrow> (nat \<times> nat) option" where
  "stoull s = (case scan_int s of
       None \<Rightarrow> None
     | Some (neg, n, idx) \<Rightarrow>
         if n < 2 ^ 64 then Some (if neg then (2 ^ 64 - n) mod 2 ^ 64 else n, idx) else None)"

subsection \<open>FromString\<close>

definition FromString_bool :: "string \<Rightarrow> bool option" where
  "FromString_bool str = (if str = ''true'' then Some True
     else if str = ''false'' then Some False else None)"

definition FromString_signed :: "nat \<Rightarrow> string \<Rightarrow> int option" where
  "FromString_signed w str = (case stoll str of
       None \<Rightarrow> None
     | Some (large_val, idx) \<Rightarrow>
         if idx = length str \<and> - (2 ^ (w - 1)) \<le> large_val \<and> large_val \<le> 2 ^ (w - 1) - 1
         then Some large_val else None)"

definition FromString_unsigned :: "nat \<Rightarrow> string \<Rightarrow> nat option" where
  "FromString_unsigned w str = (case stoull str of
       None \<Rightarrow> None
     | Some (large_val, idx) \<Rightarrow>
         if idx = length str \<and> 0 \<le> large_val \<and> large_val \<le> 2 ^ w - 1
         then Some large_val else None)"

subsection \<open>Printing and reading back\<close>

definition digits_to_nat :: "nat list \<Rightarrow> nat" where
  "digits_to_nat ds = foldl (\<lambda>n d. n * 10 + d) 0 ds"

lemma base_digits_small: "d \<in> set (base_digits 10 n) \<Longrightarrow> d < 10"
proof (induction n rule: less_induct)
  case (less n)
  then show ?case
    using less.IH [of "n div 10"] by (cases "n < 10") (auto simp: base_digits.simps [of 10 n])
qed

lemma base_digits_value: "digits_to_nat (base_digits 10 n) = n"
proof (induction n rule: less_induct)
  case (less n)
  show ?case
    by (subst base_digits.simps) (use less in \<open>auto simp: digits_to_nat_def\<close>)
qed

lemma base_digits_not_Nil [simp]: "base_digits b n \<noteq> []"
  by (subst base_digits.simps) simp

lemma of_digit_char: "d < 10 \<Longrightarrow> (of_char (digit_char u d) :: nat) = 48 + d"
  by (simp add: digit_char_def of_char_of)

lemma is_digit_digit_char: "d < 10 \<Longrightarrow> is_digit (digit_char u d)"
  by (simp add: is_digit_def of_digit_char)

lemma scan_number_digits:
  "\<forall>d \<in> set ds. d < 10 \<Longrightarrow>
     scan_number n (map (digit_char u) ds) = (foldl (\<lambda>n d. n * 10 + d) n ds, [])"
  by (induction ds arbitrary: n) (simp_all add: is_digit_digit_char of_digit_char)

lemma scan_number_shown: "scan_number 0 (show_base ostream_init n) = (n, [])"
  by (simp add: show_base_def ostream_init_def scan_number_digits base_digits_small
      base_digits_value [unfolded digits_to_nat_def])

lemma show_base_head:
  obtains c s where "show_base ostream_init n = c # s" "is_digit c"
proof -
  obtain d ds where ds: "base_digits 10 n = d # ds"
    by (cases "base_digits 10 n") auto
  have "d < 10"
    using base_digits_small [of d n] ds by simp
  then show thesis
    by (intro that [of "digit_char False d" "map (digit_char False) ds"])
      (simp_all add: show_base_def ostream_init_def ds is_digit_digit_char)
qed

lemma digit_not_special:
  assumes "is_digit c"
  shows "\<not> is_space c" "c \<noteq> CHR ''-''" "c \<noteq> CHR ''+''"
  using assms by (auto simp: is_digit_def is_space_def)

lemma scan_int_shown: "scan_int (show_base ostream_init n) = Some (False, n, length (show_base ostream_init n))"
proof -
  obtain c s where cs: "show_base ostream_init n = c # s" "is_digit c"
    by (rule show_base_head)
  then show ?thesis
    using scan_number_shown [of n] digit_not_special [OF cs(2)]
    by (simp add: scan_int_def scan_sign_def)
qed

lemma scan_int_shown_neg:
  "scan_int (CHR ''-'' # show_base ostream_init n) = Some (True, n, Suc (length (show_base ostream_init n)))"
proof -
  obtain c s where cs: "show_base ostream_init n = c # s" "is_digit c"
    by (rule show_base_head)
  then show ?thesis
    using scan_number_shown [of n]
    by (simp add: scan_int_def scan_sign_def is_space_def)
qed

lemma os_text_init [simp]: "os_text (os_insert s ostream_init) = s"
  by (simp add: os_insert_def os_pad_def ostream_init_def)

text \<open>The integers a type of \<open>w\<close> bits holds.\<close>

definition fits_signed :: "nat \<Rightarrow> int \<Rightarrow> bool" where
  "fits_signed w v \<longleftrightarrow> - (2 ^ (w - 1)) \<le> v \<and> v < 2 ^ (w - 1)"

lemma fits_signed_mono: "fits_signed w v \<Longrightarrow> w \<le> 64 \<Longrightarrow> - (2 ^ 63) \<le> v \<and> v < 2 ^ 63"
proof -
  assume v: "fits_signed w v" and w: "w \<le> 64"
  have "(2 :: int) ^ (w - 1) \<le> 2 ^ 63"
    by (rule power_increasing) (use w in auto)
  then show ?thesis
    using v by (simp add: fits_signed_def)
qed

text \<open>
  Every integer of a type of at most 64 bits, and every truth value, is read back by
  \<open>FromString\<close> from the text \<open>ToString\<close> makes of it.
\<close>

theorem FromString_ToString:
  assumes "w \<le> 64"
  shows "(fits_signed w i \<longrightarrow> FromString_signed w (ToString_signed w i) = Some i)
    \<and> (n < 2 ^ w \<longrightarrow> FromString_unsigned w (ToString_unsigned n) = Some n)
    \<and> FromString_bool (ToString_bool b) = Some b"
proof (intro conjI impI)
  assume i: "fits_signed w i"
  have "scan_int (show_signed ostream_init w i) = Some (i < 0, nat \<bar>i\<bar>, length (show_signed ostream_init w i))"
    by (auto simp: show_signed_def ostream_init_def [THEN arg_cong [of _ _ os_base]]
        ostream_init_def [THEN arg_cong [of _ _ os_showpos]] scan_int_shown scan_int_shown_neg)
  then have "stoll (show_signed ostream_init w i) = Some (i, length (show_signed ostream_init w i))"
    using fits_signed_mono [OF i assms] by (auto simp: stoll_def)
  then show "FromString_signed w (ToString_signed w i) = Some i"
    using i by (simp add: FromString_signed_def ToString_signed_def fits_signed_def)
next
  assume n: "n < 2 ^ w"
  have "(2 :: nat) ^ w \<le> 2 ^ 64"
    by (rule power_increasing) (use assms in auto)
  then show "FromString_unsigned w (ToString_unsigned n) = Some n"
    using n by (simp add: FromString_unsigned_def ToString_unsigned_def stoull_def scan_int_shown)
next
  show "FromString_bool (ToString_bool b) = Some b"
    by (simp add: FromString_bool_def ToString_bool_def)
qed

theorem FromString_ToString_witness:
  "FromString_signed 16 (ToString_signed 16 (- 42)) = Some (- 42)
    \<and> FromString_unsigned 16 (ToString_unsigned 200) = Some 200
    \<and> FromString_bool (ToString_bool True) = Some True"
  using FromString_ToString [of 16 "- 42" 200 True] by (simp add: fits_signed_def)

text \<open>
  Reading an unsigned integer accepts a minus sign and wraps around, so it succeeds with
  a small number on the text of a large negative one.
\<close>

theorem FromString_unsigned_wraps:
  "FromString_unsigned 8 ''-18446744073709551615'' = Some 1
   \<and> FromString_unsigned 64 ''-1'' = Some 18446744073709551615"
  by (simp add: FromString_unsigned_def stoull_def scan_int_def scan_sign_def is_space_def is_digit_def)

text \<open>A hexadecimal prefix is never accepted: the conversion stops at the letter.\<close>

lemma FromString_unsigned_0x: "FromString_unsigned w (''0x'' @ s) = None"
  by (simp add: FromString_unsigned_def stoull_def scan_int_def scan_sign_def is_space_def is_digit_def)

end
