(* ===== verification/Base16.thy ===== *)
theory Base16
  imports Format
begin

unbundle bit_operations_syntax

section \<open>bbox::Base16\<close>

text \<open>
  \<open>BBoxUtils/bbox/Base16.cpp\<close>: bytes as pairs of hexadecimal digits. A decoding operation
  gives its error, or none, and the contents of its output vector, which are partly decoded
  after an error. \<open>hex2\<close>, the two upper-case digits of a byte, is also what \<open>%02X\<close> prints.
\<close>

datatype errc = invalid_argument

subsection \<open>Two hexadecimal digits\<close>

definition hex2 :: "byte \<Rightarrow> string" where
  "hex2 b = [digit_char True (unat b div 16), digit_char True (unat b mod 16)]"

lemma unat_byte_less: "unat (b :: byte) < 256"
  using unsigned_less [of b, where 'a = nat] by simp

lemma base_digits_byte: "n < 256 \<Longrightarrow> base_digits 16 n = (if n < 16 then [n] else [n div 16, n mod 16])"
  by (subst base_digits.simps) (simp add: base_digits.simps [of 16 "n div 16"] div_less_iff_less_mult)

lemma hex_padded:
  "replicate (Suc (Suc 0) - length (base_digits 16 (unat b))) (CHR ''0'')
     @ map (digit_char True) (base_digits 16 (unat b)) = hex2 b"
  using unat_byte_less [of b] by (auto simp: hex2_def base_digits_byte)

lemma hex_padded_append:
  "replicate (Suc (Suc 0) - length (base_digits 16 (unat b))) (CHR ''0'')
     @ map (digit_char True) (base_digits 16 (unat b)) @ s = hex2 b @ s"
  by (simp add: hex_padded [symmetric])

lemma length_hex2 [simp]: "length (hex2 b) = 2"
  by (simp add: hex2_def)

lemma of_hex_char:
  "d < 16 \<Longrightarrow> (of_char (digit_char True d) :: nat) = (if d < 10 then 48 + d else 55 + d)"
  by (simp add: digit_char_def of_char_of)

lemma digit_char_inject:
  assumes "d < 16" "e < 16" "digit_char True d = digit_char True e"
  shows "d = e"
proof -
  have "(if d < 10 then 48 + d else 55 + d) = (if e < 10 then 48 + e else 55 + e)"
    using arg_cong [OF assms(3), of "of_char :: char \<Rightarrow> nat"] assms(1,2)
    by (simp only: of_hex_char)
  then show ?thesis
    by (simp split: if_splits)
qed

lemma hex2_inject: "hex2 a = hex2 b \<longleftrightarrow> a = b"
proof
  assume "hex2 a = hex2 b"
  then have "unat a div 16 = unat b div 16" "unat a mod 16 = unat b mod 16"
    using unat_byte_less [of a] unat_byte_less [of b]
    by (auto simp: hex2_def less_Suc_eq_le [symmetric] div_less_iff_less_mult intro: digit_char_inject)
  then have "unat a = unat b"
    by (metis div_mult_mod_eq)
  then show "a = b"
    by (simp add: word_unat_eq_iff)
qed simp

subsection \<open>The code\<close>

definition char_between :: "char \<Rightarrow> char \<Rightarrow> char \<Rightarrow> bool" where
  "char_between a c b \<longleftrightarrow> (of_char a :: nat) \<le> of_char c \<and> (of_char c :: nat) \<le> of_char b"

text \<open>\<open>isxdigit\<close> in the C locale.\<close>

definition is_base16 :: "char \<Rightarrow> bool" where
  "is_base16 c \<longleftrightarrow> char_between (CHR ''0'') c (CHR ''9'') \<or> char_between (CHR ''A'') c (CHR ''F'')
     \<or> char_between (CHR ''a'') c (CHR ''f'')"

definition base16_decode :: "char \<Rightarrow> byte" where
  "base16_decode c =
     (if char_between (CHR ''A'') c (CHR ''F'') then of_nat (of_char c + 10 - of_char (CHR ''A''))
      else if char_between (CHR ''a'') c (CHR ''f'') then of_nat (of_char c + 10 - of_char (CHR ''a''))
      else of_nat (of_char c) - of_nat (of_char (CHR ''0'')))"

definition base16_chars :: string where
  "base16_chars = ''0123456789ABCDEF''"

definition Base16_Encode :: "byte list \<Rightarrow> string" where
  "Base16_Encode buf =
     fold (\<lambda>buf_idx ret.
         let str_idx = 2 * buf_idx
         in ret[str_idx + 0 := base16_chars ! unat (drop_bit 4 (buf ! buf_idx) AND 0x0F),
                str_idx + 1 := base16_chars ! unat (buf ! buf_idx AND 0x0F)])
       [0..<length buf] (replicate (2 * length buf) (CHR ''0''))"

function Base16_Decode_loop :: "string \<Rightarrow> nat \<Rightarrow> byte list \<Rightarrow> errc option \<times> byte list" where
  "Base16_Decode_loop encoded enc_idx decoded =
     (if enc_idx < length encoded then
        let dec_idx = enc_idx div 2;
            ch1 = encoded ! (enc_idx + 0);
            ch2 = encoded ! (enc_idx + 1)
        in if \<not> is_base16 ch1 \<or> \<not> is_base16 ch2 then (Some invalid_argument, decoded)
           else Base16_Decode_loop encoded (enc_idx + 2)
                  (decoded[dec_idx := push_bit 4 (base16_decode ch1) OR base16_decode ch2])
      else (None, decoded))"
  by auto
termination
  by (relation "measure (\<lambda>(encoded, enc_idx, _). length encoded - enc_idx)") auto

declare Base16_Decode_loop.simps [simp del]

definition Base16_Decode :: "string \<Rightarrow> errc option \<times> byte list" where
  "Base16_Decode encoded =
     (if length encoded mod 2 \<noteq> 0 then (Some invalid_argument, [])
      else Base16_Decode_loop encoded 0 (replicate (length encoded div 2) 0))"

subsection \<open>Encoding\<close>

lemma unat_low_nibble: "unat (b AND 0x0F :: byte) = unat b mod 16"
proof -
  have "b AND 0x0F = take_bit 4 b"
    by (simp add: take_bit_eq_mask mask_eq_exp_minus_1)
  then have "unat (b AND 0x0F) = take_bit 4 (unat b)"
    by (simp only: unsigned_take_bit_eq)
  then show ?thesis
    by (simp add: take_bit_eq_mod)
qed

lemma unat_high_nibble: "unat (drop_bit 4 b AND 0x0F :: byte) = unat b div 16"
proof -
  have "unat b div 16 < 16"
    using unat_byte_less [of b] by (simp add: div_less_iff_less_mult)
  moreover have "unat (drop_bit 4 b AND 0x0F) = drop_bit 4 (unat b) mod 16"
    unfolding unat_low_nibble unat_drop_bit_eq ..
  ultimately show ?thesis
    by (simp add: drop_bit_eq_div)
qed

lemma base16_chars_nth: "d < 16 \<Longrightarrow> base16_chars ! d = digit_char True d"
proof -
  have "list_all (\<lambda>d. base16_chars ! d = digit_char True d) [0..<16]"
    by code_simp
  then show "d < 16 \<Longrightarrow> base16_chars ! d = digit_char True d"
    by (simp add: list_all_iff del: upt_rec_numeral)
qed

lemma encode_pair:
  "[base16_chars ! unat (drop_bit 4 b AND 0x0F), base16_chars ! unat (b AND 0x0F)] = hex2 b"
  using unat_byte_less [of b]
  by (subst unat_high_nibble, subst unat_low_nibble)
    (simp add: hex2_def base16_chars_nth div_less_iff_less_mult)

lemma list_update_pair: "n = length xs \<Longrightarrow> (xs @ a # b # ys)[n := c, Suc n := d] = xs @ [c, d] @ ys"
  by (simp add: list_update_append)

lemma Base16_Encode_eq: "Base16_Encode buf = concat (map hex2 buf)"
proof -
  let ?step = "\<lambda>buf_idx ret. let str_idx = 2 * buf_idx
         in ret[str_idx + 0 := base16_chars ! unat (drop_bit 4 (buf ! buf_idx) AND 0x0F),
                str_idx + 1 := base16_chars ! unat (buf ! buf_idx AND 0x0F)]"
  have "fold ?step [0..<n] (replicate (2 * length buf) (CHR ''0''))
      = concat (map hex2 (take n buf)) @ replicate (2 * (length buf - n)) (CHR ''0'')"
    if "n \<le> length buf" for n
    using that
  proof (induction n)
    case (Suc n)
    have len: "length (concat (map hex2 (take n buf))) = 2 * n"
      using Suc.prems by (simp add: length_concat comp_def sum_list_triv)
    have "2 * (length buf - n) = Suc (Suc (2 * (length buf - Suc n)))"
      using Suc.prems by simp
    then have "fold ?step [0..<Suc n] (replicate (2 * length buf) (CHR ''0''))
        = ?step n (concat (map hex2 (take n buf)) @ CHR ''0'' # CHR ''0'' # replicate (2 * (length buf - Suc n)) (CHR ''0''))"
      using Suc by simp
    also have "\<dots> = concat (map hex2 (take n buf)) @ hex2 (buf ! n) @ replicate (2 * (length buf - Suc n)) (CHR ''0'')"
      unfolding Let_def by (simp add: list_update_pair [OF len [symmetric]] encode_pair [symmetric])
    finally show ?case
      using Suc.prems by (simp add: take_Suc_conv_app_nth)
  qed simp
  from this [of "length buf"] show ?thesis
    by (simp add: Base16_Encode_def)
qed

lemma length_Base16_Encode: "length (Base16_Encode buf) = 2 * length buf"
  by (simp add: Base16_Encode_eq length_concat comp_def sum_list_triv)

subsection \<open>Decoding\<close>

text \<open>The upper-case form of a hexadecimal digit.\<close>

definition hex_upper :: "char \<Rightarrow> char" where
  "hex_upper c = (if char_between (CHR ''a'') c (CHR ''f'') then char_of (of_char c - 32 :: nat) else c)"

lemma base16_digit:
  assumes "is_base16 c"
  obtains d where "d < 16" "hex_upper c = digit_char True d" "base16_decode c = of_nat d"
proof -
  have c: "c = char_of (of_char c :: nat)"
    by simp
  consider "48 \<le> (of_char c :: nat)" "(of_char c :: nat) \<le> 57"
    | "65 \<le> (of_char c :: nat)" "(of_char c :: nat) \<le> 70"
    | "97 \<le> (of_char c :: nat)" "(of_char c :: nat) \<le> 102"
    using assms by (auto simp: is_base16_def char_between_def)
  then show thesis
  proof cases
    case 1
    then show thesis
      by (intro that [of "of_char c - 48"])
        (auto simp: base16_decode_def hex_upper_def char_between_def digit_char_def of_nat_diff)
  next
    case 2
    then show thesis
      by (intro that [of "of_char c - 55"])
        (auto simp: base16_decode_def hex_upper_def char_between_def digit_char_def)
  next
    case 3
    then show thesis
      by (intro that [of "of_char c - 87"])
        (auto simp: base16_decode_def hex_upper_def char_between_def digit_char_def)
  qed
qed

lemma digit_char_hex:
  assumes "d < 16"
  shows "is_base16 (digit_char True d)" "hex_upper (digit_char True d) = digit_char True d"
  using assms by (auto simp: is_base16_def hex_upper_def char_between_def of_hex_char)

definition byte_of_hex :: "char \<Rightarrow> char \<Rightarrow> byte" where
  "byte_of_hex c d = push_bit 4 (base16_decode c) OR base16_decode d"

lemma byte_of_nibbles:
  assumes "hi < 16" "lo < 16"
  shows "unat (push_bit 4 (of_nat hi) OR of_nat lo :: byte) = 16 * hi + lo"
proof -
  have "take_bit 4 lo = lo"
    using assms(2) by (simp add: take_bit_nat_eq_self)
  then have "\<not> bit lo n" if "4 \<le> n" for n
    using that by (metis bit_take_bit_iff not_le)
  then have "push_bit 4 (of_nat hi) OR of_nat lo = push_bit 4 (of_nat hi) + (of_nat lo :: byte)"
    by (intro disjunctive_add [symmetric]) (auto simp: bit_simps)
  also have "\<dots> = of_nat (16 * hi + lo)"
    by (simp add: push_bit_eq_mult)
  finally show ?thesis
    using assms by (simp only: unat_of_nat) simp
qed

lemma hex2_byte_of_hex:
  assumes "is_base16 c" "is_base16 d"
  shows "hex2 (byte_of_hex c d) = [hex_upper c, hex_upper d]"
proof -
  obtain hi where hi: "hi < 16" "hex_upper c = digit_char True hi" "base16_decode c = of_nat hi"
    by (rule base16_digit [OF assms(1)])
  obtain lo where lo: "lo < 16" "hex_upper d = digit_char True lo" "base16_decode d = of_nat lo"
    by (rule base16_digit [OF assms(2)])
  show ?thesis
    using hi lo byte_of_nibbles [OF hi(1) lo(1)] by (simp add: hex2_def byte_of_hex_def)
qed

fun decode_pairs :: "string \<Rightarrow> byte list" where
  "decode_pairs (c # d # s) = byte_of_hex c d # decode_pairs s"
| "decode_pairs _ = []"

lemma Encode_decode_pairs:
  "even (length s) \<Longrightarrow> \<forall>c \<in> set s. is_base16 c \<Longrightarrow> Base16_Encode (decode_pairs s) = map hex_upper s"
  by (induction s rule: decode_pairs.induct) (auto simp: Base16_Encode_eq hex2_byte_of_hex)

lemma Base16_Decode_loop_ok:
  assumes "even (length s)" "even i" "i \<le> length s" "length v = length s div 2" "\<forall>c \<in> set (drop i s). is_base16 c"
  shows "Base16_Decode_loop s i v = (None, take (i div 2) v @ decode_pairs (drop i s))"
  using assms
proof (induction s i v rule: Base16_Decode_loop.induct)
  case (1 s i v)
  show ?case
  proof (cases "i < length s")
    case True
    then have i: "i + 1 < length s"
      using "1.prems"(1,2) by (metis Suc_eq_plus1 Suc_lessI even_Suc)
    then have d: "drop i s = s ! i # s ! (i + 1) # drop (i + 2) s"
      by (metis Cons_nth_drop_Suc Suc_eq_plus1 True add_2_eq_Suc')
    have b: "is_base16 (s ! i)" "is_base16 (s ! (i + 1))" "\<forall>c \<in> set (drop (i + 2) s). is_base16 c"
      using "1.prems"(5) unfolding d by auto
    let ?b = "push_bit 4 (base16_decode (s ! i)) OR base16_decode (s ! (i + 1))"
    have t: "take ((i + 2) div 2) (v[i div 2 := ?b]) = take (i div 2) v @ [?b]"
      using "1.prems"(4) i by (simp add: take_Suc_conv_app_nth)
    have "Base16_Decode_loop s (i + 2) (v[i div 2 := ?b])
        = (None, take ((i + 2) div 2) (v[i div 2 := ?b]) @ decode_pairs (drop (i + 2) s))"
      using "1.IH" [OF True refl refl refl] b "1.prems" i by simp
    then show ?thesis
      unfolding t using True b d by (subst Base16_Decode_loop.simps) (simp add: byte_of_hex_def)
  next
    case False
    then show ?thesis
      using "1.prems"(3,4) by (subst Base16_Decode_loop.simps) simp
  qed
qed

lemma Base16_Decode_loop_bad:
  assumes "even (length s)" "even i" "\<exists>c \<in> set (drop i s). \<not> is_base16 c"
  shows "fst (Base16_Decode_loop s i v) = Some invalid_argument"
  using assms
proof (induction s i v rule: Base16_Decode_loop.induct)
  case (1 s i v)
  have lt: "i < length s"
    using "1.prems"(3) by (rule_tac ccontr) auto
  then have "i + 1 < length s"
    using "1.prems"(1,2) by (metis Suc_eq_plus1 Suc_lessI even_Suc)
  then have d: "drop i s = s ! i # s ! (i + 1) # drop (i + 2) s"
    by (metis Cons_nth_drop_Suc Suc_eq_plus1 lt add_2_eq_Suc')
  show ?case
    using "1.IH" [OF lt refl refl refl] "1.prems" lt unfolding d
    by (subst Base16_Decode_loop.simps) (auto simp: Let_def)
qed

lemma Base16_Decode_eq:
  "Base16_Decode s = (if odd (length s) then (Some invalid_argument, [])
     else Base16_Decode_loop s 0 (replicate (length s div 2) 0))"
  by (simp add: Base16_Decode_def odd_iff_mod_2_eq_one)

text \<open>
  \<open>Decode\<close> succeeds exactly on the texts that are \<open>Encode\<close> of some bytes up to the case of
  the digits, and then gives those bytes; so encoding and decoding are inverse to each other.
\<close>

theorem Base16_Decode_inverse:
  "Base16_Decode str = (None, bs) \<longleftrightarrow> list_all is_base16 str \<and> map hex_upper str = Base16_Encode bs"
proof
  assume dec: "Base16_Decode str = (None, bs)"
  then have even: "even (length str)"
    by (auto simp: Base16_Decode_eq split: if_splits)
  then have loop: "Base16_Decode_loop str 0 (replicate (length str div 2) 0) = (None, bs)"
    using dec by (simp add: Base16_Decode_eq)
  then have all: "\<forall>c \<in> set str. is_base16 c"
    using Base16_Decode_loop_bad [OF even, of 0 "replicate (length str div 2) 0"] by auto
  then have "bs = decode_pairs str"
    using loop Base16_Decode_loop_ok [OF even, of 0 "replicate (length str div 2) 0"] by simp
  then show "list_all is_base16 str \<and> map hex_upper str = Base16_Encode bs"
    using all even by (simp add: Encode_decode_pairs list_all_iff)
next
  assume "list_all is_base16 str \<and> map hex_upper str = Base16_Encode bs"
  then have r: "(\<forall>c \<in> set str. is_base16 c) \<and> map hex_upper str = Base16_Encode bs"
    by (simp add: list_all_iff)
  then have len: "length str = 2 * length bs"
    by (metis length_Base16_Encode length_map)
  then have "Base16_Decode str = (None, decode_pairs str)"
    using Base16_Decode_loop_ok [of str 0 "replicate (length str div 2) 0"] r
    by (simp add: Base16_Decode_eq)
  moreover have "map hex2 (decode_pairs str) = map hex2 bs"
  proof -
    have "concat (map hex2 (decode_pairs str)) = concat (map hex2 bs)"
      using r len Encode_decode_pairs [of str] by (simp add: Base16_Encode_eq)
    moreover have "length (decode_pairs str) = length bs"
      using len length_Base16_Encode [of "decode_pairs str"] Encode_decode_pairs [of str] r
      by (metis dvd_triv_left length_map nat_mult_eq_cancel1 zero_less_numeral)
    ultimately show ?thesis
      by (intro concat_injective) (auto simp: zip_map1 zip_map2)
  qed
  ultimately show "Base16_Decode str = (None, bs)"
    by (simp add: hex2_inject inj_on_def map_inj_on)
qed

theorem Base16_Decode_inverse_witness: "Base16_Decode ''0aFf'' = (None, [10, 255])"
  using Base16_Decode_inverse [of "''0aFf''" "[10, 255]"]
  by (simp add: is_base16_def hex_upper_def char_between_def Base16_Encode_eq hex2_def digit_char_def)
    code_simp

end
