(* ===== verification/Color.thy ===== *)
theory Color
  imports TextNum RoundTrip Base16
begin

section \<open>camplight::render::Color\<close>

text \<open>
  \<open>CampLight/camplight/render/Color.h\<close> and \<open>Color.cpp\<close>: an RGB colour with saturating
  addition and scaling, its text and its encodings.
\<close>

unbundle bit_operations_syntax

record color =
  m_red :: byte
  m_green :: byte
  m_blue :: byte

definition Color :: "byte \<Rightarrow> byte \<Rightarrow> byte \<Rightarrow> color" where
  "Color red green blue = \<lparr>m_red = red, m_green = green, m_blue = blue\<rparr>"

text \<open>The default constructor.\<close>

definition Color_black :: color where
  "Color_black = Color 0 0 0"

lemma Color_sel [simp]:
  "m_red (Color r g b) = r" "m_green (Color r g b) = g" "m_blue (Color r g b) = b"
  by (simp_all add: Color_def)

lemma Color_eq_iff: "(c :: color) = d \<longleftrightarrow> m_red c = m_red d \<and> m_green c = m_green d \<and> m_blue c = m_blue d"
  by (cases c; cases d) simp

definition add_sat :: "byte \<Rightarrow> byte \<Rightarrow> byte" where
  "add_sat a b = (let sum = (ucast a + ucast b :: u16)
     in ucast (if sum > 0xFF then 0xFF else sum))"

definition scale_channel :: "byte \<Rightarrow> byte \<Rightarrow> byte" where
  "scale_channel val rng = ucast ((ucast val * ucast rng :: u32) div 255)"

definition Color_add :: "color \<Rightarrow> color \<Rightarrow> color" where
  "Color_add c d = Color (add_sat (m_red c) (m_red d)) (add_sat (m_green c) (m_green d))
     (add_sat (m_blue c) (m_blue d))"

definition Scale :: "color \<Rightarrow> byte \<Rightarrow> color" where
  "Scale c rng = Color (scale_channel (m_red c) rng) (scale_channel (m_green c) rng)
     (scale_channel (m_blue c) rng)"

definition Color_eq :: "color \<Rightarrow> color \<Rightarrow> bool" where
  "Color_eq c d \<longleftrightarrow> m_red c = m_red d \<and> m_green c = m_green d \<and> m_blue c = m_blue d"

definition ToWs2811Color :: "color \<Rightarrow> u32" where
  "ToWs2811Color c = ucast (m_blue c) OR push_bit 8 (ucast (m_green c)) OR push_bit 16 (ucast (m_red c))"

subsection \<open>Text and encodings\<close>

definition Color_ToString :: "color \<Rightarrow> string" where
  "Color_ToString c = Format ''#%02X%02X%02X''
     [ArgUChar (m_red c), ArgUChar (m_green c), ArgUChar (m_blue c)]"

definition Color_ToBinary :: "nat \<Rightarrow> color \<Rightarrow> to_binary \<Rightarrow> to_binary res" where
  "Color_ToBinary size_max c m =
     bind_res (WriteUint8 size_max (m_red c) m) (\<lambda>m.
     bind_res (WriteUint8 size_max (m_green c) m) (\<lambda>m.
     WriteUint8 size_max (m_blue c) m))"

definition Color_FromBinary :: "from_binary \<Rightarrow> color \<times> from_binary" where
  "Color_FromBinary m =
     (let (r, m) = ReadUint8 m; (g, m) = ReadUint8 m; (b, m) = ReadUint8 m in (Color r g b, m))"

text \<open>
  Decoding from text: the string value of the decoder gives the colour, which keeps the
  channels not decoded, and an error or none. The two characters of each channel are
  prefixed with \<open>0x\<close> and given to \<open>FromString\<close>.
\<close>

definition Color_error :: string where
  "Color_error = ''Expected camplight::render::Color string value of the format \"#rrggbb\"''"

definition set_channel :: "nat option \<Rightarrow> (byte \<Rightarrow> color \<Rightarrow> color) \<Rightarrow> color \<Rightarrow> bool \<times> color" where
  "set_channel v assign c = (case v of None \<Rightarrow> (False, c) | Some n \<Rightarrow> (True, assign (of_nat n) c))"

definition Color_FromTextFormat :: "string \<Rightarrow> color \<Rightarrow> color \<times> string option" where
  "Color_FromTextFormat str c =
     (let (decoded, c) =
        (if length str = 7 \<and> str ! 0 = CHR ''#'' then
           let r_str = take 2 (drop 1 str); g_str = take 2 (drop 3 str); b_str = take 2 (drop 5 str);
               (r_ok, c) = set_channel (FromString_unsigned 8 (''0x'' @ r_str)) (\<lambda>v c. c\<lparr>m_red := v\<rparr>) c
           in if \<not> r_ok then (False, c)
              else let (g_ok, c) = set_channel (FromString_unsigned 8 (''0x'' @ g_str)) (\<lambda>v c. c\<lparr>m_green := v\<rparr>) c
                in if \<not> g_ok then (False, c)
                   else set_channel (FromString_unsigned 8 (''0x'' @ b_str)) (\<lambda>v c. c\<lparr>m_blue := v\<rparr>) c
         else (False, c))
      in (c, if \<not> decoded then Some Color_error else None))"

subsection \<open>Arithmetic of the channels\<close>

lemma unat_byte_bound: "unat (b :: byte) \<le> 255"
  using unsigned_less [of b, where 'a = nat] by simp

lemma unat_ucast_byte [simp]:
  "unat (ucast (b :: byte) :: u16) = unat b" "unat (ucast (b :: byte) :: u32) = unat b"
  "unat (ucast (b :: byte) :: u64) = unat b"
  using unat_byte_bound [of b] by (simp_all add: unsigned_ucast_eq take_bit_nat_eq_self_iff)

lemma unat_add_sat: "unat (add_sat a b) = min 255 (unat a + unat b)"
proof -
  have sum: "unat (ucast a + ucast b :: u16) = unat a + unat b"
    using unat_byte_bound [of a] unat_byte_bound [of b]
    by (subst unat_add_lem [THEN iffD1]) auto
  then show ?thesis
    by (auto simp: add_sat_def Let_def word_less_nat_alt unsigned_ucast_eq take_bit_eq_mod min_def)
qed

lemma unat_scale_channel: "unat (scale_channel a r) = unat a * unat r div 255"
proof -
  have le: "unat a * unat r \<le> 255 * 255"
    using unat_byte_bound [of a] unat_byte_bound [of r] by (rule mult_le_mono)
  then have "unat (ucast a * ucast r :: u32) = unat a * unat r"
    by (subst unat_mult_lem [THEN iffD1]) auto
  then have "unat ((ucast a * ucast r :: u32) div 255) = unat a * unat r div 255"
    by (simp add: unat_div)
  moreover have "unat a * unat r div 255 < 256"
    using div_le_mono [OF le, of 255] by simp
  ultimately show ?thesis
    by (simp add: scale_channel_def unsigned_ucast_eq take_bit_eq_mod)
qed

lemma scale_channel_0 [simp]: "scale_channel a 0 = 0"
  by (rule word_unat_eq_iff [THEN iffD2]) (simp add: unat_scale_channel)

lemma scale_channel_255 [simp]: "scale_channel a 255 = a"
  by (rule word_unat_eq_iff [THEN iffD2]) (simp add: unat_scale_channel)

lemma add_sat_0 [simp]: "add_sat 0 a = a" "add_sat a 0 = a"
  using unat_byte_bound [of a] by (simp_all add: word_unat_eq_iff unat_add_sat)

lemma Scale_0: "Scale c 0 = Color_black" and Scale_255: "Scale c 255 = c"
  by (simp_all add: Scale_def Color_black_def Color_eq_iff)

lemma Color_add_black: "Color_add Color_black c = c" "Color_add c Color_black = c"
  by (simp_all add: Color_add_def Color_black_def Color_eq_iff)

lemma div_add_bounds:
  "(p :: nat) div k + q div k \<le> (p + q) div k"
  "(p + q) div k \<le> p div k + q div k + 1"
proof -
  have "p mod k + q mod k < 2 * k \<or> k = 0"
    using mod_less_divisor [of k p] mod_less_divisor [of k q] by linarith
  then have "(p mod k + q mod k) div k \<le> 1"
    by (cases "k = 0") (simp_all add: less_Suc_eq_le [symmetric] div_less_iff_less_mult)
  then show "(p :: nat) div k + q div k \<le> (p + q) div k" "(p + q) div k \<le> p div k + q div k + 1"
    by (simp_all add: div_add1_eq [of p q])
qed

text \<open>Cross-fading two channels never saturates and stays between the two (up to rounding).\<close>

lemma crossfade_channel:
  assumes "s \<le> 255"
  shows "unat (add_sat (scale_channel a (of_nat (255 - s))) (scale_channel b (of_nat s)))
           = (unat a * (255 - s)) div 255 + (unat b * s) div 255"
    and "(unat a * (255 - s)) div 255 + (unat b * s) div 255 \<le> max (unat a) (unat b)"
    and "min (unat a) (unat b) \<le> (unat a * (255 - s)) div 255 + (unat b * s) div 255 + 1"
proof -
  let ?p = "unat a * (255 - s)" and ?q = "unat b * s"
  have sum: "?p div 255 + ?q div 255 \<le> (?p + ?q) div 255"
    by (rule div_add_bounds)
  have "?p + ?q \<le> max (unat a) (unat b) * (255 - s) + max (unat a) (unat b) * s"
    by (intro add_mono mult_right_mono) auto
  also have "\<dots> = max (unat a) (unat b) * 255"
    using assms by (metis add_mult_distrib2 le_add_diff_inverse2)
  finally have "(?p + ?q) div 255 \<le> max (unat a) (unat b)"
    by (metis div_le_mono nonzero_mult_div_cancel_right zero_neq_numeral)
  with sum show ub: "?p div 255 + ?q div 255 \<le> max (unat a) (unat b)"
    by linarith
  have "min (unat a) (unat b) * 255 = min (unat a) (unat b) * (255 - s) + min (unat a) (unat b) * s"
    using assms by (metis add_mult_distrib2 le_add_diff_inverse2)
  also have "\<dots> \<le> ?p + ?q"
    by (intro add_mono mult_right_mono) auto
  finally have "min (unat a) (unat b) \<le> (?p + ?q) div 255"
    by (metis div_le_mono nonzero_mult_div_cancel_right zero_neq_numeral)
  moreover have "(?p + ?q) div 255 \<le> ?p div 255 + ?q div 255 + 1"
    by (rule div_add_bounds)
  ultimately show "min (unat a) (unat b) \<le> ?p div 255 + ?q div 255 + 1"
    by linarith
  have small: "unat (of_nat n :: byte) = n" if "n \<le> 255" for n
    using that by (simp add: unat_of_nat)
  have small': "unat (of_nat (255 - s) :: byte) = 255 - s"
    by (rule small) simp
  show "unat (add_sat (scale_channel a (of_nat (255 - s))) (scale_channel b (of_nat s)))
           = ?p div 255 + ?q div 255"
    using ub assms unat_byte_bound [of a] unat_byte_bound [of b]
    by (simp add: unat_add_sat unat_scale_channel small small' del: of_nat_diff)
qed

text \<open>The bytes of a WS2811 word.\<close>

lemma ToWs2811Color_bytes:
  "ucast (ToWs2811Color c) = m_blue c"
  "ucast (drop_bit 8 (ToWs2811Color c)) = m_green c"
  "ucast (drop_bit 16 (ToWs2811Color c)) = m_red c"
  by (rule bit_word_eqI; auto simp: ToWs2811Color_def bit_simps dest: bit_imp_le_length)+

lemma ToWs2811Color_black [simp]: "ToWs2811Color Color_black = 0"
  by (simp add: ToWs2811Color_def Color_black_def)

lemma ToWs2811Color_eq_iff: "ToWs2811Color c = ToWs2811Color d \<longleftrightarrow> c = d"
  by (metis Color_eq_iff ToWs2811Color_bytes)

subsection \<open>Classes with methods of their own in the binary format\<close>

text \<open>
  A class whose \<open>ToBinary\<close> and \<open>FromBinary\<close> methods write and read its fields in order: what
  it writes is the encoding of a value of the marshalling model, and what it reads is a
  function of the value that the reader of that type returns.
\<close>

locale binary_class =
  fixes put :: "nat \<Rightarrow> 'c \<Rightarrow> to_binary \<Rightarrow> to_binary res"
    and get :: "nat \<Rightarrow> from_binary \<Rightarrow> 'c \<times> from_binary"
    and val_of :: "'c \<Rightarrow> val" and of_val :: "val \<Rightarrow> 'c" and ty :: ety and good :: "'c \<Rightarrow> bool"
  assumes put_val: "put size_max c m = write_val size_max (val_of c) m"
    and get_val: "read_ty pf lib rm ty old r = Inr (v, r') \<Longrightarrow> get (pf_size_max pf) r = (of_val v, r')"
    and of_val: "good c \<Longrightarrow> of_val (val_of c) = c"
begin

lemma class_roundtrip:
  assumes "good c" and "has_type pf lib ty (val_of c)" and "1024 \<le> pf_size_max pf"
    and "\<And>b. b \<in> set (val_blocks (val_of c)) \<Longrightarrow> length b \<le> 1024"
    and "length (enc_val (val_of c)) \<le> pf_size_max pf div 2"
  shows "\<exists>s bs m. put (pf_size_max pf) c ToBinary_default = Inr s
           \<and> \<not> tb_HasError s \<and> ExtractData s = map Some bs
           \<and> get (pf_size_max pf) (FromBinary bs) = (c, m)
           \<and> \<not> fb_HasError (EnsureAllBytesRead m)"
proof -
  obtain s where s: "write_val (pf_size_max pf) (val_of c) ToBinary_default = Inr s"
    "growing_inv (pf_size_max pf) s" "tb_bytes s = enc_val (val_of c)"
    using write_val_default [of "pf_size_max pf" "val_of c"] assms by blast
  obtain m where m: "fb_Read pf lib ty (default_val ty) (FromBinary (enc_val (val_of c))) = Inr (val_of c, m)"
    "fb_ready m []"
    using fb_Read_enc [OF assms(2), of "default_val ty" "[]"] read_over_default [OF assms(2)] by auto
  have "get (pf_size_max pf) (FromBinary (enc_val (val_of c))) = (c, m)"
    using get_val [OF m(1) [unfolded fb_Read_def]] of_val [OF assms(1)] by simp
  moreover have "\<not> fb_HasError (EnsureAllBytesRead m)"
    using fb_ready_Nil [OF m(2)] m(2) by (simp add: fb_ready_def)
  moreover have "\<not> tb_HasError s \<and> ExtractData s = map Some (enc_val (val_of c))"
    using s ExtractData_ok [OF s(2)] by (auto simp: growing_inv_def)
  ultimately show ?thesis
    using s(1) put_val by metis
qed

end

definition color_val :: "color \<Rightarrow> val" where
  "color_val c = VPair (VInt U8 (uint (m_red c)))
     (VPair (VInt U8 (uint (m_green c))) (VPair (VInt U8 (uint (m_blue c))) VUnit))"

fun color_of_val :: "val \<Rightarrow> color" where
  "color_of_val (VPair (VInt _ r) (VPair (VInt _ g) (VPair (VInt _ b) VUnit)))
     = Color (word_of_int r) (word_of_int g) (word_of_int b)"
| "color_of_val _ = Color_black"

definition color_ety :: ety where
  "color_ety = EPair (EInt U8) (EPair (EInt U8) (EPair (EInt U8) EUnit))"

interpretation color_class: binary_class Color_ToBinary "\<lambda>_. Color_FromBinary" color_val color_of_val color_ety
    "\<lambda>_. True"
proof unfold_locales
  fix size_max c m
  show "Color_ToBinary size_max c m = write_val size_max (color_val c) m"
    by (simp add: Color_ToBinary_def color_val_def bind_res_def split: sum.splits)
next
  fix pf lib rm old r v r'
  assume "read_ty pf lib rm color_ety old r = Inr (v, r')"
  then show "Color_FromBinary r = (color_of_val v, r')"
    by (auto simp: color_ety_def Color_FromBinary_def bind_res_eq_Inr split: prod.splits)
next
  fix c
  show "color_of_val (color_val c) = c"
    by (simp add: color_val_def Color_eq_iff)
qed

text \<open>
  A colour written by \<open>ToBinary\<close> into a default writer is read back by \<open>FromBinary\<close> as
  it was, without an error and with nothing left over.
\<close>

theorem Color_binary_roundtrip:
  assumes "1024 \<le> size_max"
  shows "\<exists>s bs m. Color_ToBinary size_max c ToBinary_default = Inr s
           \<and> \<not> tb_HasError s \<and> ExtractData s = map Some bs
           \<and> Color_FromBinary (FromBinary bs) = (c, m)
           \<and> \<not> fb_HasError (EnsureAllBytesRead m)"
proof -
  let ?pf = "\<lparr>pf_size_max = size_max, pf_vector_max = size_max\<rparr>"
  have byte: "0 \<le> uint (b :: byte)" "uint b < 256" for b
    using unsigned_less [of b, where 'a = int] by simp_all
  have "has_type ?pf (\<lambda>_. None) color_ety (color_val c)"
    by (simp add: color_ety_def color_val_def byte)
  moreover have "1024 \<le> pf_size_max ?pf"
    using assms by simp
  moreover have "\<And>b. b \<in> set (val_blocks (color_val c)) \<Longrightarrow> length b \<le> 1024"
    by (auto simp: color_val_def)
  moreover have "length (enc_val (color_val c)) \<le> pf_size_max ?pf div 2"
    using assms by (simp add: enc_val_def color_val_def)
  ultimately show ?thesis
    using color_class.class_roundtrip [where pf = ?pf, OF TrueI] by simp
qed

theorem Color_binary_roundtrip_witness:
  "\<exists>s bs m. Color_ToBinary 4294967295 (Color 1 2 3) ToBinary_default = Inr s
           \<and> \<not> tb_HasError s \<and> ExtractData s = map Some bs
           \<and> Color_FromBinary (FromBinary bs) = (Color 1 2 3, m)
           \<and> \<not> fb_HasError (EnsureAllBytesRead m)"
  by (rule Color_binary_roundtrip) simp

text \<open>A channel is printed as two hexadecimal digits.\<close>

lemma Color_ToString_hex:
  "Color_ToString c = CHR ''#'' # hex2 (m_red c) @ hex2 (m_green c) @ hex2 (m_blue c)"
  by (simp add: Color_ToString_def format_eval hex_padded hex_padded_append)

text \<open>
  The text of a colour is a hash sign and two hexadecimal digits for each channel, so
  different colours have different texts; but decoding from text never works: the channels are
  given a \<open>0x\<close> prefix, at which the base-10 conversion stops, so every text is rejected, the
  colour's own included, and the colour stays as it was.
\<close>

theorem Color_text_one_way:
  "(Color_ToString c = Color_ToString d \<longleftrightarrow> c = d)
   \<and> length (Color_ToString c) = 7 \<and> Color_ToString c ! 0 = CHR ''#''
   \<and> Color_FromTextFormat str e = (e, Some Color_error)"
proof (intro conjI)
  show "Color_ToString c = Color_ToString d \<longleftrightarrow> c = d"
    by (simp add: Color_ToString_hex hex2_inject Color_eq_iff)
  show "Color_FromTextFormat str e = (e, Some Color_error)"
    by (simp add: Color_FromTextFormat_def set_channel_def FromString_unsigned_0x [simplified])
qed (simp_all add: Color_ToString_hex)

end
