(* ===== verification/Grid.thy ===== *)
theory Grid
  imports Color
begin

section \<open>camplight::render::ColorGrid\<close>

text \<open>
  \<open>CampLight/camplight/render/ColorGrid.h\<close> and \<open>ColorGrid.cpp\<close>: the square of colours that
  patterns and transitions draw into. A grid is the list of its rows, as the class holds an
  array of rows of LEDs, and every loop of the program over a grid is \<open>for_leds\<close>.
\<close>

definition GRID_SIZE :: nat where
  "GRID_SIZE = 9"

definition EDGE_WIDTH :: nat where
  "EDGE_WIDTH = 2"

type_synonym grid = "color list list"

definition ColorGrid :: grid where
  "ColorGrid = replicate GRID_SIZE (replicate GRID_SIZE Color_black)"

definition grid_ok :: "'a list list \<Rightarrow> bool" where
  "grid_ok g \<longleftrightarrow> length g = GRID_SIZE \<and> (\<forall>row \<in> set g. length row = GRID_SIZE)"

text \<open>The two nested loops over rows \<open>i\<close> and LEDs \<open>j\<close>.\<close>

definition for_leds :: "nat list \<Rightarrow> (nat \<Rightarrow> nat \<Rightarrow> 's \<Rightarrow> 's) \<Rightarrow> 's \<Rightarrow> 's" where
  "for_leds r body = fold (\<lambda>i. fold (body i) r) r"

definition set_led :: "nat \<Rightarrow> nat \<Rightarrow> 'a \<Rightarrow> 'a list list \<Rightarrow> 'a list list" where
  "set_led i j c g = g[i := (g ! i)[j := c]]"

definition fill :: "(nat \<Rightarrow> nat \<Rightarrow> color) \<Rightarrow> grid \<Rightarrow> grid" where
  "fill f = for_leds [0..<GRID_SIZE] (\<lambda>i j. set_led i j (f i j))"

definition GetLedsForWebDisplay :: "grid \<Rightarrow> bool \<Rightarrow> color list \<Rightarrow> color list" where
  "GetLedsForWebDisplay g mask_center result =
     (let result = take (GRID_SIZE * GRID_SIZE) result
            @ replicate (GRID_SIZE * GRID_SIZE - length result) Color_black;
          result = for_leds [0..<GRID_SIZE]
            (\<lambda>i j result. result[i + GRID_SIZE * j := g ! i ! j]) result
      in if mask_center then
           for_leds [EDGE_WIDTH..<GRID_SIZE - EDGE_WIDTH]
             (\<lambda>i j result. result[j + GRID_SIZE * i := Color 0 0 0]) result
         else result)"

subsection \<open>Loops that assign to distinct elements\<close>

lemma for_leds_product:
  "for_leds r body s = fold (\<lambda>(i, j). body i j) (List.product r r) s"
proof -
  have "fold (\<lambda>i. fold (body i) ys) xs s = fold (\<lambda>(i, j). body i j) (List.product xs ys) s" for xs ys
    by (induction xs arbitrary: s) (simp_all add: fold_map comp_def)
  then show ?thesis
    by (simp add: for_leds_def)
qed

lemma fold_update_length [simp]: "length (fold (\<lambda>k xs. xs[idx k := v k]) ks xs) = length xs"
  by (induction ks arbitrary: xs) simp_all

lemma fold_update_other:
  "m \<notin> idx ` set ks \<Longrightarrow> fold (\<lambda>k xs. xs[idx k := v k]) ks xs ! m = xs ! m"
  by (induction ks arbitrary: xs) auto

lemma fold_update_same:
  "inj_on idx (set ks) \<Longrightarrow> k \<in> set ks \<Longrightarrow> idx k < length xs
     \<Longrightarrow> fold (\<lambda>k xs. xs[idx k := v k]) ks xs ! idx k = v k"
proof (induction ks arbitrary: xs)
  case Nil
  then show ?case by simp
next
  case (Cons l ks)
  show ?case
  proof (cases "k \<in> set ks")
    case True
    then show ?thesis
      using Cons by simp
  next
    case False
    then have "k = l"
      using Cons.prems by simp
    moreover have "idx k \<notin> idx ` set ks"
      using False Cons.prems by (auto dest: inj_onD)
    ultimately show ?thesis
      using Cons.prems by (simp add: fold_update_other)
  qed
qed

lemma for_leds_update:
  assumes "inj_on (\<lambda>(i, j). idx i j) (set r \<times> set r)"
    and "\<And>i j. i \<in> set r \<Longrightarrow> j \<in> set r \<Longrightarrow> idx i j < length xs"
  shows "length (for_leds r (\<lambda>i j xs. xs[idx i j := v i j]) xs) = length xs"
    and "i \<in> set r \<Longrightarrow> j \<in> set r
      \<Longrightarrow> for_leds r (\<lambda>i j xs. xs[idx i j := v i j]) xs ! idx i j = v i j"
    and "(\<And>i j. i \<in> set r \<Longrightarrow> j \<in> set r \<Longrightarrow> idx i j \<noteq> m)
      \<Longrightarrow> for_leds r (\<lambda>i j xs. xs[idx i j := v i j]) xs ! m = xs ! m"
proof -
  have eq: "for_leds r (\<lambda>i j xs. xs[idx i j := v i j]) xs
      = fold (\<lambda>k xs. xs[(\<lambda>(i, j). idx i j) k := (\<lambda>(i, j). v i j) k]) (List.product r r) xs"
    by (simp add: for_leds_product case_prod_unfold)
  show "length (for_leds r (\<lambda>i j xs. xs[idx i j := v i j]) xs) = length xs"
    unfolding eq by (rule fold_update_length)
  show "for_leds r (\<lambda>i j xs. xs[idx i j := v i j]) xs ! idx i j = v i j"
    if "i \<in> set r" "j \<in> set r"
    unfolding eq using fold_update_same [of "\<lambda>(i, j). idx i j" "List.product r r" "(i, j)" xs] assms that
    by simp
  show "for_leds r (\<lambda>i j xs. xs[idx i j := v i j]) xs ! m = xs ! m"
    if "\<And>i j. i \<in> set r \<Longrightarrow> j \<in> set r \<Longrightarrow> idx i j \<noteq> m"
    unfolding eq by (rule fold_update_other) (use that in auto)
qed

subsection \<open>Drawing a grid\<close>

definition grid_of :: "(nat \<Rightarrow> nat \<Rightarrow> 'a) \<Rightarrow> 'a list list" where
  "grid_of f = map (\<lambda>i. map (f i) [0..<GRID_SIZE]) [0..<GRID_SIZE]"

lemma grid_of_nth [simp]: "i < GRID_SIZE \<Longrightarrow> j < GRID_SIZE \<Longrightarrow> grid_of f ! i ! j = f i j"
  by (simp add: grid_of_def)

lemma grid_ok_grid_of [simp]: "grid_ok (grid_of f)"
  by (auto simp: grid_ok_def grid_of_def)

lemma grid_ok_ColorGrid [simp]: "grid_ok ColorGrid"
  by (auto simp: grid_ok_def ColorGrid_def)

lemma grid_ok_length [simp]: "grid_ok g \<Longrightarrow> length g = GRID_SIZE"
  and grid_ok_row [simp]: "grid_ok g \<Longrightarrow> i < GRID_SIZE \<Longrightarrow> length (g ! i) = GRID_SIZE"
  by (auto simp: grid_ok_def)

lemma grid_eqI:
  assumes "grid_ok g" "grid_ok h" "\<And>i j. i < GRID_SIZE \<Longrightarrow> j < GRID_SIZE \<Longrightarrow> g ! i ! j = h ! i ! j"
  shows "g = h"
  using assms by (intro nth_equalityI) simp_all

lemma grid_of_at: "grid_ok g \<Longrightarrow> grid_of (\<lambda>i j. g ! i ! j) = g"
  by (rule grid_eqI) simp_all

lemma grid_of_eq_iff:
  "grid_of f = grid_of h \<longleftrightarrow> (\<forall>i < GRID_SIZE. \<forall>j < GRID_SIZE. f i j = h i j)"
  by (metis grid_eqI grid_of_nth grid_ok_grid_of)

lemma fold_rows:
  assumes "n \<le> length g"
  shows "length (fold (\<lambda>i g. g[i := h i (g ! i)]) [0..<n] g) = length g"
    and "i < length g \<Longrightarrow> fold (\<lambda>i g. g[i := h i (g ! i)]) [0..<n] g ! i = (if i < n then h i (g ! i) else g ! i)"
  using assms by (induction n arbitrary: i) (auto simp: nth_list_update less_Suc_eq)

lemma fold_set_led:
  "i < length g \<Longrightarrow> fold (\<lambda>j. set_led i j (f i j)) ks g = g[i := fold (\<lambda>j row. row[j := f i j]) ks (g ! i)]"
  by (induction ks arbitrary: g) (simp_all add: set_led_def)

lemma fill_eq:
  assumes "grid_ok g"
  shows "fill f g = grid_of f"
proof -
  have row: "fold (\<lambda>j row. row[j := f i j]) [0..<GRID_SIZE] row = map (f i) [0..<GRID_SIZE]"
    if "length row = GRID_SIZE" for i row
    using fold_rows [where g = row and h = "\<lambda>j _. f i j" and n = GRID_SIZE] that by (intro nth_equalityI) simp_all
  have rows: "fold (\<lambda>i. fold (\<lambda>j. set_led i j (f i j)) [0..<GRID_SIZE]) is g
      = fold (\<lambda>i g. g[i := fold (\<lambda>j row. row[j := f i j]) [0..<GRID_SIZE] (g ! i)]) is g"
    if "set is \<subseteq> {..<length g}" for "is" and g :: grid
    using that by (induction "is" arbitrary: g) (simp_all add: fold_set_led)
  have "fill f g = fold (\<lambda>i g. g[i := fold (\<lambda>j row. row[j := f i j]) [0..<GRID_SIZE] (g ! i)]) [0..<GRID_SIZE] g"
    using rows [of "[0..<GRID_SIZE]" g] assms by (simp add: fill_def for_leds_def lessThan_atLeast0)
  also have "\<dots> = grid_of f"
    using fold_rows [where g = g and n = GRID_SIZE
        and h = "\<lambda>i row. fold (\<lambda>j row. row[j := f i j]) [0..<GRID_SIZE] row"] assms
    by (intro nth_equalityI) (simp_all add: row grid_of_def)
  finally show ?thesis .
qed

subsection \<open>The picture for the web page\<close>

lemma web_index_eq:
  assumes "i < GRID_SIZE" "k < GRID_SIZE"
  shows "i + GRID_SIZE * j = k + GRID_SIZE * l \<longleftrightarrow> i = k \<and> j = l"
proof
  assume eq: "i + GRID_SIZE * j = k + GRID_SIZE * l"
  show "i = k \<and> j = l"
    using arg_cong [OF eq, of "\<lambda>n. n mod GRID_SIZE"] arg_cong [OF eq, of "\<lambda>n. n div GRID_SIZE"] assms
    by simp
qed simp

definition centre :: "nat \<Rightarrow> bool" where
  "centre i \<longleftrightarrow> EDGE_WIDTH \<le> i \<and> i < GRID_SIZE - EDGE_WIDTH"

lemma GetLedsForWebDisplay_shape:
  assumes "grid_ok g" "i < GRID_SIZE" "j < GRID_SIZE"
  shows "length (GetLedsForWebDisplay g mask_center result) = GRID_SIZE * GRID_SIZE
    \<and> GetLedsForWebDisplay g mask_center result ! (i + GRID_SIZE * j)
        = (if mask_center \<and> centre i \<and> centre j then Color_black else g ! i ! j)"
proof -
  define r0 where "r0 = take (GRID_SIZE * GRID_SIZE) result
    @ replicate (GRID_SIZE * GRID_SIZE - length result) Color_black"
  define r1 where "r1 = for_leds [0..<GRID_SIZE] (\<lambda>i j result. result[i + GRID_SIZE * j := g ! i ! j]) r0"
  define r2 where "r2 = for_leds [EDGE_WIDTH..<GRID_SIZE - EDGE_WIDTH]
    (\<lambda>i j result. result[j + GRID_SIZE * i := Color 0 0 0]) r1"
  have len0: "length r0 = GRID_SIZE * GRID_SIZE"
    by (simp add: r0_def min_def)
  have inside: "k + GRID_SIZE * l < GRID_SIZE * GRID_SIZE" if "k < GRID_SIZE" "l < GRID_SIZE" for k l
    using that by (simp add: GRID_SIZE_def)
  have inj0: "inj_on (\<lambda>(i, j). i + GRID_SIZE * j) (set [0..<GRID_SIZE] \<times> set [0..<GRID_SIZE])"
    by (rule inj_onI) (auto simp: web_index_eq)
  have small0: "k + GRID_SIZE * l < length r0" if "k \<in> set [0..<GRID_SIZE]" "l \<in> set [0..<GRID_SIZE]" for k l
    using that inside [of k l] len0 by simp
  note written = for_leds_update [where idx = "\<lambda>i j. i + GRID_SIZE * j" and v = "\<lambda>i j. g ! i ! j",
      OF inj0 small0, folded r1_def]
  have len1: "length r1 = GRID_SIZE * GRID_SIZE"
    using written(1) len0 by simp
  have r1: "r1 ! (i + GRID_SIZE * j) = g ! i ! j"
    using written(2) assms(2,3) by simp
  have inj: "inj_on (\<lambda>(i, j). j + GRID_SIZE * i)
      (set [EDGE_WIDTH..<GRID_SIZE - EDGE_WIDTH] \<times> set [EDGE_WIDTH..<GRID_SIZE - EDGE_WIDTH])"
    by (rule inj_onI) (auto simp: web_index_eq)
  have small: "k + GRID_SIZE * l < length r1"
    if "l \<in> set [EDGE_WIDTH..<GRID_SIZE - EDGE_WIDTH]" "k \<in> set [EDGE_WIDTH..<GRID_SIZE - EDGE_WIDTH]" for k l
  proof -
    have "k < GRID_SIZE" "l < GRID_SIZE"
      using that by auto
    then show ?thesis
      using inside len1 by simp
  qed
  note masked = for_leds_update [where idx = "\<lambda>i j. j + GRID_SIZE * i" and v = "\<lambda>_ _. Color 0 0 0",
      OF inj small, folded r2_def]
  have "r2 ! (i + GRID_SIZE * j) = (if centre i \<and> centre j then Color_black else g ! i ! j)"
  proof (cases "centre i \<and> centre j")
    case True
    then show ?thesis
      using masked(2) [of j i] by (simp add: centre_def Color_black_def)
  next
    case False
    have "l + GRID_SIZE * k \<noteq> i + GRID_SIZE * j"
      if "k \<in> set [EDGE_WIDTH..<GRID_SIZE - EDGE_WIDTH]" "l \<in> set [EDGE_WIDTH..<GRID_SIZE - EDGE_WIDTH]" for k l
      using that False assms by (auto simp: centre_def web_index_eq)
    then show ?thesis
      using masked(3) [of "i + GRID_SIZE * j"] r1 False by (auto simp del: atLeastLessThan_iff set_upt)
  qed
  then show ?thesis
    using r1 len1 masked(1)
    by (simp add: GetLedsForWebDisplay_def Let_def r0_def [symmetric] r1_def [symmetric] r2_def [symmetric])
qed

lemma GetLedsForWebDisplay_at:
  assumes "grid_ok g" "i < GRID_SIZE" "j < GRID_SIZE"
  shows "GetLedsForWebDisplay g mask_center result ! (i + GRID_SIZE * j)
        = (if mask_center \<and> centre i \<and> centre j then Color_black else g ! i ! j)"
  using GetLedsForWebDisplay_shape [OF assms] by blast

text \<open>
  The web page gets one colour for each LED, row by row: LED \<open>(i, j)\<close> of the grid is at
  \<open>i + 9 * j\<close>, whatever the vector held before; with the mask, and only then, the 25 LEDs of
  the centre are black.
\<close>

theorem GetLedsForWebDisplay_picture:
  assumes "grid_ok g" "i < GRID_SIZE" "j < GRID_SIZE"
  shows "length (GetLedsForWebDisplay g mask_center result) = GRID_SIZE * GRID_SIZE
    \<and> GetLedsForWebDisplay g mask_center result ! (i + GRID_SIZE * j)
        = (if mask_center \<and> centre i \<and> centre j then Color_black else g ! i ! j)"
  using assms by (rule GetLedsForWebDisplay_shape)

theorem GetLedsForWebDisplay_picture_witness:
  "length (GetLedsForWebDisplay (grid_of (\<lambda>i j. Color (of_nat i) (of_nat j) 9)) True []) = GRID_SIZE * GRID_SIZE
    \<and> GetLedsForWebDisplay (grid_of (\<lambda>i j. Color (of_nat i) (of_nat j) 9)) True [] ! (1 + GRID_SIZE * 3)
        = Color 1 3 9"
  using GetLedsForWebDisplay_picture [of "grid_of (\<lambda>i j. Color (of_nat i) (of_nat j) 9)" 1 3 True "[]"]
  by (simp add: GRID_SIZE_def EDGE_WIDTH_def centre_def grid_of_nth [unfolded GRID_SIZE_def])

end
