(* ===== verification/TimeSpan.thy ===== *)
theory TimeSpan
  imports TextNum
begin

section \<open>Time spans and timestamps\<close>

text \<open>
  \<open>BBoxRt/bbox/rt/TimeSpan.h\<close> and \<open>TimeSpan.cpp\<close>, and \<open>CampLight/camplight/render/Timestamp.h\<close>.
  A time span is the count of nanoseconds of its \<open>steady_clock::duration\<close>, as an integer: the
  spans of the program are far inside the 64 bits of the count. A timestamp is a number of
  milliseconds, a \<open>size_t\<close>, whose differences wrap around.
\<close>

type_synonym timespan = int
type_synonym timestamp = u64

text \<open>\<open>duration_cast\<close> to a coarser unit truncates towards zero.\<close>

definition duration_cast :: "int \<Rightarrow> timespan \<Rightarrow> int" where
  "duration_cast unit d = (if d < 0 then - ((- d) div unit) else d div unit)"

definition TimeSpan_Hours :: "int \<Rightarrow> timespan" where
  "TimeSpan_Hours n = n * 3600000000000"

definition TimeSpan_Minutes :: "int \<Rightarrow> timespan" where
  "TimeSpan_Minutes n = n * 60000000000"

definition TimeSpan_Seconds :: "int \<Rightarrow> timespan" where
  "TimeSpan_Seconds n = n * 1000000000"

definition TimeSpan_Milliseconds :: "int \<Rightarrow> timespan" where
  "TimeSpan_Milliseconds n = n * 1000000"

definition TimeSpan_Microseconds :: "int \<Rightarrow> timespan" where
  "TimeSpan_Microseconds n = n * 1000"

definition ToMilliseconds :: "timespan \<Rightarrow> int" where
  "ToMilliseconds d = duration_cast 1000000 d"

text \<open>The same as a \<open>size_t\<close>, which is how the rendering code takes it.\<close>

definition ms_size_t :: "timespan \<Rightarrow> u64" where
  "ms_size_t d = word_of_int (ToMilliseconds d)"

definition RelativeToStart :: "timestamp \<Rightarrow> timestamp \<Rightarrow> timestamp" where
  "RelativeToStart t start = t - start"

text \<open>The remainder of C++, which has the sign of the dividend.\<close>

definition cpp_mod :: "int \<Rightarrow> int \<Rightarrow> int" where
  "cpp_mod a b = (if a < 0 then - ((- a) mod b) else a mod b)"

definition TimeSpan_ToString :: "timespan \<Rightarrow> string" where
  "TimeSpan_ToString d =
     (let us = duration_cast 1000 d;
          frac_seconds_str = (if cpp_mod us 1000000 \<noteq> 0 then Format ''.%06d'' [ArgSigned 64 us] else []);
          seconds = duration_cast 1000000000 d
      in if seconds < 60 then Format ''%d%s s'' [ArgSigned 64 seconds, ArgStr frac_seconds_str]
         else let hours = seconds div 3600; mins = cpp_mod (seconds div 60) 60;
                  seconds = cpp_mod seconds 60
              in Format ''%d h %d min %d%s s''
                   [ArgSigned 64 hours, ArgSigned 64 mins, ArgSigned 64 seconds, ArgStr frac_seconds_str])"

lemma duration_cast_mult: "0 < u \<Longrightarrow> duration_cast u (n * u) = n"
  by (simp add: duration_cast_def mult_minus_left [symmetric] del: mult_minus_left)

lemma ToMilliseconds_Milliseconds [simp]: "ToMilliseconds (TimeSpan_Milliseconds n) = n"
  by (simp add: ToMilliseconds_def TimeSpan_Milliseconds_def duration_cast_mult)

lemma ToMilliseconds_Seconds [simp]: "ToMilliseconds (TimeSpan_Seconds n) = n * 1000"
  using ToMilliseconds_Milliseconds [of "n * 1000"]
  by (simp add: TimeSpan_Milliseconds_def TimeSpan_Seconds_def mult.assoc)

lemma ToMilliseconds_Minutes [simp]: "ToMilliseconds (TimeSpan_Minutes n) = n * 60000"
  using ToMilliseconds_Milliseconds [of "n * 60000"]
  by (simp add: TimeSpan_Milliseconds_def TimeSpan_Minutes_def mult.assoc)

text \<open>
  A whole number of seconds is printed in seconds, or in hours, minutes and seconds from
  one minute on; but the fraction printed after the seconds is the total number of
  microseconds, so one and a half seconds read as \<open>1.1500000 s\<close>.
\<close>

theorem TimeSpan_ToString_fraction:
  "TimeSpan_ToString (TimeSpan_Seconds 59) = ''59 s''
   \<and> TimeSpan_ToString (TimeSpan_Minutes 61) = ''1 h 1 min 0 s''
   \<and> TimeSpan_ToString (TimeSpan_Milliseconds 1500) = ''1.1500000 s''"
proof -
  have "Format ''%d%s s'' [ArgSigned 64 59, ArgStr []] = ''59 s''"
    by (simp add: format_eval) (simp add: base_digits.simps)
  moreover have "Format ''%d h %d min %d%s s'' [ArgSigned 64 1, ArgSigned 64 1, ArgSigned 64 0, ArgStr []]
      = ''1 h 1 min 0 s''"
    by (simp add: format_eval) (simp add: base_digits.simps)
  moreover have "Format ''.%06d'' [ArgSigned 64 1500000] = ''.1500000''"
    by (simp add: format_eval) (simp add: base_digits.simps)
  moreover have "Format ''%d%s s'' [ArgSigned 64 1, ArgStr ''.1500000''] = ''1.1500000 s''"
    by (simp add: format_eval) (simp add: base_digits.simps)
  ultimately show ?thesis
    by (simp add: TimeSpan_ToString_def TimeSpan_Seconds_def TimeSpan_Minutes_def
        TimeSpan_Milliseconds_def duration_cast_def cpp_mod_def)
qed

end
