(* ===== verification/Render.thy ===== *)
theory Render
  imports Grid TimeSpan
begin

section \<open>The interfaces of the renderer\<close>

text \<open>
  \<open>CampLight/camplight/render/Pattern.h\<close> and \<open>Transition.h\<close>: the virtual methods by which
  \<open>TransitionPattern\<close> draws the patterns and transitions it is given. The locales state what
  it relies on: a pattern always draws, and draws over the whole grid; a transition always
  ends, is complete at the latest after its duration, and when it is complete its picture is
  the picture of the new pattern.
\<close>

datatype result = TransitionProgressing | TransitionComplete

locale pattern_interface =
  fixes prender :: "'p \<Rightarrow> grid \<Rightarrow> timestamp \<Rightarrow> grid res"
    and pok :: "'p \<Rightarrow> bool" and pimage :: "'p \<Rightarrow> timestamp \<Rightarrow> grid"
  assumes prender_image: "pok p \<Longrightarrow> grid_ok dest \<Longrightarrow> prender p dest t = Inr (pimage p t)"
    and pimage_ok: "pok p \<Longrightarrow> grid_ok (pimage p t)"

text \<open>A transition uses random numbers, counted by \<open>pos\<close>, and may change its own state.\<close>

locale transition_interface =
  fixes trender :: "nat \<Rightarrow> 't \<Rightarrow> grid \<Rightarrow> grid \<Rightarrow> grid \<Rightarrow> timestamp \<Rightarrow> (result \<times> grid \<times> 't \<times> nat) res"
    and tok :: "'t \<Rightarrow> bool" and tduration :: "'t \<Rightarrow> timespan"
  assumes trender_contract: "tok tr \<Longrightarrow> grid_ok src \<Longrightarrow> grid_ok to \<Longrightarrow> grid_ok dest \<Longrightarrow>
      \<exists>r g tr' pos'. trender pos tr src to dest t = Inr (r, g, tr', pos')
        \<and> grid_ok g \<and> tok tr' \<and> tduration tr' = tduration tr
        \<and> (r = TransitionComplete \<longrightarrow> g = to)
        \<and> (ms_size_t (tduration tr) \<le> t \<longrightarrow> r = TransitionComplete)"

end
