(* ===== verification/HsvColor.thy ===== *)
theory HsvColor
  imports Color Complex_Main
begin

section \<open>camplight::render::HsvColor\<close>

text \<open>
  \<open>CampLight/camplight/render/HsvColor.h\<close> and \<open>HsvColor.cpp\<close>: hue, saturation and value and
  their conversion to RGB. The conversion computes in IEEE single precision and rounds to a
  channel in double precision; a finite floating-point number is its rational value, and
  every operation rounds the exact result to the nearest number, ties to even.
\<close>

subsection \<open>Rounding\<close>

definition rint :: "rat \<Rightarrow> int" where
  "rint x = (let n = \<lfloor>x\<rfloor>; d = x - of_int n
     in if d < 1 / 2 then n else if 1 / 2 < d then n + 1 else if even n then n else n + 1)"

text \<open>
  Rounding a number that is not negative to \<open>p\<close> bits: the spacing \<open>u\<close> starts at the smallest
  subnormal number and doubles until the number is below \<open>2 ^ p\<close> spacings, at most \<open>n\<close> times.
\<close>

fun round_bits :: "nat \<Rightarrow> nat \<Rightarrow> rat \<Rightarrow> rat \<Rightarrow> rat" where
  "round_bits p 0 u x = of_int (rint (x / u)) * u"
| "round_bits p (Suc n) u x =
     (if x < 2 ^ p * u then of_int (rint (x / u)) * u else round_bits p n (2 * u) x)"

definition fl32 :: "rat \<Rightarrow> rat" where
  "fl32 x = (if x < 0 then - round_bits 24 253 (1 / 2 ^ 149) (- x) else round_bits 24 253 (1 / 2 ^ 149) x)"

definition fl64 :: "rat \<Rightarrow> rat" where
  "fl64 x = (if x < 0 then - round_bits 53 2045 (1 / 2 ^ 1074) (- x) else round_bits 53 2045 (1 / 2 ^ 1074) x)"

subsection \<open>The class\<close>

record hsv =
  m_hue :: byte
  m_sat :: byte
  m_val :: byte

definition HsvColor :: "byte \<Rightarrow> byte \<Rightarrow> byte \<Rightarrow> hsv" where
  "HsvColor hue sat v = \<lparr>m_hue = hue, m_sat = sat, m_val = v\<rparr>"

definition HsvColor_ToString :: "hsv \<Rightarrow> string" where
  "HsvColor_ToString c = Format ''HSV(%d,%d,%d)'' [ArgUChar (m_hue c), ArgUChar (m_sat c), ArgUChar (m_val c)]"

text \<open>The conversion of a double to \<open>uint8_t\<close> truncates; it is undefined outside the range.\<close>

definition double_to_uint8 :: "rat \<Rightarrow> byte res" where
  "double_to_uint8 x = (if -1 < x \<and> x < 256 then Inr (of_int (if x < 0 then 0 else \<lfloor>x\<rfloor>)) else Inl OutOfBounds)"

definition round_channel :: "rat \<Rightarrow> byte res" where
  "round_channel r = double_to_uint8 (fl64 (fl64 (r * 255) + 1 / 2))"

definition hsv_sector :: "rat \<Rightarrow> rat \<Rightarrow> rat \<Rightarrow> rat \<times> rat \<times> rat" where
  "hsv_sector h s v =
     (let h = fl32 (h / 60);
          i = \<lfloor>h\<rfloor>;
          f = fl32 (h - of_int i);
          p = fl32 (v * fl32 (1 - s));
          q = fl32 (v * fl32 (1 - fl32 (s * f)));
          t = fl32 (v * fl32 (1 - fl32 (s * fl32 (1 - f))))
      in if i = 0 then (v, t, p)
         else if i = 1 then (q, v, p)
         else if i = 2 then (p, v, t)
         else if i = 3 then (p, q, v)
         else if i = 4 then (t, p, v)
         else (v, p, q))"

definition ToRgb :: "hsv \<Rightarrow> color res" where
  "ToRgb c =
     (let h = fl32 (of_nat (unat (m_hue c)) * fl32 (360 / 256));
          s = fl32 (of_nat (unat (m_sat c)) / 255);
          v = fl32 (of_nat (unat (m_val c)) / 255);
          (r, g, b) = (if s = 0 then (v, v, v) else hsv_sector h s v)
      in bind_res (round_channel r) (\<lambda>r. bind_res (round_channel g) (\<lambda>g.
         bind_res (round_channel b) (\<lambda>b. Inr (Color r g b)))))"

subsection \<open>Rounding is monotone, exact on representable numbers and close\<close>

lemma rint_int [simp]: "rint (of_int n) = n"
  by (simp add: rint_def)

lemma rint_nat [simp]: "rint (of_nat n) = int n"
  using rint_int [of "int n"] by (simp del: rint_int)

lemma rint_close: "\<bar>of_int (rint x) - x\<bar> \<le> 1 / 2"
  using floor_correct [of x] of_int_floor_le [of x]
  by (auto simp: rint_def Let_def abs_if simp del: of_int_floor_le)

lemma rint_mono:
  assumes "x \<le> y"
  shows "rint x \<le> rint y"
proof (cases "\<lfloor>x\<rfloor> = \<lfloor>y\<rfloor>")
  case True
  then show ?thesis
    using assms by (auto simp: rint_def Let_def)
next
  case False
  then have "\<lfloor>x\<rfloor> + 1 \<le> \<lfloor>y\<rfloor>"
    using floor_mono [OF assms] by linarith
  moreover have "rint x \<le> \<lfloor>x\<rfloor> + 1" "\<lfloor>y\<rfloor> \<le> rint y"
    by (auto simp: rint_def Let_def)
  ultimately show ?thesis
    by linarith
qed

lemma round_bits_exact:
  "0 < u \<Longrightarrow> k < 2 ^ p \<Longrightarrow> x = of_nat k * 2 ^ m * u \<Longrightarrow> m \<le> n \<Longrightarrow> round_bits p n u x = x"
proof (induction n arbitrary: u m)
  case 0
  then have "x / u = of_int (int k)"
    by simp
  with 0 show ?case
    by (simp del: of_int_of_nat_eq)
next
  case (Suc n)
  show ?case
  proof (cases "x < 2 ^ p * u")
    case True
    have "x / u = of_int (int (k * 2 ^ m))"
      using Suc.prems by simp
    with True Suc.prems show ?thesis
      by (simp del: of_int_of_nat_eq of_nat_mult)
  next
    case False
    have "m \<noteq> 0"
    proof
      assume "m = 0"
      have "(of_nat k :: rat) < of_nat (2 ^ p)"
        using Suc.prems(2) by (simp only: of_nat_less_iff)
      with \<open>m = 0\<close> have "x < 2 ^ p * u"
        using Suc.prems by simp
      with False show False by simp
    qed
    then obtain l where "m = Suc l"
      by (cases m) auto
    with Suc.prems have "round_bits p n (2 * u) x = x"
      by (intro Suc.IH [of "2 * u" l]) (simp_all add: mult.assoc)
    with False show ?thesis
      by simp
  qed
qed

lemma rint_le_int: "x \<le> of_int n \<Longrightarrow> rint x \<le> n" and int_le_rint: "of_int n \<le> x \<Longrightarrow> n \<le> rint x"
  using rint_mono [of x "of_int n"] rint_mono [of "of_int n" x] by simp_all

lemma rint_scaled:
  assumes "0 < u"
  shows "of_int k * u \<le> x \<Longrightarrow> of_int k * u \<le> of_int (rint (x / u)) * u"
    and "x \<le> of_int k * u \<Longrightarrow> of_int (rint (x / u)) * u \<le> of_int k * u"
proof -
  assume "of_int k * u \<le> x"
  then have "k \<le> rint (x / u)"
    using assms by (intro int_le_rint) (simp add: field_simps)
  then show "of_int k * u \<le> of_int (rint (x / u)) * u"
    using assms by simp
next
  assume "x \<le> of_int k * u"
  then have "rint (x / u) \<le> k"
    using assms by (intro rint_le_int) (simp add: field_simps)
  then show "of_int (rint (x / u)) * u \<le> of_int k * u"
    using assms by simp
qed

lemma round_bits_lower:
  assumes "0 < u" "0 < p" "2 ^ p * u \<le> x"
  shows "2 ^ p * u \<le> round_bits p n (2 * u) x"
  using assms
proof (induction n arbitrary: u)
  case 0
  then show ?case
    using rint_scaled(1) [of "2 * u" "2 ^ (p - 1)" x] by (cases p) (simp_all add: mult.assoc)
next
  case (Suc n)
  show ?case
  proof (cases "x < 2 ^ p * (2 * u)")
    case True
    then show ?thesis
      using Suc.prems rint_scaled(1) [of "2 * u" "2 ^ (p - 1)" x] by (cases p) (simp_all add: mult.assoc)
  next
    case False
    have "2 ^ p * u \<le> 2 ^ p * (2 * u)"
      using Suc.prems by simp
    also have "\<dots> \<le> round_bits p n (2 * (2 * u)) x"
      using Suc.IH [of "2 * u"] Suc.prems False by simp
    also have "\<dots> = round_bits p (Suc n) (2 * u) x"
      using False by simp
    finally show ?thesis .
  qed
qed

lemma round_bits_mono:
  "0 < u \<Longrightarrow> 0 < p \<Longrightarrow> x \<le> y \<Longrightarrow> round_bits p n u x \<le> round_bits p n u y"
proof (induction n arbitrary: u)
  case 0
  then show ?case
    by (simp add: rint_mono divide_right_mono mult_right_mono)
next
  case (Suc n)
  consider "y < 2 ^ p * u" | "x < 2 ^ p * u" "2 ^ p * u \<le> y" | "2 ^ p * u \<le> x"
    using Suc.prems by linarith
  then show ?case
  proof cases
    case 1
    then show ?thesis
      using Suc.prems by (simp add: rint_mono divide_right_mono mult_right_mono)
  next
    case 2
    have "round_bits p (Suc n) u x \<le> 2 ^ p * u"
      using 2 Suc.prems rint_scaled(2) [of u x "2 ^ p"] by simp
    also have "\<dots> \<le> round_bits p n (2 * u) y"
      using 2 Suc.prems by (intro round_bits_lower)
    also have "\<dots> = round_bits p (Suc n) u y"
      using 2 by simp
    finally show ?thesis .
  next
    case 3
    then show ?thesis
      using Suc.IH [of "2 * u"] Suc.prems by (simp add: not_less)
  qed
qed

lemma round_bits_close:
  "0 < u \<Longrightarrow> 0 \<le> x \<Longrightarrow> \<bar>round_bits p n u x - x\<bar> \<le> u / 2 \<or> \<bar>round_bits p n u x - x\<bar> \<le> x / 2 ^ p \<or> n = 0"
proof (induction n arbitrary: u)
  case 0
  then show ?case by simp
next
  case (Suc n)
  have scaled: "\<bar>of_int (rint (x / w)) * w - x\<bar> \<le> w / 2" if "0 < w" for w
  proof -
    have "\<bar>of_int (rint (x / w)) * w - x\<bar> = \<bar>of_int (rint (x / w)) - x / w\<bar> * w"
      using that by (simp add: abs_mult_pos left_diff_distrib)
    also have "\<dots> \<le> 1 / 2 * w"
      using that by (intro mult_right_mono rint_close) simp
    finally show ?thesis by simp
  qed
  show ?case
  proof (cases "x < 2 ^ p * u")
    case True
    then show ?thesis
      using scaled [OF Suc.prems(1)] by simp
  next
    case False
    then have "u \<le> x / 2 ^ p"
      by (simp add: field_simps)
    moreover have "\<bar>round_bits p n (2 * u) x - x\<bar> \<le> u \<or> \<bar>round_bits p n (2 * u) x - x\<bar> \<le> x / 2 ^ p"
    proof (cases n)
      case 0
      then show ?thesis
        using scaled [of "2 * u"] Suc.prems by simp
    next
      case Suc
      then show ?thesis
        using Suc.IH [of "2 * u"] Suc.prems by auto
    qed
    ultimately show ?thesis
      using False by auto
  qed
qed

text \<open>The two formats.\<close>

lemma fl32_mono: "0 \<le> x \<Longrightarrow> x \<le> y \<Longrightarrow> fl32 x \<le> fl32 y"
  by (simp add: fl32_def round_bits_mono)

lemma fl64_mono: "0 \<le> x \<Longrightarrow> x \<le> y \<Longrightarrow> fl64 x \<le> fl64 y"
  by (simp add: fl64_def round_bits_mono)

lemma fl32_exact:
  assumes "k < 2 ^ 24" "x = of_nat k / 2 ^ j" "j \<le> 149"
  shows "fl32 x = x"
proof -
  have "x = of_nat k * 2 ^ (149 - j) * (1 / 2 ^ 149)"
    using assms(2,3) by (simp add: power_diff)
  then have "round_bits 24 253 (1 / 2 ^ 149) x = x"
    by (rule round_bits_exact [rotated 2]) (use assms(1) in simp_all)
  moreover have "\<not> x < 0"
    using assms(2) by (simp add: not_less)
  ultimately show ?thesis
    by (simp only: fl32_def if_False)
qed

lemma fl64_exact:
  assumes "k < 2 ^ 53" "x = of_nat k / 2 ^ j" "j \<le> 1074"
  shows "fl64 x = x"
proof -
  have "x = of_nat k * 2 ^ (1074 - j) * (1 / 2 ^ 1074)"
    using assms(2,3) by (simp add: power_diff)
  then have "round_bits 53 2045 (1 / 2 ^ 1074) x = x"
    by (rule round_bits_exact [rotated 2]) (use assms(1) in simp_all)
  moreover have "\<not> x < 0"
    using assms(2) by (simp add: not_less)
  ultimately show ?thesis
    by (simp only: fl64_def if_False)
qed

lemma fl32_0 [simp]: "fl32 0 = 0" and fl32_1 [simp]: "fl32 1 = 1"
  using fl32_exact [of 0 0 0] fl32_exact [of 1 1 0] by simp_all

lemma fl64_0 [simp]: "fl64 0 = 0" and fl64_int: "n \<le> 255 \<Longrightarrow> fl64 (of_nat n) = of_nat n"
  using fl64_exact [of 0 0 0] fl64_exact [of n "of_nat n" 0] by simp_all

lemma fl32_unit:
  assumes "0 \<le> x" "x \<le> 1"
  shows "0 \<le> fl32 x" "fl32 x \<le> 1"
  using fl32_mono [of 0 x] fl32_mono [of x 1] assms by simp_all

text \<open>Rounding to a channel.\<close>

lemma fl64_near:
  assumes "n \<le> 255"
  shows "fl64 (of_nat n + 1 / 1024) = of_nat n + 1 / 1024"
    and "fl64 (of_nat n + 1 / 2 + 1 / 1024) = of_nat n + 1 / 2 + 1 / 1024"
    and "0 < n \<Longrightarrow> fl64 (of_nat n - 1 / 1024) = of_nat n - 1 / 1024"
    and "fl64 (of_nat n + 1 / 2 - 1 / 1024) = of_nat n + 1 / 2 - 1 / 1024"
proof -
  show "fl64 (of_nat n + 1 / 1024) = of_nat n + 1 / 1024"
    by (rule fl64_exact [of "n * 1024 + 1" _ 10]) (use assms in \<open>simp_all add: field_simps\<close>)
  show "fl64 (of_nat n + 1 / 2 + 1 / 1024) = of_nat n + 1 / 2 + 1 / 1024"
    by (rule fl64_exact [of "n * 1024 + 513" _ 10]) (use assms in \<open>simp_all add: field_simps\<close>)
  show "fl64 (of_nat n + 1 / 2 - 1 / 1024) = of_nat n + 1 / 2 - 1 / 1024"
    by (rule fl64_exact [of "n * 1024 + 511" _ 10]) (use assms in \<open>simp_all add: field_simps\<close>)
  show "fl64 (of_nat n - 1 / 1024) = of_nat n - 1 / 1024" if "0 < n"
    by (rule fl64_exact [of "n * 1024 - 1" _ 10]) (use assms that in \<open>simp_all add: field_simps of_nat_diff\<close>)
qed

lemma round_channel_floor:
  assumes "0 \<le> r" "r * 255 \<le> of_nat n + 1 / 1024" "n \<le> 255"
  shows "round_channel r = Inr (of_int \<lfloor>fl64 (fl64 (r * 255) + 1 / 2)\<rfloor>)"
    and "0 \<le> fl64 (r * 255)" "\<lfloor>fl64 (fl64 (r * 255) + 1 / 2)\<rfloor> \<le> int n"
proof -
  have "fl64 (r * 255) \<le> of_nat n + 1 / 1024"
    using fl64_mono [of "r * 255" "of_nat n + 1 / 1024"] fl64_near(1) assms by simp
  moreover show lo: "0 \<le> fl64 (r * 255)"
    using fl64_mono [of 0 "r * 255"] assms by simp
  ultimately have "fl64 (fl64 (r * 255) + 1 / 2) \<le> of_nat n + 1 / 2 + 1 / 1024"
    using fl64_mono [of "fl64 (r * 255) + 1 / 2" "of_nat n + 1 / 2 + 1 / 1024"] fl64_near(2) assms by simp
  moreover have "0 \<le> fl64 (fl64 (r * 255) + 1 / 2)"
    using fl64_mono [of 0 "fl64 (r * 255) + 1 / 2"] lo by simp
  moreover have "(of_nat n :: rat) \<le> 255"
    using assms(3) by simp
  ultimately show "round_channel r = Inr (of_int \<lfloor>fl64 (fl64 (r * 255) + 1 / 2)\<rfloor>)"
      "\<lfloor>fl64 (fl64 (r * 255) + 1 / 2)\<rfloor> \<le> int n"
    by (simp_all add: round_channel_def double_to_uint8_def floor_le_iff)
qed

lemma round_channel_le:
  assumes "0 \<le> r" "r * 255 \<le> of_nat n + 1 / 1024" "n \<le> 255"
  obtains b where "round_channel r = Inr b" "unat b \<le> n"
proof -
  let ?k = "\<lfloor>fl64 (fl64 (r * 255) + 1 / 2)\<rfloor>"
  have "0 \<le> fl64 (fl64 (r * 255) + 1 / 2)"
    using fl64_mono [of 0 "fl64 (r * 255) + 1 / 2"] round_channel_floor(2) [OF assms] by simp
  then obtain m where m: "?k = int m"
    using zero_le_imp_eq_int [of ?k] by auto
  then have "unat (of_int ?k :: byte) \<le> n"
    using round_channel_floor(3) [OF assms] assms(3) by (simp add: unat_of_nat)
  then show thesis
    using that round_channel_floor(1) [OF assms] by blast
qed

lemma round_channel_eq:
  assumes "0 \<le> r" "r * 255 \<le> of_nat n + 1 / 1024" "n \<le> 255" "of_nat n - 1 / 1024 \<le> r * 255"
  shows "round_channel r = Inr (of_nat n)"
proof -
  have "of_nat n - 1 / 1024 \<le> fl64 (r * 255)"
  proof (cases "n = 0")
    case True
    then show ?thesis
      using round_channel_floor(2) [OF assms(1-3)] by simp
  next
    case False
    then show ?thesis
      using fl64_mono [of "of_nat n - 1 / 1024" "r * 255"] fl64_near(3) [of n] assms by simp
  qed
  then have "of_nat n + 1 / 2 - 1 / 1024 \<le> fl64 (fl64 (r * 255) + 1 / 2)"
    using fl64_mono [of "of_nat n + 1 / 2 - 1 / 1024" "fl64 (r * 255) + 1 / 2"] fl64_near(4) [of n] assms
    by simp
  then have "int n \<le> \<lfloor>fl64 (fl64 (r * 255) + 1 / 2)\<rfloor>"
    by (simp add: le_floor_iff)
  with round_channel_floor [OF assms(1-3)] show ?thesis
    by (metis antisym of_int_of_nat_eq)
qed

lemma fl32_close: "0 \<le> x \<Longrightarrow> x \<le> 1 \<Longrightarrow> \<bar>fl32 x - x\<bar> \<le> 1 / 2 ^ 24"
proof -
  assume x: "0 \<le> x" "x \<le> 1"
  then have "x / 2 ^ 24 \<le> 1 / 2 ^ 24"
    by simp
  moreover have "(1 / 2 ^ 149) / 2 \<le> (1 / 2 ^ 24 :: rat)"
    by simp
  ultimately show ?thesis
    using round_bits_close [of "1 / 2 ^ 149" x 24 253] x unfolding fl32_def by fastforce
qed

subsection \<open>The conversion\<close>

lemma fl32_diff: "0 \<le> x \<Longrightarrow> x \<le> 1 \<Longrightarrow> 0 \<le> fl32 (1 - x) \<and> fl32 (1 - x) \<le> 1"
  by (simp add: fl32_unit)

lemma unit_mult: "0 \<le> (x :: rat) \<Longrightarrow> x \<le> 1 \<Longrightarrow> 0 \<le> y \<Longrightarrow> y \<le> 1 \<Longrightarrow> 0 \<le> x * y \<and> x * y \<le> 1"
  by (simp add: mult_le_one)

text \<open>A channel scaled down from the value: not negative and at most the value.\<close>

lemma scaled_value:
  assumes "v = fl32 (of_nat n / 255)" "n \<le> 255" "0 \<le> x" "x \<le> 1"
  shows "0 \<le> fl32 (v * x)" "fl32 (v * x) * 255 \<le> of_nat n + 1 / 1024"
proof -
  have y: "0 \<le> (of_nat n / 255 :: rat)" "(of_nat n / 255 :: rat) \<le> 1"
    using assms(2) by simp_all
  have v: "0 \<le> v" "v \<le> 1"
    using fl32_unit [OF y] assms(1) by simp_all
  have "v \<le> of_nat n / 255 + 1 / 2 ^ 24"
    using fl32_close [OF y] assms(1) by linarith
  moreover have "fl32 v \<le> v + 1 / 2 ^ 24"
    using fl32_close [OF v] by linarith
  moreover have "v * x \<le> v" "0 \<le> v * x"
    using v assms(3,4) by (simp_all add: mult_left_le)
  then have "fl32 (v * x) \<le> fl32 v"
    by (simp add: fl32_mono)
  ultimately have "fl32 (v * x) \<le> of_nat n / 255 + 2 / 2 ^ 24"
    by linarith
  then show "fl32 (v * x) * 255 \<le> of_nat n + 1 / 1024"
    by simp
  show "0 \<le> fl32 (v * x)"
    using fl32_mono [of 0 "v * x"] \<open>0 \<le> v * x\<close> by simp
qed

lemma unit_255: "n \<le> 255 \<Longrightarrow> 0 \<le> (of_nat n / 255 :: rat) \<and> of_nat n / 255 \<le> (1 :: rat)"
  by simp

lemma value_channel:
  assumes "n \<le> 255"
  shows "round_channel (fl32 (of_nat n / 255)) = Inr (of_nat n)"
proof -
  have y: "0 \<le> (of_nat n / 255 :: rat)" "(of_nat n / 255 :: rat) \<le> 1"
    using assms by simp_all
  show ?thesis
  proof (rule round_channel_eq)
    have "fl32 (of_nat n / 255) \<le> of_nat n / 255 + 1 / 2 ^ 24" "of_nat n / 255 - 1 / 2 ^ 24 \<le> fl32 (of_nat n / 255)"
      using fl32_close [OF y] by linarith+
    then show "fl32 (of_nat n / 255) * 255 \<le> of_nat n + 1 / 1024" "of_nat n - 1 / 1024 \<le> fl32 (of_nat n / 255) * 255"
      by simp_all
  qed (use fl32_unit [OF y] assms in simp_all)
qed

text \<open>Every sector has the value as one channel and \<open>p\<close> as another.\<close>

lemma hsv_sector_shape:
  assumes "0 \<le> h" "0 \<le> s" "s \<le> 1" "v = fl32 (of_nat n / 255)" "n \<le> 255"
    and "hsv_sector h s v = (r, g, b)"
  shows "\<forall>x \<in> {r, g, b}. x = v \<or> (\<exists>y. 0 \<le> y \<and> y \<le> 1 \<and> x = fl32 (v * y))"
    and "v \<in> {r, g, b}" and "fl32 (v * fl32 (1 - s)) \<in> {r, g, b}"
proof -
  define h' where "h' = fl32 (h / 60)"
  define f where "f = fl32 (h' - of_int \<lfloor>h'\<rfloor>)"
  have "0 \<le> h' - of_int \<lfloor>h'\<rfloor>" "h' - of_int \<lfloor>h'\<rfloor> \<le> 1"
    using floor_correct [of h'] by linarith+
  then have f: "0 \<le> f" "f \<le> 1"
    by (simp_all add: f_def fl32_unit)
  have p: "0 \<le> fl32 (1 - s) \<and> fl32 (1 - s) \<le> 1"
    using assms(2,3) by (rule fl32_diff)
  have sf: "0 \<le> fl32 (s * g) \<and> fl32 (s * g) \<le> 1" if "0 \<le> g" "g \<le> 1" for g
    using fl32_unit unit_mult [OF assms(2,3) that] by simp
  have q: "0 \<le> fl32 (1 - fl32 (s * f)) \<and> fl32 (1 - fl32 (s * f)) \<le> 1"
    using sf [OF f] by (simp add: fl32_diff)
  have t: "0 \<le> fl32 (1 - fl32 (s * fl32 (1 - f))) \<and> fl32 (1 - fl32 (s * fl32 (1 - f))) \<le> 1"
    using sf [of "fl32 (1 - f)"] fl32_diff [OF f] by (simp add: fl32_diff)
  note sector = assms(6) [unfolded hsv_sector_def Let_def, folded h'_def, folded f_def]
  show "\<forall>x \<in> {r, g, b}. x = v \<or> (\<exists>y. 0 \<le> y \<and> y \<le> 1 \<and> x = fl32 (v * y))"
    using sector p q t by (auto split: if_splits)
  show "v \<in> {r, g, b}" "fl32 (v * fl32 (1 - s)) \<in> {r, g, b}"
    using sector by (auto split: if_splits)
qed

lemma ToRgb_shape:
  "\<exists>r g b. ToRgb (HsvColor hue sat v) = Inr (Color r g b)
     \<and> unat v = max (unat r) (max (unat g) (unat b))
     \<and> (sat = 0 \<longrightarrow> r = v \<and> g = v \<and> b = v)
     \<and> (sat = 255 \<longrightarrow> 0 \<in> {r, g, b})"
proof -
  let ?h = "fl32 (of_nat (unat hue) * fl32 (360 / 256))"
    and ?s = "fl32 (of_nat (unat sat) / 255)" and ?v = "fl32 (of_nat (unat v) / 255)"
  have byte: "unat (b :: byte) \<le> 255" for b by (rule unat_byte_bound)
  have v: "round_channel ?v = Inr v"
    using value_channel [OF byte [of v]] by simp
  have s: "0 \<le> ?s" "?s \<le> 1"
    using unit_255 [OF byte [of sat]] fl32_unit by blast+
  have h: "0 \<le> ?h"
  proof -
    have "0 \<le> fl32 (360 / 256)"
      using fl32_mono [of 0 "360 / 256"] by simp
    then have "0 \<le> of_nat (unat hue) * fl32 (360 / 256)"
      by (intro mult_nonneg_nonneg of_nat_0_le_iff)
    then show ?thesis
      using fl32_mono [OF order_refl] by simp
  qed
  obtain x y z where xyz: "(if ?s = 0 then (?v, ?v, ?v) else hsv_sector ?h ?s ?v) = (x, y, z)"
    by (metis surj_pair)
  have shape: "\<forall>c \<in> {x, y, z}. c = ?v \<or> (\<exists>w. 0 \<le> w \<and> w \<le> 1 \<and> c = fl32 (?v * w))"
    and val: "?v \<in> {x, y, z}"
    and p: "?s \<noteq> 0 \<Longrightarrow> fl32 (?v * fl32 (1 - ?s)) \<in> {x, y, z}"
    using xyz hsv_sector_shape [OF h s refl byte [of v], of x y z] by (auto split: if_splits)
  have chan: "\<exists>b. round_channel c = Inr b \<and> unat b \<le> unat v" if "c \<in> {x, y, z}" for c
  proof -
    from shape that consider "c = ?v" | w where "0 \<le> w" "w \<le> 1" "c = fl32 (?v * w)"
      by blast
    then show ?thesis
    proof cases
      case 2
      then show ?thesis
        using scaled_value [OF refl byte [of v] 2(1,2)] round_channel_le [of c "unat v"] byte [of v]
        by blast
    qed (use v in simp)
  qed
  obtain r where r: "round_channel x = Inr r" "unat r \<le> unat v"
    using chan [of x] by auto
  obtain g where g: "round_channel y = Inr g" "unat g \<le> unat v"
    using chan [of y] by auto
  obtain b where b: "round_channel z = Inr b" "unat b \<le> unat v"
    using chan [of z] by auto
  note rgb = r(1) g(1) b(1)
  have "ToRgb (HsvColor hue sat v) = Inr (Color r g b)"
    by (simp only: ToRgb_def HsvColor_def hsv.simps Let_def xyz rgb prod.case bind_res_Inr)
  moreover have "v \<in> {r, g, b}"
    using val v rgb by auto
  then have "unat v = max (unat r) (max (unat g) (unat b))"
    using r(2) g(2) b(2) by auto
  moreover have "r = v \<and> g = v \<and> b = v" if "sat = 0"
  proof -
    have "x = ?v" "y = ?v" "z = ?v"
      using that xyz by simp_all
    then show ?thesis
      using v rgb by (simp del: of_nat_unat)
  qed
  moreover have "0 \<in> {r, g, b}" if "sat = 255"
  proof -
    have "round_channel 0 = Inr 0"
      using round_channel_eq [of 0 0] by simp
    then show ?thesis
      using p that rgb by auto
  qed
  ultimately show ?thesis
    by blast
qed

lemma ToRgb_total: "\<exists>c. ToRgb (HsvColor hue sat v) = Inr c"
  using ToRgb_shape [of hue sat v] by blast

text \<open>
  Converting any HSV colour to RGB stays inside the range of the channels at every
  floating-point conversion; the largest channel is exactly the value; without saturation the
  colour is the grey of that value, and with full saturation some channel is 0.
\<close>

theorem ToRgb_channels:
  "\<exists>r g b. ToRgb (HsvColor hue sat v) = Inr (Color r g b)
     \<and> unat v = max (unat r) (max (unat g) (unat b))
     \<and> (sat = 0 \<longrightarrow> r = v \<and> g = v \<and> b = v)
     \<and> (sat = 255 \<longrightarrow> 0 \<in> {r, g, b})"
  by (rule ToRgb_shape)

theorem ToRgb_channels_witness:
  "ToRgb (HsvColor 100 0 77) = Inr (Color 77 77 77)
   \<and> (\<exists>r g b. ToRgb (HsvColor 3 255 200) = Inr (Color r g b) \<and> 0 \<in> {r, g, b})"
proof
  show "ToRgb (HsvColor 100 0 77) = Inr (Color 77 77 77)"
    using ToRgb_channels [of 100 0 77] by auto
  show "\<exists>r g b. ToRgb (HsvColor 3 255 200) = Inr (Color r g b) \<and> 0 \<in> {r, g, b}"
    using ToRgb_channels [of 3 255 200] by auto
qed

end
