(* ===== verification/Patterns.thy ===== *)
theory Patterns
  imports Render HsvColor
begin

section \<open>The patterns\<close>

text \<open>
  \<open>CampLight/camplight/pattern/\<close>: the classes derived from \<open>render::Pattern\<close> that draw one
  frame of a picture for a timestamp. The image of the font that \<open>Text\<close> reads, 49152 bytes of
  data in \<open>font/Jdpage_8x8.cpp\<close>, is the argument \<open>font\<close> of the definitions; a read outside it
  is a fault, as is the remainder by zero that an empty text would lead to.
\<close>

datatype pattern = Solid color | DiagonalRainbow | TestPattern | TextPattern string

fun Pattern_GetDescription :: "pattern \<Rightarrow> string" where
  "Pattern_GetDescription (Solid color) = Format ''Solid[color=%s]'' [ArgStr (Color_ToString color)]"
| "Pattern_GetDescription DiagonalRainbow = ''Diagnoal-Rainbow''"
| "Pattern_GetDescription TestPattern = ''TestPattern''"
| "Pattern_GetDescription (TextPattern text) = Format ''Text[text=%s]'' [ArgStr text]"

definition Solid_RenderTo :: "color \<Rightarrow> grid \<Rightarrow> grid" where
  "Solid_RenderTo color dest = fill (\<lambda>_ _. color) dest"

definition test_color :: "timestamp \<Rightarrow> color" where
  "test_color t = (let n = (t div 2000) mod 4
     in if n = 0 then Color 0 0 0 else if n = 1 then Color 255 0 0
        else if n = 2 then Color 0 255 0 else if n = 3 then Color 0 0 255 else Color_black)"

definition TestPattern_RenderTo :: "timestamp \<Rightarrow> grid \<Rightarrow> grid" where
  "TestPattern_RenderTo t dest = fill (\<lambda>_ _. test_color t) dest"

text \<open>A loop over a grid whose body may fail.\<close>

definition fill_res :: "(nat \<Rightarrow> nat \<Rightarrow> color res) \<Rightarrow> nat list \<Rightarrow> nat list \<Rightarrow> grid \<Rightarrow> grid res" where
  "fill_res f rows cols = fold_res (\<lambda>i. fold_res (\<lambda>j g. bind_res (f i j) (\<lambda>c. Inr (set_led i j c g))) cols) rows"

definition TIME_RATE :: byte where
  "TIME_RATE = 42"

definition SPACE_RATE :: byte where
  "SPACE_RATE = 28"

definition rainbow_offset :: "timestamp \<Rightarrow> nat \<Rightarrow> nat \<Rightarrow> byte" where
  "rainbow_offset t i j =
     (let overall_offset = (ucast (t * ucast TIME_RATE div 1000) :: byte)
      in ucast (ucast overall_offset + of_nat i * ucast SPACE_RATE + of_nat j * ucast SPACE_RATE :: u64))"

definition DiagonalRainbow_RenderTo :: "timestamp \<Rightarrow> grid \<Rightarrow> grid res" where
  "DiagonalRainbow_RenderTo t dest =
     fill_res (\<lambda>i j. ToRgb (HsvColor (rainbow_offset t i j) 255 255)) [0..<GRID_SIZE] [0..<GRID_SIZE] dest"

subsection \<open>Text\<close>

definition IMAGE_PIXELS_PER_ROW :: u64 where "IMAGE_PIXELS_PER_ROW = 128"
definition IMAGE_CHAR_PIXELS :: u64 where "IMAGE_CHAR_PIXELS = 8"
definition IMAGE_CHARS_PER_ROW :: u64 where "IMAGE_CHARS_PER_ROW = 16"

definition row_colors :: "color list" where
  "row_colors = [Color 255 0 0, Color 255 128 0, Color 255 255 0, Color 0 255 0,
     Color 0 255 255, Color 0 0 255, Color 128 0 255, Color 255 0 128]"

definition font_byte :: "byte list \<Rightarrow> u64 \<Rightarrow> byte res" where
  "font_byte font offset = (if unat offset < length font then Inr (font ! unat offset) else Inl OutOfBounds)"

text \<open>A character is signed, and sign-extended when it becomes a \<open>size_t\<close>.\<close>

definition text_pixel :: "byte list \<Rightarrow> string \<Rightarrow> timestamp \<Rightarrow> nat \<Rightarrow> nat \<Rightarrow> color res" where
  "text_pixel font text t i j =
     (let pixels_wide = IMAGE_CHAR_PIXELS * of_nat (length text);
          pixel_offset = (t div 125) mod pixels_wide;
          pixel_index = (pixel_offset + of_nat i) mod pixels_wide;
          char_index = pixel_index div IMAGE_CHAR_PIXELS;
          char_col = pixel_index mod IMAGE_CHAR_PIXELS
      in if \<not> unat char_index < length text then Inl OutOfBounds
         else
           let char_val = (word_of_int (signed_char (text ! unat char_index)) :: u64);
               image_x = (char_val mod IMAGE_CHARS_PER_ROW) * IMAGE_CHAR_PIXELS;
               image_y = (char_val div IMAGE_CHARS_PER_ROW) * IMAGE_CHAR_PIXELS;
               data_offset = 3 * ((image_x + char_col) + ((image_y + of_nat j) * IMAGE_PIXELS_PER_ROW))
           in bind_res (font_byte font data_offset) (\<lambda>r.
              bind_res (font_byte font (data_offset + 1)) (\<lambda>g.
              bind_res (font_byte font (data_offset + 2)) (\<lambda>b.
                Inr (if r = 255 \<and> g = 0 \<and> b = 255 then Color_black else row_colors ! j)))))"

definition Text_RenderTo :: "byte list \<Rightarrow> string \<Rightarrow> timestamp \<Rightarrow> grid \<Rightarrow> grid res" where
  "Text_RenderTo font text t dest =
     (if IMAGE_CHAR_PIXELS * of_nat (length text) = 0 then Inl DivideByZero
      else bind_res (fill_res (text_pixel font text t) [0..<GRID_SIZE] [0..<unat IMAGE_CHAR_PIXELS] dest)
             (fill_res (\<lambda>_ _. Inr Color_black) [0..<GRID_SIZE] [unat IMAGE_CHAR_PIXELS..<GRID_SIZE]))"

text \<open>The virtual method.\<close>

fun Pattern_RenderTo :: "byte list \<Rightarrow> pattern \<Rightarrow> grid \<Rightarrow> timestamp \<Rightarrow> grid res" where
  "Pattern_RenderTo font (Solid color) dest t = Inr (Solid_RenderTo color dest)"
| "Pattern_RenderTo font DiagonalRainbow dest t = DiagonalRainbow_RenderTo t dest"
| "Pattern_RenderTo font TestPattern dest t = Inr (TestPattern_RenderTo t dest)"
| "Pattern_RenderTo font (TextPattern text) dest t = Text_RenderTo font text t dest"

subsection \<open>Loops whose body does not fail\<close>

lemma fold_res_Inr: "(\<And>x s. x \<in> set xs \<Longrightarrow> f x s = Inr (g x s)) \<Longrightarrow> fold_res f xs s = Inr (fold g xs s)"
  by (induction xs arbitrary: s) simp_all

lemma fill_res_Inr:
  assumes "\<And>i j. i \<in> set rows \<Longrightarrow> j \<in> set cols \<Longrightarrow> f i j = Inr (h i j)"
  shows "fill_res f rows cols g = Inr (fold (\<lambda>i. fold (\<lambda>j. set_led i j (h i j)) cols) rows g)"
  unfolding fill_res_def using assms by (intro fold_res_Inr) simp

lemma fill_res_eq:
  assumes "grid_ok g" "\<And>i j. i < GRID_SIZE \<Longrightarrow> j < GRID_SIZE \<Longrightarrow> f i j = Inr (h i j)"
  shows "fill_res f [0..<GRID_SIZE] [0..<GRID_SIZE] g = Inr (grid_of h)"
proof -
  have "fill_res f [0..<GRID_SIZE] [0..<GRID_SIZE] g = Inr (fill h g)"
    using assms(2) by (subst fill_res_Inr [of _ _ f h]) (auto simp: fill_def for_leds_def)
  then show ?thesis
    using assms(1) by (simp add: fill_eq)
qed

lemma set_led_ok:
  assumes "grid_ok g" "i < GRID_SIZE" "j < GRID_SIZE"
  shows "grid_ok (set_led i j c g)"
    and "k < GRID_SIZE \<Longrightarrow> l < GRID_SIZE \<Longrightarrow> set_led i j c g ! k ! l = (if k = i \<and> l = j then c else g ! k ! l)"
proof -
  have "set (set_led i j c g) \<subseteq> insert ((g ! i)[j := c]) (set g)"
    unfolding set_led_def by (rule set_update_subset_insert)
  then show "grid_ok (set_led i j c g)"
    using assms by (auto simp: grid_ok_def set_led_def)
qed (use assms in \<open>simp add: set_led_def nth_list_update\<close>)

lemma fold_row_nth:
  assumes "grid_ok g" "i < GRID_SIZE" "set cols \<subseteq> {..<GRID_SIZE}"
  shows "grid_ok (fold (\<lambda>j. set_led i j (h i j)) cols g)
    \<and> (\<forall>k < GRID_SIZE. \<forall>l < GRID_SIZE. fold (\<lambda>j. set_led i j (h i j)) cols g ! k ! l
         = (if k = i \<and> l \<in> set cols then h i l else g ! k ! l))"
  using assms by (induction cols arbitrary: g) (auto simp: set_led_ok)

lemma fold_leds_nth:
  assumes "grid_ok g" "set rows \<subseteq> {..<GRID_SIZE}" "set cols \<subseteq> {..<GRID_SIZE}"
  shows "grid_ok (fold (\<lambda>i. fold (\<lambda>j. set_led i j (h i j)) cols) rows g)
    \<and> (\<forall>k < GRID_SIZE. \<forall>l < GRID_SIZE. fold (\<lambda>i. fold (\<lambda>j. set_led i j (h i j)) cols) rows g ! k ! l
         = (if k \<in> set rows \<and> l \<in> set cols then h k l else g ! k ! l))"
  using assms
proof (induction rows arbitrary: g)
  case Nil
  then show ?case by simp
next
  case (Cons i rows)
  let ?g = "fold (\<lambda>j. set_led i j (h i j)) cols g"
  have row: "grid_ok ?g" "\<forall>k < GRID_SIZE. \<forall>l < GRID_SIZE. ?g ! k ! l = (if k = i \<and> l \<in> set cols then h i l else g ! k ! l)"
    using fold_row_nth [of g i cols h] Cons.prems by auto
  with Cons.IH [OF row(1)] Cons.prems show ?case
    by simp
qed

subsection \<open>The text pattern\<close>

definition font_ok :: "byte list \<Rightarrow> bool" where
  "font_ok font \<longleftrightarrow> length font = 3 * 128 * 128"

definition text_ok :: "string \<Rightarrow> bool" where
  "text_ok text \<longleftrightarrow> text \<noteq> [] \<and> length text < 2 ^ 32 \<and> (\<forall>c \<in> set text. (of_char c :: nat) < 128)"

text \<open>The column of the text, 8 for each character, that column \<open>i\<close> of the display shows.\<close>

definition text_column :: "string \<Rightarrow> timestamp \<Rightarrow> nat \<Rightarrow> nat" where
  "text_column text t i = (unat t div 125 + i) mod (8 * length text)"

text \<open>The pixel of the font image in column \<open>x\<close>, row \<open>y\<close> of a character's cell.\<close>

definition glyph_pixel :: "byte list \<Rightarrow> char \<Rightarrow> nat \<Rightarrow> nat \<Rightarrow> byte \<times> byte \<times> byte" where
  "glyph_pixel font c x y =
     (let n = of_char c; p = 3 * ((n mod 16) * 8 + x + ((n div 16) * 8 + y) * 128)
      in (font ! p, font ! (p + 1), font ! (p + 2)))"

definition text_spec :: "byte list \<Rightarrow> string \<Rightarrow> timestamp \<Rightarrow> nat \<Rightarrow> nat \<Rightarrow> color" where
  "text_spec font text t i j =
     (let col = text_column text t i
      in if j = 8 \<or> glyph_pixel font (text ! (col div 8)) (col mod 8) j = (255, 0, 255)
         then Color_black else row_colors ! j)"

lemma unat_8_mult:
  assumes "n < 2 ^ 32"
  shows "unat (IMAGE_CHAR_PIXELS * of_nat n) = 8 * n"
proof -
  have "IMAGE_CHAR_PIXELS * of_nat n = (of_nat (8 * n) :: u64)"
    by (simp add: IMAGE_CHAR_PIXELS_def)
  then show ?thesis
    using assms by (simp only: unat_of_nat) simp
qed

lemma signed_char_ascii: "(of_char c :: nat) < 128 \<Longrightarrow> signed_char c = int (of_char c)"
  by (simp add: signed_char_def)

lemma no_wrap: "(a :: nat) < 8 * n \<Longrightarrow> i < 9 \<Longrightarrow> n < 2 ^ 32 \<Longrightarrow> a + i < 2 ^ 64"
  by simp

lemma text_column_word:
  assumes "text_ok text" "i < GRID_SIZE"
  shows "unat (((t div 125) mod (IMAGE_CHAR_PIXELS * of_nat (length text)) + of_nat i)
      mod (IMAGE_CHAR_PIXELS * of_nat (length text))) = text_column text t i"
proof -
  let ?W = "IMAGE_CHAR_PIXELS * of_nat (length text) :: u64"
  have W: "unat ?W = 8 * length text" and len: "length text < 2 ^ 32" "0 < length text"
    using assms(1) unat_8_mult by (auto simp: text_ok_def)
  have o: "unat ((t div 125) mod ?W) = (unat t div 125) mod (8 * length text)"
    by (simp add: unat_mod unat_div W)
  have "(unat t div 125) mod (8 * length text) < 8 * length text"
    using len by simp
  then have "(unat t div 125) mod (8 * length text) + i < 2 ^ 64"
    using assms(2) len(1) unfolding GRID_SIZE_def by (rule no_wrap)
  then have "unat ((t div 125) mod ?W + of_nat i) = (unat t div 125) mod (8 * length text) + i"
    using assms(2) len by (subst unat_add_lem [THEN iffD1])
      (simp_all add: o unat_of_nat GRID_SIZE_def)
  then show ?thesis
    by (simp add: unat_mod W text_column_def mod_add_left_eq)
qed

lemma data_offset_word:
  assumes "n < 128" "x < 8" "y < 8"
  shows "unat (3 * (((of_nat n mod IMAGE_CHARS_PER_ROW) * IMAGE_CHAR_PIXELS + of_nat x)
      + (((of_nat n div IMAGE_CHARS_PER_ROW) * IMAGE_CHAR_PIXELS + of_nat y) * IMAGE_PIXELS_PER_ROW)) + of_nat k :: u64)
      = (3 * ((n mod 16) * 8 + x + ((n div 16) * 8 + y) * 128) + k) mod 2 ^ 64"
proof -
  have "of_nat n mod IMAGE_CHARS_PER_ROW = (of_nat (n mod 16) :: u64)"
    using assms(1) by (simp add: word_unat_eq_iff IMAGE_CHARS_PER_ROW_def unat_mod unat_of_nat)
  moreover have "of_nat n div IMAGE_CHARS_PER_ROW = (of_nat (n div 16) :: u64)"
    using assms(1) by (simp add: word_unat_eq_iff IMAGE_CHARS_PER_ROW_def unat_div unat_of_nat)
  ultimately have "3 * (((of_nat n mod IMAGE_CHARS_PER_ROW) * IMAGE_CHAR_PIXELS + of_nat x)
      + (((of_nat n div IMAGE_CHARS_PER_ROW) * IMAGE_CHAR_PIXELS + of_nat y) * IMAGE_PIXELS_PER_ROW)) + of_nat k
      = (of_nat (3 * ((n mod 16) * 8 + x + ((n div 16) * 8 + y) * 128) + k) :: u64)"
    by (simp add: IMAGE_CHAR_PIXELS_def IMAGE_PIXELS_PER_ROW_def)
  then show ?thesis
    by (simp only: unat_of_nat) simp
qed

lemma font_bound: "a \<le> 7 \<Longrightarrow> b \<le> 15 \<Longrightarrow> c \<le> 7 \<Longrightarrow> d \<le> 7 \<Longrightarrow> 3 * (b * 8 + c + (a * 8 + d) * 128) + 2 < (49152 :: nat)"
  by simp

lemma text_pixel_eq:
  assumes "font_ok font" "text_ok text" "i < GRID_SIZE" "j < 8"
  shows "text_pixel font text t i j = Inr (text_spec font text t i j)"
proof -
  let ?W = "IMAGE_CHAR_PIXELS * of_nat (length text) :: u64"
  define P where "P = ((t div 125) mod ?W + of_nat i) mod ?W"
  define col where "col = text_column text t i"
  have P: "unat P = col"
    using text_column_word [OF assms(2,3)] by (simp add: P_def col_def)
  have index: "unat (P div IMAGE_CHAR_PIXELS) = col div 8"
    by (simp add: unat_div P IMAGE_CHAR_PIXELS_def)
  have column: "P mod IMAGE_CHAR_PIXELS = of_nat (col mod 8)"
    by (simp add: word_unat_eq_iff unat_mod P IMAGE_CHAR_PIXELS_def unat_of_nat)
  have "col < 8 * length text"
    using assms(2) by (simp add: col_def text_column_def text_ok_def)
  then have inside: "col div 8 < length text"
    by (simp add: div_less_iff_less_mult mult.commute)
  define n where "n = (of_char (text ! (col div 8)) :: nat)"
  have n: "n < 128"
    using assms(2) inside by (simp add: n_def text_ok_def)
  have char: "word_of_int (signed_char (text ! (col div 8))) = (of_nat n :: u64)"
    using n by (simp add: signed_char_ascii n_def)
  let ?p = "3 * ((n mod 16) * 8 + col mod 8 + ((n div 16) * 8 + j) * 128)"
  have "n div 16 \<le> 7" "n mod 16 \<le> 15" "col mod 8 \<le> 7" "j \<le> 7"
    using n assms(4) by (simp_all add: less_mult_imp_div_less less_Suc_eq_le [symmetric])
  then have p: "?p + 2 < 49152"
    by (rule font_bound)
  have byte: "font_byte font (3 * (((of_nat n mod IMAGE_CHARS_PER_ROW) * IMAGE_CHAR_PIXELS + of_nat (col mod 8))
      + (((of_nat n div IMAGE_CHARS_PER_ROW) * IMAGE_CHAR_PIXELS + of_nat j) * IMAGE_PIXELS_PER_ROW)) + of_nat k)
      = Inr (font ! (?p + k))" if "k \<le> 2" for k
    using data_offset_word [OF n _ assms(4), of "col mod 8" k] assms(1) p that
    by (simp add: font_byte_def font_ok_def)
  show ?thesis
    using byte [of 0] byte [of 1] byte [of 2] inside assms(4)
    unfolding text_pixel_def Let_def
    by (simp add: P_def [symmetric] index column char text_spec_def glyph_pixel_def
        col_def [symmetric] n_def [symmetric] Let_def)
qed

lemma Text_RenderTo_eq:
  assumes "font_ok font" "text_ok text" "grid_ok dest"
  shows "Text_RenderTo font text t dest = Inr (grid_of (text_spec font text t))"
proof -
  let ?letters = "fold (\<lambda>i. fold (\<lambda>j. set_led i j (text_spec font text t i j)) [0..<8]) [0..<GRID_SIZE] dest"
  let ?all = "fold (\<lambda>i. fold (\<lambda>j. set_led i j Color_black) [8..<GRID_SIZE]) [0..<GRID_SIZE] ?letters"
  have width: "unat IMAGE_CHAR_PIXELS = 8" "8 < GRID_SIZE"
    by (simp_all add: IMAGE_CHAR_PIXELS_def GRID_SIZE_def)
  have "unat (IMAGE_CHAR_PIXELS * of_nat (length text)) \<noteq> 0"
    using assms(2) unat_8_mult [of "length text"] by (simp add: text_ok_def)
  then have "IMAGE_CHAR_PIXELS * of_nat (length text) \<noteq> 0"
    by (metis unat_0)
  moreover have "fill_res (text_pixel font text t) [0..<GRID_SIZE] [0..<8] dest = Inr ?letters"
    by (rule fill_res_Inr) (use text_pixel_eq [OF assms(1,2)] in auto)
  moreover have "fill_res (\<lambda>_ _. Inr Color_black) [0..<GRID_SIZE] [8..<GRID_SIZE] ?letters = Inr ?all"
    by (rule fill_res_Inr) simp
  ultimately have "Text_RenderTo font text t dest = Inr ?all"
    by (simp add: Text_RenderTo_def width)
  moreover have letters: "grid_ok ?letters \<and> (\<forall>k < GRID_SIZE. \<forall>l < GRID_SIZE. ?letters ! k ! l
      = (if k \<in> set [0..<GRID_SIZE] \<and> l \<in> set [0..<8] then text_spec font text t k l else dest ! k ! l))"
    by (rule fold_leds_nth) (use assms(3) width in auto)
  have all: "grid_ok ?all \<and> (\<forall>k < GRID_SIZE. \<forall>l < GRID_SIZE. ?all ! k ! l
      = (if k \<in> set [0..<GRID_SIZE] \<and> l \<in> set [8..<GRID_SIZE] then Color_black else ?letters ! k ! l))"
    by (rule fold_leds_nth) (use letters in auto)
  have "?all = grid_of (text_spec font text t)"
  proof (rule grid_eqI)
    fix i j assume ij: "i < GRID_SIZE" "j < GRID_SIZE"
    show "?all ! i ! j = grid_of (text_spec font text t) ! i ! j"
    proof (cases "j < 8")
      case True
      then show ?thesis
        using all letters ij by simp
    next
      case False
      then have "j = 8"
        using ij by (simp add: GRID_SIZE_def)
      then show ?thesis
        using all ij by (simp add: text_spec_def)
    qed
  qed (use all in auto)
  ultimately show ?thesis
    by simp
qed

subsection \<open>What a pattern shows\<close>

fun pattern_ok :: "pattern \<Rightarrow> bool" where
  "pattern_ok (TextPattern text) = text_ok text"
| "pattern_ok _ = True"

fun pattern_image :: "byte list \<Rightarrow> pattern \<Rightarrow> timestamp \<Rightarrow> nat \<Rightarrow> nat \<Rightarrow> color" where
  "pattern_image font (Solid color) t i j = color"
| "pattern_image font DiagonalRainbow t i j = projr (ToRgb (HsvColor (rainbow_offset t i j) 255 255))"
| "pattern_image font TestPattern t i j = test_color t"
| "pattern_image font (TextPattern text) t i j = text_spec font text t i j"

lemma ToRgb_Inr: "ToRgb (HsvColor h s v) = Inr (projr (ToRgb (HsvColor h s v)))"
proof -
  obtain c where "ToRgb (HsvColor h s v) = Inr c"
    using ToRgb_total by blast
  then show ?thesis
    by simp
qed

lemma Pattern_RenderTo_eq:
  assumes "font_ok font" "pattern_ok p" "grid_ok dest"
  shows "Pattern_RenderTo font p dest t = Inr (grid_of (pattern_image font p t))"
proof (cases p)
  case (Solid color)
  then show ?thesis
    using assms by (simp add: Solid_RenderTo_def fill_eq) (simp add: grid_of_eq_iff)
next
  case DiagonalRainbow
  have "DiagonalRainbow_RenderTo t dest
      = Inr (grid_of (\<lambda>i j. projr (ToRgb (HsvColor (rainbow_offset t i j) 255 255))))"
    unfolding DiagonalRainbow_RenderTo_def by (rule fill_res_eq [OF assms(3)]) (rule ToRgb_Inr)
  then show ?thesis
    by (simp add: DiagonalRainbow grid_of_eq_iff)
next
  case TestPattern
  then show ?thesis
    using assms by (simp add: TestPattern_RenderTo_def fill_eq) (simp add: grid_of_eq_iff)
next
  case (TextPattern str)
  then show ?thesis
    using assms Text_RenderTo_eq [of font str dest t] by (simp add: grid_of_eq_iff)
qed

text \<open>The classes of the program implement the interface, given the image of the font.\<close>

interpretation patterns: pattern_interface "Pattern_RenderTo font"
    "\<lambda>p. font_ok font \<and> pattern_ok p" "\<lambda>p t. grid_of (pattern_image font p t)"
  for font :: "byte list"
  by unfold_locales (simp_all add: Pattern_RenderTo_eq)

text \<open>The rainbow depends on the diagonal only.\<close>

lemma rainbow_diagonal: "rainbow_offset t i j = ucast (t * 42 div 1000) + of_nat (28 * (i + j))"
proof -
  have up: "(ucast (ucast a + of_nat m * 28 + of_nat n * 28 :: u64) :: byte) = a + of_nat m * 28 + of_nat n * 28"
    for a :: byte and m n
    by (simp add: word_unat_eq_iff unsigned_ucast_eq take_bit_eq_mod unat_word_ariths unat_of_nat
        mod_mod_cancel mod_simps)
  have rates: "(ucast (28 :: byte) :: u64) = 28" "(ucast (42 :: byte) :: u64) = 42"
    by simp_all
  have "rainbow_offset t i j = ucast (t * 42 div 1000) + of_nat i * 28 + of_nat j * 28"
    unfolding rainbow_offset_def TIME_RATE_def SPACE_RATE_def Let_def rates up ..
  then show ?thesis
    by (simp add: distrib_left add.assoc mult.commute)
qed

text \<open>
  Drawing a pattern always succeeds: no read of the font or the text is outside it, no
  colour conversion leaves its range; and every LED of the grid is assigned, so nothing of
  what was drawn there before remains.
\<close>

theorem Pattern_RenderTo_total:
  assumes "font_ok font" "pattern_ok p" "grid_ok dest"
  shows "Pattern_RenderTo font p dest t = Inr (grid_of (pattern_image font p t))"
  using assms by (rule Pattern_RenderTo_eq)

theorem Pattern_RenderTo_total_witness:
  "Pattern_RenderTo (replicate 49152 0) (TextPattern ''CampIt 2016 '') ColorGrid 1000
     = Inr (grid_of (pattern_image (replicate 49152 0) (TextPattern ''CampIt 2016 '') 1000))"
  by (rule Pattern_RenderTo_total) (simp_all add: font_ok_def text_ok_def)

text \<open>
  A text scrolls to the left by one column every 125 milliseconds: 125 milliseconds later,
  each column but the last shows what the column to its right showed.
\<close>

theorem Text_scrolls:
  assumes "font_ok font" "text_ok str" "grid_ok d1" "grid_ok d2" "unat t + 125 < 2 ^ 64"
    and "Text_RenderTo font str t d1 = Inr g1" "Text_RenderTo font str (t + 125) d2 = Inr g2"
    and "i + 1 < GRID_SIZE" "j < GRID_SIZE"
  shows "g2 ! i ! j = g1 ! (i + 1) ! j"
proof -
  have "unat (t + 125) = unat t + 125"
    using assms(5) by (subst unat_add_lem [THEN iffD1]) simp_all
  then have "text_column str (t + 125) i = text_column str t (i + 1)"
    by (simp add: text_column_def)
  then show ?thesis
    using Text_RenderTo_eq [OF assms(1,2,3), of t] Text_RenderTo_eq [OF assms(1,2,4), of "t + 125"] assms(6-9)
    by (auto simp: text_spec_def)
qed

theorem Text_scrolls_witness:
  "grid_of (text_spec (replicate 49152 0) ''Hi'' (250 + 125)) ! 3 ! 2
     = grid_of (text_spec (replicate 49152 0) ''Hi'' 250) ! (3 + 1) ! 2"
proof (rule Text_scrolls)
  show ok: "font_ok (replicate 49152 0)" "text_ok ''Hi''" "grid_ok ColorGrid" "grid_ok ColorGrid"
    by (simp_all add: font_ok_def text_ok_def)
  show "Text_RenderTo (replicate 49152 0) ''Hi'' 250 ColorGrid
      = Inr (grid_of (text_spec (replicate 49152 0) ''Hi'' 250))"
    "Text_RenderTo (replicate 49152 0) ''Hi'' (250 + 125) ColorGrid
      = Inr (grid_of (text_spec (replicate 49152 0) ''Hi'' (250 + 125)))"
    by (rule Text_RenderTo_eq [OF ok(1-3)])+
qed (simp_all add: GRID_SIZE_def)

end
