(* ===== verification/Transitions.thy ===== *)
theory Transitions
  imports Patterns
begin

section \<open>The transitions\<close>

text \<open>
  \<open>CampLight/camplight/transition/\<close>: the classes derived from \<open>render::Transition\<close>, which
  mix two pictures while one pattern replaces another. The sequence of the results of
  \<open>rand()\<close> is the argument \<open>rnd\<close>, and the number of calls made so far is passed along.
\<close>

datatype transition =
    Immediate
  | LinearFade timespan
  | RandomDither timespan nat "bool list list"
  | Swipe timespan nat

definition RandomDither_new :: "timespan \<Rightarrow> transition" where
  "RandomDither_new duration = RandomDither duration 0 (replicate GRID_SIZE (replicate GRID_SIZE False))"

definition Swipe_new :: "(nat \<Rightarrow> nat) \<Rightarrow> nat \<Rightarrow> timespan \<Rightarrow> transition \<times> nat" where
  "Swipe_new rnd pos duration = (Swipe duration (rnd pos mod 8), pos + 1)"

fun Transition_GetDescription :: "transition \<Rightarrow> string" where
  "Transition_GetDescription Immediate = ''Immediate''"
| "Transition_GetDescription (LinearFade duration) =
     Format ''LinearFade[duration=%d]'' [ArgStr (TimeSpan_ToString duration)]"
| "Transition_GetDescription (RandomDither duration _ _) =
     Format ''RandomDither[duration=%d]'' [ArgStr (TimeSpan_ToString duration)]"
| "Transition_GetDescription (Swipe duration direction) =
     Format ''Swipe[direction=%d,duration=%d]'' [ArgUnsigned direction, ArgStr (TimeSpan_ToString duration)]"

subsection \<open>Immediate and LinearFade\<close>

definition Immediate_RenderTransition :: "grid \<Rightarrow> grid \<Rightarrow> result \<times> grid" where
  "Immediate_RenderTransition to dest = (TransitionComplete, fill (\<lambda>i j. to ! i ! j) dest)"

definition fade_scales :: "timespan \<Rightarrow> timestamp \<Rightarrow> result \<times> byte \<times> byte" where
  "fade_scales duration t =
     (let duration_milliseconds = ms_size_t duration
      in if t < duration_milliseconds then
           let to_scale = ucast (t * 255 div duration_milliseconds)
           in (TransitionProgressing, ucast (255 - ucast to_scale :: u32), to_scale)
         else (TransitionComplete, 0, 255))"

definition LinearFade_RenderTransition :: "timespan \<Rightarrow> grid \<Rightarrow> grid \<Rightarrow> grid \<Rightarrow> timestamp \<Rightarrow> result \<times> grid" where
  "LinearFade_RenderTransition duration src to dest t =
     (let (result, from_scale, to_scale) = fade_scales duration t
      in (result, fill (\<lambda>i j. Color_add (Scale (src ! i ! j) from_scale) (Scale (to ! i ! j) to_scale)) dest))"

subsection \<open>Swipe\<close>

definition swipe_pixel_step :: "nat \<Rightarrow> nat \<Rightarrow> nat \<Rightarrow> nat" where
  "swipe_pixel_step direction i j =
     (if direction = 0 then i
      else if direction = 1 then j
      else if direction = 2 then GRID_SIZE - 1 - i
      else if direction = 3 then GRID_SIZE - 1 - j
      else if direction = 4 then i + j
      else if direction = 5 then i + (GRID_SIZE - 1 - j)
      else if direction = 6 then (GRID_SIZE - 1 - i) + j
      else if direction = 7 then (GRID_SIZE - 1 - i) + (GRID_SIZE - 1 - j)
      else 0)"

definition swipe_num_steps :: "nat \<Rightarrow> nat" where
  "swipe_num_steps direction = (if direction \<ge> 4 then GRID_SIZE + GRID_SIZE - 1 else GRID_SIZE)"

definition swipe_cur_step :: "timespan \<Rightarrow> nat \<Rightarrow> timestamp \<Rightarrow> result \<times> u64" where
  "swipe_cur_step duration direction t =
     (let num_steps = of_nat (swipe_num_steps direction); duration_milliseconds = ms_size_t duration
      in if t < duration_milliseconds
         then (TransitionProgressing, t * num_steps div duration_milliseconds)
         else (TransitionComplete, num_steps))"

definition Swipe_RenderTransition :: "timespan \<Rightarrow> nat \<Rightarrow> grid \<Rightarrow> grid \<Rightarrow> grid \<Rightarrow> timestamp \<Rightarrow> result \<times> grid" where
  "Swipe_RenderTransition duration direction src to dest t =
     (let (result, cur_step) = swipe_cur_step duration direction t
      in (result, fill (\<lambda>i j. if of_nat (swipe_pixel_step direction i j) \<ge> cur_step
                              then src ! i ! j else to ! i ! j) dest))"

subsection \<open>RandomDither\<close>

text \<open>
  The loop draws random indices until enough LEDs have changed; on an unlucky sequence of
  random numbers it never ends, so its result is optional.
\<close>

definition dither_target :: "timespan \<Rightarrow> timestamp \<Rightarrow> u64" where
  "dither_target duration t =
     (let duration_milliseconds = ms_size_t duration
      in if t < duration_milliseconds then (t * of_nat GRID_SIZE * of_nat GRID_SIZE) div duration_milliseconds
         else of_nat (GRID_SIZE * GRID_SIZE))"

partial_function (option) dither_loop ::
  "(nat \<Rightarrow> nat) \<Rightarrow> nat \<Rightarrow> nat \<Rightarrow> nat \<Rightarrow> bool list list \<Rightarrow> (nat \<times> nat \<times> bool list list) option"
where
  "dither_loop rnd num_should_be_changed pos num_changed leds_changed =
     (if num_changed < num_should_be_changed then
        let index = rnd pos mod (GRID_SIZE * GRID_SIZE);
            i = index div GRID_SIZE; j = index mod GRID_SIZE
        in if \<not> leds_changed ! i ! j
           then dither_loop rnd num_should_be_changed (pos + 1) (num_changed + 1) (set_led i j True leds_changed)
           else dither_loop rnd num_should_be_changed (pos + 1) num_changed leds_changed
      else Some (pos, num_changed, leds_changed))"

definition RandomDither_RenderTransition ::
  "(nat \<Rightarrow> nat) \<Rightarrow> nat \<Rightarrow> timespan \<Rightarrow> nat \<Rightarrow> bool list list \<Rightarrow> grid \<Rightarrow> grid \<Rightarrow> grid \<Rightarrow> timestamp
     \<Rightarrow> (result \<times> grid \<times> transition \<times> nat) res" where
  "RandomDither_RenderTransition rnd pos duration num_changed leds_changed src to dest t =
     (case dither_loop rnd (unat (dither_target duration t)) pos num_changed leds_changed of
        None \<Rightarrow> Inl Diverges
      | Some (pos, num_changed, leds_changed) \<Rightarrow>
          Inr (if num_changed = GRID_SIZE * GRID_SIZE then TransitionComplete else TransitionProgressing,
               fill (\<lambda>i j. if leds_changed ! i ! j then to ! i ! j else src ! i ! j) dest,
               RandomDither duration num_changed leds_changed, pos))"

subsection \<open>The virtual method\<close>

text \<open>The result, the picture, the transition afterwards and the random numbers used.\<close>

fun RenderTransition ::
  "(nat \<Rightarrow> nat) \<Rightarrow> nat \<Rightarrow> transition \<Rightarrow> grid \<Rightarrow> grid \<Rightarrow> grid \<Rightarrow> timestamp
     \<Rightarrow> (result \<times> grid \<times> transition \<times> nat) res" where
  "RenderTransition rnd pos Immediate src to dest t =
     (let (r, g) = Immediate_RenderTransition to dest in Inr (r, g, Immediate, pos))"
| "RenderTransition rnd pos (LinearFade duration) src to dest t =
     (let (r, g) = LinearFade_RenderTransition duration src to dest t in Inr (r, g, LinearFade duration, pos))"
| "RenderTransition rnd pos (RandomDither duration n leds) src to dest t =
     RandomDither_RenderTransition rnd pos duration n leds src to dest t"
| "RenderTransition rnd pos (Swipe duration direction) src to dest t =
     (let (r, g) = Swipe_RenderTransition duration direction src to dest t
      in Inr (r, g, Swipe duration direction, pos))"

subsection \<open>The random loop\<close>

definition changed :: "bool list list \<Rightarrow> (nat \<times> nat) set" where
  "changed leds = {(i, j). i < GRID_SIZE \<and> j < GRID_SIZE \<and> leds ! i ! j}"

definition dither_ok :: "nat \<Rightarrow> bool list list \<Rightarrow> bool" where
  "dither_ok n leds \<longleftrightarrow> grid_ok leds \<and> n = card (changed leds)"

lemma changed_subset: "changed leds \<subseteq> {..<GRID_SIZE} \<times> {..<GRID_SIZE}"
  by (auto simp: changed_def)

lemma finite_changed [simp]: "finite (changed leds)"
  by (rule finite_subset [OF changed_subset]) simp

lemma dither_ok_le: "dither_ok n leds \<Longrightarrow> n \<le> GRID_SIZE * GRID_SIZE"
  using card_mono [OF _ changed_subset, of leds] by (simp add: dither_ok_def)

lemma dither_full:
  assumes "dither_ok (GRID_SIZE * GRID_SIZE) leds" "i < GRID_SIZE" "j < GRID_SIZE"
  shows "leds ! i ! j"
proof -
  have "changed leds = {..<GRID_SIZE} \<times> {..<GRID_SIZE}"
    using assms(1) by (intro card_subset_eq changed_subset) (simp_all add: dither_ok_def)
  then have "(i, j) \<in> changed leds"
    using assms(2,3) by simp
  then show ?thesis
    by (simp add: changed_def)
qed

lemma set_led_grid:
  assumes "grid_ok (g :: 'a list list)" "i < GRID_SIZE" "j < GRID_SIZE"
  shows "grid_ok (set_led i j c g)"
    and "k < GRID_SIZE \<Longrightarrow> l < GRID_SIZE \<Longrightarrow> set_led i j c g ! k ! l = (if k = i \<and> l = j then c else g ! k ! l)"
  using assms set_update_subset_insert [of g i "(g ! i)[j := c]"]
  by (auto simp: grid_ok_def set_led_def nth_list_update)

lemma changed_set_led:
  assumes "grid_ok leds" "i < GRID_SIZE" "j < GRID_SIZE"
  shows "changed (set_led i j True leds) = insert (i, j) (changed leds)"
  using assms by (auto simp: changed_def set_led_grid split: if_splits)

lemma dither_ok_step:
  assumes "dither_ok n leds" "i < GRID_SIZE" "j < GRID_SIZE" "\<not> leds ! i ! j"
  shows "dither_ok (n + 1) (set_led i j True leds)"
proof -
  have "(i, j) \<notin> changed leds"
    using assms(4) by (simp add: changed_def)
  then show ?thesis
    using assms by (simp add: dither_ok_def set_led_grid changed_set_led)
qed

lemma dither_index: "index mod (GRID_SIZE * GRID_SIZE) div GRID_SIZE < GRID_SIZE"
  "index mod (GRID_SIZE * GRID_SIZE) mod GRID_SIZE < GRID_SIZE"
  by (simp_all add: GRID_SIZE_def less_mult_imp_div_less)

text \<open>What the loop does when it ends.\<close>

lemma dither_loop_result:
  assumes "dither_loop rnd m pos n leds = Some (pos', n', leds')" and "dither_ok n leds"
  shows "dither_ok n' leds' \<and> n' = max n m \<and> changed leds \<subseteq> changed leds'"
proof -
  let ?P = "\<lambda>n m leds r. dither_ok n leds \<longrightarrow> dither_ok (fst (snd r)) (snd (snd r))
    \<and> fst (snd r) = max n m \<and> changed leds \<subseteq> changed (snd (snd r))"
  have "?P n m leds (pos', n', leds')"
  proof (rule dither_loop.raw_induct [where P = "\<lambda>rnd m pos n leds r. ?P n m leds r", OF _ assms(1)])
    fix loop rnd m pos n leds r
    assume IH: "\<And>rnd m pos n leds r. loop rnd m pos n leds = Some r \<Longrightarrow> ?P n m leds r"
      and eq: "(if n < m then
          let index = rnd pos mod (GRID_SIZE * GRID_SIZE); i = index div GRID_SIZE; j = index mod GRID_SIZE
          in if \<not> leds ! i ! j then loop rnd m (pos + 1) (n + 1) (set_led i j True leds)
             else loop rnd m (pos + 1) n leds
        else Some (pos, n, leds)) = Some r"
    let ?i = "rnd pos mod (GRID_SIZE * GRID_SIZE) div GRID_SIZE"
      and ?j = "rnd pos mod (GRID_SIZE * GRID_SIZE) mod GRID_SIZE"
    show "?P n m leds r"
    proof
      assume ok: "dither_ok n leds"
      consider "\<not> n < m" "r = (pos, n, leds)" | "n < m" "leds ! ?i ! ?j" "loop rnd m (pos + 1) n leds = Some r"
        | "n < m" "\<not> leds ! ?i ! ?j" "loop rnd m (pos + 1) (n + 1) (set_led ?i ?j True leds) = Some r"
        using eq by (auto simp: Let_def split: if_splits)
      then show "dither_ok (fst (snd r)) (snd (snd r)) \<and> fst (snd r) = max n m
        \<and> changed leds \<subseteq> changed (snd (snd r))"
      proof cases
        case 2
        then show ?thesis
          using IH [OF 2(3)] ok by blast
      next
        case 3
        have "dither_ok (n + 1) (set_led ?i ?j True leds)"
          using ok 3(2) by (intro dither_ok_step dither_index)
        moreover have "changed leds \<subseteq> changed (set_led ?i ?j True leds)"
          using ok changed_set_led [of leds ?i ?j] dither_index by (auto simp: dither_ok_def)
        moreover have "max (n + 1) m = max n m"
          using 3(1) by simp
        ultimately show ?thesis
          using IH [OF 3(3)] by auto
      qed (simp add: ok)
    qed
  qed
  then show ?thesis
    using assms(2) by auto
qed

text \<open>The random numbers hit every index again and again.\<close>

definition fair :: "(nat \<Rightarrow> nat) \<Rightarrow> bool" where
  "fair rnd \<longleftrightarrow> (\<forall>pos. \<forall>k < GRID_SIZE * GRID_SIZE. \<exists>q \<ge> pos. rnd q mod (GRID_SIZE * GRID_SIZE) = k)"

lemma dither_loop_ends:
  assumes "fair rnd"
  shows "dither_ok n leds \<Longrightarrow> m \<le> GRID_SIZE * GRID_SIZE \<Longrightarrow> \<exists>r. dither_loop rnd m pos n leds = Some r"
proof (induction "m - n" arbitrary: n leds pos)
  case 0
  then show ?case
    by (subst dither_loop.simps) simp
next
  case (Suc d)
  note outer = Suc.hyps(1) and left = Suc.hyps(2) and ok = Suc.prems
  have lt: "n < m"
    using Suc.hyps(2) by simp
  have "changed leds \<noteq> {..<GRID_SIZE} \<times> {..<GRID_SIZE}"
  proof
    assume full: "changed leds = {..<GRID_SIZE} \<times> {..<GRID_SIZE}"
    have "n = GRID_SIZE * GRID_SIZE"
      using Suc.prems(1) by (simp add: dither_ok_def full)
    then show False
      using lt Suc.prems(2) by simp
  qed
  then obtain a b where ab: "a < GRID_SIZE" "b < GRID_SIZE" "\<not> leds ! a ! b"
    using changed_subset by (auto simp: changed_def)
  have "a * GRID_SIZE + b < GRID_SIZE * GRID_SIZE"
    using ab(1,2) by (simp add: GRID_SIZE_def)
  then obtain q where q: "pos \<le> q" "rnd q mod (GRID_SIZE * GRID_SIZE) = a * GRID_SIZE + b"
    using assms by (auto simp: fair_def)
  have hit: "\<not> leds ! (rnd q mod (GRID_SIZE * GRID_SIZE) div GRID_SIZE) ! (rnd q mod (GRID_SIZE * GRID_SIZE) mod GRID_SIZE)"
  proof -
    have "(a * GRID_SIZE + b) div GRID_SIZE = a" "(a * GRID_SIZE + b) mod GRID_SIZE = b"
      using ab(2) by (simp_all add: GRID_SIZE_def)
    then show ?thesis
      unfolding q(2) using ab by simp
  qed
  show ?case
    using q(1)
  proof (induction "q - pos" arbitrary: pos)
    case 0
    have "\<exists>r. dither_loop rnd m (q + 1) (n + 1) (set_led (rnd q mod (GRID_SIZE * GRID_SIZE) div GRID_SIZE)
        (rnd q mod (GRID_SIZE * GRID_SIZE) mod GRID_SIZE) True leds) = Some r"
      by (rule outer) (use left ok dither_ok_step [OF ok(1) dither_index hit] in auto)
    then show ?case
      using 0 hit lt by (subst dither_loop.simps) (simp add: Let_def)
  next
    case (Suc e)
    let ?i = "rnd pos mod (GRID_SIZE * GRID_SIZE) div GRID_SIZE"
      and ?j = "rnd pos mod (GRID_SIZE * GRID_SIZE) mod GRID_SIZE"
    show ?case
    proof (cases "leds ! ?i ! ?j")
      case True
      have "\<exists>r. dither_loop rnd m (pos + 1) n leds = Some r"
        by (rule Suc.hyps(1)) (use Suc.hyps(2) in auto)
      then show ?thesis
        using True by (subst dither_loop.simps) (simp add: Let_def)
    next
      case False
      have "\<exists>r. dither_loop rnd m (pos + 1) (n + 1) (set_led ?i ?j True leds) = Some r"
        by (rule outer) (use left ok dither_ok_step [OF ok(1) dither_index False] in auto)
      then show ?thesis
        using False lt by (subst dither_loop.simps) (simp add: Let_def)
    qed
  qed
qed

subsection \<open>What every transition keeps to\<close>

fun transition_ok :: "transition \<Rightarrow> bool" where
  "transition_ok (RandomDither _ n leds) = dither_ok n leds"
| "transition_ok (Swipe _ direction) = (direction < 8)"
| "transition_ok _ = True"

fun transition_duration :: "transition \<Rightarrow> timespan" where
  "transition_duration Immediate = 0"
| "transition_duration (LinearFade d) = d"
| "transition_duration (RandomDither d _ _) = d"
| "transition_duration (Swipe d _) = d"

lemma transition_ok_RandomDither_new: "transition_ok (RandomDither_new d)"
proof -
  have "changed (replicate GRID_SIZE (replicate GRID_SIZE False)) = {}"
    by (auto simp: changed_def)
  then show ?thesis
    by (simp add: RandomDither_new_def dither_ok_def grid_ok_def)
qed

lemma transition_ok_Swipe_new: "transition_ok (fst (Swipe_new rnd pos d))"
  by (simp add: Swipe_new_def)

lemma ms_size_t_0 [simp]: "ms_size_t 0 = 0"
  by (simp add: ms_size_t_def ToMilliseconds_def duration_cast_def)

lemma dither_target_less:
  assumes "t < ms_size_t d"
  shows "unat (dither_target d t) < GRID_SIZE * GRID_SIZE"
proof -
  have lt: "unat t < unat (ms_size_t d)"
    using assms by (simp add: word_less_nat_alt)
  have "unat (t * of_nat GRID_SIZE * of_nat GRID_SIZE) \<le> unat t * (GRID_SIZE * GRID_SIZE)"
    by (simp add: GRID_SIZE_def unat_word_ariths mod_mult_left_eq)
  also have "\<dots> < GRID_SIZE * GRID_SIZE * unat (ms_size_t d)"
    using lt by (simp add: GRID_SIZE_def)
  finally have "unat (t * of_nat GRID_SIZE * of_nat GRID_SIZE) div unat (ms_size_t d) < GRID_SIZE * GRID_SIZE"
    by (rule less_mult_imp_div_less)
  then show ?thesis
    using assms by (simp add: dither_target_def unat_div)
qed

lemma dither_target_full: "ms_size_t d \<le> t \<Longrightarrow> unat (dither_target d t) = GRID_SIZE * GRID_SIZE"
  by (simp add: dither_target_def GRID_SIZE_def not_less [symmetric])

lemma dither_target_le: "unat (dither_target d t) \<le> GRID_SIZE * GRID_SIZE"
  using dither_target_less [of t d] dither_target_full [of d t] by (cases "t < ms_size_t d") simp_all

lemma RandomDither_total:
  assumes "fair rnd" "dither_ok n leds" "grid_ok dest"
  obtains pos' n' leds' where
    "RandomDither_RenderTransition rnd pos d n leds src to dest t =
       Inr (if n' = GRID_SIZE * GRID_SIZE then TransitionComplete else TransitionProgressing,
            grid_of (\<lambda>i j. if leds' ! i ! j then to ! i ! j else src ! i ! j), RandomDither d n' leds', pos')"
    and "dither_ok n' leds'" and "n' = max n (unat (dither_target d t))" and "changed leds \<subseteq> changed leds'"
proof -
  obtain pos' n' leds' where r: "dither_loop rnd (unat (dither_target d t)) pos n leds = Some (pos', n', leds')"
    using dither_loop_ends [OF assms(1,2) dither_target_le] by (metis prod_cases3)
  show thesis
  proof (rule that [of n' leds' pos'])
    show "RandomDither_RenderTransition rnd pos d n leds src to dest t =
       Inr (if n' = GRID_SIZE * GRID_SIZE then TransitionComplete else TransitionProgressing,
            grid_of (\<lambda>i j. if leds' ! i ! j then to ! i ! j else src ! i ! j), RandomDither d n' leds', pos')"
      by (simp add: RandomDither_RenderTransition_def r fill_eq assms(3))
  qed (use dither_loop_result [OF r assms(2)] in blast)+
qed

lemma swipe_step_bound:
  "direction < 8 \<Longrightarrow> i < GRID_SIZE \<Longrightarrow> j < GRID_SIZE \<Longrightarrow> swipe_pixel_step direction i j < swipe_num_steps direction"
  by (auto simp: swipe_pixel_step_def swipe_num_steps_def GRID_SIZE_def)

lemma swipe_num_steps_small: "swipe_num_steps direction \<le> 17"
  by (simp add: swipe_num_steps_def GRID_SIZE_def)

lemma RenderTransition_contract:
  assumes "fair rnd" "transition_ok tr" "grid_ok src" "grid_ok to" "grid_ok dest"
  shows "\<exists>r g tr' pos'. RenderTransition rnd pos tr src to dest t = Inr (r, g, tr', pos')
    \<and> grid_ok g \<and> transition_ok tr' \<and> transition_duration tr' = transition_duration tr
    \<and> (r = TransitionComplete \<longrightarrow> g = to)
    \<and> (ms_size_t (transition_duration tr) \<le> t \<longrightarrow> r = TransitionComplete)"
proof (cases tr)
  case Immediate
  then show ?thesis
    using assms by (simp add: Immediate_RenderTransition_def fill_eq grid_of_at)
next
  case (LinearFade d)
  then show ?thesis
    using assms
    by (auto simp: LinearFade_RenderTransition_def fade_scales_def fill_eq Scale_0 Scale_255 Color_add_black
        grid_of_at Let_def)
next
  case (RandomDither d n leds)
  then have ok: "dither_ok n leds"
    using assms(2) by simp
  obtain pos' n' leds' where r: "RandomDither_RenderTransition rnd pos d n leds src to dest t =
       Inr (if n' = GRID_SIZE * GRID_SIZE then TransitionComplete else TransitionProgressing,
            grid_of (\<lambda>i j. if leds' ! i ! j then to ! i ! j else src ! i ! j), RandomDither d n' leds', pos')"
    "dither_ok n' leds'" "n' = max n (unat (dither_target d t))" "changed leds \<subseteq> changed leds'"
    by (rule RandomDither_total [OF assms(1) ok assms(5)])
  have "grid_of (\<lambda>i j. if leds' ! i ! j then to ! i ! j else src ! i ! j) = to" if "n' = GRID_SIZE * GRID_SIZE"
    using dither_full r(2) that assms(4) by (intro grid_eqI) auto
  moreover have "n' = GRID_SIZE * GRID_SIZE" if "ms_size_t d \<le> t"
    using r(3) dither_target_full [OF that] dither_ok_le [OF ok] by simp
  ultimately show ?thesis
    using r(1,2) RandomDither by auto
next
  case (Swipe d direction)
  have "\<not> of_nat (swipe_num_steps direction) \<le> (of_nat (swipe_pixel_step direction i j) :: u64)"
    if "i < GRID_SIZE" "j < GRID_SIZE" for i j
    using swipe_step_bound [of direction i j] swipe_num_steps_small [of direction] that assms(2) Swipe
    by (simp add: word_le_nat_alt unat_of_nat)
  then have "grid_of (\<lambda>i j. if (of_nat (swipe_pixel_step direction i j) :: u64) \<ge> of_nat (swipe_num_steps direction)
      then src ! i ! j else to ! i ! j) = to"
    using assms(4) by (intro grid_eqI) simp_all
  then show ?thesis
    using assms(2,4,5) Swipe
    by (auto simp: Swipe_RenderTransition_def swipe_cur_step_def fill_eq Let_def)
qed

text \<open>The classes of the program implement the interface, when the random numbers are fair.\<close>

interpretation transitions: transition_interface "RenderTransition rnd"
    "\<lambda>tr. fair rnd \<and> transition_ok tr" transition_duration
  for rnd :: "nat \<Rightarrow> nat"
proof unfold_locales
  fix tr and src to dest :: grid and pos t
  assume "fair rnd \<and> transition_ok tr" "grid_ok src" "grid_ok to" "grid_ok dest"
  then show "\<exists>r g tr' pos'. RenderTransition rnd pos tr src to dest t = Inr (r, g, tr', pos')
      \<and> grid_ok g \<and> (fair rnd \<and> transition_ok tr') \<and> transition_duration tr' = transition_duration tr
      \<and> (r = TransitionComplete \<longrightarrow> g = to)
      \<and> (ms_size_t (transition_duration tr) \<le> t \<longrightarrow> r = TransitionComplete)"
    using RenderTransition_contract by blast
qed

subsection \<open>Properties\<close>

lemma fair_id: "fair (\<lambda>n. n)"
proof -
  have "\<exists>q \<ge> pos. q mod (GRID_SIZE * GRID_SIZE) = k" if "k < GRID_SIZE * GRID_SIZE" for pos k
    using that by (intro exI [of _ "pos * (GRID_SIZE * GRID_SIZE) + k"]) (simp add: GRID_SIZE_def)
  then show ?thesis
    by (simp add: fair_def)
qed

text \<open>How much of \<open>k\<close> steps is due at the time \<open>t\<close> of a transition.\<close>

definition share :: "timespan \<Rightarrow> timestamp \<Rightarrow> nat \<Rightarrow> nat" where
  "share d t k = (if t < ms_size_t d then unat t * k div unat (ms_size_t d) else k)"

lemma share_le: "share d t k \<le> k"
proof (cases "t < ms_size_t d")
  case True
  then have "unat t * k div unat (ms_size_t d) \<le> unat (ms_size_t d) * k div unat (ms_size_t d)"
    by (intro div_le_mono mult_le_mono1) (simp add: word_less_nat_alt)
  then show ?thesis
    using True by (simp add: share_def word_less_nat_alt)
qed (simp add: share_def)

lemma share_mono:
  assumes "t \<le> t'"
  shows "share d t k \<le> share d t' k"
proof (cases "t' < ms_size_t d")
  case True
  then have "t < ms_size_t d"
    using assms by simp
  then show ?thesis
    using True assms by (simp add: share_def word_le_nat_alt div_le_mono)
next
  case False
  then show ?thesis
    using share_le [of d t k] by (simp add: share_def [of d t'])
qed

text \<open>The code computes it in 64 bits; below \<open>2 ^ 56\<close> milliseconds nothing wraps around.\<close>

lemma share_word:
  assumes "unat (ms_size_t d) < 2 ^ 56" "t < ms_size_t d" "k \<le> 255"
  shows "unat (t * of_nat k div ms_size_t d) = share d t k"
proof -
  have "unat t * k \<le> 2 ^ 56 * 255"
    using assms by (intro mult_le_mono) (simp_all add: word_less_nat_alt)
  moreover have "unat (of_nat k :: u64) = k"
    using assms(3) by (simp add: unat_of_nat)
  ultimately have "unat (t * of_nat k) = unat t * k"
    by (subst unat_mult_lem [THEN iffD1]) simp_all
  then show ?thesis
    using assms(2) by (simp add: share_def unat_div)
qed

lemma complement_byte:
  assumes "k \<le> 255"
  shows "ucast (255 - ucast (of_nat k :: byte) :: u32) = (of_nat (255 - k) :: byte)"
proof -
  have "ucast (of_nat k :: byte) = (of_nat k :: u32)"
    using assms by (simp add: word_unat_eq_iff unsigned_ucast_eq take_bit_eq_mod unat_of_nat)
  moreover have "255 - of_nat k = (of_nat (255 - k) :: u32)"
    using assms by (simp add: of_nat_diff)
  ultimately have "ucast (255 - ucast (of_nat k :: byte) :: u32) = (ucast (of_nat (255 - k) :: u32) :: byte)"
    by (simp only:)
  also have "\<dots> = of_nat (255 - k)"
    using assms by (simp add: word_unat_eq_iff unsigned_ucast_eq take_bit_eq_mod unat_of_nat del: of_nat_diff)
  finally show ?thesis .
qed

text \<open>The scales of a fade add up to 255, whatever the time.\<close>

lemma fade_scales_share:
  assumes "unat (ms_size_t d) < 2 ^ 56"
  shows "fade_scales d t = (if t < ms_size_t d then TransitionProgressing else TransitionComplete,
    of_nat (255 - share d t 255), of_nat (share d t 255))"
proof (cases "t < ms_size_t d")
  case True
  have "ucast (t * 255 div ms_size_t d) = (of_nat (share d t 255) :: byte)"
    using share_word [OF assms True, of 255] share_le [of d t 255]
    by (simp add: word_unat_eq_iff unsigned_ucast_eq take_bit_eq_mod unat_of_nat)
  moreover have "ucast (255 - ucast (of_nat (share d t 255) :: byte) :: u32) = (of_nat (255 - share d t 255) :: byte)"
    by (rule complement_byte [OF share_le])
  ultimately show ?thesis
    using True by (simp only: fade_scales_def Let_def if_True)
next
  case False
  then show ?thesis
    by (simp add: fade_scales_def share_def Let_def)
qed

text \<open>
  While it fades, each channel of each LED stays between the channel of the old picture
  and that of the new one, except that rounding may make it one darker than the darker of the
  two: the saturating addition never saturates.
\<close>

theorem LinearFade_between:
  assumes "unat (ms_size_t d) < 2 ^ 56" "grid_ok dest" "i < GRID_SIZE" "j < GRID_SIZE"
    and "LinearFade_RenderTransition d src to dest t = (r, g)" "channel \<in> {m_red, m_green, m_blue}"
  shows "unat (channel (g ! i ! j)) \<le> max (unat (channel (src ! i ! j))) (unat (channel (to ! i ! j)))
    \<and> min (unat (channel (src ! i ! j))) (unat (channel (to ! i ! j))) \<le> unat (channel (g ! i ! j)) + 1"
proof -
  obtain a b where ab: "fade_scales d t = (r, a, b)"
    using assms(5) by (cases "fade_scales d t") (auto simp: LinearFade_RenderTransition_def)
  have s: "share d t 255 \<le> 255" "a = of_nat (255 - share d t 255)" "b = of_nat (share d t 255)"
    using share_le fade_scales_share [OF assms(1), of t] ab by simp_all
  have g: "g ! i ! j = Color_add (Scale (src ! i ! j) a) (Scale (to ! i ! j) b)"
    using assms(2-5) ab by (auto simp: LinearFade_RenderTransition_def fill_eq)
  have "channel (g ! i ! j) = add_sat (scale_channel (channel (src ! i ! j)) a) (scale_channel (channel (to ! i ! j)) b)"
    using assms(6) by (auto simp: g Color_add_def Scale_def)
  then show ?thesis
    using crossfade_channel [OF s(1), of "channel (src ! i ! j)" "channel (to ! i ! j)"] s(2,3) by simp
qed

theorem LinearFade_between_witness:
  "unat (m_red (snd (LinearFade_RenderTransition (TimeSpan_Seconds 2) ColorGrid
       (grid_of (\<lambda>_ _. Color 200 0 0)) ColorGrid 500) ! 4 ! 4))
     \<le> max (unat (m_red (ColorGrid ! 4 ! 4))) (unat (m_red (grid_of (\<lambda>_ _. Color 200 0 0) ! 4 ! 4)))
    \<and> min (unat (m_red (ColorGrid ! 4 ! 4))) (unat (m_red (grid_of (\<lambda>_ _. Color 200 0 0) ! 4 ! 4)))
     \<le> unat (m_red (snd (LinearFade_RenderTransition (TimeSpan_Seconds 2) ColorGrid
       (grid_of (\<lambda>_ _. Color 200 0 0)) ColorGrid 500) ! 4 ! 4)) + 1"
  by (rule LinearFade_between [where i = 4 and j = 4 and dest = ColorGrid and t = 500
        and d = "TimeSpan_Seconds 2" and channel = m_red, OF _ _ _ _ prod.collapse [symmetric]])
    (simp_all add: GRID_SIZE_def ms_size_t_def)

definition swiped :: "timespan \<Rightarrow> nat \<Rightarrow> timestamp \<Rightarrow> nat \<Rightarrow> nat \<Rightarrow> bool" where
  "swiped d direction t i j \<longleftrightarrow> (of_nat (swipe_pixel_step direction i j) :: u64) < snd (swipe_cur_step d direction t)"

lemma swipe_cur_step_share:
  assumes "unat (ms_size_t d) < 2 ^ 56"
  shows "fst (swipe_cur_step d direction t) = (if t < ms_size_t d then TransitionProgressing else TransitionComplete)"
    and "unat (snd (swipe_cur_step d direction t)) = share d t (swipe_num_steps direction)"
proof -
  have "swipe_num_steps direction \<le> 255"
    using swipe_num_steps_small [of direction] by simp
  then show "unat (snd (swipe_cur_step d direction t)) = share d t (swipe_num_steps direction)"
    using share_word [OF assms, of t "swipe_num_steps direction"]
    by (simp add: swipe_cur_step_def Let_def share_def [of d t] unat_of_nat)
qed (simp add: swipe_cur_step_def Let_def)

lemma swipe_cur_step_mono:
  assumes "unat (ms_size_t d) < 2 ^ 56" "t \<le> t'"
  shows "snd (swipe_cur_step d direction t) \<le> snd (swipe_cur_step d direction t')"
  using assms(2) by (simp add: word_le_nat_alt swipe_cur_step_share [OF assms(1)] share_mono)

text \<open>
  A swipe moves in one direction: an LED shows the new picture exactly when the swipe has
  passed it, none has been passed at the start, and an LED that has been passed stays so.
\<close>

theorem Swipe_advances:
  assumes "unat (ms_size_t d) < 2 ^ 56" "grid_ok dest" "i < GRID_SIZE" "j < GRID_SIZE" "t \<le> t'"
    and "Swipe_RenderTransition d direction src to dest t = (r, g)"
  shows "g ! i ! j = (if swiped d direction t i j then to ! i ! j else src ! i ! j)
    \<and> (swiped d direction t i j \<longrightarrow> swiped d direction t' i j)
    \<and> (0 < ms_size_t d \<longrightarrow> \<not> swiped d direction 0 i j)"
proof (intro conjI impI)
  show "g ! i ! j = (if swiped d direction t i j then to ! i ! j else src ! i ! j)"
    using assms(2-4,6) by (auto simp: Swipe_RenderTransition_def fill_eq swiped_def not_less split: prod.splits)
  show "swiped d direction t' i j" if "swiped d direction t i j"
    using that swipe_cur_step_mono [OF assms(1,5), of direction] by (simp add: swiped_def)
  show "\<not> swiped d direction 0 i j" if "0 < ms_size_t d"
    using that by (simp add: swiped_def swipe_cur_step_def)
qed

theorem Swipe_advances_witness:
  "snd (Swipe_RenderTransition (TimeSpan_Seconds 1) 4 ColorGrid (grid_of (\<lambda>_ _. Color 9 9 9)) ColorGrid 300)
       ! 1 ! 2 = Color 9 9 9
   \<and> swiped (TimeSpan_Seconds 1) 4 400 1 2"
proof -
  have "swiped (TimeSpan_Seconds 1) 4 300 1 2"
    by (simp add: swiped_def swipe_cur_step_def ms_size_t_def swipe_pixel_step_def swipe_num_steps_def GRID_SIZE_def)
  then show ?thesis
    using Swipe_advances [where d = "TimeSpan_Seconds 1" and direction = 4 and t = 300 and t' = 400
        and i = 1 and j = 2 and src = ColorGrid and to = "grid_of (\<lambda>_ _. Color 9 9 9)" and dest = ColorGrid,
        OF _ _ _ _ _ prod.collapse [symmetric]]
    by (simp add: GRID_SIZE_def ms_size_t_def grid_of_def)
qed

text \<open>
  The picture of a transition \<open>tr\<close> that is \<open>tr'\<close> after the call: the new pattern at once; the
  two pictures mixed in the share of the time that is over; the new pattern on the LEDs
  a swipe has passed; the new pattern on the share of the LEDs that a dither has chosen so far, the earlier
  ones among them.
\<close>

definition mixed :: "nat \<Rightarrow> byte \<Rightarrow> byte \<Rightarrow> byte" where
  "mixed s a b = of_nat (unat a * (255 - s) div 255 + unat b * s div 255)"

definition mixed_color :: "nat \<Rightarrow> color \<Rightarrow> color \<Rightarrow> color" where
  "mixed_color s c d = Color (mixed s (m_red c) (m_red d)) (mixed s (m_green c) (m_green d)) (mixed s (m_blue c) (m_blue d))"

fun transition_picture :: "transition \<Rightarrow> transition \<Rightarrow> timestamp \<Rightarrow> grid \<Rightarrow> grid \<Rightarrow> grid \<Rightarrow> bool" where
  "transition_picture Immediate tr' t src to g = (tr' = Immediate \<and> g = to)"
| "transition_picture (LinearFade d) tr' t src to g =
     (tr' = LinearFade d \<and> g = grid_of (\<lambda>i j. mixed_color (share d t 255) (src ! i ! j) (to ! i ! j)))"
| "transition_picture (Swipe d direction) tr' t src to g =
     (tr' = Swipe d direction
      \<and> g = grid_of (\<lambda>i j. if swipe_pixel_step direction i j < share d t (swipe_num_steps direction)
                           then to ! i ! j else src ! i ! j))"
| "transition_picture (RandomDither d n leds) tr' t src to g =
     (\<exists>leds'. tr' = RandomDither d (max n (share d t (GRID_SIZE * GRID_SIZE))) leds'
      \<and> card (changed leds') = max n (share d t (GRID_SIZE * GRID_SIZE)) \<and> changed leds \<subseteq> changed leds'
      \<and> g = grid_of (\<lambda>i j. if (i, j) \<in> changed leds' then to ! i ! j else src ! i ! j))"

fun dither_done :: "transition \<Rightarrow> bool" where
  "dither_done (RandomDither _ n _) = (n = GRID_SIZE * GRID_SIZE)"
| "dither_done _ = False"

lemma mixed_color_fade:
  assumes "s \<le> 255"
  shows "Color_add (Scale c (of_nat (255 - s))) (Scale d (of_nat s)) = mixed_color s c d"
proof -
  have "add_sat (scale_channel a (of_nat (255 - s))) (scale_channel b (of_nat s)) = mixed s a b" for a b
    unfolding mixed_def crossfade_channel(1) [OF assms, symmetric] by simp
  then show ?thesis
    by (simp add: Color_add_def Scale_def mixed_color_def)
qed

lemma LinearFade_picture:
  assumes "unat (ms_size_t d) < 2 ^ 56" "grid_ok dest"
  shows "snd (LinearFade_RenderTransition d src to dest t)
    = grid_of (\<lambda>i j. mixed_color (share d t 255) (src ! i ! j) (to ! i ! j))"
  using assms(2)
  by (simp add: LinearFade_RenderTransition_def fade_scales_share [OF assms(1)] fill_eq mixed_color_fade
      share_le del: of_nat_diff)

lemma Swipe_picture:
  assumes "unat (ms_size_t d) < 2 ^ 56" "grid_ok dest" "direction < 8"
  shows "snd (Swipe_RenderTransition d direction src to dest t)
    = grid_of (\<lambda>i j. if swipe_pixel_step direction i j < share d t (swipe_num_steps direction)
                     then to ! i ! j else src ! i ! j)"
proof -
  have "unat (of_nat (swipe_pixel_step direction i j) :: u64) = swipe_pixel_step direction i j"
    if "i < GRID_SIZE" "j < GRID_SIZE" for i j
    using swipe_step_bound [OF assms(3) that] swipe_num_steps_small [of direction] by (simp add: unat_of_nat)
  moreover obtain r cur where cur: "swipe_cur_step d direction t = (r, cur)"
    by force
  moreover have "unat cur = share d t (swipe_num_steps direction)"
    using swipe_cur_step_share(2) [OF assms(1), of direction t] cur by simp
  ultimately show ?thesis
    using assms(2) by (auto simp: Swipe_RenderTransition_def fill_eq word_le_nat_alt intro!: grid_eqI)
qed

lemma dither_target_share:
  assumes "unat (ms_size_t d) < 2 ^ 56"
  shows "unat (dither_target d t) = share d t (GRID_SIZE * GRID_SIZE)"
proof (cases "t < ms_size_t d")
  case True
  then show ?thesis
    using share_word [OF assms True, of 81] by (simp add: dither_target_def GRID_SIZE_def mult.assoc)
next
  case False
  then show ?thesis
    using dither_target_full [of d t] by (simp add: share_def)
qed

lemma RenderTransition_exact:
  assumes "fair rnd" "transition_ok tr" "grid_ok to" "grid_ok dest"
    and "RenderTransition rnd pos tr src to dest t = Inr (r, g, tr', pos')"
  shows "r = TransitionComplete \<longleftrightarrow> ms_size_t (transition_duration tr) \<le> t \<or> dither_done tr"
    and "unat (ms_size_t (transition_duration tr)) < 2 ^ 56 \<Longrightarrow> transition_picture tr tr' t src to g"
proof -
  have "(r = TransitionComplete \<longleftrightarrow> ms_size_t (transition_duration tr) \<le> t \<or> dither_done tr)
    \<and> (unat (ms_size_t (transition_duration tr)) < 2 ^ 56 \<longrightarrow> transition_picture tr tr' t src to g)"
  proof (cases tr)
    case Immediate
    then show ?thesis
      using assms(3-5) by (auto simp: Immediate_RenderTransition_def fill_eq grid_of_at)
  next
    case (LinearFade d)
    then obtain fade where fade: "LinearFade_RenderTransition d src to dest t = (r, fade)" "g = fade" "tr' = tr"
      using assms(5) by (auto split: prod.splits)
    then have "r = (if t < ms_size_t d then TransitionProgressing else TransitionComplete)"
      by (auto simp: LinearFade_RenderTransition_def fade_scales_def Let_def split: if_splits)
    then show ?thesis
      using LinearFade LinearFade_picture [OF _ assms(4), of d src to t] fade by auto
  next
    case (Swipe d direction)
    then obtain swipe where swipe: "Swipe_RenderTransition d direction src to dest t = (r, swipe)" "g = swipe" "tr' = tr"
      using assms(5) by (auto split: prod.splits)
    then have "r = (if t < ms_size_t d then TransitionProgressing else TransitionComplete)"
      by (auto simp: Swipe_RenderTransition_def swipe_cur_step_def Let_def split: if_splits)
    then show ?thesis
      using Swipe Swipe_picture [OF _ assms(4), of d direction src to t] assms(2) swipe by auto
  next
    case (RandomDither d n leds)
    then have ok: "dither_ok n leds"
      using assms(2) by simp
    obtain pos'' n' leds' where step: "RandomDither_RenderTransition rnd pos d n leds src to dest t =
        Inr (if n' = GRID_SIZE * GRID_SIZE then TransitionComplete else TransitionProgressing,
          grid_of (\<lambda>i j. if leds' ! i ! j then to ! i ! j else src ! i ! j), RandomDither d n' leds', pos'')"
      "dither_ok n' leds'" "n' = max n (unat (dither_target d t))" "changed leds \<subseteq> changed leds'"
      by (rule RandomDither_total [OF assms(1) ok assms(4)])
    have r: "r = (if n' = GRID_SIZE * GRID_SIZE then TransitionComplete else TransitionProgressing)"
      and g: "g = grid_of (\<lambda>i j. if leds' ! i ! j then to ! i ! j else src ! i ! j)" "tr' = RandomDither d n' leds'"
      using step(1) assms(5) RandomDither by auto
    have "n' = GRID_SIZE * GRID_SIZE \<longleftrightarrow> ms_size_t d \<le> t \<or> n = GRID_SIZE * GRID_SIZE"
      using step(3) dither_ok_le [OF ok] dither_target_less [of t d] dither_target_full [of d t]
      by (cases "t < ms_size_t d") (auto simp: max_def)
    moreover have "g = grid_of (\<lambda>i j. if (i, j) \<in> changed leds' then to ! i ! j else src ! i ! j)"
      unfolding g(1) grid_of_eq_iff by (simp add: changed_def)
    moreover have "card (changed leds') = n'"
      using step(2) by (simp add: dither_ok_def)
    ultimately show ?thesis
      using RandomDither r g(2) step(3,4) dither_target_share [of d t] by auto
  qed
  then show "r = TransitionComplete \<longleftrightarrow> ms_size_t (transition_duration tr) \<le> t \<or> dither_done tr"
    and "unat (ms_size_t (transition_duration tr)) < 2 ^ 56 \<Longrightarrow> transition_picture tr tr' t src to g"
    by blast+
qed

text \<open>
  C35: With fair random numbers a call of \<open>RenderTransition\<close> returns and keeps the transition in
  order. It says that the transition is complete exactly when the duration is over (or a dither had changed every
  LED before), and it then shows the picture of the new pattern. At every time, for a duration below
  \<open>2 ^ 56\<close> milliseconds, the picture is the one that belongs to the time: \<open>transition_picture\<close>.
\<close>

theorem RenderTransition_ends:
  assumes "fair rnd" "transition_ok tr" "grid_ok src" "grid_ok to" "grid_ok dest"
  shows "\<exists>r g tr' pos'. RenderTransition rnd pos tr src to dest t = Inr (r, g, tr', pos')
    \<and> grid_ok g \<and> transition_ok tr' \<and> transition_duration tr' = transition_duration tr
    \<and> (r = TransitionComplete \<longleftrightarrow> ms_size_t (transition_duration tr) \<le> t \<or> dither_done tr)
    \<and> (r = TransitionComplete \<longrightarrow> g = to)
    \<and> (unat (ms_size_t (transition_duration tr)) < 2 ^ 56 \<longrightarrow> transition_picture tr tr' t src to g)"
  using RenderTransition_contract [OF assms, of pos t] RenderTransition_exact [OF assms(1,2,4,5), where src = src]
  by blast

theorem RenderTransition_ends_witness:
  "\<exists>r g tr' pos'. RenderTransition (\<lambda>n. n) 7 (RandomDither_new (TimeSpan_Seconds 1)) ColorGrid
      (grid_of (\<lambda>_ _. Color 1 2 3)) ColorGrid 500 = Inr (r, g, tr', pos')
    \<and> r \<noteq> TransitionComplete \<and> transition_ok tr'
    \<and> transition_picture (RandomDither_new (TimeSpan_Seconds 1)) tr' 500 ColorGrid (grid_of (\<lambda>_ _. Color 1 2 3)) g"
proof -
  have "transition_duration (RandomDither_new (TimeSpan_Seconds 1)) = TimeSpan_Seconds 1"
    and "\<not> dither_done (RandomDither_new (TimeSpan_Seconds 1))"
    by (simp_all add: RandomDither_new_def GRID_SIZE_def)
  moreover have "unat (ms_size_t (TimeSpan_Seconds 1)) < 2 ^ 56" "\<not> ms_size_t (TimeSpan_Seconds 1) \<le> 500"
    by (simp_all add: ms_size_t_def)
  ultimately show ?thesis
    using RenderTransition_ends [OF fair_id transition_ok_RandomDither_new, of ColorGrid
        "grid_of (\<lambda>_ _. Color 1 2 3)" ColorGrid 7 "TimeSpan_Seconds 1" 500]
    by (simp only: grid_ok_ColorGrid grid_ok_grid_of) blast
qed

end
