(* ===== verification/TransitionPattern.thy ===== *)
theory TransitionPattern
  imports Transitions
begin

section \<open>camplight::pattern::TransitionPattern\<close>

text \<open>
  \<open>CampLight/camplight/pattern/TransitionPattern.h\<close> and \<open>TransitionPattern.cpp\<close>: the pattern
  that changes from one pattern to the next by a transition. It knows its patterns and
  transitions only by their virtual methods, so their types are parameters of its record and
  the methods are arguments of its operations; the lemmas rest on the two interfaces.
\<close>

record ('p, 't) transition_pattern =
  tp_last_render :: timestamp
  tp_current_start :: timestamp
  tp_next_start :: timestamp
  tp_current :: 'p
  tp_next :: "('p \<times> 't) option"
  tp_pending :: "('p \<times> 't) option"
  tp_tmp_current_dest :: grid
  tp_tmp_next_dest :: grid

definition TransitionPattern :: "(pattern, 't) transition_pattern" where
  "TransitionPattern = \<lparr>tp_last_render = 0, tp_current_start = 0, tp_next_start = 0,
     tp_current = Solid (Color 0 0 0), tp_next = None, tp_pending = None,
     tp_tmp_current_dest = ColorGrid, tp_tmp_next_dest = ColorGrid\<rparr>"

definition TransitionPattern_GetDescription ::
  "('p \<Rightarrow> string) \<Rightarrow> ('t \<Rightarrow> string) \<Rightarrow> ('p, 't) transition_pattern \<Rightarrow> string" where
  "TransitionPattern_GetDescription pdesc tdesc tp = (case tp_next tp of
       None \<Rightarrow> pdesc (tp_current tp)
     | Some (p, tr) \<Rightarrow> Format ''Transition[from=%s, to=%s, transition=%s]''
         [ArgStr (pdesc (tp_current tp)), ArgStr (pdesc p), ArgStr (tdesc tr)])"

definition ChangeTo :: "'p \<Rightarrow> 't \<Rightarrow> ('p, 't) transition_pattern \<Rightarrow> ('p, 't) transition_pattern" where
  "ChangeTo p tr tp = (if tp_next tp = None
     then tp\<lparr>tp_next := Some (p, tr), tp_next_start := tp_last_render tp\<rparr>
     else tp\<lparr>tp_pending := Some (p, tr)\<rparr>)"

definition ChangeToImmediate :: "'p \<Rightarrow> ('p, 't) transition_pattern \<Rightarrow> ('p, 't) transition_pattern" where
  "ChangeToImmediate p tp = tp\<lparr>tp_current := p, tp_current_start := tp_last_render tp,
     tp_next := None, tp_pending := None\<rparr>"

text \<open>
  \<open>RenderTo\<close> takes the number of random numbers used so far and gives the new number, the
  picture and the pattern's new state.
\<close>

definition TransitionPattern_RenderTo ::
  "('p \<Rightarrow> grid \<Rightarrow> timestamp \<Rightarrow> grid res)
   \<Rightarrow> (nat \<Rightarrow> 't \<Rightarrow> grid \<Rightarrow> grid \<Rightarrow> grid \<Rightarrow> timestamp \<Rightarrow> (result \<times> grid \<times> 't \<times> nat) res)
   \<Rightarrow> nat \<Rightarrow> ('p, 't) transition_pattern \<Rightarrow> grid \<Rightarrow> timestamp
   \<Rightarrow> (grid \<times> ('p, 't) transition_pattern \<times> nat) res"
where
  "TransitionPattern_RenderTo prender trender pos tp dest t = (case tp_next tp of
       None \<Rightarrow> bind_res (prender (tp_current tp) dest (RelativeToStart t (tp_current_start tp)))
         (\<lambda>g. Inr (g, tp\<lparr>tp_last_render := t\<rparr>, pos))
     | Some (p, tr) \<Rightarrow>
         bind_res (prender (tp_current tp) (tp_tmp_current_dest tp) (RelativeToStart t (tp_current_start tp)))
           (\<lambda>current_dest.
         bind_res (prender p (tp_tmp_next_dest tp) (RelativeToStart t (tp_next_start tp))) (\<lambda>next_dest.
         bind_res (trender pos tr current_dest next_dest dest (RelativeToStart t (tp_next_start tp)))
           (\<lambda>(r, g, tr', pos').
             let tp = tp\<lparr>tp_tmp_current_dest := current_dest, tp_tmp_next_dest := next_dest,
                         tp_next := Some (p, tr')\<rparr>;
                 tp = (case r of
                     TransitionProgressing \<Rightarrow> tp
                   | TransitionComplete \<Rightarrow> tp\<lparr>tp_current := p, tp_current_start := tp_next_start tp,
                       tp_next := tp_pending tp, tp_next_start := t, tp_pending := None\<rparr>)
             in Inr (g, tp\<lparr>tp_last_render := t\<rparr>, pos')))))"

subsection \<open>Any patterns and transitions\<close>

locale transition_pattern_parts = pattern_interface prender pok pimage + transition_interface trender tok tduration
  for prender :: "'p \<Rightarrow> grid \<Rightarrow> timestamp \<Rightarrow> grid res" and pok and pimage
    and trender :: "nat \<Rightarrow> 't \<Rightarrow> grid \<Rightarrow> grid \<Rightarrow> grid \<Rightarrow> timestamp \<Rightarrow> (result \<times> grid \<times> 't \<times> nat) res"
    and tok and tduration
begin

definition step_ok :: "('p \<times> 't) option \<Rightarrow> bool" where
  "step_ok st \<longleftrightarrow> (\<forall>p tr. st = Some (p, tr) \<longrightarrow> pok p \<and> tok tr)"

definition tp_ok :: "('p, 't) transition_pattern \<Rightarrow> bool" where
  "tp_ok tp \<longleftrightarrow> pok (tp_current tp) \<and> step_ok (tp_next tp) \<and> step_ok (tp_pending tp)
     \<and> (tp_next tp = None \<longrightarrow> tp_pending tp = None)
     \<and> grid_ok (tp_tmp_current_dest tp) \<and> grid_ok (tp_tmp_next_dest tp)"

lemma tp_ok_ChangeTo: "tp_ok tp \<Longrightarrow> pok p \<Longrightarrow> tok tr \<Longrightarrow> tp_ok (ChangeTo p tr tp)"
  by (simp add: tp_ok_def ChangeTo_def step_ok_def)

lemma tp_ok_ChangeToImmediate: "tp_ok tp \<Longrightarrow> pok p \<Longrightarrow> tp_ok (ChangeToImmediate p tp)"
  by (simp add: tp_ok_def ChangeToImmediate_def step_ok_def)

text \<open>The picture of the current pattern.\<close>

definition current_picture :: "('p, 't) transition_pattern \<Rightarrow> timestamp \<Rightarrow> grid" where
  "current_picture tp t = pimage (tp_current tp) (RelativeToStart t (tp_current_start tp))"

lemma render_ok:
  assumes "tp_ok tp" "grid_ok dest"
  shows "\<exists>g tp' pos'. TransitionPattern_RenderTo prender trender pos tp dest t = Inr (g, tp', pos')
    \<and> grid_ok g \<and> tp_ok tp' \<and> tp_last_render tp' = t
    \<and> (tp_next tp = None \<longrightarrow> g = current_picture tp t \<and> tp' = tp\<lparr>tp_last_render := t\<rparr>)
    \<and> (\<forall>p tr. tp_next tp = Some (p, tr) \<longrightarrow>
         (\<exists>tr'. tp_next tp' = Some (p, tr') \<and> tduration tr' = tduration tr
              \<and> \<not> ms_size_t (tduration tr) \<le> RelativeToStart t (tp_next_start tp)
              \<and> tp_current tp' = tp_current tp \<and> tp_current_start tp' = tp_current_start tp
              \<and> tp_next_start tp' = tp_next_start tp \<and> tp_pending tp' = tp_pending tp)
         \<or> (tp_current tp' = p \<and> tp_current_start tp' = tp_next_start tp \<and> tp_next tp' = tp_pending tp
              \<and> tp_next_start tp' = t \<and> tp_pending tp' = None \<and> g = current_picture tp' t))"
proof (cases "tp_next tp")
  case None
  then show ?thesis
    using assms
    by (simp add: TransitionPattern_RenderTo_def prender_image tp_ok_def current_picture_def pimage_ok)
next
  case (Some st)
  obtain p tr where st: "st = (p, tr)"
    by (cases st)
  let ?now = "RelativeToStart t (tp_next_start tp)"
  let ?src = "pimage (tp_current tp) (RelativeToStart t (tp_current_start tp))" and ?to = "pimage p ?now"
  have ok: "pok (tp_current tp)" "pok p" "tok tr" "grid_ok (tp_tmp_current_dest tp)"
    "grid_ok (tp_tmp_next_dest tp)" "grid_ok ?src" "grid_ok ?to"
    using assms(1) Some st by (simp_all add: tp_ok_def step_ok_def pimage_ok)
  obtain r g tr' pos' where r: "trender pos tr ?src ?to dest ?now = Inr (r, g, tr', pos')"
    and tr': "grid_ok g" "tok tr'" "tduration tr' = tduration tr" "r = TransitionComplete \<longrightarrow> g = ?to"
      "ms_size_t (tduration tr) \<le> ?now \<longrightarrow> r = TransitionComplete"
    using trender_contract [OF ok(3,6,7) assms(2), of pos ?now] by blast
  show ?thesis
  proof (cases r)
    case TransitionProgressing
    then show ?thesis
      using assms(1) Some st ok r tr'
      by (simp add: TransitionPattern_RenderTo_def prender_image tp_ok_def step_ok_def)
  next
    case TransitionComplete
    then show ?thesis
      using assms(1) Some st ok r tr'
      by (simp add: TransitionPattern_RenderTo_def prender_image tp_ok_def step_ok_def current_picture_def)
  qed
qed

end

subsection \<open>The program's patterns and transitions\<close>

interpretation tp: transition_pattern_parts "Pattern_RenderTo font"
    "\<lambda>p. font_ok font \<and> pattern_ok p" "\<lambda>p t. grid_of (pattern_image font p t)"
    "RenderTransition rnd" "\<lambda>tr. fair rnd \<and> transition_ok tr" transition_duration
  for font :: "byte list" and rnd :: "nat \<Rightarrow> nat"
  by (rule transition_pattern_parts.intro) unfold_locales

text \<open>
  The invariant, written out: no pattern is pending unless one is next, and everything held
  can be drawn.
\<close>

definition step_fine :: "(pattern \<times> transition) option \<Rightarrow> bool" where
  "step_fine st \<longleftrightarrow> (\<forall>p tr. st = Some (p, tr) \<longrightarrow> pattern_ok p \<and> transition_ok tr)"

definition TransitionPattern_ok :: "(pattern, transition) transition_pattern \<Rightarrow> bool" where
  "TransitionPattern_ok tp \<longleftrightarrow> pattern_ok (tp_current tp) \<and> step_fine (tp_next tp) \<and> step_fine (tp_pending tp)
     \<and> (tp_next tp = None \<longrightarrow> tp_pending tp = None)
     \<and> grid_ok (tp_tmp_current_dest tp) \<and> grid_ok (tp_tmp_next_dest tp)"

lemma tp_ok_iff: "font_ok font \<Longrightarrow> fair rnd \<Longrightarrow> tp.tp_ok font rnd tp \<longleftrightarrow> TransitionPattern_ok tp"
  unfolding tp.tp_ok_def tp.step_ok_def by (simp add: TransitionPattern_ok_def step_fine_def)

lemma TransitionPattern_ok_init: "TransitionPattern_ok TransitionPattern"
  by (simp add: TransitionPattern_ok_def TransitionPattern_def step_fine_def)

lemma TransitionPattern_ok_ChangeTo:
  "TransitionPattern_ok tp \<Longrightarrow> pattern_ok p \<Longrightarrow> transition_ok tr \<Longrightarrow> TransitionPattern_ok (ChangeTo p tr tp)"
  by (simp add: TransitionPattern_ok_def ChangeTo_def step_fine_def)

lemma TransitionPattern_ok_ChangeToImmediate:
  "TransitionPattern_ok tp \<Longrightarrow> pattern_ok p \<Longrightarrow> TransitionPattern_ok (ChangeToImmediate p tp)"
  by (simp add: TransitionPattern_ok_def ChangeToImmediate_def step_fine_def)

text \<open>The pattern asked for last, and how many changes there are still to make.\<close>

definition tp_goal :: "('p, 't) transition_pattern \<Rightarrow> 'p" where
  "tp_goal tp = (case tp_pending tp of Some (p, _) \<Rightarrow> p
     | None \<Rightarrow> (case tp_next tp of Some (p, _) \<Rightarrow> p | None \<Rightarrow> tp_current tp))"

definition tp_phase :: "('p, 't) transition_pattern \<Rightarrow> nat" where
  "tp_phase tp = (if tp_next tp = None then 0 else if tp_pending tp = None then 1 else 2)"

definition tp_picture :: "byte list \<Rightarrow> (pattern, 't) transition_pattern \<Rightarrow> timestamp \<Rightarrow> grid" where
  "tp_picture font tp t = grid_of (pattern_image font (tp_current tp) (RelativeToStart t (tp_current_start tp)))"

text \<open>A change to make has had the time its transition needs.\<close>

definition tp_elapsed :: "(pattern, transition) transition_pattern \<Rightarrow> timestamp \<Rightarrow> bool" where
  "tp_elapsed tp t \<longleftrightarrow> (case tp_next tp of None \<Rightarrow> False
     | Some (_, tr) \<Rightarrow> ms_size_t (transition_duration tr) \<le> RelativeToStart t (tp_next_start tp))"

lemma TransitionPattern_RenderTo_ok:
  assumes "font_ok font" "fair rnd" "TransitionPattern_ok tp" "grid_ok dest"
  shows "\<exists>g tp' pos'. TransitionPattern_RenderTo (Pattern_RenderTo font) (RenderTransition rnd) pos tp dest t
      = Inr (g, tp', pos') \<and> grid_ok g \<and> TransitionPattern_ok tp'
    \<and> (tp_next tp = None \<longrightarrow> g = tp_picture font tp t \<and> tp' = tp\<lparr>tp_last_render := t\<rparr>)
    \<and> (tp_phase tp' < tp_phase tp \<longrightarrow> g = tp_picture font tp' t)
    \<and> tp_goal tp' = tp_goal tp \<and> tp_phase tp' \<le> tp_phase tp
    \<and> (tp_elapsed tp t \<longrightarrow> tp_phase tp' < tp_phase tp)"
proof -
  let ?call = "TransitionPattern_RenderTo (Pattern_RenderTo font) (RenderTransition rnd) pos tp dest t"
  have ok: "tp.tp_ok font rnd tp"
    using assms(3) tp_ok_iff [OF assms(1,2)] by blast
  obtain g tp' pos' where r: "?call = Inr (g, tp', pos')" "grid_ok g" "tp.tp_ok font rnd tp'"
    and idle: "tp_next tp = None \<longrightarrow> g = tp.current_picture font tp t \<and> tp' = tp\<lparr>tp_last_render := t\<rparr>"
    and change: "\<forall>p tr. tp_next tp = Some (p, tr) \<longrightarrow>
         (\<exists>tr'. tp_next tp' = Some (p, tr') \<and> transition_duration tr' = transition_duration tr
              \<and> \<not> ms_size_t (transition_duration tr) \<le> RelativeToStart t (tp_next_start tp)
              \<and> tp_current tp' = tp_current tp \<and> tp_current_start tp' = tp_current_start tp
              \<and> tp_next_start tp' = tp_next_start tp \<and> tp_pending tp' = tp_pending tp)
         \<or> (tp_current tp' = p \<and> tp_current_start tp' = tp_next_start tp \<and> tp_next tp' = tp_pending tp
              \<and> tp_next_start tp' = t \<and> tp_pending tp' = None \<and> g = tp.current_picture font tp' t)"
    using tp.render_ok [OF ok assms(4), of pos t] by (elim exE conjE) (rule that; assumption)
  have picture: "tp.current_picture font x t = tp_picture font x t" for x :: "(pattern, transition) transition_pattern"
    unfolding tp.current_picture_def by (simp add: tp_picture_def)
  have inv: "TransitionPattern_ok tp'"
    using r(3) tp_ok_iff [OF assms(1,2)] by blast
  have rest: "(tp_next tp = None \<longrightarrow> g = tp_picture font tp t \<and> tp' = tp\<lparr>tp_last_render := t\<rparr>)
    \<and> (tp_phase tp' < tp_phase tp \<longrightarrow> g = tp_picture font tp' t)
    \<and> tp_goal tp' = tp_goal tp \<and> tp_phase tp' \<le> tp_phase tp
    \<and> (tp_elapsed tp t \<longrightarrow> tp_phase tp' < tp_phase tp)"
  proof (cases "tp_next tp")
    case None
    then show ?thesis
      using idle picture by (simp add: tp_goal_def tp_phase_def tp_elapsed_def split: option.splits)
  next
    case (Some st)
    obtain p tr where st: "st = (p, tr)" by (cases st)
    let ?going = "\<exists>tr'. tp_next tp' = Some (p, tr') \<and> transition_duration tr' = transition_duration tr
              \<and> \<not> ms_size_t (transition_duration tr) \<le> RelativeToStart t (tp_next_start tp)
              \<and> tp_current tp' = tp_current tp \<and> tp_current_start tp' = tp_current_start tp
              \<and> tp_next_start tp' = tp_next_start tp \<and> tp_pending tp' = tp_pending tp"
    let ?over = "tp_current tp' = p \<and> tp_current_start tp' = tp_next_start tp \<and> tp_next tp' = tp_pending tp
              \<and> tp_next_start tp' = t \<and> tp_pending tp' = None \<and> g = tp.current_picture font tp' t"
    have "?going \<or> ?over"
      using change Some st by simp
    then show ?thesis
    proof
      assume ?going
      then show ?thesis
        using Some st by (elim exE conjE) (simp add: tp_goal_def tp_phase_def tp_elapsed_def split: option.splits)
    next
      assume ?over
      then show ?thesis
        using Some st picture by (elim conjE) (simp add: tp_goal_def tp_phase_def tp_elapsed_def split: option.splits)
    qed
  qed
  show ?thesis
    by (rule exI [of _ g], rule exI [of _ tp'], rule exI [of _ pos'],
        rule conjI [OF r(1) conjI [OF r(2) conjI [OF inv rest]]])
qed

text \<open>
  C16: Drawing a frame never fails and keeps the invariant. With no change under way it shows
  the current pattern; a change under way never loses the pattern asked for last, makes no
  step back, and is over at the latest when its transition has had its time; and the frame
  that ends a change shows exactly what the new current pattern shows, so nothing jumps.
\<close>

theorem TransitionPattern_frame:
  assumes "font_ok font" "fair rnd" "TransitionPattern_ok tp" "grid_ok dest"
  shows "\<exists>g tp' pos'. TransitionPattern_RenderTo (Pattern_RenderTo font) (RenderTransition rnd) pos tp dest t
      = Inr (g, tp', pos') \<and> grid_ok g \<and> TransitionPattern_ok tp'
    \<and> (tp_next tp = None \<longrightarrow> g = tp_picture font tp t \<and> tp' = tp\<lparr>tp_last_render := t\<rparr>)
    \<and> (tp_phase tp' < tp_phase tp \<longrightarrow> g = tp_picture font tp' t)
    \<and> tp_goal tp' = tp_goal tp \<and> tp_phase tp' \<le> tp_phase tp
    \<and> (tp_elapsed tp t \<longrightarrow> tp_phase tp' < tp_phase tp)"
  using assms by (rule TransitionPattern_RenderTo_ok)

theorem TransitionPattern_frame_witness:
  "\<exists>g tp' pos'. TransitionPattern_RenderTo (Pattern_RenderTo (replicate 49152 0)) (RenderTransition (\<lambda>n. n)) 0
      (ChangeTo (TextPattern ''Hi'') (LinearFade (TimeSpan_Seconds 2)) TransitionPattern) ColorGrid 2000
      = Inr (g, tp', pos')
    \<and> tp_phase tp' < tp_phase (ChangeTo (TextPattern ''Hi'') (LinearFade (TimeSpan_Seconds 2)) TransitionPattern)
    \<and> g = tp_picture (replicate 49152 0) tp' 2000"
proof -
  let ?tp = "ChangeTo (TextPattern ''Hi'') (LinearFade (TimeSpan_Seconds 2)) TransitionPattern"
  have "font_ok (replicate 49152 0)"
    by (simp add: font_ok_def)
  moreover have "TransitionPattern_ok ?tp"
    by (rule TransitionPattern_ok_ChangeTo [OF TransitionPattern_ok_init]) (simp_all add: text_ok_def)
  ultimately have "\<exists>g tp' pos'. TransitionPattern_RenderTo (Pattern_RenderTo (replicate 49152 0)) (RenderTransition (\<lambda>n. n)) 0
      ?tp ColorGrid 2000 = Inr (g, tp', pos') \<and> grid_ok g \<and> TransitionPattern_ok tp'
    \<and> (tp_next ?tp = None \<longrightarrow> g = tp_picture (replicate 49152 0) ?tp 2000 \<and> tp' = ?tp\<lparr>tp_last_render := 2000\<rparr>)
    \<and> (tp_phase tp' < tp_phase ?tp \<longrightarrow> g = tp_picture (replicate 49152 0) tp' 2000)
    \<and> tp_goal tp' = tp_goal ?tp \<and> tp_phase tp' \<le> tp_phase ?tp
    \<and> (tp_elapsed ?tp 2000 \<longrightarrow> tp_phase tp' < tp_phase ?tp)"
    by (rule TransitionPattern_frame [OF _ fair_id _ grid_ok_ColorGrid])
  moreover have "tp_elapsed ?tp 2000"
    by (simp add: tp_elapsed_def ChangeTo_def TransitionPattern_def RelativeToStart_def ms_size_t_def)
  ultimately show ?thesis
    by blast
qed

end
