(* ===== verification/Factories.thy ===== *)
theory Factories
  imports TransitionPattern StdMap
begin

section \<open>The factories\<close>

text \<open>
  \<open>CampLight/camplight/factory/\<close> and \<open>render/SequenceEntry.h\<close>, \<open>SequenceEntry.cpp\<close>: the names
  of the patterns, transitions and sequences, and what they stand for. A factory is the map
  its constructor fills; a constructor that draws random numbers is a function of them.
\<close>

subsection \<open>PatternFactory\<close>

definition map_of_assignments :: "(string \<times> 'v) list \<Rightarrow> (string, 'v) smap" where
  "map_of_assignments as = fold (\<lambda>(k, v). smap_assign k v) as []"

definition PatternFactory :: "(string, pattern) smap" where
  "PatternFactory = map_of_assignments
    [(''Black'', Solid (Color 0 0 0)),
     (''Red'', Solid (Color 255 0 0)),
     (''Green'', Solid (Color 0 255 0)),
     (''Blue'', Solid (Color 0 0 255)),
     (''Cyan'', Solid (Color 0 255 255)),
     (''Yellow'', Solid (Color 255 255 0)),
     (''Magenta'', Solid (Color 255 0 255)),
     (''Orange'', Solid (Color 255 128 0)),
     (''Indigo'', Solid (Color 75 0 130)),
     (''White'', Solid (Color 255 255 255)),
     (''Rainbow'', DiagonalRainbow),
     (''Test Pattern'', TestPattern),
     (''CampIt 2016'', TextPattern ''CampIt 2016 '')]"

definition GetNames :: "(string, 'v) smap \<Rightarrow> string list" where
  "GetNames constructors = map fst constructors"

definition CreatePattern :: "string \<Rightarrow> pattern" where
  "CreatePattern name = (case smap_find name PatternFactory of
       None \<Rightarrow> Solid (Color 0 0 0)
     | Some p \<Rightarrow> p)"

subsection \<open>TransitionFactory\<close>

type_synonym transition_constructor = "(nat \<Rightarrow> nat) \<Rightarrow> nat \<Rightarrow> transition \<times> nat"

definition random_transition :: transition_constructor where
  "random_transition rnd pos =
     (let n = rnd pos mod 4; pos = pos + 1
      in if n = 0 then (RandomDither_new (TimeSpan_Seconds 1), pos)
         else if n = 1 then Swipe_new rnd pos (TimeSpan_Seconds 1)
         else (LinearFade (TimeSpan_Seconds 2), pos))"

definition TransitionFactory :: "(string, transition_constructor) smap" where
  "TransitionFactory = map_of_assignments
    [(''Fade'', \<lambda>_ pos. (LinearFade (TimeSpan_Seconds 2), pos)),
     (''Slow Fade'', \<lambda>_ pos. (LinearFade (TimeSpan_Seconds 10), pos)),
     (''Random Dither'', \<lambda>_ pos. (RandomDither_new (TimeSpan_Seconds 1), pos)),
     (''Immediate'', \<lambda>_ pos. (Immediate, pos)),
     (''Random'', random_transition)]"

definition CreateTransition :: "string \<Rightarrow> transition_constructor" where
  "CreateTransition name rnd pos = (case smap_find name TransitionFactory of
       None \<Rightarrow> (LinearFade (TimeSpan_Seconds 1), pos)
     | Some c \<Rightarrow> c rnd pos)"

subsection \<open>SequenceEntry\<close>

record sequence_entry =
  top_transition_name :: string
  top_pattern_name :: string
  main_transition_name :: string
  main_pattern_name :: string
  duration :: timespan

definition SequenceEntry :: "string \<Rightarrow> string \<Rightarrow> string \<Rightarrow> string \<Rightarrow> timespan \<Rightarrow> sequence_entry" where
  "SequenceEntry tt tp mt mp d = \<lparr>top_transition_name = tt, top_pattern_name = tp,
     main_transition_name = mt, main_pattern_name = mp, duration = d\<rparr>"

definition SequenceEntry_ToBinary :: "nat \<Rightarrow> sequence_entry \<Rightarrow> to_binary \<Rightarrow> to_binary res" where
  "SequenceEntry_ToBinary size_max e m =
     bind_res (WriteString size_max (bytes_of (top_transition_name e)) m) (\<lambda>m.
     bind_res (WriteString size_max (bytes_of (top_pattern_name e)) m) (\<lambda>m.
     bind_res (WriteString size_max (bytes_of (main_transition_name e)) m) (\<lambda>m.
     bind_res (WriteString size_max (bytes_of (main_pattern_name e)) m) (\<lambda>m.
     WriteUint64 size_max (word_of_int (ToMilliseconds (duration e))) m))))"

text \<open>The milliseconds become the signed count of \<open>std::chrono::milliseconds\<close>.\<close>

definition SequenceEntry_FromBinary :: "nat \<Rightarrow> from_binary \<Rightarrow> sequence_entry \<times> from_binary" where
  "SequenceEntry_FromBinary size_max m =
     (let (tt, m) = ReadString size_max m; (tp, m) = ReadString size_max m;
          (mt, m) = ReadString size_max m; (mp, m) = ReadString size_max m;
          (duration_ms, m) = ReadUint64 m
      in (SequenceEntry (chars_of tt) (chars_of tp) (chars_of mt) (chars_of mp)
            (TimeSpan_Milliseconds (sint duration_ms)), m))"

subsection \<open>SequenceFactory\<close>

definition CreateColorWave :: "string list \<Rightarrow> timespan \<Rightarrow> sequence_entry list" where
  "CreateColorWave colors d =
     (let half_duration = TimeSpan_Milliseconds (duration_cast 2 (ToMilliseconds d))
      in fold (\<lambda>i result. result @
           [SequenceEntry ''Random'' (colors ! i) ''Random'' (colors ! i) half_duration,
            SequenceEntry ''Random'' (colors ! ((i + 1) mod length colors)) ''Random'' (colors ! i) half_duration])
         [0..<length colors] [])"

definition SequenceFactory :: "(string, sequence_entry list) smap" where
  "SequenceFactory = map_of_assignments
    [(''White'', [SequenceEntry ''Slow Fade'' ''White'' ''Slow Fade'' ''White'' (TimeSpan_Minutes 10)]),
     (''Red and Blues'', CreateColorWave
        [''Orange'', ''Red'', ''Magenta'', ''Blue'', ''Cyan'', ''Blue'', ''Indigo'', ''Magenta'', ''Red'']
        (TimeSpan_Seconds 10)),
     (''Blues and Greens'', CreateColorWave
        [''Indigo'', ''Blue'', ''Cyan'', ''Green'', ''Cyan'', ''Blue''] (TimeSpan_Seconds 10)),
     (''Rainbow'', CreateColorWave
        [''Blue'', ''Cyan'', ''Green'', ''Yellow'', ''Orange'', ''Red'', ''Magenta'', ''Indigo'']
        (TimeSpan_Seconds 10)),
     (''Stuff'', CreateColorWave [''CampIt 2016'', ''Rainbow''] (TimeSpan_Seconds 30))]"

definition CreateSequenceEntries :: "string \<Rightarrow> sequence_entry list" where
  "CreateSequenceEntries name = (case smap_find name SequenceFactory of None \<Rightarrow> [] | Some es \<Rightarrow> es)"

definition CreateDefaultSequenceEntries :: "sequence_entry list" where
  "CreateDefaultSequenceEntries = CreateSequenceEntries ''White''"

subsection \<open>Lookups\<close>

lemma map_of_assignments_find:
  "smap_find k (map_of_assignments as) = map_of (rev as) k"
proof -
  have "smap_find k (fold (\<lambda>(k, v). smap_assign k v) as m) = (map_of m ++ map_of (rev as)) k" if "smap_ok m" for m
    using that
  proof (induction as arbitrary: m)
    case Nil
    then show ?case by simp
  next
    case (Cons a as)
    obtain l v where a: "a = (l, v)" by (cases a)
    show ?case
      using Cons.IH [of "smap_assign l v m"] Cons.prems
      by (simp add: a smap_assign_ok smap_assign_find map_add_def split: option.splits)
  qed
  then show ?thesis
    by (simp add: map_of_assignments_def)
qed

lemma map_of_assignments_all:
  assumes "smap_find k (map_of_assignments as) = Some v" "\<And>a. a \<in> set as \<Longrightarrow> P (snd a)"
  shows "P v"
proof -
  have "(k, v) \<in> set as"
    using assms(1) map_of_SomeD [of "rev as" k v] by (simp add: map_of_assignments_find)
  then show ?thesis
    using assms(2) by fastforce
qed

lemma CreatePattern_ok: "pattern_ok (CreatePattern name)"
proof (cases "smap_find name PatternFactory")
  case None
  then show ?thesis
    by (simp add: CreatePattern_def)
next
  case (Some p)
  then have "pattern_ok p"
    unfolding PatternFactory_def
    by (rule map_of_assignments_all) (auto simp: text_ok_def)
  then show ?thesis
    using Some by (simp add: CreatePattern_def)
qed

lemma random_transition_ok: "transition_ok (fst (random_transition rnd pos))"
  by (simp add: random_transition_def Let_def transition_ok_RandomDither_new transition_ok_Swipe_new)

lemma CreateTransition_ok: "transition_ok (fst (CreateTransition name rnd pos))"
proof (cases "smap_find name TransitionFactory")
  case None
  then show ?thesis
    by (simp add: CreateTransition_def)
next
  case (Some c)
  then have "transition_ok (fst (c rnd pos))"
    unfolding TransitionFactory_def
    by (rule map_of_assignments_all) (auto simp: random_transition_ok transition_ok_RandomDither_new)
  then show ?thesis
    using Some by (simp add: CreateTransition_def)
qed

lemma CreateTransition_duration:
  "transition_duration (fst (CreateTransition name rnd pos)) \<in> {0, TimeSpan_Seconds 1, TimeSpan_Seconds 2, TimeSpan_Seconds 10}"
proof (cases "smap_find name TransitionFactory")
  case None
  then show ?thesis
    by (simp add: CreateTransition_def)
next
  case (Some c)
  then have "transition_duration (fst (c rnd pos)) \<in> {0, TimeSpan_Seconds 1, TimeSpan_Seconds 2, TimeSpan_Seconds 10}"
    unfolding TransitionFactory_def
    by (rule map_of_assignments_all)
      (auto simp: random_transition_def RandomDither_new_def Swipe_new_def Let_def)
  then show ?thesis
    using Some by (simp add: CreateTransition_def)
qed

subsection \<open>Colour waves\<close>

definition wave_pair :: "string list \<Rightarrow> timespan \<Rightarrow> nat \<Rightarrow> sequence_entry list" where
  "wave_pair colors h i =
     [SequenceEntry ''Random'' (colors ! i) ''Random'' (colors ! i) h,
      SequenceEntry ''Random'' (colors ! ((i + 1) mod length colors)) ''Random'' (colors ! i) h]"

lemma CreateColorWave_eq:
  "CreateColorWave colors d =
     concat (map (wave_pair colors (TimeSpan_Milliseconds (duration_cast 2 (ToMilliseconds d)))) [0..<length colors])"
proof -
  have "fold (\<lambda>i result. result @ f i) xs r = r @ concat (map f xs)"
    for f :: "nat \<Rightarrow> sequence_entry list" and xs r
    by (induction xs arbitrary: r) simp_all
  then show ?thesis
    by (simp add: CreateColorWave_def wave_pair_def [abs_def] Let_def)
qed

lemma length_concat_pairs: "(\<And>x. length (f x) = 2) \<Longrightarrow> length (concat (map f xs)) = 2 * length xs"
  by (induction xs) simp_all

lemma concat_pairs_nth:
  assumes "\<And>x. length (f x) = 2" "i < length xs"
  shows "concat (map f xs) ! (2 * i) = f (xs ! i) ! 0" "concat (map f xs) ! (2 * i + 1) = f (xs ! i) ! 1"
  using assms by (induction xs arbitrary: i) (auto simp: nth_append nth_Cons split: nat.splits)

lemma wave_entries:
  assumes "i < length colors"
  shows "length (CreateColorWave colors d) = 2 * length colors"
    and "CreateColorWave colors d ! (2 * i) = wave_pair colors (TimeSpan_Milliseconds (duration_cast 2 (ToMilliseconds d))) i ! 0"
    and "CreateColorWave colors d ! (2 * i + 1) = wave_pair colors (TimeSpan_Milliseconds (duration_cast 2 (ToMilliseconds d))) i ! 1"
  using concat_pairs_nth [of "wave_pair colors (TimeSpan_Milliseconds (duration_cast 2 (ToMilliseconds d)))" i "[0..<length colors]"]
    length_concat_pairs [of "wave_pair colors (TimeSpan_Milliseconds (duration_cast 2 (ToMilliseconds d)))" "[0..<length colors]"] assms
  by (simp_all add: CreateColorWave_eq wave_pair_def)

text \<open>
  A colour wave has two entries for each colour: in the first, the top and the main lights
  have that colour; in the second the top already has the next colour, after the last one the
  first again; so from one entry to the next only one of the two changes its colour.
\<close>

theorem CreateColorWave_alternates:
  assumes "i < length colors"
  shows "let es = CreateColorWave colors d; next_colour = colors ! ((i + 1) mod length colors) in
    length es = 2 * length colors
    \<and> top_pattern_name (es ! (2 * i)) = colors ! i \<and> main_pattern_name (es ! (2 * i)) = colors ! i
    \<and> top_pattern_name (es ! (2 * i + 1)) = next_colour \<and> main_pattern_name (es ! (2 * i + 1)) = colors ! i
    \<and> top_pattern_name (es ! ((2 * i + 2) mod length es)) = next_colour
    \<and> main_pattern_name (es ! ((2 * i + 2) mod length es)) = next_colour"
proof -
  have "(2 * i + 2) mod (2 * length colors) = 2 * ((i + 1) mod length colors)"
    by (simp add: mult_mod_right)
  moreover have "(i + 1) mod length colors < length colors"
    using assms(1) by (intro mod_less_divisor) auto
  ultimately show ?thesis
    using wave_entries [OF assms(1), of d] wave_entries(2) [of "(i + 1) mod length colors" colors d]
    by (simp add: Let_def wave_pair_def SequenceEntry_def)
qed

theorem CreateColorWave_alternates_witness:
  "top_pattern_name (CreateColorWave [''Red'', ''Blue''] (TimeSpan_Seconds 10) ! 3) = ''Red''
   \<and> main_pattern_name (CreateColorWave [''Red'', ''Blue''] (TimeSpan_Seconds 10) ! 3) = ''Blue''"
  using CreateColorWave_alternates [of 1 "[''Red'', ''Blue'']" "TimeSpan_Seconds 10"]
  by (simp add: Let_def numeral_3_eq_3)

subsection \<open>The sequences\<close>

definition names_known :: "sequence_entry \<Rightarrow> bool" where
  "names_known e \<longleftrightarrow> smap_find (top_transition_name e) TransitionFactory \<noteq> None
     \<and> smap_find (main_transition_name e) TransitionFactory \<noteq> None
     \<and> smap_find (top_pattern_name e) PatternFactory \<noteq> None
     \<and> smap_find (main_pattern_name e) PatternFactory \<noteq> None
     \<and> 10000 \<le> ToMilliseconds (duration e) * 2"

lemma wave_names_known:
  assumes "set colors \<subseteq> set (GetNames PatternFactory)" "10000 \<le> ToMilliseconds d"
  shows "\<forall>e \<in> set (CreateColorWave colors d). names_known e"
proof
  fix e assume "e \<in> set (CreateColorWave colors d)"
  then obtain i where i: "i < length colors"
    "e \<in> set (wave_pair colors (TimeSpan_Milliseconds (duration_cast 2 (ToMilliseconds d))) i)"
    by (auto simp: CreateColorWave_eq)
  have "colors ! i \<in> set colors" "colors ! ((i + 1) mod length colors) \<in> set colors"
    using i(1) by (auto intro!: nth_mem mod_less_divisor)
  moreover have known: "smap_find c PatternFactory \<noteq> None" if "c \<in> set colors" for c
    using that assms(1) by (auto simp: GetNames_def map_of_eq_None_iff)
  moreover have "smap_find ''Random'' TransitionFactory \<noteq> None"
    by (simp add: TransitionFactory_def map_of_assignments_find)
  moreover have "10000 \<le> duration_cast 2 (ToMilliseconds d) * 2"
    using assms(2) by (simp add: duration_cast_def)
  ultimately show "names_known e"
    using i(2) by (auto simp: wave_pair_def names_known_def SequenceEntry_def)
qed

lemma GetNames_iff: "c \<in> set (GetNames f) \<longleftrightarrow> smap_find c f \<noteq> None"
  by (auto simp: GetNames_def map_of_eq_None_iff)

text \<open>
  Every sequence the factory offers has at least one entry, every transition and pattern it
  names exists in the factories, so no default is ever used, and every entry lasts at least
  five seconds.
\<close>

theorem SequenceFactory_entries:
  assumes "smap_find name SequenceFactory = Some es"
  shows "es \<noteq> [] \<and> (\<forall>e \<in> set es. names_known e)"
proof -
  have pat: "c \<in> set (GetNames PatternFactory)"
    if "c \<in> {''Black'', ''Red'', ''Green'', ''Blue'', ''Cyan'', ''Yellow'', ''Magenta'', ''Orange'', ''Indigo'',
      ''White'', ''Rainbow'', ''CampIt 2016''}" for c
    using that by (auto simp: GetNames_iff PatternFactory_def map_of_assignments_find)
  have known: "\<forall>e \<in> set (CreateColorWave colors (TimeSpan_Seconds n)). names_known e"
    if "set colors \<subseteq> {''Black'', ''Red'', ''Green'', ''Blue'', ''Cyan'', ''Yellow'', ''Magenta'', ''Orange'',
      ''Indigo'', ''White'', ''Rainbow'', ''CampIt 2016''}" "10 \<le> n" for colors n
    using that pat by (intro wave_names_known) auto
  have wave: "CreateColorWave colors d \<noteq> []" if "colors \<noteq> []" for colors d
    using wave_entries(1) [of 0 colors d] that by auto
  have white: "names_known (SequenceEntry ''Slow Fade'' ''White'' ''Slow Fade'' ''White'' (TimeSpan_Minutes 10))"
    by (simp add: names_known_def SequenceEntry_def TransitionFactory_def PatternFactory_def
        map_of_assignments_find)
  note waves = known [of "[''Orange'', ''Red'', ''Magenta'', ''Blue'', ''Cyan'', ''Blue'', ''Indigo'', ''Magenta'', ''Red'']" 10]
    known [of "[''Indigo'', ''Blue'', ''Cyan'', ''Green'', ''Cyan'', ''Blue'']" 10]
    known [of "[''Blue'', ''Cyan'', ''Green'', ''Yellow'', ''Orange'', ''Red'', ''Magenta'', ''Indigo'']" 10]
    known [of "[''CampIt 2016'', ''Rainbow'']" 30]
  from assms show ?thesis
    unfolding SequenceFactory_def
    by (rule map_of_assignments_all) (use waves in \<open>auto simp: wave white\<close>)
qed

theorem SequenceFactory_entries_witness:
  "CreateDefaultSequenceEntries \<noteq> [] \<and> names_known (hd CreateDefaultSequenceEntries)"
proof -
  have "smap_find ''White'' SequenceFactory = Some CreateDefaultSequenceEntries"
    by (simp add: CreateDefaultSequenceEntries_def CreateSequenceEntries_def SequenceFactory_def
        map_of_assignments_find)
  from SequenceFactory_entries [OF this] show ?thesis
    by simp
qed

subsection \<open>An entry in the binary format\<close>

definition entry_val :: "sequence_entry \<Rightarrow> val" where
  "entry_val e = VPair (VString (bytes_of (top_transition_name e)))
     (VPair (VString (bytes_of (top_pattern_name e)))
     (VPair (VString (bytes_of (main_transition_name e)))
     (VPair (VString (bytes_of (main_pattern_name e)))
     (VPair (VInt U64 (uint (word_of_int (ToMilliseconds (duration e)) :: u64))) VUnit))))"

fun vfst :: "val \<Rightarrow> val" where
  "vfst (VPair a b) = a"
| "vfst v = v"

fun vsnd :: "val \<Rightarrow> val" where
  "vsnd (VPair a b) = b"
| "vsnd v = v"

fun vstring :: "val \<Rightarrow> string" where
  "vstring (VString s) = chars_of s"
| "vstring _ = []"

fun vint :: "val \<Rightarrow> int" where
  "vint (VInt _ x) = x"
| "vint _ = 0"

definition entry_of_val :: "val \<Rightarrow> sequence_entry" where
  "entry_of_val v = SequenceEntry (vstring (vfst v)) (vstring (vfst (vsnd v)))
     (vstring (vfst (vsnd (vsnd v)))) (vstring (vfst (vsnd (vsnd (vsnd v)))))
     (TimeSpan_Milliseconds (sint (word_of_int (vint (vfst (vsnd (vsnd (vsnd (vsnd v)))))) :: u64)))"

definition entry_ety :: ety where
  "entry_ety = EPair EString (EPair EString (EPair EString (EPair EString (EPair (EInt U64) EUnit))))"

definition entry_whole_ms :: "sequence_entry \<Rightarrow> bool" where
  "entry_whole_ms e \<longleftrightarrow> (\<exists>ms. 0 \<le> ms \<and> ms < 2 ^ 63 \<and> duration e = TimeSpan_Milliseconds ms)"

interpretation entry_class: binary_class SequenceEntry_ToBinary SequenceEntry_FromBinary entry_val entry_of_val
    entry_ety entry_whole_ms
proof unfold_locales
  fix size_max e m
  show "SequenceEntry_ToBinary size_max e m = write_val size_max (entry_val e) m"
    by (simp add: SequenceEntry_ToBinary_def entry_val_def bind_res_def split: sum.splits)
next
  fix pf lib rm old r v r'
  assume "read_ty pf lib rm entry_ety old r = Inr (v, r')"
  then show "SequenceEntry_FromBinary (pf_size_max pf) r = (entry_of_val v, r')"
    by (auto simp: entry_ety_def SequenceEntry_FromBinary_def entry_of_val_def bind_res_eq_Inr split: prod.splits)
next
  fix e assume "entry_whole_ms e"
  then obtain ms where ms: "0 \<le> ms" "ms < 2 ^ 63" "duration e = TimeSpan_Milliseconds ms"
    by (auto simp: entry_whole_ms_def)
  have "sint (word_of_int ms :: u64) = ms"
    using ms(1,2) by (intro signed_word_of_int) simp_all
  then show "entry_of_val (entry_val e) = e"
    using ms(3) by (simp add: entry_of_val_def entry_val_def SequenceEntry_def)
qed

text \<open>
  An entry of a sequence written to the binary format is read back as it was, when its
  texts are short enough for the writer and its duration is a whole number of milliseconds.
\<close>

theorem SequenceEntry_binary_roundtrip:
  assumes "entry_whole_ms e" "1024 \<le> size_max"
    and "\<forall>s \<in> {top_transition_name e, top_pattern_name e, main_transition_name e, main_pattern_name e}. length s \<le> 100"
  shows "\<exists>s bs m. SequenceEntry_ToBinary size_max e ToBinary_default = Inr s
           \<and> \<not> tb_HasError s \<and> ExtractData s = map Some bs
           \<and> SequenceEntry_FromBinary size_max (FromBinary bs) = (e, m)
           \<and> \<not> fb_HasError (EnsureAllBytesRead m)"
proof -
  let ?pf = "\<lparr>pf_size_max = size_max, pf_vector_max = size_max\<rparr>"
  have ms: "0 \<le> uint (w :: u64)" "uint w < 18446744073709551616" for w
    using unsigned_less [of w, where 'a = int] by simp_all
  have len: "length (bytes_of s) = length s" for s
    by (simp add: bytes_of_def)
  have "has_type ?pf (\<lambda>_. None) entry_ety (entry_val e)"
    using assms(2,3) by (simp add: entry_ety_def entry_val_def ms size_ok_def len)
  moreover have "1024 \<le> pf_size_max ?pf"
    using assms by simp
  moreover have "\<And>b. b \<in> set (val_blocks (entry_val e)) \<Longrightarrow> length b \<le> 1024"
    using assms(3) by (auto simp: entry_val_def string_blocks_def len split: if_splits)
  moreover have "length (enc_val (entry_val e)) \<le> pf_size_max ?pf div 2"
  proof -
    have "512 \<le> size_max div 2"
      using assms(2) by simp
    then show ?thesis
      using assms(3) by (simp add: enc_val_def entry_val_def len)
  qed
  ultimately show ?thesis
    using entry_class.class_roundtrip [where pf = ?pf, OF assms(1)] by simp
qed

theorem SequenceEntry_binary_roundtrip_witness:
  "\<exists>s bs m. SequenceEntry_ToBinary 4294967295 (SequenceEntry ''Fade'' ''Red'' ''Random'' ''Blue'' (TimeSpan_Milliseconds 5000)) ToBinary_default = Inr s
           \<and> \<not> tb_HasError s \<and> ExtractData s = map Some bs
           \<and> SequenceEntry_FromBinary 4294967295 (FromBinary bs)
               = (SequenceEntry ''Fade'' ''Red'' ''Random'' ''Blue'' (TimeSpan_Milliseconds 5000), m)
           \<and> \<not> fb_HasError (EnsureAllBytesRead m)"
proof (rule SequenceEntry_binary_roundtrip)
  show "entry_whole_ms (SequenceEntry ''Fade'' ''Red'' ''Random'' ''Blue'' (TimeSpan_Milliseconds 5000))"
    unfolding entry_whole_ms_def by (rule exI [of _ 5000]) (simp add: SequenceEntry_def)
qed (simp_all add: SequenceEntry_def)

end
