(* ===== verification/Sequence.thy ===== *)
theory Sequence
  imports Factories
begin

section \<open>camplight::render::Sequence\<close>

text \<open>
  \<open>CampLight/camplight/render/Sequence.h\<close> and \<open>Sequence.cpp\<close>: the object that goes round a list
  of entries and tells the patterns of the main and the top lights to change when the time of
  an entry is over. An access to the list of entries outside its bounds is a fault.
\<close>

type_synonym tpattern = "(pattern, transition) transition_pattern"

record sequence =
  sq_main :: tpattern
  sq_top :: tpattern
  sq_entries :: "sequence_entry list"
  sq_cur_index :: "nat option"
  sq_cur_start :: timestamp
  sq_next_start :: timestamp
  sq_last_render :: timestamp

definition Sequence :: sequence where
  "Sequence = \<lparr>sq_main = TransitionPattern, sq_top = TransitionPattern, sq_entries = [],
     sq_cur_index = None, sq_cur_start = 0, sq_next_start = 0, sq_last_render = 0\<rparr>"

definition ChangeToBlackImmediate :: "sequence \<Rightarrow> sequence" where
  "ChangeToBlackImmediate sq = sq\<lparr>sq_entries := [], sq_cur_index := None,
     sq_main := ChangeToImmediate (Solid (Color 0 0 0)) (sq_main sq),
     sq_top := ChangeToImmediate (Solid (Color 0 0 0)) (sq_top sq)\<rparr>"

definition Sequence_ChangeTo :: "sequence_entry list \<Rightarrow> sequence \<Rightarrow> sequence" where
  "Sequence_ChangeTo entries sq = sq\<lparr>sq_cur_index := None, sq_entries := entries\<rparr>"

text \<open>Both branches of \<open>RenderTo\<close> make an entry the current one in the same way.\<close>

definition start_entry :: "(nat \<Rightarrow> nat) \<Rightarrow> nat \<Rightarrow> timestamp \<Rightarrow> nat \<Rightarrow> sequence_entry \<Rightarrow> sequence \<Rightarrow> sequence \<times> nat" where
  "start_entry rnd pos t index e sq =
     (let sq = sq\<lparr>sq_cur_index := Some index, sq_cur_start := t, sq_next_start := t + ms_size_t (duration e)\<rparr>;
          (main_transition, pos) = CreateTransition (main_transition_name e) rnd pos;
          sq = sq\<lparr>sq_main := ChangeTo (CreatePattern (main_pattern_name e)) main_transition (sq_main sq)\<rparr>;
          (top_transition, pos) = CreateTransition (top_transition_name e) rnd pos;
          sq = sq\<lparr>sq_top := ChangeTo (CreatePattern (top_pattern_name e)) top_transition (sq_top sq)\<rparr>
      in (sq, pos))"

definition advance_entry :: "(nat \<Rightarrow> nat) \<Rightarrow> nat \<Rightarrow> timestamp \<Rightarrow> sequence \<Rightarrow> (sequence \<times> nat) res" where
  "advance_entry rnd pos t sq =
     (if sq_cur_index sq = None \<and> sq_entries sq \<noteq> [] then
        Inr (start_entry rnd pos t 0 (sq_entries sq ! 0) sq)
      else case sq_cur_index sq of
          None \<Rightarrow> Inr (sq, pos)
        | Some cur_index \<Rightarrow>
            if sq_next_start sq \<le> t then
              let next_index = cur_index + 1;
                  next_index = (if length (sq_entries sq) \<le> next_index then 0 else next_index)
              in if next_index < length (sq_entries sq)
                 then Inr (start_entry rnd pos t next_index (sq_entries sq ! next_index) sq)
                 else Inl OutOfBounds
            else Inr (sq, pos))"

definition Sequence_RenderTo ::
  "byte list \<Rightarrow> (nat \<Rightarrow> nat) \<Rightarrow> nat \<Rightarrow> sequence \<Rightarrow> grid \<Rightarrow> grid \<Rightarrow> timestamp \<Rightarrow> (grid \<times> grid \<times> sequence \<times> nat) res"
where
  "Sequence_RenderTo font rnd pos sq top_dest main_dest t =
     bind_res (advance_entry rnd pos t sq) (\<lambda>(sq, pos).
     bind_res (TransitionPattern_RenderTo (Pattern_RenderTo font) (RenderTransition rnd) pos (sq_main sq) main_dest t)
       (\<lambda>(main_grid, main, pos).
     bind_res (TransitionPattern_RenderTo (Pattern_RenderTo font) (RenderTransition rnd) pos (sq_top sq) top_dest t)
       (\<lambda>(top_grid, top, pos).
         Inr (top_grid, main_grid, sq\<lparr>sq_main := main, sq_top := top, sq_last_render := t\<rparr>, pos))))"

subsection \<open>The invariant\<close>

text \<open>
  The index of the current entry is inside the list, and both lights are on their way to the
  patterns of that entry.
\<close>

definition Sequence_ok :: "sequence \<Rightarrow> bool" where
  "Sequence_ok sq \<longleftrightarrow> TransitionPattern_ok (sq_main sq) \<and> TransitionPattern_ok (sq_top sq)
     \<and> (\<forall>i. sq_cur_index sq = Some i \<longrightarrow> i < length (sq_entries sq)
          \<and> tp_goal (sq_main sq) = CreatePattern (main_pattern_name (sq_entries sq ! i))
          \<and> tp_goal (sq_top sq) = CreatePattern (top_pattern_name (sq_entries sq ! i)))"

lemma tp_goal_ChangeTo: "TransitionPattern_ok tp \<Longrightarrow> tp_goal (ChangeTo p tr tp) = p"
  by (simp add: tp_goal_def ChangeTo_def TransitionPattern_ok_def split: option.splits)

lemma Sequence_ok_init: "Sequence_ok Sequence"
  by (simp add: Sequence_ok_def Sequence_def TransitionPattern_ok_init)

lemma Sequence_ok_ChangeTo: "Sequence_ok sq \<Longrightarrow> Sequence_ok (Sequence_ChangeTo es sq)"
  by (simp add: Sequence_ok_def Sequence_ChangeTo_def)

lemma Sequence_ok_black: "Sequence_ok sq \<Longrightarrow> Sequence_ok (ChangeToBlackImmediate sq)"
  by (simp add: Sequence_ok_def ChangeToBlackImmediate_def TransitionPattern_ok_ChangeToImmediate)

lemma start_entry_shape:
  assumes "start_entry rnd pos t i e sq = (sq', pos')"
  obtains tr1 tr2 where "transition_ok tr1" "transition_ok tr2"
    and "sq' = sq\<lparr>sq_cur_index := Some i, sq_cur_start := t, sq_next_start := t + ms_size_t (duration e),
      sq_main := ChangeTo (CreatePattern (main_pattern_name e)) tr1 (sq_main sq),
      sq_top := ChangeTo (CreatePattern (top_pattern_name e)) tr2 (sq_top sq)\<rparr>"
proof -
  obtain tr1 p1 where 1: "CreateTransition (main_transition_name e) rnd pos = (tr1, p1)"
    by fastforce
  obtain tr2 p2 where 2: "CreateTransition (top_transition_name e) rnd p1 = (tr2, p2)"
    by fastforce
  have "transition_ok tr1" "transition_ok tr2"
    using CreateTransition_ok [of "main_transition_name e" rnd pos] 1
      CreateTransition_ok [of "top_transition_name e" rnd p1] 2 by simp_all
  then show thesis
    using that assms 1 2 by (simp add: start_entry_def Let_def)
qed

lemma start_entry_ok:
  assumes "start_entry rnd pos t i (sq_entries sq ! i) sq = (sq', pos')" "Sequence_ok sq" "i < length (sq_entries sq)"
  shows "Sequence_ok sq'"
proof -
  obtain tr1 tr2 where "transition_ok tr1" "transition_ok tr2"
    "sq' = sq\<lparr>sq_cur_index := Some i, sq_cur_start := t, sq_next_start := t + ms_size_t (duration (sq_entries sq ! i)),
      sq_main := ChangeTo (CreatePattern (main_pattern_name (sq_entries sq ! i))) tr1 (sq_main sq),
      sq_top := ChangeTo (CreatePattern (top_pattern_name (sq_entries sq ! i))) tr2 (sq_top sq)\<rparr>"
    by (rule start_entry_shape [OF assms(1)])
  then show ?thesis
    using assms(2,3) by (simp add: Sequence_ok_def TransitionPattern_ok_ChangeTo CreatePattern_ok tp_goal_ChangeTo)
qed

text \<open>The entry that is current after a frame.\<close>

definition next_entry :: "timestamp \<Rightarrow> sequence \<Rightarrow> nat option" where
  "next_entry t sq = (case sq_cur_index sq of
       None \<Rightarrow> if sq_entries sq = [] then None else Some 0
     | Some i \<Rightarrow> if sq_next_start sq \<le> t then Some ((i + 1) mod length (sq_entries sq)) else Some i)"

definition entry_changes :: "timestamp \<Rightarrow> sequence \<Rightarrow> bool" where
  "entry_changes t sq \<longleftrightarrow> (case sq_cur_index sq of None \<Rightarrow> sq_entries sq \<noteq> [] | Some _ \<Rightarrow> sq_next_start sq \<le> t)"

lemma advance_entry_cases:
  assumes "Sequence_ok sq"
  obtains "\<not> entry_changes t sq" and "advance_entry rnd pos t sq = Inr (sq, pos)" and "next_entry t sq = sq_cur_index sq"
  | n where "entry_changes t sq" and "n < length (sq_entries sq)" and "next_entry t sq = Some n"
    and "advance_entry rnd pos t sq = Inr (start_entry rnd pos t n (sq_entries sq ! n) sq)"
proof (cases "entry_changes t sq")
  case False
  then show thesis
    using that(1) by (auto simp: entry_changes_def advance_entry_def next_entry_def split: option.splits)
next
  case True
  show thesis
  proof (cases "sq_cur_index sq")
    case None
    then show thesis
      using that(2) [of 0] True by (simp add: entry_changes_def advance_entry_def next_entry_def)
  next
    case (Some i)
    define n where "n = (if length (sq_entries sq) \<le> Suc i then 0 else Suc i)"
    have i: "i < length (sq_entries sq)"
      using assms Some by (simp add: Sequence_ok_def)
    then have n: "n < length (sq_entries sq)" "n = (i + 1) mod length (sq_entries sq)"
      by (auto simp: n_def le_Suc_eq)
    have "advance_entry rnd pos t sq = Inr (start_entry rnd pos t n (sq_entries sq ! n) sq)"
      using n(1) Some True by (simp add: advance_entry_def entry_changes_def Let_def n_def [symmetric] del: if_split)
    then show thesis
      using that(2) [of n] n Some True by (simp add: next_entry_def entry_changes_def)
  qed
qed

lemma advance_entry_ok:
  assumes "Sequence_ok sq"
  shows "\<exists>sq' pos'. advance_entry rnd pos t sq = Inr (sq', pos') \<and> Sequence_ok sq'
    \<and> sq_entries sq' = sq_entries sq \<and> sq_cur_index sq' = next_entry t sq
    \<and> sq_next_start sq' = (if entry_changes t sq
         then t + ms_size_t (duration (sq_entries sq ! the (next_entry t sq))) else sq_next_start sq)"
proof (cases rule: advance_entry_cases [OF assms, of t rnd pos])
  case 1
  then show ?thesis
    using assms by simp
next
  case (2 n)
  obtain sq' pos' where s: "start_entry rnd pos t n (sq_entries sq ! n) sq = (sq', pos')"
    by fastforce
  show ?thesis
    using 2 s start_entry_ok [OF s assms 2(2)] by (auto elim: start_entry_shape)
qed

lemma Sequence_RenderTo_ok:
  assumes "font_ok font" "fair rnd" "Sequence_ok sq" "grid_ok top_dest" "grid_ok main_dest"
  shows "\<exists>tg mg sq' pos'. Sequence_RenderTo font rnd pos sq top_dest main_dest t = Inr (tg, mg, sq', pos')
    \<and> grid_ok tg \<and> grid_ok mg \<and> Sequence_ok sq'
    \<and> sq_entries sq' = sq_entries sq \<and> sq_cur_index sq' = next_entry t sq
    \<and> sq_next_start sq' = (if entry_changes t sq
         then t + ms_size_t (duration (sq_entries sq ! the (next_entry t sq))) else sq_next_start sq)"
proof -
  obtain sq1 p1 where 1: "advance_entry rnd pos t sq = Inr (sq1, p1)" "Sequence_ok sq1"
    "sq_entries sq1 = sq_entries sq" "sq_cur_index sq1 = next_entry t sq"
    "sq_next_start sq1 = (if entry_changes t sq
         then t + ms_size_t (duration (sq_entries sq ! the (next_entry t sq))) else sq_next_start sq)"
    using advance_entry_ok [OF assms(3), of rnd pos t] by blast
  have ok: "TransitionPattern_ok (sq_main sq1)" "TransitionPattern_ok (sq_top sq1)"
    using 1(2) by (simp_all add: Sequence_ok_def)
  obtain mg m p2 where m: "TransitionPattern_RenderTo (Pattern_RenderTo font) (RenderTransition rnd) p1 (sq_main sq1) main_dest t
      = Inr (mg, m, p2)" "grid_ok mg" "TransitionPattern_ok m" "tp_goal m = tp_goal (sq_main sq1)"
    using TransitionPattern_RenderTo_ok [OF assms(1,2) ok(1) assms(5), of p1 t] by blast
  obtain tg tp p3 where t: "TransitionPattern_RenderTo (Pattern_RenderTo font) (RenderTransition rnd) p2 (sq_top sq1) top_dest t
      = Inr (tg, tp, p3)" "grid_ok tg" "TransitionPattern_ok tp" "tp_goal tp = tp_goal (sq_top sq1)"
    using TransitionPattern_RenderTo_ok [OF assms(1,2) ok(2) assms(4), of p2 t] by blast
  let ?sq = "sq1\<lparr>sq_main := m, sq_top := tp, sq_last_render := t\<rparr>"
  have "Sequence_RenderTo font rnd pos sq top_dest main_dest t = Inr (tg, mg, ?sq, p3)"
    by (simp add: Sequence_RenderTo_def 1(1) m(1) t(1))
  moreover have "Sequence_ok ?sq"
    using 1(2) m(3,4) t(3,4) by (simp add: Sequence_ok_def)
  ultimately show ?thesis
    using m(2) t(2) 1(3-5) by simp
qed

text \<open>
  C17: Drawing a frame of a sequence never fails and never leaves the list of entries, whatever
  its length. The first entry starts with the first frame, an entry gives way to the next one,
  after the last to the first, with the first frame at or after the end of its time, and while
  an entry is the current one both lights are on their way to, or at, the patterns it names.
\<close>

theorem Sequence_frame:
  assumes "font_ok font" "fair rnd" "Sequence_ok sq" "grid_ok top_dest" "grid_ok main_dest"
  shows "\<exists>tg mg sq' pos'. Sequence_RenderTo font rnd pos sq top_dest main_dest t = Inr (tg, mg, sq', pos')
    \<and> grid_ok tg \<and> grid_ok mg \<and> Sequence_ok sq'
    \<and> sq_entries sq' = sq_entries sq \<and> sq_cur_index sq' = next_entry t sq
    \<and> sq_next_start sq' = (if entry_changes t sq
         then t + ms_size_t (duration (sq_entries sq ! the (next_entry t sq))) else sq_next_start sq)"
  using assms by (rule Sequence_RenderTo_ok)

theorem Sequence_frame_witness:
  "\<exists>tg mg sq' pos'. Sequence_RenderTo (replicate 49152 0) (\<lambda>n. n) 0
      (Sequence_ChangeTo CreateDefaultSequenceEntries Sequence) ColorGrid ColorGrid 33 = Inr (tg, mg, sq', pos')
    \<and> Sequence_ok sq' \<and> sq_cur_index sq' = Some 0"
proof -
  let ?sq = "Sequence_ChangeTo CreateDefaultSequenceEntries Sequence"
  have "font_ok (replicate 49152 0)"
    by (simp add: font_ok_def)
  from Sequence_frame [OF this fair_id Sequence_ok_ChangeTo [OF Sequence_ok_init] grid_ok_ColorGrid grid_ok_ColorGrid,
      of 0 CreateDefaultSequenceEntries 33]
  obtain tg mg sq' pos' where "Sequence_RenderTo (replicate 49152 0) (\<lambda>n. n) 0 ?sq ColorGrid ColorGrid 33 = Inr (tg, mg, sq', pos')"
    "Sequence_ok sq'" "sq_cur_index sq' = next_entry 33 ?sq"
    by blast
  moreover have "next_entry 33 ?sq = Some 0"
    by (simp add: next_entry_def Sequence_ChangeTo_def CreateDefaultSequenceEntries_def CreateSequenceEntries_def
        SequenceFactory_def map_of_assignments_find)
  ultimately show ?thesis
    by auto
qed

end
