(* ===== verification/Renderer.thy ===== *)
theory Renderer
  imports Sequence
begin

section \<open>camplight::render::Renderer\<close>

text \<open>
  \<open>CampLight/camplight/render/Renderer.h\<close> and \<open>Renderer.cpp\<close>, as compiled for the lamp itself
  (not \<open>WIN32\<close>): the service that draws a frame every 33 milliseconds and copies it to the two
  LED strips. The LED driver \<open>ws2811\<close> is a third-party library, here the record \<open>driver\<close> of its
  constants and of what its initialisation does; its other functions, the timer and the
  notifications of the run time are recorded as effects. Reading a grid outside its bounds,
  writing a strip outside its length and using a null pointer are faults.
\<close>

subsection \<open>Copying LEDs\<close>

record led_run =
  startx :: int
  starty :: int
  stepx :: int
  stepy :: int
  count :: int

definition LedRun :: "int \<Rightarrow> int \<Rightarrow> int \<Rightarrow> int \<Rightarrow> int \<Rightarrow> led_run" where
  "LedRun sx sy dx dy n = \<lparr>startx = sx, starty = sy, stepx = dx, stepy = dy, count = n\<rparr>"

definition read_led :: "grid \<Rightarrow> int \<Rightarrow> int \<Rightarrow> color res" where
  "read_led g x y = (if 0 \<le> x \<and> x < int GRID_SIZE \<and> 0 \<le> y \<and> y < int GRID_SIZE
     then Inr (g ! nat x ! nat y) else Inl OutOfBounds)"

text \<open>The strip and the index that the pointer \<open>leds\<close> has moved to.\<close>

definition write_strip :: "u32 \<Rightarrow> nat \<times> u32 list \<Rightarrow> (nat \<times> u32 list) res" where
  "write_strip w = (\<lambda>(at_led, leds). if at_led < length leds then Inr (at_led + 1, leds[at_led := w]) else Inl BufferOverrun)"

fun copy_run :: "grid \<Rightarrow> int \<Rightarrow> int \<Rightarrow> nat \<Rightarrow> int \<Rightarrow> int \<Rightarrow> nat \<times> u32 list \<Rightarrow> (nat \<times> u32 list) res" where
  "copy_run g dx dy 0 x y leds = Inr leds"
| "copy_run g dx dy (Suc n) x y leds =
     bind_res (read_led g x y) (\<lambda>c.
     bind_res (write_strip (ToWs2811Color c) leds) (copy_run g dx dy n (x + dx) (y + dy)))"

definition CopyLeds :: "led_run list \<Rightarrow> grid \<Rightarrow> u32 list \<Rightarrow> u32 list res" where
  "CopyLeds runs g leds =
     bind_res (fold_res (\<lambda>r. copy_run g (stepx r) (stepy r) (nat (count r)) (startx r) (starty r)) runs (0, leds))
       (\<lambda>(_, leds). Inr leds)"

definition main_led_runs :: "led_run list" where
  "main_led_runs =
    [LedRun 0 0 1 0 9, LedRun 8 1 (-1) 0 9, LedRun 0 2 1 0 9, LedRun 8 3 (-1) 0 9, LedRun 0 4 1 0 9,
     LedRun 8 5 (-1) 0 9, LedRun 0 6 1 0 9, LedRun 8 7 (-1) 0 9, LedRun 0 8 1 0 9]"

definition top_led_runs :: "led_run list" where
  "top_led_runs =
    [LedRun 0 0 1 0 8, LedRun 8 0 0 1 8, LedRun 8 8 (-1) 0 8, LedRun 0 8 0 (-1) 8,
     LedRun 1 1 1 0 6, LedRun 7 1 0 1 6, LedRun 7 7 (-1) 0 6, LedRun 1 7 0 (-1) 6]"

subsection \<open>The hardware\<close>

record channel =
  ch_gpionum :: nat
  ch_invert :: nat
  ch_count :: nat
  ch_brightness :: nat
  ch_strip_type :: nat
  ch_leds :: "u32 list option"

record ws2811 =
  ws_freq :: nat
  ws_dmanum :: nat
  ws_channel0 :: channel
  ws_channel1 :: channel

text \<open>The driver's constants, and its initialisation, which returns 0 when it has succeeded.\<close>

record driver =
  WS2811_TARGET_FREQ :: nat
  WS2811_STRIP_GRB :: nat
  ws2811_init :: "ws2811 \<Rightarrow> int \<times> ws2811"

definition channel_zero :: channel where
  "channel_zero = \<lparr>ch_gpionum = 0, ch_invert = 0, ch_count = 0, ch_brightness = 0, ch_strip_type = 0, ch_leds = None\<rparr>"

text \<open>\<open>make_unique<Hardware>()\<close> value-initialises the structure.\<close>

definition Hardware :: ws2811 where
  "Hardware = \<lparr>ws_freq = 0, ws_dmanum = 0, ws_channel0 = channel_zero, ws_channel1 = channel_zero\<rparr>"

datatype effect =
    EffWait
  | EffRender "u32 list" "u32 list"
  | EffFini
  | EffPrint string
  | EffTimerSetHandler
  | EffTimerStartPeriodic timespan
  | EffTimerCancel
  | EffRequestStopAllChildren
  | EffNotifyStarted
  | EffNotifyStopped

record renderer =
  rn_timestamp :: timestamp
  rn_sequence :: sequence
  rn_hardware :: "ws2811 option"
  rn_main_rendered :: grid
  rn_top_rendered :: grid
  rn_random :: nat
  rn_effects :: "effect list"

definition effect :: "effect \<Rightarrow> renderer \<Rightarrow> renderer" where
  "effect e s = s\<lparr>rn_effects := rn_effects s @ [e]\<rparr>"

definition deref :: "'a option \<Rightarrow> 'a res" where
  "deref p = (case p of None \<Rightarrow> Inl NullPointer | Some x \<Rightarrow> Inr x)"

subsection \<open>The service\<close>

definition RENDER_PERIOD_MS :: u64 where
  "RENDER_PERIOD_MS = 33"

definition Renderer :: renderer where
  "Renderer = \<lparr>rn_timestamp = 0, rn_sequence = Sequence, rn_hardware = None, rn_main_rendered = ColorGrid,
     rn_top_rendered = ColorGrid, rn_random = 0, rn_effects = []\<rparr>"

definition ws2811_wait :: "renderer \<Rightarrow> renderer res" where
  "ws2811_wait s = bind_res (deref (rn_hardware s)) (\<lambda>_. Inr (effect EffWait s))"

text \<open>The argument \<open>timestamp\<close> is not used: the frame is drawn for the member.\<close>

definition Render :: "byte list \<Rightarrow> (nat \<Rightarrow> nat) \<Rightarrow> timestamp \<Rightarrow> bool \<Rightarrow> renderer \<Rightarrow> renderer res" where
  "Render font rnd _ wait_first s =
     bind_res (if wait_first then ws2811_wait s else Inr s) (\<lambda>s.
     bind_res (Sequence_RenderTo font rnd (rn_random s) (rn_sequence s) (rn_top_rendered s) (rn_main_rendered s) (rn_timestamp s))
       (\<lambda>(top, main, sq, pos).
     let s = s\<lparr>rn_top_rendered := top, rn_main_rendered := main, rn_sequence := sq, rn_random := pos\<rparr> in
     bind_res (deref (rn_hardware s)) (\<lambda>hw.
     bind_res (deref (ch_leds (ws_channel1 hw))) (\<lambda>leds1.
     bind_res (CopyLeds main_led_runs main leds1) (\<lambda>leds1.
     bind_res (deref (ch_leds (ws_channel0 hw))) (\<lambda>leds0.
     bind_res (CopyLeds top_led_runs top leds0) (\<lambda>leds0.
     let hw = hw\<lparr>ws_channel1 := (ws_channel1 hw)\<lparr>ch_leds := Some leds1\<rparr>,
                 ws_channel0 := (ws_channel0 hw)\<lparr>ch_leds := Some leds0\<rparr>\<rparr>
     in Inr (effect (EffRender leds0 leds1) (s\<lparr>rn_hardware := Some hw\<rparr>)))))))))"

definition configure :: "driver \<Rightarrow> ws2811 \<Rightarrow> ws2811" where
  "configure drv hw = hw\<lparr>ws_freq := WS2811_TARGET_FREQ drv, ws_dmanum := 5,
     ws_channel0 := (ws_channel0 hw)\<lparr>ch_gpionum := 18, ch_invert := 0,
       ch_count := GRID_SIZE * GRID_SIZE - (GRID_SIZE - 2 * EDGE_WIDTH) * (GRID_SIZE - 2 * EDGE_WIDTH),
       ch_brightness := 255, ch_strip_type := WS2811_STRIP_GRB drv\<rparr>,
     ws_channel1 := (ws_channel1 hw)\<lparr>ch_gpionum := 19, ch_invert := 0,
       ch_count := GRID_SIZE * GRID_SIZE, ch_brightness := 255, ch_strip_type := WS2811_STRIP_GRB drv\<rparr>\<rparr>"

text \<open>
  The assertion after a failed initialisation is \<open>assert(false || "...")\<close>, whose condition is a
  pointer to a literal and so true: the service goes on.
\<close>

definition init_hardware :: "driver \<Rightarrow> renderer \<Rightarrow> renderer res" where
  "init_hardware drv s =
     bind_res (deref (rn_hardware s)) (\<lambda>hw.
     let (result, hw) = ws2811_init drv (configure drv hw);
         s = s\<lparr>rn_hardware := Some hw\<rparr>
     in Inr (if result \<noteq> 0 then effect (EffPrint ''Couldn't open WS2811 library'') s else s))"

definition Renderer_HandleStarting :: "byte list \<Rightarrow> (nat \<Rightarrow> nat) \<Rightarrow> driver \<Rightarrow> renderer \<Rightarrow> renderer res" where
  "Renderer_HandleStarting font rnd drv s =
     (let s = s\<lparr>rn_timestamp := 0, rn_hardware := Some Hardware,
               rn_sequence := Sequence_ChangeTo CreateDefaultSequenceEntries (rn_sequence s)\<rparr>
      in bind_res (init_hardware drv s) (\<lambda>s.
         bind_res (Render font rnd (rn_timestamp s) False s) (\<lambda>s.
         Inr (effect EffNotifyStarted
           (effect (EffTimerStartPeriodic (TimeSpan_Milliseconds (uint RENDER_PERIOD_MS)))
           (effect EffTimerSetHandler s))))))"

definition Renderer_HandleStopping :: "byte list \<Rightarrow> (nat \<Rightarrow> nat) \<Rightarrow> renderer \<Rightarrow> renderer res" where
  "Renderer_HandleStopping font rnd s =
     (let s = effect EffTimerCancel s;
          s = s\<lparr>rn_sequence := ChangeToBlackImmediate (rn_sequence s)\<rparr>
      in bind_res (Render font rnd (rn_timestamp s) True s) (\<lambda>s.
         bind_res (ws2811_wait s) (\<lambda>s.
         let s = effect EffFini s;
             s = s\<lparr>rn_hardware := None\<rparr>
         in Inr (effect EffNotifyStopped (effect EffRequestStopAllChildren s)))))"

definition Renderer_HandleTimeout :: "byte list \<Rightarrow> (nat \<Rightarrow> nat) \<Rightarrow> renderer \<Rightarrow> renderer res" where
  "Renderer_HandleTimeout font rnd s =
     (let s = s\<lparr>rn_timestamp := rn_timestamp s + RENDER_PERIOD_MS\<rparr>
      in Render font rnd (rn_timestamp s) True s)"

definition ChangeToSequence :: "string \<Rightarrow> renderer \<Rightarrow> renderer" where
  "ChangeToSequence sequence_name s =
     s\<lparr>rn_sequence := Sequence_ChangeTo (CreateSequenceEntries sequence_name) (rn_sequence s)\<rparr>"

definition Renderer_GetLedsForWebDisplay :: "renderer \<Rightarrow> nat \<times> nat \<times> color list \<times> color list" where
  "Renderer_GetLedsForWebDisplay s = (GRID_SIZE, GRID_SIZE,
     GetLedsForWebDisplay (rn_main_rendered s) False [], GetLedsForWebDisplay (rn_top_rendered s) True [])"

subsection \<open>The order of the LEDs\<close>

text \<open>The cells a run visits, and those of a list of runs, in order.\<close>

definition run_cells :: "led_run \<Rightarrow> (int \<times> int) list" where
  "run_cells r = map (\<lambda>k. (startx r + int k * stepx r, starty r + int k * stepy r)) [0..<nat (count r)]"

definition cell_inside :: "int \<times> int \<Rightarrow> bool" where
  "cell_inside = (\<lambda>(x, y). 0 \<le> x \<and> x < int GRID_SIZE \<and> 0 \<le> y \<and> y < int GRID_SIZE)"

definition cell_color :: "grid \<Rightarrow> int \<times> int \<Rightarrow> u32" where
  "cell_color g = (\<lambda>(x, y). ToWs2811Color (g ! nat x ! nat y))"

definition cells_from :: "int \<Rightarrow> int \<Rightarrow> int \<Rightarrow> int \<Rightarrow> nat \<Rightarrow> (int \<times> int) list" where
  "cells_from dx dy x y n = map (\<lambda>k. (x + int k * dx, y + int k * dy)) [0..<n]"

lemma cells_from_Suc: "cells_from dx dy x y (Suc n) = (x, y) # cells_from dx dy (x + dx) (y + dy) n"
  by (rule nth_equalityI) (auto simp: cells_from_def nth_Cons algebra_simps split: nat.splits simp del: upt_Suc)

lemma copy_run_cells:
  assumes "\<forall>c \<in> set (cells_from dx dy x y n). cell_inside c" "length done_leds + n \<le> length leds"
    and "take (length done_leds) leds = done_leds"
  shows "\<exists>leds'. copy_run g dx dy n x y (length done_leds, leds) = Inr (length done_leds + n, leds')
    \<and> length leds' = length leds \<and> take (length done_leds + n) leds' = done_leds @ map (cell_color g) (cells_from dx dy x y n)"
  using assms
proof (induction n arbitrary: x y done_leds leds)
  case 0
  then show ?case
    by (simp add: cells_from_def)
next
  case (Suc n)
  let ?w = "cell_color g (x, y)"
  have inside: "read_led g x y = Inr (g ! nat x ! nat y)"
    using Suc.prems(1) by (simp add: cells_from_Suc read_led_def cell_inside_def)
  have len: "length done_leds < length leds"
    using Suc.prems(2) by simp
  let ?leds = "leds[length done_leds := ?w]"
  have "take (length (done_leds @ [?w])) ?leds = done_leds @ [?w]"
    using Suc.prems(3) len by (simp add: take_Suc_snoc)
  then obtain leds' where "copy_run g dx dy n (x + dx) (y + dy) (length (done_leds @ [?w]), ?leds)
        = Inr (length (done_leds @ [?w]) + n, leds')" "length leds' = length ?leds"
      "take (length (done_leds @ [?w]) + n) leds' = (done_leds @ [?w]) @ map (cell_color g) (cells_from dx dy (x + dx) (y + dy) n)"
    using Suc.IH [of "x + dx" "y + dy" "done_leds @ [?w]" ?leds] Suc.prems by (auto simp: cells_from_Suc)
  then show ?case
    using inside len by (simp add: write_strip_def cell_color_def cells_from_Suc)
qed

lemma run_cells_from: "run_cells r = cells_from (stepx r) (stepy r) (startx r) (starty r) (nat (count r))"
  by (simp add: run_cells_def cells_from_def)

lemma length_cells_from [simp]: "length (cells_from dx dy x y n) = n"
  by (simp add: cells_from_def)

definition all_cells :: "led_run list \<Rightarrow> (int \<times> int) list" where
  "all_cells runs = concat (map run_cells runs)"

lemma CopyLeds_cells:
  assumes "\<forall>c \<in> set (all_cells runs). cell_inside c" "length (all_cells runs) = length leds"
  shows "CopyLeds runs g leds = Inr (map (cell_color g) (all_cells runs))"
proof -
  have "\<exists>leds'. fold_res (\<lambda>r. copy_run g (stepx r) (stepy r) (nat (count r)) (startx r) (starty r)) rs (length done_leds, leds)
      = Inr (length done_leds + length (all_cells rs), leds') \<and> length leds' = length leds
      \<and> take (length done_leds + length (all_cells rs)) leds' = done_leds @ map (cell_color g) (all_cells rs)"
    if "\<forall>c \<in> set (all_cells rs). cell_inside c" "length done_leds + length (all_cells rs) \<le> length leds"
      "take (length done_leds) leds = done_leds" for rs done_leds leds
    using that
  proof (induction rs arbitrary: done_leds leds)
    case Nil
    then show ?case by (simp add: all_cells_def)
  next
    case (Cons r rs)
    let ?done = "done_leds @ map (cell_color g) (run_cells r)"
    obtain leds1 where 1: "copy_run g (stepx r) (stepy r) (nat (count r)) (startx r) (starty r) (length done_leds, leds)
        = Inr (length ?done, leds1)" "length leds1 = length leds" "take (length ?done) leds1 = ?done"
      using copy_run_cells [of "stepx r" "stepy r" "startx r" "starty r" "nat (count r)" done_leds leds g] Cons.prems
      by (auto simp: all_cells_def run_cells_from)
    obtain leds2 where "fold_res (\<lambda>r. copy_run g (stepx r) (stepy r) (nat (count r)) (startx r) (starty r)) rs (length ?done, leds1)
        = Inr (length ?done + length (all_cells rs), leds2)" "length leds2 = length leds1"
        "take (length ?done + length (all_cells rs)) leds2 = ?done @ map (cell_color g) (all_cells rs)"
      using Cons.IH [of ?done leds1] Cons.prems 1(2,3) by (auto simp: all_cells_def)
    then show ?case
      using 1(1,2) by (simp add: all_cells_def add.assoc)
  qed
  from this [of runs "[]" leds] assms
  obtain leds' where "fold_res (\<lambda>r. copy_run g (stepx r) (stepy r) (nat (count r)) (startx r) (starty r)) runs (0, leds)
      = Inr (length (all_cells runs), leds')" "length leds' = length leds"
      "take (length (all_cells runs)) leds' = map (cell_color g) (all_cells runs)"
    by auto
  then show ?thesis
    using assms(2) by (simp add: CopyLeds_def)
qed

text \<open>The strip of the main lights goes to and fro through the rows.\<close>

definition snake_column :: "nat \<Rightarrow> nat" where
  "snake_column k = (if even (k div 9) then k mod 9 else 8 - k mod 9)"

lemma main_cells: "all_cells main_led_runs = map (\<lambda>k. (int (snake_column k), int (k div 9))) [0..<81]"
  by code_simp

lemma main_cells_inside: "\<forall>c \<in> set (all_cells main_led_runs). cell_inside c"
  by code_simp

lemma top_cells_inside: "\<forall>c \<in> set (all_cells top_led_runs). cell_inside c"
  by code_simp

lemma top_cells_distinct: "distinct (all_cells top_led_runs)"
  by code_simp

lemma top_cells_edge:
  "\<forall>x \<in> set [0..<9]. \<forall>y \<in> set [0..<9].
     (int x, int y) \<in> set (all_cells top_led_runs) \<longleftrightarrow> \<not> (centre x \<and> centre y)"
  by code_simp

lemma length_top_cells: "length (all_cells top_led_runs) = 56"
  by code_simp

text \<open>
  C36: Copying the main grid fills the 81 LEDs of its strip and copying the top grid the 56 of
  its own, with no access outside a grid or a strip. LED \<open>k\<close> of the main strip shows column
  \<open>k mod 9\<close> or \<open>8 - k mod 9\<close> of row \<open>k div 9\<close>; the top strip visits every cell outside the
  centre exactly once and no other.
\<close>

theorem CopyLeds_strips:
  assumes "length leds1 = 81" "length leds0 = 56"
  shows "CopyLeds main_led_runs g leds1
      = Inr (map (\<lambda>k. ToWs2811Color (g ! snake_column k ! (k div 9))) [0..<81])
    \<and> CopyLeds top_led_runs h leds0 = Inr (map (cell_color h) (all_cells top_led_runs))
    \<and> length (all_cells top_led_runs) = 56 \<and> distinct (all_cells top_led_runs)
    \<and> (\<forall>x < 9. \<forall>y < 9. (int x, int y) \<in> set (all_cells top_led_runs) \<longleftrightarrow> \<not> (centre x \<and> centre y))"
proof (intro conjI)
  show "CopyLeds main_led_runs g leds1
      = Inr (map (\<lambda>k. ToWs2811Color (g ! snake_column k ! (k div 9))) [0..<81])"
    using CopyLeds_cells [OF main_cells_inside, of leds1 g] assms(1)
    by (simp add: main_cells cell_color_def comp_def del: upt_rec_numeral)
  show "CopyLeds top_led_runs h leds0 = Inr (map (cell_color h) (all_cells top_led_runs))"
    using CopyLeds_cells [OF top_cells_inside, of leds0 h] assms(2) by (simp add: length_top_cells)
  show "\<forall>x < 9. \<forall>y < 9. (int x, int y) \<in> set (all_cells top_led_runs) \<longleftrightarrow> \<not> (centre x \<and> centre y)"
    using top_cells_edge by (simp del: upt_rec_numeral)
qed (rule length_top_cells, rule top_cells_distinct)

theorem CopyLeds_strips_witness:
  "CopyLeds main_led_runs ColorGrid (replicate 81 7)
     = Inr (map (\<lambda>k. ToWs2811Color (ColorGrid ! snake_column k ! (k div 9))) [0..<81])"
  using CopyLeds_strips [of "replicate 81 7" "replicate 56 7" ColorGrid ColorGrid] by simp

subsection \<open>The service never fails\<close>

text \<open>What the driver's documentation promises of a successful initialisation.\<close>

definition driver_ok :: "driver \<Rightarrow> bool" where
  "driver_ok drv \<longleftrightarrow> (\<forall>hw. let (r, hw') = ws2811_init drv hw in r = 0
     \<and> (\<exists>l0 l1. ch_leds (ws_channel0 hw') = Some l0 \<and> length l0 = ch_count (ws_channel0 hw)
              \<and> ch_leds (ws_channel1 hw') = Some l1 \<and> length l1 = ch_count (ws_channel1 hw)))"

definition running_ok :: "renderer \<Rightarrow> bool" where
  "running_ok s \<longleftrightarrow> Sequence_ok (rn_sequence s) \<and> grid_ok (rn_main_rendered s) \<and> grid_ok (rn_top_rendered s)
     \<and> (\<exists>hw l0 l1. rn_hardware s = Some hw \<and> ch_leds (ws_channel0 hw) = Some l0 \<and> length l0 = 56
          \<and> ch_leds (ws_channel1 hw) = Some l1 \<and> length l1 = 81)"

text \<open>The words a frame sends to the two strips.\<close>

definition top_strip :: "grid \<Rightarrow> u32 list" where
  "top_strip g = map (cell_color g) (all_cells top_led_runs)"

definition main_strip :: "grid \<Rightarrow> u32 list" where
  "main_strip g = map (cell_color g) (all_cells main_led_runs)"

lemma CopyLeds_main: "length leds = 81 \<Longrightarrow> CopyLeds main_led_runs g leds = Inr (main_strip g)"
  unfolding main_strip_def by (rule CopyLeds_cells [OF main_cells_inside]) (simp add: main_cells)

lemma CopyLeds_top: "length leds = 56 \<Longrightarrow> CopyLeds top_led_runs g leds = Inr (top_strip g)"
  unfolding top_strip_def by (rule CopyLeds_cells [OF top_cells_inside]) (simp add: length_top_cells)

lemma Render_ok:
  assumes "font_ok font" "fair rnd" "running_ok s"
  shows "\<exists>tg mg sq pos s'. Sequence_RenderTo font rnd (rn_random s) (rn_sequence s) (rn_top_rendered s)
      (rn_main_rendered s) (rn_timestamp s) = Inr (tg, mg, sq, pos)
    \<and> Render font rnd t wait_first s = Inr s' \<and> running_ok s'
    \<and> rn_timestamp s' = rn_timestamp s \<and> rn_sequence s' = sq
    \<and> rn_main_rendered s' = mg \<and> rn_top_rendered s' = tg
    \<and> rn_effects s' = rn_effects s @ (if wait_first then [EffWait] else []) @ [EffRender (top_strip tg) (main_strip mg)]"
proof -
  obtain hw l0 l1 where hw: "rn_hardware s = Some hw" "ch_leds (ws_channel0 hw) = Some l0" "length l0 = 56"
    "ch_leds (ws_channel1 hw) = Some l1" "length l1 = 81"
    using assms(3) by (auto simp: running_ok_def)
  have ok: "Sequence_ok (rn_sequence s)" "grid_ok (rn_top_rendered s)" "grid_ok (rn_main_rendered s)"
    using assms(3) by (simp_all add: running_ok_def)
  obtain tg mg sq pos where f: "Sequence_RenderTo font rnd (rn_random s) (rn_sequence s) (rn_top_rendered s)
      (rn_main_rendered s) (rn_timestamp s) = Inr (tg, mg, sq, pos)" "grid_ok tg" "grid_ok mg" "Sequence_ok sq"
    using Sequence_RenderTo_ok [OF assms(1,2) ok, of "rn_random s" "rn_timestamp s"] by blast
  have len: "length (top_strip tg) = 56" "length (main_strip mg) = 81"
    by (simp_all add: top_strip_def main_strip_def length_top_cells main_cells)
  have "\<exists>s'. Render font rnd t wait_first s = Inr s' \<and> running_ok s'
    \<and> rn_timestamp s' = rn_timestamp s \<and> rn_sequence s' = sq
    \<and> rn_main_rendered s' = mg \<and> rn_top_rendered s' = tg
    \<and> rn_effects s' = rn_effects s @ (if wait_first then [EffWait] else []) @ [EffRender (top_strip tg) (main_strip mg)]"
    by (cases wait_first)
      (simp_all add: Render_def ws2811_wait_def effect_def deref_def hw f CopyLeds_main CopyLeds_top running_ok_def len)
  with f(1) show ?thesis
    by blast
qed

text \<open>What happens to a started renderer: the timer fires, or a client asks for a sequence.\<close>

datatype event = Timeout | ChangeSequence string

fun handle_event :: "byte list \<Rightarrow> (nat \<Rightarrow> nat) \<Rightarrow> event \<Rightarrow> renderer \<Rightarrow> renderer res" where
  "handle_event font rnd Timeout s = Renderer_HandleTimeout font rnd s"
| "handle_event font rnd (ChangeSequence name) s = Inr (ChangeToSequence name s)"

lemma handle_event_ok:
  assumes "font_ok font" "fair rnd" "running_ok s"
  shows "\<exists>s'. handle_event font rnd e s = Inr s' \<and> running_ok s'
    \<and> rn_timestamp s' = rn_timestamp s + (if e = Timeout then 33 else 0)"
proof (cases e)
  case Timeout
  let ?s = "s\<lparr>rn_timestamp := rn_timestamp s + 33\<rparr>"
  have "running_ok ?s"
    using assms(3) by (simp add: running_ok_def)
  then show ?thesis
    using Render_ok [OF assms(1,2), of ?s "rn_timestamp s + 33" True] Timeout
    by (auto simp: Renderer_HandleTimeout_def RENDER_PERIOD_MS_def)
next
  case (ChangeSequence name)
  then show ?thesis
    using assms(3) by (auto simp: ChangeToSequence_def running_ok_def Sequence_ok_ChangeTo)
qed

lemma handle_events_ok:
  assumes "font_ok font" "fair rnd" "running_ok s"
  shows "\<exists>s'. fold_res (handle_event font rnd) es s = Inr s' \<and> running_ok s'
    \<and> rn_timestamp s' = rn_timestamp s + 33 * of_nat (length (filter (\<lambda>e. e = Timeout) es))"
  using assms(3)
proof (induction es arbitrary: s)
  case Nil
  then show ?case by simp
next
  case (Cons e es)
  obtain s1 where 1: "handle_event font rnd e s = Inr s1" "running_ok s1"
    "rn_timestamp s1 = rn_timestamp s + (if e = Timeout then 33 else 0)"
    using handle_event_ok [OF assms(1,2) Cons.prems, of e] by blast
  obtain s2 where "fold_res (handle_event font rnd) es s1 = Inr s2" "running_ok s2"
    "rn_timestamp s2 = rn_timestamp s1 + 33 * of_nat (length (filter (\<lambda>e. e = Timeout) es))"
    using Cons.IH [OF 1(2)] by blast
  then show ?case
    using 1 by (simp add: algebra_simps)
qed

lemma init_hardware_ok:
  assumes "driver_ok drv" "rn_hardware s = Some hw"
  shows "\<exists>hw' l0 l1. init_hardware drv s = Inr (s\<lparr>rn_hardware := Some hw'\<rparr>)
    \<and> ch_leds (ws_channel0 hw') = Some l0 \<and> length l0 = 56
    \<and> ch_leds (ws_channel1 hw') = Some l1 \<and> length l1 = 81"
proof -
  obtain r hw' where i: "ws2811_init drv (configure drv hw) = (r, hw')"
    by fastforce
  have "ch_count (ws_channel0 (configure drv hw)) = 56" "ch_count (ws_channel1 (configure drv hw)) = 81"
    by (simp_all add: configure_def GRID_SIZE_def EDGE_WIDTH_def)
  then show ?thesis
    using assms(1) [unfolded driver_ok_def, THEN spec, of "configure drv hw"] assms(2) i
    by (auto simp: init_hardware_def deref_def)
qed

lemma HandleStarting_ok:
  assumes "font_ok font" "fair rnd" "driver_ok drv"
  shows "\<exists>s. Renderer_HandleStarting font rnd drv Renderer = Inr s \<and> running_ok s \<and> rn_timestamp s = 0"
proof -
  let ?s = "Renderer\<lparr>rn_timestamp := 0, rn_hardware := Some Hardware,
      rn_sequence := Sequence_ChangeTo CreateDefaultSequenceEntries (rn_sequence Renderer)\<rparr>"
  obtain hw l0 l1 where i: "init_hardware drv ?s = Inr (?s\<lparr>rn_hardware := Some hw\<rparr>)"
    "ch_leds (ws_channel0 hw) = Some l0" "length l0 = 56" "ch_leds (ws_channel1 hw) = Some l1" "length l1 = 81"
    using init_hardware_ok [OF assms(3), of ?s Hardware] by auto
  have "running_ok (?s\<lparr>rn_hardware := Some hw\<rparr>)"
    using i(2-5) by (simp add: running_ok_def Renderer_def Sequence_ok_ChangeTo Sequence_ok_init)
  then obtain s' where "Render font rnd 0 False (?s\<lparr>rn_hardware := Some hw\<rparr>) = Inr s'" "running_ok s'"
    "rn_timestamp s' = 0"
    using Render_ok [OF assms(1,2), of "?s\<lparr>rn_hardware := Some hw\<rparr>" 0 False] by auto
  then show ?thesis
    using i(1) by (simp add: Renderer_HandleStarting_def Let_def effect_def running_ok_def)
qed

subsection \<open>Lights off\<close>

definition black :: grid where
  "black = grid_of (\<lambda>_ _. Color_black)"

lemma tp_black:
  assumes "font_ok font" "fair rnd" "TransitionPattern_ok tp" "grid_ok dest"
  shows "\<exists>tp'. TransitionPattern_RenderTo (Pattern_RenderTo font) (RenderTransition rnd) pos
    (ChangeToImmediate (Solid (Color 0 0 0)) tp) dest t = Inr (black, tp', pos)"
  using Pattern_RenderTo_eq [OF assms(1) _ assms(4), of "Solid (Color 0 0 0)"]
  by (simp add: TransitionPattern_RenderTo_def ChangeToImmediate_def black_def Color_black_def
      grid_of_eq_iff del: Pattern_RenderTo.simps)

lemma Sequence_black:
  assumes "font_ok font" "fair rnd" "Sequence_ok sq" "grid_ok td" "grid_ok md"
  shows "\<exists>sq'. Sequence_RenderTo font rnd pos (ChangeToBlackImmediate sq) td md t = Inr (black, black, sq', pos)"
proof -
  have ok: "TransitionPattern_ok (sq_main sq)" "TransitionPattern_ok (sq_top sq)"
    using assms(3) by (simp_all add: Sequence_ok_def)
  show ?thesis
    using tp_black [OF assms(1,2) ok(1) assms(5), of pos t] tp_black [OF assms(1,2) ok(2) assms(4), of pos t]
    by (auto simp: Sequence_RenderTo_def advance_entry_def ChangeToBlackImmediate_def)
qed

lemma strips_black: "top_strip black = replicate 56 0" "main_strip black = replicate 81 0"
proof -
  have c: "cell_color black c = 0" if "cell_inside c" for c
    using that by (auto simp: cell_color_def cell_inside_def black_def)
  show "top_strip black = replicate 56 0"
    using top_cells_inside c by (intro replicate_eqI) (auto simp: top_strip_def length_top_cells)
  show "main_strip black = replicate 81 0"
    using main_cells_inside c by (intro replicate_eqI) (auto simp: main_strip_def main_cells)
qed

lemma HandleStopping_ok:
  assumes "font_ok font" "fair rnd" "running_ok s"
  shows "\<exists>s'. Renderer_HandleStopping font rnd s = Inr s' \<and> rn_hardware s' = None
    \<and> rn_effects s' = rn_effects s @ [EffTimerCancel, EffWait, EffRender (replicate 56 0) (replicate 81 0),
         EffWait, EffFini, EffRequestStopAllChildren, EffNotifyStopped]"
proof -
  let ?s = "(effect EffTimerCancel s)\<lparr>rn_sequence := ChangeToBlackImmediate (rn_sequence s)\<rparr>"
  have ok: "running_ok ?s"
    using assms(3) by (simp add: running_ok_def effect_def Sequence_ok_black)
  obtain tg mg sq pos s' where r: "Sequence_RenderTo font rnd (rn_random ?s) (rn_sequence ?s) (rn_top_rendered ?s)
      (rn_main_rendered ?s) (rn_timestamp ?s) = Inr (tg, mg, sq, pos)"
    "Render font rnd (rn_timestamp ?s) True ?s = Inr s'" "running_ok s'"
    "rn_effects s' = rn_effects ?s @ [EffWait, EffRender (top_strip tg) (main_strip mg)]"
    using Render_ok [OF assms(1,2) ok, of "rn_timestamp ?s" True] by auto
  have "\<exists>sq'. Sequence_RenderTo font rnd (rn_random ?s) (rn_sequence ?s) (rn_top_rendered ?s)
      (rn_main_rendered ?s) (rn_timestamp ?s) = Inr (black, black, sq', rn_random ?s)"
    using assms(3) by (simp add: running_ok_def effect_def) (rule Sequence_black [OF assms(1,2)], auto)
  then have "tg = black" "mg = black"
    using r(1) by auto
  then show ?thesis
    using r(2-4) by (auto simp: Renderer_HandleStopping_def Let_def ws2811_wait_def deref_def effect_def
        running_ok_def strips_black)
qed

subsection \<open>Properties\<close>

text \<open>
  C12: The renderer never fails: with a driver that initialises and random numbers that are
  fair, starting it, any number of timer events and requests for sequences, known or not, in
  any order, and stopping it all end without a fault; its clock counts 33 milliseconds for each
  timer event; and the last frame, sent before the driver is released, turns every LED off.
\<close>

theorem Renderer_never_fails:
  assumes "font_ok font" "fair rnd" "driver_ok drv"
  shows "\<exists>s1 s2 s3. Renderer_HandleStarting font rnd drv Renderer = Inr s1
    \<and> fold_res (handle_event font rnd) es s1 = Inr s2
    \<and> rn_timestamp s2 = 33 * of_nat (length (filter (\<lambda>e. e = Timeout) es))
    \<and> Renderer_HandleStopping font rnd s2 = Inr s3
    \<and> rn_hardware s3 = None
    \<and> rn_effects s3 = rn_effects s2 @ [EffTimerCancel, EffWait, EffRender (replicate 56 0) (replicate 81 0),
         EffWait, EffFini, EffRequestStopAllChildren, EffNotifyStopped]"
proof -
  obtain s1 where 1: "Renderer_HandleStarting font rnd drv Renderer = Inr s1" "running_ok s1" "rn_timestamp s1 = 0"
    using HandleStarting_ok [OF assms] by blast
  obtain s2 where 2: "fold_res (handle_event font rnd) es s1 = Inr s2" "running_ok s2"
    "rn_timestamp s2 = 33 * of_nat (length (filter (\<lambda>e. e = Timeout) es))"
    using handle_events_ok [OF assms(1,2) 1(2), of es] 1(3) by auto
  show ?thesis
    using 1(1) 2(1,3) HandleStopping_ok [OF assms(1,2) 2(2)] by blast
qed

text \<open>A driver that allocates its strips.\<close>

definition allocate :: "channel \<Rightarrow> channel" where
  "allocate ch = ch\<lparr>ch_leds := Some (replicate (ch_count ch) 0)\<rparr>"

definition demo_driver :: driver where
  "demo_driver = \<lparr>WS2811_TARGET_FREQ = 800000, WS2811_STRIP_GRB = 1,
     ws2811_init = (\<lambda>hw. (0, hw\<lparr>ws_channel0 := allocate (ws_channel0 hw), ws_channel1 := allocate (ws_channel1 hw)\<rparr>))\<rparr>"

lemma demo_driver_ok: "driver_ok demo_driver"
  by (simp add: driver_ok_def demo_driver_def allocate_def)

theorem Renderer_never_fails_witness:
  "driver_ok demo_driver \<and> (\<exists>s1 s2 s3. Renderer_HandleStarting (replicate 49152 0) (\<lambda>n. n) demo_driver Renderer = Inr s1
    \<and> fold_res (handle_event (replicate 49152 0) (\<lambda>n. n)) [Timeout, ChangeSequence ''Rainbow'', Timeout] s1 = Inr s2
    \<and> rn_timestamp s2 = 66
    \<and> Renderer_HandleStopping (replicate 49152 0) (\<lambda>n. n) s2 = Inr s3
    \<and> rn_hardware s3 = None)"
proof -
  have "font_ok (replicate 49152 0)"
    by (simp add: font_ok_def)
  from Renderer_never_fails [OF this fair_id demo_driver_ok, of "[Timeout, ChangeSequence ''Rainbow'', Timeout]"]
  show ?thesis
    using demo_driver_ok by auto
qed

text \<open>
  A driver that fails to initialise is not noticed: the assertion that should stop the
  service has a condition that is always true, so the start goes on and writes the first frame
  through a null pointer.
\<close>

theorem Renderer_init_failure:
  assumes "font_ok font" "fair rnd" "fst (ws2811_init drv (configure drv Hardware)) \<noteq> 0"
    and "snd (ws2811_init drv (configure drv Hardware)) = configure drv Hardware"
  shows "Renderer_HandleStarting font rnd drv Renderer = Inl NullPointer"
proof -
  let ?s = "Renderer\<lparr>rn_timestamp := 0, rn_hardware := Some (configure drv Hardware),
      rn_sequence := Sequence_ChangeTo CreateDefaultSequenceEntries Sequence,
      rn_effects := [EffPrint ''Couldn't open WS2811 library'']\<rparr>"
  have null: "ch_leds (ws_channel1 (configure drv Hardware)) = None"
    by (simp add: configure_def Hardware_def channel_zero_def)
  obtain r where "ws2811_init drv (configure drv Hardware) = (r, configure drv Hardware)" "r \<noteq> 0"
    using assms(3,4) by (cases "ws2811_init drv (configure drv Hardware)") simp
  then have i: "init_hardware drv (Renderer\<lparr>rn_timestamp := 0, rn_hardware := Some Hardware,
      rn_sequence := Sequence_ChangeTo CreateDefaultSequenceEntries (rn_sequence Renderer)\<rparr>) = Inr ?s"
    by (simp add: init_hardware_def deref_def effect_def Renderer_def)
  obtain tg mg sq pos where f: "Sequence_RenderTo font rnd 0
      (Sequence_ChangeTo CreateDefaultSequenceEntries Sequence) ColorGrid ColorGrid 0 = Inr (tg, mg, sq, pos)"
    using Sequence_RenderTo_ok [OF assms(1,2) Sequence_ok_ChangeTo [OF Sequence_ok_init] grid_ok_ColorGrid grid_ok_ColorGrid]
    by blast
  have "Render font rnd 0 False ?s = Inl NullPointer"
    by (simp add: Render_def Renderer_def f null deref_def)
  then show ?thesis
    using i by (simp add: Renderer_HandleStarting_def Let_def)
qed

theorem Renderer_init_failure_witness:
  "Renderer_HandleStarting (replicate 49152 0) (\<lambda>n. n)
     \<lparr>WS2811_TARGET_FREQ = 800000, WS2811_STRIP_GRB = 1, ws2811_init = (\<lambda>hw. (-1, hw))\<rparr> Renderer = Inl NullPointer"
  by (rule Renderer_init_failure) (simp_all add: font_ok_def fair_id)

text \<open>
  The web page shows what the strips show: after a frame, the word sent to LED \<open>k\<close> of the
  main strip is the colour that the page has for the cell of that LED, and every cell outside
  the centre has on the page the colour of its LED on the top strip.
\<close>

theorem web_matches_strips:
  assumes "font_ok font" "fair rnd" "running_ok s" "Render font rnd t wait_first s = Inr s'"
  shows "\<exists>main_leds top_leds. Renderer_GetLedsForWebDisplay s' = (9, 9, main_leds, top_leds)
    \<and> last (rn_effects s') = EffRender
        (map (\<lambda>(x, y). ToWs2811Color (top_leds ! (nat x + 9 * nat y))) (all_cells top_led_runs))
        (map (\<lambda>k. ToWs2811Color (main_leds ! (snake_column k + 9 * (k div 9)))) [0..<81])"
proof -
  obtain tg mg where f: "rn_main_rendered s' = mg" "rn_top_rendered s' = tg"
    "last (rn_effects s') = EffRender (top_strip tg) (main_strip mg)" "grid_ok tg" "grid_ok mg"
    using Render_ok [OF assms(1-3), of t wait_first] assms(4) by (auto simp: running_ok_def)
  note web = GetLedsForWebDisplay_at [unfolded GRID_SIZE_def]
  have "top_strip tg = map (\<lambda>(x, y). ToWs2811Color (GetLedsForWebDisplay tg True [] ! (nat x + 9 * nat y))) (all_cells top_led_runs)"
    unfolding top_strip_def
  proof (rule map_cong [OF refl])
    fix c assume c: "c \<in> set (all_cells top_led_runs)"
    obtain x y where xy: "c = (x, y)"
      by (cases c)
    have "nat x < 9" "nat y < 9" "0 \<le> x" "0 \<le> y"
      using top_cells_inside c xy by (auto simp: cell_inside_def GRID_SIZE_def)
    moreover from this have "\<not> (centre (nat x) \<and> centre (nat y))"
      using top_cells_edge [THEN bspec, of "nat x", THEN bspec, of "nat y"] c xy by simp
    ultimately show "cell_color tg c = (case c of (x, y) \<Rightarrow> ToWs2811Color (GetLedsForWebDisplay tg True [] ! (nat x + 9 * nat y)))"
      using web [OF f(4), of "nat x" "nat y" True "[]"] by (auto simp: xy cell_color_def)
  qed
  moreover have "main_strip mg = map (\<lambda>k. ToWs2811Color (GetLedsForWebDisplay mg False [] ! (snake_column k + 9 * (k div 9)))) [0..<81]"
    unfolding main_strip_def main_cells map_map
  proof (rule map_cong [OF refl])
    fix k :: nat assume "k \<in> set [0..<81]"
    then have "k div 9 < 9" "snake_column k < 9"
      by (auto simp: snake_column_def simp del: upt_rec_numeral)
    then show "(cell_color mg \<circ> (\<lambda>k. (int (snake_column k), int (k div 9)))) k
        = ToWs2811Color (GetLedsForWebDisplay mg False [] ! (snake_column k + 9 * (k div 9)))"
      using web [OF f(5), of "snake_column k" "k div 9" False "[]"] by (simp add: cell_color_def)
  qed
  ultimately show ?thesis
    using f(1-3) by (simp add: Renderer_GetLedsForWebDisplay_def GRID_SIZE_def del: upt_rec_numeral)
qed

theorem web_matches_strips_witness:
  "\<exists>s s' main_leds top_leds. Render (replicate 49152 0) (\<lambda>n. n) 0 True s = Inr s'
    \<and> Renderer_GetLedsForWebDisplay s' = (9, 9, main_leds, top_leds)
    \<and> last (rn_effects s') = EffRender
        (map (\<lambda>(x, y). ToWs2811Color (top_leds ! (nat x + 9 * nat y))) (all_cells top_led_runs))
        (map (\<lambda>k. ToWs2811Color (main_leds ! (snake_column k + 9 * (k div 9)))) [0..<81])"
proof -
  have font: "font_ok (replicate 49152 0)"
    by (simp add: font_ok_def)
  obtain s where s: "running_ok s"
    using HandleStarting_ok [OF font fair_id demo_driver_ok] by blast
  obtain s' where "Render (replicate 49152 0) (\<lambda>n. n) 0 True s = Inr s'"
    using Render_ok [OF font fair_id s, of 0 True] by blast
  with web_matches_strips [OF font fair_id s this] show ?thesis
    by blast
qed

end
