(* ===== verification/Base64.thy ===== *)
theory Base64
  imports Base16
begin

section \<open>bbox::Base64\<close>

text \<open>
  \<open>BBoxUtils/bbox/Base64.cpp\<close>: three bytes as four characters. The partly filled arrays
  \<open>char_array_3\<close> and \<open>char_array_4\<close> of the code are lists, whose length is the index \<open>i\<close>; the
  string is consumed from the front where the code moves an index.
\<close>

definition base64_chars :: string where
  "base64_chars = ''ABCDEFGHIJKLMNOPQRSTUVWXYZabcdefghijklmnopqrstuvwxyz0123456789+/''"

text \<open>\<open>isalnum\<close> in the C locale.\<close>

definition is_base64 :: "char \<Rightarrow> bool" where
  "is_base64 c \<longleftrightarrow> is_digit c \<or> is_upper c \<or> is_lower c \<or> c = CHR ''+'' \<or> c = CHR ''/''"

subsection \<open>Encoding\<close>

text \<open>The four 6-bit values of three bytes.\<close>

definition split_3 :: "byte \<Rightarrow> byte \<Rightarrow> byte \<Rightarrow> byte list" where
  "split_3 a b c =
     [drop_bit 2 (a AND 0xFC),
      push_bit 4 (a AND 0x03) + drop_bit 4 (b AND 0xF0),
      push_bit 2 (b AND 0x0F) + drop_bit 6 (c AND 0xC0),
      c AND 0x3F]"

definition base64_char :: "byte \<Rightarrow> char" where
  "base64_char n = base64_chars ! unat n"

fun Base64_Encode_loop :: "byte list \<Rightarrow> byte list \<Rightarrow> string \<Rightarrow> byte list \<times> string" where
  "Base64_Encode_loop [] char_array_3 ret = (char_array_3, ret)"
| "Base64_Encode_loop (b # buf) char_array_3 ret =
     (let char_array_3 = char_array_3 @ [b]
      in if length char_array_3 = 3 then
           let char_array_4 = split_3 (char_array_3 ! 0) (char_array_3 ! 1) (char_array_3 ! 2)
           in Base64_Encode_loop buf [] (ret @ map base64_char char_array_4)
         else Base64_Encode_loop buf char_array_3 ret)"

definition Base64_Encode :: "byte list \<Rightarrow> string" where
  "Base64_Encode buf =
     (let (char_array_3, ret) = Base64_Encode_loop buf [] [];
          i = length char_array_3
      in if i \<noteq> 0 then
           let char_array_3 = char_array_3 @ replicate (3 - i) 0;
               char_array_4 = split_3 (char_array_3 ! 0) (char_array_3 ! 1) (char_array_3 ! 2)
           in ret @ map base64_char (take (i + 1) char_array_4) @ replicate (3 - i) (CHR ''='')
         else ret)"

subsection \<open>Decoding\<close>

text \<open>\<open>uint8_t(base64_chars.find(ch))\<close>, which is 255 where the character is not found.\<close>

definition find_base64 :: "byte \<Rightarrow> byte" where
  "find_base64 ch = (let n = length (takeWhile (\<lambda>c. c \<noteq> char_of (unat ch)) base64_chars)
     in if n < length base64_chars then of_nat n else 255)"

definition join_4 :: "byte list \<Rightarrow> byte list" where
  "join_4 a =
     [push_bit 2 (a ! 0) + drop_bit 4 (a ! 1 AND 0x30),
      push_bit 4 (a ! 1 AND 0x0F) + drop_bit 2 (a ! 2 AND 0x3C),
      push_bit 6 (a ! 2 AND 0x03) + a ! 3]"

fun Base64_Decode_loop :: "string \<Rightarrow> byte list \<Rightarrow> byte list \<Rightarrow> string \<times> byte list \<times> byte list" where
  "Base64_Decode_loop [] char_array_4 decoded = ([], char_array_4, decoded)"
| "Base64_Decode_loop (c # str) char_array_4 decoded =
     (if c \<noteq> CHR ''='' \<and> is_base64 c then
        let char_array_4 = char_array_4 @ [of_nat (of_char c)]
        in if length char_array_4 = 4
           then Base64_Decode_loop str [] (decoded @ join_4 (map find_base64 char_array_4))
           else Base64_Decode_loop str char_array_4 decoded
      else (c # str, char_array_4, decoded))"

definition Base64_Decode :: "string \<Rightarrow> errc option \<times> byte list" where
  "Base64_Decode encoded =
     (let (rest, char_array_4, decoded) = Base64_Decode_loop encoded [] [];
          rest = dropWhile (\<lambda>c. c = CHR ''='') rest;
          i = length char_array_4
      in if rest \<noteq> [] \<and> \<not> is_base64 (hd rest) then (Some invalid_argument, decoded)
         else if i \<noteq> 0 then
           let char_array_4 = map find_base64 (char_array_4 @ replicate (4 - i) 0)
           in (None, decoded @ take (i - 1) (join_4 char_array_4))
         else (None, decoded))"

subsection \<open>Groups\<close>

text \<open>The masks of the code, and the additions as disjunctions of disjoint bits.\<close>

lemma masks:
  "(0xFC :: byte) = push_bit 2 (mask 6)" "(0x03 :: byte) = mask 2" "(0xF0 :: byte) = push_bit 4 (mask 4)"
  "(0x0F :: byte) = mask 4" "(0xC0 :: byte) = push_bit 6 (mask 2)" "(0x3F :: byte) = mask 6"
  "(0x30 :: byte) = push_bit 4 (mask 2)" "(0x3C :: byte) = push_bit 2 (mask 4)"
  by (simp_all add: mask_eq_exp_minus_1 push_bit_eq_mult)

lemma split_3_or:
  "split_3 a b c =
     [drop_bit 2 (a AND push_bit 2 (mask 6)),
      push_bit 4 (a AND mask 2) OR drop_bit 4 (b AND push_bit 4 (mask 4)),
      push_bit 2 (b AND mask 4) OR drop_bit 6 (c AND push_bit 6 (mask 2)),
      c AND mask 6]"
  unfolding split_3_def masks
  by (intro list.inject [THEN iffD2] conjI refl disjunctive_add)
    (auto simp: bit_simps dest: bit_imp_le_length)

lemma split_3_less: "x \<in> set (split_3 a b c) \<Longrightarrow> unat x < 64"
proof -
  assume x: "x \<in> set (split_3 a b c)"
  have "take_bit 6 x = x"
    using x unfolding split_3_or
    by (auto simp: bit_eq_iff bit_simps dest: bit_imp_le_length)
  then have "unat x = take_bit 6 (unat x)"
    by (metis unsigned_take_bit_eq)
  also have "\<dots> < 64"
    using take_bit_nat_less_exp [of 6 "unat x"] by simp
  finally show ?thesis .
qed

lemma Suc_Suc_diff: "2 \<le> n \<Longrightarrow> Suc (Suc (n - 2)) = n"
  by simp

lemma join_4_Cons:
  "join_4 [w, x, y, z] =
     [push_bit 2 w + drop_bit 4 (x AND push_bit 4 (mask 2)),
      push_bit 4 (x AND mask 4) + drop_bit 2 (y AND push_bit 2 (mask 4)),
      push_bit 6 (y AND mask 2) + z]"
  by (simp only: join_4_def masks) simp

lemma join_split: "join_4 (split_3 a b c) = [a, b, c]"
proof -
  let ?w = "drop_bit 2 (a AND push_bit 2 (mask 6))"
  let ?x = "push_bit 4 (a AND mask 2) OR drop_bit 4 (b AND push_bit 4 (mask 4))"
  let ?y = "push_bit 2 (b AND mask 4) OR drop_bit 6 (c AND push_bit 6 (mask 2))"
  have "bit (push_bit 2 ?w OR drop_bit 4 (?x AND push_bit 4 (mask 2))) n \<longleftrightarrow> bit a n" if "n < 8" for n
    using that by (cases "n < 2") (auto simp: bit_simps not_less Suc_Suc_diff)
  then have 1: "push_bit 2 ?w OR drop_bit 4 (?x AND push_bit 4 (mask 2)) = a"
    by (intro bit_eqI) simp
  have "bit (push_bit 4 (?x AND mask 4) OR drop_bit 2 (?y AND push_bit 2 (mask 4))) n \<longleftrightarrow> bit b n" if "n < 8" for n
    using that by (cases "n < 4") (auto simp: bit_simps not_less)
  then have 2: "push_bit 4 (?x AND mask 4) OR drop_bit 2 (?y AND push_bit 2 (mask 4)) = b"
    by (intro bit_eqI) simp
  have 3: "push_bit 6 (?y AND mask 2) OR (c AND mask 6) = c"
    by (auto simp: bit_eq_iff bit_simps)
  show ?thesis
    unfolding split_3_or join_4_Cons list.inject
    by (intro conjI refl; subst disjunctive_add;
        ((rule 1; fail) | (rule 2; fail) | (rule 3; fail) | (auto simp: bit_simps; fail))?)
qed

lemma base64_char_facts:
  assumes "unat n < 64"
  shows "find_base64 (of_nat (of_char (base64_char n))) = n" "is_base64 (base64_char n)" "base64_char n \<noteq> CHR ''=''"
proof -
  have "list_all (\<lambda>k. length (takeWhile (\<lambda>c. c \<noteq> base64_chars ! k) base64_chars) = k
      \<and> is_base64 (base64_chars ! k) \<and> base64_chars ! k \<noteq> CHR ''='') [0..<64]"
    by code_simp
  then have f: "length (takeWhile (\<lambda>c. c \<noteq> base64_char n) base64_chars) = unat n
      \<and> is_base64 (base64_char n) \<and> base64_char n \<noteq> CHR ''=''"
    using assms unfolding base64_char_def by (simp add: list_all_iff del: upt_rec_numeral)
  then show "is_base64 (base64_char n)" "base64_char n \<noteq> CHR ''=''"
    by simp_all
  have "char_of (unat (of_nat (of_char (base64_char n)) :: byte)) = base64_char n"
    by (simp add: unat_of_nat)
  then show "find_base64 (of_nat (of_char (base64_char n))) = n"
    using f assms by (simp add: find_base64_def base64_chars_def)
qed

text \<open>The encoding of a text, group by group.\<close>

fun base64_groups :: "byte list \<Rightarrow> string" where
  "base64_groups [] = []"
| "base64_groups [a] = map base64_char (take 2 (split_3 a 0 0)) @ ''==''"
| "base64_groups [a, b] = map base64_char (take 3 (split_3 a b 0)) @ ''=''"
| "base64_groups (a # b # c # buf) = map base64_char (split_3 a b c) @ base64_groups buf"

lemma Base64_Encode_groups: "Base64_Encode buf = base64_groups buf"
proof -
  have "(let (arr, r) = Base64_Encode_loop buf [] ret; i = length arr
      in if i \<noteq> 0 then
           let arr = arr @ replicate (3 - i) 0;
               arr4 = split_3 (arr ! 0) (arr ! 1) (arr ! 2)
           in r @ map base64_char (take (i + 1) arr4) @ replicate (3 - i) (CHR ''='')
         else r) = ret @ base64_groups buf" for ret
    by (induction buf arbitrary: ret rule: base64_groups.induct)
      (simp_all add: Let_def numeral_2_eq_2 numeral_3_eq_3)
  from this [of "[]"] show ?thesis
    by (simp add: Base64_Encode_def)
qed

lemma length_split_3: "length (split_3 a b c) = 4"
  by (simp add: split_3_def)

text \<open>
  What RFC 4648 asks for, in section 4: the bits of 24-bit groups of three octets, the first octet the most
  significant, are four digits to the base 64, each written with the character that table 1 of the standard gives it;
  a last group of one octet has two characters and two equals signs, one of two octets three characters and
  one equals sign.
\<close>

definition rfc4648_alphabet :: "nat \<Rightarrow> char" where
  "rfc4648_alphabet n =
     (if n < 26 then char_of (of_char (CHR ''A'') + n)
      else if n < 52 then char_of (of_char (CHR ''a'') + (n - 26))
      else if n < 62 then char_of (of_char (CHR ''0'') + (n - 52))
      else if n = 62 then CHR ''+'' else CHR ''/'')"

definition rfc4648_digits :: "nat \<Rightarrow> string" where
  "rfc4648_digits g = map (\<lambda>k. rfc4648_alphabet (g div 64 ^ k mod 64)) [3, 2, 1, 0]"

fun rfc4648 :: "byte list \<Rightarrow> string" where
  "rfc4648 [] = []"
| "rfc4648 [a] = take 2 (rfc4648_digits (unat a * 256\<^sup>2)) @ ''==''"
| "rfc4648 [a, b] = take 3 (rfc4648_digits (unat a * 256\<^sup>2 + unat b * 256)) @ ''=''"
| "rfc4648 (a # b # c # octets) = rfc4648_digits (unat a * 256\<^sup>2 + unat b * 256 + unat c) @ rfc4648 octets"

text \<open>The table of the code is that of the standard.\<close>

lemma base64_char_alphabet: "unat n < 64 \<Longrightarrow> base64_char n = rfc4648_alphabet (unat n)"
proof -
  assume n: "unat n < 64"
  have "list_all (\<lambda>k. base64_chars ! k = rfc4648_alphabet k) [0..<64]"
    by code_simp
  with n show ?thesis
    unfolding base64_char_def by (simp add: list_all_iff del: upt_rec_numeral)
qed

lemma unat_byte: "unat (a :: byte) < 256"
  using unsigned_less [of a, where 'a = nat] by simp

text \<open>The four values the code computes are the digits.\<close>

lemma split_3_values:
  "map unat (split_3 a b c) = [unat a div 4, unat a mod 4 * 16 + unat b div 16, unat b mod 16 * 4 + unat c div 64, unat c mod 64]"
proof -
  have mod_mask: "unat (x AND mask n) = unat x mod 2 ^ n" for x :: byte and n
    unfolding take_bit_eq_mask [symmetric] unsigned_take_bit_eq by (simp add: take_bit_eq_mod)
  have shift: "unat (drop_bit n x) = unat x div 2 ^ n" for x :: byte and n
    unfolding unat_drop_bit_eq by (simp add: drop_bit_eq_div)
  have high: "drop_bit n (x AND push_bit n (mask m)) = drop_bit n x" if "n + m = 8" for x :: byte and n m
    using that by (intro bit_eqI) (auto simp: bit_simps dest: bit_imp_le_length)
  have 1: "unat (push_bit 4 (a AND mask 2) + drop_bit 4 b) = unat a mod 4 * 16 + unat b div 16"
    using unat_byte [of b] by (simp add: push_bit_eq_mult unat_word_ariths mod_mask shift)
  have 2: "unat (push_bit 2 (b AND mask 4) + drop_bit 6 c) = unat b mod 16 * 4 + unat c div 64"
    using unat_byte [of c] by (simp add: push_bit_eq_mult unat_word_ariths mod_mask shift)
  have "split_3 a b c = [drop_bit 2 a, push_bit 4 (a AND mask 2) + drop_bit 4 b, push_bit 2 (b AND mask 4) + drop_bit 6 c, c AND mask 6]"
    unfolding split_3_def masks by (simp only: high [of 2 6] high [of 4 4] high [of 6 2])
  then show ?thesis
    by (simp only: list.map 1 2 shift mod_mask) simp
qed

lemma digits_64:
  fixes d0 d1 d2 d3 :: nat
  assumes "d0 < 64" "d1 < 64" "d2 < 64"
  shows "(((d3 * 64 + d2) * 64 + d1) * 64 + d0) div 64 ^ 3 = d3" "(((d3 * 64 + d2) * 64 + d1) * 64 + d0) div 64 ^ 2 mod 64 = d2"
    "(((d3 * 64 + d2) * 64 + d1) * 64 + d0) div 64 mod 64 = d1" "(((d3 * 64 + d2) * 64 + d1) * 64 + d0) mod 64 = d0"
proof -
  have div: "(x * 64 + d) div 64 = x" "(x * 64 + d) mod 64 = d" if "d < 64" for x d :: nat
    using that by simp_all
  have "x div 64 ^ 2 = x div 64 div 64" "x div 64 ^ 3 = x div 64 div 64 div 64" for x :: nat
    by (simp_all add: div_mult2_eq [symmetric])
  then show "(((d3 * 64 + d2) * 64 + d1) * 64 + d0) div 64 ^ 3 = d3" "(((d3 * 64 + d2) * 64 + d1) * 64 + d0) div 64 ^ 2 mod 64 = d2"
    "(((d3 * 64 + d2) * 64 + d1) * 64 + d0) div 64 mod 64 = d1" "(((d3 * 64 + d2) * 64 + d1) * 64 + d0) mod 64 = d0"
    by (simp_all only: div [OF assms(1)] div [OF assms(2)] div [OF assms(3)])
qed

lemma group_digits:
  fixes a b c :: nat
  assumes "a < 256" "b < 256" "c < 256" "g = a * 256\<^sup>2 + b * 256 + c"
  shows "g div 64 ^ 3 mod 64 = a div 4" "g div 64 ^ 2 mod 64 = a mod 4 * 16 + b div 16" "g div 64 mod 64 = b mod 16 * 4 + c div 64"
    "g mod 64 = c mod 64"
proof -
  have regroup: "a = 4 * a1 + a0 \<Longrightarrow> b = 16 * b1 + b0 \<Longrightarrow> c = 64 * c1 + c0 \<Longrightarrow>
      g = ((a1 * 64 + (a0 * 16 + b1)) * 64 + (b0 * 4 + c1)) * 64 + c0" for a1 a0 b1 b0 c1 c0
    unfolding assms(4) power2_eq_square by simp
  have g: "g = ((a div 4 * 64 + (a mod 4 * 16 + b div 16)) * 64 + (b mod 16 * 4 + c div 64)) * 64 + c mod 64"
    by (rule regroup) simp_all
  have "c mod 64 < 64" "b mod 16 * 4 + c div 64 < 64" "a mod 4 * 16 + b div 16 < 64" "a div 4 < 64"
    using assms(1-3) mod_less_divisor [of 16 b] mod_less_divisor [of 4 a] by linarith+
  then show "g div 64 ^ 3 mod 64 = a div 4" "g div 64 ^ 2 mod 64 = a mod 4 * 16 + b div 16" "g div 64 mod 64 = b mod 16 * 4 + c div 64"
    "g mod 64 = c mod 64"
    unfolding g using digits_64 by (simp_all only: mod_less)
qed

lemma split_3_digits: "map base64_char (split_3 a b c) = rfc4648_digits (unat a * 256\<^sup>2 + unat b * 256 + unat c)"
proof -
  let ?g = "unat a * 256\<^sup>2 + unat b * 256 + unat c"
  have "map base64_char (split_3 a b c) = map rfc4648_alphabet (map unat (split_3 a b c))"
    using split_3_less [of _ a b c] base64_char_alphabet by (simp add: comp_def)
  also have "map unat (split_3 a b c) = map (\<lambda>k. ?g div 64 ^ k mod 64) [3, 2, 1, 0]"
    unfolding split_3_values using group_digits [OF unat_byte unat_byte unat_byte refl, of a b c] by simp
  finally show ?thesis
    by (simp add: rfc4648_digits_def)
qed

text \<open>
  C38: The encoding of any bytes is the one RFC 4648 defines: the alphabet of its table 1, its division of the bits
  into groups, and its padding. The standard is written down over numbers, and shares nothing with the code.
\<close>

theorem Base64_Encode_rfc4648: "Base64_Encode bs = rfc4648 bs"
  unfolding Base64_Encode_groups
proof (induction bs rule: base64_groups.induct)
  case (2 a)
  show ?case
    using split_3_digits [of a 0 0] by (simp add: take_map [symmetric])
next
  case (3 a b)
  show ?case
    using split_3_digits [of a b 0] by (simp add: take_map [symmetric])
qed (simp_all add: split_3_digits)

subsection \<open>Decoding what was encoded\<close>

lemma Decode_loop_group:
  assumes "\<forall>n \<in> set q. unat n < 64" "length q = 4"
  shows "Base64_Decode_loop (map base64_char q @ str) [] decoded = Base64_Decode_loop str [] (decoded @ join_4 q)"
proof -
  obtain w x y z where "q = [w, x, y, z]"
    using assms(2) by (auto simp: numeral_eq_Suc length_Suc_conv)
  then show ?thesis
    using assms(1) by (simp add: base64_char_facts)
qed

lemma Decode_loop_part:
  assumes "\<forall>n \<in> set q. unat n < 64" "length q < 4" "str = [] \<or> hd str = CHR ''=''"
  shows "Base64_Decode_loop (map base64_char q @ str) [] decoded = (str, map (\<lambda>n. of_nat (of_char (base64_char n))) q, decoded)"
proof -
  have stop: "Base64_Decode_loop str acc decoded = (str, acc, decoded)" for acc
    using assms(3) by (cases str) auto
  consider "q = []" | w where "q = [w]" | w x where "q = [w, x]" | w x y where "q = [w, x, y]"
    using assms(2) by (auto simp: numeral_eq_Suc less_Suc_eq length_Suc_conv)
  then show ?thesis
    using assms(1) by cases (simp_all add: stop base64_char_facts)
qed

lemma find_base64_0: "find_base64 0 = 255"
  by code_simp

lemma find_part:
  "\<forall>n \<in> set q. unat n < 64 \<Longrightarrow> map (find_base64 \<circ> (\<lambda>n. of_nat (of_char (base64_char n)))) q = q"
  by (induction q) (auto simp: base64_char_facts)

text \<open>What follows the characters of the groups: the padding, and anything behind it.\<close>

definition padding_ok :: "string \<Rightarrow> bool" where
  "padding_ok str \<longleftrightarrow> (let rest = dropWhile (\<lambda>c. c = CHR ''='') str in rest = [] \<or> is_base64 (hd rest))"

lemma Decode_groups:
  assumes "length bs mod 3 = 0 \<Longrightarrow> str = [] \<or> hd str = CHR ''=''" "padding_ok str"
  shows "Base64_Decode (base64_groups bs @ str) = (None, bs)"
proof -
  have "(let (rest, arr, dec) = Base64_Decode_loop (base64_groups bs @ str) [] decoded;
          rest = dropWhile (\<lambda>c. c = CHR ''='') rest;
          i = length arr
      in if rest \<noteq> [] \<and> \<not> is_base64 (hd rest) then (Some invalid_argument, dec)
         else if i \<noteq> 0 then (None, dec @ take (i - 1) (join_4 (map find_base64 (arr @ replicate (4 - i) 0))))
         else (None, dec)) = (None, decoded @ bs)" for decoded
    using assms
  proof (induction bs arbitrary: decoded rule: base64_groups.induct)
    case 1
    then show ?case
      using Decode_loop_part [of "[]" str decoded] by (simp add: padding_ok_def Let_def)
  next
    case (2 a)
    let ?q = "take 2 (split_3 a 0 0)"
    have q: "\<forall>n \<in> set ?q. unat n < 64" "length ?q = 2"
      using split_3_less [of _ a 0 0] by (auto simp: length_split_3 dest: in_set_takeD)
    have "take 1 (join_4 (?q @ replicate 2 255)) = take 1 (join_4 (split_3 a 0 0))"
      by (simp add: split_3_def join_4_def numeral_eq_Suc)
    then show ?case
      using 2 Decode_loop_part [of ?q "CHR ''='' # CHR ''='' # str" decoded] q
      by (simp add: padding_ok_def Let_def find_part find_base64_0 join_split)
  next
    case (3 a b)
    let ?q = "take 3 (split_3 a b 0)"
    have q: "\<forall>n \<in> set ?q. unat n < 64" "length ?q = 3"
      using split_3_less [of _ a b 0] by (auto simp: length_split_3 dest: in_set_takeD)
    have "take 2 (join_4 (?q @ replicate 1 255)) = take 2 (join_4 (split_3 a b 0))"
      by (simp add: split_3_def join_4_def numeral_eq_Suc)
    then show ?case
      using 3 Decode_loop_part [of ?q "CHR ''='' # str" decoded] q
      by (simp add: padding_ok_def Let_def find_part find_base64_0 join_split)
  next
    case (4 a b c buf)
    have "length (a # b # c # buf) mod 3 = length buf mod 3"
      by simp
    then show ?case
      using "4.IH" [of "decoded @ [a, b, c]"] "4.prems" split_3_less [of _ a b c]
      by (simp add: Decode_loop_group length_split_3 join_split)
  qed
  from this [of "[]"] show ?thesis
    unfolding Base64_Decode_def Let_def append_Nil .
qed

text \<open>
  What \<open>Encode\<close> makes of any bytes is decoded to these bytes; but where the text ends in
  padding, any further text that starts with a character of the alphabet is accepted behind it
  and ignored.
\<close>

theorem Base64_roundtrip:
  "Base64_Decode (Base64_Encode bs) = (None, bs)
   \<and> (length bs mod 3 \<noteq> 0 \<and> is_base64 c \<and> c \<noteq> CHR ''='' \<longrightarrow> Base64_Decode (Base64_Encode bs @ c # str) = (None, bs))"
  using Decode_groups [of bs "[]"] Decode_groups [of bs "c # str"]
  by (auto simp: Base64_Encode_groups padding_ok_def)

theorem Base64_roundtrip_witness:
  "Base64_Decode (Base64_Encode [77, 97]) = (None, [77, 97])
   \<and> Base64_Decode (Base64_Encode [77, 97] @ ''TWFu'') = (None, [77, 97])"
  using Base64_roundtrip [of "[77, 97]" "CHR ''T''" "''WFu''"]
  by (simp add: is_base64_def is_upper_def)

end
