(* ===== verification/TextFormat.thy ===== *)
theory TextFormat
  imports RoundTrip TextNum Base64
begin

section \<open>Text formats of typed values\<close>

text \<open>
  \<open>BBoxEnc/bbox/enc\<close>: the base classes \<open>ToTextFormat\<close> and \<open>FromTextFormat\<close> and the templates
  \<open>details/ToTextFormatAction.h\<close> and \<open>details/FromTextFormatAction.h\<close>, which write and read a typed
  value through the virtual functions of a format such as JSON or XML. The table of virtual
  functions is a record of functions. The types are those of \<open>Marshal\<close>, but a class that
  the IDL compiler generated (\<open>IDL Struct.cpp\<close>) is a structure of named fields here; its value is the
  right-nested pair of its fields, ended by the unit.
\<close>

subsection \<open>Types\<close>

datatype tty =
    TBool
  | TInt int_type
  | TString
  | TBinary
  | TStruct "(string \<times> tty) list"
  | TPair tty tty
  | TVector tty
  | TSet tty
  | TMap tty tty
  | TMsgAnyPtr
  | TMsgPtr string

text \<open>The registered message types: the name and the type of the objects that it constructs.\<close>

type_synonym text_lib = "string \<Rightarrow> tty option"

fun int_signed :: "int_type \<Rightarrow> bool" where
  "int_signed U8 = False" | "int_signed U16 = False" | "int_signed U32 = False" | "int_signed U64 = False"
| "int_signed I8 = True" | "int_signed I16 = True" | "int_signed I32 = True" | "int_signed I64 = True"

fun int_bits :: "int_type \<Rightarrow> nat" where
  "int_bits U8 = 8" | "int_bits U16 = 16" | "int_bits U32 = 32" | "int_bits U64 = 64"
| "int_bits I8 = 8" | "int_bits I16 = 16" | "int_bits I32 = 32" | "int_bits I64 = 64"

definition int_ToString :: "int_type \<Rightarrow> int \<Rightarrow> string" where
  "int_ToString it x = (if int_signed it then ToString_signed (int_bits it) x else ToString_unsigned (nat x))"

definition int_FromString :: "int_type \<Rightarrow> string \<Rightarrow> int option" where
  "int_FromString it str =
     (if int_signed it then FromString_signed (int_bits it) str else map_option int (FromString_unsigned (int_bits it) str))"

subsection \<open>Writing\<close>

datatype e_target = MACHINE_ROUND_TRIP | HUMAN_DEBUGGING

record 'w text_writer =
  tw_target :: e_target
  tw_StartNamedItem :: "string \<Rightarrow> 'w \<Rightarrow> 'w res"
  tw_CompleteNamedItem :: "'w \<Rightarrow> 'w res"
  tw_StartStructure :: "'w \<Rightarrow> 'w res"
  tw_CompleteStructure :: "'w \<Rightarrow> 'w res"
  tw_SetStringValue :: "string \<Rightarrow> 'w \<Rightarrow> 'w res"

definition SetBinaryDataValue :: "'w text_writer \<Rightarrow> byte list \<Rightarrow> 'w \<Rightarrow> 'w res" where
  "SetBinaryDataValue w data m =
     (if tw_target w = HUMAN_DEBUGGING then
        let result = Format ''Binary data, %d bytes'' [ArgUnsigned (length data)]
        in tw_SetStringValue w
          (if length data = 0 then result
           else if length data \<le> 20 then Format ''%s, %s'' [ArgStr result, ArgStr (Base16_Encode data)]
           else Format ''%s, %s...'' [ArgStr result, ArgStr (Base16_Encode (take 20 data))]) m
      else tw_SetStringValue w (Base64_Encode data) m)"

definition named_item :: "'w text_writer \<Rightarrow> string \<Rightarrow> ('w \<Rightarrow> 'w res) \<Rightarrow> 'w \<Rightarrow> 'w res" where
  "named_item w name f m =
     bind_res (tw_StartNamedItem w name m) (\<lambda>m. bind_res (f m) (tw_CompleteNamedItem w))"

definition AddNamedString :: "'w text_writer \<Rightarrow> string \<Rightarrow> string \<Rightarrow> 'w \<Rightarrow> 'w res" where
  "AddNamedString w name canonical = named_item w name (tw_SetStringValue w canonical)"

definition in_structure :: "'w text_writer \<Rightarrow> ('w \<Rightarrow> 'w res) \<Rightarrow> 'w \<Rightarrow> 'w res" where
  "in_structure w f m = bind_res (tw_StartStructure w m) (\<lambda>m. bind_res (f m) (tw_CompleteStructure w))"

text \<open>A value of another type than the static one cannot occur in the program.\<close>

definition ill_typed :: "'a res" where
  "ill_typed = Inl (Aborted ''ill-typed'')"

text \<open>
  The actions of the strategies and the generated \<open>ToTextFormat\<close>, which a message pointer reaches
  through \<open>SetMsgAnyPtrValue\<close> and \<open>EncodeContents\<close>.
\<close>

function write_text :: "'w text_writer \<Rightarrow> text_lib \<Rightarrow> tty \<Rightarrow> val \<Rightarrow> 'w \<Rightarrow> 'w res"
  and write_fields :: "'w text_writer \<Rightarrow> text_lib \<Rightarrow> (string \<times> tty) list \<Rightarrow> val \<Rightarrow> 'w \<Rightarrow> 'w res" where
  "write_text w lib t v m = (case v of
       VBool b \<Rightarrow> (if t = TBool then tw_SetStringValue w (ToString_bool b) m else ill_typed)
     | VInt it x \<Rightarrow> (if t = TInt it then tw_SetStringValue w (int_ToString it x) m else ill_typed)
     | VString str \<Rightarrow> (if t = TString then tw_SetStringValue w (chars_of str) m else ill_typed)
     | VBytes vec \<Rightarrow> (if t = TBinary then SetBinaryDataValue w vec m else ill_typed)
     | VUnit \<Rightarrow> (case t of TStruct fs \<Rightarrow> in_structure w (write_fields w lib fs v) m | _ \<Rightarrow> ill_typed)
     | VPair x y \<Rightarrow> (case t of
           TStruct fs \<Rightarrow> in_structure w (write_fields w lib fs v) m
         | TPair a b \<Rightarrow> in_structure w (\<lambda>m.
             bind_res (named_item w ''first'' (write_text w lib a x) m) (named_item w ''second'' (write_text w lib b y))) m
         | _ \<Rightarrow> ill_typed)
     | VVector xs \<Rightarrow> (case t of
           TVector a \<Rightarrow> in_structure w (\<lambda>m.
             bind_res (AddNamedString w ''size'' (ToString_unsigned (length xs)) m)
               (fold_res (\<lambda>x. named_item w ''entry'' (write_text w lib a x)) xs)) m
         | _ \<Rightarrow> ill_typed)
     | VSet xs \<Rightarrow> (case t of
           TSet a \<Rightarrow> in_structure w (\<lambda>m.
             bind_res (AddNamedString w ''size'' (ToString_unsigned (length xs)) m)
               (fold_res (\<lambda>x. named_item w ''entry'' (write_text w lib a x)) xs)) m
         | _ \<Rightarrow> ill_typed)
     | VMap es \<Rightarrow> (case t of
           TMap a b \<Rightarrow> in_structure w (\<lambda>m.
             bind_res (AddNamedString w ''size'' (ToString_unsigned (length es)) m)
               (fold_res (\<lambda>e. named_item w ''entry'' (in_structure w (\<lambda>m. case e of
                    VPair k x \<Rightarrow> bind_res (named_item w ''key'' (write_text w lib a k) m) (named_item w ''value'' (write_text w lib b x))
                  | _ \<Rightarrow> ill_typed))) es)) m
         | _ \<Rightarrow> ill_typed)
     | VNull \<Rightarrow> in_structure w (AddNamedString w ''type'' ''nullptr'') m
     | VMsg name x \<Rightarrow> (case lib (chars_of name) of
           None \<Rightarrow> ill_typed
         | Some c \<Rightarrow> in_structure w (\<lambda>m.
             bind_res (AddNamedString w ''type'' (chars_of name) m) (named_item w ''contents'' (write_text w lib c x))) m))"
| "write_fields w lib fs v m = (case fs of
       [] \<Rightarrow> Inr m
     | (name, t) # fs' \<Rightarrow> (case v of
           VPair x y \<Rightarrow> bind_res (named_item w name (write_text w lib t x) m) (write_fields w lib fs' y)
         | _ \<Rightarrow> ill_typed))"
  by pat_completeness auto
termination
  by (relation "measure (case_sum (\<lambda>(w, lib, t, v, m). 2 * size v + 1) (\<lambda>(w, lib, fs, v, m). 2 * size v))")
    (auto dest!: size_elem)

text \<open>\<open>SetStringValue\<close> with two texts: the format decides which of them it is for.\<close>

definition SetStringValue_for :: "'w text_writer \<Rightarrow> string \<Rightarrow> string \<Rightarrow> 'w \<Rightarrow> 'w res" where
  "SetStringValue_for w canonical human_readable m =
     (if tw_target w = HUMAN_DEBUGGING then tw_SetStringValue w human_readable m else tw_SetStringValue w canonical m)"

subsection \<open>Reading\<close>

text \<open>
  The error of the base class is a part of the state of each format; \<open>SetError\<close> keeps the
  first one.
\<close>

record 'm text_reader =
  tr_HasError :: "'m \<Rightarrow> bool"
  tr_SetError :: "string \<Rightarrow> 'm \<Rightarrow> 'm"
  tr_StartNamedItem :: "string \<Rightarrow> 'm \<Rightarrow> 'm res"
  tr_CompleteNamedItem :: "'m \<Rightarrow> 'm res"
  tr_StartStructure :: "'m \<Rightarrow> 'm res"
  tr_CompleteStructure :: "'m \<Rightarrow> 'm res"
  tr_DecodeStringValue :: "'m \<Rightarrow> (string \<times> 'm) res"

text \<open>
  The platform, the value that a new variable of a type holds before it is read (indeterminate
  where C++ leaves it so), and the contents of the \<open>uint64_value\<close> that \<open>DecodeNamedSizeT\<close> does
  not initialise.
\<close>

record text_params =
  tx_platform :: platform
  tx_init :: "tty \<Rightarrow> val"
  tx_junk :: nat

type_synonym ('a, 'm) decoder = "'m \<Rightarrow> ('a \<times> 'm) res"

definition decode_named :: "'m text_reader \<Rightarrow> string \<Rightarrow> ('a, 'm) decoder \<Rightarrow> ('a, 'm) decoder" where
  "decode_named r name f m =
     bind_res (tr_StartNamedItem r name m) (\<lambda>m.
     bind_res (f m) (\<lambda>(x, m).
     bind_res (tr_CompleteNamedItem r m) (\<lambda>m. Inr (x, m))))"

definition decode_structure :: "'m text_reader \<Rightarrow> ('a, 'm) decoder \<Rightarrow> ('a, 'm) decoder" where
  "decode_structure r f m =
     bind_res (tr_StartStructure r m) (\<lambda>m.
     bind_res (f m) (\<lambda>(x, m).
     bind_res (tr_CompleteStructure r m) (\<lambda>m. Inr (x, m))))"

text \<open>A value that is parsed from its text: it stays as it was if there is an error.\<close>

definition decode_parsed :: "'m text_reader \<Rightarrow> (string \<Rightarrow> 'a option) \<Rightarrow> (string \<Rightarrow> string) \<Rightarrow> 'a \<Rightarrow> ('a, 'm) decoder" where
  "decode_parsed r parse err old m =
     (if \<not> tr_HasError r m then
        bind_res (tr_DecodeStringValue r m) (\<lambda>(to_decode, m).
          case parse to_decode of
            None \<Rightarrow> Inr (old, tr_SetError r (err to_decode) m)
          | Some x \<Rightarrow> Inr (x, m))
      else Inr (old, m))"

definition invalid_int :: "int_type \<Rightarrow> string \<Rightarrow> string" where
  "invalid_int it s =
     Format (if int_signed it then ''Invalid/out-of-range signed int value \"%s\"''
             else ''Invalid/out-of-range unsigned int value \"%s\"'') [ArgStr s]"

definition DecodeBinaryDataValue :: "'m text_reader \<Rightarrow> (byte list, 'm) decoder" where
  "DecodeBinaryDataValue r m =
     (if \<not> tr_HasError r m then
        bind_res (tr_DecodeStringValue r m) (\<lambda>(base64, m).
          if \<not> tr_HasError r m then
            (case Base64_Decode base64 of
               (None, result) \<Rightarrow> Inr (result, m)
             | (Some _, result) \<Rightarrow> Inr (result, tr_SetError r ''Un-decodeable base-64 binary data'' m))
          else Inr ([], m))
      else Inr ([], m))"

definition DecodeNamedSizeT :: "text_params \<Rightarrow> 'm text_reader \<Rightarrow> string \<Rightarrow> (nat, 'm) decoder" where
  "DecodeNamedSizeT p r name m =
     (if \<not> tr_HasError r m then
        bind_res (decode_named r name (decode_parsed r (FromString_unsigned 64) (invalid_int U64) (tx_junk p)) m)
          (\<lambda>(uint64_value, m).
            if uint64_value < 0 \<or> uint64_value > pf_size_max (tx_platform p) then
              Inr (0, tr_SetError r ''Out-of-range size_t value'' m)
            else Inr (uint64_value, m))
      else Inr (0, m))"

fun decode_entries :: "nat \<Rightarrow> 'm text_reader \<Rightarrow> (val, 'm) decoder \<Rightarrow> (val list, 'm) decoder" where
  "decode_entries 0 r rd m = Inr ([], m)"
| "decode_entries (Suc n) r rd m =
     bind_res (decode_named r ''entry'' rd m) (\<lambda>(x, m).
     bind_res (decode_entries n r rd m) (\<lambda>(xs, m). Inr (x # xs, m)))"

fun decode_set_entries :: "nat \<Rightarrow> 'm text_reader \<Rightarrow> (val, 'm) decoder \<Rightarrow> val list \<Rightarrow> (val list, 'm) decoder" where
  "decode_set_entries 0 r rd acc m = Inr (acc, m)"
| "decode_set_entries (Suc n) r rd acc m =
     bind_res (decode_named r ''entry'' rd m) (\<lambda>(x, m).
       case set_insert x acc of
         (acc, inserted) \<Rightarrow> decode_set_entries n r rd acc
           (if \<not> inserted then tr_SetError r ''Duplicate value in std::set'' m else m))"

fun decode_map_entries :: "nat \<Rightarrow> 'm text_reader \<Rightarrow> (val, 'm) decoder \<Rightarrow> (val, 'm) decoder \<Rightarrow> val list \<Rightarrow> (val list, 'm) decoder" where
  "decode_map_entries 0 r rdk rdv acc m = Inr (acc, m)"
| "decode_map_entries (Suc n) r rdk rdv acc m =
     bind_res (decode_named r ''entry'' (decode_structure r (\<lambda>m.
         bind_res (decode_named r ''key'' rdk m) (\<lambda>(k, m).
         bind_res (decode_named r ''value'' rdv m) (\<lambda>(x, m). Inr ((k, x), m))))) m) (\<lambda>((k, x), m).
       if tr_HasError r m then Inr (acc, m)
       else case map_emplace k x acc of
         (acc, inserted) \<Rightarrow>
           if \<not> inserted then Inr (acc, tr_SetError r ''Duplicate key in std::map FromTextFormat'' m)
           else decode_map_entries n r rdk rdv acc m)"

definition decode_counted :: "text_params \<Rightarrow> 'm text_reader \<Rightarrow> (nat \<Rightarrow> (val list, 'm) decoder) \<Rightarrow> (val list, 'm) decoder" where
  "decode_counted p r f = decode_structure r (\<lambda>m. bind_res (DecodeNamedSizeT p r ''size'' m) (\<lambda>(size, m). f size m))"

definition decode_msg_ptr :: "'m text_reader \<Rightarrow> text_lib \<Rightarrow> string \<Rightarrow> (val, 'm) decoder \<Rightarrow> val \<Rightarrow> (val, 'm) decoder" where
  "decode_msg_ptr r lib ty rd old m =
     bind_res (rd m) (\<lambda>(any_ptr, m).
       if \<not> tr_HasError r m \<and> any_ptr \<noteq> VNull then
         (if lib ty = None then Inl NullPointer
          else if chars_of (msg_name any_ptr) = ty then Inr (any_ptr, m)
          else Inr (VNull, tr_SetError r (Format ''Could not cast object of type %s to type %s''
                      [ArgStr (chars_of (msg_name any_ptr)), ArgStr ty]) m))
       else Inr (old, m))"

text \<open>The members of a variable that is read into.\<close>

fun val_fst :: "val \<Rightarrow> val" where
  "val_fst (VPair x y) = x"
| "val_fst v = v"

fun val_snd :: "val \<Rightarrow> val" where
  "val_snd (VPair x y) = y"
| "val_snd v = v"

fun val_bool :: "val \<Rightarrow> bool" where
  "val_bool (VBool b) = b"
| "val_bool v = False"

fun val_int :: "val \<Rightarrow> int" where
  "val_int (VInt it x) = x"
| "val_int v = 0"

text \<open>
  The actions of the strategies and the generated \<open>FromTextFormat\<close>; \<open>rm\<close> reads a \<open>MsgAnyPtr\<close>, and
  \<open>old\<close> is the variable's value before.
\<close>

fun read_text :: "text_params \<Rightarrow> 'm text_reader \<Rightarrow> text_lib \<Rightarrow> (val, 'm) decoder \<Rightarrow> tty \<Rightarrow> val \<Rightarrow> (val, 'm) decoder"
  and read_fields :: "text_params \<Rightarrow> 'm text_reader \<Rightarrow> text_lib \<Rightarrow> (val, 'm) decoder \<Rightarrow> (string \<times> tty) list \<Rightarrow> val \<Rightarrow> (val, 'm) decoder" where
  "read_text p r lib rm TBool old m =
     bind_res (decode_parsed r FromString_bool (\<lambda>s. Format ''Invalid bool value \"%s\"'' [ArgStr s]) (val_bool old) m)
       (\<lambda>(b, m). Inr (VBool b, m))"
| "read_text p r lib rm (TInt it) old m =
     bind_res (decode_parsed r (int_FromString it) (invalid_int it) (val_int old) m) (\<lambda>(x, m). Inr (VInt it x, m))"
| "read_text p r lib rm TString old m =
     bind_res (tr_DecodeStringValue r m) (\<lambda>(str, m). Inr (VString (bytes_of str), m))"
| "read_text p r lib rm TBinary old m =
     bind_res (DecodeBinaryDataValue r m) (\<lambda>(vec, m). Inr (VBytes vec, m))"
| "read_text p r lib rm (TStruct fs) old m = decode_structure r (read_fields p r lib rm fs old) m"
| "read_text p r lib rm (TPair a b) old m =
     decode_structure r (\<lambda>m.
       bind_res (decode_named r ''first'' (read_text p r lib rm a (val_fst old)) m) (\<lambda>(x, m).
       bind_res (decode_named r ''second'' (read_text p r lib rm b (val_snd old)) m) (\<lambda>(y, m). Inr (VPair x y, m)))) m"
| "read_text p r lib rm (TVector a) old m =
     bind_res (decode_counted p r (\<lambda>size m.
         if size > pf_vector_max (tx_platform p) then Inl LengthError
         else decode_entries size r (read_text p r lib rm a (tx_init p a)) m) m)
       (\<lambda>(xs, m). Inr (VVector xs, m))"
| "read_text p r lib rm (TSet a) old m =
     bind_res (decode_counted p r (\<lambda>size m. decode_set_entries size r (read_text p r lib rm a (tx_init p a)) [] m) m)
       (\<lambda>(xs, m). Inr (VSet xs, m))"
| "read_text p r lib rm (TMap a b) old m =
     bind_res (decode_counted p r (\<lambda>size m.
         decode_map_entries size r (read_text p r lib rm a (tx_init p a)) (read_text p r lib rm b (tx_init p b)) [] m) m)
       (\<lambda>(es, m). Inr (VMap es, m))"
| "read_text p r lib rm TMsgAnyPtr old m = rm m"
| "read_text p r lib rm (TMsgPtr ty) old m = decode_msg_ptr r lib ty rm old m"
| "read_fields p r lib rm [] old m = Inr (VUnit, m)"
| "read_fields p r lib rm ((name, t) # fs) old m =
     bind_res (decode_named r name (read_text p r lib rm t (val_fst old)) m) (\<lambda>(x, m).
     bind_res (read_fields p r lib rm fs (val_snd old) m) (\<lambda>(y, m). Inr (VPair x y, m)))"

text \<open>
  A message can hold messages: the recursion through \<open>DecodeContents\<close> takes fuel.
\<close>

fun DecodeMsgAnyPtr :: "nat \<Rightarrow> text_params \<Rightarrow> 'm text_reader \<Rightarrow> text_lib \<Rightarrow> (val, 'm) decoder" where
  "DecodeMsgAnyPtr 0 p r lib m = Inl OutOfFuel"
| "DecodeMsgAnyPtr (Suc fuel) p r lib m =
     decode_structure r (\<lambda>m.
       bind_res (decode_named r ''type'' (tr_DecodeStringValue r) m) (\<lambda>(type_name, m).
         if type_name = ''nullptr'' then Inr (VNull, m)
         else case lib type_name of
             None \<Rightarrow> Inr (VNull, tr_SetError r (Format ''Unknown MsgType \"%s\"'' [ArgStr type_name]) m)
           | Some c \<Rightarrow>
               bind_res (decode_named r ''contents'' (read_text p r lib (DecodeMsgAnyPtr fuel p r lib) c (tx_init p c)) m)
                 (\<lambda>(x, m). Inr (VMsg (bytes_of type_name) x, m)))) m"

definition DecodeValue :: "nat \<Rightarrow> text_params \<Rightarrow> 'm text_reader \<Rightarrow> text_lib \<Rightarrow> tty \<Rightarrow> val \<Rightarrow> (val, 'm) decoder" where
  "DecodeValue fuel p r lib t old = read_text p r lib (DecodeMsgAnyPtr fuel p r lib) t old"

end
