(* ===== verification/TextDocument.thy ===== *)
theory TextDocument
  imports TextFormat
begin

section \<open>The documents of the text formats\<close>

text \<open>
  What the templates of \<open>TextFormat\<close> write is a document: a text, or named items in order. Two
  interfaces state what a format promises to the templates: a writer's calls put a document in
  its place (\<open>text_output\<close>), and a reader's calls walk through one (\<open>text_input\<close>). The templates
  are proved against them once.
\<close>

subsection \<open>The document of a value\<close>

datatype doc = DocText string | DocItems "(string \<times> doc) list"

definition size_item :: "'a list \<Rightarrow> string \<times> doc" where
  "size_item xs = (''size'', DocText (ToString_unsigned (length xs)))"

definition entry_doc :: "(val \<Rightarrow> doc) \<Rightarrow> (val \<Rightarrow> doc) \<Rightarrow> val \<Rightarrow> doc" where
  "entry_doc f g e = (case e of VPair k x \<Rightarrow> DocItems [(''key'', f k), (''value'', g x)] | _ \<Rightarrow> DocText [])"

function doc_of :: "text_lib \<Rightarrow> tty \<Rightarrow> val \<Rightarrow> doc"
  and doc_fields :: "text_lib \<Rightarrow> (string \<times> tty) list \<Rightarrow> val \<Rightarrow> (string \<times> doc) list" where
  "doc_of lib t v = (case v of
       VBool b \<Rightarrow> DocText (ToString_bool b)
     | VInt it x \<Rightarrow> DocText (int_ToString it x)
     | VString str \<Rightarrow> DocText (chars_of str)
     | VBytes vec \<Rightarrow> DocText (Base64_Encode vec)
     | VUnit \<Rightarrow> (case t of TStruct fs \<Rightarrow> DocItems (doc_fields lib fs v) | _ \<Rightarrow> DocText [])
     | VPair x y \<Rightarrow> (case t of
           TStruct fs \<Rightarrow> DocItems (doc_fields lib fs v)
         | TPair a b \<Rightarrow> DocItems [(''first'', doc_of lib a x), (''second'', doc_of lib b y)]
         | _ \<Rightarrow> DocText [])
     | VVector xs \<Rightarrow> (case t of
           TVector a \<Rightarrow> DocItems (size_item xs # map (\<lambda>x. (''entry'', doc_of lib a x)) xs) | _ \<Rightarrow> DocText [])
     | VSet xs \<Rightarrow> (case t of
           TSet a \<Rightarrow> DocItems (size_item xs # map (\<lambda>x. (''entry'', doc_of lib a x)) xs) | _ \<Rightarrow> DocText [])
     | VMap es \<Rightarrow> (case t of
           TMap a b \<Rightarrow> DocItems (size_item es # map (\<lambda>e. (''entry'', case e of
                VPair k x \<Rightarrow> DocItems [(''key'', doc_of lib a k), (''value'', doc_of lib b x)] | _ \<Rightarrow> DocText [])) es)
         | _ \<Rightarrow> DocText [])
     | VNull \<Rightarrow> DocItems [(''type'', DocText ''nullptr'')]
     | VMsg name x \<Rightarrow> (case lib (chars_of name) of
           None \<Rightarrow> DocText []
         | Some c \<Rightarrow> DocItems [(''type'', DocText (chars_of name)), (''contents'', doc_of lib c x)]))"
| "doc_fields lib fs v = (case fs of
       [] \<Rightarrow> []
     | (name, t) # fs' \<Rightarrow> (case v of VPair x y \<Rightarrow> (name, doc_of lib t x) # doc_fields lib fs' y | _ \<Rightarrow> []))"
  by pat_completeness auto
termination
  by (relation "measure (case_sum (\<lambda>(lib, t, v). 2 * size v + 1) (\<lambda>(lib, fs, v). 2 * size v))") (auto dest!: size_elem)

text \<open>
  The values of a type, as the program can hold them; the name \<open>nullptr\<close> stands for the null
  pointer, so no message type may have it.
\<close>

function has_text_type :: "platform \<Rightarrow> text_lib \<Rightarrow> tty \<Rightarrow> val \<Rightarrow> bool"
  and has_field_types :: "platform \<Rightarrow> text_lib \<Rightarrow> (string \<times> tty) list \<Rightarrow> val \<Rightarrow> bool" where
  "has_text_type pf lib t v = (case v of
       VBool b \<Rightarrow> t = TBool
     | VInt it x \<Rightarrow> t = TInt it \<and> int_in_range it x
     | VString str \<Rightarrow> t = TString
     | VBytes vec \<Rightarrow> t = TBinary
     | VUnit \<Rightarrow> (case t of TStruct fs \<Rightarrow> has_field_types pf lib fs v | _ \<Rightarrow> False)
     | VPair x y \<Rightarrow> (case t of
           TStruct fs \<Rightarrow> has_field_types pf lib fs v
         | TPair a b \<Rightarrow> has_text_type pf lib a x \<and> has_text_type pf lib b y
         | _ \<Rightarrow> False)
     | VVector xs \<Rightarrow> (case t of
           TVector a \<Rightarrow> size_ok pf (length xs) \<and> length xs \<le> pf_vector_max pf \<and> (\<forall>x \<in> set xs. has_text_type pf lib a x)
         | _ \<Rightarrow> False)
     | VSet xs \<Rightarrow> (case t of
           TSet a \<Rightarrow> size_ok pf (length xs) \<and> sorted_wrt val_less xs \<and> (\<forall>x \<in> set xs. has_text_type pf lib a x)
         | _ \<Rightarrow> False)
     | VMap es \<Rightarrow> (case t of
           TMap a b \<Rightarrow> size_ok pf (length es) \<and> sorted_wrt (\<lambda>e f. val_less (entry_key e) (entry_key f)) es
             \<and> (\<forall>e \<in> set es. case e of VPair k x \<Rightarrow> has_text_type pf lib a k \<and> has_text_type pf lib b x | _ \<Rightarrow> False)
         | _ \<Rightarrow> False)
     | VNull \<Rightarrow> (case t of TMsgAnyPtr \<Rightarrow> True | TMsgPtr _ \<Rightarrow> True | _ \<Rightarrow> False)
     | VMsg name x \<Rightarrow> chars_of name \<noteq> ''nullptr''
         \<and> (case t of TMsgAnyPtr \<Rightarrow> True | TMsgPtr ty \<Rightarrow> ty = chars_of name | _ \<Rightarrow> False)
         \<and> (case lib (chars_of name) of None \<Rightarrow> False | Some c \<Rightarrow> has_text_type pf lib c x))"
| "has_field_types pf lib fs v = (case fs of
       [] \<Rightarrow> v = VUnit
     | (name, t) # fs' \<Rightarrow> (case v of VPair x y \<Rightarrow> has_text_type pf lib t x \<and> has_field_types pf lib fs' y | _ \<Rightarrow> False))"
  by pat_completeness auto
termination
  by (relation "measure (case_sum (\<lambda>(pf, lib, t, v). 2 * size v + 1) (\<lambda>(pf, lib, fs, v). 2 * size v))")
    (auto dest!: size_elem)

declare write_text.simps [simp del] write_fields.simps [simp del] doc_of.simps [simp del] doc_fields.simps [simp del]
  has_text_type.simps [simp del] has_field_types.simps [simp del]

lemmas write_text_simps [simp] =
  write_text.simps [where v = "VBool b", simplified]
  write_text.simps [where v = "VInt it i", simplified]
  write_text.simps [where v = "VString str", simplified]
  write_text.simps [where v = "VBytes vec", simplified]
  write_text.simps [where v = "VUnit", simplified]
  write_text.simps [where v = "VPair x y", simplified]
  write_text.simps [where v = "VVector xs", simplified]
  write_text.simps [where v = "VSet xs", simplified]
  write_text.simps [where v = "VMap xs", simplified]
  write_text.simps [where v = "VNull", simplified]
  write_text.simps [where v = "VMsg name x", simplified]
  for b it i str vec x y xs name

lemmas doc_of_simps [simp] =
  doc_of.simps [where v = "VBool b", simplified]
  doc_of.simps [where v = "VInt it i", simplified]
  doc_of.simps [where v = "VString str", simplified]
  doc_of.simps [where v = "VBytes vec", simplified]
  doc_of.simps [where v = "VUnit", simplified]
  doc_of.simps [where v = "VPair x y", simplified]
  doc_of.simps [where v = "VVector xs", simplified]
  doc_of.simps [where v = "VSet xs", simplified]
  doc_of.simps [where v = "VMap xs", simplified]
  doc_of.simps [where v = "VNull", simplified]
  doc_of.simps [where v = "VMsg name x", simplified]
  for b it i str vec x y xs name

lemmas has_text_type_simps [simp] =
  has_text_type.simps [where v = "VBool b", simplified]
  has_text_type.simps [where v = "VInt it i", simplified]
  has_text_type.simps [where v = "VString str", simplified]
  has_text_type.simps [where v = "VBytes vec", simplified]
  has_text_type.simps [where v = "VUnit", simplified]
  has_text_type.simps [where v = "VPair x y", simplified]
  has_text_type.simps [where v = "VVector xs", simplified]
  has_text_type.simps [where v = "VSet xs", simplified]
  has_text_type.simps [where v = "VMap xs", simplified]
  has_text_type.simps [where v = "VNull", simplified]
  has_text_type.simps [where v = "VMsg name x", simplified]
  for b it i str vec x y xs name

lemmas write_fields_simps [simp] =
  write_fields.simps [where fs = "[]", simplified]
  write_fields.simps [where fs = "(name, t) # fs", simplified]
  for name t fs

lemmas doc_fields_simps [simp] =
  doc_fields.simps [where fs = "[]", simplified]
  doc_fields.simps [where fs = "(name, t) # fs", simplified]
  for name t fs

lemmas has_field_types_simps [simp] =
  has_field_types.simps [where fs = "[]", simplified]
  has_field_types.simps [where fs = "(name, t) # fs", simplified]
  for name t fs

lemma val_pair_case: "(case e of VPair k x \<Rightarrow> P k x | _ \<Rightarrow> False) \<longleftrightarrow> (\<exists>k x. e = VPair k x \<and> P k x)"
  by (cases e) auto

subsection \<open>Writing\<close>

locale text_output =
  fixes w :: "'w text_writer"
    and ok :: "'w \<Rightarrow> bool"
    and put :: "doc \<Rightarrow> 'w \<Rightarrow> 'w"
    and opened :: "(string \<times> doc) list \<Rightarrow> 'w \<Rightarrow> 'w"
  assumes round_trip: "tw_target w = MACHINE_ROUND_TRIP"
    and ok_opened: "ok m \<Longrightarrow> ok (opened ds m)"
    and set_text: "ok m \<Longrightarrow> tw_SetStringValue w s m = Inr (put (DocText s) m)"
    and start: "ok m \<Longrightarrow> tw_StartStructure w m = Inr (opened [] m)"
    and item: "ok m \<Longrightarrow> \<exists>m1. tw_StartNamedItem w n (opened ds m) = Inr m1 \<and> ok m1
      \<and> (\<forall>d. tw_CompleteNamedItem w (put d m1) = Inr (opened (ds @ [(n, d)]) m))"
    and complete: "ok m \<Longrightarrow> tw_CompleteStructure w (opened ds m) = Inr (put (DocItems ds) m)"
begin

lemma named_item:
  assumes "ok m" "\<And>m. ok m \<Longrightarrow> f m = Inr (put d m)"
  shows "named_item w n f (opened ds m) = Inr (opened (ds @ [(n, d)]) m)"
  using item [OF assms(1), of n ds] assms(2) by (auto simp: named_item_def)

lemma named_string: "ok m \<Longrightarrow> AddNamedString w n s (opened ds m) = Inr (opened (ds @ [(n, DocText s)]) m)"
  unfolding AddNamedString_def by (rule named_item) (auto intro: set_text)

lemma in_structure:
  assumes "ok m" "f (opened [] m) = Inr (opened ds m)"
  shows "in_structure w f m = Inr (put (DocItems ds) m)"
  using assms by (simp add: in_structure_def start complete)

lemma named_items:
  assumes "ok m" "\<And>x m. x \<in> set xs \<Longrightarrow> ok m \<Longrightarrow> f x m = Inr (put (g x) m)"
  shows "fold_res (\<lambda>x. named_item w n (f x)) xs (opened ds m) = Inr (opened (ds @ map (\<lambda>x. (n, g x)) xs) m)"
  using assms
proof (induction xs arbitrary: ds)
  case (Cons x xs)
  then show ?case by (simp add: named_item [of m "f x" "g x"])
qed simp

lemma write_fields_ok:
  assumes "\<And>t x m. ok m \<Longrightarrow> size x < size v \<Longrightarrow> has_text_type pf lib t x \<Longrightarrow> write_text w lib t x m = Inr (put (doc_of lib t x) m)"
    and "has_field_types pf lib fs v" "ok m"
  shows "write_fields w lib fs v (opened ds m) = Inr (opened (ds @ doc_fields lib fs v) m)"
  using assms
proof (induction fs arbitrary: v ds)
  case Nil
  then show ?case by simp
next
  case (Cons f fs)
  obtain n t where f: "f = (n, t)"
    by fastforce
  obtain x y where v: "v = VPair x y" and x: "has_text_type pf lib t x" and y: "has_field_types pf lib fs y"
    using Cons.prems(2) f by (auto split: val.splits)
  have "write_fields w lib fs y (opened (ds @ [(n, doc_of lib t x)]) m)
      = Inr (opened ((ds @ [(n, doc_of lib t x)]) @ doc_fields lib fs y) m)"
    by (rule Cons.IH [OF _ y]) (use Cons.prems v in simp_all)
  then show ?case
    using f v Cons.prems(3) Cons.prems(1) [OF _ _ x] named_item [of _ "write_text w lib t x" "doc_of lib t x" n ds] by simp
qed

lemma write_text_ok:
  assumes "has_text_type pf lib t v" "ok m"
  shows "write_text w lib t v m = Inr (put (doc_of lib t v) m)"
  using assms
proof (induction "size v" arbitrary: v t m rule: less_induct)
  case less
  note IH = less.hyps
  have entries: "fold_res (\<lambda>x. named_item w ''entry'' (write_text w lib a x)) xs (opened ds m')
      = Inr (opened (ds @ map (\<lambda>x. (''entry'', doc_of lib a x)) xs) m')"
    if "\<forall>x \<in> set xs. has_text_type pf lib a x" "\<forall>x \<in> set xs. size x < size v" "ok m'" for a xs ds m'
    by (rule named_items [OF that(3)]) (use that IH in blast)
  have fields: "write_fields w lib fs v (opened [] m) = Inr (opened (doc_fields lib fs v) m)" if "has_field_types pf lib fs v" for fs
    using write_fields_ok [OF IH that less.prems(2), of "[]"] by simp
  show ?case
  proof (cases v)
    case VUnit
    then show ?thesis
      using less.prems fields by (auto intro!: in_structure split: tty.splits)
  next
    case (VPair x y)
    then show ?thesis
      using less.prems fields IH [of x] IH [of y] named_item [of _ "write_text w lib a x" "doc_of lib a x" "''first''" for a]
        named_item [of _ "write_text w lib a y" "doc_of lib a y" "''second''" for a]
      by (auto intro!: in_structure split: tty.splits)
  next
    case (VVector xs)
    have "\<forall>x \<in> set xs. size x < size v"
      using VVector by (auto dest: size_elem)
    then show ?thesis
      using less.prems VVector entries [of xs] by (auto intro!: in_structure simp: named_string size_item_def split: tty.splits)
  next
    case (VSet xs)
    have "\<forall>x \<in> set xs. size x < size v"
      using VSet by (auto dest: size_elem)
    then show ?thesis
      using less.prems VSet entries [of xs] by (auto intro!: in_structure simp: named_string size_item_def split: tty.splits)
  next
    case (VMap es)
    then obtain a b where t: "t = TMap a b" and es: "\<forall>e \<in> set es. \<exists>k x. e = VPair k x \<and> has_text_type pf lib a k \<and> has_text_type pf lib b x"
      using less.prems by (auto simp: val_pair_case split: tty.splits)
    have "fold_res (\<lambda>e. named_item w ''entry'' (in_structure w (\<lambda>m. case e of
               VPair k x \<Rightarrow> bind_res (named_item w ''key'' (write_text w lib a k) m) (named_item w ''value'' (write_text w lib b x))
             | _ \<Rightarrow> ill_typed))) es (opened ds m')
        = Inr (opened (ds @ map (\<lambda>e. (''entry'', case e of
             VPair k x \<Rightarrow> DocItems [(''key'', doc_of lib a k), (''value'', doc_of lib b x)] | _ \<Rightarrow> DocText [])) es) m')" if "ok m'" for ds m'
    proof (rule named_items [OF that])
      fix e m
      assume e: "e \<in> set es" and m: "ok m"
      then obtain k x where kx: "e = VPair k x" "has_text_type pf lib a k" "has_text_type pf lib b x"
        using es by blast
      have "size k < size v" "size x < size v"
        using e kx(1) VMap size_elem [OF e] by simp_all
      then show "in_structure w (\<lambda>m. case e of
               VPair k x \<Rightarrow> bind_res (named_item w ''key'' (write_text w lib a k) m) (named_item w ''value'' (write_text w lib b x))
             | _ \<Rightarrow> ill_typed) m
          = Inr (put (case e of VPair k x \<Rightarrow> DocItems [(''key'', doc_of lib a k), (''value'', doc_of lib b x)] | _ \<Rightarrow> DocText []) m)"
        using kx m IH named_item [of _ "write_text w lib a k" "doc_of lib a k" "''key''"]
          named_item [of _ "write_text w lib b x" "doc_of lib b x" "''value''"]
        by (auto intro!: in_structure)
    qed
    then show ?thesis
      using VMap t less.prems(2) by (auto intro!: in_structure simp: named_string size_item_def)
  next
    case (VMsg name x)
    then show ?thesis
      using less.prems IH [of x] named_item [of _ "write_text w lib a x" "doc_of lib a x" "''contents''" for a]
      by (auto intro!: in_structure simp: named_string split: option.splits tty.splits)
  qed (use less.prems in \<open>auto simp: set_text SetBinaryDataValue_def round_trip named_string intro!: in_structure\<close>)
qed

end

subsection \<open>Reading\<close>

text \<open>
  A null pointer leaves the variable that it is read into as it was: these variables must be null
  before.
\<close>

fun fresh :: "tty \<Rightarrow> val \<Rightarrow> bool"
  and fresh_fields :: "(string \<times> tty) list \<Rightarrow> val \<Rightarrow> bool" where
  "fresh (TStruct fs) old = fresh_fields fs old"
| "fresh (TPair a b) old = (fresh a (val_fst old) \<and> fresh b (val_snd old))"
| "fresh (TMsgPtr ty) old = (old = VNull)"
| "fresh _ old = True"
| "fresh_fields [] old = True"
| "fresh_fields ((name, t) # fs) old = (fresh t (val_fst old) \<and> fresh_fields fs (val_snd old))"

lemma fresh_null: "fresh t VNull" "fresh_fields fs VNull"
  by (induction t "VNull" and fs "VNull" rule: fresh_fresh_fields.induct) auto

text \<open>Parameters for the witnesses.\<close>

definition demo_text_params :: text_params where
  "demo_text_params = \<lparr>tx_platform = demo_platform, tx_init = \<lambda>_. VNull, tx_junk = 0\<rparr>"

lemma int_FromString_ToString:
  assumes "int_in_range it x"
  shows "int_FromString it (int_ToString it x) = Some x"
proof -
  have "int_bits it \<le> 64"
    by (cases it) simp_all
  note * = FromString_ToString [OF this, of x "nat x" True]
  have "FromString_signed (int_bits it) (ToString_signed (int_bits it) x) = Some x" if "int_signed it"
    using * that assms by (cases it) (simp_all add: fits_signed_def)
  moreover have "FromString_unsigned (int_bits it) (ToString_unsigned (nat x)) = Some (nat x) \<and> 0 \<le> x" if "\<not> int_signed it"
    using * that assms by (cases it) (auto simp: nat_less_iff)
  ultimately show ?thesis
    by (auto simp: int_FromString_def int_ToString_def)
qed

text \<open>
  \<open>reads d m m'\<close>: in the state \<open>m\<close> the current value is \<open>d\<close>, and \<open>m'\<close> is the state when it has been
  decoded; \<open>items ds m m'\<close> is the same inside a structure of which \<open>ds\<close> remains.
\<close>

locale text_input =
  fixes r :: "'m text_reader"
    and reads :: "doc \<Rightarrow> 'm \<Rightarrow> 'm \<Rightarrow> bool"
    and items :: "(string \<times> doc) list \<Rightarrow> 'm \<Rightarrow> 'm \<Rightarrow> bool"
  assumes read_string: "reads (DocText s) m m' \<Longrightarrow> tr_DecodeStringValue r m = Inr (s, m')"
    and read_structure: "reads (DocItems ds) m m' \<Longrightarrow> \<exists>m1. tr_StartStructure r m = Inr m1 \<and> items ds m1 m'"
    and structure_done: "items [] m m' \<Longrightarrow> tr_CompleteStructure r m = Inr m'"
    and read_item: "items ((n, d) # ds) m m' \<Longrightarrow> \<exists>m1 m2 m3. tr_StartNamedItem r n m = Inr m1 \<and> reads d m1 m2
      \<and> tr_CompleteNamedItem r m2 = Inr m3 \<and> items ds m3 m'"
    and no_error: "reads d m m' \<Longrightarrow> \<not> tr_HasError r m \<and> \<not> tr_HasError r m'" "items ds m m' \<Longrightarrow> \<not> tr_HasError r m"
begin

lemma decode_item:
  assumes "items ((n, d) # ds) m m'" "\<And>m1 m2. reads d m1 m2 \<Longrightarrow> f m1 = Inr (x, m2)"
  shows "\<exists>m3. decode_named r n f m = Inr (x, m3) \<and> items ds m3 m'"
  using read_item [OF assms(1)] assms(2) by (fastforce simp: decode_named_def)

lemma decode_string_item:
  "items ((n, DocText s) # ds) m m' \<Longrightarrow> \<exists>m3. decode_named r n (tr_DecodeStringValue r) m = Inr (s, m3) \<and> items ds m3 m'"
  by (erule decode_item) (rule read_string)

lemma decode_items:
  assumes "reads (DocItems ds) m m'" "\<And>m1. items ds m1 m' \<Longrightarrow> \<exists>m2. f m1 = Inr (x, m2) \<and> items [] m2 m'"
  shows "decode_structure r f m = Inr (x, m')"
  using read_structure [OF assms(1)] assms(2) structure_done by (fastforce simp: decode_structure_def)

lemma decode_parsed_ok:
  assumes "reads (DocText s) m m'" "parse s = Some x"
  shows "decode_parsed r parse err old m = Inr (x, m')"
  using assms read_string [OF assms(1)] no_error(1) [OF assms(1)] by (simp add: decode_parsed_def)

lemma decode_size:
  assumes "items (size_item xs # ds) m m'" "size_ok (tx_platform p) (length xs)"
  shows "\<exists>m1. DecodeNamedSizeT p r ''size'' m = Inr (length xs, m1) \<and> items ds m1 m'"
proof -
  have parsed: "FromString_unsigned 64 (ToString_unsigned (length xs)) = Some (length xs)"
    using FromString_ToString [of 64] assms(2) by (simp add: size_ok_def)
  have rd: "decode_parsed r (FromString_unsigned 64) (invalid_int U64) (tx_junk p) m1 = Inr (length xs, m2)"
    if "reads (DocText (ToString_unsigned (length xs))) m1 m2" for m1 m2
    by (rule decode_parsed_ok [where parse = "FromString_unsigned 64", OF that]) (rule parsed)
  obtain m1 where "decode_named r ''size'' (decode_parsed r (FromString_unsigned 64) (invalid_int U64) (tx_junk p)) m
      = Inr (length xs, m1)" "items ds m1 m'"
    using decode_item [OF assms(1) [unfolded size_item_def], of "decode_parsed r (FromString_unsigned 64) (invalid_int U64) (tx_junk p)"
        "length xs"] rd by (elim meta_impE exE conjE) (assumption | rule that)+
  then show ?thesis
    using assms no_error(2) by (auto simp: DecodeNamedSizeT_def size_ok_def)
qed

lemma decode_counted_ok:
  assumes "reads (DocItems (size_item xs # ds)) m m'" "size_ok (tx_platform p) (length xs)"
    and "\<And>m1. items ds m1 m' \<Longrightarrow> \<exists>m2. f (length xs) m1 = Inr (ys, m2) \<and> items [] m2 m'"
  shows "decode_counted p r f m = Inr (ys, m')"
  unfolding decode_counted_def
proof (rule decode_items [OF assms(1)])
  fix m1
  assume "items (size_item xs # ds) m1 m'"
  from decode_size [OF this assms(2)] obtain m2 where
    m2: "DecodeNamedSizeT p r ''size'' m1 = Inr (length xs, m2)" "items ds m2 m'"
    by blast
  from assms(3) [OF m2(2)] obtain m3 where "f (length xs) m2 = Inr (ys, m3)" "items [] m3 m'"
    by blast
  then show "\<exists>m2. bind_res (DecodeNamedSizeT p r ''size'' m1) (\<lambda>(size, m). f size m) = Inr (ys, m2) \<and> items [] m2 m'"
    using m2(1) by simp
qed

lemma decode_entries_ok:
  assumes "\<And>x m m'. x \<in> set xs \<Longrightarrow> reads (g x) m m' \<Longrightarrow> rd m = Inr (x, m')" "items (map (\<lambda>x. (''entry'', g x)) xs) m m'"
  shows "\<exists>m1. decode_entries (length xs) r rd m = Inr (xs, m1) \<and> items [] m1 m'"
  using assms
proof (induction xs arbitrary: m)
  case (Cons x xs)
  obtain m1 where m1: "decode_named r ''entry'' rd m = Inr (x, m1)" "items (map (\<lambda>x. (''entry'', g x)) xs) m1 m'"
    using decode_item [of "''entry''" "g x" "map (\<lambda>x. (''entry'', g x)) xs" m m' rd x] Cons.prems(1) [of x] Cons.prems(2)
    by auto
  obtain m2 where "decode_entries (length xs) r rd m1 = Inr (xs, m2)" "items [] m2 m'"
    using Cons.IH [OF _ m1(2)] Cons.prems(1) by auto
  then show ?case
    using m1(1) by simp
qed auto

lemma decode_set_entries_ok:
  assumes "\<And>x m m'. x \<in> set xs \<Longrightarrow> reads (g x) m m' \<Longrightarrow> rd m = Inr (x, m')" "items (map (\<lambda>x. (''entry'', g x)) xs) m m'"
    and "sorted_wrt val_less (acc @ xs)"
  shows "\<exists>m1. decode_set_entries (length xs) r rd acc m = Inr (acc @ xs, m1) \<and> items [] m1 m'"
  using assms
proof (induction xs arbitrary: m acc)
  case (Cons x xs)
  obtain m1 where m1: "decode_named r ''entry'' rd m = Inr (x, m1)" "items (map (\<lambda>x. (''entry'', g x)) xs) m1 m'"
    using decode_item [of "''entry''" "g x" "map (\<lambda>x. (''entry'', g x)) xs" m m' rd x] Cons.prems(1) [of x] Cons.prems(2)
    by auto
  have "set_insert x acc = (acc @ [x], True)"
    using Cons.prems(3) by (intro set_insert_last) (auto simp: sorted_wrt_append)
  moreover obtain m2 where "decode_set_entries (length xs) r rd (acc @ [x]) m1 = Inr ((acc @ [x]) @ xs, m2)" "items [] m2 m'"
    using Cons.IH [OF _ m1(2), of "acc @ [x]"] Cons.prems(1,3) by auto
  ultimately show ?case
    using m1(1) by simp
qed auto

lemma decode_map_entries_ok:
  assumes "\<And>e. e \<in> set es \<Longrightarrow> \<exists>k x. e = VPair k x \<and> (\<forall>m m'. reads (f k) m m' \<longrightarrow> rdk m = Inr (k, m'))
      \<and> (\<forall>m m'. reads (g x) m m' \<longrightarrow> rdv m = Inr (x, m'))"
    and "items (map (\<lambda>e. (''entry'', entry_doc f g e)) es) m m'"
    and "sorted_wrt (\<lambda>e f. val_less (entry_key e) (entry_key f)) (acc @ es)"
  shows "\<exists>m1. decode_map_entries (length es) r rdk rdv acc m = Inr (acc @ es, m1) \<and> items [] m1 m'"
  using assms
proof (induction es arbitrary: m acc)
  case (Cons e es)
  then obtain k x where e: "e = VPair k x" and rd: "\<And>m m'. reads (f k) m m' \<Longrightarrow> rdk m = Inr (k, m')"
      "\<And>m m'. reads (g x) m m' \<Longrightarrow> rdv m = Inr (x, m')"
    by (metis list.set_intros(1))
  have "decode_structure r (\<lambda>m. bind_res (decode_named r ''key'' rdk m) (\<lambda>(k, m).
         bind_res (decode_named r ''value'' rdv m) (\<lambda>(x, m). Inr ((k, x), m)))) m1 = Inr ((k, x), m2)"
    if "reads (entry_doc f g e) m1 m2" for m1 m2
  proof (rule decode_items)
    show "reads (DocItems [(''key'', f k), (''value'', g x)]) m1 m2"
      using that e by (simp add: entry_doc_def)
    fix m3
    assume "items [(''key'', f k), (''value'', g x)] m3 m2"
    then obtain m4 where "decode_named r ''key'' rdk m3 = Inr (k, m4)" "items [(''value'', g x)] m4 m2"
      using decode_item [of _ _ _ _ _ rdk, OF _ rd(1)] by blast
    moreover from this(2) obtain m5 where "decode_named r ''value'' rdv m4 = Inr (x, m5)" "items [] m5 m2"
      using decode_item [of _ _ _ _ _ rdv, OF _ rd(2)] by blast
    ultimately show "\<exists>m4. bind_res (decode_named r ''key'' rdk m3) (\<lambda>(k, m).
         bind_res (decode_named r ''value'' rdv m) (\<lambda>(x, m). Inr ((k, x), m))) = Inr ((k, x), m4) \<and> items [] m4 m2"
      by simp
  qed
  then have "\<exists>m1. decode_named r ''entry'' (decode_structure r (\<lambda>m. bind_res (decode_named r ''key'' rdk m) (\<lambda>(k, m).
         bind_res (decode_named r ''value'' rdv m) (\<lambda>(x, m). Inr ((k, x), m))))) m = Inr ((k, x), m1)
      \<and> items (map (\<lambda>e. (''entry'', entry_doc f g e)) es) m1 m'"
    by (intro decode_item [of _ "entry_doc f g e"]) (use Cons.prems(2) in simp_all)
  then obtain m1 where m1: "decode_named r ''entry'' (decode_structure r (\<lambda>m. bind_res (decode_named r ''key'' rdk m) (\<lambda>(k, m).
         bind_res (decode_named r ''value'' rdv m) (\<lambda>(x, m). Inr ((k, x), m))))) m = Inr ((k, x), m1)"
      "items (map (\<lambda>e. (''entry'', entry_doc f g e)) es) m1 m'"
    by (elim exE conjE)
  have "map_emplace k x acc = (acc @ [e], True)"
    unfolding e using Cons.prems(3) e by (intro map_emplace_last) (auto simp: sorted_wrt_append)
  moreover obtain m2 where "decode_map_entries (length es) r rdk rdv (acc @ [e]) m1 = Inr ((acc @ [e]) @ es, m2)" "items [] m2 m'"
    using Cons.IH [OF _ m1(2), of "acc @ [e]"] Cons.prems(1,3) by auto
  ultimately show ?case
    using m1 no_error(2) [OF m1(2)] by simp
qed auto

lemma read_fields_ok:
  assumes "\<And>t x old m m'. size x < size v \<Longrightarrow> has_text_type pf lib t x \<Longrightarrow> fresh t old \<Longrightarrow> msg_depth x \<le> fuel
      \<Longrightarrow> reads (doc_of lib t x) m m' \<Longrightarrow> read_text p r lib rm t old m = Inr (x, m')"
    and "has_field_types pf lib fs v" "fresh_fields fs old" "msg_depth v \<le> fuel" "items (doc_fields lib fs v) m m'"
  shows "\<exists>m1. read_fields p r lib rm fs old m = Inr (v, m1) \<and> items [] m1 m'"
  using assms
proof (induction fs arbitrary: v old m)
  case Nil
  then show ?case by simp
next
  case (Cons f fs)
  obtain n t where f: "f = (n, t)"
    by fastforce
  obtain x y where v: "v = VPair x y" and x: "has_text_type pf lib t x" and y: "has_field_types pf lib fs y"
    using Cons.prems(2) f by (auto split: val.splits)
  have "\<exists>m1. decode_named r n (read_text p r lib rm t (val_fst old)) m = Inr (x, m1) \<and> items (doc_fields lib fs y) m1 m'"
  proof (rule decode_item)
    show "items ((n, doc_of lib t x) # doc_fields lib fs y) m m'"
      using Cons.prems(5) f v by simp
    show "read_text p r lib rm t (val_fst old) m1 = Inr (x, m2)" if "reads (doc_of lib t x) m1 m2" for m1 m2
      by (rule Cons.prems(1) [OF _ x _ _ that]) (use Cons.prems(3,4) f v in simp_all)
  qed
  then obtain m1 where m1: "decode_named r n (read_text p r lib rm t (val_fst old)) m = Inr (x, m1)" "items (doc_fields lib fs y) m1 m'"
    by (elim exE conjE)
  have "\<exists>m2. read_fields p r lib rm fs (val_snd old) m1 = Inr (y, m2) \<and> items [] m2 m'"
    by (rule Cons.IH [OF _ y _ _ m1(2)]) (use Cons.prems v f in auto)
  then show ?case
    using f v m1(1) by auto
qed

lemma DecodeBinaryDataValue_ok: "reads (DocText (Base64_Encode vec)) m m' \<Longrightarrow> DecodeBinaryDataValue r m = Inr (vec, m')"
  using read_string [of "Base64_Encode vec" m m'] no_error(1) [of _ m m'] Decode_groups [of vec "[]"]
  by (simp add: DecodeBinaryDataValue_def Base64_Encode_groups padding_ok_def)

text \<open>
  Reading the document of a value gives the value back; \<open>msg_depth\<close> levels of messages are
  enough fuel.
\<close>

lemma DecodeMsgAnyPtr_null: "reads (DocItems [(''type'', DocText ''nullptr'')]) m m'
    \<Longrightarrow> DecodeMsgAnyPtr (Suc fuel) p r lib m = Inr (VNull, m')"
  unfolding DecodeMsgAnyPtr.simps
proof (rule decode_items)
  fix m1
  assume "items [(''type'', DocText ''nullptr'')] m1 m'"
  from decode_string_item [OF this]
  show "\<exists>m2. bind_res (decode_named r ''type'' (tr_DecodeStringValue r) m1) (\<lambda>(type_name, m).
         if type_name = ''nullptr'' then Inr (VNull, m)
         else case lib type_name of
             None \<Rightarrow> Inr (VNull, tr_SetError r (Format ''Unknown MsgType \"%s\"'' [ArgStr type_name]) m)
           | Some c \<Rightarrow>
               bind_res (decode_named r ''contents'' (read_text p r lib (DecodeMsgAnyPtr fuel p r lib) c (tx_init p c)) m)
                 (\<lambda>(x, m). Inr (VMsg (bytes_of type_name) x, m))) = Inr (VNull, m2) \<and> items [] m2 m'"
    by auto
qed

lemma DecodeMsgAnyPtr_msg:
  assumes "reads (DocItems [(''type'', DocText (chars_of name)), (''contents'', d)]) m m'"
    and "chars_of name \<noteq> ''nullptr''" "lib (chars_of name) = Some c"
    and "\<And>m1 m2. reads d m1 m2 \<Longrightarrow> read_text p r lib (DecodeMsgAnyPtr fuel p r lib) c (tx_init p c) m1 = Inr (x, m2)"
  shows "DecodeMsgAnyPtr (Suc fuel) p r lib m = Inr (VMsg name x, m')"
  unfolding DecodeMsgAnyPtr.simps
proof (rule decode_items [OF assms(1)])
  fix m1
  assume "items [(''type'', DocText (chars_of name)), (''contents'', d)] m1 m'"
  from decode_string_item [OF this]
  obtain m2 where m2: "decode_named r ''type'' (tr_DecodeStringValue r) m1 = Inr (chars_of name, m2)" "items [(''contents'', d)] m2 m'"
    by blast
  from decode_item [where f = "read_text p r lib (DecodeMsgAnyPtr fuel p r lib) c (tx_init p c)", OF m2(2) assms(4)]
  obtain m3 where m3: "decode_named r ''contents'' (read_text p r lib (DecodeMsgAnyPtr fuel p r lib) c (tx_init p c)) m2 = Inr (x, m3)"
      "items [] m3 m'"
    by auto
  show "\<exists>m2. bind_res (decode_named r ''type'' (tr_DecodeStringValue r) m1) (\<lambda>(type_name, m).
         if type_name = ''nullptr'' then Inr (VNull, m)
         else case lib type_name of
             None \<Rightarrow> Inr (VNull, tr_SetError r (Format ''Unknown MsgType \"%s\"'' [ArgStr type_name]) m)
           | Some c \<Rightarrow>
               bind_res (decode_named r ''contents'' (read_text p r lib (DecodeMsgAnyPtr fuel p r lib) c (tx_init p c)) m)
                 (\<lambda>(x, m). Inr (VMsg (bytes_of type_name) x, m))) = Inr (VMsg name x, m2) \<and> items [] m2 m'"
    using m2(1) m3 assms(2,3) by simp
qed

lemma read_text_ok:
  assumes "\<And>t. fresh t (tx_init p t)"
    and "has_text_type (tx_platform p) lib t v" "fresh t old" "msg_depth v \<le> fuel" "reads (doc_of lib t v) m m'"
  shows "read_text p r lib (DecodeMsgAnyPtr fuel p r lib) t old m = Inr (v, m')"
  using assms(2-)
proof (induction "size v" arbitrary: v t old fuel m m' rule: less_induct)
  case less
  have IH: "read_text p r lib (DecodeMsgAnyPtr fuel p r lib) a old m = Inr (x, m')"
    if "size x < size v" "has_text_type (tx_platform p) lib a x" "fresh a old" "msg_depth x \<le> fuel" "reads (doc_of lib a x) m m'"
    for x a old m m' fuel
    by (rule less.hyps) (fact that)+
  have elems: "size x < size v" "msg_depth x \<le> fuel" if "x \<in> set xs" "v = VVector xs \<or> v = VSet xs \<or> v = VMap xs" for x xs
    using that less.prems(3) fold_max_ge [of "msg_depth x" "map msg_depth xs" 0] by (auto dest: size_elem)
  have fields: "decode_structure r (read_fields p r lib (DecodeMsgAnyPtr fuel p r lib) fs old) m = Inr (v, m')"
    if "t = TStruct fs" "has_field_types (tx_platform p) lib fs v" "doc_of lib t v = DocItems (doc_fields lib fs v)" for fs
    by (rule decode_items [of "doc_fields lib fs v"], use less.prems that in simp)
      (rule read_fields_ok [OF IH that(2)]; use less.prems that in simp)
  show ?case
  proof (cases v)
    case (VBool b)
    then show ?thesis
      using less.prems decode_parsed_ok [of "ToString_bool b" m m' FromString_bool b] FromString_ToString [of 0 0 0 b] by simp
  next
    case (VInt it x)
    then show ?thesis
      using less.prems decode_parsed_ok [of _ m m' "int_FromString it" x] int_FromString_ToString by simp
  next
    case (VString str)
    then show ?thesis
      using less.prems read_string by simp
  next
    case (VBytes vec)
    then show ?thesis
      using less.prems DecodeBinaryDataValue_ok by simp
  next
    case VUnit
    then show ?thesis
      using less.prems fields by (auto split: tty.splits)
  next
    case (VPair x y)
    show ?thesis
    proof (cases t)
      case (TPair a b)
      have ty: "has_text_type (tx_platform p) lib a x" "has_text_type (tx_platform p) lib b y"
        using less.prems(1) VPair TPair by simp_all
      have "decode_structure r (\<lambda>m.
          bind_res (decode_named r ''first'' (read_text p r lib (DecodeMsgAnyPtr fuel p r lib) a (val_fst old)) m) (\<lambda>(x, m).
          bind_res (decode_named r ''second'' (read_text p r lib (DecodeMsgAnyPtr fuel p r lib) b (val_snd old)) m)
            (\<lambda>(y, m). Inr (VPair x y, m)))) m = Inr (VPair x y, m')"
      proof (rule decode_items)
        show "reads (DocItems [(''first'', doc_of lib a x), (''second'', doc_of lib b y)]) m m'"
          using less.prems(4) VPair TPair by simp
        fix m1
        assume i: "items [(''first'', doc_of lib a x), (''second'', doc_of lib b y)] m1 m'"
        have x: "read_text p r lib (DecodeMsgAnyPtr fuel p r lib) a (val_fst old) m2 = Inr (x, m3)"
          if "reads (doc_of lib a x) m2 m3" for m2 m3
          by (rule IH [OF _ ty(1) _ _ that]) (use less.prems VPair TPair in simp_all)
        have y: "read_text p r lib (DecodeMsgAnyPtr fuel p r lib) b (val_snd old) m2 = Inr (y, m3)"
          if "reads (doc_of lib b y) m2 m3" for m2 m3
          by (rule IH [OF _ ty(2) _ _ that]) (use less.prems VPair TPair in simp_all)
        obtain m2 where m2: "decode_named r ''first'' (read_text p r lib (DecodeMsgAnyPtr fuel p r lib) a (val_fst old)) m1 = Inr (x, m2)"
            "items [(''second'', doc_of lib b y)] m2 m'"
          using decode_item [where f = "read_text p r lib (DecodeMsgAnyPtr fuel p r lib) a (val_fst old)", OF i x] by auto
        then show "\<exists>m2. bind_res (decode_named r ''first'' (read_text p r lib (DecodeMsgAnyPtr fuel p r lib) a (val_fst old)) m1) (\<lambda>(x, m).
            bind_res (decode_named r ''second'' (read_text p r lib (DecodeMsgAnyPtr fuel p r lib) b (val_snd old)) m)
              (\<lambda>(y, m). Inr (VPair x y, m))) = Inr (VPair x y, m2) \<and> items [] m2 m'"
          using decode_item [where f = "read_text p r lib (DecodeMsgAnyPtr fuel p r lib) b (val_snd old)", OF m2(2) y] by auto
      qed
      then show ?thesis
        using VPair TPair by simp
    qed (use less.prems VPair fields in auto)
  next
    case (VVector xs)
    then obtain a where t: "t = TVector a"
      and ty: "size_ok (tx_platform p) (length xs)" "length xs \<le> pf_vector_max (tx_platform p)"
        "\<forall>x \<in> set xs. has_text_type (tx_platform p) lib a x"
      using less.prems by (auto split: tty.splits)
    have "\<exists>m2. decode_entries (length xs) r (read_text p r lib (DecodeMsgAnyPtr fuel p r lib) a (tx_init p a)) m1 = Inr (xs, m2)
        \<and> items [] m2 m'" if "items (map (\<lambda>x. (''entry'', doc_of lib a x)) xs) m1 m'" for m1
      by (rule decode_entries_ok [OF _ that]) (rule IH; use elems VVector ty assms(1) in auto)
    then have "decode_counted p r (\<lambda>size m. if size > pf_vector_max (tx_platform p) then Inl LengthError
         else decode_entries size r (read_text p r lib (DecodeMsgAnyPtr fuel p r lib) a (tx_init p a)) m) m = Inr (xs, m')"
      using less.prems(4) VVector t ty by (intro decode_counted_ok) auto
    then show ?thesis
      using VVector t by simp
  next
    case (VSet xs)
    then obtain a where t: "t = TSet a"
      and ty: "size_ok (tx_platform p) (length xs)" "sorted_wrt val_less xs"
        "\<forall>x \<in> set xs. has_text_type (tx_platform p) lib a x"
      using less.prems by (auto split: tty.splits)
    have "\<exists>m2. decode_set_entries (length xs) r (read_text p r lib (DecodeMsgAnyPtr fuel p r lib) a (tx_init p a)) [] m1
        = Inr ([] @ xs, m2) \<and> items [] m2 m'" if "items (map (\<lambda>x. (''entry'', doc_of lib a x)) xs) m1 m'" for m1
      by (rule decode_set_entries_ok [OF _ that]) ((rule IH; use elems VSet ty assms(1) in auto), use ty in simp)
    then have "decode_counted p r (\<lambda>size m.
         decode_set_entries size r (read_text p r lib (DecodeMsgAnyPtr fuel p r lib) a (tx_init p a)) [] m) m = Inr (xs, m')"
      using less.prems(4) VSet t ty by (intro decode_counted_ok) auto
    then show ?thesis
      using VSet t by simp
  next
    case (VMap es)
    then obtain a b where t: "t = TMap a b"
      and ty: "size_ok (tx_platform p) (length es)" "sorted_wrt (\<lambda>e f. val_less (entry_key e) (entry_key f)) es"
        "\<forall>e \<in> set es. \<exists>k x. e = VPair k x \<and> has_text_type (tx_platform p) lib a k \<and> has_text_type (tx_platform p) lib b x"
      using less.prems by (auto simp: val_pair_case split: tty.splits)
    have "\<exists>m2. decode_map_entries (length es) r (read_text p r lib (DecodeMsgAnyPtr fuel p r lib) a (tx_init p a))
        (read_text p r lib (DecodeMsgAnyPtr fuel p r lib) b (tx_init p b)) [] m1 = Inr ([] @ es, m2) \<and> items [] m2 m'"
      if "items (map (\<lambda>e. (''entry'', entry_doc (doc_of lib a) (doc_of lib b) e)) es) m1 m'" for m1
    proof (rule decode_map_entries_ok [OF _ that])
      fix e
      assume e: "e \<in> set es"
      then obtain k x where kx: "e = VPair k x" "has_text_type (tx_platform p) lib a k" "has_text_type (tx_platform p) lib b x"
        using ty by blast
      have "size k < size v" "msg_depth k \<le> fuel" "size x < size v" "msg_depth x \<le> fuel"
        using elems [OF e] VMap kx(1) by auto
      then show "\<exists>k x. e = VPair k x
          \<and> (\<forall>m m'. reads (doc_of lib a k) m m' \<longrightarrow> read_text p r lib (DecodeMsgAnyPtr fuel p r lib) a (tx_init p a) m = Inr (k, m'))
          \<and> (\<forall>m m'. reads (doc_of lib b x) m m' \<longrightarrow> read_text p r lib (DecodeMsgAnyPtr fuel p r lib) b (tx_init p b) m = Inr (x, m'))"
        using kx IH assms(1) by blast
    qed (use ty in simp)
    then have "decode_counted p r (\<lambda>size m. decode_map_entries size r (read_text p r lib (DecodeMsgAnyPtr fuel p r lib) a (tx_init p a))
        (read_text p r lib (DecodeMsgAnyPtr fuel p r lib) b (tx_init p b)) [] m) m = Inr (es, m')"
      using less.prems(4) VMap t ty by (intro decode_counted_ok) (auto simp: entry_doc_def)
    then show ?thesis
      using VMap t by simp
  next
    case VNull
    then obtain f where f: "fuel = Suc f"
      using less.prems(3) by (cases fuel) auto
    then show ?thesis
      using VNull less.prems DecodeMsgAnyPtr_null [of m m' f p lib]
      by (auto simp: decode_msg_ptr_def simp del: DecodeMsgAnyPtr.simps split: tty.splits)
  next
    case (VMsg name x)
    then obtain f where f: "fuel = Suc f" "msg_depth x \<le> f"
      using less.prems(3) by (cases fuel) auto
    obtain c where c: "lib (chars_of name) = Some c" "has_text_type (tx_platform p) lib c x" "chars_of name \<noteq> ''nullptr''"
      using VMsg less.prems(1) by (auto split: option.splits)
    have "read_text p r lib (DecodeMsgAnyPtr f p r lib) c (tx_init p c) m1 = Inr (x, m2)" if "reads (doc_of lib c x) m1 m2" for m1 m2
      by (rule IH [OF _ c(2) assms(1) f(2) that]) (use VMsg in simp)
    then have "DecodeMsgAnyPtr fuel p r lib m = Inr (VMsg name x, m')"
      unfolding f using less.prems(4) VMsg c by (intro DecodeMsgAnyPtr_msg [of _ "doc_of lib c x"]) auto
    then show ?thesis
      using VMsg less.prems(1,4) c no_error(1)
      by (auto simp: decode_msg_ptr_def simp del: DecodeMsgAnyPtr.simps split: tty.splits)
  qed
qed

end

subsection \<open>After an error\<close>

text \<open>Once an error is set a reader's operations do nothing, and so does all decoding.\<close>

locale text_errors =
  fixes r :: "'m text_reader"
  assumes set_again: "tr_HasError r m \<Longrightarrow> tr_SetError r e m = m"
    and start_item: "tr_HasError r m \<Longrightarrow> tr_StartNamedItem r n m = Inr m"
    and complete_item: "tr_HasError r m \<Longrightarrow> tr_CompleteNamedItem r m = Inr m"
    and start_structure: "tr_HasError r m \<Longrightarrow> tr_StartStructure r m = Inr m"
    and complete_structure: "tr_HasError r m \<Longrightarrow> tr_CompleteStructure r m = Inr m"
    and decode_string: "tr_HasError r m \<Longrightarrow> tr_DecodeStringValue r m = Inr ([], m)"
begin

definition skips :: "('a, 'm) decoder \<Rightarrow> bool" where
  "skips f \<longleftrightarrow> (\<forall>m. tr_HasError r m \<longrightarrow> (\<exists>x. f m = Inr (x, m)))"

lemma skipsD: "skips f \<Longrightarrow> tr_HasError r m \<Longrightarrow> \<exists>x. f m = Inr (x, m)"
  by (simp add: skips_def)

lemma skips_named: "skips f \<Longrightarrow> skips (decode_named r n f)"
  using start_item complete_item by (fastforce simp: skips_def decode_named_def)

lemma skips_structure: "skips f \<Longrightarrow> skips (decode_structure r f)"
  using start_structure complete_structure by (fastforce simp: skips_def decode_structure_def)

lemma skips_bind: "skips f \<Longrightarrow> (\<And>x. skips (g x)) \<Longrightarrow> skips (\<lambda>m. bind_res (f m) (\<lambda>(x, m). g x m))"
  by (fastforce simp: skips_def)

lemma skips_return: "skips (\<lambda>m. Inr (x, m))"
  by (simp add: skips_def)

lemma skips_counted:
  assumes "skips (f 0)"
  shows "skips (decode_counted p r f)"
  unfolding decode_counted_def
  by (rule skips_structure) (use assms in \<open>auto simp: skips_def DecodeNamedSizeT_def\<close>)

lemma skips_read_fields:
  assumes "\<And>n t old. (n, t) \<in> set fs \<Longrightarrow> skips (read_text p r lib rm t old)"
  shows "skips (read_fields p r lib rm fs old)"
  using assms
proof (induction fs arbitrary: old)
  case Nil
  then show ?case
    by (simp add: skips_def)
next
  case (Cons f fs)
  obtain n t where f: "f = (n, t)"
    by fastforce
  have "skips (decode_named r n (read_text p r lib rm t (val_fst old)))"
    using Cons.prems f by (intro skips_named) auto
  moreover have "skips (read_fields p r lib rm fs (val_snd old))"
    by (rule Cons.IH) (use Cons.prems in auto)
  ultimately show ?case
    unfolding f by (simp add: skips_def) fastforce
qed

lemma skips_read_text: "skips rm \<Longrightarrow> skips (read_text p r lib rm t old)"
proof (induction t arbitrary: old)
  case (TStruct fs)
  then have "skips (read_fields p r lib rm fs old)"
    by (intro skips_read_fields) fastforce
  then show ?case
    using skips_structure by (simp add: skips_def)
next
  case (TPair a b)
  have "skips (decode_structure r (\<lambda>m.
       bind_res (decode_named r ''first'' (read_text p r lib rm a (val_fst old)) m) (\<lambda>(x, m).
       bind_res (decode_named r ''second'' (read_text p r lib rm b (val_snd old)) m) (\<lambda>(y, m). Inr (VPair x y, m)))))"
    by (intro skips_structure skips_bind skips_named skips_return TPair)
  then show ?case
    by (simp add: skips_def)
next
  case (TVector a)
  have "skips (decode_counted p r (\<lambda>size m. if size > pf_vector_max (tx_platform p) then Inl LengthError
         else decode_entries size r (read_text p r lib rm a (tx_init p a)) m))"
    by (rule skips_counted) (simp add: skips_def)
  then show ?case
    by (fastforce simp: skips_def)
next
  case (TSet a)
  have "skips (decode_counted p r (\<lambda>size m. decode_set_entries size r (read_text p r lib rm a (tx_init p a)) [] m))"
    by (rule skips_counted) (simp add: skips_def)
  then show ?case
    by (fastforce simp: skips_def)
next
  case (TMap a b)
  have "skips (decode_counted p r (\<lambda>size m.
         decode_map_entries size r (read_text p r lib rm a (tx_init p a)) (read_text p r lib rm b (tx_init p b)) [] m))"
    by (rule skips_counted) (simp add: skips_def)
  then show ?case
    by (fastforce simp: skips_def)
next
  case (TMsgPtr ty)
  then show ?case
    by (fastforce simp: skips_def decode_msg_ptr_def)
qed (auto simp: skips_def decode_parsed_def DecodeBinaryDataValue_def decode_string)

lemma skips_DecodeMsgAnyPtr:
  assumes "lib [] = None"
  shows "skips (DecodeMsgAnyPtr (Suc fuel) p r lib)"
proof -
  have "skips (\<lambda>m. bind_res (decode_named r ''type'' (tr_DecodeStringValue r) m) (\<lambda>(type_name, m).
         if type_name = ''nullptr'' then Inr (VNull, m)
         else case lib type_name of
             None \<Rightarrow> Inr (VNull, tr_SetError r (Format ''Unknown MsgType \"%s\"'' [ArgStr type_name]) m)
           | Some c \<Rightarrow>
               bind_res (decode_named r ''contents'' (read_text p r lib (DecodeMsgAnyPtr fuel p r lib) c (tx_init p c)) m)
                 (\<lambda>(x, m). Inr (VMsg (bytes_of type_name) x, m))))"
    unfolding skips_def
  proof (intro allI impI)
    fix m
    assume err: "tr_HasError r m"
    have "decode_named r ''type'' (tr_DecodeStringValue r) m = Inr ([], m)"
      using err by (simp add: decode_named_def start_item decode_string complete_item)
    then show "\<exists>x. bind_res (decode_named r ''type'' (tr_DecodeStringValue r) m) (\<lambda>(type_name, m).
         if type_name = ''nullptr'' then Inr (VNull, m)
         else case lib type_name of
             None \<Rightarrow> Inr (VNull, tr_SetError r (Format ''Unknown MsgType \"%s\"'' [ArgStr type_name]) m)
           | Some c \<Rightarrow>
               bind_res (decode_named r ''contents'' (read_text p r lib (DecodeMsgAnyPtr fuel p r lib) c (tx_init p c)) m)
                 (\<lambda>(x, m). Inr (VMsg (bytes_of type_name) x, m))) = Inr (x, m)"
      using err assms by (simp add: set_again)
  qed
  then show ?thesis
    unfolding DecodeMsgAnyPtr.simps by (rule skips_structure)
qed

end

end
