(* ===== verification/Json.thy ===== *)
theory Json
  imports TextDocument
begin

section \<open>JSON\<close>

text \<open>
  \<open>BBoxEnc/bbox/enc/ToJson\<close> and \<open>FromJson\<close>. The encoder writes text; the decoder takes the tree that
  the JSON library's parser made apart, erasing each member that it has decoded. The parser
  (\<open>ThirdParty/json\<close>) is a parameter, and so is what it keeps of a text: its objects are maps.
\<close>

subsection \<open>Writing\<close>

record to_json =
  jw_target :: e_target
  jw_stream :: string
  jw_first_in_structure :: "bool list"

definition ToJson :: "e_target \<Rightarrow> to_json" where
  "ToJson target = \<lparr> jw_target = target, jw_stream = [], jw_first_in_structure = [] \<rparr>"

definition jw_write :: "string \<Rightarrow> to_json \<Rightarrow> to_json" where
  "jw_write str m = m\<lparr> jw_stream := jw_stream m @ str \<rparr>"

definition ToJson_StartNamedItem :: "string \<Rightarrow> to_json \<Rightarrow> to_json res" where
  "ToJson_StartNamedItem name m =
     (let m = (case jw_first_in_structure m of
              [] \<Rightarrow> m
            | back # firsts \<Rightarrow>
                if back then m\<lparr> jw_first_in_structure := False # firsts \<rparr>
                else jw_write (if jw_target m = HUMAN_DEBUGGING then '', '' else '','') m)
      in Inr (jw_write (if jw_target m = HUMAN_DEBUGGING then name @ '':'' else [CHR 0x22] @ name @ [CHR 0x22] @ '':'') m))"

definition ToJson_CompleteNamedItem :: "to_json \<Rightarrow> to_json res" where
  "ToJson_CompleteNamedItem m = Inr m"

definition ToJson_StartStructure :: "to_json \<Rightarrow> to_json res" where
  "ToJson_StartStructure m = Inr (jw_write ''{'' (m\<lparr> jw_first_in_structure := True # jw_first_in_structure m \<rparr>))"

definition ToJson_CompleteStructure :: "to_json \<Rightarrow> to_json res" where
  "ToJson_CompleteStructure m = Inr (jw_write ''}'' (m\<lparr> jw_first_in_structure := tl (jw_first_in_structure m) \<rparr>))"

text \<open>The comparisons are of a plain \<open>char\<close>, taken to be signed as on the x86 platforms (it is not on ARM Linux).\<close>

definition escape_char :: "char \<Rightarrow> string" where
  "escape_char ch =
     (if ch = CHR 0x5C then [CHR 0x5C, CHR 0x5C]
      else if ch = CHR 0x22 then [CHR 0x5C, CHR 0x22]
      else if ch = CHR 0x08 then [CHR 0x5C, CHR ''b'']
      else if ch = CHR 0x0C then [CHR 0x5C, CHR ''f'']
      else if ch = CHR 0x0A then [CHR 0x5C, CHR ''n'']
      else if ch = CHR 0x0D then [CHR 0x5C, CHR ''r'']
      else if ch = CHR 0x09 then [CHR 0x5C, CHR ''t'']
      else if signed_char ch < signed_char (CHR '' '') \<or> signed_char ch > signed_char (CHR ''~'')
        then Format (CHR 0x5C # ''u00%02X'') [ArgChar ch]
      else [ch])"

definition EscapeString :: "string \<Rightarrow> string" where
  "EscapeString val = concat (map escape_char val)"

definition ToJson_SetStringValue :: "string \<Rightarrow> to_json \<Rightarrow> to_json res" where
  "ToJson_SetStringValue canonical m = Inr (jw_write ([CHR 0x22] @ EscapeString canonical @ [CHR 0x22]) m)"

definition ToJson_writer :: "e_target \<Rightarrow> to_json text_writer" where
  "ToJson_writer target =
     \<lparr> tw_target = target, tw_StartNamedItem = ToJson_StartNamedItem, tw_CompleteNamedItem = ToJson_CompleteNamedItem,
       tw_StartStructure = ToJson_StartStructure, tw_CompleteStructure = ToJson_CompleteStructure,
       tw_SetStringValue = ToJson_SetStringValue \<rparr>"

definition ConvertToJson :: "text_lib \<Rightarrow> tty \<Rightarrow> val \<Rightarrow> string res" where
  "ConvertToJson lib t v =
     bind_res (write_text (ToJson_writer MACHINE_ROUND_TRIP) lib t v (ToJson MACHINE_ROUND_TRIP)) (\<lambda>m. Inr (jw_stream m))"

definition ToDebugString :: "text_lib \<Rightarrow> tty \<Rightarrow> val \<Rightarrow> string res" where
  "ToDebugString lib t v =
     bind_res (write_text (ToJson_writer HUMAN_DEBUGGING) lib t v (ToJson HUMAN_DEBUGGING)) (\<lambda>m. Inr (jw_stream m))"

subsection \<open>The document of a value in JSON\<close>

fun json_doc :: "doc \<Rightarrow> string"
  and json_items :: "bool \<Rightarrow> (string \<times> doc) list \<Rightarrow> string" where
  "json_doc (DocText s) = [CHR 0x22] @ EscapeString s @ [CHR 0x22]"
| "json_doc (DocItems ds) = ''{'' @ json_items True ds @ ''}''"
| "json_items first [] = []"
| "json_items first ((n, d) # ds) = (if first then [] else '','') @ [CHR 0x22] @ n @ [CHR 0x22] @ '':'' @ json_doc d @ json_items False ds"

definition jw_put :: "doc \<Rightarrow> to_json \<Rightarrow> to_json" where
  "jw_put d = jw_write (json_doc d)"

definition jw_opened :: "(string \<times> doc) list \<Rightarrow> to_json \<Rightarrow> to_json" where
  "jw_opened ds m = jw_write (''{'' @ json_items True ds) (m\<lparr> jw_first_in_structure := (ds = []) # jw_first_in_structure m \<rparr>)"

definition jw_ok :: "to_json \<Rightarrow> bool" where
  "jw_ok m \<longleftrightarrow> jw_target m = MACHINE_ROUND_TRIP"

lemma json_items_append: "json_items first (ds @ [(n, d)]) = json_items first ds
    @ (if first \<and> ds = [] then [] else '','') @ [CHR 0x22] @ n @ [CHR 0x22] @ '':'' @ json_doc d"
  by (induction ds arbitrary: first) auto

interpretation jo: text_output "ToJson_writer MACHINE_ROUND_TRIP" jw_ok jw_put jw_opened
proof
  fix n ds m
  assume "jw_ok m"
  then show "\<exists>m1. tw_StartNamedItem (ToJson_writer MACHINE_ROUND_TRIP) n (jw_opened ds m) = Inr m1 \<and> jw_ok m1
      \<and> (\<forall>d. tw_CompleteNamedItem (ToJson_writer MACHINE_ROUND_TRIP) (jw_put d m1) = Inr (jw_opened (ds @ [(n, d)]) m))"
    by (auto simp: ToJson_writer_def ToJson_StartNamedItem_def ToJson_CompleteNamedItem_def jw_opened_def jw_put_def jw_write_def
        jw_ok_def json_items_append Let_def)
qed (simp_all add: ToJson_writer_def ToJson_SetStringValue_def ToJson_StartStructure_def ToJson_CompleteStructure_def
    jw_opened_def jw_put_def jw_write_def jw_ok_def)

subsection \<open>The tree\<close>

text \<open>
  A value of the JSON library. An object is a map; its members are in the order of their names. The
  decoder does not look into the other kinds.
\<close>

datatype json = JString string | JObject "(string \<times> json) list" | JOther

definition json_find :: "string \<Rightarrow> json \<Rightarrow> json option" where
  "json_find name j = (case j of JObject ms \<Rightarrow> map_of ms name | _ \<Rightarrow> None)"

definition json_erase :: "string \<Rightarrow> json \<Rightarrow> json" where
  "json_erase name j = (case j of JObject ms \<Rightarrow> JObject (filter (\<lambda>m. fst m \<noteq> name) ms) | j \<Rightarrow> j)"

text \<open>
  A pointer into the tree is the names from the top to the value; a value that a pointer on the stack
  points to is not erased.
\<close>

fun json_at :: "string list \<Rightarrow> json \<Rightarrow> json" where
  "json_at [] j = j"
| "json_at (name # path) j = (case json_find name j of None \<Rightarrow> JOther | Some j \<Rightarrow> json_at path j)"

fun change_member :: "string \<Rightarrow> (json \<Rightarrow> json) \<Rightarrow> (string \<times> json) list \<Rightarrow> (string \<times> json) list" where
  "change_member name f [] = []"
| "change_member name f ((n, j) # ms) = (if n = name then (n, f j) # ms else (n, j) # change_member name f ms)"

fun json_update :: "string list \<Rightarrow> (json \<Rightarrow> json) \<Rightarrow> json \<Rightarrow> json" where
  "json_update [] f j = f j"
| "json_update (name # path) f j = (case j of JObject ms \<Rightarrow> JObject (change_member name (json_update path f) ms) | j \<Rightarrow> j)"

subsection \<open>Reading\<close>

record stack_entry =
  je_is_value :: bool
  je_value_ptr :: "string list"
  je_name_in_parent :: string
  je_value_decoded :: bool

record from_json =
  jr_top_value :: json
  jr_stack :: "stack_entry list"
  jr_error :: "string option"

definition FromJson_SetError :: "string \<Rightarrow> from_json \<Rightarrow> from_json" where
  "FromJson_SetError error_str m = (if jr_error m = None then m\<lparr> jr_error := Some error_str \<rparr> else m)"

definition FromJson_HasError :: "from_json \<Rightarrow> bool" where
  "FromJson_HasError m \<longleftrightarrow> jr_error m \<noteq> None"

definition json_is_object :: "json \<Rightarrow> bool" where
  "json_is_object j = (case j of JObject _ \<Rightarrow> True | _ \<Rightarrow> False)"

definition json_is_string :: "json \<Rightarrow> bool" where
  "json_is_string j = (case j of JString _ \<Rightarrow> True | _ \<Rightarrow> False)"

definition unsupported_json :: string where
  "unsupported_json = ''JSON value must only consist of strings and objects - arrays, numbers, booleans and null are not supported''"

definition FromJson :: "(string \<Rightarrow> string + json) \<Rightarrow> string \<Rightarrow> from_json" where
  "FromJson parse json_str =
     (let m = \<lparr> jr_top_value = JOther, jr_stack = [], jr_error = None \<rparr> in
      case parse json_str of
        Inl what \<Rightarrow> FromJson_SetError (Format ''Could not decode JSON: %s'' [ArgStr what]) m
      | Inr top_value \<Rightarrow>
          (let m = m\<lparr> jr_top_value := top_value \<rparr> in
           if \<not> json_is_object top_value \<and> \<not> json_is_string top_value then FromJson_SetError unsupported_json m
           else m\<lparr> jr_stack := [\<lparr> je_is_value = True, je_value_ptr = [], je_name_in_parent = [], je_value_decoded = False \<rparr>] \<rparr>))"

definition je_value :: "from_json \<Rightarrow> stack_entry \<Rightarrow> json" where
  "je_value m e = json_at (je_value_ptr e) (jr_top_value m)"

definition FromJson_EstimateNumNamedItemsInStructure :: "from_json \<Rightarrow> (nat \<times> from_json) res" where
  "FromJson_EstimateNumNamedItemsInStructure m =
     (if FromJson_HasError m then Inr (0, m)
      else case jr_stack m of
          [] \<Rightarrow> Inl OutOfBounds
        | back # _ \<Rightarrow>
            if je_is_value back then
              Inr (0, FromJson_SetError ''EstimateNumNamedItemsInStructure called inside value - must only be called inside structure'' m)
            else Inr (case je_value m back of JObject ms \<Rightarrow> length ms | _ \<Rightarrow> 1, m))"

definition FromJson_HasNextNamedItem :: "string \<Rightarrow> from_json \<Rightarrow> (bool \<times> from_json) res" where
  "FromJson_HasNextNamedItem name m =
     (if FromJson_HasError m then Inr (False, m)
      else case jr_stack m of
          [] \<Rightarrow> Inl OutOfBounds
        | back # _ \<Rightarrow>
            if je_is_value back then
              Inr (False, FromJson_SetError ''HasNextNamedItem called inside value - must only be called inside structure'' m)
            else Inr (json_find name (je_value m back) \<noteq> None, m))"

definition FromJson_StartNamedItem :: "string \<Rightarrow> from_json \<Rightarrow> from_json res" where
  "FromJson_StartNamedItem name m =
     (if FromJson_HasError m then Inr m
      else case jr_stack m of
          [] \<Rightarrow> Inl OutOfBounds
        | back # _ \<Rightarrow>
            if je_is_value back then
              Inr (FromJson_SetError ''StartNamedItem called inside value - must only be called inside structure'' m)
            else (case json_find name (je_value m back) of
                None \<Rightarrow> Inr (FromJson_SetError (Format ''No such named item \"%s\"'' [ArgStr name]) m)
              | Some value \<Rightarrow>
                  (let m = m\<lparr> jr_stack := back\<lparr> je_is_value := True, je_value_ptr := je_value_ptr back @ [name], je_name_in_parent := name \<rparr>
                         # jr_stack m \<rparr>
                   in if \<not> json_is_object value \<and> \<not> json_is_string value then Inr (FromJson_SetError unsupported_json m) else Inr m)))"

definition FromJson_CompleteNamedItem :: "from_json \<Rightarrow> from_json res" where
  "FromJson_CompleteNamedItem m =
     (if FromJson_HasError m then Inr m
      else case jr_stack m of
          [] \<Rightarrow> Inl OutOfBounds
        | back # rest \<Rightarrow>
            if \<not> je_is_value back then
              Inr (FromJson_SetError ''CompleteNamedItem called inside structure - must only be called inside value'' m)
            else (case rest of
                [] \<Rightarrow> Inr (FromJson_SetError ''CompleteNamedItem called too many times - already at top level'' m)
              | new_back # _ \<Rightarrow>
                  Inr (m\<lparr> jr_stack := rest,
                    jr_top_value := json_update (je_value_ptr new_back) (json_erase (je_name_in_parent back)) (jr_top_value m) \<rparr>)))"

definition FromJson_StartStructure :: "from_json \<Rightarrow> from_json res" where
  "FromJson_StartStructure m =
     (if FromJson_HasError m then Inr m
      else case jr_stack m of
          [] \<Rightarrow> Inl OutOfBounds
        | back # _ \<Rightarrow>
            if \<not> je_is_value back then
              Inr (FromJson_SetError ''StartStructure called inside structure - must only be called inside value'' m)
            else
              (let m = (if je_value_decoded back then FromJson_SetError
                     ''StartStructure called again after DecodeStringValue or StartStructure/.../CompleteStructure has already been called for this value'' m
                   else m)
               in if \<not> json_is_object (je_value m back) then
                    Inr (FromJson_SetError ''StartStructure called for JSON string value - expect JSON object value'' m)
                  else Inr (m\<lparr> jr_stack := back\<lparr> je_is_value := False \<rparr> # jr_stack m \<rparr>)))"

definition FromJson_CompleteStructure :: "from_json \<Rightarrow> from_json res" where
  "FromJson_CompleteStructure m =
     (if FromJson_HasError m then Inr m
      else case jr_stack m of
          [] \<Rightarrow> Inl OutOfBounds
        | back # rest \<Rightarrow>
            if je_is_value back then
              Inr (FromJson_SetError ''CompleteStructure called inside value - must only be called inside structure'' m)
            else (case je_value m back of
                JObject (member # _) \<Rightarrow>
                  Inr (FromJson_SetError (Format ''Un-decoded field \"%s\" remaining in structure'' [ArgStr (fst member)]) m)
              | _ \<Rightarrow> (case rest of
                    [] \<Rightarrow> Inl OutOfBounds
                  | new_back # rest \<Rightarrow> Inr (m\<lparr> jr_stack := new_back\<lparr> je_value_decoded := True \<rparr> # rest \<rparr>))))"

definition FromJson_DecodeStringValue :: "from_json \<Rightarrow> (string \<times> from_json) res" where
  "FromJson_DecodeStringValue m =
     (if FromJson_HasError m then Inr ([], m)
      else case jr_stack m of
          [] \<Rightarrow> Inl OutOfBounds
        | back # rest \<Rightarrow>
            if \<not> je_is_value back then
              Inr ([], FromJson_SetError ''DecodeStringValue call inside structure - must only be called inside value'' m)
            else if je_value_decoded back then
              Inr ([], FromJson_SetError
                ''DecodeStringValue called again after DecodeStringValue or StartStruction/.../CompleteStructure has already been called for this value'' m)
            else (case je_value m back of
                JString result \<Rightarrow> Inr (result, m\<lparr> jr_stack := back\<lparr> je_value_decoded := True \<rparr> # rest \<rparr>)
              | _ \<Rightarrow> Inr ([], FromJson_SetError ''DecodeStringValue called, expect JSON string value but found JSON object value'' m)))"

definition FromJson_EnsureAllDecoded :: "from_json \<Rightarrow> from_json" where
  "FromJson_EnsureAllDecoded m =
     (if FromJson_HasError m then m
      else if length (jr_stack m) \<noteq> 1 \<or> \<not> je_value_decoded (hd (jr_stack m)) then FromJson_SetError ''Un-decoded data remaining'' m
      else m)"

definition FromJson_reader :: "from_json text_reader" where
  "FromJson_reader =
     \<lparr> tr_HasError = FromJson_HasError, tr_SetError = FromJson_SetError, tr_StartNamedItem = FromJson_StartNamedItem,
       tr_CompleteNamedItem = FromJson_CompleteNamedItem, tr_StartStructure = FromJson_StartStructure,
       tr_CompleteStructure = FromJson_CompleteStructure, tr_DecodeStringValue = FromJson_DecodeStringValue \<rparr>"

text \<open>The decoding of a value of which nothing may be left over.\<close>

definition DecodeJson :: "nat \<Rightarrow> text_params \<Rightarrow> text_lib \<Rightarrow> (string \<Rightarrow> string + json) \<Rightarrow> tty \<Rightarrow> val \<Rightarrow> string \<Rightarrow> (val \<times> from_json) res" where
  "DecodeJson fuel p lib parse t old json_str =
     bind_res (DecodeValue fuel p FromJson_reader lib t old (FromJson parse json_str)) (\<lambda>(v, m). Inr (v, FromJson_EnsureAllDecoded m))"

subsection \<open>The tree of a document\<close>

text \<open>
  A tree that has the texts and items of a document. As an item is erased when it has been read, each
  name can stand once.
\<close>

fun json_is :: "doc \<Rightarrow> json \<Rightarrow> bool"
  and json_members :: "(string \<times> doc) list \<Rightarrow> (string \<times> json) list \<Rightarrow> bool" where
  "json_is (DocText s) j = (j = JString s)"
| "json_is (DocItems ds) j = (\<exists>ms. j = JObject ms \<and> json_members ds ms)"
| "json_members [] ms = (ms = [])"
| "json_members ((n, d) # ds) ms =
     (\<exists>j. map_of ms n = Some j \<and> json_is d j \<and> json_members ds (filter (\<lambda>m. fst m \<noteq> n) ms))"

lemma map_of_change_member: "map_of (change_member n f ms) n = map_option f (map_of ms n)"
  by (induction ms) auto

lemma map_of_change_other: "k \<noteq> n \<Longrightarrow> map_of (change_member n f ms) k = map_of ms k"
  by (induction ms) auto

lemma change_member_comp: "change_member n f (change_member n g ms) = change_member n (f \<circ> g) ms"
  by (induction ms) auto

lemma change_member_same: "map_of ms n = Some j \<Longrightarrow> f j = j \<Longrightarrow> change_member n f ms = ms"
  by (induction ms) auto

lemma filter_change_member: "filter (\<lambda>m. fst m \<noteq> n) (change_member n f ms) = filter (\<lambda>m. fst m \<noteq> n) ms"
  by (induction ms) auto

lemma json_find_Some: "json_find n j = Some k \<longleftrightarrow> (\<exists>ms. j = JObject ms \<and> map_of ms n = Some k)"
  by (cases j) (auto simp: json_find_def)

lemma json_at_append: "json_at p j = JObject ms \<Longrightarrow> map_of ms n = Some k \<Longrightarrow> json_at (p @ [n]) j = k"
  by (induction p j rule: json_at.induct) (auto simp: json_find_def split: option.splits)

lemma json_at_update: "json_at p j \<noteq> JOther \<Longrightarrow> json_at p (json_update p f j) = f (json_at p j)"
  by (induction p j rule: json_at.induct) (auto simp: json_find_def map_of_change_member split: option.splits json.splits)

lemma json_update_comp: "json_update p f (json_update p g j) = json_update p (\<lambda>j. f (g j)) j"
  by (induction p arbitrary: j) (auto simp: change_member_comp comp_def split: json.splits)

lemma json_update_append: "json_update (p @ [n]) f = json_update p (json_update [n] f)"
proof (induction p)
  case (Cons a p)
  then show ?case
    by (intro ext) (simp only: append_Cons json_update.simps(2) [of a] Cons)
next
  case Nil
  show ?case
    by (intro ext) (simp only: append_Nil json_update.simps(1))
qed

lemma json_update_same: "json_at p j \<noteq> JOther \<Longrightarrow> f (json_at p j) = json_at p j \<Longrightarrow> json_update p f j = j"
  by (induction p j rule: json_at.induct) (auto simp: json_find_def intro: change_member_same split: option.splits json.splits)

definition json_read :: "doc \<Rightarrow> json \<Rightarrow> json" where
  "json_read d j = (case d of DocText s \<Rightarrow> j | DocItems ds \<Rightarrow> JObject [])"

lemma json_read_items: "json_read (DocItems ds) = (\<lambda>_. JObject [])"
  by (simp add: json_read_def fun_eq_iff)

definition jr_reads :: "doc \<Rightarrow> from_json \<Rightarrow> from_json \<Rightarrow> bool" where
  "jr_reads d m m' \<longleftrightarrow> jr_error m = None
     \<and> (\<exists>e rest. jr_stack m = e # rest \<and> je_is_value e \<and> \<not> je_value_decoded e \<and> json_is d (je_value m e)
          \<and> m' = m\<lparr> jr_top_value := json_update (je_value_ptr e) (json_read d) (jr_top_value m), jr_stack := e\<lparr> je_value_decoded := True \<rparr> # rest \<rparr>)"

definition jr_items :: "(string \<times> doc) list \<Rightarrow> from_json \<Rightarrow> from_json \<Rightarrow> bool" where
  "jr_items ds m m' \<longleftrightarrow> jr_error m = None
     \<and> (\<exists>e v rest ms. jr_stack m = e # v # rest \<and> \<not> je_is_value e \<and> \<not> je_value_decoded e \<and> je_value_ptr v = je_value_ptr e
          \<and> je_value m e = JObject ms \<and> json_members ds ms
          \<and> m' = m\<lparr> jr_top_value := json_update (je_value_ptr e) (\<lambda>_. JObject []) (jr_top_value m), jr_stack := v\<lparr> je_value_decoded := True \<rparr> # rest \<rparr>)"

lemmas from_json_ops = FromJson_reader_def FromJson_DecodeStringValue_def FromJson_StartStructure_def FromJson_CompleteStructure_def
  FromJson_StartNamedItem_def FromJson_CompleteNamedItem_def FromJson_HasError_def je_value_def

interpretation ji: text_input FromJson_reader jr_reads jr_items
proof
  fix s m m'
  assume "jr_reads (DocText s) m m'"
  then show "tr_DecodeStringValue FromJson_reader m = Inr (s, m')"
    by (auto simp: jr_reads_def from_json_ops json_read_def json_update_same)
next
  fix ds m m'
  assume "jr_reads (DocItems ds) m m'"
  then obtain e rest where m: "jr_error m = None" "jr_stack m = e # rest" "je_is_value e" "\<not> je_value_decoded e" "json_is (DocItems ds) (je_value m e)"
      "m' = m\<lparr> jr_top_value := json_update (je_value_ptr e) (json_read (DocItems ds)) (jr_top_value m), jr_stack := e\<lparr> je_value_decoded := True \<rparr> # rest \<rparr>"
    by (auto simp: jr_reads_def)
  have "tr_StartStructure FromJson_reader m = Inr (m\<lparr> jr_stack := e\<lparr> je_is_value := False \<rparr> # jr_stack m \<rparr>)"
    using m by (auto simp: from_json_ops json_is_object_def)
  moreover have "jr_items ds (m\<lparr> jr_stack := e\<lparr> je_is_value := False \<rparr> # jr_stack m \<rparr>) m'"
    using m by (auto simp: jr_items_def je_value_def json_read_items)
  ultimately show "\<exists>m1. tr_StartStructure FromJson_reader m = Inr m1 \<and> jr_items ds m1 m'"
    by blast
next
  fix m m'
  assume "jr_items [] m m'"
  then show "tr_CompleteStructure FromJson_reader m = Inr m'"
    by (auto simp: jr_items_def from_json_ops json_update_same)
next
  fix n d ds m m'
  assume "jr_items ((n, d) # ds) m m'"
  then obtain e v rest ms j where m: "jr_error m = None" "jr_stack m = e # v # rest" "\<not> je_is_value e" "\<not> je_value_decoded e"
      "je_value_ptr v = je_value_ptr e" and at: "json_at (je_value_ptr e) (jr_top_value m) = JObject ms"
      and j: "map_of ms n = Some j" "json_is d j" and ms: "json_members ds (filter (\<lambda>m. fst m \<noteq> n) ms)"
      and m': "m' = m\<lparr> jr_top_value := json_update (je_value_ptr e) (\<lambda>_. JObject []) (jr_top_value m), jr_stack := v\<lparr> je_value_decoded := True \<rparr> # rest \<rparr>"
    by (auto simp: jr_items_def je_value_def)
  define p where "p = je_value_ptr e"
  define e1 where "e1 = e\<lparr> je_is_value := True, je_value_ptr := p @ [n], je_name_in_parent := n \<rparr>"
  define m1 where "m1 = m\<lparr> jr_stack := e1 # jr_stack m \<rparr>"
  define m2 where "m2 = m1\<lparr> jr_top_value := json_update (p @ [n]) (json_read d) (jr_top_value m), jr_stack := e1\<lparr> je_value_decoded := True \<rparr> # jr_stack m \<rparr>"
  define m3 where "m3 = m\<lparr> jr_top_value := json_update p (json_erase n) (jr_top_value m2) \<rparr>"
  have "tr_StartNamedItem FromJson_reader n m = Inr m1"
    using m at j by (cases d) (auto simp: from_json_ops json_find_def json_is_object_def json_is_string_def m1_def e1_def p_def Let_def)
  moreover have "jr_reads d m1 m2"
    using m j json_at_append [OF at j(1)] by (simp add: jr_reads_def je_value_def m1_def m2_def e1_def p_def)
  moreover have "tr_CompleteNamedItem FromJson_reader m2 = Inr m3"
    using m by (simp add: from_json_ops m3_def m2_def m1_def e1_def p_def)
  moreover have "jr_items ds m3 m'"
  proof -
    have top: "jr_top_value m3 = json_update p (\<lambda>k. json_erase n (json_update [n] (json_read d) k)) (jr_top_value m)"
      by (simp add: m3_def m2_def json_update_append json_update_comp del: json_update.simps)
    then have at3: "json_at p (jr_top_value m3) = JObject (filter (\<lambda>m. fst m \<noteq> n) ms)"
      using at by (simp add: json_at_update p_def json_erase_def filter_change_member)
    have "json_update p (\<lambda>_. JObject []) (jr_top_value m3) = json_update p (\<lambda>_. JObject []) (jr_top_value m)"
      unfolding top json_update_comp ..
    then have "m' = m3\<lparr> jr_top_value := json_update p (\<lambda>_. JObject []) (jr_top_value m3), jr_stack := v\<lparr> je_value_decoded := True \<rparr> # rest \<rparr>"
      by (simp add: m3_def m' p_def)
    moreover have "jr_error m3 = None" "jr_stack m3 = e # v # rest"
      using m by (simp_all add: m3_def)
    ultimately show ?thesis
      unfolding jr_items_def je_value_def using m(3-5) at3 ms unfolding p_def by blast
  qed
  ultimately show "\<exists>m1 m2 m3. tr_StartNamedItem FromJson_reader n m = Inr m1 \<and> jr_reads d m1 m2
      \<and> tr_CompleteNamedItem FromJson_reader m2 = Inr m3 \<and> jr_items ds m3 m'"
    by blast
next
  fix d ds m m'
  show "jr_reads d m m' \<Longrightarrow> \<not> tr_HasError FromJson_reader m \<and> \<not> tr_HasError FromJson_reader m'"
    by (auto simp: jr_reads_def from_json_ops)
  show "jr_items ds m m' \<Longrightarrow> \<not> tr_HasError FromJson_reader m"
    by (auto simp: jr_items_def from_json_ops)
qed


subsection \<open>Round trips\<close>

interpretation je: text_errors FromJson_reader
  by unfold_locales (simp_all add: from_json_ops FromJson_SetError_def)

definition json_started :: "json \<Rightarrow> from_json" where
  "json_started j = \<lparr> jr_top_value = j,
     jr_stack = [\<lparr> je_is_value = True, je_value_ptr = [], je_name_in_parent = [], je_value_decoded = False \<rparr>], jr_error = None \<rparr>"

lemma FromJson_started: "parse str = Inr j \<Longrightarrow> j \<noteq> JOther \<Longrightarrow> FromJson parse str = json_started j"
  by (cases j) (simp_all add: FromJson_def json_started_def json_is_object_def json_is_string_def Let_def)

lemma json_is_not_other: "json_is d j \<Longrightarrow> j \<noteq> JOther"
  by (cases d) auto

lemma jr_reads_started: "json_is d j \<Longrightarrow> \<exists>m. jr_reads d (json_started j) m \<and> jr_error m = None \<and> FromJson_EnsureAllDecoded m = m"
  by (simp add: jr_reads_def json_started_def je_value_def FromJson_EnsureAllDecoded_def FromJson_HasError_def)

lemma ConvertToJson_text: "has_text_type pf lib t v \<Longrightarrow> ConvertToJson lib t v = Inr (json_doc (doc_of lib t v))"
  using jo.write_text_ok [of pf lib t v "ToJson MACHINE_ROUND_TRIP"]
  by (simp add: ConvertToJson_def ToJson_def jw_ok_def jw_put_def jw_write_def)

text \<open>C30: a value that the JSON encoder writes is read back by the JSON decoder with nothing left over and no error
  raised, where the parser makes of the text a tree with the value's texts and items (\<open>json_is\<close>, which no tree
  is when a name stands twice in a structure).\<close>

theorem Json_round_trip:
  assumes "has_text_type (tx_platform p) lib t v" "fresh t old" "\<And>t. fresh t (tx_init p t)" "msg_depth v \<le> fuel"
    and "parse (json_doc (doc_of lib t v)) = Inr j" "json_is (doc_of lib t v) j"
  shows "\<exists>m. bind_res (ConvertToJson lib t v) (DecodeJson fuel p lib parse t old) = Inr (v, m) \<and> jr_error m = None"
proof -
  obtain m where m: "jr_reads (doc_of lib t v) (json_started j) m" "jr_error m = None" "FromJson_EnsureAllDecoded m = m"
    using jr_reads_started [OF assms(6)] by blast
  have "DecodeValue fuel p FromJson_reader lib t old (json_started j) = Inr (v, m)"
    unfolding DecodeValue_def using ji.read_text_ok [OF assms(3,1,2,4) m(1)] .
  then show ?thesis
    using m(2,3) by (simp add: ConvertToJson_text [OF assms(1)] DecodeJson_def FromJson_started [of parse, OF assms(5) json_is_not_other [OF assms(6)]])
qed

theorem Json_round_trip_witness:
  "\<exists>m. bind_res (ConvertToJson (\<lambda>_. None) (TPair TBool TString) (VPair (VBool True) (VString (bytes_of ''hi''))))
      (DecodeJson 0 demo_text_params (\<lambda>_. None) (\<lambda>_. Inr (JObject [(''first'', JString (ToString_bool True)), (''second'', JString ''hi'')]))
        (TPair TBool TString) VNull)
    = Inr (VPair (VBool True) (VString (bytes_of ''hi'')), m) \<and> jr_error m = None"
  by (rule Json_round_trip [where j = "JObject [(''first'', JString (ToString_bool True)), (''second'', JString ''hi'')]"])
    (simp_all add: demo_text_params_def fresh_null)

text \<open>
  A vector with two elements or more has several items named \<open>entry\<close>, of which an object keeps one.
\<close>

definition no_such_item :: "string \<Rightarrow> string" where
  "no_such_item n = Format ''No such named item \"%s\"'' [ArgStr n]"

lemma decode_missing:
  assumes "je.skips rd" "jr_error m = None" "jr_stack m = e # rest" "\<not> je_is_value e" "je_value m e = JObject []"
  shows "\<exists>x. decode_named FromJson_reader n rd m = Inr (x, m\<lparr>jr_error := Some (no_such_item n)\<rparr>)"
proof -
  let ?m = "m\<lparr>jr_error := Some (no_such_item n)\<rparr>"
  have err: "tr_HasError FromJson_reader ?m"
    by (simp add: from_json_ops)
  have start: "tr_StartNamedItem FromJson_reader n m = Inr ?m"
    using assms by (simp add: from_json_ops json_find_def FromJson_SetError_def no_such_item_def)
  obtain x where "rd ?m = Inr (x, ?m)"
    using je.skipsD [OF assms(1) err] by blast
  then show ?thesis
    using start je.complete_item [OF err] by (simp add: decode_named_def)
qed

lemma decode_entries_error: "je.skips rd \<Longrightarrow> tr_HasError FromJson_reader m \<Longrightarrow> \<exists>xs. decode_entries n FromJson_reader rd m = Inr (xs, m)"
proof (induction n)
  case (Suc n)
  then obtain x xs where "decode_named FromJson_reader ''entry'' rd m = Inr (x, m)" "decode_entries n FromJson_reader rd m = Inr (xs, m)"
    using je.skipsD [OF je.skips_named] by blast
  then show ?case
    by simp
qed simp

lemma decode_entries_missing:
  assumes "je.skips rd" "jr_items [(''entry'', d)] m m'" "\<And>m1 m2. jr_reads d m1 m2 \<Longrightarrow> rd m1 = Inr (x, m2)"
  shows "\<exists>xs m1. decode_entries (Suc (Suc n)) FromJson_reader rd m = Inr (xs, m1) \<and> jr_error m1 = Some (no_such_item ''entry'')"
proof -
  obtain m1 where m1: "decode_named FromJson_reader ''entry'' rd m = Inr (x, m1)" "jr_items [] m1 m'"
    using ji.decode_item [where f = rd, OF assms(2,3)] by blast
  obtain y where y: "decode_named FromJson_reader ''entry'' rd m1 = Inr (y, m1\<lparr>jr_error := Some (no_such_item ''entry'')\<rparr>)"
    using m1(2) decode_missing [OF assms(1)] by (fastforce simp: jr_items_def)
  have "tr_HasError FromJson_reader (m1\<lparr>jr_error := Some (no_such_item ''entry'')\<rparr>)"
    by (simp add: from_json_ops)
  from decode_entries_error [OF assms(1) this, of n] obtain ys where
    "decode_entries n FromJson_reader rd (m1\<lparr>jr_error := Some (no_such_item ''entry'')\<rparr>) = Inr (ys, m1\<lparr>jr_error := Some (no_such_item ''entry'')\<rparr>)"
    by blast
  then show ?thesis
    using m1(1) y by auto
qed

text \<open>C40: a vector of two elements or more that the JSON encoder writes cannot be read back: all of its elements are
  written under the name \<open>entry\<close>, a JSON object keeps one of them, and reading the second one fails.\<close>

theorem Json_vector_unreadable:
  assumes "has_text_type (tx_platform p) lib (TVector a) (VVector (xs @ [x]))" "xs \<noteq> []" "lib [] = None"
    and "\<And>t. fresh t (tx_init p t)" "msg_depth x \<le> Suc fuel"
    and "parse (json_doc (doc_of lib (TVector a) (VVector (xs @ [x]))))
      = Inr (JObject [(''entry'', entry), (''size'', JString (ToString_unsigned (length (xs @ [x]))))])"
    and "json_is (doc_of lib a x) entry"
  shows "\<exists>v m. bind_res (ConvertToJson lib (TVector a) (VVector (xs @ [x]))) (DecodeJson (Suc fuel) p lib parse (TVector a) old) = Inr (v, m)
    \<and> jr_error m = Some ''No such named item \"entry\"''"
proof -
  define rd where "rd = read_text p FromJson_reader lib (DecodeMsgAnyPtr (Suc fuel) p FromJson_reader lib) a (tx_init p a)"
  let ?ds = "[size_item (xs @ [x]), (''entry'', doc_of lib a x)]"
  let ?j = "JObject [(''entry'', entry), (''size'', JString (ToString_unsigned (length (xs @ [x]))))]"
  have skips: "je.skips rd"
    unfolding rd_def by (rule je.skips_read_text [OF je.skips_DecodeMsgAnyPtr [of lib, OF assms(3)]])
  have ty: "size_ok (tx_platform p) (length (xs @ [x]))" "length (xs @ [x]) \<le> pf_vector_max (tx_platform p)"
      "has_text_type (tx_platform p) lib a x"
    using assms(1) by simp_all
  have "json_is (DocItems ?ds) ?j"
    using assms(7) by (simp add: size_item_def)
  then obtain m' where "jr_reads (DocItems ?ds) (json_started ?j) m'"
    using jr_reads_started by blast
  then obtain m1 where m1: "tr_StartStructure FromJson_reader (json_started ?j) = Inr m1" "jr_items ?ds m1 m'"
    using ji.read_structure by blast
  obtain m2 where m2: "DecodeNamedSizeT p FromJson_reader ''size'' m1 = Inr (length (xs @ [x]), m2)" "jr_items [(''entry'', doc_of lib a x)] m2 m'"
    using ji.decode_size [OF m1(2) ty(1)] by blast
  have "rd m3 = Inr (x, m4)" if "jr_reads (doc_of lib a x) m3 m4" for m3 m4
    unfolding rd_def by (rule ji.read_text_ok [OF assms(4) ty(3) assms(4,5) that])
  moreover obtain n where n: "length (xs @ [x]) = Suc (Suc n)"
    using assms(2) by (cases xs) auto
  ultimately obtain ys m3 where m3: "decode_entries (length (xs @ [x])) FromJson_reader rd m2 = Inr (ys, m3)" "jr_error m3 = Some (no_such_item ''entry'')"
    using decode_entries_missing [OF skips m2(2)] by metis
  have "tr_CompleteStructure FromJson_reader m3 = Inr m3" "FromJson_EnsureAllDecoded m3 = m3"
    using m3(2) by (simp_all add: from_json_ops FromJson_EnsureAllDecoded_def)
  then have "bind_res (DecodeValue (Suc fuel) p FromJson_reader lib (TVector a) old (json_started ?j)) (\<lambda>(v, m). Inr (v, FromJson_EnsureAllDecoded m))
      = Inr (VVector ys, m3)"
    using m1(1) m2(1) m3(1) ty(2) n
    by (simp add: DecodeValue_def decode_counted_def decode_structure_def rd_def del: DecodeMsgAnyPtr.simps decode_entries.simps)
  moreover have "no_such_item ''entry'' = ''No such named item \"entry\"''"
    by code_simp
  ultimately show ?thesis
    using m3(2) FromJson_started [of parse, OF assms(6)]
    by (simp add: ConvertToJson_text [OF assms(1)] DecodeJson_def del: json_doc.simps doc_of_simps length_append)
qed

theorem Json_vector_unreadable_witness:
  "\<exists>v m. bind_res (ConvertToJson (\<lambda>_. None) (TVector TString) (VVector ([VString (bytes_of ''a'')] @ [VString (bytes_of ''b'')])))
      (DecodeJson (Suc 0) demo_text_params (\<lambda>_. None) (\<lambda>_. Inr (JObject [(''entry'', JString ''b''), (''size'', JString (ToString_unsigned (Suc (Suc 0))))]))
        (TVector TString) VNull)
    = Inr (v, m) \<and> jr_error m = Some ''No such named item \"entry\"''"
  by (rule Json_vector_unreadable [where entry = "JString ''b''"])
    (simp_all add: demo_text_params_def fresh_null demo_platform_def size_ok_def)

end
