(* ===== verification/Errors.thy ===== *)
theory Errors
  imports Format
begin

section \<open>bbox::Error and bbox::Exception\<close>

text \<open>
  \<open>BBoxUtils/bbox/Error.h\<close>, \<open>Error.cpp\<close> and \<open>Exception.cpp\<close>. An error wraps a boost error code:
  a value and the name of its category. The message that a category has for a value is a
  parameter (\<open>message\<close>). The exception class declares a member for its error that none of its
  constructors sets, nor its copy operations copy.
\<close>

record error_code =
  err_value :: "32 word"
  err_category :: string

definition Error :: error_code where
  "Error = \<lparr>err_value = 0, err_category = ''system''\<rparr>"

definition Error_Success :: error_code where
  "Error_Success = \<lparr>err_value = 0, err_category = ''generic''\<rparr>"

definition Error_errc :: "32 word \<Rightarrow> error_code" where
  "Error_errc e = \<lparr>err_value = e, err_category = ''generic''\<rparr>"

definition posix_errno :: "32 word \<Rightarrow> error_code" where
  "posix_errno errno = \<lparr>err_value = errno, err_category = ''errno''\<rparr>"

text \<open>\<open>std::errc::interrupted\<close> is \<open>EINTR\<close>.\<close>

definition errc_interrupted :: "32 word" where
  "errc_interrupted = 4"

definition Error_bool :: "error_code \<Rightarrow> bool" where
  "Error_bool e \<longleftrightarrow> err_value e \<noteq> 0"

definition Error_ToString :: "(error_code \<Rightarrow> string) \<Rightarrow> error_code \<Rightarrow> string" where
  "Error_ToString message e =
     (if Error_bool e then
        Format ''[\"%s\"/%s/%d(0x%08X)]'' [ArgStr (message e), ArgStr (err_category e), ArgSigned 32 (sint (err_value e)), ArgUnsigned (unat (err_value e))]
      else ''[Success]'')"

record exception =
  ex_error :: error_code
  ex_what :: string

definition Exception :: exception where
  "Exception = \<lparr>ex_error = Error, ex_what = ''Unknown''\<rparr>"

definition Exception_error :: "(error_code \<Rightarrow> string) \<Rightarrow> error_code \<Rightarrow> exception" where
  "Exception_error message err = \<lparr>ex_error = Error, ex_what = Format ''Error %s'' [ArgStr (Error_ToString message err)]\<rparr>"

definition Exception_what :: "string \<Rightarrow> exception" where
  "Exception_what w = \<lparr>ex_error = Error, ex_what = w\<rparr>"

definition Exception_description :: "(error_code \<Rightarrow> string) \<Rightarrow> error_code \<Rightarrow> string \<Rightarrow> exception" where
  "Exception_description message err description =
     \<lparr>ex_error = Error, ex_what = Format ''%s (Error %s)'' [ArgStr description, ArgStr (Error_ToString message err)]\<rparr>"

definition Exception_copy :: "exception \<Rightarrow> exception" where
  "Exception_copy other = \<lparr>ex_error = Error, ex_what = ex_what other\<rparr>"

definition Exception_assign :: "exception \<Rightarrow> exception \<Rightarrow> exception" where
  "Exception_assign this other = this\<lparr>ex_what := ex_what other\<rparr>"

text \<open>\<open>what()\<close> is a C string, which ends at a null character.\<close>

definition what_c_str :: "exception \<Rightarrow> string" where
  "what_c_str e = takeWhile (\<lambda>c. c \<noteq> CHR 0x00) (ex_what e)"

end
