(* ===== verification/TinyXml.thy ===== *)
theory TinyXml
  imports TextNum Errors
begin

unbundle bit_operations_syntax

section \<open>TinyXML-2\<close>

text \<open>
  \<open>ThirdParty/TinyXml2/tinyxml2/tinyxml2.cpp\<close>, the version of TinyXML-2 that the program is built
  with, as far as the XML format uses it: the strings of a document (\<open>StrPair\<close>), its nodes, the
  parser and the printer. A position in the text is the rest of the text, up to the NUL that ends it.
\<close>

text \<open>The characters of a \<open>std::string\<close> that a callee sees through \<open>c_str\<close>.\<close>

definition c_str :: "string \<Rightarrow> string" where
  "c_str str = takeWhile (\<lambda>c. c \<noteq> CHR 0x00) str"

subsection \<open>Characters\<close>

definition IsUTF8Continuation :: "char \<Rightarrow> bool" where
  "IsUTF8Continuation p \<longleftrightarrow> (of_char p :: nat) AND 0x80 \<noteq> 0"

definition IsWhiteSpace :: "char \<Rightarrow> bool" where
  "IsWhiteSpace p \<longleftrightarrow> \<not> IsUTF8Continuation p \<and> is_space p"

definition SkipWhiteSpace :: "string \<Rightarrow> string" where
  "SkipWhiteSpace p = dropWhile IsWhiteSpace p"

definition IsNameStartChar :: "char \<Rightarrow> bool" where
  "IsNameStartChar ch \<longleftrightarrow> (if (of_char ch :: nat) < 128 then is_upper ch \<or> is_lower ch else True) \<or> ch = CHR '':'' \<or> ch = CHR ''_''"

definition IsNameChar :: "char \<Rightarrow> bool" where
  "IsNameChar ch \<longleftrightarrow> IsNameStartChar ch \<or> is_digit ch \<or> ch = CHR ''.'' \<or> ch = CHR ''-''"

text \<open>\<open>StringEqual\<close> with a number of characters, as \<open>Identify\<close> uses it, and \<open>strncmp\<close>.\<close>

fun starts_with :: "string \<Rightarrow> string \<Rightarrow> bool" where
  "starts_with p [] = True"
| "starts_with [] (c # cs) = False"
| "starts_with (d # ds) (c # cs) = (d = c \<and> starts_with ds cs)"

definition ReadBOM :: "string \<Rightarrow> string \<times> bool" where
  "ReadBOM p = (if starts_with p [CHR 0xEF, CHR 0xBB, CHR 0xBF] then (drop 3 p, True) else (p, False))"

text \<open>
  The UTF-8 bytes of a character of the given number; none when it is out of range. \<open>unsigned long\<close> has
  64 bits.
\<close>

definition utf8_mark :: "nat \<Rightarrow> char" where
  "utf8_mark input = char_of ((input OR 0x80) AND 0xBF)"

definition ConvertUTF32ToUTF8 :: "nat \<Rightarrow> string" where
  "ConvertUTF32ToUTF8 input =
     (if input < 0x80 then [char_of input]
      else if input < 0x800 then [char_of ((input div 64) OR 0xC0), utf8_mark input]
      else if input < 0x10000 then [char_of ((input div 64 div 64) OR 0xE0), utf8_mark (input div 64), utf8_mark input]
      else if input < 0x200000 then
        [char_of ((input div 64 div 64 div 64) OR 0xF0), utf8_mark (input div 64 div 64), utf8_mark (input div 64), utf8_mark input]
      else [])"

fun hex_digit :: "char \<Rightarrow> nat option" where
  "hex_digit q =
     (if is_digit q then Some (of_char q - of_char (CHR ''0''))
      else if of_char (CHR ''a'') \<le> (of_char q :: nat) \<and> (of_char q :: nat) \<le> of_char (CHR ''f'')
        then Some (of_char q - of_char (CHR ''a'') + 10)
      else if of_char (CHR ''A'') \<le> (of_char q :: nat) \<and> (of_char q :: nat) \<le> of_char (CHR ''F'')
        then Some (of_char q - of_char (CHR ''A'') + 10)
      else None)"

fun dec_digit :: "char \<Rightarrow> nat option" where
  "dec_digit q = (if is_digit q then Some (of_char q - of_char (CHR ''0'')) else None)"

text \<open>The digits from the last one on, with the \<open>unsigned\<close> multiplier.\<close>

fun ref_digits :: "(char \<Rightarrow> nat option) \<Rightarrow> nat \<Rightarrow> string \<Rightarrow> nat \<Rightarrow> nat \<Rightarrow> nat option" where
  "ref_digits digit base [] mult ucs = Some ucs"
| "ref_digits digit base (q # qs) mult ucs = (case digit q of
       None \<Rightarrow> None
     | Some d \<Rightarrow> ref_digits digit base qs (mult * base mod 2 ^ 32) ((ucs + mult * d mod 2 ^ 32) mod 2 ^ 64))"

text \<open>
  \<open>GetCharacterRef\<close>, called at \<open>&#\<close>: the bytes of the character and the text after the reference. The
  digits are read backwards from the semicolon to the nearest \<open>x\<close> or \<open>#\<close>. The result is the null pointer
  for a reference that is not well formed.
\<close>

definition GetCharacterRef :: "string \<Rightarrow> (string \<times> string) option" where
  "GetCharacterRef p =
     (if length p > 2 \<and> p ! 1 = CHR ''#'' then
        (if p ! 2 = CHR ''x'' then
           (let q = drop 3 p; body = takeWhile (\<lambda>c. c \<noteq> CHR '';'') q in
            if length body = length q then None
            else map_option (\<lambda>ucs. (ConvertUTF32ToUTF8 ucs, drop (length body + 1) q))
                   (ref_digits hex_digit 16 (takeWhile (\<lambda>c. c \<noteq> CHR ''x'') (rev body)) 1 0))
         else
           (let q = drop 2 p; body = takeWhile (\<lambda>c. c \<noteq> CHR '';'') q in
            if length body = length q then None
            else map_option (\<lambda>ucs. (ConvertUTF32ToUTF8 ucs, drop (length body + 1) q))
                   (ref_digits dec_digit 10 (takeWhile (\<lambda>c. c \<noteq> CHR ''#'') (rev body)) 1 0)))
      else Some ([], drop 1 p))"

subsection \<open>The strings of a document\<close>

text \<open>
  A string is its characters as they are in the text, and what \<open>GetStr\<close> has to do to them; \<open>SetStr\<close>
  leaves nothing to do. The document is parsed in place and \<open>GetStr\<close> writes its result over the
  text; doing so again changes nothing.
\<close>

datatype str_pair = StrPair (sp_entities: bool) (sp_newlines: bool) (sp_text: string)

definition SetStr :: "string \<Rightarrow> str_pair" where
  "SetStr str = StrPair False False (c_str str)"

definition entities :: "(string \<times> char) list" where
  "entities = [(''quot'', CHR 0x22), (''amp'', CHR ''&''), (''apos'', CHR 0x27), (''lt'', CHR ''<''), (''gt'', CHR ''>'')]"

text \<open>The first entity of the table that stands after the ampersand: its value and the text after it.\<close>

fun find_entity :: "(string \<times> char) list \<Rightarrow> string \<Rightarrow> (char \<times> string) option" where
  "find_entity [] p = None"
| "find_entity ((pattern, value) # es) p =
     (if starts_with p (pattern @ '';'') then Some (value, drop (length pattern + 1) p) else find_entity es p)"

lemma GetCharacterRef_shorter: "GetCharacterRef p = Some (out, rest) \<Longrightarrow> p \<noteq> [] \<Longrightarrow> length rest < length p"
  by (auto simp: GetCharacterRef_def Let_def split: if_splits)

lemma find_entity_shorter: "find_entity es p = Some (v, rest) \<Longrightarrow> length rest \<le> length p"
  by (induction es) (auto split: if_splits)

text \<open>
  The loop of \<open>GetStr\<close>: the text from the read pointer on and what has been written. An ampersand that
  starts no entity advances the write pointer without writing, so what the buffer holds there stays.
  The null pointer that \<open>GetCharacterRef\<close> may return is read from.
\<close>

function getstr_loop :: "str_pair \<Rightarrow> string \<Rightarrow> string \<Rightarrow> string res" where
  "getstr_loop sp p out = (case p of
       [] \<Rightarrow> Inr out
     | c # p' \<Rightarrow>
         if sp_newlines sp \<and> c = CHR 0x0D then
           getstr_loop sp (if p' \<noteq> [] \<and> hd p' = CHR 0x0A then tl p' else p') (out @ [CHR 0x0A])
         else if sp_newlines sp \<and> c = CHR 0x0A then
           getstr_loop sp (if p' \<noteq> [] \<and> hd p' = CHR 0x0D then tl p' else p') (out @ [CHR 0x0A])
         else if sp_entities sp \<and> c = CHR ''&'' then
           (if p' \<noteq> [] \<and> hd p' = CHR ''#'' then
              (case GetCharacterRef p of None \<Rightarrow> Inl NullPointer | Some (buf, rest) \<Rightarrow> getstr_loop sp rest (out @ buf))
            else case find_entity entities p' of
                Some (value, rest) \<Rightarrow> getstr_loop sp rest (out @ [value])
              | None \<Rightarrow> getstr_loop sp p' (out @ [sp_text sp ! length out]))
         else getstr_loop sp p' (out @ [c]))"
  by pat_completeness auto
termination
  by (relation "measure (\<lambda>(sp, p, out). length p)") (auto dest: GetCharacterRef_shorter find_entity_shorter)

declare getstr_loop.simps [simp del]

definition GetStr :: "str_pair \<Rightarrow> string res" where
  "GetStr sp = (if sp_entities sp \<or> sp_newlines sp then bind_res (getstr_loop sp (sp_text sp) []) (\<lambda>q. Inr (c_str q)) else Inr (sp_text sp))"

fun ParseText :: "string \<Rightarrow> string \<Rightarrow> (string \<times> string) option" where
  "ParseText [] endTag = None"
| "ParseText (c # p) endTag =
     (if starts_with (c # p) endTag then Some ([], drop (length endTag) (c # p))
      else map_option (\<lambda>(str, rest). (c # str, rest)) (ParseText p endTag))"

fun ParseName :: "string \<Rightarrow> (string \<times> string) option" where
  "ParseName [] = None"
| "ParseName (c # p) = (if IsNameStartChar c then Some (c # takeWhile IsNameChar p, dropWhile IsNameChar p) else None)"

subsection \<open>Nodes\<close>

datatype xml_node =
    XmlElement (xn_name: string) (xn_attrs: "(string \<times> str_pair) list") (xn_children: "xml_node list")
  | XmlText str_pair bool
  | XmlComment str_pair
  | XmlDeclaration str_pair
  | XmlUnknown str_pair

text \<open>
  \<open>FirstChildElement\<close> and \<open>NextSiblingElement\<close>: the first element of a list of nodes, with the
  siblings that follow it.
\<close>

fun first_element :: "xml_node list \<Rightarrow> (xml_node \<times> xml_node list) option" where
  "first_element [] = None"
| "first_element (XmlElement n as cs # ns) = Some (XmlElement n as cs, ns)"
| "first_element (_ # ns) = first_element ns"

definition Attribute :: "string \<Rightarrow> (string \<times> str_pair) list \<Rightarrow> string option res" where
  "Attribute name as = (case map_of as name of None \<Rightarrow> Inr None | Some sp \<Rightarrow> bind_res (GetStr sp) (\<lambda>value. Inr (Some value)))"

fun SetAttribute :: "string \<Rightarrow> string \<Rightarrow> (string \<times> str_pair) list \<Rightarrow> (string \<times> str_pair) list" where
  "SetAttribute n v [] = [(n, SetStr v)]"
| "SetAttribute n v ((n', v') # as) = (if n' = n then (n, SetStr v) # as else (n', v') # SetAttribute n v as)"

fun InsertEndChild :: "xml_node \<Rightarrow> xml_node \<Rightarrow> xml_node" where
  "InsertEndChild c (XmlElement n as cs) = XmlElement n as (cs @ [c])"
| "InsertEndChild c n = n"

fun InsertFirstChild :: "xml_node \<Rightarrow> xml_node \<Rightarrow> xml_node" where
  "InsertFirstChild c (XmlElement n as cs) = XmlElement n as (c # cs)"
| "InsertFirstChild c n = n"


subsection \<open>Parsing\<close>

datatype xml_error =
    XML_ERROR_PARSING_ELEMENT
  | XML_ERROR_PARSING_ATTRIBUTE
  | XML_ERROR_PARSING_TEXT
  | XML_ERROR_PARSING_CDATA
  | XML_ERROR_PARSING_COMMENT
  | XML_ERROR_PARSING_DECLARATION
  | XML_ERROR_PARSING_UNKNOWN
  | XML_ERROR_EMPTY_DOCUMENT
  | XML_ERROR_MISMATCHED_ELEMENT
  | XML_ERROR_PARSING

text \<open>The message that \<open>bbox/xml/Error.cpp\<close> has for them.\<close>

fun xml_error_message :: "xml_error \<Rightarrow> string" where
  "xml_error_message XML_ERROR_PARSING_ELEMENT = ''Error parsing element''"
| "xml_error_message XML_ERROR_PARSING_ATTRIBUTE = ''Error parsing attribute''"
| "xml_error_message XML_ERROR_PARSING_TEXT = ''Error parsing text''"
| "xml_error_message XML_ERROR_PARSING_CDATA = ''Error parsing CDATA''"
| "xml_error_message XML_ERROR_PARSING_COMMENT = ''Error parsing comment''"
| "xml_error_message XML_ERROR_PARSING_DECLARATION = ''Error parsing declaration''"
| "xml_error_message XML_ERROR_PARSING_UNKNOWN = ''Error parsing unknown''"
| "xml_error_message XML_ERROR_EMPTY_DOCUMENT = ''Empty document''"
| "xml_error_message XML_ERROR_MISMATCHED_ELEMENT = ''Mismatched element''"
| "xml_error_message XML_ERROR_PARSING = ''Error parsing''"

text \<open>\<open>make_error_code\<close> of \<open>bbox/xml/Error.h\<close>: the number in the enumeration and the category.\<close>

fun xml_error_value :: "xml_error \<Rightarrow> 32 word" where
  "xml_error_value XML_ERROR_PARSING_ELEMENT = 7"
| "xml_error_value XML_ERROR_PARSING_ATTRIBUTE = 8"
| "xml_error_value XML_ERROR_PARSING_TEXT = 10"
| "xml_error_value XML_ERROR_PARSING_CDATA = 11"
| "xml_error_value XML_ERROR_PARSING_COMMENT = 12"
| "xml_error_value XML_ERROR_PARSING_DECLARATION = 13"
| "xml_error_value XML_ERROR_PARSING_UNKNOWN = 14"
| "xml_error_value XML_ERROR_EMPTY_DOCUMENT = 15"
| "xml_error_value XML_ERROR_MISMATCHED_ELEMENT = 16"
| "xml_error_value XML_ERROR_PARSING = 17"

definition make_error_code :: "xml_error \<Rightarrow> error_code" where
  "make_error_code e = \<lparr>err_value = xml_error_value e, err_category = ''tinyxml2''\<rparr>"

datatype node_kind = KindDeclaration | KindComment | KindCData | KindUnknown | KindElement | KindText

definition Identify :: "string \<Rightarrow> node_kind option \<times> string" where
  "Identify start = (let p = SkipWhiteSpace start in
     if p = [] then (None, p)
     else if starts_with p ''<?'' then (Some KindDeclaration, drop 2 p)
     else if starts_with p ''<!--'' then (Some KindComment, drop 4 p)
     else if starts_with p ''<![CDATA['' then (Some KindCData, drop 9 p)
     else if starts_with p ''<!'' then (Some KindUnknown, drop 2 p)
     else if starts_with p ''<'' then (Some KindElement, drop 1 p)
     else (Some KindText, start))"

text \<open>\<open>XMLAttribute::ParseDeep\<close>; entities are processed.\<close>

definition XMLAttribute_ParseDeep :: "string \<Rightarrow> ((string \<times> str_pair) \<times> string) option" where
  "XMLAttribute_ParseDeep p = (case ParseName p of
       None \<Rightarrow> None
     | Some (name, p) \<Rightarrow>
         if p = [] then None
         else case SkipWhiteSpace p of
             [] \<Rightarrow> None
           | c # p \<Rightarrow>
               if c \<noteq> CHR ''='' then None
               else case SkipWhiteSpace p of
                   [] \<Rightarrow> None
                 | quote # p \<Rightarrow>
                     if quote \<noteq> CHR 0x22 \<and> quote \<noteq> CHR 0x27 then None
                     else map_option (\<lambda>(str, p). ((name, StrPair True True str), p)) (ParseText p [quote]))"

lemma ParseText_shorter: "ParseText p e = Some (str, rest) \<Longrightarrow> e \<noteq> [] \<Longrightarrow> length rest < length p"
  by (induction p e arbitrary: str rule: ParseText.induct) (auto split: if_splits)

lemma SkipWhiteSpace_length: "length (SkipWhiteSpace p) \<le> length p"
  by (simp add: SkipWhiteSpace_def length_dropWhile_le)

lemma ParseName_shorter: "ParseName p = Some (n, rest) \<Longrightarrow> length rest < length p"
  by (cases p) (auto simp: length_dropWhile_le le_imp_less_Suc split: if_splits)

lemma SkipWhiteSpace_Cons: "SkipWhiteSpace p = c # q \<Longrightarrow> length q < length p"
  using SkipWhiteSpace_length [of p] by simp

lemma XMLAttribute_shorter: "XMLAttribute_ParseDeep p = Some (a, rest) \<Longrightarrow> length rest < length p"
  by (auto simp: XMLAttribute_ParseDeep_def dest!: ParseText_shorter ParseName_shorter SkipWhiteSpace_Cons
      split: option.splits list.splits if_splits)

datatype closing_type = OPEN | CLOSED | CLOSING

text \<open>
  \<open>XMLElement_ParseAttributes\<close>: the attributes, whether the element was closed by \<open>/>\<close>, and the rest. A name that
  occurs again is found by \<open>Attribute\<close>, which also reads the value it had before: a fault of \<open>GetStr\<close>
  is then a fault of the parser.
\<close>

datatype xml_failure = XmlError xml_error | XmlFault fault

function XMLElement_ParseAttributes :: "string \<Rightarrow> (string \<times> str_pair) list \<Rightarrow> xml_failure + (string \<times> str_pair) list \<times> bool \<times> string" where
  "XMLElement_ParseAttributes p0 as = (case SkipWhiteSpace p0 of
       [] \<Rightarrow> Inl (XmlError XML_ERROR_PARSING_ELEMENT)
     | c # p \<Rightarrow>
         if IsNameStartChar c then
           (case XMLAttribute_ParseDeep (c # p) of
              None \<Rightarrow> Inl (XmlError XML_ERROR_PARSING_ATTRIBUTE)
            | Some ((name, value), rest) \<Rightarrow>
                (case Attribute name as of
                   Inl e \<Rightarrow> Inl (XmlFault e)
                 | Inr (Some _) \<Rightarrow> Inl (XmlError XML_ERROR_PARSING_ATTRIBUTE)
                 | Inr None \<Rightarrow> XMLElement_ParseAttributes rest (as @ [(name, value)])))
         else if c = CHR ''/'' \<and> p \<noteq> [] \<and> hd p = CHR ''>'' then Inr (as, True, tl p)
         else if c = CHR ''>'' then Inr (as, False, p)
         else Inl (XmlError XML_ERROR_PARSING_ELEMENT))"
  by pat_completeness auto
termination
  by (relation "measure (\<lambda>(p, as). length p)")
    (auto dest!: XMLAttribute_shorter dest: SkipWhiteSpace_Cons intro: less_le_trans simp: less_Suc_eq_le
      le_less_trans [OF _ SkipWhiteSpace_Cons])

declare XMLElement_ParseAttributes.simps [simp del]

lemma XMLElement_ParseAttributes_shorter: "XMLElement_ParseAttributes p as = Inr (as', c', rest) \<Longrightarrow> length rest < length p"
proof (induction p as rule: XMLElement_ParseAttributes.induct)
  case (1 p0 as)
  then obtain c p where p: "SkipWhiteSpace p0 = c # p"
    by (auto simp: XMLElement_ParseAttributes.simps [of p0 as] split: list.splits)
  note len = SkipWhiteSpace_Cons [OF p]
  show ?case
  proof (cases "IsNameStartChar c")
    case True
    then obtain n v r where a: "XMLAttribute_ParseDeep (c # p) = Some ((n, v), r)" "Attribute n as = Inr None"
        "XMLElement_ParseAttributes r (as @ [(n, v)]) = Inr (as', c', rest)"
      using 1(2) p by (auto simp: XMLElement_ParseAttributes.simps [of p0 as] split: option.splits if_splits sum.splits)
    then show ?thesis
      using 1(1) [OF p True, of "((n, v), r)" "(n, v)" r n v] XMLAttribute_shorter [OF a(1)] len by simp
  next
    case False
    then show ?thesis
      using 1(2) p len by (auto simp: XMLElement_ParseAttributes.simps [of p0 as] split: if_splits)
  qed
qed

text \<open>The start of \<open>XMLElement::ParseDeep\<close>: the tag.\<close>

definition ParseTag :: "string \<Rightarrow> xml_failure + closing_type \<times> string \<times> (string \<times> str_pair) list \<times> string" where
  "ParseTag p =
     (let p = SkipWhiteSpace p; closing = (p \<noteq> [] \<and> hd p = CHR ''/'') in
      case ParseName (if closing then tl p else p) of
        None \<Rightarrow> Inl (XmlError XML_ERROR_PARSING)
      | Some (name, p) \<Rightarrow> (case XMLElement_ParseAttributes p [] of
            Inl e \<Rightarrow> Inl e
          | Inr (as, closed, p) \<Rightarrow> Inr (if closed then CLOSED else if closing then CLOSING else OPEN, name, as, p)))"

text \<open>\<open>ParseDeep\<close> of the other nodes.\<close>

definition ParseLeaf :: "node_kind \<Rightarrow> string \<Rightarrow> xml_failure + xml_node \<times> string" where
  "ParseLeaf kind p =
     (let until = (\<lambda>endTag error node. case ParseText p endTag of
            None \<Rightarrow> Inl (XmlError error) | Some (str, rest) \<Rightarrow> Inr (node (StrPair False True str), rest)) in
      case kind of
        KindDeclaration \<Rightarrow> until ''?>'' XML_ERROR_PARSING_DECLARATION XmlDeclaration
      | KindComment \<Rightarrow> until ''-->'' XML_ERROR_PARSING_COMMENT XmlComment
      | KindCData \<Rightarrow> until '']]>'' XML_ERROR_PARSING_CDATA (\<lambda>sp. XmlText sp True)
      | KindUnknown \<Rightarrow> until ''>'' XML_ERROR_PARSING_UNKNOWN XmlUnknown
      | _ \<Rightarrow> (case ParseText p ''<'' of
            None \<Rightarrow> Inl (XmlError XML_ERROR_PARSING_TEXT)
          | Some (str, rest) \<Rightarrow>
              if rest \<noteq> [] then Inr (XmlText (StrPair True True str) False, CHR ''<'' # rest) else Inl (XmlError XML_ERROR_PARSING)))"


lemma ParseTag_shorter: "ParseTag p = Inr (c, name, as, rest) \<Longrightarrow> length rest < length p"
  using SkipWhiteSpace_length [of p]
  by (auto simp: ParseTag_def Let_def dest!: ParseName_shorter XMLElement_ParseAttributes_shorter split: option.splits sum.splits if_splits)

lemma Identify_shorter: "Identify p = (kind, q) \<Longrightarrow> length q \<le> length p"
  using SkipWhiteSpace_length [of p] by (auto simp: Identify_def Let_def split: if_splits)

lemma Identify_text: "Identify p = (Some KindText, q) \<Longrightarrow> q = p \<and> \<not> starts_with p ''<''"
  by (cases p) (auto simp: Identify_def Let_def SkipWhiteSpace_def IsWhiteSpace_def is_space_def split: if_splits)

lemma Leaf_shorter:
  assumes "Identify p = (Some kind, q)" "kind \<noteq> KindElement" "ParseLeaf kind q = Inr (node, rest)"
  shows "length rest < length p"
proof (cases "kind = KindText")
  case True
  then have "\<not> starts_with q ''<''" "q = p"
    using Identify_text assms(1) by auto
  moreover from this(1) have "Suc (length r) < length q" if "ParseText q ''<'' = Some (str, r)" for str r
    using that by (cases q) (auto dest: ParseText_shorter)
  ultimately show ?thesis
    using True assms(3) by (auto simp: ParseLeaf_def Let_def split: option.splits if_splits)
next
  case False
  then show ?thesis
    using Identify_shorter [OF assms(1)] assms(2,3)
    by (auto simp: ParseLeaf_def Let_def dest!: ParseText_shorter split: node_kind.splits option.splits)
qed

text \<open>
  \<open>XMLNode::ParseDeep\<close>: the nodes up to the end of the text, or up to a closing tag, whose name and rest
  are returned. The loop ends without an error at the end of the text also inside an element, for which
  the parent then sets \<open>XML_ERROR_PARSING\<close>.
\<close>

definition add_node :: "xml_node \<Rightarrow> xml_failure + xml_node list \<times> (string \<times> string) option
    \<Rightarrow> xml_failure + xml_node list \<times> (string \<times> string) option" where
  "add_node node r = (case r of Inl e \<Rightarrow> Inl e | Inr (ns, closed) \<Rightarrow> Inr (node # ns, closed))"

function XMLNode_ParseDeep :: "string \<Rightarrow> xml_failure + xml_node list \<times> (string \<times> string) option" where
  "XMLNode_ParseDeep p =
     (if p = [] then Inr ([], None)
      else case Identify p of
          (None, _) \<Rightarrow> Inr ([], None)
        | (Some kind, q) \<Rightarrow>
            (if kind = KindElement then
               (case ParseTag q of
                  Inl e \<Rightarrow> Inl e
                | Inr (CLOSING, name, as, r) \<Rightarrow> Inr ([], Some (name, r))
                | Inr (CLOSED, name, as, r) \<Rightarrow> add_node (XmlElement name as []) (XMLNode_ParseDeep r)
                | Inr (OPEN, name, as, r) \<Rightarrow>
                    if r = [] then Inl (XmlError XML_ERROR_MISMATCHED_ELEMENT)
                    else (case XMLNode_ParseDeep r of
                        Inl e \<Rightarrow> Inl e
                      | Inr (cs, None) \<Rightarrow> Inl (XmlError XML_ERROR_PARSING)
                      | Inr (cs, Some (endTag, r')) \<Rightarrow>
                          if endTag \<noteq> name then Inl (XmlError XML_ERROR_MISMATCHED_ELEMENT)
                          else add_node (XmlElement name as cs) (XMLNode_ParseDeep r')))
             else case ParseLeaf kind q of
                 Inl e \<Rightarrow> Inl e
               | Inr (node, r) \<Rightarrow> add_node node (XMLNode_ParseDeep r)))"
  by pat_completeness auto

lemma tag_shorter: "Identify p = (kind, q) \<Longrightarrow> ParseTag q = Inr (c, name, as, rest) \<Longrightarrow> length rest < length p"
  using Identify_shorter ParseTag_shorter by fastforce

lemma add_node_Inr: "add_node node r = Inr (ns, closed) \<longleftrightarrow> (\<exists>ns'. r = Inr (ns', closed) \<and> ns = node # ns')"
  by (auto simp: add_node_def split: sum.splits)

lemma XMLNode_ParseDeep_shorter:
  assumes "XMLNode_ParseDeep_dom p" "XMLNode_ParseDeep p = Inr (ns, Some (name, rest))"
  shows "length rest < length p"
  using assms
proof (induction p arbitrary: ns name rest rule: XMLNode_ParseDeep.pinduct)
  case (1 p)
  note eq = 1(6) [unfolded XMLNode_ParseDeep.psimps [OF 1(1)]]
  then obtain kind q where p: "p \<noteq> []" and id: "Identify p = (Some kind, q)"
    by (auto split: if_splits prod.splits option.splits)
  show ?case
  proof (cases "kind = KindElement")
    case True
    then obtain c n as r where tag: "ParseTag q = Inr (c, n, as, r)"
      using eq p id by (auto split: sum.splits)
    note r = tag_shorter [OF id tag]
    show ?thesis
    proof (cases c)
      case CLOSING
      then show ?thesis
        using eq p id True tag r by simp
    next
      case CLOSED
      then have "\<exists>ns'. XMLNode_ParseDeep r = Inr (ns', Some (name, rest))"
        using eq p id True tag by (auto simp: add_node_Inr)
      moreover have "length rest' < length r" if "XMLNode_ParseDeep r = Inr (ns', Some (name', rest'))" for ns' name' rest'
        using 1(4) that p id True tag CLOSED by auto
      ultimately show ?thesis
        using r by fastforce
    next
      case OPEN
      then obtain cs t r' where cs: "r \<noteq> []" "XMLNode_ParseDeep r = Inr (cs, Some (t, r'))"
          "\<exists>ns'. XMLNode_ParseDeep r' = Inr (ns', Some (name, rest))" "t = n"
        using eq p id True tag by (auto simp: add_node_Inr split: if_splits sum.splits option.splits)
      moreover have IH: "length rest' < length r" if "XMLNode_ParseDeep r = Inr (ns', Some (name', rest'))" for ns' name' rest'
        using 1(2) that p id True tag OPEN cs(1) by auto
      moreover have "length rest' < length r'" if "XMLNode_ParseDeep r' = Inr (ns', Some (name', rest'))" for ns' name' rest'
        using 1(3) that p id True tag OPEN cs by auto
      ultimately show ?thesis
        using r by fastforce
    qed
  next
    case False
    then obtain node r where leaf: "ParseLeaf kind q = Inr (node, r)" "\<exists>ns'. XMLNode_ParseDeep r = Inr (ns', Some (name, rest))"
      using eq p id by (auto simp: add_node_Inr split: sum.splits)
    moreover have "length rest' < length r" if "XMLNode_ParseDeep r = Inr (ns', Some (name', rest'))" for ns' name' rest'
      using 1(5) that p id False leaf(1) by auto
    ultimately show ?thesis
      using Leaf_shorter [OF id False leaf(1)] by fastforce
  qed
qed

termination XMLNode_ParseDeep
proof (relation "measure length", goal_cases)
  case 1
  then show ?case by simp
next
  case (2 p)
  then show ?case by (auto dest!: sym [of "(_, _)" "Identify _"] dest: tag_shorter)
next
  case 3
  then show ?case
    by (auto dest!: sym [of "(_, _)" "Identify _"]) (meson XMLNode_ParseDeep_shorter less_trans tag_shorter)
next
  case 4
  then show ?case by (auto dest!: sym [of "(_, _)" "Identify _"] dest: tag_shorter)
next
  case 5
  then show ?case by (auto dest!: sym [of "(_, _)" "Identify _"] dest: Leaf_shorter)
qed

declare XMLNode_ParseDeep.simps [simp del]

text \<open>\<open>XMLDocument::Parse\<close> of a \<open>std::string\<close>: the nodes and whether there was a byte order mark.\<close>

definition XMLDocument_Parse :: "string \<Rightarrow> xml_failure + xml_node list \<times> bool" where
  "XMLDocument_Parse xml =
     (let p = c_str xml in
      if p = [] then Inl (XmlError XML_ERROR_EMPTY_DOCUMENT)
      else let (p, bom) = ReadBOM (SkipWhiteSpace p) in
        if p = [] then Inl (XmlError XML_ERROR_EMPTY_DOCUMENT)
        else case XMLNode_ParseDeep p of Inl e \<Rightarrow> Inl e | Inr (nodes, _) \<Rightarrow> Inr (nodes, bom))"

subsection \<open>Printing\<close>

record printer =
  xp_elementJustOpened :: bool
  xp_firstElement :: bool
  xp_depth :: int
  xp_textDepth :: int
  xp_compactMode :: bool
  xp_stack :: "string list"
  xp_buffer :: string

definition XMLPrinter :: "bool \<Rightarrow> printer" where
  "XMLPrinter compact = \<lparr> xp_elementJustOpened = False, xp_firstElement = True, xp_depth = 0, xp_textDepth = -1,
     xp_compactMode = compact, xp_stack = [], xp_buffer = [] \<rparr>"

definition xp_Print :: "string \<Rightarrow> printer \<Rightarrow> printer" where
  "xp_Print str x = x\<lparr> xp_buffer := xp_buffer x @ str \<rparr>"

definition PrintSpace :: "int \<Rightarrow> printer \<Rightarrow> printer" where
  "PrintSpace depth = xp_Print (concat (replicate (nat depth) ''    ''))"

fun entity_of :: "(string \<times> char) list \<Rightarrow> char \<Rightarrow> string" where
  "entity_of [] q = []"
| "entity_of ((pattern, value) # es) q = (if value = q then ''&'' @ pattern @ '';'' else entity_of es q)"

definition entity_flag :: "bool \<Rightarrow> char \<Rightarrow> bool" where
  "entity_flag restricted q \<longleftrightarrow> (of_char q :: nat) < 64
     \<and> (if restricted then q \<in> {CHR ''&'', CHR ''<'', CHR ''>''} else q \<in> snd ` set entities)"

definition escaped :: "bool \<Rightarrow> string \<Rightarrow> string" where
  "escaped restricted str = concat (map (\<lambda>q. if entity_flag restricted q then entity_of entities q else [q]) str)"

definition PrintString :: "string \<Rightarrow> bool \<Rightarrow> printer \<Rightarrow> printer" where
  "PrintString p restricted = xp_Print (escaped restricted p)"

definition SealElement :: "printer \<Rightarrow> printer" where
  "SealElement x = xp_Print ''>'' (x\<lparr> xp_elementJustOpened := False \<rparr>)"

definition seal_opened :: "printer \<Rightarrow> printer" where
  "seal_opened x = (if xp_elementJustOpened x then SealElement x else x)"

definition OpenElement :: "string \<Rightarrow> printer \<Rightarrow> printer" where
  "OpenElement name x =
     (let x = seal_opened x;
          x = x\<lparr> xp_stack := name # xp_stack x \<rparr>;
          x = (if xp_textDepth x < 0 \<and> \<not> xp_firstElement x \<and> \<not> xp_compactMode x then xp_Print [CHR 0x0A] x else x);
          x = (if \<not> xp_compactMode x then PrintSpace (xp_depth x) x else x);
          x = xp_Print (''<'' @ name) x
      in x\<lparr> xp_elementJustOpened := True, xp_firstElement := False, xp_depth := xp_depth x + 1 \<rparr>)"

definition PushAttribute :: "string \<Rightarrow> string \<Rightarrow> printer \<Rightarrow> printer" where
  "PushAttribute name value x =
     xp_Print [CHR 0x22] (PrintString value False (xp_Print ('' '' @ name @ ''='' @ [CHR 0x22]) x))"

definition CloseElement :: "printer \<Rightarrow> printer" where
  "CloseElement x =
     (let x = x\<lparr> xp_depth := xp_depth x - 1 \<rparr>;
          name = hd (xp_stack x);
          x = x\<lparr> xp_stack := tl (xp_stack x) \<rparr>;
          x = (if xp_elementJustOpened x then xp_Print ''/>'' x
               else xp_Print (''</'' @ name @ ''>'')
                 (if xp_textDepth x < 0 \<and> \<not> xp_compactMode x then PrintSpace (xp_depth x) (xp_Print [CHR 0x0A] x) else x));
          x = (if xp_textDepth x = xp_depth x then x\<lparr> xp_textDepth := -1 \<rparr> else x);
          x = (if xp_depth x = 0 \<and> \<not> xp_compactMode x then xp_Print [CHR 0x0A] x else x)
      in x\<lparr> xp_elementJustOpened := False \<rparr>)"

definition PushText :: "string \<Rightarrow> bool \<Rightarrow> printer \<Rightarrow> printer" where
  "PushText str cdata x =
     (let x = seal_opened (x\<lparr> xp_textDepth := xp_depth x - 1 \<rparr>) in
      if cdata then xp_Print ('']]>'') (xp_Print str (xp_Print ''<![CDATA['' x)) else PrintString str True x)"

text \<open>\<open>PushComment\<close>, \<open>PushDeclaration\<close> and \<open>PushUnknown\<close> differ in the brackets.\<close>

definition PushBracketed :: "string \<Rightarrow> string \<Rightarrow> string \<Rightarrow> printer \<Rightarrow> printer" where
  "PushBracketed left right value x =
     (let x = seal_opened x;
          x = (if xp_textDepth x < 0 \<and> \<not> xp_firstElement x \<and> \<not> xp_compactMode x then PrintSpace (xp_depth x) (xp_Print [CHR 0x0A] x)
               else x)
      in xp_Print (left @ value @ right) (x\<lparr> xp_firstElement := False \<rparr>))"

text \<open>\<open>Accept\<close> of a node by the printer.\<close>

definition push_attribute :: "string \<times> str_pair \<Rightarrow> printer \<Rightarrow> printer res" where
  "push_attribute a x = bind_res (GetStr (snd a)) (\<lambda>value. Inr (PushAttribute (fst a) value x))"

fun XMLNode_Accept :: "xml_node \<Rightarrow> printer \<Rightarrow> printer res" where
  "XMLNode_Accept (XmlElement name as cs) x =
     bind_res (fold_res push_attribute as (OpenElement name x)) (\<lambda>x.
     bind_res (fold_res XMLNode_Accept cs x) (\<lambda>x. Inr (CloseElement x)))"
| "XMLNode_Accept (XmlText value cdata) x = bind_res (GetStr value) (\<lambda>str. Inr (PushText str cdata x))"
| "XMLNode_Accept (XmlComment value) x = bind_res (GetStr value) (\<lambda>str. Inr (PushBracketed ''<!--'' ''-->'' str x))"
| "XMLNode_Accept (XmlDeclaration value) x = bind_res (GetStr value) (\<lambda>str. Inr (PushBracketed ''<?'' ''?>'' str x))"
| "XMLNode_Accept (XmlUnknown value) x = bind_res (GetStr value) (\<lambda>str. Inr (PushBracketed ''<!'' ''>'' str x))"

definition XMLDocument_Print :: "xml_node list \<Rightarrow> bool \<Rightarrow> printer \<Rightarrow> printer res" where
  "XMLDocument_Print nodes bom x =
     fold_res XMLNode_Accept nodes (if bom then xp_Print [CHR 0xEF, CHR 0xBB, CHR 0xBF] x else x)"

end
