(* ===== verification/Xml.thy ===== *)
theory Xml
  imports TextDocument TinyXml
begin

section \<open>XML\<close>

text \<open>
  \<open>BBoxEnc/bbox/enc/ToXml\<close> and \<open>FromXml\<close> over the documents of TinyXML-2.
\<close>

subsection \<open>Writing\<close>

text \<open>
  \<open>m_cur_element\<close> and its ancestors, from the inside out; each is the last child of the next one, to
  which it is added when the cursor leaves it. With no element the cursor is the null pointer.
\<close>

record to_xml =
  xw_doc :: "xml_node list"
  xw_open :: "xml_node list"

definition ToXml :: "string \<Rightarrow> to_xml" where
  "ToXml root_element_name =
     \<lparr> xw_doc = [XmlDeclaration (SetStr ''xml version=\"1.0\" encoding=\"UTF-8\"'')], xw_open = [XmlElement root_element_name [] []] \<rparr>"

definition ToXml_StartNamedItem :: "string \<Rightarrow> to_xml \<Rightarrow> to_xml res" where
  "ToXml_StartNamedItem name m =
     (if xw_open m = [] then Inl NullPointer
      else Inr (m\<lparr> xw_open := XmlElement name [] [] # xw_open m \<rparr>))"

definition ToXml_CompleteNamedItem :: "to_xml \<Rightarrow> to_xml res" where
  "ToXml_CompleteNamedItem m = (case xw_open m of
       [] \<Rightarrow> Inl NullPointer
     | [root] \<Rightarrow> Inr (m\<lparr> xw_doc := xw_doc m @ [root], xw_open := [] \<rparr>)
     | cur # parent # up \<Rightarrow> Inr (m\<lparr> xw_open := InsertEndChild cur parent # up \<rparr>))"

definition ToXml_StartStructure :: "to_xml \<Rightarrow> to_xml res" where
  "ToXml_StartStructure m = Inr m"

definition ToXml_CompleteStructure :: "to_xml \<Rightarrow> to_xml res" where
  "ToXml_CompleteStructure m = Inr m"

text \<open>As in \<open>EscapeString\<close> a plain \<open>char\<close> is taken to be signed.\<close>

definition as_attribute :: "string \<Rightarrow> bool" where
  "as_attribute canonical \<longleftrightarrow> length canonical < 80
     \<and> list_all (\<lambda>ch. \<not> (signed_char ch < signed_char (CHR '' '') \<or> signed_char ch > signed_char (CHR ''~''))) canonical"

fun set_string_value :: "string \<Rightarrow> xml_node \<Rightarrow> xml_node" where
  "set_string_value canonical (XmlElement n as cs) =
     (if as_attribute canonical then XmlElement n (SetAttribute ''value'' (c_str canonical) as) cs
      else InsertFirstChild (XmlText (SetStr (c_str canonical)) True) (XmlElement n as cs))"
| "set_string_value canonical n = n"

definition ToXml_SetStringValue :: "string \<Rightarrow> to_xml \<Rightarrow> to_xml res" where
  "ToXml_SetStringValue canonical m = (case xw_open m of
       [] \<Rightarrow> Inl NullPointer
     | cur # up \<Rightarrow> Inr (m\<lparr> xw_open := set_string_value canonical cur # up \<rparr>))"

definition ToXml_writer :: "e_target \<Rightarrow> to_xml text_writer" where
  "ToXml_writer target =
     \<lparr> tw_target = target, tw_StartNamedItem = ToXml_StartNamedItem, tw_CompleteNamedItem = ToXml_CompleteNamedItem,
       tw_StartStructure = ToXml_StartStructure, tw_CompleteStructure = ToXml_CompleteStructure,
       tw_SetStringValue = ToXml_SetStringValue \<rparr>"

text \<open>The nodes of the document that the \<open>XMLDocument\<close> holds.\<close>

definition xml_document :: "to_xml \<Rightarrow> xml_node list" where
  "xml_document m = xw_doc m @ (case xw_open m of [] \<Rightarrow> [] | cur # up \<Rightarrow> [foldl InsertEndChild cur up])"


subsection \<open>Reading\<close>

text \<open>
  \<open>m_cur_element\<close> with the siblings that follow it, and the same for each of its ancestors, from the
  inside out; the null pointer is the empty list. \<open>xr_error\<close> is \<open>m_ErrorStr\<close> when \<open>m_Error\<close> is set.
\<close>

record from_xml =
  xr_doc :: "xml_node list"
  xr_cur :: "(xml_node \<times> xml_node list) list"
  xr_value_mode :: bool
  xr_first_in_structure :: bool
  xr_error :: "string option"

definition FromXml_SetError :: "string \<Rightarrow> from_xml \<Rightarrow> from_xml" where
  "FromXml_SetError error_str m = (if xr_error m = None then m\<lparr> xr_error := Some error_str \<rparr> else m)"

definition FromXml_HasError :: "from_xml \<Rightarrow> bool" where
  "FromXml_HasError m \<longleftrightarrow> xr_error m \<noteq> None"

text \<open>
  The constructor. After an error it leaves the other members unset; no operation reads them then,
  as each looks at the error first.
\<close>

definition FromXml :: "string \<Rightarrow> from_xml res" where
  "FromXml xml =
     (case XMLDocument_Parse xml of
        Inl (XmlFault e) \<Rightarrow> Inl e
      | Inl (XmlError error) \<Rightarrow> Inr (FromXml_SetError
          (Format ''Could not decode XML: %s'' [ArgStr (Error_ToString (\<lambda>_. xml_error_message error) (make_error_code error))])
          \<lparr> xr_doc = [], xr_cur = [], xr_value_mode = False, xr_first_in_structure = False, xr_error = None \<rparr>)
      | Inr (doc, _) \<Rightarrow> Inr \<lparr> xr_doc = doc, xr_cur = [], xr_value_mode = False, xr_first_in_structure = True, xr_error = None \<rparr>)"

text \<open>The next element in the current structure, with the siblings after it, and the ancestors that it has.\<close>

definition next_el :: "from_xml \<Rightarrow> ((xml_node \<times> xml_node list) \<times> (xml_node \<times> xml_node list) list) option" where
  "next_el m = (case xr_cur m of
       [] \<Rightarrow> (if xr_first_in_structure m then map_option (\<lambda>e. (e, [])) (first_element (xr_doc m)) else None)
     | (e, siblings) # up \<Rightarrow>
         (if xr_first_in_structure m then map_option (\<lambda>c. (c, (e, siblings) # up)) (first_element (xn_children e))
          else map_option (\<lambda>c. (c, up)) (first_element siblings)))"

fun count_elements :: "xml_node list \<Rightarrow> nat" where
  "count_elements [] = 0"
| "count_elements (XmlElement n as cs # ns) = Suc (count_elements ns)"
| "count_elements (_ # ns) = count_elements ns"

definition FromXml_EstimateNumNamedItemsInStructure :: "from_xml \<Rightarrow> nat" where
  "FromXml_EstimateNumNamedItemsInStructure m =
     (if FromXml_HasError m then 0
      else if xr_value_mode m then 0
      else case xr_cur m of
          [] \<Rightarrow> (if xr_first_in_structure m then count_elements (xr_doc m) else 0)
        | (e, siblings) # up \<Rightarrow>
            (if xr_first_in_structure m then count_elements (xn_children e)
             else case up of
                 [] \<Rightarrow> count_elements (xr_doc m)
               | (parent, _) # _ \<Rightarrow> count_elements (xn_children parent)))"

definition FromXml_HasNextNamedItem :: "string \<Rightarrow> from_xml \<Rightarrow> bool" where
  "FromXml_HasNextNamedItem name m =
     (if FromXml_HasError m then False
      else if xr_value_mode m then False
      else case next_el m of None \<Rightarrow> False | Some ((e, _), _) \<Rightarrow> name = xn_name e)"

definition FromXml_StartNamedItem :: "string \<Rightarrow> from_xml \<Rightarrow> from_xml res" where
  "FromXml_StartNamedItem name m =
     (if FromXml_HasError m then Inr m
      else if xr_value_mode m then
        Inr (FromXml_SetError ''Cannot start named item in value mode - need to call StartStructure first'' m)
      else case next_el m of
          None \<Rightarrow> Inr (FromXml_SetError (Format ''No next element searching for \"%s\"'' [ArgStr name]) m)
        | Some ((e, siblings), up) \<Rightarrow>
            (if name \<noteq> xn_name e then
               Inr (FromXml_SetError (Format ''Found next element \"%s\" but expecting \"%s\"'' [ArgStr (xn_name e), ArgStr name]) m)
             else Inr (m\<lparr> xr_cur := (e, siblings) # up, xr_value_mode := True, xr_first_in_structure := False \<rparr>)))"

definition FromXml_CompleteNamedItem :: "from_xml \<Rightarrow> from_xml res" where
  "FromXml_CompleteNamedItem m =
     (if FromXml_HasError m then Inr m
      else if \<not> xr_value_mode m then Inr (FromXml_SetError ''Called CompleteNamedItem when not in value mode'' m)
      else Inr (m\<lparr> xr_value_mode := False, xr_first_in_structure := False \<rparr>))"

definition FromXml_StartStructure :: "from_xml \<Rightarrow> from_xml res" where
  "FromXml_StartStructure m =
     (if FromXml_HasError m then Inr m
      else if \<not> xr_value_mode m then Inr (FromXml_SetError ''StartStructure called when not in value mode'' m)
      else Inr (m\<lparr> xr_value_mode := False, xr_first_in_structure := True \<rparr>))"

definition FromXml_CompleteStructure :: "from_xml \<Rightarrow> from_xml res" where
  "FromXml_CompleteStructure m =
     (if FromXml_HasError m then Inr m
      else if xr_value_mode m then Inr (FromXml_SetError ''CompleteStructure call in value mode'' m)
      else case xr_cur m of
          [] \<Rightarrow> Inl (AssertFailed ''m_cur_element'')
        | (e, siblings) # up \<Rightarrow>
            (case first_element (if xr_first_in_structure m then xn_children e else siblings) of
               Some (remaining_el, _) \<Rightarrow>
                 Inr (FromXml_SetError (Format ''Undecoded element \"%s\" remaining in structure'' [ArgStr (xn_name remaining_el)]) m)
             | None \<Rightarrow> Inr (m\<lparr> xr_cur := (if xr_first_in_structure m then xr_cur m else up),
                   xr_value_mode := True, xr_first_in_structure := False \<rparr>)))"

definition FromXml_DecodeStringValue :: "from_xml \<Rightarrow> (string \<times> from_xml) res" where
  "FromXml_DecodeStringValue m =
     (if FromXml_HasError m then Inr ([], m)
      else if \<not> xr_value_mode m then Inr ([], FromXml_SetError ''DecodeValue called when not in value mode'' m)
      else case xr_cur m of
          [] \<Rightarrow> Inl NullPointer
        | (e, _) # _ \<Rightarrow>
            bind_res (Attribute ''value'' (xn_attrs e)) (\<lambda>attr_ptr.
              case (attr_ptr, xn_children e) of
                (Some value, []) \<Rightarrow> Inr (value, m)
              | (None, []) \<Rightarrow> Inl NullPointer
              | (None, [XmlText text_ptr _]) \<Rightarrow> bind_res (GetStr text_ptr) (\<lambda>value. Inr (value, m))
              | _ \<Rightarrow> Inr ([], FromXml_SetError ''Expect either value attribute or text content'' m)))"

definition FromXml_EnsureAllDecoded :: "from_xml \<Rightarrow> from_xml" where
  "FromXml_EnsureAllDecoded m =
     (if FromXml_HasError m then m
      else if \<not> xr_value_mode m
        \<and> (case first_element (xr_doc m) of
             None \<Rightarrow> xr_cur m = []
           | Some (_, siblings) \<Rightarrow> (case xr_cur m of [(_, siblings')] \<Rightarrow> length siblings' = length siblings | _ \<Rightarrow> False)) then m
      else FromXml_SetError ''Undecoded data remaining'' m)"

definition FromXml_reader :: "from_xml text_reader" where
  "FromXml_reader =
     \<lparr> tr_HasError = FromXml_HasError, tr_SetError = FromXml_SetError, tr_StartNamedItem = FromXml_StartNamedItem,
       tr_CompleteNamedItem = FromXml_CompleteNamedItem, tr_StartStructure = FromXml_StartStructure,
       tr_CompleteStructure = FromXml_CompleteStructure, tr_DecodeStringValue = FromXml_DecodeStringValue \<rparr>"

subsection \<open>The document of a value in XML\<close>

fun no_nul :: "doc \<Rightarrow> bool" where
  "no_nul (DocText s) = (CHR 0x00 \<notin> set s)"
| "no_nul (DocItems ds) = list_all (\<lambda>(n, d). no_nul d) ds"

fun xml_of :: "string \<Rightarrow> doc \<Rightarrow> xml_node" where
  "xml_of n (DocText s) = set_string_value s (XmlElement n [] [])"
| "xml_of n (DocItems ds) = XmlElement n [] (map (\<lambda>(n, d). xml_of n d) ds)"

definition xml_items :: "(string \<times> doc) list \<Rightarrow> xml_node list" where
  "xml_items ds = map (\<lambda>(n, d). xml_of n d) ds"

fun add_children :: "xml_node list \<Rightarrow> xml_node \<Rightarrow> xml_node" where
  "add_children cs' (XmlElement n as cs) = XmlElement n as (cs @ cs')"
| "add_children cs' n = n"

fun is_element :: "xml_node \<Rightarrow> bool" where
  "is_element (XmlElement n as cs) = True"
| "is_element _ = False"

fun xw_map_cur :: "(xml_node \<Rightarrow> xml_node) \<Rightarrow> to_xml \<Rightarrow> to_xml" where
  "xw_map_cur f m = m\<lparr> xw_open := (case xw_open m of [] \<Rightarrow> [] | cur # up \<Rightarrow> f cur # up) \<rparr>"

definition xw_ok :: "to_xml \<Rightarrow> bool" where
  "xw_ok m \<longleftrightarrow> xw_open m \<noteq> [] \<and> list_all is_element (xw_open m)"

fun xw_put :: "doc \<Rightarrow> to_xml \<Rightarrow> to_xml" where
  "xw_put (DocText s) m = xw_map_cur (set_string_value s) m"
| "xw_put (DocItems ds) m = xw_map_cur (add_children (xml_items ds)) m"

lemma is_elementD: "is_element e \<Longrightarrow> \<exists>n as cs. e = XmlElement n as cs"
  by (cases e) auto

lemma xw_okD: "xw_ok m \<Longrightarrow> \<exists>n as cs up. xw_open m = XmlElement n as cs # up \<and> list_all is_element up"
  by (cases "xw_open m") (auto simp: xw_ok_def dest: is_elementD)

lemma xml_of_items: "xml_of n (DocItems ds) = XmlElement n [] (xml_items ds)"
  by (simp add: xml_items_def)

lemma xml_of_put: "(case d of DocText s \<Rightarrow> set_string_value s | DocItems ds \<Rightarrow> add_children (xml_items ds)) (XmlElement n [] []) = xml_of n d"
  by (cases d) (auto simp: xml_items_def)

lemma xw_put_eq: "xw_put d = xw_map_cur (case d of DocText s \<Rightarrow> set_string_value s | DocItems ds \<Rightarrow> add_children (xml_items ds))"
  by (cases d) auto

interpretation xo: text_output "ToXml_writer MACHINE_ROUND_TRIP" xw_ok xw_put "\<lambda>ds. xw_put (DocItems ds)"
proof
  show "tw_target (ToXml_writer MACHINE_ROUND_TRIP) = MACHINE_ROUND_TRIP"
    by (simp add: ToXml_writer_def)
next
  fix m :: to_xml and ds
  assume "xw_ok m"
  then obtain n as cs up where "xw_open m = XmlElement n as cs # up" "list_all is_element up"
    using xw_okD by blast
  then show "xw_ok (xw_put (DocItems ds) m)"
    by (simp add: xw_ok_def)
next
  fix m s
  assume "xw_ok m"
  then show "tw_SetStringValue (ToXml_writer MACHINE_ROUND_TRIP) s m = Inr (xw_put (DocText s) m)"
    by (auto dest!: xw_okD simp: ToXml_writer_def ToXml_SetStringValue_def)
next
  fix m
  assume "xw_ok m"
  then show "tw_StartStructure (ToXml_writer MACHINE_ROUND_TRIP) m = Inr (xw_put (DocItems []) m)"
    by (auto dest!: xw_okD simp: ToXml_writer_def ToXml_StartStructure_def xml_items_def)
next
  fix m n ds
  assume "xw_ok m"
  then obtain e as cs up where m: "xw_open m = XmlElement e as cs # up" "list_all is_element up"
    using xw_okD by blast
  define m1 where "m1 = m\<lparr> xw_open := XmlElement n [] [] # XmlElement e as (cs @ xml_items ds) # up \<rparr>"
  have "tw_StartNamedItem (ToXml_writer MACHINE_ROUND_TRIP) n (xw_put (DocItems ds) m) = Inr m1"
    using m by (simp add: ToXml_writer_def ToXml_StartNamedItem_def m1_def)
  moreover have "xw_ok m1"
    using m by (simp add: xw_ok_def m1_def)
  moreover have "tw_CompleteNamedItem (ToXml_writer MACHINE_ROUND_TRIP) (xw_put d m1) = Inr (xw_put (DocItems (ds @ [(n, d)])) m)" for d
    using m by (simp add: ToXml_writer_def ToXml_CompleteNamedItem_def m1_def xml_items_def xml_of_put xw_put_eq)
  ultimately show "\<exists>m1. tw_StartNamedItem (ToXml_writer MACHINE_ROUND_TRIP) n (xw_put (DocItems ds) m) = Inr m1 \<and> xw_ok m1
      \<and> (\<forall>d. tw_CompleteNamedItem (ToXml_writer MACHINE_ROUND_TRIP) (xw_put d m1) = Inr (xw_put (DocItems (ds @ [(n, d)])) m))"
    by blast
next
  fix m ds
  show "tw_CompleteStructure (ToXml_writer MACHINE_ROUND_TRIP) (xw_put (DocItems ds) m) = Inr (xw_put (DocItems ds) m)"
    by (simp add: ToXml_writer_def ToXml_CompleteStructure_def)
qed

text \<open>An element whose contents stand for a document, and elements for the items of a structure.\<close>

fun represents :: "doc \<Rightarrow> xml_node \<Rightarrow> bool"
  and represents_items :: "(string \<times> doc) list \<Rightarrow> xml_node list \<Rightarrow> bool" where
  "represents (DocText s) e =
     ((\<exists>n sp. e = XmlElement n [(''value'', sp)] [] \<and> GetStr sp = Inr s)
    \<or> (\<exists>n sp cdata. e = XmlElement n [] [XmlText sp cdata] \<and> GetStr sp = Inr s))"
| "represents (DocItems ds) e = (\<exists>n as cs. e = XmlElement n as cs \<and> represents_items ds cs)"
| "represents_items [] cs = (cs = [])"
| "represents_items ((n, d) # ds) cs = (\<exists>c cs'. cs = c # cs' \<and> xn_name c = n \<and> represents d c \<and> represents_items ds cs')"

lemma represents_element: "represents d e \<Longrightarrow> is_element e"
  by (cases d) auto

text \<open>
  In value mode at an element that stands for \<open>d\<close>; in a structure before its items or after some of
  them.
\<close>

definition xr_reads :: "doc \<Rightarrow> from_xml \<Rightarrow> from_xml \<Rightarrow> bool" where
  "xr_reads d m m' \<longleftrightarrow> xr_error m = None \<and> xr_value_mode m \<and> \<not> xr_first_in_structure m
     \<and> (\<exists>e siblings up. xr_cur m = (e, siblings) # up \<and> represents d e) \<and> m' = m"

definition xr_items :: "(string \<times> doc) list \<Rightarrow> from_xml \<Rightarrow> from_xml \<Rightarrow> bool" where
  "xr_items ds m m' \<longleftrightarrow> xr_error m = None \<and> \<not> xr_value_mode m
     \<and> (if xr_first_in_structure m then
          (\<exists>n as cs siblings up. xr_cur m = (XmlElement n as cs, siblings) # up \<and> represents_items ds cs)
          \<and> m' = m\<lparr> xr_value_mode := True, xr_first_in_structure := False \<rparr>
        else (\<exists>c cs parent up. xr_cur m = (c, cs) # parent # up \<and> represents_items ds cs)
          \<and> m' = m\<lparr> xr_cur := tl (xr_cur m), xr_value_mode := True, xr_first_in_structure := False \<rparr>)"

lemma first_element_is [simp]: "is_element e \<Longrightarrow> first_element (e # ns) = Some (e, ns)"
  by (cases e) auto

lemma c_str_id: "CHR 0x00 \<notin> set s \<Longrightarrow> c_str s = s"
  by (auto simp: c_str_def intro: takeWhile_eq_all_conv [THEN iffD2])

lemma c_str_idem [simp]: "c_str (c_str s) = c_str s"
  by (auto simp: c_str_def intro: takeWhile_eq_all_conv [THEN iffD2] dest: set_takeWhileD)

lemma GetStr_SetStr [simp]: "GetStr (SetStr s) = Inr (c_str s)"
  by (simp add: GetStr_def SetStr_def)

lemmas from_xml_ops = FromXml_reader_def FromXml_DecodeStringValue_def FromXml_StartStructure_def FromXml_CompleteStructure_def
  FromXml_StartNamedItem_def FromXml_CompleteNamedItem_def next_el_def FromXml_HasError_def

interpretation xi: text_input FromXml_reader xr_reads xr_items
proof
  fix s m m'
  assume "xr_reads (DocText s) m m'"
  then show "tr_DecodeStringValue FromXml_reader m = Inr (s, m')"
    by (auto simp: xr_reads_def from_xml_ops Attribute_def)
next
  fix ds m m'
  assume "xr_reads (DocItems ds) m m'"
  then have "tr_StartStructure FromXml_reader m = Inr (m\<lparr> xr_value_mode := False, xr_first_in_structure := True \<rparr>)"
      "xr_items ds (m\<lparr> xr_value_mode := False, xr_first_in_structure := True \<rparr>) m'"
    by (auto simp: xr_reads_def xr_items_def from_xml_ops)
  then show "\<exists>m1. tr_StartStructure FromXml_reader m = Inr m1 \<and> xr_items ds m1 m'"
    by blast
next
  fix m m'
  assume "xr_items [] m m'"
  then show "tr_CompleteStructure FromXml_reader m = Inr m'"
    by (auto simp: xr_items_def from_xml_ops split: if_splits)
next
  fix n d ds m m'
  assume i: "xr_items ((n, d) # ds) m m'"
  obtain c cs up where nxt: "next_el m = Some ((c, cs), up)" and c: "xn_name c = n" "represents d c" "represents_items ds cs"
      and up: "up \<noteq> []" and m': "m' = m\<lparr> xr_cur := up, xr_value_mode := True, xr_first_in_structure := False \<rparr>"
    using i represents_element
    by (fastforce simp: xr_items_def next_el_def split: if_splits)
  define m1 where "m1 = m\<lparr> xr_cur := (c, cs) # up, xr_value_mode := True, xr_first_in_structure := False \<rparr>"
  have m1: "tr_StartNamedItem FromXml_reader n m = Inr m1" "xr_reads d m1 m1"
      "xr_items ds (m1\<lparr> xr_value_mode := False, xr_first_in_structure := False \<rparr>) m'"
    using i nxt c up m' by (auto simp: xr_items_def xr_reads_def FromXml_reader_def FromXml_StartNamedItem_def FromXml_HasError_def
        m1_def neq_Nil_conv)
  then have "tr_CompleteNamedItem FromXml_reader m1 = Inr (m1\<lparr> xr_value_mode := False, xr_first_in_structure := False \<rparr>)"
    by (simp add: xr_reads_def from_xml_ops)
  with m1 show "\<exists>m1 m2 m3. tr_StartNamedItem FromXml_reader n m = Inr m1 \<and> xr_reads d m1 m2
      \<and> tr_CompleteNamedItem FromXml_reader m2 = Inr m3 \<and> xr_items ds m3 m'"
    by blast
next
  fix d ds m m'
  show "xr_reads d m m' \<Longrightarrow> \<not> tr_HasError FromXml_reader m \<and> \<not> tr_HasError FromXml_reader m'"
    by (auto simp: xr_reads_def from_xml_ops)
  show "xr_items ds m m' \<Longrightarrow> \<not> tr_HasError FromXml_reader m"
    by (auto simp: xr_items_def from_xml_ops)
qed


interpretation xe: text_errors FromXml_reader
  by unfold_locales (simp_all add: from_xml_ops FromXml_SetError_def)

text \<open>C31: once an XML decoder has an error, decoding a value of any type leaves it as it is.\<close>

theorem FromXml_after_error:
  assumes "xr_error m = Some e" "lib [] = None"
  shows "\<exists>v. DecodeValue (Suc fuel) p FromXml_reader lib t old m = Inr (v, m)"
  unfolding DecodeValue_def
  by (rule xe.skipsD [OF xe.skips_read_text [OF xe.skips_DecodeMsgAnyPtr]]) (use assms in \<open>simp_all add: from_xml_ops\<close>)

definition demo_failed_xml :: from_xml where
  "demo_failed_xml = \<lparr>xr_doc = [], xr_cur = [], xr_value_mode = False, xr_first_in_structure = True, xr_error = Some ''bad''\<rparr>"

theorem FromXml_after_error_witness:
  "\<exists>v. DecodeValue (Suc 0) demo_text_params FromXml_reader (\<lambda>_. None) (TVector TMsgAnyPtr) VNull demo_failed_xml = Inr (v, demo_failed_xml)"
  by (rule FromXml_after_error [where e = "''bad''"]) (simp_all add: demo_failed_xml_def)

end
