(* ===== verification/XmlText.thy ===== *)
theory XmlText
  imports Xml
begin

section \<open>The text of an XML document\<close>

text \<open>
  \<open>ToXml::ConvertToString\<close> and \<open>ConvertToPretty\<close>: a value to the text of a document. What the printer
  writes for a document, the parser reads as nodes that stand for it, in both layouts.
\<close>

definition ConvertToXml :: "bool \<Rightarrow> string \<Rightarrow> text_lib \<Rightarrow> tty \<Rightarrow> val \<Rightarrow> string res" where
  "ConvertToXml compact root_element_name lib t v =
     bind_res (write_text (ToXml_writer MACHINE_ROUND_TRIP) lib t v (ToXml root_element_name)) (\<lambda>to_xml.
     bind_res (XMLDocument_Print (xml_document to_xml) False (XMLPrinter compact)) (\<lambda>printer.
       Inr (c_str (xp_buffer printer) @ (if compact then [] else [CHR 0x0A]))))"

text \<open>The decoding of a named value of which nothing may be left over.\<close>

definition DecodeXml :: "nat \<Rightarrow> text_params \<Rightarrow> text_lib \<Rightarrow> string \<Rightarrow> tty \<Rightarrow> val \<Rightarrow> string \<Rightarrow> (val \<times> from_xml) res" where
  "DecodeXml fuel p lib name t old xml =
     bind_res (FromXml xml) (\<lambda>m. bind_res (decode_named FromXml_reader name (DecodeValue fuel p FromXml_reader lib t old) m)
       (\<lambda>(v, m). Inr (v, FromXml_EnsureAllDecoded m)))"

subsection \<open>The printed text\<close>

definition indent :: "bool \<Rightarrow> nat \<Rightarrow> string" where
  "indent compact k = (if compact then [] else CHR 0x0A # concat (replicate k ''    ''))"

fun xml_text :: "bool \<Rightarrow> nat \<Rightarrow> string \<Rightarrow> doc \<Rightarrow> string" where
  "xml_text c k n (DocText s) =
     (if as_attribute s then ''<'' @ n @ '' value='' @ [CHR 0x22] @ escaped False s @ [CHR 0x22] @ ''/>''
      else ''<'' @ n @ ''><![CDATA['' @ s @ '']]></'' @ n @ ''>'')"
| "xml_text c k n (DocItems ds) =
     (if ds = [] then ''<'' @ n @ ''/>''
      else ''<'' @ n @ ''>'' @ concat (map (\<lambda>(n, d). indent c (Suc k) @ xml_text c (Suc k) n d) ds)
        @ indent c k @ ''</'' @ n @ ''>'')"

definition at_depth :: "bool \<Rightarrow> nat \<Rightarrow> printer \<Rightarrow> bool" where
  "at_depth c k x \<longleftrightarrow> xp_compactMode x = c \<and> xp_depth x = int k \<and> xp_textDepth x = -1 \<and> \<not> xp_firstElement x"

definition printed :: "string \<Rightarrow> printer \<Rightarrow> printer" where
  "printed str x = x\<lparr> xp_elementJustOpened := False, xp_buffer := xp_buffer x @ (if xp_elementJustOpened x then ''>'' else []) @ str \<rparr>"

lemmas print_simps = OpenElement_def CloseElement_def seal_opened_def SealElement_def xp_Print_def PrintSpace_def
  PushAttribute_def PrintString_def PushText_def Let_def

lemma as_attribute_no_nul: "as_attribute s \<Longrightarrow> CHR 0x00 \<notin> set s"
  by (auto simp: as_attribute_def list_all_iff signed_char_def)

lemma print_items:
  assumes "\<And>n d x. (n, d) \<in> set ds \<Longrightarrow> at_depth c (Suc k) x
      \<Longrightarrow> XMLNode_Accept (xml_of n d) x = Inr (printed (indent c (Suc k) @ xml_text c (Suc k) n d) x)"
    and "at_depth c (Suc k) x" "ds \<noteq> []"
  shows "fold_res XMLNode_Accept (xml_items ds) x
    = Inr (printed (concat (map (\<lambda>(n, d). indent c (Suc k) @ xml_text c (Suc k) n d) ds)) x)"
  using assms
proof (induction ds arbitrary: x)
  case (Cons e ds)
  obtain n d where e: "e = (n, d)"
    by fastforce
  define y where "y = printed (indent c (Suc k) @ xml_text c (Suc k) n d) x"
  have y: "at_depth c (Suc k) y"
    using Cons.prems(2) by (simp add: at_depth_def y_def printed_def)
  have x: "XMLNode_Accept (xml_of n d) x = Inr y"
    unfolding y_def by (rule Cons.prems(1)) (use e Cons.prems(2) in auto)
  show ?case
  proof (cases "ds = []")
    case True
    then show ?thesis
      using e x by (simp add: xml_items_def y_def)
  next
    case False
    have "fold_res XMLNode_Accept (xml_items ds) y
        = Inr (printed (concat (map (\<lambda>(n, d). indent c (Suc k) @ xml_text c (Suc k) n d) ds)) y)"
      by (rule Cons.IH [OF Cons.prems(1) y False]) simp_all
    then show ?thesis
      using e x by (simp add: xml_items_def y_def printed_def)
  qed
qed simp

definition opened :: "string \<Rightarrow> nat \<Rightarrow> printer \<Rightarrow> printer" where
  "opened n k x = x\<lparr> xp_elementJustOpened := True, xp_depth := int k + 1, xp_stack := n # xp_stack x \<rparr>"

lemma OpenElement_at: "at_depth c k x \<Longrightarrow> OpenElement n x = opened n k (printed (indent c k @ ''<'' @ n) x)"
  by (cases c) (simp_all add: at_depth_def OpenElement_def printed_def opened_def indent_def seal_opened_def SealElement_def xp_Print_def
      PrintSpace_def Let_def)

definition root_end :: "bool \<Rightarrow> nat \<Rightarrow> string" where
  "root_end c k = (if k = 0 \<and> \<not> c then [CHR 0x0A] else [])"

lemma CloseElement_empty:
  "at_depth c k x \<Longrightarrow> CloseElement (xp_Print str (opened n k x)) = x\<lparr> xp_elementJustOpened := False, xp_buffer := xp_buffer x @ str @ ''/>'' @ root_end c k \<rparr>"
  by (cases x) (auto simp: at_depth_def CloseElement_def opened_def xp_Print_def Let_def root_end_def)

lemma CloseElement_text:
  "at_depth c k x \<Longrightarrow> CloseElement (PushText s True (opened n k x))
     = x\<lparr> xp_elementJustOpened := False, xp_buffer := xp_buffer x @ ''><![CDATA['' @ s @ '']]></'' @ n @ ''>'' @ root_end c k \<rparr>"
  by (cases x) (simp add: at_depth_def CloseElement_def PushText_def opened_def xp_Print_def seal_opened_def SealElement_def
      Let_def root_end_def)

lemma CloseElement_items:
  "at_depth c k x \<Longrightarrow> CloseElement (printed str (opened n k x))
     = x\<lparr> xp_elementJustOpened := False, xp_buffer := xp_buffer x @ ''>'' @ str @ indent c k @ ''</'' @ n @ ''>'' @ root_end c k \<rparr>"
  by (cases x) (simp add: at_depth_def CloseElement_def printed_def opened_def xp_Print_def PrintSpace_def indent_def
      Let_def root_end_def)

lemma print_xml_of:
  assumes "no_nul d" "at_depth c k x"
  shows "XMLNode_Accept (xml_of n d) x
    = Inr (printed (indent c k @ xml_text c k n d @ root_end c k) x)"
  using assms
proof (induction c k n d arbitrary: x rule: xml_text.induct)
  case (1 c k n s)
  note x = OpenElement_at [OF 1(2), of n]
  let ?x = "printed (indent c k @ ''<'' @ n) x"
  have at: "at_depth c k ?x"
    using 1(2) by (simp add: at_depth_def printed_def)
  show ?case
  proof (cases "as_attribute s")
    case True
    have "PushAttribute ''value'' s (opened n k ?x) = xp_Print ('' value='' @ [CHR 0x22] @ escaped False s @ [CHR 0x22]) (opened n k ?x)"
      by (simp add: PushAttribute_def PrintString_def xp_Print_def)
    then show ?thesis
      using True 1(1) x CloseElement_empty [OF at] by (simp add: push_attribute_def c_str_id printed_def root_end_def)
  next
    case False
    then show ?thesis
      using 1(1) x CloseElement_text [OF at] by (simp add: c_str_id printed_def)
  qed
next
  case (2 c k n ds)
  let ?x = "printed (indent c k @ ''<'' @ n) x"
  have at: "at_depth c k ?x"
    using 2(3) by (simp add: at_depth_def printed_def)
  note x = OpenElement_at [OF 2(3), of n]
  show ?case
  proof (cases "ds = []")
    case True
    then show ?thesis
      using x CloseElement_empty [OF at, of "[]" n] by (simp add: printed_def xp_Print_def root_end_def)
  next
    case False
    have "fold_res XMLNode_Accept (xml_items ds) (opened n k ?x)
        = Inr (printed (concat (map (\<lambda>(n, d). indent c (Suc k) @ xml_text c (Suc k) n d) ds)) (opened n k ?x))"
    proof (rule print_items [OF _ _ False])
      show "at_depth c (Suc k) (opened n k ?x)"
        using at by (simp add: at_depth_def opened_def)
      fix m d z
      assume "(m, d) \<in> set ds" "at_depth c (Suc k) z"
      then show "XMLNode_Accept (xml_of m d) z = Inr (printed (indent c (Suc k) @ xml_text c (Suc k) m d) z)"
        using 2(1) [OF False _ _, of "(m, d)" m d z] 2(2) by (auto simp: list_all_iff root_end_def)
    qed
    then show ?thesis
      using x False CloseElement_items [OF at] by (simp add: xml_of_items printed_def del: xml_of.simps)
  qed
qed


definition xml_header :: string where
  "xml_header = ''xml version=\"1.0\" encoding=\"UTF-8\"''"

definition xml_file :: "bool \<Rightarrow> string \<Rightarrow> doc \<Rightarrow> string" where
  "xml_file c n d = ''<?'' @ xml_header @ ''?>'' @ indent c 0 @ xml_text c 0 n d @ (if c then [] else [CHR 0x0A, CHR 0x0A])"

lemma xml_document_put: "xml_document (xw_put d (ToXml n)) = [XmlDeclaration (SetStr xml_header), xml_of n d]"
  by (simp add: xml_document_def xw_put_eq ToXml_def xml_of_put xml_header_def)

lemma print_document:
  assumes "no_nul d"
  shows "\<exists>x. XMLDocument_Print [XmlDeclaration (SetStr xml_header), xml_of n d] False (XMLPrinter c) = Inr x
    \<and> xp_buffer x @ (if c then [] else [CHR 0x0A]) = xml_file c n d"
proof -
  define x where "x = (XMLPrinter c)\<lparr> xp_firstElement := False, xp_buffer := ''<?'' @ xml_header @ ''?>'' \<rparr>"
  have "XMLNode_Accept (XmlDeclaration (SetStr xml_header)) (XMLPrinter c) = Inr x"
    by (simp add: xml_header_def x_def XMLPrinter_def PushBracketed_def seal_opened_def xp_Print_def c_str_def Let_def)
  moreover have "at_depth c 0 x" "\<not> xp_elementJustOpened x"
    by (simp_all add: at_depth_def x_def XMLPrinter_def)
  ultimately show ?thesis
    using print_xml_of [OF assms, of c 0 x n]
    by (auto simp: XMLDocument_Print_def printed_def x_def xml_file_def root_end_def)
qed

subsection \<open>Parsing the printed text\<close>

definition valid_name :: "string \<Rightarrow> bool" where
  "valid_name n \<longleftrightarrow> (case n of [] \<Rightarrow> False | c # cs \<Rightarrow> IsNameStartChar c \<and> list_all IsNameChar cs)"

fun contains :: "string \<Rightarrow> string \<Rightarrow> bool" where
  "contains [] e = (e = [])"
| "contains (c # s) e = (starts_with (c # s) e \<or> contains s e)"

text \<open>
  The documents whose text can be parsed: names that are XML names, no NUL in a text, and no end of a CDATA
  section in a text that is written as one. A carriage return there is not kept, so the documents
  that the text keeps have none.
\<close>

fun xml_parsable :: "doc \<Rightarrow> bool" where
  "xml_parsable (DocText s) = (CHR 0x00 \<notin> set s \<and> (as_attribute s \<or> \<not> contains s '']]>''))"
| "xml_parsable (DocItems ds) = list_all (\<lambda>(n, d). valid_name n \<and> xml_parsable d) ds"

fun xml_safe :: "doc \<Rightarrow> bool" where
  "xml_safe (DocText s) = (CHR 0x00 \<notin> set s \<and> (as_attribute s \<or> \<not> contains s '']]>'' \<and> CHR 0x0D \<notin> set s))"
| "xml_safe (DocItems ds) = list_all (\<lambda>(n, d). valid_name n \<and> xml_safe d) ds"

lemma xml_safe_parsable: "xml_safe d \<Longrightarrow> xml_parsable d"
  by (induction d rule: xml_parsable.induct) (auto simp: list_all_iff)

lemma xml_parsable_no_nul: "xml_parsable d \<Longrightarrow> no_nul d"
  by (induction d rule: no_nul.induct) (auto simp: list_all_iff)

fun xml_parsed :: "string \<Rightarrow> doc \<Rightarrow> xml_node" where
  "xml_parsed n (DocText s) =
     (if as_attribute s then XmlElement n [(''value'', StrPair True True (escaped False s))] []
      else XmlElement n [] [XmlText (StrPair False True s) True])"
| "xml_parsed n (DocItems ds) = XmlElement n [] (map (\<lambda>(n, d). xml_parsed n d) ds)"

subsubsection \<open>The strings\<close>

lemma printable: "as_attribute s \<Longrightarrow> c \<in> set s \<Longrightarrow> 32 \<le> (of_char c :: nat) \<and> (of_char c :: nat) \<le> 126"
proof -
  assume "as_attribute s" "c \<in> set s"
  then have "\<not> (signed_char c < signed_char (CHR '' '') \<or> signed_char c > signed_char (CHR ''~''))"
    unfolding as_attribute_def list_all_iff by blast
  then have "\<not> (signed_char c < 32 \<or> signed_char c > 126)"
    by (simp add: signed_char_def)
  moreover define n :: nat where "n = of_char c"
  ultimately show ?thesis
    using nat_of_char_less_256 [of c] unfolding signed_char_def Let_def n_def [symmetric] by (simp split: if_splits)
qed

lemma getstr_escaped:
  assumes "\<forall>c \<in> set s. 32 \<le> (of_char c :: nat)"
  shows "getstr_loop (StrPair True nl raw) (escaped False s) out = Inr (out @ s)"
  using assms
proof (induction s arbitrary: out)
  case Nil
  then show ?case
    by (simp add: escaped_def getstr_loop.simps)
next
  case (Cons c s)
  have s: "escaped False (c # s) = (if entity_flag False c then entity_of entities c else [c]) @ escaped False s"
    by (simp add: escaped_def)
  have "c \<noteq> CHR 0x0D" "c \<noteq> CHR 0x0A"
    using Cons.prems by auto
  then show ?case
    using Cons.IH [of "out @ [c]"] Cons.prems
    by (auto simp: s entity_flag_def entities_def getstr_loop.simps [of _ "_ # _"])
qed

lemma GetStr_escaped: "as_attribute s \<Longrightarrow> GetStr (StrPair True True (escaped False s)) = Inr s"
  using printable as_attribute_no_nul by (auto simp: GetStr_def getstr_escaped c_str_def)

lemma getstr_copied:
  assumes "CHR 0x0D \<notin> set s"
  shows "getstr_loop (StrPair False True raw) s out = Inr (out @ s)"
  using assms
proof (induction s arbitrary: out)
  case Nil
  then show ?case
    by (simp add: getstr_loop.simps)
next
  case (Cons c s)
  then have "s = [] \<or> hd s \<noteq> CHR 0x0D" "c \<noteq> CHR 0x0D"
    by (auto dest: hd_in_set)
  then have "getstr_loop (StrPair False True raw) (c # s) out = getstr_loop (StrPair False True raw) s (out @ [c])"
    by (auto simp: getstr_loop.simps [of _ "c # s"])
  then show ?case
    using Cons by simp
qed

lemma GetStr_copied: "CHR 0x0D \<notin> set s \<Longrightarrow> CHR 0x00 \<notin> set s \<Longrightarrow> GetStr (StrPair False True s) = Inr s"
  by (simp add: GetStr_def getstr_copied c_str_id)

lemma represents_items_parsed:
  assumes "\<forall>(n, d) \<in> set ds. represents d (xml_parsed n d)"
  shows "represents_items ds (map (\<lambda>(n, d). xml_parsed n d) ds)"
  using assms
proof (induction ds)
  case (Cons e ds)
  obtain n d where "e = (n, d)"
    by fastforce
  moreover have "xn_name (xml_parsed n d) = n"
    by (cases d) auto
  ultimately show ?case
    using Cons by auto
qed simp

lemma represents_parsed: "xml_safe d \<Longrightarrow> represents d (xml_parsed n d)"
proof (induction d arbitrary: n rule: xml_safe.induct)
  case (2 ds)
  then have "\<forall>(n, d) \<in> set ds. represents d (xml_parsed n d)"
    by (auto simp: list_all_iff)
  then show ?case
    using represents_items_parsed by simp
qed (auto simp: GetStr_escaped GetStr_copied)


subsubsection \<open>The tokens\<close>

lemma starts_with_append [simp]: "starts_with (e @ r) e"
  by (induction e) auto

lemma ParseText_until:
  assumes "\<And>i. i < length s \<Longrightarrow> \<not> starts_with (drop i s @ e @ r) e" "e \<noteq> []"
  shows "ParseText (s @ e @ r) e = Some (s, r)"
  using assms
proof (induction s)
  case Nil
  then show ?case
    by (cases e) auto
next
  case (Cons c s)
  have "ParseText (s @ e @ r) e = Some (s, r)"
    by (rule Cons.IH) (use Cons.prems(1) [of "Suc _"] Cons.prems(2) in auto)
  moreover have "\<not> starts_with ((c # s) @ e @ r) e"
    using Cons.prems(1) [of 0] by simp
  ultimately show ?case
    by simp
qed

lemma ParseText_char: "c \<notin> set s \<Longrightarrow> ParseText (s @ c # r) [c] = Some (s, r)"
  by (induction s) auto

lemma contains_drop: "\<not> contains s e \<Longrightarrow> i \<le> length s \<Longrightarrow> \<not> starts_with (drop i s) e"
proof (induction s arbitrary: i)
  case Nil
  then show ?case by (cases e) auto
next
  case (Cons c s)
  then show ?case by (cases i) auto
qed

lemma ParseText_cdata:
  assumes "\<not> contains s '']]>''"
  shows "ParseText (s @ '']]>'' @ r) '']]>'' = Some (s, r)"
proof (rule ParseText_until)
  fix i
  assume "i < length s"
  then obtain c t where t: "drop i s = c # t"
    by (metis Cons_nth_drop_Suc)
  have "\<not> starts_with (drop i s) '']]>''"
    using contains_drop [OF assms, of i] \<open>i < length s\<close> by simp
  then show "\<not> starts_with (drop i s @ '']]>'' @ r) '']]>''"
    unfolding t by (cases t; cases "tl t") auto
qed simp

lemma valid_nameE:
  assumes "valid_name n"
  obtains c cs where "n = c # cs" "IsNameStartChar c" "list_all IsNameChar cs"
  using assms by (auto simp: valid_name_def split: list.splits)

lemma ParseName_valid:
  assumes "valid_name n" "\<not> IsNameChar c"
  shows "ParseName (n @ c # r) = Some (n, c # r)"
proof -
  have "takeWhile IsNameChar (cs @ c # r) = cs \<and> dropWhile IsNameChar (cs @ c # r) = c # r" if "list_all IsNameChar cs" for cs
    using that assms(2) by (induction cs) auto
  then show ?thesis
    using assms(1) by (auto elim!: valid_nameE)
qed

lemma name_char_simps [simp]:
  "\<not> IsNameChar (CHR ''>'')" "\<not> IsNameChar (CHR ''/'')" "\<not> IsNameChar (CHR '' '')" "\<not> IsNameChar (CHR ''='')"
  "\<not> IsNameStartChar (CHR ''>'')" "\<not> IsNameStartChar (CHR ''/'')" "IsNameStartChar (CHR ''v'')"
  by (simp_all add: IsNameChar_def IsNameStartChar_def is_upper_def is_lower_def is_digit_def)

lemma IsWhiteSpace_simps [simp]:
  "IsWhiteSpace (CHR '' '')" "IsWhiteSpace (CHR 0x0A)" "\<not> IsWhiteSpace (CHR ''<'')" "\<not> IsWhiteSpace (CHR ''/'')"
  "\<not> IsWhiteSpace (CHR ''>'')" "\<not> IsWhiteSpace (CHR ''='')" "\<not> IsWhiteSpace (CHR 0x22)" "\<not> IsWhiteSpace (CHR ''v'')"
  by (simp_all add: IsWhiteSpace_def IsUTF8Continuation_def is_space_def)

lemma name_start_not: "IsNameStartChar c \<Longrightarrow> \<not> IsWhiteSpace c \<and> c \<noteq> CHR ''?'' \<and> c \<noteq> CHR ''!'' \<and> c \<noteq> CHR ''/''"
  by (auto simp: IsNameStartChar_def IsWhiteSpace_def is_space_def IsUTF8Continuation_def is_upper_def is_lower_def split: if_splits)

subsubsection \<open>Tags\<close>

lemma XMLElement_ParseAttributes_open: "XMLElement_ParseAttributes (CHR ''>'' # r) as = Inr (as, False, r)"
  by (simp add: XMLElement_ParseAttributes.simps SkipWhiteSpace_def)

lemma XMLElement_ParseAttributes_closed: "XMLElement_ParseAttributes (''/>'' @ r) as = Inr (as, True, r)"
  by (simp add: XMLElement_ParseAttributes.simps SkipWhiteSpace_def)

lemma escaped_no_quote: "CHR 0x22 \<notin> set (escaped False s)"
  by (induction s) (auto simp: escaped_def entity_flag_def entities_def)

lemma XMLElement_ParseAttributes_value:
  "XMLElement_ParseAttributes ('' value='' @ [CHR 0x22] @ escaped False s @ [CHR 0x22] @ ''/>'' @ r) []
     = Inr ([(''value'', StrPair True True (escaped False s))], True, r)"
proof -
  have "ParseText (escaped False s @ CHR 0x22 # ''/>'' @ r) [CHR 0x22] = Some (escaped False s, ''/>'' @ r)"
    by (rule ParseText_char [OF escaped_no_quote])
  then have "XMLAttribute_ParseDeep (''value='' @ [CHR 0x22] @ escaped False s @ [CHR 0x22] @ ''/>'' @ r)
      = Some ((''value'', StrPair True True (escaped False s)), ''/>'' @ r)"
    by (simp add: XMLAttribute_ParseDeep_def SkipWhiteSpace_def IsNameChar_def IsNameStartChar_def is_lower_def is_upper_def is_digit_def)
  then show ?thesis
    by (simp add: XMLElement_ParseAttributes.simps [of "CHR '' '' # _"] SkipWhiteSpace_def Attribute_def XMLElement_ParseAttributes_closed [simplified])
qed

lemma ParseTag_name:
  assumes "valid_name n" "\<not> IsNameChar c" "XMLElement_ParseAttributes (c # r) [] = Inr (as, closed, rest)"
  shows "ParseTag (n @ c # r) = Inr (if closed then CLOSED else OPEN, n, as, rest)"
    and "ParseTag (CHR ''/'' # n @ c # r) = Inr (if closed then CLOSED else CLOSING, n, as, rest)"
proof -
  obtain d cs where n: "n = d # cs" "IsNameStartChar d"
    using assms(1) by (elim valid_nameE)
  then have "SkipWhiteSpace (n @ c # r) = n @ c # r" "hd (n @ c # r) \<noteq> CHR ''/''"
    using name_start_not [of d] by (auto simp: SkipWhiteSpace_def)
  then show "ParseTag (n @ c # r) = Inr (if closed then CLOSED else OPEN, n, as, rest)"
    using ParseName_valid [OF assms(1,2)] assms(3) by (simp add: ParseTag_def del: ParseName.simps)
  show "ParseTag (CHR ''/'' # n @ c # r) = Inr (if closed then CLOSED else CLOSING, n, as, rest)"
    using ParseName_valid [OF assms(1,2)] assms(3) by (simp add: ParseTag_def SkipWhiteSpace_def del: ParseName.simps)
qed

lemma SkipWhiteSpace_ws: "list_all IsWhiteSpace ws \<Longrightarrow> SkipWhiteSpace (ws @ p) = SkipWhiteSpace p"
  by (induction ws) (auto simp: SkipWhiteSpace_def)

lemma Identify_element:
  assumes "list_all IsWhiteSpace ws" "c = CHR ''/'' \<or> IsNameStartChar c"
  shows "Identify (ws @ CHR ''<'' # c # r) = (Some KindElement, c # r)"
  using assms(2) name_start_not [of c] SkipWhiteSpace_ws [OF assms(1)]
  by (auto simp: Identify_def Let_def SkipWhiteSpace_def)

lemma parse_closing:
  assumes "list_all IsWhiteSpace ws" "valid_name n"
  shows "XMLNode_ParseDeep (ws @ ''</'' @ n @ ''>'' @ rest) = Inr ([], Some (n, rest))"
  using Identify_element [OF assms(1), of "CHR ''/''" "n @ ''>'' @ rest"]
    ParseTag_name(2) [OF assms(2) _ XMLElement_ParseAttributes_open, of rest]
  by (simp add: XMLNode_ParseDeep.simps [of "ws @ _"])

lemma parse_element_closed:
  assumes "list_all IsWhiteSpace ws" "valid_name n" "\<not> IsNameChar c" "XMLElement_ParseAttributes (c # r) [] = Inr (as, True, rest)"
  shows "XMLNode_ParseDeep (ws @ CHR ''<'' # n @ c # r) = add_node (XmlElement n as []) (XMLNode_ParseDeep rest)"
proof -
  obtain d cs where n: "n = d # cs" "IsNameStartChar d"
    using assms(2) by (elim valid_nameE)
  then show ?thesis
    using Identify_element [OF assms(1), of d "cs @ c # r"] ParseTag_name(1) [OF assms(2-4)]
    by (simp add: XMLNode_ParseDeep.simps [of "ws @ _"])
qed

lemma parse_element_open:
  assumes "list_all IsWhiteSpace ws" "valid_name n" "XMLNode_ParseDeep r = Inr (cs, Some (n, rest))" "r \<noteq> []"
  shows "XMLNode_ParseDeep (ws @ CHR ''<'' # n @ CHR ''>'' # r) = add_node (XmlElement n [] cs) (XMLNode_ParseDeep rest)"
proof -
  obtain d ds where n: "n = d # ds" "IsNameStartChar d"
    using assms(2) by (elim valid_nameE)
  then show ?thesis
    using Identify_element [OF assms(1), of d "ds @ CHR ''>'' # r"] ParseTag_name(1) [OF assms(2) _ XMLElement_ParseAttributes_open, of r] assms(3,4)
    by (simp add: XMLNode_ParseDeep.simps [of "ws @ _"])
qed

lemma parse_cdata:
  assumes "\<not> contains s '']]>''"
  shows "XMLNode_ParseDeep (''<![CDATA['' @ s @ '']]>'' @ rest) = add_node (XmlText (StrPair False True s) True) (XMLNode_ParseDeep rest)"
  using ParseText_cdata [OF assms, of rest]
  by (simp add: XMLNode_ParseDeep.simps [of "CHR ''<'' # _"] Identify_def SkipWhiteSpace_def ParseLeaf_def Let_def)

subsubsection \<open>Documents\<close>

lemma whitespace_indent [simp]: "list_all IsWhiteSpace (indent c k)"
  by (induction k) (auto simp: indent_def)

lemma parse_items:
  assumes "\<And>n d ws rest. (n, d) \<in> set ds \<Longrightarrow> list_all IsWhiteSpace ws
      \<Longrightarrow> XMLNode_ParseDeep (ws @ f n d @ rest) = add_node (xml_parsed n d) (XMLNode_ParseDeep rest)"
    and "XMLNode_ParseDeep rest = Inr ([], closed)" "\<And>n d. list_all IsWhiteSpace (ws n d)"
  shows "XMLNode_ParseDeep (concat (map (\<lambda>(n, d). ws n d @ f n d) ds) @ rest) = Inr (map (\<lambda>(n, d). xml_parsed n d) ds, closed)"
  using assms
proof (induction ds)
  case (Cons e ds)
  obtain n d where e: "e = (n, d)"
    by fastforce
  have "XMLNode_ParseDeep (concat (map (\<lambda>(n, d). ws n d @ f n d) ds) @ rest) = Inr (map (\<lambda>(n, d). xml_parsed n d) ds, closed)"
    by (rule Cons.IH) (use Cons.prems in auto)
  then show ?case
    using e Cons.prems(1) [of n d "ws n d"] Cons.prems(3) by (simp add: add_node_def)
qed simp

lemma parse_xml_text:
  assumes "valid_name n" "xml_parsable d" "list_all IsWhiteSpace ws"
  shows "XMLNode_ParseDeep (ws @ xml_text c k n d @ rest) = add_node (xml_parsed n d) (XMLNode_ParseDeep rest)"
  using assms
proof (induction c k n d arbitrary: ws rest rule: xml_text.induct)
  case (1 c k n s)
  show ?case
  proof (cases "as_attribute s")
    case True
    then show ?thesis
      using parse_element_closed [OF 1(3,1) _ XMLElement_ParseAttributes_value [of s rest, simplified]] by simp
  next
    case False
    have "XMLNode_ParseDeep (''<![CDATA['' @ s @ '']]>'' @ ''</'' @ n @ ''>'' @ rest)
        = Inr ([XmlText (StrPair False True s) True], Some (n, rest))"
      using parse_cdata [of s "''</'' @ n @ ''>'' @ rest"] parse_closing [of "[]" n rest] 1 False
      by (simp add: add_node_def)
    then show ?thesis
      using False parse_element_open [OF 1(3,1), of "''<![CDATA['' @ s @ '']]></'' @ n @ ''>'' @ rest"] by simp
  qed
next
  case (2 c k n ds)
  show ?case
  proof (cases "ds = []")
    case True
    then show ?thesis
      using parse_element_closed [OF 2(4,2) _ XMLElement_ParseAttributes_closed [simplified]] by simp
  next
    case False
    let ?items = "concat (map (\<lambda>(n, d). indent c (Suc k) @ xml_text c (Suc k) n d) ds)"
    have "XMLNode_ParseDeep (?items @ indent c k @ ''</'' @ n @ ''>'' @ rest)
        = Inr (map (\<lambda>(n, d). xml_parsed n d) ds, Some (n, rest))"
    proof (rule parse_items)
      show "XMLNode_ParseDeep (indent c k @ ''</'' @ n @ ''>'' @ rest) = Inr ([], Some (n, rest))"
        by (rule parse_closing [OF _ 2(2)]) simp
      fix m d ws and rest :: string
      assume "(m, d) \<in> set ds" "list_all IsWhiteSpace ws"
      then show "XMLNode_ParseDeep (ws @ xml_text c (Suc k) m d @ rest) = add_node (xml_parsed m d) (XMLNode_ParseDeep rest)"
        using 2(1) [OF False, of "(m, d)" m d ws rest] 2(3) by (auto simp: list_all_iff)
    qed simp
    then show ?thesis
      using False parse_element_open [OF 2(4,2), of "?items @ indent c k @ ''</'' @ n @ ''>'' @ rest"] by simp
  qed
qed

lemma parse_whitespace: "list_all IsWhiteSpace ws \<Longrightarrow> XMLNode_ParseDeep ws = Inr ([], None)"
  using SkipWhiteSpace_ws [of ws "[]"] by (simp add: XMLNode_ParseDeep.simps [of ws] Identify_def SkipWhiteSpace_def)

lemma valid_name_no_nul: "valid_name n \<Longrightarrow> CHR 0x00 \<notin> set n"
proof -
  have "\<not> IsNameChar (CHR 0x00)" "\<not> IsNameStartChar (CHR 0x00)"
    by (simp_all add: IsNameChar_def IsNameStartChar_def is_upper_def is_lower_def is_digit_def)
  then show "valid_name n \<Longrightarrow> CHR 0x00 \<notin> set n"
    by (auto elim!: valid_nameE simp: list_all_iff)
qed

lemma escaped_no_nul: "CHR 0x00 \<notin> set s \<Longrightarrow> CHR 0x00 \<notin> set (escaped False s)"
  by (induction s) (auto simp: escaped_def entity_flag_def entities_def)

lemma indent_no_nul: "CHR 0x00 \<notin> set (indent c k)"
  by (induction k) (auto simp: indent_def)

lemma xml_text_no_nul: "valid_name n \<Longrightarrow> xml_parsable d \<Longrightarrow> CHR 0x00 \<notin> set (xml_text c k n d)"
proof (induction c k n d rule: xml_text.induct)
  case (1 c k n s)
  then show ?case
    using escaped_no_nul [of s] valid_name_no_nul by auto
next
  case (2 c k n ds)
  then show ?case
    using indent_no_nul valid_name_no_nul by (auto simp: list_all_iff)
qed

lemma xml_file_no_nul: "valid_name n \<Longrightarrow> xml_parsable d \<Longrightarrow> CHR 0x00 \<notin> set (xml_file c n d)"
  using xml_text_no_nul [of n d c 0] by (auto simp: xml_file_def indent_def xml_header_def)

lemma parse_file:
  assumes "valid_name n" "xml_parsable d"
  shows "c_str (xml_file c n d) = xml_file c n d"
    and "XMLDocument_Parse (xml_file c n d) = Inr ([XmlDeclaration (StrPair False True xml_header), xml_parsed n d], False)"
proof -
  show c: "c_str (xml_file c n d) = xml_file c n d"
    by (rule c_str_id [OF xml_file_no_nul [OF assms]])
  define r where "r = indent c 0 @ xml_text c 0 n d @ (if c then [] else [CHR 0x0A, CHR 0x0A])"
  have "XMLNode_ParseDeep r = Inr ([xml_parsed n d], None)"
    using parse_xml_text [OF assms, of "indent c 0" c 0] parse_whitespace [of "if c then [] else [CHR 0x0A, CHR 0x0A]"]
    by (simp add: r_def add_node_def)
  moreover have "ParseText (xml_header @ ''?>'' @ r) ''?>'' = Some (xml_header, r)"
    by (simp add: xml_header_def)
  ultimately have "XMLNode_ParseDeep (''<?'' @ xml_header @ ''?>'' @ r) = Inr ([XmlDeclaration (StrPair False True xml_header), xml_parsed n d], None)"
    by (simp add: XMLNode_ParseDeep.simps [of "CHR ''<'' # _"] Identify_def SkipWhiteSpace_def ParseLeaf_def Let_def add_node_def)
  then show "XMLDocument_Parse (xml_file c n d) = Inr ([XmlDeclaration (StrPair False True xml_header), xml_parsed n d], False)"
    by (simp add: XMLDocument_Parse_def c Let_def ReadBOM_def) (simp add: xml_file_def r_def SkipWhiteSpace_def)
qed


subsection \<open>Round trips\<close>

lemma ConvertToXml_text:
  assumes "has_text_type pf lib t v" "valid_name n" "xml_parsable (doc_of lib t v)"
  shows "ConvertToXml compact n lib t v = Inr (xml_file compact n (doc_of lib t v))"
proof -
  have "xw_ok (ToXml n)"
    by (simp add: ToXml_def xw_ok_def)
  note w = xo.write_text_ok [OF assms(1) this]
  obtain x where x: "XMLDocument_Print [XmlDeclaration (SetStr xml_header), xml_of n (doc_of lib t v)] False (XMLPrinter compact) = Inr x"
      and buf: "xp_buffer x @ (if compact then [] else [CHR 0x0A]) = xml_file compact n (doc_of lib t v)"
    using print_document [OF xml_parsable_no_nul [OF assms(3)]] by blast
  have "CHR 0x00 \<notin> set (xp_buffer x)"
    using buf xml_file_no_nul [OF assms(2,3), of compact] by (metis Un_iff set_append)
  then show ?thesis
    using buf by (simp add: ConvertToXml_def w xml_document_put x c_str_id)
qed

lemma decode_named_file:
  assumes "valid_name n" "xml_parsable d" "represents d' (xml_parsed n d)"
    and "\<And>m. xr_reads d' m m \<Longrightarrow> f m = Inr (v, m)"
  shows "\<exists>m0 m m'. FromXml (xml_file compact n d) = Inr m0 \<and> decode_named FromXml_reader n f m0 = Inr (v, m)
    \<and> FromXml_EnsureAllDecoded m = m' \<and> xr_error m' = None"
proof -
  define e where "e = xml_parsed n d"
  define decl where "decl = XmlDeclaration (StrPair False True xml_header)"
  define m0 where "m0 = \<lparr>xr_doc = [decl, e], xr_cur = [], xr_value_mode = False, xr_first_in_structure = True, xr_error = None\<rparr>"
  define m where "m = \<lparr>xr_doc = [decl, e], xr_cur = [(e, [])], xr_value_mode = True, xr_first_in_structure = False, xr_error = None\<rparr>"
  have e: "represents d' e" "xn_name e = n" "is_element e"
    unfolding e_def using assms(3) represents_element by (cases d; auto)+
  have m0: "FromXml (xml_file compact n d) = Inr m0"
    by (simp add: FromXml_def parse_file [OF assms(1,2)] decl_def e_def m0_def)
  have start: "tr_StartNamedItem FromXml_reader n m0 = Inr m"
    using e by (simp add: from_xml_ops m_def m0_def decl_def)
  have "f m = Inr (v, m)"
    by (rule assms(4)) (use e in \<open>simp add: xr_reads_def m_def\<close>)
  then have "decode_named FromXml_reader n f m0 = Inr (v, m\<lparr>xr_value_mode := False, xr_first_in_structure := False\<rparr>)"
    using start by (simp add: decode_named_def from_xml_ops m_def)
  moreover have "xr_error (FromXml_EnsureAllDecoded (m\<lparr>xr_value_mode := False, xr_first_in_structure := False\<rparr>)) = None"
    using e by (simp add: FromXml_EnsureAllDecoded_def FromXml_HasError_def m_def decl_def)
  ultimately show ?thesis
    using m0 by blast
qed

lemma DecodeXml_file:
  assumes "valid_name n" "xml_parsable d" "represents d' (xml_parsed n d)"
    and "\<And>m. xr_reads d' m m \<Longrightarrow> DecodeValue fuel p FromXml_reader lib t old m = Inr (v, m)"
  shows "\<exists>m. DecodeXml fuel p lib n t old (xml_file compact n d) = Inr (v, m) \<and> xr_error m = None"
  using decode_named_file [OF assms(1-3), of "DecodeValue fuel p FromXml_reader lib t old" v compact] assms(4)
  by (auto simp: DecodeXml_def)

text \<open>C3: a value that the XML encoder writes, in either layout, is read back by the XML decoder, all of the
  document is decoded and no error is raised, if the texts of the value's document are such that XML keeps
  them (\<open>xml_safe\<close>). \<open>msg_depth\<close> levels of messages are enough fuel.\<close>

theorem Xml_round_trip:
  assumes "has_text_type (tx_platform p) lib t v" "fresh t old" "\<And>t. fresh t (tx_init p t)" "msg_depth v \<le> fuel"
    and "valid_name n" "xml_safe (doc_of lib t v)"
  shows "\<exists>xml m. ConvertToXml compact n lib t v = Inr xml \<and> DecodeXml fuel p lib n t old xml = Inr (v, m) \<and> xr_error m = None"
proof -
  note parsable = xml_safe_parsable [OF assms(6)]
  have "DecodeValue fuel p FromXml_reader lib t old m = Inr (v, m)" if "xr_reads (doc_of lib t v) m m" for m
    unfolding DecodeValue_def using xi.read_text_ok [OF assms(3,1,2,4) that] .
  then show ?thesis
    using ConvertToXml_text [OF assms(1,5) parsable] DecodeXml_file [OF assms(5) parsable represents_parsed [OF assms(6)]] by blast
qed

theorem Xml_round_trip_witness:
  "\<exists>xml m. ConvertToXml False ''msg'' (\<lambda>n. if n = ''Text'' then Some TString else None) (TPair (TVector (TInt I8)) TMsgAnyPtr)
       (VPair (VVector [VInt I8 (-5), VInt I8 7]) (VMsg (bytes_of ''Text'') (VString (bytes_of [CHR ''<'', CHR 0x0A])))) = Inr xml
     \<and> DecodeXml 1 demo_text_params (\<lambda>n. if n = ''Text'' then Some TString else None) ''msg'' (TPair (TVector (TInt I8)) TMsgAnyPtr)
       VNull xml = Inr (VPair (VVector [VInt I8 (-5), VInt I8 7]) (VMsg (bytes_of ''Text'') (VString (bytes_of [CHR ''<'', CHR 0x0A]))), m)
     \<and> xr_error m = None"
proof (rule Xml_round_trip)
  show "xml_safe (doc_of (\<lambda>n. if n = ''Text'' then Some TString else None) (TPair (TVector (TInt I8)) TMsgAnyPtr)
       (VPair (VVector [VInt I8 (-5), VInt I8 7]) (VMsg (bytes_of ''Text'') (VString (bytes_of [CHR ''<'', CHR 0x0A])))))"
    by code_simp
qed (auto simp: demo_text_params_def demo_platform_def size_ok_def fresh_null valid_name_def IsNameChar_def IsNameStartChar_def
    is_lower_def)

subsection \<open>What does not survive\<close>

fun line_ends :: "string \<Rightarrow> string" where
  "line_ends [] = []"
| "line_ends [c] = [if c = CHR 0x0D then CHR 0x0A else c]"
| "line_ends (c # d # s) =
     (if c = CHR 0x0D \<and> d = CHR 0x0A \<or> c = CHR 0x0A \<and> d = CHR 0x0D then CHR 0x0A # line_ends s
      else (if c = CHR 0x0D then CHR 0x0A else c) # line_ends (d # s))"

lemma getstr_line_ends: "getstr_loop (StrPair False True raw) s out = Inr (out @ line_ends s)"
proof (induction s arbitrary: out rule: line_ends.induct)
  case (3 c d s)
  note IH = this
  have "getstr_loop (StrPair False True raw) (c # d # s) out =
      (if c = CHR 0x0D \<and> d = CHR 0x0A \<or> c = CHR 0x0A \<and> d = CHR 0x0D then getstr_loop (StrPair False True raw) s (out @ [CHR 0x0A])
       else getstr_loop (StrPair False True raw) (d # s) (out @ [if c = CHR 0x0D then CHR 0x0A else c]))"
    by (auto simp: getstr_loop.simps [of _ "c # d # s"])
  then show ?case
    using IH by (cases "c = CHR 0x0D \<and> d = CHR 0x0A \<or> c = CHR 0x0A \<and> d = CHR 0x0D") (simp_all only: if_True if_False line_ends.simps append_assoc append_Cons append_Nil not_False_eq_True simp_thms)
qed (simp_all add: getstr_loop.simps)

lemma line_ends_no_nul: "CHR 0x00 \<notin> set s \<Longrightarrow> CHR 0x00 \<notin> set (line_ends s)"
  by (induction s rule: line_ends.induct) auto

text \<open>A string that XML does not take as an attribute (80 characters or more, or one that is not printable)
  comes back with its line ends changed: a carriage return, with or without a line feed beside it,
  becomes one line feed.\<close>

theorem Xml_line_ends:
  assumes "\<not> as_attribute s" "CHR 0x00 \<notin> set s" "\<not> contains s '']]>''" "valid_name n"
  shows "\<exists>xml m. ConvertToXml compact n lib TString (VString (bytes_of s)) = Inr xml
    \<and> DecodeXml fuel p lib n TString old xml = Inr (VString (bytes_of (line_ends s)), m) \<and> xr_error m = None"
proof -
  have xml: "ConvertToXml compact n lib TString (VString (bytes_of s)) = Inr (xml_file compact n (DocText s))"
    using ConvertToXml_text [of demo_platform lib TString "VString (bytes_of s)" n compact] assms by simp
  have "represents (DocText (line_ends s)) (xml_parsed n (DocText s))"
    using assms(1,2) by (auto simp: GetStr_def getstr_line_ends line_ends_no_nul c_str_id)
  then show ?thesis
    using xml DecodeXml_file [OF assms(4), of "DocText s" "DocText (line_ends s)" fuel p lib TString old _ compact] assms xi.read_string
    by (fastforce simp: DecodeValue_def)
qed

theorem Xml_line_ends_witness:
  "\<exists>xml m. ConvertToXml True ''s'' (\<lambda>_. None) TString (VString (bytes_of [CHR ''a'', CHR 0x0D, CHR ''b''])) = Inr xml
    \<and> DecodeXml 0 demo_text_params (\<lambda>_. None) ''s'' TString VNull xml = Inr (VString (bytes_of (line_ends [CHR ''a'', CHR 0x0D, CHR ''b''])), m)
    \<and> xr_error m = None"
  by (rule Xml_line_ends) (code_simp+)

text \<open>Decoding a text from an element with neither the attribute \<open>value\<close> nor a text dereferences a null pointer.\<close>

theorem Xml_missing_value:
  assumes "valid_name n"
  shows "DecodeXml fuel p lib n TString old (''<'' @ n @ ''/>'') = Inl NullPointer"
proof -
  have "CHR 0x00 \<notin> set (''<'' @ n @ ''/>'')"
    using valid_name_no_nul [OF assms] by simp
  note c = c_str_id [OF this]
  have "XMLNode_ParseDeep (''<'' @ n @ ''/>'') = Inr ([XmlElement n [] []], None)"
    using parse_element_closed [OF _ assms _ XMLElement_ParseAttributes_closed [of "[]", simplified], of "[]"] parse_whitespace [of "[]"]
    by (simp add: add_node_def)
  then have "XMLDocument_Parse (''<'' @ n @ ''/>'') = Inr ([XmlElement n [] []], False)"
    unfolding XMLDocument_Parse_def c by (simp add: Let_def ReadBOM_def SkipWhiteSpace_def)
  then show ?thesis
    by (simp add: DecodeXml_def decode_named_def DecodeValue_def FromXml_def from_xml_ops Attribute_def)
qed

theorem Xml_missing_value_witness: "DecodeXml 0 demo_text_params (\<lambda>_. None) ''name'' TString VNull ''<name/>'' = Inl NullPointer"
  using Xml_missing_value [of "''name''" 0 demo_text_params "\<lambda>_. None" VNull]
  by (simp add: valid_name_def IsNameChar_def IsNameStartChar_def is_lower_def)

text \<open>A character reference that is not well formed makes \<open>StrPair::GetStr\<close> read through a null pointer.\<close>

theorem Xml_bad_reference:
  "DecodeXml fuel p lib ''x'' TString old (''<x value='' @ [CHR 0x22] @ ''&#xZ;'' @ [CHR 0x22] @ ''/>'') = Inl NullPointer"
  by code_simp

text \<open>
  The same reference can stop the parser: a second attribute of the name makes \<open>ParseAttributes\<close> read the value of the
  first one.
\<close>

theorem Xml_repeated_attribute:
  "XMLDocument_Parse (''<params a='' @ [CHR 0x22] @ ''&#xZ;'' @ [CHR 0x22] @ '' a='' @ [CHR 0x22, CHR 0x22] @ ''/>'') = Inl (XmlFault NullPointer)"
  by code_simp

end
