(* ===== verification/MethodSet.thy ===== *)
theory MethodSet
  imports Json XmlText StdMap Client
begin

section \<open>Methods that are called through a text format\<close>

text \<open>
  \<open>BBoxEnc/bbox/enc/api\<close>: the description of a method's parameters (\<open>Param\<close>, \<open>ParamPack\<close> and the
  templates \<open>describe/details\<close>), methods and sets of methods, and the call of a method whose
  parameters come from a decoder and whose results go to an encoder. A method is a function
  of the values of its parameters and of the state of the object that it is bound to; it
  returns an error code, the values after the call and the new state. The message that an
  error category has for a value is the argument \<open>msg\<close>, as in \<open>Errors\<close>.
\<close>

subsection \<open>Parameters\<close>

datatype direction = Input | Output | InOut

fun Include :: "direction \<Rightarrow> bool \<Rightarrow> bool" where
  "Include Input for_input = for_input"
| "Include Output for_input = (\<not> for_input)"
| "Include InOut for_input = True"

fun IsInput :: "direction \<Rightarrow> bool" where
  "IsInput Input = True" | "IsInput Output = False" | "IsInput InOut = True"

fun IsOutput :: "direction \<Rightarrow> bool" where
  "IsOutput Input = False" | "IsOutput Output = True" | "IsOutput InOut = True"

record param =
  pa_name :: string
  pa_description :: string
  pa_type :: tty
  pa_direction :: direction

type_synonym param_pack = "param list"

definition GetParameter :: "nat \<Rightarrow> param_pack \<Rightarrow> param res" where
  "GetParameter index ps = (if index < length ps then Inr (ps ! index) else Inl (AssertFailed ''index < NUM_PARAMS''))"

text \<open>
  A \<open>boost::any\<close> that holds a tuple: the types of its members and their values. The members of a
  new tuple are value-initialised.
\<close>

type_synonym any_tuple = "tty list \<times> val list"

fun default_value :: "tty \<Rightarrow> val"
  and default_fields :: "(string \<times> tty) list \<Rightarrow> val" where
  "default_value TBool = VBool False"
| "default_value (TInt it) = VInt it 0"
| "default_value TString = VString []"
| "default_value TBinary = VBytes []"
| "default_value (TStruct fs) = default_fields fs"
| "default_value (TPair a b) = VPair (default_value a) (default_value b)"
| "default_value (TVector a) = VVector []"
| "default_value (TSet a) = VSet []"
| "default_value (TMap a b) = VMap []"
| "default_value TMsgAnyPtr = VNull"
| "default_value (TMsgPtr ty) = VNull"
| "default_fields [] = VUnit"
| "default_fields ((name, t) # fs) = VPair (default_value t) (default_fields fs)"

definition GetTupleType :: "param_pack \<Rightarrow> tty list" where
  "GetTupleType ps = map pa_type ps"

definition IsTupleCorrectType :: "param_pack \<Rightarrow> any_tuple \<Rightarrow> bool" where
  "IsTupleCorrectType ps tuple \<longleftrightarrow> fst tuple = GetTupleType ps"

definition CreateDefaultConstructedTuple :: "param_pack \<Rightarrow> any_tuple" where
  "CreateDefaultConstructedTuple ps = (GetTupleType ps, map default_value (GetTupleType ps))"

text \<open>\<open>Unpack\<close>: the recursion over the parameters.\<close>

fun Unpack_ToTextFormat :: "'w text_writer \<Rightarrow> text_lib \<Rightarrow> bool \<Rightarrow> param_pack \<Rightarrow> val list \<Rightarrow> 'w \<Rightarrow> 'w res" where
  "Unpack_ToTextFormat w lib for_input [] vs m = Inr m"
| "Unpack_ToTextFormat w lib for_input (q # ps) [] m = ill_typed"
| "Unpack_ToTextFormat w lib for_input (q # ps) (v # vs) m =
     bind_res (if Include (pa_direction q) for_input then named_item w (pa_name q) (write_text w lib (pa_type q) v) m else Inr m)
       (Unpack_ToTextFormat w lib for_input ps vs)"

definition TupleToTextFormat :: "'w text_writer \<Rightarrow> text_lib \<Rightarrow> param_pack \<Rightarrow> bool \<Rightarrow> any_tuple \<Rightarrow> 'w \<Rightarrow> 'w res" where
  "TupleToTextFormat w lib ps for_input tuple m =
     bind_res (check ''tuple.type() == typeid(ValuesTupleType)'' (IsTupleCorrectType ps tuple) m)
       (in_structure w (Unpack_ToTextFormat w lib for_input ps (snd tuple)))"

text \<open>\<open>dv\<close> decodes a value of a type into a variable.\<close>

fun Unpack_FromTextFormat :: "'m text_reader \<Rightarrow> (tty \<Rightarrow> val \<Rightarrow> (val, 'm) decoder) \<Rightarrow> bool \<Rightarrow> param_pack \<Rightarrow> val list
    \<Rightarrow> (val list, 'm) decoder" where
  "Unpack_FromTextFormat r dv for_input [] vs m = Inr (vs, m)"
| "Unpack_FromTextFormat r dv for_input (q # ps) [] m = ill_typed"
| "Unpack_FromTextFormat r dv for_input (q # ps) (v # vs) m =
     bind_res (if Include (pa_direction q) for_input then decode_named r (pa_name q) (dv (pa_type q) v) m else Inr (v, m)) (\<lambda>(v, m).
     bind_res (Unpack_FromTextFormat r dv for_input ps vs m) (\<lambda>(vs, m). Inr (v # vs, m)))"

definition TupleFromTextFormat :: "nat \<Rightarrow> text_params \<Rightarrow> 'm text_reader \<Rightarrow> text_lib \<Rightarrow> param_pack \<Rightarrow> bool \<Rightarrow> any_tuple
    \<Rightarrow> (any_tuple, 'm) decoder" where
  "TupleFromTextFormat fuel p r lib ps for_input tuple m =
     bind_res (check ''tuple.type() == typeid(ValuesTupleType)'' (IsTupleCorrectType ps tuple) m) (\<lambda>m.
     bind_res (decode_structure r (Unpack_FromTextFormat r (DecodeValue fuel p r lib) for_input ps (snd tuple)) m) (\<lambda>(vs, m).
       Inr ((fst tuple, vs), m)))"

definition TupleToDebugString :: "text_lib \<Rightarrow> param_pack \<Rightarrow> bool \<Rightarrow> any_tuple \<Rightarrow> string res" where
  "TupleToDebugString lib ps for_input tuple =
     bind_res (TupleToTextFormat (ToJson_writer HUMAN_DEBUGGING) lib ps for_input tuple (ToJson HUMAN_DEBUGGING))
       (\<lambda>m. Inr (jw_stream m))"

subsection \<open>Methods\<close>

record 's api_method =
  me_name :: string
  me_description :: string
  me_params :: param_pack
  me_function :: "val list \<Rightarrow> 's \<Rightarrow> (error_code \<times> val list \<times> 's) res"

text \<open>The values of \<open>EINVAL\<close> and \<open>EBADMSG\<close>.\<close>

definition errc_invalid_argument :: "32 word" where
  "errc_invalid_argument = 22"

definition errc_bad_message :: "32 word" where
  "errc_bad_message = 74"

definition Method_Call :: "'s api_method \<Rightarrow> any_tuple \<Rightarrow> 's \<Rightarrow> (error_code \<times> any_tuple \<times> 's) res" where
  "Method_Call me params_tuple s =
     (if \<not> IsTupleCorrectType (me_params me) params_tuple then Inr (Error_errc errc_invalid_argument, params_tuple, s)
      else bind_res (me_function me (snd params_tuple) s) (\<lambda>(e, vs, s). Inr (e, (fst params_tuple, vs), s)))"

type_synonym 's method_map = "(string, 's api_method) smap"

definition Internal_AddMethod :: "'s api_method \<Rightarrow> 's method_map \<Rightarrow> 's method_map res" where
  "Internal_AddMethod me methods =
     bind_res (check ''it == m_method_map.end()'' (smap_find (me_name me) methods = None) methods) (\<lambda>methods.
       Inr (smap_assign (me_name me) me methods))"

definition MethodSet :: "'s api_method list \<Rightarrow> 's method_map res" where
  "MethodSet method_ptrs = fold_res Internal_AddMethod method_ptrs []"

definition HasMethodWithName :: "string \<Rightarrow> 's method_map \<Rightarrow> bool" where
  "HasMethodWithName name methods \<longleftrightarrow> smap_find name methods \<noteq> None"

definition GetMethodNames :: "'s method_map \<Rightarrow> string list" where
  "GetMethodNames methods = map fst methods"

definition GetMethodByName :: "string \<Rightarrow> 's method_map \<Rightarrow> 's api_method res" where
  "GetMethodByName name methods = (case smap_find name methods of
       None \<Rightarrow> Inl (AssertFailed ''it != m_method_map.end()'')
     | Some me \<Rightarrow> Inr me)"

subsection \<open>Encoded calls\<close>

definition write_error :: "'w text_writer \<Rightarrow> (error_code \<Rightarrow> string) \<Rightarrow> error_code \<Rightarrow> 'w \<Rightarrow> 'w res" where
  "write_error w msg err = in_structure w
     (named_item w ''error'' (in_structure w (AddNamedString w ''description'' (Error_ToString msg err))))"

definition write_results :: "'w text_writer \<Rightarrow> text_lib \<Rightarrow> 's api_method \<Rightarrow> any_tuple \<Rightarrow> 'w \<Rightarrow> 'w res" where
  "write_results w lib me tuple = in_structure w (named_item w ''results'' (TupleToTextFormat w lib (me_params me) False tuple))"

text \<open>
  The end of both overloads of \<open>CallEncodedMethod\<close>. The method pointer is null if the name is not known.
\<close>

definition finish_call :: "(error_code \<Rightarrow> string) \<Rightarrow> 'm text_reader \<Rightarrow> 'w text_writer \<Rightarrow> text_lib \<Rightarrow> 's api_method option
    \<Rightarrow> any_tuple \<Rightarrow> 'm \<Rightarrow> 'w \<Rightarrow> 's \<Rightarrow> ('m \<times> 'w \<times> 's) res" where
  "finish_call msg r w lib method_ptr tuple m out s =
     bind_res (if tr_HasError r m then Inr (Error_errc errc_bad_message, tuple, s)
               else case method_ptr of None \<Rightarrow> Inl NullPointer | Some me \<Rightarrow> Method_Call me tuple s) (\<lambda>(err, tuple, s).
     bind_res (if Error_bool err then write_error w msg err out
               else case method_ptr of None \<Rightarrow> Inl NullPointer | Some me \<Rightarrow> write_results w lib me tuple out) (\<lambda>out.
       Inr (m, out, s)))"

text \<open>\<open>ensure\<close> is the virtual function \<open>EnsureAllDecoded\<close> of the decoder.\<close>

definition CallEncodedMethod :: "(error_code \<Rightarrow> string) \<Rightarrow> nat \<Rightarrow> text_params \<Rightarrow> 'm text_reader \<Rightarrow> ('m \<Rightarrow> 'm) \<Rightarrow> 'w text_writer
    \<Rightarrow> text_lib \<Rightarrow> 's method_map \<Rightarrow> 'm \<Rightarrow> 'w \<Rightarrow> 's \<Rightarrow> ('m \<times> 'w \<times> 's) res" where
  "CallEncodedMethod msg fuel p r ensure w lib methods m out s =
     bind_res (tr_StartStructure r m) (\<lambda>m.
     bind_res (decode_named r ''method'' (tr_DecodeStringValue r) m) (\<lambda>(method_name, m).
     case smap_find method_name methods of
       None \<Rightarrow> finish_call msg r w lib None ([], []) (tr_SetError r ''Unknown method name'' m) out s
     | Some me \<Rightarrow>
         bind_res (decode_named r ''params''
             (TupleFromTextFormat fuel p r lib (me_params me) True (CreateDefaultConstructedTuple (me_params me))) m) (\<lambda>(tuple, m).
         bind_res (tr_CompleteStructure r m) (\<lambda>m.
           finish_call msg r w lib (Some me) tuple (ensure m) out s))))"

definition CallEncodedMethod_named :: "(error_code \<Rightarrow> string) \<Rightarrow> nat \<Rightarrow> text_params \<Rightarrow> 'm text_reader \<Rightarrow> 'w text_writer
    \<Rightarrow> text_lib \<Rightarrow> 's method_map \<Rightarrow> string \<Rightarrow> 'm \<Rightarrow> 'w \<Rightarrow> 's \<Rightarrow> ('m \<times> 'w \<times> 's) res" where
  "CallEncodedMethod_named msg fuel p r w lib methods method_name m out s =
     (case smap_find method_name methods of
        None \<Rightarrow> finish_call msg r w lib None ([], []) (tr_SetError r ''Unknown method name'' m) out s
      | Some me \<Rightarrow>
          bind_res (TupleFromTextFormat fuel p r lib (me_params me) True (CreateDefaultConstructedTuple (me_params me)) m) (\<lambda>(tuple, m).
            finish_call msg r w lib (Some me) tuple m out s))"

subsection \<open>The documents of the parameters\<close>

definition args_doc :: "text_lib \<Rightarrow> bool \<Rightarrow> param_pack \<Rightarrow> val list \<Rightarrow> (string \<times> doc) list" where
  "args_doc lib for_input ps vs =
     map (\<lambda>(q, v). (pa_name q, doc_of lib (pa_type q) v)) (filter (\<lambda>(q, v). Include (pa_direction q) for_input) (zip ps vs))"

lemma args_doc_simps [simp]:
  "args_doc lib for_input [] vs = []"
  "args_doc lib for_input (q # ps) (v # vs) =
     (if Include (pa_direction q) for_input then [(pa_name q, doc_of lib (pa_type q) v)] else []) @ args_doc lib for_input ps vs"
  by (simp_all add: args_doc_def)

text \<open>The values that a caller gives, with the others as in a new tuple; and those that a method may return.\<close>

definition input_args :: "platform \<Rightarrow> text_lib \<Rightarrow> nat \<Rightarrow> param_pack \<Rightarrow> val list \<Rightarrow> bool" where
  "input_args pf lib fuel ps vs \<longleftrightarrow> list_all2 (\<lambda>q v. if Include (pa_direction q) True then has_text_type pf lib (pa_type q) v \<and> msg_depth v \<le> fuel
     else v = default_value (pa_type q)) ps vs"

definition output_args :: "platform \<Rightarrow> text_lib \<Rightarrow> param_pack \<Rightarrow> val list \<Rightarrow> bool" where
  "output_args pf lib ps vs \<longleftrightarrow> list_all2 (\<lambda>q v. Include (pa_direction q) False \<longrightarrow> has_text_type pf lib (pa_type q) v) ps vs"

lemma fresh_default: "fresh t (default_value t)" "fresh_fields fs (default_fields fs)"
  by (induction t and fs rule: default_value_default_fields.induct) simp_all

context text_output
begin

lemma Unpack_ToTextFormat_ok:
  assumes "list_all2 (\<lambda>q v. Include (pa_direction q) for_input \<longrightarrow> has_text_type pf lib (pa_type q) v) ps vs" "ok m"
  shows "Unpack_ToTextFormat w lib for_input ps vs (opened ds m) = Inr (opened (ds @ args_doc lib for_input ps vs) m)"
  using assms
proof (induction ps vs arbitrary: ds rule: list_all2_induct)
  case (Cons q ps v vs)
  have "named_item w (pa_name q) (write_text w lib (pa_type q) v) (opened ds m)
      = Inr (opened (ds @ [(pa_name q, doc_of lib (pa_type q) v)]) m)" if "Include (pa_direction q) for_input"
    using that Cons by (intro named_item write_text_ok) auto
  then show ?case
    using Cons by simp
qed simp

lemma TupleToTextFormat_ok:
  assumes "list_all2 (\<lambda>q v. Include (pa_direction q) for_input \<longrightarrow> has_text_type pf lib (pa_type q) v) ps vs" "ok m"
  shows "TupleToTextFormat w lib ps for_input (GetTupleType ps, vs) m = Inr (put (DocItems (args_doc lib for_input ps vs)) m)"
  using in_structure [OF assms(2)] Unpack_ToTextFormat_ok [OF assms, of "[]"]
  by (simp add: TupleToTextFormat_def IsTupleCorrectType_def check_def)

lemma named_structure:
  assumes "ok m" "\<And>m. ok m \<Longrightarrow> f (opened [] m) = Inr (opened ds m)"
  shows "in_structure w (named_item w n (in_structure w f)) m = Inr (put (DocItems [(n, DocItems ds)]) m)"
proof -
  have "named_item w n (in_structure w f) (opened [] m) = Inr (opened ([] @ [(n, DocItems ds)]) m)"
    using assms by (intro named_item in_structure)
  then show ?thesis
    by (intro in_structure assms(1)) simp
qed

lemma write_error_ok:
  "ok m \<Longrightarrow> write_error w msg err m = Inr (put (DocItems [(''error'', DocItems [(''description'', DocText (Error_ToString msg err))])]) m)"
  unfolding write_error_def by (erule named_structure) (simp add: named_string)

lemma write_results_ok:
  assumes "output_args pf lib (me_params me) vs" "ok m"
  shows "write_results w lib me (GetTupleType (me_params me), vs) m
    = Inr (put (DocItems [(''results'', DocItems (args_doc lib False (me_params me) vs))]) m)"
  using in_structure [OF assms(2)] named_item [OF assms(2) TupleToTextFormat_ok [OF assms(1) [unfolded output_args_def]], of "''results''" "[]"]
  by (simp add: write_results_def)

end

context text_input
begin

lemma Unpack_FromTextFormat_ok:
  assumes "input_args (tx_platform p) lib fuel ps vs" "\<And>t. fresh t (tx_init p t)" "items (args_doc lib True ps vs @ ds) m m'"
  shows "\<exists>m1. Unpack_FromTextFormat r (DecodeValue fuel p r lib) True ps (map default_value (GetTupleType ps)) m = Inr (vs, m1) \<and> items ds m1 m'"
  using assms(1,3) unfolding input_args_def GetTupleType_def
proof (induction ps vs arbitrary: m rule: list_all2_induct)
  case (Cons q ps v vs)
  obtain m1 where m1: "(if Include (pa_direction q) True then decode_named r (pa_name q) (DecodeValue fuel p r lib (pa_type q) (default_value (pa_type q))) m
        else Inr (default_value (pa_type q), m)) = Inr (v, m1)" "items (args_doc lib True ps vs @ ds) m1 m'"
  proof (cases "Include (pa_direction q) True")
    case True
    have "DecodeValue fuel p r lib (pa_type q) (default_value (pa_type q)) k = Inr (v, k')" if "reads (doc_of lib (pa_type q) v) k k'" for k k'
      unfolding DecodeValue_def by (rule read_text_ok [OF assms(2) _ fresh_default(1) _ that]) (use Cons.hyps True in simp_all)
    note * = decode_item [where f = "DecodeValue fuel p r lib (pa_type q) (default_value (pa_type q))" and x = v, OF _ this]
    have "items ((pa_name q, doc_of lib (pa_type q) v) # args_doc lib True ps vs @ ds) m m'"
      using Cons.prems True by simp
    from * [OF this] show ?thesis
      using True that by auto
  next
    case False
    then show ?thesis
      using Cons that by simp
  qed
  then show ?case
    using Cons.IH [OF m1(2)] by auto
qed auto

lemma TupleFromTextFormat_ok:
  assumes "input_args (tx_platform p) lib fuel ps vs" "\<And>t. fresh t (tx_init p t)" "reads (DocItems (args_doc lib True ps vs)) m m'"
  shows "TupleFromTextFormat fuel p r lib ps True (CreateDefaultConstructedTuple ps) m = Inr ((GetTupleType ps, vs), m')"
proof -
  have "decode_structure r (Unpack_FromTextFormat r (DecodeValue fuel p r lib) True ps (map default_value (GetTupleType ps))) m = Inr (vs, m')"
    by (rule decode_items [OF assms(3)]) (use Unpack_FromTextFormat_ok [OF assms(1,2), of "[]"] in simp)
  then show ?thesis
    by (simp add: TupleFromTextFormat_def IsTupleCorrectType_def CreateDefaultConstructedTuple_def check_def)
qed

end

context text_errors
begin

lemma skips_Unpack:
  assumes "lib [] = None" "length vs = length ps"
  shows "skips (Unpack_FromTextFormat r (DecodeValue (Suc fuel) p r lib) for_input ps vs)"
  using assms(2)
proof (induction ps vs rule: list_induct2')
  case (4 q ps v vs)
  have "skips (DecodeValue (Suc fuel) p r lib (pa_type q) v)"
    unfolding DecodeValue_def by (intro skips_read_text skips_DecodeMsgAnyPtr assms(1))
  then have "skips (\<lambda>m. if Include (pa_direction q) for_input then decode_named r (pa_name q) (DecodeValue (Suc fuel) p r lib (pa_type q) v) m
      else Inr (v, m))"
    by (cases "Include (pa_direction q) for_input") (auto intro: skips_named skips_return)
  moreover have "skips (\<lambda>m. bind_res (Unpack_FromTextFormat r (DecodeValue (Suc fuel) p r lib) for_input ps vs m) (\<lambda>(vs, m). Inr (v # vs, m)))" for v
    using 4 by (intro skips_bind skips_return) simp
  ultimately show ?case
    unfolding Unpack_FromTextFormat.simps by (rule skips_bind)
qed (simp_all add: skips_def)

lemma skips_Tuple:
  assumes "lib [] = None"
  shows "skips (TupleFromTextFormat (Suc fuel) p r lib ps for_input (CreateDefaultConstructedTuple ps))"
proof -
  have "skips (decode_structure r (Unpack_FromTextFormat r (DecodeValue (Suc fuel) p r lib) for_input ps (map default_value (GetTupleType ps))))"
    by (intro skips_structure skips_Unpack assms) (simp add: GetTupleType_def)
  from skips_bind [OF this skips_return, of "\<lambda>vs. (GetTupleType ps, vs)"] show ?thesis
    by (simp add: TupleFromTextFormat_def IsTupleCorrectType_def CreateDefaultConstructedTuple_def check_def skips_def)
qed

end

subsection \<open>Calls in JSON\<close>

text \<open>The document of a reply: the results of the method, or its error.\<close>

definition error_doc :: "(error_code \<Rightarrow> string) \<Rightarrow> error_code \<Rightarrow> doc" where
  "error_doc msg err = DocItems [(''error'', DocItems [(''description'', DocText (Error_ToString msg err))])]"

definition reply_doc :: "(error_code \<Rightarrow> string) \<Rightarrow> text_lib \<Rightarrow> 's api_method \<Rightarrow> error_code \<Rightarrow> val list \<Rightarrow> doc" where
  "reply_doc msg lib me err vs =
     (if Error_bool err then error_doc msg err else DocItems [(''results'', DocItems (args_doc lib False (me_params me) vs))])"

definition request_doc :: "text_lib \<Rightarrow> 's api_method \<Rightarrow> string \<Rightarrow> val list \<Rightarrow> doc" where
  "request_doc lib me name args =
     DocItems [(''method'', DocText name), (''params'', DocItems (args_doc lib True (me_params me) args))]"

definition written_json :: "doc \<Rightarrow> to_json" where
  "written_json d = jw_put d (ToJson MACHINE_ROUND_TRIP)"

lemma written_json_stream: "jw_stream (written_json d) = json_doc d"
  by (simp add: written_json_def jw_put_def jw_write_def ToJson_def)

lemma ToJson_ok: "jw_ok (ToJson MACHINE_ROUND_TRIP)"
  by (simp add: jw_ok_def ToJson_def)

lemma finish_call_method:
  assumes "\<not> tr_HasError r m" "me_function me args s = Inr (err, vs, s')" "\<not> Error_bool err \<Longrightarrow> output_args pf lib (me_params me) vs"
  shows "finish_call msg r (ToJson_writer MACHINE_ROUND_TRIP) lib (Some me) (GetTupleType (me_params me), args) m (ToJson MACHINE_ROUND_TRIP) s
    = Inr (m, written_json (reply_doc msg lib me err vs), s')"
  using assms jo.write_error_ok [OF ToJson_ok] jo.write_results_ok [of pf lib me vs, OF _ ToJson_ok]
  by (auto simp: finish_call_def Method_Call_def IsTupleCorrectType_def reply_doc_def error_doc_def written_json_def)

lemma finish_call_error:
  assumes "tr_HasError r m"
  shows "finish_call msg r (ToJson_writer MACHINE_ROUND_TRIP) lib method_ptr tuple m (ToJson MACHINE_ROUND_TRIP) s
    = Inr (m, written_json (error_doc msg (Error_errc errc_bad_message)), s)"
  using assms jo.write_error_ok [OF ToJson_ok]
  by (simp add: finish_call_def error_doc_def written_json_def Error_bool_def Error_errc_def errc_bad_message_def)

text \<open>
  C5: A call through JSON is the call of the method: if the request names a method of the set and its
  parameters are the document of well-typed arguments, the method is called once, with these
  arguments, and the reply is the text of what it returns: its results, or its error.
\<close>

theorem Json_call:
  assumes "smap_find name methods = Some me" "input_args (tx_platform p) lib fuel (me_params me) args" "\<And>t. fresh t (tx_init p t)"
    and "parse str = Inr j" "json_is (request_doc lib me name args) j"
    and "me_function me args s = Inr (err, vs, s')" "\<not> Error_bool err \<Longrightarrow> output_args (tx_platform p) lib (me_params me) vs"
  shows "\<exists>m out. CallEncodedMethod msg fuel p FromJson_reader FromJson_EnsureAllDecoded (ToJson_writer MACHINE_ROUND_TRIP) lib methods
      (FromJson parse str) (ToJson MACHINE_ROUND_TRIP) s = Inr (m, out, s')
    \<and> jr_error m = None \<and> jw_stream out = json_doc (reply_doc msg lib me err vs)"
proof -
  let ?args = "(''params'', DocItems (args_doc lib True (me_params me) args))"
  obtain m where m: "jr_reads (request_doc lib me name args) (json_started j) m" "jr_error m = None" "FromJson_EnsureAllDecoded m = m"
    using jr_reads_started [OF assms(5)] by blast
  then obtain m1 where m1: "tr_StartStructure FromJson_reader (json_started j) = Inr m1"
      "jr_items [(''method'', DocText name), ?args] m1 m"
    unfolding request_doc_def using ji.read_structure by blast
  obtain m2 where m2: "decode_named FromJson_reader ''method'' (tr_DecodeStringValue FromJson_reader) m1 = Inr (name, m2)" "jr_items [?args] m2 m"
    using ji.decode_string_item [OF m1(2)] by blast
  obtain m3 where m3: "decode_named FromJson_reader ''params'' (TupleFromTextFormat fuel p FromJson_reader lib (me_params me) True
        (CreateDefaultConstructedTuple (me_params me))) m2 = Inr ((GetTupleType (me_params me), args), m3)" "jr_items [] m3 m"
    using ji.decode_item [where f = "TupleFromTextFormat fuel p FromJson_reader lib (me_params me) True
        (CreateDefaultConstructedTuple (me_params me))", OF m2(2) ji.TupleFromTextFormat_ok [OF assms(2,3)]] by blast
  have "\<not> tr_HasError FromJson_reader m"
    using m(2) by (simp add: from_json_ops)
  from finish_call_method [OF this assms(6,7)] show ?thesis
    using m m1(1) m2(1) m3 ji.structure_done [OF m3(2)] FromJson_started [of parse, OF assms(4) json_is_not_other [OF assms(5)]] assms(1)
    by (simp add: CallEncodedMethod_def written_json_stream)
qed

definition demo_method :: "nat api_method" where
  "demo_method = \<lparr>me_name = ''next'', me_description = [],
     me_params = [\<lparr>pa_name = ''x'', pa_description = [], pa_type = TInt U32, pa_direction = Input\<rparr>,
       \<lparr>pa_name = ''y'', pa_description = [], pa_type = TInt U32, pa_direction = Output\<rparr>],
     me_function = \<lambda>vs calls. case vs of [VInt _ x, _] \<Rightarrow> Inr (Error, [VInt U32 x, VInt U32 ((x + 1) mod 2 ^ 32)], Suc calls) | _ \<Rightarrow> ill_typed\<rparr>"

definition demo_request :: json where
  "demo_request = JObject [(''method'', JString ''next''), (''params'', JObject [(''x'', JString (int_ToString U32 41))])]"

theorem Json_call_witness:
  "\<exists>m out. CallEncodedMethod (\<lambda>_. []) 0 demo_text_params FromJson_reader FromJson_EnsureAllDecoded (ToJson_writer MACHINE_ROUND_TRIP) (\<lambda>_. None)
      [(''next'', demo_method)] (FromJson (\<lambda>_. Inr demo_request) []) (ToJson MACHINE_ROUND_TRIP) 0 = Inr (m, out, 1)
    \<and> jr_error m = None \<and> jw_stream out = json_doc (reply_doc (\<lambda>_. []) (\<lambda>_. None) demo_method Error [VInt U32 41, VInt U32 42])"
  by (rule Json_call [where name = "''next''" and me = demo_method and args = "[VInt U32 41, VInt U32 0]" and j = demo_request])
    (simp_all add: demo_method_def demo_request_def input_args_def output_args_def demo_text_params_def fresh_null request_doc_def)

text \<open>
  A request that is not JSON, or names no method of the set, changes nothing: the reply is the error
  for a bad message.
\<close>

theorem Json_call_rejected:
  assumes "lib [] = None"
    and "(\<exists>what. parse str = Inl what) \<or> (\<exists>name d j. smap_find name methods = None \<and> parse str = Inr j
      \<and> json_is (DocItems [(''method'', DocText name), (''params'', d)]) j)"
  shows "\<exists>m out. CallEncodedMethod msg (Suc fuel) p FromJson_reader FromJson_EnsureAllDecoded (ToJson_writer MACHINE_ROUND_TRIP) lib methods
      (FromJson parse str) (ToJson MACHINE_ROUND_TRIP) s = Inr (m, out, s)
    \<and> jr_error m \<noteq> None \<and> jw_stream out = json_doc (error_doc msg (Error_errc errc_bad_message))"
proof -
  let ?call = "\<lambda>m. CallEncodedMethod msg (Suc fuel) p FromJson_reader FromJson_EnsureAllDecoded (ToJson_writer MACHINE_ROUND_TRIP) lib methods
      m (ToJson MACHINE_ROUND_TRIP) s"
  let ?reply = "written_json (error_doc msg (Error_errc errc_bad_message))"
  have failed: "?call m = Inr (m, ?reply, s)" if err: "tr_HasError FromJson_reader m" for m
  proof -
    have name: "decode_named FromJson_reader ''method'' (tr_DecodeStringValue FromJson_reader) m = Inr ([], m)"
      using err by (simp add: decode_named_def je.start_item je.decode_string je.complete_item)
    have "\<exists>tuple. decode_named FromJson_reader ''params'' (TupleFromTextFormat (Suc fuel) p FromJson_reader lib (me_params me) True
        (CreateDefaultConstructedTuple (me_params me))) m = Inr (tuple, m)" for me :: "'a api_method"
      by (rule je.skipsD [OF je.skips_named [OF je.skips_Tuple [of lib, OF assms(1)]] err])
    moreover have "FromJson_EnsureAllDecoded m = m"
      using err by (simp add: FromJson_EnsureAllDecoded_def from_json_ops)
    ultimately show ?thesis
      using err name by (auto simp: CallEncodedMethod_def je.start_structure je.complete_structure je.set_again finish_call_error split: option.splits)
        (metis bind_res_Inr case_prod_conv finish_call_error je.complete_structure)
  qed
  from assms(2) show ?thesis
  proof (elim disjE exE conjE)
    fix what
    assume "parse str = Inl what"
    then have "tr_HasError FromJson_reader (FromJson parse str)"
      by (simp add: FromJson_def FromJson_SetError_def from_json_ops)
    from failed [OF this] this show ?thesis
      by (simp add: written_json_stream from_json_ops)
  next
    fix name d j
    assume name: "smap_find name methods = None" and j: "parse str = Inr j" "json_is (DocItems [(''method'', DocText name), (''params'', d)]) j"
    obtain m where "jr_reads (DocItems [(''method'', DocText name), (''params'', d)]) (json_started j) m"
      using jr_reads_started [OF j(2)] by blast
    then obtain m1 where m1: "tr_StartStructure FromJson_reader (json_started j) = Inr m1" "jr_items [(''method'', DocText name), (''params'', d)] m1 m"
      using ji.read_structure by blast
    obtain m2 where m2: "decode_named FromJson_reader ''method'' (tr_DecodeStringValue FromJson_reader) m1 = Inr (name, m2)"
      using ji.decode_string_item [OF m1(2)] by blast
    have err: "tr_HasError FromJson_reader (tr_SetError FromJson_reader ''Unknown method name'' m2)"
      by (simp add: from_json_ops FromJson_SetError_def)
    have "?call (FromJson parse str) = Inr (tr_SetError FromJson_reader ''Unknown method name'' m2, ?reply, s)"
      using m1(1) m2 name FromJson_started [of parse, OF j(1) json_is_not_other [OF j(2)]]
      by (simp add: CallEncodedMethod_def finish_call_error [OF err])
    with err show ?thesis
      by (simp add: written_json_stream from_json_ops)
  qed
qed

theorem Json_call_rejected_witness:
  "\<exists>m out. CallEncodedMethod (\<lambda>_. []) (Suc 0) demo_text_params FromJson_reader FromJson_EnsureAllDecoded (ToJson_writer MACHINE_ROUND_TRIP) (\<lambda>_. None)
      [(''other'', demo_method)] (FromJson (\<lambda>_. Inr demo_request) []) (ToJson MACHINE_ROUND_TRIP) 7 = Inr (m, out, 7)
    \<and> jr_error m \<noteq> None \<and> jw_stream out = json_doc (error_doc (\<lambda>_. []) (Error_errc errc_bad_message))"
proof (rule Json_call_rejected)
  have "json_is (DocItems [(''method'', DocText ''next''), (''params'', DocItems [(''x'', DocText (int_ToString U32 41))])]) demo_request"
    by (simp add: demo_request_def)
  then show "(\<exists>what. (Inr demo_request :: string + json) = Inl what) \<or> (\<exists>name d j. smap_find name [(''other'', demo_method)] = None
      \<and> (Inr demo_request :: string + json) = Inr j \<and> json_is (DocItems [(''method'', DocText name), (''params'', d)]) j)"
    by (intro disjI2 exI [of _ "''next''"] exI [of _ demo_request] exI [of _ "DocItems [(''x'', DocText (int_ToString U32 41))]"] conjI)
      (assumption | rule refl | simp)+
qed simp

end
