(* ===== verification/Application.thy ===== *)
theory Application
  imports HttpConnection Renderer MethodSet
begin

section \<open>camplight::ApplicationService\<close>

text \<open>
  \<open>CampLight/camplight/Application.cpp\<close>: the web interface of the lamp. A request gets a resource
  file, a redirection to the index page, or the result of a method whose parameters it has in
  XML. The resource files, which the build generates, are the argument \<open>resources\<close>; the state that the
  methods work on is the renderer. The build is the release build.
\<close>

subsection \<open>The methods\<close>

text \<open>\<open>Color::ToTextFormat\<close> gives the colour's text to the encoder, as a string would be.\<close>

definition Color_ToTextFormat :: "color \<Rightarrow> val" where
  "Color_ToTextFormat c = VString (bytes_of (Color_ToString c))"

definition Param :: "string \<Rightarrow> string \<Rightarrow> tty \<Rightarrow> direction \<Rightarrow> param" where
  "Param name description ty dir = \<lparr>pa_name = name, pa_description = description, pa_type = ty, pa_direction = dir\<rparr>"

definition Api_GetLeds :: "val list \<Rightarrow> renderer \<Rightarrow> (error_code \<times> val list \<times> renderer) res" where
  "Api_GetLeds vs s = (case Renderer_GetLedsForWebDisplay s of (width, height, main_leds, top_leds) \<Rightarrow>
     Inr (Error, [VInt U32 (int width), VInt U32 (int height), VVector (map Color_ToTextFormat main_leds),
       VVector (map Color_ToTextFormat top_leds)], s))"

definition Api_GetFactories :: "val list \<Rightarrow> renderer \<Rightarrow> (error_code \<times> val list \<times> renderer) res" where
  "Api_GetFactories vs s =
     (let names = (\<lambda>ns. VVector (map (\<lambda>n. VString (bytes_of n)) ns)) in
      Inr (Error, [names (GetNames SequenceFactory), names (GetNames PatternFactory), names (GetNames TransitionFactory)], s))"

definition Api_Apply :: "val list \<Rightarrow> renderer \<Rightarrow> (error_code \<times> val list \<times> renderer) res" where
  "Api_Apply vs s = (case vs of
       [VString sequence] \<Rightarrow> Inr (Error, vs, ChangeToSequence (chars_of sequence) s)
     | _ \<Rightarrow> ill_typed)"

definition get_leds_params :: param_pack where
  "get_leds_params =
    [Param ''width'' ''The width of the matricies'' (TInt U32) Output,
     Param ''height'' ''The height of the matricies'' (TInt U32) Output,
     Param ''main_leds'' ''The vector (width x height long) of the colors strings (in HTML hashed color format) of each of the LEDs on the main (bottom) side''
       (TVector TString) Output,
     Param ''top_leds'' ''The vector (width x height long) of the colors strings (in HTML hashed color format) of each of the LEDs on the top side''
       (TVector TString) Output]"

definition get_factories_params :: param_pack where
  "get_factories_params =
    [Param ''sequences'' ''The list of sequences that can be displayed'' (TVector TString) Output,
     Param ''patterns'' ''The list of patterns that can be used in sequences'' (TVector TString) Output,
     Param ''transitions'' ''The list of transitions that can be used in sequences'' (TVector TString) Output]"

definition apply_params :: param_pack where
  "apply_params = [Param ''sequence'' ''The sequence to display'' TString Input]"

definition get_leds_method :: "renderer api_method" where
  "get_leds_method = \<lparr>me_name = ''get-leds'', me_description = ''Gets the current state of the LEDs'',
     me_params = get_leds_params, me_function = Api_GetLeds\<rparr>"

definition get_factories_method :: "renderer api_method" where
  "get_factories_method = \<lparr>me_name = ''get-factories'', me_description = ''Gets the available factories'',
     me_params = get_factories_params, me_function = Api_GetFactories\<rparr>"

definition apply_method :: "renderer api_method" where
  "apply_method = \<lparr>me_name = ''apply'', me_description = ''Applies a sequence'',
     me_params = apply_params, me_function = Api_Apply\<rparr>"

text \<open>The constructor's \<open>m_method_set\<close>.\<close>

definition ApplicationService :: "renderer method_map res" where
  "ApplicationService = MethodSet [get_leds_method, get_factories_method, apply_method]"

subsection \<open>Requests\<close>

definition HandleApiRequest :: "(error_code \<Rightarrow> string) \<Rightarrow> text_params \<Rightarrow> text_lib \<Rightarrow> renderer method_map \<Rightarrow> connection \<Rightarrow> renderer
    \<Rightarrow> (connection \<times> renderer) res" where
  "HandleApiRequest msg p lib methods c s =
     (let answer = (\<lambda>s response. bind_res response (\<lambda>c. Inr (c, s))) in
      bind_res (GetMethod c) (\<lambda>http_method.
      if http_method \<noteq> ''POST'' then answer s (RespondWithMethodNotAllowedError ''POST'' c)
      else bind_res (GetResource c) (\<lambda>resource.
      let method_name = drop 5 resource in
      if \<not> HasMethodWithName method_name methods then answer s (RespondWithNotFoundError c)
      else bind_res (GetMethodByName method_name methods) (\<lambda>me.
      bind_res (GetContent c) (\<lambda>content.
      bind_res (FromXml content) (\<lambda>from_xml.
      bind_res (decode_named FromXml_reader ''params'' (TupleFromTextFormat 0 p FromXml_reader lib (me_params me) True
          (CreateDefaultConstructedTuple (me_params me))) from_xml) (\<lambda>(params_tuple, from_xml).
      let from_xml = FromXml_EnsureAllDecoded from_xml in
      if FromXml_HasError from_xml then answer s (RespondWithBadRequestError (the (xr_error from_xml)) c)
      else bind_res (Method_Call me params_tuple s) (\<lambda>(err, params_tuple, s).
      if Error_bool err then answer s (RespondWithServerError (Error_ToString msg err) c)
      else bind_res (TupleToTextFormat (ToXml_writer MACHINE_ROUND_TRIP) lib (me_params me) False params_tuple (ToXml ''results'')) (\<lambda>to_xml.
      bind_res (XMLDocument_Print (xml_document to_xml) False (XMLPrinter False)) (\<lambda>printer.
        answer s (respond [SetHeader_ContentType ''text/xml'', SetHeader_NoCache, SetResponse 200,
          SetContent (c_str (xp_buffer printer))] c)))))))))))"

definition HttpRequestHandler :: "resource_set \<Rightarrow> (error_code \<Rightarrow> string) \<Rightarrow> text_params \<Rightarrow> text_lib \<Rightarrow> renderer method_map
    \<Rightarrow> connection \<Rightarrow> renderer \<Rightarrow> (connection \<times> renderer) res" where
  "HttpRequestHandler resources msg p lib methods c s =
     bind_res (RespondWithResource resources c) (\<lambda>(c, found).
     if found then Inr (c, s)
     else bind_res (GetResource c) (\<lambda>resource.
     if resource = ''/'' then bind_res (RespondWithTemporaryRedirect ''/index.html'' c) (\<lambda>c. Inr (c, s))
     else if take 5 resource = ''/api/'' then HandleApiRequest msg p lib methods c s
     else bind_res (RespondWithNotFoundError c) (\<lambda>c. Inr (c, s))))"

lemmas api_methods = get_leds_method_def get_factories_method_def apply_method_def
lemmas api_params = get_leds_params_def get_factories_params_def apply_params_def Param_def

lemma ApplicationService_methods:
  "ApplicationService = Inr [(''apply'', apply_method), (''get-factories'', get_factories_method), (''get-leds'', get_leds_method)]"
  by (simp add: ApplicationService_def MethodSet_def Internal_AddMethod_def check_def api_methods)

subsection \<open>Decoding the parameters\<close>

text \<open>The only fault of the XML library's texts is the null pointer of a bad character reference.\<close>

lemma getstr_loop_fault: "getstr_loop sp s out = Inl e \<Longrightarrow> e = NullPointer"
proof (induction sp s out rule: getstr_loop.induct)
  case (1 sp p out)
  from 1(7) show ?case
    by (subst (asm) getstr_loop.simps)
      (use 1(3) in \<open>auto split: list.splits if_splits option.splits dest: 1(1,2,4,5,6)\<close>)
qed

lemma GetStr_fault: "GetStr sp = Inl e \<Longrightarrow> e = NullPointer"
  by (auto simp: GetStr_def bind_res_eq_Inl split: if_splits dest: getstr_loop_fault)

lemma Attribute_fault: "Attribute n as = Inl e \<Longrightarrow> e = NullPointer"
  by (auto simp: Attribute_def bind_res_eq_Inl split: option.splits dest: GetStr_fault)

lemma ParseAttributes_fault: "XMLElement_ParseAttributes s as = Inl (XmlFault e) \<Longrightarrow> e = NullPointer"
proof (induction s as rule: XMLElement_ParseAttributes.induct)
  case (1 s as)
  note eq = 1(2) [unfolded XMLElement_ParseAttributes.simps [of s as]]
  then obtain c p where p: "SkipWhiteSpace s = c # p"
    by (auto split: list.splits)
  then have c: "IsNameStartChar c"
    using eq by (auto split: if_splits)
  then obtain n v r where a: "XMLAttribute_ParseDeep (c # p) = Some ((n, v), r)"
    using eq p by (auto split: option.splits)
  show ?case
  proof (cases "Attribute n as")
    case (Inl e')
    then show ?thesis
      using eq p c a Attribute_fault [OF Inl] by simp
  next
    case (Inr found)
    then have "found = None" "XMLElement_ParseAttributes r (as @ [(n, v)]) = Inl (XmlFault e)"
      using eq p c a by (auto split: option.splits)
    then show ?thesis
      using 1(1) [OF p c, of "((n, v), r)" "(n, v)" r n v] a Inr by simp
  qed
qed

lemma ParseTag_fault: "ParseTag s = Inl (XmlFault e) \<Longrightarrow> e = NullPointer"
  by (auto simp: ParseTag_def Let_def split: option.splits sum.splits if_splits dest: ParseAttributes_fault)

lemma ParseLeaf_fault: "ParseLeaf kind s \<noteq> Inl (XmlFault e)"
  by (auto simp: ParseLeaf_def Let_def split: node_kind.splits option.splits if_splits)

lemma add_node_Inl: "add_node node r = Inl e \<longleftrightarrow> r = Inl e"
  by (auto simp: add_node_def split: sum.splits)

lemma ParseDeep_fault: "XMLNode_ParseDeep s = Inl (XmlFault e) \<Longrightarrow> e = NullPointer"
proof (induction s rule: XMLNode_ParseDeep.induct)
  case (1 s)
  note eq = 1(5) [unfolded XMLNode_ParseDeep.simps [of s]]
  then obtain kind q where s: "s \<noteq> []" and id: "Identify s = (Some kind, q)"
    by (auto split: if_splits prod.splits option.splits)
  show ?case
  proof (cases "kind = KindElement")
    case True
    show ?thesis
    proof (cases "ParseTag q")
      case (Inl e')
      then show ?thesis
        using eq s id True ParseTag_fault [of q] by simp
    next
      case (Inr x)
      then obtain c n as r where tag: "ParseTag q = Inr (c, n, as, r)"
        by (cases x) auto
      show ?thesis
      proof (cases c)
        case CLOSING
        then show ?thesis
          using eq s id True tag by simp
      next
        case CLOSED
        then have "XMLNode_ParseDeep r = Inl (XmlFault e)"
          using eq s id True tag by (simp add: add_node_Inl)
        then show ?thesis
          using 1(3) s id True tag CLOSED by auto
      next
        case OPEN
        then have r: "r \<noteq> []"
          using eq s id True tag by auto
        show ?thesis
        proof (cases "XMLNode_ParseDeep r")
          case (Inl e')
          then show ?thesis
            using eq 1(1) s id True tag OPEN r by auto
        next
          case (Inr y)
          then obtain cs t r' where cs: "XMLNode_ParseDeep r = Inr (cs, Some (t, r'))" "t = n" "XMLNode_ParseDeep r' = Inl (XmlFault e)"
            using eq s id True tag OPEN r by (cases y) (auto simp: add_node_Inl split: option.splits if_splits)
          then show ?thesis
            using 1(2) s id True tag OPEN r by auto
        qed
      qed
    qed
  next
    case False
    then obtain node r where leaf: "ParseLeaf kind q = Inr (node, r)" "XMLNode_ParseDeep r = Inl (XmlFault e)"
      using eq s id ParseLeaf_fault by (auto simp: add_node_Inl split: sum.splits)
    then show ?thesis
      using 1(4) s id False by auto
  qed
qed

lemma FromXml_fault:
  assumes "FromXml s = Inl e"
  shows "e = NullPointer" "XMLDocument_Parse s = Inl (XmlFault NullPointer)"
proof -
  have parse: "XMLDocument_Parse s = Inl (XmlFault e)"
    using assms by (auto simp: FromXml_def split: sum.splits xml_failure.splits)
  then show "e = NullPointer"
    by (auto simp: XMLDocument_Parse_def Let_def split: if_splits prod.splits sum.splits dest: ParseDeep_fault)
  then show "XMLDocument_Parse s = Inl (XmlFault NullPointer)"
    using parse by simp
qed

lemma DecodeStringValue_fault: "FromXml_DecodeStringValue m = Inl e \<Longrightarrow> e = NullPointer"
  by (auto simp: FromXml_DecodeStringValue_def bind_res_eq_Inl split: if_splits list.splits prod.splits option.splits xml_node.splits
      dest: GetStr_fault Attribute_fault)

text \<open>With an error or at an element no other operation fails.\<close>

definition inside :: "from_xml \<Rightarrow> bool" where
  "inside m \<longleftrightarrow> xr_error m \<noteq> None \<or> xr_cur m \<noteq> []"

lemma inside_StartNamedItem: "\<exists>m'. tr_StartNamedItem FromXml_reader n m = Inr m' \<and> inside m'"
  by (auto simp: FromXml_reader_def FromXml_StartNamedItem_def inside_def FromXml_HasError_def FromXml_SetError_def split: option.splits prod.splits)

lemma inside_CompleteNamedItem: "inside m \<Longrightarrow> \<exists>m'. tr_CompleteNamedItem FromXml_reader m = Inr m' \<and> inside m'"
  by (auto simp: FromXml_reader_def FromXml_CompleteNamedItem_def inside_def FromXml_HasError_def FromXml_SetError_def)

lemma inside_StartStructure: "inside m \<Longrightarrow> \<exists>m'. tr_StartStructure FromXml_reader m = Inr m' \<and> inside m'"
  by (auto simp: FromXml_reader_def FromXml_StartStructure_def inside_def FromXml_HasError_def FromXml_SetError_def)

lemma inside_CompleteStructure: "inside m \<Longrightarrow> \<exists>m'. tr_CompleteStructure FromXml_reader m = Inr m'"
  by (auto simp: FromXml_reader_def FromXml_CompleteStructure_def inside_def FromXml_HasError_def split: list.splits option.splits prod.splits)

lemma inside_DecodeString:
  assumes "inside m"
  shows "tr_DecodeStringValue FromXml_reader m = Inl NullPointer \<or> (\<exists>str m'. tr_DecodeStringValue FromXml_reader m = Inr (str, m') \<and> inside m')"
proof (cases "tr_DecodeStringValue FromXml_reader m")
  case (Inl e)
  then show ?thesis
    using DecodeStringValue_fault [of m e] by (simp add: FromXml_reader_def)
next
  case (Inr x)
  then have "inside (snd x)"
    using assms by (auto simp: FromXml_reader_def FromXml_DecodeStringValue_def inside_def FromXml_HasError_def FromXml_SetError_def bind_res_eq_Inr
        split: if_splits list.splits prod.splits option.splits xml_node.splits)
  then show ?thesis
    using Inr by (cases x) auto
qed

lemma CompleteNamedItem_total: "\<exists>m'. tr_CompleteNamedItem FromXml_reader m = Inr m'"
  by (simp add: FromXml_reader_def FromXml_CompleteNamedItem_def)

lemma decode_params:
  assumes "\<And>m. inside m \<Longrightarrow> Unpack_FromTextFormat FromXml_reader (DecodeValue 0 p FromXml_reader lib) True ps (map default_value (GetTupleType ps)) m
      = Inl NullPointer \<and> P \<or> (\<exists>vs m'. Unpack_FromTextFormat FromXml_reader (DecodeValue 0 p FromXml_reader lib) True ps
        (map default_value (GetTupleType ps)) m = Inr (vs, m') \<and> inside m' \<and> Q vs)"
  shows "decode_named FromXml_reader n (TupleFromTextFormat 0 p FromXml_reader lib ps True (CreateDefaultConstructedTuple ps)) m = Inl NullPointer \<and> P
    \<or> (\<exists>vs m'. decode_named FromXml_reader n (TupleFromTextFormat 0 p FromXml_reader lib ps True (CreateDefaultConstructedTuple ps)) m
        = Inr ((GetTupleType ps, vs), m') \<and> Q vs)"
proof -
  obtain m1 where m1: "tr_StartNamedItem FromXml_reader n m = Inr m1" "inside m1"
    using inside_StartNamedItem by blast
  obtain m2 where m2: "tr_StartStructure FromXml_reader m1 = Inr m2" "inside m2"
    using inside_StartStructure [OF m1(2)] by blast
  from assms [OF m2(2)] show ?thesis
  proof (elim disjE exE conjE)
    fix vs m3
    assume vs: "Unpack_FromTextFormat FromXml_reader (DecodeValue 0 p FromXml_reader lib) True ps (map default_value (GetTupleType ps)) m2 = Inr (vs, m3)"
      "inside m3" "Q vs"
    obtain m4 where m4: "tr_CompleteStructure FromXml_reader m3 = Inr m4"
      using inside_CompleteStructure [OF vs(2)] by blast
    obtain m5 where "tr_CompleteNamedItem FromXml_reader m4 = Inr m5"
      using CompleteNamedItem_total by blast
    then show ?thesis
      using m1 m2 vs m4
      by (simp add: decode_named_def TupleFromTextFormat_def IsTupleCorrectType_def CreateDefaultConstructedTuple_def check_def decode_structure_def)
  qed (use m1 m2 in \<open>simp add: decode_named_def TupleFromTextFormat_def IsTupleCorrectType_def CreateDefaultConstructedTuple_def check_def
      decode_structure_def\<close>)
qed

lemma decode_no_inputs:
  assumes "ps = get_leds_params \<or> ps = get_factories_params"
  shows "\<exists>vs m'. decode_named FromXml_reader n (TupleFromTextFormat 0 p FromXml_reader lib ps True (CreateDefaultConstructedTuple ps)) m
    = Inr ((GetTupleType ps, vs), m')"
  using decode_params [of p lib ps False "\<lambda>_. True" n m] assms by (auto simp: GetTupleType_def api_params)

lemma decode_apply:
  "decode_named FromXml_reader n (TupleFromTextFormat 0 p FromXml_reader lib apply_params True (CreateDefaultConstructedTuple apply_params)) m = Inl NullPointer
    \<or> (\<exists>str m'. decode_named FromXml_reader n (TupleFromTextFormat 0 p FromXml_reader lib apply_params True (CreateDefaultConstructedTuple apply_params)) m
        = Inr ((GetTupleType apply_params, [VString str]), m'))"
proof -
  have "Unpack_FromTextFormat FromXml_reader (DecodeValue 0 p FromXml_reader lib) True apply_params (map default_value (GetTupleType apply_params)) m
      = Inl NullPointer \<and> True \<or> (\<exists>vs m'. Unpack_FromTextFormat FromXml_reader (DecodeValue 0 p FromXml_reader lib) True apply_params
        (map default_value (GetTupleType apply_params)) m = Inr (vs, m') \<and> inside m' \<and> (\<exists>str. vs = [VString str]))" if "inside m" for m
  proof -
    obtain m1 where m1: "tr_StartNamedItem FromXml_reader ''sequence'' m = Inr m1" "inside m1"
      using inside_StartNamedItem by blast
    from inside_DecodeString [OF m1(2)] show ?thesis
      using m1 by (elim disjE exE conjE; use inside_CompleteNamedItem in \<open>fastforce simp: GetTupleType_def api_params decode_named_def DecodeValue_def\<close>)
  qed
  from decode_params [of p lib apply_params True "\<lambda>vs. \<exists>str. vs = [VString str]" n m, OF this] show ?thesis
    by auto
qed

subsection \<open>Encoding the results\<close>

lemma length_for_leds: "(\<And>i j xs. length (b i j xs) = length xs) \<Longrightarrow> length (for_leds r b xs) = length xs"
proof -
  assume b: "\<And>i j xs. length (b i j xs) = length xs"
  have "length (fold (b i) js xs) = length xs" for i js xs
    by (induction js arbitrary: xs) (simp_all add: b)
  then have "length (fold (\<lambda>i. fold (b i) r) is xs) = length xs" for "is" xs
    by (induction "is" arbitrary: xs) simp_all
  then show ?thesis
    by (simp add: for_leds_def)
qed

lemma length_web_leds: "length (GetLedsForWebDisplay g mask_center result) = 81"
proof -
  have "length (take (GRID_SIZE * GRID_SIZE) result @ replicate (GRID_SIZE * GRID_SIZE - length result) Color_black) = 81"
    by (simp add: GRID_SIZE_def)
  then show ?thesis
    unfolding GetLedsForWebDisplay_def Let_def by (simp add: length_for_leds)
qed

lemma Color_printable: "as_attribute (Color_ToString c)"
proof -
  define ok where "ok ch \<longleftrightarrow> \<not> (signed_char ch < signed_char (CHR '' '') \<or> signed_char ch > signed_char (CHR ''~''))" for ch
  have "as_attribute ''0123456789ABCDEF''" "as_attribute ''#''"
    by code_simp+
  then have ok: "list_all ok ''0123456789ABCDEF''" "ok (CHR ''#'')"
    unfolding as_attribute_def ok_def [symmetric] by simp_all
  have "list_all (\<lambda>n. digit_char True n \<in> set ''0123456789ABCDEF'') [0..<16]"
    by code_simp
  then have digit: "ok (digit_char True n)" if "n < 16" for n
    using that ok(1) by (auto simp: list_all_iff simp del: list.set)
  have "list_all ok (hex2 b)" for b
    using digit [of "unat b div 16"] digit [of "unat b mod 16"] unat_byte_less [of b] by (simp add: hex2_def)
  then show ?thesis
    using ok(2) unfolding as_attribute_def ok_def [symmetric] by (simp add: Color_ToString_hex)
qed

lemma Color_no_nul: "CHR 0x00 \<notin> set (Color_ToString c)"
  by (rule as_attribute_no_nul [OF Color_printable])

definition big_platform :: platform where
  "big_platform = \<lparr>pf_size_max = 2 ^ 64 - 1, pf_vector_max = 2 ^ 64 - 1\<rparr>"

lemma printed_results:
  assumes "output_args pf lib ps vs" "no_nul (DocItems (args_doc lib False ps vs))"
  shows "\<exists>body. (\<forall>f. bind_res (TupleToTextFormat (ToXml_writer MACHINE_ROUND_TRIP) lib ps False (GetTupleType ps, vs) (ToXml ''results'')) (\<lambda>to_xml.
      bind_res (XMLDocument_Print (xml_document to_xml) False (XMLPrinter False)) (\<lambda>printer. f (xp_buffer printer))) = f body)
    \<and> body @ [CHR 0x0A] = xml_file False ''results'' (DocItems (args_doc lib False ps vs))"
proof -
  have ok: "xw_ok (ToXml ''results'')"
    by (simp add: ToXml_def xw_ok_def)
  have "TupleToTextFormat (ToXml_writer MACHINE_ROUND_TRIP) lib ps False (GetTupleType ps, vs) (ToXml ''results'')
      = Inr (xw_put (DocItems (args_doc lib False ps vs)) (ToXml ''results''))"
    by (rule xo.TupleToTextFormat_ok [OF _ ok]) (use assms(1) in \<open>simp add: output_args_def\<close>)
  moreover obtain x where "XMLDocument_Print [XmlDeclaration (SetStr xml_header), xml_of ''results'' (DocItems (args_doc lib False ps vs))] False
      (XMLPrinter False) = Inr x" "xp_buffer x @ [CHR 0x0A] = xml_file False ''results'' (DocItems (args_doc lib False ps vs))"
    using print_document [OF assms(2), of "''results''" False] by auto
  ultimately show ?thesis
    by (intro exI [of _ "xp_buffer x"]) (simp add: xml_document_put del: xw_put.simps xml_of.simps)
qed

lemma Api_GetLeds_ok:
  "\<exists>vs. Api_GetLeds old s = Inr (Error, vs, s) \<and> output_args big_platform lib get_leds_params vs \<and> no_nul (DocItems (args_doc lib False get_leds_params vs))"
proof -
  have "CHR 0x00 \<notin> set (ToString_unsigned 9)" "CHR 0x00 \<notin> set (ToString_unsigned 81)"
    by code_simp+
  then show ?thesis
    by (auto simp: Api_GetLeds_def Renderer_GetLedsForWebDisplay_def api_params output_args_def length_web_leds size_ok_def big_platform_def
        size_item_def list_all_iff Color_ToTextFormat_def Color_no_nul GRID_SIZE_def int_ToString_def)
qed

lemma Api_GetFactories_ok:
  "\<exists>vs. Api_GetFactories old s = Inr (Error, vs, s) \<and> output_args big_platform lib get_factories_params vs
    \<and> no_nul (DocItems (args_doc lib False get_factories_params vs))"
proof -
  have "list_all (\<lambda>ns. CHR 0x00 \<notin> set (ToString_unsigned (length ns)) \<and> list_all (\<lambda>n. CHR 0x00 \<notin> set n) ns \<and> length ns < 100)
      [GetNames SequenceFactory, GetNames PatternFactory, GetNames TransitionFactory]"
    by code_simp
  then show ?thesis
    by (auto simp: Api_GetFactories_def api_params output_args_def size_ok_def big_platform_def size_item_def list_all_iff)
qed

subsection \<open>Responses\<close>

definition request_of :: "connection \<Rightarrow> http_request" where
  "request_of c = pi_request (the (cn_current c))"

definition path_of :: "connection \<Rightarrow> string" where
  "path_of c = target_path (rq_target (request_of c))"

lemma live: "in_phase Handling c \<Longrightarrow> live_request c = Inr (request_of c)"
  using live_request_Handling by (simp add: request_of_def del: in_phase.simps)

lemma answeredD: "answered c r \<Longrightarrow> \<exists>m. r = Inr (sent m c)"
  by (auto simp: answered_def)

lemma respond_results:
  assumes "in_phase Handling c"
  shows "\<exists>m. respond [SetHeader_ContentType ''text/xml'', SetHeader_NoCache, SetResponse 200, SetContent str] c = Inr (sent m c)
    \<and> rs_status m = 200 \<and> rs_body m = str"
  using assms
  by (auto simp: respond_def live_request_def Response_def Response_Send_def Connection_Send_def idle_checks_def sent_def unhandled_def SetHandled_def
      SetResponse_def SetHeader_def SetContent_def SetHeader_NoCache_def SetHeader_ContentType_def change_response_def split: option.splits)

text \<open>
  What a request may lead to: one response, with the renderer changed only by an \<open>apply\<close> that succeeds,
  or the fault in the XML library, in an \<open>apply\<close> or for a document that the parser itself fails on.
\<close>

definition is_apply :: "connection \<Rightarrow> bool" where
  "is_apply c \<longleftrightarrow> rq_method (request_of c) = ''POST'' \<and> path_of c = ''/api/apply''"

definition served :: "connection \<Rightarrow> renderer \<Rightarrow> (connection \<times> renderer) res \<Rightarrow> bool" where
  "served c s r \<longleftrightarrow> (\<exists>m s'. r = Inr (sent m c, s') \<and> (s' = s \<or> rs_status m = 200 \<and> is_apply c)) \<or> r = Inl NullPointer \<and> (is_apply c
     \<or> rq_method (request_of c) = ''POST'' \<and> XMLDocument_Parse (rq_body (request_of c)) = Inl (XmlFault NullPointer))"

lemma served_answered: "answered c r \<Longrightarrow> served c s (bind_res r (\<lambda>c. Inr (c, s)))"
  by (drule answeredD) (auto simp: served_def)

lemma served_results:
  assumes "in_phase Handling c" "output_args pf lib ps vs" "no_nul (DocItems (args_doc lib False ps vs))" "s' = s \<or> is_apply c"
  shows "served c s (bind_res (TupleToTextFormat (ToXml_writer MACHINE_ROUND_TRIP) lib ps False (GetTupleType ps, vs) (ToXml ''results'')) (\<lambda>to_xml.
      bind_res (XMLDocument_Print (xml_document to_xml) False (XMLPrinter False)) (\<lambda>printer.
        bind_res (respond [SetHeader_ContentType ''text/xml'', SetHeader_NoCache, SetResponse 200, SetContent (c_str (xp_buffer printer))] c)
          (\<lambda>c. Inr (c, s')))))"
proof -
  obtain body where body: "\<And>f. bind_res (TupleToTextFormat (ToXml_writer MACHINE_ROUND_TRIP) lib ps False (GetTupleType ps, vs) (ToXml ''results'')) (\<lambda>to_xml.
      bind_res (XMLDocument_Print (xml_document to_xml) False (XMLPrinter False)) (\<lambda>printer. f (xp_buffer printer))) = (f body :: (connection \<times> renderer) res)"
    using printed_results [OF assms(2,3)] by blast
  obtain m where m: "respond [SetHeader_ContentType ''text/xml'', SetHeader_NoCache, SetResponse 200, SetContent (c_str body)] c = Inr (sent m c)"
      "rs_status m = 200"
    using respond_results [OF assms(1)] by blast
  show ?thesis
    unfolding body [of "\<lambda>buffer. bind_res (respond [SetHeader_ContentType ''text/xml'', SetHeader_NoCache, SetResponse 200, SetContent (c_str buffer)] c)
          (\<lambda>c. Inr (c, s'))"]
    using m assms(4) by (auto simp: served_def)
qed

lemma HandleApiRequest_served:
  assumes c: "in_phase Handling c" and path: "take 5 (path_of c) = ''/api/''"
  shows "served c s (HandleApiRequest msg p lib [(''apply'', apply_method), (''get-factories'', get_factories_method), (''get-leds'', get_leds_method)] c s)"
    (is "served c s (HandleApiRequest msg p lib ?methods c s)")
proof -
  note ans = served_answered [OF RespondWith_answered(1) [OF c]] served_answered [OF RespondWith_answered(5) [OF c]]
    served_answered [OF RespondWith_answered(2) [OF c]]
  note ops = HandleApiRequest_def Let_def live [OF c] GetMethod_def GetResource_def GetContent_def path_of_def [symmetric]
    HasMethodWithName_def GetMethodByName_def
  have full: "path_of c = ''/api/'' @ drop 5 (path_of c)"
    by (metis path append_take_drop_id)
  consider "rq_method (request_of c) \<noteq> ''POST''"
    | "rq_method (request_of c) = ''POST''" "smap_find (drop 5 (path_of c)) ?methods = None"
    | m0 where "rq_method (request_of c) = ''POST''" "drop 5 (path_of c) = ''apply''" "FromXml (rq_body (request_of c)) = Inr m0"
    | me m0 where "rq_method (request_of c) = ''POST''" "smap_find (drop 5 (path_of c)) ?methods = Some me"
        "me = get_factories_method \<or> me = get_leds_method" "FromXml (rq_body (request_of c)) = Inr m0"
    | me e where "rq_method (request_of c) = ''POST''" "smap_find (drop 5 (path_of c)) ?methods = Some me" "FromXml (rq_body (request_of c)) = Inl e"
    by (cases "FromXml (rq_body (request_of c))"; cases "drop 5 (path_of c) = ''apply''"; cases "drop 5 (path_of c) = ''get-factories''"; cases "drop 5 (path_of c) = ''get-leds''")
      (simp_all, blast+)
  then show ?thesis
  proof cases
    case 1
    then show ?thesis
      using ans(2) by (simp add: ops)
  next
    case 2
    then show ?thesis
      using ans(1) by (simp add: ops)
  next
    case (5 me e)
    then show ?thesis
      using FromXml_fault [OF 5(3)] by (simp add: ops served_def)
  next
    case (3 m0)
    then have isap: "is_apply c"
      using full by (simp add: is_apply_def)
    have results: "output_args big_platform lib apply_params vs" "no_nul (DocItems (args_doc lib False apply_params vs))" if "length vs = 1" for vs
      using that by (auto simp: output_args_def api_params length_Suc_conv)
    show ?thesis
    proof (cases "decode_named FromXml_reader ''params'' (TupleFromTextFormat 0 p FromXml_reader lib apply_params True
        (CreateDefaultConstructedTuple apply_params)) m0")
      case (Inl e)
      then show ?thesis
        using 3 isap decode_apply [of "''params''" p lib m0]
        by (simp add: ops apply_method_def served_def)
    next
      case (Inr x)
      then obtain str m where x: "x = ((GetTupleType apply_params, [VString str]), m)"
        using decode_apply [of "''params''" p lib m0] by auto
      show ?thesis
        using 3 Inr x ans(3) served_results [OF c results [of "[VString str]"], of "ChangeToSequence (chars_of str) s" s] isap
        by (simp add: ops apply_method_def Method_Call_def IsTupleCorrectType_def Api_Apply_def Error_bool_def Error_def)
    qed
  next
    case (4 me m0)
    have ps: "me_params me = get_leds_params \<or> me_params me = get_factories_params"
      using 4(3) by (auto simp: api_methods)
    obtain vs m where x: "decode_named FromXml_reader ''params'' (TupleFromTextFormat 0 p FromXml_reader lib (me_params me) True
        (CreateDefaultConstructedTuple (me_params me))) m0 = Inr ((GetTupleType (me_params me), vs), m)"
      using decode_no_inputs [OF ps] by blast
    obtain vs' where vs': "me_function me vs s = Inr (Error, vs', s)" "output_args big_platform lib (me_params me) vs'"
        "no_nul (DocItems (args_doc lib False (me_params me) vs'))"
      using 4(3) Api_GetFactories_ok [of vs s lib] Api_GetLeds_ok [of vs s lib] by (auto simp: api_methods)
    show ?thesis
      using 4(1,2,4) x vs'(1) ans(3) served_results [OF c vs'(2,3), of s s]
      by (simp add: ops Method_Call_def IsTupleCorrectType_def Error_bool_def Error_def)
  qed
qed

lemma Handling_reachable:
  assumes "connection_reachable v c" "cn_current c = Some q" "\<not> pi_handled q"
  shows "in_phase Handling c"
proof -
  have "unhandled c"
    using assms(2,3) by (simp add: unhandled_def)
  then show ?thesis
    using connection_reachable_ok [OF assms(1)] phases_unhandled unfolding connection_ok_def by blast
qed

lemma HttpRequestHandler_resource:
  assumes "in_phase Handling c"
  shows "(\<exists>m. HttpRequestHandler resources msg p lib methods c s = Inr (sent m c, s))
    \<or> FindFile resources (path_of c) = None \<and> HttpRequestHandler resources msg p lib methods c s =
        (if path_of c = ''/'' then bind_res (RespondWithTemporaryRedirect ''/index.html'' c) (\<lambda>c. Inr (c, s))
         else if take 5 (path_of c) = ''/api/'' then HandleApiRequest msg p lib methods c s
         else bind_res (RespondWithNotFoundError c) (\<lambda>c. Inr (c, s)))"
proof (cases "FindFile resources (path_of c)")
  case None
  then show ?thesis
    using RespondWithResource_at_missing [OF assms None]
    by (simp add: HttpRequestHandler_def RespondWithResource_def GetResource_def live [OF assms] path_of_def)
next
  case (Some rf)
  then show ?thesis
    using RespondWithResource_at_found [OF assms Some]
    by (auto simp: HttpRequestHandler_def RespondWithResource_def GetResource_def live [OF assms] path_of_def)
qed

text \<open>
  C4: Whatever a client sends, the web interface answers with exactly one response, and only an
  \<open>apply\<close> that is answered with 200 changes the renderer; or the server stops with a null pointer in
  the XML library, and that only for an \<open>apply\<close> or for a body that the XML parser itself fails on
  (\<open>Xml_repeated_attribute\<close>: an attribute that is repeated after a bad character reference).
\<close>

theorem HttpRequestHandler_answers:
  assumes "connection_reachable v c" "cn_current c = Some q" "\<not> pi_handled q"
  shows "\<exists>methods. ApplicationService = Inr methods
    \<and> ((\<exists>m c' s'. HttpRequestHandler resources msg p lib methods c s = Inr (c', s') \<and> cn_sent c' = cn_sent c @ [m] \<and> \<not> unhandled c'
          \<and> (s' = s \<or> rs_status m = 200 \<and> rq_method (pi_request q) = ''POST'' \<and> target_path (rq_target (pi_request q)) = ''/api/apply''))
      \<or> HttpRequestHandler resources msg p lib methods c s = Inl NullPointer \<and> rq_method (pi_request q) = ''POST''
          \<and> (target_path (rq_target (pi_request q)) = ''/api/apply'' \<or> XMLDocument_Parse (rq_body (pi_request q)) = Inl (XmlFault NullPointer)))"
proof -
  note c = Handling_reachable [OF assms]
  let ?methods = "[(''apply'', apply_method), (''get-factories'', get_factories_method), (''get-leds'', get_leds_method)]"
  have apply_iff: "is_apply c \<longleftrightarrow> rq_method (pi_request q) = ''POST'' \<and> target_path (rq_target (pi_request q)) = ''/api/apply''"
    using assms(2) by (simp add: is_apply_def path_of_def request_of_def)
  have rq: "request_of c = pi_request q"
    using assms(2) by (simp add: request_of_def)
  have "served c s (HttpRequestHandler resources msg p lib ?methods c s)"
    using HttpRequestHandler_resource [OF c, of resources msg p lib ?methods s]
  proof (elim disjE conjE exE)
    fix m
    assume "HttpRequestHandler resources msg p lib ?methods c s = Inr (sent m c, s)"
    then show ?thesis
      unfolding served_def by blast
  next
    assume "HttpRequestHandler resources msg p lib ?methods c s =
        (if path_of c = ''/'' then bind_res (RespondWithTemporaryRedirect ''/index.html'' c) (\<lambda>c. Inr (c, s))
         else if take 5 (path_of c) = ''/api/'' then HandleApiRequest msg p lib ?methods c s
         else bind_res (RespondWithNotFoundError c) (\<lambda>c. Inr (c, s)))"
    then show ?thesis
      using HandleApiRequest_served [OF c, of s msg p lib] served_answered [OF RespondWith_answered(1) [OF c], of s]
        served_answered [OF RespondWith_answered(3) [OF c], of s "''/index.html''"] by simp
  qed
  moreover have "cn_sent (sent m c) = cn_sent c @ [m] \<and> \<not> unhandled (sent m c)" for m
    using assms(2) by (simp add: sent_def SetHandled_def unhandled_def)
  ultimately show ?thesis
    unfolding served_def apply_iff ApplicationService_methods rq by blast
qed

definition demo_post :: "string \<Rightarrow> string \<Rightarrow> http_request" where
  "demo_post target body = \<lparr>rq_method = ''POST'', rq_target = target, rq_version = 11, rq_keep_alive = True,
     rq_headers = [], rq_body = body, rq_is_upgrade = False\<rparr>"

definition demo_posted :: "http_request \<Rightarrow> connection" where
  "demo_posted rq = \<lparr>cn_version_string = ''Beast'', cn_request_ptr = False, cn_response_ptr = None, cn_request_count = 1,
     cn_closed = False, cn_current = Some \<lparr>pi_request = rq, pi_handled = False\<rparr>, cn_reads = 0, cn_writes = 0,
     cn_requests = [rq], cn_sent = [], cn_upgraded = False, cn_closed_notified = 0\<rparr>"

lemma demo_posted_reachable: "connection_reachable ''Beast'' (demo_posted rq)"
  using connection_step [OF connection_init, of "ReadDone (Some rq)" "''Beast''" "demo_posted rq"]
  by (simp add: Connection_def Connection_OnRead_def demo_posted_def check_def)

theorem HttpRequestHandler_answers_witness:
  "\<exists>methods m c'. ApplicationService = Inr methods
    \<and> HttpRequestHandler [] (\<lambda>_. []) demo_text_params (\<lambda>_. None) methods (demo_posted (demo_post ''/api/reset'' [])) Renderer = Inr (c', Renderer)
    \<and> cn_sent c' = [m]"
proof -
  have "XMLDocument_Parse [] = Inl (XmlError XML_ERROR_EMPTY_DOCUMENT)"
    by (simp add: XMLDocument_Parse_def c_str_def)
  moreover have "target_path ''/api/reset'' = ''/api/reset''"
    by (simp add: target_path_def cut_at_takeWhile)
  ultimately show ?thesis
    using HttpRequestHandler_answers [OF demo_posted_reachable, of "demo_post ''/api/reset'' []" "\<lparr>pi_request = demo_post ''/api/reset'' [], pi_handled = False\<rparr>"
        "[]" "\<lambda>_. []" demo_text_params "\<lambda>_. None" Renderer]
    by (fastforce simp: demo_posted_def demo_post_def)
qed

text \<open>A call that succeeds: the parameters in XML of either layout, the results in the answer.\<close>

lemma Api_call:
  assumes c: "in_phase Handling c" and rq: "request_of c = rq" "rq_method rq = ''POST''" "target_path (rq_target rq) = ''/api/'' @ name"
    and "smap_find (''api/'' @ name) resources = None" "smap_find name methods = Some me"
    and body: "rq_body rq = xml_file layout ''params'' (DocItems (args_doc lib True (me_params me) args))"
    and args: "input_args (tx_platform p) lib 0 (me_params me) args" "\<And>t. fresh t (tx_init p t)"
      "xml_safe (DocItems (args_doc lib True (me_params me) args))"
    and results: "me_function me args s = Inr (Error, vs, s')" "output_args pf lib (me_params me) vs"
      "xml_parsable (DocItems (args_doc lib False (me_params me) vs))"
  shows "\<exists>rs. HttpRequestHandler resources msg p lib methods c s = Inr (sent rs c, s')
    \<and> rs_status rs = 200 \<and> rs_body rs @ [CHR 0x0A] = xml_file False ''results'' (DocItems (args_doc lib False (me_params me) vs))"
proof -
  have names: "valid_name ''params''" "valid_name ''results''"
    by code_simp+
  obtain m0 m where m0: "FromXml (rq_body rq) = Inr m0" and m: "decode_named FromXml_reader ''params'' (TupleFromTextFormat 0 p FromXml_reader lib
        (me_params me) True (CreateDefaultConstructedTuple (me_params me))) m0 = Inr ((GetTupleType (me_params me), args), m)"
      "xr_error (FromXml_EnsureAllDecoded m) = None"
    using decode_named_file [where f = "TupleFromTextFormat 0 p FromXml_reader lib (me_params me) True (CreateDefaultConstructedTuple (me_params me))",
        OF names(1) xml_safe_parsable [OF args(3)] represents_parsed [OF args(3)] xi.TupleFromTextFormat_ok [OF args(1,2)]]
    unfolding body by blast
  obtain buffer where buffer: "\<And>f. bind_res (TupleToTextFormat (ToXml_writer MACHINE_ROUND_TRIP) lib (me_params me) False
        (GetTupleType (me_params me), vs) (ToXml ''results'')) (\<lambda>to_xml.
      bind_res (XMLDocument_Print (xml_document to_xml) False (XMLPrinter False)) (\<lambda>printer. f (xp_buffer printer))) = (f buffer :: (connection \<times> renderer) res)"
      "buffer @ [CHR 0x0A] = xml_file False ''results'' (DocItems (args_doc lib False (me_params me) vs))"
    using printed_results [OF results(2) xml_parsable_no_nul [OF results(3)]] by blast
  have "CHR 0x00 \<notin> set (buffer @ [CHR 0x0A])"
    unfolding buffer(2) by (rule xml_file_no_nul [OF names(2) results(3)])
  then have "c_str buffer = buffer"
    by (simp add: c_str_id)
  then obtain rs where rs: "respond [SetHeader_ContentType ''text/xml'', SetHeader_NoCache, SetResponse 200, SetContent (c_str buffer)] c = Inr (sent rs c)"
      "rs_status rs = 200" "rs_body rs = buffer"
    using respond_results [OF c, of buffer] by auto
  have "HandleApiRequest msg p lib methods c s = Inr (sent rs c, s')"
    using m0 m rs(1) results(1) buffer(1) [of "\<lambda>buffer. bind_res (respond [SetHeader_ContentType ''text/xml'', SetHeader_NoCache, SetResponse 200,
        SetContent (c_str buffer)] c) (\<lambda>c. Inr (c, s'))"]
    by (simp add: HandleApiRequest_def Let_def live [OF c] GetMethod_def GetResource_def GetContent_def rq assms(6)
        HasMethodWithName_def GetMethodByName_def FromXml_HasError_def Method_Call_def IsTupleCorrectType_def Error_bool_def Error_def)
  moreover have path: "path_of c = ''/api/'' @ name"
    by (simp add: path_of_def rq)
  then have "HttpRequestHandler resources msg p lib methods c s = HandleApiRequest msg p lib methods c s"
    using RespondWithResource_at_missing [OF c, of resources "path_of c"] assms(5)
    by (simp add: HttpRequestHandler_def RespondWithResource_def GetResource_def live [OF c] path_of_def [symmetric] FindFile_def)
  ultimately show ?thesis
    using rs buffer(2) by (intro exI [of _ rs]) simp
qed

lemma sent_one: "cn_sent (sent rs c) = cn_sent c @ [rs]"
  by (simp add: sent_def SetHandled_def)

lemma params_text:
  assumes "has_text_type big_platform lib t v" "doc_of lib t v = DocItems ds" "xml_safe (DocItems ds)"
    "ConvertToXml layout ''params'' lib t v = Inr body"
  shows "body = xml_file layout ''params'' (DocItems ds)"
proof -
  have "valid_name ''params''"
    by code_simp
  from ConvertToXml_text [OF assms(1) this, of layout] assms(2,4) xml_safe_parsable [OF assms(3)] show ?thesis
    by (simp del: xml_parsable.simps)
qed

text \<open>
  C18: The sequence that a client asks for, in the XML of either layout, is the one that the lamp changes to; the
  answer is 200 with an empty result.
\<close>

theorem Api_apply_changes_sequence:
  assumes "connection_reachable v c" "cn_current c = Some \<lparr>pi_request = rq, pi_handled = False\<rparr>"
    and "rq_method rq = ''POST''" "target_path (rq_target rq) = ''/api/apply''" "smap_find ''api/apply'' resources = None"
    and "ConvertToXml layout ''params'' lib (TStruct [(''sequence'', TString)]) (VPair (VString (bytes_of name)) VUnit) = Inr (rq_body rq)"
    and "xml_safe (DocText name)" "\<And>t. fresh t (tx_init p t)"
  shows "\<exists>methods c' m. ApplicationService = Inr methods
    \<and> HttpRequestHandler resources msg p lib methods c s = Inr (c', ChangeToSequence name s) \<and> cn_sent c' = cn_sent c @ [m]
    \<and> rs_status m = 200 \<and> rs_body m = ''<?xml version=\"1.0\" encoding=\"UTF-8\"?>'' @ [CHR 0x0A] @ ''<results/>'' @ [CHR 0x0A]"
proof -
  let ?args = "[VString (bytes_of name)]"
  let ?methods = "[(''apply'', apply_method), (''get-factories'', get_factories_method), (''get-leds'', get_leds_method)]"
  have c: "in_phase Handling c"
    by (rule Handling_reachable [OF assms(1,2)]) simp
  have rq: "request_of c = rq"
    using assms(2) by (simp add: request_of_def)
  have ps: "me_params apply_method = apply_params"
    by (simp add: apply_method_def)
  have doc: "args_doc lib True apply_params ?args = [(''sequence'', DocText name)]" "args_doc lib False apply_params ?args = []"
    by (simp_all add: api_params)
  have "valid_name ''sequence''"
    by code_simp
  then have safe: "xml_safe (DocItems [(''sequence'', DocText name)])"
    using assms(7) by simp
  have body: "rq_body rq = xml_file layout ''params'' (DocItems (args_doc lib True (me_params apply_method) ?args))"
    unfolding ps doc by (rule params_text [OF _ _ safe assms(6)]) simp_all
  have "\<exists>rs. HttpRequestHandler resources msg p lib ?methods c s = Inr (sent rs c, ChangeToSequence name s)
    \<and> rs_status rs = 200 \<and> rs_body rs @ [CHR 0x0A] = xml_file False ''results'' (DocItems (args_doc lib False (me_params apply_method) ?args))"
    by (rule Api_call [OF c rq assms(3) _ _ _ body _ assms(8), of "''apply''" resources _ _ _ _ big_platform])
      (use assms(4,5) safe in \<open>simp_all add: ps doc apply_method_def Api_Apply_def input_args_def output_args_def api_params\<close>)
  then obtain rs where rs: "HttpRequestHandler resources msg p lib ?methods c s = Inr (sent rs c, ChangeToSequence name s)"
      "rs_status rs = 200" "rs_body rs @ [CHR 0x0A] = xml_file False ''results'' (DocItems [])"
    unfolding ps doc by blast
  have "rs_body rs = ''<?xml version=\"1.0\" encoding=\"UTF-8\"?>'' @ [CHR 0x0A] @ ''<results/>'' @ [CHR 0x0A]"
    using rs(3) by (simp add: xml_file_def xml_header_def indent_def)
  then show ?thesis
    unfolding ApplicationService_methods using rs(1,2) sent_one by blast
qed

theorem Api_apply_changes_sequence_witness:
  "\<exists>body methods c' m. ConvertToXml True ''params'' (\<lambda>_. None) (TStruct [(''sequence'', TString)]) (VPair (VString (bytes_of ''Rainbow'')) VUnit) = Inr body
    \<and> ApplicationService = Inr methods
    \<and> HttpRequestHandler [] (\<lambda>_. []) demo_text_params (\<lambda>_. None) methods (demo_posted (demo_post ''/api/apply?x'' body)) Renderer
      = Inr (c', ChangeToSequence ''Rainbow'' Renderer) \<and> cn_sent c' = [m] \<and> rs_status m = 200"
proof -
  have safe: "xml_safe (DocText ''Rainbow'')" and name: "valid_name ''sequence''" "valid_name ''params''"
    by code_simp+
  then obtain body where body: "ConvertToXml True ''params'' (\<lambda>_. None) (TStruct [(''sequence'', TString)]) (VPair (VString (bytes_of ''Rainbow'')) VUnit) = Inr body"
    using ConvertToXml_text [of big_platform "\<lambda>_. None" "TStruct [(''sequence'', TString)]" "VPair (VString (bytes_of ''Rainbow'')) VUnit" "''params''" True]
      xml_safe_parsable [OF safe] by simp
  have c: "cn_current (demo_posted rq) = Some \<lparr>pi_request = rq, pi_handled = False\<rparr>" "cn_sent (demo_posted rq) = []" for rq
    by (simp_all add: demo_posted_def)
  have rq: "rq_method (demo_post t body) = ''POST''" "rq_body (demo_post t body) = body" "rq_target (demo_post t body) = t" for t
    by (simp_all add: demo_post_def)
  have path: "target_path (rq_target (demo_post ''/api/apply?x'' body)) = ''/api/apply''"
    by (simp add: target_path_def cut_at_takeWhile demo_post_def)
  have "\<exists>methods c' m. ApplicationService = Inr methods
    \<and> HttpRequestHandler [] (\<lambda>_. []) demo_text_params (\<lambda>_. None) methods (demo_posted (demo_post ''/api/apply?x'' body)) Renderer
      = Inr (c', ChangeToSequence ''Rainbow'' Renderer) \<and> cn_sent c' = cn_sent (demo_posted (demo_post ''/api/apply?x'' body)) @ [m]
    \<and> rs_status m = 200 \<and> rs_body m = ''<?xml version=\"1.0\" encoding=\"UTF-8\"?>'' @ [CHR 0x0A] @ ''<results/>'' @ [CHR 0x0A]"
    by (rule Api_apply_changes_sequence [OF demo_posted_reachable c(1) rq(1) path])
      (use body rq safe in \<open>auto simp: demo_text_params_def fresh_null\<close>)
  then show ?thesis
    using body c(2) by auto
qed

text \<open>
  What a client is told of the LEDs is their state: the answer is the XML of the size of the grids and of the colours of
  both, the hidden centre of the top one in black, and nothing changes.
\<close>

theorem Api_get_leds_results:
  assumes "connection_reachable v c" "cn_current c = Some \<lparr>pi_request = rq, pi_handled = False\<rparr>"
    and "rq_method rq = ''POST''" "target_path (rq_target rq) = ''/api/get-leds''" "smap_find ''api/get-leds'' resources = None"
    and "ConvertToXml layout ''params'' lib (TStruct []) VUnit = Inr (rq_body rq)" "\<And>t. fresh t (tx_init p t)"
  shows "\<exists>methods c' m. ApplicationService = Inr methods
    \<and> HttpRequestHandler resources msg p lib methods c s = Inr (c', s) \<and> cn_sent c' = cn_sent c @ [m] \<and> rs_status m = 200
    \<and> ConvertToXml False ''results'' lib
        (TStruct [(''width'', TInt U32), (''height'', TInt U32), (''main_leds'', TVector TString), (''top_leds'', TVector TString)])
        (VPair (VInt U32 9) (VPair (VInt U32 9)
          (VPair (VVector (map Color_ToTextFormat (GetLedsForWebDisplay (rn_main_rendered s) False [])))
            (VPair (VVector (map Color_ToTextFormat (GetLedsForWebDisplay (rn_top_rendered s) True []))) VUnit))))
      = Inr (rs_body m @ [CHR 0x0A])"
proof -
  let ?leds = "\<lambda>g mask. VVector (map Color_ToTextFormat (GetLedsForWebDisplay g mask []))"
  let ?vs = "[VInt U32 9, VInt U32 9, ?leds (rn_main_rendered s) False, ?leds (rn_top_rendered s) True]"
  let ?ty = "TStruct [(''width'', TInt U32), (''height'', TInt U32), (''main_leds'', TVector TString), (''top_leds'', TVector TString)]"
  let ?v = "VPair (VInt U32 9) (VPair (VInt U32 9) (VPair (?leds (rn_main_rendered s) False) (VPair (?leds (rn_top_rendered s) True) VUnit)))"
  let ?methods = "[(''apply'', apply_method), (''get-factories'', get_factories_method), (''get-leds'', get_leds_method)]"
  have c: "in_phase Handling c"
    by (rule Handling_reachable [OF assms(1,2)]) simp
  have rq: "request_of c = rq"
    using assms(2) by (simp add: request_of_def)
  have ps: "me_params get_leds_method = get_leds_params"
    by (simp add: get_leds_method_def)
  have args: "args_doc lib True get_leds_params (map default_value (GetTupleType get_leds_params)) = []"
    by (simp add: api_params GetTupleType_def)
  have body: "rq_body rq = xml_file layout ''params'' (DocItems (args_doc lib True (me_params get_leds_method) (map default_value (GetTupleType get_leds_params))))"
    unfolding ps args by (rule params_text [OF _ _ _ assms(6)]) simp_all
  have texts: "xml_parsable (DocText (ToString_unsigned 9))" "xml_parsable (DocText (ToString_unsigned 81))"
      "list_all valid_name [''width'', ''height'', ''main_leds'', ''top_leds'', ''size'', ''entry'', ''results'']"
    by code_simp+
  have type: "has_text_type big_platform lib ?ty ?v"
    by (auto simp: Color_ToTextFormat_def length_web_leds size_ok_def big_platform_def)
  have doc: "doc_of lib ?ty ?v = DocItems (args_doc lib False get_leds_params ?vs)"
    by (simp add: api_params)
  have parsable: "xml_parsable (DocItems (args_doc lib False get_leds_params ?vs))"
    using texts by (auto simp: api_params int_ToString_def size_item_def length_web_leds list_all_iff Color_ToTextFormat_def Color_printable Color_no_nul)
  have "output_args big_platform lib get_leds_params ?vs"
    using type by (simp add: output_args_def api_params)
  then have "\<exists>rs. HttpRequestHandler resources msg p lib ?methods c s = Inr (sent rs c, s)
    \<and> rs_status rs = 200 \<and> rs_body rs @ [CHR 0x0A] = xml_file False ''results'' (DocItems (args_doc lib False (me_params get_leds_method) ?vs))"
    by (intro Api_call [OF c rq assms(3) _ _ _ body _ assms(7), of "''get-leds''" resources _ _ _ _ big_platform])
      (use assms(4,5) parsable in \<open>simp_all add: ps args get_leds_method_def Api_GetLeds_def Renderer_GetLedsForWebDisplay_def GRID_SIZE_def\<close>,
        simp add: input_args_def api_params GetTupleType_def)
  moreover have "ConvertToXml False ''results'' lib ?ty ?v = Inr (xml_file False ''results'' (DocItems (args_doc lib False get_leds_params ?vs)))"
    unfolding doc [symmetric] by (rule ConvertToXml_text [OF type _ parsable [folded doc]]) (use texts(3) in simp)
  ultimately show ?thesis
    unfolding ApplicationService_methods ps using sent_one by metis
qed

theorem Api_get_leds_results_witness:
  "\<exists>body methods c' m. ConvertToXml False ''params'' (\<lambda>_. None) (TStruct []) VUnit = Inr body \<and> ApplicationService = Inr methods
    \<and> HttpRequestHandler [] (\<lambda>_. []) demo_text_params (\<lambda>_. None) methods (demo_posted (demo_post ''/api/get-leds'' body)) Renderer = Inr (c', Renderer)
    \<and> cn_sent c' = [m] \<and> rs_status m = 200"
proof -
  have "valid_name ''params''"
    by code_simp
  then obtain body where body: "ConvertToXml False ''params'' (\<lambda>_. None) (TStruct []) VUnit = Inr body"
    using ConvertToXml_text [of big_platform "\<lambda>_. None" "TStruct []" VUnit "''params''" False] by simp
  have c: "cn_current (demo_posted rq) = Some \<lparr>pi_request = rq, pi_handled = False\<rparr>" "cn_sent (demo_posted rq) = []" for rq
    by (simp_all add: demo_posted_def)
  have rq: "rq_method (demo_post t body) = ''POST''" "rq_body (demo_post t body) = body" for t
    by (simp_all add: demo_post_def)
  have path: "target_path (rq_target (demo_post ''/api/get-leds'' body)) = ''/api/get-leds''"
    by (simp add: target_path_def cut_at_takeWhile demo_post_def)
  from Api_get_leds_results [where msg = "\<lambda>_. []" and p = demo_text_params and s = Renderer and resources = "[]" and lib = "\<lambda>_. None" and layout = False,
      OF demo_posted_reachable c(1) rq(1) path] show ?thesis
    using body c(2) rq(2) by (fastforce simp: demo_text_params_def fresh_null)
qed

text \<open>
  C39: A client can stop the server. Whatever the document of an \<open>apply\<close> request is like apart from that: when
  its first element is \<open>params\<close>, and the first element in that is a \<open>sequence\<close> that has no attribute \<open>value\<close> and no content,
  the XML decoder dereferences a null pointer.
\<close>

theorem Api_apply_null_pointer:
  assumes "connection_reachable v c" "cn_current c = Some \<lparr>pi_request = rq, pi_handled = False\<rparr>"
    and "rq_method rq = ''POST''" "target_path (rq_target rq) = ''/api/apply''" "smap_find ''api/apply'' resources = None"
    and "XMLDocument_Parse (rq_body rq) = Inr (doc, left)"
    and "first_element doc = Some (params, siblings)" "xn_name params = ''params''"
    and "first_element (xn_children params) = Some (item, others)" "xn_name item = ''sequence''"
    and "\<forall>a \<in> set (xn_attrs item). fst a \<noteq> ''value''" "xn_children item = []"
  shows "\<exists>methods. ApplicationService = Inr methods \<and> HttpRequestHandler resources msg p lib methods c s = Inl NullPointer"
proof -
  have c: "in_phase Handling c"
    by (rule Handling_reachable [OF assms(1,2)]) simp
  have rq: "request_of c = rq"
    using assms(2) by (simp add: request_of_def)
  let ?m = "\<lparr>xr_doc = doc, xr_cur = [], xr_value_mode = False, xr_first_in_structure = True, xr_error = None\<rparr>"
  have parsed: "FromXml (rq_body rq) = Inr ?m"
    by (simp add: FromXml_def assms(6))
  have "map_of (xn_attrs item) ''value'' = None"
    using assms(11) by (auto simp: map_of_eq_None_iff)
  then have "decode_named FromXml_reader ''params'' (TupleFromTextFormat 0 p FromXml_reader lib apply_params True
        (CreateDefaultConstructedTuple apply_params)) ?m = Inl NullPointer"
    by (simp add: assms(7-10,12) decode_named_def TupleFromTextFormat_def IsTupleCorrectType_def CreateDefaultConstructedTuple_def check_def
        decode_structure_def GetTupleType_def api_params DecodeValue_def from_xml_ops Attribute_def)
  then show ?thesis
    using RespondWithResource_at_missing [OF c, of resources "path_of c"] assms(5)
    by (simp add: ApplicationService_methods HttpRequestHandler_def RespondWithResource_def GetResource_def live [OF c] rq assms(3,4) parsed path_of_def
        FindFile_def HandleApiRequest_def GetMethod_def GetContent_def HasMethodWithName_def GetMethodByName_def apply_method_def)
qed

text \<open>A comment, another attribute and a second element do not help.\<close>

definition null_pointer_body :: string where
  "null_pointer_body = ''<!-- x --><params a='1'><sequence name='x'></sequence><more/></params>''"

theorem Api_apply_null_pointer_witness:
  "\<exists>methods. ApplicationService = Inr methods \<and> HttpRequestHandler [] (\<lambda>_. []) demo_text_params (\<lambda>_. None) methods
     (demo_posted (demo_post ''/api/apply'' null_pointer_body)) Renderer = Inl NullPointer"
proof -
  have found: "(case x of None \<Rightarrow> False | Some (e, es) \<Rightarrow> Q e) \<longleftrightarrow> (\<exists>e es. x = Some (e, es) \<and> Q e)"
    for x :: "(xml_node \<times> xml_node list) option" and Q
    by (auto split: option.splits)
  have "(case XMLDocument_Parse null_pointer_body of Inl _ \<Rightarrow> False
    | Inr (doc, left) \<Rightarrow> (case first_element doc of None \<Rightarrow> False
        | Some (params, siblings) \<Rightarrow> xn_name params = ''params'' \<and> (case first_element (xn_children params) of None \<Rightarrow> False
            | Some (item, others) \<Rightarrow> xn_name item = ''sequence'' \<and> list_all (\<lambda>a. fst a \<noteq> ''value'') (xn_attrs item) \<and> xn_children item = [])))"
    by code_simp
  then obtain doc left params siblings item others where parsed: "XMLDocument_Parse null_pointer_body = Inr (doc, left)"
      "first_element doc = Some (params, siblings)" "xn_name params = ''params''"
      "first_element (xn_children params) = Some (item, others)" "xn_name item = ''sequence''"
      "\<forall>a \<in> set (xn_attrs item). fst a \<noteq> ''value''" "xn_children item = []"
    by (auto simp: found list_all_iff split: sum.split_asm)
  then have "XMLDocument_Parse (rq_body (demo_post ''/api/apply'' null_pointer_body)) = Inr (doc, left)"
    by (simp add: demo_post_def)
  from Api_apply_null_pointer [OF demo_posted_reachable _ _ _ _ this parsed(2-7)] show ?thesis
    by (simp add: demo_posted_def demo_post_def target_path_def cut_at_takeWhile)
qed

end
