(* ===== verification/Token.thy ===== *)
theory Token
  imports Format
begin

section \<open>Tokens and error messages of the interface compiler\<close>

text \<open>
  \<open>File.h\<close>, \<open>Token.h\<close>, \<open>Token.cpp\<close> and \<open>ErrorList.h\<close> of
  \<open>Applications/BBoxEncCompiler/bbox/enc/compiler\<close>. A token holds a view into its file's
  contents (an offset and a length); a default-constructed token has no file. Sizes and
  offsets are \<open>nat\<close>: they index a string held in memory. A failed \<open>BBOX_ASSERT\<close> ends the
  program and is the fault \<open>AssertFailed\<close>.
\<close>

record src_file =
  GetName :: string
  GetContents :: string

datatype E_TYPE =
    END_OF_FILE
  | OPEN_CURLY_BRACE
  | CLOSE_CURLY_BRACE
  | OPEN_SQUARE_BRACKET
  | CLOSE_SQUARE_BRACKET
  | DOUBLE_COLON
  | SEMICOLON
  | LESS_THAN
  | GREATER_THAN
  | COMMA
  | STRING
  | IDENTIFIER
  | KEYWORD_NAMESPACE
  | KEYWORD_STRUCT
  | KEYWORD_MESSAGE
  | KEYWORD_ENUM
  | KEYWORD_EXTERN
  | UNEXPECTED_CHARACTER
  | UNTERMINATED_STRING_LITERAL

record token =
  tok_file :: "src_file option"
  tok_line :: nat
  tok_column :: nat
  tok_offset :: nat
  tok_length :: nat
  tok_type :: E_TYPE

text \<open>\<open>Token()\<close>, and the constructor for a token of a file.\<close>

definition Token_default :: token where
  "Token_default = \<lparr>tok_file = None, tok_line = 1, tok_column = 1, tok_offset = 0,
     tok_length = 0, tok_type = END_OF_FILE\<rparr>"

definition Token :: "src_file \<Rightarrow> nat \<Rightarrow> nat \<Rightarrow> nat \<Rightarrow> nat \<Rightarrow> E_TYPE \<Rightarrow> token" where
  "Token f line column offset len type = \<lparr>tok_file = Some f, tok_line = line,
     tok_column = column, tok_offset = offset, tok_length = len, tok_type = type\<rparr>"

definition tok_contents :: "token \<Rightarrow> string" where
  "tok_contents t = (case tok_file t of None \<Rightarrow> []
     | Some f \<Rightarrow> take (tok_length t) (drop (tok_offset t) (GetContents f)))"

definition Matches :: "token \<Rightarrow> E_TYPE \<Rightarrow> bool" where
  "Matches t type \<longleftrightarrow> tok_type t = type"

definition Matches_str :: "token \<Rightarrow> string \<Rightarrow> bool" where
  "Matches_str t s \<longleftrightarrow> tok_contents t = s"

definition Matches_char :: "token \<Rightarrow> char \<Rightarrow> bool" where
  "Matches_char t c \<longleftrightarrow> length (tok_contents t) = 1 \<and> hd (tok_contents t) = c"

fun Token_c_str :: "E_TYPE \<Rightarrow> string" where
  "Token_c_str END_OF_FILE = ''End-of-file''"
| "Token_c_str OPEN_CURLY_BRACE = [CHR 0x27] @ ''{'' @ [CHR 0x27]"
| "Token_c_str CLOSE_CURLY_BRACE = [CHR 0x27] @ ''}'' @ [CHR 0x27]"
| "Token_c_str OPEN_SQUARE_BRACKET = [CHR 0x27] @ ''['' @ [CHR 0x27]"
| "Token_c_str CLOSE_SQUARE_BRACKET = [CHR 0x27] @ '']'' @ [CHR 0x27]"
| "Token_c_str SEMICOLON = [CHR 0x27] @ '';'' @ [CHR 0x27]"
| "Token_c_str LESS_THAN = [CHR 0x27] @ ''<'' @ [CHR 0x27]"
| "Token_c_str GREATER_THAN = [CHR 0x27] @ ''>'' @ [CHR 0x27]"
| "Token_c_str COMMA = [CHR 0x27] @ '','' @ [CHR 0x27]"
| "Token_c_str STRING = ''string literal''"
| "Token_c_str DOUBLE_COLON = ''\"::\"''"
| "Token_c_str IDENTIFIER = ''identifier''"
| "Token_c_str KEYWORD_NAMESPACE = ''keyword \"namespace\"''"
| "Token_c_str KEYWORD_STRUCT = ''keyword \"struct\"''"
| "Token_c_str KEYWORD_MESSAGE = ''keyword \"message\"''"
| "Token_c_str KEYWORD_ENUM = ''keyword \"enum\"''"
| "Token_c_str KEYWORD_EXTERN = ''keyword \"extern\"''"
| "Token_c_str UNEXPECTED_CHARACTER = ''unexpected character''"
| "Token_c_str UNTERMINATED_STRING_LITERAL = ''unterminated string literal''"

definition GetDescription :: "token \<Rightarrow> string" where
  "GetDescription t =
     (if tok_type t = STRING then Format ''string literal %s'' [ArgStr (tok_contents t)]
      else if tok_type t = IDENTIFIER \<or> tok_type t = UNEXPECTED_CHARACTER then
        Format ''%s \"%s\"'' [ArgStr (Token_c_str (tok_type t)), ArgStr (tok_contents t)]
      else Token_c_str (tok_type t))"

text \<open>
  \<open>GetLineContents\<close>: the line of the file that holds the token's first character, found by
  searching backwards and forwards for new lines.
\<close>

fun line_start :: "string \<Rightarrow> nat \<Rightarrow> nat" where
  "line_start s 0 = 0"
| "line_start s (Suc n) = (if s ! n \<noteq> CHR 0x0A then line_start s n else Suc n)"

function line_end :: "string \<Rightarrow> nat \<Rightarrow> nat" where
  "line_end s n = (if n < length s \<and> s ! n \<noteq> CHR 0x0A then line_end s (n + 1) else n)"
  by auto
termination
  by (relation "measure (\<lambda>(s, n). length s - n)") auto

declare line_end.simps [simp del]

definition GetLineContents :: "token \<Rightarrow> string res" where
  "GetLineContents t = (case tok_file t of
       None \<Rightarrow> Inr []
     | Some f \<Rightarrow>
         if \<not> tok_offset t < length (GetContents f) then
           Inl (AssertFailed ''offset < m_file->GetContents().size()'')
         else
           let start_offset = line_start (GetContents f) (tok_offset t);
               end_offset = line_end (GetContents f) (tok_offset t + 1)
           in Inr (take (end_offset - start_offset) (drop start_offset (GetContents f))))"

definition DecodeContentsAsString :: "token \<Rightarrow> string" where
  "DecodeContentsAsString t =
     (let result = tok_contents t
      in if tok_type t = STRING \<and> 2 \<le> length result then tl (butlast result) else result)"

text \<open>
  \<open>ErrorList::AddError\<close>: three strings for every error. The file name of a token without a
  file would be read through a null pointer, and the caret is placed by a count of
  \<open>column - 1\<close> spaces, which is a huge size for column 0.
\<close>

definition AddError_at :: "src_file \<Rightarrow> nat \<Rightarrow> nat \<Rightarrow> string \<Rightarrow> string \<Rightarrow> string list \<Rightarrow> string list res" where
  "AddError_at f line column line_contents err result =
     (if column = 0 then Inl LengthError
      else Inr (result @
        [Format ''%s:%d: %s'' [ArgStr (GetName f), ArgUnsigned line, ArgStr err],
         line_contents,
         Format ''%s^'' [ArgStr (replicate (column - 1) (CHR '' ''))]]))"

definition AddError :: "token \<Rightarrow> string \<Rightarrow> string list \<Rightarrow> string list res" where
  "AddError position err result =
     bind_res (GetLineContents position) (\<lambda>line_contents.
       case tok_file position of
         None \<Rightarrow> Inl NullPointer
       | Some f \<Rightarrow> AddError_at f (tok_line position) (tok_column position) line_contents err result)"

subsection \<open>The line around a position\<close>

lemma line_start_le: "line_start s n \<le> n"
  by (induction n) (auto intro: le_SucI)

lemma line_start_inside: "line_start s n \<le> i \<Longrightarrow> i < n \<Longrightarrow> s ! i \<noteq> CHR 0x0A"
  by (induction n) (auto simp: less_Suc_eq split: if_splits)

lemma line_start_boundary: "line_start s n = 0 \<or> s ! (line_start s n - 1) = CHR 0x0A"
  by (induction n) auto

lemma line_end_ge: "n \<le> line_end s n"
  by (induction s n rule: line_end.induct) (subst line_end.simps, auto)

lemma line_end_le: "n \<le> length s \<Longrightarrow> line_end s n \<le> length s"
  by (induction s n rule: line_end.induct) (subst line_end.simps, auto)

lemma line_end_inside: "n \<le> i \<Longrightarrow> i < line_end s n \<Longrightarrow> s ! i \<noteq> CHR 0x0A"
proof (induction s n rule: line_end.induct)
  case (1 s n)
  have go: "n < length s \<and> s ! n \<noteq> CHR 0x0A"
    using 1 by (subst (asm) line_end.simps) (auto split: if_splits)
  then have "line_end s n = line_end s (n + 1)"
    by (subst line_end.simps) simp
  then show ?case
    using 1 go by (cases "i = n") auto
qed

lemma line_end_boundary:
  "n \<le> length s \<Longrightarrow> line_end s n = length s \<or> s ! line_end s n = CHR 0x0A"
proof (induction s n rule: line_end.induct)
  case (1 s n)
  show ?case
  proof (cases "n < length s \<and> s ! n \<noteq> CHR 0x0A")
    case True
    then show ?thesis
      using 1 by (subst (1 2) line_end.simps) auto
  next
    case False
    then show ?thesis
      using 1 by (subst (1 2) line_end.simps) auto
  qed
qed

lemma AddError_cases:
  assumes "AddError t err es = Inr es'"
  shows "\<exists>f l. tok_file t = Some f \<and> GetLineContents t = Inr l
           \<and> tok_offset t < length (GetContents f) \<and> 0 < tok_column t
           \<and> es' = es @ [Format ''%s:%d: %s'' [ArgStr (GetName f), ArgUnsigned (tok_line t), ArgStr err],
                l, Format ''%s^'' [ArgStr (replicate (tok_column t - 1) (CHR '' ''))]]"
  using assms
  by (auto simp: AddError_def AddError_at_def bind_res_eq_Inr GetLineContents_def Let_def
      split: option.splits if_splits)

lemma Format_located:
  "Format ''%s:%d: %s'' [ArgStr n, a, ArgStr e] = n @ '':'' @ plain_arg a @ '': '' @ e"
  using Format_pieces [of "[]" "[(CHR ''s'', '':''), (CHR ''d'', '': ''), (CHR ''s'', [])]"
      "[ArgStr n, a, ArgStr e]"]
  by (simp add: literal_def)

lemma Format_caret: "Format ''%s^'' [ArgStr n] = n @ ''^''"
  using Format_pieces [of "[]" "[(CHR ''s'', ''^'')]" "[ArgStr n]"]
  by (simp add: literal_def)

end
