(* ===== verification/Tokenizer.thy ===== *)
theory Tokenizer
  imports Token
begin

section \<open>The tokenizer of the interface compiler\<close>

text \<open>
  \<open>Tokenizer.cpp\<close>: the state is the position reached in the file (line, column, offset);
  \<open>NextToken\<close> skips white space, decides on the first character what the token is, scans to
  its end and moves past it. At the end of the file every call returns an empty
  \<open>END_OF_FILE\<close> token.
\<close>

record tokenizer =
  tz_file :: src_file
  tz_line :: nat
  tz_col :: nat
  tz_offset :: nat

abbreviation tz_contents :: "tokenizer \<Rightarrow> string" where
  "tz_contents t \<equiv> GetContents (tz_file t)"

definition Tokenizer :: "src_file \<Rightarrow> tokenizer" where
  "Tokenizer f = \<lparr>tz_file = f, tz_line = 1, tz_col = 1, tz_offset = 0\<rparr>"

definition is_blank :: "char \<Rightarrow> bool" where
  "is_blank ch \<longleftrightarrow> ch = CHR '' '' \<or> ch = CHR 0x09 \<or> ch = CHR 0x0D"

function skip_whitespace :: "tokenizer \<Rightarrow> tokenizer" where
  "skip_whitespace t =
     (if tz_offset t < length (tz_contents t) then
        let ch = tz_contents t ! tz_offset t
        in if is_blank ch then
             skip_whitespace (t\<lparr>tz_offset := tz_offset t + 1, tz_col := tz_col t + 1\<rparr>)
           else if ch = CHR 0x0A then
             skip_whitespace (t\<lparr>tz_offset := tz_offset t + 1, tz_line := tz_line t + 1, tz_col := 1\<rparr>)
           else t
      else t)"
  by auto
termination
  by (relation "measure (\<lambda>t. length (tz_contents t) - tz_offset t)") auto

declare skip_whitespace.simps [simp del]

definition at_space :: "tokenizer \<Rightarrow> bool" where
  "at_space t \<longleftrightarrow> tz_offset t < length (tz_contents t) \<and> is_blank (tz_contents t ! tz_offset t)"

definition at_newline :: "tokenizer \<Rightarrow> bool" where
  "at_newline t \<longleftrightarrow> tz_offset t < length (tz_contents t) \<and> tz_contents t ! tz_offset t = CHR 0x0A"

abbreviation after_blank :: "tokenizer \<Rightarrow> tokenizer" where
  "after_blank t \<equiv> t\<lparr>tz_offset := tz_offset t + 1, tz_col := tz_col t + 1\<rparr>"

abbreviation after_newline :: "tokenizer \<Rightarrow> tokenizer" where
  "after_newline t \<equiv> t\<lparr>tz_offset := tz_offset t + 1, tz_line := tz_line t + 1, tz_col := 1\<rparr>"

lemma at_space_newline: "at_space t \<Longrightarrow> \<not> at_newline t"
  by (auto simp: at_space_def at_newline_def is_blank_def)

lemma skip_whitespace_eqs:
  shows skip_blank: "at_space t \<Longrightarrow> skip_whitespace t = skip_whitespace (after_blank t)"
    and skip_newline: "at_newline t \<Longrightarrow> skip_whitespace t = skip_whitespace (after_newline t)"
    and skip_stop: "\<not> at_space t \<Longrightarrow> \<not> at_newline t \<Longrightarrow> skip_whitespace t = t"
  by (subst skip_whitespace.simps; simp add: at_space_def at_newline_def is_blank_def Let_def)+

lemma skip_whitespace_induct:
  assumes "\<And>t. at_space t \<Longrightarrow> P (after_blank t) \<Longrightarrow> P t"
    and "\<And>t. at_newline t \<Longrightarrow> P (after_newline t) \<Longrightarrow> P t"
    and "\<And>t. \<not> at_space t \<Longrightarrow> \<not> at_newline t \<Longrightarrow> P t"
  shows "P t"
proof (induction t rule: skip_whitespace.induct)
  case (1 t)
  then show ?case
    using assms [of t] by (auto simp: at_space_def at_newline_def is_blank_def)
qed

definition ident_start :: "char \<Rightarrow> bool" where
  "ident_start ch \<longleftrightarrow> is_upper ch \<or> is_lower ch \<or> ch = CHR ''_''"

definition ident_char :: "char \<Rightarrow> bool" where
  "ident_char ch \<longleftrightarrow> is_upper ch \<or> is_lower ch \<or> is_digit ch \<or> ch = CHR ''_''"

text \<open>The two scanning loops, from \<open>end_offset\<close> on.\<close>

function scan_identifier :: "string \<Rightarrow> nat \<Rightarrow> nat" where
  "scan_identifier s end_offset =
     (if end_offset < length s \<and> ident_char (s ! end_offset) then scan_identifier s (end_offset + 1)
      else end_offset)"
  by auto
termination
  by (relation "measure (\<lambda>(s, n). length s - n)") auto

declare scan_identifier.simps [simp del]

function scan_string :: "string \<Rightarrow> nat \<Rightarrow> nat \<times> E_TYPE" where
  "scan_string s end_offset =
     (if \<not> end_offset < length s then (end_offset, UNTERMINATED_STRING_LITERAL)
      else if s ! end_offset = CHR 0x0A then (end_offset, UNTERMINATED_STRING_LITERAL)
      else if s ! end_offset = CHR ''\"'' then (end_offset + 1, STRING)
      else scan_string s (end_offset + 1))"
  by auto
termination
  by (relation "measure (\<lambda>(s, n). length s - n)") auto

declare scan_string.simps [simp del]

definition keyword_type :: "string \<Rightarrow> E_TYPE" where
  "keyword_type s =
     (if s = ''namespace'' then KEYWORD_NAMESPACE
      else if s = ''struct'' then KEYWORD_STRUCT
      else if s = ''message'' then KEYWORD_MESSAGE
      else if s = ''enum'' then KEYWORD_ENUM
      else if s = ''extern'' then KEYWORD_EXTERN
      else IDENTIFIER)"

text \<open>The type and length of the token that starts at an offset inside the contents.\<close>

definition classify :: "string \<Rightarrow> nat \<Rightarrow> E_TYPE \<times> nat" where
  "classify s offset =
     (let start_ch = s ! offset
      in if start_ch = CHR ''{'' then (OPEN_CURLY_BRACE, 1)
         else if start_ch = CHR ''}'' then (CLOSE_CURLY_BRACE, 1)
         else if start_ch = CHR ''['' then (OPEN_SQUARE_BRACKET, 1)
         else if start_ch = CHR '']'' then (CLOSE_SQUARE_BRACKET, 1)
         else if start_ch = CHR '';'' then (SEMICOLON, 1)
         else if start_ch = CHR ''<'' then (LESS_THAN, 1)
         else if start_ch = CHR ''>'' then (GREATER_THAN, 1)
         else if start_ch = CHR '','' then (COMMA, 1)
         else if start_ch = CHR '':'' then
           (if offset + 1 < length s \<and> s ! (offset + 1) = CHR '':'' then (DOUBLE_COLON, 2)
            else (UNEXPECTED_CHARACTER, 1))
         else if ident_start start_ch then
           (let len = scan_identifier s (offset + 1) - offset
            in (keyword_type (take len (drop offset s)), len))
         else if start_ch = CHR ''\"'' then
           (let (end_offset, type) = scan_string s (offset + 1) in (type, end_offset - offset))
         else (UNEXPECTED_CHARACTER, 1))"

definition tz_NextToken :: "tokenizer \<Rightarrow> token \<times> tokenizer" where
  "tz_NextToken t0 =
     (let t = skip_whitespace t0
      in if tz_offset t < length (tz_contents t) then
           let (type, len) = classify (tz_contents t) (tz_offset t)
           in (Token (tz_file t) (tz_line t) (tz_col t) (tz_offset t) len type,
               t\<lparr>tz_col := tz_col t + len, tz_offset := tz_offset t + len\<rparr>)
         else (Token (tz_file t) (tz_line t) (tz_col t) (tz_offset t) 0 END_OF_FILE, t))"

subsection \<open>Positions\<close>

text \<open>
  The position invariant: the line number counts the new lines before the offset, and the
  column is the distance to the last of them.
\<close>

definition tz_ok :: "tokenizer \<Rightarrow> bool" where
  "tz_ok t \<longleftrightarrow> tz_offset t \<le> length (tz_contents t)
     \<and> tz_line t = 1 + count_list (take (tz_offset t) (tz_contents t)) (CHR 0x0A)
     \<and> tz_col t = 1 + (tz_offset t - line_start (tz_contents t) (tz_offset t))"

lemma tz_ok_init: "tz_ok (Tokenizer f)"
  by (simp add: tz_ok_def Tokenizer_def)

lemma tz_ok_step:
  assumes "tz_ok t" and "tz_offset t < length (tz_contents t)"
  shows "tz_contents t ! tz_offset t \<noteq> CHR 0x0A
           \<Longrightarrow> tz_ok (t\<lparr>tz_offset := tz_offset t + 1, tz_col := tz_col t + 1\<rparr>)"
    and "tz_contents t ! tz_offset t = CHR 0x0A
           \<Longrightarrow> tz_ok (t\<lparr>tz_offset := tz_offset t + 1, tz_line := tz_line t + 1, tz_col := 1\<rparr>)"
  using assms line_start_le [of "tz_contents t" "tz_offset t"]
  by (auto simp: tz_ok_def take_Suc_snoc)

lemma skip_whitespace_ok: "tz_ok t \<Longrightarrow> tz_ok (skip_whitespace t)"
proof (induction t rule: skip_whitespace_induct)
  case (1 t)
  then show ?case
    using tz_ok_step(1) [of t] at_space_newline [of t]
    by (simp add: skip_blank) (simp add: at_space_def at_newline_def)
next
  case (2 t)
  then show ?case
    using tz_ok_step(2) [of t] by (simp add: skip_newline) (simp add: at_newline_def)
qed (simp add: skip_stop)

lemma tz_ok_advance:
  assumes "tz_ok t" and "tz_offset t + n \<le> length (tz_contents t)"
    and "\<And>i. i < n \<Longrightarrow> tz_contents t ! (tz_offset t + i) \<noteq> CHR 0x0A"
  shows "tz_ok (t\<lparr>tz_col := tz_col t + n, tz_offset := tz_offset t + n\<rparr>)"
  using assms
proof (induction n)
  case 0
  then show ?case by simp
next
  case (Suc n)
  then have "tz_ok (t\<lparr>tz_col := tz_col t + n, tz_offset := tz_offset t + n\<rparr>)" by simp
  from tz_ok_step(1) [OF this] show ?case
    using Suc.prems(2) Suc.prems(3) [of n] by (simp add: tz_ok_def)
qed

text \<open>What skipping leaves: a position inside the file that is not blank, or its end.\<close>

lemma skip_whitespace_file: "tz_file (skip_whitespace t) = tz_file t"
  by (induction t rule: skip_whitespace_induct) (simp_all add: skip_whitespace_eqs)

lemma skip_whitespace_only:
  "tz_offset t \<le> tz_offset (skip_whitespace t) \<and>
   (\<forall>i. tz_offset t \<le> i \<and> i < tz_offset (skip_whitespace t) \<longrightarrow>
      is_blank (tz_contents t ! i) \<or> tz_contents t ! i = CHR 0x0A)"
proof (induction t rule: skip_whitespace_induct)
  case (1 t)
  then show ?case
    by (auto simp: skip_blank at_space_def) (metis Suc_leI le_neq_implies_less)
next
  case (2 t)
  then show ?case
    by (auto simp: skip_newline at_newline_def) (metis Suc_leI le_neq_implies_less)
qed (auto simp: skip_stop)

lemma skip_whitespace_stops: "\<not> at_space (skip_whitespace t) \<and> \<not> at_newline (skip_whitespace t)"
  by (induction t rule: skip_whitespace_induct) (simp_all add: skip_whitespace_eqs)

subsection \<open>The scanning loops\<close>

lemma scan_identifier_ge: "n \<le> scan_identifier s n"
  by (induction s n rule: scan_identifier.induct) (subst scan_identifier.simps, auto)

lemma scan_identifier_le: "n \<le> length s \<Longrightarrow> scan_identifier s n \<le> length s"
  by (induction s n rule: scan_identifier.induct) (subst scan_identifier.simps, auto)

lemma scan_identifier_inside: "n \<le> i \<Longrightarrow> i < scan_identifier s n \<Longrightarrow> ident_char (s ! i)"
proof (induction s n rule: scan_identifier.induct)
  case (1 s n)
  have go: "n < length s \<and> ident_char (s ! n)"
    using 1 by (subst (asm) scan_identifier.simps) (auto split: if_splits)
  then have "scan_identifier s n = scan_identifier s (n + 1)"
    by (subst scan_identifier.simps) simp
  then show ?case
    using 1 go by (cases "i = n") auto
qed

lemma scan_identifier_stops:
  "scan_identifier s n < length s \<Longrightarrow> \<not> ident_char (s ! scan_identifier s n)"
proof (induction s n rule: scan_identifier.induct)
  case (1 s n)
  show ?case
  proof (cases "n < length s \<and> ident_char (s ! n)")
    case True
    then have "scan_identifier s n = scan_identifier s (n + 1)"
      by (subst scan_identifier.simps) simp
    then show ?thesis using 1 True by simp
  next
    case False
    then have "scan_identifier s n = n"
      by (subst scan_identifier.simps) auto
    then show ?thesis using 1 False by simp
  qed
qed

lemma scan_string_bounds:
  assumes "scan_string s n = (e, ty)" and "n \<le> length s"
  shows "n \<le> e \<and> e \<le> length s \<and> (ty = STRING \<or> ty = UNTERMINATED_STRING_LITERAL)
           \<and> (ty = STRING \<longrightarrow> n < e \<and> s ! (e - 1) = CHR ''\"'')"
  using assms
proof (induction s n rule: scan_string.induct)
  case (1 s n)
  show ?case
  proof (cases "n < length s \<and> s ! n \<noteq> CHR 0x0A \<and> s ! n \<noteq> CHR ''\"''")
    case True
    then have "scan_string s n = scan_string s (n + 1)"
      by (subst scan_string.simps) simp
    then show ?thesis using 1 True by auto
  next
    case False
    then show ?thesis
      using 1(2,3) by (subst (asm) scan_string.simps) (auto split: if_splits)
  qed
qed

lemma scan_string_inside:
  assumes "scan_string s n = (e, ty)" and "n \<le> i" and "i < e"
  shows "s ! i \<noteq> CHR 0x0A \<and> (s ! i = CHR ''\"'' \<longrightarrow> ty = STRING \<and> i = e - 1)"
  using assms
proof (induction s n rule: scan_string.induct)
  case (1 s n)
  show ?case
  proof (cases "n < length s \<and> s ! n \<noteq> CHR 0x0A \<and> s ! n \<noteq> CHR ''\"''")
    case True
    then have "scan_string s n = scan_string s (n + 1)"
      by (subst scan_string.simps) simp
    then show ?thesis using 1 True by (cases "i = n") auto
  next
    case False
    then show ?thesis
      using 1(2-4) by (subst (asm) scan_string.simps) (auto simp: less_Suc_eq split: if_splits)
  qed
qed

text \<open>What \<open>classify\<close> decides, in terms of the character ranges the code tests.\<close>

lemma ident_char_newline: "ident_char c \<Longrightarrow> c \<noteq> CHR 0x0A"
  by (auto simp: ident_char_def is_upper_def is_lower_def is_digit_def)

lemma keyword_type_kind: "keyword_type s \<noteq> END_OF_FILE"
  by (simp add: keyword_type_def)

lemma classify_bounds:
  assumes "classify s n = (ty, len)" and "n < length s"
  shows "0 < len \<and> n + len \<le> length s \<and> ty \<noteq> END_OF_FILE"
proof -
  have "n < scan_identifier s (n + 1) \<and> scan_identifier s (n + 1) \<le> length s"
    using scan_identifier_ge [of "n + 1" s] scan_identifier_le [of "n + 1" s] assms(2) by simp
  moreover obtain e st where e: "scan_string s (n + 1) = (e, st)" by fastforce
  moreover have "n < e \<and> e \<le> length s \<and> (st = STRING \<or> st = UNTERMINATED_STRING_LITERAL)"
    using scan_string_bounds [OF e] assms(2) by simp
  ultimately show ?thesis
    using assms by (auto simp: classify_def Let_def keyword_type_kind split: if_splits)
qed

lemma classify_one_line:
  assumes "classify s n = (ty, len)" and "n < length s" and "s ! n \<noteq> CHR 0x0A"
    and "n \<le> i" and "i < n + len"
  shows "s ! i \<noteq> CHR 0x0A"
proof (cases "i = n")
  case False
  with assms have i: "n + 1 \<le> i" by simp
  obtain e st where e: "scan_string s (n + 1) = (e, st)" by fastforce
  have "i < scan_identifier s (n + 1) \<Longrightarrow> s ! i \<noteq> CHR 0x0A"
    using scan_identifier_inside [OF i] ident_char_newline by blast
  moreover have "i < e \<Longrightarrow> s ! i \<noteq> CHR 0x0A"
    using scan_string_inside [OF e i] by blast
  moreover have "n + (scan_identifier s (n + 1) - n) = scan_identifier s (n + 1)" "n + (e - n) = e"
    using scan_identifier_ge [of "n + 1" s] scan_string_bounds [OF e] assms(2) by simp_all
  ultimately show ?thesis
    using assms i e
    by (auto simp: classify_def Let_def le_eq_less_or_eq [of "Suc n" i] split: if_splits)
qed (use assms in simp)

lemma classify_identifier:
  assumes "classify s n = (IDENTIFIER, len)" and "n < length s"
    and "n \<le> i" and "i < n + len"
  shows "ident_char (s ! i)"
proof -
  obtain e st where e: "scan_string s (n + 1) = (e, st)" by fastforce
  then have "st \<noteq> IDENTIFIER"
    using scan_string_bounds [OF e] assms(2) by auto
  then have start: "ident_start (s ! n)" and len: "len = scan_identifier s (n + 1) - n"
    using assms(1) e by (auto simp: classify_def Let_def split: if_splits)
  show ?thesis
  proof (cases "i = n")
    case True
    then show ?thesis using start by (auto simp: ident_start_def ident_char_def)
  next
    case False
    then have "n + 1 \<le> i" "i < scan_identifier s (n + 1)"
      using assms(3,4) len by simp_all
    then show ?thesis by (rule scan_identifier_inside)
  qed
qed

subsection \<open>Every token\<close>

text \<open>
  What the rest of the compiler relies on: the token lies in its file, carries the right line
  and column, is empty exactly at the end of the file, and does not span lines.
\<close>

definition token_ok :: "token \<Rightarrow> bool" where
  "token_ok t \<longleftrightarrow> (case tok_file t of None \<Rightarrow> False | Some f \<Rightarrow>
     tok_offset t + tok_length t \<le> length (GetContents f)
     \<and> tok_line t = 1 + count_list (take (tok_offset t) (GetContents f)) (CHR 0x0A)
     \<and> tok_column t = 1 + (tok_offset t - line_start (GetContents f) (tok_offset t))
     \<and> (tok_type t = END_OF_FILE \<longleftrightarrow> tok_length t = 0)
     \<and> (tok_type t = END_OF_FILE \<longleftrightarrow> tok_offset t = length (GetContents f))
     \<and> CHR 0x0A \<notin> set (tok_contents t)
     \<and> (tok_type t = IDENTIFIER \<longrightarrow> (\<forall>c \<in> set (tok_contents t). ident_char c)))"

lemma token_contents_length:
  "token_ok t \<Longrightarrow> length (tok_contents t) = tok_length t"
  by (auto simp: token_ok_def tok_contents_def split: option.splits)

lemma tz_NextToken_eof:
  "tz_offset (skip_whitespace t) \<ge> length (tz_contents t) \<Longrightarrow>
     tz_NextToken t = (Token (tz_file t) (tz_line (skip_whitespace t)) (tz_col (skip_whitespace t))
        (tz_offset (skip_whitespace t)) 0 END_OF_FILE, skip_whitespace t)"
  by (simp add: tz_NextToken_def Let_def skip_whitespace_file)

lemma tz_NextToken_token:
  "tz_offset (skip_whitespace t) < length (tz_contents t) \<Longrightarrow>
     classify (tz_contents t) (tz_offset (skip_whitespace t)) = (type, len) \<Longrightarrow>
     tz_NextToken t = (Token (tz_file t) (tz_line (skip_whitespace t)) (tz_col (skip_whitespace t))
          (tz_offset (skip_whitespace t)) len type,
        (skip_whitespace t)\<lparr>tz_col := tz_col (skip_whitespace t) + len,
           tz_offset := tz_offset (skip_whitespace t) + len\<rparr>)"
  by (simp add: tz_NextToken_def Let_def skip_whitespace_file)

lemma NextToken_facts:
  assumes ok: "tz_ok t" and next_t: "tz_NextToken t = (tok, t')"
  shows "tz_ok t' \<and> token_ok tok \<and> tz_file t' = tz_file t \<and> tok_file tok = Some (tz_file t)
           \<and> tz_offset t' = tok_offset tok + tok_length tok \<and> tz_offset t \<le> tok_offset tok
           \<and> (\<forall>i. tz_offset t \<le> i \<and> i < tok_offset tok \<longrightarrow>
                is_blank (tz_contents t ! i) \<or> tz_contents t ! i = CHR 0x0A)"
proof -
  let ?s = "skip_whitespace t"
  have s: "tz_ok ?s" "tz_file ?s = tz_file t"
    using ok by (simp_all add: skip_whitespace_ok skip_whitespace_file)
  have only: "tz_offset t \<le> tz_offset ?s \<and> (\<forall>i. tz_offset t \<le> i \<and> i < tz_offset ?s \<longrightarrow>
      is_blank (tz_contents t ! i) \<or> tz_contents t ! i = CHR 0x0A)"
    by (rule skip_whitespace_only)
  show ?thesis
  proof (cases "tz_offset ?s < length (tz_contents t)")
    case False
    then show ?thesis
      using next_t s only by (auto simp: tz_NextToken_eof Token_def token_ok_def tz_ok_def tok_contents_def)
  next
    case True
    obtain ty len where c: "classify (tz_contents t) (tz_offset ?s) = (ty, len)" by fastforce
    have nl: "tz_contents t ! tz_offset ?s \<noteq> CHR 0x0A"
      using True skip_whitespace_stops [of t] s by (auto simp: at_newline_def)
    note b = classify_bounds [OF c True]
    note one = classify_one_line [OF c True nl]
    have "tz_ok (?s\<lparr>tz_col := tz_col ?s + len, tz_offset := tz_offset ?s + len\<rparr>)"
      by (rule tz_ok_advance) (use s b one in auto)
    moreover have "CHR 0x0A \<notin> set (take len (drop (tz_offset ?s) (tz_contents t)))"
      using b one by (auto simp: in_set_conv_nth)
    moreover have "\<forall>x \<in> set (take len (drop (tz_offset ?s) (tz_contents t))). ident_char x" if "ty = IDENTIFIER"
    proof
      fix x assume "x \<in> set (take len (drop (tz_offset ?s) (tz_contents t)))"
      then obtain i where "i < len" "x = tz_contents t ! (tz_offset ?s + i)"
        using b by (auto simp: in_set_conv_nth)
      then show "ident_char x"
        using classify_identifier [OF c [unfolded that] True] by simp
    qed
    ultimately show ?thesis
      using next_t s only b True
      by (auto simp: tz_NextToken_token [OF True c] Token_def token_ok_def tz_ok_def tok_contents_def)
  qed
qed

text \<open>C27: Tokenising loses nothing: each call of \<open>NextToken\<close> appends to the part of the file
  already consumed some white space and then exactly the token's text, with the token's line
  and column those of its first character; it makes progress unless it is at the end of the
  file, where it returns the empty \<open>END_OF_FILE\<close> token for good.\<close>

theorem NextToken_lossless:
  assumes "tz_ok t" and "tz_NextToken t = (tok, t')"
  shows "(\<exists>ws. take (tz_offset t') (tz_contents t) = take (tz_offset t) (tz_contents t) @ ws @ tok_contents tok
            \<and> (\<forall>c \<in> set ws. is_blank c \<or> c = CHR 0x0A))
    \<and> (tz_ok t' \<and> token_ok tok \<and> tok_file tok = Some (tz_file t) \<and> tz_file t' = tz_file t)
    \<and> (if tok_type tok = END_OF_FILE then tz_NextToken t' = (tok, t')
       else tz_offset t < tz_offset t')"
proof (intro conjI)
  note f = NextToken_facts [OF assms]
  let ?c = "tz_contents t"
  define ws where "ws = take (tok_offset tok - tz_offset t) (drop (tz_offset t) ?c)"
  have "take (tz_offset t') ?c = take (tok_offset tok) ?c @ take (tok_length tok) (drop (tok_offset tok) ?c)"
    using f by (simp add: take_add)
  moreover have "take (tok_offset tok) ?c = take (tz_offset t) ?c @ ws"
    using f by (metis le_add_diff_inverse take_add ws_def)
  moreover have "\<forall>c \<in> set ws. is_blank c \<or> c = CHR 0x0A"
  proof
    fix c assume "c \<in> set ws"
    then obtain i where "i < tok_offset tok - tz_offset t" "c = ?c ! (tz_offset t + i)"
      by (auto simp: ws_def in_set_conv_nth)
    then show "is_blank c \<or> c = CHR 0x0A"
      using f by simp
  qed
  ultimately show "\<exists>ws. take (tz_offset t') ?c = take (tz_offset t) ?c @ ws @ tok_contents tok
            \<and> (\<forall>c \<in> set ws. is_blank c \<or> c = CHR 0x0A)"
    using f by (auto simp: tok_contents_def)
  show "tz_ok t'" "token_ok tok" "tok_file tok = Some (tz_file t)" "tz_file t' = tz_file t"
    using f by simp_all
  show "if tok_type tok = END_OF_FILE then tz_NextToken t' = (tok, t') else tz_offset t < tz_offset t'"
  proof (cases "tok_type tok = END_OF_FILE")
    case False
    then show ?thesis using f by (auto simp: token_ok_def)
  next
    case True
    then have "tz_offset (skip_whitespace t) \<ge> length ?c"
      using assms(2) classify_bounds by (fastforce simp: tz_NextToken_def Let_def Token_def
          skip_whitespace_file split: if_splits prod.splits)
    from tz_NextToken_eof [OF this] assms(2)
    have t': "t' = skip_whitespace t" "tok = Token (tz_file t) (tz_line t') (tz_col t') (tz_offset t') 0 END_OF_FILE"
      by auto
    have "skip_whitespace t' = t'"
      using skip_whitespace_stops [of t] by (simp add: t'(1) skip_stop)
    then show ?thesis
      using True t' tz_NextToken_eof [of t'] \<open>tz_offset (skip_whitespace t) \<ge> length ?c\<close>
      by (simp add: skip_whitespace_file)
  qed
qed

theorem NextToken_lossless_witness:
  "let t = Tokenizer \<lparr>GetName = ''a'', GetContents = '' ab;''\<rparr>
   in tz_offset (snd (tz_NextToken t)) = 3 \<and> tz_ok (snd (tz_NextToken t))"
proof -
  let ?t = "Tokenizer \<lparr>GetName = ''a'', GetContents = '' ab;''\<rparr>"
  have n: "tz_NextToken ?t = (fst (tz_NextToken ?t), snd (tz_NextToken ?t))" by simp
  have "tz_offset (snd (tz_NextToken ?t)) = 3" by code_simp
  with NextToken_lossless [OF tz_ok_init n] show ?thesis by (simp add: Let_def)
qed

text \<open>An error at a token appends three lines: the file, line number and message; the
  whole line of the file the token is on; and a caret under the token's first character.\<close>

theorem AddError_points_at_token:
  assumes "token_ok t" and "tok_type t \<noteq> END_OF_FILE" and "tok_file t = Some f"
  shows "\<exists>pre l post. GetContents f = pre @ l @ post \<and> CHR 0x0A \<notin> set l
     \<and> (pre = [] \<or> last pre = CHR 0x0A) \<and> (post = [] \<or> hd post = CHR 0x0A)
     \<and> tok_line t = 1 + count_list pre (CHR 0x0A)
     \<and> take (tok_length t) (drop (tok_column t - 1) l) = tok_contents t
     \<and> AddError t err es = Inr (es @
          [GetName f @ '':'' @ plain_arg (ArgUnsigned (tok_line t)) @ '': '' @ err, l,
           replicate (tok_column t - 1) (CHR '' '') @ ''^''])"
proof -
  let ?c = "GetContents f" and ?o = "tok_offset t"
  define a where "a = line_start ?c ?o"
  define b where "b = line_end ?c (?o + 1)"
  have t: "?o + tok_length t \<le> length ?c" "0 < tok_length t" "?o < length ?c"
      "tok_line t = 1 + count_list (take ?o ?c) (CHR 0x0A)" "tok_column t = 1 + (?o - a)"
      "CHR 0x0A \<notin> set (take (tok_length t) (drop ?o ?c))"
      "tok_contents t = take (tok_length t) (drop ?o ?c)"
    using assms by (auto simp: token_ok_def tok_contents_def a_def)
  have tok_nl: "?c ! i \<noteq> CHR 0x0A" if "?o \<le> i" "i < ?o + tok_length t" for i
  proof -
    have "?c ! i = take (tok_length t) (drop ?o ?c) ! (i - ?o)" "i - ?o < tok_length t"
      using that t by simp_all
    then show ?thesis using t(1,6) by (metis length_drop length_take min.absorb2 nth_mem le_diff_conv2
          add.commute le_add1 le_trans)
  qed
  have ab: "a \<le> ?o" "?o < b" "b \<le> length ?c"
    using line_start_le line_end_ge [of "?o + 1" ?c] line_end_le [of "?o + 1" ?c] t
    by (auto simp: a_def b_def)
  have line_nl: "?c ! i \<noteq> CHR 0x0A" if "a \<le> i" "i < b" for i
    using line_start_inside [of ?c ?o i] line_end_inside [of "?o + 1" i ?c] tok_nl [of i] that t(2)
    by (cases "i < ?o"; cases "i = ?o") (auto simp: a_def b_def)
  have tok_in: "?o + tok_length t \<le> b"
  proof (rule ccontr)
    assume "\<not> ?o + tok_length t \<le> b"
    then have "?c ! b \<noteq> CHR 0x0A" "b < length ?c" using tok_nl [of b] ab t by auto
    then show False using line_end_boundary [of "?o + 1" ?c] t by (auto simp: b_def)
  qed
  define l where "l = take (b - a) (drop a ?c)"
  have split: "?c = take a ?c @ l @ drop b ?c"
    using ab by (metis append_take_drop_id drop_drop l_def le_add_diff_inverse2 less_imp_le le_trans)
  moreover have "CHR 0x0A \<notin> set l"
    using line_nl ab by (force simp: l_def in_set_conv_nth)
  moreover have "take a ?c = [] \<or> last (take a ?c) = CHR 0x0A"
  proof (cases "a = 0")
    case False
    then have "last (take a ?c) = ?c ! (a - 1)"
      using ab by (subst last_conv_nth) auto
    then show ?thesis
      using False line_start_boundary [of ?c ?o] by (simp add: a_def)
  qed simp
  moreover have "drop b ?c = [] \<or> hd (drop b ?c) = CHR 0x0A"
  proof (cases "b = length ?c")
    case False
    then have "hd (drop b ?c) = ?c ! b"
      using ab by (subst hd_drop_conv_nth) auto
    then show ?thesis
      using False line_end_boundary [of "?o + 1" ?c] t by (simp add: b_def)
  qed simp
  moreover have "count_list (take ?o ?c) (CHR 0x0A) = count_list (take a ?c) (CHR 0x0A)"
  proof -
    have "take ?o ?c = take a ?c @ take (?o - a) (drop a ?c)"
      using ab by (metis le_add_diff_inverse take_add)
    moreover have "CHR 0x0A \<notin> set (take (?o - a) (drop a ?c))"
      using line_nl ab by (force simp: in_set_conv_nth)
    ultimately show ?thesis by (simp add: count_list_0_iff)
  qed
  moreover have "take (tok_length t) (drop (tok_column t - 1) l) = tok_contents t"
    using ab tok_in t by (simp add: l_def drop_take min_def)
  moreover have "AddError t err es = Inr (es @
      [GetName f @ '':'' @ plain_arg (ArgUnsigned (tok_line t)) @ '': '' @ err, l,
           replicate (tok_column t - 1) (CHR '' '') @ ''^''])"
    using assms(3) t(3,5) by (simp add: AddError_def AddError_at_def GetLineContents_def Let_def
        a_def [symmetric] b_def [symmetric, simplified] l_def [symmetric] Format_located Format_caret)
  ultimately show ?thesis using t(4) by metis
qed

theorem AddError_points_at_token_witness:
  "\<exists>l. AddError (fst (tz_NextToken (Tokenizer \<lparr>GetName = ''a'', GetContents = '' ab;''\<rparr>))) ''bad'' []
     = Inr [''a:1: bad'', l, '' ^''] \<and> take 2 (drop 1 l) = ''ab''"
proof -
  let ?f = "\<lparr>GetName = ''a'', GetContents = '' ab;''\<rparr>"
  let ?t = "fst (tz_NextToken (Tokenizer ?f))"
  have ok: "token_ok ?t" "tok_type ?t \<noteq> END_OF_FILE" "tok_file ?t = Some ?f" by code_simp+
  have v: "tok_line ?t = 1" "tok_column ?t = 2" "tok_length ?t = 2" "tok_contents ?t = ''ab''"
    by code_simp+
  have d: "plain_arg (ArgUnsigned 1) = ''1''" by code_simp
  from AddError_points_at_token [OF ok, of "''bad''" "[]"]
  show ?thesis
    unfolding v d by auto
qed

text \<open>An error reported at the end of the file never gets out: \<open>GetLineContents\<close>
  asserts that the token starts before the end of the contents, so the program stops on the
  assertion instead of printing the message.\<close>

theorem AddError_at_end_of_file:
  assumes "token_ok t" and "tok_type t = END_OF_FILE"
  shows "AddError t err es = Inl (AssertFailed ''offset < m_file->GetContents().size()'')"
  using assms by (auto simp: token_ok_def AddError_def GetLineContents_def split: option.splits)

theorem AddError_at_end_of_file_witness:
  "AddError (fst (tz_NextToken (Tokenizer \<lparr>GetName = ''a'', GetContents = ''''\<rparr>))) ''bad'' []
     = Inl (AssertFailed ''offset < m_file->GetContents().size()'')"
  by (rule AddError_at_end_of_file) code_simp+

end
