(* ===== verification/IdlTypes.thy ===== *)
theory IdlTypes
  imports Tokenizer StdMap "HOL-Library.Option_ord"
begin

section \<open>Types, namespaces and the type library of the interface compiler\<close>

text \<open>
  \<open>TypeNameList.h\<close>, \<open>TypeName.h\<close>, \<open>Namespace.h\<close>, \<open>TypeInstance.h\<close>, \<open>TypeLibrary.cpp\<close>,
  \<open>Enum.cpp\<close>, \<open>Extern.cpp\<close> and the checking half of \<open>Struct.cpp\<close>. Objects the code shares
  through \<open>std::shared_ptr\<close> (namespaces and types) live in two lists of the compiler state,
  and a pointer is an index. The error list is part of that state, as every object holds a
  reference to it.
\<close>

datatype type_name = TypeName (GetBaseName: "token list") (opt_template_params: "type_name list option")

text \<open>\<open>TypeNameList::ToString\<close> and \<open>TypeName::ToString\<close>.\<close>

fun separated :: "string \<Rightarrow> string list \<Rightarrow> string" where
  "separated sep [] = []"
| "separated sep [x] = x"
| "separated sep (x # y # xs) = x @ sep @ separated sep (y # xs)"

definition names_ToString :: "token list \<Rightarrow> string" where
  "names_ToString toks = separated ''::'' (map tok_contents toks)"

fun TypeName_ToString :: "type_name \<Rightarrow> string" where
  "TypeName_ToString (TypeName base params) = names_ToString base @
     (case params of
        None \<Rightarrow> []
      | Some ps \<Rightarrow> ''<'' @ separated '', '' (map TypeName_ToString ps) @ ''>'')"

text \<open>\<open>GetStartToken\<close> is \<open>m_tokens.front()\<close>, undefined on an empty list.\<close>

definition names_GetStartToken :: "token list \<Rightarrow> token res" where
  "names_GetStartToken toks = (case toks of [] \<Rightarrow> Inl NullPointer | t # _ \<Rightarrow> Inr t)"

definition GetStartToken :: "type_name \<Rightarrow> token res" where
  "GetStartToken tn = names_GetStartToken (GetBaseName tn)"

datatype language = CPP | TYPESCRIPT

instantiation language :: linorder
begin

definition less_language :: "language \<Rightarrow> language \<Rightarrow> bool" where
  "less_language a b \<longleftrightarrow> a = CPP \<and> b = TYPESCRIPT"

definition less_eq_language :: "language \<Rightarrow> language \<Rightarrow> bool" where
  "less_eq_language a b \<longleftrightarrow> a = CPP \<or> b = TYPESCRIPT"

instance
proof
  fix x y z :: language
  show "(x < y) = (x \<le> y \<and> \<not> y \<le> x)" "x \<le> x" "x \<le> y \<or> y \<le> x"
    by (cases x; cases y; simp add: less_language_def less_eq_language_def)+
  show "x \<le> y \<Longrightarrow> y \<le> z \<Longrightarrow> x \<le> z" "x \<le> y \<Longrightarrow> y \<le> x \<Longrightarrow> x = y"
    by (cases x; cases y; cases z; simp add: less_language_def less_eq_language_def)+
qed

end

text \<open>
  What a field's type resolves to (\<open>TypeInstance::ptr\<close>): a built-in, a vector of another, or
  one of the library's types. A field's pointer is null until \<open>Validate\<close> sets it.
\<close>

datatype type_instance =
    SimpleTypeInstance (typescript_type: string) (typescript_lib_constructor: string)
      (typescript_default_value: string)
  | VectorTypeInstance type_instance
  | TypePtr nat

record field =
  fd_type :: type_name
  fd_name :: token
  fd_instance :: "type_instance option"

datatype type_kind = StructKind bool "field list" | EnumKind | ExternKind

record idl_type =
  ty_ns :: nat
  ty_name :: token
  ty_kind :: type_kind

record idl_namespace =
  ns_name :: "token list"
  ns_types :: "(string, nat) smap"
  ns_languages :: "(language, string) smap"

record compiler =
  c_namespaces :: "idl_namespace list"
  c_types :: "idl_type list"
  c_lib :: "(string, nat) smap"
  c_errors :: "string list"

definition compiler_init :: "string list \<Rightarrow> compiler" where
  "compiler_init errs = \<lparr>c_namespaces = [], c_types = [], c_lib = [], c_errors = errs\<rparr>"

abbreviation ns_at :: "compiler \<Rightarrow> nat \<Rightarrow> idl_namespace" where
  "ns_at c p \<equiv> c_namespaces c ! p"

abbreviation ty_at :: "compiler \<Rightarrow> nat \<Rightarrow> idl_type" where
  "ty_at c p \<equiv> c_types c ! p"

definition c_AddError :: "token \<Rightarrow> string \<Rightarrow> compiler \<Rightarrow> compiler res" where
  "c_AddError t err c = bind_res (AddError t err (c_errors c)) (\<lambda>es. Inr (c\<lparr>c_errors := es\<rparr>))"

text \<open>\<open>Namespace::GeneratesLanguage\<close> and \<open>AddLanguage\<close>.\<close>

definition GeneratesLanguage :: "nat \<Rightarrow> language \<Rightarrow> compiler \<Rightarrow> bool" where
  "GeneratesLanguage p l c \<longleftrightarrow> smap_find l (ns_languages (ns_at c p)) \<noteq> None"

definition AddLanguage :: "nat \<Rightarrow> language \<Rightarrow> string \<Rightarrow> compiler \<Rightarrow> compiler" where
  "AddLanguage p l path c = c\<lparr>c_namespaces := (c_namespaces c)[p := (ns_at c p)\<lparr>ns_languages :=
     smap_assign l path (ns_languages (ns_at c p))\<rparr>]\<rparr>"

text \<open>\<open>TypeLibrary::RegisterNamespace\<close> and \<open>RegisterType\<close>.\<close>

definition RegisterNamespace :: "nat \<Rightarrow> compiler \<Rightarrow> compiler res" where
  "RegisterNamespace p c =
     (let name = names_ToString (ns_name (ns_at c p))
      in case smap_find name (c_lib c) of
           None \<Rightarrow> Inr (c\<lparr>c_lib := fst (smap_insert name p (c_lib c))\<rparr>)
         | Some q \<Rightarrow>
             bind_res (names_GetStartToken (ns_name (ns_at c p))) (\<lambda>t.
             bind_res (c_AddError t (Format ''Duplicate namespace \"%s\"'' [ArgStr name]) c) (\<lambda>c1.
             bind_res (names_GetStartToken (ns_name (ns_at c q))) (\<lambda>t'.
               c_AddError t' ''Originally defined here'' c1))))"

definition RegisterType :: "nat \<Rightarrow> compiler \<Rightarrow> compiler res" where
  "RegisterType p c =
     (let ty = ty_at c p;
          ns = ns_at c (ty_ns ty);
          name = tok_contents (ty_name ty)
      in case smap_find name (ns_types ns) of
           None \<Rightarrow> Inr (c\<lparr>c_namespaces := (c_namespaces c)[ty_ns ty := ns\<lparr>ns_types :=
               fst (smap_insert name p (ns_types ns))\<rparr>]\<rparr>)
         | Some q \<Rightarrow>
             bind_res (c_AddError (ty_name ty) (Format ''Duplicate type \"%s\"'' [ArgStr name]) c) (\<lambda>c1.
               c_AddError (ty_name (ty_at c q)) ''Originally defined here'' c1))"

text \<open>\<open>Compiler::Builder\<close>: creating an object allocates it and registers it.\<close>

definition CreateNamespace :: "token list \<Rightarrow> compiler \<Rightarrow> (nat \<times> compiler) res" where
  "CreateNamespace name c =
     (let p = length (c_namespaces c);
          c1 = c\<lparr>c_namespaces := c_namespaces c @
                 [\<lparr>ns_name = name, ns_types = [], ns_languages = []\<rparr>]\<rparr>
      in bind_res (RegisterNamespace p c1) (\<lambda>c2. Inr (p, c2)))"

definition create_type :: "nat \<Rightarrow> token \<Rightarrow> type_kind \<Rightarrow> compiler \<Rightarrow> (nat \<times> compiler) res" where
  "create_type ns name kind c =
     (let p = length (c_types c);
          c1 = c\<lparr>c_types := c_types c @ [\<lparr>ty_ns = ns, ty_name = name, ty_kind = kind\<rparr>]\<rparr>
      in bind_res (RegisterType p c1) (\<lambda>c2. Inr (p, c2)))"

definition CreateStruct :: "nat \<Rightarrow> token \<Rightarrow> bool \<Rightarrow> compiler \<Rightarrow> (nat \<times> compiler) res" where
  "CreateStruct ns name is_message = create_type ns name (StructKind is_message [])"

definition CreateEnum :: "nat \<Rightarrow> token \<Rightarrow> compiler \<Rightarrow> (nat \<times> compiler) res" where
  "CreateEnum ns name = create_type ns name EnumKind"

definition CreateExtern :: "nat \<Rightarrow> token \<Rightarrow> compiler \<Rightarrow> (nat \<times> compiler) res" where
  "CreateExtern ns name = create_type ns name ExternKind"

text \<open>\<open>Struct::AddField\<close>; the pointer is one that \<open>CreateStruct\<close> returned.\<close>

definition AddField :: "nat \<Rightarrow> type_name \<Rightarrow> token \<Rightarrow> compiler \<Rightarrow> compiler" where
  "AddField p type name c = (case ty_kind (ty_at c p) of
       StructKind is_message fds \<Rightarrow>
         c\<lparr>c_types := (c_types c)[p := (ty_at c p)\<lparr>ty_kind := StructKind is_message
             (fds @ [\<lparr>fd_type = type, fd_name = name, fd_instance = None\<rparr>])\<rparr>]\<rparr>
     | _ \<Rightarrow> c)"

text \<open>
  \<open>TypeLibrary::ResolveType\<close>: the built-in names first, then the namespaces in the order of
  their names. None is the \<open>false\<close> of the code.
\<close>

fun find_type :: "string \<Rightarrow> idl_namespace list \<Rightarrow> (string, nat) smap \<Rightarrow> nat option" where
  "find_type name nss [] = None"
| "find_type name nss ((_, p) # rest) = (case smap_find name (ns_types (nss ! p)) of
       Some q \<Rightarrow> Some q
     | None \<Rightarrow> find_type name nss rest)"

definition fail_at :: "type_name \<Rightarrow> string \<Rightarrow> compiler \<Rightarrow> (type_instance option \<times> compiler) res" where
  "fail_at tn err c = bind_res (GetStartToken tn) (\<lambda>t.
     bind_res (c_AddError t err c) (\<lambda>c1. Inr (None, c1)))"

fun ResolveType :: "type_name \<Rightarrow> compiler \<Rightarrow> (type_instance option \<times> compiler) res" where
  "ResolveType (TypeName base params) c =
     (let base_name = names_ToString base
      in if base_name = ''std::string'' then
           (if params \<noteq> None then
              fail_at (TypeName base params) ''Type \"std::string\" is not a template'' c
            else Inr (Some (SimpleTypeInstance ''string'' ''\"std::string\"'' ''\"\"''), c))
         else if base_name = ''bool'' then
           (if params \<noteq> None then
              fail_at (TypeName base params) ''Type \"bool\" is not a template'' c
            else Inr (Some (SimpleTypeInstance ''boolean'' ''\"bool\"'' ''false''), c))
         else if base_name = ''std::vector'' then
           (case params of
              Some [p] \<Rightarrow> bind_res (ResolveType p c) (\<lambda>(r, c1). case r of
                  None \<Rightarrow> Inr (None, c1)
                | Some param_type \<Rightarrow> Inr (Some (VectorTypeInstance param_type), c1))
            | _ \<Rightarrow> fail_at (TypeName base params)
                ''Type \"std::vector\" must have one template parameter'' c)
         else (case find_type base_name (c_namespaces c) (c_lib c) of
             Some q \<Rightarrow> Inr (Some (TypePtr q), c)
           | None \<Rightarrow> fail_at (TypeName base params)
               (Format ''Unknown type \"%s\"'' [ArgStr (TypeName_ToString (TypeName base params))]) c))"

text \<open>\<open>Struct::Validate\<close> resolves the fields in place up to the first failure.\<close>

fun resolve_fields :: "field list \<Rightarrow> compiler \<Rightarrow> ((bool \<times> field list) \<times> compiler) res" where
  "resolve_fields [] c = Inr ((True, []), c)"
| "resolve_fields (f # fs) c = bind_res (ResolveType (fd_type f) c) (\<lambda>(r, c1). case r of
       None \<Rightarrow> Inr ((False, f # fs), c1)
     | Some i \<Rightarrow> bind_res (resolve_fields fs c1) (\<lambda>((b, fs'), c2).
         Inr ((b, f\<lparr>fd_instance := Some i\<rparr> # fs'), c2)))"

definition type_Validate :: "nat \<Rightarrow> compiler \<Rightarrow> (bool \<times> compiler) res" where
  "type_Validate p c = (case ty_kind (ty_at c p) of
       StructKind is_message fds \<Rightarrow>
         bind_res (resolve_fields fds c) (\<lambda>((b, fds'), c1).
           Inr (b, c1\<lparr>c_types := (c_types c1)[p := (ty_at c1 p)\<lparr>ty_kind :=
               StructKind is_message fds'\<rparr>]\<rparr>))
     | EnumKind \<Rightarrow> Inr (True, c)
     | ExternKind \<Rightarrow>
         if GeneratesLanguage (ty_ns (ty_at c p)) TYPESCRIPT c then
           bind_res (c_AddError (ty_name (ty_at c p))
               ''extern types not yet supported in namespaces that generate Typescript output'' c)
             (\<lambda>c1. Inr (False, c1))
         else Inr (True, c))"

text \<open>\<open>Namespace::Validate\<close>, and the loop over the namespaces in \<open>CompileSources\<close>: they stop
  at the first failure.\<close>

fun validate_all :: "(nat \<Rightarrow> compiler \<Rightarrow> (bool \<times> compiler) res) \<Rightarrow> ('k, nat) smap \<Rightarrow> compiler
    \<Rightarrow> (bool \<times> compiler) res" where
  "validate_all v [] c = Inr (True, c)"
| "validate_all v ((_, p) # rest) c = bind_res (v p c) (\<lambda>(b, c1).
     if b then validate_all v rest c1 else Inr (False, c1))"

definition namespace_Validate :: "nat \<Rightarrow> compiler \<Rightarrow> (bool \<times> compiler) res" where
  "namespace_Validate p c = validate_all type_Validate (ns_types (ns_at c p)) c"

definition validate_library :: "compiler \<Rightarrow> (bool \<times> compiler) res" where
  "validate_library c = validate_all namespace_Validate (c_lib c) c"

end
