(* ===== verification/IdlGenerate.thy ===== *)
theory IdlGenerate
  imports IdlTypes
begin

section \<open>The code generator of the interface compiler\<close>

text \<open>
  \<open>Type.cpp\<close> and the generating half of \<open>Struct.cpp\<close>, with the type instances of
  \<open>TypeLibrary.cpp\<close>: the text of the C++ header and source and of the TypeScript file of a
  structure. A stream is the string written to it; a field that was never validated is a
  null pointer dereference.
\<close>

definition endl :: string where
  "endl = [CHR 0x0A]"

text \<open>The text of a sequence of statements that each end in \<open>std::endl\<close>.\<close>

definition out_lines :: "string list \<Rightarrow> string" where
  "out_lines ls = concat (map (\<lambda>l. l @ endl) ls)"

type_synonym sset = "(string, unit) smap"

definition sset_insert :: "string \<Rightarrow> sset \<Rightarrow> sset" where
  "sset_insert s m = fst (smap_insert s () m)"

definition ty_text :: "idl_type \<Rightarrow> string" where
  "ty_text ty = tok_contents (ty_name ty)"

definition ns_prefix :: "string \<Rightarrow> idl_namespace \<Rightarrow> string" where
  "ns_prefix sep ns = concat (map (\<lambda>t. tok_contents t @ sep) (ns_name ns))"

subsection \<open>Type instances\<close>

text \<open>The virtual functions of \<open>Type\<close>, for a type and its namespace.\<close>

definition type_TypescriptTypeName :: "idl_namespace \<Rightarrow> idl_type \<Rightarrow> string" where
  "type_TypescriptTypeName ns ty = ns_prefix ''.'' ns @ ty_text ty"

definition type_TypescriptTypeLibraryConstructor :: "idl_namespace \<Rightarrow> idl_type \<Rightarrow> string" where
  "type_TypescriptTypeLibraryConstructor ns ty = ''\"'' @ ns_prefix ''::'' ns @ ty_text ty @ ''\"''"

definition type_TypescriptDefaultValue :: "idl_namespace \<Rightarrow> idl_type \<Rightarrow> string" where
  "type_TypescriptDefaultValue ns ty = ''new '' @ ns_prefix ''.'' ns @ ty_text ty @ ''()''"

definition type_AddTypescriptReferences :: "idl_type \<Rightarrow> sset \<Rightarrow> sset" where
  "type_AddTypescriptReferences ty refs =
     sset_insert (Format ''/// <reference path=\"%s.ts\" />'' [ArgStr (ty_text ty)]) refs"

definition type_AddCppHeaderIncludes :: "idl_namespace \<Rightarrow> idl_type \<Rightarrow> sset \<Rightarrow> sset" where
  "type_AddCppHeaderIncludes ns ty incs =
     sset_insert (''#include <'' @ ns_prefix ''/'' ns @ ty_text ty @ ''.h>'') incs"

abbreviation ns_of :: "compiler \<Rightarrow> nat \<Rightarrow> idl_namespace" where
  "ns_of c p \<equiv> ns_at c (ty_ns (ty_at c p))"

fun GetTypescriptTypeName :: "compiler \<Rightarrow> type_instance \<Rightarrow> string" where
  "GetTypescriptTypeName c (SimpleTypeInstance t l d) = t"
| "GetTypescriptTypeName c (VectorTypeInstance i) =
     Format ''bbox.ds.Deque<%s>'' [ArgStr (GetTypescriptTypeName c i)]"
| "GetTypescriptTypeName c (TypePtr p) = type_TypescriptTypeName (ns_of c p) (ty_at c p)"

fun GetTypescriptTypeLibraryConstructor :: "compiler \<Rightarrow> type_instance \<Rightarrow> string" where
  "GetTypescriptTypeLibraryConstructor c (SimpleTypeInstance t l d) = l"
| "GetTypescriptTypeLibraryConstructor c (VectorTypeInstance i) =
     Format ''bbox.enc.TypeLibrary.stdVectorAsDeque(%s)'' [ArgStr (GetTypescriptTypeLibraryConstructor c i)]"
| "GetTypescriptTypeLibraryConstructor c (TypePtr p) =
     type_TypescriptTypeLibraryConstructor (ns_of c p) (ty_at c p)"

fun GetTypescriptDefaultValue :: "compiler \<Rightarrow> type_instance \<Rightarrow> string" where
  "GetTypescriptDefaultValue c (SimpleTypeInstance t l d) = d"
| "GetTypescriptDefaultValue c (VectorTypeInstance i) =
     Format ''new bbox.ds.Deque<%s>()'' [ArgStr (GetTypescriptTypeName c i)]"
| "GetTypescriptDefaultValue c (TypePtr p) = type_TypescriptDefaultValue (ns_of c p) (ty_at c p)"

fun AddTypescriptReferences :: "compiler \<Rightarrow> type_instance \<Rightarrow> sset \<Rightarrow> sset" where
  "AddTypescriptReferences c (SimpleTypeInstance t l d) refs = refs"
| "AddTypescriptReferences c (VectorTypeInstance i) refs = AddTypescriptReferences c i refs"
| "AddTypescriptReferences c (TypePtr p) refs = type_AddTypescriptReferences (ty_at c p) refs"

fun AddCppHeaderIncludes :: "compiler \<Rightarrow> type_instance \<Rightarrow> sset \<Rightarrow> sset" where
  "AddCppHeaderIncludes c (SimpleTypeInstance t l d) incs = incs"
| "AddCppHeaderIncludes c (VectorTypeInstance i) incs = AddCppHeaderIncludes c i incs"
| "AddCppHeaderIncludes c (TypePtr p) incs = type_AddCppHeaderIncludes (ns_of c p) (ty_at c p) incs"

subsection \<open>Headers, footers and namespaces\<close>

definition GenerateCppHeaderGuard :: "idl_namespace \<Rightarrow> idl_type \<Rightarrow> string" where
  "GenerateCppHeaderGuard ns ty = ''__'' @ ns_prefix ''_'' ns @ ty_text ty @ ''_H__''"

text \<open>\<open>m_name.GetFile()->GetName()\<close>.\<close>

definition tok_file_name :: "token \<Rightarrow> string res" where
  "tok_file_name t = (case tok_file t of None \<Rightarrow> Inl NullPointer | Some f \<Rightarrow> Inr (GetName f))"

definition generated_comment :: "string \<Rightarrow> idl_namespace \<Rightarrow> idl_type \<Rightarrow> string \<Rightarrow> string \<Rightarrow> string" where
  "generated_comment what ns ty type src = out_lines
     [''/**'',
      '' * @file'',
      '' *'',
      '' * '' @ what @ '' for the '' @ names_ToString (ns_name ns) @ ''::'' @ ty_text ty @ '' '' @ type @ ''.'',
      '' *'',
      '' * THIS FILE IS AUTOMATICALLY GENERATED BY THE IDL COMPILER FROM'',
      '' * IDL SOURCE FILE \"'' @ src @ ''\"'',
      '' */'',
      []]"

definition GenerateCppHeaderHeader :: "idl_namespace \<Rightarrow> idl_type \<Rightarrow> string \<Rightarrow> string res" where
  "GenerateCppHeaderHeader ns ty type = bind_res (tok_file_name (ty_name ty)) (\<lambda>src.
     Inr (generated_comment ''Header'' ns ty type src @ out_lines
       [''#ifndef '' @ GenerateCppHeaderGuard ns ty,
        ''#define '' @ GenerateCppHeaderGuard ns ty,
        [],
        ''#include <bbox/enc/FromBinary.h>'',
        ''#include <bbox/enc/FromTextFormat.h>'',
        ''#include <bbox/enc/MsgTypeLibrary.h>'',
        ''#include <bbox/enc/ToBinary.h>'',
        ''#include <bbox/enc/ToTextFormat.h>'',
        []]))"

definition GenerateCppHeaderFooter :: "idl_namespace \<Rightarrow> idl_type \<Rightarrow> string" where
  "GenerateCppHeaderFooter ns ty = out_lines [''#endif // '' @ GenerateCppHeaderGuard ns ty]"

definition GenerateCppSourceHeader :: "idl_namespace \<Rightarrow> idl_type \<Rightarrow> string \<Rightarrow> string res" where
  "GenerateCppSourceHeader ns ty type = bind_res (tok_file_name (ty_name ty)) (\<lambda>src.
     Inr (generated_comment ''Source'' ns ty type src))"

definition GenerateCppNamespaceOpen :: "idl_namespace \<Rightarrow> string" where
  "GenerateCppNamespaceOpen ns =
     out_lines (map (\<lambda>t. ''namespace '' @ tok_contents t @ '' {'') (ns_name ns)) @ endl"

definition GenerateCppNamespaceClose :: "idl_namespace \<Rightarrow> string" where
  "GenerateCppNamespaceClose ns =
     out_lines (map (\<lambda>t. ''} // namespace '' @ tok_contents t) (rev (ns_name ns))) @ endl"

subsection \<open>Structures\<close>

abbreviation fd_text :: "field \<Rightarrow> string" where
  "fd_text f \<equiv> tok_contents (fd_name f)"

text \<open>Every use of \<open>field.instance\<close> goes through the pointer.\<close>

fun field_instances :: "field list \<Rightarrow> type_instance list res" where
  "field_instances [] = Inr []"
| "field_instances (f # fs) = (case fd_instance f of
       None \<Rightarrow> Inl NullPointer
     | Some i \<Rightarrow> bind_res (field_instances fs) (\<lambda>is. Inr (i # is)))"

text \<open>The comparison of all fields: the first is introduced by \<open>return\<close>, the others by the
  connective on a line of their own.\<close>

fun compare_fields :: "string \<Rightarrow> string \<Rightarrow> string \<Rightarrow> field list \<Rightarrow> string" where
  "compare_fields header next rel [] = []"
| "compare_fields header next rel (f # fs) =
     header @ ''('' @ fd_text f @ '' '' @ rel @ '' other.'' @ fd_text f @ '')'' @
     compare_fields next next rel fs"

definition header_includes :: "compiler \<Rightarrow> type_instance list \<Rightarrow> string" where
  "header_includes c is =
     (let headers = fold (AddCppHeaderIncludes c) is []
      in if headers \<noteq> [] then out_lines (map fst headers) @ endl else [])"

definition GenerateCppHeader :: "compiler \<Rightarrow> nat \<Rightarrow> bool \<Rightarrow> field list \<Rightarrow> string res" where
  "GenerateCppHeader c p is_message fds =
     (let ty = ty_at c p; ns = ns_of c p; name = ty_text ty
      in bind_res (GenerateCppHeaderHeader ns ty ''struct'') (\<lambda>hdr.
         bind_res (field_instances fds) (\<lambda>is.
         Inr (hdr
           @ header_includes c is
           @ GenerateCppNamespaceOpen ns
           @ out_lines
             [''class '' @ name,
              ''{'',
              ''public:'',
              ''    '' @ name @ ''() = default;'',
              ''    ~'' @ name @ ''() = default;'',
              ''    '' @ name @ ''(const '' @ name @ ''&) = default;'',
              ''    '' @ name @ ''('' @ name @ ''&&) = default;'',
              ''    '' @ name @ '' &operator =(const '' @ name @ ''&) = default;'',
              ''    '' @ name @ '' &operator =('' @ name @ ''&&) = default;'',
              [],
              ''    void ToBinary(bbox::enc::ToBinary &m) const;'',
              ''    void FromBinary(bbox::enc::FromBinary &m);'',
              ''    void ToTextFormat(bbox::enc::ToTextFormat &m) const;'',
              ''    void FromTextFormat(bbox::enc::FromTextFormat &m);'',
              [],
              ''    bool operator ==(const '' @ name @ '' &other) const'',
              ''    {'']
           @ (if fds = [] then out_lines [''        return true;'']
              else out_lines [compare_fields ''        return '' (endl @ ''            && '') ''=='' fds @ '';''])
           @ out_lines
             [''    }'',
              [],
              ''    bool operator !=(const '' @ name @ '' &other) const'',
              ''    {'']
           @ (if fds = [] then out_lines [''        return false;'']
              else out_lines [compare_fields ''        return '' (endl @ ''            || '') ''!='' fds @ '';''])
           @ out_lines [''    }'']
           @ (if fds \<noteq> [] then
                out_lines ([] # map (\<lambda>f. ''    '' @ TypeName_ToString (fd_type f) @ '' '' @ fd_text f @ '';'') fds)
              else [])
           @ (if is_message then
                out_lines [[], ''    static bbox::enc::MsgTypeLibrary::Registration<'' @ name @ ''> g_msg_registration;'']
              else [])
           @ out_lines [''};'', []]
           @ GenerateCppNamespaceClose ns
           @ GenerateCppHeaderFooter ns ty))))"

definition generate_marshaling :: "field list \<Rightarrow> string \<Rightarrow> bool \<Rightarrow> string" where
  "generate_marshaling fds cmd text_format = out_lines
     (''{''
      # (if text_format then [''    m.StartStructure();''] else [])
      @ map (\<lambda>f. ''    m.'' @ cmd @ ''(''
               @ (if text_format then ''\"'' @ fd_text f @ ''\", '' else [])
               @ fd_text f @ '');'') fds
      @ (if text_format then [''    m.CompleteStructure();''] else [])
      @ (if \<not> text_format \<and> fds = [] then [''    (void)m;''] else [])
      @ [''}'', []])"

definition GenerateCppSource :: "compiler \<Rightarrow> nat \<Rightarrow> bool \<Rightarrow> field list \<Rightarrow> string res" where
  "GenerateCppSource c p is_message fds =
     (let ty = ty_at c p; ns = ns_of c p; name = ty_text ty
      in bind_res (GenerateCppSourceHeader ns ty ''struct'') (\<lambda>hdr.
         Inr (hdr
           @ out_lines [''#include <'' @ ns_prefix ''/'' ns @ name @ ''.h>'', []]
           @ GenerateCppNamespaceOpen ns
           @ out_lines [''void '' @ name @ ''::ToBinary(bbox::enc::ToBinary &m) const'']
           @ generate_marshaling fds ''Write'' False
           @ out_lines [''void '' @ name @ ''::FromBinary(bbox::enc::FromBinary &m)'']
           @ generate_marshaling fds ''Read'' False
           @ out_lines [''void '' @ name @ ''::ToTextFormat(bbox::enc::ToTextFormat &m) const'']
           @ generate_marshaling fds ''AddNamedValue'' True
           @ out_lines [''void '' @ name @ ''::FromTextFormat(bbox::enc::FromTextFormat &m)'']
           @ generate_marshaling fds ''DecodeNamedValue'' True
           @ (if is_message then out_lines
                [''bbox::enc::MsgTypeLibrary::Registration<'' @ name @ ''>'',
                 ''    '' @ name @ ''::g_msg_registration(\"''
                   @ names_ToString (ns_name ns) @ ''::'' @ name
                   @ ''\", []() { return new_message<''
                   @ names_ToString (ns_name ns) @ ''::'' @ name @ ''>(); });'',
                 []]
              else [])
           @ GenerateCppNamespaceClose ns)))"

definition typescript_references :: "compiler \<Rightarrow> type_instance list \<Rightarrow> string" where
  "typescript_references c is =
     (let references = fold (AddTypescriptReferences c) is []
      in out_lines (map fst references) @ (if references \<noteq> [] then endl else []))"

definition GenerateTypescript :: "compiler \<Rightarrow> nat \<Rightarrow> bool \<Rightarrow> field list \<Rightarrow> string res" where
  "GenerateTypescript c p is_message fds =
     (let ty = ty_at c p; ns = ns_of c p; name = ty_text ty
      in bind_res (field_instances fds) (\<lambda>is.
         Inr (typescript_references c is
           @ out_lines
             [''namespace '' @ separated ''.'' (map tok_contents (ns_name ns)),
              ''{'',
              ''    export class '' @ name
                @ (if is_message then '' extends bbox.enc.MsgAnyPtr'' else []),
              ''    {'',
              ''        static TYPE: bbox.enc.Type = bbox.enc.TypeLibrary.simpleStructure(\"''
                @ names_ToString (ns_name ns) @ ''::'' @ name @ ''\", '' @ name @ '')'']
           @ out_lines (map (\<lambda>(f, i). ''            .addMember(\"'' @ fd_text f @ ''\", ''
                @ GetTypescriptTypeLibraryConstructor c i @ '')'') (zip fds is))
           @ out_lines [''            ;'', []]
           @ (if fds \<noteq> [] then out_lines (map (\<lambda>(f, i). ''        public '' @ fd_text f @ '': ''
                @ GetTypescriptTypeName c i @ '';'') (zip fds is) @ [[]])
              else [])
           @ out_lines [''        constructor()'', ''        {'']
           @ (if is_message then out_lines [''            super('' @ name @ ''.TYPE);''] else [])
           @ out_lines (map (\<lambda>(f, i). ''            this.'' @ fd_text f @ '' = ''
                @ GetTypescriptDefaultValue c i @ '';'') (zip fds is))
           @ out_lines [''        }'', ''    };'', ''}''])))"

type_synonym outputs = "(string, string) smap"

definition struct_GenerateOutputs
  :: "compiler \<Rightarrow> nat \<Rightarrow> bool \<Rightarrow> field list \<Rightarrow> string \<Rightarrow> language \<Rightarrow> outputs \<Rightarrow> outputs res" where
  "struct_GenerateOutputs c p is_message fds path l outs =
     (let base_path = path @ ''/'' @ ty_text (ty_at c p)
      in case l of
           CPP \<Rightarrow> bind_res (GenerateCppHeader c p is_message fds) (\<lambda>h.
                  bind_res (GenerateCppSource c p is_message fds) (\<lambda>s.
                    Inr (smap_assign (base_path @ ''.cpp'') s (smap_assign (base_path @ ''.h'') h outs))))
         | TYPESCRIPT \<Rightarrow> bind_res (GenerateTypescript c p is_message fds) (\<lambda>t.
                    Inr (smap_assign (base_path @ ''.ts'') t outs)))"

text \<open>\<open>GenerateOutputs\<close> of a type (enumerations and external types write nothing), of a
  namespace, and of the library.\<close>

definition type_GenerateOutputs :: "compiler \<Rightarrow> string \<Rightarrow> language \<Rightarrow> nat \<Rightarrow> outputs \<Rightarrow> outputs res" where
  "type_GenerateOutputs c path l p outs = (case ty_kind (ty_at c p) of
       StructKind is_message fds \<Rightarrow> struct_GenerateOutputs c p is_message fds path l outs
     | EnumKind \<Rightarrow> Inr outs
     | ExternKind \<Rightarrow> Inr outs)"

definition namespace_GenerateOutputs :: "compiler \<Rightarrow> nat \<Rightarrow> outputs \<Rightarrow> outputs res" where
  "namespace_GenerateOutputs c p = fold_res (\<lambda>(l, path).
       fold_res (\<lambda>(_, q). type_GenerateOutputs c path l q) (ns_types (ns_at c p)))
     (ns_languages (ns_at c p))"

definition generate_library :: "compiler \<Rightarrow> outputs \<Rightarrow> outputs res" where
  "generate_library c = fold_res (\<lambda>(_, p). namespace_GenerateOutputs c p) (c_lib c)"

end
