(* ===== verification/ParserLogic.thy ===== *)
theory ParserLogic
  imports Frame
begin

section \<open>Reasoning about parsers that report errors\<close>

text \<open>
  The shape of the recursive-descent parsers of the code: a function returns \<open>false\<close> once it
  has reported an error (here: the value None), and its callers return at once
  (\<open>if (!f()) return false;\<close>, here \<open>p_bind\<close>). The locale gives the rules for one combined
  judgement: from a well-formed state, a computation only ends in the given fault, or keeps
  the state well-formed and either has reported an error or has consumed at least \<open>k\<close> units
  of the input and established its postcondition. The bound \<open>b\<close> on the remaining input is
  what the fuel of a loop is compared with.
\<close>

type_synonym ('s, 'a) parsing = "'s \<Rightarrow> ('a option \<times> 's) res"

definition p_return :: "'a \<Rightarrow> ('s, 'a) parsing" where
  "p_return x s = Inr (Some x, s)"

definition p_fail :: "('s, 'a) parsing" where
  "p_fail s = Inr (None, s)"

definition p_fault :: "fault \<Rightarrow> ('s, 'a) parsing" where
  "p_fault e s = Inl e"

definition p_bind :: "('s, 'a) parsing \<Rightarrow> ('a \<Rightarrow> ('s, 'b) parsing) \<Rightarrow> ('s, 'b) parsing" where
  "p_bind f g s = bind_res (f s) (\<lambda>(r, s'). case r of None \<Rightarrow> Inr (None, s') | Some x \<Rightarrow> g x s')"

abbreviation p_then :: "('s, unit) parsing \<Rightarrow> ('s, 'b) parsing \<Rightarrow> ('s, 'b) parsing" where
  "p_then f g \<equiv> p_bind f (\<lambda>_. g)"

definition stable :: "('s \<Rightarrow> 's \<Rightarrow> bool) \<Rightarrow> ('s \<Rightarrow> bool) \<Rightarrow> bool" where
  "stable R P \<longleftrightarrow> (\<forall>s t. P s \<longrightarrow> R s t \<longrightarrow> P t)"

lemma stable_const [simp]: "stable R (\<lambda>_. c)"
  by (simp add: stable_def)

lemma stable_conj: "stable R P \<Longrightarrow> stable R Q \<Longrightarrow> stable R (\<lambda>s. P s \<and> Q s)"
  by (auto simp: stable_def)

locale parsing_logic = frame step
  for step :: "'s \<Rightarrow> 's \<Rightarrow> bool" +
  fixes ok :: "'s \<Rightarrow> bool"
    and left :: "'s \<Rightarrow> nat"
    and errs :: "'s \<Rightarrow> nat"
    and dead :: fault
  assumes step_left: "step s t \<Longrightarrow> left t \<le> left s"
    and step_errs: "step s t \<Longrightarrow> errs s \<le> errs t"
begin

definition meets :: "('s \<Rightarrow> bool) \<Rightarrow> nat \<Rightarrow> ('s, 'a) parsing \<Rightarrow> nat \<Rightarrow> ('a \<Rightarrow> 's \<Rightarrow> bool) \<Rightarrow> bool" where
  "meets P b f k Q \<longleftrightarrow> (\<forall>s. ok s \<longrightarrow> P s \<longrightarrow> left s < b \<longrightarrow>
     (case f s of
        Inl e \<Rightarrow> e = dead
      | Inr (r, t) \<Rightarrow> ok t \<and> step s t \<and>
          (case r of None \<Rightarrow> errs s < errs t | Some x \<Rightarrow> left t + k \<le> left s \<and> Q x t)))"

lemma meetsI:
  assumes "\<And>s. ok s \<Longrightarrow> P s \<Longrightarrow> left s < b \<Longrightarrow>
     (case f s of
        Inl e \<Rightarrow> e = dead
      | Inr (r, t) \<Rightarrow> ok t \<and> step s t \<and>
          (case r of None \<Rightarrow> errs s < errs t | Some x \<Rightarrow> left t + k \<le> left s \<and> Q x t))"
  shows "meets P b f k Q"
  using assms by (simp add: meets_def)

lemma meetsD:
  assumes "meets P b f k Q" and "ok s" and "P s" and "left s < b"
  shows "f s = Inl e \<Longrightarrow> e = dead"
    and "f s = Inr (r, t) \<Longrightarrow> ok t \<and> step s t"
    and "f s = Inr (None, t) \<Longrightarrow> errs s < errs t"
    and "f s = Inr (Some x, t) \<Longrightarrow> left t + k \<le> left s \<and> Q x t"
  using assms unfolding meets_def by (force split: sum.splits prod.splits option.splits)+

lemma meets_weaken:
  assumes "meets P b f k Q"
    and "\<And>s. P' s \<Longrightarrow> P s" and "b' \<le> b" and "k' \<le> k" and "\<And>x t. Q x t \<Longrightarrow> Q' x t"
  shows "meets P' b' f k' Q'"
proof (rule meetsI)
  fix s
  assume "ok s" "P' s" "left s < b'"
  then have "ok s" "P s" "left s < b" using assms(2,3) by auto
  from meetsD [OF assms(1) this] show
    "case f s of Inl e \<Rightarrow> e = dead
      | Inr (r, t) \<Rightarrow> ok t \<and> step s t \<and>
          (case r of None \<Rightarrow> errs s < errs t | Some x \<Rightarrow> left t + k' \<le> left s \<and> Q' x t)"
    using assms(4,5) by (auto split: sum.splits option.splits)
qed

lemma meets_zero: "meets P 0 f k Q"
  by (rule meetsI) simp

lemma meets_return: "(\<And>s. P s \<Longrightarrow> Q x s) \<Longrightarrow> k = 0 \<Longrightarrow> meets P b (p_return x) k Q"
  by (rule meetsI) (simp add: p_return_def R_refl)

lemma meets_if:
  "(c \<Longrightarrow> meets P b f k Q) \<Longrightarrow> (\<not> c \<Longrightarrow> meets P b g k Q) \<Longrightarrow> meets P b (if c then f else g) k Q"
  by simp

lemma meets_bind:
  assumes f: "meets P b f i Q" and st: "stable step P"
    and g: "\<And>x. meets (\<lambda>s. Q x s \<and> P s) (b - i) (g x) (k - i) R"
  shows "meets P b (p_bind f g) k R"
proof (rule meetsI)
  fix s
  assume s: "ok s" "P s" "left s < b"
  note d = meetsD [OF f s]
  show "case p_bind f g s of Inl e \<Rightarrow> e = dead
      | Inr (r, t) \<Rightarrow> ok t \<and> step s t \<and>
          (case r of None \<Rightarrow> errs s < errs t | Some x \<Rightarrow> left t + k \<le> left s \<and> R x t)"
  proof (cases "f s")
    case (Inl e)
    then show ?thesis using d(1) by (simp add: p_bind_def)
  next
    case (Inr rt)
    obtain r t where fs: "f s = Inr (r, t)" using Inr by (cases rt) auto
    show ?thesis
    proof (cases r)
      case None
      then show ?thesis using d(2,3) fs by (auto simp: p_bind_def)
    next
      case (Some x)
      have t: "ok t" "step s t" "left t + i \<le> left s" "Q x t"
        using d(2,4) fs Some by auto
      then have "Q x t \<and> P t" "left t < b - i"
        using s st unfolding stable_def by auto
      note e = meetsD [OF g \<open>ok t\<close> this]
      have eq: "p_bind f g s = g x t" by (simp add: p_bind_def fs Some)
      show ?thesis
      proof (cases "g x t")
        case (Inl e')
        then show ?thesis using e(1) eq by simp
      next
        case (Inr ru)
        obtain r' u where gt: "g x t = Inr (r', u)" using Inr by (cases ru) auto
        have "ok u" "step s u" "errs s \<le> errs t"
          using e(2) [OF gt] t R_trans step_errs by blast+
        moreover have "errs t < errs u" if "r' = None" using e(3) gt that by simp
        moreover have "left u + k \<le> left s \<and> R y u" if "r' = Some y" for y
          using e(4) [of y u] gt that t(3) by auto
        ultimately show ?thesis
          using eq gt by (auto split: option.splits)
      qed
    qed
  qed
qed

text \<open>The sequencing rule as it is used: the first part is proved once, for a weaker
  precondition and a larger bound.\<close>

lemma meets_seq:
  assumes "meets P0 b0 f i Q" and "stable step P" and "\<And>s. P s \<Longrightarrow> P0 s" and "b \<le> b0"
    and "\<And>x. meets (\<lambda>s. Q x s \<and> P s) (b - i) (g x) (k - i) R"
  shows "meets P b (p_bind f g) k R"
proof (rule meets_bind [OF _ assms(2,5)])
  show "meets P b f i Q"
    by (rule meets_weaken [OF assms(1,3,4)]) auto
qed

text \<open>A computation that reports an error and returns \<open>false\<close> meets every postcondition.\<close>

lemma meets_report:
  assumes "meets P b f 0 (\<lambda>_ _. False)"
  shows "meets P b f k Q"
proof (rule meetsI)
  fix s
  assume s: "ok s" "P s" "left s < b"
  show "case f s of Inl e \<Rightarrow> e = dead
      | Inr (r, t) \<Rightarrow> ok t \<and> step s t \<and>
          (case r of None \<Rightarrow> errs s < errs t | Some x \<Rightarrow> left t + k \<le> left s \<and> Q x t)"
    using meetsD [OF assms s] by (auto split: sum.splits option.splits)
qed

text \<open>A computation that never fails and leaves the input alone.\<close>

lemma meets_op:
  assumes "\<And>s. ok s \<Longrightarrow> P s \<Longrightarrow> \<exists>x t. f s = Inr (Some x, t) \<and> ok t \<and> step s t \<and> left t = left s \<and> Q x t"
  shows "meets P b f 0 Q"
  by (rule meetsI) (use assms in \<open>fastforce\<close>)

end

end
