(* ===== verification/IdlInvariant.thy ===== *)
theory IdlInvariant
  imports IdlGenerate ParserLogic
begin

section \<open>The invariant of the compiler's objects\<close>

text \<open>
  Every pointer leads to an object, every token kept in an object can be reported (it is not
  the end of its file), and each map is sorted and holds objects of the right owner. Every
  operation of the library preserves this, never hits a null pointer or an assertion, and
  only adds objects and errors.
\<close>

definition good_tok :: "token \<Rightarrow> bool" where
  "good_tok t \<longleftrightarrow> token_ok t \<and> tok_type t \<noteq> END_OF_FILE"

definition ident_tok :: "token \<Rightarrow> bool" where
  "ident_tok t \<longleftrightarrow> good_tok t \<and> tok_type t = IDENTIFIER"

definition names_ok :: "token list \<Rightarrow> bool" where
  "names_ok toks \<longleftrightarrow> toks \<noteq> [] \<and> (\<forall>t \<in> set toks. ident_tok t)"

fun tn_ok :: "type_name \<Rightarrow> bool" where
  "tn_ok (TypeName base params) \<longleftrightarrow> names_ok base \<and>
     (case params of None \<Rightarrow> True | Some ps \<Rightarrow> list_all tn_ok ps)"

fun inst_ok :: "nat \<Rightarrow> type_instance \<Rightarrow> bool" where
  "inst_ok n (SimpleTypeInstance t l d) \<longleftrightarrow> True"
| "inst_ok n (VectorTypeInstance i) \<longleftrightarrow> inst_ok n i"
| "inst_ok n (TypePtr q) \<longleftrightarrow> q < n"

definition field_ok :: "nat \<Rightarrow> field \<Rightarrow> bool" where
  "field_ok n f \<longleftrightarrow> tn_ok (fd_type f) \<and> good_tok (fd_name f)
     \<and> (case fd_instance f of None \<Rightarrow> True | Some i \<Rightarrow> inst_ok n i)"

fun kind_fields :: "type_kind \<Rightarrow> field list" where
  "kind_fields (StructKind m fds) = fds"
| "kind_fields EnumKind = []"
| "kind_fields ExternKind = []"

definition is_struct :: "type_kind \<Rightarrow> bool" where
  "is_struct k \<longleftrightarrow> (case k of StructKind _ _ \<Rightarrow> True | _ \<Rightarrow> False)"

definition type_ok :: "compiler \<Rightarrow> idl_type \<Rightarrow> bool" where
  "type_ok c ty \<longleftrightarrow> ty_ns ty < length (c_namespaces c) \<and> ident_tok (ty_name ty)
     \<and> (\<forall>f \<in> set (kind_fields (ty_kind ty)). field_ok (length (c_types c)) f)"

definition ns_ok :: "compiler \<Rightarrow> nat \<Rightarrow> idl_namespace \<Rightarrow> bool" where
  "ns_ok c p ns \<longleftrightarrow> names_ok (ns_name ns) \<and> smap_ok (ns_types ns) \<and> smap_ok (ns_languages ns)
     \<and> (\<forall>(k, q) \<in> set (ns_types ns). q < length (c_types c) \<and> ty_ns (ty_at c q) = p
           \<and> tok_contents (ty_name (ty_at c q)) = k)"

definition comp_ok :: "compiler \<Rightarrow> bool" where
  "comp_ok c \<longleftrightarrow> (\<forall>ty \<in> set (c_types c). type_ok c ty)
     \<and> (\<forall>p < length (c_namespaces c). ns_ok c p (ns_at c p))
     \<and> smap_ok (c_lib c)
     \<and> (\<forall>(k, p) \<in> set (c_lib c). p < length (c_namespaces c) \<and> names_ToString (ns_name (ns_at c p)) = k)"

text \<open>What later states keep.\<close>

definition comp_le :: "compiler \<Rightarrow> compiler \<Rightarrow> bool" where
  "comp_le c d \<longleftrightarrow> (\<exists>es. c_errors d = c_errors c @ es)
     \<and> length (c_namespaces c) \<le> length (c_namespaces d) \<and> length (c_types c) \<le> length (c_types d)
     \<and> (\<forall>p < length (c_namespaces c). ns_name (ns_at d p) = ns_name (ns_at c p))
     \<and> (\<forall>q < length (c_types c). ty_ns (ty_at d q) = ty_ns (ty_at c q)
           \<and> ty_name (ty_at d q) = ty_name (ty_at c q)
           \<and> is_struct (ty_kind (ty_at d q)) = is_struct (ty_kind (ty_at c q)))"

lemma comp_le_refl: "comp_le c c"
  by (simp add: comp_le_def)

lemma comp_le_trans: "comp_le c d \<Longrightarrow> comp_le d e \<Longrightarrow> comp_le c e"
  unfolding comp_le_def by (clarsimp simp: less_le_trans)

interpretation growing_compiler: frame comp_le
  by unfold_locales (rule comp_le_refl, erule (1) comp_le_trans)

lemma comp_ok_init: "comp_ok (compiler_init es)"
  by (simp add: comp_ok_def compiler_init_def)

lemma comp_ok_errors: "comp_ok c \<Longrightarrow> comp_ok (c\<lparr>c_errors := es\<rparr>)"
  by (simp add: comp_ok_def ns_ok_def type_ok_def)

lemma comp_le_errors: "comp_le c (c\<lparr>c_errors := c_errors c @ es\<rparr>)"
  by (simp add: comp_le_def)

subsection \<open>Reporting an error\<close>

lemma AddError_good:
  assumes "good_tok t"
  shows "\<exists>es'. AddError t err es = Inr (es @ es') \<and> es' \<noteq> []"
  using assms
  by (auto simp: good_tok_def token_ok_def AddError_def AddError_at_def GetLineContents_def Let_def
      split: option.splits)

lemma c_AddError_good:
  assumes "good_tok t"
  shows "\<exists>es. c_AddError t err c = Inr (c\<lparr>c_errors := c_errors c @ es\<rparr>) \<and> es \<noteq> []"
  using AddError_good [OF assms, of err "c_errors c"] by (auto simp: c_AddError_def)

text \<open>What an operation that reports an error leaves behind.\<close>

definition reported :: "compiler \<Rightarrow> compiler \<Rightarrow> bool" where
  "reported c d \<longleftrightarrow> (\<exists>es. es \<noteq> [] \<and> d = c\<lparr>c_errors := c_errors c @ es\<rparr>)"

lemma reportedE:
  assumes "good_tok t"
  obtains d where "c_AddError t err c = Inr d" and "reported c d"
  using c_AddError_good [OF assms, of err c] by (auto simp: reported_def)

lemma reported_trans: "reported c d \<Longrightarrow> reported d e \<Longrightarrow> reported c e"
  by (auto simp: reported_def)

lemma reported_ok: "reported c d \<Longrightarrow> comp_ok c \<Longrightarrow> comp_ok d"
  by (auto simp: reported_def intro: comp_ok_errors)

lemma reported_le: "reported c d \<Longrightarrow> comp_le c d"
  by (auto simp: reported_def intro: comp_le_errors)

lemma reported_errors: "reported c d \<Longrightarrow> length (c_errors c) < length (c_errors d)"
  by (auto simp: reported_def)

lemma reported_same:
  "reported c d \<Longrightarrow> c_namespaces d = c_namespaces c \<and> c_types d = c_types c \<and> c_lib d = c_lib c"
  by (auto simp: reported_def)

lemma names_GetStartToken_ok:
  "names_ok toks \<Longrightarrow> \<exists>t. names_GetStartToken toks = Inr t \<and> good_tok t"
  by (cases toks) (auto simp: names_GetStartToken_def names_ok_def ident_tok_def)

lemma fail_at_ok:
  assumes "tn_ok tn"
  shows "\<exists>d. fail_at tn err c = Inr (None, d) \<and> reported c d"
proof -
  obtain t where "GetStartToken tn = Inr t" "good_tok t"
    using assms names_GetStartToken_ok by (cases tn) (auto simp: GetStartToken_def)
  then show ?thesis
    by (metis (no_types, lifting) bind_res_Inr fail_at_def reportedE)
qed

subsection \<open>Creating and registering\<close>

lemma type_ok_mono:
  "type_ok c ty \<Longrightarrow> length (c_namespaces c) \<le> length (c_namespaces d) \<Longrightarrow>
     length (c_types c) \<le> length (c_types d) \<Longrightarrow> type_ok d ty"
proof -
  have "inst_ok n i \<Longrightarrow> n \<le> m \<Longrightarrow> inst_ok m i" for n m i
    by (induction i) auto
  then have "field_ok n f \<Longrightarrow> n \<le> m \<Longrightarrow> field_ok m f" for n m f
    by (auto simp: field_ok_def split: option.splits)
  then show "type_ok c ty \<Longrightarrow> length (c_namespaces c) \<le> length (c_namespaces d) \<Longrightarrow>
     length (c_types c) \<le> length (c_types d) \<Longrightarrow> type_ok d ty"
    by (auto simp: type_ok_def ident_tok_def)
qed

lemma smap_insert_values:
  assumes "\<forall>e \<in> set m. P e" and "P (k, v)"
  shows "\<forall>e \<in> set (fst (smap_insert k v m)). P e"
  using assms set_smap_insert [of k v m] by blast

lemma smap_find_set: "smap_find k m = Some v \<Longrightarrow> (k, v) \<in> set m"
  by (rule map_of_SomeD)

lemma CreateNamespace_ok:
  assumes ok: "comp_ok c" and name: "names_ok name"
  shows "\<exists>p d. CreateNamespace name c = Inr (p, d) \<and> comp_ok d \<and> comp_le c d
           \<and> p < length (c_namespaces d)"
proof -
  let ?p = "length (c_namespaces c)"
  let ?c1 = "c\<lparr>c_namespaces := c_namespaces c @ [\<lparr>ns_name = name, ns_types = [], ns_languages = []\<rparr>]\<rparr>"
  have ok1: "comp_ok ?c1"
    using ok name by (auto simp: comp_ok_def ns_ok_def nth_append less_Suc_eq
        elim!: type_ok_mono [of c] split: if_splits)
  have le1: "comp_le c ?c1"
    by (auto simp: comp_le_def nth_append)
  show ?thesis
  proof (cases "smap_find (names_ToString name) (c_lib c)")
    case None
    let ?d = "?c1\<lparr>c_lib := fst (smap_insert (names_ToString name) ?p (c_lib c))\<rparr>"
    have "comp_ok ?d"
      using ok1 smap_insert_values [of "c_lib c" "\<lambda>(k, p). p < length (c_namespaces ?d)
          \<and> names_ToString (ns_name (ns_at ?d p)) = k" "names_ToString name" ?p]
      by (auto simp: comp_ok_def smap_insert_ok type_ok_def ns_ok_def)
    moreover have "comp_le c ?d"
      using le1 by (simp add: comp_le_def)
    moreover have "CreateNamespace name c = Inr (?p, ?d)"
      using None by (simp add: CreateNamespace_def RegisterNamespace_def Let_def)
    ultimately show ?thesis by (intro exI conjI) auto
  next
    case (Some q)
    have q: "q < length (c_namespaces c)"
      using ok smap_find_set [OF Some] by (auto simp: comp_ok_def)
    have "names_ok (ns_name (ns_at ?c1 q))"
      using ok q by (simp add: comp_ok_def ns_ok_def nth_append)
    then obtain t t' where t: "names_GetStartToken name = Inr t" "good_tok t"
        "names_GetStartToken (ns_name (ns_at ?c1 q)) = Inr t'" "good_tok t'"
      using name names_GetStartToken_ok by metis
    obtain d1 where d1: "c_AddError t (Format ''Duplicate namespace \"%s\"''
        [ArgStr (names_ToString name)]) ?c1 = Inr d1" "reported ?c1 d1"
      using reportedE [OF t(2)] by blast
    obtain d2 where d2: "c_AddError t' ''Originally defined here'' d1 = Inr d2" "reported d1 d2"
      using reportedE [OF t(4)] by blast
    have "CreateNamespace name c = Inr (?p, d2)"
      using Some t d1 d2 by (simp add: CreateNamespace_def RegisterNamespace_def Let_def)
    moreover have "reported ?c1 d2"
      using d1 d2 reported_trans by blast
    ultimately show ?thesis
      using ok1 le1 reported_ok reported_le reported_same comp_le_trans
      by (intro exI [of _ ?p] exI [of _ d2]) fastforce
  qed
qed

lemma comp_okD:
  assumes "comp_ok c"
  shows "q < length (c_types c) \<Longrightarrow> type_ok c (ty_at c q)"
    and "p < length (c_namespaces c) \<Longrightarrow> ns_ok c p (ns_at c p)"
    and "smap_find k (c_lib c) = Some p \<Longrightarrow> p < length (c_namespaces c)"
    and "p < length (c_namespaces c) \<Longrightarrow> smap_find k (ns_types (ns_at c p)) = Some q
           \<Longrightarrow> q < length (c_types c)"
  using assms by (auto simp: comp_ok_def ns_ok_def dest!: smap_find_set)

lemma RegisterType_ok:
  assumes ok: "comp_ok c" and q: "q < length (c_types c)"
  shows "\<exists>d. RegisterType q c = Inr d \<and> comp_ok d \<and> comp_le c d \<and> c_types d = c_types c"
proof -
  let ?p = "ty_ns (ty_at c q)" and ?name = "tok_contents (ty_name (ty_at c q))"
  have ty: "?p < length (c_namespaces c)" "good_tok (ty_name (ty_at c q))"
    using comp_okD(1) [OF ok q] by (simp_all add: type_ok_def ident_tok_def)
  show ?thesis
  proof (cases "smap_find ?name (ns_types (ns_at c ?p))")
    case None
    let ?ns = "(ns_at c ?p)\<lparr>ns_types := fst (smap_insert ?name q (ns_types (ns_at c ?p)))\<rparr>"
    let ?d = "c\<lparr>c_namespaces := (c_namespaces c)[?p := ?ns]\<rparr>"
    have "ns_ok ?d ?p ?ns"
      using comp_okD(2) [OF ok ty(1)] q
        smap_insert_values [of "ns_types (ns_at c ?p)" "\<lambda>(k, q). q < length (c_types c)
          \<and> ty_ns (ty_at c q) = ?p \<and> tok_contents (ty_name (ty_at c q)) = k" ?name q]
      by (auto simp: ns_ok_def smap_insert_ok)
    then have "comp_ok ?d"
      using ok ty(1) by (auto simp: comp_ok_def type_ok_def ns_ok_def nth_list_update split: if_splits)
    moreover have "comp_le c ?d"
      using ty(1) by (simp add: comp_le_def nth_list_update)
    ultimately show ?thesis
      using None by (simp add: RegisterType_def Let_def)
  next
    case (Some r)
    then have "good_tok (ty_name (ty_at c r))"
      using comp_okD(1) [OF ok] comp_okD(4) [OF ok ty(1)] by (auto simp: type_ok_def ident_tok_def)
    moreover obtain d1 where d1: "c_AddError (ty_name (ty_at c q)) (Format ''Duplicate type \"%s\"''
        [ArgStr ?name]) c = Inr d1" "reported c d1"
      using reportedE [OF ty(2)] by blast
    ultimately obtain d2 where d2:
      "c_AddError (ty_name (ty_at c r)) ''Originally defined here'' d1 = Inr d2" "reported d1 d2"
      using reportedE by blast
    have "reported c d2"
      using d1 d2 reported_trans by blast
    moreover have "RegisterType q c = Inr d2"
      using Some d1 d2 by (simp add: RegisterType_def Let_def)
    ultimately show ?thesis
      using ok reported_ok reported_le reported_same by blast
  qed
qed

lemma create_type_ok:
  assumes ok: "comp_ok c" and p: "p < length (c_namespaces c)" and name: "ident_tok name"
    and fds: "kind_fields kind = []"
  shows "\<exists>q d. create_type p name kind c = Inr (q, d) \<and> comp_ok d \<and> comp_le c d
           \<and> q < length (c_types d) \<and> is_struct (ty_kind (ty_at d q)) = is_struct kind"
proof -
  let ?q = "length (c_types c)"
  let ?c1 = "c\<lparr>c_types := c_types c @ [\<lparr>ty_ns = p, ty_name = name, ty_kind = kind\<rparr>]\<rparr>"
  have ok1: "comp_ok ?c1"
  proof -
    have "type_ok ?c1 \<lparr>ty_ns = p, ty_name = name, ty_kind = kind\<rparr>"
      using p name fds by (simp add: type_ok_def)
    moreover have "ns_ok ?c1 p' ns" if "ns_ok c p' ns" for p' ns
      using that by (auto simp: ns_ok_def nth_append)
    ultimately show ?thesis
      using ok type_ok_mono [of c _ ?c1] by (auto simp: comp_ok_def)
  qed
  have le1: "comp_le c ?c1"
    by (simp add: comp_le_def nth_append)
  obtain d where d: "RegisterType ?q ?c1 = Inr d" "comp_ok d" "comp_le ?c1 d" "c_types d = c_types ?c1"
    using RegisterType_ok [OF ok1, of ?q] by auto
  moreover have "create_type p name kind c = Inr (?q, d)"
    using d(1) by (simp add: create_type_def Let_def)
  ultimately show ?thesis
    using comp_le_trans [OF le1] by (intro exI [of _ ?q] exI [of _ d]) simp
qed

lemma AddField_ok:
  assumes ok: "comp_ok c" and q: "q < length (c_types c)" and "tn_ok type" and "good_tok name"
  shows "comp_ok (AddField q type name c)" and "comp_le c (AddField q type name c)"
proof -
  let ?d = "AddField q type name c"
  have same: "c_namespaces ?d = c_namespaces c" "c_lib ?d = c_lib c" "c_errors ?d = c_errors c"
      "length (c_types ?d) = length (c_types c)"
      "\<And>r. ty_ns (ty_at ?d r) = ty_ns (ty_at c r) \<and> ty_name (ty_at ?d r) = ty_name (ty_at c r)
        \<and> is_struct (ty_kind (ty_at ?d r)) = is_struct (ty_kind (ty_at c r))"
    using q by (auto simp: AddField_def nth_list_update is_struct_def split: type_kind.splits)
  then show "comp_le c ?d"
    by (simp add: comp_le_def)
  have "type_ok ?d (ty_at ?d r)" if "r < length (c_types c)" for r
  proof -
    have "set (kind_fields (ty_kind (ty_at ?d r)))
        \<subseteq> insert \<lparr>fd_type = type, fd_name = name, fd_instance = None\<rparr> (set (kind_fields (ty_kind (ty_at c r))))"
      using q by (auto simp: AddField_def nth_list_update split: type_kind.splits)
    moreover have "field_ok (length (c_types ?d)) \<lparr>fd_type = type, fd_name = name, fd_instance = None\<rparr>"
      using assms by (simp add: field_ok_def)
    ultimately show ?thesis
      using comp_okD(1) [OF ok that] same unfolding type_ok_def by auto
  qed
  then show "comp_ok ?d"
    using ok same by (auto simp: comp_ok_def ns_ok_def all_set_conv_all_nth [of "c_types ?d"])
qed

lemma AddLanguage_ok:
  assumes ok: "comp_ok c" and p: "p < length (c_namespaces c)"
  shows "comp_ok (AddLanguage p l path c)" and "comp_le c (AddLanguage p l path c)"
  using assms
  by (auto simp: comp_ok_def comp_le_def type_ok_def ns_ok_def AddLanguage_def nth_list_update
      smap_assign_ok)

subsection \<open>Validation\<close>

text \<open>Validation only adds errors and sets instances; it keeps every name and type.\<close>

definition field_le :: "field \<Rightarrow> field \<Rightarrow> bool" where
  "field_le f g \<longleftrightarrow> fd_type g = fd_type f \<and> fd_name g = fd_name f
     \<and> (fd_instance f \<noteq> None \<longrightarrow> fd_instance g \<noteq> None)"

fun kind_le :: "type_kind \<Rightarrow> type_kind \<Rightarrow> bool" where
  "kind_le (StructKind m fds) (StructKind m' fds') \<longleftrightarrow> m = m' \<and> list_all2 field_le fds fds'"
| "kind_le k k' \<longleftrightarrow> k = k'"

definition val_le :: "compiler \<Rightarrow> compiler \<Rightarrow> bool" where
  "val_le c d \<longleftrightarrow> (\<exists>es. c_errors d = c_errors c @ es) \<and> c_namespaces d = c_namespaces c
     \<and> c_lib d = c_lib c \<and> length (c_types d) = length (c_types c)
     \<and> (\<forall>q < length (c_types c). ty_ns (ty_at d q) = ty_ns (ty_at c q)
           \<and> ty_name (ty_at d q) = ty_name (ty_at c q) \<and> kind_le (ty_kind (ty_at c q)) (ty_kind (ty_at d q)))"

definition resolved :: "compiler \<Rightarrow> nat \<Rightarrow> bool" where
  "resolved c q \<longleftrightarrow> (\<forall>f \<in> set (kind_fields (ty_kind (ty_at c q))). fd_instance f \<noteq> None)"

lemma field_le_refl: "field_le f f"
  by (simp add: field_le_def)

lemma kind_le_refl: "kind_le k k"
  by (cases k) (auto simp: field_le_refl intro: list_all2_refl)

lemma kind_le_StructKind: "kind_le (StructKind m fds) k \<longleftrightarrow> (\<exists>fds'. k = StructKind m fds' \<and> list_all2 field_le fds fds')"
  by (cases k) auto

lemma fields_le_trans:
  "list_all2 field_le xs ys \<Longrightarrow> list_all2 field_le ys zs \<Longrightarrow> list_all2 field_le xs zs"
  by (rule list_all2_trans [of field_le field_le field_le xs ys zs]) (simp_all add: field_le_def)

lemma kind_le_trans: "kind_le a b \<Longrightarrow> kind_le b c \<Longrightarrow> kind_le a c"
proof (cases a)
  case (StructKind m fds)
  then show "kind_le a b \<Longrightarrow> kind_le b c \<Longrightarrow> ?thesis"
    by (auto simp: kind_le_StructKind) (metis fields_le_trans)
qed auto

lemma val_le_refl: "val_le c c"
  by (simp add: val_le_def kind_le_refl)

lemma val_le_trans: "val_le c d \<Longrightarrow> val_le d e \<Longrightarrow> val_le c e"
  unfolding val_le_def by (clarsimp simp: less_le_trans) (blast intro: kind_le_trans)

interpretation validating: frame val_le
  by unfold_locales (rule val_le_refl, erule (1) val_le_trans)

lemma reported_val_le: "reported c d \<Longrightarrow> val_le c d"
  by (auto simp: reported_def val_le_def kind_le_refl)

lemma resolved_val_le:
  assumes "resolved c q" and "val_le c d" and "q < length (c_types c)"
  shows "resolved d q"
proof -
  have "kind_le (ty_kind (ty_at c q)) (ty_kind (ty_at d q))"
    using assms by (simp add: val_le_def)
  have below: "\<exists>f \<in> set fds. field_le f g" if "list_all2 field_le fds fds'" "g \<in> set fds'" for fds fds' g
    using that by (metis in_set_conv_nth list_all2_conv_all_nth)
  show ?thesis
  proof (cases "ty_kind (ty_at c q)")
    case (StructKind m fds)
    then obtain fds' where d: "ty_kind (ty_at d q) = StructKind m fds'" "list_all2 field_le fds fds'"
      using \<open>kind_le _ _\<close> by (cases "ty_kind (ty_at d q)") auto
    have "fd_instance g \<noteq> None" if g: "g \<in> set fds'" for g
    proof -
      obtain f where "f \<in> set fds" "field_le f g"
        using below [OF d(2) g] by blast
      then show ?thesis
        using assms(1) StructKind by (auto simp: resolved_def field_le_def)
    qed
    then show ?thesis by (simp add: resolved_def d(1))
  qed (use \<open>kind_le _ _\<close> in \<open>auto simp: resolved_def dest: sym\<close>)
qed

lemma find_type_ok:
  assumes "comp_ok c" and "\<forall>(k, p) \<in> set m. p < length (c_namespaces c)"
    and "find_type name (c_namespaces c) m = Some q"
  shows "q < length (c_types c)"
  using assms(2,3)
  by (induction m) (auto split: option.splits dest: comp_okD(4) [OF assms(1)])

lemma ResolveType_ok:
  assumes ok: "comp_ok c" and tn: "tn_ok tn"
  shows "\<exists>r d. ResolveType tn c = Inr (r, d) \<and>
    (case r of None \<Rightarrow> reported c d | Some i \<Rightarrow> d = c \<and> inst_ok (length (c_types c)) i)"
  using ok tn
proof (induction tn c rule: ResolveType.induct)
  case (1 base params c)
  note fail = fail_at_ok [OF 1(3)]
  have param: "\<exists>r d. ResolveType p c = Inr (r, d) \<and>
      (case r of None \<Rightarrow> reported c d | Some i \<Rightarrow> d = c \<and> inst_ok (length (c_types c)) i)"
    if "names_ToString base = ''std::vector''" "params = Some [p]" for p
    using 1(1) [OF refl, of "[p]" p "[]"] that 1(2,3) by simp
  have lib: "q < length (c_types c)"
    if "find_type (names_ToString base) (c_namespaces c) (c_lib c) = Some q" for q
    by (rule find_type_ok [OF 1(2) _ that]) (use 1(2) in \<open>auto simp: comp_ok_def\<close>)
  consider (str) "names_ToString base = ''std::string''" | (bool) "names_ToString base = ''bool''"
    | (vec) "names_ToString base = ''std::vector''"
    | (other) "names_ToString base \<noteq> ''std::string''" "names_ToString base \<noteq> ''bool''"
        "names_ToString base \<noteq> ''std::vector''" by blast
  then show ?case
  proof cases
    case vec
    show ?thesis
    proof (cases "\<exists>p. params = Some [p]")
      case True
      then obtain p where p: "params = Some [p]" by blast
      from param [OF vec p] obtain r d where "ResolveType p c = Inr (r, d)"
        "case r of None \<Rightarrow> reported c d | Some i \<Rightarrow> d = c \<and> inst_ok (length (c_types c)) i" by blast
      then show ?thesis using vec p by (auto split: option.splits)
    next
      case False
      then have "ResolveType (TypeName base params) c = fail_at (TypeName base params)
          ''Type \"std::vector\" must have one template parameter'' c"
        using vec by (auto split: option.splits list.splits)
      then show ?thesis using fail by (metis option.case(1))
    qed
  next
    case other
    then show ?thesis
      using fail [of "Format ''Unknown type \"%s\"'' [ArgStr (TypeName_ToString (TypeName base params))]" c] lib
      by (cases "find_type (names_ToString base) (c_namespaces c) (c_lib c)") auto
  qed (use fail [of _ c] in \<open>cases params; fastforce\<close>)+
qed

lemma resolve_fields_ok:
  assumes ok: "comp_ok c" and fds: "\<forall>f \<in> set fds. field_ok (length (c_types c)) f"
  shows "\<exists>b fds' d. resolve_fields fds c = Inr ((b, fds'), d) \<and> list_all2 field_le fds fds'
     \<and> (\<forall>f \<in> set fds'. field_ok (length (c_types c)) f)
     \<and> (if b then d = c \<and> (\<forall>f \<in> set fds'. fd_instance f \<noteq> None) else reported c d)"
  using fds
proof (induction fds)
  case Nil
  show ?case
    by (intro exI [of _ True] exI [of _ "[]"] exI [of _ c]) simp
next
  case (Cons f fds)
  then have "tn_ok (fd_type f)" by (simp add: field_ok_def)
  from ResolveType_ok [OF ok this] obtain r d where r: "ResolveType (fd_type f) c = Inr (r, d)"
    "case r of None \<Rightarrow> reported c d | Some i \<Rightarrow> d = c \<and> inst_ok (length (c_types c)) i" by blast
  from Cons obtain b fds' e where rest: "resolve_fields fds c = Inr ((b, fds'), e)"
    "list_all2 field_le fds fds'" "\<forall>f \<in> set fds'. field_ok (length (c_types c)) f"
    "if b then e = c \<and> (\<forall>f \<in> set fds'. fd_instance f \<noteq> None) else reported c e"
    by auto
  show ?case
  proof (cases r)
    case None
    then show ?thesis
      using r Cons.prems field_le_refl by (auto intro: list_all2_refl)
  next
    case (Some i)
    then have "field_ok (length (c_types c)) (f\<lparr>fd_instance := Some i\<rparr>)"
      using r(2) Cons.prems by (simp add: field_ok_def)
    moreover have "field_le f (f\<lparr>fd_instance := Some i\<rparr>)"
      by (simp add: field_le_def)
    ultimately show ?thesis
      using r Some rest by auto
  qed
qed

lemma val_le_comp_ok:
  assumes "comp_ok c" and "val_le c d" and "\<forall>ty \<in> set (c_types d). type_ok d ty"
  shows "comp_ok d"
proof -
  have "ns_ok d p ns" if "ns_ok c p ns" for p ns
    using that assms(2) by (auto simp: ns_ok_def val_le_def)
  then show ?thesis
    using assms by (auto simp: comp_ok_def val_le_def)
qed

lemma type_Validate_ok:
  assumes ok: "comp_ok c" and q: "q < length (c_types c)"
  shows "\<exists>b d. type_Validate q c = Inr (b, d) \<and> comp_ok d \<and> val_le c d
     \<and> (if b then resolved d q else length (c_errors c) < length (c_errors d))"
proof -
  have ty: "type_ok c (ty_at c q)" by (rule comp_okD(1) [OF ok q])
  show ?thesis
  proof (cases "ty_kind (ty_at c q)")
    case (StructKind m fds)
    then have "\<forall>f \<in> set fds. field_ok (length (c_types c)) f"
      using ty by (simp add: type_ok_def)
    from resolve_fields_ok [OF ok this] obtain b fds' c1 where r:
      "resolve_fields fds c = Inr ((b, fds'), c1)" "list_all2 field_le fds fds'"
      "\<forall>f \<in> set fds'. field_ok (length (c_types c)) f"
      "if b then c1 = c \<and> (\<forall>f \<in> set fds'. fd_instance f \<noteq> None) else reported c c1" by blast
    let ?ty = "(ty_at c q)\<lparr>ty_kind := StructKind m fds'\<rparr>"
    let ?d = "c1\<lparr>c_types := (c_types c1)[q := (ty_at c1 q)\<lparr>ty_kind := StructKind m fds'\<rparr>]\<rparr>"
    have same: "c_types c1 = c_types c" "c_namespaces c1 = c_namespaces c" "c_lib c1 = c_lib c"
        "\<exists>es. c_errors c1 = c_errors c @ es"
      using r(4) by (auto simp: reported_def split: if_splits)
    have le: "val_le c ?d"
      using same r(2) StructKind kind_le_refl q by (auto simp: val_le_def nth_list_update)
    moreover have "comp_ok ?d"
    proof (rule val_le_comp_ok [OF ok le], rule ballI)
      fix t assume "t \<in> set (c_types ?d)"
      then have "t = ?ty \<or> t \<in> set (c_types c)"
        using set_update_subset_insert [of "c_types c1" q] same by fastforce
      then have "type_ok c t"
        using ok ty r(3) by (auto simp: comp_ok_def type_ok_def)
      then show "type_ok ?d t"
        using same by (auto elim: type_ok_mono)
    qed
    moreover have "if b then resolved ?d q else length (c_errors c) < length (c_errors ?d)"
      using r(4) q reported_errors [of c c1] by (auto simp: resolved_def split: if_splits)
    moreover have "type_Validate q c = Inr (b, ?d)"
      using StructKind r(1) by (simp add: type_Validate_def)
    ultimately show ?thesis by blast
  next
    case EnumKind
    then show ?thesis
      using ok by (simp add: type_Validate_def val_le_refl resolved_def ex_bool_eq)
  next
    case ExternKind
    obtain d where d: "c_AddError (ty_name (ty_at c q))
        ''extern types not yet supported in namespaces that generate Typescript output'' c = Inr d"
        "reported c d"
      using reportedE [of "ty_name (ty_at c q)"] ty by (auto simp: type_ok_def ident_tok_def)
    then show ?thesis
      using ExternKind ok reported_ok [OF d(2) ok] reported_val_le [OF d(2)] reported_errors [OF d(2)]
      by (cases "GeneratesLanguage (ty_ns (ty_at c q)) TYPESCRIPT c")
        (simp_all add: type_Validate_def val_le_refl resolved_def ex_bool_eq)
  qed
qed

lemma validate_all_ok:
  assumes v: "\<And>p c. comp_ok c \<Longrightarrow> pre p c \<Longrightarrow> \<exists>b d. v p c = Inr (b, d) \<and> comp_ok d \<and> val_le c d
       \<and> (if b then post p d else length (c_errors c) < length (c_errors d))"
    and pre: "\<And>p c d. pre p c \<Longrightarrow> val_le c d \<Longrightarrow> pre p d"
    and post: "\<And>p c d. pre p c \<Longrightarrow> post p c \<Longrightarrow> val_le c d \<Longrightarrow> post p d"
    and "comp_ok c" and "\<forall>(k, p) \<in> set m. pre p c"
  shows "\<exists>b d. validate_all v m c = Inr (b, d) \<and> comp_ok d \<and> val_le c d
     \<and> (if b then \<forall>(k, p) \<in> set m. post p d else length (c_errors c) < length (c_errors d))"
  using assms(4,5)
proof (induction m arbitrary: c)
  case Nil
  then show ?case by (simp add: val_le_refl ex_bool_eq)
next
  case (Cons e m)
  obtain k p where e: "e = (k, p)" by fastforce
  with Cons.prems have pp: "pre p c" by simp
  from v [OF Cons.prems(1) pp] obtain b c1 where 1: "v p c = Inr (b, c1)" "comp_ok c1" "val_le c c1"
    "if b then post p c1 else length (c_errors c) < length (c_errors c1)" by blast
  show ?case
  proof (cases b)
    case False
    then show ?thesis using 1 e by (simp add: ex_bool_eq)
  next
    case True
    have "\<forall>(k, p) \<in> set m. pre p c1"
      using Cons.prems(2) pre 1(3) by auto
    from Cons.IH [OF 1(2) this] obtain b' d where 2: "validate_all v m c1 = Inr (b', d)" "comp_ok d"
      "val_le c1 d" "if b' then \<forall>(k, p) \<in> set m. post p d else length (c_errors c1) < length (c_errors d)"
      by blast
    have "length (c_errors c) \<le> length (c_errors c1)"
      using 1(3) by (auto simp: val_le_def)
    moreover have "post p d"
      using post [OF pre [OF pp 1(3)] _ 2(3)] 1(4) True by simp
    ultimately show ?thesis
      using 1 2 True e val_le_trans [OF 1(3) 2(3)] by (auto split: if_splits)
  qed
qed

definition ns_resolved :: "compiler \<Rightarrow> nat \<Rightarrow> bool" where
  "ns_resolved c p \<longleftrightarrow> (\<forall>(k, q) \<in> set (ns_types (ns_at c p)). q < length (c_types c) \<and> resolved c q)"

lemma namespace_Validate_ok:
  assumes ok: "comp_ok c" and p: "p < length (c_namespaces c)"
  shows "\<exists>b d. namespace_Validate p c = Inr (b, d) \<and> comp_ok d \<and> val_le c d
     \<and> (if b then ns_resolved d p else length (c_errors c) < length (c_errors d))"
proof -
  have pre: "\<forall>(k, q) \<in> set (ns_types (ns_at c p)). q < length (c_types c)"
    using comp_okD(2) [OF ok p] by (auto simp: ns_ok_def)
  have "\<exists>b d. validate_all type_Validate (ns_types (ns_at c p)) c = Inr (b, d) \<and> comp_ok d \<and> val_le c d
     \<and> (if b then \<forall>(k, q) \<in> set (ns_types (ns_at c p)). q < length (c_types d) \<and> resolved d q
        else length (c_errors c) < length (c_errors d))"
  proof (rule validate_all_ok [where pre = "\<lambda>q c. q < length (c_types c)", OF _ _ _ ok pre])
    show "\<exists>b d. type_Validate q c = Inr (b, d) \<and> comp_ok d \<and> val_le c d \<and>
        (if b then q < length (c_types d) \<and> resolved d q else length (c_errors c) < length (c_errors d))"
      if "comp_ok c" "q < length (c_types c)" for q c
      using type_Validate_ok [OF that] that(2) by (auto simp: val_le_def split: if_splits)
    show "q < length (c_types d)" if "q < length (c_types c)" "val_le c d" for q c d
      using that by (simp add: val_le_def)
    show "q < length (c_types d) \<and> resolved d q"
      if "q < length (c_types c)" "q < length (c_types c) \<and> resolved c q" "val_le c d" for q c d
      using that resolved_val_le by (auto simp: val_le_def)
  qed
  then obtain b d where d: "validate_all type_Validate (ns_types (ns_at c p)) c = Inr (b, d)" "comp_ok d"
    "val_le c d" "if b then \<forall>(k, q) \<in> set (ns_types (ns_at c p)). q < length (c_types d) \<and> resolved d q
        else length (c_errors c) < length (c_errors d)"
    by blast
  moreover from this have "c_namespaces d = c_namespaces c" by (simp add: val_le_def)
  ultimately show ?thesis
    by (simp add: namespace_Validate_def ns_resolved_def)
qed

lemma validate_library_ok:
  assumes ok: "comp_ok c"
  shows "\<exists>b d. validate_library c = Inr (b, d) \<and> comp_ok d \<and> val_le c d
     \<and> (if b then \<forall>(k, p) \<in> set (c_lib d). ns_resolved d p
        else length (c_errors c) < length (c_errors d))"
proof -
  have pre: "\<forall>(k, p) \<in> set (c_lib c). p < length (c_namespaces c)"
    using ok by (auto simp: comp_ok_def)
  have stable: "ns_resolved d p" if "ns_resolved c p" "val_le c d" for c d p
  proof -
    have "q < length (c_types d) \<and> resolved d q" if "(k, q) \<in> set (ns_types (ns_at d p))" for k q
      using \<open>ns_resolved c p\<close> \<open>val_le c d\<close> that resolved_val_le [of c q d]
      by (auto simp: ns_resolved_def val_le_def)
    then show ?thesis by (auto simp: ns_resolved_def)
  qed
  have "\<exists>b d. validate_all namespace_Validate (c_lib c) c = Inr (b, d) \<and> comp_ok d \<and> val_le c d
     \<and> (if b then \<forall>(k, p) \<in> set (c_lib c). ns_resolved d p else length (c_errors c) < length (c_errors d))"
  proof (rule validate_all_ok [where pre = "\<lambda>p c. p < length (c_namespaces c)", OF _ _ _ ok pre])
    show "val_le c d \<Longrightarrow> p < length (c_namespaces d)" if "p < length (c_namespaces c)" for p c d
      using that by (simp add: val_le_def)
  qed (use namespace_Validate_ok stable in blast)+
  then obtain b d where "validate_all namespace_Validate (c_lib c) c = Inr (b, d)" "comp_ok d" "val_le c d"
    "if b then \<forall>(k, p) \<in> set (c_lib c). ns_resolved d p else length (c_errors c) < length (c_errors d)"
    by blast
  moreover from this have "c_lib d = c_lib c" by (simp add: val_le_def)
  ultimately show ?thesis by (simp add: validate_library_def)
qed

end
