(* ===== verification/IdlParser.thy ===== *)
theory IdlParser
  imports IdlTypes ParserLogic
begin

section \<open>The parser of the interface compiler\<close>

text \<open>
  \<open>Parser.cpp\<close>: recursive descent with one token of lookahead. A function of the code that
  returns \<open>false\<close> after it has reported an error is a computation whose value is None; the
  state is the tokenizer, the peeked token and the compiler objects built so far. The loops
  that run until a closing token and the recursion on template parameters take fuel, and
  \<open>Parser::ParseFile\<close> supplies one unit for each character of the file and one more.
\<close>

record parser =
  ps_toks :: tokenizer
  ps_peeked :: "token option"
  ps_comp :: compiler

type_synonym 'a parse = "(parser, 'a) parsing"

text \<open>\<open>PeekToken\<close> and \<open>NextToken\<close>.\<close>

definition PeekToken :: "parser \<Rightarrow> token \<times> parser" where
  "PeekToken s = (case ps_peeked s of
       Some t \<Rightarrow> (t, s)
     | None \<Rightarrow> (let (t, z) = tz_NextToken (ps_toks s)
               in (t, s\<lparr>ps_toks := z, ps_peeked := Some t\<rparr>)))"

definition NextToken :: "parser \<Rightarrow> token \<times> parser" where
  "NextToken s = (case ps_peeked s of
       Some t \<Rightarrow> (t, s\<lparr>ps_peeked := None\<rparr>)
     | None \<Rightarrow> (let (t, z) = tz_NextToken (ps_toks s) in (t, s\<lparr>ps_toks := z\<rparr>)))"

definition p_error :: "token \<Rightarrow> string \<Rightarrow> 'a parse" where
  "p_error t err s = bind_res (c_AddError t err (ps_comp s)) (\<lambda>c. Inr (None, s\<lparr>ps_comp := c\<rparr>))"

definition Expect :: "E_TYPE \<Rightarrow> token parse" where
  "Expect type s = (let (tok, s1) = NextToken s
     in if \<not> Matches tok type then
          p_error tok (Format ''Expected %s but found %s instead''
            [ArgStr (Token_c_str type), ArgStr (GetDescription tok)]) s1
        else Inr (Some tok, s1))"

abbreviation ExpectType :: "E_TYPE \<Rightarrow> unit parse" where
  "ExpectType type \<equiv> p_bind (Expect type) (\<lambda>_. p_return ())"

definition Expect_one_of :: "E_TYPE list \<Rightarrow> token parse" where
  "Expect_one_of types s = (let (tok, s1) = NextToken s
     in if \<exists>type \<in> set types. Matches tok type then Inr (Some tok, s1)
        else p_error tok (''Expected one of ['' @ separated '', '' (map Token_c_str types)
               @ ''] but found '' @ GetDescription tok @ '' instead'') s1)"

definition Try :: "E_TYPE \<Rightarrow> bool parse" where
  "Try type s = (let (tok, s1) = PeekToken s in Inr (Some (Matches tok type), s1))"

definition p_Peek :: "token parse" where
  "p_Peek s = (let (tok, s1) = PeekToken s in Inr (Some tok, s1))"

text \<open>Running an operation on the compiler objects.\<close>

definition p_comp :: "(compiler \<Rightarrow> ('a \<times> compiler) res) \<Rightarrow> 'a parse" where
  "p_comp f s = bind_res (f (ps_comp s)) (\<lambda>(x, c). Inr (Some x, s\<lparr>ps_comp := c\<rparr>))"

definition p_get :: "(compiler \<Rightarrow> 'a) \<Rightarrow> 'a parse" where
  "p_get f s = Inr (Some (f (ps_comp s)), s)"

definition p_set :: "(compiler \<Rightarrow> compiler) \<Rightarrow> unit parse" where
  "p_set f s = Inr (Some (), s\<lparr>ps_comp := f (ps_comp s)\<rparr>)"

subsection \<open>Names and types\<close>

fun ParseTypeNameList_loop :: "nat \<Rightarrow> token list \<Rightarrow> token list parse" where
  "ParseTypeNameList_loop 0 tokens = p_fault OutOfFuel"
| "ParseTypeNameList_loop (Suc n) tokens =
     p_bind (Expect IDENTIFIER) (\<lambda>t.
     p_bind (Try DOUBLE_COLON) (\<lambda>more.
       if \<not> more then p_return (tokens @ [t])
       else p_then (ExpectType DOUBLE_COLON) (ParseTypeNameList_loop n (tokens @ [t]))))"

abbreviation ParseTypeNameList :: "nat \<Rightarrow> token list parse" where
  "ParseTypeNameList n \<equiv> ParseTypeNameList_loop n []"

text \<open>\<open>ParseTypeName\<close> and its loop over the template parameters.\<close>

fun ParseTypeName :: "nat \<Rightarrow> type_name parse"
  and ParseTemplateParams :: "nat \<Rightarrow> type_name list \<Rightarrow> type_name list parse" where
  "ParseTypeName 0 = p_fault OutOfFuel"
| "ParseTypeName (Suc n) =
     p_bind (ParseTypeNameList (Suc n)) (\<lambda>base_name.
     p_bind (Try LESS_THAN) (\<lambda>template.
       if template then
         p_then (ExpectType LESS_THAN)
           (p_bind (ParseTemplateParams n []) (\<lambda>params.
              p_return (TypeName base_name (Some params))))
       else p_return (TypeName base_name None)))"
| "ParseTemplateParams 0 params = p_fault OutOfFuel"
| "ParseTemplateParams (Suc n) params =
     p_bind (ParseTypeName n) (\<lambda>param.
     p_bind (Expect_one_of [COMMA, GREATER_THAN]) (\<lambda>next_tok.
       if Matches next_tok GREATER_THAN then p_return (params @ [param])
       else ParseTemplateParams n (params @ [param])))"

subsection \<open>Files\<close>

text \<open>The attributes of a namespace, up to the opening brace.\<close>

definition ParseLanguage :: "token \<Rightarrow> language parse" where
  "ParseLanguage language_tok =
     (if Matches_str language_tok ''cpp'' then p_return CPP
      else if Matches_str language_tok ''ts'' then p_return TYPESCRIPT
      else p_error language_tok ''Expected \"cpp\" or \"ts\"'')"

fun ParseAttributes :: "nat \<Rightarrow> nat \<Rightarrow> unit parse" where
  "ParseAttributes 0 ns = p_fault OutOfFuel"
| "ParseAttributes (Suc n) ns =
     p_bind (Expect_one_of [OPEN_CURLY_BRACE, OPEN_SQUARE_BRACKET]) (\<lambda>tok.
       if Matches tok OPEN_CURLY_BRACE then p_return ()
       else
         p_bind (Expect IDENTIFIER) (\<lambda>attribute.
         if \<not> Matches_str attribute ''generate'' then
           p_error attribute ''Only \"generate\" attribute supported''
         else
           p_bind (Expect IDENTIFIER) (\<lambda>language_tok.
           p_bind (ParseLanguage language_tok) (\<lambda>l.
           p_bind (p_get (GeneratesLanguage ns l)) (\<lambda>dup.
           if dup then p_error language_tok ''Duplicate generate language''
           else
             p_bind (Expect STRING) (\<lambda>path.
             p_then (p_set (AddLanguage ns l (DecodeContentsAsString path)))
             (p_then (ExpectType CLOSE_SQUARE_BRACKET)
               (ParseAttributes n ns))))))))"

text \<open>The fields of a structure, up to (and not including) the closing brace.\<close>

fun ParseFields :: "nat \<Rightarrow> nat \<Rightarrow> unit parse" where
  "ParseFields 0 p = p_fault OutOfFuel"
| "ParseFields (Suc n) p =
     p_bind p_Peek (\<lambda>peek_tok.
       if Matches peek_tok CLOSE_CURLY_BRACE then p_return ()
       else if \<not> Matches peek_tok IDENTIFIER then
         p_bind (Expect_one_of [IDENTIFIER, CLOSE_CURLY_BRACE]) (\<lambda>_. p_fail)
       else
         p_bind (ParseTypeName (Suc n)) (\<lambda>type_name.
         p_bind (Expect IDENTIFIER) (\<lambda>field_tok.
         p_then (ExpectType SEMICOLON)
         (p_then (p_set (AddField p type_name field_tok))
           (ParseFields n p)))))"

definition ParseStruct :: "nat \<Rightarrow> nat \<Rightarrow> bool \<Rightarrow> unit parse" where
  "ParseStruct n ns is_message =
     p_bind (Expect IDENTIFIER) (\<lambda>name_tok.
     p_then (ExpectType OPEN_CURLY_BRACE)
     (p_bind (p_comp (CreateStruct ns name_tok is_message)) (\<lambda>p.
      p_then (ParseFields n p)
      (p_then (ExpectType CLOSE_CURLY_BRACE)
        (ExpectType SEMICOLON)))))"

definition ParseEnum :: "nat \<Rightarrow> unit parse" where
  "ParseEnum ns =
     p_bind (Expect IDENTIFIER) (\<lambda>name_tok.
     p_then (ExpectType OPEN_CURLY_BRACE)
     (p_then (ExpectType CLOSE_CURLY_BRACE)
     (p_then (ExpectType SEMICOLON)
       (p_bind (p_comp (CreateEnum ns name_tok)) (\<lambda>_. p_return ())))))"

definition ParseExtern :: "nat \<Rightarrow> unit parse" where
  "ParseExtern ns =
     p_bind (Expect IDENTIFIER) (\<lambda>name_tok.
     p_then (ExpectType SEMICOLON)
       (p_bind (p_comp (CreateExtern ns name_tok)) (\<lambda>_. p_return ())))"

fun ParseDeclarations :: "nat \<Rightarrow> nat \<Rightarrow> unit parse" where
  "ParseDeclarations 0 ns = p_fault OutOfFuel"
| "ParseDeclarations (Suc n) ns =
     p_bind (Expect_one_of [CLOSE_CURLY_BRACE, KEYWORD_STRUCT, KEYWORD_MESSAGE, KEYWORD_ENUM,
         KEYWORD_EXTERN]) (\<lambda>tok.
       if Matches tok CLOSE_CURLY_BRACE then p_return ()
       else p_then
         (if Matches tok KEYWORD_STRUCT \<or> Matches tok KEYWORD_MESSAGE then
            ParseStruct (Suc n) ns (Matches tok KEYWORD_MESSAGE)
          else if Matches tok KEYWORD_ENUM then ParseEnum ns
          else if Matches tok KEYWORD_EXTERN then ParseExtern ns
          else p_return ())
         (ParseDeclarations n ns))"

definition ParseFile_body :: "nat \<Rightarrow> unit parse" where
  "ParseFile_body n =
     p_then (ExpectType KEYWORD_NAMESPACE)
     (p_bind (ParseTypeNameList n) (\<lambda>namespace_name.
      p_bind (p_comp (CreateNamespace namespace_name)) (\<lambda>ns.
      p_then (ParseAttributes n ns)
      (p_then (ParseDeclarations n ns)
        (ExpectType END_OF_FILE)))))"

definition ParseFile :: "src_file \<Rightarrow> compiler \<Rightarrow> (bool \<times> compiler) res" where
  "ParseFile f c = bind_res
     (ParseFile_body (length (GetContents f) + 1)
        \<lparr>ps_toks = Tokenizer f, ps_peeked = None, ps_comp = c\<rparr>)
     (\<lambda>(r, s). Inr (r \<noteq> None, ps_comp s))"

end
