(* ===== verification/IdlParserProofs.thy ===== *)
theory IdlParserProofs
  imports IdlInvariant IdlParser
begin

section \<open>Correctness of the parser\<close>

text \<open>
  The judgement of \<open>parsing_logic\<close> for every function of the parser: it keeps the compiler's
  objects well-formed, returns \<open>false\<close> only after it has reported an error, consumes its
  tokens, and ends abnormally only on the assertion that fires when an error is reported at
  the end of the file. In particular the fuel is never used up.
\<close>

definition eof_fault :: fault where
  "eof_fault = AssertFailed ''offset < m_file->GetContents().size()''"

definition ps_left :: "parser \<Rightarrow> nat" where
  "ps_left s = length (tz_contents (ps_toks s)) - tz_offset (ps_toks s)
     + (case ps_peeked s of None \<Rightarrow> 0 | Some t \<Rightarrow> tok_length t)"

definition ps_ok :: "parser \<Rightarrow> bool" where
  "ps_ok s \<longleftrightarrow> tz_ok (ps_toks s) \<and> comp_ok (ps_comp s)
     \<and> (case ps_peeked s of None \<Rightarrow> True | Some t \<Rightarrow> token_ok t)"

definition ps_step :: "parser \<Rightarrow> parser \<Rightarrow> bool" where
  "ps_step s t \<longleftrightarrow> comp_le (ps_comp s) (ps_comp t) \<and> ps_left t \<le> ps_left s"

definition ps_errs :: "parser \<Rightarrow> nat" where
  "ps_errs s = length (c_errors (ps_comp s))"

interpretation idl: parsing_logic ps_step ps_ok ps_left ps_errs eof_fault
proof
  show "ps_step s s" for s
    by (simp add: ps_step_def comp_le_refl)
  show "ps_step s t \<Longrightarrow> ps_step t u \<Longrightarrow> ps_step s u" for s t u
    by (auto simp: ps_step_def intro: comp_le_trans)
  show "ps_step s t \<Longrightarrow> ps_left t \<le> ps_left s" for s t
    by (simp add: ps_step_def)
  show "ps_step s t \<Longrightarrow> ps_errs s \<le> ps_errs t" for s t
    by (auto simp: ps_step_def ps_errs_def comp_le_def)
qed

subsection \<open>Tokens\<close>

lemma tz_NextToken_ok:
  assumes "tz_ok z" and "tz_NextToken z = (tok, z')"
  shows "tz_ok z' \<and> token_ok tok \<and> tz_file z' = tz_file z
     \<and> length (tz_contents z) - tz_offset z' + tok_length tok \<le> length (tz_contents z) - tz_offset z"
  using NextToken_facts [OF assms] by (auto simp: tz_ok_def)

lemma NextToken_ok:
  assumes "ps_ok s" and "NextToken s = (tok, s')"
  shows "ps_ok s' \<and> token_ok tok \<and> ps_comp s' = ps_comp s \<and> ps_left s' + tok_length tok \<le> ps_left s"
  using assms tz_NextToken_ok [of "ps_toks s"]
  by (auto simp: NextToken_def ps_ok_def ps_left_def split: option.splits prod.splits)

lemma PeekToken_ok:
  assumes "ps_ok s" and "PeekToken s = (tok, s')"
  shows "ps_ok s' \<and> token_ok tok \<and> ps_comp s' = ps_comp s \<and> ps_left s' \<le> ps_left s"
  using assms tz_NextToken_ok [of "ps_toks s"]
  by (auto simp: PeekToken_def ps_ok_def ps_left_def split: option.splits prod.splits)

lemma ps_left_comp [simp]: "ps_left (s\<lparr>ps_comp := c\<rparr>) = ps_left s"
  by (simp add: ps_left_def)

definition fails_properly :: "parser \<Rightarrow> ('a option \<times> parser) res \<Rightarrow> bool" where
  "fails_properly s r \<longleftrightarrow> r = Inl eof_fault
     \<or> (\<exists>t. r = Inr (None, t) \<and> ps_ok t \<and> ps_step s t \<and> ps_errs s < ps_errs t)"

lemma p_error_run:
  assumes "ps_ok s" and "token_ok tok"
  shows "fails_properly s (p_error tok err s)"
proof (cases "tok_type tok = END_OF_FILE")
  case True
  then show ?thesis
    using assms(2) by (auto simp: p_error_def c_AddError_def token_ok_def AddError_def eof_fault_def
        GetLineContents_def fails_properly_def split: option.splits)
next
  case False
  then obtain c where c: "c_AddError tok err (ps_comp s) = Inr c" "reported (ps_comp s) c"
    using assms(2) reportedE [of tok] by (auto simp: good_tok_def)
  then show ?thesis
    using assms(1) reported_ok [OF c(2)] reported_le [OF c(2)] reported_errors [OF c(2)]
    by (auto simp: p_error_def ps_ok_def ps_step_def ps_errs_def ps_left_def fails_properly_def)
qed

lemma fails_properly_run:
  assumes "fails_properly s1 r" and "ps_comp s1 = ps_comp s" and "ps_left s1 \<le> ps_left s"
  shows "case r of Inl e \<Rightarrow> e = eof_fault
      | Inr (r, t) \<Rightarrow> ps_ok t \<and> ps_step s t \<and>
          (case r of None \<Rightarrow> ps_errs s < ps_errs t | Some x \<Rightarrow> ps_left t + k \<le> ps_left s \<and> Q x t)"
  using assms by (auto simp: fails_properly_def ps_step_def ps_errs_def)

lemma p_error_meets:
  assumes "\<And>s. P s \<Longrightarrow> token_ok tok"
  shows "idl.meets P b (p_error tok err) k Q"
proof (rule idl.meetsI)
  fix s
  assume "ps_ok s" "P s"
  from p_error_run [OF this(1) assms [OF this(2)]]
  show "case p_error tok err s of Inl e \<Rightarrow> e = eof_fault
      | Inr (r, t) \<Rightarrow> ps_ok t \<and> ps_step s t \<and>
          (case r of None \<Rightarrow> ps_errs s < ps_errs t | Some x \<Rightarrow> ps_left t + k \<le> ps_left s \<and> Q x t)"
    by (rule fails_properly_run) simp_all
qed

lemma p_error_step:
  assumes "ps_ok s1 \<and> token_ok tok \<and> ps_comp s1 = ps_comp s \<and> ps_left s1 + tok_length tok \<le> ps_left s"
  shows "case p_error tok err s1 of Inl e \<Rightarrow> e = eof_fault
      | Inr (r, t) \<Rightarrow> ps_ok t \<and> ps_step s t \<and>
          (case r of None \<Rightarrow> ps_errs s < ps_errs t | Some x \<Rightarrow> ps_left t + k \<le> ps_left s \<and> Q x t)"
  by (rule fails_properly_run [OF p_error_run]) (use assms in auto)

lemma token_ok_length:
  "token_ok t \<Longrightarrow> tok_type t \<noteq> END_OF_FILE \<Longrightarrow> good_tok t \<and> 1 \<le> tok_length t"
  by (auto simp: good_tok_def token_ok_def split: option.splits)

lemma Expect_meets:
  assumes "type \<noteq> END_OF_FILE"
  shows "idl.meets (\<lambda>_. True) b (Expect type) 1 (\<lambda>t _. good_tok t \<and> tok_type t = type)"
proof (rule idl.meetsI)
  fix s
  assume s: "ps_ok s"
  obtain tok s1 where n: "NextToken s = (tok, s1)" by fastforce
  note f = NextToken_ok [OF s n]
  show "case Expect type s of Inl e \<Rightarrow> e = eof_fault
      | Inr (r, t) \<Rightarrow> ps_ok t \<and> ps_step s t \<and> (case r of None \<Rightarrow> ps_errs s < ps_errs t
          | Some x \<Rightarrow> ps_left t + 1 \<le> ps_left s \<and> good_tok x \<and> tok_type x = type)"
  proof (cases "Matches tok type")
    case True
    then show ?thesis
      using f assms token_ok_length [of tok] n
      by (auto simp: Expect_def Matches_def ps_step_def comp_le_refl)
  next
    case False
    show ?thesis
      unfolding Expect_def n Let_def prod.case if_P [OF False]
      by (rule p_error_step [OF f])
  qed
qed

lemma Expect_eof_meets: "idl.meets (\<lambda>_. True) b (Expect END_OF_FILE) 0 (\<lambda>_ _. True)"
proof (rule idl.meetsI)
  fix s
  assume s: "ps_ok s"
  obtain tok s1 where n: "NextToken s = (tok, s1)" by fastforce
  note f = NextToken_ok [OF s n]
  show "case Expect END_OF_FILE s of Inl e \<Rightarrow> e = eof_fault
      | Inr (r, t) \<Rightarrow> ps_ok t \<and> ps_step s t \<and> (case r of None \<Rightarrow> ps_errs s < ps_errs t
          | Some x \<Rightarrow> ps_left t + 0 \<le> ps_left s \<and> True)"
  proof (cases "Matches tok END_OF_FILE")
    case True
    then show ?thesis
      using f n by (auto simp: Expect_def ps_step_def comp_le_refl)
  next
    case False
    show ?thesis
      unfolding Expect_def n Let_def prod.case if_P [OF False]
      by (rule p_error_step [OF f])
  qed
qed

lemma Expect_one_of_meets:
  assumes "END_OF_FILE \<notin> set types"
  shows "idl.meets (\<lambda>_. True) b (Expect_one_of types) 1 (\<lambda>t _. good_tok t \<and> tok_type t \<in> set types)"
proof (rule idl.meetsI)
  fix s
  assume s: "ps_ok s"
  obtain tok s1 where n: "NextToken s = (tok, s1)" by fastforce
  note f = NextToken_ok [OF s n]
  show "case Expect_one_of types s of Inl e \<Rightarrow> e = eof_fault
      | Inr (r, t) \<Rightarrow> ps_ok t \<and> ps_step s t \<and> (case r of None \<Rightarrow> ps_errs s < ps_errs t
          | Some x \<Rightarrow> ps_left t + 1 \<le> ps_left s \<and> good_tok x \<and> tok_type x \<in> set types)"
  proof (cases "\<exists>type \<in> set types. Matches tok type")
    case True
    then show ?thesis
      using f n token_ok_length [of tok] assms
      by (cases "tok_type tok = END_OF_FILE") (auto simp: Expect_one_of_def Matches_def ps_step_def comp_le_refl)
  next
    case False
    show ?thesis
      unfolding Expect_one_of_def n Let_def prod.case if_not_P [OF False]
      by (rule p_error_step [OF f])
  qed
qed

lemma Try_meets: "idl.meets (\<lambda>_. True) b (Try type) 0 (\<lambda>_ _. True)"
  by (rule idl.meetsI)
    (auto simp: Try_def ps_step_def comp_le_refl split: prod.splits dest: PeekToken_ok)

lemma p_Peek_meets: "idl.meets (\<lambda>_. True) b p_Peek 0 (\<lambda>t _. token_ok t)"
  by (rule idl.meetsI)
    (auto simp: p_Peek_def ps_step_def comp_le_refl split: prod.splits dest: PeekToken_ok)

lemma ExpectType_meets:
  assumes "type \<noteq> END_OF_FILE"
  shows "idl.meets (\<lambda>_. True) b (ExpectType type) 1 (\<lambda>_ _. True)"
  by (rule idl.meets_seq [OF Expect_meets [OF assms]]) (auto intro: idl.meets_return)

lemma ExpectType_eof_meets: "idl.meets (\<lambda>_. True) b (ExpectType END_OF_FILE) 0 (\<lambda>_ _. True)"
  by (rule idl.meets_seq [OF Expect_eof_meets]) (auto intro: idl.meets_return)

lemma p_get_meets: "idl.meets (\<lambda>_. True) b (p_get f) 0 (\<lambda>_ _. True)"
  by (rule idl.meetsI) (auto simp: p_get_def ps_step_def comp_le_refl)

subsection \<open>Names and types\<close>

lemmas token_steps =
  idl.meets_seq [OF Expect_meets] idl.meets_seq [OF Expect_one_of_meets]
  idl.meets_seq [OF ExpectType_meets] idl.meets_seq [OF Try_meets]
  idl.meets_seq [OF p_Peek_meets] idl.meets_seq [OF p_get_meets] idl.meets_if

lemma ParseTypeNameList_meets:
  "idl.meets (\<lambda>_. \<forall>t \<in> set tokens. ident_tok t) n (ParseTypeNameList_loop n tokens) 1 (\<lambda>r _. names_ok r)"
proof (induction n arbitrary: tokens)
  case 0
  show ?case by (rule idl.meets_zero)
next
  case (Suc n)
  show ?case
    unfolding ParseTypeNameList_loop.simps
    by (intro token_steps idl.meets_return idl.meets_weaken [OF Suc.IH])
      (auto simp: names_ok_def ident_tok_def)
qed

lemma ParseTypeName_meets:
  "idl.meets (\<lambda>_. True) n (ParseTypeName n) 1 (\<lambda>tn _. tn_ok tn)"
  "idl.meets (\<lambda>_. \<forall>p \<in> set params. tn_ok p) (n - 1) (ParseTemplateParams n params) 0
     (\<lambda>ps _. \<forall>p \<in> set ps. tn_ok p)"
proof (induction n and n params rule: ParseTypeName_ParseTemplateParams.induct)
  case 1
  show ?case by (rule idl.meets_zero)
next
  case (2 n)
  show ?case
    unfolding ParseTypeName.simps
    by (intro idl.meets_seq [OF ParseTypeNameList_meets] token_steps idl.meets_seq [OF 2] idl.meets_return)
      (auto simp: list_all_iff)
next
  case (3 params)
  show ?case by (simp add: idl.meets_zero)
next
  case (4 n params)
  show ?case
    unfolding ParseTemplateParams.simps
    by (intro idl.meets_seq [OF 4(1)] token_steps idl.meets_return idl.meets_weaken [OF 4(2)]) auto
qed

subsection \<open>Declarations\<close>

definition ns_valid :: "nat \<Rightarrow> parser \<Rightarrow> bool" where
  "ns_valid p s \<longleftrightarrow> p < length (c_namespaces (ps_comp s))"

definition type_valid :: "nat \<Rightarrow> parser \<Rightarrow> bool" where
  "type_valid q s \<longleftrightarrow> q < length (c_types (ps_comp s))"

lemma ns_valid_stable [simp]: "stable ps_step (ns_valid p)"
  by (auto simp: stable_def ns_valid_def ps_step_def comp_le_def)

lemma type_valid_stable [simp]: "stable ps_step (type_valid q)"
  by (auto simp: stable_def type_valid_def ps_step_def comp_le_def)

lemma conj_stable [simp]:
  "stable ps_step P \<Longrightarrow> stable ps_step Q \<Longrightarrow> stable ps_step (\<lambda>s. P s \<and> Q s)"
  by (rule stable_conj)

lemma p_comp_meets:
  assumes "\<And>s. ps_ok s \<Longrightarrow> P s \<Longrightarrow> \<exists>x d. f (ps_comp s) = Inr (x, d) \<and> comp_ok d
      \<and> comp_le (ps_comp s) d \<and> Q x (s\<lparr>ps_comp := d\<rparr>)"
  shows "idl.meets P b (p_comp f) 0 Q"
proof (rule idl.meets_op)
  fix s
  assume s: "ps_ok s" "P s"
  from assms [OF s] obtain x d where "f (ps_comp s) = Inr (x, d)" "comp_ok d"
    "comp_le (ps_comp s) d" "Q x (s\<lparr>ps_comp := d\<rparr>)" by blast
  then show "\<exists>x t. p_comp f s = Inr (Some x, t) \<and> ps_ok t \<and> ps_step s t \<and> ps_left t = ps_left s \<and> Q x t"
    using s(1) by (auto simp: p_comp_def ps_ok_def ps_step_def)
qed

lemma p_set_meets:
  assumes "\<And>s. ps_ok s \<Longrightarrow> P s \<Longrightarrow> comp_ok (f (ps_comp s)) \<and> comp_le (ps_comp s) (f (ps_comp s))"
  shows "idl.meets P b (p_set f) 0 (\<lambda>_ _. True)"
  by (rule idl.meetsI) (use assms in \<open>auto simp: p_set_def ps_ok_def ps_step_def\<close>)

lemma ps_ok_comp: "ps_ok s \<Longrightarrow> comp_ok (ps_comp s)"
  by (simp add: ps_ok_def)

lemma CreateNamespace_meets:
  "idl.meets (\<lambda>_. names_ok name) b (p_comp (CreateNamespace name)) 0 (\<lambda>p. ns_valid p)"
  by (rule p_comp_meets) (use CreateNamespace_ok ps_ok_comp in \<open>fastforce simp: ns_valid_def\<close>)

lemma create_type_meets:
  assumes "kind_fields kind = []"
  shows "idl.meets (\<lambda>s. ns_valid p s \<and> ident_tok name) b (p_comp (create_type p name kind)) 0 (\<lambda>q. type_valid q)"
  by (rule p_comp_meets)
    (use create_type_ok [OF ps_ok_comp _ _ assms] in \<open>fastforce simp: ns_valid_def type_valid_def\<close>)

lemmas create_meets =
  create_type_meets [where kind = "StructKind m []" for m, simplified, folded CreateStruct_def]
  create_type_meets [where kind = EnumKind, simplified, folded CreateEnum_def]
  create_type_meets [where kind = ExternKind, simplified, folded CreateExtern_def]

lemma AddLanguage_meets:
  "idl.meets (ns_valid p) b (p_set (AddLanguage p l path)) 0 (\<lambda>_ _. True)"
  by (rule p_set_meets) (simp add: AddLanguage_ok ps_ok_comp ns_valid_def)

lemma AddField_meets:
  "idl.meets (\<lambda>s. type_valid q s \<and> tn_ok tn \<and> good_tok name) b (p_set (AddField q tn name)) 0 (\<lambda>_ _. True)"
  by (rule p_set_meets) (simp add: AddField_ok ps_ok_comp type_valid_def)

lemma ParseLanguage_meets:
  "idl.meets (\<lambda>_. good_tok t) b (ParseLanguage t) 0 (\<lambda>_ _. True)"
  unfolding ParseLanguage_def
  by (intro idl.meets_if idl.meets_return p_error_meets) (auto simp: good_tok_def)

lemma ParseAttributes_meets:
  "idl.meets (ns_valid p) n (ParseAttributes n p) 1 (\<lambda>_ _. True)"
proof (induction n)
  case 0
  show ?case by (rule idl.meets_zero)
next
  case (Suc n)
  show ?case
    unfolding ParseAttributes.simps
    by (intro token_steps idl.meets_return p_error_meets idl.meets_seq [OF ParseLanguage_meets]
        idl.meets_seq [OF AddLanguage_meets] idl.meets_weaken [OF Suc.IH])
      (auto simp: good_tok_def)
qed

text \<open>The peeked token is the one the next call returns.\<close>

lemma p_Peek_peeked: "idl.meets (\<lambda>_. True) b p_Peek 0 (\<lambda>t s. token_ok t \<and> ps_peeked s = Some t)"
  by (rule idl.meetsI)
    (auto simp: p_Peek_def PeekToken_def ps_step_def comp_le_refl split: prod.splits option.splits
      dest: PeekToken_ok)

lemma Expect_one_of_peeked:
  fixes Q :: "'a \<Rightarrow> parser \<Rightarrow> bool"
  assumes "tok_type t \<notin> set types"
  shows "idl.meets (\<lambda>s. token_ok t \<and> ps_peeked s = Some t) b
     (p_bind (Expect_one_of types) (\<lambda>_. p_fail)) k Q"
proof (rule idl.meetsI)
  fix s
  assume s: "ps_ok s" and t: "token_ok t \<and> ps_peeked s = Some t"
  let ?s = "s\<lparr>ps_peeked := None\<rparr>"
  have n: "NextToken s = (t, ?s)" using t by (simp add: NextToken_def)
  have "ps_ok ?s" "ps_comp ?s = ps_comp s" "ps_left ?s \<le> ps_left s"
    using s by (simp_all add: ps_ok_def ps_left_def)
  moreover have fails: "p_bind (Expect_one_of types) (\<lambda>_. p_fail :: (parser, 'a) parsing) s = p_error t
      (''Expected one of ['' @ separated '', '' (map Token_c_str types)
               @ ''] but found '' @ GetDescription t @ '' instead'') ?s"
    using assms n by (auto simp: p_bind_def Expect_one_of_def Matches_def p_error_def bind_res_def split: sum.splits)
  ultimately show "case p_bind (Expect_one_of types) (\<lambda>_. p_fail) s of Inl e \<Rightarrow> e = eof_fault
      | Inr (r, t) \<Rightarrow> ps_ok t \<and> ps_step s t \<and>
          (case r of None \<Rightarrow> ps_errs s < ps_errs t | Some x \<Rightarrow> ps_left t + k \<le> ps_left s \<and> Q x t)"
    unfolding fails using t by (intro fails_properly_run [OF p_error_run]) simp_all
qed

lemma ParseFields_meets:
  "idl.meets (type_valid q) n (ParseFields n q) 0 (\<lambda>_ _. True)"
proof (induction n)
  case 0
  show ?case by (rule idl.meets_zero)
next
  case (Suc n)
  have body: "idl.meets (type_valid q) (Suc n)
      (p_bind (ParseTypeName (Suc n)) (\<lambda>type_name.
         p_bind (Expect IDENTIFIER) (\<lambda>field_tok.
         p_then (ExpectType SEMICOLON)
         (p_then (p_set (AddField q type_name field_tok))
           (ParseFields n q))))) 0 (\<lambda>_ _. True)"
    by (intro idl.meets_seq [OF ParseTypeName_meets(1)] token_steps idl.meets_seq [OF AddField_meets]
        idl.meets_weaken [OF Suc.IH]) auto
  show ?case
    unfolding ParseFields.simps
    by (intro idl.meets_seq [OF p_Peek_peeked] idl.meets_if idl.meets_return
        idl.meets_weaken [OF Expect_one_of_peeked] idl.meets_weaken [OF body])
      (auto simp: Matches_def)
qed

lemma ParseStruct_meets:
  "idl.meets (ns_valid p) n (ParseStruct n p m) 1 (\<lambda>_ _. True)"
  unfolding ParseStruct_def
  by (intro token_steps idl.meets_seq [OF create_meets(1)] idl.meets_seq [OF ParseFields_meets]
      idl.meets_weaken [OF ExpectType_meets]) (auto simp: ident_tok_def)

lemma ParseEnum_meets: "idl.meets (ns_valid p) n (ParseEnum p) 1 (\<lambda>_ _. True)"
  unfolding ParseEnum_def
  by (intro token_steps idl.meets_seq [OF create_meets(2)] idl.meets_return) (auto simp: ident_tok_def)

lemma ParseExtern_meets: "idl.meets (ns_valid p) n (ParseExtern p) 1 (\<lambda>_ _. True)"
  unfolding ParseExtern_def
  by (intro token_steps idl.meets_seq [OF create_meets(3)] idl.meets_return) (auto simp: ident_tok_def)

lemma ParseDeclarations_meets:
  "idl.meets (ns_valid p) n (ParseDeclarations n p) 1 (\<lambda>_ _. True)"
proof (induction n)
  case 0
  show ?case by (rule idl.meets_zero)
next
  case (Suc n)
  have decl: "idl.meets (ns_valid p) (Suc n)
     (if Matches tok KEYWORD_STRUCT \<or> Matches tok KEYWORD_MESSAGE then
        ParseStruct (Suc n) p (Matches tok KEYWORD_MESSAGE)
      else if Matches tok KEYWORD_ENUM then ParseEnum p
      else if Matches tok KEYWORD_EXTERN then ParseExtern p
      else p_return ()) 0 (\<lambda>_ _. True)" for tok
    by (intro idl.meets_if idl.meets_return idl.meets_weaken [OF ParseStruct_meets]
        idl.meets_weaken [OF ParseEnum_meets] idl.meets_weaken [OF ParseExtern_meets]) auto
  show ?case
    unfolding ParseDeclarations.simps
    by (intro idl.meets_seq [OF Expect_one_of_meets] idl.meets_if idl.meets_return idl.meets_seq [OF decl]
        idl.meets_weaken [OF Suc.IH]) auto
qed

lemma ParseFile_body_meets:
  "idl.meets (\<lambda>_. True) n (ParseFile_body n) 0 (\<lambda>_ _. True)"
  unfolding ParseFile_body_def
  by (intro token_steps idl.meets_seq [OF ParseTypeNameList_meets] idl.meets_seq [OF CreateNamespace_meets]
      idl.meets_seq [OF ParseAttributes_meets] idl.meets_seq [OF ParseDeclarations_meets]
      idl.meets_weaken [OF ExpectType_eof_meets]) auto

text \<open>The whole parser.\<close>

lemma ParseFile_run:
  assumes "comp_ok c"
  shows "(\<exists>b d. ParseFile f c = Inr (b, d) \<and> comp_ok d \<and> comp_le c d
            \<and> (\<not> b \<longrightarrow> length (c_errors c) < length (c_errors d)))
       \<or> ParseFile f c = Inl eof_fault"
proof -
  let ?s = "\<lparr>ps_toks = Tokenizer f, ps_peeked = None, ps_comp = c\<rparr>"
  have s: "ps_ok ?s" "ps_left ?s < length (GetContents f) + 1"
    using assms by (simp_all add: ps_ok_def ps_left_def tz_ok_def Tokenizer_def)
  note run = idl.meetsD [OF ParseFile_body_meets s(1) TrueI s(2)]
  show ?thesis
  proof (cases "ParseFile_body (length (GetContents f) + 1) ?s")
    case (Inl e)
    then show ?thesis using run(1) by (simp add: ParseFile_def)
  next
    case (Inr rt)
    obtain r t where rt: "rt = (r, t)" by fastforce
    with Inr have fin: "ParseFile_body (length (GetContents f) + 1) ?s = Inr (r, t)" by simp
    have "ps_ok t" "ps_step ?s t" using run(2) [OF fin] by simp_all
    moreover have "ps_errs ?s < ps_errs t" if "r = None" using run(3) fin that by simp
    ultimately show ?thesis
      using fin by (cases r) (auto simp: ParseFile_def ps_ok_def ps_step_def ps_errs_def)
  qed
qed

end
