(* ===== verification/IdlCompiler.thy ===== *)
theory IdlCompiler
  imports IdlParserProofs
begin

section \<open>The interface compiler\<close>

text \<open>
  \<open>Compiler::CompileSources\<close> of \<open>Compiler.cpp\<close>: parse every file, validate every namespace,
  generate every output; and the decision of \<open>Application.cpp\<close> whether to write the outputs.
\<close>

fun parse_files :: "src_file list \<Rightarrow> compiler \<Rightarrow> (bool \<times> compiler) res" where
  "parse_files [] c = Inr (True, c)"
| "parse_files (f # fs) c = bind_res (ParseFile f c) (\<lambda>(b, c1).
     if \<not> b then Inr (False, c1) else parse_files fs c1)"

text \<open>The result, the outputs and the error strings.\<close>

definition CompileSources :: "src_file list \<Rightarrow> outputs \<Rightarrow> string list
    \<Rightarrow> (bool \<times> outputs \<times> string list) res" where
  "CompileSources sources outs errs =
     bind_res (parse_files sources (compiler_init errs)) (\<lambda>(b, c).
       if \<not> b then Inr (False, outs, c_errors c)
       else bind_res (validate_library c) (\<lambda>(b, c1).
         if \<not> b then Inr (False, outs, c_errors c1)
         else bind_res (generate_library c1 outs) (\<lambda>outs'. Inr (True, outs', c_errors c1))))"

text \<open>The exit code of the program, and the files it writes.\<close>

definition compiler_main :: "src_file list \<Rightarrow> (nat \<times> outputs) res" where
  "compiler_main sources = bind_res (CompileSources sources [] []) (\<lambda>(result, outs, errs).
     if \<not> result \<or> errs \<noteq> [] then Inr (1, []) else Inr (0, outs))"

subsection \<open>Parsing and generating\<close>

lemma parse_files_run:
  assumes "comp_ok c"
  shows "(\<exists>b d. parse_files fs c = Inr (b, d) \<and> comp_ok d \<and> comp_le c d
            \<and> (\<not> b \<longrightarrow> length (c_errors c) < length (c_errors d)))
       \<or> parse_files fs c = Inl eof_fault"
  using assms
proof (induction fs arbitrary: c)
  case Nil
  then show ?case by (simp add: comp_le_refl ex_bool_eq)
next
  case (Cons f fs)
  from ParseFile_run [OF Cons.prems, of f] show ?case
  proof (elim disjE exE conjE)
    fix b d
    assume d: "ParseFile f c = Inr (b, d)" "comp_ok d" "comp_le c d"
      "\<not> b \<longrightarrow> length (c_errors c) < length (c_errors d)"
    have "length (c_errors c) \<le> length (c_errors d)"
      using d(3) by (auto simp: comp_le_def)
    then show ?thesis
      using d Cons.IH [OF d(2)] comp_le_trans [OF d(3)] by (cases b) fastforce+
  qed simp
qed

lemma field_instances_ok:
  "\<forall>f \<in> set fds. fd_instance f \<noteq> None \<Longrightarrow> \<exists>is. field_instances fds = Inr is"
  by (induction fds) auto

lemma type_GenerateOutputs_ok:
  assumes "comp_ok c" and "q < length (c_types c)" and "resolved c q"
  shows "\<exists>outs'. type_GenerateOutputs c path l q outs = Inr outs'"
proof -
  have "\<exists>src. tok_file_name (ty_name (ty_at c q)) = Inr src"
    using comp_okD(1) [OF assms(1,2)]
    by (auto simp: type_ok_def ident_tok_def good_tok_def token_ok_def tok_file_name_def split: option.splits)
  then show ?thesis
    using field_instances_ok assms(3)
    by (cases "ty_kind (ty_at c q)"; cases l)
      (fastforce simp: type_GenerateOutputs_def struct_GenerateOutputs_def GenerateCppHeader_def
        GenerateCppSource_def GenerateTypescript_def GenerateCppHeaderHeader_def
        GenerateCppSourceHeader_def Let_def resolved_def)+
qed

lemma fold_res_total:
  "(\<And>x s. x \<in> set xs \<Longrightarrow> \<exists>t. f x s = Inr t) \<Longrightarrow> \<exists>t. fold_res f xs s = Inr t"
proof (induction xs arbitrary: s)
  case Nil
  show ?case by simp
next
  case (Cons x xs)
  obtain t where "f x s = Inr t" using Cons.prems [of x s] by auto
  then show ?case using Cons by simp
qed

lemma generate_library_ok:
  assumes ok: "comp_ok c" and res: "\<forall>(k, p) \<in> set (c_lib c). ns_resolved c p"
  shows "\<exists>outs'. generate_library c outs = Inr outs'"
  unfolding generate_library_def
proof (rule fold_res_total)
  fix e outs
  assume "e \<in> set (c_lib c)"
  then obtain k p where e: "e = (k, p)" "ns_resolved c p" using res by fastforce
  then have "\<exists>t. type_GenerateOutputs c path l q outs = Inr t" if "(k', q) \<in> set (ns_types (ns_at c p))"
    for k' q path l outs
    using that type_GenerateOutputs_ok [OF ok] by (fastforce simp: ns_resolved_def)
  then have "\<exists>t. fold_res (\<lambda>(_, q). type_GenerateOutputs c path l q) (ns_types (ns_at c p)) outs = Inr t"
    for path l outs
    by (intro fold_res_total) auto
  then show "\<exists>t. (case e of (_, p) \<Rightarrow> namespace_GenerateOutputs c p) outs = Inr t"
    unfolding e(1) prod.case namespace_GenerateOutputs_def
    by (intro fold_res_total) (auto split: prod.splits)
qed

lemma CompileSources_run:
  "(\<exists>b outs' errs'. CompileSources sources outs errs = Inr (b, outs', errs')
      \<and> (\<exists>es. errs' = errs @ es \<and> (\<not> b \<longrightarrow> es \<noteq> [] \<and> outs' = outs)))
   \<or> CompileSources sources outs errs = Inl eof_fault"
proof -
  have grow: "\<exists>es. e2 = errs @ es \<and> (P \<longrightarrow> es \<noteq> [])"
    if "\<exists>es. e1 = errs @ es" "\<exists>es. e2 = e1 @ es" "P \<longrightarrow> length errs < length e2" for e1 e2 P
    using that by auto
  from parse_files_run [OF comp_ok_init, of sources errs] show ?thesis
  proof (elim disjE exE conjE)
    fix b d
    assume d: "parse_files sources (compiler_init errs) = Inr (b, d)" "comp_ok d"
      "comp_le (compiler_init errs) d"
      "\<not> b \<longrightarrow> length (c_errors (compiler_init errs)) < length (c_errors d)"
    have e1: "\<exists>es. c_errors d = errs @ es"
      using d(3) by (simp add: comp_le_def compiler_init_def)
    show ?thesis
    proof (cases b)
      case False
      then show ?thesis
        using d e1 by (auto simp: CompileSources_def compiler_init_def)
    next
      case True
      obtain b' e where v: "validate_library d = Inr (b', e)" "comp_ok e" "val_le d e"
        "if b' then \<forall>(k, p) \<in> set (c_lib e). ns_resolved e p else length (c_errors d) < length (c_errors e)"
        using validate_library_ok [OF d(2)] by blast
      have e2: "\<exists>es. c_errors e = errs @ es \<and> (\<not> b' \<longrightarrow> es \<noteq> [])"
        by (rule grow [OF e1]) (use v(3,4) e1 in \<open>auto simp: val_le_def split: if_splits\<close>)
      show ?thesis
      proof (cases b')
        case False
        then show ?thesis using d(1) True v(1) e2 by (auto simp: CompileSources_def)
      next
        case gen: True
        then obtain outs' where "generate_library e outs = Inr outs'"
          using generate_library_ok [OF v(2)] v(4) by auto
        then show ?thesis
          using d(1) True v(1) e2 gen by (auto simp: CompileSources_def)
      qed
    qed
  qed (simp add: CompileSources_def)
qed

subsection \<open>Properties\<close>

text \<open>C2: Whatever the source files hold, compiling them terminates and either returns a
  verdict or stops on the one assertion that fires when an error is reported at the end of a
  file: no null type instance or file is dereferenced, no pointer leads nowhere, and no loop
  of the parser runs without consuming input. Error strings are only appended, and a failed
  compilation always reports an error and leaves the outputs as they were.\<close>

theorem CompileSources_total:
  shows "(\<exists>b outs' errs'. CompileSources sources outs errs = Inr (b, outs', errs')
      \<and> (\<exists>es. errs' = errs @ es \<and> (\<not> b \<longrightarrow> es \<noteq> [] \<and> outs' = outs)))
   \<or> CompileSources sources outs errs = Inl (AssertFailed ''offset < m_file->GetContents().size()'')"
  using CompileSources_run [of sources outs errs] by (simp add: eof_fault_def)

theorem CompileSources_total_witness:
  "\<exists>es. CompileSources [\<lparr>GetName = ''a.bbidl'', GetContents = ''x''\<rparr>] [] [] = Inr (False, [], es)
     \<and> es \<noteq> []"
proof -
  let ?src = "[\<lparr>GetName = ''a.bbidl'', GetContents = ''x''\<rparr>]"
  have "CompileSources ?src [] [] = Inr (False, [], [''a.bbidl:1: Expected keyword \"namespace\"''
      @ '' but found identifier \"x\" instead'', ''x'', ''^''])"
    by code_simp
  then show ?thesis
    using CompileSources_total [of ?src "[]" "[]"] by simp
qed


text \<open>A file that holds nothing but white space is not diagnosed: the parser expects
  \<open>namespace\<close>, finds the end of the file, and the report runs into the assertion.\<close>

theorem blank_file_aborts:
  assumes "\<forall>ch \<in> set (GetContents f). is_blank ch \<or> ch = CHR 0x0A"
  shows "CompileSources (f # rest) outs errs
     = Inl (AssertFailed ''offset < m_file->GetContents().size()'')"
proof -
  let ?z = "Tokenizer f"
  obtain tok z where n: "tz_NextToken ?z = (tok, z)" by fastforce
  note facts = NextToken_facts [OF tz_ok_init n]
  have "tok_type tok = END_OF_FILE"
  proof (rule ccontr)
    assume neof: "tok_type tok \<noteq> END_OF_FILE"
    then have "tz_offset (skip_whitespace ?z) < length (GetContents f)"
      using n tz_NextToken_eof [of ?z] by (force simp: Token_def Tokenizer_def not_less)
    moreover have "tz_file (skip_whitespace ?z) = f"
      by (simp add: skip_whitespace_file) (simp add: Tokenizer_def)
    ultimately show False
      using skip_whitespace_stops [of ?z] assms by (auto simp: at_space_def at_newline_def)
  qed
  then have "AddError tok err errs = Inl eof_fault" for err
    using facts by (auto simp: token_ok_def AddError_def GetLineContents_def eof_fault_def split: option.splits)
  then show ?thesis
    using \<open>tok_type tok = END_OF_FILE\<close> n
    by (simp add: CompileSources_def ParseFile_def ParseFile_body_def p_bind_def Expect_def NextToken_def
        Matches_def p_error_def c_AddError_def compiler_init_def eof_fault_def)
qed

theorem blank_file_aborts_witness:
  "CompileSources [\<lparr>GetName = ''a.bbidl'', GetContents = '' ''\<rparr>] [] []
     = Inl (AssertFailed ''offset < m_file->GetContents().size()'')"
  by (rule blank_file_aborts) (simp add: is_blank_def)

text \<open>A qualified name never resolves to a type of the library, even when the type exists
  in the named namespace: types are looked up by the whole printed name in maps whose keys
  are unqualified. Only the built-in \<open>std::string\<close> and \<open>std::vector\<close> can be qualified.\<close>

theorem qualified_type_unresolved:
  assumes "comp_ok c" and "tn_ok tn" and "2 \<le> length (GetBaseName tn)"
    and "names_ToString (GetBaseName tn) \<noteq> ''std::string''"
    and "names_ToString (GetBaseName tn) \<noteq> ''std::vector''"
  shows "\<exists>d. ResolveType tn c = Inr (None, d) \<and> length (c_errors c) < length (c_errors d)"
proof -
  obtain base params where tn: "tn = TypeName base params" by (cases tn)
  obtain t u ts where base: "base = t # u # ts"
    using assms(3) tn by (cases base; cases "tl base") auto
  have colon: "CHR '':'' \<in> set (names_ToString base)"
    by (simp add: names_ToString_def base)
  have key: "CHR '':'' \<notin> set (tok_contents (ty_name (ty_at c q)))" if "q < length (c_types c)" for q
    using comp_okD(1) [OF assms(1) that]
    by (auto simp: type_ok_def ident_tok_def good_tok_def token_ok_def ident_char_def is_upper_def
        is_lower_def is_digit_def split: option.splits)
  have "smap_find (names_ToString base) (ns_types (ns_at c p)) = None" if "p < length (c_namespaces c)" for p
  proof (rule ccontr)
    assume "smap_find (names_ToString base) (ns_types (ns_at c p)) \<noteq> None"
    then obtain q where "(names_ToString base, q) \<in> set (ns_types (ns_at c p))"
      using smap_find_set by fast
    then have "q < length (c_types c)" "tok_contents (ty_name (ty_at c q)) = names_ToString base"
      using comp_okD(2) [OF assms(1) that] by (auto simp: ns_ok_def dest!: bspec)
    then show False
      using key [of q] colon by simp
  qed
  moreover have "\<forall>(k, p) \<in> set (c_lib c). p < length (c_namespaces c)"
    using assms(1) by (auto simp: comp_ok_def)
  ultimately have "find_type (names_ToString base) (c_namespaces c) m = None"
    if "set m \<subseteq> set (c_lib c)" for m
    using that by (induction m) auto
  moreover have "names_ToString base \<noteq> ''bool''"
    using colon by auto
  ultimately have "ResolveType tn c = fail_at tn
      (Format ''Unknown type \"%s\"'' [ArgStr (TypeName_ToString (TypeName base params))]) c"
    using assms(4,5) by (simp add: tn)
  then show ?thesis
    using fail_at_ok [OF assms(2)] reported_errors by metis
qed

theorem qualified_type_unresolved_witness:
  "let f = \<lparr>GetName = ''a.bbidl'', GetContents = ''namespace a{struct T{};struct U{a::T x;};}''\<rparr>;
       tok = (\<lambda>offset. Token f 1 (offset + 1) offset 1 IDENTIFIER);
       c = \<lparr>c_namespaces = [\<lparr>ns_name = [tok 10], ns_types = [(''T'', 0)], ns_languages = []\<rparr>],
            c_types = [\<lparr>ty_ns = 0, ty_name = tok 19, ty_kind = StructKind False []\<rparr>],
            c_lib = [(''a'', 0)], c_errors = []\<rparr>
   in \<exists>d. ResolveType (TypeName [tok 32, tok 35] None) c = Inr (None, d) \<and> c_errors d \<noteq> []"
proof -
  let ?f = "\<lparr>GetName = ''a.bbidl'', GetContents = ''namespace a{struct T{};struct U{a::T x;};}''\<rparr>"
  let ?t = "\<lambda>offset. Token ?f 1 (offset + 1) offset 1 IDENTIFIER"
  let ?c = "\<lparr>c_namespaces = [\<lparr>ns_name = [?t 10], ns_types = [(''T'', 0)], ns_languages = []\<rparr>],
            c_types = [\<lparr>ty_ns = 0, ty_name = ?t 19, ty_kind = StructKind False []\<rparr>],
            c_lib = [(''a'', 0)], c_errors = []\<rparr>"
  have toks: "ident_tok (?t 10)" "ident_tok (?t 19)" "ident_tok (?t 32)" "ident_tok (?t 35)"
    by code_simp+
  have str: "tok_contents (?t 10) = ''a''" "tok_contents (?t 19) = ''T''"
    "tok_contents (?t 32) = ''a''" "tok_contents (?t 35) = ''T''"
    by code_simp+
  have "comp_ok ?c"
    using toks(1,2) str(1,2)
    by (simp add: comp_ok_def type_ok_def ns_ok_def names_ok_def smap_ok_def names_ToString_def)
  moreover have "tn_ok (TypeName [?t 32, ?t 35] None)"
    using toks(3,4) by (simp add: names_ok_def)
  moreover have "names_ToString [?t 32, ?t 35] = ''a::T''"
    using str(3,4) by (simp add: names_ToString_def)
  ultimately show ?thesis
    using qualified_type_unresolved [of ?c "TypeName [?t 32, ?t 35] None"] by (simp add: Let_def)
qed

end
