(* ===== verification/Life.thy ===== *)
theory Life
  imports RunTime
begin

section \<open>The life of resources, abstractly\<close>

text \<open>
  The specification of the start and stop protocol: what each resource's two levels may do,
  given which resources are its children and which it uses. Work items, callbacks and the
  order of posted work do not appear; the code is shown to take only these steps. A resource
  starts locally when its children and all it uses are running, stops locally when all that
  use it have stopped, and has stopped when its children have.
\<close>

record life =
  lf_ids :: "rid set"
  lf_parent :: "rid \<Rightarrow> rid option"
  lf_uses :: "(rid \<times> rid) set"
  lf_over :: "rid \<Rightarrow> run_level"
  lf_local :: "rid \<Rightarrow> run_level"

definition lf_child :: "life \<Rightarrow> rid \<Rightarrow> rid \<Rightarrow> bool" where
  "lf_child a p c \<longleftrightarrow> c \<in> lf_ids a \<and> lf_parent a c = Some p"

inductive life_step :: "life \<Rightarrow> life \<Rightarrow> bool" where
  request_start:
    "r \<in> lf_ids a \<Longrightarrow> lf_over a r = CONSTRUCTED \<Longrightarrow>
       life_step a (a\<lparr>lf_over := (lf_over a)(r := STARTING)\<rparr>)"
| begin_start:
    "r \<in> lf_ids a \<Longrightarrow> lf_over a r = STARTING \<Longrightarrow> lf_local a r = CONSTRUCTED \<Longrightarrow>
     (\<And>c. lf_child a r c \<Longrightarrow> lf_over a c = RUNNING) \<Longrightarrow>
     (\<And>d. (r, d) \<in> lf_uses a \<Longrightarrow> lf_over a d = RUNNING) \<Longrightarrow>
       life_step a (a\<lparr>lf_local := (lf_local a)(r := STARTING)\<rparr>)"
| notify_started:
    "r \<in> lf_ids a \<Longrightarrow> lf_local a r = STARTING \<Longrightarrow>
       life_step a (a\<lparr>lf_local := (lf_local a)(r := RUNNING)\<rparr>)"
| finish_start:
    "r \<in> lf_ids a \<Longrightarrow> lf_over a r = STARTING \<Longrightarrow> lf_local a r = RUNNING \<Longrightarrow>
       life_step a (a\<lparr>lf_over := (lf_over a)(r := RUNNING)\<rparr>)"
| request_stop:
    "r \<in> lf_ids a \<Longrightarrow> lf_over a r = RUNNING \<Longrightarrow>
       life_step a (a\<lparr>lf_over := (lf_over a)(r := STOPPING)\<rparr>)"
| begin_stop:
    "r \<in> lf_ids a \<Longrightarrow> lf_over a r = STOPPING \<Longrightarrow> lf_local a r = RUNNING \<Longrightarrow>
     (\<And>u. (u, r) \<in> lf_uses a \<Longrightarrow> lf_over a u = STOPPED) \<Longrightarrow>
       life_step a (a\<lparr>lf_local := (lf_local a)(r := STOPPING)\<rparr>)"
| notify_stopped:
    "r \<in> lf_ids a \<Longrightarrow> lf_local a r = STOPPING \<Longrightarrow>
       life_step a (a\<lparr>lf_local := (lf_local a)(r := STOPPED)\<rparr>)"
| finish_stop:
    "r \<in> lf_ids a \<Longrightarrow> lf_over a r = STOPPING \<Longrightarrow> lf_local a r = STOPPED \<Longrightarrow>
     (\<And>c. lf_child a r c \<Longrightarrow> lf_over a c = STOPPED) \<Longrightarrow>
       life_step a (a\<lparr>lf_over := (lf_over a)(r := STOPPED)\<rparr>)"
| drop_uses:
    "U \<subseteq> lf_uses a \<Longrightarrow> life_step a (a\<lparr>lf_uses := U\<rparr>)"
| create:
    "r \<notin> lf_ids a \<Longrightarrow> p \<in> lf_ids a \<Longrightarrow> lf_over a p \<noteq> STOPPED \<Longrightarrow>
       life_step a (a\<lparr>lf_ids := insert r (lf_ids a), lf_parent := (lf_parent a)(r := Some p),
         lf_over := (lf_over a)(r := RUNNING), lf_local := (lf_local a)(r := RUNNING)\<rparr>)"
| destroy:
    "r \<in> lf_ids a \<Longrightarrow> lf_over a r = STOPPED \<Longrightarrow> (\<And>c. \<not> lf_child a r c) \<Longrightarrow>
     (\<And>d. (r, d) \<notin> lf_uses a \<and> (d, r) \<notin> lf_uses a) \<Longrightarrow>
       life_step a (a\<lparr>lf_ids := lf_ids a - {r}\<rparr>)"

text \<open>The pairs of overall and local level that occur.\<close>

fun levels_ok :: "run_level \<Rightarrow> run_level \<Rightarrow> bool" where
  "levels_ok CONSTRUCTED l \<longleftrightarrow> l = CONSTRUCTED"
| "levels_ok STARTING l \<longleftrightarrow> l = CONSTRUCTED \<or> l = STARTING \<or> l = RUNNING"
| "levels_ok RUNNING l \<longleftrightarrow> l = RUNNING"
| "levels_ok STOPPING l \<longleftrightarrow> l = RUNNING \<or> l = STOPPING \<or> l = STOPPED"
| "levels_ok STOPPED l \<longleftrightarrow> l = STOPPED"

definition been_up :: "run_level \<Rightarrow> bool" where
  "been_up l \<longleftrightarrow> l = RUNNING \<or> l = STOPPING \<or> l = STOPPED"

definition life_ok :: "life \<Rightarrow> bool" where
  "life_ok a \<longleftrightarrow>
     (\<forall>r \<in> lf_ids a. levels_ok (lf_over a r) (lf_local a r))
   \<and> (\<forall>c p. lf_child a p c \<longrightarrow> p \<in> lf_ids a)
   \<and> (\<forall>(r, d) \<in> lf_uses a. r \<in> lf_ids a \<and> d \<in> lf_ids a)
   \<and> (\<forall>p c. lf_child a p c \<longrightarrow> lf_local a p \<noteq> CONSTRUCTED \<longrightarrow> been_up (lf_over a c))
   \<and> (\<forall>(r, d) \<in> lf_uses a. lf_local a r \<noteq> CONSTRUCTED \<longrightarrow> lf_over a r \<noteq> STOPPED \<longrightarrow> lf_local a d = RUNNING)
   \<and> (\<forall>p c. lf_child a p c \<longrightarrow> lf_over a p = STOPPED \<longrightarrow> lf_over a c = STOPPED)"

lemma life_okD:
  assumes "life_ok a"
  shows "r \<in> lf_ids a \<Longrightarrow> levels_ok (lf_over a r) (lf_local a r)"
    and "lf_child a p c \<Longrightarrow> p \<in> lf_ids a"
    and "(r, d) \<in> lf_uses a \<Longrightarrow> r \<in> lf_ids a \<and> d \<in> lf_ids a"
    and "lf_child a p c \<Longrightarrow> lf_local a p \<noteq> CONSTRUCTED \<Longrightarrow> been_up (lf_over a c)"
    and "(r, d) \<in> lf_uses a \<Longrightarrow> lf_local a r \<noteq> CONSTRUCTED \<Longrightarrow> lf_over a r \<noteq> STOPPED \<Longrightarrow> lf_local a d = RUNNING"
    and "lf_child a p c \<Longrightarrow> lf_over a p = STOPPED \<Longrightarrow> lf_over a c = STOPPED"
  using assms unfolding life_ok_def by blast+

lemma life_okI:
  assumes "\<And>r. r \<in> lf_ids a \<Longrightarrow> levels_ok (lf_over a r) (lf_local a r)"
    and "\<And>p c. lf_child a p c \<Longrightarrow> p \<in> lf_ids a"
    and "\<And>r d. (r, d) \<in> lf_uses a \<Longrightarrow> r \<in> lf_ids a \<and> d \<in> lf_ids a"
    and "\<And>p c. lf_child a p c \<Longrightarrow> lf_local a p \<noteq> CONSTRUCTED \<Longrightarrow> been_up (lf_over a c)"
    and "\<And>r d. (r, d) \<in> lf_uses a \<Longrightarrow> lf_local a r \<noteq> CONSTRUCTED \<Longrightarrow> lf_over a r \<noteq> STOPPED \<Longrightarrow> lf_local a d = RUNNING"
    and "\<And>p c. lf_child a p c \<Longrightarrow> lf_over a p = STOPPED \<Longrightarrow> lf_over a c = STOPPED"
  shows "life_ok a"
  using assms unfolding life_ok_def by blast

text \<open>A change of one level keeps the graph, so only the level conditions are at stake.\<close>

lemma lf_child_upd [simp]:
  "lf_child (a\<lparr>lf_over := f\<rparr>) = lf_child a" "lf_child (a\<lparr>lf_local := f\<rparr>) = lf_child a"
  "lf_child (a\<lparr>lf_uses := U\<rparr>) = lf_child a"
  by (simp_all add: lf_child_def fun_eq_iff)

lemma life_ok_over:
  assumes ok: "life_ok a" and r: "r \<in> lf_ids a"
    and lev: "levels_ok l (lf_local a r)"
    and up: "\<And>p. lf_child a p r \<Longrightarrow> been_up (lf_over a r) \<Longrightarrow> been_up l"
    and down: "lf_over a r = STOPPED \<Longrightarrow> l = STOPPED"
    and kids: "\<And>c. l = STOPPED \<Longrightarrow> lf_child a r c \<Longrightarrow> lf_over a c = STOPPED"
    and use: "\<And>d. (r, d) \<in> lf_uses a \<Longrightarrow> lf_local a r \<noteq> CONSTRUCTED \<Longrightarrow> l \<noteq> STOPPED \<Longrightarrow> lf_local a d = RUNNING"
  shows "life_ok (a\<lparr>lf_over := (lf_over a)(r := l)\<rparr>)"
proof -
  let ?b = "a\<lparr>lf_over := (lf_over a)(r := l)\<rparr>"
  note d = life_okD [OF ok]
  show ?thesis
  proof (rule life_okI, unfold lf_child_upd)
    show "levels_ok (lf_over ?b x) (lf_local ?b x)" if "x \<in> lf_ids ?b" for x
      using that lev d(1) by simp
    show "p \<in> lf_ids ?b" if "lf_child a p c" for p c
      using d(2) [OF that] by simp
    show "x \<in> lf_ids ?b \<and> y \<in> lf_ids ?b" if "(x, y) \<in> lf_uses ?b" for x y
      using that d(3) by simp
    show "been_up (lf_over ?b c)" if "lf_child a p c" "lf_local ?b p \<noteq> CONSTRUCTED" for p c
      using that d(4) [OF that(1)] up [of p] by (cases "c = r") auto
    show "lf_local ?b y = RUNNING"
      if "(x, y) \<in> lf_uses ?b" "lf_local ?b x \<noteq> CONSTRUCTED" "lf_over ?b x \<noteq> STOPPED" for x y
      using that d(5) [of x y] use by (cases "x = r") auto
    show "lf_over ?b c = STOPPED" if "lf_child a p c" "lf_over ?b p = STOPPED" for p c
      using that d(6) [OF that(1)] down kids by (cases "p = r"; cases "c = r") auto
  qed
qed

lemma life_ok_local:
  assumes ok: "life_ok a" and r: "r \<in> lf_ids a"
    and lev: "levels_ok (lf_over a r) l"
    and kids: "\<And>c. l \<noteq> CONSTRUCTED \<Longrightarrow> lf_child a r c \<Longrightarrow> been_up (lf_over a c)"
    and use: "\<And>d. l \<noteq> CONSTRUCTED \<Longrightarrow> lf_over a r \<noteq> STOPPED \<Longrightarrow> (r, d) \<in> lf_uses a \<Longrightarrow> d \<noteq> r \<Longrightarrow> lf_local a d = RUNNING"
    and used: "\<And>u. l \<noteq> RUNNING \<Longrightarrow> (u, r) \<in> lf_uses a \<Longrightarrow> lf_local a u \<noteq> CONSTRUCTED \<Longrightarrow> lf_over a u = STOPPED"
    and self: "(r, r) \<in> lf_uses a \<Longrightarrow> l \<noteq> CONSTRUCTED \<Longrightarrow> lf_over a r \<noteq> STOPPED \<Longrightarrow> l = RUNNING"
  shows "life_ok (a\<lparr>lf_local := (lf_local a)(r := l)\<rparr>)"
proof -
  let ?b = "a\<lparr>lf_local := (lf_local a)(r := l)\<rparr>"
  note d = life_okD [OF ok]
  show ?thesis
  proof (rule life_okI, unfold lf_child_upd)
    show "levels_ok (lf_over ?b x) (lf_local ?b x)" if "x \<in> lf_ids ?b" for x
      using that lev d(1) by simp
    show "p \<in> lf_ids ?b" if "lf_child a p c" for p c
      using d(2) [OF that] by simp
    show "x \<in> lf_ids ?b \<and> y \<in> lf_ids ?b" if "(x, y) \<in> lf_uses ?b" for x y
      using that d(3) by simp
    show "been_up (lf_over ?b c)" if "lf_child a p c" "lf_local ?b p \<noteq> CONSTRUCTED" for p c
      using that d(4) [OF that(1)] kids by (cases "p = r") auto
    show "lf_local ?b y = RUNNING"
      if "(x, y) \<in> lf_uses ?b" "lf_local ?b x \<noteq> CONSTRUCTED" "lf_over ?b x \<noteq> STOPPED" for x y
      using that d(5) [of x y] use used [of x] self by (cases "x = r"; cases "y = r") auto
    show "lf_over ?b c = STOPPED" if "lf_child a p c" "lf_over ?b p = STOPPED" for p c
      using that d(6) [OF that(1)] by simp
  qed
qed

lemma levels_ok_cases:
  assumes "levels_ok ov l"
  shows "ov = RUNNING \<Longrightarrow> l = RUNNING" "ov = STOPPED \<Longrightarrow> l = STOPPED" "ov = CONSTRUCTED \<Longrightarrow> l = CONSTRUCTED"
    and "l = STARTING \<Longrightarrow> ov = STARTING" "l = STOPPING \<Longrightarrow> ov = STOPPING" "l = CONSTRUCTED \<Longrightarrow> \<not> been_up ov"
  using assms by (cases ov; auto simp: been_up_def)+

lemma life_step_ok:
  assumes "life_step a b" and ok: "life_ok a"
  shows "life_ok b"
  using assms(1)
proof cases
  case (request_start r)
  note lev = life_okD(1) [OF ok request_start(2)]
  show ?thesis unfolding request_start(1)
    by (rule life_ok_over [OF ok request_start(2)])
      (use request_start(3) lev levels_ok_cases(3) [OF lev] in \<open>auto simp: been_up_def\<close>)
next
  case (begin_start r)
  have "lf_local a d = RUNNING" if "(r, d) \<in> lf_uses a" for d
    using begin_start(6) [OF that] life_okD(1,3) [OF ok] that levels_ok_cases(1) by blast
  moreover have "(r, r) \<notin> lf_uses a"
    using begin_start(3,6) by fastforce
  moreover have "lf_over a u = STOPPED" if "(u, r) \<in> lf_uses a" "lf_local a u \<noteq> CONSTRUCTED" for u
    using life_okD(5) [OF ok that] begin_start(4) by fastforce
  ultimately show ?thesis unfolding begin_start(1)
    by (intro life_ok_local [OF ok begin_start(2)]) (use begin_start in \<open>auto simp: been_up_def\<close>)
next
  case (notify_started r)
  note lev = life_okD(1) [OF ok notify_started(2)]
  show ?thesis unfolding notify_started(1)
    by (rule life_ok_local [OF ok notify_started(2)])
      (use notify_started(3) lev levels_ok_cases(4) [OF lev] life_okD(4,5) [OF ok] in \<open>auto\<close>)
next
  case (finish_start r)
  show ?thesis unfolding finish_start(1)
    by (rule life_ok_over [OF ok finish_start(2)])
      (use finish_start life_okD(5) [OF ok] in \<open>auto simp: been_up_def\<close>)
next
  case (request_stop r)
  note lev = life_okD(1) [OF ok request_stop(2)]
  show ?thesis unfolding request_stop(1)
    by (rule life_ok_over [OF ok request_stop(2)])
      (use request_stop(3) lev life_okD(5) [OF ok] in \<open>auto simp: been_up_def\<close>)
next
  case (begin_stop r)
  have "(r, r) \<notin> lf_uses a"
    using begin_stop(3,5) by fastforce
  then show ?thesis unfolding begin_stop(1)
    by (intro life_ok_local [OF ok begin_stop(2)])
      (use begin_stop life_okD(4,5) [OF ok] in \<open>auto\<close>)
next
  case (notify_stopped r)
  note lev = life_okD(1) [OF ok notify_stopped(2)]
  have "lf_over a u = STOPPED" if "(u, r) \<in> lf_uses a" "lf_local a u \<noteq> CONSTRUCTED" for u
    using life_okD(5) [OF ok that] notify_stopped(3) by fastforce
  moreover have "(r, r) \<notin> lf_uses a"
    using life_okD(5) [OF ok, of r r] notify_stopped(3) levels_ok_cases(5) [OF lev] by fastforce
  ultimately show ?thesis unfolding notify_stopped(1)
    by (intro life_ok_local [OF ok notify_stopped(2)])
      (use notify_stopped(3) lev levels_ok_cases(5) [OF lev] life_okD(4,5) [OF ok] in \<open>auto\<close>)
next
  case (finish_stop r)
  show ?thesis unfolding finish_stop(1)
    by (rule life_ok_over [OF ok finish_stop(2)])
      (use finish_stop in \<open>auto simp: been_up_def\<close>)
next
  case (drop_uses U)
  note d = life_okD [OF ok]
  show ?thesis unfolding drop_uses(1)
    by (rule life_okI) (use d drop_uses(2) in auto)
next
  case (create r p)
  note d = life_okD [OF ok]
  let ?b = "a\<lparr>lf_ids := insert r (lf_ids a), lf_parent := (lf_parent a)(r := Some p),
         lf_over := (lf_over a)(r := RUNNING), lf_local := (lf_local a)(r := RUNNING)\<rparr>"
  have child: "lf_child (a\<lparr>lf_ids := insert r (lf_ids a), lf_parent := (lf_parent a)(r := Some p)\<rparr>) p' c
      \<longleftrightarrow> (if c = r then p' = p else lf_child a p' c)" for p' c
    by (auto simp: lf_child_def)
  have "r \<noteq> p" using create by auto
  have fresh: "\<not> lf_child a r c" "(r, d) \<notin> lf_uses a" "(d, r) \<notin> lf_uses a" for c d
    using d(2,3) create(2) by blast+
  show ?thesis unfolding create(1)
  proof (rule life_okI)
    show "been_up (lf_over ?b c)" if "lf_child ?b p' c" "lf_local ?b p' \<noteq> CONSTRUCTED" for p' c
      using that d(4) fresh by (auto simp: child been_up_def split: if_splits)
    show "lf_over ?b c = STOPPED" if "lf_child ?b p' c" "lf_over ?b p' = STOPPED" for p' c
      using that d(6) fresh create(4) \<open>r \<noteq> p\<close> by (auto simp: child split: if_splits)
    show "p' \<in> lf_ids ?b" if "lf_child ?b p' c" for p' c
      using that d(2) create(3) by (auto simp: child split: if_splits)
    show "lf_local ?b y = RUNNING"
      if "(x, y) \<in> lf_uses ?b" "lf_local ?b x \<noteq> CONSTRUCTED" "lf_over ?b x \<noteq> STOPPED" for x y
      using that d(5) [of x y] fresh by (auto split: if_splits)
  qed (use d in auto)
next
  case (destroy r)
  note d = life_okD [OF ok]
  have child: "lf_child (a\<lparr>lf_ids := lf_ids a - {r}\<rparr>) p c \<longleftrightarrow> c \<noteq> r \<and> lf_child a p c" for p c
    by (auto simp: lf_child_def)
  show ?thesis unfolding destroy(1)
    by (rule life_okI) (use d destroy in \<open>auto simp: child\<close>)
qed

end
