(* ===== verification/RunTimeProofs.thy ===== *)
theory RunTimeProofs
  imports Life Frame
begin

section \<open>The resources implement the protocol\<close>

text \<open>
  The simulation: every operation of the running system takes the abstraction of the state
  by steps of the protocol, keeps the object graph, keeps the work flags in step with the
  queue, and fails no assertion.
\<close>

subsection \<open>Abstraction and invariants\<close>

definition uses :: "runtime \<Rightarrow> (rid \<times> rid) set" where
  "uses s = {(r, d). r \<in> set (rt_ids s) \<and> (d \<in> set (r_dep_them (rt_res s r))
     \<or> (\<exists>ref \<in> set (r_references_from (rt_res s r)). r_impl (rt_res s ref) = Some d))}"

definition life_of :: "runtime \<Rightarrow> life" where
  "life_of s = \<lparr>lf_ids = set (rt_ids s), lf_parent = (\<lambda>r. r_parent (rt_res s r)), lf_uses = uses s,
     lf_over = (\<lambda>r. overall s r), lf_local = (\<lambda>r. locally s r)\<rparr>"

text \<open>The part of an object that running does not change.\<close>

definition shape :: "resource \<Rightarrow> resource" where
  "shape x = x\<lparr>r_local := CONSTRUCTED, r_overall := CONSTRUCTED, r_work_requested := False,
     r_callback := None, r_impl := None\<rparr>"

definition static_le :: "runtime \<Rightarrow> runtime \<Rightarrow> bool" where
  "static_le s t \<longleftrightarrow> rt_ids t = rt_ids s \<and> rt_root t = rt_root s \<and> rt_services t = rt_services s
     \<and> rt_references t = rt_references s
     \<and> (\<forall>r. shape (rt_res t r) = shape (rt_res s r)
          \<and> (r_impl (rt_res t r) = r_impl (rt_res s r) \<or> r_impl (rt_res t r) = None))"

definition graph_ok :: "runtime \<Rightarrow> bool" where
  "graph_ok s \<longleftrightarrow> rt_root s \<in> set (rt_ids s) \<and> smap_ok (rt_services s)
   \<and> (\<forall>p \<in> set (rt_ids s). smap_ok (r_children (rt_res s p)) \<and> (\<forall>(n, c) \<in> set (r_children (rt_res s p)).
        c \<in> set (rt_ids s) \<and> r_parent (rt_res s c) = Some p \<and> r_name (rt_res s c) = n))
   \<and> (\<forall>c \<in> set (rt_ids s). \<forall>p. r_parent (rt_res s c) = Some p \<longrightarrow>
        p \<in> set (rt_ids s) \<and> (r_name (rt_res s c), c) \<in> set (r_children (rt_res s p)))
   \<and> (\<forall>r \<in> set (rt_ids s). \<forall>d \<in> set (r_dep_them (rt_res s r)).
        d \<in> set (rt_ids s) \<and> r \<in> set (r_dep_us (rt_res s d)))
   \<and> (\<forall>r \<in> set (rt_ids s). \<forall>u \<in> set (r_dep_us (rt_res s r)).
        u \<in> set (rt_ids s) \<and> r \<in> set (r_dep_them (rt_res s u)))
   \<and> (\<forall>ref \<in> set (rt_references s). ref \<in> set (rt_ids s)
        \<and> (\<exists>n ty. r_kind (rt_res s ref) = KReference n ty)
        \<and> (\<exists>p. r_parent (rt_res s ref) = Some p \<and> p \<in> set (rt_ids s)
             \<and> ref \<in> set (r_references_from (rt_res s p))))
   \<and> (\<forall>p \<in> set (rt_ids s). \<forall>ref \<in> set (r_references_from (rt_res s p)).
        ref \<in> set (rt_references s) \<and> r_parent (rt_res s ref) = Some p)
   \<and> (\<forall>(n, e) \<in> set (rt_services s). se_impl e \<in> set (rt_ids s)
        \<and> r_kind (rt_res s (se_impl e)) \<noteq> KResource)
   \<and> (\<forall>r \<in> set (rt_ids s). r_kind (rt_res s r) = KResource \<longrightarrow> r_dep_them (rt_res s r) = []
        \<and> r_dep_us (rt_res s r) = [] \<and> r_references_from (rt_res s r) = [])"

text \<open>An implementing service is the one registered under the name the reference asks for.\<close>

definition impl_ok :: "runtime \<Rightarrow> bool" where
  "impl_ok s \<longleftrightarrow> (\<forall>ref \<in> set (rt_ids s). \<forall>d. r_impl (rt_res s ref) = Some d \<longrightarrow>
     (\<exists>n ty e. r_kind (rt_res s ref) = KReference n ty \<and> smap_find n (rt_services s) = Some e \<and> se_impl e = d))"

text \<open>Every reference names a registered service.\<close>

definition connected :: "runtime \<Rightarrow> bool" where
  "connected s \<longleftrightarrow> (\<forall>ref \<in> set (rt_references s). \<forall>n ty.
     r_kind (rt_res s ref) = KReference n ty \<longrightarrow> smap_find n (rt_services s) \<noteq> None)"

text \<open>Work is requested exactly when the resource is in the queue, and then once.\<close>

definition work_ok :: "runtime \<Rightarrow> bool" where
  "work_ok s \<longleftrightarrow> set (rt_queue s) \<subseteq> set (rt_ids s)
     \<and> (\<forall>r. count_list (rt_queue s) r = (if r_work_requested (rt_res s r) then 1 else 0))"

definition kind_ok :: "runtime \<Rightarrow> bool" where
  "kind_ok s \<longleftrightarrow> (\<forall>r \<in> set (rt_ids s).
       (r_kind (rt_res s r) = KResource \<longrightarrow> been_up (locally s r))
     \<and> (r_callback (rt_res s r) = Some CallDisconnect \<longrightarrow> r = rt_root s \<and>
          (overall s r = STOPPING \<or> overall s r = STOPPED)))"

definition rt_ok :: "runtime \<Rightarrow> bool" where
  "rt_ok s \<longleftrightarrow> graph_ok s \<and> impl_ok s \<and> connected s \<and> work_ok s \<and> kind_ok s \<and> life_ok (life_of s)"

lemma shapeD:
  assumes "shape x = shape y"
  shows "r_parent x = r_parent y" "r_name x = r_name y" "r_full_path x = r_full_path y"
    "r_children x = r_children y" "r_references_from x = r_references_from y"
    "r_dep_them x = r_dep_them y" "r_dep_their_ref x = r_dep_their_ref y" "r_dep_us x = r_dep_us y"
    "r_kind x = r_kind y" "r_dep_our_service x = r_dep_our_service y"
  using assms by (cases x; cases y; simp add: shape_def)+

lemma static_leD:
  assumes "static_le s t"
  shows "rt_ids t = rt_ids s" "rt_root t = rt_root s" "rt_services t = rt_services s"
    "rt_references t = rt_references s"
    "r_parent (rt_res t r) = r_parent (rt_res s r)" "r_name (rt_res t r) = r_name (rt_res s r)"
    "r_children (rt_res t r) = r_children (rt_res s r)"
    "r_references_from (rt_res t r) = r_references_from (rt_res s r)"
    "r_dep_them (rt_res t r) = r_dep_them (rt_res s r)" "r_dep_us (rt_res t r) = r_dep_us (rt_res s r)"
    "r_kind (rt_res t r) = r_kind (rt_res s r)"
    "r_impl (rt_res t r) = r_impl (rt_res s r) \<or> r_impl (rt_res t r) = None"
  using assms shapeD [of "rt_res t r" "rt_res s r"] by (auto simp: static_le_def)

lemma static_le_refl: "static_le s s"
  by (simp add: static_le_def)

lemma static_le_trans: "static_le s t \<Longrightarrow> static_le t u \<Longrightarrow> static_le s u"
  unfolding static_le_def by (simp, metis)

lemma graph_ok_static: "static_le s t \<Longrightarrow> graph_ok t = graph_ok s"
  unfolding graph_ok_def by (simp add: static_leD)

lemma connected_static: "static_le s t \<Longrightarrow> connected t = connected s"
  unfolding connected_def by (simp add: static_leD)

lemma impl_ok_static: "static_le s t \<Longrightarrow> impl_ok s \<Longrightarrow> impl_ok t"
  unfolding impl_ok_def
  by (simp add: static_leD(1-4) static_leD(11)) (metis option.distinct(1) static_leD(12))

text \<open>Changes of one object.\<close>

lemma upd_simps [simp]:
  "rt_ids (upd r f s) = rt_ids s" "rt_root (upd r f s) = rt_root s"
  "rt_services (upd r f s) = rt_services s" "rt_references (upd r f s) = rt_references s"
  "rt_queue (upd r f s) = rt_queue s" "rt_called (upd r f s) = rt_called s"
  "rt_res (upd r f s) r' = (if r' = r then f (rt_res s r) else rt_res s r')"
  by (simp_all add: upd_def)

lemma static_le_upd:
  "shape (f (rt_res s r)) = shape (rt_res s r) \<Longrightarrow>
   r_impl (f (rt_res s r)) = r_impl (rt_res s r) \<or> r_impl (f (rt_res s r)) = None \<Longrightarrow>
   static_le s (upd r f s)"
  by (auto simp: static_le_def)

lemma life_of_simps [simp]:
  "lf_ids (life_of s) = set (rt_ids s)" "lf_parent (life_of s) r = r_parent (rt_res s r)"
  "lf_uses (life_of s) = uses s" "lf_over (life_of s) r = overall s r"
  "lf_local (life_of s) r = locally s r"
  "lf_child (life_of s) p c \<longleftrightarrow> c \<in> set (rt_ids s) \<and> r_parent (rt_res s c) = Some p"
  by (simp_all add: life_of_def lf_child_def)

text \<open>
  A move: the graph stays, the flags and the queue stay in step, and the levels take steps of
  the protocol. It is a frame, so sequences and loops of moves are moves.
\<close>

definition moves :: "runtime \<Rightarrow> runtime \<Rightarrow> bool" where
  "moves s t \<longleftrightarrow> static_le s t \<and> (work_ok s \<longrightarrow> work_ok t) \<and> (kind_ok s \<longrightarrow> kind_ok t)
     \<and> life_step\<^sup>*\<^sup>* (life_of s) (life_of t)"

interpretation moving: frame moves
proof
  show "moves s s" for s by (simp add: moves_def static_le_refl)
  show "moves s t \<Longrightarrow> moves t u \<Longrightarrow> moves s u" for s t u
    by (auto simp: moves_def intro: static_le_trans rtranclp_trans)
qed

lemma life_steps_ok: "life_step\<^sup>*\<^sup>* a b \<Longrightarrow> life_ok a \<Longrightarrow> life_ok b"
  by (induction rule: rtranclp_induct) (auto intro: life_step_ok)

lemma moves_rt_ok: "rt_ok s \<Longrightarrow> moves s t \<Longrightarrow> rt_ok t"
  by (auto simp: rt_ok_def moves_def graph_ok_static connected_static
      intro: impl_ok_static life_steps_ok)

text \<open>Posting work and clearing a handler change no level and nothing of the graph.\<close>

lemma PostUpdateWork_simps [simp]:
  "rt_ids (PostUpdateWork p s) = rt_ids s" "rt_root (PostUpdateWork p s) = rt_root s"
  "rt_services (PostUpdateWork p s) = rt_services s" "rt_references (PostUpdateWork p s) = rt_references s"
  "r_children (rt_res (PostUpdateWork p s) r) = r_children (rt_res s r)"
  "r_parent (rt_res (PostUpdateWork p s) r) = r_parent (rt_res s r)"
  "r_references_from (rt_res (PostUpdateWork p s) r) = r_references_from (rt_res s r)"
  "r_dep_them (rt_res (PostUpdateWork p s) r) = r_dep_them (rt_res s r)"
  "r_dep_us (rt_res (PostUpdateWork p s) r) = r_dep_us (rt_res s r)"
  "r_kind (rt_res (PostUpdateWork p s) r) = r_kind (rt_res s r)"
  "r_impl (rt_res (PostUpdateWork p s) r) = r_impl (rt_res s r)"
  "r_callback (rt_res (PostUpdateWork p s) r) = r_callback (rt_res s r)"
  "overall (PostUpdateWork p s) r = overall s r" "locally (PostUpdateWork p s) r = locally s r"
  by (auto simp: PostUpdateWork_def)

lemma life_of_eqI:
  assumes "rt_ids t = rt_ids s"
    and "\<And>r. r_parent (rt_res t r) = r_parent (rt_res s r) \<and> overall t r = overall s r \<and> locally t r = locally s r
       \<and> r_dep_them (rt_res t r) = r_dep_them (rt_res s r)
       \<and> r_references_from (rt_res t r) = r_references_from (rt_res s r) \<and> r_impl (rt_res t r) = r_impl (rt_res s r)"
  shows "life_of t = life_of s"
  using assms by (simp add: life_of_def uses_def)

lemma life_of_post [simp]: "life_of (PostUpdateWork p s) = life_of s"
  by (rule life_of_eqI) simp_all

lemma work_ok_post: "work_ok s \<Longrightarrow> p \<in> set (rt_ids s) \<Longrightarrow> work_ok (PostUpdateWork p s)"
  by (auto simp: work_ok_def PostUpdateWork_def)

lemma shape_post: "shape (rt_res (PostUpdateWork p s) r) = shape (rt_res s r)"
  by (simp add: PostUpdateWork_def shape_def)

lemma moves_post:
  assumes "p \<in> set (rt_ids s)"
  shows "moves s (PostUpdateWork p s)"
  using assms by (auto simp: moves_def static_le_def shape_post work_ok_post kind_ok_def)

subsection \<open>Operations\<close>

lemma fold_res_total_inv:
  assumes "\<And>x u. x \<in> set xs \<Longrightarrow> P u \<Longrightarrow> \<exists>t. f x u = Inr t \<and> P t" and "P s"
  shows "\<exists>t. fold_res f xs s = Inr t \<and> P t"
  using assms
proof (induction xs arbitrary: s)
  case Nil
  then show ?case by simp
next
  case (Cons x xs)
  obtain t where "f x s = Inr t" "P t"
    using Cons.prems(1) [of x s] Cons.prems(2) by auto
  then show ?case
    using Cons.IH [of t] Cons.prems(1) by simp
qed

lemma set_simps [simp]:
  "rt_ids (set_overall r l s) = rt_ids s" "rt_root (set_overall r l s) = rt_root s"
  "rt_services (set_overall r l s) = rt_services s" "rt_references (set_overall r l s) = rt_references s"
  "rt_ids (set_local r l s) = rt_ids s" "rt_root (set_local r l s) = rt_root s"
  "rt_services (set_local r l s) = rt_services s" "rt_references (set_local r l s) = rt_references s"
  "rt_res (set_overall r l s) r' = (if r' = r then (rt_res s r)\<lparr>r_overall := l\<rparr> else rt_res s r')"
  "rt_res (set_local r l s) r' = (if r' = r then (rt_res s r)\<lparr>r_local := l\<rparr> else rt_res s r')"
  by (simp_all add: set_overall_def set_local_def)

lemma life_of_set_overall:
  "life_of (set_overall r l s) = (life_of s)\<lparr>lf_over := (lf_over (life_of s))(r := l)\<rparr>"
  by (auto simp: life_of_def uses_def fun_eq_iff)

lemma life_of_set_local:
  "life_of (set_local r l s) = (life_of s)\<lparr>lf_local := (lf_local (life_of s))(r := l)\<rparr>"
  by (auto simp: life_of_def uses_def fun_eq_iff)

lemma shape_set [simp]:
  "shape (x\<lparr>r_overall := l\<rparr>) = shape x" "shape (x\<lparr>r_local := l\<rparr>) = shape x"
  "shape (x\<lparr>r_callback := cb\<rparr>) = shape x" "shape (x\<lparr>r_work_requested := b\<rparr>) = shape x"
  "shape (x\<lparr>r_impl := i\<rparr>) = shape x"
  by (simp_all add: shape_def)

lemma moves_set_overall:
  assumes "life_step (life_of s) (life_of (set_overall r l s))"
    and "r_callback (rt_res s r) = Some CallDisconnect \<Longrightarrow> l = STOPPING \<or> l = STOPPED"
  shows "moves s (set_overall r l s)"
  using assms by (auto simp: moves_def static_le_def work_ok_def kind_ok_def set_overall_def)

lemma moves_set_local:
  assumes "life_step (life_of s) (life_of (set_local r l s))"
    and "r_kind (rt_res s r) = KResource \<Longrightarrow> been_up l"
  shows "moves s (set_local r l s)"
  using assms by (auto simp: moves_def static_le_def work_ok_def kind_ok_def set_local_def)

lemma RequestStart_moves:
  assumes r: "r \<in> set (rt_ids s)" and c: "overall s r = CONSTRUCTED"
    and cb: "cb \<noteq> Some CallDisconnect"
  shows "\<exists>t. RequestStart r cb s = Inr t \<and> moves s t \<and> (\<forall>r'. locally t r' = locally s r')
     \<and> (\<forall>r'. overall t r' = (if r' = r then STARTING else overall s r'))"
proof -
  let ?s1 = "upd r (\<lambda>x. x\<lparr>r_callback := cb\<rparr>) s"
  have l1: "life_of ?s1 = life_of s"
    by (rule life_of_eqI) simp_all
  have "moves s ?s1"
    using cb l1 by (auto simp: moves_def static_le_def work_ok_def kind_ok_def)
  also have "life_step (life_of ?s1) (life_of (set_overall r STARTING ?s1))"
    unfolding life_of_set_overall by (rule life_step.request_start) (use r c in auto)
  then have "moves ?s1 (set_overall r STARTING ?s1)"
    by (rule moves_set_overall) (use cb in simp)
  finally (moving.R_trans) have "moves s (set_overall r STARTING ?s1)" .
  moreover have "moves (set_overall r STARTING ?s1) (PostUpdateWork r (set_overall r STARTING ?s1))"
    by (rule moves_post) (use r in simp)
  ultimately have "moves s (PostUpdateWork r (set_overall r STARTING ?s1))"
    by (rule moving.R_trans)
  then show ?thesis
    using c by (auto simp: RequestStart_def bbox_assert_def)
qed

lemma RequestStop_moves:
  assumes r: "r \<in> set (rt_ids s)" and c: "overall s r = RUNNING"
    and cb: "cb = Some CallDisconnect \<Longrightarrow> r = rt_root s"
  shows "\<exists>t. RequestStop r cb s = Inr t \<and> moves s t \<and> (\<forall>r'. locally t r' = locally s r')
     \<and> (\<forall>r'. overall t r' = (if r' = r then STOPPING else overall s r'))"
proof -
  let ?s1 = "upd r (\<lambda>x. x\<lparr>r_callback := cb\<rparr>) s"
  let ?s2 = "set_overall r STOPPING ?s1"
  have l1: "life_of ?s1 = life_of s"
    by (rule life_of_eqI) simp_all
  have "life_step (life_of ?s1) (life_of ?s2)"
    unfolding life_of_set_overall by (rule life_step.request_stop) (use r c in auto)
  then have "moves s ?s2"
    unfolding l1 using cb
    by (auto simp: moves_def static_le_def work_ok_def kind_ok_def set_overall_def)
  moreover have "moves ?s2 (PostUpdateWork r ?s2)"
    by (rule moves_post) (use r in simp)
  ultimately have "moves s (PostUpdateWork r ?s2)"
    by (rule moving.R_trans)
  then show ?thesis
    using c by (auto simp: RequestStop_def bbox_assert_def)
qed

lemma NotifyStarted_moves:
  assumes r: "r \<in> set (rt_ids s)" and c: "locally s r = STARTING"
  shows "\<exists>t. NotifyStarted r s = Inr t \<and> moves s t"
proof -
  have "life_step (life_of s) (life_of (set_local r RUNNING s))"
    unfolding life_of_set_local by (rule life_step.notify_started) (use r c in auto)
  then have "moves s (set_local r RUNNING s)"
    by (rule moves_set_local) (simp add: been_up_def)
  moreover have "moves (set_local r RUNNING s) (PostUpdateWork r (set_local r RUNNING s))"
    by (rule moves_post) (use r in simp)
  ultimately show ?thesis
    using c by (auto simp: NotifyStarted_def bbox_assert_def intro: moving.R_trans)
qed

lemma NotifyStopped_moves:
  assumes r: "r \<in> set (rt_ids s)" and c: "locally s r = STOPPING"
  shows "\<exists>t. NotifyStopped r s = Inr t \<and> moves s t \<and> locally t r = STOPPED"
proof -
  have "life_step (life_of s) (life_of (set_local r STOPPED s))"
    unfolding life_of_set_local by (rule life_step.notify_stopped) (use r c in auto)
  then have "moves s (set_local r STOPPED s)"
    by (rule moves_set_local) (simp add: been_up_def)
  moreover have "moves (set_local r STOPPED s) (PostUpdateWork r (set_local r STOPPED s))"
    by (rule moves_post) (use r in simp)
  ultimately show ?thesis
    using c by (auto simp: NotifyStopped_def bbox_assert_def intro: moving.R_trans)
qed

lemma rt_okD:
  assumes "rt_ok s"
  shows "graph_ok s" "impl_ok s" "connected s" "work_ok s" "kind_ok s" "life_ok (life_of s)"
  using assms by (simp_all add: rt_ok_def)

lemma children_in_graph:
  assumes "graph_ok s" and "p \<in> set (rt_ids s)"
  shows "(n, c) \<in> set (r_children (rt_res s p)) \<Longrightarrow> c \<in> set (rt_ids s) \<and> r_parent (rt_res s c) = Some p"
    and "c \<in> set (rt_ids s) \<Longrightarrow> r_parent (rt_res s c) = Some p \<Longrightarrow>
           (r_name (rt_res s c), c) \<in> set (r_children (rt_res s p))"
  using assms unfolding graph_ok_def by fastforce+

lemma RequestStopAllChildren_moves:
  assumes ok: "rt_ok s" and p: "p \<in> set (rt_ids s)" and up: "locally s p \<noteq> CONSTRUCTED"
  shows "\<exists>t. RequestStopAllChildren p s = Inr t \<and> moves s t"
proof -
  let ?P = "\<lambda>u. moves s u \<and> (\<forall>(n, c) \<in> set (r_children (rt_res s p)). been_up (overall u c))"
  have "been_up (overall s c)" if "(n, c) \<in> set (r_children (rt_res s p))" for n c
    using life_okD(4) [OF rt_okD(6) [OF ok], of p c] up
      children_in_graph(1) [OF rt_okD(1) [OF ok] p that] by simp
  then have "?P s"
    by (auto simp: moving.R_refl)
  then have "\<exists>t. fold_res stop_child (r_children (rt_res s p)) s = Inr t \<and> ?P t"
  proof (rule fold_res_total_inv [rotated])
    fix e u
    assume e: "e \<in> set (r_children (rt_res s p))" and u: "?P u"
    obtain n c where nc: "e = (n, c)" by fastforce
    have c: "c \<in> set (rt_ids u)"
      using children_in_graph(1) [OF rt_okD(1) [OF ok] p] e nc u
      by (auto simp: moves_def static_leD(1))
    have bu: "overall u c = RUNNING \<or> overall u c = STOPPING \<or> overall u c = STOPPED"
      using u e nc by (auto simp: been_up_def)
    show "\<exists>t. stop_child e u = Inr t \<and> ?P t"
    proof (cases "overall u c = RUNNING")
      case True
      from RequestStop_moves [OF c True, of None] obtain t where t: "RequestStop c None u = Inr t"
        "moves u t" "\<forall>r'. overall t r' = (if r' = c then STOPPING else overall u r')" by auto
      have "stop_child e u = Inr t"
        using t(1) True by (simp add: stop_child_def nc bbox_assert_def)
      moreover have "?P t"
        using u t(2,3) moving.R_trans [of s u t] by (auto simp: been_up_def)
      ultimately show ?thesis by blast
    next
      case False
      then show ?thesis
        using bu u by (auto simp: stop_child_def nc bbox_assert_def)
    qed
  qed
  then show ?thesis by (auto simp: RequestStopAllChildren_def)
qed

subsection \<open>The work item\<close>

lemma HandleStarting_moves:
  assumes r: "r \<in> set (rt_ids s)" and c: "locally s r = STARTING" and k: "r_kind (rt_res s r) \<noteq> KResource"
  shows "\<exists>t. HandleStarting r s = Inr t \<and> moves s t"
  using NotifyStarted_moves [OF r c] k
  by (cases "r_kind (rt_res s r)") (auto simp: HandleStarting_def moving.R_refl)

lemma HandleStopping_moves:
  assumes ok: "rt_ok s" and r: "r \<in> set (rt_ids s)" and c: "locally s r = STOPPING"
  shows "\<exists>t. HandleStopping r s = Inr t \<and> moves s t"
proof -
  obtain t where t: "NotifyStopped r s = Inr t" "moves s t" "locally t r = STOPPED"
    using NotifyStopped_moves [OF r c] by blast
  have "r \<in> set (rt_ids t)" using r t(2) by (auto simp: moves_def static_leD(1))
  then obtain u where "RequestStopAllChildren r t = Inr u" "moves t u"
    using RequestStopAllChildren_moves [OF moves_rt_ok [OF ok t(2)], of r] t(3) by auto
  then have "\<exists>u. bind_res (NotifyStopped r s) (RequestStopAllChildren r) = Inr u \<and> moves s u"
    using t by (auto intro: moving.R_trans)
  then show ?thesis
    by (cases "r_kind (rt_res s r)") (auto simp: HandleStopping_def moving.R_refl)
qed

lemma start_children_moves:
  assumes ok: "rt_ok s" and p: "p \<in> set (rt_ids s)" and sub: "set es \<subseteq> set (r_children (rt_res s p))"
  shows "\<exists>t. fold_res start_child es s = Inr t \<and> moves s t"
proof (rule fold_res_total_inv)
  show "moves s s" by (rule moving.R_refl)
  fix e u
  assume e: "e \<in> set es" and u: "moves s u"
  obtain n c where nc: "e = (n, c)" by fastforce
  have c: "c \<in> set (rt_ids u)"
    using children_in_graph(1) [OF rt_okD(1) [OF ok] p] e nc sub u
    by (auto simp: moves_def static_leD(1))
  show "\<exists>t. start_child e u = Inr t \<and> moves s t"
  proof (cases "overall u c = CONSTRUCTED")
    case True
    from RequestStart_moves [OF c True, of None] obtain t where "RequestStart c None u = Inr t" "moves u t"
      by auto
    then show ?thesis
      using u True by (auto simp: start_child_def nc intro: moving.R_trans)
  qed (use u in \<open>simp add: start_child_def nc\<close>)
qed

lemma start_children_running:
  "\<forall>e \<in> set es. overall s (snd e) = RUNNING \<Longrightarrow> fold_res start_child es s = Inr s"
  by (induction es) (auto simp: start_child_def Let_def)

text \<open>Reading the references of a resource: what the loops compute.\<close>

lemma refs_running_value:
  assumes g: "graph_ok s" and c: "connected s" and r: "r \<in> set (rt_ids s)"
  shows "\<exists>b. refs_running r s = Inr b \<and> (b \<longrightarrow> (\<forall>ref \<in> set (r_references_from (rt_res s r)). \<forall>n ty e.
      r_kind (rt_res s ref) = KReference n ty \<longrightarrow> smap_find n (rt_services s) = Some e \<longrightarrow>
      overall s (se_impl e) = RUNNING))"
proof -
  have entry: "\<exists>n ty e. r_kind (rt_res s ref) = KReference n ty \<and> smap_find n (rt_services s) = Some e"
    if "ref \<in> set (r_references_from (rt_res s r))" for ref
  proof -
    have "ref \<in> set (rt_references s)" using g r that unfolding graph_ok_def by blast
    moreover from this obtain n ty where "r_kind (rt_res s ref) = KReference n ty"
      using g unfolding graph_ok_def by blast
    ultimately show ?thesis using c unfolding connected_def by blast
  qed
  let ?f = "\<lambda>ref all_running. case r_kind (rt_res s ref) of
         KReference ref_name _ \<Rightarrow> (case smap_find ref_name (rt_services s) of
              None \<Rightarrow> Inl (AssertFailed ''false'')
            | Some entry \<Rightarrow> Inr (all_running \<and> overall s (se_impl entry) = RUNNING))
       | _ \<Rightarrow> Inl NullPointer"
  have "\<exists>b. fold_res ?f refs b0 = Inr b \<and> (b \<longrightarrow> b0 \<and> (\<forall>ref \<in> set refs. \<forall>n ty e.
      r_kind (rt_res s ref) = KReference n ty \<longrightarrow> smap_find n (rt_services s) = Some e \<longrightarrow>
      overall s (se_impl e) = RUNNING))" if "set refs \<subseteq> set (r_references_from (rt_res s r))" for refs b0
    using that
  proof (induction refs arbitrary: b0)
    case Nil
    then show ?case by simp
  next
    case (Cons ref refs)
    obtain n ty e where e: "r_kind (rt_res s ref) = KReference n ty" "smap_find n (rt_services s) = Some e"
      using entry [of ref] Cons.prems by auto
    have "set refs \<subseteq> set (r_references_from (rt_res s r))" using Cons.prems by simp
    from Cons.IH [OF this, of "b0 \<and> overall s (se_impl e) = RUNNING"]
    obtain b where b: "fold_res ?f refs (b0 \<and> overall s (se_impl e) = RUNNING) = Inr b"
      "b \<longrightarrow> (b0 \<and> overall s (se_impl e) = RUNNING) \<and> (\<forall>ref \<in> set refs. \<forall>n ty e.
      r_kind (rt_res s ref) = KReference n ty \<longrightarrow> smap_find n (rt_services s) = Some e \<longrightarrow>
      overall s (se_impl e) = RUNNING)" by blast
    have "fold_res ?f (ref # refs) b0 = Inr b"
      using b(1) e by simp
    then show ?case
      using b(2) e by auto
  qed
  from this [of "r_references_from (rt_res s r)" True] show ?thesis
    unfolding refs_running_def by auto
qed

lemma user_parent:
  assumes g: "graph_ok s" and ref: "ref \<in> set (rt_references s)"
  shows "\<exists>p. r_parent (rt_res s ref) = Some p \<and> p \<in> set (rt_ids s) \<and> ref \<in> set (r_references_from (rt_res s p))"
  using assms unfolding graph_ok_def by blast

lemma users_stopped_value:
  assumes g: "graph_ok s"
  shows "\<exists>b. users_stopped r s = Inr b \<and> (b \<longrightarrow> (\<forall>ref \<in> set (rt_references s). \<forall>p.
      r_impl (rt_res s ref) = Some r \<longrightarrow> r_parent (rt_res s ref) = Some p \<longrightarrow> overall s p = STOPPED))"
proof -
  let ?f = "\<lambda>ref all_stopped. if r_impl (rt_res s ref) = Some r then
         (case r_parent (rt_res s ref) of
            None \<Rightarrow> Inl (AssertFailed ''ref_ptr->m_parent_ptr'')
          | Some p \<Rightarrow> Inr (all_stopped \<and> overall s p = STOPPED))
       else Inr all_stopped"
  have "\<exists>b. fold_res ?f refs b0 = Inr b \<and> (b \<longrightarrow> b0 \<and> (\<forall>ref \<in> set refs. \<forall>p.
      r_impl (rt_res s ref) = Some r \<longrightarrow> r_parent (rt_res s ref) = Some p \<longrightarrow> overall s p = STOPPED))"
    if "set refs \<subseteq> set (rt_references s)" for refs b0
    using that
  proof (induction refs arbitrary: b0)
    case Nil
    then show ?case by simp
  next
    case (Cons ref refs)
    obtain p where p: "r_parent (rt_res s ref) = Some p"
      using user_parent [OF g, of ref] Cons.prems by auto
    define b1 where "b1 = (if r_impl (rt_res s ref) = Some r then b0 \<and> overall s p = STOPPED else b0)"
    have "set refs \<subseteq> set (rt_references s)" using Cons.prems by simp
    from Cons.IH [OF this, of b1] obtain b where b: "fold_res ?f refs b1 = Inr b"
      "b \<longrightarrow> b1 \<and> (\<forall>ref \<in> set refs. \<forall>p. r_impl (rt_res s ref) = Some r \<longrightarrow>
        r_parent (rt_res s ref) = Some p \<longrightarrow> overall s p = STOPPED)" by blast
    have "?f ref b0 = Inr b1"
      using p by (simp add: b1_def)
    then have "fold_res ?f (ref # refs) b0 = Inr b"
      using b(1) by simp
    then show ?case
      using b(2) p by (auto simp: b1_def split: if_splits)
  qed
  from this [of "rt_references s" True] show ?thesis
    unfolding users_stopped_def by auto
qed

text \<open>Posting to neighbours is a sequence of moves that change no level.\<close>

definition calm :: "runtime \<Rightarrow> runtime \<Rightarrow> bool" where
  "calm s t \<longleftrightarrow> moves s t \<and> (\<forall>r. overall t r = overall s r \<and> locally t r = locally s r
     \<and> r_impl (rt_res t r) = r_impl (rt_res s r) \<and> r_callback (rt_res t r) = r_callback (rt_res s r))"

interpretation calming: frame calm
proof
  show "calm s s" for s by (simp add: calm_def moving.R_refl)
  show "calm s t \<Longrightarrow> calm t u \<Longrightarrow> calm s u" for s t u
    by (auto simp: calm_def intro: moving.R_trans)
qed

lemma calm_static: "calm s t \<Longrightarrow> static_le s t"
  by (simp add: calm_def moves_def)

lemma calm_post: "p \<in> set (rt_ids s) \<Longrightarrow> calm s (PostUpdateWork p s)"
  by (auto simp: calm_def moves_post)

lemma calm_fold:
  assumes "\<And>d u. d \<in> set ds \<Longrightarrow> calm s u \<Longrightarrow> calm u (f d u)"
  shows "calm s (fold f ds s)"
proof -
  have "calm s u \<Longrightarrow> (\<And>d u. d \<in> set ds \<Longrightarrow> calm s u \<Longrightarrow> calm u (f d u)) \<Longrightarrow> calm s (fold f ds u)" for u
  proof (induction ds arbitrary: u)
    case (Cons d ds)
    have "calm s (f d u)"
      using Cons.prems(1) Cons.prems(2) [of d u] by (auto intro: calming.R_trans)
    then show ?case using Cons by simp
  qed simp
  then show ?thesis using assms calming.R_refl by blast
qed

lemma calm_post_if:
  assumes "\<And>d. d \<in> set ds \<Longrightarrow> d \<in> set (rt_ids s)"
  shows "calm s (fold (\<lambda>d s. if Q s d then PostUpdateWork d s else s) ds s)"
  by (rule calm_fold) (use assms in \<open>auto simp: calming.R_refl static_leD(1) [OF calm_static] intro: calm_post\<close>)

lemma calm_post_parent:
  assumes "graph_ok s" and "r \<in> set (rt_ids s)"
  shows "calm s (post_parent r s)"
proof -
  have "p \<in> set (rt_ids s)" if "r_parent (rt_res s r) = Some p" for p
    using assms that unfolding graph_ok_def by blast
  then show ?thesis
    by (auto simp: post_parent_def calming.R_refl intro: calm_post split: option.splits)
qed

lemma for_users_calm:
  assumes g: "graph_ok s"
  shows "\<exists>t. for_users r PostUpdateWork s = Inr t \<and> calm s t"
  unfolding for_users_def
proof (rule fold_res_total_inv)
  show "calm s s" by (rule calming.R_refl)
  fix ref u
  assume ref: "ref \<in> set (rt_references s)" and u: "calm s u"
  obtain p where p: "r_parent (rt_res s ref) = Some p" "p \<in> set (rt_ids s)"
    using user_parent [OF g ref] by blast
  have "p \<in> set (rt_ids u)" "r_parent (rt_res u ref) = Some p"
    using p calm_static [OF u] by (simp_all add: static_leD)
  then show "\<exists>t. (if r_impl (rt_res u ref) = Some r then
         (case r_parent (rt_res u ref) of
            None \<Rightarrow> Inl (AssertFailed ''ref_ptr->m_parent_ptr'')
          | Some p \<Rightarrow> Inr (PostUpdateWork p u))
       else Inr u) = Inr t \<and> calm s t"
    using u by (auto intro: calming.R_trans calm_post)
qed

text \<open>Calling back; the proactor's handler drops every implementing service.\<close>

lemma moves_clear_callback: "moves s (upd r (\<lambda>x. x\<lparr>r_callback := None\<rparr>) s)"
proof -
  have "life_of (upd r (\<lambda>x. x\<lparr>r_callback := None\<rparr>) s) = life_of s"
    by (rule life_of_eqI) simp_all
  then show ?thesis
    by (auto simp: moves_def static_le_def work_ok_def kind_ok_def)
qed

lemma moves_drop_impl: "moves s (upd ref (\<lambda>x. x\<lparr>r_impl := None\<rparr>) s)"
proof -
  let ?t = "upd ref (\<lambda>x. x\<lparr>r_impl := None\<rparr>) s"
  have "uses ?t \<subseteq> uses s"
    by (auto simp: uses_def split: if_splits)
  then have "life_step (life_of s) ((life_of s)\<lparr>lf_uses := uses ?t\<rparr>)"
    by (intro life_step.drop_uses) simp
  moreover have "(life_of s)\<lparr>lf_uses := uses ?t\<rparr> = life_of ?t"
    by (simp add: life_of_def fun_eq_iff)
  ultimately show ?thesis
    by (auto simp: moves_def static_le_def work_ok_def kind_ok_def)
qed

lemma run_callback_moves:
  assumes "r_callback (rt_res s r) = Some CallDisconnect \<Longrightarrow> overall s (rt_root s) = STOPPED"
  shows "\<exists>t. run_callback r s = Inr t \<and> moves s t"
proof -
  let ?s1 = "upd r (\<lambda>x. x\<lparr>r_callback := None\<rparr>) s"
  have 1: "moves s ?s1" by (rule moves_clear_callback)
  have called: "moves u (u\<lparr>rt_called := cs\<rparr>)" for u cs
  proof -
    have "life_of (u\<lparr>rt_called := cs\<rparr>) = life_of u" by (rule life_of_eqI) simp_all
    then show ?thesis by (simp add: moves_def static_le_def work_ok_def kind_ok_def)
  qed
  have drop: "moves u (fold (\<lambda>ref. upd ref (\<lambda>x. x\<lparr>r_impl := None\<rparr>)) refs u)" for u refs
    by (induction refs arbitrary: u) (auto simp: moving.R_refl intro: moving.R_trans moves_drop_impl)
  show ?thesis
  proof (cases "r_callback (rt_res s r)")
    case None
    then show ?thesis using 1 by (simp add: run_callback_def)
  next
    case (Some cb)
    then show ?thesis
      using assms 1 moving.R_trans [OF 1 called] moving.R_trans [OF 1 drop]
      by (cases cb) (auto simp: run_callback_def DisconnectRegisteredServices_def bbox_assert_def Let_def)
  qed
qed

subsection \<open>Every work item is a sequence of protocol steps\<close>

lemma uses_target:
  assumes "graph_ok s" and "r \<in> set (rt_ids s)"
  shows "(u, r) \<in> uses s \<longleftrightarrow> u \<in> set (rt_ids s) \<and> (u \<in> set (r_dep_us (rt_res s r)) \<or>
     (\<exists>ref \<in> set (rt_references s). r_impl (rt_res s ref) = Some r \<and> r_parent (rt_res s ref) = Some u))"
proof -
  have dep: "r \<in> set (r_dep_them (rt_res s u)) \<longleftrightarrow> u \<in> set (r_dep_us (rt_res s r))" if "u \<in> set (rt_ids s)"
    using assms that unfolding graph_ok_def by blast
  have refs: "ref \<in> set (r_references_from (rt_res s u)) \<longleftrightarrow>
      ref \<in> set (rt_references s) \<and> r_parent (rt_res s ref) = Some u" if "u \<in> set (rt_ids s)" for ref
  proof
    assume "ref \<in> set (r_references_from (rt_res s u))"
    then show "ref \<in> set (rt_references s) \<and> r_parent (rt_res s ref) = Some u"
      using assms that unfolding graph_ok_def by blast
  next
    assume "ref \<in> set (rt_references s) \<and> r_parent (rt_res s ref) = Some u"
    then show "ref \<in> set (r_references_from (rt_res s u))"
      using user_parent [OF assms(1), of ref] by auto
  qed
  show ?thesis
    using dep refs by (auto simp: uses_def)
qed

lemma handle_start_moves:
  assumes ok: "rt_ok s" and r: "r \<in> set (rt_ids s)"
    and lev: "overall s r = STARTING" "locally s r = CONSTRUCTED"
  shows "\<exists>t. handle_start r s = Inr t \<and> moves s t"
proof -
  obtain s1 where s1: "fold_res start_child (r_children (rt_res s r)) s = Inr s1" "moves s s1"
    using start_children_moves [OF ok r order_refl] by blast
  have ok1: "rt_ok s1" and r1: "r \<in> set (rt_ids s1)"
    using moves_rt_ok [OF ok s1(2)] r s1(2) by (auto simp: moves_def static_leD(1))
  obtain b where b: "refs_running r s1 = Inr b" "b \<longrightarrow> (\<forall>ref \<in> set (r_references_from (rt_res s1 r)). \<forall>n ty e.
      r_kind (rt_res s1 ref) = KReference n ty \<longrightarrow> smap_find n (rt_services s1) = Some e \<longrightarrow>
      overall s1 (se_impl e) = RUNNING)"
    using refs_running_value [OF rt_okD(1,3) [OF ok1] r1] by blast
  let ?kids = "\<forall>e \<in> set (r_children (rt_res s r)). overall s (snd e) = RUNNING"
  let ?deps = "\<forall>d \<in> set (r_dep_them (rt_res s1 r)). overall s1 d = RUNNING"
  show ?thesis
  proof (cases "?kids \<and> b \<and> ?deps")
    case False
    then have "handle_start r s = Inr s1"
      using s1(1) b(1) by (auto simp: handle_start_def Let_def)
    then show ?thesis using s1(2) by simp
  next
    case True
    then have same: "s1 = s"
      using start_children_running [of "r_children (rt_res s r)" s] s1(1) by simp
    have kids: "overall s c = RUNNING" if "c \<in> set (rt_ids s)" "r_parent (rt_res s c) = Some r" for c
      using True children_in_graph(2) [OF rt_okD(1) [OF ok] r that] by auto
    have deps: "overall s d = RUNNING" if "(r, d) \<in> uses s" for d
    proof (cases "d \<in> set (r_dep_them (rt_res s r))")
      case False
      then obtain ref where ref: "ref \<in> set (r_references_from (rt_res s r))" "r_impl (rt_res s ref) = Some d"
        using \<open>(r, d) \<in> uses s\<close> by (auto simp: uses_def)
      then have "ref \<in> set (rt_ids s)"
        using rt_okD(1) [OF ok] r unfolding graph_ok_def by blast
      then obtain n ty e where e: "r_kind (rt_res s ref) = KReference n ty"
        "smap_find n (rt_services s) = Some e" "se_impl e = d"
        using rt_okD(2) [OF ok] ref(2) unfolding impl_ok_def by blast
      then show ?thesis
        using b(2) True ref(1) unfolding same by blast
    qed (use True in \<open>simp add: same\<close>)
    have "life_step (life_of s) (life_of (set_local r STARTING s))"
      unfolding life_of_set_local by (rule life_step.begin_start) (use r lev kids deps in auto)
    moreover have k: "r_kind (rt_res s r) \<noteq> KResource"
      using rt_okD(5) [OF ok] r lev(2) by (auto simp: kind_ok_def been_up_def)
    ultimately have m: "moves s (set_local r STARTING s)"
      by (intro moves_set_local) simp_all
    obtain t where "HandleStarting r (set_local r STARTING s) = Inr t" "moves (set_local r STARTING s) t"
      using HandleStarting_moves [of r "set_local r STARTING s"] r k by auto
    moreover have "handle_start r s = HandleStarting r (set_local r STARTING s)"
      using True s1(1) b(1) by (auto simp: handle_start_def Let_def same)
    ultimately show ?thesis
      using m by (auto intro: moving.R_trans)
  qed
qed

lemma handle_started_moves:
  assumes ok: "rt_ok s" and r: "r \<in> set (rt_ids s)"
    and lev: "overall s r = STARTING" "locally s r = RUNNING"
  shows "\<exists>t. handle_started r s = Inr t \<and> moves s t"
proof -
  have nocb: "r_callback (rt_res s r) \<noteq> Some CallDisconnect"
    using rt_okD(5) [OF ok] r lev by (auto simp: kind_ok_def)
  let ?s1 = "set_overall r RUNNING s"
  have "life_step (life_of s) (life_of ?s1)"
    unfolding life_of_set_overall by (rule life_step.finish_start) (use r lev in auto)
  then have m1: "moves s ?s1"
    by (rule moves_set_overall) (use nocb in simp)
  then have ok1: "rt_ok ?s1" by (rule moves_rt_ok [OF ok])
  have c2: "calm ?s1 (post_parent r ?s1)"
    by (rule calm_post_parent [OF rt_okD(1) [OF ok1]]) (use r in simp)
  have g2: "graph_ok (post_parent r ?s1)"
    using rt_okD(1) [OF ok1] graph_ok_static [OF calm_static [OF c2]] by simp
  obtain s3 where s3: "for_users r PostUpdateWork (post_parent r ?s1) = Inr s3" "calm (post_parent r ?s1) s3"
    using for_users_calm [OF g2] by blast
  have c3: "calm ?s1 s3" by (rule calming.R_trans [OF c2 s3(2)])
  then have g3: "graph_ok s3" and r3: "r \<in> set (rt_ids s3)"
    using rt_okD(1) [OF ok1] graph_ok_static [OF calm_static [OF c3]] r static_leD(1) [OF calm_static [OF c3]]
    by simp_all
  let ?s4 = "fold (\<lambda>d s. if overall s d = STARTING then PostUpdateWork d s else s) (r_dep_us (rt_res s3 r)) s3"
  have "calm s3 ?s4"
    by (rule calm_post_if) (use g3 r3 in \<open>unfold graph_ok_def, blast\<close>)
  then have c4: "calm ?s1 ?s4" by (rule calming.R_trans [OF c3])
  obtain t where "run_callback r ?s4 = Inr t" "moves ?s4 t"
    using run_callback_moves [of ?s4 r] c4 nocb by (auto simp: calm_def)
  then show ?thesis
    using s3(1) m1 c4 by (auto simp: handle_started_def calm_def intro: moving.R_trans)
qed

lemma handle_stop_moves:
  assumes ok: "rt_ok s" and r: "r \<in> set (rt_ids s)"
    and lev: "overall s r = STOPPING" "locally s r = RUNNING"
  shows "\<exists>t. handle_stop r s = Inr t \<and> moves s t"
proof -
  obtain b where b: "users_stopped r s = Inr b" "b \<longrightarrow> (\<forall>ref \<in> set (rt_references s). \<forall>p.
      r_impl (rt_res s ref) = Some r \<longrightarrow> r_parent (rt_res s ref) = Some p \<longrightarrow> overall s p = STOPPED)"
    using users_stopped_value [OF rt_okD(1) [OF ok]] by blast
  show ?thesis
  proof (cases "b \<and> (\<forall>d \<in> set (r_dep_us (rt_res s r)). overall s d = STOPPED)")
    case False
    then show ?thesis
      using b(1) by (auto simp: handle_stop_def moving.R_refl)
  next
    case True
    have "overall s u = STOPPED" if "(u, r) \<in> uses s" for u
      using that True b(2) uses_target [OF rt_okD(1) [OF ok] r] by auto
    then have "life_step (life_of s) (life_of (set_local r STOPPING s))"
      unfolding life_of_set_local by (intro life_step.begin_stop) (use r lev in auto)
    then have m: "moves s (set_local r STOPPING s)"
      by (rule moves_set_local) (simp add: been_up_def)
    obtain t where "HandleStopping r (set_local r STOPPING s) = Inr t" "moves (set_local r STOPPING s) t"
      using HandleStopping_moves [OF moves_rt_ok [OF ok m], of r] r by auto
    then show ?thesis
      using True b(1) m by (auto simp: handle_stop_def intro: moving.R_trans)
  qed
qed

lemma handle_stopped_moves:
  assumes ok: "rt_ok s" and r: "r \<in> set (rt_ids s)"
    and lev: "overall s r = STOPPING" "locally s r = STOPPED"
  shows "\<exists>t. handle_stopped r s = Inr t \<and> moves s t"
proof (cases "\<forall>e \<in> set (r_children (rt_res s r)). overall s (snd e) = STOPPED")
  case False
  then show ?thesis by (auto simp: handle_stopped_def moving.R_refl)
next
  case True
  let ?s1 = "set_overall r STOPPED s"
  have kids: "overall s c = STOPPED" if "c \<in> set (rt_ids s)" "r_parent (rt_res s c) = Some r" for c
    using True children_in_graph(2) [OF rt_okD(1) [OF ok] r that] by auto
  have "life_step (life_of s) (life_of ?s1)"
    unfolding life_of_set_overall by (rule life_step.finish_stop) (use r lev kids in auto)
  then have m1: "moves s ?s1"
    by (rule moves_set_overall) simp
  then have ok1: "rt_ok ?s1" by (rule moves_rt_ok [OF ok])
  have r1: "r \<in> set (rt_ids ?s1)" using r by simp
  let ?s2 = "post_parent r ?s1"
  have c2: "calm ?s1 ?s2"
    by (rule calm_post_parent [OF rt_okD(1) [OF ok1] r1])
  have impl: "d \<in> set (rt_ids ?s1)" if ref: "ref \<in> set (r_references_from (rt_res ?s1 r))"
    and d: "r_impl (rt_res ?s1 ref) = Some d" for ref d
  proof -
    have "ref \<in> set (rt_ids ?s1)"
      using rt_okD(1) [OF ok1] r1 ref unfolding graph_ok_def by blast
    then obtain n e where "smap_find n (rt_services ?s1) = Some e" "se_impl e = d"
      using rt_okD(2) [OF ok1] d unfolding impl_ok_def by blast
    then show ?thesis
      using rt_okD(1) [OF ok1] map_of_SomeD unfolding graph_ok_def by fastforce
  qed
  let ?s3 = "fold (\<lambda>ref s. case r_impl (rt_res s ref) of None \<Rightarrow> s | Some d \<Rightarrow> PostUpdateWork d s)
      (r_references_from (rt_res ?s2 r)) ?s2"
  have "calm ?s2 ?s3"
  proof (rule calm_fold)
    fix ref u
    assume ref: "ref \<in> set (r_references_from (rt_res ?s2 r))" and u: "calm ?s2 u"
    have cu: "calm ?s1 u" by (rule calming.R_trans [OF c2 u])
    have "ref \<in> set (r_references_from (rt_res ?s1 r))"
      using ref static_leD(8) [OF calm_static [OF c2]] by simp
    then have "d \<in> set (rt_ids u)" if "r_impl (rt_res u ref) = Some d" for d
      using impl that cu static_leD(1) [OF calm_static [OF cu]] by (simp add: calm_def)
    then show "calm u (case r_impl (rt_res u ref) of None \<Rightarrow> u | Some d \<Rightarrow> PostUpdateWork d u)"
      by (auto simp: calming.R_refl intro: calm_post split: option.splits)
  qed
  then have c3: "calm ?s1 ?s3" by (rule calming.R_trans [OF c2])
  have g3: "graph_ok ?s3" and r3: "r \<in> set (rt_ids ?s3)"
    using rt_okD(1) [OF ok1] graph_ok_static [OF calm_static [OF c3]] r1 static_leD(1) [OF calm_static [OF c3]]
    by simp_all
  let ?s4 = "fold (\<lambda>d s. if overall s d = STOPPING then PostUpdateWork d s else s) (r_dep_them (rt_res ?s3 r)) ?s3"
  have "calm ?s3 ?s4"
    by (rule calm_post_if) (use g3 r3 in \<open>unfold graph_ok_def, blast\<close>)
  then have c4: "calm ?s1 ?s4" by (rule calming.R_trans [OF c3])
  have cb: "overall ?s4 (rt_root ?s4) = STOPPED" if "r_callback (rt_res ?s4 r) = Some CallDisconnect"
  proof -
    have "r_callback (rt_res ?s1 r) = Some CallDisconnect"
      using that c4 by (simp add: calm_def)
    then have "r = rt_root ?s1"
      using rt_okD(5) [OF ok1] r1 unfolding kind_ok_def by blast
    then show ?thesis
      using c4 static_leD(2) [OF calm_static [OF c4]] unfolding calm_def by simp
  qed
  obtain t where "run_callback r ?s4 = Inr t" "moves ?s4 t"
    using run_callback_moves [OF cb] by blast
  moreover have "handle_stopped r s = run_callback r ?s4"
    unfolding handle_stopped_def Let_def if_P [OF True] by simp
  ultimately show ?thesis
    using m1 c4 by (auto simp: calm_def intro: moving.R_trans)
qed

lemma take_work_moves:
  assumes ok: "rt_ok s" and q: "rt_queue s = r # q"
  shows "moves s (upd r (\<lambda>x. x\<lparr>r_work_requested := False\<rparr>) (s\<lparr>rt_queue := q\<rparr>))"
    and "r \<in> set (rt_ids s)" and "r_work_requested (rt_res s r)"
proof -
  let ?t = "upd r (\<lambda>x. x\<lparr>r_work_requested := False\<rparr>) (s\<lparr>rt_queue := q\<rparr>)"
  have w: "set (r # q) \<subseteq> set (rt_ids s)"
    "\<And>r'. count_list (r # q) r' = (if r_work_requested (rt_res s r') then 1 else 0)"
    using rt_okD(4) [OF ok] q by (auto simp: work_ok_def)
  then show "r \<in> set (rt_ids s)" by simp
  show req: "r_work_requested (rt_res s r)"
    using w(2) [of r] by (simp split: if_splits)
  have "work_ok ?t"
  proof -
    have "count_list q r' = (if r_work_requested (rt_res ?t r') then 1 else 0)" for r'
      using w(2) [of r'] req by (cases "r' = r") auto
    then show ?thesis using w(1) by (auto simp: work_ok_def)
  qed
  moreover have "life_of ?t = life_of s"
    by (rule life_of_eqI) simp_all
  ultimately show "moves s ?t"
    by (auto simp: moves_def static_le_def kind_ok_def)
qed

lemma HandleUpdateWork_moves:
  assumes ok: "rt_ok s" and q: "rt_queue s = r # q"
  shows "\<exists>t. HandleUpdateWork r (s\<lparr>rt_queue := q\<rparr>) = Inr t \<and> moves s t"
proof -
  note tw = take_work_moves [OF ok q]
  let ?s = "upd r (\<lambda>x. x\<lparr>r_work_requested := False\<rparr>) (s\<lparr>rt_queue := q\<rparr>)"
  have ok1: "rt_ok ?s" by (rule moves_rt_ok [OF ok tw(1)])
  have r: "r \<in> set (rt_ids ?s)" using tw(2) by simp
  have lev: "levels_ok (overall ?s r) (locally ?s r)"
    using life_okD(1) [OF rt_okD(6) [OF ok1], of r] r by simp
  have run: "HandleUpdateWork r (s\<lparr>rt_queue := q\<rparr>) =
     (if overall ?s r = locally ?s r then Inr ?s
        else if overall ?s r = STARTING \<and> locally ?s r = CONSTRUCTED then handle_start r ?s
        else if overall ?s r = STARTING \<and> locally ?s r = RUNNING then handle_started r ?s
        else if overall ?s r = STOPPING \<and> locally ?s r = RUNNING then handle_stop r ?s
        else if overall ?s r = STOPPING \<and> locally ?s r = STOPPED then handle_stopped r ?s
        else Inl (AssertFailed ''Unsupported transition''))"
    using tw(3) by (simp add: HandleUpdateWork_def bbox_assert_def Let_def)
  have "\<exists>t. HandleUpdateWork r (s\<lparr>rt_queue := q\<rparr>) = Inr t \<and> moves ?s t"
  proof (cases "overall ?s r = locally ?s r")
    case True
    then show ?thesis unfolding run by (simp only: if_True simp_thms) (blast intro: moving.R_refl)
  next
    case False
    with lev consider "overall ?s r = STARTING" "locally ?s r = CONSTRUCTED"
      | "overall ?s r = STARTING" "locally ?s r = RUNNING"
      | "overall ?s r = STOPPING" "locally ?s r = RUNNING"
      | "overall ?s r = STOPPING" "locally ?s r = STOPPED"
      by (cases "overall ?s r") auto
    then show ?thesis
    proof cases
      case 1
      then show ?thesis using handle_start_moves [OF ok1 r] unfolding run by simp
    next
      case 2
      then show ?thesis using handle_started_moves [OF ok1 r] unfolding run by simp
    next
      case 3
      then show ?thesis using handle_stop_moves [OF ok1 r] unfolding run by simp
    next
      case 4
      then show ?thesis using handle_stopped_moves [OF ok1 r] unfolding run by simp
    qed
  qed
  then show ?thesis
    using tw(1) by (blast intro: moving.R_trans)
qed

end
