(* ===== verification/RunTimeSetup.thy ===== *)
theory RunTimeSetup
  imports RunTimeProofs
begin

section \<open>Construction of the object graph\<close>

text \<open>
  What the constructors of \<open>BBoxRt/bbox/rt\<close> do to the graph, in two situations: while the
  program is set up, when every service is constructed and no work has been posted, and for
  client resources while it runs. \<open>added\<close> is the state after a successful construction.
\<close>

lemma graph_okD:
  assumes "graph_ok s"
  shows "rt_root s \<in> set (rt_ids s)" and "smap_ok (rt_services s)"
    and "p \<in> set (rt_ids s) \<Longrightarrow> smap_ok (r_children (rt_res s p))"
    and "p \<in> set (rt_ids s) \<Longrightarrow> (n, c) \<in> set (r_children (rt_res s p)) \<Longrightarrow>
           c \<in> set (rt_ids s) \<and> r_parent (rt_res s c) = Some p \<and> r_name (rt_res s c) = n"
    and "c \<in> set (rt_ids s) \<Longrightarrow> r_parent (rt_res s c) = Some p \<Longrightarrow>
           p \<in> set (rt_ids s) \<and> (r_name (rt_res s c), c) \<in> set (r_children (rt_res s p))"
    and "r \<in> set (rt_ids s) \<Longrightarrow> d \<in> set (r_dep_them (rt_res s r)) \<Longrightarrow>
           d \<in> set (rt_ids s) \<and> r \<in> set (r_dep_us (rt_res s d))"
    and "r \<in> set (rt_ids s) \<Longrightarrow> u \<in> set (r_dep_us (rt_res s r)) \<Longrightarrow>
           u \<in> set (rt_ids s) \<and> r \<in> set (r_dep_them (rt_res s u))"
    and "ref \<in> set (rt_references s) \<Longrightarrow> ref \<in> set (rt_ids s)"
    and "ref \<in> set (rt_references s) \<Longrightarrow> \<exists>n ty. r_kind (rt_res s ref) = KReference n ty"
    and "ref \<in> set (rt_references s) \<Longrightarrow> \<exists>p. r_parent (rt_res s ref) = Some p \<and> p \<in> set (rt_ids s)
           \<and> ref \<in> set (r_references_from (rt_res s p))"
    and "p \<in> set (rt_ids s) \<Longrightarrow> ref \<in> set (r_references_from (rt_res s p)) \<Longrightarrow>
           ref \<in> set (rt_references s) \<and> r_parent (rt_res s ref) = Some p"
    and "(n, e) \<in> set (rt_services s) \<Longrightarrow> se_impl e \<in> set (rt_ids s)
           \<and> r_kind (rt_res s (se_impl e)) \<noteq> KResource"
    and "r \<in> set (rt_ids s) \<Longrightarrow> r_kind (rt_res s r) = KResource \<Longrightarrow> r_dep_them (rt_res s r) = []
           \<and> r_dep_us (rt_res s r) = [] \<and> r_references_from (rt_res s r) = []"
proof -
  note g = assms [unfolded graph_ok_def]
  note g1 = g [THEN conjunct1]
  note g2 = g [THEN conjunct2, THEN conjunct1]
  note h = g [THEN conjunct2, THEN conjunct2]
  note g3 = h [THEN conjunct1]
  note h4 = h [THEN conjunct2]
  note g4 = h4 [THEN conjunct1]
  note h5 = h4 [THEN conjunct2]
  note g5 = h5 [THEN conjunct1]
  note h6 = h5 [THEN conjunct2]
  note g6 = h6 [THEN conjunct1]
  note h7 = h6 [THEN conjunct2]
  note g7 = h7 [THEN conjunct1]
  note h8 = h7 [THEN conjunct2]
  note g8 = h8 [THEN conjunct1]
  note h9 = h8 [THEN conjunct2]
  note g9 = h9 [THEN conjunct1]
  note g10 = h9 [THEN conjunct2]
  show "rt_root s \<in> set (rt_ids s)" by (rule g1)
  show "smap_ok (rt_services s)" by (rule g2)
  show "p \<in> set (rt_ids s) \<Longrightarrow> smap_ok (r_children (rt_res s p))"
    using g3 by blast
  show "p \<in> set (rt_ids s) \<Longrightarrow> (n, c) \<in> set (r_children (rt_res s p)) \<Longrightarrow>
      c \<in> set (rt_ids s) \<and> r_parent (rt_res s c) = Some p \<and> r_name (rt_res s c) = n"
    using g3 by blast
  show "c \<in> set (rt_ids s) \<Longrightarrow> r_parent (rt_res s c) = Some p \<Longrightarrow>
      p \<in> set (rt_ids s) \<and> (r_name (rt_res s c), c) \<in> set (r_children (rt_res s p))"
    using g4 by blast
  show "r \<in> set (rt_ids s) \<Longrightarrow> d \<in> set (r_dep_them (rt_res s r)) \<Longrightarrow>
      d \<in> set (rt_ids s) \<and> r \<in> set (r_dep_us (rt_res s d))"
    using g5 by blast
  show "r \<in> set (rt_ids s) \<Longrightarrow> u \<in> set (r_dep_us (rt_res s r)) \<Longrightarrow>
      u \<in> set (rt_ids s) \<and> r \<in> set (r_dep_them (rt_res s u))"
    using g6 by blast
  show "ref \<in> set (rt_references s) \<Longrightarrow> ref \<in> set (rt_ids s)"
    using g7 by blast
  show "ref \<in> set (rt_references s) \<Longrightarrow> \<exists>n ty. r_kind (rt_res s ref) = KReference n ty"
    using g7 by blast
  show "ref \<in> set (rt_references s) \<Longrightarrow> \<exists>p. r_parent (rt_res s ref) = Some p \<and> p \<in> set (rt_ids s)
      \<and> ref \<in> set (r_references_from (rt_res s p))"
    using g7 by blast
  show "p \<in> set (rt_ids s) \<Longrightarrow> ref \<in> set (r_references_from (rt_res s p)) \<Longrightarrow>
      ref \<in> set (rt_references s) \<and> r_parent (rt_res s ref) = Some p"
    using g8 by blast
  show "(n, e) \<in> set (rt_services s) \<Longrightarrow> se_impl e \<in> set (rt_ids s)
      \<and> r_kind (rt_res s (se_impl e)) \<noteq> KResource"
    using g9 by blast
  show "r \<in> set (rt_ids s) \<Longrightarrow> r_kind (rt_res s r) = KResource \<Longrightarrow> r_dep_them (rt_res s r) = []
      \<and> r_dep_us (rt_res s r) = [] \<and> r_references_from (rt_res s r) = []"
    using g10 by blast
qed

lemma graph_okI:
  assumes "rt_root s \<in> set (rt_ids s)" and "smap_ok (rt_services s)"
    and "\<And>p. p \<in> set (rt_ids s) \<Longrightarrow> smap_ok (r_children (rt_res s p))"
    and "\<And>p n c. p \<in> set (rt_ids s) \<Longrightarrow> (n, c) \<in> set (r_children (rt_res s p)) \<Longrightarrow>
           c \<in> set (rt_ids s) \<and> r_parent (rt_res s c) = Some p \<and> r_name (rt_res s c) = n"
    and "\<And>c p. c \<in> set (rt_ids s) \<Longrightarrow> r_parent (rt_res s c) = Some p \<Longrightarrow>
           p \<in> set (rt_ids s) \<and> (r_name (rt_res s c), c) \<in> set (r_children (rt_res s p))"
    and "\<And>r d. r \<in> set (rt_ids s) \<Longrightarrow> d \<in> set (r_dep_them (rt_res s r)) \<Longrightarrow>
           d \<in> set (rt_ids s) \<and> r \<in> set (r_dep_us (rt_res s d))"
    and "\<And>r u. r \<in> set (rt_ids s) \<Longrightarrow> u \<in> set (r_dep_us (rt_res s r)) \<Longrightarrow>
           u \<in> set (rt_ids s) \<and> r \<in> set (r_dep_them (rt_res s u))"
    and "\<And>ref. ref \<in> set (rt_references s) \<Longrightarrow> ref \<in> set (rt_ids s)"
    and "\<And>ref. ref \<in> set (rt_references s) \<Longrightarrow> \<exists>n ty. r_kind (rt_res s ref) = KReference n ty"
    and "\<And>ref. ref \<in> set (rt_references s) \<Longrightarrow> \<exists>p. r_parent (rt_res s ref) = Some p \<and> p \<in> set (rt_ids s)
           \<and> ref \<in> set (r_references_from (rt_res s p))"
    and "\<And>p ref. p \<in> set (rt_ids s) \<Longrightarrow> ref \<in> set (r_references_from (rt_res s p)) \<Longrightarrow>
           ref \<in> set (rt_references s) \<and> r_parent (rt_res s ref) = Some p"
    and "\<And>n e. (n, e) \<in> set (rt_services s) \<Longrightarrow> se_impl e \<in> set (rt_ids s)
           \<and> r_kind (rt_res s (se_impl e)) \<noteq> KResource"
    and "\<And>r. r \<in> set (rt_ids s) \<Longrightarrow> r_kind (rt_res s r) = KResource \<Longrightarrow> r_dep_them (rt_res s r) = []
           \<and> r_dep_us (rt_res s r) = [] \<and> r_references_from (rt_res s r) = []"
  shows "graph_ok s"
  unfolding graph_ok_def
  apply (intro conjI)
  subgoal by (rule assms(1))
  subgoal by (rule assms(2))
  subgoal using assms(3,4) by blast
  subgoal using assms(5) by blast
  subgoal using assms(6) by blast
  subgoal using assms(7) by blast
  subgoal using assms(8-10) by blast
  subgoal using assms(11) by blast
  subgoal using assms(12) by blast
  subgoal using assms(13) by blast
  done

lemma smap_find_mem: "smap_ok m \<Longrightarrow> (k, v) \<in> set m \<longleftrightarrow> smap_find k m = Some v"
  unfolding smap_ok_def by (metis map_of_eq_Some_iff strict_sorted_iff)


subsection \<open>A new object under a parent\<close>

definition added :: "rid \<Rightarrow> string \<Rightarrow> rid \<Rightarrow> run_level \<Rightarrow> kind \<Rightarrow> runtime \<Rightarrow> runtime" where
  "added r name p level k s = upd p (\<lambda>x. x\<lparr>r_children := fst (smap_insert name r (r_children x))\<rparr>)
     (s\<lparr>rt_res := (rt_res s)(r := new_resource (Some p) name
          (Format ''%s/%s'' [ArgStr (r_full_path (rt_res s p)), ArgStr name]) level k),
        rt_ids := r # rt_ids s\<rparr>)"

lemma added_simps [simp]:
  "rt_ids (added r name p level k s) = r # rt_ids s"
  "rt_root (added r name p level k s) = rt_root s"
  "rt_services (added r name p level k s) = rt_services s"
  "rt_references (added r name p level k s) = rt_references s"
  "rt_queue (added r name p level k s) = rt_queue s"
  by (simp_all add: added_def)

lemma added_res:
  assumes "p \<noteq> r"
  shows "rt_res (added r name p level k s) r = new_resource (Some p) name
           (Format ''%s/%s'' [ArgStr (r_full_path (rt_res s p)), ArgStr name]) level k"
    and "rt_res (added r name p level k s) p
           = (rt_res s p)\<lparr>r_children := fst (smap_insert name r (r_children (rt_res s p)))\<rparr>"
    and "x \<noteq> r \<Longrightarrow> x \<noteq> p \<Longrightarrow> rt_res (added r name p level k s) x = rt_res s x"
  using assms by (simp_all add: added_def)

lemma new_resource_simps [simp]:
  "r_parent (new_resource a n path l k) = a" "r_name (new_resource a n path l k) = n"
  "r_children (new_resource a n path l k) = []" "r_references_from (new_resource a n path l k) = []"
  "r_dep_them (new_resource a n path l k) = []" "r_dep_us (new_resource a n path l k) = []"
  "r_kind (new_resource a n path l k) = k" "r_impl (new_resource a n path l k) = None"
  "r_callback (new_resource a n path l k) = None" "\<not> r_work_requested (new_resource a n path l k)"
  "r_local (new_resource a n path l k) = l" "r_overall (new_resource a n path l k) = l"
  "r_dep_our_service (new_resource a n path l k) = []" "r_dep_their_ref (new_resource a n path l k) = []"
  by (simp_all add: new_resource_def)

text \<open>The fields of the other objects that do not change.\<close>

lemma added_old:
  assumes "x \<noteq> r" and "p \<noteq> r"
  shows "r_dep_them (rt_res (added r name p level k s) x) = r_dep_them (rt_res s x)"
    and "r_dep_us (rt_res (added r name p level k s) x) = r_dep_us (rt_res s x)"
    and "r_references_from (rt_res (added r name p level k s) x) = r_references_from (rt_res s x)"
    and "r_kind (rt_res (added r name p level k s) x) = r_kind (rt_res s x)"
    and "r_parent (rt_res (added r name p level k s) x) = r_parent (rt_res s x)"
    and "r_name (rt_res (added r name p level k s) x) = r_name (rt_res s x)"
    and "r_impl (rt_res (added r name p level k s) x) = r_impl (rt_res s x)"
    and "r_callback (rt_res (added r name p level k s) x) = r_callback (rt_res s x)"
    and "r_work_requested (rt_res (added r name p level k s) x) = r_work_requested (rt_res s x)"
    and "r_dep_our_service (rt_res (added r name p level k s) x) = r_dep_our_service (rt_res s x)"
    and "overall (added r name p level k s) x = overall s x"
    and "locally (added r name p level k s) x = locally s x"
    and "x \<noteq> p \<Longrightarrow> r_children (rt_res (added r name p level k s) x) = r_children (rt_res s x)"
  using assms by (cases "x = p"; simp add: added_res)+

lemma ResourceBase_Inr:
  assumes "smap_ok (r_children (rt_res s p))"
  shows "ResourceBase r name p level k s = Inr t \<longleftrightarrow> p \<noteq> r \<and> (level = CONSTRUCTED \<or> level = RUNNING)
     \<and> (level = CONSTRUCTED \<longrightarrow> overall s p = CONSTRUCTED)
     \<and> smap_find name (r_children (rt_res s p)) = None \<and> t = added r name p level k s"
proof -
  obtain kids ins where i: "smap_insert name r (r_children (rt_res s p)) = (kids, ins)" by force
  then have "ins \<longleftrightarrow> smap_find name (r_children (rt_res s p)) = None"
    using smap_insert_find [OF assms, of name r name] by simp
  then show ?thesis
    using i by (auto simp: ResourceBase_def bbox_assert_def Let_def added_def upd_def split: if_splits)
qed

lemma added_children:
  assumes "smap_ok (r_children (rt_res s p))" and "smap_find name (r_children (rt_res s p)) = None"
    and "p \<noteq> r"
  shows "smap_ok (r_children (rt_res (added r name p level k s) p))"
    and "(n, c) \<in> set (r_children (rt_res (added r name p level k s) p))
           \<longleftrightarrow> (n, c) = (name, r) \<or> (n, c) \<in> set (r_children (rt_res s p))"
proof -
  let ?kids = "fst (smap_insert name r (r_children (rt_res s p)))"
  have ok: "smap_ok ?kids" by (rule smap_insert_ok [OF assms(1)])
  then show "smap_ok (r_children (rt_res (added r name p level k s) p))"
    using assms(3) by (simp add: added_res)
  have "(n, c) \<in> set ?kids \<longleftrightarrow> (n, c) = (name, r) \<or> (n, c) \<in> set (r_children (rt_res s p))"
    using smap_insert_find [OF assms(1), of name r n] assms(2)
    by (auto simp: smap_find_mem ok assms(1))
  then show "(n, c) \<in> set (r_children (rt_res (added r name p level k s) p))
       \<longleftrightarrow> (n, c) = (name, r) \<or> (n, c) \<in> set (r_children (rt_res s p))"
    using assms(3) by (simp add: added_res)
qed

text \<open>The graph after the new object: the links of the old ones, and the new one's to its parent.\<close>

lemma graph_ok_added:
  assumes g: "graph_ok s" and r: "r \<notin> set (rt_ids s)" and p: "p \<in> set (rt_ids s)"
    and fresh: "smap_find name (r_children (rt_res s p)) = None"
  shows "graph_ok (added r name p level k s)"
proof -
  let ?t = "added r name p level k s"
  note gD = graph_okD [OF g]
  have rp: "p \<noteq> r" using r p by blast
  have old: "x \<noteq> r" if "x \<in> set (rt_ids s)" for x using r that by blast
  note same = added_old [OF old rp]
  note new = added_res(1) [OF rp]
  note kids = added_children [OF gD(3) [OF p] fresh rp]
  show ?thesis
  proof (rule graph_okI, simp_all only: added_simps list.set insert_iff)
    show "smap_ok (r_children (rt_res ?t x))" if "x = r \<or> x \<in> set (rt_ids s)" for x
      using that gD(3) [of x] kids(1) same(13) [of x] new by (cases "x = p") (auto simp: smap_ok_def)
    show "(c = r \<or> c \<in> set (rt_ids s)) \<and> r_parent (rt_res ?t c) = Some x \<and> r_name (rt_res ?t c) = n"
      if x: "x = r \<or> x \<in> set (rt_ids s)" and c: "(n, c) \<in> set (r_children (rt_res ?t x))" for x n c
    proof (cases "x = p \<and> (n, c) = (name, r)")
      case False
      then have "x \<in> set (rt_ids s)" "(n, c) \<in> set (r_children (rt_res s x))"
        using x c new kids(2) [of n c] same(13) [of x] by (cases "x = p"; auto)+
      then show ?thesis using gD(4) [of x n c] same(5,6) [of c] by auto
    qed (use new in auto)
    show "(x = r \<or> x \<in> set (rt_ids s)) \<and> (r_name (rt_res ?t c), c) \<in> set (r_children (rt_res ?t x))"
      if c: "c = r \<or> c \<in> set (rt_ids s)" and x: "r_parent (rt_res ?t c) = Some x" for c x
    proof (cases "c = r")
      case True
      then show ?thesis using x new kids(2) p by auto
    next
      case False
      then have "c \<in> set (rt_ids s)" "r_parent (rt_res s c) = Some x" using c x same(5) by auto
      then show ?thesis using gD(5) [of c x] same(6) [of c] same(13) [of x] kids(2) by (cases "x = p") auto
    qed
    show "(d = r \<or> d \<in> set (rt_ids s)) \<and> x \<in> set (r_dep_us (rt_res ?t d))"
      if "x = r \<or> x \<in> set (rt_ids s)" "d \<in> set (r_dep_them (rt_res ?t x))" for x d
      using that gD(6) [of x d] same(1,2) new by (cases "x = r") auto
    show "(u = r \<or> u \<in> set (rt_ids s)) \<and> x \<in> set (r_dep_them (rt_res ?t u))"
      if "x = r \<or> x \<in> set (rt_ids s)" "u \<in> set (r_dep_us (rt_res ?t x))" for x u
      using that gD(7) [of x u] same(1,2) new by (cases "x = r") auto
    show "ref = r \<or> ref \<in> set (rt_ids s)" "\<exists>n ty. r_kind (rt_res ?t ref) = KReference n ty"
      "\<exists>x. r_parent (rt_res ?t ref) = Some x \<and> (x = r \<or> x \<in> set (rt_ids s))
         \<and> ref \<in> set (r_references_from (rt_res ?t x))" if "ref \<in> set (rt_references s)" for ref
      using gD(8-10) [OF that] same(3-5) by auto
    show "ref \<in> set (rt_references s) \<and> r_parent (rt_res ?t ref) = Some x"
      if "x = r \<or> x \<in> set (rt_ids s)" "ref \<in> set (r_references_from (rt_res ?t x))" for x ref
      using that gD(11) [of x ref] gD(8) [of ref] same(3,5) new by (cases "x = r") auto
    show "(se_impl e = r \<or> se_impl e \<in> set (rt_ids s)) \<and> r_kind (rt_res ?t (se_impl e)) \<noteq> KResource"
      if "(n, e) \<in> set (rt_services s)" for n e
      using gD(12) [OF that] same(4) by auto
    show "r_dep_them (rt_res ?t x) = [] \<and> r_dep_us (rt_res ?t x) = [] \<and> r_references_from (rt_res ?t x) = []"
      if "x = r \<or> x \<in> set (rt_ids s)" "r_kind (rt_res ?t x) = KResource" for x
      using that gD(13) [of x] same(1-4) new by (cases "x = r") auto
  qed (use gD(1,2) in auto)
qed

lemma uses_added:
  assumes g: "graph_ok s" and r: "r \<notin> set (rt_ids s)" and p: "p \<in> set (rt_ids s)"
  shows "uses (added r name p level k s) = uses s"
proof -
  let ?t = "added r name p level k s"
  have rp: "p \<noteq> r" using r p by blast
  have old: "x \<noteq> r" if "x \<in> set (rt_ids s)" for x using r that by blast
  note same = added_old [OF old rp] and new = added_res(1) [OF rp]
  have refs: "ref \<in> set (rt_ids s)"
    if "x \<in> set (rt_ids s)" "ref \<in> set (r_references_from (rt_res s x))" for x ref
    using graph_okD(8,11) [OF g] that by blast
  have "(x, d) \<in> uses ?t \<longleftrightarrow> (x, d) \<in> uses s" for x d
  proof (cases "x \<in> set (rt_ids s)")
    case True
    have "r_impl (rt_res ?t ref) = r_impl (rt_res s ref)" if "ref \<in> set (r_references_from (rt_res s x))" for ref
      using same(7) [OF refs [OF True that]] .
    then show ?thesis using True same(1,3) [OF True] by (auto simp: uses_def)
  qed (auto simp: uses_def new r)
  then show ?thesis by auto
qed

lemma life_of_added:
  assumes "graph_ok s" and "r \<notin> set (rt_ids s)" and "p \<in> set (rt_ids s)"
  shows "life_of (added r name p level k s) = (life_of s)\<lparr>lf_ids := insert r (lf_ids (life_of s)),
      lf_parent := (lf_parent (life_of s))(r := Some p), lf_over := (lf_over (life_of s))(r := level),
      lf_local := (lf_local (life_of s))(r := level)\<rparr>"
proof -
  have rp: "p \<noteq> r" using assms by blast
  note same = added_old [OF _ rp] and new = added_res(1) [OF rp]
  show ?thesis
    using uses_added [OF assms, of name level k] same(5,11,12) new
    by (auto simp: life_of_def fun_eq_iff)
qed

subsection \<open>The set-up phase\<close>

text \<open>
  Before the proactor runs, all services are constructed, all client resources are running,
  no work has been posted and no reference is connected. The steps are the public operations
  with the argument types C++ enforces: a service's parent is the proactor or a service, a
  reference's parent is a service, and so on.
\<close>

definition is_service :: "kind \<Rightarrow> bool" where
  "is_service k \<longleftrightarrow> k \<noteq> KProactor \<and> k \<noteq> KResource"

inductive setup_step :: "runtime \<Rightarrow> runtime \<Rightarrow> bool" where
  service: "r \<notin> set (rt_ids s) \<Longrightarrow> p \<in> set (rt_ids s) \<Longrightarrow> r_kind (rt_res s p) \<noteq> KResource \<Longrightarrow>
     new_Service r name p s = Inr t \<Longrightarrow> setup_step s t"
| folder: "r \<notin> set (rt_ids s) \<Longrightarrow> p \<in> set (rt_ids s) \<Longrightarrow> r_kind (rt_res s p) \<noteq> KResource \<Longrightarrow>
     new_ServiceFolder r name p s = Inr t \<Longrightarrow> setup_step s t"
| resource: "r \<notin> set (rt_ids s) \<Longrightarrow> p \<in> set (rt_ids s) \<Longrightarrow> r_kind (rt_res s p) \<noteq> KProactor \<Longrightarrow>
     new_Resource r name p s = Inr t \<Longrightarrow> setup_step s t"
| reference: "r \<notin> set (rt_ids s) \<Longrightarrow> p \<in> set (rt_ids s) \<Longrightarrow> is_service (r_kind (rt_res s p)) \<Longrightarrow>
     GenericServiceReference r name p ref_name type s = Inr t \<Longrightarrow> setup_step s t"
| register: "r \<in> set (rt_ids s) \<Longrightarrow> is_service (r_kind (rt_res s r)) \<Longrightarrow>
     GenericRegisterService r name type s = Inr t \<Longrightarrow> setup_step s t"
| depend: "r \<in> set (rt_ids s) \<Longrightarrow> d \<in> set (rt_ids s) \<Longrightarrow> is_service (r_kind (rt_res s r)) \<Longrightarrow>
     is_service (r_kind (rt_res s d)) \<Longrightarrow> SetThisDependantOn r d s = Inr t \<Longrightarrow> setup_step s t"
| depend_ref: "r \<in> set (rt_ids s) \<Longrightarrow> ref \<in> set (rt_references s) \<Longrightarrow> is_service (r_kind (rt_res s r)) \<Longrightarrow>
     SetThisDependantOn_ref r ref s = Inr t \<Longrightarrow> setup_step s t"

inductive set_up :: "runtime \<Rightarrow> bool" where
  init: "set_up (new_Proactor r)"
| step: "set_up s \<Longrightarrow> setup_step s t \<Longrightarrow> set_up t"

definition idle_at :: "runtime \<Rightarrow> rid \<Rightarrow> bool" where
  "idle_at s r \<longleftrightarrow> \<not> r_work_requested (rt_res s r) \<and> r_callback (rt_res s r) = None
     \<and> overall s r = (if r_kind (rt_res s r) = KResource then RUNNING else CONSTRUCTED)
     \<and> locally s r = overall s r"

definition idle :: "runtime \<Rightarrow> bool" where
  "idle s \<longleftrightarrow> rt_queue s = [] \<and> (\<forall>r. r \<notin> set (rt_ids s) \<longrightarrow> \<not> r_work_requested (rt_res s r))
     \<and> (\<forall>r \<in> set (rt_ids s). idle_at s r
          \<and> (\<forall>p. r_parent (rt_res s r) = Some p \<longrightarrow> r_kind (rt_res s p) = KResource \<longrightarrow>
               r_kind (rt_res s r) = KResource)
          \<and> (\<forall>u \<in> set (r_dep_our_service (rt_res s r)). u \<in> set (rt_ids s)
               \<and> r_kind (rt_res s u) \<noteq> KResource))
     \<and> r_kind (rt_res s (rt_root s)) = KProactor"

lemma idleD:
  assumes "idle s"
  shows "rt_queue s = []" and "\<not> r_work_requested (rt_res s r)"
    and "r \<in> set (rt_ids s) \<Longrightarrow> r_callback (rt_res s r) = None"
    and "r \<in> set (rt_ids s) \<Longrightarrow> overall s r = (if r_kind (rt_res s r) = KResource then RUNNING else CONSTRUCTED)"
    and "r \<in> set (rt_ids s) \<Longrightarrow> locally s r = overall s r"
    and "r \<in> set (rt_ids s) \<Longrightarrow> r_parent (rt_res s r) = Some p \<Longrightarrow> r_kind (rt_res s p) = KResource \<Longrightarrow>
           r_kind (rt_res s r) = KResource"
    and "r \<in> set (rt_ids s) \<Longrightarrow> u \<in> set (r_dep_our_service (rt_res s r)) \<Longrightarrow> u \<in> set (rt_ids s)
           \<and> r_kind (rt_res s u) \<noteq> KResource"
    and "r_kind (rt_res s (rt_root s)) = KProactor"
  using assms unfolding idle_def idle_at_def by (cases "r \<in> set (rt_ids s)"; simp)+

definition setup_ok :: "runtime \<Rightarrow> bool" where
  "setup_ok s \<longleftrightarrow> graph_ok s \<and> idle s \<and> (\<forall>r \<in> set (rt_ids s). r_impl (rt_res s r) = None)"

text \<open>An idle graph whose references are connected satisfies the invariant of the running system.\<close>

lemma uses_ends:
  assumes "graph_ok s" and "impl_ok s" and "(r, d) \<in> uses s"
  shows "r \<in> set (rt_ids s)" and "d \<in> set (rt_ids s)" and "r_kind (rt_res s r) \<noteq> KResource"
proof -
  note gD = graph_okD [OF assms(1)]
  show r: "r \<in> set (rt_ids s)" using assms(3) by (simp add: uses_def)
  from assms(3) consider "d \<in> set (r_dep_them (rt_res s r))"
    | ref where "ref \<in> set (r_references_from (rt_res s r))" "r_impl (rt_res s ref) = Some d"
    by (auto simp: uses_def)
  then have "d \<in> set (rt_ids s) \<and> (r_kind (rt_res s r) \<noteq> KResource)"
  proof cases
    case 1
    then show ?thesis using gD(6) [OF r] gD(13) [OF r] by auto
  next
    case 2
    then have "ref \<in> set (rt_ids s)" using gD(8,11) r by blast
    then obtain n e where "smap_find n (rt_services s) = Some e" "se_impl e = d"
      using assms(2) 2(2) unfolding impl_ok_def by blast
    then have "d \<in> set (rt_ids s)" using gD(12) [of n e] gD(2) by (auto simp: smap_find_mem)
    then show ?thesis using gD(13) [OF r] 2(1) by auto
  qed
  then show "d \<in> set (rt_ids s)" "r_kind (rt_res s r) \<noteq> KResource" by blast+
qed

lemma idle_rt_ok:
  assumes g: "graph_ok s" and i: "idle s" and im: "impl_ok s" and c: "connected s"
  shows "rt_ok s"
proof -
  note d = idleD [OF i] and gD = graph_okD [OF g]
  have "life_ok (life_of s)"
  proof (rule life_okI, simp_all)
    show "levels_ok (overall s r) (locally s r)" if "r \<in> set (rt_ids s)" for r
      using d(4,5) [OF that] by simp
    show "p \<in> set (rt_ids s)" if "c \<in> set (rt_ids s) \<and> r_parent (rt_res s c) = Some p" for p c
      using gD(5) that by blast
    show "x \<in> set (rt_ids s) \<and> y \<in> set (rt_ids s)" if "(x, y) \<in> uses s" for x y
      using uses_ends [OF g im that] by simp
    show "been_up (overall s c)"
      if "c \<in> set (rt_ids s) \<and> r_parent (rt_res s c) = Some p" "locally s p \<noteq> CONSTRUCTED" for p c
    proof -
      have p: "p \<in> set (rt_ids s)" using gD(5) that by blast
      have "r_kind (rt_res s p) = KResource" using d(4,5) [OF p] that by (simp split: if_splits)
      then show ?thesis using d(4) [of c] d(6) [of c p] that by (simp add: been_up_def)
    qed
    show "locally s y = RUNNING"
      if "(x, y) \<in> uses s" "locally s x \<noteq> CONSTRUCTED" "overall s x \<noteq> STOPPED" for x y
      using uses_ends [OF g im that(1)] d(4,5) [of x] that by simp
    show "overall s c = STOPPED"
      if "c \<in> set (rt_ids s) \<and> r_parent (rt_res s c) = Some p" "overall s p = STOPPED" for p c
      using that gD(5) d(4) [of p] by (auto split: if_splits)
  qed
  moreover have "work_ok s" using d(1,2) by (simp add: work_ok_def)
  moreover have "kind_ok s" using d(3-5) by (auto simp: kind_ok_def been_up_def)
  ultimately show ?thesis using assms by (simp add: rt_ok_def)
qed

text \<open>The other set-up operations on the graph.\<close>

lemma graph_ok_reference:
  assumes g: "graph_ok s" and r: "r \<in> set (rt_ids s)" and k: "r_kind (rt_res s r) = KReference n ty"
    and p: "r_parent (rt_res s r) = Some p" and np: "r_kind (rt_res s p) \<noteq> KResource"
  shows "graph_ok (upd p (\<lambda>x. x\<lparr>r_references_from := r # r_references_from x\<rparr>)
    (s\<lparr>rt_references := r # rt_references s\<rparr>))"
proof -
  note gD = graph_okD [OF g]
  have pin: "p \<in> set (rt_ids s)" using gD(5) [OF r p] by simp
  let ?t = "upd p (\<lambda>x. x\<lparr>r_references_from := r # r_references_from x\<rparr>)
    (s\<lparr>rt_references := r # rt_references s\<rparr>)"
  have refs: "r_references_from (rt_res ?t x)
      = (if x = p then r # r_references_from (rt_res s p) else r_references_from (rt_res s x))"
    and rest: "r_children (rt_res ?t x) = r_children (rt_res s x)" "r_parent (rt_res ?t x) = r_parent (rt_res s x)"
      "r_name (rt_res ?t x) = r_name (rt_res s x)" "r_kind (rt_res ?t x) = r_kind (rt_res s x)"
      "r_dep_them (rt_res ?t x) = r_dep_them (rt_res s x)" "r_dep_us (rt_res ?t x) = r_dep_us (rt_res s x)" for x
    by simp_all
  have ids: "rt_ids ?t = rt_ids s" "rt_root ?t = rt_root s" "rt_services ?t = rt_services s"
      "rt_references ?t = r # rt_references s"
    by simp_all
  show ?thesis
    apply (rule graph_okI; unfold refs rest ids)
    subgoal by (rule gD(1))
    subgoal by (rule gD(2))
    subgoal by (rule gD(3))
    subgoal by (rule gD(4))
    subgoal by (rule gD(5))
    subgoal by (rule gD(6))
    subgoal by (rule gD(7))
    subgoal using gD(8) r by auto
    subgoal using gD(9) k by auto
    subgoal premises ref for x
    proof (cases "x = r")
      case False
      then obtain q where "r_parent (rt_res s x) = Some q" "q \<in> set (rt_ids s)"
        "x \<in> set (r_references_from (rt_res s q))" using gD(10) [of x] ref by auto
      then show ?thesis by (intro exI [of _ q]) auto
    qed (use p pin in \<open>intro exI [of _ p], simp\<close>)
    subgoal using gD(11) p by (auto split: if_splits)
    subgoal by (rule gD(12))
    subgoal using gD(13) np by auto
    done
qed

lemma graph_ok_register:
  assumes g: "graph_ok s" and r: "r \<in> set (rt_ids s)" and k: "r_kind (rt_res s r) \<noteq> KResource"
  shows "graph_ok (s\<lparr>rt_services := smap_assign name \<lparr>se_type = type, se_impl = r\<rparr> (rt_services s)\<rparr>)"
proof -
  note gD = graph_okD [OF g]
  let ?m = "smap_assign name \<lparr>se_type = type, se_impl = r\<rparr> (rt_services s)"
  have ok: "smap_ok ?m" by (rule smap_assign_ok [OF gD(2)])
  have entries: "se_impl e \<in> set (rt_ids s) \<and> r_kind (rt_res s (se_impl e)) \<noteq> KResource"
    if "(n, e) \<in> set ?m" for n e
    using that smap_assign_find [OF gD(2), where k' = n and k = name] r k gD(12) [of n e]
    by (auto simp: smap_find_mem ok gD(2) split: if_splits)
  have sel: "rt_ids (s\<lparr>rt_services := m\<rparr>) = rt_ids s" "rt_root (s\<lparr>rt_services := m\<rparr>) = rt_root s"
      "rt_res (s\<lparr>rt_services := m\<rparr>) = rt_res s" "rt_references (s\<lparr>rt_services := m\<rparr>) = rt_references s"
      "rt_services (s\<lparr>rt_services := m\<rparr>) = m" for m
    by simp_all
  show ?thesis
    apply (intro graph_okI; unfold sel)
    subgoal by (rule gD(1))
    subgoal by (rule ok)
    subgoal by (rule gD(3))
    subgoal by (rule gD(4))
    subgoal by (rule gD(5))
    subgoal by (rule gD(6))
    subgoal by (rule gD(7))
    subgoal by (rule gD(8))
    subgoal by (rule gD(9))
    subgoal by (rule gD(10))
    subgoal by (rule gD(11))
    subgoal by (rule entries)
    subgoal by (rule gD(13))
    done
qed

lemma graph_ok_depend:
  assumes g: "graph_ok s" and r: "r \<in> set (rt_ids s)" and d: "d \<in> set (rt_ids s)"
    and k: "r_kind (rt_res s r) \<noteq> KResource" "r_kind (rt_res s d) \<noteq> KResource"
  shows "graph_ok (upd d (\<lambda>x. x\<lparr>r_dep_us := r # r_dep_us x\<rparr>)
    (upd r (\<lambda>x. x\<lparr>r_dep_them := d # r_dep_them x\<rparr>) s))"
    (is "graph_ok ?t")
proof -
  note gD = graph_okD [OF g]
  have them: "r_dep_them (rt_res ?t x) = (if x = r then d # r_dep_them (rt_res s r) else r_dep_them (rt_res s x))"
    and us: "r_dep_us (rt_res ?t x) = (if x = d then r # r_dep_us (rt_res s d) else r_dep_us (rt_res s x))"
    and rest: "r_children (rt_res ?t x) = r_children (rt_res s x)" "r_parent (rt_res ?t x) = r_parent (rt_res s x)"
      "r_name (rt_res ?t x) = r_name (rt_res s x)" "r_kind (rt_res ?t x) = r_kind (rt_res s x)"
      "r_references_from (rt_res ?t x) = r_references_from (rt_res s x)" for x
    by simp_all
  show ?thesis
    apply (rule graph_okI; unfold upd_simps(1-6) them us rest)
    subgoal by (rule gD(1))
    subgoal by (rule gD(2))
    subgoal by (rule gD(3))
    subgoal by (rule gD(4))
    subgoal by (rule gD(5))
    subgoal for x y using gD(6) [of x y] r d by (auto split: if_splits)
    subgoal for x y using gD(7) [of x y] r d by (auto split: if_splits)
    subgoal by (rule gD(8))
    subgoal by (rule gD(9))
    subgoal by (rule gD(10))
    subgoal by (rule gD(11))
    subgoal by (rule gD(12))
    subgoal using gD(13) k by auto
    done
qed

text \<open>Every set-up step keeps the invariant of the phase.\<close>

lemma idle_same:
  assumes i: "idle s" and eq: "rt_ids t = rt_ids s" "rt_root t = rt_root s" "rt_queue t = rt_queue s"
    and same: "\<And>x. r_work_requested (rt_res t x) = r_work_requested (rt_res s x)
        \<and> r_callback (rt_res t x) = r_callback (rt_res s x) \<and> overall t x = overall s x
        \<and> locally t x = locally s x \<and> r_kind (rt_res t x) = r_kind (rt_res s x)
        \<and> r_parent (rt_res t x) = r_parent (rt_res s x)"
    and deps: "\<And>x u. x \<in> set (rt_ids s) \<Longrightarrow> u \<in> set (r_dep_our_service (rt_res t x)) \<Longrightarrow>
        u \<in> set (rt_ids s) \<and> r_kind (rt_res s u) \<noteq> KResource"
  shows "idle t"
proof -
  have at: "idle_at t x = idle_at s x" for x using same [of x] by (simp add: idle_at_def)
  have s1: "r_work_requested (rt_res t x) = r_work_requested (rt_res s x)"
    and s2: "r_kind (rt_res t x) = r_kind (rt_res s x)" and s3: "r_parent (rt_res t x) = r_parent (rt_res s x)"
    for x using same [of x] by blast+
  show ?thesis
    unfolding idle_def at s1 s2 s3 eq
    using i [unfolded idle_def] deps by blast
qed

lemma idle_added:
  assumes g: "graph_ok s" and i: "idle s" and r: "r \<notin> set (rt_ids s)" and p: "p \<in> set (rt_ids s)"
    and lev: "level = (if k = KResource then RUNNING else CONSTRUCTED)"
    and kp: "r_kind (rt_res s p) = KResource \<Longrightarrow> k = KResource"
  shows "idle (added r name p level k s)"
proof -
  let ?t = "added r name p level k s"
  have rp: "p \<noteq> r" using r p by blast
  note same = added_old [OF _ rp] and new = added_res(1) [OF rp] and d = idleD [OF i]
  have root: "rt_root s \<noteq> r" using graph_okD(1) [OF g] r by blast
  show ?thesis
    unfolding idle_def added_simps
  proof (intro conjI ballI allI impI)
    show "rt_queue s = []" by (rule d(1))
    show "\<not> r_work_requested (rt_res ?t x)" if "x \<notin> set (r # rt_ids s)" for x
      using that d(2) same(9) by simp
    show "r_kind (rt_res ?t (rt_root s)) = KProactor" using d(8) same(4) [OF root] by simp
    fix x assume x: "x \<in> set (r # rt_ids s)"
    show "idle_at ?t x"
    proof (cases "x = r")
      case False
      then have "x \<in> set (rt_ids s)" using x by simp
      then show ?thesis using d(2-5) [of x] same(4,8,9,11,12) [OF False] by (simp add: idle_at_def)
    qed (simp add: idle_at_def new lev)
    show "r_kind (rt_res ?t x) = KResource"
      if "r_parent (rt_res ?t x) = Some q" "r_kind (rt_res ?t q) = KResource" for q
    proof (cases "x = r")
      case False
      then have "x \<in> set (rt_ids s)" "r_parent (rt_res s x) = Some q"
        using x that same(5) [OF False] by simp_all
      moreover from this have "q \<noteq> r" using graph_okD(5) [OF g] r by blast
      ultimately show ?thesis using d(6) [of x q] that same(4) False by simp
    next
      case True
      then have "q = p" using that(1) new by simp
      then have "r_kind (rt_res s p) = KResource" using that(2) same(4) [OF rp] by simp
      then show ?thesis using kp True new by simp
    qed
    show "u \<in> set (r # rt_ids s)" "r_kind (rt_res ?t u) \<noteq> KResource"
      if "u \<in> set (r_dep_our_service (rt_res ?t x))" for u
    proof -
      have xr: "x \<noteq> r" using that new by auto
      then have u: "u \<in> set (rt_ids s) \<and> r_kind (rt_res s u) \<noteq> KResource"
        using d(7) [of x u] x that same(10) by simp
      then show "u \<in> set (r # rt_ids s)" by simp
      have "u \<noteq> r" using u r by blast
      then show "r_kind (rt_res ?t u) \<noteq> KResource" using u same(4) by simp
    qed
  qed
qed

lemma setup_ok_added:
  assumes ok: "setup_ok s" and r: "r \<notin> set (rt_ids s)" and p: "p \<in> set (rt_ids s)"
    and lev: "level = (if k = KResource then RUNNING else CONSTRUCTED)"
    and kp: "r_kind (rt_res s p) = KResource \<Longrightarrow> k = KResource"
    and run: "ResourceBase r name p level k s = Inr t"
  shows "setup_ok t" and "t = added r name p level k s"
proof -
  have g: "graph_ok s" and i: "idle s" and im: "\<forall>x \<in> set (rt_ids s). r_impl (rt_res s x) = None"
    using ok by (simp_all add: setup_ok_def)
  have f: "p \<noteq> r" "smap_find name (r_children (rt_res s p)) = None"
    and t: "t = added r name p level k s"
    using run by (simp_all add: ResourceBase_Inr [OF graph_okD(3) [OF g p]])
  show "t = added r name p level k s" by (rule t)
  have "r_impl (rt_res t x) = None" if "x \<in> set (rt_ids t)" for x
    using that im t added_old(7) [OF _ f(1)] added_res(1) [OF f(1)] by (cases "x = r") auto
  then show "setup_ok t"
    using graph_ok_added [OF g r p f(2)] idle_added [OF g i r p lev kp] t by (simp add: setup_ok_def)
qed

lemma setup_ok_reference:
  assumes ok: "setup_ok s" and r: "r \<notin> set (rt_ids s)" and p: "p \<in> set (rt_ids s)"
    and kp: "is_service (r_kind (rt_res s p))"
    and run: "GenericServiceReference r name p ref_name type s = Inr t"
  shows "setup_ok t"
proof -
  let ?k = "KReference ref_name type"
  obtain s1 where s1: "ResourceBase r name p CONSTRUCTED ?k s = Inr s1"
    using run by (cases "ResourceBase r name p CONSTRUCTED ?k s") (auto simp: GenericServiceReference_def)
  have kp': "r_kind (rt_res s p) = KResource \<Longrightarrow> ?k = KResource"
    using kp by (simp add: is_service_def)
  from setup_ok_added [OF ok r p _ kp' s1]
  have ok1: "setup_ok s1" and s1_eq: "s1 = added r name p CONSTRUCTED ?k s" by simp_all
  have rp: "p \<noteq> r" using r p by blast
  have t: "t = upd p (\<lambda>x. x\<lparr>r_references_from := r # r_references_from x\<rparr>)
      (s1\<lparr>rt_references := r # rt_references s1\<rparr>)"
    using run s1 by (simp add: GenericServiceReference_def bbox_assert_def Let_def split: if_splits)
  have "graph_ok t"
    unfolding t
  proof (rule graph_ok_reference)
    show "graph_ok s1" using ok1 by (simp add: setup_ok_def)
    show "r_kind (rt_res s1 p) \<noteq> KResource"
      using kp s1_eq added_old(4) [OF rp rp] by (simp add: is_service_def)
  qed (simp_all add: s1_eq added_res(1) [OF rp])
  moreover have "idle t"
    by (rule idle_same [of s1]) (use ok1 idleD(7) [of s1] in \<open>auto simp: setup_ok_def t split: if_splits\<close>)
  moreover have "\<forall>x \<in> set (rt_ids t). r_impl (rt_res t x) = None"
    using ok1 by (simp add: setup_ok_def t)
  ultimately show ?thesis by (simp add: setup_ok_def)
qed

lemma setup_ok_depend:
  assumes ok: "setup_ok s" and r: "r \<in> set (rt_ids s)" and d: "d \<in> set (rt_ids s)"
    and k: "is_service (r_kind (rt_res s r))" "is_service (r_kind (rt_res s d))"
    and run: "SetThisDependantOn r d s = Inr t"
  shows "setup_ok t"
proof -
  have t: "t = upd d (\<lambda>x. x\<lparr>r_dep_us := r # r_dep_us x\<rparr>) (upd r (\<lambda>x. x\<lparr>r_dep_them := d # r_dep_them x\<rparr>) s)"
    using run by (simp add: SetThisDependantOn_def bbox_assert_def split: if_splits)
  have "graph_ok t"
    unfolding t using ok r d k by (intro graph_ok_depend) (simp_all add: setup_ok_def is_service_def)
  moreover have "idle t"
    by (rule idle_same [of s]) (use ok idleD(7) [of s] in \<open>auto simp: setup_ok_def t split: if_splits\<close>)
  moreover have "\<forall>x \<in> set (rt_ids t). r_impl (rt_res t x) = None"
    using ok by (auto simp: setup_ok_def t)
  ultimately show ?thesis by (simp add: setup_ok_def)
qed

lemma graph_ok_same:
  assumes "graph_ok s" and "rt_ids t = rt_ids s" "rt_root t = rt_root s" "rt_services t = rt_services s"
    "rt_references t = rt_references s"
    and "\<And>x. r_children (rt_res t x) = r_children (rt_res s x) \<and> r_parent (rt_res t x) = r_parent (rt_res s x)
      \<and> r_name (rt_res t x) = r_name (rt_res s x) \<and> r_kind (rt_res t x) = r_kind (rt_res s x)
      \<and> r_references_from (rt_res t x) = r_references_from (rt_res s x)
      \<and> r_dep_them (rt_res t x) = r_dep_them (rt_res s x) \<and> r_dep_us (rt_res t x) = r_dep_us (rt_res s x)"
  shows "graph_ok t"
proof -
  have e: "r_children (rt_res t x) = r_children (rt_res s x)" "r_parent (rt_res t x) = r_parent (rt_res s x)"
      "r_name (rt_res t x) = r_name (rt_res s x)" "r_kind (rt_res t x) = r_kind (rt_res s x)"
      "r_references_from (rt_res t x) = r_references_from (rt_res s x)"
      "r_dep_them (rt_res t x) = r_dep_them (rt_res s x)" "r_dep_us (rt_res t x) = r_dep_us (rt_res s x)" for x
    using assms(6) [of x] by blast+
  show ?thesis
    using assms(1) unfolding graph_ok_def assms(2-5) e .
qed

lemma setup_ok_depend_ref:
  assumes ok: "setup_ok s" and r: "r \<in> set (rt_ids s)" and k: "is_service (r_kind (rt_res s r))"
    and run: "SetThisDependantOn_ref r ref s = Inr t"
  shows "setup_ok t"
proof -
  have t: "t = upd ref (\<lambda>x. x\<lparr>r_dep_our_service := r # r_dep_our_service x\<rparr>)
      (upd r (\<lambda>x. x\<lparr>r_dep_their_ref := ref # r_dep_their_ref x\<rparr>) s)"
    using run by (simp add: SetThisDependantOn_ref_def bbox_assert_def split: if_splits)
  have "graph_ok t"
    by (rule graph_ok_same [of s]) (use ok in \<open>simp_all add: setup_ok_def t\<close>)
  moreover have "idle t"
    by (rule idle_same [of s])
      (use ok r k idleD(7) [of s] in \<open>auto simp: setup_ok_def t is_service_def split: if_splits\<close>)
  moreover have "\<forall>x \<in> set (rt_ids t). r_impl (rt_res t x) = None"
    using ok by (auto simp: setup_ok_def t)
  ultimately show ?thesis by (simp add: setup_ok_def)
qed

lemma setup_ok_register:
  assumes ok: "setup_ok s" and r: "r \<in> set (rt_ids s)" and k: "is_service (r_kind (rt_res s r))"
    and run: "GenericRegisterService r name type s = Inr t"
  shows "setup_ok t"
proof -
  have t: "t = s\<lparr>rt_services := smap_assign name \<lparr>se_type = type, se_impl = r\<rparr> (rt_services s)\<rparr>"
    using run by (simp add: GenericRegisterService_def bbox_assert_def split: if_splits)
  have "graph_ok t"
    unfolding t using ok r k by (intro graph_ok_register) (simp_all add: setup_ok_def is_service_def)
  moreover have "idle t"
    by (rule idle_same [of s]) (use ok idleD(7) [of s] in \<open>auto simp: setup_ok_def t\<close>)
  ultimately show ?thesis using ok by (simp add: setup_ok_def t)
qed

lemma setup_step_ok:
  assumes "setup_step s t" and ok: "setup_ok s"
  shows "setup_ok t"
  using assms(1)
proof cases
  case (service r p name)
  then show ?thesis
    using setup_ok_added(1) [OF ok service(1,2), of CONSTRUCTED KService name t] by (simp add: new_Service_def)
next
  case (folder r p name)
  then show ?thesis
    using setup_ok_added(1) [OF ok folder(1,2), of CONSTRUCTED KFolder name t] by (simp add: new_ServiceFolder_def)
next
  case (resource r p name)
  then show ?thesis
    using setup_ok_added(1) [OF ok resource(1,2), of RUNNING KResource name t] by (simp add: new_Resource_def)
qed (use ok in \<open>blast intro: setup_ok_reference setup_ok_register setup_ok_depend setup_ok_depend_ref\<close>)+

lemma setup_ok_init: "setup_ok (new_Proactor r)"
  by (simp add: setup_ok_def graph_ok_def idle_def idle_at_def new_Proactor_def smap_ok_def)

lemma set_up_ok: "set_up s \<Longrightarrow> setup_ok s"
  by (induction rule: set_up.induct) (auto intro: setup_ok_init setup_step_ok)

subsection \<open>Connecting the references and starting\<close>

definition same_world :: "runtime \<Rightarrow> runtime \<Rightarrow> bool" where
  "same_world s t \<longleftrightarrow> rt_ids t = rt_ids s \<and> rt_root t = rt_root s \<and> rt_services t = rt_services s
     \<and> rt_references t = rt_references s \<and> (\<forall>x. r_kind (rt_res t x) = r_kind (rt_res s x))"

lemma connect_dep_ok:
  assumes g: "graph_ok s" and i: "idle s" and d: "d \<in> set (rt_ids s)" "r_kind (rt_res s d) \<noteq> KResource"
    and u: "u \<in> set (rt_ids s)" "r_kind (rt_res s u) \<noteq> KResource" and run: "connect_dep d u s = Inr t"
  shows "graph_ok t" and "idle t" and "same_world s t" and "\<forall>x. r_impl (rt_res t x) = r_impl (rt_res s x)"
proof -
  have t: "t = upd d (\<lambda>x. x\<lparr>r_dep_us := u # r_dep_us x\<rparr>) (upd u (\<lambda>x. x\<lparr>r_dep_them := d # r_dep_them x\<rparr>) s)"
    using run by (simp add: connect_dep_def bbox_assert_def split: if_splits)
  show "graph_ok t" unfolding t by (rule graph_ok_depend [OF g u(1) d(1) u(2) d(2)])
  show "idle t"
    by (rule idle_same [of s]) (use i idleD(7) [OF i] in \<open>auto simp: t split: if_splits\<close>)
  show "same_world s t" "\<forall>x. r_impl (rt_res t x) = r_impl (rt_res s x)"
    by (simp_all add: t same_world_def)
qed

lemma connect_deps_ok:
  assumes "fold_res (connect_dep d) us s = Inr t" and "graph_ok s" and "idle s"
    and "d \<in> set (rt_ids s)" "r_kind (rt_res s d) \<noteq> KResource"
    and "\<forall>u \<in> set us. u \<in> set (rt_ids s) \<and> r_kind (rt_res s u) \<noteq> KResource"
  shows "graph_ok t \<and> idle t \<and> same_world s t \<and> (\<forall>x. r_impl (rt_res t x) = r_impl (rt_res s x))"
  using assms
proof (induction us arbitrary: s)
  case Nil
  then show ?case by (simp add: same_world_def)
next
  case (Cons u us)
  obtain s1 where s1: "connect_dep d u s = Inr s1" and rest: "fold_res (connect_dep d) us s1 = Inr t"
    using Cons.prems(1) by (cases "connect_dep d u s") auto
  note c = connect_dep_ok [OF Cons.prems(2-5) _ _ s1]
  have "graph_ok s1" "idle s1" "same_world s s1" "\<forall>x. r_impl (rt_res s1 x) = r_impl (rt_res s x)"
    using c Cons.prems(6) by auto
  then show ?case
    using Cons.IH [OF rest] Cons.prems(4-6) by (simp add: same_world_def)
qed

definition connecting_ok :: "runtime \<Rightarrow> bool" where
  "connecting_ok s \<longleftrightarrow> graph_ok s \<and> idle s \<and> impl_ok s"

lemma connect_ref_ok:
  assumes ok: "connecting_ok s" and ref: "ref \<in> set (rt_references s)" and run: "connect_ref ref s = Inr t"
  shows "connecting_ok t" and "same_world s t"
    and "r_kind (rt_res s ref) = KReference n ty \<Longrightarrow> smap_find n (rt_services s) \<noteq> None"
proof -
  have g: "graph_ok s" and i: "idle s" and im: "impl_ok s" using ok by (simp_all add: connecting_ok_def)
  note gD = graph_okD [OF g]
  obtain m y where k: "r_kind (rt_res s ref) = KReference m y" using gD(9) [OF ref] by blast
  obtain e where e: "smap_find m (rt_services s) = Some e"
    using run k by (auto simp: connect_ref_def split: option.splits)
  show "r_kind (rt_res s ref) = KReference n ty \<Longrightarrow> smap_find n (rt_services s) \<noteq> None"
    using k e by simp
  let ?s1 = "upd ref (\<lambda>x. x\<lparr>r_impl := Some (se_impl e)\<rparr>) s"
  have fold: "fold_res (connect_dep (se_impl e)) (r_dep_our_service (rt_res s ref)) ?s1 = Inr t"
    using run k e by (simp add: connect_ref_def bbox_assert_def split: if_splits)
  have g1: "graph_ok ?s1" by (rule graph_ok_same [OF g]) simp_all
  have i1: "idle ?s1"
    by (rule idle_same [OF i]) (use idleD(7) [OF i] in \<open>auto split: if_splits\<close>)
  have im1: "impl_ok ?s1"
    using im k e by (auto simp: impl_ok_def)
  have impl: "se_impl e \<in> set (rt_ids s)" "r_kind (rt_res s (se_impl e)) \<noteq> KResource"
    using gD(12) [of m e] e gD(2) by (auto simp: smap_find_mem)
  have us: "\<forall>u \<in> set (r_dep_our_service (rt_res s ref)). u \<in> set (rt_ids ?s1) \<and> r_kind (rt_res ?s1 u) \<noteq> KResource"
    using idleD(7) [OF i gD(8) [OF ref]] by simp
  have impl1: "se_impl e \<in> set (rt_ids ?s1)" "r_kind (rt_res ?s1 (se_impl e)) \<noteq> KResource"
    using impl by auto
  from connect_deps_ok [OF fold g1 i1 impl1 us]
  have c: "graph_ok t" "idle t" "same_world ?s1 t" "\<forall>x. r_impl (rt_res t x) = r_impl (rt_res ?s1 x)"
    by blast+
  then show "same_world s t" by (simp add: same_world_def)
  have "impl_ok t" using im1 c(3,4) unfolding impl_ok_def same_world_def by simp
  then show "connecting_ok t" using c by (simp add: connecting_ok_def)
qed

lemma connect_refs_ok:
  assumes "fold_res connect_ref refs s = Inr t" and "connecting_ok s" and "set refs \<subseteq> set (rt_references s)"
  shows "connecting_ok t \<and> same_world s t
     \<and> (\<forall>ref \<in> set refs. \<forall>n ty. r_kind (rt_res s ref) = KReference n ty \<longrightarrow> smap_find n (rt_services s) \<noteq> None)"
  using assms
proof (induction refs arbitrary: s)
  case Nil
  then show ?case by (simp add: same_world_def)
next
  case (Cons ref refs)
  obtain s1 where s1: "connect_ref ref s = Inr s1" and rest: "fold_res connect_ref refs s1 = Inr t"
    using Cons.prems(1) by (cases "connect_ref ref s") auto
  note c = connect_ref_ok [OF Cons.prems(2) _ s1]
  have "connecting_ok s1" "same_world s s1" using c(1,2) Cons.prems(3) by auto
  then show ?case
    using Cons.IH [OF rest] c(3) Cons.prems(3) by (auto simp: same_world_def)
qed

lemma start_runner_ok:
  assumes ok: "setup_ok s" and run: "start_runner s = Inr t"
  shows "rt_ok t"
proof -
  obtain s1 where s1: "fold_res connect_ref (rt_references s) s = Inr s1"
      and t: "bind_res (RequestStart (rt_root s1) None s1) (\<lambda>s. bbox_assert ''STARTING'' (overall s (rt_root s) = STARTING) s) = Inr t"
    using run by (auto simp: start_runner_def ConnectRegisteredServices_def bbox_assert_def bind_res_def
        split: if_splits sum.splits)
  have "connecting_ok s" using ok by (auto simp: setup_ok_def connecting_ok_def impl_ok_def)
  from connect_refs_ok [OF s1 this subset_refl]
  have c: "connecting_ok s1" "same_world s s1" "connected s1"
    by (auto simp: connected_def same_world_def)
  then have rt: "rt_ok s1" using idle_rt_ok by (simp add: connecting_ok_def)
  have root: "rt_root s1 \<in> set (rt_ids s1)" using graph_okD(1) [OF rt_okD(1) [OF rt]] .
  have "overall s1 (rt_root s1) = CONSTRUCTED"
    using c(1) idleD(4) [OF _ root] idleD(8) [of s1] by (simp add: connecting_ok_def)
  from RequestStart_moves [OF root this, of None]
  obtain u where u: "RequestStart (rt_root s1) None s1 = Inr u" "moves s1 u" by auto
  then have "t = u" using t by (simp add: bbox_assert_def split: if_splits)
  then show ?thesis using u(2) moves_rt_ok [OF rt] by simp
qed

end
