(* ===== verification/RunTimeSteps.thy ===== *)
theory RunTimeSteps
  imports RunTimeSetup
begin

section \<open>The running system\<close>

text \<open>
  The steps of the running system: a work item taken from the head of the queue, and the
  operations clients may call in between. Every reachable state satisfies the invariant, no
  work item fails an assertion, and each step is a sequence of steps of the abstract life
  cycle.
\<close>

subsection \<open>Creating and destroying resources while running\<close>

lemma new_Resource_ok:
  assumes ok: "rt_ok s" and r: "r \<notin> set (rt_ids s)" and p: "p \<in> set (rt_ids s)"
    and up: "overall s p \<noteq> STOPPED" and run: "new_Resource r name p s = Inr t"
  shows "rt_ok t" and "life_step (life_of s) (life_of t)"
proof -
  note g = rt_okD(1) [OF ok]
  have f: "p \<noteq> r" "smap_find name (r_children (rt_res s p)) = None"
    and t: "t = added r name p RUNNING KResource s"
    using run by (simp_all add: new_Resource_def ResourceBase_Inr [OF graph_okD(3) [OF g p]])
  have neq: "x \<noteq> r" if "x \<in> set (rt_ids s)" for x using r that by blast
  note same = added_old [OF neq f(1)] and new = added_res(1) [OF f(1)]
  show step: "life_step (life_of s) (life_of t)"
    unfolding t life_of_added [OF g r p] by (rule life_step.create) (use r p up in auto)
  have "graph_ok t" unfolding t by (rule graph_ok_added [OF g r p f(2)])
  moreover have "impl_ok t"
    using rt_okD(2) [OF ok] r same(4,7) new by (auto simp: impl_ok_def t)
  moreover have "connected t"
    using rt_okD(3) [OF ok] same(4) [OF graph_okD(8) [OF g]] by (auto simp: connected_def t)
  moreover have "work_ok t"
  proof -
    have "r \<notin> set (rt_queue s)" using rt_okD(4) [OF ok] r by (auto simp: work_ok_def)
    then have "count_list (rt_queue t) r = (if r_work_requested (rt_res t r) then 1 else 0)"
      using new by (simp add: t count_list_0_iff)
    moreover have "count_list (rt_queue t) x = (if r_work_requested (rt_res t x) then 1 else 0)" if "x \<noteq> r" for x
      using rt_okD(4) [OF ok] added_old(9) [OF that f(1)] by (auto simp: work_ok_def t)
    ultimately have "count_list (rt_queue t) x = (if r_work_requested (rt_res t x) then 1 else 0)" for x
      by (cases "x = r") auto
    then show ?thesis using rt_okD(4) [OF ok] by (auto simp: work_ok_def t)
  qed
  moreover have "kind_ok t"
    using rt_okD(5) [OF ok] r same(4,8,11,12) new by (auto simp: kind_ok_def t been_up_def)
  ultimately show "rt_ok t"
    using life_step_ok [OF step rt_okD(6) [OF ok]] by (simp add: rt_ok_def)
qed

text \<open>A client resource is destroyed once it has stopped and has no children left.\<close>

lemma destroy_resource_Inr:
  assumes ok: "rt_ok s" and r: "r \<in> set (rt_ids s)" and k: "r_kind (rt_res s r) = KResource"
    and run: "destroy_resource r s = Inr t"
  shows "overall s r = STOPPED" and "r_children (rt_res s r) = []" and "\<not> r_work_requested (rt_res s r)"
    and "t = (case r_parent (rt_res s r) of None \<Rightarrow> s
          | Some p \<Rightarrow> upd p (\<lambda>x. x\<lparr>r_children := smap_erase (r_name (rt_res s r)) (r_children x)\<rparr>) s)
          \<lparr>rt_ids := removeAll r (rt_ids s)\<rparr>"
proof -
  have nodeps: "r_dep_them (rt_res s r) = []" "r_dep_us (rt_res s r) = []"
    using graph_okD(13) [OF rt_okD(1) [OF ok] r k] by simp_all
  note d = run [unfolded destroy_resource_def bbox_assert_def bind_res_def]
  show "overall s r = STOPPED" "r_children (rt_res s r) = []" "\<not> r_work_requested (rt_res s r)"
    using d by (auto split: if_splits)
  show "t = (case r_parent (rt_res s r) of None \<Rightarrow> s
          | Some p \<Rightarrow> upd p (\<lambda>x. x\<lparr>r_children := smap_erase (r_name (rt_res s r)) (r_children x)\<rparr>) s)
          \<lparr>rt_ids := removeAll r (rt_ids s)\<rparr>"
    using d nodeps by (auto split: if_splits option.splits)
qed

lemma graph_ok_removed:
  assumes g: "graph_ok s" and r: "r \<in> set (rt_ids s)" and k: "r_kind (rt_res s r) = KResource"
    and root: "r \<noteq> rt_root s" and leaf: "r_children (rt_res s r) = []"
    and ids: "rt_ids t = removeAll r (rt_ids s)"
    and eq: "rt_root t = rt_root s" "rt_services t = rt_services s" "rt_references t = rt_references s"
    and kids: "\<And>x. r_children (rt_res t x) = (if r_parent (rt_res s r) = Some x
        then smap_erase (r_name (rt_res s r)) (r_children (rt_res s x)) else r_children (rt_res s x))"
    and same: "\<And>x. r_parent (rt_res t x) = r_parent (rt_res s x)" "\<And>x. r_name (rt_res t x) = r_name (rt_res s x)"
      "\<And>x. r_kind (rt_res t x) = r_kind (rt_res s x)"
      "\<And>x. r_references_from (rt_res t x) = r_references_from (rt_res s x)"
      "\<And>x. r_dep_them (rt_res t x) = r_dep_them (rt_res s x)" "\<And>x. r_dep_us (rt_res t x) = r_dep_us (rt_res s x)"
  shows "graph_ok t"
proof -
  note gD = graph_okD [OF g]
  have none: "r_dep_them (rt_res s r) = []" "r_dep_us (rt_res s r) = []" "r_references_from (rt_res s r) = []"
    using gD(13) [OF r k] by simp_all
  have mem: "(n, c) \<in> set (r_children (rt_res t x)) \<longleftrightarrow> (n, c) \<in> set (r_children (rt_res s x)) \<and> c \<noteq> r"
    if x: "x \<in> set (rt_ids s)" for x n c
  proof -
    note ok = gD(3) [OF x]
    show ?thesis
    proof (cases "r_parent (rt_res s r) = Some x")
      case True
      then have "smap_find (r_name (rt_res s r)) (r_children (rt_res s x)) = Some r"
        using gD(5) [OF r True] by (simp add: smap_find_mem [OF ok])
      then show ?thesis
        using True gD(4) [OF x, of n c]
        by (auto simp: kids smap_find_mem [OF ok] smap_find_mem [OF smap_erase_ok [OF ok]] smap_erase_find)
    next
      case False
      then show ?thesis using gD(4) [OF x, of n r] by (auto simp: kids)
    qed
  qed
  have in_t: "x \<in> set (rt_ids t) \<longleftrightarrow> x \<in> set (rt_ids s) \<and> x \<noteq> r" for x by (auto simp: ids)
  show ?thesis
    apply (rule graph_okI; unfold in_t eq same)
    subgoal using gD(1) root by blast
    subgoal by (rule gD(2))
    subgoal for x using gD(3) [of x] by (simp add: kids smap_erase_ok)
    subgoal for x n c using gD(4) [of x n c] mem by blast
    subgoal for c x using gD(5) [of c x] mem [of x] leaf by auto
    subgoal for x d using gD(6) [of x d] none by auto
    subgoal for x u using gD(7) [of x u] none by auto
    subgoal for ref using gD(8,9) [of ref] k by auto
    subgoal by (rule gD(9))
    subgoal for ref using gD(10) [of ref] none by (metis emptyE list.set(1))
    subgoal for x ref using gD(11) [of x ref] by blast
    subgoal for n e using gD(12) [of n e] k by auto
    subgoal using gD(13) by blast
    done
qed

lemma destroy_resource_ok:
  assumes ok: "rt_ok s" and r: "r \<in> set (rt_ids s)" and k: "r_kind (rt_res s r) = KResource"
    and root: "r \<noteq> rt_root s" and run: "destroy_resource r s = Inr t"
  shows "rt_ok t" and "life_step (life_of s) (life_of t)"
proof -
  note g = rt_okD(1) [OF ok] and d = destroy_resource_Inr [OF ok r k run]
  have ids: "rt_ids t = removeAll r (rt_ids s)" "rt_root t = rt_root s" "rt_services t = rt_services s"
      "rt_references t = rt_references s" "rt_queue t = rt_queue s"
    using d(4) by (auto split: option.splits)
  have kids: "r_children (rt_res t x) = (if r_parent (rt_res s r) = Some x
        then smap_erase (r_name (rt_res s r)) (r_children (rt_res s x)) else r_children (rt_res s x))" for x
    using d(4) by (auto split: option.splits)
  have same: "r_parent (rt_res t x) = r_parent (rt_res s x)" "r_name (rt_res t x) = r_name (rt_res s x)"
      "r_kind (rt_res t x) = r_kind (rt_res s x)" "r_references_from (rt_res t x) = r_references_from (rt_res s x)"
      "r_dep_them (rt_res t x) = r_dep_them (rt_res s x)" "r_dep_us (rt_res t x) = r_dep_us (rt_res s x)"
      "r_impl (rt_res t x) = r_impl (rt_res s x)" "r_callback (rt_res t x) = r_callback (rt_res s x)"
      "r_work_requested (rt_res t x) = r_work_requested (rt_res s x)"
      "overall t x = overall s x" "locally t x = locally s x" for x
    using d(4) by (auto split: option.splits)
  have g': "graph_ok t"
    by (rule graph_ok_removed [OF g r k root d(2) ids(1-4) kids same(1-6)])
  have no_use: "(r, x) \<notin> uses s" "(x, r) \<notin> uses s" for x
  proof -
    show "(r, x) \<notin> uses s" using uses_ends(3) [OF g rt_okD(2) [OF ok]] k by blast
    show "(x, r) \<notin> uses s"
    proof
      assume "(x, r) \<in> uses s"
      then consider "x \<in> set (rt_ids s)" "r \<in> set (r_dep_them (rt_res s x))"
        | ref where "x \<in> set (rt_ids s)" "ref \<in> set (r_references_from (rt_res s x))" "r_impl (rt_res s ref) = Some r"
        by (auto simp: uses_def)
      then show False
      proof cases
        case 1
        then show False using graph_okD(6,13) [OF g] r k by fastforce
      next
        case 2
        then have "ref \<in> set (rt_ids s)" using graph_okD(8,11) [OF g] by blast
        then obtain n e where "smap_find n (rt_services s) = Some e" "se_impl e = r"
          using rt_okD(2) [OF ok] 2(3) unfolding impl_ok_def by blast
        then show False using graph_okD(2,12) [OF g] k by (auto simp: smap_find_mem [symmetric])
      qed
    qed
  qed
  have "uses t = uses s"
    using no_use by (auto simp: uses_def ids same)
  then have lt: "life_of t = (life_of s)\<lparr>lf_ids := lf_ids (life_of s) - {r}\<rparr>"
    by (simp add: life_of_def same ids set_removeAll)
  show step: "life_step (life_of s) (life_of t)"
    unfolding lt
  proof (rule life_step.destroy)
    show "\<not> lf_child (life_of s) r c" for c
      using graph_okD(5) [OF g, of c r] d(2) by auto
  qed (use r d(1) no_use in simp_all)
  have "impl_ok t" using rt_okD(2) [OF ok] by (simp add: impl_ok_def ids same)
  moreover have "connected t" using rt_okD(3) [OF ok] by (simp add: connected_def ids same)
  moreover have "work_ok t"
    using rt_okD(4) [OF ok] d(3) by (auto simp: work_ok_def ids same count_list_0_iff split: if_splits)
  moreover have "kind_ok t" using rt_okD(5) [OF ok] by (simp add: kind_ok_def ids same)
  ultimately show "rt_ok t"
    using g' life_step_ok [OF step rt_okD(6) [OF ok]] by (simp add: rt_ok_def)
qed

subsection \<open>Steps\<close>

text \<open>
  Besides the work items, the public and protected operations of the classes, called when
  their assertions hold: a client that trips an assertion is a bug of the client. Clients
  notify their own services and resources, and create resources under a parent that has not
  stopped.
\<close>

inductive run_step :: "runtime \<Rightarrow> runtime \<Rightarrow> bool" where
  work: "rt_queue s = r # q \<Longrightarrow> HandleUpdateWork r (s\<lparr>rt_queue := q\<rparr>) = Inr t \<Longrightarrow> run_step s t"
| client_start: "r \<in> set (rt_ids s) \<Longrightarrow> is_service (r_kind (rt_res s r)) \<Longrightarrow>
     RequestStart r (map_option CallClient cb) s = Inr t \<Longrightarrow> run_step s t"
| client_stop: "r \<in> set (rt_ids s) \<Longrightarrow> r_kind (rt_res s r) \<noteq> KProactor \<Longrightarrow>
     RequestStop r (map_option CallClient cb) s = Inr t \<Longrightarrow> run_step s t"
| proactor_stop: "Proactor_RequestStop s = Inr t \<Longrightarrow> run_step s t"
| started: "r \<in> set (rt_ids s) \<Longrightarrow> r_kind (rt_res s r) = KService \<Longrightarrow>
     NotifyStarted r s = Inr t \<Longrightarrow> run_step s t"
| stopped: "r \<in> set (rt_ids s) \<Longrightarrow> r_kind (rt_res s r) = KService \<or> r_kind (rt_res s r) = KResource \<Longrightarrow>
     NotifyStopped r s = Inr t \<Longrightarrow> run_step s t"
| stop_children: "r \<in> set (rt_ids s) \<Longrightarrow> r_kind (rt_res s r) \<noteq> KProactor \<Longrightarrow> locally s r \<noteq> CONSTRUCTED \<Longrightarrow>
     RequestStopAllChildren r s = Inr t \<Longrightarrow> run_step s t"
| create: "r \<notin> set (rt_ids s) \<Longrightarrow> p \<in> set (rt_ids s) \<Longrightarrow> r_kind (rt_res s p) \<noteq> KProactor \<Longrightarrow>
     overall s p \<noteq> STOPPED \<Longrightarrow> new_Resource r name p s = Inr t \<Longrightarrow> run_step s t"
| destroy: "r \<in> set (rt_ids s) \<Longrightarrow> r_kind (rt_res s r) = KResource \<Longrightarrow>
     destroy_resource r s = Inr t \<Longrightarrow> run_step s t"

inductive_cases run_stepE: "run_step s t"

inductive running :: "runtime \<Rightarrow> bool" where
  begin_run: "set_up s \<Longrightarrow> start_runner s = Inr t \<Longrightarrow> running t"
| go_on: "running s \<Longrightarrow> run_step s t \<Longrightarrow> running t"

definition run_ok :: "runtime \<Rightarrow> bool" where
  "run_ok s \<longleftrightarrow> rt_ok s \<and> r_kind (rt_res s (rt_root s)) = KProactor"

lemma run_ok_moves: "run_ok s \<Longrightarrow> moves s t \<Longrightarrow> run_ok t"
  using moves_rt_ok [of s t] static_leD(2,11) [of s t] by (auto simp: run_ok_def moves_def)

text \<open>A step is a sequence of moves of the old objects, or adds or removes one object.\<close>

lemma run_step_cases:
  assumes step: "run_step s t" and ok: "run_ok s"
  shows "moves s t \<or> (run_ok t \<and> life_step (life_of s) (life_of t))"
proof -
  have rt: "rt_ok s" and root: "r_kind (rt_res s (rt_root s)) = KProactor"
    using ok by (simp_all add: run_ok_def)
  from step show ?thesis
  proof cases
    case (work r q)
    then show ?thesis using HandleUpdateWork_moves [OF rt work(1)] by auto
  next
    case (client_start r cb)
    then have "overall s r = CONSTRUCTED" by (auto simp: RequestStart_def bbox_assert_def split: if_splits)
    with RequestStart_moves [OF client_start(1) this, of "map_option CallClient cb"] client_start(3)
    show ?thesis by auto
  next
    case (client_stop r cb)
    then have "overall s r = RUNNING" by (auto simp: RequestStop_def bbox_assert_def split: if_splits)
    with RequestStop_moves [OF client_stop(1) this, of "map_option CallClient cb"] client_stop(3)
    show ?thesis by auto
  next
    case proactor_stop
    then have run: "RequestStop (rt_root s) (Some CallDisconnect) s = Inr t"
      by (simp add: Proactor_RequestStop_def)
    then have "overall s (rt_root s) = RUNNING" by (auto simp: RequestStop_def bbox_assert_def split: if_splits)
    with RequestStop_moves [OF graph_okD(1) [OF rt_okD(1) [OF rt]] this, of "Some CallDisconnect"] run
    show ?thesis by auto
  next
    case (started r)
    then have "locally s r = STARTING" by (auto simp: NotifyStarted_def bbox_assert_def split: if_splits)
    with NotifyStarted_moves [OF started(1) this] started(3) show ?thesis by auto
  next
    case (stopped r)
    then have "locally s r = STOPPING" by (auto simp: NotifyStopped_def bbox_assert_def split: if_splits)
    with NotifyStopped_moves [OF stopped(1) this] stopped(3) show ?thesis by auto
  next
    case (stop_children r)
    with RequestStopAllChildren_moves [OF rt stop_children(1,3)] show ?thesis by auto
  next
    case (create r p name)
    have "r_kind (rt_res t (rt_root t)) = KProactor"
    proof -
      have "p \<noteq> r" using create(1,2) by blast
      moreover have "rt_root s \<noteq> r" using graph_okD(1) [OF rt_okD(1) [OF rt]] create(1) by blast
      moreover have "t = added r name p RUNNING KResource s"
        using create(5) by (simp add: new_Resource_def ResourceBase_Inr [OF graph_okD(3) [OF rt_okD(1) [OF rt] create(2)]])
      ultimately show ?thesis using root added_old(4) by simp
    qed
    then show ?thesis using new_Resource_ok [OF rt create(1,2,4,5)] by (simp add: run_ok_def)
  next
    case (destroy r)
    have nr: "r \<noteq> rt_root s" using root destroy(2) by auto
    have "r_kind (rt_res t (rt_root t)) = KProactor"
      using destroy_resource_Inr(4) [OF rt destroy] root by (auto split: option.splits)
    then show ?thesis using destroy_resource_ok [OF rt destroy(1,2) nr destroy(3)] by (simp add: run_ok_def)
  qed
qed

lemma run_step_ok: "run_step s t \<Longrightarrow> run_ok s \<Longrightarrow> run_ok t"
  using run_step_cases run_ok_moves by blast

lemma start_runner_root:
  assumes "setup_ok s" and "start_runner s = Inr t"
  shows "run_ok t"
proof -
  obtain s1 where s1: "fold_res connect_ref (rt_references s) s = Inr s1"
      and t: "bind_res (RequestStart (rt_root s1) None s1) (\<lambda>s. bbox_assert ''STARTING'' (overall s (rt_root s) = STARTING) s) = Inr t"
    using assms(2) by (auto simp: start_runner_def ConnectRegisteredServices_def bbox_assert_def bind_res_def
        split: if_splits sum.splits)
  have "connecting_ok s" using assms(1) by (auto simp: setup_ok_def connecting_ok_def impl_ok_def)
  from connect_refs_ok [OF s1 this subset_refl] have "idle s1" by (simp add: connecting_ok_def)
  then have "r_kind (rt_res s1 (rt_root s1)) = KProactor" by (rule idleD(8))
  then have "r_kind (rt_res t (rt_root t)) = KProactor"
    using t by (auto simp: RequestStart_def bbox_assert_def set_overall_def split: if_splits)
  then show ?thesis using start_runner_ok [OF assms] by (simp add: run_ok_def)
qed

lemma running_ok: "running s \<Longrightarrow> run_ok s"
  by (induction rule: running.induct) (auto intro: set_up_ok start_runner_root run_step_ok)

end
