(* ===== verification/RunTimeScripts.thy ===== *)
theory RunTimeScripts
  imports RunTimeSteps
begin

section \<open>Running the resources, and what holds of every run\<close>

text \<open>
  Executable scripts of set-up operations and of steps, so that concrete runs can be
  evaluated, and the properties of every reachable state of the running system.
\<close>

datatype setup_act =
    MkService rid string rid
  | MkFolder rid string rid
  | MkResource rid string rid
  | MkReference rid string rid string nat
  | Provide rid string nat
  | Depend rid rid
  | DependRef rid rid

datatype act =
    Work
  | Start rid
  | Stop rid
  | StopProactor
  | Started rid
  | Stopped rid
  | StopChildren rid
  | Create rid string rid
  | Destroy rid

definition checked :: "bool \<Rightarrow> runtime res \<Rightarrow> runtime res" where
  "checked b r = (if b then r else Inl NullPointer)"

fun do_setup :: "setup_act \<Rightarrow> runtime \<Rightarrow> runtime res" where
  "do_setup (MkService r name p) s = checked (r \<notin> set (rt_ids s) \<and> p \<in> set (rt_ids s)
      \<and> r_kind (rt_res s p) \<noteq> KResource) (new_Service r name p s)"
| "do_setup (MkFolder r name p) s = checked (r \<notin> set (rt_ids s) \<and> p \<in> set (rt_ids s)
      \<and> r_kind (rt_res s p) \<noteq> KResource) (new_ServiceFolder r name p s)"
| "do_setup (MkResource r name p) s = checked (r \<notin> set (rt_ids s) \<and> p \<in> set (rt_ids s)
      \<and> r_kind (rt_res s p) \<noteq> KProactor) (new_Resource r name p s)"
| "do_setup (MkReference r name p n ty) s = checked (r \<notin> set (rt_ids s) \<and> p \<in> set (rt_ids s)
      \<and> is_service (r_kind (rt_res s p))) (GenericServiceReference r name p n ty s)"
| "do_setup (Provide r n ty) s = checked (r \<in> set (rt_ids s) \<and> is_service (r_kind (rt_res s r)))
      (GenericRegisterService r n ty s)"
| "do_setup (Depend r d) s = checked (r \<in> set (rt_ids s) \<and> d \<in> set (rt_ids s)
      \<and> is_service (r_kind (rt_res s r)) \<and> is_service (r_kind (rt_res s d))) (SetThisDependantOn r d s)"
| "do_setup (DependRef r ref) s = checked (r \<in> set (rt_ids s) \<and> ref \<in> set (rt_references s)
      \<and> is_service (r_kind (rt_res s r))) (SetThisDependantOn_ref r ref s)"

fun do_act :: "act \<Rightarrow> runtime \<Rightarrow> runtime res" where
  "do_act Work s = (case rt_queue s of [] \<Rightarrow> Inl NullPointer
     | r # q \<Rightarrow> HandleUpdateWork r (s\<lparr>rt_queue := q\<rparr>))"
| "do_act (Start r) s = checked (r \<in> set (rt_ids s) \<and> is_service (r_kind (rt_res s r))) (RequestStart r None s)"
| "do_act (Stop r) s = checked (r \<in> set (rt_ids s) \<and> r_kind (rt_res s r) \<noteq> KProactor) (RequestStop r None s)"
| "do_act StopProactor s = Proactor_RequestStop s"
| "do_act (Started r) s = checked (r \<in> set (rt_ids s) \<and> r_kind (rt_res s r) = KService) (NotifyStarted r s)"
| "do_act (Stopped r) s = checked (r \<in> set (rt_ids s)
     \<and> (r_kind (rt_res s r) = KService \<or> r_kind (rt_res s r) = KResource)) (NotifyStopped r s)"
| "do_act (StopChildren r) s = checked (r \<in> set (rt_ids s) \<and> r_kind (rt_res s r) \<noteq> KProactor
     \<and> locally s r \<noteq> CONSTRUCTED) (RequestStopAllChildren r s)"
| "do_act (Create r name p) s = checked (r \<notin> set (rt_ids s) \<and> p \<in> set (rt_ids s)
     \<and> r_kind (rt_res s p) \<noteq> KProactor \<and> overall s p \<noteq> STOPPED) (new_Resource r name p s)"
| "do_act (Destroy r) s = checked (r \<in> set (rt_ids s) \<and> r_kind (rt_res s r) = KResource) (destroy_resource r s)"

lemma checked_Inr [simp]: "checked b r = Inr t \<longleftrightarrow> b \<and> r = Inr t"
  by (simp add: checked_def)

lemma do_setup_step: "do_setup a s = Inr t \<Longrightarrow> setup_step s t"
  by (cases a) (auto intro: setup_step.intros)

lemma do_act_step: "do_act a s = Inr t \<Longrightarrow> run_step s t"
  using run_step.client_start [where cb = None and s = s and t = t]
    run_step.client_stop [where cb = None and s = s and t = t]
  by (cases a) (auto intro: run_step.intros split: list.splits)

lemma do_setups: "fold_res do_setup as s = Inr t \<Longrightarrow> set_up s \<Longrightarrow> set_up t"
  by (rule fold_res_invariant [where P = set_up and f = do_setup]) (auto intro: set_up.step do_setup_step)

lemma do_acts: "fold_res do_act as s = Inr t \<Longrightarrow> running s \<Longrightarrow> running t"
  by (rule fold_res_invariant [where P = running and f = do_act]) (auto intro: running.go_on do_act_step)

definition script :: "rid \<Rightarrow> setup_act list \<Rightarrow> act list \<Rightarrow> runtime res" where
  "script root setup acts = bind_res (fold_res do_setup setup (new_Proactor root))
     (\<lambda>s. bind_res (start_runner s) (fold_res do_act acts))"

lemma script_running:
  assumes "script root setup acts = Inr t"
  shows "running t"
proof -
  obtain s u where s: "fold_res do_setup setup (new_Proactor root) = Inr s" and u: "start_runner s = Inr u"
      and t: "fold_res do_act acts u = Inr t"
    using assms by (auto simp: script_def bind_res_def split: sum.splits)
  have "running u" by (rule running.begin_run [OF do_setups [OF s set_up.init] u])
  then show ?thesis by (rule do_acts [OF t])
qed

subsection \<open>Properties of every run\<close>

lemma count_le_1_distinct: "(\<And>x. count_list xs x \<le> 1) \<Longrightarrow> distinct xs"
proof (induction xs)
  case (Cons y ys)
  have "count_list ys x \<le> 1" for x
    using Cons.prems [of x] by (simp split: if_splits)
  moreover have "y \<notin> set ys"
    using Cons.prems [of y] by (simp add: count_list_0_iff)
  ultimately show ?case using Cons.IH by simp
qed simp

lemma running_parts:
  assumes "running s"
  shows "rt_ok s" and "life_ok (life_of s)" and "graph_ok s" and "work_ok s"
  using running_ok [OF assms] by (simp_all add: run_ok_def rt_ok_def)

text \<open>C8: In any run whose clients keep to the protocol, no work item fails an assertion or
  meets an unsupported transition, whatever the order of starts, stops, notifications,
  creations and destructions: the next posted \<open>HandleUpdateWork\<close> always succeeds.\<close>

theorem work_never_fails:
  assumes "running s" and "rt_queue s = r # q"
  shows "\<exists>t. HandleUpdateWork r (s\<lparr>rt_queue := q\<rparr>) = Inr t \<and> running t"
  using HandleUpdateWork_moves [OF running_parts(1) [OF assms(1)] assms(2)]
    running.go_on [OF assms(1) run_step.work [OF assms(2)]] by blast

text \<open>C10: The code refines the abstract life cycle: whatever a step of the running system
  does, the run levels of all resources go through steps of \<open>life_step\<close>, so a resource only
  starts locally when its children and all it uses run, and only stops locally when all its
  users have stopped.\<close>

theorem run_refines_life:
  assumes "running s" and "run_step s t"
  shows "life_step\<^sup>*\<^sup>* (life_of s) (life_of t)"
  using run_step_cases [OF assms(2) running_ok [OF assms(1)]] by (auto simp: moves_def)

text \<open>C11: A service outlives its users: from the moment a resource begins to start locally until
  it has stopped overall, every service it depends on, directly or through a connected
  reference, is locally running.\<close>

theorem service_outlives_users:
  assumes "running s" and "r \<in> set (rt_ids s)" and "locally s r \<noteq> CONSTRUCTED" and "overall s r \<noteq> STOPPED"
    and "d \<in> set (r_dep_them (rt_res s r))
       \<or> (\<exists>ref \<in> set (r_references_from (rt_res s r)). r_impl (rt_res s ref) = Some d)"
  shows "locally s d = RUNNING"
proof -
  have "(r, d) \<in> lf_uses (life_of s)" using assms(2,5) by (simp add: uses_def)
  from life_okD(5) [OF running_parts(2) [OF assms(1)] this] assms(3,4) show ?thesis by simp
qed

text \<open>A resource has its work flag set exactly while its call is in the queue, and no call is
  queued twice.\<close>

theorem work_posted_once:
  assumes "running s"
  shows "distinct (rt_queue s) \<and> (r \<in> set (rt_queue s) \<longleftrightarrow> r_work_requested (rt_res s r))"
proof -
  have w: "count_list (rt_queue s) x = (if r_work_requested (rt_res s x) then 1 else 0)" for x
    using running_parts(4) [OF assms] by (simp add: work_ok_def)
  have "count_list (rt_queue s) x \<le> 1" for x by (simp add: w)
  then have "distinct (rt_queue s)" by (rule count_le_1_distinct)
  moreover have "r \<in> set (rt_queue s) \<longleftrightarrow> r_work_requested (rt_res s r)"
    using w [of r] count_list_0_iff [of "rt_queue s" r] by (auto split: if_splits)
  ultimately show ?thesis by blast
qed

definition child_of :: "runtime \<Rightarrow> rid \<Rightarrow> rid \<Rightarrow> bool" where
  "child_of s p c \<longleftrightarrow> c \<in> set (rt_ids s) \<and> r_parent (rt_res s c) = Some p"

text \<open>C26: Stopping is complete: once a resource has stopped overall, everything below it in the
  tree has stopped too.\<close>

theorem stopped_subtree:
  assumes "running s" and "(child_of s)\<^sup>*\<^sup>* p c" and "overall s p = STOPPED"
  shows "overall s c = STOPPED"
  using assms(2,3)
proof (induction rule: rtranclp_induct)
  case (step y z)
  then show ?case
    using life_okD(6) [OF running_parts(2) [OF assms(1)], of y z] by (simp add: child_of_def)
qed simp

subsection \<open>Example runs\<close>

text \<open>Unfolding the operations, for the simplifier to run a script.\<close>

lemmas run_defs = script_def checked_def is_service_def new_Proactor_def new_resource_def
  new_Service_def new_ServiceFolder_def new_Resource_def ResourceBase_def GenericServiceReference_def
  GenericRegisterService_def SetThisDependantOn_def SetThisDependantOn_ref_def start_runner_def
  ConnectRegisteredServices_def connect_ref_def connect_dep_def bbox_assert_def Let_def
  PostUpdateWork_def set_overall_def set_local_def upd_def
  RequestStart_def RequestStop_def Proactor_RequestStop_def stop_child_def RequestStopAllChildren_def
  NotifyStarted_def NotifyStopped_def HandleStarting_def HandleStopping_def start_child_def refs_running_def
  handle_start_def run_callback_def post_parent_def for_users_def handle_started_def users_stopped_def
  handle_stop_def handle_stopped_def HandleUpdateWork_def destroy_resource_def
  DisconnectRegisteredServices_def numeral_eq_Suc

text \<open>One service that uses another, through a reference; the user starts after the used.\<close>

definition pair_setup :: "setup_act list" where
  "pair_setup = [MkService 1 ''a'' 0, MkService 2 ''b'' 0, MkReference 3 ''r'' 1 ''B'' 7, Provide 2 ''B'' 7]"

definition pair_up :: "act list" where
  "pair_up = [Work, Work, Work, Work, Started 2, Work, Work, Work, Work]"

lemma pair_run:
  obtains s where "script 0 pair_setup pair_up = Inr s" and "rt_queue s = []"
    and "rt_ids s = [3, 2, 1, 0]" and "r_references_from (rt_res s 1) = [3]"
    and "r_impl (rt_res s 3) = Some 2" and "locally s 1 = STARTING" and "overall s 1 = STARTING"
    and "locally s 2 = RUNNING"
  by (simp add: run_defs pair_setup_def pair_up_def)

lemma solo_run:
  obtains s where "script 0 [MkService 1 ''a'' 0] [] = Inr s" and "rt_queue s = [0]"
  by (simp add: run_defs)

theorem work_never_fails_witness:
  "\<exists>s. rt_queue s = [0] \<and> (\<exists>t. HandleUpdateWork 0 (s\<lparr>rt_queue := []\<rparr>) = Inr t \<and> running t)"
proof -
  obtain s where s: "script 0 [MkService 1 ''a'' 0] [] = Inr s" "rt_queue s = [0]" by (rule solo_run)
  then show ?thesis using work_never_fails [OF script_running [OF s(1)] s(2)] by blast
qed

theorem run_refines_life_witness:
  "\<exists>s t. running s \<and> run_step s t \<and> life_step\<^sup>*\<^sup>* (life_of s) (life_of t)"
proof -
  obtain s where s: "script 0 [MkService 1 ''a'' 0] [] = Inr s" "rt_queue s = [0]" by (rule solo_run)
  note run = script_running [OF s(1)]
  obtain t where "HandleUpdateWork 0 (s\<lparr>rt_queue := []\<rparr>) = Inr t"
    using HandleUpdateWork_moves [OF running_parts(1) [OF run] s(2)] by blast
  then have "run_step s t" using s(2) by (intro run_step.work) auto
  then show ?thesis using run run_refines_life [OF run] by blast
qed

theorem service_outlives_users_witness:
  "\<exists>s. running s \<and> locally s 1 = STARTING \<and> r_impl (rt_res s 3) = Some 2 \<and> locally s 2 = RUNNING"
proof -
  obtain s where s: "script 0 pair_setup pair_up = Inr s" "rt_queue s = []" "rt_ids s = [3, 2, 1, 0]"
      "r_references_from (rt_res s 1) = [3]" "r_impl (rt_res s 3) = Some 2" "locally s 1 = STARTING"
      "overall s 1 = STARTING" "locally s 2 = RUNNING"
    by (rule pair_run)
  note run = script_running [OF s(1)]
  have "locally s 2 = RUNNING"
    by (rule service_outlives_users [OF run, of 1]) (use s in auto)
  then show ?thesis using run s by blast
qed

theorem work_posted_once_witness:
  "\<exists>s. running s \<and> r_work_requested (rt_res s 0) \<and> \<not> r_work_requested (rt_res s 1)"
proof -
  obtain s where s: "script 0 [MkService 1 ''a'' 0] [] = Inr s" "rt_queue s = [0]" by (rule solo_run)
  note run = script_running [OF s(1)]
  show ?thesis using work_posted_once [OF run, of 0] work_posted_once [OF run, of 1] s(2) run by auto
qed

text \<open>A service and its client resource, started and stopped again with the proactor.\<close>

definition up_and_down :: "act list" where
  "up_and_down = [Work, Work, Started 1, Work, Work, Work, StopProactor, Work, Work, Work,
     StopChildren 1, Stopped 1, Work, Stopped 2, Work, Work, Work, Work]"

lemma up_and_down_run:
  obtains s where "script 0 [MkService 1 ''a'' 0, MkResource 2 ''c'' 1] up_and_down = Inr s"
    and "rt_queue s = []" and "overall s 0 = STOPPED" and "rt_ids s = [2, 1, 0]"
    and "r_parent (rt_res s 1) = Some 0" and "r_parent (rt_res s 2) = Some 1"
  by (simp add: run_defs up_and_down_def)

theorem stopped_subtree_witness:
  "\<exists>s. running s \<and> overall s 0 = STOPPED \<and> overall s 2 = STOPPED"
proof -
  obtain s where s: "script 0 [MkService 1 ''a'' 0, MkResource 2 ''c'' 1] up_and_down = Inr s"
      "rt_queue s = []" "overall s 0 = STOPPED" "rt_ids s = [2, 1, 0]"
      "r_parent (rt_res s 1) = Some 0" "r_parent (rt_res s 2) = Some 1"
    by (rule up_and_down_run)
  note run = script_running [OF s(1)]
  have "child_of s 0 1" "child_of s 1 2" using s by (simp_all add: child_of_def)
  then have "(child_of s)\<^sup>*\<^sup>* 0 2" by (meson r_into_rtranclp rtranclp.rtrancl_into_rtrancl)
  from stopped_subtree [OF run this s(3)] run s(3) show ?thesis by blast
qed

text \<open>A start can be lost: a resource that waits for a child to run is not woken when the
  child is stopped and destroyed, because the destructor takes the child out of the parent's
  map without posting update work. In this run nothing is queued, and the service waits
  although it has no children, dependencies or references left.\<close>

theorem destroy_loses_wakeup:
  "\<exists>s. running s \<and> rt_queue s = [] \<and> 1 \<in> set (rt_ids s)
     \<and> overall s 1 = STARTING \<and> locally s 1 = CONSTRUCTED
     \<and> r_children (rt_res s 1) = [] \<and> r_dep_them (rt_res s 1) = [] \<and> r_references_from (rt_res s 1) = []"
proof -
  obtain s where s: "script 0 [MkService 1 ''a'' 0, MkResource 2 ''c'' 1]
        [Work, Stop 2, Work, Work, Stopped 2, Work, Work, Destroy 2] = Inr s"
    and f: "rt_queue s = []" "1 \<in> set (rt_ids s)" "overall s 1 = STARTING" "locally s 1 = CONSTRUCTED"
      "r_children (rt_res s 1) = []" "r_dep_them (rt_res s 1) = []" "r_references_from (rt_res s 1) = []"
    by (simp add: run_defs smap_erase_def)
  show ?thesis using script_running [OF s] f by blast
qed

end
