(* ===== verification/TextCoding.thy ===== *)
theory TextCoding
  imports Base16
begin

section \<open>bbox::TextCoding\<close>

text \<open>
  \<open>BBoxUtils/bbox/TextCoding.cpp\<close> without the Windows parts: external bytes, which are taken
  to be UTF-8 as they are, and the conversion of newlines.
\<close>

definition ExternalBytes_to_UTF8 :: "byte list \<Rightarrow> errc option \<times> string" where
  "ExternalBytes_to_UTF8 bytes = (if length bytes = 0 then (None, []) else (None, map (\<lambda>b. char_of (unat b)) bytes))"

definition UTF8_to_ExternalBytes :: "string \<Rightarrow> errc option \<times> byte list" where
  "UTF8_to_ExternalBytes str = (if length str = 0 then (None, []) else (None, map (\<lambda>c. of_nat (of_char c)) str))"

definition CR :: char where "CR = CHR 0x0D"
definition LF :: char where "LF = CHR 0x0A"

definition is_newline :: "char \<Rightarrow> bool" where
  "is_newline c \<longleftrightarrow> c = CR \<or> c = LF"

text \<open>The string from \<open>start_pos\<close> on, and the result so far.\<close>

function Newlines_loop :: "string \<Rightarrow> string \<Rightarrow> string \<Rightarrow> string" where
  "Newlines_loop replacement str result =
     (if str = [] then result
      else let line = takeWhile (\<lambda>c. \<not> is_newline c) str in
        case dropWhile (\<lambda>c. \<not> is_newline c) str of
          [] \<Rightarrow> result @ line
        | c # rest \<Rightarrow>
            let result = result @ line @ replacement
            in if c = CR \<and> rest \<noteq> [] \<and> hd rest = LF
               then Newlines_loop replacement (tl rest) result
               else Newlines_loop replacement rest result)"
  by auto
termination
proof (relation "measure (\<lambda>(_, str, _). length str)", simp_all add: less_Suc_eq_le)
  show "length list < length str" if "dropWhile (\<lambda>c. \<not> is_newline c) str = c # list" for str c list
    using length_dropWhile_le [of "\<lambda>c. \<not> is_newline c" str] that by simp
  then show "length list - Suc 0 < length str" if "dropWhile (\<lambda>c. \<not> is_newline c) str = CR # list" for str list
    using that by fastforce
qed

declare Newlines_loop.simps [simp del]

definition Newlines_Implementation :: "string \<Rightarrow> string \<Rightarrow> string" where
  "Newlines_Implementation str replacement = Newlines_loop replacement str []"

definition Newlines_DOS_to_UNIX :: "string \<Rightarrow> string" where
  "Newlines_DOS_to_UNIX str = Newlines_Implementation str [LF]"

definition Newlines_UNIX_to_DOS :: "string \<Rightarrow> string" where
  "Newlines_UNIX_to_DOS str = Newlines_Implementation str [CR, LF]"

text \<open>The same, character by character.\<close>

fun newlines_spec :: "string \<Rightarrow> string \<Rightarrow> string" where
  "newlines_spec r [] = []"
| "newlines_spec r [c] = (if is_newline c then r else [c])"
| "newlines_spec r (c # d # str) =
     (if c = CR \<and> d = LF then r @ newlines_spec r str
      else if is_newline c then r @ newlines_spec r (d # str)
      else c # newlines_spec r (d # str))"

lemma newlines_spec_line:
  "\<forall>c \<in> set line. \<not> is_newline c \<Longrightarrow> newlines_spec r (line @ str) = line @ newlines_spec r str"
proof (induction line)
  case (Cons c line)
  then show ?case
    by (cases "line @ str") (auto simp: is_newline_def)
qed simp

lemma newlines_spec_newline:
  "is_newline c \<Longrightarrow> newlines_spec r (c # str) =
     r @ newlines_spec r (if c = CR \<and> str \<noteq> [] \<and> hd str = LF then tl str else str)"
  by (cases str) auto

lemma Newlines_loop_eq: "Newlines_loop r str result = result @ newlines_spec r str"
proof (induction r str result rule: Newlines_loop.induct)
  case (1 r str result)
  let ?line = "takeWhile (\<lambda>c. \<not> is_newline c) str"
  have line: "newlines_spec r (?line @ rest) = ?line @ newlines_spec r rest" for rest
    by (rule newlines_spec_line) (auto dest: set_takeWhileD)
  show ?case
  proof (cases "dropWhile (\<lambda>c. \<not> is_newline c) str")
    case Nil
    then have all: "?line = str"
      by (metis append_Nil2 takeWhile_dropWhile_id)
    then have "newlines_spec r str = str"
      using line [of "[]"] unfolding all by simp
    then show ?thesis
      by (subst Newlines_loop.simps) (simp add: Let_def Nil all)
  next
    case (Cons c rest)
    then have "is_newline c"
      by (metis hd_dropWhile list.distinct(1) list.sel(1))
    moreover have "str = ?line @ c # rest"
      by (metis Cons takeWhile_dropWhile_id)
    ultimately have "newlines_spec r str = ?line @ r @ newlines_spec r (if c = CR \<and> rest \<noteq> [] \<and> hd rest = LF then tl rest else rest)"
      using line [of "c # rest"] newlines_spec_newline [of c r rest] by simp
    moreover have "str \<noteq> []"
      using Cons by auto
    ultimately show ?thesis
      using "1.IH" [OF _ refl Cons refl] Cons by (subst Newlines_loop.simps) (auto simp: Let_def)
  qed
qed

lemma spec_after_LF: "newlines_spec r (newlines_spec [LF] str) = newlines_spec r str"
proof (induction "[LF]" str rule: newlines_spec.induct)
  case (3 c d str)
  have LF: "newlines_spec r (LF # s) = r @ newlines_spec r s" for s
    by (cases s) (auto simp: is_newline_def CR_def LF_def)
  have other: "\<not> is_newline c \<Longrightarrow> newlines_spec r (c # s) = c # newlines_spec r s" for s
    by (cases s) (auto simp: is_newline_def)
  show ?case
    using 3 LF other by (auto simp: is_newline_def)
qed (auto simp: is_newline_def LF_def CR_def)

lemma spec_after_CRLF: "newlines_spec r (newlines_spec [CR, LF] str) = newlines_spec r str"
proof (induction "[CR, LF]" str rule: newlines_spec.induct)
  case (3 c d str)
  have other: "\<not> is_newline c \<Longrightarrow> newlines_spec r (c # s) = c # newlines_spec r s" for s
    by (cases s) (auto simp: is_newline_def)
  show ?case
    using 3 other by (auto simp: is_newline_def)
qed (auto simp: is_newline_def LF_def CR_def)

lemma spec_LF_no_CR: "CR \<notin> set (newlines_spec [LF] str)"
  by (induction "[LF]" str rule: newlines_spec.induct) (auto simp: is_newline_def CR_def LF_def)

lemma spec_LF_id: "CR \<notin> set str \<Longrightarrow> newlines_spec [LF] str = str"
  by (induction "[LF]" str rule: newlines_spec.induct) (auto simp: is_newline_def)

text \<open>
  Whatever mixture of newlines a text has, converting it to UNIX newlines leaves no carriage
  return and changes nothing else, converting to one form loses nothing of what the other form
  needs, and converting a UNIX text to DOS and back gives the text.
\<close>

theorem Newlines_normal_forms:
  "CR \<notin> set (Newlines_DOS_to_UNIX str)
   \<and> (Newlines_DOS_to_UNIX str = str \<longleftrightarrow> CR \<notin> set str)
   \<and> Newlines_UNIX_to_DOS (Newlines_DOS_to_UNIX str) = Newlines_UNIX_to_DOS str
   \<and> Newlines_DOS_to_UNIX (Newlines_UNIX_to_DOS str) = Newlines_DOS_to_UNIX str
   \<and> Newlines_UNIX_to_DOS (Newlines_UNIX_to_DOS str) = Newlines_UNIX_to_DOS str"
  using spec_LF_no_CR [of str] spec_LF_id [of str] spec_after_LF spec_after_CRLF
  by (auto simp: Newlines_DOS_to_UNIX_def Newlines_UNIX_to_DOS_def Newlines_Implementation_def Newlines_loop_eq)

lemma ExternalBytes_UTF8: "UTF8_to_ExternalBytes (snd (ExternalBytes_to_UTF8 bytes)) = (None, bytes)"
  by (simp add: UTF8_to_ExternalBytes_def ExternalBytes_to_UTF8_def comp_def map_idI mod_less [OF unat_byte_less])

end
