(* ===== verification/Uuid.thy ===== *)
theory Uuid
  imports Base16
begin

section \<open>bbox::Uuid\<close>

text \<open>
  \<open>BBoxUtils/bbox/Uuid.cpp\<close>: printing and reading of the 16 bytes of a UUID. Reading writes
  into the caller's object as it goes, so the result has the object also after a failure.
  An access behind the terminating NUL of the string is a fault.
\<close>

type_synonym uuid = "byte list"

definition Uuid_SIZE :: nat where
  "Uuid_SIZE = 16"

text \<open>The constructor from a list of bytes, and the one of the null value.\<close>

definition Uuid_of_list :: "byte list \<Rightarrow> uuid res" where
  "Uuid_of_list init_list =
     (if length init_list = Uuid_SIZE then Inr init_list else Inl (AssertFailed ''init_list.size() == SIZE''))"

definition Uuid_null :: uuid where
  "Uuid_null = replicate 16 0"

definition Uuid_ToString :: "uuid \<Rightarrow> string" where
  "Uuid_ToString data = Format ''{%02X%02X%02X%02X-%02X%02X-%02X%02X-%02X%02X-%02X%02X%02X%02X%02X%02X}''
     (map (\<lambda>i. ArgUChar (data ! i)) [0..<16])"

definition Uuid_ToBracelessString :: "uuid \<Rightarrow> string" where
  "Uuid_ToBracelessString data = Format ''%02X%02X%02X%02X-%02X%02X-%02X%02X-%02X%02X-%02X%02X%02X%02X%02X%02X''
     (map (\<lambda>i. ArgUChar (data ! i)) [0..<16])"

definition Uuid_ToUrn :: "uuid \<Rightarrow> string" where
  "Uuid_ToUrn data = Format ''urn:uuid:%02X%02X%02X%02X-%02X%02X-%02X%02X-%02X%02X-%02X%02X%02X%02X%02X%02X''
     (map (\<lambda>i. ArgUChar (data ! i)) [0..<16])"

subsection \<open>Reading\<close>

text \<open>\<open>str[index]\<close>, which at the size of the string is its NUL.\<close>

definition string_at :: "string \<Rightarrow> nat \<Rightarrow> char res" where
  "string_at str index =
     (if index < length str then Inr (str ! index)
      else if index = length str then Inr (CHR 0x00) else Inl OutOfBounds)"

definition from_hex :: "char \<Rightarrow> byte option" where
  "from_hex ch =
     (if char_between (CHR ''0'') ch (CHR ''9'') then Some (of_nat (of_char ch - of_char (CHR ''0'')))
      else if char_between (CHR ''A'') ch (CHR ''F'') then Some (of_nat (of_char ch - of_char (CHR ''A'') + 10))
      else if char_between (CHR ''a'') ch (CHR ''f'') then Some (of_nat (of_char ch - of_char (CHR ''a'') + 10))
      else None)"

text \<open>
  The switch at the start of a turn: the new index and \<open>has_dashes\<close>, or none where the code
  returns false. The condition after a first dash is \<open>&&\<close>, as in the source.
\<close>

definition uuid_dash :: "string \<Rightarrow> nat \<Rightarrow> nat \<Rightarrow> bool \<Rightarrow> (nat \<times> bool) option res" where
  "uuid_dash str num index has_dashes =
     (if num = 4 then
        (if length str > index \<and> str ! index = CHR ''-'' then Inr (Some (index + 1, True))
         else Inr (Some (index, has_dashes)))
      else if num \<in> {6, 8, 10} \<and> has_dashes then
        (if length str \<le> index then
           bind_res (string_at str index) (\<lambda>ch.
             if ch \<noteq> CHR ''-'' then Inr None else Inr (Some (index + 1, has_dashes)))
         else Inr (Some (index + 1, has_dashes)))
      else Inr (Some (index, has_dashes)))"

text \<open>The turns of the loop for the bytes \<open>nums\<close>; the result has the index behind the last one.\<close>

fun uuid_digits :: "string \<Rightarrow> nat list \<Rightarrow> nat \<Rightarrow> bool \<Rightarrow> uuid \<Rightarrow> (nat option \<times> uuid) res" where
  "uuid_digits str [] index has_dashes uuid = Inr (Some index, uuid)"
| "uuid_digits str (num # nums) index has_dashes uuid =
     bind_res (uuid_dash str num index has_dashes) (\<lambda>d. case d of
       None \<Rightarrow> Inr (None, uuid)
     | Some (index, has_dashes) \<Rightarrow>
         if index + 2 > length str then Inr (None, uuid)
         else bind_res (string_at str index) (\<lambda>ch1.
           case from_hex ch1 of None \<Rightarrow> Inr (None, uuid) | Some high_nibble \<Rightarrow>
           bind_res (string_at str (index + 1)) (\<lambda>ch2.
           case from_hex ch2 of None \<Rightarrow> Inr (None, uuid) | Some low_nibble \<Rightarrow>
             uuid_digits str nums (index + 2) has_dashes
               (uuid[num := push_bit 4 high_nibble OR low_nibble]))))"

definition Uuid_FromString :: "string \<Rightarrow> uuid \<Rightarrow> (bool \<times> uuid) res" where
  "Uuid_FromString str uuid =
     (let index = (if length str > 9 \<and> take 9 str = ''urn:uuid:'' then 9 else 0);
          has_braces = (length str > index \<and> str ! index = CHR ''{'');
          index = (if has_braces then index + 1 else index)
      in bind_res (uuid_digits str [0..<Uuid_SIZE] index False uuid) (\<lambda>(r, uuid). case r of
           None \<Rightarrow> Inr (False, uuid)
         | Some index \<Rightarrow>
             if has_braces then
               if length str \<le> index \<or> str ! index \<noteq> CHR ''}'' then Inr (False, uuid)
               else Inr (index + 1 = length str, uuid)
             else Inr (index = length str, uuid)))"

text \<open>The constructor from a text.\<close>

definition Uuid_of_string :: "string \<Rightarrow> uuid res" where
  "Uuid_of_string str = bind_res (Uuid_FromString str Uuid_null)
     (\<lambda>(converted, uuid). if converted then Inr uuid else Inl (AssertFailed ''converted''))"

subsection \<open>Reading what was printed\<close>

lemma from_hex_digit: "d < 16 \<Longrightarrow> from_hex (digit_char True d) = Some (of_nat d)"
  by (auto simp: from_hex_def char_between_def of_hex_char)

lemma nibbles: "push_bit 4 (of_nat (unat b div 16)) OR of_nat (unat b mod 16) = (b :: byte)"
proof -
  have "unat b div 16 < 16"
    using unat_byte_less [of b] by (simp add: div_less_iff_less_mult)
  then have "unat (push_bit 4 (of_nat (unat b div 16)) OR of_nat (unat b mod 16) :: byte) = unat b"
    by (subst byte_of_nibbles) simp_all
  then show ?thesis
    by (simp only: word_unat_eq_iff)
qed

text \<open>Two digits where the loop stands.\<close>

lemma uuid_digits_hex2:
  assumes "str = pre @ hex2 b @ rest" "length pre = index"
    and "uuid_dash str num i d = Inr (Some (index, d'))"
  shows "uuid_digits str (num # nums) i d uuid = uuid_digits str nums (index + 2) d' (uuid[num := b])"
proof -
  have "unat b div 16 < 16"
    using unat_byte_less [of b] by (simp add: div_less_iff_less_mult)
  moreover have "str ! index = digit_char True (unat b div 16)" "str ! (index + 1) = digit_char True (unat b mod 16)"
    "index + 2 \<le> length str"
    using assms(1,2) by (auto simp: hex2_def nth_append)
  ultimately show ?thesis
    using assms(3) by (simp add: string_at_def from_hex_digit nibbles)
qed

definition hex_bytes :: "byte list \<Rightarrow> string" where
  "hex_bytes bs = concat (map hex2 bs)"

lemma length_hex_bytes [simp]: "length (hex_bytes bs) = 2 * length bs"
  by (induction bs) (auto simp: hex_bytes_def)

lemma uuid_digits_run:
  assumes "str = pre @ hex_bytes bs @ rest" "length pre = index"
    and "\<And>k. k < length bs \<Longrightarrow> uuid_dash str (n + k) (index + 2 * k) d = Inr (Some (index + 2 * k, d))"
    and "n + length bs \<le> length uuid"
  shows "uuid_digits str ([n..<n + length bs] @ nums) index d uuid
    = uuid_digits str nums (index + 2 * length bs) d (take n uuid @ bs @ drop (n + length bs) uuid)"
  using assms
proof (induction bs arbitrary: pre index n uuid)
  case Nil
  then show ?case by simp
next
  case (Cons b bs)
  have str: "str = pre @ hex2 b @ (hex_bytes bs @ rest)" "str = (pre @ hex2 b) @ hex_bytes bs @ rest"
    using Cons.prems(1) by (simp_all add: hex_bytes_def)
  have upt: "[n..<n + length (b # bs)] = n # [Suc n..<Suc n + length bs]"
    by (simp add: upt_conv_Cons del: upt_Suc)
  have "uuid_digits str (n # ([Suc n..<Suc n + length bs] @ nums)) index d uuid
      = uuid_digits str ([Suc n..<Suc n + length bs] @ nums) (index + 2) d (uuid[n := b])"
    by (rule uuid_digits_hex2 [OF str(1) Cons.prems(2)]) (use Cons.prems(3) [of 0] in simp)
  also have "\<dots> = uuid_digits str nums (index + 2 + 2 * length bs) d
      (take (Suc n) (uuid[n := b]) @ bs @ drop (Suc n + length bs) (uuid[n := b]))"
  proof (rule Cons.IH [OF str(2)])
    show "uuid_dash str (Suc n + k) (index + 2 + 2 * k) d = Inr (Some (index + 2 + 2 * k, d))" if "k < length bs" for k
      using Cons.prems(3) [of "Suc k"] that by (simp add: algebra_simps)
  qed (use Cons.prems in simp_all)
  also have "take (Suc n) (uuid[n := b]) = take n uuid @ [b]"
    using Cons.prems(4) by (simp add: take_Suc_conv_app_nth)
  finally show ?case
    unfolding upt using Cons.prems(4) by simp
qed

text \<open>A group of bytes behind a separator.\<close>

lemma uuid_digits_group:
  assumes "str = pre @ c # hex_bytes (b # bs) @ rest" "length pre = index"
    and "n = 4 \<and> c = CHR ''-'' \<or> n \<in> {6, 8, 10} \<and> d"
    and "\<And>m. n < m \<Longrightarrow> m < n + length (b # bs) \<Longrightarrow> m \<notin> {4, 6, 8, 10}"
    and "n + length (b # bs) \<le> length uuid"
  shows "uuid_digits str ([n..<n + length (b # bs)] @ nums) index d uuid
    = uuid_digits str nums (index + 1 + 2 * length (b # bs)) True
        (take n uuid @ (b # bs) @ drop (n + length (b # bs)) uuid)"
proof -
  have str: "str = (pre @ [c]) @ hex2 b @ (hex_bytes bs @ rest)" "str = (pre @ c # hex2 b) @ hex_bytes bs @ rest"
    using assms(1) by (simp_all add: hex_bytes_def)
  have "index < length str" "str ! index = c"
    using assms(1,2) by (auto simp: nth_append)
  then have dash: "uuid_dash str n index d = Inr (Some (index + 1, True))"
    using assms(3) by (auto simp: uuid_dash_def)
  have upt: "[n..<n + length (b # bs)] = n # [Suc n..<Suc n + length bs]"
    by (simp add: upt_conv_Cons del: upt_Suc)
  have "uuid_digits str (n # ([Suc n..<Suc n + length bs] @ nums)) index d uuid
      = uuid_digits str ([Suc n..<Suc n + length bs] @ nums) (index + 1 + 2) True (uuid[n := b])"
    by (rule uuid_digits_hex2 [OF str(1) _ dash]) (use assms(2) in simp)
  also have "\<dots> = uuid_digits str nums (index + 1 + 2 + 2 * length bs) True
      (take (Suc n) (uuid[n := b]) @ bs @ drop (Suc n + length bs) (uuid[n := b]))"
  proof (rule uuid_digits_run [OF str(2)])
    show "uuid_dash str (Suc n + k) (index + 1 + 2 + 2 * k) True = Inr (Some (index + 1 + 2 + 2 * k, True))"
      if "k < length bs" for k
      using assms(4) [of "Suc n + k"] that by (simp add: uuid_dash_def)
  qed (use assms(2,5) in simp_all)
  also have "take (Suc n) (uuid[n := b]) = take n uuid @ [b]"
    using assms(5) by (simp add: take_Suc_conv_app_nth)
  finally show ?thesis
    unfolding upt using assms(5) by simp
qed

lemma uuid_digits_dashed:
  assumes "str = pre @ hex_bytes [b0, b1, b2, b3] @ CHR ''-'' # hex_bytes [b4, b5] @ c1 # hex_bytes [b6, b7]
      @ c2 # hex_bytes [b8, b9] @ c3 # hex_bytes [b10, b11, b12, b13, b14, b15] @ post"
    and "length uuid = 16"
  shows "uuid_digits str [0..<16] (length pre) False uuid
    = Inr (Some (length pre + 36), [b0, b1, b2, b3, b4, b5, b6, b7, b8, b9, b10, b11, b12, b13, b14, b15])"
proof -
  let ?n = "length pre"
  have upt: "[0..<16] = [0..<0 + length [b0, b1, b2, b3]] @ [4..<4 + length [b4, b5]] @ [6..<6 + length [b6, b7]]
      @ [8..<8 + length [b8, b9]] @ [10..<10 + length [b10, b11, b12, b13, b14, b15]] @ []"
    by code_simp
  have 0: "uuid_digits str [0..<16] ?n False uuid = uuid_digits str ([4..<4 + length [b4, b5]] @ [6..<6 + length [b6, b7]]
      @ [8..<8 + length [b8, b9]] @ [10..<10 + length [b10, b11, b12, b13, b14, b15]] @ []) (?n + 8) False
      ([b0, b1, b2, b3] @ drop 4 uuid)"
    unfolding upt
    by (subst uuid_digits_run [OF assms(1) refl]) (use assms(2) in \<open>auto simp: uuid_dash_def numeral_eq_Suc less_Suc_eq\<close>)
  have 1: "uuid_digits str ([4..<4 + length [b4, b5]] @ ns) (?n + 8) False ([b0, b1, b2, b3] @ drop 4 uuid)
      = uuid_digits str ns (?n + 13) True ([b0, b1, b2, b3, b4, b5] @ drop 6 uuid)" for ns
    by (subst uuid_digits_group [where pre = "pre @ hex_bytes [b0, b1, b2, b3]" and c = "CHR ''-''"])
      (use assms in \<open>auto simp: ac_simps\<close>)
  have 2: "uuid_digits str ([6..<6 + length [b6, b7]] @ ns) (?n + 13) True ([b0, b1, b2, b3, b4, b5] @ drop 6 uuid)
      = uuid_digits str ns (?n + 18) True ([b0, b1, b2, b3, b4, b5, b6, b7] @ drop 8 uuid)" for ns
    by (subst uuid_digits_group [where pre = "pre @ hex_bytes [b0, b1, b2, b3] @ CHR ''-'' # hex_bytes [b4, b5]" and c = c1])
      (use assms in \<open>auto simp: ac_simps\<close>)
  have 3: "uuid_digits str ([8..<8 + length [b8, b9]] @ ns) (?n + 18) True ([b0, b1, b2, b3, b4, b5, b6, b7] @ drop 8 uuid)
      = uuid_digits str ns (?n + 23) True ([b0, b1, b2, b3, b4, b5, b6, b7, b8, b9] @ drop 10 uuid)" for ns
    by (subst uuid_digits_group [where c = c2
          and pre = "pre @ hex_bytes [b0, b1, b2, b3] @ CHR ''-'' # hex_bytes [b4, b5] @ c1 # hex_bytes [b6, b7]"])
      (use assms in \<open>auto simp: ac_simps\<close>)
  have 4: "uuid_digits str ([10..<10 + length [b10, b11, b12, b13, b14, b15]] @ ns) (?n + 23) True
        ([b0, b1, b2, b3, b4, b5, b6, b7, b8, b9] @ drop 10 uuid)
      = uuid_digits str ns (?n + 36) True
        ([b0, b1, b2, b3, b4, b5, b6, b7, b8, b9, b10, b11, b12, b13, b14, b15] @ drop 16 uuid)" for ns
    by (subst uuid_digits_group [where c = c3
          and pre = "pre @ hex_bytes [b0, b1, b2, b3] @ CHR ''-'' # hex_bytes [b4, b5] @ c1 # hex_bytes [b6, b7]
            @ c2 # hex_bytes [b8, b9]"])
      (use assms in \<open>auto simp: ac_simps\<close>)
  show ?thesis
    unfolding 0 1 2 3 4 using assms(2) by simp
qed

text \<open>The same bytes without any separators.\<close>

lemma hex_bytes_not_dash:
  assumes "str = pre @ hex_bytes bs @ rest" "k < 2 * length bs"
  shows "is_base16 (str ! (length pre + k))"
proof -
  have "\<forall>c \<in> set (hex_bytes bs). is_base16 c"
    using digit_char_hex(1) unat_byte_less
    by (auto simp: hex_bytes_def hex2_def div_less_iff_less_mult)
  then show ?thesis
    using assms by (auto simp: nth_append)
qed

lemma uuid_digits_plain:
  assumes "str = pre @ hex_bytes bs @ rest" "length bs = 16" "length uuid = 16"
  shows "uuid_digits str [0..<16] (length pre) False uuid = Inr (Some (length pre + 32), bs)"
proof -
  have "uuid_dash str (0 + k) (length pre + 2 * k) False = Inr (Some (length pre + 2 * k, False))" if "k < length bs" for k
  proof -
    have "is_base16 (str ! (length pre + 2 * k))"
      by (rule hex_bytes_not_dash [OF assms(1)]) (use that in simp)
    then show ?thesis
      by (auto simp: uuid_dash_def is_base16_def char_between_def)
  qed
  from uuid_digits_run [OF assms(1) refl this, of uuid "[]"] show ?thesis
    using assms(2,3) by simp
qed

subsection \<open>Whole texts\<close>

lemma Uuid_texts:
  assumes "u = [b0, b1, b2, b3, b4, b5, b6, b7, b8, b9, b10, b11, b12, b13, b14, b15]"
  shows "Uuid_ToBracelessString u = hex_bytes [b0, b1, b2, b3] @ CHR ''-'' # hex_bytes [b4, b5]
      @ CHR ''-'' # hex_bytes [b6, b7] @ CHR ''-'' # hex_bytes [b8, b9]
      @ CHR ''-'' # hex_bytes [b10, b11, b12, b13, b14, b15]"
    and "Uuid_ToString u = CHR ''{'' # Uuid_ToBracelessString u @ ''}''"
    and "Uuid_ToUrn u = ''urn:uuid:'' @ Uuid_ToBracelessString u"
proof -
  have upt: "[0..<16] = [0, 1, 2, 3, 4, 5, 6, 7, 8, 9, 10, 11, 12, 13, 14, 15 :: nat]"
    by code_simp
  show "Uuid_ToBracelessString u = hex_bytes [b0, b1, b2, b3] @ CHR ''-'' # hex_bytes [b4, b5]
      @ CHR ''-'' # hex_bytes [b6, b7] @ CHR ''-'' # hex_bytes [b8, b9]
      @ CHR ''-'' # hex_bytes [b10, b11, b12, b13, b14, b15]"
    unfolding Uuid_ToBracelessString_def upt assms
    by (simp add: format_eval hex_padded hex_padded_append hex_bytes_def)
  moreover have "Uuid_ToString u = CHR ''{'' # (hex_bytes [b0, b1, b2, b3] @ CHR ''-'' # hex_bytes [b4, b5]
      @ CHR ''-'' # hex_bytes [b6, b7] @ CHR ''-'' # hex_bytes [b8, b9]
      @ CHR ''-'' # hex_bytes [b10, b11, b12, b13, b14, b15]) @ ''}''"
    unfolding Uuid_ToString_def upt assms
    by (simp add: format_eval hex_padded hex_padded_append hex_bytes_def)
  moreover have "Uuid_ToUrn u = ''urn:uuid:'' @ (hex_bytes [b0, b1, b2, b3] @ CHR ''-'' # hex_bytes [b4, b5]
      @ CHR ''-'' # hex_bytes [b6, b7] @ CHR ''-'' # hex_bytes [b8, b9]
      @ CHR ''-'' # hex_bytes [b10, b11, b12, b13, b14, b15])"
    unfolding Uuid_ToUrn_def upt assms
    by (simp add: format_eval hex_padded hex_padded_append hex_bytes_def)
  ultimately show "Uuid_ToString u = CHR ''{'' # Uuid_ToBracelessString u @ ''}''"
    and "Uuid_ToUrn u = ''urn:uuid:'' @ Uuid_ToBracelessString u"
    by simp_all
qed

lemma Uuid_FromString_body:
  assumes "(pre, post) \<in> {([], []), (''{'', ''}''), (''urn:uuid:'', [])}" "body \<noteq> []" "is_base16 (hd body)"
    and "uuid_digits (pre @ body @ post) [0..<16] (length pre) False v = Inr (Some (length pre + length body), u)"
  shows "Uuid_FromString (pre @ body @ post) v = Inr (True, u)"
proof -
  obtain c cs where body: "body = c # cs"
    using assms(2) by (cases body) auto
  then have c: "c \<noteq> CHR ''u''" "c \<noteq> CHR ''{''"
    using assms(3) by (auto simp: is_base16_def char_between_def)
  have at9: "(''urn:uuid:'' @ str) ! 9 = hd str" if "str \<noteq> []" for str
    using that by (simp add: nth_append hd_conv_nth)
  consider "pre = []" "post = []" | "pre = ''{''" "post = ''}''" | "pre = ''urn:uuid:''" "post = []"
    using assms(1) by auto
  then show ?thesis
  proof cases
    case 1
    with assms(4) c show ?thesis
      by (simp add: Uuid_FromString_def Uuid_SIZE_def body)
  next
    case 2
    with assms(4) c show ?thesis
      by (simp add: Uuid_FromString_def Uuid_SIZE_def body nth_append)
  next
    case 3
    have "uuid_digits (''urn:uuid:'' @ c # cs) [0..<16] 9 False v = Inr (Some (9 + length (c # cs)), u)"
      using assms(4) 3 by (simp add: body eval_nat_numeral del: append_Cons)
    with 3 c show ?thesis
      by (simp add: Uuid_FromString_def Uuid_SIZE_def body at9 del: append_Cons)
  qed
qed

lemma list_16:
  assumes "length u = 16"
  obtains b0 b1 b2 b3 b4 b5 b6 b7 b8 b9 b10 b11 b12 b13 b14 b15
  where "u = [b0, b1, b2, b3, b4, b5, b6, b7, b8, b9, b10, b11, b12, b13, b14, b15]"
proof -
  have "u = map (\<lambda>i. u ! i) [0..<16]"
    using assms by (metis map_nth)
  also have "[0..<16] = [0, 1, 2, 3, 4, 5, 6, 7, 8, 9, 10, 11, 12, 13, 14, 15 :: nat]"
    by code_simp
  finally show thesis
    unfolding list.map by (rule that)
qed

lemma hd_hex_bytes: "is_base16 (hd (hex_bytes (b # bs) @ rest))"
  using digit_char_hex(1) [of "unat b div 16"] unat_byte_less [of b]
  by (simp add: hex_bytes_def hex2_def div_less_iff_less_mult)

text \<open>
  A UUID printed in any of its three forms, or as 32 digits without separators, is read
  back as it was, whatever the object held before.
\<close>

theorem Uuid_roundtrip:
  assumes "length u = Uuid_SIZE" "length v = Uuid_SIZE"
  shows "Uuid_FromString (Uuid_ToString u) v = Inr (True, u)
    \<and> Uuid_FromString (Uuid_ToBracelessString u) v = Inr (True, u)
    \<and> Uuid_FromString (Uuid_ToUrn u) v = Inr (True, u)
    \<and> Uuid_FromString (concat (map hex2 u)) v = Inr (True, u)"
proof -
  have len: "length u = 16" "length v = 16"
    using assms by (simp_all add: Uuid_SIZE_def)
  obtain b0 b1 b2 b3 b4 b5 b6 b7 b8 b9 b10 b11 b12 b13 b14 b15
    where u: "u = [b0, b1, b2, b3, b4, b5, b6, b7, b8, b9, b10, b11, b12, b13, b14, b15]"
    by (rule list_16 [OF len(1)])
  let ?body = "Uuid_ToBracelessString u"
  have body: "?body \<noteq> []" "is_base16 (hd ?body)" "length ?body = 36"
    using hd_hex_bytes [of b0 "[b1, b2, b3]"] by (simp_all add: Uuid_texts [OF u])
  have run: "uuid_digits (pre @ ?body @ post) [0..<16] (length pre) False v = Inr (Some (length pre + length ?body), u)" for pre post
  proof -
    have "pre @ ?body @ post = pre @ hex_bytes [b0, b1, b2, b3] @ CHR ''-'' # hex_bytes [b4, b5] @ CHR ''-'' # hex_bytes [b6, b7]
      @ CHR ''-'' # hex_bytes [b8, b9] @ CHR ''-'' # hex_bytes [b10, b11, b12, b13, b14, b15] @ post"
      by (simp add: Uuid_texts [OF u])
    from uuid_digits_dashed [OF this len(2)] show ?thesis
      by (simp add: body(3) [unfolded u] u)
  qed
  have forms: "Uuid_FromString (pre @ ?body @ post) v = Inr (True, u)"
    if "(pre, post) \<in> {([], []), (''{'', ''}''), (''urn:uuid:'', [])}" for pre post
    by (rule Uuid_FromString_body [OF that body(1,2) run])
  have "Uuid_FromString ([] @ hex_bytes u @ []) v = Inr (True, u)"
  proof (rule Uuid_FromString_body)
    show "uuid_digits ([] @ hex_bytes u @ []) [0..<16] (length []) False v
        = Inr (Some (length [] + length (hex_bytes u)), u)"
      using uuid_digits_plain [where pre = "[]" and rest = "[]", OF refl len] by (simp add: len)
    show "is_base16 (hd (hex_bytes u))"
      unfolding u using hd_hex_bytes [where rest = "[]"] by simp
  qed (use len in \<open>auto simp flip: length_0_conv\<close>)
  then show ?thesis
    using forms [of "[]" "[]"] forms [of "''{''" "''}''"] forms [of "''urn:uuid:''" "[]"]
    by (simp add: Uuid_texts(2,3) [OF u] hex_bytes_def)
qed

theorem Uuid_roundtrip_witness:
  "Uuid_FromString (Uuid_ToUrn (replicate 16 171)) Uuid_null = Inr (True, replicate 16 171)"
  using Uuid_roundtrip [of "replicate 16 171" Uuid_null] by (simp add: Uuid_SIZE_def Uuid_null_def)

text \<open>
  Where the first dash is present, the three later separators are not looked at: any
  characters in their places are accepted.
\<close>

theorem Uuid_separators_unchecked:
  assumes "length bs = 16" "length v = 16"
  shows "Uuid_FromString (concat (map hex2 (take 4 bs)) @ ''-'' @ concat (map hex2 (take 2 (drop 4 bs))) @ c1
      # concat (map hex2 (take 2 (drop 6 bs))) @ c2 # concat (map hex2 (take 2 (drop 8 bs))) @ c3
      # concat (map hex2 (drop 10 bs))) v = Inr (True, bs)"
proof -
  obtain b0 b1 b2 b3 b4 b5 b6 b7 b8 b9 b10 b11 b12 b13 b14 b15
    where u: "bs = [b0, b1, b2, b3, b4, b5, b6, b7, b8, b9, b10, b11, b12, b13, b14, b15]"
    by (rule list_16 [OF assms(1)])
  let ?body = "hex_bytes [b0, b1, b2, b3] @ CHR ''-'' # hex_bytes [b4, b5] @ c1 # hex_bytes [b6, b7]
      @ c2 # hex_bytes [b8, b9] @ c3 # hex_bytes [b10, b11, b12, b13, b14, b15]"
  have "Uuid_FromString ([] @ ?body @ []) v = Inr (True, bs)"
  proof (rule Uuid_FromString_body)
    show "uuid_digits ([] @ ?body @ []) [0..<16] (length []) False v = Inr (Some (length [] + length ?body), bs)"
      using uuid_digits_dashed [where pre = "[]" and post = "[]", OF refl assms(2), of b0 b1 b2 b3 b4 b5 c1 b6 b7 c2 b8 b9 c3 b10 b11 b12 b13 b14 b15]
      by (simp add: u)
    show "is_base16 (hd ?body)"
      by (rule hd_hex_bytes)
  qed (simp_all flip: length_0_conv)
  then show ?thesis
    by (simp add: u hex_bytes_def)
qed

theorem Uuid_separators_unchecked_witness:
  "Uuid_FromString ''00000000-0000x0000y0000z000000000000'' Uuid_null = Inr (True, replicate 16 0)"
proof -
  let ?bs = "replicate 16 0 :: uuid"
  have "concat (map hex2 (take 4 ?bs)) @ ''-'' @ concat (map hex2 (take 2 (drop 4 ?bs))) @ CHR ''x''
      # concat (map hex2 (take 2 (drop 6 ?bs))) @ CHR ''y'' # concat (map hex2 (take 2 (drop 8 ?bs))) @ CHR ''z''
      # concat (map hex2 (drop 10 ?bs)) = ''00000000-0000x0000y0000z000000000000''"
    by code_simp
  then show ?thesis
    using Uuid_separators_unchecked [of ?bs Uuid_null "CHR ''x''" "CHR ''y''" "CHR ''z''"]
    by (simp only: Uuid_null_def length_replicate)
qed

subsection \<open>Any text\<close>

lemma uuid_dash_bound:
  assumes "index \<le> length str"
  shows "uuid_dash str num index d = Inr None
    \<or> (\<exists>index' d'. uuid_dash str num index d = Inr (Some (index', d')) \<and> index' \<le> length str)"
  using assms by (auto simp: uuid_dash_def string_at_def)

lemma uuid_digits_total:
  assumes "index \<le> length str"
  shows "\<exists>r uuid'. uuid_digits str nums index d uuid = Inr (r, uuid') \<and> length uuid' = length uuid
    \<and> (\<forall>i. r = Some i \<longrightarrow> i \<le> length str)"
  using assms
proof (induction nums arbitrary: index d uuid)
  case (Cons num nums)
  from uuid_dash_bound [OF Cons.prems, of num d] show ?case
  proof (elim disjE exE conjE)
    fix i d' assume dash: "uuid_dash str num index d = Inr (Some (i, d'))" "i \<le> length str"
    show ?thesis
    proof (cases "i + 2 > length str")
      case False
      then have "string_at str i = Inr (str ! i)" "string_at str (i + 1) = Inr (str ! (i + 1))"
        by (simp_all add: string_at_def)
      then show ?thesis
        using False Cons.IH [of "i + 2" d' "uuid[num := push_bit 4 (the (from_hex (str ! i))) OR the (from_hex (str ! (i + 1)))]"] dash
        by (cases "from_hex (str ! i)"; cases "from_hex (str ! (i + 1))") simp_all
    qed (simp add: dash)
  qed simp
qed simp

text \<open>
  Reading any text as a UUID gives a verdict: nothing behind the end of the text is looked
  at, and the object keeps its 16 bytes.
\<close>

theorem Uuid_FromString_total:
  "\<exists>converted u. Uuid_FromString str v = Inr (converted, u) \<and> length u = length v"
proof -
  let ?urn = "if length str > 9 \<and> take 9 str = ''urn:uuid:'' then 9 else 0"
  let ?index = "if length str > ?urn \<and> str ! ?urn = CHR ''{'' then ?urn + 1 else ?urn"
  have "?index \<le> length str"
    by auto
  from uuid_digits_total [OF this, of "[0..<Uuid_SIZE]" False v]
  obtain r u where u: "uuid_digits str [0..<Uuid_SIZE] ?index False v = Inr (r, u)" "length u = length v"
    by blast
  show ?thesis
    unfolding Uuid_FromString_def Let_def u(1) bind_res_Inr prod.case
    using u(2) by (auto split: option.split)
qed

end
