(* ===== verification/Timer.thy ===== *)
theory Timer
  imports Client TimeSpan
begin

section \<open>bbox::rt::Timer\<close>

text \<open>
  \<open>BBoxRt/bbox/rt/Timer.h\<close> and \<open>Timer.cpp\<close>: single-shot and periodic timers over
  \<open>boost::asio::steady_timer\<close>. Every wait that is started has a sequence number, and its
  handler is called exactly once, at any time, with an error if the wait was cancelled in
  time. \<open>tm_waits\<close> holds the waits whose handlers are still to be called; which is called
  next, and with an error or not, is chosen by the events, so nothing else is assumed of the
  library. What the client's callback does to its timer is part of the event, too.
\<close>

record timer =
  tm_level :: run_level
  tm_children_stopped :: bool
  tm_pending_timeouts :: u64
  tm_cur_seq :: u64
  tm_wait_seq :: u64
  tm_callback :: bool
  tm_delay :: timespan
  tm_is_periodic :: bool
  tm_period :: timespan
  tm_remaining :: u64
  tm_times_expired :: u64
  tm_waits :: "u64 list"

definition RUN_FOR_EVER :: u64 where
  "RUN_FOR_EVER = 18446744073709551615"

text \<open>The members that the constructor leaves uninitialised have any value.\<close>

definition Timer :: "bool \<Rightarrow> timespan \<Rightarrow> bool \<Rightarrow> timespan \<Rightarrow> u64 \<Rightarrow> timer" where
  "Timer handler delay periodic period remaining = \<lparr>tm_level = RUNNING, tm_children_stopped = False,
     tm_pending_timeouts = 0, tm_cur_seq = 1, tm_wait_seq = 0, tm_callback = handler, tm_delay = delay,
     tm_is_periodic = periodic, tm_period = period, tm_remaining = remaining, tm_times_expired = 0, tm_waits = []\<rparr>"

definition IsRunning :: "timer \<Rightarrow> bool" where
  "IsRunning t \<longleftrightarrow> tm_wait_seq t = tm_cur_seq t"

definition SetHandler :: "bool \<Rightarrow> timer \<Rightarrow> timer res" where
  "SetHandler callback t =
     bind_res (check ''m_cur_seq > m_wait_seq'' (tm_cur_seq t > tm_wait_seq t) t) (\<lambda>t.
       Inr (t\<lparr>tm_callback := callback\<rparr>))"

text \<open>A new wait; \<open>async_wait\<close> remembers the handler with its sequence number.\<close>

definition start_wait :: "timer \<Rightarrow> timer" where
  "start_wait t =
     (let t = t\<lparr>tm_pending_timeouts := tm_pending_timeouts t + 1, tm_cur_seq := tm_cur_seq t + 1\<rparr>;
          t = t\<lparr>tm_wait_seq := tm_cur_seq t\<rparr>
      in t\<lparr>tm_waits := tm_waits t @ [tm_wait_seq t]\<rparr>)"

definition StartSingleShot :: "timespan \<Rightarrow> timer \<Rightarrow> timer" where
  "StartSingleShot delay t = (start_wait t)\<lparr>tm_is_periodic := False, tm_delay := delay\<rparr>"

definition Timer_Cancel :: "timer \<Rightarrow> timer" where
  "Timer_Cancel t = t\<lparr>tm_wait_seq := 0\<rparr>"

definition StartPeriodic :: "timespan \<Rightarrow> timespan \<Rightarrow> u64 \<Rightarrow> timer \<Rightarrow> timer" where
  "StartPeriodic first period num_times t =
     (if num_times = 0 then Timer_Cancel t
      else let t = StartSingleShot first t;
               t = t\<lparr>tm_is_periodic := True, tm_period := period, tm_remaining := num_times\<rparr>
           in if tm_remaining t < RUN_FOR_EVER then t\<lparr>tm_remaining := tm_remaining t - 1\<rparr> else t)"

definition Timer_CheckShutdown :: "timer \<Rightarrow> timer res" where
  "Timer_CheckShutdown t =
     (if tm_level t = STOPPING \<and> tm_pending_timeouts t = 0 then
        bind_res (level_NotifyStopped (tm_level t)) (\<lambda>l.
          Inr (t\<lparr>tm_level := l, tm_children_stopped := True\<rparr>))
      else Inr t)"

definition Timer_HandleStopping :: "timer \<Rightarrow> timer res" where
  "Timer_HandleStopping t = bind_res (check ''!IsRunning()'' (\<not> IsRunning t) t) Timer_CheckShutdown"

datatype timer_op = OpSetHandler bool | OpSingleShot timespan | OpPeriodic timespan timespan u64 | OpCancel

fun do_timer_op :: "timer_op \<Rightarrow> timer \<Rightarrow> timer res" where
  "do_timer_op (OpSetHandler h) t = SetHandler h t"
| "do_timer_op (OpSingleShot delay) t = Inr (StartSingleShot delay t)"
| "do_timer_op (OpPeriodic first period n) t = Inr (StartPeriodic first period n t)"
| "do_timer_op OpCancel t = Inr (Timer_Cancel t)"

definition Timer_HandleTimeout :: "u64 \<Rightarrow> bool \<Rightarrow> timer_op list \<Rightarrow> timer \<Rightarrow> timer res" where
  "Timer_HandleTimeout seq ec ops t =
     bind_res (check ''m_pending_timeouts > 0'' (tm_pending_timeouts t > 0) t) (\<lambda>t.
     let t = t\<lparr>tm_pending_timeouts := tm_pending_timeouts t - 1\<rparr>
     in if \<not> ec \<and> tm_wait_seq t = tm_cur_seq t \<and> tm_wait_seq t = seq then
          let t = t\<lparr>tm_wait_seq := 0\<rparr>;
              t = (if tm_is_periodic t \<and> tm_level t \<noteq> STOPPING \<and> tm_remaining t > 0 then
                     (start_wait t)\<lparr>tm_remaining :=
                        (if tm_remaining t < RUN_FOR_EVER then tm_remaining t - 1 else tm_remaining t)\<rparr>
                   else t);
              t = t\<lparr>tm_times_expired := tm_times_expired t + 1\<rparr>
          in bind_res (if tm_callback t then fold_res do_timer_op ops t else Inr t) Timer_CheckShutdown
        else Timer_CheckShutdown t)"

subsection \<open>Runs\<close>

text \<open>
  The owner operates the timer while it is running, sets the handler and lets the timer be
  stopped only when no wait is active, as the code's assertions ask, and does not replace the
  handler from within it. The library calls the handler of a wait once, and with an error only
  if the wait was cancelled or replaced by another. \<open>TimerStopping\<close> is the call of
  \<open>HandleStopping\<close> by the run time.
\<close>

datatype timer_event = TimerOp timer_op | Timeout u64 bool "timer_op list" | TimerStopping

fun do_timer_event :: "timer_event \<Rightarrow> timer \<Rightarrow> timer res" where
  "do_timer_event (TimerOp a) t = do_timer_op a t"
| "do_timer_event (Timeout seq ec ops) t = Timer_HandleTimeout seq ec ops (t\<lparr>tm_waits := remove1 seq (tm_waits t)\<rparr>)"
| "do_timer_event TimerStopping t = Timer_HandleStopping (t\<lparr>tm_level := STOPPING\<rparr>)"

fun sets_handler :: "timer_op \<Rightarrow> bool" where
  "sets_handler (OpSetHandler _) \<longleftrightarrow> True"
| "sets_handler _ \<longleftrightarrow> False"

fun timer_allowed :: "timer_event \<Rightarrow> timer \<Rightarrow> bool" where
  "timer_allowed (TimerOp a) t \<longleftrightarrow> tm_level t = RUNNING \<and> (sets_handler a \<longrightarrow> \<not> IsRunning t)"
| "timer_allowed (Timeout seq ec ops) t \<longleftrightarrow> seq \<in> set (tm_waits t) \<and> (ec \<longrightarrow> seq \<noteq> tm_wait_seq t) \<and> list_all (\<lambda>a. \<not> sets_handler a) ops"
| "timer_allowed TimerStopping t \<longleftrightarrow> tm_level t = RUNNING \<and> \<not> IsRunning t"

inductive timer_run :: "timer_event list \<Rightarrow> timer \<Rightarrow> bool" where
  timer_init: "timer_run [] (Timer handler delay periodic period remaining)"
| timer_step: "timer_run es t \<Longrightarrow> timer_allowed e t \<Longrightarrow> do_timer_event e t = Inr t' \<Longrightarrow> timer_run (es @ [e]) t'"

text \<open>How many waits an event may start; the sequence numbers do not wrap around before 2^64.\<close>

fun event_starts :: "timer_event \<Rightarrow> nat" where
  "event_starts (TimerOp _) = 1"
| "event_starts (Timeout _ _ ops) = length ops + 1"
| "event_starts TimerStopping = 0"

definition total_starts :: "timer_event list \<Rightarrow> nat" where
  "total_starts es = sum_list (map event_starts es)"

subsection \<open>The invariant\<close>

definition timer_ok :: "timer \<Rightarrow> bool" where
  "timer_ok t \<longleftrightarrow> distinct (tm_waits t) \<and> 0 \<notin> set (tm_waits t) \<and> (\<forall>s \<in> set (tm_waits t). unat s \<le> unat (tm_cur_seq t))
     \<and> unat (tm_pending_timeouts t) = length (tm_waits t)
     \<and> 0 < tm_cur_seq t \<and> length (tm_waits t) < unat (tm_cur_seq t)
     \<and> (tm_wait_seq t = 0 \<or> (tm_wait_seq t = tm_cur_seq t \<and> tm_cur_seq t \<in> set (tm_waits t)))
     \<and> (tm_level t \<noteq> RUNNING \<longrightarrow> tm_wait_seq t = 0)
     \<and> (tm_level t = STOPPING \<or> tm_level t = STOPPED \<longrightarrow> (tm_level t = STOPPED \<longleftrightarrow> tm_waits t = []))
     \<and> tm_level t \<in> {RUNNING, STOPPING, STOPPED}"

lemma timer_ok_init: "timer_ok (Timer h d p pe n)"
  by (simp add: timer_ok_def Timer_def)

lemma timer_ok_start_wait:
  assumes "timer_ok t" "tm_level t = RUNNING" "unat (tm_cur_seq t) + 1 < 2 ^ 64"
  shows "timer_ok (start_wait t)" "unat (tm_cur_seq (start_wait t)) = unat (tm_cur_seq t) + 1"
    "tm_level (start_wait t) = RUNNING"
proof -
  have cur: "unat (tm_cur_seq t + 1) = unat (tm_cur_seq t) + 1"
    by (rule unat_plus_1 [OF assms(3)])
  have "unat (tm_pending_timeouts t) + 1 < 2 ^ 64"
    using assms(1,3) by (simp add: timer_ok_def)
  then have pend: "unat (tm_pending_timeouts t + 1) = unat (tm_pending_timeouts t) + 1"
    by (rule unat_plus_1)
  have "tm_cur_seq t + 1 \<notin> set (tm_waits t)"
    using assms(1) cur by (auto simp: timer_ok_def)
  moreover have "0 < tm_cur_seq t + 1"
    using cur by (simp add: word_less_nat_alt)
  ultimately show "timer_ok (start_wait t)"
    using assms(1,2) cur pend by (auto simp: timer_ok_def start_wait_def Let_def)
  show "unat (tm_cur_seq (start_wait t)) = unat (tm_cur_seq t) + 1" "tm_level (start_wait t) = RUNNING"
    using cur assms(2) by (simp_all add: start_wait_def Let_def)
qed

lemma timer_ok_plain:
  "timer_ok (t\<lparr>tm_is_periodic := a\<rparr>) \<longleftrightarrow> timer_ok t"
  "timer_ok (t\<lparr>tm_delay := d\<rparr>) \<longleftrightarrow> timer_ok t"
  "timer_ok (t\<lparr>tm_period := d\<rparr>) \<longleftrightarrow> timer_ok t"
  "timer_ok (t\<lparr>tm_remaining := n\<rparr>) \<longleftrightarrow> timer_ok t"
  "timer_ok (t\<lparr>tm_times_expired := n\<rparr>) \<longleftrightarrow> timer_ok t"
  "timer_ok (t\<lparr>tm_callback := b\<rparr>) \<longleftrightarrow> timer_ok t"
  by (simp_all add: timer_ok_def)

lemma timer_ok_cancel: "timer_ok t \<Longrightarrow> timer_ok (Timer_Cancel t)"
  by (auto simp: timer_ok_def Timer_Cancel_def)

lemma timer_op_ok:
  assumes "timer_ok t" "tm_level t = RUNNING" "unat (tm_cur_seq t) + 1 < 2 ^ 64" "sets_handler a \<longrightarrow> \<not> IsRunning t"
  shows "\<exists>t'. do_timer_op a t = Inr t' \<and> timer_ok t' \<and> tm_level t' = RUNNING \<and> unat (tm_cur_seq t') \<le> unat (tm_cur_seq t) + 1
    \<and> tm_times_expired t' = tm_times_expired t"
proof (cases a)
  case (OpSetHandler h)
  then have "tm_wait_seq t < tm_cur_seq t"
    using assms(1,4) by (auto simp: timer_ok_def IsRunning_def)
  then show ?thesis
    using OpSetHandler assms(1,2) by (simp add: SetHandler_def timer_ok_plain)
next
  case (OpSingleShot d)
  then show ?thesis
    using timer_ok_start_wait [OF assms(1-3)] by (simp add: StartSingleShot_def timer_ok_plain start_wait_def Let_def)
next
  case (OpPeriodic first period n)
  then show ?thesis
    using timer_ok_start_wait [OF assms(1-3)] assms(1,2) timer_ok_cancel [OF assms(1)]
    by (auto simp: StartPeriodic_def StartSingleShot_def timer_ok_plain Let_def Timer_Cancel_def start_wait_def)
next
  case OpCancel
  then show ?thesis
    using assms(1,2) timer_ok_cancel by (simp add: Timer_Cancel_def)
qed

lemma Timer_CheckShutdown_RUNNING [simp]: "tm_level t = RUNNING \<Longrightarrow> Timer_CheckShutdown t = Inr t"
  by (simp add: Timer_CheckShutdown_def)

lemma timer_ops_ok:
  assumes "timer_ok t" "tm_level t = RUNNING" "unat (tm_cur_seq t) + length ops < 2 ^ 64"
    and "list_all (\<lambda>a. \<not> sets_handler a) ops"
  shows "\<exists>t'. fold_res do_timer_op ops t = Inr t' \<and> timer_ok t' \<and> tm_level t' = RUNNING
    \<and> unat (tm_cur_seq t') \<le> unat (tm_cur_seq t) + length ops \<and> tm_times_expired t' = tm_times_expired t"
  using assms
proof (induction ops arbitrary: t)
  case Nil
  then show ?case by simp
next
  case (Cons a ops)
  obtain t1 where t1: "do_timer_op a t = Inr t1" "timer_ok t1" "tm_level t1 = RUNNING"
      "unat (tm_cur_seq t1) \<le> unat (tm_cur_seq t) + 1" "tm_times_expired t1 = tm_times_expired t"
    using timer_op_ok [OF Cons.prems(1,2), of a] Cons.prems(3,4) by auto
  have "\<exists>t'. fold_res do_timer_op ops t1 = Inr t' \<and> timer_ok t' \<and> tm_level t' = RUNNING
    \<and> unat (tm_cur_seq t') \<le> unat (tm_cur_seq t1) + length ops \<and> tm_times_expired t' = tm_times_expired t1"
    by (rule Cons.IH) (use t1 Cons.prems(3,4) in auto)
  then show ?case
    using t1 by (force)
qed

lemma unat_pending:
  "timer_ok t \<Longrightarrow> seq \<in> set (tm_waits t) \<Longrightarrow>
   0 < tm_pending_timeouts t \<and> unat (tm_pending_timeouts t - 1) = length (remove1 seq (tm_waits t))"
proof -
  assume ok: "timer_ok t" and seq: "seq \<in> set (tm_waits t)"
  have "0 < unat (tm_pending_timeouts t)"
    using ok seq by (cases "tm_waits t") (auto simp: timer_ok_def)
  then show ?thesis
    using ok seq unat_minus_1 [of "tm_pending_timeouts t"]
    by (simp add: timer_ok_def word_less_nat_alt length_remove1)
qed

text \<open>The state once the current wait has expired, before it is restarted.\<close>

definition expired_state :: "u64 \<Rightarrow> timer \<Rightarrow> timer" where
  "expired_state seq t = t\<lparr>tm_waits := remove1 seq (tm_waits t),
     tm_pending_timeouts := tm_pending_timeouts t - 1, tm_wait_seq := 0\<rparr>"

lemma expired_state_sel [simp]:
  "tm_level (expired_state seq t) = tm_level t" "tm_cur_seq (expired_state seq t) = tm_cur_seq t"
  "tm_is_periodic (expired_state seq t) = tm_is_periodic t" "tm_remaining (expired_state seq t) = tm_remaining t"
  "tm_wait_seq (expired_state seq t) = 0" "tm_callback (expired_state seq t) = tm_callback t"
  "tm_times_expired (expired_state seq t) = tm_times_expired t"
  by (simp_all add: expired_state_def)

lemma timer_ok_expired:
  assumes "timer_ok t" "seq \<in> set (tm_waits t)" "tm_level t = RUNNING"
  shows "timer_ok (expired_state seq t)"
proof -
  have "length (remove1 seq (tm_waits t)) < unat (tm_cur_seq t)"
    using assms(1,2) by (auto simp: timer_ok_def length_remove1)
  then show ?thesis
    using assms unat_pending [OF assms(1,2)]
    by (auto simp: timer_ok_def expired_state_def dest: in_set_takeD notin_set_remove1)
qed

definition restarted :: "timer \<Rightarrow> timer" where
  "restarted t = (if tm_is_periodic t \<and> tm_level t \<noteq> STOPPING \<and> tm_remaining t > 0 then
       (start_wait t)\<lparr>tm_remaining := (if tm_remaining t < RUN_FOR_EVER then tm_remaining t - 1 else tm_remaining t)\<rparr>
     else t)"

lemma HandleTimeout_current:
  assumes "timer_ok t" "seq \<in> set (tm_waits t)" "tm_wait_seq t = seq"
  shows "do_timer_event (Timeout seq False ops) t =
     bind_res (let t = (restarted (expired_state seq t))\<lparr>tm_times_expired := tm_times_expired t + 1\<rparr>
               in if tm_callback t then fold_res do_timer_op ops t else Inr t) Timer_CheckShutdown"
proof -
  have "0 < tm_pending_timeouts t" "tm_wait_seq t = tm_cur_seq t"
    using unat_pending [OF assms(1,2)] assms by (auto simp: timer_ok_def)
  then show ?thesis
    using assms(3)
    by (auto simp: Timer_HandleTimeout_def check_def restarted_def expired_state_def start_wait_def Let_def)
qed

lemma HandleTimeout_stale:
  assumes "timer_ok t" "seq \<in> set (tm_waits t)" "ec \<or> tm_wait_seq t \<noteq> seq"
  shows "do_timer_event (Timeout seq ec ops) t = Timer_CheckShutdown (t\<lparr>tm_waits := remove1 seq (tm_waits t),
     tm_pending_timeouts := tm_pending_timeouts t - 1\<rparr>)"
  using unat_pending [OF assms(1,2)] assms(3) by (auto simp: Timer_HandleTimeout_def check_def Let_def)

lemma restarted_ok:
  assumes "timer_ok t" "tm_level t = RUNNING" "unat (tm_cur_seq t) + 1 < 2 ^ 64"
  shows "timer_ok (restarted t)" "tm_level (restarted t) = RUNNING"
    "unat (tm_cur_seq (restarted t)) \<le> unat (tm_cur_seq t) + 1" "tm_times_expired (restarted t) = tm_times_expired t"
    "tm_callback (restarted t) = tm_callback t"
  using timer_ok_start_wait [OF assms] assms
  by (auto simp: restarted_def timer_ok_plain start_wait_def Let_def)

lemma timer_ok_removed:
  assumes "timer_ok t" "seq \<in> set (tm_waits t)" "seq \<noteq> tm_wait_seq t" "w = remove1 seq (tm_waits t)" "unat p = length w"
    and "l = (if tm_level t = STOPPING \<and> w = [] then STOPPED else tm_level t)"
  shows "timer_ok (t\<lparr>tm_waits := w, tm_pending_timeouts := p, tm_level := l, tm_children_stopped := c\<rparr>)"
proof -
  have "length w < unat (tm_cur_seq t)" "distinct w" "set w = set (tm_waits t) - {seq}"
    using assms(1,2,4) by (auto simp: timer_ok_def length_remove1)
  then show ?thesis
    using assms(1,2,3,5,6) by (auto simp: timer_ok_def)
qed

lemma timer_ok_stale:
  assumes "timer_ok t" "seq \<in> set (tm_waits t)" "seq \<noteq> tm_wait_seq t"
  shows "\<exists>t'. Timer_CheckShutdown (t\<lparr>tm_waits := remove1 seq (tm_waits t),
     tm_pending_timeouts := tm_pending_timeouts t - 1\<rparr>) = Inr t' \<and> timer_ok t' \<and> tm_cur_seq t' = tm_cur_seq t
     \<and> tm_wait_seq t' = tm_wait_seq t \<and> tm_times_expired t' = tm_times_expired t
     \<and> tm_waits t' = remove1 seq (tm_waits t)"
proof -
  define w p where "w = remove1 seq (tm_waits t)" and "p = tm_pending_timeouts t - 1"
  have p: "unat p = length w"
    using unat_pending [OF assms(1,2)] by (simp add: w_def p_def)
  then have zero: "p = 0 \<longleftrightarrow> w = []"
    by (metis length_0_conv unat_eq_zero)
  show ?thesis
    using timer_ok_removed [OF assms w_def p refl, of True] timer_ok_removed [OF assms w_def p refl, of "tm_children_stopped t"]
    unfolding w_def [symmetric] p_def [symmetric]
    by (cases "tm_level t = STOPPING \<and> w = []")
      (auto simp: Timer_CheckShutdown_def level_NotifyStopped_def zero)
qed

lemma timer_event_ok:
  assumes "timer_ok t" "timer_allowed e t" "unat (tm_cur_seq t) + event_starts e < 2 ^ 64"
  shows "\<exists>t'. do_timer_event e t = Inr t' \<and> timer_ok t' \<and> unat (tm_cur_seq t') \<le> unat (tm_cur_seq t) + event_starts e"
proof (cases e)
  case (TimerOp a)
  then show ?thesis
    using timer_op_ok [OF assms(1), of a] assms(2,3) by auto
next
  case TimerStopping
  then have t: "tm_level t = RUNNING" "\<not> IsRunning t" "tm_wait_seq t = 0"
    using assms(1,2) by (auto simp: timer_ok_def IsRunning_def)
  have zero: "tm_pending_timeouts t = 0 \<longleftrightarrow> tm_waits t = []"
    using assms(1) by (metis length_0_conv timer_ok_def unat_eq_zero)
  show ?thesis
    using TimerStopping t assms(1) zero
    by (auto simp: timer_ok_def Timer_HandleStopping_def IsRunning_def Timer_CheckShutdown_def level_NotifyStopped_def)
next
  case (Timeout seq ec ops)
  then have seq: "seq \<in> set (tm_waits t)" and ec: "ec \<longrightarrow> seq \<noteq> tm_wait_seq t" and ops: "list_all (\<lambda>a. \<not> sets_handler a) ops"
    using assms(2) by simp_all
  show ?thesis
  proof (cases "seq = tm_wait_seq t")
    case False
    then show ?thesis
      using timer_ok_stale [OF assms(1) seq False] HandleTimeout_stale [OF assms(1) seq, of ec ops] Timeout by auto
  next
    case True
    then have run: "tm_level t = RUNNING" and "\<not> ec"
      using assms(1) seq ec by (auto simp: timer_ok_def)
    let ?x = "expired_state seq t" and ?u = "(restarted (expired_state seq t))\<lparr>tm_times_expired := tm_times_expired t + 1\<rparr>"
    have u: "timer_ok ?u" "tm_level ?u = RUNNING" "unat (tm_cur_seq ?u) \<le> unat (tm_cur_seq t) + 1"
      using restarted_ok [OF timer_ok_expired [OF assms(1) seq run]] assms(3) Timeout run
      by (simp_all add: timer_ok_plain)
    have len: "unat (tm_cur_seq ?u) + length ops < 2 ^ 64"
      using u(3) assms(3) Timeout by simp
    show ?thesis
      using HandleTimeout_current [OF assms(1) seq True [symmetric], of ops] timer_ops_ok [OF u(1,2) len ops] u assms(3)
        \<open>\<not> ec\<close> Timeout by (auto simp: Let_def)
  qed
qed

lemma timer_run_ok:
  "timer_run es t \<Longrightarrow> total_starts es + 1 < 2 ^ 64 \<Longrightarrow> timer_ok t \<and> unat (tm_cur_seq t) \<le> total_starts es + 1"
proof (induction rule: timer_run.induct)
  case (timer_init handler delay periodic period remaining)
  then show ?case
    by (simp add: timer_ok_init total_starts_def) (simp add: Timer_def)
next
  case (timer_step es t e t')
  then have "timer_ok t" "unat (tm_cur_seq t) \<le> total_starts es + 1" "total_starts es + event_starts e + 1 < 2 ^ 64"
    by (simp_all add: total_starts_def)
  then show ?case
    using timer_event_ok [OF _ timer_step.hyps(2)] timer_step.hyps(3) by (fastforce simp: total_starts_def)
qed

subsection \<open>Properties\<close>

text \<open>
  C15: In every run of a timer - operations by its owner, handlers of waits called in any order,
  with or without an error, callbacks that operate the timer again, and the stop by the run
  time - no assertion of \<open>Timer.cpp\<close> fails; \<open>m_pending_timeouts\<close> is the number of handlers
  that are still to be called, an active wait is one of them, and a timer reports that it has
  stopped exactly when it was told to and no handler is left that could call into it. (The
  run starts fewer than 2^64 - 1 waits.)
\<close>

theorem Timer_run_safe:
  assumes "timer_run es t" "timer_allowed e t" "total_starts (es @ [e]) + 1 < 2 ^ 64"
  shows "\<exists>t'. do_timer_event e t = Inr t' \<and> unat (tm_pending_timeouts t') = length (tm_waits t')
    \<and> (\<not> IsRunning t' \<or> tm_cur_seq t' \<in> set (tm_waits t'))
    \<and> (tm_level t' \<noteq> STOPPED \<or> tm_waits t' = []) \<and> (tm_level t' \<noteq> STOPPING \<or> tm_waits t' \<noteq> [])"
proof -
  have "timer_ok t" "unat (tm_cur_seq t) \<le> total_starts es + 1"
    using timer_run_ok [OF assms(1)] assms(3) by (simp_all add: total_starts_def)
  then obtain t' where "do_timer_event e t = Inr t'" "timer_ok t'"
    using timer_event_ok [OF _ assms(2)] assms(3) by (fastforce simp: total_starts_def)
  then show ?thesis
    by (auto simp: timer_ok_def IsRunning_def)
qed

text \<open>Concrete runs.\<close>

fun timer_play :: "timer_event list \<Rightarrow> timer \<Rightarrow> timer option" where
  "timer_play [] t = Some t"
| "timer_play (e # es) t = (if timer_allowed e t then (case do_timer_event e t of Inr t' \<Rightarrow> timer_play es t' | Inl _ \<Rightarrow> None) else None)"

lemma timer_play_run: "timer_run ds t \<Longrightarrow> timer_play es t = Some t' \<Longrightarrow> timer_run (ds @ es) t'"
  by (induction es arbitrary: ds t) (fastforce dest: timer_step split: if_splits sum.splits)+

definition example_timer_events :: "timer_event list" where
  "example_timer_events = [TimerOp (OpPeriodic 5 7 2), Timeout 2 False [], TimerOp (OpSingleShot 9),
     Timeout 3 True [], Timeout 4 False [OpSingleShot 5], TimerOp OpCancel, TimerStopping]"

definition example_timer :: timer where
  "example_timer = \<lparr>tm_level = STOPPING, tm_children_stopped = False, tm_pending_timeouts = 1, tm_cur_seq = 5,
     tm_wait_seq = 0, tm_callback = True, tm_delay = 5, tm_is_periodic = False, tm_period = 7, tm_remaining = 0,
     tm_times_expired = 2, tm_waits = [5]\<rparr>"

lemma example_timer_run: "timer_run example_timer_events example_timer"
  using timer_play_run [OF timer_init [of True 0 False 0 0], of example_timer_events example_timer]
  by (simp add: example_timer_events_def example_timer_def Timer_def StartPeriodic_def StartSingleShot_def start_wait_def
      Timer_HandleTimeout_def Timer_HandleStopping_def Timer_CheckShutdown_def Timer_Cancel_def IsRunning_def RUN_FOR_EVER_def
      check_def)

theorem Timer_run_safe_witness:
  "\<exists>t'. do_timer_event (Timeout 5 True []) example_timer = Inr t' \<and> tm_level t' = STOPPED \<and> tm_times_expired t' = 2"
proof -
  have "timer_allowed (Timeout 5 True []) example_timer"
    by (simp add: example_timer_def)
  from Timer_run_safe [OF example_timer_run this] show ?thesis
    by (auto simp: example_timer_events_def total_starts_def example_timer_def Timer_HandleTimeout_def check_def
        Timer_CheckShutdown_def level_NotifyStopped_def)
qed

fun silent_timeouts :: "(u64 \<times> bool) list \<Rightarrow> timer \<Rightarrow> timer res" where
  "silent_timeouts [] t = Inr t"
| "silent_timeouts ((seq, ec) # ws) t = bind_res (do_timer_event (Timeout seq ec []) t) (silent_timeouts ws)"

lemma silent_timeouts_ok:
  "timer_ok t \<Longrightarrow> distinct (map fst ws) \<Longrightarrow> set (map fst ws) \<subseteq> set (tm_waits t) - {tm_wait_seq t} \<Longrightarrow>
   \<exists>t'. silent_timeouts ws t = Inr t' \<and> tm_times_expired t' = tm_times_expired t \<and> tm_wait_seq t' = tm_wait_seq t
     \<and> tm_cur_seq t' = tm_cur_seq t \<and> set (tm_waits t') = set (tm_waits t) - set (map fst ws)"
proof (induction ws arbitrary: t)
  case Nil
  then show ?case by simp
next
  case (Cons w ws)
  obtain seq ec where w: "w = (seq, ec)"
    by (cases w)
  have seq: "seq \<in> set (tm_waits t)" "seq \<noteq> tm_wait_seq t"
    using Cons.prems(3) w by auto
  obtain t1 where t1: "do_timer_event (Timeout seq ec []) t = Inr t1" "timer_ok t1" "tm_cur_seq t1 = tm_cur_seq t"
      "tm_wait_seq t1 = tm_wait_seq t" "tm_times_expired t1 = tm_times_expired t" "tm_waits t1 = remove1 seq (tm_waits t)"
    using timer_ok_stale [OF Cons.prems(1) seq] HandleTimeout_stale [OF Cons.prems(1) seq(1), of ec "[]"] seq(2) by auto
  have waits: "set (tm_waits t1) = set (tm_waits t) - {seq}"
    using t1(6) Cons.prems(1) by (auto simp: timer_ok_def)
  have "\<exists>t'. silent_timeouts ws t1 = Inr t' \<and> tm_times_expired t' = tm_times_expired t1 \<and> tm_wait_seq t' = tm_wait_seq t1
     \<and> tm_cur_seq t' = tm_cur_seq t1 \<and> set (tm_waits t') = set (tm_waits t1) - set (map fst ws)"
    by (rule Cons.IH) (use t1 waits w Cons.prems in auto)
  then show ?case
    using t1 waits w by auto
qed

text \<open>
  C24: Cancelling or restarting a timer is exact. Whatever waits were outstanding when the owner
  cancels the timer or starts it again, and in whatever order and with whatever error codes
  their handlers are called later, none of them calls the owner's callback or disturbs the new
  wait.
\<close>

theorem Timer_no_stale_callback:
  assumes "timer_run es t" "tm_level t = RUNNING" "total_starts es + 2 < 2 ^ 64"
    and "t' \<in> {Timer_Cancel t, StartSingleShot delay t}"
    and "distinct (map fst ws)" "set (map fst ws) \<subseteq> set (tm_waits t)"
  shows "\<exists>u. silent_timeouts ws t' = Inr u \<and> tm_times_expired u = tm_times_expired t
    \<and> IsRunning u = (t' \<noteq> Timer_Cancel t)"
proof -
  have ok: "timer_ok t" "unat (tm_cur_seq t) + 1 < 2 ^ 64"
    using timer_run_ok [OF assms(1)] assms(3) by auto
  note ok' = timer_ok_cancel [OF ok(1)] timer_ok_start_wait [OF ok(1) assms(2) ok(2)]
  have new: "tm_cur_seq t + 1 \<notin> set (tm_waits t)" "tm_cur_seq t \<noteq> 0" "tm_cur_seq t + 1 \<noteq> 0"
    using ok unat_plus_1 [OF ok(2)] by (auto simp: timer_ok_def)
  have ws: "set (map fst ws) \<subseteq> set (tm_waits t') - {tm_wait_seq t'}" and t': "timer_ok t'"
    using assms(4,6) ok ok' new
    by (auto simp: Timer_Cancel_def StartSingleShot_def start_wait_def Let_def timer_ok_plain timer_ok_def)
  have "IsRunning t' = (t' \<noteq> Timer_Cancel t)" "tm_times_expired t' = tm_times_expired t"
    using assms(4) new by (auto simp: IsRunning_def Timer_Cancel_def StartSingleShot_def start_wait_def Let_def)
  then show ?thesis
    using silent_timeouts_ok [OF t' assms(5) ws] by (auto simp: IsRunning_def)
qed

theorem Timer_no_stale_callback_witness:
  "\<exists>t u. silent_timeouts [(3, False), (2, False)] (StartSingleShot 9 t) = Inr u
    \<and> tm_waits t = [2, 3] \<and> tm_times_expired u = 0 \<and> IsRunning u"
proof -
  let ?es = "[TimerOp (OpSingleShot 5), TimerOp (OpSingleShot 7)]"
    and ?t = "\<lparr>tm_level = RUNNING, tm_children_stopped = False, tm_pending_timeouts = 2, tm_cur_seq = 3, tm_wait_seq = 3,
      tm_callback = True, tm_delay = 7, tm_is_periodic = False, tm_period = 0, tm_remaining = 0, tm_times_expired = 0,
      tm_waits = [2, 3]\<rparr>"
  have run: "timer_run ?es ?t"
    using timer_play_run [OF timer_init [of True 0 False 0 0], of ?es ?t]
    by (simp add: Timer_def StartSingleShot_def start_wait_def)
  have "StartSingleShot 9 ?t \<noteq> Timer_Cancel ?t"
    by (simp add: StartSingleShot_def start_wait_def Timer_Cancel_def)
  then have "\<exists>u. silent_timeouts [(3, False), (2, False)] (StartSingleShot 9 ?t) = Inr u \<and> tm_times_expired u = 0 \<and> IsRunning u"
    using Timer_no_stale_callback [OF run, of "StartSingleShot 9 ?t" 9 "[(3, False), (2, False)]"]
    by (simp add: total_starts_def)
  moreover have "tm_waits ?t = [2, 3]"
    by simp
  ultimately show ?thesis
    by blast
qed

fun fire :: "nat \<Rightarrow> timer \<Rightarrow> timer res" where
  "fire 0 t = Inr t"
| "fire (Suc k) t = bind_res (do_timer_event (Timeout (tm_wait_seq t) False []) t) (fire k)"

lemma fire_once:
  assumes "timer_ok t" "IsRunning t" "unat (tm_cur_seq t) + 1 < 2 ^ 64"
  shows "\<exists>t'. do_timer_event (Timeout (tm_wait_seq t) False []) t = Inr t' \<and> timer_ok t'
    \<and> tm_times_expired t' = tm_times_expired t + 1 \<and> unat (tm_cur_seq t') \<le> unat (tm_cur_seq t) + 1
    \<and> tm_is_periodic t' = tm_is_periodic t \<and> IsRunning t' = (tm_is_periodic t \<and> tm_remaining t > 0)
    \<and> tm_remaining t' = (if tm_is_periodic t \<and> 0 < tm_remaining t \<and> tm_remaining t < RUN_FOR_EVER
                         then tm_remaining t - 1 else tm_remaining t)"
proof -
  have seq: "tm_wait_seq t \<in> set (tm_waits t)" and run: "tm_level t = RUNNING" and cur: "tm_cur_seq t \<noteq> 0"
    using assms(1,2) by (auto simp: timer_ok_def IsRunning_def)
  let ?x = "expired_state (tm_wait_seq t) t"
  have x: "timer_ok ?x" "tm_level ?x = RUNNING" "unat (tm_cur_seq ?x) + 1 < 2 ^ 64"
    using timer_ok_expired [OF assms(1) seq run] run assms(3) by simp_all
  have r: "tm_is_periodic (restarted ?x) = tm_is_periodic t"
      "tm_remaining (restarted ?x) = (if tm_is_periodic t \<and> 0 < tm_remaining t \<and> tm_remaining t < RUN_FOR_EVER
                         then tm_remaining t - 1 else tm_remaining t)"
      "IsRunning (restarted ?x) = (tm_is_periodic t \<and> tm_remaining t > 0)"
    using run cur by (auto simp: restarted_def IsRunning_def start_wait_def Let_def)
  let ?u = "(restarted ?x)\<lparr>tm_times_expired := tm_times_expired t + 1\<rparr>"
  have "do_timer_event (Timeout (tm_wait_seq t) False []) t = Inr ?u"
    using HandleTimeout_current [OF assms(1) seq refl, of "[]"] restarted_ok(2) [OF x] by (simp add: Let_def)
  then show ?thesis
    using restarted_ok [OF x] r assms(3) by (auto simp: timer_ok_plain IsRunning_def)
qed

lemma fire_periodic:
  "timer_ok t \<Longrightarrow> IsRunning t \<Longrightarrow> tm_is_periodic t \<Longrightarrow> tm_remaining t < RUN_FOR_EVER \<Longrightarrow>
   unat (tm_cur_seq t) + k < 2 ^ 64 \<Longrightarrow> k \<le> unat (tm_remaining t) + 1 \<Longrightarrow>
   \<exists>t'. fire k t = Inr t' \<and> tm_times_expired t' = tm_times_expired t + of_nat k
      \<and> IsRunning t' = (k \<le> unat (tm_remaining t))"
proof (induction k arbitrary: t)
  case 0
  then show ?case by simp
next
  case (Suc k)
  have "unat (tm_cur_seq t) + 1 < 2 ^ 64"
    using Suc.prems(5) by simp
  then obtain t1 where t1: "do_timer_event (Timeout (tm_wait_seq t) False []) t = Inr t1" "timer_ok t1"
      "tm_times_expired t1 = tm_times_expired t + 1" "unat (tm_cur_seq t1) \<le> unat (tm_cur_seq t) + 1"
      "tm_is_periodic t1" "IsRunning t1 = (tm_remaining t > 0)"
      "tm_remaining t1 = (if 0 < tm_remaining t then tm_remaining t - 1 else tm_remaining t)"
    using fire_once [OF Suc.prems(1,2)] Suc.prems(3,4) by auto
  show ?case
  proof (cases "0 < tm_remaining t")
    case False
    then show ?thesis
      using Suc.prems(6) t1 by (simp add: word_less_nat_alt)
  next
    case True
    then have rem: "unat (tm_remaining t1) = unat (tm_remaining t) - 1" "0 < unat (tm_remaining t)"
      using t1(7) unat_minus_1 by (simp_all add: word_less_nat_alt)
    then have "tm_remaining t1 < RUN_FOR_EVER"
      using Suc.prems(4) by (simp add: word_less_nat_alt)
    then have "\<exists>t'. fire k t1 = Inr t' \<and> tm_times_expired t' = tm_times_expired t1 + of_nat k
      \<and> IsRunning t' = (k \<le> unat (tm_remaining t1))"
      using Suc.prems t1 True rem by (intro Suc.IH) auto
    then show ?thesis
      using t1 rem by (auto simp: algebra_simps)
  qed
qed

text \<open>
  A periodic timer that is started for \<open>num_times\<close> expirations calls its handler exactly that
  often: every expiration up to the last one starts the next wait, and after the last one the
  timer is no longer running.
\<close>

theorem Timer_periodic_count:
  assumes "timer_run es t" "tm_level t = RUNNING" "0 < n" "n < RUN_FOR_EVER"
    and "k \<le> unat n" "total_starts es + 2 + k < 2 ^ 64"
  shows "\<exists>t'. fire k (StartPeriodic first period n t) = Inr t'
    \<and> tm_times_expired t' = tm_times_expired t + of_nat k \<and> IsRunning t' = (k < unat n)"
proof -
  have ok: "timer_ok t" "unat (tm_cur_seq t) \<le> total_starts es + 1"
    using timer_run_ok [OF assms(1)] assms(6) by auto
  have bound: "unat (tm_cur_seq t) + 1 < 2 ^ 64"
    using ok(2) assms(6) by simp
  let ?t = "StartPeriodic first period n t"
  have sel: "tm_is_periodic ?t" "tm_remaining ?t = n - 1" "IsRunning ?t" "tm_times_expired ?t = tm_times_expired t"
      "tm_cur_seq ?t = tm_cur_seq (start_wait t)"
    using assms(3,4) by (auto simp: StartPeriodic_def StartSingleShot_def start_wait_def Let_def IsRunning_def)
  have ok': "timer_ok ?t"
    using timer_ok_start_wait [OF ok(1) assms(2) bound] assms(3,4)
    by (auto simp: StartPeriodic_def StartSingleShot_def Let_def timer_ok_plain)
  have n: "unat (n - 1) = unat n - 1" "0 < unat n"
    using assms(3) unat_minus_1 by (simp_all add: word_less_nat_alt)
  have "tm_remaining ?t < RUN_FOR_EVER"
    using sel(2) n assms(4) by (simp add: word_less_nat_alt)
  moreover have "unat (tm_cur_seq ?t) + k < 2 ^ 64"
    using sel(5) timer_ok_start_wait(2) [OF ok(1) assms(2) bound] ok(2) assms(6) by simp
  moreover have "k \<le> unat (tm_remaining ?t) + 1"
    using sel(2) n assms(5) by simp
  ultimately show ?thesis
    using fire_periodic [OF ok' sel(3,1), of k] sel n by auto
qed

theorem Timer_periodic_count_witness:
  "\<exists>t'. fire 2 (StartPeriodic 5 7 3 (Timer True 0 False 0 0)) = Inr t' \<and> tm_times_expired t' = 2 \<and> IsRunning t'"
  using Timer_periodic_count [OF timer_init [of True 0 False 0 0], of 3 2 5 7]
  by (simp add: total_starts_def Timer_def RUN_FOR_EVER_def)

end
