(* ===== verification/ThreadPool.thy ===== *)
theory ThreadPool
  imports Client Errors "HOL-Library.Multiset"
begin

section \<open>bbox::rt::ThreadPool and bbox::rt::ThreadPoolRef\<close>

text \<open>
  \<open>BBoxRt/bbox/rt/ThreadPool.cpp\<close> and \<open>ThreadPoolRef.cpp\<close>: functions run by a worker thread, with
  completion handlers that run in the proactor's thread. The two threads share the queue and
  the counters under a mutex; each block that holds it is one step, and the worker's program
  counter tells where it is between them. The calls posted to the proactor may be made in any
  order. \<open>tp_accepted\<close>, \<open>tp_ran\<close> and \<open>tp_delivered\<close> record what has happened so far.
\<close>

subsection \<open>State\<close>

text \<open>How a posted function ends: it returns, or throws.\<close>

datatype outcome = Returns | ThrowsException exception | ThrowsStd string | ThrowsOther

record item =
  it_id :: nat
  it_outcome :: outcome
  it_ref :: "nat option"

datatype posted_call = Completion item error_code string | NotifyThreadCompleted

datatype worker = NoThread | AtLock | InWait | Running item | AtCount | AtExit | Finished

record pool_ref =
  pr_level :: run_level
  pr_items_in_progress :: u64
  pr_items_completed :: u64

record thread_pool =
  tp_level :: run_level
  tp_pimpl :: bool
  tp_queue :: "item list"
  tp_finished :: bool
  tp_items_in_progress :: u64
  tp_items_completed :: u64
  tp_worker :: worker
  tp_posted :: "posted_call list"
  tp_refs :: "pool_ref list"
  tp_accepted :: "item list"
  tp_ran :: "item list"
  tp_delivered :: "(item \<times> error_code \<times> string) list"

definition ThreadPoolRef :: pool_ref where
  "ThreadPoolRef = \<lparr>pr_level = CONSTRUCTED, pr_items_in_progress = 0, pr_items_completed = 0\<rparr>"

text \<open>A pool with \<open>n\<close> references to it, before the start.\<close>

definition ThreadPool :: "nat \<Rightarrow> thread_pool" where
  "ThreadPool n = \<lparr>tp_level = CONSTRUCTED, tp_pimpl = False, tp_queue = [], tp_finished = False,
     tp_items_in_progress = 0, tp_items_completed = 0, tp_worker = NoThread, tp_posted = [],
     tp_refs = replicate n ThreadPoolRef, tp_accepted = [], tp_ran = [], tp_delivered = []\<rparr>"

subsection \<open>The pool\<close>

text \<open>\<open>notify_all\<close>: a waiting worker goes on to take the mutex again.\<close>

definition notify_all :: "thread_pool \<Rightarrow> thread_pool" where
  "notify_all s = (if tp_worker s = InWait then s\<lparr>tp_worker := AtLock\<rparr> else s)"

definition ThreadPool_HandleStarting :: "thread_pool \<Rightarrow> thread_pool res" where
  "ThreadPool_HandleStarting s =
     bind_res (level_NotifyStarted (tp_level s)) (\<lambda>l.
       Inr (s\<lparr>tp_pimpl := True, tp_queue := [], tp_finished := False, tp_items_in_progress := 0,
         tp_items_completed := 0, tp_worker := AtLock, tp_level := l\<rparr>))"

definition Pimpl_HandleStopping :: "thread_pool \<Rightarrow> thread_pool res" where
  "Pimpl_HandleStopping s =
     bind_res (check ''!m_finished'' (\<not> tp_finished s) s) (\<lambda>s. Inr (notify_all (s\<lparr>tp_finished := True\<rparr>)))"

definition ThreadPool_HandleStopping :: "thread_pool \<Rightarrow> thread_pool res" where
  "ThreadPool_HandleStopping s = (if tp_pimpl s then Pimpl_HandleStopping s else Inl NullPointer)"

definition Pimpl_Post :: "item \<Rightarrow> thread_pool \<Rightarrow> thread_pool res" where
  "Pimpl_Post it s =
     bind_res (check ''!m_finished'' (\<not> tp_finished s) s) (\<lambda>s.
       Inr (notify_all (s\<lparr>tp_queue := tp_queue s @ [it], tp_items_in_progress := tp_items_in_progress s + 1,
         tp_accepted := tp_accepted s @ [it]\<rparr>)))"

definition ThreadPool_Post :: "item \<Rightarrow> thread_pool \<Rightarrow> thread_pool res" where
  "ThreadPool_Post it s =
     bind_res (check ''GetLocalRunLevel() == RunLevel::RUNNING'' (tp_level s = RUNNING) s) (\<lambda>s.
       if tp_pimpl s then Pimpl_Post it s else Inl NullPointer)"

text \<open>What \<open>RunItem\<close> reports for a function.\<close>

definition RunItem :: "outcome \<Rightarrow> error_code \<times> string" where
  "RunItem out = (case out of
       Returns \<Rightarrow> (Error, '''')
     | ThrowsException e \<Rightarrow>
         (if \<not> Error_bool (ex_error e) then Error_errc errc_interrupted else ex_error e, what_c_str e)
     | ThrowsStd w \<Rightarrow> (Error_errc errc_interrupted, w)
     | ThrowsOther \<Rightarrow> (Error_errc errc_interrupted, ''Unknown C++ exception occured''))"

text \<open>One step of the worker, none when it waits or has ended.\<close>

definition ThreadFunc :: "thread_pool \<Rightarrow> thread_pool" where
  "ThreadFunc s = (case tp_worker s of
       AtLock \<Rightarrow> (case tp_queue s of
           entry # rest \<Rightarrow> s\<lparr>tp_queue := rest, tp_worker := Running entry\<rparr>
         | [] \<Rightarrow> if tp_finished s then s\<lparr>tp_worker := AtExit\<rparr> else s\<lparr>tp_worker := InWait\<rparr>)
     | Running entry \<Rightarrow> s\<lparr>tp_worker := AtCount, tp_ran := tp_ran s @ [entry],
         tp_posted := tp_posted s @ [case RunItem (it_outcome entry) of (error, what) \<Rightarrow> Completion entry error what]\<rparr>
     | AtCount \<Rightarrow> s\<lparr>tp_worker := AtLock, tp_items_in_progress := tp_items_in_progress s - 1,
         tp_items_completed := tp_items_completed s + 1\<rparr>
     | AtExit \<Rightarrow> s\<lparr>tp_worker := Finished, tp_posted := tp_posted s @ [NotifyThreadCompleted]\<rparr>
     | _ \<Rightarrow> s)"

definition ThreadPool_NotifyThreadCompleted :: "thread_pool \<Rightarrow> thread_pool res" where
  "ThreadPool_NotifyThreadCompleted s =
     bind_res (level_NotifyStopped (tp_level s)) (\<lambda>l. Inr (s\<lparr>tp_pimpl := False, tp_level := l\<rparr>))"

subsection \<open>References\<close>

abbreviation get_ref :: "thread_pool \<Rightarrow> nat \<Rightarrow> pool_ref" where
  "get_ref s r \<equiv> tp_refs s ! r"

abbreviation set_ref :: "nat \<Rightarrow> pool_ref \<Rightarrow> thread_pool \<Rightarrow> thread_pool" where
  "set_ref r x s \<equiv> s\<lparr>tp_refs := (tp_refs s)[r := x]\<rparr>"

definition ThreadPoolRef_HandleStarting :: "nat \<Rightarrow> thread_pool \<Rightarrow> thread_pool res" where
  "ThreadPoolRef_HandleStarting r s =
     bind_res (check ''m_items_in_progress == 0'' (pr_items_in_progress (get_ref s r) = 0) s) (\<lambda>s.
     bind_res (level_NotifyStarted (pr_level (get_ref s r))) (\<lambda>l.
       Inr (set_ref r ((get_ref s r)\<lparr>pr_level := l\<rparr>) s)))"

definition CheckStopped :: "nat \<Rightarrow> thread_pool \<Rightarrow> thread_pool res" where
  "CheckStopped r s =
     (if pr_level (get_ref s r) = STOPPING \<and> pr_items_in_progress (get_ref s r) = 0 then
        bind_res (level_NotifyStopped (pr_level (get_ref s r))) (\<lambda>l.
          Inr (set_ref r ((get_ref s r)\<lparr>pr_level := l\<rparr>) s))
      else Inr s)"

definition RunOnThread :: "nat \<Rightarrow> nat \<Rightarrow> outcome \<Rightarrow> thread_pool \<Rightarrow> thread_pool res" where
  "RunOnThread r i out s =
     bind_res (check ''GetLocalRunLevel() == RunLevel::RUNNING'' (pr_level (get_ref s r) = RUNNING) s) (\<lambda>s.
       ThreadPool_Post \<lparr>it_id = i, it_outcome = out, it_ref = Some r\<rparr>
         (set_ref r ((get_ref s r)\<lparr>pr_items_in_progress := pr_items_in_progress (get_ref s r) + 1\<rparr>) s))"

text \<open>
  The client posts through a reference or to the pool itself; a completion handler does so a
  number of times (\<open>ops\<close>).
\<close>

datatype pool_op = ViaRef nat nat outcome | ViaPool nat outcome

fun do_pool_op :: "pool_op \<Rightarrow> thread_pool \<Rightarrow> thread_pool res" where
  "do_pool_op (ViaRef r i out) s = RunOnThread r i out s"
| "do_pool_op (ViaPool i out) s = ThreadPool_Post \<lparr>it_id = i, it_outcome = out, it_ref = None\<rparr> s"

definition call_completion :: "pool_op list \<Rightarrow> item \<Rightarrow> error_code \<Rightarrow> string \<Rightarrow> thread_pool \<Rightarrow> thread_pool res" where
  "call_completion ops it err w s = (case it_ref it of
       None \<Rightarrow> fold_res do_pool_op ops (s\<lparr>tp_delivered := tp_delivered s @ [(it, err, w)]\<rparr>)
     | Some r \<Rightarrow>
         bind_res (check ''m_items_in_progress > 0'' (pr_items_in_progress (get_ref s r) > 0) s) (\<lambda>s.
         let x = (get_ref s r)\<lparr>pr_items_in_progress := pr_items_in_progress (get_ref s r) - 1\<rparr>;
             s = set_ref r (x\<lparr>pr_items_completed := pr_items_completed x + 1\<rparr>) s
         in bind_res (fold_res do_pool_op ops (s\<lparr>tp_delivered := tp_delivered s @ [(it, err, w)]\<rparr>)) (CheckStopped r)))"

subsection \<open>Runs\<close>

datatype pool_event =
    PoolStarting
  | PoolStopping
  | RefStarting nat
  | RefStopping nat
  | ClientPost pool_op
  | WorkerStep
  | SpuriousWakeUp
  | ProactorCall nat "pool_op list"

definition take_call :: "nat \<Rightarrow> thread_pool \<Rightarrow> thread_pool" where
  "take_call n s = s\<lparr>tp_posted := take n (tp_posted s) @ drop (Suc n) (tp_posted s)\<rparr>"

fun do_pool_event :: "pool_event \<Rightarrow> thread_pool \<Rightarrow> thread_pool res" where
  "do_pool_event PoolStarting s = ThreadPool_HandleStarting (s\<lparr>tp_level := STARTING\<rparr>)"
| "do_pool_event PoolStopping s = ThreadPool_HandleStopping (s\<lparr>tp_level := STOPPING\<rparr>)"
| "do_pool_event (RefStarting r) s = ThreadPoolRef_HandleStarting r (set_ref r ((get_ref s r)\<lparr>pr_level := STARTING\<rparr>) s)"
| "do_pool_event (RefStopping r) s = CheckStopped r (set_ref r ((get_ref s r)\<lparr>pr_level := STOPPING\<rparr>) s)"
| "do_pool_event (ClientPost p) s = do_pool_op p s"
| "do_pool_event WorkerStep s = Inr (ThreadFunc s)"
| "do_pool_event SpuriousWakeUp s = Inr (notify_all s)"
| "do_pool_event (ProactorCall n ops) s = (case tp_posted s ! n of
       Completion it err w \<Rightarrow> call_completion ops it err w (take_call n s)
     | NotifyThreadCompleted \<Rightarrow> ThreadPool_NotifyThreadCompleted (take_call n s))"

text \<open>
  What the run time and the clients promise: dependants are started after and stopped before
  the pool, and only a running reference, or a running pool, is asked to run a function.
\<close>

fun pool_op_allowed :: "thread_pool \<Rightarrow> pool_op \<Rightarrow> bool" where
  "pool_op_allowed s (ViaRef r _ _) \<longleftrightarrow> r < length (tp_refs s) \<and> pr_level (get_ref s r) = RUNNING"
| "pool_op_allowed s (ViaPool _ _) \<longleftrightarrow> tp_level s = RUNNING"

fun pool_allowed :: "pool_event \<Rightarrow> thread_pool \<Rightarrow> bool" where
  "pool_allowed PoolStarting s \<longleftrightarrow> tp_level s = CONSTRUCTED"
| "pool_allowed PoolStopping s \<longleftrightarrow> tp_level s = RUNNING \<and> list_all (\<lambda>x. pr_level x = STOPPED) (tp_refs s)"
| "pool_allowed (RefStarting r) s \<longleftrightarrow> r < length (tp_refs s) \<and> pr_level (get_ref s r) = CONSTRUCTED \<and> tp_level s = RUNNING"
| "pool_allowed (RefStopping r) s \<longleftrightarrow> r < length (tp_refs s) \<and> pr_level (get_ref s r) = RUNNING"
| "pool_allowed (ClientPost p) s \<longleftrightarrow> pool_op_allowed s p"
| "pool_allowed WorkerStep s \<longleftrightarrow> tp_worker s \<noteq> NoThread \<and> tp_worker s \<noteq> InWait \<and> tp_worker s \<noteq> Finished"
| "pool_allowed SpuriousWakeUp s \<longleftrightarrow> tp_worker s = InWait"
| "pool_allowed (ProactorCall n ops) s \<longleftrightarrow> n < length (tp_posted s) \<and> list_all (pool_op_allowed s) ops
     \<and> (tp_posted s ! n = NotifyThreadCompleted \<longrightarrow> ops = [])"

inductive pool_reachable :: "nat \<Rightarrow> thread_pool \<Rightarrow> bool" for n where
  pool_init: "pool_reachable n (ThreadPool n)"
| pool_step: "pool_reachable n s \<Longrightarrow> pool_allowed e s \<Longrightarrow> do_pool_event e s = Inr s' \<Longrightarrow> pool_reachable n s'"

subsection \<open>The invariant\<close>

definition worker_item :: "worker \<Rightarrow> item list" where
  "worker_item w = (case w of Running it \<Rightarrow> [it] | _ \<Rightarrow> [])"

definition worker_busy :: "worker \<Rightarrow> nat" where
  "worker_busy w = (case w of Running _ \<Rightarrow> 1 | AtCount \<Rightarrow> 1 | _ \<Rightarrow> 0)"

lemma worker_simps [simp]:
  "worker_item NoThread = []" "worker_item AtLock = []" "worker_item InWait = []" "worker_item (Running it) = [it]"
  "worker_item AtCount = []" "worker_item AtExit = []" "worker_item Finished = []"
  "worker_busy NoThread = 0" "worker_busy AtLock = 0" "worker_busy InWait = 0" "worker_busy (Running it) = 1"
  "worker_busy AtCount = 1" "worker_busy AtExit = 0" "worker_busy Finished = 0"
  by (simp_all add: worker_item_def worker_busy_def)

definition report :: "item \<Rightarrow> item \<times> error_code \<times> string" where
  "report it = (it, RunItem (it_outcome it))"

fun completions :: "posted_call list \<Rightarrow> (item \<times> error_code \<times> string) list" where
  "completions [] = []"
| "completions (Completion it err w # ps) = (it, err, w) # completions ps"
| "completions (NotifyThreadCompleted # ps) = completions ps"

lemma completions_append [simp]: "completions (ps @ qs) = completions ps @ completions qs"
  by (induction ps rule: completions.induct) simp_all

text \<open>First in, first out, and the counters.\<close>

definition queue_ok :: "thread_pool \<Rightarrow> bool" where
  "queue_ok s \<longleftrightarrow> tp_accepted s = tp_ran s @ worker_item (tp_worker s) @ tp_queue s
     \<and> tp_items_in_progress s = of_nat (length (tp_queue s) + worker_busy (tp_worker s))
     \<and> tp_items_completed s + (if tp_worker s = AtCount then 1 else 0) = of_nat (length (tp_ran s))"

text \<open>The worker never waits while there is something to do.\<close>

definition worker_ok :: "thread_pool \<Rightarrow> bool" where
  "worker_ok s \<longleftrightarrow> (tp_worker s = InWait \<longrightarrow> tp_queue s = [] \<and> \<not> tp_finished s)
     \<and> (tp_worker s = AtExit \<or> tp_worker s = Finished \<longrightarrow> tp_queue s = [] \<and> tp_finished s)
     \<and> (tp_worker s = NoThread \<longleftrightarrow> tp_level s = CONSTRUCTED) \<and> (tp_worker s = NoThread \<longrightarrow> tp_accepted s = [])"

definition level_ok :: "thread_pool \<Rightarrow> bool" where
  "level_ok s \<longleftrightarrow> tp_level s \<in> {CONSTRUCTED, RUNNING, STOPPING, STOPPED}
     \<and> (tp_pimpl s \<longleftrightarrow> tp_level s = RUNNING \<or> tp_level s = STOPPING)
     \<and> (tp_finished s \<longleftrightarrow> tp_level s = STOPPING \<or> tp_level s = STOPPED)
     \<and> count_list (tp_posted s) NotifyThreadCompleted = (if tp_worker s = Finished \<and> tp_level s = STOPPING then 1 else 0)
     \<and> (tp_level s = STOPPED \<longrightarrow> tp_worker s = Finished)"

definition delivery_ok :: "thread_pool \<Rightarrow> bool" where
  "delivery_ok s \<longleftrightarrow> mset (completions (tp_posted s)) + mset (tp_delivered s) = mset (map report (tp_ran s))"

definition of_ref :: "nat \<Rightarrow> item \<Rightarrow> bool" where
  "of_ref r it \<longleftrightarrow> it_ref it = Some r"

definition ref_ok :: "thread_pool \<Rightarrow> nat \<Rightarrow> bool" where
  "ref_ok s r \<longleftrightarrow> unat (pr_items_in_progress (get_ref s r)) + length (filter (of_ref r) (map fst (tp_delivered s)))
         = length (filter (of_ref r) (tp_accepted s))
     \<and> pr_level (get_ref s r) \<in> {CONSTRUCTED, RUNNING, STOPPING, STOPPED}
     \<and> (pr_level (get_ref s r) = CONSTRUCTED \<or> pr_level (get_ref s r) = STOPPED \<longrightarrow> pr_items_in_progress (get_ref s r) = 0)
     \<and> (pr_level (get_ref s r) \<noteq> CONSTRUCTED \<and> pr_level (get_ref s r) \<noteq> STOPPED \<longrightarrow> tp_level s = RUNNING)"

definition refs_ok :: "thread_pool \<Rightarrow> bool" where
  "refs_ok s \<longleftrightarrow> (\<forall>r < length (tp_refs s). ref_ok s r)
     \<and> (\<forall>it \<in> set (tp_accepted s). \<forall>r. it_ref it = Some r \<longrightarrow> r < length (tp_refs s))"

text \<open>A reference that stops has functions under way.\<close>

definition busy_if_stopping :: "nat \<Rightarrow> thread_pool \<Rightarrow> bool" where
  "busy_if_stopping r s \<longleftrightarrow> (pr_level (get_ref s r) = STOPPING \<longrightarrow> pr_items_in_progress (get_ref s r) \<noteq> 0)"

definition pool_inv :: "thread_pool \<Rightarrow> bool" where
  "pool_inv s \<longleftrightarrow> queue_ok s \<and> worker_ok s \<and> level_ok s \<and> delivery_ok s \<and> refs_ok s"

definition pool_ok :: "thread_pool \<Rightarrow> bool" where
  "pool_ok s \<longleftrightarrow> pool_inv s \<and> (\<forall>r < length (tp_refs s). busy_if_stopping r s)"

lemma pool_ok_init: "pool_ok (ThreadPool n)"
  by (simp add: pool_ok_def pool_inv_def queue_ok_def worker_ok_def level_ok_def delivery_ok_def refs_ok_def ref_ok_def
      busy_if_stopping_def ThreadPool_def ThreadPoolRef_def)

subsection \<open>The worker\<close>

lemma ThreadFunc_sel [simp]:
  "tp_level (ThreadFunc s) = tp_level s" "tp_pimpl (ThreadFunc s) = tp_pimpl s" "tp_finished (ThreadFunc s) = tp_finished s"
  "tp_refs (ThreadFunc s) = tp_refs s" "tp_accepted (ThreadFunc s) = tp_accepted s" "tp_delivered (ThreadFunc s) = tp_delivered s"
  by (simp_all add: ThreadFunc_def split: worker.split list.split)

lemma ThreadFunc_refs: "refs_ok s \<Longrightarrow> refs_ok (ThreadFunc s)" "busy_if_stopping r s \<Longrightarrow> busy_if_stopping r (ThreadFunc s)"
  by (simp_all add: refs_ok_def ref_ok_def busy_if_stopping_def)

lemma ThreadFunc_queue: "queue_ok s \<Longrightarrow> queue_ok (ThreadFunc s)"
  by (auto simp: queue_ok_def ThreadFunc_def split: worker.split list.split)

lemma ThreadFunc_worker: "worker_ok s \<Longrightarrow> worker_ok (ThreadFunc s)"
  by (auto simp: worker_ok_def ThreadFunc_def split: worker.split list.split)

lemma ThreadFunc_level: "level_ok s \<Longrightarrow> worker_ok s \<Longrightarrow> level_ok (ThreadFunc s)"
  by (auto simp: level_ok_def worker_ok_def ThreadFunc_def split: worker.split list.split prod.split)

lemma ThreadFunc_delivery: "delivery_ok s \<Longrightarrow> delivery_ok (ThreadFunc s)"
  by (auto simp: delivery_ok_def ThreadFunc_def report_def split: worker.split list.split prod.split)

lemma ThreadFunc_ok: "pool_ok s \<Longrightarrow> pool_ok (ThreadFunc s)"
  by (simp add: pool_ok_def pool_inv_def ThreadFunc_refs ThreadFunc_queue ThreadFunc_worker ThreadFunc_level ThreadFunc_delivery)

lemma notify_all_sel [simp]:
  "tp_level (notify_all s) = tp_level s" "tp_pimpl (notify_all s) = tp_pimpl s" "tp_finished (notify_all s) = tp_finished s"
  "tp_refs (notify_all s) = tp_refs s" "tp_accepted (notify_all s) = tp_accepted s" "tp_delivered (notify_all s) = tp_delivered s"
  "tp_queue (notify_all s) = tp_queue s" "tp_items_in_progress (notify_all s) = tp_items_in_progress s"
  "tp_items_completed (notify_all s) = tp_items_completed s" "tp_posted (notify_all s) = tp_posted s" "tp_ran (notify_all s) = tp_ran s"
  "tp_worker (notify_all s) = (if tp_worker s = InWait then AtLock else tp_worker s)"
  by (simp_all add: notify_all_def)

lemma notify_all_parts:
  "queue_ok s \<Longrightarrow> queue_ok (notify_all s)" "worker_ok s \<Longrightarrow> worker_ok (notify_all s)"
  "delivery_ok s \<Longrightarrow> delivery_ok (notify_all s)" "refs_ok s \<Longrightarrow> refs_ok (notify_all s)"
  "busy_if_stopping r s \<Longrightarrow> busy_if_stopping r (notify_all s)"
  by (auto simp: queue_ok_def worker_ok_def delivery_ok_def refs_ok_def ref_ok_def busy_if_stopping_def)

lemma notify_all_level: "level_ok s \<Longrightarrow> level_ok (notify_all s)"
  by (auto simp: level_ok_def)

lemma notify_all_ok: "pool_ok s \<Longrightarrow> pool_ok (notify_all s)"
  by (simp add: pool_ok_def pool_inv_def notify_all_parts notify_all_level)

subsection \<open>Posting\<close>

definition accept_item :: "item \<Rightarrow> thread_pool \<Rightarrow> thread_pool" where
  "accept_item it s = notify_all (s\<lparr>tp_queue := tp_queue s @ [it], tp_items_in_progress := tp_items_in_progress s + 1,
     tp_accepted := tp_accepted s @ [it]\<rparr>)"

definition count_for :: "item \<Rightarrow> thread_pool \<Rightarrow> thread_pool" where
  "count_for it s = (case it_ref it of None \<Rightarrow> s
     | Some r \<Rightarrow> set_ref r ((get_ref s r)\<lparr>pr_items_in_progress := pr_items_in_progress (get_ref s r) + 1\<rparr>) s)"

fun op_item :: "pool_op \<Rightarrow> item" where
  "op_item (ViaRef r i out) = \<lparr>it_id = i, it_outcome = out, it_ref = Some r\<rparr>"
| "op_item (ViaPool i out) = \<lparr>it_id = i, it_outcome = out, it_ref = None\<rparr>"

lemma accept_item_sel [simp]:
  "tp_level (accept_item it s) = tp_level s" "tp_refs (accept_item it s) = tp_refs s"
  "tp_delivered (accept_item it s) = tp_delivered s" "tp_accepted (accept_item it s) = tp_accepted s @ [it]"
  "tp_posted (accept_item it s) = tp_posted s"
  by (simp_all add: accept_item_def)

lemma count_for_sel [simp]:
  "tp_level (count_for it s) = tp_level s" "tp_pimpl (count_for it s) = tp_pimpl s" "tp_finished (count_for it s) = tp_finished s"
  "tp_delivered (count_for it s) = tp_delivered s" "tp_accepted (count_for it s) = tp_accepted s"
  "tp_posted (count_for it s) = tp_posted s" "length (tp_refs (count_for it s)) = length (tp_refs s)"
  by (simp_all add: count_for_def split: option.split)

lemma count_for_get_ref:
  "r < length (tp_refs s) \<Longrightarrow> get_ref (count_for it s) r =
     (get_ref s r)\<lparr>pr_items_in_progress := pr_items_in_progress (get_ref s r) + (if of_ref r it then 1 else 0)\<rparr>"
  by (auto simp: count_for_def of_ref_def nth_list_update split: option.split)

lemma do_pool_op_eq:
  "level_ok s \<Longrightarrow> tp_level s = RUNNING \<Longrightarrow> pool_op_allowed s p \<Longrightarrow>
   do_pool_op p s = Inr (accept_item (op_item p) (count_for (op_item p) s))"
  by (cases p) (auto simp: RunOnThread_def ThreadPool_Post_def Pimpl_Post_def accept_item_def count_for_def level_ok_def check_def)

lemma count_for_parts:
  "queue_ok (count_for it s) = queue_ok s" "worker_ok (count_for it s) = worker_ok s"
  "level_ok (count_for it s) = level_ok s" "delivery_ok (count_for it s) = delivery_ok s"
  by (cases "it_ref it"; auto simp: count_for_def queue_ok_def worker_ok_def level_ok_def delivery_ok_def)+

lemma accept_item_parts:
  assumes "level_ok s" "tp_level s = RUNNING"
  shows "queue_ok s \<Longrightarrow> queue_ok (accept_item it s)" "worker_ok s \<Longrightarrow> worker_ok (accept_item it s)"
    "level_ok (accept_item it s)" "delivery_ok s \<Longrightarrow> delivery_ok (accept_item it s)"
  using assms by (auto simp: queue_ok_def worker_ok_def level_ok_def delivery_ok_def accept_item_def)

lemma ref_count_bound: "refs_ok s \<Longrightarrow> r < length (tp_refs s) \<Longrightarrow> unat (pr_items_in_progress (get_ref s r)) \<le> length (tp_accepted s)"
  using length_filter_le [of "of_ref r" "tp_accepted s"] unfolding refs_ok_def ref_ok_def
  by (metis le_add1 le_trans)

lemma accept_refs_ok:
  assumes "refs_ok s" "tp_level s = RUNNING" "length (tp_accepted s) + 1 < 2 ^ 64"
    and "case it_ref it of None \<Rightarrow> True | Some r \<Rightarrow> r < length (tp_refs s) \<and> pr_level (get_ref s r) \<in> {RUNNING, STOPPING}"
  shows "refs_ok (accept_item it (count_for it s))"
proof -
  have "ref_ok (accept_item it (count_for it s)) r" if r: "r < length (tp_refs s)" for r
  proof -
    let ?x = "get_ref s r"
    have "unat (pr_items_in_progress ?x + 1) = unat (pr_items_in_progress ?x) + 1"
      by (rule unat_plus_1) (use ref_count_bound [OF assms(1) r] assms(3) in simp)
    moreover have "ref_ok s r"
      using assms(1) r by (simp add: refs_ok_def)
    ultimately show ?thesis
      using assms(2,4) r by (auto simp: ref_ok_def count_for_get_ref of_ref_def)
  qed
  moreover have "i < length (tp_refs s)" if "x \<in> set (tp_accepted s) \<or> x = it" "it_ref x = Some i" for x i
    using that assms(1,4) by (auto simp: refs_ok_def)
  ultimately show ?thesis
    by (auto simp: refs_ok_def)
qed

lemma do_pool_op_ok:
  assumes "pool_inv s" "tp_level s = RUNNING" "pool_op_allowed s p" "length (tp_accepted s) + 1 < 2 ^ 64"
  shows "\<exists>s'. do_pool_op p s = Inr s' \<and> pool_inv s' \<and> tp_level s' = RUNNING \<and> length (tp_accepted s') = length (tp_accepted s) + 1
    \<and> length (tp_refs s') = length (tp_refs s)
    \<and> (\<forall>r < length (tp_refs s). pr_level (get_ref s' r) = pr_level (get_ref s r) \<and>
        (pr_level (get_ref s r) \<noteq> RUNNING \<longrightarrow> get_ref s' r = get_ref s r))"
proof -
  let ?s = "accept_item (op_item p) (count_for (op_item p) s)"
  have parts: "queue_ok s" "worker_ok s" "level_ok s" "delivery_ok s" "refs_ok s"
    using assms(1) by (simp_all add: pool_inv_def)
  have it: "case it_ref (op_item p) of None \<Rightarrow> True | Some r \<Rightarrow> r < length (tp_refs s) \<and> pr_level (get_ref s r) \<in> {RUNNING, STOPPING}"
    using assms(3) by (cases p) auto
  have "level_ok (count_for (op_item p) s)" "tp_level (count_for (op_item p) s) = RUNNING"
    using parts(3) assms(2) by (simp_all add: count_for_parts)
  note q = accept_item_parts [OF this]
  have "pool_inv ?s"
    using q parts accept_refs_ok [OF parts(5) assms(2,4) it] by (simp add: pool_inv_def count_for_parts)
  moreover have "pr_level (get_ref ?s r) = pr_level (get_ref s r) \<and> (pr_level (get_ref s r) \<noteq> RUNNING \<longrightarrow> get_ref ?s r = get_ref s r)"
    if "r < length (tp_refs s)" for r
    using that assms(3) by (cases p) (auto simp: count_for_get_ref of_ref_def)
  ultimately show ?thesis
    using do_pool_op_eq [OF parts(3) assms(2,3)] assms(2) by auto
qed

lemma allowed_running: "pool_inv s \<Longrightarrow> pool_op_allowed s p \<Longrightarrow> tp_level s = RUNNING"
  by (cases p) (auto simp: pool_inv_def refs_ok_def ref_ok_def)

lemma allowed_mono:
  assumes "pool_op_allowed s p" "tp_level s' = tp_level s" "length (tp_refs s') = length (tp_refs s)"
    and "\<forall>r < length (tp_refs s). pr_level (get_ref s' r) = pr_level (get_ref s r)"
  shows "pool_op_allowed s' p"
  using assms by (cases p) auto

definition same_levels :: "thread_pool \<Rightarrow> thread_pool \<Rightarrow> bool" where
  "same_levels s s' \<longleftrightarrow> tp_level s' = tp_level s \<and> length (tp_refs s') = length (tp_refs s)
     \<and> (\<forall>r < length (tp_refs s). pr_level (get_ref s' r) = pr_level (get_ref s r) \<and>
        (pr_level (get_ref s r) \<noteq> RUNNING \<longrightarrow> get_ref s' r = get_ref s r))"

lemma same_levels_trans: "same_levels s t \<Longrightarrow> same_levels t u \<Longrightarrow> same_levels s u"
  unfolding same_levels_def by metis

lemma same_levels_busy: "same_levels s t \<Longrightarrow> r < length (tp_refs s) \<Longrightarrow> busy_if_stopping r s \<Longrightarrow> busy_if_stopping r t"
  by (auto simp: same_levels_def busy_if_stopping_def)

lemma do_pool_ops_ok:
  "pool_inv s \<Longrightarrow> list_all (pool_op_allowed s) ops \<Longrightarrow> length (tp_accepted s) + length ops < 2 ^ 64 \<Longrightarrow>
   \<exists>s'. fold_res do_pool_op ops s = Inr s' \<and> pool_inv s' \<and> same_levels s s'
     \<and> length (tp_accepted s') = length (tp_accepted s) + length ops"
proof (induction ops arbitrary: s)
  case Nil
  then show ?case
    by (simp add: same_levels_def)
next
  case (Cons p ops)
  have "tp_level s = RUNNING"
    using allowed_running [OF Cons.prems(1), of p] Cons.prems(2) by simp
  then obtain s1 where s1: "do_pool_op p s = Inr s1" "pool_inv s1" "same_levels s s1"
      "length (tp_accepted s1) = length (tp_accepted s) + 1"
    using do_pool_op_ok [OF Cons.prems(1), of p] Cons.prems(2,3) by (auto simp: same_levels_def)
  have "list_all (pool_op_allowed s1) ops"
    using Cons.prems(2) s1(3) by (auto simp: list_all_iff same_levels_def intro: allowed_mono)
  then obtain s' where "fold_res do_pool_op ops s1 = Inr s'" "pool_inv s'" "same_levels s1 s'"
      "length (tp_accepted s') = length (tp_accepted s1) + length ops"
    using Cons.IH [OF s1(2)] Cons.prems(3) s1(4) by auto
  then show ?case
    using s1 by (auto intro: same_levels_trans)
qed

subsection \<open>Calls from the proactor\<close>

lemma completions_take_nth:
  assumes "n < length ps"
  shows "mset (completions ps) = mset (completions [ps ! n]) + mset (completions (take n ps @ drop (Suc n) ps))"
proof -
  have "completions ps = completions (take n ps @ ps ! n # drop (Suc n) ps)"
    using assms by (simp add: id_take_nth_drop [symmetric])
  also have "\<dots> = completions (take n ps) @ completions [ps ! n] @ completions (drop (Suc n) ps)"
    using completions_append [of "[ps ! n]" "drop (Suc n) ps"] by simp
  finally show ?thesis
    by simp
qed

lemma take_call_sel [simp]:
  "tp_level (take_call n s) = tp_level s" "tp_refs (take_call n s) = tp_refs s" "tp_delivered (take_call n s) = tp_delivered s"
  "tp_accepted (take_call n s) = tp_accepted s"
  by (simp_all add: take_call_def)

text \<open>A completion handler that is still to be called belongs to an accepted item, not yet delivered.\<close>

lemma undelivered:
  assumes "pool_inv s" "n < length (tp_posted s)" "tp_posted s ! n = Completion it err w" "it_ref it = Some r"
  shows "r < length (tp_refs s)" "length (filter (of_ref r) (map fst (tp_delivered s))) < length (filter (of_ref r) (tp_accepted s))"
    "0 < pr_items_in_progress (get_ref s r)" "tp_level s = RUNNING" "pr_level (get_ref s r) \<in> {RUNNING, STOPPING}"
proof -
  let ?rest = "completions (take n (tp_posted s) @ drop (Suc n) (tp_posted s))"
  have "mset (completions (tp_posted s)) = {#(it, err, w)#} + mset ?rest"
    using completions_take_nth [OF assms(2)] assms(3) by simp
  then have "mset (map report (tp_ran s)) = {#(it, err, w)#} + mset ?rest + mset (tp_delivered s)"
    using assms(1) by (simp add: pool_inv_def delivery_ok_def)
  then have "image_mset fst (mset (map report (tp_ran s))) = image_mset fst ({#(it, err, w)#} + mset ?rest + mset (tp_delivered s))"
    by (rule arg_cong)
  then have ran: "mset (tp_ran s) = {#it#} + mset (map fst ?rest) + mset (map fst (tp_delivered s))"
    by (simp add: report_def multiset.map_comp comp_def)
  have "it \<in># mset (tp_ran s)"
    using ran by simp
  then have acc: "it \<in> set (tp_accepted s)"
    using assms(1) by (auto simp: pool_inv_def queue_ok_def)
  then show r: "r < length (tp_refs s)"
    using assms(1,4) by (auto simp: pool_inv_def refs_ok_def)
  have "size (filter_mset (of_ref r) (mset (tp_ran s))) \<ge> 1 + size (filter_mset (of_ref r) (mset (map fst (tp_delivered s))))"
    unfolding ran using assms(4) by (simp add: of_ref_def)
  then have "1 + length (filter (of_ref r) (map fst (tp_delivered s))) \<le> length (filter (of_ref r) (tp_ran s))"
    unfolding mset_filter [symmetric] size_mset .
  also have "\<dots> \<le> length (filter (of_ref r) (tp_accepted s))"
    using assms(1) by (simp add: pool_inv_def queue_ok_def)
  finally show less: "length (filter (of_ref r) (map fst (tp_delivered s))) < length (filter (of_ref r) (tp_accepted s))"
    by simp
  have ok: "ref_ok s r"
    using assms(1) r by (simp add: pool_inv_def refs_ok_def)
  then show pos: "0 < pr_items_in_progress (get_ref s r)"
    using less by (simp add: ref_ok_def word_less_nat_alt)
  then show "tp_level s = RUNNING" "pr_level (get_ref s r) \<in> {RUNNING, STOPPING}"
    using ok by (auto simp: ref_ok_def)
qed

definition delivered_state :: "nat \<Rightarrow> item \<Rightarrow> error_code \<Rightarrow> string \<Rightarrow> thread_pool \<Rightarrow> thread_pool" where
  "delivered_state n it err w s = (let s = take_call n s;
     s = (case it_ref it of None \<Rightarrow> s
       | Some r \<Rightarrow> set_ref r ((get_ref s r)\<lparr>pr_items_in_progress := pr_items_in_progress (get_ref s r) - 1,
            pr_items_completed := pr_items_completed (get_ref s r) + 1\<rparr>) s)
     in s\<lparr>tp_delivered := tp_delivered s @ [(it, err, w)]\<rparr>)"

lemma delivered_state_sel [simp]:
  "tp_level (delivered_state n it err w s) = tp_level s" "length (tp_refs (delivered_state n it err w s)) = length (tp_refs s)"
  "tp_accepted (delivered_state n it err w s) = tp_accepted s" "tp_ran (delivered_state n it err w s) = tp_ran s"
  "tp_delivered (delivered_state n it err w s) = tp_delivered s @ [(it, err, w)]" "tp_queue (delivered_state n it err w s) = tp_queue s"
  "tp_posted (delivered_state n it err w s) = take n (tp_posted s) @ drop (Suc n) (tp_posted s)"
  "tp_worker (delivered_state n it err w s) = tp_worker s" "tp_finished (delivered_state n it err w s) = tp_finished s"
  "tp_pimpl (delivered_state n it err w s) = tp_pimpl s" "tp_items_in_progress (delivered_state n it err w s) = tp_items_in_progress s"
  "tp_items_completed (delivered_state n it err w s) = tp_items_completed s"
  by (simp_all add: delivered_state_def take_call_def Let_def split: option.split)

lemma delivered_state_get_ref:
  "r < length (tp_refs s) \<Longrightarrow> get_ref (delivered_state n it err w s) r =
     (if of_ref r it then (get_ref s r)\<lparr>pr_items_in_progress := pr_items_in_progress (get_ref s r) - 1,
            pr_items_completed := pr_items_completed (get_ref s r) + 1\<rparr> else get_ref s r)"
  by (auto simp: delivered_state_def take_call_def of_ref_def nth_list_update Let_def split: option.split)

lemma delivered_state_frame:
  "queue_ok (delivered_state n it err w s) = queue_ok s" "worker_ok (delivered_state n it err w s) = worker_ok s"
  by (simp_all only: queue_ok_def worker_ok_def delivered_state_sel)

lemma delivered_state_parts:
  assumes "pool_inv s" "n < length (tp_posted s)" "tp_posted s ! n = Completion it err w"
  shows "queue_ok (delivered_state n it err w s)" "worker_ok (delivered_state n it err w s)"
    "level_ok (delivered_state n it err w s)" "delivery_ok (delivered_state n it err w s)"
proof -
  show "queue_ok (delivered_state n it err w s)" "worker_ok (delivered_state n it err w s)"
    using assms(1) by (simp_all add: delivered_state_frame pool_inv_def)
  have "count_list (take n (tp_posted s) @ drop (Suc n) (tp_posted s)) NotifyThreadCompleted = count_list (tp_posted s) NotifyThreadCompleted"
    using count_list_take_nth [OF assms(2), of NotifyThreadCompleted] assms(3) by simp
  then have "level_ok (delivered_state n it err w s) = level_ok s"
    by (simp only: level_ok_def delivered_state_sel)
  then show "level_ok (delivered_state n it err w s)"
    using assms(1) by (simp add: pool_inv_def)
  have "mset (completions (tp_posted s)) = {#(it, err, w)#} + mset (completions (take n (tp_posted s) @ drop (Suc n) (tp_posted s)))"
    using completions_take_nth [OF assms(2)] assms(3) by simp
  then show "delivery_ok (delivered_state n it err w s)"
    using assms(1) unfolding pool_inv_def delivery_ok_def delivered_state_sel by (simp add: ac_simps)
qed

lemma delivered_state_ok:
  assumes "pool_inv s" "n < length (tp_posted s)" "tp_posted s ! n = Completion it err w"
  shows "pool_inv (delivered_state n it err w s)"
proof -
  let ?s = "delivered_state n it err w s"
  have "ref_ok ?s r" if r: "r < length (tp_refs s)" for r
  proof (cases "of_ref r it")
    case False
    then show ?thesis
      using assms(1) r by (simp add: pool_inv_def refs_ok_def ref_ok_def delivered_state_get_ref)
  next
    case True
    have u: "0 < pr_items_in_progress (get_ref s r)" "tp_level s = RUNNING" "pr_level (get_ref s r) \<in> {RUNNING, STOPPING}"
      using undelivered [OF assms] True by (simp_all add: of_ref_def)
    have "ref_ok s r" "0 < unat (pr_items_in_progress (get_ref s r))"
      using assms(1) r u(1) by (simp_all add: pool_inv_def refs_ok_def word_less_nat_alt)
    then show ?thesis
      using True r u unat_minus_1 [OF u(1)] by (auto simp: ref_ok_def delivered_state_get_ref)
  qed
  then have "refs_ok ?s"
    using assms(1) by (simp add: pool_inv_def refs_ok_def)
  then show ?thesis
    using delivered_state_parts [OF assms] by (simp add: pool_inv_def)
qed

lemma delivered_state_allowed: "pool_op_allowed s p \<Longrightarrow> pool_op_allowed (delivered_state n it err w s) p"
  by (cases p) (auto simp: delivered_state_get_ref)

lemma call_completion_eq:
  assumes "pool_inv s" "n < length (tp_posted s)" "tp_posted s ! n = Completion it err w"
  shows "call_completion ops it err w (take_call n s) = bind_res (fold_res do_pool_op ops (delivered_state n it err w s))
     (case it_ref it of None \<Rightarrow> Inr | Some r \<Rightarrow> CheckStopped r)"
proof (cases "it_ref it")
  case None
  then show ?thesis
    by (simp add: call_completion_def delivered_state_def Let_def bind_res_def split: sum.split)
next
  case (Some r)
  then show ?thesis
    using undelivered(1,3) [OF assms Some] by (simp add: call_completion_def delivered_state_def check_def Let_def)
qed

lemma set_ref_sel:
  "tp_level (set_ref r x s) = tp_level s" "tp_pimpl (set_ref r x s) = tp_pimpl s" "tp_finished (set_ref r x s) = tp_finished s"
  "tp_queue (set_ref r x s) = tp_queue s" "tp_worker (set_ref r x s) = tp_worker s" "tp_posted (set_ref r x s) = tp_posted s"
  "tp_accepted (set_ref r x s) = tp_accepted s" "tp_ran (set_ref r x s) = tp_ran s" "tp_delivered (set_ref r x s) = tp_delivered s"
  "tp_items_in_progress (set_ref r x s) = tp_items_in_progress s" "tp_items_completed (set_ref r x s) = tp_items_completed s"
  by simp_all

lemma set_ref_parts:
  "queue_ok (set_ref r x s) = queue_ok s" "worker_ok (set_ref r x s) = worker_ok s"
  "level_ok (set_ref r x s) = level_ok s" "delivery_ok (set_ref r x s) = delivery_ok s"
  by (simp_all only: queue_ok_def worker_ok_def level_ok_def delivery_ok_def set_ref_sel)

lemma CheckStopped_ok:
  assumes "pool_inv s" "r < length (tp_refs s)" "\<And>i. i < length (tp_refs s) \<Longrightarrow> i \<noteq> r \<Longrightarrow> busy_if_stopping i s"
  shows "\<exists>s'. CheckStopped r s = Inr s' \<and> pool_ok s' \<and> tp_accepted s' = tp_accepted s"
proof (cases "pr_level (get_ref s r) = STOPPING \<and> pr_items_in_progress (get_ref s r) = 0")
  case False
  then have "busy_if_stopping i s" if "i < length (tp_refs s)" for i
    using assms(3) that by (cases "i = r") (auto simp: busy_if_stopping_def)
  then show ?thesis
    using False assms(1) by (auto simp: CheckStopped_def pool_ok_def)
next
  case True
  let ?s = "set_ref r ((get_ref s r)\<lparr>pr_level := STOPPED\<rparr>) s"
  have "ref_ok ?s i" if "i < length (tp_refs s)" for i
    using assms(1) that True by (cases "i = r") (auto simp: pool_inv_def refs_ok_def ref_ok_def)
  then have "pool_inv ?s"
    using assms(1) by (simp add: pool_inv_def set_ref_parts refs_ok_def)
  moreover have "busy_if_stopping i ?s" if "i < length (tp_refs s)" for i
    using assms(2,3) that by (cases "i = r") (auto simp: busy_if_stopping_def)
  ultimately show ?thesis
    using True by (auto simp: CheckStopped_def level_NotifyStopped_def pool_ok_def)
qed

lemma completion_ok:
  assumes "pool_ok s" "n < length (tp_posted s)" "tp_posted s ! n = Completion it err w"
    and "list_all (pool_op_allowed s) ops" "length (tp_accepted s) + length ops < 2 ^ 64"
  shows "\<exists>s'. call_completion ops it err w (take_call n s) = Inr s' \<and> pool_ok s'
    \<and> length (tp_accepted s') = length (tp_accepted s) + length ops"
proof -
  let ?s = "delivered_state n it err w s"
  have inv: "pool_inv s" and busy: "\<And>i. i < length (tp_refs s) \<Longrightarrow> busy_if_stopping i s"
    using assms(1) by (simp_all add: pool_ok_def)
  have "list_all (pool_op_allowed ?s) ops"
    using assms(4) by (auto simp: list_all_iff delivered_state_allowed)
  then obtain s2 where s2: "fold_res do_pool_op ops ?s = Inr s2" "pool_inv s2" "same_levels ?s s2"
      "length (tp_accepted s2) = length (tp_accepted s) + length ops"
    using do_pool_ops_ok [OF delivered_state_ok [OF inv assms(2,3)], of ops] assms(5) by auto
  have len: "length (tp_refs s2) = length (tp_refs s)"
    using s2(3) by (simp add: same_levels_def)
  have busy2: "busy_if_stopping i s2" if "i < length (tp_refs s)" "\<not> of_ref i it" for i
    by (rule same_levels_busy [OF s2(3)]) (use that busy in \<open>simp_all add: busy_if_stopping_def delivered_state_get_ref\<close>)
  show ?thesis
  proof (cases "it_ref it")
    case None
    then show ?thesis
      using call_completion_eq [OF inv assms(2,3), of ops] s2 busy2 len by (simp add: pool_ok_def of_ref_def)
  next
    case (Some r)
    then have "r < length (tp_refs s2)" "\<And>i. i < length (tp_refs s2) \<Longrightarrow> i \<noteq> r \<Longrightarrow> busy_if_stopping i s2"
      using undelivered(1) [OF inv assms(2,3) Some] busy2 len by (simp_all add: of_ref_def)
    from CheckStopped_ok [OF s2(2) this] obtain s3 where
      "CheckStopped r s2 = Inr s3" "pool_ok s3" "tp_accepted s3 = tp_accepted s2"
      by blast
    then show ?thesis
      using call_completion_eq [OF inv assms(2,3), of ops] s2 Some by simp
  qed
qed

subsection \<open>Every event\<close>

fun event_posts :: "pool_event \<Rightarrow> nat" where
  "event_posts (ClientPost _) = 1"
| "event_posts (ProactorCall _ ops) = length ops"
| "event_posts _ = 0"

lemma PoolStarting_ok:
  assumes "pool_ok s" "tp_level s = CONSTRUCTED"
  shows "\<exists>s'. do_pool_event PoolStarting s = Inr s' \<and> pool_ok s' \<and> tp_accepted s' = tp_accepted s"
proof -
  have "queue_ok s" "tp_worker s = NoThread" "tp_accepted s = []"
    using assms by (simp_all add: pool_ok_def pool_inv_def worker_ok_def)
  then have "tp_worker s = NoThread" "tp_accepted s = []" "tp_ran s = []"
    by (simp_all add: queue_ok_def)
  then show ?thesis
    using assms
    by (simp add: ThreadPool_HandleStarting_def level_NotifyStarted_def pool_ok_def pool_inv_def queue_ok_def worker_ok_def
        level_ok_def delivery_ok_def refs_ok_def ref_ok_def busy_if_stopping_def)
qed

lemma PoolStopping_ok:
  assumes "pool_ok s" "tp_level s = RUNNING" "list_all (\<lambda>x. pr_level x = STOPPED) (tp_refs s)"
  shows "\<exists>s'. do_pool_event PoolStopping s = Inr s' \<and> pool_ok s' \<and> tp_accepted s' = tp_accepted s"
proof -
  let ?u = "s\<lparr>tp_level := STOPPING, tp_finished := True\<rparr>"
  have parts: "queue_ok s" "worker_ok s" "level_ok s" "delivery_ok s" "refs_ok s"
    using assms(1) by (simp_all add: pool_ok_def pool_inv_def)
  have stopped: "pr_level (get_ref s r) = STOPPED" if "r < length (tp_refs s)" for r
    using assms(3) that by (simp add: list_all_length)
  have "refs_ok (notify_all ?u)" "\<forall>r < length (tp_refs s). busy_if_stopping r (notify_all ?u)"
    using parts(5) stopped by (auto simp: refs_ok_def ref_ok_def busy_if_stopping_def)
  moreover have "queue_ok (notify_all ?u)"
    by (rule notify_all_parts) (use parts(1) in \<open>simp add: queue_ok_def\<close>)
  moreover have "worker_ok (notify_all ?u)"
    using parts(2) assms(2) by (auto simp: worker_ok_def)
  moreover have "delivery_ok (notify_all ?u)"
    using parts(4) by (simp add: delivery_ok_def)
  moreover have "level_ok (notify_all ?u)"
    using parts(2,3) assms(2) by (auto simp: level_ok_def worker_ok_def)
  ultimately show ?thesis
    using parts(3) assms(2)
    by (auto simp: ThreadPool_HandleStopping_def Pimpl_HandleStopping_def level_ok_def pool_ok_def pool_inv_def)
qed

lemma RefStarting_ok:
  assumes "pool_ok s" "pool_allowed (RefStarting r) s"
  shows "\<exists>s'. do_pool_event (RefStarting r) s = Inr s' \<and> pool_ok s' \<and> tp_accepted s' = tp_accepted s"
proof -
  let ?s = "set_ref r ((get_ref s r)\<lparr>pr_level := RUNNING\<rparr>) s"
  have refs: "refs_ok s" "r < length (tp_refs s)" "pr_level (get_ref s r) = CONSTRUCTED" "tp_level s = RUNNING"
    using assms by (simp_all add: pool_ok_def pool_inv_def)
  have zero: "pr_items_in_progress (get_ref s r) = 0"
    using refs by (simp add: refs_ok_def ref_ok_def)
  have "ref_ok ?s i" if "i < length (tp_refs s)" for i
    using refs that by (cases "i = r") (auto simp: refs_ok_def ref_ok_def)
  then have "refs_ok ?s"
    using refs by (simp add: refs_ok_def)
  moreover have "busy_if_stopping i ?s" if "i < length (tp_refs s)" for i
    using assms(1) that by (cases "i = r") (auto simp: pool_ok_def busy_if_stopping_def)
  ultimately show ?thesis
    using assms(1) refs(2) zero
    by (simp add: ThreadPoolRef_HandleStarting_def level_NotifyStarted_def pool_ok_def pool_inv_def set_ref_parts)
qed

lemma RefStopping_ok:
  assumes "pool_ok s" "pool_allowed (RefStopping r) s"
  shows "\<exists>s'. do_pool_event (RefStopping r) s = Inr s' \<and> pool_ok s' \<and> tp_accepted s' = tp_accepted s"
proof -
  let ?s = "set_ref r ((get_ref s r)\<lparr>pr_level := STOPPING\<rparr>) s"
  have refs: "refs_ok s" "r < length (tp_refs s)" "pr_level (get_ref s r) = RUNNING"
    using assms by (simp_all add: pool_ok_def pool_inv_def)
  have "ref_ok ?s i" if "i < length (tp_refs s)" for i
    using refs that by (cases "i = r") (auto simp: refs_ok_def ref_ok_def)
  then have "pool_inv ?s"
    using assms(1) refs by (simp add: pool_ok_def pool_inv_def set_ref_parts refs_ok_def)
  moreover have "busy_if_stopping i ?s" if "i < length (tp_refs ?s)" "i \<noteq> r" for i
    using assms(1) that by (auto simp: pool_ok_def busy_if_stopping_def)
  ultimately show ?thesis
    using CheckStopped_ok [of ?s r] refs(2) by simp
qed

lemma thread_completed_ok:
  assumes "pool_ok s" "n < length (tp_posted s)" "tp_posted s ! n = NotifyThreadCompleted"
  shows "\<exists>s'. ThreadPool_NotifyThreadCompleted (take_call n s) = Inr s' \<and> pool_ok s' \<and> tp_accepted s' = tp_accepted s"
proof -
  have parts: "queue_ok s" "worker_ok s" "level_ok s" "delivery_ok s" "refs_ok s"
    using assms(1) by (simp_all add: pool_ok_def pool_inv_def)
  let ?s = "(take_call n s)\<lparr>tp_pimpl := False, tp_level := STOPPED\<rparr>"
  note count = count_list_take_nth [OF assms(2), of NotifyThreadCompleted]
  have fin: "tp_worker s = Finished" "tp_level s = STOPPING"
      "count_list (take n (tp_posted s) @ drop (Suc n) (tp_posted s)) NotifyThreadCompleted = 0"
    using parts(3) count assms(3) by (auto simp: level_ok_def split: if_splits)
  then have "level_ok ?s"
    using parts(3) by (simp add: level_ok_def take_call_def)
  moreover have "delivery_ok ?s"
    using parts(4) completions_take_nth [OF assms(2)] assms(3) by (simp add: delivery_ok_def take_call_def)
  moreover have "queue_ok ?s" "worker_ok ?s"
    using parts(1,2) fin(1,2) by (simp_all add: queue_ok_def worker_ok_def take_call_def)
  moreover have "refs_ok ?s"
    using parts(5) fin(2) by (auto simp: refs_ok_def ref_ok_def take_call_def)
  moreover have "\<forall>r < length (tp_refs s). busy_if_stopping r ?s"
    using assms(1) by (simp add: pool_ok_def busy_if_stopping_def)
  ultimately show ?thesis
    using fin(2) by (simp add: ThreadPool_NotifyThreadCompleted_def level_NotifyStopped_def pool_ok_def pool_inv_def)
qed

lemma ClientPost_ok:
  assumes "pool_ok s" "pool_op_allowed s p" "length (tp_accepted s) + 1 < 2 ^ 64"
  shows "\<exists>s'. do_pool_op p s = Inr s' \<and> pool_ok s' \<and> length (tp_accepted s') = length (tp_accepted s) + 1"
proof -
  have inv: "pool_inv s" and busy: "\<And>r. r < length (tp_refs s) \<Longrightarrow> busy_if_stopping r s"
    using assms(1) by (simp_all add: pool_ok_def)
  from do_pool_ops_ok [OF inv, of "[p]"] obtain s' where
    "do_pool_op p s = Inr s'" "pool_inv s'" "same_levels s s'" "length (tp_accepted s') = length (tp_accepted s) + 1"
    using assms(2,3) by (auto simp: bind_res_eq_Inr)
  then show ?thesis
    using busy same_levels_busy by (auto simp: pool_ok_def same_levels_def)
qed

lemma pool_event_ok:
  assumes "pool_ok s" "pool_allowed e s" "length (tp_accepted s) + event_posts e < 2 ^ 64"
  shows "\<exists>s'. do_pool_event e s = Inr s' \<and> pool_ok s' \<and> length (tp_accepted s') = length (tp_accepted s) + event_posts e"
proof (cases e)
  case PoolStarting
  then show ?thesis using PoolStarting_ok [OF assms(1)] assms(2) by force
next
  case PoolStopping
  then show ?thesis using PoolStopping_ok [OF assms(1)] assms(2) by force
next
  case (RefStarting r)
  then show ?thesis using RefStarting_ok [OF assms(1)] assms(2) by force
next
  case (RefStopping r)
  then show ?thesis using RefStopping_ok [OF assms(1)] assms(2) by force
next
  case (ClientPost p)
  then show ?thesis using ClientPost_ok [OF assms(1)] assms(2,3) by simp
next
  case WorkerStep
  then show ?thesis using ThreadFunc_ok [OF assms(1)] by simp
next
  case SpuriousWakeUp
  then show ?thesis using notify_all_ok [OF assms(1)] by simp
next
  case (ProactorCall n ops)
  then have n: "n < length (tp_posted s)" and ops: "list_all (pool_op_allowed s) ops"
    using assms(2) by simp_all
  show ?thesis
  proof (cases "tp_posted s ! n")
    case (Completion it err w)
    then show ?thesis
      using completion_ok [OF assms(1) n Completion ops] assms(3) ProactorCall by simp
  next
    case NotifyThreadCompleted
    then show ?thesis
      using thread_completed_ok [OF assms(1) n NotifyThreadCompleted] ProactorCall assms(2) by force
  qed
qed

lemma pool_op_posts: "do_pool_op p s = Inr s' \<Longrightarrow> length (tp_accepted s') = length (tp_accepted s) + 1"
  by (cases p) (auto simp: RunOnThread_def ThreadPool_Post_def Pimpl_Post_def check_def split: if_splits)

lemma pool_ops_posts: "fold_res do_pool_op ops s = Inr s' \<Longrightarrow> length (tp_accepted s') = length (tp_accepted s) + length ops"
  by (induction ops arbitrary: s) (fastforce simp: bind_res_eq_Inr dest: pool_op_posts)+

lemma CheckStopped_accepted: "CheckStopped r s = Inr s' \<Longrightarrow> tp_accepted s' = tp_accepted s"
  by (auto simp: CheckStopped_def bind_res_eq_Inr split: if_splits)

lemma completion_posts:
  "call_completion ops it err w s = Inr s' \<Longrightarrow> length (tp_accepted s') = length (tp_accepted s) + length ops"
  by (auto simp: call_completion_def check_def Let_def bind_res_eq_Inr dest!: pool_ops_posts CheckStopped_accepted
      split: option.splits if_splits)

lemma pool_event_posts:
  assumes "do_pool_event e s = Inr s'" "pool_allowed e s"
  shows "length (tp_accepted s') = length (tp_accepted s) + event_posts e"
proof (cases e)
  case (ClientPost p)
  then show ?thesis using assms pool_op_posts by fastforce
next
  case (ProactorCall n ops)
  then show ?thesis
    using assms completion_posts [of ops]
    by (fastforce simp: ThreadPool_NotifyThreadCompleted_def bind_res_eq_Inr split: posted_call.splits)
qed (use assms in \<open>auto simp: ThreadPool_HandleStarting_def ThreadPool_HandleStopping_def Pimpl_HandleStopping_def check_def
    ThreadPoolRef_HandleStarting_def bind_res_eq_Inr dest!: CheckStopped_accepted split: if_splits\<close>)

lemma pool_reachable_ok: "pool_reachable n s \<Longrightarrow> length (tp_accepted s) < 2 ^ 64 \<Longrightarrow> pool_ok s"
proof (induction rule: pool_reachable.induct)
  case pool_init
  then show ?case by (simp add: pool_ok_init)
next
  case (pool_step s e s')
  note posts = pool_event_posts [OF pool_step.hyps(3,2)]
  then have "pool_ok s"
    using pool_step by simp
  then show ?case
    using pool_event_ok [OF _ pool_step.hyps(2)] pool_step.hyps(3) pool_step.prems posts by fastforce
qed

subsection \<open>Properties\<close>

text \<open>
  In every interleaving of the proactor's and the worker's threads, no assertion of
  \<open>ThreadPool.cpp\<close> or \<open>ThreadPoolRef.cpp\<close> fails and \<open>m_pimpl\<close> is never used when it is null, as long
  as fewer than 2^64 functions are posted: the counters of the references never underflow and
  every reference and the pool report their stop once.
\<close>

theorem ThreadPool_no_fault:
  assumes "pool_reachable n s" "pool_allowed e s" "length (tp_accepted s) + event_posts e < 2 ^ 64"
  shows "\<exists>s'. do_pool_event e s = Inr s'"
  using pool_event_ok [OF pool_reachable_ok [OF assms(1)] assms(2,3)] assms(3) by auto

definition outstanding :: "nat \<Rightarrow> thread_pool \<Rightarrow> nat" where
  "outstanding r s = length (filter (of_ref r) (tp_accepted s)) - length (filter (of_ref r) (map fst (tp_delivered s)))"

text \<open>
  C9: The thread pool runs every function exactly once and in the order in which they were
  posted, and calls each completion handler exactly once with what its function did: at any
  point what was accepted is what was run, the function that is running and the queue, and the
  results of what was run are delivered or still posted to the proactor. A worker waits only
  when the queue is empty, a pool that has stopped has run everything, and a reference counts
  exactly its functions that are not delivered and has stopped only when there are none, so no
  completion handler uses a reference that is gone.
\<close>

theorem ThreadPool_exactly_once:
  assumes "pool_reachable n s" "length (tp_accepted s) < 2 ^ 64"
  shows "tp_accepted s = tp_ran s @ worker_item (tp_worker s) @ tp_queue s
    \<and> mset (completions (tp_posted s)) + mset (tp_delivered s) = mset (map report (tp_ran s))
    \<and> (tp_worker s \<noteq> InWait \<or> tp_queue s = []) \<and> (tp_level s \<noteq> STOPPED \<or> tp_ran s = tp_accepted s)
    \<and> list_all (\<lambda>r. unat (pr_items_in_progress (get_ref s r)) = outstanding r s
        \<and> (pr_level (get_ref s r) \<noteq> STOPPED \<or> outstanding r s = 0)) [0..<length (tp_refs s)]"
proof -
  have ok: "queue_ok s" "worker_ok s" "level_ok s" "delivery_ok s" "refs_ok s"
    using pool_reachable_ok [OF assms] by (simp_all add: pool_ok_def pool_inv_def)
  have "unat (pr_items_in_progress (get_ref s r)) = outstanding r s
        \<and> (pr_level (get_ref s r) \<noteq> STOPPED \<or> outstanding r s = 0)" if "r < length (tp_refs s)" for r
  proof -
    have "ref_ok s r"
      using ok(5) that by (simp add: refs_ok_def)
    then have "unat (pr_items_in_progress (get_ref s r)) = outstanding r s"
        "pr_level (get_ref s r) = STOPPED \<longrightarrow> pr_items_in_progress (get_ref s r) = 0"
      unfolding ref_ok_def outstanding_def by linarith+
    then show ?thesis
      by (metis unat_0)
  qed
  moreover have "tp_level s \<noteq> STOPPED \<or> tp_ran s = tp_accepted s"
    using ok(1-3) by (auto simp: queue_ok_def worker_ok_def level_ok_def)
  ultimately show ?thesis
    using ok(1,2,4) by (auto simp: queue_ok_def worker_ok_def delivery_ok_def list_all_iff)
qed

text \<open>How many steps the worker can make until it waits or ends.\<close>

definition worker_rank :: "thread_pool \<Rightarrow> nat" where
  "worker_rank s = (case tp_worker s of NoThread \<Rightarrow> 0 | InWait \<Rightarrow> 0 | Finished \<Rightarrow> 0 | AtExit \<Rightarrow> 1
     | AtLock \<Rightarrow> 3 * length (tp_queue s) + 2 | AtCount \<Rightarrow> 3 * length (tp_queue s) + 3 | Running _ \<Rightarrow> 3 * length (tp_queue s) + 4)"

lemma worker_rank_step: "worker_rank (ThreadFunc s) \<le> worker_rank s - 1"
  by (auto simp: worker_rank_def ThreadFunc_def split: worker.split list.split)

lemma worker_rank_steps: "worker_rank ((ThreadFunc ^^ k) s) \<le> worker_rank s - k"
proof (induction k)
  case 0
  then show ?case by simp
next
  case (Suc k)
  then show ?case
    using worker_rank_step [of "(ThreadFunc ^^ k) s"] by simp
qed

lemma ThreadFunc_steps:
  "pool_ok s \<Longrightarrow> pool_ok ((ThreadFunc ^^ k) s) \<and> tp_level ((ThreadFunc ^^ k) s) = tp_level s
     \<and> tp_accepted ((ThreadFunc ^^ k) s) = tp_accepted s"
  by (induction k) (simp_all add: ThreadFunc_ok)

text \<open>
  C19: The worker never misses a notification and always finishes: from any reachable state of a
  started pool, within three steps for each queued function and four more, and without any
  further notification, it has run everything that was posted; then it waits, or, if the pool
  is stopping, it has ended and \<open>NotifyThreadCompleted\<close> is posted, so that the stop completes.
\<close>

theorem ThreadPool_drains:
  assumes "pool_reachable n s" "length (tp_accepted s) < 2 ^ 64" "tp_level s \<in> {RUNNING, STOPPING}"
    and "k = 3 * length (tp_queue s) + 4"
  shows "tp_ran ((ThreadFunc ^^ k) s) = tp_accepted s \<and> tp_queue ((ThreadFunc ^^ k) s) = []
    \<and> tp_worker ((ThreadFunc ^^ k) s) = (if tp_level s = STOPPING then Finished else InWait)
    \<and> (NotifyThreadCompleted \<in> set (tp_posted ((ThreadFunc ^^ k) s))) = (tp_level s = STOPPING)"
proof -
  let ?t = "(ThreadFunc ^^ k) s"
  have t: "queue_ok ?t" "worker_ok ?t" "level_ok ?t" "tp_level ?t = tp_level s" "tp_accepted ?t = tp_accepted s"
    using ThreadFunc_steps [OF pool_reachable_ok [OF assms(1,2)], of k] by (simp_all add: pool_ok_def pool_inv_def)
  have "worker_rank s \<le> k"
    using assms(4) by (auto simp: worker_rank_def split: worker.split)
  then have "worker_rank ?t = 0"
    using worker_rank_steps [of k s] by simp
  moreover have "tp_worker ?t \<noteq> NoThread"
    using t(2,4) assms(3) by (auto simp: worker_ok_def)
  ultimately consider "tp_worker ?t = InWait" | "tp_worker ?t = Finished"
    by (auto simp: worker_rank_def split: worker.splits)
  then show ?thesis
    using t assms(3) count_list_0_iff [of "tp_posted ?t" NotifyThreadCompleted]
    by cases (auto simp: queue_ok_def worker_ok_def level_ok_def split: if_splits)
qed

text \<open>A concrete run.\<close>

fun pool_play :: "pool_event list \<Rightarrow> thread_pool \<Rightarrow> thread_pool option" where
  "pool_play [] s = Some s"
| "pool_play (e # es) s =
     (if pool_allowed e s then (case do_pool_event e s of Inr s' \<Rightarrow> pool_play es s' | Inl _ \<Rightarrow> None) else None)"

lemma pool_play_reachable: "pool_reachable n s \<Longrightarrow> pool_play es s = Some s' \<Longrightarrow> pool_reachable n s'"
  by (induction es arbitrary: s) (fastforce dest: pool_step split: if_splits sum.splits)+

definition example_item :: item where
  "example_item = \<lparr>it_id = 7, it_outcome = ThrowsOther, it_ref = Some 0\<rparr>"

definition example_pool :: thread_pool where
  "example_pool = \<lparr>tp_level = RUNNING, tp_pimpl = True, tp_queue = [], tp_finished = False,
     tp_items_in_progress = 0, tp_items_completed = 1, tp_worker = InWait,
     tp_posted = [Completion example_item (Error_errc errc_interrupted) ''Unknown C++ exception occured''],
     tp_refs = [\<lparr>pr_level = STOPPING, pr_items_in_progress = 1, pr_items_completed = 0\<rparr>],
     tp_accepted = [example_item], tp_ran = [example_item], tp_delivered = []\<rparr>"

lemma example_pool_reachable: "pool_reachable 1 example_pool"
proof -
  have "pool_play [PoolStarting, WorkerStep, RefStarting 0, ClientPost (ViaRef 0 7 ThrowsOther), WorkerStep, RefStopping 0,
      WorkerStep, WorkerStep, WorkerStep] (ThreadPool 1) = Some example_pool"
    by (simp add: ThreadPool_def ThreadPoolRef_def example_pool_def example_item_def ThreadPool_HandleStarting_def
        level_NotifyStarted_def ThreadFunc_def ThreadPoolRef_HandleStarting_def check_def RunOnThread_def ThreadPool_Post_def
        Pimpl_Post_def notify_all_def CheckStopped_def RunItem_def)
  then show ?thesis
    by (rule pool_play_reachable [OF pool_init])
qed

theorem ThreadPool_no_fault_witness:
  "\<exists>s'. do_pool_event (ProactorCall 0 []) example_pool = Inr s' \<and> pr_level (get_ref s' 0) = STOPPED"
  using ThreadPool_no_fault [OF example_pool_reachable, of "ProactorCall 0 []"]
  by (simp add: example_pool_def example_item_def call_completion_def take_call_def check_def CheckStopped_def level_NotifyStopped_def)

theorem ThreadPool_exactly_once_witness:
  "tp_ran example_pool = [example_item] \<and> outstanding 0 example_pool = 1 \<and> tp_accepted example_pool = [example_item]"
  using ThreadPool_exactly_once [OF example_pool_reachable]
  by (simp add: example_pool_def example_item_def outstanding_def of_ref_def)

theorem ThreadPool_drains_witness:
  "tp_worker ((ThreadFunc ^^ 4) example_pool) = InWait \<and> tp_ran ((ThreadFunc ^^ 4) example_pool) = [example_item]"
  using ThreadPool_drains [OF example_pool_reachable, of 4] by (simp add: example_pool_def)

end
