(* ===== verification/HttpDispatch.thy ===== *)
theory HttpDispatch
  imports HttpConnection
begin

section \<open>Registered request handlers\<close>

text \<open>
  \<open>BBoxHttp/bbox/http/server/RequestHandler.cpp\<close> and the dispatch of \<open>HttpServer.cpp\<close>: handlers
  log in with a path prefix and a request goes to the first handler, in the order of the
  server's set, whose prefix its path has. A handler is a number, \<open>hd_table\<close> its object, and
  \<open>hd_set\<close> the set \<open>m_request_handlers\<close> in its order.
\<close>

record request_handler =
  rh_is_logged_in :: bool
  rh_prefix :: string
  rh_handler_func :: "nat option"

record dispatcher =
  hd_server_level :: run_level
  hd_table :: "nat \<Rightarrow> request_handler"
  hd_set :: "nat list"
  hd_num_requests_received :: u64

definition RequestHandler :: request_handler where
  "RequestHandler = \<lparr>rh_is_logged_in = False, rh_prefix = [], rh_handler_func = None\<rparr>"

definition new_dispatcher :: "run_level \<Rightarrow> dispatcher" where
  "new_dispatcher level =
     \<lparr>hd_server_level = level, hd_table = (\<lambda>_. RequestHandler), hd_set = [], hd_num_requests_received = 0\<rparr>"

definition RequestHandlerOrder :: "string \<Rightarrow> string \<Rightarrow> bool" where
  "RequestHandlerOrder a b =
     (if length a > length b then True else if length a < length b then False else a < b)"

text \<open>\<open>std::set\<close>: insertion and erasure by the order, equivalent elements being the same.\<close>

fun ordered_insert :: "('a \<Rightarrow> 'a \<Rightarrow> bool) \<Rightarrow> 'a \<Rightarrow> 'a list \<Rightarrow> 'a list \<times> bool" where
  "ordered_insert lt x [] = ([x], True)"
| "ordered_insert lt x (y # ys) =
     (if lt y x then (let (zs, ok) = ordered_insert lt x ys in (y # zs, ok))
      else if lt x y then (x # y # ys, True) else (y # ys, False))"

definition ordered_erase :: "('a \<Rightarrow> 'a \<Rightarrow> bool) \<Rightarrow> 'a \<Rightarrow> 'a list \<Rightarrow> 'a list" where
  "ordered_erase lt x ys = [y \<leftarrow> ys. lt x y \<or> lt y x]"

abbreviation handler_less :: "(nat \<Rightarrow> request_handler) \<Rightarrow> nat \<Rightarrow> nat \<Rightarrow> bool" where
  "handler_less table a b \<equiv> RequestHandlerOrder (rh_prefix (table a)) (rh_prefix (table b))"

definition Login :: "nat \<Rightarrow> string \<Rightarrow> nat \<Rightarrow> dispatcher \<Rightarrow> dispatcher res" where
  "Login h prefix handler d =
     bind_res (check ''!m_is_logged_in'' (\<not> rh_is_logged_in (hd_table d h)) d) (\<lambda>d.
     bind_res (check ''RUNNING'' (hd_server_level d = RUNNING) d) (\<lambda>d.
     let d = d\<lparr>hd_table := (hd_table d)(h := \<lparr>rh_is_logged_in = True, rh_prefix = prefix, rh_handler_func = Some handler\<rparr>)\<rparr>;
         (handlers, inserted) = ordered_insert (handler_less (hd_table d)) h (hd_set d)
     in check ''insert_result.second'' inserted (d\<lparr>hd_set := handlers\<rparr>)))"

definition Logout :: "nat \<Rightarrow> dispatcher \<Rightarrow> dispatcher res" where
  "Logout h d =
     bind_res (check ''m_is_logged_in'' (rh_is_logged_in (hd_table d h)) d) (\<lambda>d.
     let handlers = ordered_erase (handler_less (hd_table d)) h (hd_set d);
         erase_count = length (hd_set d) - length handlers
     in bind_res (check ''erase_count == 1'' (erase_count = 1) (d\<lparr>hd_set := handlers\<rparr>)) (\<lambda>d.
          Inr (d\<lparr>hd_table := (hd_table d)(h := RequestHandler)\<rparr>)))"

text \<open>\<open>HandleStopping\<close> of a handler: its owner must have logged it out.\<close>

definition RequestHandler_HandleStopping :: "nat \<Rightarrow> dispatcher \<Rightarrow> dispatcher res" where
  "RequestHandler_HandleStopping h d = check ''!m_is_logged_in'' (\<not> rh_is_logged_in (hd_table d h)) d"

datatype target = ToHandler nat "nat option" | ToServerHandler | Unhandled

definition has_prefix :: "string \<Rightarrow> string \<Rightarrow> bool" where
  "has_prefix resource prefix \<longleftrightarrow> length resource \<ge> length prefix \<and> take (length prefix) resource = prefix"

fun first_handler :: "(nat \<Rightarrow> request_handler) \<Rightarrow> nat list \<Rightarrow> string \<Rightarrow> nat option" where
  "first_handler table [] resource = None"
| "first_handler table (h # hs) resource =
     (if has_prefix resource (rh_prefix (table h)) then Some h else first_handler table hs resource)"

definition HandleRequest :: "bool \<Rightarrow> string \<Rightarrow> dispatcher \<Rightarrow> dispatcher \<times> target" where
  "HandleRequest server_handler resource d =
     (let d = d\<lparr>hd_num_requests_received := hd_num_requests_received d + 1\<rparr>
      in (d, case first_handler (hd_table d) (hd_set d) resource of
           Some h \<Rightarrow> ToHandler h (rh_handler_func (hd_table d h))
         | None \<Rightarrow> if server_handler then ToServerHandler else Unhandled))"

subsection \<open>The order of the handlers\<close>

lemma RequestHandlerOrder_trans: "RequestHandlerOrder a b \<Longrightarrow> RequestHandlerOrder b c \<Longrightarrow> RequestHandlerOrder a c"
  by (auto simp: RequestHandlerOrder_def split: if_splits)

lemma RequestHandlerOrder_irrefl [simp]: "\<not> RequestHandlerOrder a a"
  by (simp add: RequestHandlerOrder_def)

lemma RequestHandlerOrder_total: "RequestHandlerOrder a b \<or> RequestHandlerOrder b a \<or> a = b"
  by (auto simp: RequestHandlerOrder_def)

lemma RequestHandlerOrder_length: "RequestHandlerOrder a b \<Longrightarrow> length b \<le> length a"
  by (auto simp: RequestHandlerOrder_def split: if_splits)

subsection \<open>An ordered set\<close>

text \<open>What a strict order must give for a set that is kept in it, whatever the elements' keys.\<close>

locale strict_order =
  fixes lt :: "'k \<Rightarrow> 'k \<Rightarrow> bool"
  assumes irrefl: "\<not> lt a a"
    and trans: "lt a b \<Longrightarrow> lt b c \<Longrightarrow> lt a c"
    and total: "lt a b \<or> lt b a \<or> a = b"
begin

abbreviation by_key :: "('a \<Rightarrow> 'k) \<Rightarrow> 'a \<Rightarrow> 'a \<Rightarrow> bool" where
  "by_key key a b \<equiv> lt (key a) (key b)"

lemma ordered_insert_snd: "sorted_wrt (by_key key) ys \<Longrightarrow> snd (ordered_insert (by_key key) x ys) = (key x \<notin> key ` set ys)"
proof (induction ys)
  case Nil
  then show ?case by simp
next
  case (Cons y ys)
  have below: "key x \<noteq> key z" if "lt (key x) (key y)" "z \<in> set ys" for z
  proof -
    have "lt (key y) (key z)"
      using Cons.prems that(2) by simp
    then show ?thesis
      using that(1) irrefl trans by metis
  qed
  consider "lt (key y) (key x)" | "\<not> lt (key y) (key x)" "lt (key x) (key y)" | "key x = key y"
    using total [of "key y" "key x"] by metis
  then show ?case
  proof cases
    case 1
    then have "key x \<noteq> key y"
      using irrefl by metis
    then show ?thesis
      using Cons 1 by (simp split: prod.split) (metis prod.collapse snd_conv)
  next
    case 2
    then have "key x \<notin> key ` set (y # ys)"
      using below irrefl by auto
    then show ?thesis
      using 2 by simp
  next
    case 3
    then show ?thesis
      using irrefl by simp
  qed
qed

lemma set_set_insert:
  "snd (ordered_insert (by_key key) x ys) \<Longrightarrow> set (fst (ordered_insert (by_key key) x ys)) = insert x (set ys)"
  by (induction ys) (auto split: prod.split if_splits)

lemma ordered_insert_sorted:
  "sorted_wrt (by_key key) ys \<Longrightarrow> snd (ordered_insert (by_key key) x ys) \<Longrightarrow> sorted_wrt (by_key key) (fst (ordered_insert (by_key key) x ys))"
proof (induction ys)
  case Nil
  then show ?case by simp
next
  case (Cons y ys)
  show ?case
  proof (cases "lt (key y) (key x)")
    case True
    obtain zs ok where zs: "ordered_insert (by_key key) x ys = (zs, ok)"
      by fastforce
    then have "sorted_wrt (by_key key) zs" "set zs = insert x (set ys)"
      using Cons True set_set_insert [of key x ys] by auto
    then show ?thesis
      using Cons.prems(1) True zs by simp
  next
    case False
    then have "lt (key x) (key y)"
      using Cons.prems(2) by (auto split: if_splits)
    then show ?thesis
      using Cons.prems(1) False trans by auto
  qed
qed

lemma ordered_erase_sorted: "sorted_wrt (by_key key) ys \<Longrightarrow> sorted_wrt (by_key key) (ordered_erase (by_key key) x ys)"
  by (simp add: ordered_erase_def sorted_wrt_filter)

lemma ordered_erase_keys: "set (ordered_erase (by_key key) x ys) = {y \<in> set ys. key y \<noteq> key x}"
  using total irrefl by (auto simp: ordered_erase_def)

lemma sorted_distinct_keys: "sorted_wrt (by_key key) ys \<Longrightarrow> distinct (map key ys)"
  by (induction ys) (use irrefl in force)+

lemma ordered_erase_length:
  assumes "sorted_wrt (by_key key) ys" "x \<in> set ys"
  shows "length (ordered_erase (by_key key) x ys) + 1 = length ys"
proof -
  have "ordered_erase (by_key key) x ys = [y \<leftarrow> ys. key y \<noteq> key x]"
    unfolding ordered_erase_def using total irrefl by (intro filter_cong refl) metis
  moreover have "length [y \<leftarrow> ys. key y \<noteq> key x] + length [y \<leftarrow> ys. key y = key x] = length ys"
    by (induction ys) auto
  moreover have "[y \<leftarrow> ys. key y = key x] = [x]"
    using assms sorted_distinct_keys [OF assms(1)]
  proof (induction ys)
    case Nil
    then show ?case by simp
  next
    case (Cons y ys)
    show ?case
    proof (cases "key y = key x")
      case True
      then have "x = y" "key x \<notin> key ` set ys"
        using Cons.prems by auto
      then have "[z \<leftarrow> ys. key z = key x] = []"
        unfolding filter_empty_conv by (metis image_eqI)
      then show ?thesis
        using \<open>x = y\<close> by simp
    next
      case False
      then show ?thesis
        using Cons by auto
    qed
  qed
  ultimately show ?thesis
    by simp
qed

end

interpretation prefixes: strict_order RequestHandlerOrder
  by unfold_locales (simp, erule (1) RequestHandlerOrder_trans, rule RequestHandlerOrder_total)

subsection \<open>The invariant\<close>

definition dispatcher_ok :: "dispatcher \<Rightarrow> bool" where
  "dispatcher_ok d \<longleftrightarrow> sorted_wrt (handler_less (hd_table d)) (hd_set d)
     \<and> (\<forall>h. h \<in> set (hd_set d) \<longleftrightarrow> rh_is_logged_in (hd_table d h))"

lemma new_dispatcher_ok: "dispatcher_ok (new_dispatcher level)"
  by (simp add: dispatcher_ok_def new_dispatcher_def RequestHandler_def)

lemma sorted_table_cong:
  "(\<And>x. x \<in> set xs \<Longrightarrow> t x = t' x) \<Longrightarrow> sorted_wrt (handler_less t) xs = sorted_wrt (handler_less t') xs"
  by (induction xs) auto

lemma Login_ok:
  assumes "dispatcher_ok d" "\<not> rh_is_logged_in (hd_table d h)" "hd_server_level d = RUNNING"
  shows "if prefix \<in> (\<lambda>x. rh_prefix (hd_table d x)) ` set (hd_set d) then \<exists>e. Login h prefix handler d = Inl e
    else \<exists>d'. Login h prefix handler d = Inr d' \<and> dispatcher_ok d' \<and> set (hd_set d') = insert h (set (hd_set d))
      \<and> hd_table d' = (hd_table d)(h := \<lparr>rh_is_logged_in = True, rh_prefix = prefix, rh_handler_func = Some handler\<rparr>)"
proof -
  define t where "t = (hd_table d)(h := \<lparr>rh_is_logged_in = True, rh_prefix = prefix, rh_handler_func = Some handler\<rparr>)"
  have h: "h \<notin> set (hd_set d)"
    using assms by (simp add: dispatcher_ok_def)
  then have "sorted_wrt (handler_less t) (hd_set d) = sorted_wrt (handler_less (hd_table d)) (hd_set d)"
    by (intro sorted_table_cong) (auto simp: t_def)
  then have s: "sorted_wrt (handler_less t) (hd_set d)"
    using assms by (simp add: dispatcher_ok_def)
  have "(\<lambda>x. rh_prefix (t x)) ` set (hd_set d) = (\<lambda>x. rh_prefix (hd_table d x)) ` set (hd_set d)"
    using h by (intro image_cong) (auto simp: t_def)
  moreover have "rh_prefix (t h) = prefix"
    by (simp add: t_def)
  ultimately have inserted: "snd (ordered_insert (handler_less t) h (hd_set d)) = (prefix \<notin> (\<lambda>x. rh_prefix (hd_table d x)) ` set (hd_set d))"
    using prefixes.ordered_insert_snd [OF s, of h] by simp
  obtain hs ok where ins: "ordered_insert (handler_less t) h (hd_set d) = (hs, ok)"
    by fastforce
  have login: "Login h prefix handler d = (if ok then Inr (d\<lparr>hd_table := t, hd_set := hs\<rparr>) else Inl (AssertFailed ''insert_result.second''))"
    using assms(2,3) ins by (simp add: Login_def check_def t_def [symmetric] Let_def del: fun_upd_apply)
  show ?thesis
  proof (cases ok)
    case True
    then have "sorted_wrt (handler_less t) hs" "set hs = insert h (set (hd_set d))"
      using prefixes.ordered_insert_sorted [OF s, of h] prefixes.set_set_insert [of "\<lambda>x. rh_prefix (t x)" h "hd_set d"] ins by simp_all
    moreover from this have "dispatcher_ok (d\<lparr>hd_table := t, hd_set := hs\<rparr>)"
      using assms(1) by (auto simp: dispatcher_ok_def t_def)
    ultimately show ?thesis
      using login True inserted ins by (simp add: t_def)
  next
    case False
    then show ?thesis
      using login inserted ins by simp
  qed
qed

lemma Logout_ok:
  assumes "dispatcher_ok d" "rh_is_logged_in (hd_table d h)"
  shows "\<exists>d'. Logout h d = Inr d' \<and> dispatcher_ok d'"
proof -
  have s: "sorted_wrt (handler_less (hd_table d)) (hd_set d)" and h: "h \<in> set (hd_set d)"
    using assms by (simp_all add: dispatcher_ok_def)
  let ?hs = "ordered_erase (handler_less (hd_table d)) h (hd_set d)"
  have count: "length (hd_set d) - length ?hs = 1"
    using prefixes.ordered_erase_length [OF s h] by simp
  have "x = h" if "x \<in> set (hd_set d)" "rh_prefix (hd_table d x) = rh_prefix (hd_table d h)" for x
    using prefixes.sorted_distinct_keys [OF s] that h by (auto simp: distinct_map inj_on_def)
  then have set: "set ?hs = set (hd_set d) - {h}"
    using prefixes.ordered_erase_keys [of "\<lambda>x. rh_prefix (hd_table d x)" h "hd_set d"] by auto
  have "sorted_wrt (handler_less ((hd_table d)(h := RequestHandler))) ?hs = sorted_wrt (handler_less (hd_table d)) ?hs"
    by (intro sorted_table_cong) (use set in auto)
  then have "sorted_wrt (handler_less ((hd_table d)(h := RequestHandler))) ?hs"
    using prefixes.ordered_erase_sorted [OF s] by simp
  then show ?thesis
    using assms count set by (auto simp: Logout_def dispatcher_ok_def RequestHandler_def)
qed

subsection \<open>Properties\<close>

text \<open>What the owners of the handlers do: they log in while the server runs, and log out.\<close>

datatype handler_op = HLogin nat string nat | HLogout nat

fun do_handler_op :: "handler_op \<Rightarrow> dispatcher \<Rightarrow> dispatcher res" where
  "do_handler_op (HLogin h prefix f) d = Login h prefix f d"
| "do_handler_op (HLogout h) d = Logout h d"

lemma Login_Inr:
  assumes "dispatcher_ok d" "Login h prefix f d = Inr d'"
  shows "dispatcher_ok d'"
proof -
  have "\<not> rh_is_logged_in (hd_table d h)" "hd_server_level d = RUNNING"
    using assms(2) by (auto simp: Login_def check_def split: if_splits)
  from Login_ok [OF assms(1) this, of prefix f] assms(2) show ?thesis
    by (auto split: if_splits)
qed

lemma Logout_Inr:
  assumes "dispatcher_ok d" "Logout h d = Inr d'"
  shows "dispatcher_ok d'"
proof -
  have "rh_is_logged_in (hd_table d h)"
    using assms(2) by (auto simp: Logout_def check_def split: if_splits)
  from Logout_ok [OF assms(1) this] assms(2) show ?thesis
    by auto
qed

lemma handler_ops_ok: "dispatcher_ok d \<Longrightarrow> fold_res do_handler_op ops d = Inr d' \<Longrightarrow> dispatcher_ok d'"
proof (induction ops arbitrary: d)
  case Nil
  then show ?case by simp
next
  case (Cons a ops)
  then obtain d1 where "do_handler_op a d = Inr d1" "fold_res do_handler_op ops d1 = Inr d'"
    by (auto simp: bind_res_eq_Inr)
  moreover from this have "dispatcher_ok d1"
    using Login_Inr [OF Cons.prems(1)] Logout_Inr [OF Cons.prems(1)] by (cases a) auto
  ultimately show ?case
    using Cons.IH by blast
qed

lemma first_handler_Some:
  "sorted_wrt (handler_less t) hs \<Longrightarrow> first_handler t hs resource = Some h \<longleftrightarrow>
   h \<in> set hs \<and> has_prefix resource (rh_prefix (t h))
     \<and> (\<forall>x \<in> set hs. has_prefix resource (rh_prefix (t x)) \<longrightarrow> x = h \<or> length (rh_prefix (t x)) < length (rh_prefix (t h)))"
proof (induction hs)
  case Nil
  then show ?case by simp
next
  case (Cons y hs)
  have eq: "rh_prefix (t a) = rh_prefix (t b)"
    if "has_prefix resource (rh_prefix (t a))" "has_prefix resource (rh_prefix (t b))" "length (rh_prefix (t a)) = length (rh_prefix (t b))" for a b
    using that by (metis has_prefix_def)
  have later: "length (rh_prefix (t x)) < length (rh_prefix (t y))"
    if "x \<in> set hs" "has_prefix resource (rh_prefix (t x))" "has_prefix resource (rh_prefix (t y))" for x
  proof -
    have lt: "handler_less t y x"
      using Cons.prems that(1) by simp
    then have "rh_prefix (t x) \<noteq> rh_prefix (t y)"
      by auto
    then show ?thesis
      using RequestHandlerOrder_length [OF lt] eq [OF that(2,3)] by linarith
  qed
  show ?case
  proof (cases "has_prefix resource (rh_prefix (t y))")
    case True
    then show ?thesis
      using later by (auto dest: less_asym)
  next
    case False
    then show ?thesis
      using Cons by auto
  qed
qed

lemma first_handler_None: "first_handler t hs resource = None \<longleftrightarrow> (\<forall>x \<in> set hs. \<not> has_prefix resource (rh_prefix (t x)))"
  by (induction hs) auto

definition logged_in_for :: "dispatcher \<Rightarrow> string \<Rightarrow> nat \<Rightarrow> bool" where
  "logged_in_for d resource h \<longleftrightarrow> rh_is_logged_in (hd_table d h) \<and> has_prefix resource (rh_prefix (hd_table d h))"

text \<open>
  C23: Dispatch. After any successful sequence of logins and logouts, a request goes to the logged-in
  handler with the longest prefix that its path has, which is unique; to the handler of its
  listener only if no handler's prefix fits, and is left unhandled, to be answered with 404,
  only if there is no such handler either.
\<close>

theorem HandleRequest_longest_prefix:
  assumes "fold_res do_handler_op ops (new_dispatcher RUNNING) = Inr d"
  shows "((snd (HandleRequest server_handler resource d) = ToHandler h f) =
      (f = rh_handler_func (hd_table d h) \<and> logged_in_for d resource h
       \<and> (\<nexists>x. x \<noteq> h \<and> logged_in_for d resource x \<and> length (rh_prefix (hd_table d x)) \<ge> length (rh_prefix (hd_table d h)))))
    \<and> ((snd (HandleRequest server_handler resource d) = ToServerHandler) = (server_handler \<and> (\<nexists>x. logged_in_for d resource x)))
    \<and> ((snd (HandleRequest server_handler resource d) = Unhandled) = (\<not> server_handler \<and> (\<nexists>x. logged_in_for d resource x)))"
proof -
  have "dispatcher_ok d"
    by (rule handler_ops_ok [OF new_dispatcher_ok assms])
  then have s: "sorted_wrt (handler_less (hd_table d)) (hd_set d)" and mem: "\<And>x. x \<in> set (hd_set d) \<longleftrightarrow> rh_is_logged_in (hd_table d x)"
    by (simp_all add: dispatcher_ok_def)
  have none: "first_handler (hd_table d) (hd_set d) resource = None \<longleftrightarrow> (\<nexists>x. logged_in_for d resource x)"
    unfolding first_handler_None logged_in_for_def by (auto simp: mem)
  have some: "first_handler (hd_table d) (hd_set d) resource = Some h \<longleftrightarrow> logged_in_for d resource h
       \<and> (\<nexists>x. x \<noteq> h \<and> logged_in_for d resource x \<and> length (rh_prefix (hd_table d x)) \<ge> length (rh_prefix (hd_table d h)))"
    unfolding first_handler_Some [OF s] logged_in_for_def mem by (auto simp: mem not_le)
  have "(snd (HandleRequest server_handler resource d) = ToHandler h f) =
      (f = rh_handler_func (hd_table d h) \<and> logged_in_for d resource h
       \<and> (\<nexists>x. x \<noteq> h \<and> logged_in_for d resource x \<and> length (rh_prefix (hd_table d x)) \<ge> length (rh_prefix (hd_table d h))))"
    unfolding some [symmetric] by (auto simp: HandleRequest_def Let_def split: option.split)
  moreover have "(snd (HandleRequest server_handler resource d) = ToServerHandler) = (server_handler \<and> (\<nexists>x. logged_in_for d resource x))"
    "(snd (HandleRequest server_handler resource d) = Unhandled) = (\<not> server_handler \<and> (\<nexists>x. logged_in_for d resource x))"
    unfolding none [symmetric] by (auto simp: HandleRequest_def Let_def split: option.split)
  ultimately show ?thesis
    by blast
qed

theorem HandleRequest_longest_prefix_witness:
  "\<exists>d. fold_res do_handler_op [HLogin 1 ''/'' 10, HLogin 2 ''/api'' 20, HLogin 3 ''/api/x'' 30, HLogout 3] (new_dispatcher RUNNING) = Inr d
    \<and> snd (HandleRequest True ''/api/x'' d) = ToHandler 2 (Some 20)"
proof -
  let ?t = "(\<lambda>_. RequestHandler)(1 := \<lparr>rh_is_logged_in = True, rh_prefix = ''/'', rh_handler_func = Some 10\<rparr>,
     2 := \<lparr>rh_is_logged_in = True, rh_prefix = ''/api'', rh_handler_func = Some 20\<rparr>)"
  have run: "fold_res do_handler_op [HLogin 1 ''/'' 10, HLogin 2 ''/api'' 20, HLogin 3 ''/api/x'' 30, HLogout 3] (new_dispatcher RUNNING)
      = Inr \<lparr>hd_server_level = RUNNING, hd_table = ?t, hd_set = [2, 1], hd_num_requests_received = 0\<rparr>"
    by (simp add: new_dispatcher_def Login_def Logout_def check_def RequestHandlerOrder_def ordered_erase_def RequestHandler_def
        fun_upd_twist fun_upd_idem)
  let ?d = "\<lparr>hd_server_level = RUNNING, hd_table = ?t, hd_set = [2, 1], hd_num_requests_received = 0\<rparr>"
  have "logged_in_for ?d ''/api/x'' 2" "\<nexists>x. x \<noteq> 2 \<and> logged_in_for ?d ''/api/x'' x
      \<and> length (rh_prefix (hd_table ?d x)) \<ge> length (rh_prefix (hd_table ?d 2))" "Some 20 = rh_handler_func (hd_table ?d 2)"
    by (auto simp: logged_in_for_def has_prefix_def RequestHandler_def)
  then have "snd (HandleRequest True ''/api/x'' ?d) = ToHandler 2 (Some 20)"
    using HandleRequest_longest_prefix [OF run, of True "''/api/x''" 2 "Some 20"] by blast
  with run show ?thesis
    by blast
qed

end
