(* ===== verification/WebSocket.thy ===== *)
theory WebSocket
  imports Client
begin

section \<open>Web sockets of the HTTP server\<close>

text \<open>
  \<open>BBoxHttp/bbox/http/server/details/WebSocketConnection.cpp\<close> and \<open>server/ServerWebSocket.h\<close>,
  \<open>.cpp\<close>: a connection that was upgraded, and the handle (\<open>ServerWebSocket\<close>) through which its
  owner uses it and which may be moved. A handle is a number; \<open>ws_handles\<close> are the handles whose
  \<open>m_connection\<close> is this connection. \<open>ws_lib_accept\<close>, \<open>ws_lib_read\<close> and \<open>ws_lib_write\<close> tell whether the
  library still has to call the handler of such an operation. \<open>ws_sends\<close>, \<open>ws_written\<close>,
  \<open>ws_states\<close> and \<open>ws_closed\<close> record what was sent by the owner, the writes started, the calls of the
  state handler (False: with an error) and the calls of \<open>WebSocketClosed\<close>.
\<close>

record web_socket =
  ws_owner :: "nat option"
  ws_handles :: "nat list"
  ws_outstanding_async_ops :: u64
  ws_accept_completed :: bool
  ws_close_requested :: bool
  ws_close_reported :: bool
  ws_write_pending :: bool
  ws_pending_writes :: "string list"
  ws_lib_accept :: bool
  ws_lib_read :: bool
  ws_lib_write :: bool
  ws_sends :: "string list"
  ws_written :: "string list"
  ws_states :: "bool list"
  ws_received :: "string list"
  ws_closed :: nat

text \<open>\<open>ServerWebSocket::Upgrade\<close> with the constructor of the connection.\<close>

definition Upgrade :: "nat \<Rightarrow> web_socket" where
  "Upgrade handle = \<lparr>ws_owner = Some handle, ws_handles = [handle], ws_outstanding_async_ops = 1,
     ws_accept_completed = False, ws_close_requested = False, ws_close_reported = False, ws_write_pending = False,
     ws_pending_writes = [], ws_lib_accept = True, ws_lib_read = False, ws_lib_write = False,
     ws_sends = [], ws_written = [], ws_states = [], ws_received = [], ws_closed = 0\<rparr>"

definition IsOpen :: "web_socket \<Rightarrow> bool" where
  "IsOpen w \<longleftrightarrow> ws_accept_completed w \<and> \<not> ws_close_requested w"

definition CheckClose :: "web_socket \<Rightarrow> web_socket" where
  "CheckClose w =
     (if ws_close_requested w \<and> \<not> ws_close_reported w \<and> ws_outstanding_async_ops w = 0 \<and> \<not> ws_write_pending w then
        let w = (case ws_owner w of None \<Rightarrow> w
                 | Some h \<Rightarrow> w\<lparr>ws_handles := [x \<leftarrow> ws_handles w. x \<noteq> h], ws_owner := None\<rparr>)
        in w\<lparr>ws_close_reported := True, ws_closed := ws_closed w + 1\<rparr>
      else w)"

definition Close :: "web_socket \<Rightarrow> web_socket" where
  "Close w = (if \<not> ws_close_requested w then CheckClose (w\<lparr>ws_close_requested := True\<rparr>) else w)"

definition UpdateOwner :: "nat option \<Rightarrow> web_socket \<Rightarrow> web_socket res" where
  "UpdateOwner new_owner w =
     bind_res (check ''m_owner != nullptr'' (ws_owner w \<noteq> None) w) (\<lambda>w.
     let w = w\<lparr>ws_owner := new_owner\<rparr>
     in Inr (if ws_owner w = None then Close w else w))"

definition StartWrite :: "web_socket \<Rightarrow> web_socket" where
  "StartWrite w =
     (if \<not> ws_close_requested w \<and> \<not> ws_write_pending w \<and> ws_pending_writes w \<noteq> [] then
        w\<lparr>ws_pending_writes := tl (ws_pending_writes w), ws_write_pending := True,
          ws_outstanding_async_ops := ws_outstanding_async_ops w + 1,
          ws_lib_write := True, ws_written := ws_written w @ [hd (ws_pending_writes w)]\<rparr>
      else w)"

definition WebSocket_Send :: "string \<Rightarrow> web_socket \<Rightarrow> web_socket" where
  "WebSocket_Send str w =
     (if \<not> ws_close_requested w then
        StartWrite (w\<lparr>ws_pending_writes := ws_pending_writes w @ [str], ws_sends := ws_sends w @ [str]\<rparr>)
      else w)"

subsection \<open>The handle\<close>

text \<open>Operations on a handle do nothing when it has no connection; moving one makes another the owner.\<close>

datatype socket_op = OpSend string | OpClose | OpMove nat

definition ServerWebSocket_Close :: "nat \<Rightarrow> web_socket \<Rightarrow> web_socket res" where
  "ServerWebSocket_Close h w =
     bind_res (UpdateOwner None w) (\<lambda>w. Inr (Close (w\<lparr>ws_handles := [x \<leftarrow> ws_handles w. x \<noteq> h]\<rparr>)))"

definition ServerWebSocket_move :: "nat \<Rightarrow> nat \<Rightarrow> web_socket \<Rightarrow> web_socket res" where
  "ServerWebSocket_move h new w = UpdateOwner (Some new) (w\<lparr>ws_handles := new # [x \<leftarrow> ws_handles w. x \<noteq> h \<and> x \<noteq> new]\<rparr>)"

fun do_socket_op :: "socket_op \<Rightarrow> web_socket \<Rightarrow> web_socket res" where
  "do_socket_op a w = (case ws_handles w of
       [] \<Rightarrow> Inr w
     | h # _ \<Rightarrow> (case a of
           OpSend str \<Rightarrow> Inr (WebSocket_Send str w)
         | OpClose \<Rightarrow> ServerWebSocket_Close h w
         | OpMove new \<Rightarrow> ServerWebSocket_move h new w))"

subsection \<open>Handlers\<close>

text \<open>\<open>ops\<close> is what the owner does in its state or receive handler.\<close>

definition ReportError :: "socket_op list \<Rightarrow> web_socket \<Rightarrow> web_socket res" where
  "ReportError ops w =
     (if \<not> ws_close_requested w then
        fold_res do_socket_op ops (w\<lparr>ws_close_requested := True, ws_states := ws_states w @ [False]\<rparr>)
      else Inr w)"

definition start_read :: "web_socket \<Rightarrow> web_socket" where
  "start_read w = w\<lparr>ws_outstanding_async_ops := ws_outstanding_async_ops w + 1, ws_lib_read := True\<rparr>"

definition completed :: "web_socket \<Rightarrow> web_socket res" where
  "completed w =
     bind_res (check ''m_outstanding_async_ops > 0'' (0 < ws_outstanding_async_ops w) w) (\<lambda>w.
       Inr (w\<lparr>ws_outstanding_async_ops := ws_outstanding_async_ops w - 1\<rparr>))"

definition OnAccept :: "bool \<Rightarrow> socket_op list \<Rightarrow> web_socket \<Rightarrow> web_socket res" where
  "OnAccept ec ops w =
     bind_res (completed w) (\<lambda>w.
     bind_res
       (if ec then ReportError ops w
        else if \<not> ws_close_requested w then
          fold_res do_socket_op ops ((start_read (w\<lparr>ws_accept_completed := True\<rparr>))\<lparr>ws_states := ws_states w @ [True]\<rparr>)
        else Inr w)
       (\<lambda>w. Inr (CheckClose w)))"

text \<open>A read ends with an error, a text message or a binary one.\<close>

datatype read_result = ReadError | ReadText string | ReadBinary

definition OnRead :: "read_result \<Rightarrow> socket_op list \<Rightarrow> web_socket \<Rightarrow> web_socket res" where
  "OnRead result ops w =
     bind_res (completed w) (\<lambda>w.
     bind_res
       (if result = ReadError then ReportError ops w
        else if \<not> ws_close_requested w then
          let w = start_read w
          in (case result of
               ReadText text' \<Rightarrow> fold_res do_socket_op ops (w\<lparr>ws_received := ws_received w @ [text']\<rparr>)
             | _ \<Rightarrow> Inr (Close w))
        else Inr w)
       (\<lambda>w. Inr (CheckClose w)))"

definition OnWrite :: "bool \<Rightarrow> socket_op list \<Rightarrow> web_socket \<Rightarrow> web_socket res" where
  "OnWrite ec ops w =
     bind_res (check ''m_outstanding_async_ops > 0'' (0 < ws_outstanding_async_ops w) w) (\<lambda>w.
     bind_res (check ''m_write_pending == true'' (ws_write_pending w) w) (\<lambda>w.
     let w = w\<lparr>ws_outstanding_async_ops := ws_outstanding_async_ops w - 1, ws_write_pending := False\<rparr>
     in bind_res (if ec then ReportError ops w else if \<not> ws_close_requested w then Inr (StartWrite w) else Inr w)
         (\<lambda>w. Inr (CheckClose w))))"

datatype socket_event =
    AcceptDone bool "socket_op list"
  | ReadMessage read_result "socket_op list"
  | WriteFinished bool "socket_op list"
  | OwnerDoes socket_op
  | ServerCloses

fun do_socket :: "socket_event \<Rightarrow> web_socket \<Rightarrow> web_socket res" where
  "do_socket (AcceptDone ec ops) w = OnAccept ec ops (w\<lparr>ws_lib_accept := False\<rparr>)"
| "do_socket (ReadMessage r ops) w = OnRead r ops (w\<lparr>ws_lib_read := False\<rparr>)"
| "do_socket (WriteFinished ec ops) w = OnWrite ec ops (w\<lparr>ws_lib_write := False\<rparr>)"
| "do_socket (OwnerDoes a) w = do_socket_op a w"
| "do_socket ServerCloses w = Inr (Close w)"

fun socket_allowed :: "socket_event \<Rightarrow> web_socket \<Rightarrow> bool" where
  "socket_allowed (AcceptDone _ _) w \<longleftrightarrow> ws_lib_accept w"
| "socket_allowed (ReadMessage _ _) w \<longleftrightarrow> ws_lib_read w"
| "socket_allowed (WriteFinished _ _) w \<longleftrightarrow> ws_lib_write w"
| "socket_allowed (OwnerDoes _) w \<longleftrightarrow> True"
| "socket_allowed ServerCloses w \<longleftrightarrow> True"

inductive socket_reachable :: "web_socket \<Rightarrow> bool" where
  socket_init: "socket_reachable (Upgrade h)"
| socket_step: "socket_reachable w \<Longrightarrow> socket_allowed e w \<Longrightarrow> do_socket e w = Inr w' \<Longrightarrow> socket_reachable w'"

subsection \<open>The invariant\<close>

definition lib_ops :: "web_socket \<Rightarrow> nat" where
  "lib_ops w = (if ws_lib_accept w then 1 else 0) + (if ws_lib_read w then 1 else 0) + (if ws_lib_write w then 1 else 0)"

text \<open>While the socket is open it accepts or reads, and writes while there is something to write.\<close>

definition open_ok :: "web_socket \<Rightarrow> bool" where
  "open_ok w \<longleftrightarrow> ws_owner w \<noteq> None \<and> ws_lib_accept w = (\<not> ws_lib_read w) \<and> ws_accept_completed w = ws_lib_read w
     \<and> (ws_pending_writes w \<noteq> [] \<longrightarrow> ws_write_pending w) \<and> ws_states w = (if ws_accept_completed w then [True] else [])"

definition socket_inv :: "web_socket \<Rightarrow> bool" where
  "socket_inv w \<longleftrightarrow> ws_outstanding_async_ops w = of_nat (lib_ops w) \<and> ws_write_pending w = ws_lib_write w
     \<and> ws_handles w = (case ws_owner w of None \<Rightarrow> [] | Some h \<Rightarrow> [h])
     \<and> (ws_close_reported w \<longrightarrow> lib_ops w = 0 \<and> ws_owner w = None \<and> ws_close_requested w)
     \<and> ws_closed w = (if ws_close_reported w then 1 else 0)
     \<and> ws_sends w = ws_written w @ ws_pending_writes w
     \<and> (\<not> ws_close_requested w \<longrightarrow> open_ok w)
     \<and> ws_states w \<in> {[], [True], [False], [True, False]}"

definition socket_ok :: "web_socket \<Rightarrow> bool" where
  "socket_ok w \<longleftrightarrow> socket_inv w \<and> (ws_close_requested w \<and> lib_ops w = 0 \<longrightarrow> ws_close_reported w)"

lemma lib_ops_outstanding [simp]: "lib_ops (w\<lparr>ws_outstanding_async_ops := n\<rparr>) = lib_ops w"
  by (simp add: lib_ops_def)

lemma lib_ops_le: "lib_ops w \<le> 3"
  by (simp add: lib_ops_def)

lemma outstanding_zero: "socket_inv w \<Longrightarrow> ws_outstanding_async_ops w = 0 \<longleftrightarrow> lib_ops w = 0"
  by (auto simp: socket_inv_def lib_ops_def)

lemma socket_ok_init: "socket_ok (Upgrade h)"
  by (simp add: socket_ok_def socket_inv_def lib_ops_def open_ok_def Upgrade_def)

lemma CheckClose_ok: "socket_inv w \<Longrightarrow> socket_ok (CheckClose w)"
proof -
  assume inv: "socket_inv w"
  have "ws_outstanding_async_ops w = 0 \<and> \<not> ws_write_pending w \<longleftrightarrow> lib_ops w = 0"
    using outstanding_zero [OF inv] inv by (auto simp: socket_inv_def lib_ops_def)
  then show ?thesis
    using inv by (auto simp: CheckClose_def socket_ok_def socket_inv_def lib_ops_def Let_def split: option.splits)
qed

lemma CheckClose_requested [simp]: "ws_close_requested (CheckClose w) = ws_close_requested w"
  by (simp add: CheckClose_def Let_def split: option.split)

definition preserves :: "web_socket \<Rightarrow> web_socket \<Rightarrow> bool" where
  "preserves w w' \<longleftrightarrow> socket_inv w' \<and> (socket_ok w \<longrightarrow> socket_ok w') \<and> (ws_close_requested w \<longrightarrow> ws_close_requested w')"

lemma preserves_refl: "socket_inv w \<Longrightarrow> preserves w w"
  by (simp add: preserves_def)

lemma preserves_trans: "preserves u v \<Longrightarrow> preserves v w \<Longrightarrow> preserves u w"
  by (auto simp: preserves_def)

lemma Close_preserves:
  assumes "socket_inv w"
  shows "preserves w (Close w)" "ws_close_requested (Close w)"
proof -
  have "socket_inv (w\<lparr>ws_close_requested := True\<rparr>)"
    using assms by (auto simp: socket_inv_def lib_ops_def)
  then have "socket_ok (CheckClose (w\<lparr>ws_close_requested := True\<rparr>))"
    by (rule CheckClose_ok)
  then show "preserves w (Close w)" "ws_close_requested (Close w)"
    using assms by (auto simp: Close_def preserves_def socket_ok_def)
qed

lemma StartWrite_inv:
  assumes "ws_outstanding_async_ops w = of_nat (lib_ops w)" "ws_write_pending w = ws_lib_write w"
    "ws_sends w = ws_written w @ ws_pending_writes w"
  shows "ws_outstanding_async_ops (StartWrite w) = of_nat (lib_ops (StartWrite w))"
    "ws_write_pending (StartWrite w) = ws_lib_write (StartWrite w)"
    "ws_sends (StartWrite w) = ws_written (StartWrite w) @ ws_pending_writes (StartWrite w)"
    "\<not> ws_close_requested w \<Longrightarrow> ws_pending_writes (StartWrite w) \<noteq> [] \<Longrightarrow> ws_write_pending (StartWrite w)"
  using assms by (auto simp: StartWrite_def lib_ops_def)

lemma StartWrite_sel [simp]:
  "ws_owner (StartWrite w) = ws_owner w" "ws_handles (StartWrite w) = ws_handles w"
  "ws_close_requested (StartWrite w) = ws_close_requested w" "ws_close_reported (StartWrite w) = ws_close_reported w"
  "ws_closed (StartWrite w) = ws_closed w" "ws_states (StartWrite w) = ws_states w" "ws_lib_read (StartWrite w) = ws_lib_read w"
  "ws_lib_accept (StartWrite w) = ws_lib_accept w" "ws_accept_completed (StartWrite w) = ws_accept_completed w"
  by (simp_all add: StartWrite_def)

lemma WebSocket_Send_preserves:
  assumes "socket_inv w"
  shows "preserves w (WebSocket_Send str w)"
proof (cases "ws_close_requested w")
  case True
  then show ?thesis
    using assms by (simp add: WebSocket_Send_def preserves_refl)
next
  case False
  let ?u = "w\<lparr>ws_pending_writes := ws_pending_writes w @ [str], ws_sends := ws_sends w @ [str]\<rparr>"
  have "ws_outstanding_async_ops ?u = of_nat (lib_ops ?u)" "ws_write_pending ?u = ws_lib_write ?u"
      "ws_sends ?u = ws_written ?u @ ws_pending_writes ?u"
    using assms by (simp_all add: socket_inv_def lib_ops_def)
  note sw = StartWrite_inv [OF this]
  have "\<not> ws_close_reported w"
    using assms False by (auto simp: socket_inv_def)
  then have "socket_inv (StartWrite ?u)"
    using assms False sw by (auto simp: socket_inv_def open_ok_def)
  then show ?thesis
    using False by (simp add: WebSocket_Send_def preserves_def socket_ok_def)
qed

lemma do_socket_op_ok:
  assumes "socket_inv w"
  shows "\<exists>w'. do_socket_op a w = Inr w' \<and> preserves w w'"
proof (cases "ws_owner w")
  case None
  then show ?thesis
    using assms by (simp add: socket_inv_def preserves_refl)
next
  case (Some h)
  then have hs: "ws_handles w = [h]" "\<not> ws_close_reported w"
    using assms by (auto simp: socket_inv_def)
  show ?thesis
  proof (cases a)
    case (OpSend str)
    then show ?thesis
      using WebSocket_Send_preserves [OF assms] hs by simp
  next
    case (OpMove new)
    have "preserves w (w\<lparr>ws_handles := [new], ws_owner := Some new\<rparr>)"
      using assms Some hs by (auto simp: preserves_def socket_ok_def socket_inv_def open_ok_def lib_ops_def)
    then show ?thesis
      using OpMove hs Some by (simp add: ServerWebSocket_move_def UpdateOwner_def)
  next
    case OpClose
    let ?u = "w\<lparr>ws_owner := None, ws_handles := []\<rparr>"
    have eq: "ServerWebSocket_Close h w = Inr (Close ?u)"
      using Some hs(1)
      by (cases "ws_close_requested w") (auto simp: ServerWebSocket_Close_def UpdateOwner_def Close_def CheckClose_def Let_def)
    have "preserves w (Close ?u)"
    proof (cases "ws_close_requested w")
      case True
      then show ?thesis
        using assms hs(2) by (auto simp: Close_def preserves_def socket_ok_def socket_inv_def lib_ops_def)
    next
      case False
      have "socket_inv (?u\<lparr>ws_close_requested := True\<rparr>)"
        using assms hs(2) by (auto simp: socket_inv_def lib_ops_def)
      then show ?thesis
        using False CheckClose_ok by (simp add: Close_def preserves_def socket_ok_def)
    qed
    then show ?thesis
      using eq OpClose hs(1) by simp
  qed
qed

declare do_socket_op.simps [simp del]

lemma do_socket_ops_ok:
  "socket_inv w \<Longrightarrow> \<exists>w'. fold_res do_socket_op ops w = Inr w' \<and> preserves w w'"
proof (induction ops arbitrary: w)
  case Nil
  then show ?case by (simp add: preserves_refl)
next
  case (Cons a ops)
  obtain w1 where w1: "do_socket_op a w = Inr w1" "preserves w w1"
    using do_socket_op_ok [OF Cons.prems] by blast
  have "socket_inv w1"
    using w1(2) by (simp add: preserves_def)
  then obtain w' where "fold_res do_socket_op ops w1 = Inr w'" "preserves w1 w'"
    using Cons.IH by blast
  then have "fold_res do_socket_op (a # ops) w = Inr w'" "preserves w w'"
    using w1 preserves_trans [OF w1(2)] by simp_all
  then show ?case
    by blast
qed

subsection \<open>Every event\<close>

text \<open>An operation has completed: its flag is clear and its count taken back.\<close>

definition after_op :: "web_socket \<Rightarrow> web_socket \<Rightarrow> bool" where
  "after_op w u \<longleftrightarrow> socket_inv w \<and> \<not> ws_close_reported u \<and> ws_outstanding_async_ops u = of_nat (lib_ops u)
     \<and> ws_write_pending u = ws_lib_write u \<and> ws_handles u = ws_handles w \<and> ws_owner u = ws_owner w
     \<and> ws_close_requested u = ws_close_requested w \<and> ws_closed u = 0 \<and> ws_sends u = ws_written u @ ws_pending_writes u
     \<and> ws_states u = ws_states w \<and> ws_accept_completed u = ws_accept_completed w"

lemma after_op_requested: "after_op w u \<Longrightarrow> ws_close_requested u \<Longrightarrow> socket_inv u"
  by (auto simp: after_op_def socket_inv_def)

lemma ReportError_ok:
  assumes "after_op w u"
  shows "\<exists>w'. ReportError ops u = Inr w' \<and> socket_inv w'"
proof (cases "ws_close_requested u")
  case True
  then show ?thesis
    using after_op_requested [OF assms] by (simp add: ReportError_def)
next
  case False
  have "ws_states w = [] \<or> ws_states w = [True]"
    using assms False by (auto simp: after_op_def socket_inv_def open_ok_def)
  then have "socket_inv (u\<lparr>ws_close_requested := True, ws_states := ws_states u @ [False]\<rparr>)"
    using assms False by (auto simp: after_op_def socket_inv_def lib_ops_def)
  from do_socket_ops_ok [OF this] show ?thesis
    using False by (auto simp: ReportError_def preserves_def)
qed

lemma completed_ok:
  assumes "socket_ok w" "lib_ops u + 1 = lib_ops w" "ws_write_pending u = ws_lib_write u"
    and "\<exists>a r x. u = w\<lparr>ws_lib_accept := a, ws_lib_read := r, ws_lib_write := x, ws_write_pending := x\<rparr>"
  shows "0 < ws_outstanding_async_ops w" "after_op w (u\<lparr>ws_outstanding_async_ops := ws_outstanding_async_ops w - 1\<rparr>)"
proof -
  have inv: "socket_inv w"
    using assms(1) by (simp add: socket_ok_def)
  have out: "ws_outstanding_async_ops w = of_nat (lib_ops u + 1)"
    using inv unfolding assms(2) socket_inv_def by blast
  moreover have "lib_ops u \<le> 2"
    using assms(2) lib_ops_le [of w] by simp
  then have "lib_ops u = 0 \<or> lib_ops u = 1 \<or> lib_ops u = 2"
    by linarith
  ultimately show "0 < ws_outstanding_async_ops w"
    by auto
  have out': "of_nat (lib_ops w) - 1 = (of_nat (lib_ops u) :: u64)"
    unfolding assms(2) [symmetric] by simp
  have after: "\<not> ws_close_reported w"
    using inv assms(2) unfolding socket_inv_def by (metis add_eq_0_iff_both_eq_0 zero_neq_one)
  then show "after_op w (u\<lparr>ws_outstanding_async_ops := ws_outstanding_async_ops w - 1\<rparr>)"
    using inv assms(3,4) unfolding after_op_def by (elim exE) (simp add: after out' socket_inv_def)
qed

lemma finish_ok: "\<exists>v. m = Inr v \<and> socket_inv v \<Longrightarrow> \<exists>w'. bind_res m (\<lambda>w. Inr (CheckClose w)) = Inr w' \<and> socket_ok w'"
  using CheckClose_ok by auto

text \<open>A new read, once the handshake or the last read has succeeded.\<close>

lemma start_read_ok:
  assumes "after_op w u" "\<not> ws_close_requested u" "\<not> ws_lib_read u" "\<not> ws_lib_accept u"
    "ws_pending_writes u \<noteq> [] \<longrightarrow> ws_write_pending u"
  shows "socket_inv ((start_read (u\<lparr>ws_accept_completed := True\<rparr>))\<lparr>ws_states := [True], ws_received := x\<rparr>)"
proof -
  have "open_ok w" "ws_owner u \<noteq> None"
    using assms(1,2) by (auto simp: after_op_def socket_inv_def open_ok_def)
  then show ?thesis
    using assms by (auto simp: after_op_def socket_inv_def open_ok_def start_read_def lib_ops_def)
qed

lemma AcceptDone_ok:
  assumes "socket_ok w" "ws_lib_accept w"
  shows "\<exists>w'. do_socket (AcceptDone ec ops) w = Inr w' \<and> socket_ok w'"
proof -
  let ?u = "w\<lparr>ws_lib_accept := False\<rparr>"
  have lib: "lib_ops ?u + 1 = lib_ops w" "ws_write_pending ?u = ws_lib_write ?u"
    using assms by (auto simp: lib_ops_def socket_ok_def socket_inv_def)
  have "\<exists>a r x. ?u = w\<lparr>ws_lib_accept := a, ws_lib_read := r, ws_lib_write := x, ws_write_pending := x\<rparr>"
    using lib(2) by (intro exI [of _ False] exI [of _ "ws_lib_read w"] exI [of _ "ws_lib_write w"]) simp
  note c = completed_ok [OF assms(1) lib this]
  let ?v = "?u\<lparr>ws_outstanding_async_ops := ws_outstanding_async_ops w - 1\<rparr>"
  have open_w: "\<not> ws_close_requested w \<Longrightarrow> open_ok w"
    using assms(1) by (simp add: socket_ok_def socket_inv_def)
  have step: "do_socket (AcceptDone ec ops) w = bind_res
       (if ec then ReportError ops ?v
        else if \<not> ws_close_requested ?v then
          fold_res do_socket_op ops ((start_read (?v\<lparr>ws_accept_completed := True\<rparr>))\<lparr>ws_states := ws_states ?v @ [True]\<rparr>)
        else Inr ?v) (\<lambda>w. Inr (CheckClose w))"
    using c(1) by (simp add: OnAccept_def completed_def)
  show ?thesis
    unfolding step
  proof (rule finish_ok, cases "\<not> ec \<and> \<not> ws_close_requested w")
    case True
    then have "open_ok w" "ws_lib_accept w"
      using open_w assms(2) by simp_all
    then have "\<not> ws_lib_read ?v" "ws_states w = []" "ws_pending_writes ?v \<noteq> [] \<longrightarrow> ws_write_pending ?v"
      by (auto simp: open_ok_def)
    with start_read_ok [OF c(2), of "ws_received w"] True
    have "socket_inv ((start_read (?v\<lparr>ws_accept_completed := True\<rparr>))\<lparr>ws_states := [True]\<rparr>)"
      by (simp add: start_read_def)
    from do_socket_ops_ok [OF this] show "\<exists>v. (if ec then ReportError ops ?v
        else if \<not> ws_close_requested ?v then
          fold_res do_socket_op ops ((start_read (?v\<lparr>ws_accept_completed := True\<rparr>))\<lparr>ws_states := ws_states ?v @ [True]\<rparr>)
        else Inr ?v) = Inr v \<and> socket_inv v"
      using True \<open>ws_states w = []\<close> by (auto simp: preserves_def)
  next
    case False
    then show "\<exists>v. (if ec then ReportError ops ?v
        else if \<not> ws_close_requested ?v then
          fold_res do_socket_op ops ((start_read (?v\<lparr>ws_accept_completed := True\<rparr>))\<lparr>ws_states := ws_states ?v @ [True]\<rparr>)
        else Inr ?v) = Inr v \<and> socket_inv v"
      using ReportError_ok [OF c(2)] after_op_requested [OF c(2)] by auto
  qed
qed

lemma ReadMessage_ok:
  assumes "socket_ok w" "ws_lib_read w"
  shows "\<exists>w'. do_socket (ReadMessage r ops) w = Inr w' \<and> socket_ok w'"
proof -
  let ?u = "w\<lparr>ws_lib_read := False\<rparr>"
  have lib: "lib_ops ?u + 1 = lib_ops w" "ws_write_pending ?u = ws_lib_write ?u"
    using assms by (auto simp: lib_ops_def socket_ok_def socket_inv_def)
  have "\<exists>a r x. ?u = w\<lparr>ws_lib_accept := a, ws_lib_read := r, ws_lib_write := x, ws_write_pending := x\<rparr>"
    using lib(2) by (intro exI [of _ "ws_lib_accept w"] exI [of _ False] exI [of _ "ws_lib_write w"]) simp
  note c = completed_ok [OF assms(1) lib this]
  let ?v = "?u\<lparr>ws_outstanding_async_ops := ws_outstanding_async_ops w - 1\<rparr>"
  have open_w: "\<not> ws_close_requested w \<Longrightarrow> open_ok w"
    using assms(1) by (simp add: socket_ok_def socket_inv_def)
  define body where "body = (if r = ReadError then ReportError ops ?v
        else if \<not> ws_close_requested ?v then
          let w = start_read ?v
          in (case r of ReadText text' \<Rightarrow> fold_res do_socket_op ops (w\<lparr>ws_received := ws_received w @ [text']\<rparr>) | _ \<Rightarrow> Inr (Close w))
        else Inr ?v)"
  have "\<exists>v. body = Inr v \<and> socket_inv v"
  proof (cases "r \<noteq> ReadError \<and> \<not> ws_close_requested w")
    case True
    then have "open_ok w"
      using open_w by simp
    then have "\<not> ws_lib_accept ?v" "ws_states w = [True]" "ws_pending_writes ?v \<noteq> [] \<longrightarrow> ws_write_pending ?v" "ws_accept_completed w"
      using assms(2) by (auto simp: open_ok_def)
    moreover from this have "(start_read (?v\<lparr>ws_accept_completed := True\<rparr>))\<lparr>ws_states := [True], ws_received := x\<rparr>
        = (start_read ?v)\<lparr>ws_received := x\<rparr>" for x
      by (cases w) (simp add: start_read_def)
    ultimately have inv: "socket_inv ((start_read ?v)\<lparr>ws_received := x\<rparr>)" for x
      using start_read_ok [OF c(2), of x] True by simp
    then have "socket_inv (start_read ?v)"
      using inv [of "ws_received w"] by (simp add: start_read_def)
    then show ?thesis
      using True Close_preserves(1) do_socket_ops_ok [OF inv, of ops]
      by (cases r) (auto simp: body_def Let_def preserves_def)
  next
    case False
    then show ?thesis
      using ReportError_ok [OF c(2)] after_op_requested [OF c(2)] by (auto simp: body_def)
  qed
  moreover have "do_socket (ReadMessage r ops) w = bind_res body (\<lambda>w. Inr (CheckClose w))"
    using c(1) by (simp add: OnRead_def completed_def body_def)
  ultimately show ?thesis
    using finish_ok by simp
qed

lemma StartWrite_ok:
  assumes "after_op w u" "\<not> ws_close_requested u" "ws_lib_accept u = ws_lib_accept w" "ws_lib_read u = ws_lib_read w"
  shows "socket_inv (StartWrite u)"
proof -
  have "open_ok w" "ws_owner u \<noteq> None"
    using assms(1,2) by (auto simp: after_op_def socket_inv_def open_ok_def)
  then show ?thesis
    using assms StartWrite_inv [of u] by (auto simp: after_op_def socket_inv_def open_ok_def)
qed

lemma WriteFinished_ok:
  assumes "socket_ok w" "ws_lib_write w"
  shows "\<exists>w'. do_socket (WriteFinished ec ops) w = Inr w' \<and> socket_ok w'"
proof -
  let ?u = "w\<lparr>ws_lib_write := False, ws_write_pending := False\<rparr>"
  have lib: "lib_ops ?u + 1 = lib_ops w" "ws_write_pending ?u = ws_lib_write ?u" "ws_write_pending w"
    using assms by (auto simp: lib_ops_def socket_ok_def socket_inv_def)
  have "\<exists>a r x. ?u = w\<lparr>ws_lib_accept := a, ws_lib_read := r, ws_lib_write := x, ws_write_pending := x\<rparr>"
    by (intro exI [of _ "ws_lib_accept w"] exI [of _ "ws_lib_read w"] exI [of _ False]) simp
  note c = completed_ok [OF assms(1) lib(1,2) this]
  let ?v = "w\<lparr>ws_lib_write := False, ws_outstanding_async_ops := ws_outstanding_async_ops w - 1, ws_write_pending := False\<rparr>"
  have "?u\<lparr>ws_outstanding_async_ops := ws_outstanding_async_ops w - 1\<rparr> = ?v"
    by simp
  note v = c(2) [unfolded this]
  define body where "body = (if ec then ReportError ops ?v else if \<not> ws_close_requested ?v then Inr (StartWrite ?v) else Inr ?v)"
  have "\<exists>v. body = Inr v \<and> socket_inv v"
    using ReportError_ok [OF v] after_op_requested [OF v] StartWrite_ok [OF v] by (auto simp: body_def)
  moreover have "do_socket (WriteFinished ec ops) w = bind_res body (\<lambda>w. Inr (CheckClose w))"
    using c(1) lib(3) by (simp add: OnWrite_def body_def Let_def)
  ultimately show ?thesis
    using finish_ok by simp
qed

lemma socket_event_ok:
  assumes "socket_ok w" "socket_allowed e w"
  shows "\<exists>w'. do_socket e w = Inr w' \<and> socket_ok w'"
proof (cases e)
  case (OwnerDoes a)
  then show ?thesis
    using do_socket_op_ok [of w a] assms(1) by (auto simp: preserves_def socket_ok_def)
next
  case ServerCloses
  then show ?thesis
    using Close_preserves(1) [of w] assms(1) by (auto simp: preserves_def socket_ok_def)
qed (use AcceptDone_ok ReadMessage_ok WriteFinished_ok assms in auto)

lemma socket_reachable_ok: "socket_reachable w \<Longrightarrow> socket_ok w"
  by (induction rule: socket_reachable.induct) (use socket_ok_init socket_event_ok in fastforce)+

subsection \<open>Properties\<close>

text \<open>
  C14: A web socket is closed exactly once and only when nothing can use it any more. In any run -
  the handshake, reads and writes that succeed or fail in any order, an owner that sends, closes
  or moves its handle at any time and from its own handlers, and a server that closes the
  socket - no assertion of \<open>WebSocketConnection.cpp\<close> fails, \<open>m_outstanding_async_ops\<close> is the number
  of handlers the library still has to call, the owner and its handle point at each other, the
  connection is reported closed once, as soon as a close was asked for and the last handler
  has been called, and then no handle and no handler refers to it, so that the server may
  delete it.
\<close>

theorem WebSocket_closes_once:
  assumes "socket_reachable w" "socket_allowed e w"
  shows "\<exists>w'. do_socket e w = Inr w' \<and> unat (ws_outstanding_async_ops w') = lib_ops w'
    \<and> ws_handles w' = (case ws_owner w' of None \<Rightarrow> [] | Some h \<Rightarrow> [h])
    \<and> ws_closed w' = (if ws_close_requested w' \<and> lib_ops w' = 0 then 1 else 0)
    \<and> (ws_closed w' = 0 \<or> ws_owner w' = None)"
proof -
  obtain w' where w': "do_socket e w = Inr w'" "socket_ok w'"
    using socket_event_ok [OF socket_reachable_ok [OF assms(1)] assms(2)] by blast
  have "ws_outstanding_async_ops w' = of_nat (lib_ops w')"
    using w'(2) unfolding socket_ok_def socket_inv_def by blast
  moreover have "lib_ops w' = 0 \<or> lib_ops w' = 1 \<or> lib_ops w' = 2 \<or> lib_ops w' = 3"
    using lib_ops_le [of w'] by linarith
  ultimately have ops: "unat (ws_outstanding_async_ops w') = lib_ops w'"
    by (elim disjE) simp_all
  have handles: "ws_handles w' = (case ws_owner w' of None \<Rightarrow> [] | Some h \<Rightarrow> [h])"
    and reported: "ws_close_reported w' \<longrightarrow> lib_ops w' = 0 \<and> ws_owner w' = None \<and> ws_close_requested w'"
      "ws_closed w' = (if ws_close_reported w' then 1 else 0)" "ws_close_requested w' \<and> lib_ops w' = 0 \<longrightarrow> ws_close_reported w'"
    using w'(2) unfolding socket_ok_def socket_inv_def by blast+
  have "ws_close_requested w' \<and> lib_ops w' = 0 \<longleftrightarrow> ws_close_reported w'"
    using reported(1,3) by blast
  then have "ws_closed w' = (if ws_close_requested w' \<and> lib_ops w' = 0 then 1 else 0)"
    using reported(2) by presburger
  moreover have "ws_closed w' = 0 \<or> ws_owner w' = None"
    using reported(1,2) by presburger
  ultimately show ?thesis
    using w'(1) ops handles by blast
qed

text \<open>
  C34: What the owner of a web socket sends is written in order, without loss or repetition: the
  writes started are the first of the messages sent, an open socket always has a write in
  progress while a message waits, and the owner is told once that the socket is open and at
  most once, after that, of an error.
\<close>

theorem WebSocket_sends_in_order:
  assumes "socket_reachable w"
  shows "ws_sends w = ws_written w @ ws_pending_writes w
    \<and> (ws_close_requested w \<or> ws_pending_writes w = [] \<or> ws_lib_write w)
    \<and> ws_states w \<in> {[], [True], [False], [True, False]} \<and> (IsOpen w = (\<not> ws_close_requested w \<and> ws_states w = [True]))"
proof -
  have "ws_sends w = ws_written w @ ws_pending_writes w" "ws_states w \<in> {[], [True], [False], [True, False]}"
      "ws_write_pending w = ws_lib_write w" "\<not> ws_close_requested w \<longrightarrow> open_ok w"
    using socket_reachable_ok [OF assms] unfolding socket_ok_def socket_inv_def by blast+
  then show ?thesis
    unfolding open_ok_def IsOpen_def by auto
qed

text \<open>A concrete run.\<close>

fun socket_play :: "socket_event list \<Rightarrow> web_socket \<Rightarrow> web_socket option" where
  "socket_play [] w = Some w"
| "socket_play (e # es) w =
     (if socket_allowed e w then (case do_socket e w of Inr w' \<Rightarrow> socket_play es w' | Inl _ \<Rightarrow> None) else None)"

lemma socket_play_reachable: "socket_reachable w \<Longrightarrow> socket_play es w = Some w' \<Longrightarrow> socket_reachable w'"
  by (induction es arbitrary: w) (fastforce dest: socket_step split: if_splits sum.splits)+

definition example_socket :: web_socket where
  "example_socket = \<lparr>ws_owner = None, ws_handles = [], ws_outstanding_async_ops = 1,
     ws_accept_completed = True, ws_close_requested = True, ws_close_reported = False, ws_write_pending = True,
     ws_pending_writes = [''b''], ws_lib_accept = False, ws_lib_read = False, ws_lib_write = True,
     ws_sends = [''a'', ''b''], ws_written = [''a''], ws_states = [True, False], ws_received = [], ws_closed = 0\<rparr>"

lemma example_socket_reachable: "socket_reachable example_socket"
proof -
  have "socket_play [OwnerDoes (OpMove 2), AcceptDone False [OpSend ''a'', OpSend ''b''], ReadMessage ReadError [OpClose]] (Upgrade 1)
      = Some example_socket"
    by (simp add: Upgrade_def do_socket_op.simps ServerWebSocket_move_def UpdateOwner_def OnAccept_def completed_def check_def
        start_read_def WebSocket_Send_def StartWrite_def CheckClose_def OnRead_def ReportError_def ServerWebSocket_Close_def
        Close_def example_socket_def)
  then show ?thesis
    by (rule socket_play_reachable [OF socket_init])
qed

theorem WebSocket_closes_once_witness:
  "\<exists>w'. do_socket (WriteFinished False []) example_socket = Inr w' \<and> ws_closed w' = 1 \<and> ws_closed example_socket = 0"
  using WebSocket_closes_once [OF example_socket_reachable, of "WriteFinished False []"]
  by (simp add: example_socket_def OnWrite_def check_def CheckClose_def)

theorem WebSocket_sends_in_order_witness:
  "ws_sends example_socket = ws_written example_socket @ [''b'']"
  using WebSocket_sends_in_order [OF example_socket_reachable] by (simp add: example_socket_def)

end
