(* ===== verification/OneShotWork.thy ===== *)
theory OneShotWork
  imports Client
begin

section \<open>bbox::rt::OneShotWork\<close>

text \<open>
  \<open>BBoxRt/bbox/rt/OneShotWork.h\<close> and \<open>OneShotWork.cpp\<close>: work that is posted to the proactor and
  is pending at most once. The proactor cannot take a posted call back, so each call consumes
  one token, and runs the work only if its token is the pending one. \<open>ow_posted\<close> is the number of
  posted calls that the proactor still has to make; \<open>ow_runs\<close> counts the callbacks made.
\<close>

record one_shot_work =
  ow_level :: run_level
  ow_children_stopped :: bool
  ow_next_token :: u64
  ow_pending_token :: u64
  ow_last_resolved_token :: u64
  ow_callback :: bool
  ow_posted :: nat
  ow_runs :: nat

definition OneShotWork :: "bool \<Rightarrow> one_shot_work" where
  "OneShotWork callback = \<lparr>ow_level = RUNNING, ow_children_stopped = False, ow_next_token = 1, ow_pending_token = 0,
     ow_last_resolved_token = 0, ow_callback = callback, ow_posted = 0, ow_runs = 0\<rparr>"

definition IScheduled :: "one_shot_work \<Rightarrow> bool" where
  "IScheduled w \<longleftrightarrow> ow_pending_token w \<noteq> 0"

definition OneShotWork_Schedule :: "one_shot_work \<Rightarrow> one_shot_work res" where
  "OneShotWork_Schedule w =
     bind_res (check ''GetLocalRunLevel() == RunLevel::RUNNING'' (ow_level w = RUNNING) w) (\<lambda>w.
       Inr (if ow_pending_token w = 0 then
              w\<lparr>ow_pending_token := ow_next_token w, ow_next_token := ow_next_token w + 1, ow_posted := ow_posted w + 1\<rparr>
            else w))"

definition OneShotWork_Cancel :: "one_shot_work \<Rightarrow> one_shot_work res" where
  "OneShotWork_Cancel w =
     bind_res (check ''GetLocalRunLevel() == RunLevel::RUNNING'' (ow_level w = RUNNING) w) (\<lambda>w.
       Inr (w\<lparr>ow_pending_token := 0\<rparr>))"

definition OneShotWork_CheckShutdown :: "one_shot_work \<Rightarrow> one_shot_work res" where
  "OneShotWork_CheckShutdown w =
     (if ow_level w = STOPPING \<and> ow_last_resolved_token w + 1 = ow_next_token w then
        bind_res (level_NotifyStopped (ow_level w)) (\<lambda>l. Inr (w\<lparr>ow_level := l, ow_children_stopped := True\<rparr>))
      else Inr w)"

definition OneShotWork_HandleStopping :: "one_shot_work \<Rightarrow> one_shot_work res" where
  "OneShotWork_HandleStopping w = OneShotWork_CheckShutdown (w\<lparr>ow_pending_token := 0\<rparr>)"

text \<open>What the client does in its callback: a list of calls to \<open>Schedule\<close> (True) and \<open>Cancel\<close>.\<close>

definition one_shot_op :: "bool \<Rightarrow> one_shot_work \<Rightarrow> one_shot_work res" where
  "one_shot_op schedule = (if schedule then OneShotWork_Schedule else OneShotWork_Cancel)"

definition DoCallback :: "bool list \<Rightarrow> one_shot_work \<Rightarrow> one_shot_work res" where
  "DoCallback ops w =
     bind_res (check ''(m_last_resolved_token + 1) < m_next_token'' (ow_last_resolved_token w + 1 < ow_next_token w) w) (\<lambda>w.
     let w = w\<lparr>ow_last_resolved_token := ow_last_resolved_token w + 1\<rparr>
     in bind_res (if ow_pending_token w = ow_last_resolved_token w then
            let w = w\<lparr>ow_pending_token := 0\<rparr>
            in if ow_callback w then fold_res one_shot_op ops (w\<lparr>ow_runs := ow_runs w + 1\<rparr>) else Inr w
          else Inr w) OneShotWork_CheckShutdown)"

subsection \<open>Runs\<close>

datatype one_shot_event = WorkOp bool | WorkPosted "bool list" | WorkStopping

fun do_one_shot :: "one_shot_event \<Rightarrow> one_shot_work \<Rightarrow> one_shot_work res" where
  "do_one_shot (WorkOp schedule) w = one_shot_op schedule w"
| "do_one_shot (WorkPosted ops) w = DoCallback ops (w\<lparr>ow_posted := ow_posted w - 1\<rparr>)"
| "do_one_shot WorkStopping w = OneShotWork_HandleStopping (w\<lparr>ow_level := STOPPING\<rparr>)"

fun one_shot_allowed :: "one_shot_event \<Rightarrow> one_shot_work \<Rightarrow> bool" where
  "one_shot_allowed (WorkOp _) w \<longleftrightarrow> ow_level w = RUNNING"
| "one_shot_allowed (WorkPosted _) w \<longleftrightarrow> 0 < ow_posted w"
| "one_shot_allowed WorkStopping w \<longleftrightarrow> ow_level w = RUNNING"

inductive one_shot_run :: "one_shot_event list \<Rightarrow> one_shot_work \<Rightarrow> bool" where
  one_shot_init: "one_shot_run [] (OneShotWork callback)"
| one_shot_step: "one_shot_run es w \<Longrightarrow> one_shot_allowed e w \<Longrightarrow> do_one_shot e w = Inr w' \<Longrightarrow> one_shot_run (es @ [e]) w'"

fun event_tokens :: "one_shot_event \<Rightarrow> nat" where
  "event_tokens (WorkOp _) = 1"
| "event_tokens (WorkPosted ops) = length ops"
| "event_tokens WorkStopping = 0"

definition total_tokens :: "one_shot_event list \<Rightarrow> nat" where
  "total_tokens es = sum_list (map event_tokens es)"

subsection \<open>The invariant\<close>

text \<open>
  The posted calls are those for the tokens between the last resolved and the next one, and the
  pending token, if there is one, is the newest of them.
\<close>

definition one_shot_tokens :: "one_shot_work \<Rightarrow> bool" where
  "one_shot_tokens w \<longleftrightarrow> unat (ow_last_resolved_token w) + ow_posted w + 1 = unat (ow_next_token w)
     \<and> (ow_pending_token w = 0 \<or> (0 < ow_posted w \<and> unat (ow_pending_token w) + 1 = unat (ow_next_token w)))
     \<and> (ow_level w \<noteq> RUNNING \<longrightarrow> ow_pending_token w = 0) \<and> ow_level w \<in> {RUNNING, STOPPING, STOPPED}"

definition one_shot_ok :: "one_shot_work \<Rightarrow> bool" where
  "one_shot_ok w \<longleftrightarrow> one_shot_tokens w \<and> (ow_level w = STOPPING \<longrightarrow> 0 < ow_posted w) \<and> (ow_level w = STOPPED \<longrightarrow> ow_posted w = 0)"

lemma one_shot_ok_init: "one_shot_ok (OneShotWork c)"
  by (simp add: one_shot_ok_def one_shot_tokens_def OneShotWork_def)

lemma OneShotWork_CheckShutdown_ok:
  assumes "one_shot_tokens w" "ow_level w \<noteq> STOPPED \<or> ow_posted w = 0"
  shows "\<exists>w'. OneShotWork_CheckShutdown w = Inr w' \<and> one_shot_ok w' \<and> ow_next_token w' = ow_next_token w
    \<and> ow_posted w' = ow_posted w \<and> ow_runs w' = ow_runs w \<and> ow_pending_token w' = ow_pending_token w
    \<and> ow_level w' = (if ow_level w = STOPPING \<and> ow_posted w = 0 then STOPPED else ow_level w)"
proof -
  have last: "unat (ow_last_resolved_token w + 1) = unat (ow_last_resolved_token w) + 1"
    using assms(1) unsigned_less [where 'a = nat, of "ow_next_token w"] by (intro unat_plus_1) (simp add: one_shot_tokens_def)
  have "ow_last_resolved_token w + 1 = ow_next_token w \<longleftrightarrow> ow_posted w = 0"
    using assms(1) last by (metis Suc_eq_plus1 add_cancel_left_right add_right_cancel one_shot_tokens_def word_unat_eq_iff)
  then show ?thesis
    using assms by (auto simp: OneShotWork_CheckShutdown_def one_shot_ok_def one_shot_tokens_def level_NotifyStopped_def)
qed

lemma one_shot_op_ok:
  assumes "one_shot_ok w" "ow_level w = RUNNING" "unat (ow_next_token w) + 1 < 2 ^ 64"
  shows "\<exists>w'. one_shot_op s w = Inr w' \<and> one_shot_ok w' \<and> ow_level w' = RUNNING
    \<and> unat (ow_next_token w') \<le> unat (ow_next_token w) + 1"
  using assms unat_plus_1 [OF assms(3)]
  by (auto simp: one_shot_op_def OneShotWork_Schedule_def OneShotWork_Cancel_def one_shot_ok_def one_shot_tokens_def)

lemma one_shot_ops_ok:
  "one_shot_ok w \<Longrightarrow> ow_level w = RUNNING \<Longrightarrow> unat (ow_next_token w) + length ops < 2 ^ 64 \<Longrightarrow>
   \<exists>w'. fold_res one_shot_op ops w = Inr w' \<and> one_shot_ok w' \<and> ow_level w' = RUNNING
    \<and> unat (ow_next_token w') \<le> unat (ow_next_token w) + length ops"
proof (induction ops arbitrary: w)
  case Nil
  then show ?case by simp
next
  case (Cons a ops)
  obtain w1 where w1: "one_shot_op a w = Inr w1" "one_shot_ok w1" "ow_level w1 = RUNNING"
      "unat (ow_next_token w1) \<le> unat (ow_next_token w) + 1"
    using one_shot_op_ok [OF Cons.prems(1,2), of a] Cons.prems(3) by auto
  have "\<exists>w'. fold_res one_shot_op ops w1 = Inr w' \<and> one_shot_ok w' \<and> ow_level w' = RUNNING
    \<and> unat (ow_next_token w') \<le> unat (ow_next_token w1) + length ops"
    by (rule Cons.IH) (use w1 Cons.prems(3) in auto)
  then show ?case
    using w1 by force
qed

text \<open>One posted call, up to its callback.\<close>

definition token_resolved :: "one_shot_work \<Rightarrow> one_shot_work" where
  "token_resolved w = w\<lparr>ow_posted := ow_posted w - 1, ow_last_resolved_token := ow_last_resolved_token w + 1,
     ow_pending_token := (if ow_pending_token w = ow_last_resolved_token w + 1 then 0 else ow_pending_token w)\<rparr>"

lemma token_facts:
  assumes "one_shot_ok w" "0 < ow_posted w"
  shows "one_shot_tokens (token_resolved w)" "ow_last_resolved_token w + 1 < ow_next_token w"
    "ow_level w \<noteq> STOPPED" "ow_pending_token w = ow_last_resolved_token w + 1 \<longleftrightarrow> ow_pending_token w \<noteq> 0 \<and> ow_posted w = 1"
proof -
  have last: "unat (ow_last_resolved_token w + 1) = unat (ow_last_resolved_token w) + 1"
    using assms(1) unsigned_less [where 'a = nat, of "ow_next_token w"]
    by (intro unat_plus_1) (simp add: one_shot_ok_def one_shot_tokens_def)
  show "ow_last_resolved_token w + 1 < ow_next_token w" "ow_level w \<noteq> STOPPED"
    using assms last by (auto simp: one_shot_ok_def one_shot_tokens_def word_less_nat_alt)
  show pend: "ow_pending_token w = ow_last_resolved_token w + 1 \<longleftrightarrow> ow_pending_token w \<noteq> 0 \<and> ow_posted w = 1"
    using assms last unfolding word_unat_eq_iff [of "ow_pending_token w"] by (auto simp: one_shot_ok_def one_shot_tokens_def)
  show "one_shot_tokens (token_resolved w)"
    using assms last pend by (auto simp: one_shot_ok_def one_shot_tokens_def token_resolved_def)
qed

lemma DoCallback_token_resolved:
  assumes "one_shot_ok w" "0 < ow_posted w"
  shows "do_one_shot (WorkPosted ops) w =
    bind_res (if ow_pending_token w = ow_last_resolved_token w + 1 \<and> ow_callback w then
        fold_res one_shot_op ops ((token_resolved w)\<lparr>ow_runs := ow_runs w + 1\<rparr>)
      else Inr (token_resolved w)) OneShotWork_CheckShutdown"
  using token_facts(2) [OF assms]
  by (auto simp: DoCallback_def check_def Let_def token_resolved_def)

lemma one_shot_event_ok:
  assumes "one_shot_ok w" "one_shot_allowed e w" "unat (ow_next_token w) + event_tokens e < 2 ^ 64"
  shows "\<exists>w'. do_one_shot e w = Inr w' \<and> one_shot_ok w' \<and> unat (ow_next_token w') \<le> unat (ow_next_token w) + event_tokens e"
proof (cases e)
  case (WorkOp s)
  then show ?thesis
    using one_shot_op_ok [OF assms(1), of s] assms(2,3) by auto
next
  case WorkStopping
  let ?w = "w\<lparr>ow_level := STOPPING, ow_pending_token := 0\<rparr>"
  have "one_shot_tokens ?w"
    using assms(1) by (auto simp: one_shot_ok_def one_shot_tokens_def)
  then show ?thesis
    using OneShotWork_CheckShutdown_ok [of ?w] WorkStopping by (auto simp: OneShotWork_HandleStopping_def)
next
  case (WorkPosted ops)
  then have posted: "0 < ow_posted w"
    using assms(2) by simp
  note p = token_facts [OF assms(1) posted]
  have res: "ow_level (token_resolved w) = ow_level w" "ow_next_token (token_resolved w) = ow_next_token w"
    by (simp_all add: token_resolved_def)
  show ?thesis
  proof (cases "ow_pending_token w = ow_last_resolved_token w + 1 \<and> ow_callback w")
    case False
    then show ?thesis
      using OneShotWork_CheckShutdown_ok [OF p(1)] p(3) res WorkPosted DoCallback_token_resolved [OF assms(1) posted, of ops]
      by auto
  next
    case True
    then have run: "ow_level w = RUNNING"
      using assms(1) p(4) by (auto simp: one_shot_ok_def one_shot_tokens_def)
    let ?u = "(token_resolved w)\<lparr>ow_runs := ow_runs w + 1\<rparr>"
    have u: "one_shot_ok ?u" "ow_level ?u = RUNNING" "unat (ow_next_token ?u) + length ops < 2 ^ 64"
      using p(1) run res assms(3) WorkPosted by (simp_all add: one_shot_ok_def one_shot_tokens_def)
    show ?thesis
      using one_shot_ops_ok [OF u] DoCallback_token_resolved [OF assms(1) posted, of ops] True WorkPosted res
      by (auto simp: OneShotWork_CheckShutdown_def)
  qed
qed

lemma one_shot_run_ok:
  "one_shot_run es w \<Longrightarrow> total_tokens es + 1 < 2 ^ 64 \<Longrightarrow> one_shot_ok w \<and> unat (ow_next_token w) \<le> total_tokens es + 1"
proof (induction rule: one_shot_run.induct)
  case (one_shot_init callback)
  then show ?case
    by (simp add: one_shot_ok_init total_tokens_def) (simp add: OneShotWork_def)
next
  case (one_shot_step es w e w')
  then have "one_shot_ok w" "unat (ow_next_token w) \<le> total_tokens es + 1" "total_tokens es + event_tokens e + 1 < 2 ^ 64"
    by (simp_all add: total_tokens_def)
  then show ?case
    using one_shot_event_ok [OF _ one_shot_step.hyps(2)] one_shot_step.hyps(3) by (fastforce simp: total_tokens_def)
qed

subsection \<open>Properties\<close>

fun drain :: "nat \<Rightarrow> one_shot_work \<Rightarrow> one_shot_work res" where
  "drain 0 w = Inr w"
| "drain (Suc n) w = bind_res (do_one_shot (WorkPosted []) w) (drain n)"

lemma one_shot_posted:
  assumes "one_shot_ok w" "ow_callback w" "0 < ow_posted w"
  shows "\<exists>w'. do_one_shot (WorkPosted []) w = Inr w' \<and> one_shot_ok w' \<and> ow_posted w' = ow_posted w - 1 \<and> ow_callback w' = ow_callback w
    \<and> ow_runs w' = ow_runs w + (if IScheduled w \<and> ow_posted w = 1 then 1 else 0)
    \<and> IScheduled w' = (IScheduled w \<and> 1 < ow_posted w)
    \<and> ow_level w' = (if ow_level w = STOPPING \<and> ow_posted w = 1 then STOPPED else ow_level w)"
proof -
  note p = token_facts [OF assms(1,3)]
  define c where "c = (ow_pending_token w = ow_last_resolved_token w + 1)"
  let ?u = "(token_resolved w)\<lparr>ow_runs := ow_runs w + (if c then 1 else 0)\<rparr>"
  have "one_shot_tokens ?u"
    using p(1) by (simp add: one_shot_tokens_def)
  moreover have "do_one_shot (WorkPosted []) w = OneShotWork_CheckShutdown ?u"
    using DoCallback_token_resolved [OF assms(1,3), of "[]"] assms(2) by (auto simp: c_def token_resolved_def)
  moreover have "ow_callback w' = ow_callback ?u" if "OneShotWork_CheckShutdown ?u = Inr w'" for w'
    using that by (auto simp: OneShotWork_CheckShutdown_def level_NotifyStopped_def split: if_splits)
  moreover have "ow_level ?u \<noteq> STOPPED" "ow_posted ?u = ow_posted w - 1" "ow_level ?u = ow_level w" "ow_callback ?u = ow_callback w"
      "ow_pending_token ?u = (if c then 0 else ow_pending_token w)"
    using p(3) by (auto simp: token_resolved_def c_def)
  ultimately obtain w' where w': "do_one_shot (WorkPosted []) w = Inr w'" "one_shot_ok w'" "ow_posted w' = ow_posted w - 1"
      "ow_runs w' = ow_runs ?u" "ow_callback w' = ow_callback w" "ow_pending_token w' = (if c then 0 else ow_pending_token w)"
      "ow_level w' = (if ow_level w = STOPPING \<and> ow_posted w - 1 = 0 then STOPPED else ow_level w)"
    using OneShotWork_CheckShutdown_ok [of ?u] by auto
  have c: "c = (ow_pending_token w \<noteq> 0 \<and> ow_posted w = 1)"
    using p(4) by (simp add: c_def)
  have "ow_pending_token w = 0 \<or> ow_level w = RUNNING"
    using assms(1) by (auto simp: one_shot_ok_def one_shot_tokens_def)
  then show ?thesis
    using w' assms(3) unfolding c by (intro exI [of _ w']) (auto simp: IScheduled_def)
qed

lemma drain_ok:
  "one_shot_ok w \<Longrightarrow> ow_callback w \<Longrightarrow> n = ow_posted w \<Longrightarrow>
   \<exists>w'. drain n w = Inr w' \<and> ow_runs w' = ow_runs w + (if IScheduled w then 1 else 0) \<and> \<not> IScheduled w'
    \<and> ow_level w' = (if ow_level w = STOPPING then STOPPED else ow_level w)"
proof (induction n arbitrary: w)
  case 0
  then show ?case
    by (auto simp: IScheduled_def one_shot_ok_def one_shot_tokens_def)
next
  case (Suc n)
  then have "0 < ow_posted w"
    by simp
  from one_shot_posted [OF Suc.prems(1,2) this] obtain w1 where w1: "do_one_shot (WorkPosted []) w = Inr w1" "one_shot_ok w1"
      "ow_posted w1 = ow_posted w - 1" "ow_callback w1 = ow_callback w" "ow_runs w1 = ow_runs w + (if IScheduled w \<and> ow_posted w = 1 then 1 else 0)"
      "IScheduled w1 = (IScheduled w \<and> 1 < ow_posted w)" "ow_level w1 = (if ow_level w = STOPPING \<and> ow_posted w = 1 then STOPPED else ow_level w)"
    by blast
  have posted: "ow_posted w1 = n"
    using w1(3) Suc.prems(3) by simp
  have stop: "n = 0 \<or> ow_level w1 \<noteq> STOPPED" "ow_level w1 \<noteq> STOPPING \<or> 0 < n"
    using w1(2) posted by (auto simp: one_shot_ok_def)
  obtain w' where w': "drain n w1 = Inr w'" "ow_runs w' = ow_runs w1 + (if IScheduled w1 then 1 else 0)" "\<not> IScheduled w'"
      "ow_level w' = (if ow_level w1 = STOPPING then STOPPED else ow_level w1)"
    using Suc.IH [of w1] w1(2,4) posted Suc.prems(2) by blast
  have runs: "ow_runs w' = ow_runs w + (if IScheduled w then 1 else 0)"
    unfolding w'(2) w1(5) using w1(6) Suc.prems(3) [symmetric] by (cases n) auto
  have level: "ow_level w' = (if ow_level w = STOPPING then STOPPED else ow_level w)"
    unfolding w'(4) using w1(7) by (auto split: if_splits)
  have "drain (Suc n) w = Inr w'"
    using w1(1) w'(1) by simp
  with runs level w'(3) show ?case
    by blast
qed

text \<open>
  C25: One-shot work runs exactly when it should. After any run of a \<open>OneShotWork\<close> - scheduling,
  cancelling and scheduling again, callbacks that do the same, posted calls made at any time,
  a stop by the run time - making the calls that are still posted fails no assertion and runs
  the client's work once if it is scheduled and not at all if it is cancelled, however many
  calls there are; and a stopping resource then reports that it has stopped, and not before.
\<close>

theorem OneShotWork_exactly_once:
  assumes "one_shot_run es w" "ow_callback w" "total_tokens es + 1 < 2 ^ 64"
  shows "\<exists>w'. drain (ow_posted w) w = Inr w' \<and> ow_runs w' = ow_runs w + (if IScheduled w then 1 else 0) \<and> \<not> IScheduled w'
    \<and> (ow_level w \<noteq> STOPPING \<or> ow_level w' = STOPPED \<and> 0 < ow_posted w) \<and> (ow_level w \<noteq> STOPPED \<or> ow_posted w = 0)"
  using one_shot_run_ok [OF assms(1,3)] drain_ok [OF _ assms(2) refl] by (fastforce simp: one_shot_ok_def)

text \<open>
  No assertion of \<open>OneShotWork.cpp\<close> fails in any run of the events its owner and the proactor
  may produce.
\<close>

theorem OneShotWork_no_fault:
  assumes "one_shot_run es w" "one_shot_allowed e w" "total_tokens (es @ [e]) + 1 < 2 ^ 64"
  shows "\<exists>w'. do_one_shot e w = Inr w'"
  using one_shot_run_ok [OF assms(1)] one_shot_event_ok [OF _ assms(2)] assms(3) by (fastforce simp: total_tokens_def)

definition example_work_events :: "one_shot_event list" where
  "example_work_events = [WorkOp True, WorkOp False, WorkOp True, WorkPosted []]"

lemma example_work_run:
  "one_shot_run example_work_events \<lparr>ow_level = RUNNING, ow_children_stopped = False, ow_next_token = 3, ow_pending_token = 2,
     ow_last_resolved_token = 1, ow_callback = True, ow_posted = 1, ow_runs = 0\<rparr>"
proof -
  have "one_shot_run ((([] @ [WorkOp True]) @ [WorkOp False]) @ [WorkOp True]) \<lparr>ow_level = RUNNING, ow_children_stopped = False, ow_next_token = 3,
     ow_pending_token = 2, ow_last_resolved_token = 0, ow_callback = True, ow_posted = 2, ow_runs = 0\<rparr>"
    by (rule one_shot_step one_shot_init [of True] | simp add: OneShotWork_def one_shot_op_def OneShotWork_Schedule_def OneShotWork_Cancel_def check_def)+
  from one_shot_step [OF this, of "WorkPosted []"] show ?thesis
    by (simp add: example_work_events_def DoCallback_def check_def OneShotWork_CheckShutdown_def)
qed

theorem OneShotWork_exactly_once_witness:
  "\<exists>w w'. IScheduled w \<and> ow_runs w = 0 \<and> drain (ow_posted w) w = Inr w' \<and> ow_runs w' = 1"
proof -
  let ?w = "\<lparr>ow_level = RUNNING, ow_children_stopped = False, ow_next_token = 3, ow_pending_token = 2,
     ow_last_resolved_token = 1, ow_callback = True, ow_posted = 1, ow_runs = 0\<rparr>"
  have "IScheduled ?w"
    by (simp add: IScheduled_def)
  moreover from this obtain w' where "drain (ow_posted ?w) ?w = Inr w'" "ow_runs w' = 1"
    using OneShotWork_exactly_once [OF example_work_run]
    by (auto simp: example_work_events_def total_tokens_def simp del: drain.simps)
  ultimately show ?thesis
    by (intro exI [of _ ?w] exI [of _ w']) simp
qed

theorem OneShotWork_no_fault_witness:
  "\<exists>w w'. ow_runs w = 0 \<and> do_one_shot WorkStopping w = Inr w'"
proof -
  let ?w = "\<lparr>ow_level = RUNNING, ow_children_stopped = False, ow_next_token = 3, ow_pending_token = 2,
     ow_last_resolved_token = 1, ow_callback = True, ow_posted = 1, ow_runs = 0\<rparr>"
  obtain w' where "do_one_shot WorkStopping ?w = Inr w'"
    using OneShotWork_no_fault [OF example_work_run, of WorkStopping]
    by (auto simp: example_work_events_def total_tokens_def simp del: do_one_shot.simps)
  then show ?thesis
    by (intro exI [of _ ?w] exI [of _ w']) simp
qed

end
