(* ===== verification/HttpServer.thy ===== *)
theory HttpServer
  imports HttpDispatch WebSocket OneShotWork
begin

section \<open>bbox::http::server::HttpServer\<close>

text \<open>
  \<open>BBoxHttp/bbox/http/server/HttpServer.cpp\<close>: the server owns its listeners, connections and web
  sockets; each of them is removed by a call that it posts when it has ended, and the server
  has stopped when all are gone, which a \<open>OneShotWork\<close> checks. The model composes the models of
  these parts. A pointer is a number, \<open>hs_next\<close> the next one that is unused.
\<close>

subsection \<open>State\<close>

record listener =
  ls_is_accept_pending :: bool
  ls_stop_requested :: bool
  ls_lib_accept :: bool
  ls_stopped :: nat

datatype posted_erase = EraseListener nat | EraseConnection nat | EraseWebSocket nat

record http_server =
  hs_level :: run_level
  hs_children_stopped :: bool
  hs_check_shutdown_work :: one_shot_work
  hs_listeners :: "(nat \<times> listener) list"
  hs_connections :: "(nat \<times> connection) list"
  hs_web_sockets :: "(nat \<times> web_socket) list"
  hs_handlers :: dispatcher
  hs_posted :: "posted_erase list"
  hs_next :: nat
  hs_version :: string

definition HttpServer :: "string \<Rightarrow> http_server" where
  "HttpServer version = \<lparr>hs_level = CONSTRUCTED, hs_children_stopped = False, hs_check_shutdown_work = OneShotWork True,
     hs_listeners = [], hs_connections = [], hs_web_sockets = [], hs_handlers = new_dispatcher CONSTRUCTED, hs_posted = [],
     hs_next = 0, hs_version = version\<rparr>"

subsection \<open>Listeners\<close>

definition StartAccept :: "listener \<Rightarrow> listener res" where
  "StartAccept l =
     bind_res (check ''!m_stop_requested'' (\<not> ls_stop_requested l) l) (\<lambda>l.
     bind_res (check ''!m_is_accept_pending'' (\<not> ls_is_accept_pending l) l) (\<lambda>l.
       Inr (l\<lparr>ls_is_accept_pending := True, ls_lib_accept := True\<rparr>)))"

text \<open>
  How the constructor fares: the acceptor cannot be opened, or it can, but not configured or
  bound, or it listens.
\<close>

datatype open_result = NotOpened | NotBound | Listening

definition Listener :: "open_result \<Rightarrow> listener res" where
  "Listener opened =
     (let l = \<lparr>ls_is_accept_pending = False, ls_stop_requested = False, ls_lib_accept = False, ls_stopped = 0\<rparr>
      in if opened = Listening then StartAccept l else Inr l)"

definition AsyncStop :: "listener \<Rightarrow> listener res" where
  "AsyncStop l =
     bind_res (check ''!m_stop_requested'' (\<not> ls_stop_requested l) l) (\<lambda>l.
     bind_res (check ''m_is_accept_pending'' (ls_is_accept_pending l) l) (\<lambda>l.
       Inr (l\<lparr>ls_stop_requested := True\<rparr>)))"

text \<open>
  \<open>AddServer\<close>: for the activity log the code asks the acceptor for its endpoint, and the
  library throws if it is not open, so that no listener remains. The code asserts the overall run level, that of the
  server and all below it; the model has one level \<open>hs_level\<close> for both, since the resources below a server
  that runs have started with it.
\<close>

datatype 'a outcome_of = Done 'a | Throws 'a

definition AddServer :: "open_result \<Rightarrow> http_server \<Rightarrow> http_server outcome_of res" where
  "AddServer opened s =
     bind_res (check ''GetOverallRunLevel() == RUNNING'' (hs_level s = RUNNING) s) (\<lambda>s.
     bind_res (Listener opened) (\<lambda>l.
       if opened = NotOpened then Inr (Throws s)
       else Inr (Done (s\<lparr>hs_listeners := hs_listeners s @ [(hs_next s, l)], hs_next := hs_next s + 1\<rparr>))))"

text \<open>What \<open>AddUnassignedPortServer\<close> returns: its \<open>true\<close>, as an \<open>unsigned short\<close>.\<close>

definition AddUnassignedPortServer :: "open_result \<Rightarrow> http_server \<Rightarrow> (http_server outcome_of \<times> 16 word) res" where
  "AddUnassignedPortServer opened s = bind_res (AddServer opened s) (\<lambda>r. Inr (r, 1))"

definition put :: "nat \<Rightarrow> 'a \<Rightarrow> (nat \<times> 'a) list \<Rightarrow> (nat \<times> 'a) list" where
  "put k v m = map (\<lambda>e. if fst e = k then (k, v) else e) m"

definition ListenerStopped :: "nat \<Rightarrow> http_server \<Rightarrow> http_server" where
  "ListenerStopped i s = s\<lparr>hs_posted := hs_posted s @ [EraseListener i]\<rparr>"

definition Listener_OnAccept :: "nat \<Rightarrow> bool \<Rightarrow> listener \<Rightarrow> http_server \<Rightarrow> http_server res" where
  "Listener_OnAccept i ec l s =
     bind_res (check ''m_is_accept_pending'' (ls_is_accept_pending l) l) (\<lambda>l.
     let l = l\<lparr>ls_is_accept_pending := False\<rparr>
     in if ls_stop_requested l then
          Inr (ListenerStopped i (s\<lparr>hs_listeners := put i (l\<lparr>ls_stop_requested := False, ls_stopped := ls_stopped l + 1\<rparr>) (hs_listeners s)\<rparr>))
        else if ec then Inr (s\<lparr>hs_listeners := put i l (hs_listeners s)\<rparr>)
        else bind_res (StartAccept l) (\<lambda>l.
          Inr (s\<lparr>hs_listeners := put i l (hs_listeners s),
            hs_connections := hs_connections s @ [(hs_next s, Connection (hs_version s))], hs_next := hs_next s + 1\<rparr>)))"

subsection \<open>Starting and stopping\<close>

definition HttpServer_HandleStarting :: "http_server \<Rightarrow> http_server res" where
  "HttpServer_HandleStarting s =
     bind_res (check ''m_listeners.empty()'' (hs_listeners s = []) s) (\<lambda>s.
     bind_res (check ''m_connections.empty()'' (hs_connections s = []) s) (\<lambda>s.
     bind_res (check ''m_request_handlers.empty()'' (hd_set (hs_handlers s) = []) s) (\<lambda>s.
     bind_res (level_NotifyStarted (hs_level s)) (\<lambda>l.
       Inr (s\<lparr>hs_level := l, hs_handlers := (hs_handlers s)\<lparr>hd_server_level := l\<rparr>\<rparr>)))))"

definition schedule_check :: "http_server \<Rightarrow> http_server res" where
  "schedule_check s = bind_res (OneShotWork_Schedule (hs_check_shutdown_work s)) (\<lambda>w. Inr (s\<lparr>hs_check_shutdown_work := w\<rparr>))"

definition stop_listener :: "nat \<times> listener \<Rightarrow> http_server \<Rightarrow> http_server res" where
  "stop_listener e s = bind_res (AsyncStop (snd e)) (\<lambda>l. Inr (s\<lparr>hs_listeners := put (fst e) l (hs_listeners s)\<rparr>))"

text \<open>A web socket that becomes closed posts its removal (\<open>WebSocketClosed\<close>).\<close>

definition put_web_socket :: "nat \<Rightarrow> web_socket \<Rightarrow> web_socket \<Rightarrow> http_server \<Rightarrow> http_server" where
  "put_web_socket i w w' s = s\<lparr>hs_web_sockets := put i w' (hs_web_sockets s),
     hs_posted := hs_posted s @ replicate (ws_closed w' - ws_closed w) (EraseWebSocket i)\<rparr>"

definition close_web_socket :: "nat \<times> web_socket \<Rightarrow> http_server \<Rightarrow> http_server" where
  "close_web_socket e = put_web_socket (fst e) (snd e) (Close (snd e))"

definition HttpServer_HandleStopping :: "http_server \<Rightarrow> http_server res" where
  "HttpServer_HandleStopping s =
     bind_res (check ''m_request_handlers.empty()'' (hd_set (hs_handlers s) = []) s) (\<lambda>s.
     bind_res (fold_res stop_listener (hs_listeners s) s) (\<lambda>s.
       schedule_check (fold close_web_socket (hs_web_sockets s) s)))"

definition all_gone :: "http_server \<Rightarrow> bool" where
  "all_gone s \<longleftrightarrow> hs_listeners s = [] \<and> hs_connections s = [] \<and> hs_web_sockets s = []"

definition CheckShutdown :: "http_server \<Rightarrow> http_server res" where
  "CheckShutdown s =
     (if hs_level s = STOPPING \<and> all_gone s then
        bind_res (level_NotifyStopped (hs_level s)) (\<lambda>l. Inr (s\<lparr>hs_level := l, hs_children_stopped := True\<rparr>))
      else Inr s)"

subsection \<open>Removal\<close>

definition erase :: "nat \<Rightarrow> (nat \<times> 'a) list \<Rightarrow> (nat \<times> 'a) list" where
  "erase k m = [e \<leftarrow> m. fst e \<noteq> k]"

definition erased_one :: "nat \<Rightarrow> (nat \<times> 'a) list \<Rightarrow> bool" where
  "erased_one k m \<longleftrightarrow> length m - length (erase k m) = 1"

fun run_posted :: "posted_erase \<Rightarrow> http_server \<Rightarrow> http_server res" where
  "run_posted (EraseListener i) s =
     bind_res (check ''erase_result == 1'' (erased_one i (hs_listeners s)) (s\<lparr>hs_listeners := erase i (hs_listeners s)\<rparr>)) (\<lambda>s.
       if hs_listeners s = [] \<and> hs_level s = STOPPING then schedule_check s else Inr s)"
| "run_posted (EraseConnection i) s =
     bind_res (check ''erase_result == 1'' (erased_one i (hs_connections s)) (s\<lparr>hs_connections := erase i (hs_connections s)\<rparr>)) (\<lambda>s.
       if hs_connections s = [] \<and> hs_level s = STOPPING then schedule_check s else Inr s)"
| "run_posted (EraseWebSocket i) s =
     bind_res (check ''erase_result == 1'' (erased_one i (hs_web_sockets s)) (s\<lparr>hs_web_sockets := erase i (hs_web_sockets s)\<rparr>)) (\<lambda>s.
       if hs_web_sockets s = [] \<and> hs_level s = STOPPING then schedule_check s else Inr s)"

subsection \<open>Runs\<close>

datatype server_event =
    SrvStarting
  | SrvStopping
  | SrvAddServer open_result
  | SrvAccepted nat bool
  | SrvConnection nat connection_event
  | SrvWebSocket nat socket_event
  | SrvHandler handler_op
  | SrvPosted nat
  | SrvWork

text \<open>
  A connection that closes posts its removal; an upgrade creates a web socket first, for the
  handle with the connection's number.
\<close>

definition put_connection :: "nat \<Rightarrow> connection \<Rightarrow> connection \<Rightarrow> http_server \<Rightarrow> http_server" where
  "put_connection i c c' s =
     (let s = (if cn_upgraded c' \<and> \<not> cn_upgraded c then
            s\<lparr>hs_web_sockets := hs_web_sockets s @ [(hs_next s, Upgrade i)], hs_next := hs_next s + 1\<rparr> else s)
      in s\<lparr>hs_connections := put i c' (hs_connections s),
         hs_posted := hs_posted s @ replicate (cn_closed_notified c' - cn_closed_notified c) (EraseConnection i)\<rparr>)"

text \<open>A request that has been read is first dispatched (\<open>HandleRequest\<close>), which counts it.\<close>

definition count_request :: "connection_event \<Rightarrow> http_server \<Rightarrow> http_server" where
  "count_request e s = (case e of
       ReadDone (Some rq) \<Rightarrow> s\<lparr>hs_handlers := fst (HandleRequest False (target_path (rq_target rq)) (hs_handlers s))\<rparr>
     | _ \<Rightarrow> s)"

definition run_work :: "http_server \<Rightarrow> http_server res" where
  "run_work s = bind_res (do_one_shot (WorkPosted []) (hs_check_shutdown_work s)) (\<lambda>w.
     let s' = s\<lparr>hs_check_shutdown_work := w\<rparr>
     in if ow_runs w > ow_runs (hs_check_shutdown_work s) then CheckShutdown s' else Inr s')"

fun do_server :: "server_event \<Rightarrow> http_server \<Rightarrow> http_server res" where
  "do_server SrvStarting s = HttpServer_HandleStarting (s\<lparr>hs_level := STARTING\<rparr>)"
| "do_server SrvStopping s = HttpServer_HandleStopping (s\<lparr>hs_level := STOPPING\<rparr>)"
| "do_server (SrvAddServer opened) s = bind_res (AddServer opened s) (\<lambda>r. Inr (case r of Done s \<Rightarrow> s | Throws s \<Rightarrow> s))"
| "do_server (SrvAccepted i ec) s = (case map_of (hs_listeners s) i of
       None \<Rightarrow> Inl NullPointer
     | Some l \<Rightarrow> Listener_OnAccept i ec (l\<lparr>ls_lib_accept := False\<rparr>) s)"
| "do_server (SrvConnection i e) s = (case map_of (hs_connections s) i of
       None \<Rightarrow> Inl NullPointer
     | Some c \<Rightarrow> bind_res (do_connection e c) (\<lambda>c'. Inr (put_connection i c c' (count_request e s))))"
| "do_server (SrvWebSocket i e) s = (case map_of (hs_web_sockets s) i of
       None \<Rightarrow> Inl NullPointer
     | Some w \<Rightarrow> bind_res (do_socket e w) (\<lambda>w'. Inr (put_web_socket i w w' s)))"
| "do_server (SrvHandler a) s = bind_res (do_handler_op a (hs_handlers s)) (\<lambda>d. Inr (s\<lparr>hs_handlers := d\<rparr>))"
| "do_server (SrvPosted n) s = run_posted (hs_posted s ! n) (s\<lparr>hs_posted := take n (hs_posted s) @ drop (Suc n) (hs_posted s)\<rparr>)"
| "do_server SrvWork s = run_work s"

text \<open>
  The run time starts and stops the server once, and stops it when the handlers have logged
  out; the library calls the handlers of what is outstanding; the clients answer, upgrade or
  drop requests and use their web sockets.
\<close>

fun server_allowed :: "server_event \<Rightarrow> http_server \<Rightarrow> bool" where
  "server_allowed SrvStarting s \<longleftrightarrow> hs_level s = CONSTRUCTED"
| "server_allowed SrvStopping s \<longleftrightarrow> hs_level s = RUNNING \<and> hd_set (hs_handlers s) = []"
| "server_allowed (SrvAddServer _) s \<longleftrightarrow> hs_level s = RUNNING"
| "server_allowed (SrvAccepted i _) s \<longleftrightarrow> (case map_of (hs_listeners s) i of None \<Rightarrow> False | Some l \<Rightarrow> ls_lib_accept l)"
| "server_allowed (SrvConnection i e) s \<longleftrightarrow> (case map_of (hs_connections s) i of None \<Rightarrow> False | Some c \<Rightarrow> connection_allowed e c)"
| "server_allowed (SrvWebSocket i e) s \<longleftrightarrow> (case map_of (hs_web_sockets s) i of None \<Rightarrow> False | Some w \<Rightarrow> socket_allowed e w)"
| "server_allowed (SrvHandler a) s \<longleftrightarrow> hs_level s = RUNNING \<and> (\<exists>d. do_handler_op a (hs_handlers s) = Inr d)"
| "server_allowed (SrvPosted n) s \<longleftrightarrow> n < length (hs_posted s)"
| "server_allowed SrvWork s \<longleftrightarrow> 0 < ow_posted (hs_check_shutdown_work s)"

inductive server_run :: "server_event list \<Rightarrow> http_server \<Rightarrow> bool" where
  server_init: "server_run [] (HttpServer version)"
| server_step: "server_run es s \<Longrightarrow> server_allowed e s \<Longrightarrow> do_server e s = Inr s' \<Longrightarrow> server_run (es @ [e]) s'"

text \<open>
  What the code forgets: a listener whose acceptor failed has no accept pending. It is a
  condition on the run here.
\<close>

definition accepting :: "http_server \<Rightarrow> bool" where
  "accepting s \<longleftrightarrow> list_all (\<lambda>e. ls_is_accept_pending (snd e)) (hs_listeners s)"

subsection \<open>The invariant\<close>

definition pointers_ok :: "http_server \<Rightarrow> bool" where
  "pointers_ok s \<longleftrightarrow> distinct (map fst (hs_listeners s)) \<and> distinct (map fst (hs_connections s)) \<and> distinct (map fst (hs_web_sockets s))
     \<and> (\<forall>i \<in> fst ` set (hs_listeners s) \<union> fst ` set (hs_connections s) \<union> fst ` set (hs_web_sockets s). i < hs_next s)"

definition notified :: "('a \<Rightarrow> nat) \<Rightarrow> nat \<Rightarrow> (nat \<times> 'a) list \<Rightarrow> nat" where
  "notified f i m = (case map_of m i of None \<Rightarrow> 0 | Some x \<Rightarrow> f x)"

text \<open>Each removal is posted once, by an object that is still there.\<close>

definition posted_ok :: "http_server \<Rightarrow> bool" where
  "posted_ok s \<longleftrightarrow> (\<forall>i. count_list (hs_posted s) (EraseListener i) = notified ls_stopped i (hs_listeners s)
     \<and> count_list (hs_posted s) (EraseConnection i) = notified cn_closed_notified i (hs_connections s)
     \<and> count_list (hs_posted s) (EraseWebSocket i) = notified ws_closed i (hs_web_sockets s))"

definition listener_ok :: "run_level \<Rightarrow> listener \<Rightarrow> bool" where
  "listener_ok level l \<longleftrightarrow> ls_lib_accept l = ls_is_accept_pending l
     \<and> (if level = STOPPING then ls_stopped l = (if ls_is_accept_pending l then 0 else 1) \<and> ls_stop_requested l = ls_is_accept_pending l
        else ls_stopped l = 0 \<and> \<not> ls_stop_requested l)"

definition parts_ok :: "http_server \<Rightarrow> bool" where
  "parts_ok s \<longleftrightarrow> (\<forall>l \<in> snd ` set (hs_listeners s). listener_ok (hs_level s) l)
     \<and> (\<forall>c \<in> snd ` set (hs_connections s). connection_ok c) \<and> (\<forall>w \<in> snd ` set (hs_web_sockets s). socket_ok w)"

definition http_work_ok :: "nat \<Rightarrow> http_server \<Rightarrow> bool" where
  "http_work_ok n s \<longleftrightarrow> one_shot_ok (hs_check_shutdown_work s) \<and> ow_callback (hs_check_shutdown_work s)
     \<and> ow_level (hs_check_shutdown_work s) = RUNNING \<and> unat (ow_next_token (hs_check_shutdown_work s)) \<le> n + 1"

definition http_levels_ok :: "http_server \<Rightarrow> bool" where
  "http_levels_ok s \<longleftrightarrow> hs_level s \<in> {CONSTRUCTED, RUNNING, STOPPING, STOPPED}
     \<and> (hs_level s = CONSTRUCTED \<or> hs_level s = STOPPED \<longrightarrow> all_gone s)
     \<and> (hs_level s \<noteq> RUNNING \<longrightarrow> hd_set (hs_handlers s) = [])
     \<and> (hs_level s = STOPPING \<and> all_gone s \<longrightarrow> IScheduled (hs_check_shutdown_work s))"

definition server_ok :: "nat \<Rightarrow> http_server \<Rightarrow> bool" where
  "server_ok n s \<longleftrightarrow> pointers_ok s \<and> posted_ok s \<and> parts_ok s \<and> http_work_ok n s \<and> http_levels_ok s"

lemma server_ok_init: "server_ok 0 (HttpServer v)"
  by (simp add: server_ok_def pointers_ok_def posted_ok_def notified_def parts_ok_def http_work_ok_def http_levels_ok_def HttpServer_def
      one_shot_ok_init OneShotWork_def all_gone_def new_dispatcher_def one_shot_ok_def one_shot_tokens_def)

subsection \<open>Objects by pointer\<close>

lemma put_fst [simp]: "map fst (put k v m) = map fst m"
  by (induction m) (auto simp: put_def)

lemma put_fst_image [simp]: "fst ` set (put k v m) = fst ` set m"
  by (metis put_fst set_map)

lemma put_eq_Nil [simp]: "put k v m = [] \<longleftrightarrow> m = []"
  by (simp add: put_def)

lemma map_of_put: "map_of (put k v m) i = (if i = k \<and> k \<in> fst ` set m then Some v else map_of m i)"
  by (induction m) (force simp: put_def)+

lemma snd_put: "x \<in> snd ` set (put k v m) \<Longrightarrow> x = v \<or> x \<in> snd ` set m"
  by (induction m) (auto simp: put_def split: if_splits)

lemma map_of_mem: "map_of m k = Some v \<Longrightarrow> k \<in> fst ` set m \<and> v \<in> snd ` set m \<and> m \<noteq> []"
  by (force dest: map_of_SomeD)

lemma notified_put: "map_of m k = Some x \<Longrightarrow> notified f i (put k v m) = (if i = k then f v else notified f i m)"
  by (auto simp: notified_def map_of_put dest: map_of_mem)

lemma notified_append: "k \<notin> fst ` set m \<Longrightarrow> f v = 0 \<Longrightarrow> notified f i (m @ [(k, v)]) = notified f i m"
  by (auto simp: notified_def map_add_def split: option.split)

lemma notified_zero: "i \<notin> fst ` set m \<Longrightarrow> notified f i m = 0"
  by (auto simp: notified_def split: option.split dest: map_of_mem)

lemma notified_map: "notified f i (map (\<lambda>e. (fst e, g (snd e))) m) = notified (\<lambda>x. f (g x)) i m"
  by (induction m) (auto simp: notified_def)

lemma erase_map_of: "map_of (erase k m) i = (if i = k then None else map_of m i)"
  by (induction m) (auto simp: erase_def)

lemma notified_erase: "notified f i (erase k m) = (if i = k then 0 else notified f i m)"
  by (simp add: notified_def erase_map_of)

lemma erase_set: "set (erase k m) \<subseteq> set m" "distinct (map fst m) \<Longrightarrow> distinct (map fst (erase k m))"
  by (auto simp: erase_def distinct_map_filter)

lemma erased_one_ok: "distinct (map fst m) \<Longrightarrow> k \<in> fst ` set m \<Longrightarrow> erased_one k m"
proof (induction m)
  case Nil
  then show ?case by simp
next
  case (Cons e m)
  show ?case
  proof (cases "fst e = k")
    case True
    then have "erase k m = m"
      using Cons.prems(1) by (auto simp: erase_def filter_id_conv image_iff)
    then show ?thesis
      using True by (simp add: erased_one_def erase_def)
  next
    case False
    then have "erased_one k m"
      using Cons by auto
    then show ?thesis
      using False by (simp add: erased_one_def erase_def Suc_diff_le)
  qed
qed

subsection \<open>The parts\<close>

lemma socket_reported_stays:
  assumes "socket_ok w" "socket_allowed e w" "ws_close_reported w"
  shows "do_socket e w = Inr w"
proof -
  have "lib_ops w = 0" "ws_handles w = []" "ws_close_requested w"
    using assms(1,3) by (auto simp: socket_ok_def socket_inv_def)
  then show ?thesis
    using assms(2) by (cases e) (auto simp: lib_ops_def do_socket_op.simps Close_def split: if_splits)
qed

lemma socket_event_mono:
  assumes "socket_ok w" "socket_allowed e w" "do_socket e w = Inr w'"
  shows "socket_ok w'" "ws_closed w \<le> ws_closed w'"
proof -
  show "socket_ok w'"
    using socket_event_ok [OF assms(1,2)] assms(3) by auto
  show "ws_closed w \<le> ws_closed w'"
    using socket_reported_stays [OF assms(1,2)] assms(1,3) by (cases "ws_close_reported w") (auto simp: socket_ok_def socket_inv_def)
qed

lemma connection_closed_stays:
  assumes "connection_ok c" "connection_allowed e c" "do_connection e c = Inr c'" "cn_closed c"
  shows "cn_closed_notified c' = cn_closed_notified c" "cn_upgraded c' = cn_upgraded c"
proof -
  obtain ph where ph: "in_phase ph c"
    using assms(1) by (auto simp: connection_ok_def)
  then have "in_phase Closed c"
    using assms(4) by (cases ph) auto
  then show "cn_closed_notified c' = cn_closed_notified c" "cn_upgraded c' = cn_upgraded c"
    using assms(2,3) by (cases e; auto simp: unhandled_def Pimpl_destroy_def split: option.splits)+
qed

lemma connection_event_mono:
  assumes "connection_ok c" "connection_allowed e c" "do_connection e c = Inr c'"
  shows "connection_ok c'" "cn_closed_notified c \<le> cn_closed_notified c'"
proof -
  show "connection_ok c'"
    using connection_event_ok [OF assms(1,2)] assms(3) by auto
  show "cn_closed_notified c \<le> cn_closed_notified c'"
    using connection_closed_stays(1) [OF assms] assms(1) by (cases "cn_closed c") (auto simp: connection_ok_def)
qed

lemma schedule_check_ok:
  assumes "http_work_ok n s" "n + 2 < 2 ^ 64"
  shows "\<exists>w. schedule_check s = Inr (s\<lparr>hs_check_shutdown_work := w\<rparr>) \<and> http_work_ok (n + 1) (s\<lparr>hs_check_shutdown_work := w\<rparr>) \<and> IScheduled w"
proof -
  let ?w = "hs_check_shutdown_work s"
  have w: "one_shot_ok ?w" "ow_level ?w = RUNNING" "unat (ow_next_token ?w) + 1 < 2 ^ 64"
    using assms by (auto simp: http_work_ok_def)
  obtain w' where w': "one_shot_op True ?w = Inr w'" "one_shot_ok w'" "ow_level w' = RUNNING" "unat (ow_next_token w') \<le> unat (ow_next_token ?w) + 1"
    using one_shot_op_ok [OF w] by blast
  have "ow_next_token ?w \<noteq> 0"
    using w(1) by (auto simp: one_shot_ok_def one_shot_tokens_def)
  then have "IScheduled w'" "ow_callback w' = ow_callback ?w"
    using w'(1) w(2) by (auto simp: one_shot_op_def OneShotWork_Schedule_def IScheduled_def check_def split: if_splits)
  then show ?thesis
    using w' assms(1) by (auto simp: schedule_check_def one_shot_op_def http_work_ok_def)
qed

subsection \<open>Every event\<close>

lemma count_replicate [simp]: "count_list (replicate n x) y = (if x = y then n else 0)"
  by (induction n) auto

lemma put_web_socket_ok:
  assumes "pointers_ok s" "posted_ok s" "parts_ok s" "map_of (hs_web_sockets s) i = Some w" "socket_ok w'" "ws_closed w \<le> ws_closed w'"
  shows "pointers_ok (put_web_socket i w w' s)" "posted_ok (put_web_socket i w w' s)" "parts_ok (put_web_socket i w w' s)"
proof -
  show "pointers_ok (put_web_socket i w w' s)"
    using assms(1) by (simp add: pointers_ok_def put_web_socket_def)
  have "notified ws_closed i (hs_web_sockets s) = ws_closed w"
    using assms(4) by (simp add: notified_def)
  then show "posted_ok (put_web_socket i w w' s)"
    using assms(2,4,6) by (auto simp: posted_ok_def put_web_socket_def notified_put)
  show "parts_ok (put_web_socket i w w' s)"
    using assms(3,5) snd_put [of _ i w' "hs_web_sockets s"] unfolding parts_ok_def put_web_socket_def by fastforce
qed

lemma put_web_socket_sel [simp]:
  "hs_level (put_web_socket i w w' s) = hs_level s" "hs_check_shutdown_work (put_web_socket i w w' s) = hs_check_shutdown_work s"
  "hs_handlers (put_web_socket i w w' s) = hs_handlers s" "all_gone (put_web_socket i w w' s) = all_gone s"
  "hs_listeners (put_web_socket i w w' s) = hs_listeners s" "hs_connections (put_web_socket i w w' s) = hs_connections s"
  "hs_web_sockets (put_web_socket i w w' s) = put i w' (hs_web_sockets s)"
  by (simp_all add: put_web_socket_def all_gone_def)

lemma http_work_ok_cong: "hs_check_shutdown_work s' = hs_check_shutdown_work s \<Longrightarrow> http_work_ok n s \<Longrightarrow> http_work_ok (n + 1) s'"
  by (simp add: http_work_ok_def)

lemma SrvWebSocket_ok:
  assumes "server_ok n s" "server_allowed (SrvWebSocket i e) s"
  shows "\<exists>s'. do_server (SrvWebSocket i e) s = Inr s' \<and> server_ok (n + 1) s'"
proof -
  obtain w where w: "map_of (hs_web_sockets s) i = Some w" "socket_allowed e w"
    using assms(2) by (auto split: option.splits)
  then have ok: "socket_ok w"
    using assms(1) map_of_mem [OF w(1)] by (auto simp: server_ok_def parts_ok_def)
  obtain w' where w': "do_socket e w = Inr w'"
    using socket_event_ok [OF ok w(2)] by blast
  have "all_gone (put_web_socket i w w' s) = all_gone s"
    by simp
  then have "http_levels_ok (put_web_socket i w w' s)"
    using assms(1) unfolding server_ok_def http_levels_ok_def by simp
  then have "server_ok (n + 1) (put_web_socket i w w' s)"
    using put_web_socket_ok [OF _ _ _ w(1) socket_event_mono [OF ok w(2) w']] assms(1) http_work_ok_cong
    by (simp add: server_ok_def http_work_ok_def)
  then show ?thesis
    using w(1) w' by simp
qed

lemma put_connection_ok:
  assumes "pointers_ok s" "posted_ok s" "parts_ok s" "map_of (hs_connections s) i = Some c" "connection_ok c'"
    and "cn_closed_notified c \<le> cn_closed_notified c'"
  shows "pointers_ok (put_connection i c c' s)" "posted_ok (put_connection i c c' s)" "parts_ok (put_connection i c c' s)"
proof -
  have fresh: "hs_next s \<notin> fst ` set (hs_web_sockets s)"
    using assms(1) by (force simp: pointers_ok_def)
  then show "pointers_ok (put_connection i c c' s)"
    using assms(1) by (auto simp: pointers_ok_def put_connection_def Let_def less_Suc_eq)
  have "notified cn_closed_notified i (hs_connections s) = cn_closed_notified c"
    using assms(4) by (simp add: notified_def)
  moreover have "notified ws_closed j (hs_web_sockets s @ [(hs_next s, Upgrade i)]) = notified ws_closed j (hs_web_sockets s)" for j
    using fresh by (intro notified_append) (simp_all add: Upgrade_def)
  ultimately show "posted_ok (put_connection i c c' s)"
    using assms(2,4,6) by (auto simp: posted_ok_def put_connection_def notified_put Let_def)
  show "parts_ok (put_connection i c c' s)"
  proof -
    have "connection_ok x" if "x \<in> snd ` set (put i c' (hs_connections s))" for x
      using snd_put [OF that] assms(3,5) unfolding parts_ok_def by blast
    moreover have "socket_ok x" if "x \<in> snd ` set (hs_web_sockets s @ [(hs_next s, Upgrade i)])" for x
      using that assms(3) socket_ok_init [of i] unfolding parts_ok_def by auto
    ultimately show ?thesis
      using assms(3) unfolding parts_ok_def put_connection_def Let_def by simp
  qed
qed

lemma count_request_sel [simp]:
  "hs_level (count_request e s) = hs_level s" "hs_check_shutdown_work (count_request e s) = hs_check_shutdown_work s"
  "hs_listeners (count_request e s) = hs_listeners s" "hs_connections (count_request e s) = hs_connections s"
  "hs_web_sockets (count_request e s) = hs_web_sockets s" "hs_posted (count_request e s) = hs_posted s"
  "hs_next (count_request e s) = hs_next s" "hd_set (hs_handlers (count_request e s)) = hd_set (hs_handlers s)"
  by (auto simp: count_request_def HandleRequest_def Let_def split: connection_event.split option.split)

lemma SrvConnection_ok:
  assumes "server_ok n s" "server_allowed (SrvConnection i e) s"
  shows "\<exists>s'. do_server (SrvConnection i e) s = Inr s' \<and> server_ok (n + 1) s'"
proof -
  obtain c where c: "map_of (hs_connections s) i = Some c" "connection_allowed e c"
    using assms(2) by (auto split: option.splits)
  then have ok: "connection_ok c" and ne: "hs_connections s \<noteq> []"
    using assms(1) map_of_mem [OF c(1)] by (auto simp: server_ok_def parts_ok_def)
  obtain c' where c': "do_connection e c = Inr c'"
    using connection_event_ok [OF ok c(2)] by blast
  let ?s = "count_request e s" and ?t = "put_connection i c c' (count_request e s)"
  have "pointers_ok ?s" "posted_ok ?s" "parts_ok ?s" "map_of (hs_connections ?s) i = Some c"
    using assms(1) c(1) by (simp_all add: server_ok_def pointers_ok_def posted_ok_def parts_ok_def)
  note parts = put_connection_ok [OF this connection_event_mono [OF ok c(2) c']]
  have "\<not> all_gone s" "\<not> all_gone ?t" "hs_level ?t = hs_level s" "hs_check_shutdown_work ?t = hs_check_shutdown_work s"
      "hd_set (hs_handlers ?t) = hd_set (hs_handlers s)"
    using ne by (auto simp: all_gone_def put_connection_def Let_def)
  then have "http_levels_ok ?t" "http_work_ok (n + 1) ?t"
    using assms(1) unfolding server_ok_def http_levels_ok_def http_work_ok_def by auto
  then have "server_ok (n + 1) ?t"
    using parts by (simp add: server_ok_def)
  then show ?thesis
    using c(1) c' by simp
qed

lemma put_listener_ok:
  assumes "pointers_ok s" "posted_ok s" "parts_ok s" "map_of (hs_listeners s) i = Some l" "listener_ok (hs_level s) l'"
    and "t = s\<lparr>hs_listeners := put i l' (hs_listeners s), hs_posted := hs_posted s @ replicate (ls_stopped l' - ls_stopped l) (EraseListener i)\<rparr>"
    and "ls_stopped l \<le> ls_stopped l'"
  shows "pointers_ok t" "posted_ok t" "parts_ok t"
proof -
  show "pointers_ok t"
    using assms(1,6) by (simp add: pointers_ok_def)
  have "notified ls_stopped i (hs_listeners s) = ls_stopped l"
    using assms(4) by (simp add: notified_def)
  then show "posted_ok t"
    using assms(2,4,6,7) by (auto simp: posted_ok_def notified_put)
  have "listener_ok (hs_level s) x" if "x \<in> snd ` set (put i l' (hs_listeners s))" for x
    using snd_put [OF that] assms(3,5) unfolding parts_ok_def by blast
  then show "parts_ok t"
    using assms(3,6) unfolding parts_ok_def by simp
qed

lemma add_listener_ok:
  assumes "pointers_ok s" "posted_ok s" "parts_ok s" "listener_ok (hs_level s) l" "ls_stopped l = 0"
    and "t = s\<lparr>hs_listeners := hs_listeners s @ [(hs_next s, l)], hs_next := hs_next s + 1\<rparr>"
  shows "pointers_ok t" "posted_ok t" "parts_ok t"
proof -
  have fresh: "hs_next s \<notin> fst ` set (hs_listeners s)"
    using assms(1) by (force simp: pointers_ok_def)
  then show "pointers_ok t" "posted_ok t" "parts_ok t"
    using assms by (auto simp: pointers_ok_def posted_ok_def parts_ok_def notified_append less_Suc_eq)
qed

lemma add_connection_ok:
  assumes "pointers_ok s" "posted_ok s" "parts_ok s"
    and "t = s\<lparr>hs_connections := hs_connections s @ [(hs_next s, Connection v)], hs_next := hs_next s + 1\<rparr>"
  shows "pointers_ok t" "posted_ok t" "parts_ok t"
proof -
  have fresh: "hs_next s \<notin> fst ` set (hs_connections s)" and zero: "cn_closed_notified (Connection v) = 0"
    using assms(1) by (force simp: pointers_ok_def, simp add: Connection_def)
  then show "pointers_ok t" "posted_ok t" "parts_ok t"
    using assms connection_ok_init [of v]
    by (auto simp: pointers_ok_def posted_ok_def parts_ok_def notified_append less_Suc_eq)
qed

lemma SrvAddServer_ok:
  assumes "server_ok n s" "hs_level s = RUNNING"
  shows "\<exists>s'. do_server (SrvAddServer opened) s = Inr s' \<and> server_ok (n + 1) s'"
proof -
  obtain l where l: "Listener opened = Inr l" "listener_ok RUNNING l" "ls_stopped l = 0"
    by (cases opened) (auto simp: Listener_def StartAccept_def check_def listener_ok_def)
  let ?t = "s\<lparr>hs_listeners := hs_listeners s @ [(hs_next s, l)], hs_next := hs_next s + 1\<rparr>"
  have ok: "pointers_ok s" "posted_ok s" "parts_ok s" "listener_ok (hs_level s) l"
    using assms l by (simp_all add: server_ok_def)
  have "http_levels_ok ?t" "http_work_ok (n + 1) ?t" "http_levels_ok s" "http_work_ok (n + 1) s"
    using assms by (auto simp: server_ok_def http_levels_ok_def http_work_ok_def)
  then have "server_ok (n + 1) ?t" "server_ok (n + 1) s"
    using add_listener_ok [OF ok l(3) refl] ok by (auto simp: server_ok_def)
  then show ?thesis
    using l(1) assms(2) by (simp add: AddServer_def)
qed

lemma SrvAccepted_ok:
  assumes "server_ok n s" "server_allowed (SrvAccepted i ec) s"
  shows "\<exists>s'. do_server (SrvAccepted i ec) s = Inr s' \<and> server_ok (n + 1) s'"
proof -
  obtain l where l: "map_of (hs_listeners s) i = Some l" "ls_lib_accept l"
    using assms(2) by (auto split: option.splits)
  have ok: "pointers_ok s" "posted_ok s" "parts_ok s" "http_work_ok n s" "http_levels_ok s"
    using assms(1) by (simp_all add: server_ok_def)
  have lok: "listener_ok (hs_level s) l" and ne: "hs_listeners s \<noteq> []"
    using ok(3) map_of_mem [OF l(1)] by (auto simp: parts_ok_def)
  have pending: "ls_is_accept_pending l" "ls_stopped l = 0" "ls_stop_requested l = (hs_level s = STOPPING)"
    using lok l(2) by (auto simp: listener_ok_def split: if_splits)
  let ?l = "l\<lparr>ls_lib_accept := False, ls_is_accept_pending := False\<rparr>"
  have frame: "http_levels_ok t \<and> http_work_ok (n + 1) t"
    if "hs_level t = hs_level s" "hs_listeners t \<noteq> []" "hs_check_shutdown_work t = hs_check_shutdown_work s"
      "hd_set (hs_handlers t) = hd_set (hs_handlers s)" for t
    using that ok(4,5) ne by (auto simp: http_levels_ok_def http_work_ok_def all_gone_def)
  consider "hs_level s = STOPPING" | "hs_level s \<noteq> STOPPING" "ec" | "hs_level s \<noteq> STOPPING" "\<not> ec"
    by blast
  then show ?thesis
  proof cases
    case 1
    let ?l' = "?l\<lparr>ls_stop_requested := False, ls_stopped := ls_stopped l + 1\<rparr>"
    let ?t = "s\<lparr>hs_listeners := put i ?l' (hs_listeners s), hs_posted := hs_posted s @ [EraseListener i]\<rparr>"
    have a: "listener_ok (hs_level s) ?l'"
      using 1 pending by (simp add: listener_ok_def)
    have b: "?t = s\<lparr>hs_listeners := put i ?l' (hs_listeners s),
        hs_posted := hs_posted s @ replicate (ls_stopped ?l' - ls_stopped l) (EraseListener i)\<rparr>"
      by simp
    have "pointers_ok ?t" "posted_ok ?t" "parts_ok ?t"
      using put_listener_ok [OF ok(1-3) l(1) a b] by simp_all
    moreover have "http_levels_ok ?t \<and> http_work_ok (n + 1) ?t"
      by (rule frame) (use ne in simp_all)
    ultimately show ?thesis
      using 1 l(1) pending by (simp add: Listener_OnAccept_def ListenerStopped_def server_ok_def)
  next
    case 2
    let ?t = "s\<lparr>hs_listeners := put i ?l (hs_listeners s)\<rparr>"
    have a: "listener_ok (hs_level s) ?l"
      using 2 pending lok by (simp add: listener_ok_def)
    have b: "?t = s\<lparr>hs_listeners := put i ?l (hs_listeners s),
        hs_posted := hs_posted s @ replicate (ls_stopped ?l - ls_stopped l) (EraseListener i)\<rparr>"
      by simp
    have "pointers_ok ?t" "posted_ok ?t" "parts_ok ?t"
      using put_listener_ok [OF ok(1-3) l(1) a b] by simp_all
    moreover have "http_levels_ok ?t \<and> http_work_ok (n + 1) ?t"
      by (rule frame) (use ne in simp_all)
    ultimately show ?thesis
      using 2 l(1) pending by (simp add: Listener_OnAccept_def server_ok_def)
  next
    case 3
    let ?l' = "?l\<lparr>ls_is_accept_pending := True, ls_lib_accept := True\<rparr>"
    let ?u = "s\<lparr>hs_listeners := put i ?l' (hs_listeners s)\<rparr>"
    let ?t = "?u\<lparr>hs_connections := hs_connections s @ [(hs_next s, Connection (hs_version s))], hs_next := hs_next s + 1\<rparr>"
    have a: "listener_ok (hs_level s) ?l'"
      using 3 pending lok by (simp add: listener_ok_def)
    have b: "?u = s\<lparr>hs_listeners := put i ?l' (hs_listeners s),
        hs_posted := hs_posted s @ replicate (ls_stopped ?l' - ls_stopped l) (EraseListener i)\<rparr>"
      by simp
    have u: "pointers_ok ?u" "posted_ok ?u" "parts_ok ?u"
      using put_listener_ok [OF ok(1-3) l(1) a b] by simp_all
    have "pointers_ok ?t" "posted_ok ?t" "parts_ok ?t"
      using add_connection_ok [OF u, of ?t "hs_version s"] by simp_all
    moreover have "http_levels_ok ?t \<and> http_work_ok (n + 1) ?t"
      by (rule frame) (use ne in simp_all)
    ultimately show ?thesis
      using 3 l(1) pending by (simp add: Listener_OnAccept_def StartAccept_def server_ok_def)
  qed
qed

lemma SrvStarting_ok:
  assumes "server_ok n s" "hs_level s = CONSTRUCTED"
  shows "\<exists>s'. do_server SrvStarting s = Inr s' \<and> server_ok (n + 1) s'"
  using assms
  by (simp add: HttpServer_HandleStarting_def level_NotifyStarted_def server_ok_def http_levels_ok_def all_gone_def pointers_ok_def
      posted_ok_def parts_ok_def http_work_ok_def)

lemma SrvHandler_ok:
  assumes "server_ok n s" "server_allowed (SrvHandler a) s"
  shows "\<exists>s'. do_server (SrvHandler a) s = Inr s' \<and> server_ok (n + 1) s'"
  using assms by (auto simp: server_ok_def http_levels_ok_def all_gone_def pointers_ok_def posted_ok_def parts_ok_def http_work_ok_def)

lemma finish_erase:
  assumes "pointers_ok t" "posted_ok t" "parts_ok t" "http_work_ok n t" "hs_level t \<in> {RUNNING, STOPPING}"
    and "hs_level t = STOPPING \<longrightarrow> hd_set (hs_handlers t) = []" "n + 2 < 2 ^ 64" "b \<or> \<not> all_gone t"
  shows "\<exists>s'. (if b \<and> hs_level t = STOPPING then schedule_check t else Inr t) = Inr s' \<and> server_ok (n + 1) s'"
proof (cases "b \<and> hs_level t = STOPPING")
  case True
  obtain w where w: "schedule_check t = Inr (t\<lparr>hs_check_shutdown_work := w\<rparr>)" "http_work_ok (n + 1) (t\<lparr>hs_check_shutdown_work := w\<rparr>)" "IScheduled w"
    using schedule_check_ok [OF assms(4,7)] by blast
  then have "server_ok (n + 1) (t\<lparr>hs_check_shutdown_work := w\<rparr>)"
    using assms True by (simp add: server_ok_def pointers_ok_def posted_ok_def parts_ok_def http_levels_ok_def)
  then show ?thesis
    using True w(1) by simp
next
  case False
  then have "http_levels_ok t"
    using assms(5,6,8) by (auto simp: http_levels_ok_def)
  moreover have "http_work_ok (n + 1) t"
    using assms(4) by (simp add: http_work_ok_def)
  ultimately show ?thesis
    unfolding if_not_P [OF False] using assms(1-3) by (simp add: server_ok_def)
qed

lemma posted_notified:
  assumes "server_ok n s" "k < length (hs_posted s)"
  shows "hs_posted s ! k = EraseListener i \<Longrightarrow> i \<in> fst ` set (hs_listeners s) \<and> notified ls_stopped i (hs_listeners s) = 1"
    "hs_posted s ! k = EraseConnection i \<Longrightarrow> i \<in> fst ` set (hs_connections s) \<and> notified cn_closed_notified i (hs_connections s) = 1"
    "hs_posted s ! k = EraseWebSocket i \<Longrightarrow> i \<in> fst ` set (hs_web_sockets s) \<and> notified ws_closed i (hs_web_sockets s) = 1"
proof -
  have parts: "posted_ok s" "parts_ok s"
    using assms(1) by (simp_all add: server_ok_def)
  have pos: "0 < count_list (hs_posted s) (hs_posted s ! k)"
    using assms(2) by (metis count_list_0_iff gr0I nth_mem)
  have le1: "notified f j m = 0 \<or> notified f j m = 1" if "\<And>x. x \<in> snd ` set m \<Longrightarrow> f x \<le> 1" for f :: "'x \<Rightarrow> nat" and j m
    using that map_of_mem [of m j] unfolding notified_def by (cases "map_of m j") fastforce+
  {
    assume "hs_posted s ! k = EraseListener i"
    then have "0 < notified ls_stopped i (hs_listeners s)"
      using pos parts(1) by (simp add: posted_ok_def)
    moreover have "ls_stopped x \<le> 1" if "x \<in> snd ` set (hs_listeners s)" for x
      using parts(2) that by (auto simp: parts_ok_def listener_ok_def split: if_splits)
    ultimately show "i \<in> fst ` set (hs_listeners s) \<and> notified ls_stopped i (hs_listeners s) = 1"
      using le1 [of "hs_listeners s" ls_stopped i] notified_zero [of i "hs_listeners s" ls_stopped] by force
  next
    assume "hs_posted s ! k = EraseConnection i"
    then have "0 < notified cn_closed_notified i (hs_connections s)"
      using pos parts(1) by (simp add: posted_ok_def)
    moreover have "cn_closed_notified x \<le> 1" if "x \<in> snd ` set (hs_connections s)" for x
      using parts(2) that by (auto simp: parts_ok_def connection_ok_def)
    ultimately show "i \<in> fst ` set (hs_connections s) \<and> notified cn_closed_notified i (hs_connections s) = 1"
      using le1 [of "hs_connections s" cn_closed_notified i] notified_zero [of i "hs_connections s" cn_closed_notified] by force
  next
    assume "hs_posted s ! k = EraseWebSocket i"
    then have "0 < notified ws_closed i (hs_web_sockets s)"
      using pos parts(1) by (simp add: posted_ok_def)
    moreover have "ws_closed x \<le> 1" if "x \<in> snd ` set (hs_web_sockets s)" for x
      using parts(2) that by (auto simp: parts_ok_def socket_ok_def socket_inv_def)
    ultimately show "i \<in> fst ` set (hs_web_sockets s) \<and> notified ws_closed i (hs_web_sockets s) = 1"
      using le1 [of "hs_web_sockets s" ws_closed i] notified_zero [of i "hs_web_sockets s" ws_closed] by force
  }
qed

lemma erase_subset: "fst ` set (erase k m) \<subseteq> fst ` set m" "snd ` set (erase k m) \<subseteq> snd ` set m"
  by (auto simp: erase_def)

lemma SrvPosted_ok:
  assumes "server_ok n s" "k < length (hs_posted s)" "n + 2 < 2 ^ 64"
  shows "\<exists>s'. do_server (SrvPosted k) s = Inr s' \<and> server_ok (n + 1) s'"
proof -
  let ?rest = "take k (hs_posted s) @ drop (Suc k) (hs_posted s)"
  have ok: "pointers_ok s" "posted_ok s" "parts_ok s" "http_work_ok n s" "http_levels_ok s"
    using assms(1) by (simp_all add: server_ok_def)
  have count: "count_list (hs_posted s) x = (if hs_posted s ! k = x then 1 else 0) + count_list ?rest x" for x
    using count_list_take_nth [OF assms(2), of x] by simp
  define rest where "rest = ?rest"
  have posted_rest: "count_list rest (EraseListener j) = notified ls_stopped j (hs_listeners s) - (if hs_posted s ! k = EraseListener j then 1 else 0)"
      "count_list rest (EraseConnection j) = notified cn_closed_notified j (hs_connections s) - (if hs_posted s ! k = EraseConnection j then 1 else 0)"
      "count_list rest (EraseWebSocket j) = notified ws_closed j (hs_web_sockets s) - (if hs_posted s ! k = EraseWebSocket j then 1 else 0)" for j
    using ok(2) count [of "EraseListener j"] count [of "EraseConnection j"] count [of "EraseWebSocket j"]
    unfolding posted_ok_def rest_def by (metis add_diff_cancel_left')+
  have level: "hs_level s \<in> {RUNNING, STOPPING}" "hs_level s = STOPPING \<longrightarrow> hd_set (hs_handlers s) = []" if "\<not> all_gone s"
    using ok(5) that by (auto simp: http_levels_ok_def)
  have dist: "distinct (map fst (hs_listeners s))" "distinct (map fst (hs_connections s))" "distinct (map fst (hs_web_sockets s))"
    using ok(1) by (simp_all add: pointers_ok_def)
  show ?thesis
  proof (cases "hs_posted s ! k")
    case (EraseListener i)
    have i: "i \<in> fst ` set (hs_listeners s)" "notified ls_stopped i (hs_listeners s) = 1"
      using posted_notified(1) [OF assms(1,2) EraseListener] by simp_all
    let ?t = "s\<lparr>hs_posted := rest, hs_listeners := erase i (hs_listeners s)\<rparr>"
    have "pointers_ok ?t" "parts_ok ?t"
      using ok(1,3) erase_set(2) [OF dist(1)] erase_subset [of i "hs_listeners s"] unfolding pointers_ok_def parts_ok_def
      by (auto dest!: subsetD)
    moreover have "posted_ok ?t"
      using posted_rest i(2) EraseListener by (auto simp: posted_ok_def notified_erase)
    moreover have "http_work_ok n ?t" "hs_listeners ?t = [] \<or> \<not> all_gone ?t" "\<not> all_gone s"
      using ok(4) i(1) by (auto simp: http_work_ok_def all_gone_def)
    moreover have "do_server (SrvPosted k) s = (if hs_listeners ?t = [] \<and> hs_level ?t = STOPPING then schedule_check ?t else Inr ?t)"
      using EraseListener erased_one_ok [OF dist(1) i(1)] by (simp add: rest_def)
    ultimately show ?thesis
      using finish_erase [of ?t n "hs_listeners ?t = []"] level assms(3) by simp
  next
    case (EraseConnection i)
    have i: "i \<in> fst ` set (hs_connections s)" "notified cn_closed_notified i (hs_connections s) = 1"
      using posted_notified(2) [OF assms(1,2) EraseConnection] by simp_all
    let ?t = "s\<lparr>hs_posted := rest, hs_connections := erase i (hs_connections s)\<rparr>"
    have "pointers_ok ?t" "parts_ok ?t"
      using ok(1,3) erase_set(2) [OF dist(2)] erase_subset [of i "hs_connections s"] unfolding pointers_ok_def parts_ok_def
      by (auto dest!: subsetD)
    moreover have "posted_ok ?t"
      using posted_rest i(2) EraseConnection by (auto simp: posted_ok_def notified_erase)
    moreover have "http_work_ok n ?t" "hs_connections ?t = [] \<or> \<not> all_gone ?t" "\<not> all_gone s"
      using ok(4) i(1) by (auto simp: http_work_ok_def all_gone_def)
    moreover have "do_server (SrvPosted k) s = (if hs_connections ?t = [] \<and> hs_level ?t = STOPPING then schedule_check ?t else Inr ?t)"
      using EraseConnection erased_one_ok [OF dist(2) i(1)] by (simp add: rest_def)
    ultimately show ?thesis
      using finish_erase [of ?t n "hs_connections ?t = []"] level assms(3) by simp
  next
    case (EraseWebSocket i)
    have i: "i \<in> fst ` set (hs_web_sockets s)" "notified ws_closed i (hs_web_sockets s) = 1"
      using posted_notified(3) [OF assms(1,2) EraseWebSocket] by simp_all
    let ?t = "s\<lparr>hs_posted := rest, hs_web_sockets := erase i (hs_web_sockets s)\<rparr>"
    have "pointers_ok ?t" "parts_ok ?t"
      using ok(1,3) erase_set(2) [OF dist(3)] erase_subset [of i "hs_web_sockets s"] unfolding pointers_ok_def parts_ok_def
      by (auto dest!: subsetD)
    moreover have "posted_ok ?t"
      using posted_rest i(2) EraseWebSocket by (auto simp: posted_ok_def notified_erase)
    moreover have "http_work_ok n ?t" "hs_web_sockets ?t = [] \<or> \<not> all_gone ?t" "\<not> all_gone s"
      using ok(4) i(1) by (auto simp: http_work_ok_def all_gone_def)
    moreover have "do_server (SrvPosted k) s = (if hs_web_sockets ?t = [] \<and> hs_level ?t = STOPPING then schedule_check ?t else Inr ?t)"
      using EraseWebSocket erased_one_ok [OF dist(3) i(1)] by (simp add: rest_def)
    ultimately show ?thesis
      using finish_erase [of ?t n "hs_web_sockets ?t = []"] level assms(3) by simp
  qed
qed

lemma SrvWork_ok:
  assumes "server_ok n s" "0 < ow_posted (hs_check_shutdown_work s)" "n + 2 < 2 ^ 64"
  shows "\<exists>s'. do_server SrvWork s = Inr s' \<and> server_ok (n + 1) s'"
proof -
  let ?w = "hs_check_shutdown_work s"
  have ok: "pointers_ok s" "posted_ok s" "parts_ok s" "http_work_ok n s" "http_levels_ok s"
    using assms(1) by (simp_all add: server_ok_def)
  have w: "one_shot_ok ?w" "ow_callback ?w" "ow_level ?w = RUNNING" "unat (ow_next_token ?w) \<le> n + 1"
    using ok(4) by (simp_all add: http_work_ok_def)
  obtain w' where w': "do_one_shot (WorkPosted []) ?w = Inr w'" "one_shot_ok w'" "ow_callback w' = ow_callback ?w"
      "ow_runs w' = ow_runs ?w + (if IScheduled ?w \<and> ow_posted ?w = 1 then 1 else 0)"
      "IScheduled w' = (IScheduled ?w \<and> 1 < ow_posted ?w)"
      "ow_level w' = (if ow_level ?w = STOPPING \<and> ow_posted ?w = 1 then STOPPED else ow_level ?w)"
    using one_shot_posted [OF w(1,2) assms(2)] by blast
  have "unat (ow_next_token w') \<le> n + 1"
    using one_shot_event_ok [OF w(1), of "WorkPosted []"] w(4) w'(1) assms(2,3) by auto
  then have work: "http_work_ok (n + 1) (s\<lparr>hs_check_shutdown_work := w'\<rparr>)"
    using w w' by (simp add: http_work_ok_def)
  have frame: "pointers_ok (s\<lparr>hs_check_shutdown_work := w'\<rparr>)" "posted_ok (s\<lparr>hs_check_shutdown_work := w'\<rparr>)"
      "parts_ok (s\<lparr>hs_check_shutdown_work := w'\<rparr>)"
    using ok(1-3) by (simp_all add: pointers_ok_def posted_ok_def parts_ok_def)
  have step: "do_server SrvWork s = (if IScheduled ?w \<and> ow_posted ?w = 1 then CheckShutdown (s\<lparr>hs_check_shutdown_work := w'\<rparr>)
      else Inr (s\<lparr>hs_check_shutdown_work := w'\<rparr>))"
    using w'(1,4) by (simp add: run_work_def Let_def del: do_one_shot.simps)
  have gone: "all_gone (s\<lparr>hs_check_shutdown_work := w'\<rparr>) = all_gone s"
    by (simp add: all_gone_def)
  show ?thesis
  proof (cases "IScheduled ?w \<and> ow_posted ?w = 1 \<and> hs_level s = STOPPING \<and> all_gone s")
    case True
    let ?t = "s\<lparr>hs_check_shutdown_work := w', hs_level := STOPPED, hs_children_stopped := True\<rparr>"
    have "http_levels_ok ?t" "http_work_ok (n + 1) ?t"
      using True ok(5) work by (simp_all add: http_levels_ok_def all_gone_def http_work_ok_def)
    moreover have "pointers_ok ?t" "posted_ok ?t" "parts_ok ?t"
      using True ok(1-3) by (simp_all add: pointers_ok_def posted_ok_def parts_ok_def all_gone_def)
    ultimately have "server_ok (n + 1) ?t"
      by (simp add: server_ok_def)
    then show ?thesis
      unfolding step using True gone by (simp add: CheckShutdown_def level_NotifyStopped_def)
  next
    case False
    let ?t = "s\<lparr>hs_check_shutdown_work := w'\<rparr>"
    have "http_levels_ok ?t"
      using False ok(5) w'(5) assms(2) gone by (auto simp: http_levels_ok_def)
    then have "server_ok (n + 1) ?t"
      using frame work by (simp add: server_ok_def)
    then show ?thesis
      unfolding step using False gone by (auto simp: CheckShutdown_def)
  qed
qed

text \<open>Stopping: every listener, then every web socket.\<close>

definition stop_requested :: "listener \<Rightarrow> listener" where
  "stop_requested l = l\<lparr>ls_stop_requested := True\<rparr>"

lemma stop_listeners:
  "distinct (map fst xs) \<Longrightarrow> \<forall>e \<in> set xs. ls_is_accept_pending (snd e) \<and> \<not> ls_stop_requested (snd e) \<Longrightarrow>
   fold_res stop_listener xs s = Inr (s\<lparr>hs_listeners := fold (\<lambda>e. put (fst e) (stop_requested (snd e))) xs (hs_listeners s)\<rparr>)"
proof (induction xs arbitrary: s)
  case Nil
  then show ?case by simp
next
  case (Cons e xs)
  then have "stop_listener e s = Inr (s\<lparr>hs_listeners := put (fst e) (stop_requested (snd e)) (hs_listeners s)\<rparr>)"
    by (simp add: stop_listener_def AsyncStop_def stop_requested_def)
  then show ?case
    using Cons by simp
qed

lemma fold_put_map:
  "distinct (map fst xs) \<Longrightarrow> fold (\<lambda>e. put (fst e) (f (snd e))) xs m =
   map (\<lambda>e. case map_of xs (fst e) of None \<Rightarrow> e | Some x \<Rightarrow> (fst e, f x)) m"
proof (induction xs arbitrary: m)
  case Nil
  then show ?case by simp
next
  case (Cons e xs)
  have "map_of xs (fst e) = None"
    using Cons.prems by (simp add: map_of_eq_None_iff)
  then show ?case
    using Cons by (auto simp: put_def comp_def intro!: map_cong split: option.split)
qed

lemma stop_all_listeners:
  assumes "distinct (map fst m)"
  shows "fold (\<lambda>e. put (fst e) (stop_requested (snd e))) m m = map (\<lambda>e. (fst e, stop_requested (snd e))) m"
  unfolding fold_put_map [OF assms] using assms by (intro map_cong refl) (auto split: option.split dest: eq_key_imp_eq_value)

lemma close_web_sockets_ok:
  "distinct (map fst xs) \<Longrightarrow> pointers_ok s \<Longrightarrow> posted_ok s \<Longrightarrow> parts_ok s \<Longrightarrow>
   \<forall>e \<in> set xs. map_of (hs_web_sockets s) (fst e) = Some (snd e) \<Longrightarrow>
   pointers_ok (fold close_web_socket xs s) \<and> posted_ok (fold close_web_socket xs s) \<and> parts_ok (fold close_web_socket xs s)
   \<and> hs_level (fold close_web_socket xs s) = hs_level s \<and> hs_handlers (fold close_web_socket xs s) = hs_handlers s
   \<and> hs_check_shutdown_work (fold close_web_socket xs s) = hs_check_shutdown_work s"
proof (induction xs arbitrary: s)
  case Nil
  then show ?case by simp
next
  case (Cons e xs)
  have e: "map_of (hs_web_sockets s) (fst e) = Some (snd e)"
    using Cons.prems(5) by simp
  have w: "socket_ok (snd e)"
    using map_of_mem [OF e] Cons.prems(4) unfolding parts_ok_def by blast
  have "socket_allowed ServerCloses (snd e)" "do_socket ServerCloses (snd e) = Inr (Close (snd e))"
    by simp_all
  note mono = socket_event_mono [OF w this]
  let ?t = "close_web_socket e s"
  have t: "pointers_ok ?t" "posted_ok ?t" "parts_ok ?t"
    using put_web_socket_ok [OF Cons.prems(2-4) e mono] by (simp_all add: close_web_socket_def)
  have "\<forall>x \<in> set xs. map_of (hs_web_sockets ?t) (fst x) = Some (snd x)"
  proof
    fix x
    assume x: "x \<in> set xs"
    then have "fst x \<noteq> fst e"
      using Cons.prems(1) by (metis distinct.simps(2) image_eqI list.set_map list.simps(9))
    then show "map_of (hs_web_sockets ?t) (fst x) = Some (snd x)"
      using Cons.prems(5) x by (simp add: close_web_socket_def map_of_put)
  qed
  then show ?case
    using Cons.IH [of ?t] Cons.prems(1) t by (simp add: close_web_socket_def)
qed

lemma SrvStopping_ok:
  assumes "server_ok n s" "server_allowed SrvStopping s" "accepting s" "n + 2 < 2 ^ 64"
  shows "\<exists>s'. do_server SrvStopping s = Inr s' \<and> server_ok (n + 1) s'"
proof -
  have ok: "pointers_ok s" "posted_ok s" "parts_ok s" "http_work_ok n s" "http_levels_ok s"
    using assms(1) by (simp_all add: server_ok_def)
  have level: "hs_level s = RUNNING" "hd_set (hs_handlers s) = []"
    using assms(2) by simp_all
  have dist: "distinct (map fst (hs_listeners s))" "distinct (map fst (hs_web_sockets s))"
    using ok(1) by (simp_all add: pointers_ok_def)
  have l: "ls_is_accept_pending (snd e) \<and> \<not> ls_stop_requested (snd e) \<and> ls_stopped (snd e) = 0 \<and> ls_lib_accept (snd e)" if "e \<in> set (hs_listeners s)" for e
    using that ok(3) level(1) assms(3) by (auto simp: accepting_def list_all_iff parts_ok_def listener_ok_def)
  let ?m = "map (\<lambda>e. (fst e, stop_requested (snd e))) (hs_listeners s)"
  let ?t = "s\<lparr>hs_level := STOPPING, hs_listeners := ?m\<rparr>"
  have stop: "fold_res stop_listener (hs_listeners s) (s\<lparr>hs_level := STOPPING\<rparr>) = Inr ?t"
    using stop_listeners [OF dist(1), of "s\<lparr>hs_level := STOPPING\<rparr>"] l stop_all_listeners [OF dist(1)] by simp
  have fst_m: "map fst ?m = map fst (hs_listeners s)" "fst ` set ?m = fst ` set (hs_listeners s)"
    by (simp_all add: comp_def image_image)
  have "pointers_ok ?t"
    using ok(1) fst_m unfolding pointers_ok_def by (simp add: comp_def)
  moreover have "notified ls_stopped i ?m = notified ls_stopped i (hs_listeners s)" for i
    by (simp add: notified_map stop_requested_def)
  then have "posted_ok ?t"
    using ok(2) by (simp add: posted_ok_def)
  moreover have "listener_ok STOPPING x" if "x \<in> snd ` set ?m" for x
    using that l by (auto simp: listener_ok_def stop_requested_def)
  then have "parts_ok ?t"
    using ok(3) by (simp add: parts_ok_def)
  moreover have "\<forall>e \<in> set (hs_web_sockets s). map_of (hs_web_sockets ?t) (fst e) = Some (snd e)"
    using dist(2) by simp
  ultimately have u: "pointers_ok (fold close_web_socket (hs_web_sockets s) ?t)" "posted_ok (fold close_web_socket (hs_web_sockets s) ?t)"
      "parts_ok (fold close_web_socket (hs_web_sockets s) ?t)" "hs_level (fold close_web_socket (hs_web_sockets s) ?t) = STOPPING"
      "hs_handlers (fold close_web_socket (hs_web_sockets s) ?t) = hs_handlers s"
      "hs_check_shutdown_work (fold close_web_socket (hs_web_sockets s) ?t) = hs_check_shutdown_work s"
    using close_web_sockets_ok [OF dist(2), of ?t] by simp_all
  let ?u = "fold close_web_socket (hs_web_sockets s) ?t"
  have step: "do_server SrvStopping s = (if True \<and> hs_level ?u = STOPPING then schedule_check ?u else Inr ?u)"
    using stop level(2) u(4) by (simp add: HttpServer_HandleStopping_def)
  have "http_work_ok n ?u"
    using ok(4) u(6) by (simp add: http_work_ok_def)
  then show ?thesis
    unfolding step using finish_erase [OF u(1-3), of n True] u(4,5) level(2) assms(4) by simp
qed

lemma server_event_ok:
  assumes "server_ok n s" "server_allowed e s" "e = SrvStopping \<Longrightarrow> accepting s" "n + 2 < 2 ^ 64"
  shows "\<exists>s'. do_server e s = Inr s' \<and> server_ok (n + 1) s'"
proof (cases e)
  case SrvStarting
  then show ?thesis using SrvStarting_ok [OF assms(1)] assms(2) by simp
next
  case SrvStopping
  then show ?thesis using SrvStopping_ok [OF assms(1)] assms by simp
next
  case (SrvAddServer opened)
  then show ?thesis using SrvAddServer_ok [OF assms(1)] assms(2) by simp
next
  case (SrvAccepted i ec)
  then show ?thesis using SrvAccepted_ok [OF assms(1)] assms(2) by simp
next
  case (SrvConnection i x)
  then show ?thesis using SrvConnection_ok [OF assms(1)] assms(2) by simp
next
  case (SrvWebSocket i x)
  then show ?thesis using SrvWebSocket_ok [OF assms(1)] assms(2) by simp
next
  case (SrvHandler a)
  then show ?thesis using SrvHandler_ok [OF assms(1)] assms(2) by simp
next
  case (SrvPosted k)
  then show ?thesis using SrvPosted_ok [OF assms(1)] assms(2,4) by simp
next
  case SrvWork
  then show ?thesis using SrvWork_ok [OF assms(1)] assms(2,4) by simp
qed

lemma stop_listeners_pending: "fold_res stop_listener xs s = Inr t \<Longrightarrow> list_all (\<lambda>e. ls_is_accept_pending (snd e)) xs"
  by (induction xs arbitrary: s) (fastforce simp: bind_res_eq_Inr stop_listener_def AsyncStop_def check_def split: if_splits)+

lemma SrvStopping_accepting: "do_server SrvStopping s = Inr t \<Longrightarrow> accepting s"
  by (auto simp: HttpServer_HandleStopping_def bind_res_eq_Inr accepting_def check_def dest: stop_listeners_pending split: if_splits)

lemma server_run_ok: "server_run es s \<Longrightarrow> length es + 2 < 2 ^ 64 \<Longrightarrow> server_ok (length es) s"
proof (induction rule: server_run.induct)
  case (server_init version)
  then show ?case
    using server_ok_init by simp
next
  case (server_step es s e s')
  then have "server_ok (length es) s" "length es + 2 < 2 ^ 64"
    by simp_all
  moreover have "e = SrvStopping \<Longrightarrow> accepting s"
    using server_step.hyps(3) SrvStopping_accepting by blast
  ultimately show ?case
    using server_event_ok [OF _ server_step.hyps(2)] server_step.hyps(3) by fastforce
qed

subsection \<open>Properties\<close>

text \<open>
  C7: The HTTP server stops cleanly and exactly when it is empty. In any run of the server with
  its listeners, connections and web sockets - clients that answer, upgrade or drop their
  requests, peers and operations that fail at any point, removals in any order - no assertion
  of the server or of its parts fails, except when it is stopped while a listener accepts no
  more; the server reports that it has stopped only when every listener, connection and web
  socket is gone and no removal is pending, and once all are gone while it stops, the check that
  reports it is scheduled, so that the stop is never missed.
\<close>

theorem HttpServer_stops_when_empty:
  assumes "server_run es s" "server_allowed e s" "e \<noteq> SrvStopping \<or> accepting s" "length es + 3 < 2 ^ 64"
  shows "\<exists>s'. do_server e s = Inr s'
    \<and> (hs_level s' \<noteq> STOPPED \<or> all_gone s' \<and> hs_posted s' = [])
    \<and> (hs_level s' \<noteq> STOPPING \<or> \<not> all_gone s' \<or> IScheduled (hs_check_shutdown_work s'))"
proof -
  have "server_ok (length es) s"
    using server_run_ok [OF assms(1)] assms(4) by simp
  then obtain s' where s': "do_server e s = Inr s'" "server_ok (length es + 1) s'"
    using server_event_ok [OF _ assms(2)] assms(3,4) by fastforce
  have "hs_posted s' = []" if gone: "all_gone s'"
  proof (rule ccontr)
    assume "hs_posted s' \<noteq> []"
    then have "0 < length (hs_posted s')"
      by simp
    from posted_notified [OF s'(2) this] gone show False
      by (cases "hs_posted s' ! 0") (auto simp: all_gone_def)
  qed
  then show ?thesis
    using s' by (auto simp: server_ok_def http_levels_ok_def)
qed

text \<open>
  A server with a listener that cannot accept - its port could not be bound, or an accept
  failed - cannot be stopped: \<open>AsyncStop\<close> asserts that an accept is pending, although both of
  these leave none. This is the only way in which stopping fails.
\<close>

theorem HttpServer_failed_listener_aborts:
  assumes "server_run es s" "server_allowed SrvStopping s" "length es + 3 < 2 ^ 64"
  shows "(\<exists>msg. do_server SrvStopping s = Inl (AssertFailed msg)) = (\<not> accepting s)"
proof (cases "accepting s")
  case True
  then show ?thesis
    using SrvStopping_ok [OF server_run_ok [OF assms(1)] assms(2)] assms(3) by auto
next
  case False
  have faults: "\<exists>msg. fold_res stop_listener xs t = Inl (AssertFailed msg)" if "\<not> list_all (\<lambda>e. ls_is_accept_pending (snd e)) xs" for xs t
    using that
    by (induction xs arbitrary: t) (auto simp: stop_listener_def AsyncStop_def check_def)
  show ?thesis
    using faults [of "hs_listeners s" "s\<lparr>hs_level := STOPPING\<rparr>"] False assms(2)
    by (auto simp: HttpServer_HandleStopping_def accepting_def)
qed

text \<open>Steps of which none concerns one connection.\<close>

definition concerns :: "nat \<Rightarrow> server_event \<Rightarrow> bool" where
  "concerns i e \<longleftrightarrow> (case e of SrvConnection j _ \<Rightarrow> i = j | _ \<Rightarrow> False)"

inductive server_steps :: "server_event list \<Rightarrow> http_server \<Rightarrow> http_server \<Rightarrow> bool" where
  steps_Nil: "server_steps [] s s"
| steps_Cons: "server_allowed e s \<Longrightarrow> do_server e s = Inr t \<Longrightarrow> server_steps es t u \<Longrightarrow> server_steps (e # es) s u"

lemma schedule_check_sel: "schedule_check s = Inr s' \<Longrightarrow> hs_connections s' = hs_connections s \<and> hs_level s' = hs_level s"
  by (auto simp: schedule_check_def bind_res_eq_Inr)

lemma idle_step:
  assumes "server_ok n s" "server_allowed e s" "do_server e s = Inr s'" "\<not> concerns i e" "hs_level s = STOPPING"
    and "map_of (hs_connections s) i = Some c" "cn_closed_notified c = 0"
  shows "map_of (hs_connections s') i = Some c \<and> hs_level s' = STOPPING"
proof (cases e)
  case (SrvAccepted j ec)
  then show ?thesis
    using assms(2,3,5,6)
    by (auto simp: Listener_OnAccept_def ListenerStopped_def StartAccept_def check_def Let_def map_add_def split: option.splits if_splits)
next
  case (SrvConnection j x)
  then show ?thesis
    using assms(3-6) by (auto simp: bind_res_eq_Inr put_connection_def Let_def map_of_put concerns_def split: option.splits)
next
  case (SrvWebSocket j x)
  then show ?thesis
    using assms(3,5,6) by (auto simp: bind_res_eq_Inr split: option.splits)
next
  case (SrvPosted k)
  have "hs_posted s ! k \<noteq> EraseConnection i"
    using posted_notified(2) [OF assms(1), of k i] assms(2,6,7) SrvPosted by (auto simp: notified_def)
  moreover have "erase j (hs_connections s) \<noteq> []" if "j \<noteq> i" for j
    using erase_map_of [of j "hs_connections s" i] assms(6) that by auto
  ultimately show ?thesis
    using assms(3,5,6) SrvPosted
    by (cases "hs_posted s ! k") (auto simp: check_def erase_map_of split: if_splits dest!: schedule_check_sel)
next
  case SrvWork
  have "\<not> all_gone (s\<lparr>hs_check_shutdown_work := w\<rparr>)" for w
    using assms(6) by (auto simp: all_gone_def)
  then show ?thesis
    using assms(3,5,6) SrvWork
    by (auto simp: run_work_def bind_res_eq_Inr CheckShutdown_def Let_def simp del: do_one_shot.simps split: if_splits)
qed (use assms in auto)

lemma idle_steps:
  "server_steps ds s u \<Longrightarrow> server_ok n s \<Longrightarrow> hs_level s = STOPPING \<Longrightarrow> map_of (hs_connections s) i = Some c \<Longrightarrow>
   cn_closed_notified c = 0 \<Longrightarrow> list_all (\<lambda>e. \<not> concerns i e) ds \<Longrightarrow> n + length ds + 2 < 2 ^ 64 \<Longrightarrow>
   map_of (hs_connections u) i = Some c \<and> hs_level u = STOPPING"
proof (induction arbitrary: n rule: server_steps.induct)
  case (steps_Nil s)
  then show ?case by simp
next
  case (steps_Cons e s t ds u)
  have t: "server_ok (n + 1) t"
    using server_event_ok [OF steps_Cons.prems(1) steps_Cons.hyps(1)] steps_Cons.hyps(2) steps_Cons.prems(6) SrvStopping_accepting
    by fastforce
  have "map_of (hs_connections t) i = Some c \<and> hs_level t = STOPPING"
    using idle_step [OF steps_Cons.prems(1) steps_Cons.hyps(1,2) _ steps_Cons.prems(2,3,4)] steps_Cons.prems(5) by simp
  then show ?case
    using steps_Cons.IH [OF t] steps_Cons.prems by simp
qed

text \<open>
  Stopping does not end idle connections. If a client's keep-alive connection is open when
  the server is told to stop, the server never closes it: whatever else happens, until the
  client itself sends or closes, the connection stays and the stop does not complete.
\<close>

theorem HttpServer_idle_connection_blocks_stop:
  assumes "server_run es s" "hs_level s = STOPPING" "map_of (hs_connections s) i = Some c" "cn_reads c = 1"
    and "server_steps ds s u" "list_all (\<lambda>e. \<not> concerns i e) ds" "length es + length ds + 3 < 2 ^ 64"
  shows "map_of (hs_connections u) i = Some c \<and> hs_level u = STOPPING"
proof -
  have ok: "server_ok (length es) s"
    using server_run_ok [OF assms(1)] assms(7) by simp
  then have "connection_ok c"
    using map_of_mem [OF assms(3)] unfolding server_ok_def parts_ok_def by blast
  then have idle: "cn_closed_notified c = 0"
    using assms(4) unfolding connection_ok_def by (auto elim: in_phase.elims)
  show ?thesis
    by (rule idle_steps [OF assms(5) ok assms(2,3) idle assms(6)]) (use assms(7) in simp)
qed

subsection \<open>Concrete runs\<close>

fun server_play :: "server_event list \<Rightarrow> http_server \<Rightarrow> http_server option" where
  "server_play [] s = Some s"
| "server_play (e # es) s =
     (if server_allowed e s then (case do_server e s of Inr s' \<Rightarrow> server_play es s' | Inl _ \<Rightarrow> None) else None)"

lemma server_play_run: "server_run ds s \<Longrightarrow> server_play es s = Some s' \<Longrightarrow> server_run (ds @ es) s'"
  by (induction es arbitrary: ds s) (fastforce dest: server_step split: if_splits sum.splits)+

definition example_stop_events :: "server_event list" where
  "example_stop_events = [SrvStarting, SrvAddServer Listening, SrvAccepted 0 False, SrvStopping]"

definition example_stopping :: http_server where
  "example_stopping = \<lparr>hs_level = STOPPING, hs_children_stopped = False,
     hs_check_shutdown_work = \<lparr>ow_level = RUNNING, ow_children_stopped = False, ow_next_token = 2, ow_pending_token = 1,
       ow_last_resolved_token = 0, ow_callback = True, ow_posted = 1, ow_runs = 0\<rparr>,
     hs_listeners = [(0, \<lparr>ls_is_accept_pending = True, ls_stop_requested = True, ls_lib_accept = True, ls_stopped = 0\<rparr>)],
     hs_connections = [(1, Connection ''Beast'')], hs_web_sockets = [], hs_handlers = new_dispatcher RUNNING,
     hs_posted = [], hs_next = 2, hs_version = ''Beast''\<rparr>"

lemma example_stopping_run: "server_run example_stop_events example_stopping"
proof -
  have "server_play example_stop_events (HttpServer ''Beast'') = Some example_stopping"
    by (simp add: example_stop_events_def example_stopping_def HttpServer_def HttpServer_HandleStarting_def new_dispatcher_def
        level_NotifyStarted_def AddServer_def Listener_def StartAccept_def Listener_OnAccept_def put_def
        HttpServer_HandleStopping_def stop_listener_def AsyncStop_def schedule_check_def OneShotWork_Schedule_def OneShotWork_def)
  from server_play_run [OF server_init this] show ?thesis
    by simp
qed

theorem HttpServer_stops_when_empty_witness:
  "\<exists>s'. do_server SrvWork example_stopping = Inr s' \<and> hs_level s' = STOPPING \<and> hs_level example_stopping = STOPPING"
  using HttpServer_stops_when_empty [OF example_stopping_run, of SrvWork]
  by (auto simp: example_stop_events_def example_stopping_def run_work_def DoCallback_def OneShotWork_CheckShutdown_def
      CheckShutdown_def all_gone_def Let_def)

theorem HttpServer_failed_listener_aborts_witness:
  "\<exists>s msg. hs_listeners s \<noteq> [] \<and> do_server SrvStopping s = Inl (AssertFailed msg)"
proof -
  let ?es = "[SrvStarting, SrvAddServer NotBound]"
  let ?s = "(HttpServer ''Beast'')\<lparr>hs_level := RUNNING, hs_handlers := new_dispatcher RUNNING, hs_next := 1,
     hs_listeners := [(0, \<lparr>ls_is_accept_pending = False, ls_stop_requested = False, ls_lib_accept = False, ls_stopped = 0\<rparr>)]\<rparr>"
  have "server_play ?es (HttpServer ''Beast'') = Some ?s"
    by (simp add: HttpServer_def HttpServer_HandleStarting_def new_dispatcher_def level_NotifyStarted_def AddServer_def Listener_def)
  from server_play_run [OF server_init this] have run: "server_run ?es ?s"
    by simp
  have "server_allowed SrvStopping ?s" "\<not> accepting ?s"
    by (simp_all add: HttpServer_def new_dispatcher_def accepting_def)
  then obtain msg where "do_server SrvStopping ?s = Inl (AssertFailed msg)"
    using HttpServer_failed_listener_aborts [OF run] by (auto simp del: do_server.simps)
  moreover have "hs_listeners ?s \<noteq> []"
    by simp
  ultimately show ?thesis
    by blast
qed

theorem HttpServer_idle_connection_blocks_stop_witness:
  "\<exists>u. server_steps [SrvAccepted 0 True, SrvPosted 0, SrvWork] example_stopping u \<and> hs_listeners u = [] \<and> hs_level u = STOPPING
    \<and> map_of (hs_connections u) 1 = Some (Connection ''Beast'')"
proof -
  define u where "u = example_stopping\<lparr>hs_listeners := [], hs_check_shutdown_work :=
     \<lparr>ow_level = RUNNING, ow_children_stopped = False, ow_next_token = 2, ow_pending_token = 0,
       ow_last_resolved_token = 1, ow_callback = True, ow_posted = 0, ow_runs = 1\<rparr>\<rparr>"
  have steps: "server_steps [SrvAccepted 0 True, SrvPosted 0, SrvWork] example_stopping u"
    by (rule steps_Cons steps_Nil | simp add: example_stopping_def u_def Listener_OnAccept_def ListenerStopped_def put_def erased_one_def erase_def
        schedule_check_def OneShotWork_Schedule_def run_work_def DoCallback_def OneShotWork_CheckShutdown_def CheckShutdown_def
        all_gone_def Let_def)+
  have "hs_level example_stopping = STOPPING" "map_of (hs_connections example_stopping) 1 = Some (Connection ''Beast'')"
      "cn_reads (Connection ''Beast'') = 1" "hs_listeners u = []"
    by (simp_all add: example_stopping_def Connection_def u_def)
  then show ?thesis
    using HttpServer_idle_connection_blocks_stop [OF example_stopping_run _ _ _ steps] steps
    by (auto simp: concerns_def example_stop_events_def)
qed

end
