(* ===== verification/Ssdp.thy ===== *)
theory Ssdp
  imports OneShotWork Timer Uuid Http
begin

section \<open>Discovery of services on the network\<close>

text \<open>
  \<open>BBoxRt/bbox/rt/net/ssdp\<close>: \<open>SsdpDiscoveryService\<close> keeps a socket on every network interface and
  sends and receives the packets of the protocol, \<open>SsdpAdvert\<close> announces a service of this host and
  \<open>SsdpSearch\<close> keeps the table of the devices found. The three share their members, so they are one
  state here: the service with the adverts and searches that refer to it, each under a number
  that stands for its address. Sockets are I/O: the packets sent are recorded, and a received packet
  is an argument. How the HTTP library reads the text of a packet is the parameter
  \<open>beast\<close>. Debug output is left out.
\<close>

subsection \<open>Data\<close>

text \<open>What the library says of an address.\<close>

record ip_address =
  ip_text :: string
  ip_is_v4 :: bool
  ip_is_loopback :: bool

record udp_endpoint =
  ue_address :: ip_address
  ue_port :: nat

record device_info =
  di_usn :: string
  di_local_address :: ip_address
  di_device_address :: ip_address
  di_service_type :: string
  di_location :: string

record packet =
  pk_from :: ip_address
  pk_to :: udp_endpoint
  pk_data :: string

text \<open>A packet as the library's parsers deliver it.\<close>

datatype message = MsgRequest string "(string \<times> string) list" | MsgResponse nat "(string \<times> string) list"

record ssdp_advert =
  ad_level :: run_level
  ad_children_stopped :: bool
  ad_timer :: timer
  ad_uuid :: uuid
  ad_service_type :: string
  ad_info_callback :: "ip_address \<Rightarrow> bool \<times> string"
  ad_expires_seconds :: nat
  ad_announce_count :: u64

record ssdp_search =
  ss_level :: run_level
  ss_children_stopped :: bool
  ss_timer :: timer
  ss_change_work :: one_shot_work
  ss_uuid :: uuid
  ss_service_type :: string
  ss_search_duration :: nat
  ss_announce_count :: u64
  ss_search_counter :: u64
  ss_devices :: "(string, device_info) smap"

text \<open>\<open>NetworkInterface\<close>: its overall level, and whether \<open>RequestStop\<close> was called, whose handler runs when it has stopped.\<close>

record net_interface =
  ni_address :: ip_address
  ni_level :: run_level
  ni_callback :: bool

record ssdp_service =
  sd_level :: run_level
  sd_children_stopped :: bool
  sd_check_network_work :: one_shot_work
  sd_adapters :: "(string \<times> ip_address list) list"
  sd_interfaces :: "net_interface list"
  sd_adverts :: "nat \<Rightarrow> ssdp_advert"
  sd_advert_ptrs :: "nat list"
  sd_searches :: "nat \<Rightarrow> ssdp_search"
  sd_search_ptrs :: "nat list"
  sd_sent :: "packet list"

definition ssdp_multicast_endpoint :: udp_endpoint where
  "ssdp_multicast_endpoint = \<lparr>ue_address = \<lparr>ip_text = ''239.255.255.250'', ip_is_v4 = True, ip_is_loopback = False\<rparr>, ue_port = 1900\<rparr>"

text \<open>\<open>ToString\<close> of an IPv4 end point.\<close>

definition UdpEndpoint_ToString :: "udp_endpoint \<Rightarrow> string" where
  "UdpEndpoint_ToString e = ip_text (ue_address e) @ '':'' @ show_nat (ue_port e)"

definition change_advert :: "nat \<Rightarrow> (ssdp_advert \<Rightarrow> ssdp_advert) \<Rightarrow> ssdp_service \<Rightarrow> ssdp_service" where
  "change_advert a f s = s\<lparr>sd_adverts := (sd_adverts s)(a := f (sd_adverts s a))\<rparr>"

definition change_search :: "nat \<Rightarrow> (ssdp_search \<Rightarrow> ssdp_search res) \<Rightarrow> ssdp_service \<Rightarrow> ssdp_service res" where
  "change_search h f s = bind_res (f (sd_searches s h)) (\<lambda>x. Inr (s\<lparr>sd_searches := (sd_searches s)(h := x)\<rparr>))"

text \<open>A set of pointers, in the order of the addresses.\<close>

definition ptrs_insert :: "nat \<Rightarrow> nat list \<Rightarrow> nat list \<times> bool" where
  "ptrs_insert a ptrs = (if a \<in> set ptrs then (ptrs, False) else (insort a ptrs, True))"

definition ptrs_erase :: "nat \<Rightarrow> nat list \<Rightarrow> nat list \<times> nat" where
  "ptrs_erase a ptrs = (remove1 a ptrs, if a \<in> set ptrs then 1 else 0)"

subsection \<open>The table of a search\<close>

definition schedule_change :: "ssdp_search \<Rightarrow> ssdp_search res" where
  "schedule_change x = bind_res (OneShotWork_Schedule (ss_change_work x)) (\<lambda>w. Inr (x\<lparr>ss_change_work := w\<rparr>))"

definition RemoveDevice :: "string \<Rightarrow> ssdp_search \<Rightarrow> ssdp_search res" where
  "RemoveDevice usn x =
     (let erase_result = smap_find usn (ss_devices x) \<noteq> None;
          x = x\<lparr>ss_devices := smap_erase usn (ss_devices x)\<rparr>
      in if erase_result then schedule_change x else Inr x)"

definition RemoveInterface :: "ip_address \<Rightarrow> ssdp_search \<Rightarrow> ssdp_search res" where
  "RemoveInterface local_addr x =
     (let to_erase = map fst [e \<leftarrow> ss_devices x. di_local_address (snd e) = local_addr] in
      if to_erase \<noteq> [] then schedule_change (x\<lparr>ss_devices := fold smap_erase to_erase (ss_devices x)\<rparr>) else Inr x)"

definition HandleNotification :: "ip_address \<Rightarrow> ip_address \<Rightarrow> string \<Rightarrow> string \<Rightarrow> string \<Rightarrow> ssdp_search \<Rightarrow> ssdp_search res" where
  "HandleNotification local_addr device_addr usn search_type location x =
     (let info = \<lparr>di_usn = usn, di_local_address = local_addr, di_device_address = device_addr,
            di_service_type = search_type, di_location = location\<rparr>
      in case smap_find usn (ss_devices x) of
           None \<Rightarrow> schedule_change (x\<lparr>ss_devices := smap_assign usn info (ss_devices x)\<rparr>)
         | Some old \<Rightarrow>
             if info \<noteq> old then schedule_change (x\<lparr>ss_devices := smap_assign usn info (ss_devices x)\<rparr>) else Inr x)"

subsection \<open>Sending\<close>

definition crlf :: string where
  "crlf = [CHR 0x0D, CHR 0x0A]"

definition SendPacket :: "net_interface \<Rightarrow> udp_endpoint \<Rightarrow> string \<Rightarrow> ssdp_service \<Rightarrow> ssdp_service" where
  "SendPacket iface dest data s = s\<lparr>sd_sent := sd_sent s @ [\<lparr>pk_from = ni_address iface, pk_to = dest, pk_data = data\<rparr>]\<rparr>"

definition notify_text :: "ssdp_advert \<Rightarrow> bool \<Rightarrow> string \<Rightarrow> string" where
  "notify_text ad alive location =
     ''NOTIFY * HTTP/1.1'' @ crlf
   @ ''Host: '' @ UdpEndpoint_ToString ssdp_multicast_endpoint @ crlf
   @ ''NT: '' @ ad_service_type ad @ crlf
   @ ''NTS: '' @ (if alive then ''ssdp:alive'' else ''ssdp:byebye'') @ crlf
   @ ''USN: '' @ Uuid_ToUrn (ad_uuid ad) @ crlf
   @ ''Location: '' @ location @ crlf
   @ (if alive then ''Cache-Control: max-age='' @ show_nat (ad_expires_seconds ad) @ crlf else [])
   @ crlf"

definition SendNotify :: "net_interface \<Rightarrow> nat \<Rightarrow> bool \<Rightarrow> ssdp_service \<Rightarrow> ssdp_service" where
  "SendNotify iface advert alive s =
     (let ad = sd_adverts s advert; (should_send, location) = ad_info_callback ad (ni_address iface) in
      if should_send then SendPacket iface ssdp_multicast_endpoint (notify_text ad alive location) s else s)"

definition SendNotifies :: "nat \<Rightarrow> bool \<Rightarrow> ssdp_service \<Rightarrow> ssdp_service" where
  "SendNotifies advert alive s = fold (\<lambda>iface. SendNotify iface advert alive) (sd_interfaces s) s"

definition search_text :: "ssdp_search \<Rightarrow> u64 \<Rightarrow> string" where
  "search_text x count =
     ''M-SEARCH * HTTP/1.1'' @ crlf
   @ ''Host: '' @ UdpEndpoint_ToString ssdp_multicast_endpoint @ crlf
   @ ''S: '' @ Uuid_ToUrn (ss_uuid x) @ '':'' @ show_nat (unat count) @ crlf
   @ ''Man: \"ssdp:discover\"'' @ crlf
   @ ''ST: '' @ ss_service_type x @ crlf
   @ ''MX: 3'' @ crlf
   @ crlf"

definition SendSearch :: "net_interface \<Rightarrow> nat \<Rightarrow> u64 \<Rightarrow> ssdp_service \<Rightarrow> ssdp_service" where
  "SendSearch iface h count s = SendPacket iface ssdp_multicast_endpoint (search_text (sd_searches s h) count) s"

definition SendSearches :: "nat \<Rightarrow> u64 \<Rightarrow> ssdp_service \<Rightarrow> ssdp_service" where
  "SendSearches h count s = fold (\<lambda>iface. SendSearch iface h count) (sd_interfaces s) s"

definition response_text :: "ssdp_advert \<Rightarrow> string \<Rightarrow> string \<Rightarrow> string" where
  "response_text ad search_id location =
     ''HTTP/1.1 200 OK'' @ crlf
   @ (if search_id \<noteq> [] then ''S: '' @ search_id @ crlf else [])
   @ ''Ext:'' @ crlf
   @ ''Cache-Control: max-age='' @ show_nat (ad_expires_seconds ad) @ crlf
   @ ''ST: '' @ ad_service_type ad @ crlf
   @ ''USN: '' @ Uuid_ToUrn (ad_uuid ad) @ crlf
   @ ''Location: '' @ location @ crlf
   @ crlf"

definition SendSearchResponse :: "net_interface \<Rightarrow> udp_endpoint \<Rightarrow> string \<Rightarrow> nat \<Rightarrow> ssdp_service \<Rightarrow> ssdp_service" where
  "SendSearchResponse iface dest search_id advert s =
     (let ad = sd_adverts s advert; (should_send, location) = ad_info_callback ad (ni_address iface) in
      if should_send then SendPacket iface dest (response_text ad search_id location) s else s)"

subsection \<open>Receiving\<close>

definition header :: "string \<Rightarrow> (string \<times> string) list \<Rightarrow> string" where
  "header name hs = (case header_find name hs of None \<Rightarrow> [] | Some v \<Rightarrow> v)"

definition type_matches :: "string \<Rightarrow> ssdp_search \<Rightarrow> bool" where
  "type_matches search_type x \<longleftrightarrow> search_type = ss_service_type x \<or> ss_service_type x = ''ssdp:all''"

text \<open>The loops over the searches that look for the type.\<close>

definition for_searches :: "string \<Rightarrow> (ssdp_search \<Rightarrow> ssdp_search res) \<Rightarrow> ssdp_service \<Rightarrow> ssdp_service res" where
  "for_searches search_type f s =
     fold_res (\<lambda>h s. if type_matches search_type (sd_searches s h) then change_search h f s else Inr s) (sd_search_ptrs s) s"

fun HandleMessage :: "net_interface \<Rightarrow> udp_endpoint \<Rightarrow> message option \<Rightarrow> ssdp_service \<Rightarrow> ssdp_service res" where
  "HandleMessage iface origin (Some (MsgRequest http_method hs)) s =
     (if http_method = ''M-SEARCH'' \<and> header_find ''ST'' hs \<noteq> None \<and> header_find ''Man'' hs \<noteq> None then
        (if header ''Man'' hs = ''\"ssdp:discover\"'' then
           let search_type = header ''ST'' hs; search_id = header ''S'' hs in
           Inr (fold (\<lambda>a s. if search_type = ''ssdp:all'' \<or> search_type = ad_service_type (sd_adverts s a)
                  then SendSearchResponse iface origin search_id a s else s) (sd_advert_ptrs s) s)
         else Inr s)
      else if http_method = ''NOTIFY'' \<and> header_find ''NT'' hs \<noteq> None \<and> header_find ''NTS'' hs \<noteq> None \<and> header_find ''USN'' hs \<noteq> None then
        let search_type = header ''NT'' hs; alive = header ''NTS'' hs; usn = header ''USN'' hs; location = header ''Location'' hs in
        (if alive = ''ssdp:byebye'' then for_searches search_type (RemoveDevice usn) s
         else if alive = ''ssdp:alive'' then
           for_searches search_type (HandleNotification (ni_address iface) (ue_address origin) usn search_type location) s
         else Inr s)
      else Inr s)"
| "HandleMessage iface origin (Some (MsgResponse status hs)) s =
     (if status = 200 \<and> header_find ''ST'' hs \<noteq> None \<and> header_find ''USN'' hs \<noteq> None then
        let search_type = header ''ST'' hs; usn = header ''USN'' hs; location = header ''Location'' hs in
        for_searches search_type (HandleNotification (ni_address iface) (ue_address origin) usn search_type location) s
      else Inr s)"
| "HandleMessage iface origin None s = Inr s"

text \<open>
  \<open>memcmp\<close> of the start of the packet decides which of the library's parsers reads it. \<open>beast\<close> is the result of the
  request parser if its first argument is true, and of the response parser otherwise.
\<close>

definition HandleReceivedPacket :: "(bool \<Rightarrow> string \<Rightarrow> message option) \<Rightarrow> net_interface \<Rightarrow> string \<Rightarrow> udp_endpoint
    \<Rightarrow> ssdp_service \<Rightarrow> ssdp_service res" where
  "HandleReceivedPacket beast iface data origin s =
     (if length data > 9 \<and> (take 9 data = ''M-SEARCH '' \<or> take 7 data = ''NOTIFY '') then HandleMessage iface origin (beast True data) s
      else if length data > 9 \<and> take 9 data = ''HTTP/1.1 '' then HandleMessage iface origin (beast False data) s
      else Inr s)"

subsection \<open>Interfaces\<close>

definition service_schedule :: "ssdp_service \<Rightarrow> ssdp_service res" where
  "service_schedule s = bind_res (OneShotWork_Schedule (sd_check_network_work s)) (\<lambda>w. Inr (s\<lparr>sd_check_network_work := w\<rparr>))"

definition SsdpDiscoveryService_HandleStarting :: "ssdp_service \<Rightarrow> ssdp_service res" where
  "SsdpDiscoveryService_HandleStarting s =
     bind_res (service_schedule s) (\<lambda>s. bind_res (level_NotifyStarted (sd_level s)) (\<lambda>l. Inr (s\<lparr>sd_level := l\<rparr>)))"

definition SsdpDiscoveryService_HandleStopping :: "ssdp_service \<Rightarrow> ssdp_service res" where
  "SsdpDiscoveryService_HandleStopping = service_schedule"

definition OnNetworkInterfacesChanged :: "ssdp_service \<Rightarrow> ssdp_service res" where
  "OnNetworkInterfacesChanged s = (if sd_level s = RUNNING then service_schedule s else Inr s)"

text \<open>
  The constructor of \<open>ResourceBase\<close> enters the interface among the children of the service under
  its address, which must be new; a \<open>Resource\<close> is running from the start.
\<close>

definition create_interface :: "ip_address \<Rightarrow> ssdp_service \<Rightarrow> ssdp_service res" where
  "create_interface addr s =
     bind_res (check ''insert_result.second'' (ip_text addr \<notin> set (map (ip_text \<circ> ni_address) (sd_interfaces s))) s) (\<lambda>s.
     bind_res (check ''m_address.is_v4()'' (ip_is_v4 addr) s) (\<lambda>s.
       Inr (s\<lparr>sd_interfaces := sd_interfaces s @ [\<lparr>ni_address = addr, ni_level = RUNNING, ni_callback = False\<rparr>]\<rparr>)))"

definition request_stop :: "ip_address \<Rightarrow> net_interface \<Rightarrow> net_interface" where
  "request_stop addr i = (if ni_address i = addr \<and> ni_level i = RUNNING then i\<lparr>ni_level := STOPPING, ni_callback := True\<rparr> else i)"

text \<open>An interface has stopped: the handler given to \<open>RequestStop\<close> runs.\<close>

definition interface_stopped :: "ip_address \<Rightarrow> ssdp_service \<Rightarrow> ssdp_service res" where
  "interface_stopped addr s =
     (let stops = (\<lambda>i. ni_address i = addr \<and> ni_level i = STOPPING);
          s' = s\<lparr>sd_interfaces := map (\<lambda>i. if stops i then i\<lparr>ni_level := STOPPED, ni_callback := False\<rparr> else i) (sd_interfaces s)\<rparr>
      in if list_ex (\<lambda>i. stops i \<and> ni_callback i) (sd_interfaces s) then service_schedule s' else Inr s')"

text \<open>The body of the loop that destroys what has stopped; erasing at an index skips the next one.\<close>

definition destroy_interface :: "net_interface \<Rightarrow> ssdp_service \<Rightarrow> ssdp_service res" where
  "destroy_interface i s =
     bind_res (fold_res (\<lambda>h. change_search h (RemoveInterface (ni_address i))) (sd_search_ptrs s) s) service_schedule"

fun destroy_pass :: "net_interface list \<Rightarrow> net_interface list \<Rightarrow> bool \<Rightarrow> ssdp_service
    \<Rightarrow> (net_interface list \<times> bool \<times> ssdp_service) res" where
  "destroy_pass before [] destroyed_any s = Inr (before, destroyed_any, s)"
| "destroy_pass before [i] destroyed_any s =
     (if ni_level i = STOPPED then bind_res (destroy_interface i s) (\<lambda>s. Inr (before, True, s))
      else Inr (before @ [i], destroyed_any, s))"
| "destroy_pass before (i # j # rest) destroyed_any s =
     (if ni_level i = STOPPED then bind_res (destroy_interface i s) (destroy_pass (before @ [j]) rest True)
      else destroy_pass (before @ [i]) (j # rest) destroyed_any s)"

lemma destroy_pass_length:
  "destroy_pass before ifaces d s = Inr (ifaces', d', s') \<Longrightarrow>
     length ifaces' \<le> length before + length ifaces \<and> (d' \<and> \<not> d \<longrightarrow> length ifaces' < length before + length ifaces)"
proof (induction before ifaces d s rule: destroy_pass.induct)
  case (3 before i j rest d s)
  show ?case
  proof (cases "ni_level i = STOPPED")
    case True
    then show ?thesis
      using 3 by (fastforce simp: bind_res_eq_Inr)
  next
    case False
    then show ?thesis
      using 3 by simp
  qed
qed (auto simp: bind_res_eq_Inr split: if_splits)

function destroy_stopped :: "net_interface list \<Rightarrow> ssdp_service \<Rightarrow> ssdp_service res" where
  "destroy_stopped ifaces s =
     bind_res (destroy_pass [] ifaces False s) (\<lambda>(ifaces, destroyed_any, s).
       if destroyed_any then destroy_stopped ifaces s else Inr (s\<lparr>sd_interfaces := ifaces\<rparr>))"
  by pat_completeness auto
termination destroy_stopped
  by (relation "measure (\<lambda>(ifaces, _). length ifaces)") (auto dest: destroy_pass_length)

definition current_addresses :: "ssdp_service \<Rightarrow> ip_address list" where
  "current_addresses s = [a \<leftarrow> concat (map snd (sd_adapters s)). ip_is_v4 a \<and> \<not> ip_is_loopback a]"

definition addresses_to_create :: "ssdp_service \<Rightarrow> ip_address list" where
  "addresses_to_create s =
     (if sd_level s = RUNNING then [a \<leftarrow> current_addresses s. \<not> list_ex (\<lambda>i. ni_address i = a) (sd_interfaces s)] else [])"

definition addresses_to_destroy :: "ssdp_service \<Rightarrow> ip_address list" where
  "addresses_to_destroy s =
     map ni_address [i \<leftarrow> sd_interfaces s. \<not> (sd_level s \<noteq> STOPPING \<and> list_ex (\<lambda>a. ni_address i = a) (current_addresses s))]"

subsection \<open>Adverts\<close>

definition start_periodic :: "timespan \<Rightarrow> timer \<Rightarrow> timer" where
  "start_periodic period = StartPeriodic period period RUN_FOR_EVER"

definition SsdpAdvert_HandleStarting :: "nat \<Rightarrow> ssdp_service \<Rightarrow> ssdp_service res" where
  "SsdpAdvert_HandleStarting a s =
     (let (ptrs, inserted) = ptrs_insert a (sd_advert_ptrs s); s = s\<lparr>sd_advert_ptrs := ptrs\<rparr> in
      bind_res (check ''insert_result.second'' inserted s) (\<lambda>s.
      let ad = (sd_adverts s a)\<lparr>ad_announce_count := 0, ad_timer := start_periodic (TimeSpan_Seconds 1) (ad_timer (sd_adverts s a))\<rparr> in
      bind_res (level_NotifyStarted (ad_level ad)) (\<lambda>l. Inr (change_advert a (\<lambda>_. ad\<lparr>ad_level := l\<rparr>) s))))"

definition SsdpAdvert_HandleStopping :: "nat \<Rightarrow> ssdp_service \<Rightarrow> ssdp_service res" where
  "SsdpAdvert_HandleStopping a s =
     (let (ptrs, erased) = ptrs_erase a (sd_advert_ptrs s); s = s\<lparr>sd_advert_ptrs := ptrs\<rparr> in
      bind_res (check ''erase_result == 1'' (erased = 1) s) (\<lambda>s.
      Inr (change_advert a (\<lambda>ad. ad\<lparr>ad_announce_count := 0, ad_timer := start_periodic (TimeSpan_Seconds 1) (ad_timer ad)\<rparr>) s)))"

definition RestartAdvertTimeOnNetworkChange :: "ssdp_advert \<Rightarrow> ssdp_advert" where
  "RestartAdvertTimeOnNetworkChange ad =
     (if ad_level ad = RUNNING then ad\<lparr>ad_announce_count := 0, ad_timer := start_periodic (TimeSpan_Seconds 1) (ad_timer ad)\<rparr> else ad)"

text \<open>The handler of the timer, with the operations it makes on the timer.\<close>

definition SsdpAdvert_HandleTimerExpired :: "nat \<Rightarrow> ssdp_service \<Rightarrow> (timer_op list \<times> ssdp_service) res" where
  "SsdpAdvert_HandleTimerExpired a s =
     (let s = change_advert a (\<lambda>ad. ad\<lparr>ad_announce_count := ad_announce_count ad + 1\<rparr>) s;
          s = SendNotifies a (ad_level (sd_adverts s a) = RUNNING) s;
          ad = sd_adverts s a
      in if ad_announce_count ad > 3 then
           (if ad_level ad = STOPPING then
              bind_res (level_NotifyStopped (ad_level ad)) (\<lambda>l.
                Inr ([OpCancel], change_advert a (\<lambda>ad. ad\<lparr>ad_level := l, ad_children_stopped := True\<rparr>) s))
            else Inr ([OpSingleShot (TimeSpan_Seconds (int (ad_expires_seconds ad div 3)))], s))
         else Inr ([], s))"

text \<open>The library calls the handler of a wait of the timer; \<open>Timer::HandleTimeout\<close> calls ours if the wait is the current one.\<close>

definition calls_back :: "u64 \<Rightarrow> bool \<Rightarrow> timer \<Rightarrow> bool" where
  "calls_back seq ec t \<longleftrightarrow> \<not> ec \<and> tm_wait_seq t = tm_cur_seq t \<and> tm_wait_seq t = seq \<and> tm_callback t"

definition advert_timeout :: "nat \<Rightarrow> u64 \<Rightarrow> bool \<Rightarrow> ssdp_service \<Rightarrow> ssdp_service res" where
  "advert_timeout a seq ec s =
     bind_res (if calls_back seq ec (ad_timer (sd_adverts s a)) then SsdpAdvert_HandleTimerExpired a s else Inr ([], s)) (\<lambda>(ops, s).
     bind_res (do_timer_event (Timeout seq ec ops) (ad_timer (sd_adverts s a))) (\<lambda>t.
       Inr (change_advert a (\<lambda>ad. ad\<lparr>ad_timer := t\<rparr>) s)))"

subsection \<open>Searches\<close>

definition SsdpSearch_HandleStarting :: "nat \<Rightarrow> ssdp_service \<Rightarrow> ssdp_service res" where
  "SsdpSearch_HandleStarting h s =
     (let (ptrs, inserted) = ptrs_insert h (sd_search_ptrs s); s = s\<lparr>sd_search_ptrs := ptrs\<rparr> in
      bind_res (check ''insert_result.second'' inserted s) (change_search h (\<lambda>x.
      let x = x\<lparr>ss_devices := [], ss_announce_count := 0, ss_timer := start_periodic (TimeSpan_Seconds 1) (ss_timer x)\<rparr> in
      bind_res (level_NotifyStarted (ss_level x)) (\<lambda>l. Inr (x\<lparr>ss_level := l\<rparr>)))))"

definition SsdpSearch_HandleStopping :: "nat \<Rightarrow> ssdp_service \<Rightarrow> ssdp_service res" where
  "SsdpSearch_HandleStopping h s =
     (let (ptrs, erased) = ptrs_erase h (sd_search_ptrs s); s = s\<lparr>sd_search_ptrs := ptrs\<rparr> in
      bind_res (check ''erase_result == 1'' (erased = 1) s) (change_search h (\<lambda>x.
      let x = x\<lparr>ss_devices := [], ss_timer := Timer_Cancel (ss_timer x)\<rparr> in
      bind_res (OneShotWork_Cancel (ss_change_work x)) (\<lambda>w.
      bind_res (level_NotifyStopped (ss_level x)) (\<lambda>l.
        Inr (x\<lparr>ss_change_work := w, ss_children_stopped := True, ss_level := l\<rparr>))))))"

definition SsdpSearch_RestartAdvertTimeOnNetworkChange :: "ssdp_search \<Rightarrow> ssdp_search" where
  "SsdpSearch_RestartAdvertTimeOnNetworkChange x =
     (if ss_level x = RUNNING then x\<lparr>ss_announce_count := 0, ss_timer := start_periodic (TimeSpan_Seconds 1) (ss_timer x)\<rparr> else x)"

definition SsdpSearch_HandleTimerExpired :: "nat \<Rightarrow> ssdp_service \<Rightarrow> timer_op list \<times> ssdp_service" where
  "SsdpSearch_HandleTimerExpired h s =
     (let put = (\<lambda>x s. s\<lparr>sd_searches := (sd_searches s)(h := x)\<rparr>);
          s = put ((sd_searches s h)\<lparr>ss_announce_count := ss_announce_count (sd_searches s h) + 1\<rparr>) s;
          s = SendSearches h (ss_search_counter (sd_searches s h)) s;
          x = sd_searches s h
      in if ss_announce_count x > 3 then
           ([OpSingleShot (TimeSpan_Seconds (int (ss_search_duration x)))], put (x\<lparr>ss_search_counter := ss_search_counter x + 1\<rparr>) s)
         else ([], s))"

definition search_timeout :: "nat \<Rightarrow> u64 \<Rightarrow> bool \<Rightarrow> ssdp_service \<Rightarrow> ssdp_service res" where
  "search_timeout h seq ec s =
     (let (ops, s) = (if calls_back seq ec (ss_timer (sd_searches s h)) then SsdpSearch_HandleTimerExpired h s else ([], s)) in
      change_search h (\<lambda>x. bind_res (do_timer_event (Timeout seq ec ops) (ss_timer x)) (\<lambda>t. Inr (x\<lparr>ss_timer := t\<rparr>))) s)"

subsection \<open>The check of the network\<close>

definition OnCheckNetwork :: "ssdp_service \<Rightarrow> ssdp_service res" where
  "OnCheckNetwork s =
     (let to_create = addresses_to_create s; to_destroy = addresses_to_destroy s in
      bind_res (fold_res create_interface to_create s) (\<lambda>s.
      let s = s\<lparr>sd_interfaces := fold (\<lambda>addr. map (request_stop addr)) to_destroy (sd_interfaces s)\<rparr> in
      bind_res (destroy_stopped (sd_interfaces s) s) (\<lambda>s.
      let s = (if to_create \<noteq> [] then fold (\<lambda>a. change_advert a RestartAdvertTimeOnNetworkChange) (sd_advert_ptrs s) s else s) in
      if sd_level s = STOPPING \<and> sd_interfaces s = [] then
        bind_res (OneShotWork_Cancel (sd_check_network_work s)) (\<lambda>w.
        bind_res (level_NotifyStopped (sd_level s)) (\<lambda>l.
          Inr (s\<lparr>sd_check_network_work := w, sd_children_stopped := True, sd_level := l\<rparr>)))
      else Inr s)))"

text \<open>\<open>OneShotWork::DoCallback\<close> takes its token before it calls.\<close>

definition check_network_callback :: "ssdp_service \<Rightarrow> ssdp_service res" where
  "check_network_callback s =
     OnCheckNetwork (s\<lparr>sd_check_network_work := (sd_check_network_work s)\<lparr>ow_pending_token := 0\<rparr>\<rparr>)"

end
