(* ===== verification/SsdpProofs.thy ===== *)
theory SsdpProofs
  imports Ssdp
begin

section \<open>Properties of service discovery\<close>

text \<open>
  The table of a search, the interfaces of the service and the announcements of an advert. Each of the
  three operations on a table is shown equal to one assignment (\<open>with_devices\<close>), each check of the network to
  one update of the state (\<open>checked_network\<close>); the properties follow from these.
\<close>

subsection \<open>Scheduled work\<close>

definition one_shot_ready :: "one_shot_work \<Rightarrow> bool" where
  "one_shot_ready w \<longleftrightarrow> ow_level w = RUNNING \<and> (ow_pending_token w \<noteq> 0 \<or> ow_next_token w \<noteq> 0)"

definition scheduled_work :: "one_shot_work \<Rightarrow> one_shot_work" where
  "scheduled_work w = (if ow_pending_token w = 0 then
     w\<lparr>ow_pending_token := ow_next_token w, ow_next_token := ow_next_token w + 1, ow_posted := ow_posted w + 1\<rparr> else w)"

lemma Schedule_eq: "one_shot_ready w \<Longrightarrow> OneShotWork_Schedule w = Inr (scheduled_work w)"
  by (simp add: OneShotWork_Schedule_def one_shot_ready_def scheduled_work_def)

lemma scheduled_work:
  assumes "one_shot_ready w"
  shows "one_shot_ready (scheduled_work w)" "IScheduled (scheduled_work w)" "scheduled_work (scheduled_work w) = scheduled_work w"
  using assms by (auto simp: one_shot_ready_def scheduled_work_def IScheduled_def)

subsection \<open>The table of a search\<close>

definition search_ok :: "ssdp_search \<Rightarrow> bool" where
  "search_ok x \<longleftrightarrow> smap_ok (ss_devices x) \<and> one_shot_ready (ss_change_work x)"

text \<open>A new table; the change is announced if it is one.\<close>

definition with_devices :: "(string, device_info) smap \<Rightarrow> ssdp_search \<Rightarrow> ssdp_search" where
  "with_devices ds x = (if ds = ss_devices x then x
     else x\<lparr>ss_devices := ds, ss_change_work := scheduled_work (ss_change_work x)\<rparr>)"

lemma with_devices_sel [simp]:
  "ss_devices (with_devices ds x) = ds" "ss_service_type (with_devices ds x) = ss_service_type x"
  by (simp_all add: with_devices_def)

lemma with_devices_ok: "search_ok x \<Longrightarrow> smap_ok ds \<Longrightarrow> search_ok (with_devices ds x)"
  by (simp add: with_devices_def search_ok_def scheduled_work)

lemma with_devices_scheduled:
  "search_ok x \<Longrightarrow> IScheduled (ss_change_work (with_devices ds x)) \<longleftrightarrow> IScheduled (ss_change_work x) \<or> ds \<noteq> ss_devices x"
  by (simp add: with_devices_def search_ok_def scheduled_work)

lemma schedule_change_eq:
  "search_ok x \<Longrightarrow> ds \<noteq> ss_devices x \<Longrightarrow> schedule_change (x\<lparr>ss_devices := ds\<rparr>) = Inr (with_devices ds x)"
  by (simp add: schedule_change_def with_devices_def search_ok_def Schedule_eq)

lemma smap_assign_same: "smap_ok m \<Longrightarrow> smap_find k m = Some v \<Longrightarrow> smap_assign k v m = m"
proof (induction m)
  case (Cons e m)
  obtain a b where e: "e = (a, b)" by fastforce
  have "smap_find k m = None" if "k < a"
    using Cons.prems that by (force intro: smap_find_below simp: e smap_ok_Cons)
  then show ?case
    using Cons linorder_less_linear [of k a] by (auto simp: e smap_ok_Cons split: if_splits)
qed simp

lemma smap_assign_changes: "smap_ok m \<Longrightarrow> smap_find k m \<noteq> Some v \<Longrightarrow> smap_assign k v m \<noteq> m"
  using smap_assign_find [where k = k and k' = k and m = m and v = v] by auto

lemma smap_erase_same: "smap_erase k m = m \<longleftrightarrow> smap_find k m = None"
  by (auto simp: smap_erase_def filter_id_conv map_of_eq_None_iff image_iff)

lemma RemoveDevice_eq:
  assumes "search_ok x"
  shows "RemoveDevice usn x = Inr (with_devices (smap_erase usn (ss_devices x)) x)"
  using schedule_change_eq [OF assms, of "smap_erase usn (ss_devices x)"]
  by (auto simp: RemoveDevice_def smap_erase_same) (simp add: with_devices_def smap_erase_same)

lemma fold_erase: "fold smap_erase ks m = [e \<leftarrow> m. fst e \<notin> set ks]"
  by (induction ks arbitrary: m) (auto simp: smap_erase_def conj_commute intro!: filter_cong)

lemma RemoveInterface_eq:
  assumes "search_ok x"
  shows "RemoveInterface a x = Inr (with_devices [e \<leftarrow> ss_devices x. di_local_address (snd e) \<noteq> a] x)"
proof -
  let ?ks = "map fst [e \<leftarrow> ss_devices x. di_local_address (snd e) = a]"
  have "distinct (map fst (ss_devices x))"
    using assms by (auto simp: search_ok_def smap_ok_def strict_sorted_iff)
  then have "fold smap_erase ?ks (ss_devices x) = [e \<leftarrow> ss_devices x. di_local_address (snd e) \<noteq> a]"
    unfolding fold_erase by (intro filter_cong) (auto dest: eq_key_imp_eq_value)
  moreover have "?ks = [] \<longleftrightarrow> [e \<leftarrow> ss_devices x. di_local_address (snd e) \<noteq> a] = ss_devices x"
    by (auto simp: filter_id_conv filter_empty_conv)
  ultimately show ?thesis
    using schedule_change_eq [OF assms, of "[e \<leftarrow> ss_devices x. di_local_address (snd e) \<noteq> a]"]
    by (auto simp: RemoveInterface_def Let_def) (simp add: with_devices_def)
qed

lemma HandleNotification_eq:
  assumes "search_ok x" "info = \<lparr>di_usn = usn, di_local_address = local_addr, di_device_address = device_addr,
     di_service_type = search_type, di_location = location\<rparr>"
  shows "HandleNotification local_addr device_addr usn search_type location x =
    Inr (with_devices (smap_assign usn info (ss_devices x)) x)"
proof -
  have ok: "smap_ok (ss_devices x)"
    using assms(1) by (simp add: search_ok_def)
  show ?thesis
  proof (cases "smap_find usn (ss_devices x) = Some info")
    case True
    then show ?thesis
      using smap_assign_same [OF ok True] assms(2) by (simp add: HandleNotification_def with_devices_def)
  next
    case False
    then show ?thesis
      using schedule_change_eq [OF assms(1) smap_assign_changes [OF ok False]] assms(2)
      by (auto simp: HandleNotification_def Let_def split: option.splits)
  qed
qed

subsection \<open>Destroying the interfaces that have stopped\<close>

definition remove_interfaces :: "ip_address set \<Rightarrow> ssdp_search \<Rightarrow> ssdp_search" where
  "remove_interfaces A x = with_devices [e \<leftarrow> ss_devices x. di_local_address (snd e) \<notin> A] x"

definition services_ok :: "ssdp_service \<Rightarrow> bool" where
  "services_ok s \<longleftrightarrow> one_shot_ready (sd_check_network_work s) \<and> distinct (sd_search_ptrs s)
     \<and> (\<forall>h \<in> set (sd_search_ptrs s). search_ok (sd_searches s h))"

definition update_searches :: "(ssdp_search \<Rightarrow> ssdp_search) \<Rightarrow> ssdp_service \<Rightarrow> ssdp_service" where
  "update_searches f s = s\<lparr>sd_searches := (\<lambda>h. if h \<in> set (sd_search_ptrs s) then f (sd_searches s h) else sd_searches s h)\<rparr>"

definition destroyed :: "ip_address set \<Rightarrow> ssdp_service \<Rightarrow> ssdp_service" where
  "destroyed A s = (update_searches (remove_interfaces A) s)\<lparr>sd_check_network_work :=
     (if A = {} then sd_check_network_work s else scheduled_work (sd_check_network_work s))\<rparr>"

lemma smap_ok_filter: "smap_ok m \<Longrightarrow> smap_ok (filter P m)"
  by (simp add: smap_ok_def sorted_wrt_map sorted_wrt_filter)

lemma remove_interfaces_ok: "search_ok x \<Longrightarrow> search_ok (remove_interfaces A x)"
  unfolding remove_interfaces_def by (rule with_devices_ok) (auto simp: search_ok_def smap_ok_filter)

lemma remove_interfaces_empty [simp]: "remove_interfaces {} x = x"
  by (simp add: remove_interfaces_def with_devices_def)

lemma filter_filter_same:
  assumes "filter Q (filter P m) = m"
  shows "filter P m = m"
proof -
  have "set m \<subseteq> {x. P x}"
    by (subst assms [symmetric]) auto
  then show ?thesis
    by (auto simp: filter_id_conv)
qed

lemma with_devices_twice:
  assumes "search_ok x" "ds2 = ss_devices x \<Longrightarrow> ds1 = ss_devices x"
  shows "with_devices ds2 (with_devices ds1 x) = with_devices ds2 x"
proof -
  have "scheduled_work (scheduled_work (ss_change_work x)) = scheduled_work (ss_change_work x)"
    using assms(1) by (simp add: search_ok_def scheduled_work)
  then show ?thesis
    using assms(2) by (cases "ds1 = ss_devices x"; cases "ds2 = ss_devices x") (simp_all add: with_devices_def)
qed

lemma remove_interfaces_twice:
  assumes "search_ok x"
  shows "remove_interfaces B (remove_interfaces A x) = remove_interfaces (A \<union> B) x"
proof -
  let ?f = "\<lambda>A m. [e \<leftarrow> m. di_local_address (snd (e :: string \<times> device_info)) \<notin> A]"
  have "remove_interfaces B (remove_interfaces A x) = with_devices (?f B (?f A (ss_devices x))) (with_devices (?f A (ss_devices x)) x)"
    by (simp add: remove_interfaces_def)
  also have "\<dots> = with_devices (?f B (?f A (ss_devices x))) x"
    by (rule with_devices_twice [OF assms]) (rule filter_filter_same)
  finally show ?thesis
    by (simp add: remove_interfaces_def conj_commute)
qed

lemma destroyed_sel [simp]:
  "sd_search_ptrs (destroyed A s) = sd_search_ptrs s" "sd_level (destroyed A s) = sd_level s"
  "sd_interfaces (destroyed A s) = sd_interfaces s" "sd_adverts (destroyed A s) = sd_adverts s"
  "sd_advert_ptrs (destroyed A s) = sd_advert_ptrs s" "sd_adapters (destroyed A s) = sd_adapters s"
  "sd_sent (destroyed A s) = sd_sent s"
  by (simp_all add: destroyed_def update_searches_def)

lemma destroyed_empty [simp]: "destroyed {} s = s"
  by (simp add: destroyed_def update_searches_def cong: if_cong)

lemma destroyed_ok: "services_ok s \<Longrightarrow> services_ok (destroyed A s)"
  by (auto simp: services_ok_def destroyed_def update_searches_def scheduled_work remove_interfaces_ok)

lemma destroyed_twice:
  assumes "services_ok s"
  shows "destroyed B (destroyed A s) = destroyed (A \<union> B) s"
  using assms
  by (intro ssdp_service.equality)
    (auto simp: services_ok_def destroyed_def update_searches_def remove_interfaces_twice scheduled_work)

lemma fold_searches:
  assumes "distinct ptrs" "\<And>h. h \<in> set ptrs \<Longrightarrow> f (sd_searches s h) = Inr (g (sd_searches s h))"
  shows "fold_res (\<lambda>h. change_search h f) ptrs s
    = Inr (s\<lparr>sd_searches := (\<lambda>h. if h \<in> set ptrs then g (sd_searches s h) else sd_searches s h)\<rparr>)"
  using assms
proof (induction ptrs arbitrary: s)
  case (Cons h ptrs)
  let ?s = "s\<lparr>sd_searches := (sd_searches s)(h := g (sd_searches s h))\<rparr>"
  have "fold_res (\<lambda>h. change_search h f) ptrs ?s
      = Inr (?s\<lparr>sd_searches := (\<lambda>h. if h \<in> set ptrs then g (sd_searches ?s h) else sd_searches ?s h)\<rparr>)"
    by (rule Cons.IH) (use Cons.prems in auto)
  moreover have "change_search h f s = Inr ?s"
    using Cons.prems(2) by (simp add: change_search_def)
  ultimately show ?case
    using Cons.prems(1) by (auto simp: fun_eq_iff intro!: ssdp_service.equality)
qed simp

lemma destroy_interface_eq:
  assumes "services_ok s"
  shows "destroy_interface i s = Inr (destroyed {ni_address i} s)"
proof -
  have "fold_res (\<lambda>h. change_search h (RemoveInterface (ni_address i))) (sd_search_ptrs s) s
      = Inr (update_searches (remove_interfaces {ni_address i}) s)"
    unfolding update_searches_def
    by (rule fold_searches) (use assms in \<open>auto simp: services_ok_def RemoveInterface_eq remove_interfaces_def\<close>)
  then show ?thesis
    using assms by (simp add: destroy_interface_def service_schedule_def services_ok_def update_searches_def destroyed_def Schedule_eq)
qed

abbreviation stays :: "net_interface \<Rightarrow> bool" where
  "stays i \<equiv> ni_level i \<noteq> STOPPED"

definition stopped_addresses :: "net_interface list \<Rightarrow> ip_address set" where
  "stopped_addresses ifaces = ni_address ` {i \<in> set ifaces. \<not> stays i}"

lemma stopped_addresses [simp]:
  "stopped_addresses [] = {}"
  "stopped_addresses (i # ifaces) = (if stays i then {} else {ni_address i}) \<union> stopped_addresses ifaces"
  "stopped_addresses (xs @ ys) = stopped_addresses xs \<union> stopped_addresses ys"
  by (auto simp: stopped_addresses_def)

lemma destroy_pass_eq:
  assumes "services_ok s"
  shows "\<exists>ifaces' A. destroy_pass before ifaces d s = Inr (ifaces', d \<or> A \<noteq> {}, destroyed A s)
    \<and> filter stays ifaces' = filter stays (before @ ifaces)
    \<and> A \<union> stopped_addresses ifaces' = stopped_addresses (before @ ifaces)
    \<and> (A = {} \<longrightarrow> ifaces' = before @ ifaces \<and> stopped_addresses ifaces = {})"
  using assms
proof (induction before ifaces d s rule: destroy_pass.induct)
  case (1 before d s)
  then show ?case
    by (intro exI [of _ before] exI [of _ "{}"]) simp
next
  case (2 before i d s)
  then show ?case
    by (intro exI [of _ "if stays i then before @ [i] else before"] exI [of _ "stopped_addresses [i]"])
      (auto simp: destroy_interface_eq)
next
  case (3 before i j rest d s)
  show ?case
  proof (cases "stays i")
    case True
    then obtain ifaces' A where "destroy_pass (before @ [i]) (j # rest) d s = Inr (ifaces', d \<or> A \<noteq> {}, destroyed A s)"
        "filter stays ifaces' = filter stays ((before @ [i]) @ j # rest)"
        "A \<union> stopped_addresses ifaces' = stopped_addresses ((before @ [i]) @ j # rest)"
        "A = {} \<longrightarrow> ifaces' = (before @ [i]) @ j # rest \<and> stopped_addresses (j # rest) = {}"
      using "3.IH"(2) "3.prems" by metis
    then show ?thesis
      using True by (intro exI [of _ ifaces'] exI [of _ A]) auto
  next
    case False
    let ?s = "destroyed {ni_address i} s"
    obtain ifaces' A where "destroy_pass (before @ [j]) rest True ?s = Inr (ifaces', True \<or> A \<noteq> {}, destroyed A ?s)"
        "filter stays ifaces' = filter stays ((before @ [j]) @ rest)"
        "A \<union> stopped_addresses ifaces' = stopped_addresses ((before @ [j]) @ rest)"
      using "3.IH"(1) [OF _ _ destroyed_ok [OF "3.prems", of "{ni_address i}"]] False destroy_interface_eq [OF "3.prems"] by metis
    then show ?thesis
      using False destroyed_twice [OF "3.prems"]
      by (intro exI [of _ ifaces'] exI [of _ "{ni_address i} \<union> A"])
        (auto simp: destroy_interface_eq [OF "3.prems"])
  qed
qed

lemma destroy_stopped_eq:
  "services_ok s \<Longrightarrow>
   destroy_stopped ifaces s = Inr ((destroyed (stopped_addresses ifaces) s)\<lparr>sd_interfaces := filter stays ifaces\<rparr>)"
proof (induction ifaces s rule: destroy_stopped.induct)
  case (1 ifaces s)
  obtain ifaces' A where p: "destroy_pass [] ifaces False s = Inr (ifaces', False \<or> A \<noteq> {}, destroyed A s)"
      "filter stays ifaces' = filter stays ([] @ ifaces)" "A \<union> stopped_addresses ifaces' = stopped_addresses ([] @ ifaces)"
      "A = {} \<longrightarrow> ifaces' = [] @ ifaces \<and> stopped_addresses ifaces = {}"
    using destroy_pass_eq [OF "1.prems", of "[]" ifaces False] by blast
  show ?case
  proof (cases "A = {}")
    case True
    then have "filter stays ifaces = ifaces"
      using p(4) by (auto simp: filter_id_conv stopped_addresses_def)
    then show ?thesis
      using True p by (subst destroy_stopped.simps) simp
  next
    case False
    then have "destroy_stopped ifaces' (destroyed A s)
        = Inr ((destroyed (stopped_addresses ifaces') (destroyed A s))\<lparr>sd_interfaces := filter stays ifaces'\<rparr>)"
      using "1.IH" [OF _ refl refl _ destroyed_ok [OF "1.prems"]] p(1) by simp
    then show ?thesis
      using False p(1,2,3) destroyed_twice [OF "1.prems"] by (subst destroy_stopped.simps) simp
  qed
qed

subsection \<open>One check of the network\<close>

definition new_interface :: "ip_address \<Rightarrow> net_interface" where
  "new_interface a = \<lparr>ni_address = a, ni_level = RUNNING, ni_callback = False\<rparr>"

definition wanted :: "ssdp_service \<Rightarrow> ip_address \<Rightarrow> bool" where
  "wanted s a \<longleftrightarrow> sd_level s \<noteq> STOPPING \<and> a \<in> set (current_addresses s)"

definition stop_unwanted :: "ssdp_service \<Rightarrow> net_interface \<Rightarrow> net_interface" where
  "stop_unwanted s i = (if ni_level i = RUNNING \<and> \<not> wanted s (ni_address i) then i\<lparr>ni_level := STOPPING, ni_callback := True\<rparr> else i)"

definition interfaces_after :: "ssdp_service \<Rightarrow> net_interface list" where
  "interfaces_after s = map (stop_unwanted s) (filter stays (sd_interfaces s)) @ map new_interface (addresses_to_create s)"

text \<open>Addresses are known by their texts, and no two adapters have the same one.\<close>

definition addresses_ok :: "ssdp_service \<Rightarrow> bool" where
  "addresses_ok s \<longleftrightarrow> distinct (current_addresses s) \<and> inj_on ip_text (set (current_addresses s) \<union> ni_address ` set (sd_interfaces s))"

definition restarted_adverts :: "ssdp_service \<Rightarrow> ssdp_service \<Rightarrow> ssdp_service" where
  "restarted_adverts s t = (if addresses_to_create s \<noteq> [] then
     fold (\<lambda>a. change_advert a RestartAdvertTimeOnNetworkChange) (sd_advert_ptrs t) t else t)"

definition checked_network :: "ssdp_service \<Rightarrow> ssdp_service" where
  "checked_network s =
     (let t = restarted_adverts s ((destroyed (stopped_addresses (sd_interfaces s)) s)\<lparr>sd_interfaces := interfaces_after s\<rparr>)
      in if sd_level s = STOPPING \<and> interfaces_after s = [] then
           t\<lparr>sd_check_network_work := (sd_check_network_work t)\<lparr>ow_pending_token := 0\<rparr>, sd_children_stopped := True, sd_level := STOPPED\<rparr>
         else t)"

lemma create_interfaces_eq:
  assumes "distinct (map ip_text as)" "\<forall>a \<in> set as. ip_is_v4 a"
    and "set (map ip_text as) \<inter> set (map (ip_text \<circ> ni_address) (sd_interfaces s)) = {}"
  shows "fold_res create_interface as s = Inr (s\<lparr>sd_interfaces := sd_interfaces s @ map new_interface as\<rparr>)"
  using assms
proof (induction as arbitrary: s)
  case (Cons a as)
  let ?s = "s\<lparr>sd_interfaces := sd_interfaces s @ [new_interface a]\<rparr>"
  have "fold_res create_interface as ?s = Inr (?s\<lparr>sd_interfaces := sd_interfaces ?s @ map new_interface as\<rparr>)"
    by (rule Cons.IH) (use Cons.prems in \<open>auto simp: new_interface_def\<close>)
  moreover have "create_interface a s = Inr ?s"
    using Cons.prems by (simp add: create_interface_def new_interface_def)
  ultimately show ?case
    by simp
qed simp

lemma request_stops_eq:
  "fold (\<lambda>addr. map (request_stop addr)) as ifaces
    = map (\<lambda>i. if ni_level i = RUNNING \<and> ni_address i \<in> set as then i\<lparr>ni_level := STOPPING, ni_callback := True\<rparr> else i) ifaces"
  by (induction as arbitrary: ifaces) (auto simp: request_stop_def)

lemma fold_adverts_sel [simp]:
  "sd_level (fold (\<lambda>a. change_advert a f) ps t) = sd_level t" "sd_interfaces (fold (\<lambda>a. change_advert a f) ps t) = sd_interfaces t"
  "sd_check_network_work (fold (\<lambda>a. change_advert a f) ps t) = sd_check_network_work t"
  "sd_searches (fold (\<lambda>a. change_advert a f) ps t) = sd_searches t" "sd_search_ptrs (fold (\<lambda>a. change_advert a f) ps t) = sd_search_ptrs t"
  "sd_adapters (fold (\<lambda>a. change_advert a f) ps t) = sd_adapters t" "sd_sent (fold (\<lambda>a. change_advert a f) ps t) = sd_sent t"
  by (induction ps arbitrary: t) (simp_all add: change_advert_def)

lemma restarted_adverts_sel [simp]:
  "sd_level (restarted_adverts s t) = sd_level t" "sd_interfaces (restarted_adverts s t) = sd_interfaces t"
  "sd_check_network_work (restarted_adverts s t) = sd_check_network_work t"
  "sd_searches (restarted_adverts s t) = sd_searches t" "sd_search_ptrs (restarted_adverts s t) = sd_search_ptrs t"
  "sd_adapters (restarted_adverts s t) = sd_adapters t" "sd_sent (restarted_adverts s t) = sd_sent t"
  by (simp_all add: restarted_adverts_def)

lemma in_destroy_set:
  "i \<in> set (sd_interfaces s) \<Longrightarrow> ni_address i \<in> set (addresses_to_destroy s) \<longleftrightarrow> \<not> wanted s (ni_address i)"
  by (auto simp: addresses_to_destroy_def wanted_def list_ex_iff)

lemma to_create_props:
  assumes "addresses_ok s"
  shows "distinct (map ip_text (addresses_to_create s))" "\<forall>a \<in> set (addresses_to_create s). ip_is_v4 a"
    and "set (map ip_text (addresses_to_create s)) \<inter> set (map (ip_text \<circ> ni_address) (sd_interfaces s)) = {}"
    and "set (addresses_to_create s) \<inter> set (addresses_to_destroy s) = {}"
proof -
  have sub: "set (addresses_to_create s) \<subseteq> set (current_addresses s) - ni_address ` set (sd_interfaces s)"
    by (auto simp: addresses_to_create_def list_ex_iff)
  have inj: "inj_on ip_text (set (current_addresses s) \<union> ni_address ` set (sd_interfaces s))"
    using assms by (simp add: addresses_ok_def)
  have "inj_on ip_text (set (addresses_to_create s))"
    by (rule inj_on_subset [OF inj]) (use sub in blast)
  moreover have "distinct (addresses_to_create s)"
    using assms by (simp add: addresses_ok_def addresses_to_create_def)
  ultimately show "distinct (map ip_text (addresses_to_create s))"
    by (simp add: distinct_map)
  show "\<forall>a \<in> set (addresses_to_create s). ip_is_v4 a"
    by (auto simp: addresses_to_create_def current_addresses_def)
  show "set (map ip_text (addresses_to_create s)) \<inter> set (map (ip_text \<circ> ni_address) (sd_interfaces s)) = {}"
  proof (rule equals0I)
    fix x assume "x \<in> set (map ip_text (addresses_to_create s)) \<inter> set (map (ip_text \<circ> ni_address) (sd_interfaces s))"
    then obtain a i where ai: "a \<in> set (addresses_to_create s)" "i \<in> set (sd_interfaces s)" "ip_text a = ip_text (ni_address i)"
      by auto
    then have "a = ni_address i"
      using sub by (intro inj_onD [OF inj ai(3)]) auto
    then show False
      using ai sub by auto
  qed
  show "set (addresses_to_create s) \<inter> set (addresses_to_destroy s) = {}"
    using sub by (auto simp: addresses_to_destroy_def)
qed

lemma destroyed_interfaces: "destroyed A (s\<lparr>sd_interfaces := is\<rparr>) = (destroyed A s)\<lparr>sd_interfaces := is\<rparr>"
  by (simp add: destroyed_def update_searches_def cong: if_cong)

lemma services_ok_interfaces [simp]: "services_ok (s\<lparr>sd_interfaces := is\<rparr>) = services_ok s"
  by (simp add: services_ok_def)

lemma OnCheckNetwork_eq:
  assumes "services_ok s" "addresses_ok s"
  shows "OnCheckNetwork s = Inr (checked_network s)"
proof -
  note new = to_create_props [OF assms(2)]
  let ?is = "map (stop_unwanted s) (sd_interfaces s) @ map new_interface (addresses_to_create s)"
  have "fold (\<lambda>addr. map (request_stop addr)) (addresses_to_destroy s) (sd_interfaces s @ map new_interface (addresses_to_create s)) = ?is"
    using new(4) in_destroy_set [of _ s] by (auto simp: request_stops_eq stop_unwanted_def new_interface_def)
  moreover have "filter stays (map (stop_unwanted s) xs) = map (stop_unwanted s) (filter stays xs)"
      "stopped_addresses (map (stop_unwanted s) xs) = stopped_addresses xs" for xs
    by (induction xs) (auto simp: stop_unwanted_def)
  moreover have "filter stays (map new_interface xs) = map new_interface xs" "stopped_addresses (map new_interface xs) = {}" for xs
    by (induction xs) (auto simp: new_interface_def)
  ultimately have d: "destroy_stopped ?is (s\<lparr>sd_interfaces := ?is\<rparr>)
      = Inr ((destroyed (stopped_addresses (sd_interfaces s)) s)\<lparr>sd_interfaces := interfaces_after s\<rparr>)"
    using destroy_stopped_eq [of "s\<lparr>sd_interfaces := ?is\<rparr>" ?is] assms(1)
    by (simp add: interfaces_after_def destroyed_interfaces)
  let ?t = "restarted_adverts s ((destroyed (stopped_addresses (sd_interfaces s)) s)\<lparr>sd_interfaces := interfaces_after s\<rparr>)"
  have w: "ow_level (sd_check_network_work (destroyed (stopped_addresses (sd_interfaces s)) s)) = RUNNING"
    using destroyed_ok [OF assms(1)] by (simp add: services_ok_def one_shot_ready_def)
  show ?thesis
    unfolding OnCheckNetwork_def Let_def
    using create_interfaces_eq [OF new(1-3)] d w \<open>fold _ _ _ = ?is\<close>
    by (auto simp: checked_network_def restarted_adverts_def OneShotWork_Cancel_def level_NotifyStopped_def Let_def)
qed

subsection \<open>Checks until the network is followed\<close>

definition at_level :: "run_level \<Rightarrow> ssdp_service \<Rightarrow> ip_address set" where
  "at_level l s = ni_address ` {i \<in> set (sd_interfaces s). ni_level i = l}"

definition wanted_addresses :: "ssdp_service \<Rightarrow> ip_address set" where
  "wanted_addresses s = {a. wanted s a}"

text \<open>
  The invariant of the service, with room for \<open>n\<close> more tokens of its work: \<open>services_ok\<close>, \<open>addresses_ok\<close>, one
  interface per address, and an interface is running, stopping or stopped.
\<close>

definition ssdp_ok :: "nat \<Rightarrow> ssdp_service \<Rightarrow> bool" where
  "ssdp_ok n s \<longleftrightarrow> services_ok s \<and> addresses_ok s \<and> distinct (map ni_address (sd_interfaces s))
     \<and> (\<forall>i \<in> set (sd_interfaces s). ni_level i \<in> {RUNNING, STOPPING, STOPPED})
     \<and> 0 < unat (ow_next_token (sd_check_network_work s)) \<and> unat (ow_next_token (sd_check_network_work s)) + n < 2 ^ 64"

definition interfaces_stop :: "ssdp_service \<Rightarrow> ssdp_service res" where
  "interfaces_stop s = fold_res interface_stopped (map ni_address [i \<leftarrow> sd_interfaces s. ni_level i = STOPPING]) s"

lemma current_addresses_cong: "sd_adapters t = sd_adapters s \<Longrightarrow> current_addresses t = current_addresses s"
  by (simp add: current_addresses_def)

lemma scheduled_work_next:
  "one_shot_ready w \<Longrightarrow> 0 < unat (ow_next_token w) \<Longrightarrow> unat (ow_next_token w) + 1 < 2 ^ 64 \<Longrightarrow>
   0 < unat (ow_next_token (scheduled_work w)) \<and> unat (ow_next_token (scheduled_work w)) \<le> unat (ow_next_token w) + 1"
  using unat_plus_1 [of "ow_next_token w"] by (simp add: scheduled_work_def)

lemma interfaces_after_levels:
  assumes "\<forall>i \<in> set (sd_interfaces s). ni_level i \<in> {RUNNING, STOPPING, STOPPED}" "sd_level s = RUNNING \<or> sd_level s = STOPPING"
    and "sd_interfaces t = interfaces_after s"
  shows "at_level RUNNING t = (at_level RUNNING s \<inter> wanted_addresses s) \<union> (wanted_addresses s - ni_address ` set (sd_interfaces s))"
    and "at_level STOPPING t = at_level STOPPING s \<union> (at_level RUNNING s - wanted_addresses s)"
    and "at_level STOPPED t = {}"
    and "ni_address ` set (sd_interfaces t) = (ni_address ` set (sd_interfaces s) - at_level STOPPED s) \<union> at_level RUNNING t \<union> at_level STOPPING t"
proof -
  have new: "set (addresses_to_create s) = wanted_addresses s - ni_address ` set (sd_interfaces s)"
    using assms(2) by (auto simp: addresses_to_create_def wanted_addresses_def wanted_def list_ex_iff)
  have sel: "ni_address (stop_unwanted s i) = ni_address i"
    "ni_level (stop_unwanted s i) = (if ni_level i = RUNNING \<and> ni_address i \<notin> wanted_addresses s then STOPPING else ni_level i)" for i
    by (simp_all add: stop_unwanted_def wanted_addresses_def)
  have at: "a \<in> at_level l t \<longleftrightarrow> (\<exists>i \<in> set (sd_interfaces s). a = ni_address i \<and> stays i \<and> ni_level (stop_unwanted s i) = l)
      \<or> l = RUNNING \<and> a \<in> set (addresses_to_create s)" for a l
    unfolding at_level_def assms(3) interfaces_after_def by (auto simp: new_interface_def image_iff sel(1) bex_Un)
  have lvl: "stays i \<and> ni_level (stop_unwanted s i) = RUNNING \<longleftrightarrow> ni_level i = RUNNING \<and> ni_address i \<in> wanted_addresses s"
      "stays i \<and> ni_level (stop_unwanted s i) = STOPPING
        \<longleftrightarrow> ni_level i = STOPPING \<or> ni_level i = RUNNING \<and> ni_address i \<notin> wanted_addresses s"
      "\<not> (stays i \<and> ni_level (stop_unwanted s i) = STOPPED)" for i
    by (auto simp: sel)
  have mem: "a \<in> at_level l s \<longleftrightarrow> (\<exists>i \<in> set (sd_interfaces s). a = ni_address i \<and> ni_level i = l)" for a l
    by (auto simp: at_level_def)
  show run: "at_level RUNNING t = (at_level RUNNING s \<inter> wanted_addresses s) \<union> (wanted_addresses s - ni_address ` set (sd_interfaces s))"
    by (rule set_eqI) (simp only: at lvl Un_iff Int_iff Diff_iff mem new, fastforce)
  show stp: "at_level STOPPING t = at_level STOPPING s \<union> (at_level RUNNING s - wanted_addresses s)"
    by (rule set_eqI) (simp only: at lvl Un_iff Diff_iff mem, blast)
  show "at_level STOPPED t = {}"
    by (rule set_eqI) (simp only: at lvl, simp)
  have "\<forall>i \<in> set (sd_interfaces t). ni_level i = RUNNING \<or> ni_level i = STOPPING"
    using assms(1) by (auto simp: assms(3) interfaces_after_def new_interface_def sel split: if_splits)
  then have all: "ni_address ` set (sd_interfaces t) = at_level RUNNING t \<union> at_level STOPPING t"
    by (auto simp: at_level_def)
  show "ni_address ` set (sd_interfaces t) = (ni_address ` set (sd_interfaces s) - at_level STOPPED s) \<union> at_level RUNNING t \<union> at_level STOPPING t"
    unfolding all run stp using assms(1) by (auto simp: at_level_def)
qed

lemma check_ok:
  assumes "ssdp_ok (Suc n) s" "sd_level s = RUNNING \<or> sd_level s = STOPPING"
  shows "\<exists>s'. check_network_callback s = Inr s' \<and> ssdp_ok n s' \<and> sd_adapters s' = sd_adapters s \<and> sd_search_ptrs s' = sd_search_ptrs s
    \<and> sd_level s' = (if sd_level s = STOPPING \<and> at_level RUNNING s \<union> at_level STOPPING s = {} then STOPPED else sd_level s)
    \<and> sd_interfaces s' = interfaces_after s
    \<and> (\<forall>h \<in> set (sd_search_ptrs s). ss_devices (sd_searches s' h)
        = [e \<leftarrow> ss_devices (sd_searches s h). di_local_address (snd e) \<notin> at_level STOPPED s])"
proof -
  let ?s = "s\<lparr>sd_check_network_work := (sd_check_network_work s)\<lparr>ow_pending_token := 0\<rparr>\<rparr>"
  let ?A = "stopped_addresses (sd_interfaces s)"
  have A: "?A = at_level STOPPED s"
    by (auto simp: stopped_addresses_def at_level_def)
  have same: "interfaces_after ?s = interfaces_after s" "addresses_ok ?s = addresses_ok s"
    by (simp_all add: interfaces_after_def addresses_to_create_def current_addresses_def stop_unwanted_def [abs_def] wanted_def
        addresses_ok_def)
  have ok: "services_ok ?s" "addresses_ok ?s" "0 < unat (ow_next_token (sd_check_network_work s))"
      "unat (ow_next_token (sd_check_network_work s)) + Suc n < 2 ^ 64"
    using assms(1) by (auto simp: ssdp_ok_def services_ok_def one_shot_ready_def same simp flip: word_unat_eq_iff)
  let ?d = "destroyed ?A ?s"
  have d: "services_ok ?d" "0 < unat (ow_next_token (sd_check_network_work ?d))"
      "unat (ow_next_token (sd_check_network_work ?d)) + n < 2 ^ 64"
    using destroyed_ok [OF ok(1)] scheduled_work_next [of "sd_check_network_work ?s"] ok
    by (auto simp: destroyed_def update_searches_def services_ok_def)
  have lv: "\<forall>i \<in> set (sd_interfaces s). ni_level i \<in> {RUNNING, STOPPING, STOPPED}"
    using assms(1) by (simp add: ssdp_ok_def)
  have empty: "interfaces_after s = [] \<longleftrightarrow> at_level RUNNING s \<union> at_level STOPPING s = {}" if "sd_level s = STOPPING"
    using that lv by (auto simp: interfaces_after_def addresses_to_create_def at_level_def filter_empty_conv)
  define s' where "s' = checked_network ?s"
  have sel: "sd_interfaces s' = interfaces_after s" "sd_adapters s' = sd_adapters s" "sd_search_ptrs s' = sd_search_ptrs s"
      "sd_searches s' = sd_searches ?d" "ow_next_token (sd_check_network_work s') = ow_next_token (sd_check_network_work ?d)"
      "sd_level s' = (if sd_level s = STOPPING \<and> interfaces_after s = [] then STOPPED else sd_level s)"
    by (simp_all add: s'_def checked_network_def same Let_def)
  have "ow_level (sd_check_network_work s') = ow_level (sd_check_network_work ?d)"
    by (simp add: s'_def checked_network_def same Let_def)
  then have "services_ok s'"
    using d(1,2) sel by (auto simp: services_ok_def one_shot_ready_def s'_def checked_network_def Let_def)
  moreover have "addresses_ok s'"
  proof -
    have "ni_address ` set (sd_interfaces s') \<subseteq> set (current_addresses s) \<union> ni_address ` set (sd_interfaces s)"
      unfolding sel(1) by (auto simp: interfaces_after_def addresses_to_create_def stop_unwanted_def new_interface_def split: if_splits)
    then show ?thesis
      using ok(2) inj_on_subset [of ip_text "set (current_addresses s) \<union> ni_address ` set (sd_interfaces s)"
          "set (current_addresses s) \<union> ni_address ` set (sd_interfaces s')"]
      unfolding same unfolding addresses_ok_def current_addresses_cong [OF sel(2)] by blast
  qed
  moreover have "distinct (map ni_address (interfaces_after s))"
  proof -
    have "distinct (map ni_address (sd_interfaces s))" "distinct (current_addresses s)"
      using assms(1) by (auto simp: ssdp_ok_def addresses_ok_def)
    moreover have "map ni_address (map (stop_unwanted s) xs) = map ni_address xs" "map ni_address (map new_interface as) = as" for xs as
      by (simp_all add: stop_unwanted_def new_interface_def comp_def if_distrib cong: if_cong)
    ultimately show ?thesis
      by (auto simp: interfaces_after_def distinct_map_filter addresses_to_create_def list_ex_iff simp del: map_map)
  qed
  moreover have "\<forall>i \<in> set (interfaces_after s). ni_level i \<in> {RUNNING, STOPPING, STOPPED}"
    using lv by (auto simp: interfaces_after_def stop_unwanted_def new_interface_def)
  ultimately have "ssdp_ok n s'"
    using d(2,3) sel by (simp add: ssdp_ok_def)
  moreover have "\<forall>h \<in> set (sd_search_ptrs s). ss_devices (sd_searches s' h)
        = [e \<leftarrow> ss_devices (sd_searches s h). di_local_address (snd e) \<notin> at_level STOPPED s]"
    unfolding sel(4) by (simp add: destroyed_def update_searches_def remove_interfaces_def A)
  ultimately show ?thesis
    using OnCheckNetwork_eq [OF ok(1,2)] sel empty unfolding check_network_callback_def
    by (intro exI [of _ s']) (auto simp: s'_def)
qed

definition may_schedule :: "one_shot_work \<Rightarrow> one_shot_work \<Rightarrow> bool" where
  "may_schedule w w' \<longleftrightarrow> w' = w \<or> w' = scheduled_work w"

lemma may_schedule_trans: "one_shot_ready w \<Longrightarrow> may_schedule w w1 \<Longrightarrow> may_schedule w1 w2 \<Longrightarrow> may_schedule w w2"
  by (auto simp: may_schedule_def scheduled_work)

lemma interface_stops_eq:
  assumes "one_shot_ready (sd_check_network_work s)"
  shows "\<exists>s'. fold_res interface_stopped as s = Inr s' \<and> sd_interfaces s' = map (\<lambda>i. if ni_address i \<in> set as \<and> ni_level i = STOPPING
        then i\<lparr>ni_level := STOPPED, ni_callback := False\<rparr> else i) (sd_interfaces s)
    \<and> may_schedule (sd_check_network_work s) (sd_check_network_work s') \<and> sd_level s' = sd_level s \<and> sd_adapters s' = sd_adapters s
    \<and> sd_search_ptrs s' = sd_search_ptrs s \<and> sd_searches s' = sd_searches s"
  using assms
proof (induction as arbitrary: s)
  case Nil
  then show ?case
    by (simp add: may_schedule_def)
next
  case (Cons a as)
  let ?f = "\<lambda>A i. if ni_address i \<in> A \<and> ni_level i = STOPPING then i\<lparr>ni_level := STOPPED, ni_callback := False\<rparr> else i"
  obtain s1 where s1: "interface_stopped a s = Inr s1" "sd_interfaces s1 = map (?f {a}) (sd_interfaces s)"
      "may_schedule (sd_check_network_work s) (sd_check_network_work s1)" "sd_level s1 = sd_level s" "sd_adapters s1 = sd_adapters s"
      "sd_search_ptrs s1 = sd_search_ptrs s" "sd_searches s1 = sd_searches s"
    using Cons.prems
    by (cases "list_ex (\<lambda>i. (ni_address i = a \<and> ni_level i = STOPPING) \<and> ni_callback i) (sd_interfaces s)")
      (auto simp: interface_stopped_def service_schedule_def Schedule_eq may_schedule_def Let_def)
  have comp: "map (?f (set as)) (map (?f {a}) xs) = map (?f (set (a # as))) xs" for xs
    by (induction xs) auto
  have "one_shot_ready (sd_check_network_work s1)"
    using s1(3) Cons.prems by (auto simp: may_schedule_def scheduled_work)
  from Cons.IH [OF this] show ?case
    using s1 comp may_schedule_trans [OF Cons.prems s1(3)] by auto
qed

lemma interfaces_stop_ok:
  assumes "ssdp_ok (Suc n) s"
  shows "\<exists>s'. interfaces_stop s = Inr s' \<and> ssdp_ok n s' \<and> sd_level s' = sd_level s \<and> sd_adapters s' = sd_adapters s
    \<and> sd_search_ptrs s' = sd_search_ptrs s \<and> sd_searches s' = sd_searches s
    \<and> at_level RUNNING s' = at_level RUNNING s \<and> at_level STOPPING s' = {}
    \<and> at_level STOPPED s' = at_level STOPPED s \<union> at_level STOPPING s
    \<and> ni_address ` set (sd_interfaces s') = ni_address ` set (sd_interfaces s)"
proof -
  have ok: "one_shot_ready (sd_check_network_work s)" "0 < unat (ow_next_token (sd_check_network_work s))"
      "unat (ow_next_token (sd_check_network_work s)) + Suc n < 2 ^ 64"
    using assms by (auto simp: ssdp_ok_def services_ok_def)
  let ?f = "\<lambda>i. if ni_level i = STOPPING then i\<lparr>ni_level := STOPPED, ni_callback := False\<rparr> else i"
  obtain s' where s': "interfaces_stop s = Inr s'" "sd_interfaces s' = map ?f (sd_interfaces s)"
      "may_schedule (sd_check_network_work s) (sd_check_network_work s')" "sd_level s' = sd_level s" "sd_adapters s' = sd_adapters s"
      "sd_search_ptrs s' = sd_search_ptrs s" "sd_searches s' = sd_searches s"
  proof -
    have "map (\<lambda>i. if ni_address i \<in> set (map ni_address [i \<leftarrow> sd_interfaces s. ni_level i = STOPPING]) \<and> ni_level i = STOPPING
        then i\<lparr>ni_level := STOPPED, ni_callback := False\<rparr> else i) (sd_interfaces s) = map ?f (sd_interfaces s)"
      by auto
    then show ?thesis
      using interface_stops_eq [OF ok(1), of "map ni_address [i \<leftarrow> sd_interfaces s. ni_level i = STOPPING]"] that
      unfolding interfaces_stop_def by metis
  qed
  have addr: "map ni_address (sd_interfaces s') = map ni_address (sd_interfaces s)"
    by (simp add: s'(2) comp_def if_distrib cong: if_cong)
  then have addrs: "ni_address ` set (sd_interfaces s') = ni_address ` set (sd_interfaces s)"
    by (metis set_map)
  have "services_ok s'"
    using assms s'(3,6,7) scheduled_work [OF ok(1)] by (auto simp: ssdp_ok_def services_ok_def may_schedule_def)
  moreover have "addresses_ok s'"
    using assms unfolding ssdp_ok_def addresses_ok_def current_addresses_cong [OF s'(5)] addrs by blast
  moreover have "0 < unat (ow_next_token (sd_check_network_work s'))" "unat (ow_next_token (sd_check_network_work s')) + n < 2 ^ 64"
    using s'(3) scheduled_work_next [OF ok(1,2)] ok(2,3) by (auto simp: may_schedule_def)
  moreover have "\<forall>i \<in> set (sd_interfaces s'). ni_level i \<in> {RUNNING, STOPPING, STOPPED}"
    using assms unfolding s'(2) by (auto simp: ssdp_ok_def)
  ultimately have "ssdp_ok n s'"
    using assms addr by (simp add: ssdp_ok_def)
  moreover have "at_level RUNNING s' = at_level RUNNING s" "at_level STOPPING s' = {}"
      "at_level STOPPED s' = at_level STOPPED s \<union> at_level STOPPING s"
  proof -
    have mem: "a \<in> at_level l u \<longleftrightarrow> (\<exists>i \<in> set (sd_interfaces u). ni_address i = a \<and> ni_level i = l)" for a l u
      by (auto simp: at_level_def)
    have after: "(\<exists>i \<in> set (sd_interfaces s'). ni_address i = a \<and> ni_level i = l)
        \<longleftrightarrow> (\<exists>i \<in> set (sd_interfaces s). ni_address i = a
            \<and> (ni_level i = STOPPING \<and> l = STOPPED \<or> ni_level i \<noteq> STOPPING \<and> ni_level i = l))" for a l
      unfolding s'(2) set_map bex_simps(7) by (intro bex_cong) auto
    show "at_level RUNNING s' = at_level RUNNING s" "at_level STOPPING s' = {}"
        "at_level STOPPED s' = at_level STOPPED s \<union> at_level STOPPING s"
      by (rule set_eqI, simp only: mem after Un_iff empty_iff, fastforce)+
  qed
  ultimately show ?thesis
    using s' addrs by blast
qed

text \<open>A change of the network: the check, the interfaces it stopped have stopped, and the two checks that this schedules.\<close>

definition settle :: "ssdp_service \<Rightarrow> ssdp_service res" where
  "settle s = bind_res (check_network_callback s) (\<lambda>s. bind_res (interfaces_stop s) (\<lambda>s.
     bind_res (check_network_callback s) check_network_callback))"

definition usable :: "ssdp_service \<Rightarrow> net_interface \<Rightarrow> bool" where
  "usable s i \<longleftrightarrow> ni_level i = RUNNING \<and> ni_address i \<in> set (current_addresses s)"

lemma ssdp_ok_levels: "ssdp_ok n s \<Longrightarrow> ni_address ` set (sd_interfaces s) = at_level RUNNING s \<union> at_level STOPPING s \<union> at_level STOPPED s"
  unfolding ssdp_ok_def at_level_def by blast

lemma at_level_disjoint: "ssdp_ok n s \<Longrightarrow> l \<noteq> l' \<Longrightarrow> at_level l s \<inter> at_level l' s = {}"
  unfolding ssdp_ok_def at_level_def by (auto simp: distinct_map inj_on_def)

lemma check_levels:
  assumes "ssdp_ok (Suc n) s" "sd_level s = RUNNING \<or> sd_level s = STOPPING"
  shows "\<exists>s'. check_network_callback s = Inr s' \<and> ssdp_ok n s' \<and> sd_adapters s' = sd_adapters s \<and> sd_search_ptrs s' = sd_search_ptrs s
    \<and> sd_level s' = (if sd_level s = STOPPING \<and> at_level RUNNING s \<union> at_level STOPPING s = {} then STOPPED else sd_level s)
    \<and> at_level RUNNING s' = (at_level RUNNING s \<inter> wanted_addresses s)
        \<union> (wanted_addresses s - (at_level RUNNING s \<union> at_level STOPPING s \<union> at_level STOPPED s))
    \<and> at_level STOPPING s' = at_level STOPPING s \<union> (at_level RUNNING s - wanted_addresses s) \<and> at_level STOPPED s' = {}
    \<and> (\<forall>h \<in> set (sd_search_ptrs s). ss_devices (sd_searches s' h)
        = [e \<leftarrow> ss_devices (sd_searches s h). di_local_address (snd e) \<notin> at_level STOPPED s])"
proof -
  have lv: "\<forall>i \<in> set (sd_interfaces s). ni_level i \<in> {RUNNING, STOPPING, STOPPED}"
    using assms(1) by (simp add: ssdp_ok_def)
  show ?thesis
    using check_ok [OF assms] interfaces_after_levels(1-3) [OF lv assms(2)] ssdp_ok_levels [OF assms(1)] by metis
qed

lemma wanted_addresses_RUNNING: "sd_level s = RUNNING \<Longrightarrow> wanted_addresses s = set (current_addresses s)"
  by (auto simp: wanted_addresses_def wanted_def)

lemma wanted_addresses_STOPPING: "sd_level s = STOPPING \<Longrightarrow> wanted_addresses s = {}"
  by (auto simp: wanted_addresses_def wanted_def)

lemma settle_ok:
  assumes "ssdp_ok 4 s" "sd_level s = RUNNING"
  shows "\<exists>s'. settle s = Inr s' \<and> ssdp_ok 0 s' \<and> sd_level s' = RUNNING \<and> at_level STOPPING s' = {} \<and> at_level STOPPED s' = {}
    \<and> at_level RUNNING s' = set (current_addresses s) \<and> sd_search_ptrs s' = sd_search_ptrs s
    \<and> (\<forall>h \<in> set (sd_search_ptrs s). ss_devices (sd_searches s' h) = [e \<leftarrow> ss_devices (sd_searches s h).
         di_local_address (snd e) \<notin> at_level STOPPED s \<union> at_level STOPPING s \<union> (at_level RUNNING s - set (current_addresses s))])"
proof -
  let ?cur = "set (current_addresses s)"
  have ok: "ssdp_ok (Suc 3) s"
    using assms(1) by (simp add: eval_nat_numeral)
  obtain s1 where s1: "check_network_callback s = Inr s1" "ssdp_ok 3 s1" "sd_adapters s1 = sd_adapters s" "sd_level s1 = RUNNING"
      "sd_search_ptrs s1 = sd_search_ptrs s" "at_level RUNNING s1 = (at_level RUNNING s \<inter> ?cur)
        \<union> (?cur - (at_level RUNNING s \<union> at_level STOPPING s \<union> at_level STOPPED s))"
      "at_level STOPPING s1 = at_level STOPPING s \<union> (at_level RUNNING s - ?cur)" "at_level STOPPED s1 = {}"
      "\<forall>h \<in> set (sd_search_ptrs s). ss_devices (sd_searches s1 h)
        = [e \<leftarrow> ss_devices (sd_searches s h). di_local_address (snd e) \<notin> at_level STOPPED s]"
    using check_levels [OF ok] assms(2) unfolding wanted_addresses_RUNNING [OF assms(2)] by auto
  have ok1: "ssdp_ok (Suc 2) s1"
    using s1(2) by (simp add: eval_nat_numeral)
  obtain s2 where s2: "interfaces_stop s1 = Inr s2" "ssdp_ok 2 s2" "sd_level s2 = RUNNING" "sd_adapters s2 = sd_adapters s"
      "sd_search_ptrs s2 = sd_search_ptrs s" "sd_searches s2 = sd_searches s1" "at_level RUNNING s2 = at_level RUNNING s1"
      "at_level STOPPING s2 = {}" "at_level STOPPED s2 = at_level STOPPING s1"
    using interfaces_stop_ok [OF ok1] s1 by auto
  have ok2: "ssdp_ok (Suc 1) s2"
    using s2(2) by (simp add: eval_nat_numeral)
  obtain s3 where s3: "check_network_callback s2 = Inr s3" "ssdp_ok 1 s3" "sd_adapters s3 = sd_adapters s" "sd_level s3 = RUNNING"
      "sd_search_ptrs s3 = sd_search_ptrs s" "at_level RUNNING s3 = (at_level RUNNING s1 \<inter> ?cur) \<union> (?cur - (at_level RUNNING s1 \<union> at_level STOPPING s1))"
      "at_level STOPPING s3 = at_level RUNNING s1 - ?cur" "at_level STOPPED s3 = {}"
      "\<forall>h \<in> set (sd_search_ptrs s). ss_devices (sd_searches s3 h)
        = [e \<leftarrow> ss_devices (sd_searches s2 h). di_local_address (snd e) \<notin> at_level STOPPING s1]"
    using check_levels [OF ok2] s2 unfolding wanted_addresses_RUNNING [OF s2(3)] current_addresses_cong [OF s2(4)] by auto
  have ok3: "ssdp_ok (Suc 0) s3"
    using s3(2) by simp
  obtain s4 where s4: "check_network_callback s3 = Inr s4" "ssdp_ok 0 s4" "sd_level s4 = RUNNING"
      "sd_search_ptrs s4 = sd_search_ptrs s" "at_level RUNNING s4 = (at_level RUNNING s3 \<inter> ?cur) \<union> (?cur - (at_level RUNNING s3 \<union> at_level STOPPING s3))"
      "at_level STOPPING s4 = at_level STOPPING s3 \<union> (at_level RUNNING s3 - ?cur)" "at_level STOPPED s4 = {}"
      "\<forall>h \<in> set (sd_search_ptrs s). ss_devices (sd_searches s4 h) = ss_devices (sd_searches s3 h)"
    using check_levels [OF ok3] s3 unfolding wanted_addresses_RUNNING [OF s3(4)] current_addresses_cong [OF s3(3)] by auto
  have "at_level RUNNING s4 = ?cur"
    using at_level_disjoint [OF assms(1), of RUNNING STOPPING]
    unfolding s4(5) s3(6,7) s1(6,7) by blast
  moreover have "at_level STOPPING s4 = {}"
    unfolding s4(6) s3(6,7) s1(6,7) by blast
  moreover have "\<forall>h \<in> set (sd_search_ptrs s). ss_devices (sd_searches s4 h) = [e \<leftarrow> ss_devices (sd_searches s h).
         di_local_address (snd e) \<notin> at_level STOPPED s \<union> at_level STOPPING s \<union> (at_level RUNNING s - ?cur)]"
    using s4(8) s3(9) s2(6) s1(9) unfolding s1(7) by (auto intro!: filter_cong)
  ultimately show ?thesis
    using s1(1) s2(1) s3(1) s4 unfolding settle_def by (intro exI [of _ s4]) simp
qed

text \<open>
  C6: The interfaces follow the network. Take a running service whose interfaces are running, on their way down or
  gone, one for each address, in a network where no two adapters report the same usable address and two addresses do not print alike
  (with a shared address the constructor of the second interface asserts: \<open>OnCheckNetwork_shared_address\<close>).
  One check, the stop of the interfaces it asked to stop, and the two checks that this schedules fail no
  assertion (\<open>SsdpDiscoveryService.cpp\<close>) and leave one running interface on each current IPv4 address
  that is not a loopback address, and no other; the table of each search keeps exactly the devices that were not found through an
  interface that is gone, those of an interface that stopped and whose address came back included in what is removed.
\<close>

theorem Ssdp_network_settles:
  assumes "sd_level s = RUNNING" "services_ok s"
    and "distinct (current_addresses s)" "inj_on ip_text (set (current_addresses s) \<union> ni_address ` set (sd_interfaces s))"
    and "distinct (map ni_address (sd_interfaces s))" "\<forall>i \<in> set (sd_interfaces s). ni_level i \<in> {RUNNING, STOPPING, STOPPED}"
    and "0 < unat (ow_next_token (sd_check_network_work s))" "unat (ow_next_token (sd_check_network_work s)) + 4 < 2 ^ 64"
  shows "\<exists>s'. settle s = Inr s' \<and> sd_level s' = RUNNING \<and> services_ok s'
    \<and> (\<forall>i \<in> set (sd_interfaces s'). ni_level i = RUNNING) \<and> distinct (map ni_address (sd_interfaces s'))
    \<and> set (map ni_address (sd_interfaces s')) = set (current_addresses s)
    \<and> (\<forall>h \<in> set (sd_search_ptrs s). ss_devices (sd_searches s' h) = [e \<leftarrow> ss_devices (sd_searches s h).
         \<not> list_ex (\<lambda>i. ni_address i = di_local_address (snd e) \<and> \<not> usable s i) (sd_interfaces s)])"
proof -
  have ok: "ssdp_ok 4 s"
    using assms by (simp add: ssdp_ok_def addresses_ok_def)
  obtain s' where s': "settle s = Inr s'" "ssdp_ok 0 s'" "sd_level s' = RUNNING" "at_level STOPPING s' = {}" "at_level STOPPED s' = {}"
      "at_level RUNNING s' = set (current_addresses s)"
      "\<forall>h \<in> set (sd_search_ptrs s). ss_devices (sd_searches s' h) = [e \<leftarrow> ss_devices (sd_searches s h).
         di_local_address (snd e) \<notin> at_level STOPPED s \<union> at_level STOPPING s \<union> (at_level RUNNING s - set (current_addresses s))]"
    using settle_ok [OF ok assms(1)] by blast
  have "a \<in> at_level STOPPED s \<union> at_level STOPPING s \<union> (at_level RUNNING s - set (current_addresses s))
      \<longleftrightarrow> list_ex (\<lambda>i. ni_address i = a \<and> \<not> usable s i) (sd_interfaces s)" for a
    using ok unfolding at_level_def ssdp_ok_def list_ex_iff usable_def by fastforce
  moreover have "\<forall>i \<in> set (sd_interfaces s'). ni_level i = RUNNING"
    using s'(2,4,5) unfolding at_level_def ssdp_ok_def by auto
  moreover have "set (map ni_address (sd_interfaces s')) = set (current_addresses s)"
    using ssdp_ok_levels [OF s'(2)] s'(4,5,6) by simp
  ultimately show ?thesis
    using s'(1,2,3,7) by (auto simp: ssdp_ok_def)
qed

definition example_device :: device_info where
  "example_device = \<lparr>di_usn = ''uuid:1'', di_local_address = \<lparr>ip_text = ''10.0.0.1'', ip_is_v4 = True, ip_is_loopback = False\<rparr>,
     di_device_address = \<lparr>ip_text = ''10.0.0.7'', ip_is_v4 = True, ip_is_loopback = False\<rparr>, di_service_type = ''lamp'', di_location = ''http://10.0.0.7/''\<rparr>"

definition example_search :: ssdp_search where
  "example_search = \<lparr>ss_level = RUNNING, ss_children_stopped = False, ss_timer = Timer True 0 False 0 0, ss_change_work = OneShotWork True,
     ss_uuid = replicate 16 0, ss_service_type = ''lamp'', ss_search_duration = 60, ss_announce_count = 0, ss_search_counter = 0,
     ss_devices = [(''uuid:1'', example_device)]\<rparr>"

definition example_advert :: ssdp_advert where
  "example_advert = \<lparr>ad_level = RUNNING, ad_children_stopped = False, ad_timer = Timer True 0 False 0 0, ad_uuid = replicate 16 1,
     ad_service_type = ''lamp'', ad_info_callback = (\<lambda>a. (True, ''http://'' @ ip_text a @ ''/'')), ad_expires_seconds = 1800, ad_announce_count = 0\<rparr>"

text \<open>The adapter has changed its address from 10.0.0.1 to 10.0.0.2.\<close>

definition example_ssdp :: ssdp_service where
  "example_ssdp = \<lparr>sd_level = RUNNING, sd_children_stopped = False, sd_check_network_work = OneShotWork True,
     sd_adapters = [(''eth0'', [\<lparr>ip_text = ''10.0.0.2'', ip_is_v4 = True, ip_is_loopback = False\<rparr>])],
     sd_interfaces = [\<lparr>ni_address = di_local_address example_device, ni_level = RUNNING, ni_callback = False\<rparr>],
     sd_adverts = (\<lambda>_. example_advert), sd_advert_ptrs = [5], sd_searches = (\<lambda>_. example_search), sd_search_ptrs = [3], sd_sent = []\<rparr>"

lemma example_ssdp_ok: "n < 1000 \<Longrightarrow> ssdp_ok n example_ssdp"
  by (simp add: ssdp_ok_def example_ssdp_def services_ok_def one_shot_ready_def OneShotWork_def search_ok_def example_search_def smap_ok_def
      addresses_ok_def current_addresses_def example_device_def)

theorem Ssdp_network_settles_witness:
  "\<exists>s'. settle example_ssdp = Inr s' \<and> map (ip_text \<circ> ni_address) (sd_interfaces s') = [''10.0.0.2''] \<and> ss_devices (sd_searches s' 3) = []"
proof -
  have run: "sd_level example_ssdp = RUNNING"
    by (simp add: example_ssdp_def)
  have cur: "current_addresses example_ssdp = [\<lparr>ip_text = ''10.0.0.2'', ip_is_v4 = True, ip_is_loopback = False\<rparr>]"
    by (simp add: example_ssdp_def current_addresses_def)
  obtain s' where s': "settle example_ssdp = Inr s'" "distinct (map ni_address (sd_interfaces s'))"
      "set (map ni_address (sd_interfaces s')) = set (current_addresses example_ssdp)"
      "\<forall>h \<in> set (sd_search_ptrs example_ssdp). ss_devices (sd_searches s' h) = [e \<leftarrow> ss_devices (sd_searches example_ssdp h).
         \<not> list_ex (\<lambda>i. ni_address i = di_local_address (snd e) \<and> \<not> usable example_ssdp i) (sd_interfaces example_ssdp)]"
    using Ssdp_network_settles [OF run] example_ssdp_ok [of 4] unfolding ssdp_ok_def addresses_ok_def by auto
  have "ss_devices (sd_searches s' 3) = []"
    using s'(4) by (simp add: usable_def cur) (simp add: example_ssdp_def example_search_def example_device_def)
  moreover have "map ni_address (sd_interfaces s') = [\<lparr>ip_text = ''10.0.0.2'', ip_is_v4 = True, ip_is_loopback = False\<rparr>]"
  proof -
    have "length (map ni_address (sd_interfaces s')) = card (set (map ni_address (sd_interfaces s')))"
      using s'(2) by (rule distinct_card [symmetric])
    also have "\<dots> = 1"
      unfolding s'(3) cur by simp
    finally show ?thesis
      using s'(3) unfolding cur by (cases "sd_interfaces s'") auto
  qed
  then have "map ip_text (map ni_address (sd_interfaces s')) = [''10.0.0.2'']"
    by simp
  ultimately show ?thesis
    using s'(1) by (intro exI [of _ s']) simp
qed

text \<open>A service told to stop: the check, the stop of its interfaces, and the check that this schedules.\<close>

definition shut_down :: "ssdp_service \<Rightarrow> ssdp_service res" where
  "shut_down s = bind_res (check_network_callback s) (\<lambda>s.
     if sd_level s = STOPPED then Inr s else bind_res (interfaces_stop s) check_network_callback)"

text \<open>
  A service that is told to stop stops, whatever its interfaces are doing and whatever the network looks like, and not
  before its interfaces are gone; no device found through them is left in the table of a search.
\<close>

theorem Ssdp_service_stops:
  assumes "ssdp_ok 3 s" "sd_level s = STOPPING"
  shows "\<exists>s'. shut_down s = Inr s' \<and> sd_level s' = STOPPED \<and> sd_interfaces s' = []
    \<and> (\<forall>h \<in> set (sd_search_ptrs s). \<forall>e \<in> set (ss_devices (sd_searches s' h)). di_local_address (snd e) \<notin> ni_address ` set (sd_interfaces s))"
proof -
  have ok: "ssdp_ok (Suc 2) s"
    using assms(1) by (simp add: eval_nat_numeral)
  obtain s1 where s1: "check_network_callback s = Inr s1" "ssdp_ok 2 s1" "sd_search_ptrs s1 = sd_search_ptrs s"
      "sd_level s1 = (if at_level RUNNING s \<union> at_level STOPPING s = {} then STOPPED else STOPPING)"
      "at_level RUNNING s1 = {}" "at_level STOPPING s1 = at_level STOPPING s \<union> at_level RUNNING s" "at_level STOPPED s1 = {}"
      "\<forall>h \<in> set (sd_search_ptrs s). ss_devices (sd_searches s1 h)
        = [e \<leftarrow> ss_devices (sd_searches s h). di_local_address (snd e) \<notin> at_level STOPPED s]"
    using check_levels [OF ok] assms(2) unfolding wanted_addresses_STOPPING [OF assms(2)] by auto
  have none: "sd_interfaces t = []" if "ssdp_ok n t" "at_level RUNNING t \<union> at_level STOPPING t \<union> at_level STOPPED t = {}" for n t
    using ssdp_ok_levels [OF that(1)] that(2) by simp
  show ?thesis
  proof (cases "at_level RUNNING s \<union> at_level STOPPING s = {}")
    case True
    then show ?thesis
      using s1 none [OF s1(2)] ssdp_ok_levels [OF assms(1)] by (simp add: shut_down_def)
  next
    case False
    have ok1: "ssdp_ok (Suc 1) s1"
      using s1(2) by (simp add: eval_nat_numeral)
    have l1: "sd_level s1 = STOPPING"
      using s1(4) False by simp
    obtain s2 where s2: "interfaces_stop s1 = Inr s2" "ssdp_ok 1 s2" "sd_level s2 = STOPPING" "sd_search_ptrs s2 = sd_search_ptrs s"
        "sd_searches s2 = sd_searches s1" "at_level RUNNING s2 = {}" "at_level STOPPING s2 = {}" "at_level STOPPED s2 = at_level STOPPING s1"
      using interfaces_stop_ok [OF ok1] s1(3,5-7) l1 by auto
    have ok2: "ssdp_ok (Suc 0) s2"
      using s2(2) by simp
    obtain s3 where s3: "check_network_callback s2 = Inr s3" "ssdp_ok 0 s3" "sd_level s3 = STOPPED"
        "at_level RUNNING s3 \<union> at_level STOPPING s3 \<union> at_level STOPPED s3 = {}"
        "\<forall>h \<in> set (sd_search_ptrs s). ss_devices (sd_searches s3 h)
          = [e \<leftarrow> ss_devices (sd_searches s2 h). di_local_address (snd e) \<notin> at_level STOPPED s2]"
      using check_levels [OF ok2] s2(3,4,6,7) unfolding wanted_addresses_STOPPING [OF s2(3)] by auto
    have "shut_down s = Inr s3"
      using s1(1,4) s2(1) s3(1) False by (auto simp: shut_down_def)
    moreover have "\<forall>h \<in> set (sd_search_ptrs s). \<forall>e \<in> set (ss_devices (sd_searches s3 h)). di_local_address (snd e) \<notin> ni_address ` set (sd_interfaces s)"
      using s3(5) s1(8) unfolding ssdp_ok_levels [OF assms(1)] s2(5) s2(8) s1(6) by auto
    ultimately show ?thesis
      using s3(3) none [OF s3(2,4)] by blast
  qed
qed

theorem Ssdp_service_stops_witness:
  "\<exists>s'. shut_down (example_ssdp\<lparr>sd_level := STOPPING\<rparr>) = Inr s' \<and> sd_level s' = STOPPED \<and> sd_interfaces s' = []"
proof -
  have "ssdp_ok 3 (example_ssdp\<lparr>sd_level := STOPPING\<rparr>)"
    using example_ssdp_ok [of 3] by (simp add: ssdp_ok_def services_ok_def addresses_ok_def current_addresses_def)
  from Ssdp_service_stops [OF this] show ?thesis
    by auto
qed

text \<open>Two adapters with one address: the second interface has the name of the first, and the constructor asserts that it is new.\<close>

theorem OnCheckNetwork_shared_address:
  assumes "sd_level s = RUNNING" "sd_interfaces s = []" "sd_adapters s = [(''eth0'', [a]), (''eth1'', [a])]" "ip_is_v4 a" "\<not> ip_is_loopback a"
  shows "OnCheckNetwork s = Inl (AssertFailed ''insert_result.second'')"
  using assms by (simp add: OnCheckNetwork_def addresses_to_create_def current_addresses_def create_interface_def Let_def)

theorem OnCheckNetwork_shared_address_witness:
  "OnCheckNetwork (example_ssdp\<lparr>sd_interfaces := [], sd_adapters := [(''eth0'', [di_local_address example_device]),
     (''eth1'', [di_local_address example_device])]\<rparr>) = Inl (AssertFailed ''insert_result.second'')"
  by (rule OnCheckNetwork_shared_address [where a = "di_local_address example_device"]) (simp_all add: example_ssdp_def example_device_def)

end
