(* ===== verification/SsdpPackets.thy ===== *)
theory SsdpPackets
  imports SsdpProofs
begin

section \<open>The packets of service discovery\<close>

text \<open>
  What the service sends reaches the tables of the searches: a search packet is answered by the adverts that
  match, and the answer, an announcement or a farewell changes the tables of the searches that match. The texts are read by
  the library's parser; each theorem names the texts it must read back.
\<close>

subsection \<open>Sending\<close>

definition notify_packets :: "nat \<Rightarrow> bool \<Rightarrow> ssdp_service \<Rightarrow> packet list" where
  "notify_packets a alive s =
     (let ad = sd_adverts s a in
      map (\<lambda>i. \<lparr>pk_from = ni_address i, pk_to = ssdp_multicast_endpoint,
          pk_data = notify_text ad alive (snd (ad_info_callback ad (ni_address i)))\<rparr>)
        [i \<leftarrow> sd_interfaces s. fst (ad_info_callback ad (ni_address i))])"

definition response_packets :: "net_interface \<Rightarrow> udp_endpoint \<Rightarrow> string \<Rightarrow> nat \<Rightarrow> ssdp_service \<Rightarrow> packet list" where
  "response_packets iface dest search_id a s =
     (let ad = sd_adverts s a; (should_send, location) = ad_info_callback ad (ni_address iface) in
      if should_send then [\<lparr>pk_from = ni_address iface, pk_to = dest, pk_data = response_text ad search_id location\<rparr>] else [])"

lemma fold_sends:
  assumes "\<And>x t ps. f x (t\<lparr>sd_sent := ps\<rparr>) = t\<lparr>sd_sent := ps @ g x t\<rparr>" "\<And>x t ps. g x (t\<lparr>sd_sent := ps\<rparr>) = g x t"
  shows "fold f xs s = s\<lparr>sd_sent := sd_sent s @ concat (map (\<lambda>x. g x s) xs)\<rparr>"
proof -
  have "fold f xs (s\<lparr>sd_sent := ps\<rparr>) = s\<lparr>sd_sent := ps @ concat (map (\<lambda>x. g x s) xs)\<rparr>" for ps
    by (induction xs arbitrary: ps) (simp_all add: assms)
  from this [of "sd_sent s"] show ?thesis
    by simp
qed

lemma SendNotifies_eq: "SendNotifies a alive s = s\<lparr>sd_sent := sd_sent s @ notify_packets a alive s\<rparr>"
proof -
  let ?g = "\<lambda>i t. let ad = sd_adverts t a in if fst (ad_info_callback ad (ni_address i))
     then [\<lparr>pk_from = ni_address i, pk_to = ssdp_multicast_endpoint, pk_data = notify_text ad alive (snd (ad_info_callback ad (ni_address i)))\<rparr>] else []"
  have "SendNotifies a alive s = s\<lparr>sd_sent := sd_sent s @ concat (map (\<lambda>i. ?g i s) (sd_interfaces s))\<rparr>"
    unfolding SendNotifies_def by (rule fold_sends) (auto simp: SendNotify_def SendPacket_def Let_def split: prod.splits)
  moreover have "concat (map (\<lambda>i. ?g i s) ifaces) = map (\<lambda>i. \<lparr>pk_from = ni_address i, pk_to = ssdp_multicast_endpoint,
      pk_data = notify_text (sd_adverts s a) alive (snd (ad_info_callback (sd_adverts s a) (ni_address i)))\<rparr>)
        [i \<leftarrow> ifaces. fst (ad_info_callback (sd_adverts s a) (ni_address i))]" for ifaces :: "net_interface list"
    by (induction ifaces) (auto simp: Let_def)
  ultimately show ?thesis
    by (simp add: notify_packets_def Let_def)
qed

lemma responses_eq:
  "fold (\<lambda>a s. if search_type = ''ssdp:all'' \<or> search_type = ad_service_type (sd_adverts s a)
      then SendSearchResponse iface dest search_id a s else s) as s
    = s\<lparr>sd_sent := sd_sent s @ concat (map (\<lambda>a. if search_type = ''ssdp:all'' \<or> search_type = ad_service_type (sd_adverts s a)
      then response_packets iface dest search_id a s else []) as)\<rparr>"
  by (rule fold_sends) (auto simp: SendSearchResponse_def SendPacket_def response_packets_def Let_def split: prod.splits)

subsection \<open>Receiving\<close>

lemma for_searches_eq:
  assumes "services_ok s" "\<And>x. search_ok x \<Longrightarrow> f x = Inr (g x)"
  shows "for_searches search_type f s = Inr (update_searches (\<lambda>x. if type_matches search_type x then g x else x) s)"
proof -
  let ?f = "\<lambda>x. if type_matches search_type x then f x else Inr x"
  have "(if type_matches search_type (sd_searches s h) then change_search h f s else Inr s) = change_search h ?f s" for h s
    by (simp add: change_search_def)
  then have "for_searches search_type f s = fold_res (\<lambda>h. change_search h ?f) (sd_search_ptrs s) s"
    by (simp add: for_searches_def)
  also have "\<dots> = Inr (update_searches (\<lambda>x. if type_matches search_type x then g x else x) s)"
    unfolding update_searches_def by (rule fold_searches) (use assms in \<open>auto simp: services_ok_def\<close>)
  finally show ?thesis .
qed

text \<open>What an announcement or a response, and a farewell, does to the searches of the type.\<close>

definition device_found :: "string \<Rightarrow> device_info \<Rightarrow> ssdp_service \<Rightarrow> ssdp_service" where
  "device_found search_type info = update_searches (\<lambda>x. if type_matches search_type x
     then with_devices (smap_assign (di_usn info) info (ss_devices x)) x else x)"

definition device_left :: "string \<Rightarrow> string \<Rightarrow> ssdp_service \<Rightarrow> ssdp_service" where
  "device_left search_type usn = update_searches (\<lambda>x. if type_matches search_type x
     then with_devices (smap_erase usn (ss_devices x)) x else x)"

definition found_info :: "net_interface \<Rightarrow> udp_endpoint \<Rightarrow> (string \<times> string) list \<Rightarrow> string \<Rightarrow> device_info" where
  "found_info iface origin hs search_type = \<lparr>di_usn = header ''USN'' hs, di_local_address = ni_address iface,
     di_device_address = ue_address origin, di_service_type = search_type, di_location = header ''Location'' hs\<rparr>"

lemma HandleMessage_response:
  assumes "services_ok s" "header_find ''ST'' hs \<noteq> None" "header_find ''USN'' hs \<noteq> None"
  shows "HandleMessage iface origin (Some (MsgResponse 200 hs)) s
    = Inr (device_found (header ''ST'' hs) (found_info iface origin hs (header ''ST'' hs)) s)"
  unfolding device_found_def using assms
  by (auto simp: Let_def found_info_def intro!: for_searches_eq HandleNotification_eq)

lemma HandleMessage_notify:
  assumes "services_ok s" "header_find ''NT'' hs \<noteq> None" "header_find ''USN'' hs \<noteq> None"
    and "header_find ''NTS'' hs = Some (if alive then ''ssdp:alive'' else ''ssdp:byebye'')"
  shows "HandleMessage iface origin (Some (MsgRequest ''NOTIFY'' hs)) s
    = Inr (if alive then device_found (header ''NT'' hs) (found_info iface origin hs (header ''NT'' hs)) s
           else device_left (header ''NT'' hs) (header ''USN'' hs) s)"
  unfolding device_found_def device_left_def using assms(1,4) assms(2,3)
  by (auto simp: Let_def found_info_def header_def intro!: for_searches_eq HandleNotification_eq RemoveDevice_eq)

definition search_headers :: "ssdp_search \<Rightarrow> u64 \<Rightarrow> (string \<times> string) list" where
  "search_headers x count = [(''Host'', UdpEndpoint_ToString ssdp_multicast_endpoint), (''S'', Uuid_ToUrn (ss_uuid x) @ '':'' @ show_nat (unat count)),
     (''Man'', ''\"ssdp:discover\"''), (''ST'', ss_service_type x), (''MX'', ''3'')]"

definition response_headers :: "ssdp_advert \<Rightarrow> string \<Rightarrow> string \<Rightarrow> (string \<times> string) list" where
  "response_headers ad search_id location = [(''S'', search_id), (''Ext'', []), (''Cache-Control'', ''max-age='' @ show_nat (ad_expires_seconds ad)),
     (''ST'', ad_service_type ad), (''USN'', Uuid_ToUrn (ad_uuid ad)), (''Location'', location)]"

definition notify_headers :: "ssdp_advert \<Rightarrow> bool \<Rightarrow> string \<Rightarrow> (string \<times> string) list" where
  "notify_headers ad alive location = [(''Host'', UdpEndpoint_ToString ssdp_multicast_endpoint), (''NT'', ad_service_type ad),
     (''NTS'', if alive then ''ssdp:alive'' else ''ssdp:byebye''), (''USN'', Uuid_ToUrn (ad_uuid ad)), (''Location'', location)]
     @ (if alive then [(''Cache-Control'', ''max-age='' @ show_nat (ad_expires_seconds ad))] else [])"

lemma same_fields [simp]:
  "\<not> same_field ''ST'' ''Host''" "\<not> same_field ''ST'' ''S''" "\<not> same_field ''ST'' ''Man''" "same_field ''ST'' ''ST''"
  "\<not> same_field ''Man'' ''Host''" "\<not> same_field ''Man'' ''S''" "same_field ''Man'' ''Man''"
  "\<not> same_field ''S'' ''Host''" "same_field ''S'' ''S''" "\<not> same_field ''ST'' ''Ext''" "\<not> same_field ''ST'' ''Cache-Control''"
  "\<not> same_field ''USN'' ''S''" "\<not> same_field ''USN'' ''Ext''" "\<not> same_field ''USN'' ''Cache-Control''" "\<not> same_field ''USN'' ''ST''"
  "same_field ''USN'' ''USN''" "\<not> same_field ''Location'' ''S''" "\<not> same_field ''Location'' ''Ext''" "\<not> same_field ''Location'' ''Cache-Control''"
  "\<not> same_field ''Location'' ''ST''" "\<not> same_field ''Location'' ''USN''" "same_field ''Location'' ''Location''"
  "\<not> same_field ''NT'' ''Host''" "same_field ''NT'' ''NT''" "\<not> same_field ''NTS'' ''Host''" "\<not> same_field ''NTS'' ''NT''" "same_field ''NTS'' ''NTS''"
  "\<not> same_field ''USN'' ''Host''" "\<not> same_field ''USN'' ''NT''" "\<not> same_field ''USN'' ''NTS''" "\<not> same_field ''Location'' ''Host''"
  "\<not> same_field ''Location'' ''NT''" "\<not> same_field ''Location'' ''NTS''"
  by code_simp+

lemma header_finds [simp]:
  "header_find ''ST'' (search_headers x count) = Some (ss_service_type x)"
  "header_find ''Man'' (search_headers x count) = Some ''\"ssdp:discover\"''"
  "header_find ''S'' (search_headers x count) = Some (Uuid_ToUrn (ss_uuid x) @ '':'' @ show_nat (unat count))"
  "header_find ''ST'' (response_headers ad search_id location) = Some (ad_service_type ad)"
  "header_find ''USN'' (response_headers ad search_id location) = Some (Uuid_ToUrn (ad_uuid ad))"
  "header_find ''Location'' (response_headers ad search_id location) = Some location"
  "header_find ''NT'' (notify_headers ad alive location) = Some (ad_service_type ad)"
  "header_find ''NTS'' (notify_headers ad alive location) = Some (if alive then ''ssdp:alive'' else ''ssdp:byebye'')"
  "header_find ''USN'' (notify_headers ad alive location) = Some (Uuid_ToUrn (ad_uuid ad))"
  "header_find ''Location'' (notify_headers ad alive location) = Some location"
  by (simp_all add: header_find_def search_headers_def response_headers_def notify_headers_def)

lemma packet_prefixes:
  "HandleReceivedPacket beast iface (search_text x count) origin = HandleMessage iface origin (beast True (search_text x count))"
  "HandleReceivedPacket beast iface (notify_text ad alive location) origin = HandleMessage iface origin (beast True (notify_text ad alive location))"
  "HandleReceivedPacket beast iface (response_text ad search_id location) origin = HandleMessage iface origin (beast False (response_text ad search_id location))"
  by (simp_all add: HandleReceivedPacket_def fun_eq_iff search_text_def notify_text_def response_text_def)

definition advert_info :: "net_interface \<Rightarrow> udp_endpoint \<Rightarrow> ssdp_advert \<Rightarrow> string \<Rightarrow> device_info" where
  "advert_info iface origin ad location = \<lparr>di_usn = Uuid_ToUrn (ad_uuid ad), di_local_address = ni_address iface,
     di_device_address = ue_address origin, di_service_type = ad_service_type ad, di_location = location\<rparr>"

lemma device_found_in_table:
  assumes "services_ok s" "h \<in> set (sd_search_ptrs s)" "type_matches search_type (sd_searches s h)"
  shows "smap_find k (ss_devices (sd_searches (device_found search_type info s) h))
      = (if k = di_usn info then Some info else smap_find k (ss_devices (sd_searches s h)))"
    and "IScheduled (ss_change_work (sd_searches (device_found search_type info s) h))
      \<longleftrightarrow> IScheduled (ss_change_work (sd_searches s h)) \<or> smap_find (di_usn info) (ss_devices (sd_searches s h)) \<noteq> Some info"
proof -
  have ok: "search_ok (sd_searches s h)" "smap_ok (ss_devices (sd_searches s h))"
    using assms(1,2) by (auto simp: services_ok_def search_ok_def)
  have new: "sd_searches (device_found search_type info s) h
      = with_devices (smap_assign (di_usn info) info (ss_devices (sd_searches s h))) (sd_searches s h)"
    using assms(2,3) by (simp add: device_found_def update_searches_def)
  show "smap_find k (ss_devices (sd_searches (device_found search_type info s) h))
      = (if k = di_usn info then Some info else smap_find k (ss_devices (sd_searches s h)))"
    unfolding new by (simp add: smap_assign_find [OF ok(2)])
  show "IScheduled (ss_change_work (sd_searches (device_found search_type info s) h))
      \<longleftrightarrow> IScheduled (ss_change_work (sd_searches s h)) \<or> smap_find (di_usn info) (ss_devices (sd_searches s h)) \<noteq> Some info"
    unfolding new with_devices_scheduled [OF ok(1)]
    using smap_assign_same [OF ok(2)] smap_assign_changes [OF ok(2)] by metis
qed

lemma device_left_in_table:
  assumes "services_ok s" "h \<in> set (sd_search_ptrs s)" "type_matches search_type (sd_searches s h)"
  shows "smap_find k (ss_devices (sd_searches (device_left search_type usn s) h))
      = (if k = usn then None else smap_find k (ss_devices (sd_searches s h)))"
    and "IScheduled (ss_change_work (sd_searches (device_left search_type usn s) h))
      \<longleftrightarrow> IScheduled (ss_change_work (sd_searches s h)) \<or> smap_find usn (ss_devices (sd_searches s h)) \<noteq> None"
proof -
  have ok: "search_ok (sd_searches s h)"
    using assms(1,2) by (simp add: services_ok_def)
  have new: "sd_searches (device_left search_type usn s) h
      = with_devices (smap_erase usn (ss_devices (sd_searches s h))) (sd_searches s h)"
    using assms(2,3) by (simp add: device_left_def update_searches_def)
  show "smap_find k (ss_devices (sd_searches (device_left search_type usn s) h))
      = (if k = usn then None else smap_find k (ss_devices (sd_searches s h)))"
    unfolding new by (simp add: smap_erase_find)
  show "IScheduled (ss_change_work (sd_searches (device_left search_type usn s) h))
      \<longleftrightarrow> IScheduled (ss_change_work (sd_searches s h)) \<or> smap_find usn (ss_devices (sd_searches s h)) \<noteq> None"
    unfolding new with_devices_scheduled [OF ok] by (simp add: smap_erase_same)
qed

text \<open>
  C20: A search finds the adverts of its type. The packet that a search sends, received by a service with a matching
  advert that answers on the interface, makes it send the advert's response to the sender; and that response, received by the
  searching service, leaves in the table of the search, under the name of the advert, the location the advert gave and the addresses
  the packet came by, changes no other entry, and schedules the search's change handler exactly if
  the entry is new or different. The library's parser is asked to read back the lines of these two texts.
\<close>

theorem Ssdp_search_finds_advert:
  assumes "beast True (search_text x count) = Some (MsgRequest ''M-SEARCH'' (search_headers x count))"
    and "beast False (response_text ad search_id location) = Some (MsgResponse 200 (response_headers ad search_id location))"
    and "search_id = Uuid_ToUrn (ss_uuid x) @ '':'' @ show_nat (unat count)"
    and "x = sd_searches s1 h" "h \<in> set (sd_search_ptrs s1)" "services_ok s1"
    and "ad = sd_adverts s2 a" "a \<in> set (sd_advert_ptrs s2)" "ad_info_callback ad (ni_address iface2) = (True, location)"
    and "ss_service_type x = ad_service_type ad \<or> ss_service_type x = ''ssdp:all''"
  shows "\<exists>s2' s1'. HandleReceivedPacket beast iface2 (search_text x count) from1 s2 = Inr s2'
    \<and> \<lparr>pk_from = ni_address iface2, pk_to = from1, pk_data = response_text ad search_id location\<rparr> \<in> set (sd_sent s2')
    \<and> HandleReceivedPacket beast iface1 (response_text ad search_id location) from2 s1 = Inr s1'
    \<and> (\<forall>k. smap_find k (ss_devices (sd_searches s1' h)) = (if k = Uuid_ToUrn (ad_uuid ad) then Some (advert_info iface1 from2 ad location)
         else smap_find k (ss_devices x)))
    \<and> (IScheduled (ss_change_work (sd_searches s1' h)) \<longleftrightarrow> IScheduled (ss_change_work x)
         \<or> smap_find (Uuid_ToUrn (ad_uuid ad)) (ss_devices x) \<noteq> Some (advert_info iface1 from2 ad location))"
proof -
  let ?ps = "concat (map (\<lambda>a. if ss_service_type x = ''ssdp:all'' \<or> ss_service_type x = ad_service_type (sd_adverts s2 a)
      then response_packets iface2 from1 search_id a s2 else []) (sd_advert_ptrs s2))"
  have "HandleReceivedPacket beast iface2 (search_text x count) from1 s2 = Inr (s2\<lparr>sd_sent := sd_sent s2 @ ?ps\<rparr>)"
    by (simp add: packet_prefixes assms(1,3) header_def responses_eq Let_def cong: if_cong)
  moreover have "\<lparr>pk_from = ni_address iface2, pk_to = from1, pk_data = response_text ad search_id location\<rparr> \<in> set ?ps"
    using assms(7-10) by (auto simp: response_packets_def intro!: bexI [of _ a])
  moreover have "HandleReceivedPacket beast iface1 (response_text ad search_id location) from2 s1
      = Inr (device_found (ad_service_type ad) (advert_info iface1 from2 ad location) s1)"
    by (simp add: packet_prefixes assms(2) HandleMessage_response [OF assms(6)] header_def found_info_def advert_info_def del: HandleMessage.simps)
  moreover have "type_matches (ad_service_type ad) (sd_searches s1 h)"
    using assms(4,10) by (auto simp: type_matches_def)
  note device_found_in_table [OF assms(6,5) this, where info = "advert_info iface1 from2 ad location"]
  ultimately show ?thesis
    using assms(4)
    by (intro exI [of _ "s2\<lparr>sd_sent := sd_sent s2 @ ?ps\<rparr>"]
      exI [of _ "device_found (ad_service_type ad) (advert_info iface1 from2 ad location) s1"]) (simp add: advert_info_def)
qed

text \<open>
  An announcement of an advert leaves it in the tables of the searches of its type as a response does, and a farewell
  takes it out of them; the change handler is scheduled exactly if the table changed.
\<close>

theorem Ssdp_notify_tracks:
  assumes "beast True (notify_text ad alive location) = Some (MsgRequest ''NOTIFY'' (notify_headers ad alive location))"
    and "services_ok s" "h \<in> set (sd_search_ptrs s)" "type_matches (ad_service_type ad) (sd_searches s h)"
    and "entry = (if alive then Some (advert_info iface origin ad location) else None)"
  shows "\<exists>s'. HandleReceivedPacket beast iface (notify_text ad alive location) origin s = Inr s'
    \<and> (\<forall>k. smap_find k (ss_devices (sd_searches s' h)) = (if k = Uuid_ToUrn (ad_uuid ad) then entry else smap_find k (ss_devices (sd_searches s h))))
    \<and> (IScheduled (ss_change_work (sd_searches s' h)) \<longleftrightarrow> IScheduled (ss_change_work (sd_searches s h))
         \<or> smap_find (Uuid_ToUrn (ad_uuid ad)) (ss_devices (sd_searches s h)) \<noteq> entry)"
proof -
  let ?info = "advert_info iface origin ad location"
  have "HandleReceivedPacket beast iface (notify_text ad alive location) origin s
      = Inr (if alive then device_found (ad_service_type ad) ?info s else device_left (ad_service_type ad) (Uuid_ToUrn (ad_uuid ad)) s)"
    by (simp add: packet_prefixes assms(1) HandleMessage_notify [OF assms(2), where alive = alive] header_def found_info_def advert_info_def
        del: HandleMessage.simps)
  then show ?thesis
    using device_found_in_table [OF assms(2-4), where info = ?info] device_left_in_table [OF assms(2-4), where usn = "Uuid_ToUrn (ad_uuid ad)"] assms(5)
    by (cases alive) (simp_all add: advert_info_def)
qed

text \<open>A parser that reads the texts of the example.\<close>

definition example_beast :: "bool \<Rightarrow> string \<Rightarrow> message option" where
  "example_beast request text1 =
     (let id = Uuid_ToUrn (replicate 16 0) @ '':'' @ show_nat 0 in
      if request \<and> text1 = search_text example_search 0 then Some (MsgRequest ''M-SEARCH'' (search_headers example_search 0))
      else if request \<and> text1 = notify_text example_advert False ''http://10.0.0.1/'' then
        Some (MsgRequest ''NOTIFY'' (notify_headers example_advert False ''http://10.0.0.1/''))
      else if \<not> request \<and> text1 = response_text example_advert id ''http://10.0.0.1/'' then
        Some (MsgResponse 200 (response_headers example_advert id ''http://10.0.0.1/''))
      else None)"

definition example_endpoint :: udp_endpoint where
  "example_endpoint = \<lparr>ue_address = di_device_address example_device, ue_port = 1900\<rparr>"

definition example_interface :: net_interface where
  "example_interface = \<lparr>ni_address = di_local_address example_device, ni_level = RUNNING, ni_callback = False\<rparr>"

lemma example_texts:
  "example_beast True (search_text example_search 0) = Some (MsgRequest ''M-SEARCH'' (search_headers example_search 0))"
  "example_beast False (response_text example_advert (Uuid_ToUrn (replicate 16 0) @ '':'' @ show_nat 0) ''http://10.0.0.1/'')
    = Some (MsgResponse 200 (response_headers example_advert (Uuid_ToUrn (replicate 16 0) @ '':'' @ show_nat 0) ''http://10.0.0.1/''))"
  "example_beast True (notify_text example_advert False ''http://10.0.0.1/'')
    = Some (MsgRequest ''NOTIFY'' (notify_headers example_advert False ''http://10.0.0.1/''))"
proof -
  have "notify_text example_advert False ''http://10.0.0.1/'' \<noteq> search_text example_search 0"
    by (simp add: notify_text_def search_text_def)
  then show "example_beast True (search_text example_search 0) = Some (MsgRequest ''M-SEARCH'' (search_headers example_search 0))"
    "example_beast False (response_text example_advert (Uuid_ToUrn (replicate 16 0) @ '':'' @ show_nat 0) ''http://10.0.0.1/'')
    = Some (MsgResponse 200 (response_headers example_advert (Uuid_ToUrn (replicate 16 0) @ '':'' @ show_nat 0) ''http://10.0.0.1/''))"
    "example_beast True (notify_text example_advert False ''http://10.0.0.1/'')
    = Some (MsgRequest ''NOTIFY'' (notify_headers example_advert False ''http://10.0.0.1/''))"
    by (simp_all add: example_beast_def Let_def)
qed

lemma example_services: "services_ok example_ssdp" "sd_searches example_ssdp = (\<lambda>_. example_search)"
  "sd_adverts example_ssdp = (\<lambda>_. example_advert)" "sd_search_ptrs example_ssdp = [3]" "sd_advert_ptrs example_ssdp = [5]"
  using example_ssdp_ok [of 0] by (simp_all add: ssdp_ok_def) (simp_all add: example_ssdp_def)

lemma example_info: "ad_info_callback example_advert (ni_address example_interface) = (True, ''http://10.0.0.1/'')"
  by (simp add: example_advert_def example_interface_def example_device_def)

theorem Ssdp_search_finds_advert_witness:
  "\<exists>s1'. HandleReceivedPacket example_beast example_interface (response_text example_advert (Uuid_ToUrn (replicate 16 0) @ '':'' @ show_nat 0)
       ''http://10.0.0.1/'') example_endpoint example_ssdp = Inr s1'
     \<and> smap_find (Uuid_ToUrn (ad_uuid example_advert)) (ss_devices (sd_searches s1' 3)) \<noteq> None"
proof -
  have id: "Uuid_ToUrn (replicate 16 0) @ '':'' @ show_nat 0 = Uuid_ToUrn (ss_uuid example_search) @ '':'' @ show_nat (unat (0 :: u64))"
    by (simp add: example_search_def)
  show ?thesis
    using Ssdp_search_finds_advert [where beast = example_beast and x = example_search and count = 0 and ad = example_advert
        and location = "''http://10.0.0.1/''" and h = 3 and a = 5 and ?s1.0 = example_ssdp and ?s2.0 = example_ssdp
        and ?iface1.0 = example_interface and ?iface2.0 = example_interface and ?from1.0 = example_endpoint and ?from2.0 = example_endpoint,
        OF example_texts(1,2) id] example_services example_info
    by (auto simp: example_search_def example_advert_def)
qed

theorem Ssdp_notify_tracks_witness:
  "\<exists>s'. HandleReceivedPacket example_beast example_interface (notify_text example_advert False ''http://10.0.0.1/'') example_endpoint example_ssdp
     = Inr s' \<and> smap_find (Uuid_ToUrn (ad_uuid example_advert)) (ss_devices (sd_searches s' 3)) = None"
proof -
  have "type_matches (ad_service_type example_advert) (sd_searches example_ssdp 3)"
    by (simp add: type_matches_def example_services example_advert_def example_search_def)
  then show ?thesis
    using Ssdp_notify_tracks [where beast = example_beast and iface = example_interface and origin = example_endpoint and h = 3
        and entry = None, OF example_texts(3) example_services(1)]
    by (auto simp: example_services)
qed

end
