(* ===== verification/SsdpAnnounce.thy ===== *)
theory SsdpAnnounce
  imports SsdpPackets
begin

section \<open>The announcements of an advert\<close>

text \<open>
  An advert is announced by its timer: \<open>advert_expires\<close> is the expiry of its current wait. The invariant \<open>announced\<close> is
  indexed by the number of expiries since the timer was last started.
\<close>

subsection \<open>The timer\<close>

definition timer_ready :: "bool \<Rightarrow> nat \<Rightarrow> timer \<Rightarrow> bool" where
  "timer_ready periodic n t \<longleftrightarrow> timer_ok t \<and> tm_level t = RUNNING \<and> tm_callback t \<and> IsRunning t \<and> unat (tm_cur_seq t) + n < 2 ^ 64
     \<and> tm_is_periodic t = periodic \<and> (periodic \<longrightarrow> tm_remaining t = RUN_FOR_EVER)"

lemma start_wait_sel [simp]:
  "tm_callback (start_wait t) = tm_callback t" "IsRunning (start_wait t)" "tm_is_periodic (start_wait t) = tm_is_periodic t"
  "tm_remaining (start_wait t) = tm_remaining t" "tm_level (start_wait t) = tm_level t"
  by (simp_all add: start_wait_def IsRunning_def Let_def)

lemma start_periodic_ready:
  assumes "timer_ok t" "tm_level t = RUNNING" "tm_callback t" "unat (tm_cur_seq t) + Suc n < 2 ^ 64"
  shows "timer_ready True n (start_periodic d t)"
  using timer_ok_start_wait [OF assms(1,2)] assms
  by (simp add: timer_ready_def start_periodic_def StartPeriodic_def StartSingleShot_def timer_ok_plain RUN_FOR_EVER_def IsRunning_def Let_def
      start_wait_def)

lemma single_shot_ready:
  assumes "timer_ok t" "tm_level t = RUNNING" "tm_callback t" "unat (tm_cur_seq t) + Suc n < 2 ^ 64"
  shows "timer_ready False n (StartSingleShot d t)" "tm_delay (StartSingleShot d t) = d"
  using timer_ok_start_wait [OF assms(1,2)] assms
  by (simp_all add: timer_ready_def StartSingleShot_def timer_ok_plain IsRunning_def Let_def start_wait_def)

text \<open>The current wait expires: a periodic timer has started the next wait when the callback runs.\<close>

lemma timer_expires:
  assumes "timer_ready periodic (Suc n) t"
  shows "\<exists>t'. timer_ok t' \<and> tm_level t' = RUNNING \<and> tm_callback t' \<and> unat (tm_cur_seq t') + n < 2 ^ 64
    \<and> (periodic \<longrightarrow> timer_ready True n t')
    \<and> (\<forall>ops. do_timer_event (Timeout (tm_wait_seq t) False ops) t = bind_res (fold_res do_timer_op ops t') Timer_CheckShutdown)"
proof -
  let ?seq = "tm_wait_seq t"
  have t: "timer_ok t" "tm_level t = RUNNING" "tm_callback t" "tm_is_periodic t = periodic" "periodic \<longrightarrow> tm_remaining t = RUN_FOR_EVER"
      "unat (tm_cur_seq t) + Suc n < 2 ^ 64" "IsRunning t"
    using assms by (simp_all add: timer_ready_def)
  then have seq: "?seq \<in> set (tm_waits t)"
    by (auto simp: timer_ok_def IsRunning_def)
  let ?x = "expired_state ?seq t" and ?u = "(restarted (expired_state ?seq t))\<lparr>tm_times_expired := tm_times_expired t + 1\<rparr>"
  note r = restarted_ok [OF timer_ok_expired [OF t(1) seq t(2)]]
  have u: "timer_ok ?u" "tm_level ?u = RUNNING" "tm_callback ?u" "unat (tm_cur_seq ?u) + n < 2 ^ 64"
    using r t by (simp_all add: timer_ok_plain)
  moreover have "timer_ready True n ?u" if periodic
    using u that t(2,4,5) by (simp add: timer_ready_def restarted_def RUN_FOR_EVER_def) (simp add: IsRunning_def start_wait_def Let_def)
  moreover have "do_timer_event (Timeout ?seq False ops) t = bind_res (fold_res do_timer_op ops ?u) Timer_CheckShutdown" for ops
    using HandleTimeout_current [OF t(1) seq refl, of ops] u(3) by (simp add: Let_def del: do_timer_event.simps)
  ultimately show ?thesis
    by blast
qed

subsection \<open>One expiry\<close>

definition advert_expires :: "nat \<Rightarrow> ssdp_service \<Rightarrow> ssdp_service res" where
  "advert_expires a s = advert_timeout a (tm_wait_seq (ad_timer (sd_adverts s a))) False s"

lemma notify_text_fields [simp]:
  "notify_text (ad\<lparr>ad_announce_count := c\<rparr>) = notify_text ad" "notify_text (ad\<lparr>ad_timer := tm\<rparr>) = notify_text ad"
  by (simp_all add: notify_text_def fun_eq_iff)

lemma notify_packets_cong:
  assumes "sd_adverts t a = (sd_adverts s a)\<lparr>ad_announce_count := c, ad_timer := tm\<rparr>" "sd_interfaces t = sd_interfaces s"
  shows "notify_packets a alive t = notify_packets a alive s"
  using assms by (simp add: notify_packets_def Let_def)

text \<open>The state in which the callback leaves the service, but for the end of the advert.\<close>

definition notified :: "nat \<Rightarrow> bool \<Rightarrow> ssdp_service \<Rightarrow> ssdp_service" where
  "notified a alive s = (change_advert a (\<lambda>ad. ad\<lparr>ad_announce_count := ad_announce_count ad + 1\<rparr>) s)\<lparr>sd_sent := sd_sent s @ notify_packets a alive s\<rparr>"

lemma HandleTimerExpired_eq:
  assumes "ad = sd_adverts s a"
  shows "SsdpAdvert_HandleTimerExpired a s =
    (if ad_announce_count ad + 1 > 3 then
       (if ad_level ad = STOPPING then
          Inr ([OpCancel], change_advert a (\<lambda>ad. ad\<lparr>ad_level := STOPPED, ad_children_stopped := True\<rparr>) (notified a False s))
        else Inr ([OpSingleShot (TimeSpan_Seconds (int (ad_expires_seconds ad div 3)))], notified a (ad_level ad = RUNNING) s))
     else Inr ([], notified a (ad_level ad = RUNNING) s))"
proof -
  have "notify_packets a alive (change_advert a (\<lambda>ad. ad\<lparr>ad_announce_count := ad_announce_count ad + 1\<rparr>) s) = notify_packets a alive s" for alive
    by (rule notify_packets_cong [where c = "ad_announce_count ad + 1" and tm = "ad_timer ad"]) (simp_all add: change_advert_def assms)
  then have sent: "SendNotifies a alive (change_advert a (\<lambda>ad. ad\<lparr>ad_announce_count := ad_announce_count ad + 1\<rparr>) s) = notified a alive s" for alive
    by (simp add: SendNotifies_eq notified_def change_advert_def)
  have "sd_adverts (notified a alive s) a = ad\<lparr>ad_announce_count := ad_announce_count ad + 1\<rparr>"
    "sd_adverts (change_advert a (\<lambda>ad. ad\<lparr>ad_announce_count := ad_announce_count ad + 1\<rparr>) s) a = ad\<lparr>ad_announce_count := ad_announce_count ad + 1\<rparr>" for alive
    by (simp_all add: notified_def change_advert_def assms)
  then show ?thesis
    by (simp add: SsdpAdvert_HandleTimerExpired_def sent level_NotifyStopped_def Let_def)
qed

lemma advert_expires_eq:
  assumes "timer_ready p n (ad_timer (sd_adverts s a))" "SsdpAdvert_HandleTimerExpired a s = Inr (ops, s1)"
    and "ad_timer (sd_adverts s1 a) = ad_timer (sd_adverts s a)"
  shows "advert_expires a s = bind_res (do_timer_event (Timeout (tm_wait_seq (ad_timer (sd_adverts s a))) False ops) (ad_timer (sd_adverts s a)))
    (\<lambda>t. Inr (change_advert a (\<lambda>ad. ad\<lparr>ad_timer := t\<rparr>) s1))"
  using assms by (simp add: advert_expires_def advert_timeout_def calls_back_def timer_ready_def IsRunning_def del: do_timer_event.simps)

subsection \<open>The run of an advert\<close>

definition announced :: "nat \<Rightarrow> ssdp_service \<Rightarrow> nat \<Rightarrow> nat \<Rightarrow> ssdp_service \<Rightarrow> bool" where
  "announced a s0 n k s \<longleftrightarrow> (\<exists>t. sd_adverts s a = (sd_adverts s0 a)\<lparr>ad_announce_count := of_nat n, ad_timer := t\<rparr>
       \<and> timer_ready (n \<le> 3) k t \<and> (3 < n \<longrightarrow> tm_delay t = TimeSpan_Seconds (int (ad_expires_seconds (sd_adverts s0 a) div 3))))
     \<and> sd_interfaces s = sd_interfaces s0 \<and> sd_advert_ptrs s = sd_advert_ptrs s0
     \<and> sd_sent s = sd_sent s0 @ concat (replicate n (notify_packets a (ad_level (sd_adverts s0 a) = RUNNING) s0))"

lemma count_above_3:
  "n + 1 < 2 ^ 64 \<Longrightarrow> (of_nat n :: u64) + 1 > 3 \<longleftrightarrow> 3 \<le> n"
proof -
  assume n: "n + 1 < 2 ^ 64"
  have "(3 :: u64) < of_nat n + 1 \<longleftrightarrow> unat (3 :: u64) < unat (of_nat (n + 1) :: u64)"
    by (simp add: word_less_nat_alt add.commute)
  also have "\<dots> \<longleftrightarrow> 3 \<le> n"
    using n by (simp add: unat_of_nat del: of_nat_add of_nat_Suc) arith
  finally show ?thesis .
qed

lemma concat_replicate_Suc: "concat (replicate (Suc n) xs) = concat (replicate n xs) @ xs"
  by (induction n) simp_all

lemma announced_timer: "announced a s0 n k s \<Longrightarrow> timer_ready (n \<le> 3) k (ad_timer (sd_adverts s a))"
  by (auto simp: announced_def)

lemma notified_sel [simp]:
  "sd_adverts (notified a alive s) a = (sd_adverts s a)\<lparr>ad_announce_count := ad_announce_count (sd_adverts s a) + 1\<rparr>"
  "sd_interfaces (notified a alive s) = sd_interfaces s" "sd_advert_ptrs (notified a alive s) = sd_advert_ptrs s"
  "sd_sent (notified a alive s) = sd_sent s @ notify_packets a alive s"
  by (simp_all add: notified_def change_advert_def)

lemma announced_packets: "announced a s0 n k s \<Longrightarrow> notify_packets a alive s = notify_packets a alive s0"
  by (auto simp: announced_def intro: notify_packets_cong)

lemma change_advert_sel [simp]:
  "sd_adverts (change_advert a f s) a = f (sd_adverts s a)" "sd_interfaces (change_advert a f s) = sd_interfaces s"
  "sd_advert_ptrs (change_advert a f s) = sd_advert_ptrs s" "sd_sent (change_advert a f s) = sd_sent s"
  by (simp_all add: change_advert_def)

lemma announced_step:
  assumes "announced a s0 n (k + 2) s" "ad_level (sd_adverts s0 a) = RUNNING \<or> n < 3" "n + 1 < 2 ^ 64"
  shows "\<exists>s'. advert_expires a s = Inr s' \<and> announced a s0 (Suc n) k s'"
proof -
  define ad0 d where "ad0 = sd_adverts s0 a" and "d = TimeSpan_Seconds (int (ad_expires_seconds ad0 div 3))"
  define s1 where "s1 = notified a (ad_level ad0 = RUNNING) s"
  obtain t where t: "sd_adverts s a = ad0\<lparr>ad_announce_count := of_nat n, ad_timer := t\<rparr>" "timer_ready (n \<le> 3) (Suc (Suc k)) t"
    using assms(1) by (auto simp: announced_def ad0_def)
  define ops where "ops = (if 3 \<le> n then [OpSingleShot d] else [])"
  have run: "SsdpAdvert_HandleTimerExpired a s = Inr (ops, s1)"
    using assms(2) count_above_3 [OF assms(3)] unfolding HandleTimerExpired_eq [OF t(1) [symmetric]]
    by (auto simp: ops_def s1_def d_def ad0_def)
  obtain t1 where t1: "timer_ok t1" "tm_level t1 = RUNNING" "tm_callback t1" "unat (tm_cur_seq t1) + Suc k < 2 ^ 64"
      "n \<le> 3 \<longrightarrow> timer_ready True (Suc k) t1"
      "do_timer_event (Timeout (tm_wait_seq t) False ops) t = bind_res (fold_res do_timer_op ops t1) Timer_CheckShutdown"
    using timer_expires [OF t(2)] by blast
  define t2 where "t2 = (if 3 \<le> n then StartSingleShot d t1 else t1)"
  have t2: "timer_ready (Suc n \<le> 3) k t2" "3 \<le> n \<longrightarrow> tm_delay t2 = d"
    using single_shot_ready [OF t1(1-4), of d] t1(5) by (auto simp: t2_def timer_ready_def)
  then have "do_timer_event (Timeout (tm_wait_seq t) False ops) t = Inr t2"
    unfolding t1(6) by (auto simp: ops_def t2_def timer_ready_def)
  then have "advert_expires a s = Inr (change_advert a (\<lambda>ad. ad\<lparr>ad_timer := t2\<rparr>) s1)"
    using advert_expires_eq [OF announced_timer [OF assms(1)] run] by (simp add: s1_def t(1) del: do_timer_event.simps)
  moreover have "announced a s0 (Suc n) k (change_advert a (\<lambda>ad. ad\<lparr>ad_timer := t2\<rparr>) s1)"
    using assms(1) t2 t(1) announced_packets [OF assms(1)] unfolding announced_def concat_replicate_Suc
    by (auto simp: s1_def ad0_def [symmetric] d_def add.commute intro!: exI [of _ t2])
  ultimately show ?thesis
    by blast
qed

lemma announced_steps:
  assumes "announced a s0 n (k + 2 * m) s" "ad_level (sd_adverts s0 a) = RUNNING \<or> n + m \<le> 3" "n + m < 2 ^ 64"
  shows "\<exists>s'. fold_res (\<lambda>_. advert_expires a) (replicate m ()) s = Inr s' \<and> announced a s0 (n + m) k s'"
  using assms
proof (induction m arbitrary: n s)
  case (Suc m)
  obtain s1 where s1: "advert_expires a s = Inr s1" "announced a s0 (Suc n) (k + 2 * m) s1"
    using announced_step [of a s0 n "k + 2 * m" s] Suc.prems by (auto simp: add_ac)
  then show ?case
    using Suc.IH [OF s1(2)] Suc.prems(2,3) by auto
qed simp

text \<open>An advert that can be operated: its timer satisfies the invariant of \<open>Timer\<close>, with room for \<open>n\<close> more waits.\<close>

definition advert_ready :: "nat \<Rightarrow> ssdp_advert \<Rightarrow> bool" where
  "advert_ready n ad \<longleftrightarrow> timer_ok (ad_timer ad) \<and> tm_level (ad_timer ad) = RUNNING \<and> tm_callback (ad_timer ad)
     \<and> unat (tm_cur_seq (ad_timer ad)) + n < 2 ^ 64"

text \<open>
  C22: An advert is announced while it runs. Once started, every expiry of its timer sends one \<open>ssdp:alive\<close> packet on each interface
  on which the advert answers, and nothing else; the timer never stops, and from the fourth expiry on it is set to a
  third of the lifetime that the packets give, so that the advert is renewed before it expires.
\<close>

theorem SsdpAdvert_announces:
  assumes "advert_ready (2 * n + 1) (sd_adverts s a)" "ad_level (sd_adverts s a) = STARTING" "a \<notin> set (sd_advert_ptrs s)"
  shows "\<exists>s1 s'. SsdpAdvert_HandleStarting a s = Inr s1 \<and> fold_res (\<lambda>_. advert_expires a) (replicate n ()) s1 = Inr s'
    \<and> sd_sent s' = sd_sent s @ concat (replicate n (notify_packets a True s))
    \<and> ad_level (sd_adverts s' a) = RUNNING \<and> a \<in> set (sd_advert_ptrs s') \<and> IsRunning (ad_timer (sd_adverts s' a))
    \<and> (3 < n \<longrightarrow> tm_delay (ad_timer (sd_adverts s' a)) = TimeSpan_Seconds (int (ad_expires_seconds (sd_adverts s a) div 3)))"
proof -
  let ?t = "start_periodic (TimeSpan_Seconds 1) (ad_timer (sd_adverts s a))"
  let ?s = "change_advert a (\<lambda>ad. ad\<lparr>ad_announce_count := 0, ad_timer := ?t, ad_level := RUNNING\<rparr>) (s\<lparr>sd_advert_ptrs := insort a (sd_advert_ptrs s)\<rparr>)"
  have ready: "timer_ready True (2 * n) ?t"
    using assms(1) by (intro start_periodic_ready) (auto simp: advert_ready_def)
  have start: "SsdpAdvert_HandleStarting a s = Inr ?s"
    using assms(2,3) by (simp add: SsdpAdvert_HandleStarting_def ptrs_insert_def level_NotifyStarted_def change_advert_def Let_def)
  have "announced a ?s 0 (0 + 2 * n) ?s"
    using ready by (auto simp: announced_def intro!: exI [of _ ?t])
  moreover have "n < 2 ^ 64"
    using assms(1) by (simp add: advert_ready_def)
  ultimately obtain s' where s': "fold_res (\<lambda>_. advert_expires a) (replicate n ()) ?s = Inr s'" "announced a ?s n 0 s'"
    using announced_steps [of a ?s 0 0 n ?s] by auto
  have "notify_packets a True ?s = notify_packets a True s"
    by (simp add: notify_packets_def notify_text_def Let_def)
  then show ?thesis
    using s' start by (auto simp: announced_def timer_ready_def set_insort_key intro!: exI [of _ ?s] exI [of _ s'])
qed

text \<open>
  C21: A stopped advert says goodbye. However far its announcements had come, a stopping advert sends one \<open>ssdp:byebye\<close> packet on
  each interface on which it answers at each of the next four expiries of its timer; it is stopping until
  the fourth, after which it has stopped and its timer is idle, and it answers no search from the moment it is told to stop.
\<close>

theorem SsdpAdvert_says_byebye:
  assumes "advert_ready 10 (sd_adverts s a)" "ad_level (sd_adverts s a) = STOPPING" "a \<in> set (sd_advert_ptrs s)" "distinct (sd_advert_ptrs s)" "n \<le> 4"
  shows "\<exists>s1 s'. SsdpAdvert_HandleStopping a s = Inr s1 \<and> a \<notin> set (sd_advert_ptrs s1)
    \<and> fold_res (\<lambda>_. advert_expires a) (replicate n ()) s1 = Inr s'
    \<and> sd_sent s' = sd_sent s @ concat (replicate n (notify_packets a False s))
    \<and> ad_level (sd_adverts s' a) = (if n = 4 then STOPPED else STOPPING) \<and> (IsRunning (ad_timer (sd_adverts s' a)) \<longleftrightarrow> n < 4)"
proof -
  let ?t = "start_periodic (TimeSpan_Seconds 1) (ad_timer (sd_adverts s a))"
  let ?s = "change_advert a (\<lambda>ad. ad\<lparr>ad_announce_count := 0, ad_timer := ?t\<rparr>) (s\<lparr>sd_advert_ptrs := remove1 a (sd_advert_ptrs s)\<rparr>)"
  have ready: "timer_ready True 9 ?t"
    using assms(1) by (intro start_periodic_ready) (auto simp: advert_ready_def)
  have stop: "SsdpAdvert_HandleStopping a s = Inr ?s"
    using assms(3) by (simp add: SsdpAdvert_HandleStopping_def ptrs_erase_def change_advert_def Let_def)
  have packets: "notify_packets a False ?s = notify_packets a False s"
    by (simp add: notify_packets_def notify_text_def Let_def)
  have gone: "a \<notin> set (sd_advert_ptrs ?s)"
    using assms(4) by simp
  have init: "announced a ?s 0 9 ?s"
    using ready by (auto simp: announced_def intro!: exI [of _ ?t])
  show ?thesis
  proof (cases "n = 4")
    case False
    have "announced a ?s 0 ((9 - 2 * n) + 2 * n) ?s"
      using init assms(5) False by simp
    then obtain s' where "fold_res (\<lambda>_. advert_expires a) (replicate n ()) ?s = Inr s'" "announced a ?s n (9 - 2 * n) s'"
      using announced_steps [of a ?s 0 "9 - 2 * n" n ?s] False assms(5) by auto
    then show ?thesis
      using stop gone packets False assms(2,5)
      by (intro exI [of _ ?s] exI [of _ s']) (auto simp: announced_def timer_ready_def)
  next
    case True
    have "announced a ?s 0 (3 + 2 * 3) ?s"
      using init by simp
    then obtain s3 where s3: "fold_res (\<lambda>_. advert_expires a) (replicate 3 ()) ?s = Inr s3" "announced a ?s 3 3 s3"
      using announced_steps [of a ?s 0 3 3 ?s] by auto
    obtain t where t: "sd_adverts s3 a = (sd_adverts ?s a)\<lparr>ad_announce_count := of_nat 3, ad_timer := t\<rparr>" "timer_ready (3 \<le> (3 :: nat)) 3 t"
      using s3(2) unfolding announced_def by blast
    then have ready3: "timer_ready True (Suc 2) t"
      by (simp add: numeral_3_eq_3 numeral_2_eq_2)
    let ?s4 = "change_advert a (\<lambda>ad. ad\<lparr>ad_level := STOPPED, ad_children_stopped := True\<rparr>) (notified a False s3)"
    have run: "SsdpAdvert_HandleTimerExpired a s3 = Inr ([OpCancel], ?s4)"
      using assms(2) unfolding HandleTimerExpired_eq [OF refl] by (simp add: t(1))
    obtain t1 where t1: "timer_ok t1" "tm_level t1 = RUNNING"
        "do_timer_event (Timeout (tm_wait_seq t) False [OpCancel]) t = bind_res (fold_res do_timer_op [OpCancel] t1) Timer_CheckShutdown"
      using timer_expires [OF ready3] by blast
    have "do_timer_event (Timeout (tm_wait_seq t) False [OpCancel]) t = Inr (Timer_Cancel t1)" and idle: "\<not> IsRunning (Timer_Cancel t1)"
      using t1 timer_ok_cancel [OF t1(1)] by (auto simp: Timer_Cancel_def timer_ok_def IsRunning_def simp del: do_timer_event.simps)
    then have last: "advert_expires a s3 = Inr (change_advert a (\<lambda>ad. ad\<lparr>ad_timer := Timer_Cancel t1\<rparr>) ?s4)"
      using advert_expires_eq [OF announced_timer [OF s3(2)] run] by (simp add: t(1) del: do_timer_event.simps)
    let ?s5 = "change_advert a (\<lambda>ad. ad\<lparr>ad_timer := Timer_Cancel t1\<rparr>) ?s4"
    have "replicate n () = replicate 3 () @ [()]"
      by (simp add: True eval_nat_numeral)
    then have "fold_res (\<lambda>_. advert_expires a) (replicate n ()) ?s = Inr ?s5"
      using s3(1) last by (simp add: fold_res_append)
    moreover have "sd_sent ?s5 = sd_sent s @ concat (replicate n (notify_packets a False s))"
    proof -
      have "sd_sent s3 = sd_sent s @ concat (replicate 3 (notify_packets a False s))"
        using s3(2) packets assms(2) by (simp add: announced_def)
      moreover have "notify_packets a False s3 = notify_packets a False s"
        using announced_packets [OF s3(2)] packets by simp
      moreover have "n = Suc 3"
        by (simp add: True)
      ultimately show ?thesis
        by (simp only: concat_replicate_Suc change_advert_sel notified_sel append_assoc)
    qed
    moreover have "ad_level (sd_adverts ?s5 a) = STOPPED" "\<not> IsRunning (ad_timer (sd_adverts ?s5 a))"
      using idle by simp_all
    ultimately show ?thesis
      using stop gone True by (intro exI [of _ ?s] exI [of _ ?s5]) simp
  qed
qed

lemma example_advert_ready: "n < 1000 \<Longrightarrow> advert_ready n example_advert"
  using timer_ok_init [of True 0 False 0 0] by (simp add: advert_ready_def example_advert_def) (simp add: Timer_def)

theorem SsdpAdvert_announces_witness:
  "\<exists>s1 s'. SsdpAdvert_HandleStarting 5 (example_ssdp\<lparr>sd_adverts := (\<lambda>_. example_advert\<lparr>ad_level := STARTING\<rparr>), sd_advert_ptrs := []\<rparr>) = Inr s1
    \<and> fold_res (\<lambda>_. advert_expires 5) (replicate 6 ()) s1 = Inr s' \<and> length (sd_sent s') = 6
    \<and> tm_delay (ad_timer (sd_adverts s' 5)) = TimeSpan_Seconds 600"
proof -
  let ?s = "example_ssdp\<lparr>sd_adverts := (\<lambda>_. example_advert\<lparr>ad_level := STARTING\<rparr>), sd_advert_ptrs := []\<rparr>"
  have "advert_ready (2 * 6 + 1) (sd_adverts ?s 5)"
    using example_advert_ready [of 13] by (simp add: advert_ready_def)
  moreover have "length (notify_packets 5 True ?s) = 1" "sd_sent ?s = []" "ad_expires_seconds (sd_adverts ?s 5) div 3 = 600"
    by (simp_all add: notify_packets_def example_ssdp_def example_advert_def Let_def)
  ultimately show ?thesis
    using SsdpAdvert_announces [of 6 ?s 5]
    by (auto simp: length_concat sum_list_replicate map_replicate_const)
qed

theorem SsdpAdvert_says_byebye_witness:
  "\<exists>s1 s'. SsdpAdvert_HandleStopping 5 (example_ssdp\<lparr>sd_adverts := (\<lambda>_. example_advert\<lparr>ad_level := STOPPING\<rparr>)\<rparr>) = Inr s1
    \<and> fold_res (\<lambda>_. advert_expires 5) (replicate 4 ()) s1 = Inr s' \<and> length (sd_sent s') = 4 \<and> ad_level (sd_adverts s' 5) = STOPPED"
proof -
  let ?s = "example_ssdp\<lparr>sd_adverts := (\<lambda>_. example_advert\<lparr>ad_level := STOPPING\<rparr>)\<rparr>"
  have "advert_ready 10 (sd_adverts ?s 5)"
    using example_advert_ready [of 10] by (simp add: advert_ready_def)
  moreover have "length (notify_packets 5 False ?s) = 1" "sd_sent ?s = []" "sd_advert_ptrs ?s = [5]"
    by (simp_all add: notify_packets_def example_ssdp_def example_advert_def Let_def)
  ultimately show ?thesis
    using SsdpAdvert_says_byebye [of ?s 5 4] by (auto simp: length_concat sum_list_replicate map_replicate_const)
qed

end
