(* ===== verification/Spec2Isabelle.thy ===== *)
theory Spec2Isabelle
  imports RoundTrip ReadTypes MsgTypes Application IdlCompiler RunTimeScripts TextCoding Uuid Timer ThreadPool HttpServer SsdpAnnounce
begin

text \<open>
  A verification library for camplight (paths are under \<open>src/src/\<close>).

  The repository holds a set of C++ libraries (\<open>BBoxUtils\<close>, \<open>BBoxEnc\<close>, \<open>BBoxRt\<close>,
  \<open>BBoxHttp\<close>), the IDL compiler that generates marshalling code for them, and the CampLight
  application that drives LED strips. The theories model the code of the libraries and of
  the compiler; each says at its head which files it is about.

  \<^bold>\<open>Foundations.\<close> \<open>Prelude\<close> has the result type of the models, \<open>error + 'a\<close>, with its bind
  and the fold of a fallible operation over a list; a failed \<open>BBOX_ASSERT\<close>, an abort, an
  uncaught exception and a store outside a buffer are values of \<open>error\<close>. \<open>ByteSink\<close> and
  \<open>Frame\<close> are interfaces as locales; \<open>StdMap\<close> is \<open>std::map\<close>.

  \<^bold>\<open>Binary marshalling\<close> (\<open>BBoxEnc/bbox/enc\<close>). \<open>ToBinary\<close> is the growing or fixed output
  buffer with an abstract writer it refines, \<open>FromBinary\<close> the reader, \<open>Marshal\<close> and
  \<open>Unmarshal\<close> the templates that write and read typed values, as functions over a datatype of
  marshallable types; as in the code a read has a destination with an old value, which a null message
  pointer leaves alone. \<open>RoundTrip\<close> is the proof that what is written is read back, into a default
  variable and over an old value, and \<open>ReadTypes\<close> that what is read has the type that was asked for, whatever the bytes.
  \<open>MsgTypes\<close> is the registry of message types. A message can hold messages, so reading them
  takes fuel; one more than the number of unread bytes is enough, because every object
  consumes its type name (\<open>fb_Read_terminates\<close>).

  \<^bold>\<open>Text formats\<close> (\<open>BBoxEnc/bbox/enc\<close>). \<open>TextFormat\<close> has the templates that write and read a typed
  value through the virtual functions of a format, as functions over a datatype of types and a
  record of functions. \<open>TextDocument\<close> is the document that a value has, and states as locales what a
  format's writer, reader and error state promise; the templates are proved against these once. \<open>Json\<close>
  and \<open>Xml\<close> are the two formats, \<open>ToJson\<close>, \<open>FromJson\<close>, \<open>ToXml\<close> and \<open>FromXml\<close>, with the
  interpretations. \<open>TinyXml\<close> is the vendored XML library as far as these use it: the strings of a
  document, the nodes, the parser, whose failure is an error of the library or a fault, and the printer; \<open>XmlText\<close> puts the pieces together, from a value
  to the text of a document and back. Decoding a message takes fuel, one for each level of messages
  in messages. The parser of the JSON library is a parameter, and what it makes of a text a
  hypothesis. \<open>MethodSet\<close> (\<open>api/\<close>) has the methods whose parameters come from a decoder and whose
  results go to an encoder; a call through JSON is the call of the method (\<open>Json_call\<close>).

  \<^bold>\<open>Text\<close> (\<open>BBoxUtils/bbox\<close>). \<open>Format\<close> is \<open>bbox::Format\<close> with the parts of \<open>std::ostream\<close> it uses.
  \<open>Base16\<close>, \<open>Base64\<close>, \<open>TextCoding\<close> and \<open>Uuid\<close> are the classes of these names: the encodings against
  their specification (that of Base64 written after RFC 4648, with the alphabet as ranges of letters and digits), decoding as the inverse, and what decoding accepts beyond it. \<open>Errors\<close> is
  \<open>Error\<close> and \<open>Exception\<close>.

  \<^bold>\<open>The IDL compiler\<close> (\<open>Applications/BBoxEncCompiler\<close>). \<open>Token\<close>, \<open>Tokenizer\<close>, \<open>IdlTypes\<close>
  (namespaces, types, resolution), \<open>IdlGenerate\<close> (the generated C++ and TypeScript),
  \<open>IdlParser\<close> (recursive descent over a state with the tokenizer, the peeked token and the
  compiler) and \<open>IdlCompiler\<close> (the driver). \<open>ParserLogic\<close> is a small logic for fallible
  parsers, stated as a locale; \<open>IdlInvariant\<close> is the invariant of the compiler's state and
  \<open>IdlParserProofs\<close> interprets the logic on it. The loops of the parser take the length of
  the source as fuel; every turn consumes a token (\<open>CompileSources_total\<close>).

  \<^bold>\<open>The run time\<close> (\<open>BBoxRt/bbox/rt\<close>). \<open>RunTime\<close> models resources, services, references and
  the proactor: the run levels and the work items that carry a resource from one to the
  next. \<open>Life\<close> is the abstract life cycle, a transition relation on the levels with its
  invariant; \<open>RunTimeProofs\<close>, \<open>RunTimeSetup\<close> and \<open>RunTimeSteps\<close> show that the work items and the
  construction, connection and destruction of resources keep the invariant of the data and
  follow the abstract steps, and \<open>RunTimeScripts\<close> states the results for every run of clients
  that keep to the protocol. The sets of pointers are lists, whose order stands for the
  order of the addresses. \<open>TimeSpan\<close> is the class of that name.

  \<^bold>\<open>Clients of the run time.\<close> \<open>Client\<close> is the part of a resource that its own code sees: the run level,
  and the notifications that change it, with a lemma that they are those of \<open>RunTime\<close>. \<open>Timer\<close>,
  \<open>OneShotWork\<close> and \<open>ThreadPool\<close> are classes that put off their stop until no handler is left that could
  call into them. Their theorems are about every run of events: what the owner does, which
  outstanding handler the library calls next and with which result, and when the run time stops
  the resource. In \<open>ThreadPool\<close> the steps of the proactor's and the worker's thread interleave.
  Counters are 64-bit words; the theorems bound the number of operations of a run by 2^64 where
  a counter would wrap.

  \<^bold>\<open>The HTTP server\<close> (\<open>BBoxHttp/bbox/http\<close>). \<open>Http\<close> has the operations of requests, responses, resource
  files and connections; \<open>HttpConnection\<close> the life of a connection; \<open>WebSocket\<close> a connection that was
  upgraded; \<open>HttpDispatch\<close> the registered handlers in the order of the server's set, with
  the laws of that order as a locale; \<open>HttpServer\<close> composes listeners, connections, web sockets,
  handlers and the one-shot work that checks for the end of a stop. The parsing of messages is
  the library's, so a request is a parameter of the event that delivers it.

  \<^bold>\<open>Service discovery\<close> (\<open>BBoxRt/bbox/rt/net/ssdp\<close>). \<open>Ssdp\<close> has the operations of the discovery service, of its adverts
  and of its searches, composed of \<open>Timer\<close> and \<open>OneShotWork\<close>. \<open>SsdpProofs\<close> follows the interfaces through changes of the network
  and the stop of the service; \<open>SsdpPackets\<close> follows a packet from its sender to the table of a search; \<open>SsdpAnnounce\<close>
  is the life of an advert, by an invariant indexed by the expiries of its timer. Sockets are I/O, so the packets sent are recorded
  and a received packet is an argument; the library's parser of packets is a parameter, of
  which the theorems ask that it reads back the texts they name.

  \<^bold>\<open>The CampLight application\<close> (\<open>Applications/CampLight/camplight\<close>). From the bottom up:
  \<open>TextNum\<close> is the text of numbers (\<open>BBoxUtils/bbox/ToString.h\<close>, \<open>FromString.h\<close>); \<open>Color\<close>,
  \<open>HsvColor\<close> and \<open>Grid\<close> are the colours and the 9 by 9 grid, the conversion from HSV with every
  rounding of IEEE single and double precision written out over the rationals; \<open>Render\<close> states
  as locales what a pattern and a transition promise to the code that draws them, \<open>Patterns\<close>
  and \<open>Transitions\<close> are the classes that implement them and interpret the locales;
  \<open>TransitionPattern\<close> changes from one pattern to the next and is proved from the two interfaces
  alone; \<open>Factories\<close> are the named patterns, transitions and sequences, \<open>Sequence\<close> goes round
  the entries of a sequence, and \<open>Renderer\<close> is the service that draws a frame every 33 ms,
  copies it to the LED strips and shows it on the web page. The parameters of these theories
  are the image of the font, 49152 bytes of data (\<open>font_ok\<close>), the results of \<open>rand()\<close>, of which
  the termination of the random dither needs that every LED comes up again and again
  (\<open>fair\<close>), and the LED driver library, whose successful initialisation allocates the strips
  (\<open>driver_ok\<close>). The loop of the random dither is a \<open>partial_function\<close>; that it returns is part
  of \<open>RenderTransition_ends\<close>, with the picture that belongs to each time. \<open>Application\<close> is the web interface: it puts together the requests of
  \<open>Http\<close>, the XML of \<open>XmlText\<close>, the methods of \<open>MethodSet\<close> and the renderer, from the text of a request to the
  change of the sequence and the text of the answer. The resource files are a parameter, as the
  build generates them.

  \<^bold>\<open>Not modelled.\<close> Vendored code (\<open>ThirdParty\<close>) other than the XML library, the Windows parts, sockets and files, the HTTP
  clients, the audio code, the debug reports, the TypeScript client and the generator of project files;
  the floating-point output of \<open>Format\<close>; the types that have a text of their own in the text
  formats (\<open>ViaBinaryCustomMethodsAndToFromString\<close>).
\<close>

end
